(* ===== verification/Prelude.thy ===== *)
theory Prelude
  imports Main "HOL-Library.Word"
begin

unbundle bit_operations_syntax

text \<open>
  The prelude of the development: the machine types of the C sources, the named collections
  the component theories fill, and the facts on lists, bits and words that several components
  share. Nothing in this theory is specific to one component.
\<close>

section \<open>Machine types\<close>

text \<open>
  \<open>INT\<close>, \<open>ID\<close>, \<open>ER\<close> and \<open>PRI\<close> are 32-bit signed integers in the sources; they are \<open>int\<close>
  here, and the invariants of the components bound the counters that are added to.
  \<open>UINT\<close> and \<open>ATR\<close> are bit patterns and stay words. An address is a \<open>nat\<close>, \<open>NULL\<close> is 0.
\<close>

type_synonym ID = int
type_synonym ER = int
type_synonym UINT = "32 word"
type_synonym RNO = "32 word"
type_synonym ATR = "32 word"
type_synonym UB = "8 word"
type_synonym LSYSTIM = "64 word"
type_synonym RELTIM_U = "64 word"
type_synonym addr = nat

abbreviation (input) NULL :: addr where
  "NULL \<equiv> 0"

text \<open>Does an attribute (or mode) word have a bit of a mask?  The C idiom \<open>(w & m) != 0\<close>.\<close>

definition has :: "'a::len word \<Rightarrow> 'a word \<Rightarrow> bool" where
  "has w m \<longleftrightarrow> w AND m \<noteq> 0"

section \<open>Collections\<close>

named_theorems frame_simps
  \<open>what an operation leaves unchanged\<close>
named_theorems que_simps
  \<open>what an operation does to the task queues\<close>

section \<open>Lists\<close>

text \<open>Insertion in front of the first element with a greater key: the loop shape of
  \<open>queue_insert_tpri\<close>, \<open>queue_insert_mpri\<close> and \<open>enqueue_tmeb\<close>.\<close>

fun insert_before :: "('a \<Rightarrow> bool) \<Rightarrow> 'a \<Rightarrow> 'a list \<Rightarrow> 'a list" where
  "insert_before gt x [] = [x]"
| "insert_before gt x (y # ys) = (if gt y then x # y # ys else y # insert_before gt x ys)"

lemma set_insert_before [simp]: "set (insert_before gt x ys) = insert x (set ys)"
  by (induction ys) auto

lemma length_insert_before [simp]: "length (insert_before gt x ys) = Suc (length ys)"
  by (induction ys) auto

lemma distinct_insert_before [simp]:
  "distinct (insert_before gt x ys) \<longleftrightarrow> x \<notin> set ys \<and> distinct ys"
  by (induction ys) auto

lemma insert_before_not_Nil [simp]: "insert_before gt x ys \<noteq> []"
  by (cases ys) auto

lemma insert_before_split:
  "insert_before gt x ys = takeWhile (\<lambda>y. \<not> gt y) ys @ x # dropWhile (\<lambda>y. \<not> gt y) ys"
  by (induction ys) auto

lemma removeAll_insert_before:
  "x \<notin> set ys \<Longrightarrow> removeAll x (insert_before gt x ys) = ys"
  by (induction ys) auto

lemma filter_insert_before:
  "\<not> P x \<Longrightarrow> filter P (insert_before gt x ys) = filter P ys"
  by (induction ys) auto

text \<open>Insertion by key keeps a list sorted, and keeps the order of equal keys (the new
  element goes behind them).\<close>

lemma sorted_insert_before:
  fixes key :: "'a \<Rightarrow> 'k::linorder"
  assumes "sorted (map key ys)"
  shows "sorted (map key (insert_before (\<lambda>y. key y > key x) x ys))"
  using assms
proof (induction ys)
  case Nil
  then show ?case by simp
next
  case (Cons y ys)
  then show ?case
    by (cases "key y > key x") (auto simp: insert_before_split dest: set_takeWhileD set_dropWhileD)
qed

lemma insert_before_cong:
  "(\<And>y. y \<in> set ys \<Longrightarrow> gt y = gt' y) \<Longrightarrow> insert_before gt x ys = insert_before gt' x ys"
  by (induction ys) auto

lemma sorted_map_removeAll:
  fixes key :: "'a \<Rightarrow> 'k::linorder"
  shows "sorted (map key xs) \<Longrightarrow> sorted (map key (removeAll x xs))"
  by (induction xs) auto

lemma removeAll_hd_distinct: "distinct (x # xs) \<Longrightarrow> removeAll x (x # xs) = xs"
  by simp

lemma length_removeAll_distinct: "x \<in> set xs \<Longrightarrow> distinct xs \<Longrightarrow> Suc (length (removeAll x xs)) = length xs"
  by (induction xs) (auto simp: removeAll_id)

section \<open>Words\<close>

lemma and_push_one_iff:
  fixes w :: "'a::len word"
  assumes "n < LENGTH('a)"
  shows "w AND push_bit n 1 \<noteq> 0 \<longleftrightarrow> bit w n"
proof
  assume *: "w AND push_bit n 1 \<noteq> 0"
  show "bit w n"
  proof (rule ccontr)
    assume "\<not> bit w n"
    then have "w AND push_bit n 1 = 0"
      by (intro bit_word_eqI) (auto simp: bit_and_iff bit_exp_iff)
    with * show False by simp
  qed
next
  assume "bit w n"
  then have "bit (w AND push_bit n 1) n"
    using assms by (simp add: bit_and_iff bit_exp_iff)
  then show "w AND push_bit n 1 \<noteq> 0" by auto
qed

lemma sint_small32:
  assumes "uint (w :: 32 word) < 2 ^ 31"
  shows "sint w = uint w"
proof -
  have "signed_take_bit 31 (uint w) = uint w"
    using assms order_trans [OF _ uint_ge_0 [of w], of "- (2 ^ 31)"]
    by (intro signed_take_bit_int_eq_self) simp_all
  then show ?thesis by (simp add: sint_uint)
qed

text \<open>Rounding down to a multiple of a power of two by masking.\<close>

lemma uint_and_not_mask32:
  assumes "0 \<le> n" and "n < 2 ^ 32"
  shows "uint ((word_of_int n :: 32 word) AND NOT (mask k)) = n div 2 ^ k * 2 ^ k"
proof -
  have "(word_of_int n :: 32 word) AND NOT (mask k) = push_bit k (drop_bit k (word_of_int n))"
    by (rule bit_word_eqI) (auto simp: bit_simps)
  then have "uint ((word_of_int n :: 32 word) AND NOT (mask k)) = take_bit 32 (push_bit k (drop_bit k n))"
    using assms by (simp add: unsigned_push_bit_eq unsigned_drop_bit_eq uint_word_of_int_eq take_bit_int_eq_self)
  also have "\<dots> = push_bit k (drop_bit k n)"
  proof (rule take_bit_int_eq_self)
    have "n div 2 ^ k * 2 ^ k \<le> n" by (simp add: minus_mod_eq_div_mult [symmetric])
    then show "push_bit k (drop_bit k n) < 2 ^ 32"
      using assms by (simp add: push_bit_eq_mult drop_bit_eq_div)
  qed (use assms in \<open>simp add: push_bit_eq_mult drop_bit_eq_div pos_imp_zdiv_nonneg_iff\<close>)
  finally show ?thesis by (simp add: push_bit_eq_mult drop_bit_eq_div)
qed

text \<open>The error codes of \<open>include/tk/errno.h\<close>: \<open>ERCD(mer, ser)\<close>.\<close>

definition ERCD :: "int \<Rightarrow> int \<Rightarrow> ER" where
  "ERCD mer ser =
     sint ((push_bit 16 (word_of_int mer) OR (word_of_int ser AND 0xFFFF)) :: 32 word)"

definition E_OK :: ER where "E_OK = 0"
definition E_SYS :: ER where "E_SYS = ERCD (-5) 0"
definition E_NOCOP :: ER where "E_NOCOP = ERCD (-6) 0"
definition E_NOSPT :: ER where "E_NOSPT = ERCD (-9) 0"
definition E_RSATR :: ER where "E_RSATR = ERCD (-11) 0"
definition E_PAR :: ER where "E_PAR = ERCD (-17) 0"
definition E_ID :: ER where "E_ID = ERCD (-18) 0"
definition E_CTX :: ER where "E_CTX = ERCD (-25) 0"
definition E_ILUSE :: ER where "E_ILUSE = ERCD (-28) 0"
definition E_NOMEM :: ER where "E_NOMEM = ERCD (-33) 0"
definition E_LIMIT :: ER where "E_LIMIT = ERCD (-34) 0"
definition E_OBJ :: ER where "E_OBJ = ERCD (-41) 0"
definition E_NOEXS :: ER where "E_NOEXS = ERCD (-42) 0"
definition E_QOVR :: ER where "E_QOVR = ERCD (-43) 0"
definition E_RLWAI :: ER where "E_RLWAI = ERCD (-49) 0"
definition E_TMOUT :: ER where "E_TMOUT = ERCD (-50) 0"
definition E_DLT :: ER where "E_DLT = ERCD (-51) 0"
definition E_DISWAI :: ER where "E_DISWAI = ERCD (-52) 0"

lemma ercd_values:
  "E_OK = 0" "E_SYS = - 5 * 65536" "E_NOCOP = - 6 * 65536" "E_NOSPT = - 9 * 65536"
  "E_RSATR = - 11 * 65536" "E_PAR = - 17 * 65536" "E_ID = - 18 * 65536"
  "E_CTX = - 25 * 65536" "E_ILUSE = - 28 * 65536" "E_NOMEM = - 33 * 65536"
  "E_LIMIT = - 34 * 65536" "E_OBJ = - 41 * 65536" "E_NOEXS = - 42 * 65536"
  "E_QOVR = - 43 * 65536" "E_RLWAI = - 49 * 65536" "E_TMOUT = - 50 * 65536"
  "E_DLT = - 51 * 65536" "E_DISWAI = - 52 * 65536"
  by (simp_all add: E_OK_def E_SYS_def E_NOCOP_def E_NOSPT_def E_RSATR_def E_PAR_def E_ID_def
      E_CTX_def E_ILUSE_def E_NOMEM_def E_LIMIT_def E_OBJ_def E_NOEXS_def E_QOVR_def E_RLWAI_def
      E_TMOUT_def E_DLT_def E_DISWAI_def ERCD_def)

text \<open>
  The result of a system call. \<open>Ret e\<close> is a call that returned \<open>e\<close>; \<open>Blocked\<close> is a call
  whose task was put in the WAIT state: it returns, once the task is released and dispatched
  again, the value the releasing operation stored through \<open>tcb->wercd\<close>. \<open>Retry\<close> is a call that
  found an object locked: its task waits for the lock and starts the call again when it runs.
\<close>

datatype sysret = Ret ER | Blocked | Retry

text \<open>\<open>STRNCPY\<close> into an object name of \<open>OBJECT_NAME_LENGTH\<close> bytes (\<open>tkl_strncpy\<close>):
  copy up to the first NUL, fill the rest with NUL.\<close>

definition OBJECT_NAME_LENGTH :: nat where "OBJECT_NAME_LENGTH = 8"

fun tkl_strncpy :: "UB list \<Rightarrow> nat \<Rightarrow> UB list" where
  "tkl_strncpy src 0 = []"
| "tkl_strncpy [] (Suc n) = 0 # tkl_strncpy [] n"
| "tkl_strncpy (c # src) (Suc n) =
     (if c = 0 then 0 # tkl_strncpy [] n else c # tkl_strncpy src n)"

lemma length_tkl_strncpy [simp]: "length (tkl_strncpy src n) = n"
  by (induction src n rule: tkl_strncpy.induct) auto

lemma tkl_strncpy_Nil: "tkl_strncpy [] n = replicate n 0"
  by (induction n) auto

end
