(* ===== verification/Queue.thy ===== *)
theory Queue
  imports Prelude
begin

text \<open>
  The intrusive doubly linked rings of \<open>include/sys/queue.h\<close>, at the level of the \<open>next\<close> and
  \<open>prev\<close> pointers: the operations as the C code performs them, and the refinement lemmas that
  let every other theory speak of a queue as the list of its entries. \<open>ring m q xs\<close> says that
  the ring of the head \<open>q\<close> holds exactly the entries \<open>xs\<close>, in this order; \<open>rings\<close> relates all
  the queues of the kernel to the map \<open>qid \<Rightarrow> list\<close> the state of \<open>Kernel_State\<close> uses.
\<close>

section \<open>The operations on the links\<close>

record 'n qmem =
  nxt :: "'n \<Rightarrow> 'n"
  prv :: "'n \<Rightarrow> 'n"

definition QueInit :: "'n \<Rightarrow> 'n qmem \<Rightarrow> 'n qmem" where
  "QueInit q m = m\<lparr>nxt := (nxt m)(q := q), prv := (prv m)(q := q)\<rparr>"

definition isQueEmpty :: "'n \<Rightarrow> 'n qmem \<Rightarrow> bool" where
  "isQueEmpty q m \<longleftrightarrow> nxt m q = q"

text \<open>The four assignments in the order of the source.\<close>

definition QueInsert :: "'n \<Rightarrow> 'n \<Rightarrow> 'n qmem \<Rightarrow> 'n qmem" where
  "QueInsert entry q m =
     (let m1 = m\<lparr>prv := (prv m)(entry := prv m q)\<rparr>;
          m2 = m1\<lparr>nxt := (nxt m1)(entry := q)\<rparr>;
          m3 = m2\<lparr>nxt := (nxt m2)(prv m2 q := entry)\<rparr>
      in m3\<lparr>prv := (prv m3)(q := entry)\<rparr>)"

definition QueRemove :: "'n \<Rightarrow> 'n qmem \<Rightarrow> 'n qmem" where
  "QueRemove entry m =
     (if nxt m entry \<noteq> entry then
        (let m1 = m\<lparr>nxt := (nxt m)(prv m entry := nxt m entry)\<rparr>
         in m1\<lparr>prv := (prv m1)(nxt m1 entry := prv m1 entry)\<rparr>)
      else m)"

definition QueRemoveNext :: "'n \<Rightarrow> 'n qmem \<Rightarrow> 'n option \<times> 'n qmem" where
  "QueRemoveNext q m =
     (if nxt m q = q then (None, m)
      else (let entry = nxt m q;
                m1 = m\<lparr>nxt := (nxt m)(q := nxt m entry)\<rparr>
            in (Some entry, m1\<lparr>prv := (prv m1)(nxt m1 entry := q)\<rparr>)))"

text \<open>
  The search loop of \<open>queue_insert_tpri\<close> (\<open>wait.h\<close>) and \<open>enqueue_tmeb\<close> (\<open>timer.c\<close>):
  \<open>for (q = start->next; q != end; q = q->next) if (gt q) break;\<close>. Nothing in the loop itself
  bounds it, so it is a partial function; on a ring it returns (\<open>que_search_ring\<close>).
\<close>

partial_function (option) que_search ::
  "('n \<Rightarrow> 'n) \<Rightarrow> ('n \<Rightarrow> bool) \<Rightarrow> 'n \<Rightarrow> 'n \<Rightarrow> 'n option" where
  "que_search next gt stop q =
     (if q = stop then Some q
      else if gt q then Some q
      else que_search next gt stop (next q))"

definition queue_insert_tpri_ptr ::
  "('n \<Rightarrow> bool) \<Rightarrow> 'n \<Rightarrow> 'n \<Rightarrow> 'n qmem \<Rightarrow> 'n qmem option" where
  "queue_insert_tpri_ptr gt tcb q m =
     map_option (\<lambda>pos. QueInsert tcb pos m) (que_search (nxt m) gt q (nxt m q))"

section \<open>Rings\<close>

fun chain :: "'n qmem \<Rightarrow> 'n \<Rightarrow> 'n list \<Rightarrow> 'n \<Rightarrow> bool" where
  "chain m a [] z \<longleftrightarrow> nxt m a = z \<and> prv m z = a"
| "chain m a (x # xs) z \<longleftrightarrow> nxt m a = x \<and> prv m x = a \<and> chain m x xs z"

definition ring :: "'n qmem \<Rightarrow> 'n \<Rightarrow> 'n list \<Rightarrow> bool" where
  "ring m q xs \<longleftrightarrow> distinct (q # xs) \<and> chain m q xs q"

lemma chain_append: "chain m a (us @ y # vs) z \<longleftrightarrow> chain m a us y \<and> chain m y vs z"
  by (induction us arbitrary: a) auto

lemma chain_cong:
  "(\<And>x. x \<in> insert a (set xs) \<Longrightarrow> nxt m' x = nxt m x) \<Longrightarrow>
   (\<And>x. x \<in> insert z (set xs) \<Longrightarrow> prv m' x = prv m x) \<Longrightarrow>
   chain m' a xs z = chain m a xs z"
  by (induction xs arbitrary: a) auto

lemma chain_last: "chain m a xs z \<Longrightarrow> prv m z = last (a # xs) \<and> nxt m (last (a # xs)) = z"
  by (induction xs arbitrary: a) auto

lemma chain_hd: "chain m a xs z \<Longrightarrow> nxt m a = hd (xs @ [z])"
  by (cases xs) auto

lemma chain_insert:
  assumes "chain m a us y" "e \<notin> insert a (set us)" "e \<noteq> y" "y \<notin> set us" "distinct (a # us)"
  shows "chain (QueInsert e y m) a (us @ [e]) y"
  using assms
proof (induction us arbitrary: a)
  case Nil
  then show ?case by (auto simp: QueInsert_def Let_def)
next
  case (Cons x us)
  have l: "prv m y = last (x # us)"
    using Cons.prems(1) chain_last by fastforce
  have "chain (QueInsert e y m) x (us @ [e]) y"
    using Cons.prems by (intro Cons.IH) auto
  moreover have "a \<noteq> last (x # us)"
    using Cons.prems(5) by (metis distinct.simps(2) last_in_set list.distinct(1))
  ultimately show ?case
    using Cons.prems l by (auto simp: QueInsert_def Let_def)
qed

lemma ring_insert:
  assumes r: "ring m q (us @ vs)" and e: "e \<noteq> q" "e \<notin> set us" "e \<notin> set vs"
  shows "ring (QueInsert e (hd (vs @ [q])) m) q (us @ e # vs)"
proof (cases vs)
  case Nil
  with r e have c: "chain m q us q" and d: "distinct (q # us)" by (auto simp: ring_def)
  show ?thesis
  proof (cases us rule: rev_cases)
    case (snoc ws w)
    with c d have "chain m q ws w" "chain m w [] q" by (auto simp: chain_append)
    then have "chain (QueInsert e q m) q ws w"
      using d e snoc by (subst chain_cong [of _ _ _ m]) (auto simp: QueInsert_def Let_def)
    then show ?thesis
      using d e snoc Nil \<open>chain m w [] q\<close>
      by (auto simp: ring_def chain_append QueInsert_def Let_def)
  qed (use c d e Nil in \<open>auto simp: ring_def QueInsert_def Let_def\<close>)
next
  case (Cons y ws)
  with r have c1: "chain m q us y" and c2: "chain m y ws q" and d: "distinct (q # us @ y # ws)"
    by (auto simp: ring_def chain_append)
  have l: "prv m y = last (q # us)"
    using c1 by (simp add: chain_last)
  have li: "last (q # us) \<notin> insert y (set ws)"
    using d last_in_set [of "q # us"] by auto
  have "chain (QueInsert e y m) q (us @ [e]) y"
    using c1 d e Cons by (intro chain_insert) auto
  moreover have "chain (QueInsert e y m) y ws q"
    using c2 d e Cons l li by (subst chain_cong [of _ _ _ m]) (auto simp: QueInsert_def Let_def)
  ultimately show ?thesis
    using d e Cons by (auto simp: ring_def chain_append)
qed

corollary ring_insert_tail:
  "ring m q xs \<Longrightarrow> e \<noteq> q \<Longrightarrow> e \<notin> set xs \<Longrightarrow> ring (QueInsert e q m) q (xs @ [e])"
  using ring_insert [of m q xs "[]" e] by simp

lemma ring_nxt_neq: "ring m q xs \<Longrightarrow> xs \<noteq> [] \<Longrightarrow> x \<in> insert q (set xs) \<Longrightarrow> nxt m x \<noteq> x"
proof -
  assume r: "ring m q xs" and ne: "xs \<noteq> []" and x: "x \<in> insert q (set xs)"
  show ?thesis
  proof (cases "x = q")
    case True
    with r ne show ?thesis by (cases xs) (auto simp: ring_def)
  next
    case False
    with x obtain us vs where xs: "xs = us @ x # vs" by (auto dest: split_list)
    with r have "chain m x vs q" "distinct (q # us @ x # vs)" by (auto simp: ring_def chain_append)
    then show ?thesis by (cases vs) auto
  qed
qed

lemma ring_remove:
  assumes r: "ring m q (us @ e # vs)"
  shows "ring (QueRemove e m) q (us @ vs)"
proof -
  from r have c1: "chain m q us e" and c2: "chain m e vs q" and d: "distinct (q # us @ e # vs)"
    by (auto simp: ring_def chain_append)
  have ne: "nxt m e \<noteq> e" using ring_nxt_neq [OF r] by simp
  let ?p = "last (q # us)" and ?n = "hd (vs @ [q])"
  have p: "prv m e = ?p" and n: "nxt m e = ?n"
    using c1 c2 by (simp_all add: chain_last chain_hd)
  have pin: "?p \<in> insert q (set us)" using last_in_set [of "q # us"] by simp
  have pe: "?p \<noteq> e" using pin d by auto
  have m': "QueRemove e m = m\<lparr>nxt := (nxt m)(?p := ?n), prv := (prv m)(?n := ?p)\<rparr>"
    using ne p n pe by (auto simp: QueRemove_def Let_def)
  have split: "us = [] \<or> (\<exists>ws w. us = ws @ [w])" by (cases us rule: rev_cases) auto
  have A: "chain (QueRemove e m) q us ?n"
    using split
  proof
    assume "us = []" then show ?thesis by (auto simp: m')
  next
    assume "\<exists>ws w. us = ws @ [w]"
    then obtain ws w where us: "us = ws @ [w]" by blast
    then have cw: "chain m q ws w" using c1 by (simp add: chain_append)
    have nw: "?n \<notin> insert w (set ws)" using d us by (cases vs) auto
    have "chain (QueRemove e m) q ws w"
      using cw d nw us by (subst chain_cong [of _ _ _ m]) (auto simp: m')
    then show ?thesis using us by (auto simp: chain_append m')
  qed
  show ?thesis
  proof (cases vs)
    case Nil
    with A d show ?thesis by (auto simp: ring_def)
  next
    case (Cons y ws)
    have "chain (QueRemove e m) y ws q"
      using c2 Cons d pin by (subst chain_cong [of _ _ _ m]) (auto simp: m')
    with A Cons d show ?thesis by (auto simp: ring_def chain_append)
  qed
qed

lemma ring_empty_iff: "ring m q xs \<Longrightarrow> isQueEmpty q m \<longleftrightarrow> xs = []"
  by (cases xs) (auto simp: isQueEmpty_def ring_def)

lemma ring_init: "ring (QueInit q m) q []"
  by (simp add: ring_def QueInit_def)

lemma QueRemoveNext_Cons:
  assumes "ring m q (x # xs)"
  shows "QueRemoveNext q m = (Some x, QueRemove x m)"
proof -
  have "nxt m q = x" "prv m x = q" "x \<noteq> q" "nxt m x \<noteq> x"
    using assms ring_nxt_neq [OF assms] by (auto simp: ring_def)
  then show ?thesis by (simp add: QueRemoveNext_def QueRemove_def Let_def)
qed

lemma QueRemoveNext_Nil: "ring m q [] \<Longrightarrow> QueRemoveNext q m = (None, m)"
  by (simp add: QueRemoveNext_def ring_def)

text \<open>An entry linked to itself (\<open>QueInit\<close> on it) is in no ring: \<open>QueRemove\<close> leaves it.\<close>

lemma QueRemove_self: "nxt m e = e \<Longrightarrow> QueRemove e m = m"
  by (simp add: QueRemove_def)

lemma que_search_chain:
  assumes "chain m a xs z" "z \<notin> set xs"
  shows "que_search (nxt m) gt z (nxt m a) = Some (hd (dropWhile (\<lambda>x. \<not> gt x) xs @ [z]))"
  using assms
proof (induction xs arbitrary: a)
  case Nil
  then show ?case by (simp add: que_search.simps)
next
  case (Cons x xs)
  then show ?case by (subst que_search.simps) auto
qed

lemma que_search_ring:
  "ring m q xs \<Longrightarrow>
   que_search (nxt m) gt q (nxt m q) = Some (hd (dropWhile (\<lambda>x. \<not> gt x) xs @ [q]))"
  by (rule que_search_chain) (auto simp: ring_def)

lemma ring_insert_tpri:
  assumes "ring m q xs" "e \<noteq> q" "e \<notin> set xs"
  shows "\<exists>m'. queue_insert_tpri_ptr gt e q m = Some m' \<and> ring m' q (insert_before gt e xs)"
proof -
  let ?us = "takeWhile (\<lambda>x. \<not> gt x) xs" and ?vs = "dropWhile (\<lambda>x. \<not> gt x) xs"
  have "ring m q (?us @ ?vs)" using assms(1) by simp
  then have "ring (QueInsert e (hd (?vs @ [q])) m) q (?us @ e # ?vs)"
    using assms(2,3) by (intro ring_insert) (auto dest: set_takeWhileD set_dropWhileD)
  then show ?thesis
    using assms(1) by (simp add: queue_insert_tpri_ptr_def que_search_ring insert_before_split)
qed

section \<open>Other rings are untouched\<close>

lemma ring_cong:
  assumes "\<And>x. x \<in> insert q (set xs) \<Longrightarrow> nxt m' x = nxt m x \<and> prv m' x = prv m x"
  shows "ring m' q xs = ring m q xs"
proof -
  have "chain m' q xs q = chain m q xs q"
    by (rule chain_cong) (use assms in auto)
  then show ?thesis by (simp add: ring_def)
qed

lemma QueInsert_frame:
  "x \<noteq> e \<Longrightarrow> x \<noteq> y \<Longrightarrow> x \<noteq> prv m y \<Longrightarrow>
   nxt (QueInsert e y m) x = nxt m x \<and> prv (QueInsert e y m) x = prv m x"
  by (auto simp: QueInsert_def Let_def)

lemma QueRemove_frame:
  "x \<noteq> nxt m e \<Longrightarrow> x \<noteq> prv m e \<Longrightarrow>
   nxt (QueRemove e m) x = nxt m x \<and> prv (QueRemove e m) x = prv m x"
  by (auto simp: QueRemove_def Let_def)

lemma ring_prv_in: "ring m q xs \<Longrightarrow> x \<in> insert q (set xs) \<Longrightarrow> prv m x \<in> insert q (set xs)"
proof -
  assume r: "ring m q xs" and x: "x \<in> insert q (set xs)"
  show ?thesis
  proof (cases "x = q")
    case True
    then show ?thesis using r chain_last [of m q xs q] last_in_set [of "q # xs"]
      by (auto simp: ring_def)
  next
    case False
    with x obtain us vs where xs: "xs = us @ x # vs" by (auto dest: split_list)
    with r have "chain m q us x" by (auto simp: ring_def chain_append)
    then have "prv m x = last (q # us)" by (simp add: chain_last)
    then show ?thesis using xs last_in_set [of "q # us"] by auto
  qed
qed

lemma ring_nxt_in: "ring m q xs \<Longrightarrow> x \<in> insert q (set xs) \<Longrightarrow> nxt m x \<in> insert q (set xs)"
proof -
  assume r: "ring m q xs" and x: "x \<in> insert q (set xs)"
  show ?thesis
  proof (cases "x = q")
    case True
    then show ?thesis using r by (cases xs) (auto simp: ring_def)
  next
    case False
    with x obtain us vs where xs: "xs = us @ x # vs" by (auto dest: split_list)
    with r have "chain m x vs q" by (auto simp: ring_def chain_append)
    then have "nxt m x = hd (vs @ [q])" by (rule chain_hd)
    then show ?thesis using xs by (cases vs) auto
  qed
qed


section \<open>All the queues of the kernel at once\<close>

text \<open>
  A node is the head of a queue (\<open>Inl\<close>) or the link field of an entry (\<open>Inr\<close>). An entry has
  one link field, so it is in at most one queue: \<open>QueRemove\<close> takes only the entry, and finds
  its queue by the links. On lists this is the removal from every queue.
\<close>

definition rings :: "('q + 't) qmem \<Rightarrow> ('q \<Rightarrow> 't list) \<Rightarrow> bool" where
  "rings m Q \<longleftrightarrow>
     (\<forall>q. ring m (Inl q) (map Inr (Q q))) \<and>
     (\<forall>q q' t. t \<in> set (Q q) \<longrightarrow> t \<in> set (Q q') \<longrightarrow> q = q')"

lemma rings_ring: "rings m Q \<Longrightarrow> ring m (Inl q) (map Inr (Q q))"
  by (simp add: rings_def)

lemma rings_insert_gen:
  assumes R: "rings m Q" and t: "\<And>q'. t \<notin> set (Q q')"
    and r: "ring (QueInsert (Inr t) y m) (Inl q) (map Inr (us @ t # vs))"
    and Q: "Q q = us @ vs" and y: "y \<in> insert (Inl q) (Inr ` set (Q q))"
  shows "rings (QueInsert (Inr t) y m) (Q(q := us @ t # vs))"
proof -
  have py: "prv m y \<in> insert (Inl q) (Inr ` set (Q q))"
    using ring_prv_in [OF rings_ring [OF R, of q]] y by simp
  have other: "ring (QueInsert (Inr t) y m) (Inl q') (map Inr (Q q'))" if "q' \<noteq> q" for q'
  proof -
    have dis: "x \<notin> insert (Inl q) (Inr ` set (Q q))" if "x \<in> insert (Inl q') (Inr ` set (Q q'))" for x
      using R \<open>q' \<noteq> q\<close> that by (auto simp: rings_def)
    have "ring (QueInsert (Inr t) y m) (Inl q') (map Inr (Q q')) = ring m (Inl q') (map Inr (Q q'))"
    proof (rule ring_cong)
      fix x :: "'a + 'b" assume x: "x \<in> insert (Inl q') (set (map Inr (Q q')))"
      then have "x \<noteq> Inr t" "x \<noteq> y" "x \<noteq> prv m y" using t dis [of x] y py by auto
      then show "nxt (QueInsert (Inr t) y m) x = nxt m x \<and> prv (QueInsert (Inr t) y m) x = prv m x"
        by (rule QueInsert_frame)
    qed
    with rings_ring [OF R] show ?thesis by simp
  qed
  have mem: "x \<in> set ((Q(q := us @ t # vs)) q1) \<longleftrightarrow> x \<in> set (Q q1) \<or> q1 = q \<and> x = t" for x q1
    using Q by auto
  have one: "x \<in> set (Q q1) \<Longrightarrow> x \<in> set (Q q2) \<Longrightarrow> q1 = q2" for x q1 q2
    using R unfolding rings_def by blast
  have "x \<in> set ((Q(q := us @ t # vs)) q1) \<Longrightarrow> x \<in> set ((Q(q := us @ t # vs)) q2) \<Longrightarrow> q1 = q2" for x q1 q2
    unfolding mem using t one by blast
  moreover have "ring (QueInsert (Inr t) y m) (Inl q') (map Inr ((Q(q := us @ t # vs)) q'))" for q'
    using other [of q'] r by (cases "q' = q") (simp_all del: map_append list.map)
  ultimately show ?thesis unfolding rings_def by blast
qed

lemma rings_insert:
  assumes "rings m Q" "\<And>q'. t \<notin> set (Q q')"
  shows "rings (QueInsert (Inr t) (Inl q) m) (Q(q := Q q @ [t]))"
proof -
  have "ring (QueInsert (Inr t) (Inl q) m) (Inl q) (map Inr (Q q) @ [Inr t])"
    using assms(2) [of q] by (intro ring_insert_tail rings_ring [OF assms(1)]) auto
  then show ?thesis
    using rings_insert_gen [OF assms, of "Inl q" q "Q q" "[]"] by simp
qed

lemma rings_insert_tpri:
  assumes R: "rings m Q" and t: "\<And>q'. t \<notin> set (Q q')"
  shows "\<exists>m'. queue_insert_tpri_ptr (\<lambda>x. \<exists>u. x = Inr u \<and> gt u) (Inr t) (Inl q) m = Some m' \<and>
              rings m' (Q(q := insert_before gt t (Q q)))"
proof -
  let ?g = "\<lambda>x :: 'a + 'b. \<exists>u. x = Inr u \<and> gt u"
  let ?us = "takeWhile (\<lambda>x. \<not> gt x) (Q q)" and ?vs = "dropWhile (\<lambda>x. \<not> gt x) (Q q)"
  let ?y = "hd (map Inr ?vs @ [Inl q]) :: 'a + 'b"
  have r: "ring m (Inl q) (map Inr (Q q))" by (rule rings_ring [OF R])
  have dw: "dropWhile (\<lambda>x. \<not> ?g x) (map Inr (Q q)) = map Inr ?vs"
    by (simp add: dropWhile_map comp_def)
  have eq: "queue_insert_tpri_ptr ?g (Inr t) (Inl q) m = Some (QueInsert (Inr t) ?y m)"
    by (simp only: queue_insert_tpri_ptr_def que_search_ring [OF r] dw option.map)
  have "ring m (Inl q) (map Inr ?us @ map Inr ?vs)"
    using r by (simp only: map_append [symmetric] takeWhile_dropWhile_id)
  then have ri: "ring (QueInsert (Inr t) ?y m) (Inl q) (map Inr (?us @ t # ?vs))"
    using t [of q] ring_insert [of m "Inl q" "map Inr ?us" "map Inr ?vs" "Inr t"]
    by (auto dest: set_takeWhileD set_dropWhileD)
  have y: "?y \<in> insert (Inl q) (Inr ` set (Q q))"
  proof (cases ?vs)
    case (Cons a list)
    then have "a \<in> set (Q q)" by (metis list.set_intros(1) set_dropWhileD)
    with Cons show ?thesis by simp
  next
    case Nil
    then show ?thesis by (simp only: list.map append_Nil list.sel) simp
  qed
  have "rings (QueInsert (Inr t) ?y m) (Q(q := ?us @ t # ?vs))"
    by (rule rings_insert_gen [OF R t ri _ y]) simp
  with eq show ?thesis by (auto simp: insert_before_split)
qed

lemma rings_remove:
  assumes R: "rings m Q" and t: "t \<in> set (Q q)"
  shows "rings (QueRemove (Inr t) m) (\<lambda>q. removeAll t (Q q))"
proof -
  obtain us vs where Q: "Q q = us @ t # vs" using t by (auto dest: split_list)
  have r: "ring m (Inl q) (map Inr (Q q))" by (rule rings_ring [OF R])
  then have d: "t \<notin> set us" "t \<notin> set vs" by (auto simp: ring_def Q)
  have "ring (QueRemove (Inr t) m) (Inl q) (map Inr us @ map Inr vs)"
    using r Q by (intro ring_remove) simp
  then have mine: "ring (QueRemove (Inr t) m) (Inl q) (map Inr (removeAll t (Q q)))"
    using d by (simp add: Q removeAll_id)
  have in_q: "nxt m (Inr t) \<in> insert (Inl q) (Inr ` set (Q q))"
             "prv m (Inr t) \<in> insert (Inl q) (Inr ` set (Q q))"
    using ring_nxt_in [OF r, of "Inr t"] ring_prv_in [OF r, of "Inr t"] t by auto
  have other: "ring (QueRemove (Inr t) m) (Inl q') (map Inr (removeAll t (Q q')))" if "q' \<noteq> q" for q'
  proof -
    have nt: "t \<notin> set (Q q')" using R t that by (auto simp: rings_def)
    have dis: "x \<notin> insert (Inl q) (Inr ` set (Q q))" if "x \<in> insert (Inl q') (Inr ` set (Q q'))" for x
      using R \<open>q' \<noteq> q\<close> that by (auto simp: rings_def)
    have "ring (QueRemove (Inr t) m) (Inl q') (map Inr (Q q')) = ring m (Inl q') (map Inr (Q q'))"
    proof (rule ring_cong)
      fix x :: "'a + 'b" assume "x \<in> insert (Inl q') (set (map Inr (Q q')))"
      then have "x \<noteq> nxt m (Inr t)" "x \<noteq> prv m (Inr t)" using dis [of x] in_q by auto
      then show "nxt (QueRemove (Inr t) m) x = nxt m x \<and> prv (QueRemove (Inr t) m) x = prv m x"
        by (rule QueRemove_frame)
    qed
    with rings_ring [OF R] nt show ?thesis by simp
  qed
  have "\<forall>q'. ring (QueRemove (Inr t) m) (Inl q') (map Inr (removeAll t (Q q')))"
    using mine other by metis
  with R show ?thesis by (auto simp: rings_def)
qed

lemma rings_remove_next:
  assumes "rings m Q"
  shows "case Q q of
      [] \<Rightarrow> QueRemoveNext (Inl q) m = (None, m)
    | t # ts \<Rightarrow> \<exists>m'. QueRemoveNext (Inl q) m = (Some (Inr t), m') \<and>
                   rings m' (\<lambda>q. removeAll t (Q q))"
proof (cases "Q q")
  case Nil
  then show ?thesis using rings_ring [OF assms, of q] by (simp add: QueRemoveNext_Nil)
next
  case (Cons t ts)
  have "ring m (Inl q) (Inr t # map Inr ts)" using rings_ring [OF assms, of q] Cons by simp
  then have "QueRemoveNext (Inl q) m = (Some (Inr t), QueRemove (Inr t) m)"
    by (rule QueRemoveNext_Cons)
  with rings_remove [OF assms, of t q] Cons show ?thesis by simp
qed

lemma rings_empty: "rings m Q \<Longrightarrow> isQueEmpty (Inl q) m \<longleftrightarrow> Q q = []"
  using rings_ring ring_empty_iff by fastforce


section \<open>The interface of the task queues\<close>

text \<open>
  What the kernel relies on: entries are appended, taken from the front, or removed from
  wherever they are. The laws are stated over an abstraction \<open>repr\<close> to lists, so that the
  ring of this theory and the lists of \<open>Kernel_State\<close> are two providers of one interface.
\<close>

fun drain :: "('m \<Rightarrow> 't option \<times> 'm) \<Rightarrow> nat \<Rightarrow> 'm \<Rightarrow> 't list \<times> 'm" where
  "drain pop 0 m = ([], m)"
| "drain pop (Suc n) m =
     (case pop m of
        (None, m') \<Rightarrow> ([], m')
      | (Some t, m') \<Rightarrow> (case drain pop n m' of (ts, m'') \<Rightarrow> (t # ts, m'')))"

locale task_queues =
  fixes repr :: "'m \<Rightarrow> ('q \<Rightarrow> 't list) \<Rightarrow> bool"
    and ins :: "'t \<Rightarrow> 'q \<Rightarrow> 'm \<Rightarrow> 'm"
    and rem :: "'t \<Rightarrow> 'm \<Rightarrow> 'm"
    and pop :: "'q \<Rightarrow> 'm \<Rightarrow> 't option \<times> 'm"
  assumes repr_disjoint: "repr m Q \<Longrightarrow> t \<in> set (Q q) \<Longrightarrow> t \<in> set (Q q') \<Longrightarrow> q = q'"
    and repr_distinct: "repr m Q \<Longrightarrow> distinct (Q q)"
    and repr_ins: "repr m Q \<Longrightarrow> (\<And>q'. t \<notin> set (Q q')) \<Longrightarrow> repr (ins t q m) (Q(q := Q q @ [t]))"
    and repr_rem: "repr m Q \<Longrightarrow> t \<in> set (Q q) \<Longrightarrow> repr (rem t m) (\<lambda>q. removeAll t (Q q))"
    and pop_Nil: "repr m Q \<Longrightarrow> Q q = [] \<Longrightarrow> pop q m = (None, m)"
    and pop_Cons: "repr m Q \<Longrightarrow> Q q = t # ts \<Longrightarrow>
      \<exists>m'. pop q m = (Some t, m') \<and> repr m' (\<lambda>q. removeAll t (Q q))"
begin

lemma fill:
  assumes "repr m Q" "distinct ts" "\<And>t q'. t \<in> set ts \<Longrightarrow> t \<notin> set (Q q')"
  shows "repr (fold (\<lambda>t. ins t q) ts m) (Q(q := Q q @ ts))"
  using assms
proof (induction ts arbitrary: m Q)
  case Nil
  then show ?case by simp
next
  case (Cons t ts)
  have r: "repr (ins t q m) (Q(q := Q q @ [t]))"
    using Cons.prems by (intro repr_ins) auto
  have "repr (fold (\<lambda>t. ins t q) ts (ins t q m))
      ((Q(q := Q q @ [t]))(q := (Q(q := Q q @ [t])) q @ ts))"
    by (rule Cons.IH [OF r]) (use Cons.prems in auto)
  moreover have "(Q(q := Q q @ [t]))(q := (Q(q := Q q @ [t])) q @ ts) = Q(q := Q q @ t # ts)"
    by (rule ext) simp
  ultimately show ?case by (simp only: fold_simps)
qed

lemma removeAll_head:
  assumes "repr m Q" "Q q = t # ts"
  shows "(\<lambda>q'. removeAll t (Q q')) = Q(q := ts)"
proof
  fix q'
  have "t \<notin> set ts" using repr_distinct [OF assms(1), of q] assms(2) by simp
  moreover have "q' \<noteq> q \<Longrightarrow> t \<notin> set (Q q')"
    using repr_disjoint [OF assms(1), of t q q'] assms(2) by auto
  ultimately show "removeAll t (Q q') = (Q(q := ts)) q'" using assms(2) by (simp add: removeAll_id)
qed

lemma drain_all:
  "repr m Q \<Longrightarrow> \<exists>m'. drain (pop q) (length (Q q)) m = (Q q, m') \<and> repr m' (Q(q := []))"
proof (induction "Q q" arbitrary: m Q)
  case Nil
  then have "Q(q := []) = Q" by auto
  with Nil show ?case by simp
next
  case (Cons t ts)
  then obtain m' where p: "pop q m = (Some t, m')" and r: "repr m' (Q(q := ts))"
    using pop_Cons [OF Cons.prems Cons.hyps(2) [symmetric]]
      removeAll_head [OF Cons.prems Cons.hyps(2) [symmetric]] by auto
  from Cons.hyps(1) [OF _ r] obtain m'' where
    "drain (pop q) (length ts) m' = (ts, m'')" "repr m'' (Q(q := []))" by auto
  with p show ?case using Cons.hyps(2) [symmetric] by simp
qed

lemma fifo:
  assumes "repr m Q" "Q q = []" "distinct ts" "\<And>t q'. t \<in> set ts \<Longrightarrow> t \<notin> set (Q q')"
  shows "\<exists>m'. drain (pop q) (length ts) (fold (\<lambda>t. ins t q) ts m) = (ts, m') \<and> repr m' Q"
proof -
  have "repr (fold (\<lambda>t. ins t q) ts m) (Q(q := ts))"
    using fill [OF assms(1,3,4), of q] assms(2) by simp
  moreover have "Q(q := []) = Q" using assms(2) by auto
  ultimately show ?thesis using drain_all [of _ "Q(q := ts)" q] by simp
qed

end

text \<open>The pointer rings provide the interface.\<close>

definition que_pop :: "'q \<Rightarrow> ('q + 't) qmem \<Rightarrow> 't option \<times> ('q + 't) qmem" where
  "que_pop q m = map_prod (map_option projr) id (QueRemoveNext (Inl q) m)"

interpretation ptrq: task_queues rings "\<lambda>t q. QueInsert (Inr t) (Inl q)" "\<lambda>t. QueRemove (Inr t)" que_pop
proof unfold_locales
  fix m :: "('a + 'b) qmem" and Q q t ts
  assume R: "rings m Q" and Q: "Q q = t # ts"
  show "\<exists>m'. que_pop q m = (Some t, m') \<and> rings m' (\<lambda>q. removeAll t (Q q))"
    using rings_remove_next [OF R, of q] Q by (auto simp: que_pop_def)
next
  fix m :: "('a + 'b) qmem" and Q q
  assume "rings m Q" "Q q = []"
  then show "que_pop q m = (None, m)"
    using rings_remove_next [of m Q q] by (simp add: que_pop_def)
next
  fix m :: "('a + 'b) qmem" and Q q
  assume "rings m Q"
  then have "ring m (Inl q) (map Inr (Q q))" by (rule rings_ring)
  then show "distinct (Q q)" by (simp add: ring_def distinct_map)
qed (auto simp: rings_insert rings_remove, auto simp: rings_def)

end
