(* ===== verification/Kernel_State.thy ===== *)
theory Kernel_State
  imports Prelude Queue
begin

text \<open>
  The data every component of the kernel shares (\<open>task.h\<close>, \<open>winfo.h\<close>, \<open>timer.h\<close>,
  \<open>kernel.h\<close>): the task control block, the wait specification and wait information, the task
  queues, the timer event blocks and the state record \<open>kst\<close>, which each component extends with
  its own control blocks. A \<open>TCB*\<close> is the ID of the task (entry \<open>id - MIN_TSKID\<close> of
  \<open>tcb_table\<close>), a null \<open>TCB*\<close> is \<open>None\<close>. The guards of \<open>check.h\<close> are here as well.
\<close>

section \<open>Constants of \<open>include/tk/syscall.h\<close>\<close>

definition TA_TPRI :: ATR where "TA_TPRI = 0x00000001"
definition TA_CNT :: ATR where "TA_CNT = 0x00000002"
definition TA_MPRI :: ATR where "TA_MPRI = 0x00000002"
definition TA_INHERIT :: ATR where "TA_INHERIT = 0x00000002"
definition TA_CEILING :: ATR where "TA_CEILING = 0x00000003"
definition TA_WMUL :: ATR where "TA_WMUL = 0x00000008"
definition TA_NORESIDENT :: ATR where "TA_NORESIDENT = 0x00000010"
definition TA_DSNAME :: ATR where "TA_DSNAME = 0x00000040"
definition TA_NODISWAI :: ATR where "TA_NODISWAI = 0x00000080"
definition TA_RNG3 :: ATR where "TA_RNG3 = 0x00000300"

definition TTW_SLP :: UINT where "TTW_SLP = 0x00000001"
definition TTW_DLY :: UINT where "TTW_DLY = 0x00000002"
definition TTW_SEM :: UINT where "TTW_SEM = 0x00000004"
definition TTW_FLG :: UINT where "TTW_FLG = 0x00000008"
definition TTW_MBX :: UINT where "TTW_MBX = 0x00000040"
definition TTW_MTX :: UINT where "TTW_MTX = 0x00000080"
definition TTW_SMBF :: UINT where "TTW_SMBF = 0x00000100"
definition TTW_RMBF :: UINT where "TTW_RMBF = 0x00000200"
definition TTW_CAL :: UINT where "TTW_CAL = 0x00000400"
definition TTW_ACP :: UINT where "TTW_ACP = 0x00000800"
definition TTW_RDV :: UINT where "TTW_RDV = 0x00001000"
definition TTW_MPF :: UINT where "TTW_MPF = 0x00002000"
definition TTW_MPL :: UINT where "TTW_MPL = 0x00004000"

definition TMO_POL :: int where "TMO_POL = 0"
definition TMO_FEVR :: int where "TMO_FEVR = -1"

definition INT_MAX :: int where "INT_MAX = 2147483647"

definition NUM_PRI :: nat where "NUM_PRI = 140"

section \<open>Task states\<close>

datatype tstat = TS_NONEXIST | TS_READY | TS_WAIT | TS_SUSPEND | TS_WAITSUS | TS_DORMANT

fun tstat_val :: "tstat \<Rightarrow> UB" where
  "tstat_val TS_NONEXIST = 0"
| "tstat_val TS_READY = 1"
| "tstat_val TS_WAIT = 2"
| "tstat_val TS_SUSPEND = 4"
| "tstat_val TS_WAITSUS = 6"
| "tstat_val TS_DORMANT = 8"

text \<open>\<open>(state & TS_WAIT) != 0\<close>\<close>

definition in_wait :: "tstat \<Rightarrow> bool" where
  "in_wait st \<longleftrightarrow> has (tstat_val st) (tstat_val TS_WAIT)"

definition task_alive :: "tstat \<Rightarrow> bool" where
  "task_alive st \<longleftrightarrow>
     has (tstat_val st) (tstat_val TS_READY OR tstat_val TS_WAIT OR tstat_val TS_SUSPEND)"

lemma in_wait_iff: "in_wait st \<longleftrightarrow> st = TS_WAIT \<or> st = TS_WAITSUS"
  by (cases st) (simp_all add: in_wait_def has_def)

lemma in_wait_simps [simp]:
  "in_wait TS_WAIT" "in_wait TS_WAITSUS" "\<not> in_wait TS_READY" "\<not> in_wait TS_SUSPEND"
  "\<not> in_wait TS_DORMANT" "\<not> in_wait TS_NONEXIST"
  by (simp_all add: in_wait_iff)

lemma task_alive_iff: "task_alive st \<longleftrightarrow> st \<noteq> TS_NONEXIST \<and> st \<noteq> TS_DORMANT"
  by (cases st) (simp_all add: task_alive_def has_def)

section \<open>Queues, waits and timer events\<close>

text \<open>The kind of object a task waits on; a message buffer has a send and a receive
  queue, a rendezvous port a call and an accept queue. \<open>OSvc\<close> is the lock a task has for the
  extended system calls made on its behalf, not an object of its own.\<close>

datatype okind = OSem | OFlg | OMbx | OSmbf | ORmbf | OMtx | OMpf | OMpl | OCal | OAcp | OSvc

text \<open>Where the link field \<open>tskque\<close> of a TCB can be: the free list, the ready queue of a
  priority, the wait queue of an object, the wait queue of an object lock.\<close>

datatype qid = FreeTcb | Rdy nat | WaitQ okind ID | LockQ okind ID

text \<open>The functions the pointers \<open>chg_pri_hook\<close> and \<open>rel_wai_hook\<close> of a \<open>WSPEC\<close> name.\<close>

datatype hook =
    H_sem_chg_pri | H_sem_rel_wai | H_flg_chg_pri | H_mbx_chg_pri
  | H_mbf_chg_pri | H_mbf_rel_wai | H_mpf_chg_pri | H_mtx_chg_pri | H_mtx_rel_wai
  | H_mpl_chg_pri | H_mpl_rel_wai | H_cal_chg_pri

record wspec =
  tskwait :: UINT
  chg_pri_hook :: "hook option"
  rel_wai_hook :: "hook option"

text \<open>The union \<open>WINFO\<close>.\<close>

datatype winfo =
    WI_none
  | WI_sem (sem_cnt: int)
  | WI_flg (flg_waiptn: UINT) (flg_wfmode: UINT) (flg_p_flgptn: addr)
  | WI_mbx (mbx_ppk_msg: addr)
  | WI_rmbf (rmbf_msg: addr) (rmbf_p_msgsz: addr)
  | WI_smbf (smbf_msg: addr) (smbf_msgsz: int)
  | WI_mpf (mpf_p_blf: addr)
  | WI_mpl (mpl_blksz: int) (mpl_p_blk: addr)
  | WI_cal (cal_calptn: UINT) (cal_msg: addr) (cal_cmsgsz: int) (cal_p_rmsgsz: addr)
  | WI_acp (acp_acpptn: UINT) (acp_msg: addr) (acp_p_rdvno: addr) (acp_p_cmsgsz: addr)
  | WI_rdv (rdv_rdvno: RNO) (rdv_msg: addr) (rdv_maxrmsz: int) (rdv_p_rmsgsz: addr)

text \<open>The timer event blocks: one in each TCB (\<open>wtmeb\<close>), one in each time-event handler. The
  callback and its argument are written together.\<close>

datatype tmid = TskTm ID | CycTm ID | AlmTm ID

datatype cback = CB_wait_release_tmout ID | CB_call_cychdr ID | CB_call_almhdr ID

record tmeb =
  tm_time :: LSYSTIM
  tm_callback :: "cback option"

section \<open>The task control block\<close>

record tcb =
  exinf :: addr
  tskatr :: ATR
  resid :: ID
  isysmode :: int
  sysmode :: int
  ipriority :: nat
  bpriority :: nat
  priority :: nat
  tstate :: tstat
  nodiswai :: bool
  klockwait :: bool
  klocked :: bool
  wspec :: wspec
  wid :: ID
  wupcnt :: int
  suscnt :: int
  wercd :: ER
  winfo :: winfo
  waitmask :: UINT
  tskevt :: UB
  slicetime :: RELTIM_U
  slicecnt :: RELTIM_U
  stime :: RELTIM_U
  utime :: RELTIM_U
  wrdvno :: RNO
  mtxlist :: "ID option"
  svclocked :: "ID option"
  reqdct :: UB
  texhdr :: addr
  texmask :: UINT
  pendtex :: UINT
  exectex :: UINT
  texflg :: "16 word"
  execssid :: "16 word"
  tname :: "UB list"

section \<open>The kernel state\<close>

text \<open>
  \<open>que\<close> is the content of the task queues (\<open>Queue\<close> relates it to the links). The memory a
  system call reads or writes through the caller's pointers is kept by type: \<open>UINT\<close> cells,
  \<open>INT\<close> cells, pointer cells and bytes. \<open>hw_usec\<close> is what the hardware timer reports
  (\<open>get_hw_timer_usec\<close>), \<open>task_indep\<close> and \<open>cpu_di\<close> the processor status the macros of
  \<open>cpu_status.h\<close> test.
\<close>

record kst =
  tcbs :: "ID \<Rightarrow> tcb"
  max_tskid :: ID
  ctxtsk :: "ID option"
  schedtsk :: "ID option"
  dispatch_disabled :: int
  task_indep :: bool
  cpu_di :: bool
  que :: "qid \<Rightarrow> ID list"
  top_priority :: nat
  bitmap :: "UINT list"
  klocktsk :: "ID option"
  timer_queue :: "tmid list"
  tmebs :: "tmid \<Rightarrow> tmeb"
  current_time :: LSYSTIM
  timer_period :: RELTIM_U
  hw_usec :: "64 word"
  mem_uint :: "addr \<Rightarrow> UINT"
  mem_int :: "addr \<Rightarrow> int"
  mem_ptr :: "addr \<Rightarrow> addr"
  mem_byte :: "addr \<Rightarrow> UB"

definition tcb_upd :: "ID \<Rightarrow> (tcb \<Rightarrow> tcb) \<Rightarrow> 'a kst_scheme \<Rightarrow> 'a kst_scheme" where
  "tcb_upd t f s = s\<lparr>tcbs := (tcbs s)(t := f (tcbs s t))\<rparr>"

lemma tcb_upd_sel [simp]:
  "tcbs (tcb_upd t f s) u = (if u = t then f (tcbs s t) else tcbs s u)"
  "ctxtsk (tcb_upd t f s) = ctxtsk s" "schedtsk (tcb_upd t f s) = schedtsk s"
  "max_tskid (tcb_upd t f s) = max_tskid s"
  "dispatch_disabled (tcb_upd t f s) = dispatch_disabled s"
  "task_indep (tcb_upd t f s) = task_indep s" "cpu_di (tcb_upd t f s) = cpu_di s"
  "que (tcb_upd t f s) = que s" "top_priority (tcb_upd t f s) = top_priority s"
  "bitmap (tcb_upd t f s) = bitmap s" "klocktsk (tcb_upd t f s) = klocktsk s"
  "timer_queue (tcb_upd t f s) = timer_queue s" "tmebs (tcb_upd t f s) = tmebs s"
  "current_time (tcb_upd t f s) = current_time s" "timer_period (tcb_upd t f s) = timer_period s"
  "hw_usec (tcb_upd t f s) = hw_usec s"
  "mem_uint (tcb_upd t f s) = mem_uint s" "mem_int (tcb_upd t f s) = mem_int s"
  "mem_ptr (tcb_upd t f s) = mem_ptr s" "mem_byte (tcb_upd t f s) = mem_byte s"
  "kst.more (tcb_upd t f s) = kst.more s"
  by (auto simp: tcb_upd_def)

section \<open>Queue operations on lists\<close>

definition que_insert :: "ID \<Rightarrow> qid \<Rightarrow> 'a kst_scheme \<Rightarrow> 'a kst_scheme" where
  "que_insert t q s = s\<lparr>que := (que s)(q := que s q @ [t])\<rparr>"

definition que_remove :: "ID \<Rightarrow> 'a kst_scheme \<Rightarrow> 'a kst_scheme" where
  "que_remove t s = s\<lparr>que := (\<lambda>q. removeAll t (que s q))\<rparr>"

definition que_remove_next :: "qid \<Rightarrow> 'a kst_scheme \<Rightarrow> ID option \<times> 'a kst_scheme" where
  "que_remove_next q s =
     (case que s q of [] \<Rightarrow> (None, s) | t # _ \<Rightarrow> (Some t, que_remove t s))"

lemma que_insert_sel [simp]:
  "que (que_insert t q s) q' = (if q' = q then que s q @ [t] else que s q')"
  "tcbs (que_insert t q s) = tcbs s" "ctxtsk (que_insert t q s) = ctxtsk s"
  "schedtsk (que_insert t q s) = schedtsk s" "max_tskid (que_insert t q s) = max_tskid s"
  "dispatch_disabled (que_insert t q s) = dispatch_disabled s"
  "task_indep (que_insert t q s) = task_indep s" "cpu_di (que_insert t q s) = cpu_di s"
  "top_priority (que_insert t q s) = top_priority s" "bitmap (que_insert t q s) = bitmap s"
  "klocktsk (que_insert t q s) = klocktsk s" "timer_queue (que_insert t q s) = timer_queue s"
  "tmebs (que_insert t q s) = tmebs s" "current_time (que_insert t q s) = current_time s"
  "timer_period (que_insert t q s) = timer_period s" "hw_usec (que_insert t q s) = hw_usec s"
  "mem_uint (que_insert t q s) = mem_uint s" "mem_int (que_insert t q s) = mem_int s"
  "mem_ptr (que_insert t q s) = mem_ptr s" "mem_byte (que_insert t q s) = mem_byte s"
  "kst.more (que_insert t q s) = kst.more s"
  by (auto simp: que_insert_def)

lemma que_remove_sel [simp]:
  "que (que_remove t s) q = removeAll t (que s q)"
  "tcbs (que_remove t s) = tcbs s" "ctxtsk (que_remove t s) = ctxtsk s"
  "schedtsk (que_remove t s) = schedtsk s" "max_tskid (que_remove t s) = max_tskid s"
  "dispatch_disabled (que_remove t s) = dispatch_disabled s"
  "task_indep (que_remove t s) = task_indep s" "cpu_di (que_remove t s) = cpu_di s"
  "top_priority (que_remove t s) = top_priority s" "bitmap (que_remove t s) = bitmap s"
  "klocktsk (que_remove t s) = klocktsk s" "timer_queue (que_remove t s) = timer_queue s"
  "tmebs (que_remove t s) = tmebs s" "current_time (que_remove t s) = current_time s"
  "timer_period (que_remove t s) = timer_period s" "hw_usec (que_remove t s) = hw_usec s"
  "mem_uint (que_remove t s) = mem_uint s" "mem_int (que_remove t s) = mem_int s"
  "mem_ptr (que_remove t s) = mem_ptr s" "mem_byte (que_remove t s) = mem_byte s"
  "kst.more (que_remove t s) = kst.more s"
  by (auto simp: que_remove_def)

text \<open>
  Every entry is in at most one queue, once: what one link field per TCB means for the lists.
\<close>

definition que_ok :: "(qid \<Rightarrow> ID list) \<Rightarrow> bool" where
  "que_ok Q \<longleftrightarrow> (\<forall>q. distinct (Q q)) \<and>
     (\<forall>q q' t. t \<in> set (Q q) \<longrightarrow> t \<in> set (Q q') \<longrightarrow> q = q')"

lemma que_okD: "que_ok Q \<Longrightarrow> t \<in> set (Q q) \<Longrightarrow> t \<in> set (Q q') \<Longrightarrow> q = q'"
  by (auto simp: que_ok_def)

lemma que_ok_distinct: "que_ok Q \<Longrightarrow> distinct (Q q)"
  by (auto simp: que_ok_def)

lemma que_ok_remove [intro]: "que_ok Q \<Longrightarrow> que_ok (\<lambda>q. removeAll t (Q q))"
  by (auto simp: que_ok_def distinct_removeAll)

lemma que_ok_insert: "que_ok Q \<Longrightarrow> (\<And>q'. t \<notin> set (Q q')) \<Longrightarrow> que_ok (Q(q := Q q @ [t]))"
  by (auto simp: que_ok_def)

lemma que_ok_insert_before:
  "que_ok Q \<Longrightarrow> (\<And>q'. t \<notin> set (Q q')) \<Longrightarrow> que_ok (Q(q := insert_before gt t (Q q)))"
  by (auto simp: que_ok_def)

text \<open>The lists of the state provide the queue interface of \<open>Queue\<close>, as the rings do.\<close>

interpretation kstq: task_queues
  "\<lambda>(s :: 'a kst_scheme) Q. que s = Q \<and> que_ok Q" que_insert que_remove que_remove_next
proof unfold_locales
  fix s :: "'a kst_scheme" and Q t q
  assume "que s = Q \<and> que_ok Q" "\<And>q'. t \<notin> set (Q q')"
  then show "que (que_insert t q s) = Q(q := Q q @ [t]) \<and> que_ok (Q(q := Q q @ [t]))"
    using que_ok_insert [of Q t q] by (auto simp: que_insert_def)
next
  fix s :: "'a kst_scheme" and Q t q ts
  assume "que s = Q \<and> que_ok Q" "Q q = t # ts"
  then show "\<exists>s'. que_remove_next q s = (Some t, s') \<and>
      que s' = (\<lambda>q. removeAll t (Q q)) \<and> que_ok (\<lambda>q. removeAll t (Q q))"
    by (auto simp: que_remove_next_def que_remove_def)
qed (auto simp: que_okD que_ok_distinct que_remove_next_def que_remove_def)

section \<open>The guards of \<open>check.h\<close>\<close>

definition in_indp :: "'a kst_scheme \<Rightarrow> bool" where
  "in_indp s \<longleftrightarrow> task_indep s \<or> ctxtsk s = None"

definition in_ddsp :: "'a kst_scheme \<Rightarrow> bool" where
  "in_ddsp s \<longleftrightarrow> dispatch_disabled s \<noteq> 0 \<or> in_indp s \<or> cpu_di s"

text \<open>\<open>CHK_xxxID(id)\<close> of \<open>config.h\<close>: every object kind has identifiers 1 to its maximum.\<close>

definition chk_id :: "ID \<Rightarrow> ID \<Rightarrow> bool" where
  "chk_id mx i \<longleftrightarrow> 1 \<le> i \<and> i \<le> mx"

definition chk_rsatr :: "ATR \<Rightarrow> ATR \<Rightarrow> bool" where
  "chk_rsatr atr maxatr \<longleftrightarrow> \<not> has atr (NOT maxatr)"

definition chk_tmout :: "int \<Rightarrow> bool" where
  "chk_tmout tmout \<longleftrightarrow> tmout \<ge> TMO_FEVR"

definition to_usec_tmo :: "int \<Rightarrow> int" where
  "to_usec_tmo ms = (if ms > 0 then ms * 1000 else ms)"

lemma not_in_ddspD: "\<not> in_ddsp s \<Longrightarrow> \<exists>me. ctxtsk s = Some me"
  by (auto simp: in_ddsp_def in_indp_def)

end
