(* ===== verification/Ready_Queue.thy ===== *)
theory Ready_Queue
  imports Kernel_State
begin

text \<open>
  The ready queue (\<open>ready_queue.h\<close>): one task queue per priority, a bitmap of the priorities
  that have tasks, and the cached highest priority. The bit operations the bitmap rests on are
  those of \<open>src/drivers/bcm283x/cpu/startup_arm.c\<close>. The theory shows that the bitmap and the
  cached priority always agree with the queues, and that the whole structure implements one
  list of tasks sorted by priority, first come first served within a priority.
\<close>

section \<open>The bitmap\<close>

definition BitSet :: "UINT list \<Rightarrow> nat \<Rightarrow> UINT list" where
  "BitSet base offset =
     (let idx = offset div 32; bt = offset mod 32
      in base[idx := (base ! idx) OR push_bit bt 1])"

definition BitClr :: "UINT list \<Rightarrow> nat \<Rightarrow> UINT list" where
  "BitClr base offset =
     (let idx = offset div 32; bt = offset mod 32
      in base[idx := (base ! idx) AND NOT (push_bit bt 1)])"

definition BitTest :: "UINT list \<Rightarrow> nat \<Rightarrow> bool" where
  "BitTest base offset =
     (let idx = offset div 32; bt = offset mod 32
      in base ! idx AND push_bit bt 1 \<noteq> 0)"

function BitSearch1_loop :: "UINT list \<Rightarrow> nat \<Rightarrow> nat \<Rightarrow> nat \<Rightarrow> int" where
  "BitSearch1_loop base offset width i =
     (if i < width then
        (let pos = offset + i; idx = pos div 32; bt = pos mod 32
         in if base ! idx AND push_bit bt 1 \<noteq> 0 then int i
            else BitSearch1_loop base offset width (Suc i))
      else -1)"
  by pat_completeness auto
termination
  by (relation "measure (\<lambda>(base, offset, width, i). width - i)") auto

declare BitSearch1_loop.simps [simp del]

definition BitSearch1_w :: "UINT list \<Rightarrow> nat \<Rightarrow> nat \<Rightarrow> int" where
  "BitSearch1_w base offset width = BitSearch1_loop base offset width 0"

lemma BitTest_bit: "BitTest base p \<longleftrightarrow> bit (base ! (p div 32)) (p mod 32)"
  using and_push_one_iff [of "p mod 32" "base ! (p div 32)"] by (simp add: BitTest_def Let_def)

lemma length_Bit [simp]: "length (BitSet b p) = length b" "length (BitClr b p) = length b"
  by (simp_all add: BitSet_def BitClr_def Let_def)

lemma div_mod_eq_iff: "(p::nat) = q \<longleftrightarrow> p div 32 = q div 32 \<and> p mod 32 = q mod 32"
  by (metis div_mod_decomp)

lemma BitTest_BitSet:
  "p < 32 * length b \<Longrightarrow> BitTest (BitSet b p) q \<longleftrightarrow> q = p \<or> BitTest b q"
  by (cases "q div 32 = p div 32")
    (auto simp: BitTest_bit BitSet_def Let_def bit_or_iff bit_exp_iff div_mod_eq_iff [of q p]
      less_mult_imp_div_less nth_list_update mult.commute)

lemma BitTest_BitClr:
  "p < 32 * length b \<Longrightarrow> BitTest (BitClr b p) q \<longleftrightarrow> q \<noteq> p \<and> BitTest b q"
  by (cases "q div 32 = p div 32")
    (auto simp: BitTest_bit BitClr_def Let_def bit_and_iff bit_not_iff bit_exp_iff
      div_mod_eq_iff [of q p] less_mult_imp_div_less nth_list_update mult.commute)

lemma BitSearch1_loop_spec:
  "(\<exists>j. i \<le> j \<and> j < width \<and> BitTest base (off + j) \<and>
        (\<forall>k. i \<le> k \<and> k < j \<longrightarrow> \<not> BitTest base (off + k)) \<and>
        BitSearch1_loop base off width i = int j) \<or>
   (\<forall>j. i \<le> j \<and> j < width \<longrightarrow> \<not> BitTest base (off + j)) \<and>
      BitSearch1_loop base off width i = -1"
proof (induction base off width i rule: BitSearch1_loop.induct)
  case (1 base off width i)
  show ?case
  proof (cases "i < width \<and> \<not> BitTest base (off + i)")
    case True
    then have eq: "BitSearch1_loop base off width i = BitSearch1_loop base off width (Suc i)"
      by (simp add: BitSearch1_loop.simps [of base off width i] BitTest_def Let_def)
    have IH: "(\<exists>j\<ge>Suc i. j < width \<and> BitTest base (off + j) \<and>
        (\<forall>k. Suc i \<le> k \<and> k < j \<longrightarrow> \<not> BitTest base (off + k)) \<and>
        BitSearch1_loop base off width (Suc i) = int j) \<or>
      (\<forall>j. Suc i \<le> j \<and> j < width \<longrightarrow> \<not> BitTest base (off + j)) \<and>
      BitSearch1_loop base off width (Suc i) = -1"
      using "1.IH" True by (auto simp: BitTest_def Let_def)
    show ?thesis
      unfolding eq using IH True by (metis Suc_leD Suc_leI le_neq_implies_less)
  next
    case False
    then show ?thesis
      by (auto simp: BitSearch1_loop.simps [of base off width i] BitTest_def Let_def)
  qed
qed

text \<open>The search returns the distance to the first set bit of the window, or -1.\<close>

lemma BitSearch1_w_cases:
  obtains (found) j where "j < width" "BitTest base (off + j)"
      "\<And>k. k < j \<Longrightarrow> \<not> BitTest base (off + k)" "BitSearch1_w base off width = int j"
    | (none) "\<And>j. j < width \<Longrightarrow> \<not> BitTest base (off + j)" "BitSearch1_w base off width = -1"
  using BitSearch1_loop_spec [of 0 width base off] unfolding BitSearch1_w_def by auto

section \<open>The operations\<close>

definition NUM_BITMAP :: nat where "NUM_BITMAP = (NUM_PRI + 32 - 1) div 32"

definition ready_queue_initialize :: "'a kst_scheme \<Rightarrow> 'a kst_scheme" where
  "ready_queue_initialize s =
     s\<lparr>top_priority := NUM_PRI,
       que := (\<lambda>q. case q of Rdy i \<Rightarrow> if i < NUM_PRI then [] else que s q | _ \<Rightarrow> que s q),
       klocktsk := None,
       bitmap := replicate NUM_BITMAP 0\<rparr>"

text \<open>\<open>tskque[NUM_PRI].next\<close> is the field \<open>null\<close>: no task.\<close>

definition ready_queue_top :: "'a kst_scheme \<Rightarrow> ID option" where
  "ready_queue_top s =
     (case klocktsk s of
        Some t \<Rightarrow> Some t
      | None \<Rightarrow>
          if top_priority s = NUM_PRI then None
          else (case que s (Rdy (top_priority s)) of [] \<Rightarrow> None | t # _ \<Rightarrow> Some t))"

definition ready_queue_top_priority :: "'a kst_scheme \<Rightarrow> nat" where
  "ready_queue_top_priority s = top_priority s"

definition ready_queue_insert :: "ID \<Rightarrow> 'a kst_scheme \<Rightarrow> bool \<times> 'a kst_scheme" where
  "ready_queue_insert t s =
     (let pri = priority (tcbs s t);
          s1 = tcb_upd t (\<lambda>c. c\<lparr>slicecnt := 0\<rparr>) s;
          s2 = que_insert t (Rdy pri) s1;
          s3 = s2\<lparr>bitmap := BitSet (bitmap s2) pri\<rparr>;
          s4 = (if klocked (tcbs s3 t) then s3\<lparr>klocktsk := Some t\<rparr> else s3)
      in if pri < top_priority s4 then (True, s4\<lparr>top_priority := pri\<rparr>) else (False, s4))"

definition ready_queue_insert_top :: "ID \<Rightarrow> 'a kst_scheme \<Rightarrow> 'a kst_scheme" where
  "ready_queue_insert_top t s =
     (let pri = priority (tcbs s t);
          s2 = s\<lparr>que := (que s)(Rdy pri := t # que s (Rdy pri))\<rparr>;
          s3 = s2\<lparr>bitmap := BitSet (bitmap s2) pri\<rparr>;
          s4 = (if klocked (tcbs s3 t) then s3\<lparr>klocktsk := Some t\<rparr> else s3)
      in if pri < top_priority s4 then s4\<lparr>top_priority := pri\<rparr> else s4)"

definition ready_queue_delete :: "ID \<Rightarrow> 'a kst_scheme \<Rightarrow> 'a kst_scheme" where
  "ready_queue_delete t s =
     (let pri = priority (tcbs s t);
          s1 = (if klocktsk s = Some t then s\<lparr>klocktsk := None\<rparr> else s);
          s2 = que_remove t s1
      in if klockwait (tcbs s2 t) then tcb_upd t (\<lambda>c. c\<lparr>klockwait := False\<rparr>) s2
         else if que s2 (Rdy pri) \<noteq> [] then s2
         else (let s3 = s2\<lparr>bitmap := BitClr (bitmap s2) pri\<rparr>
               in if pri \<noteq> top_priority s3 then s3
                  else (let i = BitSearch1_w (bitmap s3) pri (NUM_PRI - pri)
                        in if i \<ge> 0 then s3\<lparr>top_priority := pri + nat i\<rparr>
                           else s3\<lparr>top_priority := NUM_PRI\<rparr>)))"

definition ready_queue_rotate :: "nat \<Rightarrow> 'a kst_scheme \<Rightarrow> 'a kst_scheme" where
  "ready_queue_rotate pri s =
     (case que_remove_next (Rdy pri) s of
        (None, s1) \<Rightarrow> s1
      | (Some t, s1) \<Rightarrow> tcb_upd t (\<lambda>c. c\<lparr>slicecnt := 0\<rparr>) (que_insert t (Rdy pri) s1))"

definition ready_queue_move_last :: "ID \<Rightarrow> 'a kst_scheme \<Rightarrow> ID option \<times> 'a kst_scheme" where
  "ready_queue_move_last t s =
     (let q = Rdy (priority (tcbs s t));
          s1 = que_insert t q (que_remove t s);
          s2 = tcb_upd t (\<lambda>c. c\<lparr>slicecnt := 0\<rparr>) s1
      in (case que s2 q of [] \<Rightarrow> None | u # _ \<Rightarrow> Some u, s2))"


section \<open>The structure is kept consistent\<close>

definition unqueued :: "ID \<Rightarrow> 'a kst_scheme \<Rightarrow> bool" where
  "unqueued t s \<longleftrightarrow> (\<forall>q. t \<notin> set (que s q))"

definition rdq_ok :: "'a kst_scheme \<Rightarrow> bool" where
  "rdq_ok s \<longleftrightarrow>
     que_ok (que s) \<and>
     length (bitmap s) = NUM_BITMAP \<and>
     (\<forall>p < NUM_PRI. BitTest (bitmap s) p \<longleftrightarrow> que s (Rdy p) \<noteq> []) \<and>
     (\<forall>p \<ge> NUM_PRI. que s (Rdy p) = []) \<and>
     top_priority s \<le> NUM_PRI \<and>
     (\<forall>p < top_priority s. que s (Rdy p) = []) \<and>
     (top_priority s < NUM_PRI \<longrightarrow> que s (Rdy (top_priority s)) \<noteq> []) \<and>
     (\<forall>p. \<forall>t \<in> set (que s (Rdy p)). priority (tcbs s t) = p)"

lemma rdq_okD:
  assumes "rdq_ok s"
  shows "que_ok (que s)" "length (bitmap s) = NUM_BITMAP"
    "p < NUM_PRI \<Longrightarrow> BitTest (bitmap s) p \<longleftrightarrow> que s (Rdy p) \<noteq> []"
    "p \<ge> NUM_PRI \<Longrightarrow> que s (Rdy p) = []"
    "top_priority s \<le> NUM_PRI" "p < top_priority s \<Longrightarrow> que s (Rdy p) = []"
    "top_priority s < NUM_PRI \<Longrightarrow> que s (Rdy (top_priority s)) \<noteq> []"
    "t \<in> set (que s (Rdy p)) \<Longrightarrow> priority (tcbs s t) = p"
  using assms by (auto simp: rdq_ok_def)

lemma unqueued_simps [simp]:
  "unqueued t (tcb_upd u f s) = unqueued t s"
  "unqueued t (que_insert u q s) = (t \<noteq> u \<and> unqueued t s)"
  "unqueued t (que_remove t s)"
  by (auto simp: unqueued_def split: if_splits)

lemma unqueuedD: "unqueued t s \<Longrightarrow> t \<notin> set (que s q)"
  by (simp add: unqueued_def)

lemma que_que_remove: "que (que_remove t s) = (\<lambda>q. removeAll t (que s q))"
  by (simp add: que_remove_def)

lemma que_que_insert: "que (que_insert t q s) = (que s)(q := que s q @ [t])"
  by (simp add: que_insert_def)

text \<open>A task is appended to the queue of its priority; the result tells whether it has become
  the one of highest priority.\<close>

lemma que_ready_queue_insert [que_simps]:
  "que (snd (ready_queue_insert t s)) =
     (que s)(Rdy (priority (tcbs s t)) := que s (Rdy (priority (tcbs s t))) @ [t])"
  by (auto simp: ready_queue_insert_def Let_def que_insert_def tcb_upd_def)

lemma ready_queue_insert_fst:
  "fst (ready_queue_insert t s) \<longleftrightarrow> priority (tcbs s t) < top_priority s"
  by (simp add: ready_queue_insert_def Let_def)

lemma ready_queue_insert_fields [frame_simps]:
  "tcbs (snd (ready_queue_insert t s)) = (tcbs s)(t := (tcbs s t)\<lparr>slicecnt := 0\<rparr>)"
  "bitmap (snd (ready_queue_insert t s)) = BitSet (bitmap s) (priority (tcbs s t))"
  "top_priority (snd (ready_queue_insert t s)) = min (priority (tcbs s t)) (top_priority s)"
  "klocktsk (snd (ready_queue_insert t s)) =
     (if klocked (tcbs s t) then Some t else klocktsk s)"
  by (auto simp: ready_queue_insert_def Let_def tcb_upd_def)

lemma rdq_ok_insert:
  assumes ok: "rdq_ok s" and t: "unqueued t s" and pri: "priority (tcbs s t) < NUM_PRI"
  shows "rdq_ok (snd (ready_queue_insert t s))"
proof -
  note ok' = ok [unfolded rdq_ok_def]
  have "que_ok (que (snd (ready_queue_insert t s)))"
    using ok' t by (simp add: que_ready_queue_insert que_ok_insert unqueuedD)
  moreover have "BitTest (BitSet (bitmap s) (priority (tcbs s t))) p \<longleftrightarrow>
      p = priority (tcbs s t) \<or> BitTest (bitmap s) p" for p
    using ok' pri by (intro BitTest_BitSet) (simp add: NUM_PRI_def NUM_BITMAP_def)
  ultimately show ?thesis
    using ok' pri t
    by (auto simp: rdq_ok_def que_ready_queue_insert ready_queue_insert_fields unqueuedD min_def)
qed

text \<open>Deletion: the task leaves its queue, the bitmap and the cached priority follow.\<close>

lemma que_ready_queue_delete [que_simps]:
  "que (ready_queue_delete t s) = (\<lambda>q. removeAll t (que s q))"
  by (auto simp: ready_queue_delete_def Let_def que_remove_def tcb_upd_def)

lemma ready_queue_delete_fields [frame_simps]:
  "tcbs (ready_queue_delete t s) =
     (tcbs s)(t := (tcbs s t)\<lparr>klockwait := False\<rparr>)"
  "klocktsk (ready_queue_delete t s) = (if klocktsk s = Some t then None else klocktsk s)"
  by (auto simp: ready_queue_delete_def Let_def que_remove_def tcb_upd_def fun_eq_iff)

lemma rdq_ok_delete:
  assumes ok: "rdq_ok s" and t: "t \<in> set (que s (Rdy (priority (tcbs s t))))"
    and nk: "\<not> klockwait (tcbs s t)"
  shows "rdq_ok (ready_queue_delete t s)"
proof -
  let ?p = "priority (tcbs s t)" and ?b = "BitClr (bitmap s) (priority (tcbs s t))"
  let ?Q = "\<lambda>q. removeAll t (que s q)"
  note ok' = rdq_okD [OF ok]
  have pri: "?p < NUM_PRI" using ok'(4) [of ?p] t by (cases "?p < NUM_PRI") auto
  have other: "q \<noteq> Rdy ?p \<Longrightarrow> ?Q q = que s q" for q
    using que_okD [OF ok'(1) t] by (metis removeAll_id)
  have bt: "BitTest ?b p \<longleftrightarrow> p \<noteq> ?p \<and> BitTest (bitmap s) p" for p
    using ok'(2) pri by (intro BitTest_BitClr) (simp add: NUM_PRI_def NUM_BITMAP_def)
  have q: "que_ok ?Q" using ok'(1) by blast
  have key: "u \<in> set (?Q (Rdy p)) \<Longrightarrow>
      priority (tcbs (ready_queue_delete t s) u) = p" for u p
    using ok'(8) by (auto simp: ready_queue_delete_fields)
  show ?thesis
  proof (cases "?Q (Rdy ?p) = []")
    case False
    then have eq: "bitmap (ready_queue_delete t s) = bitmap s"
        "top_priority (ready_queue_delete t s) = top_priority s"
      using nk by (auto simp: ready_queue_delete_def Let_def)
    have ne: "?Q (Rdy p) = [] \<longleftrightarrow> que s (Rdy p) = []" for p
      using False other [of "Rdy p"] t by (cases "p = ?p") auto
    show ?thesis
      using ok' q key by (simp add: rdq_ok_def que_ready_queue_delete eq ne)
  next
    case True
    then have b: "bitmap (ready_queue_delete t s) = ?b"
      using nk by (auto simp: ready_queue_delete_def Let_def)
    have ne: "?Q (Rdy p) = [] \<longleftrightarrow> p = ?p \<or> que s (Rdy p) = []" for p
      using True other [of "Rdy p"] by (cases "p = ?p") auto
    have bits: "p < NUM_PRI \<Longrightarrow> BitTest ?b p \<longleftrightarrow> ?Q (Rdy p) \<noteq> []" for p
      using bt ok'(3) ne by auto
    have topp: "top_priority s \<le> ?p"
      using ok'(6) [of ?p] t by (cases "?p < top_priority s") auto
    have top: "top_priority (ready_queue_delete t s) \<le> NUM_PRI \<and>
       (\<forall>p < top_priority (ready_queue_delete t s). ?Q (Rdy p) = []) \<and>
       (top_priority (ready_queue_delete t s) < NUM_PRI \<longrightarrow>
          ?Q (Rdy (top_priority (ready_queue_delete t s))) \<noteq> [])"
    proof (cases "?p = top_priority s")
      case False
      then have eq: "top_priority (ready_queue_delete t s) = top_priority s"
        using nk True by (auto simp: ready_queue_delete_def Let_def)
      show ?thesis using ok' ne False topp unfolding eq by auto
    next
      case ptop: True
      have below: "p < ?p \<Longrightarrow> ?Q (Rdy p) = []" for p using ok'(6) ptop ne by auto
      show ?thesis
      proof (cases rule: BitSearch1_w_cases [of "NUM_PRI - ?p" ?b ?p])
        case (found j)
        then have eq: "top_priority (ready_queue_delete t s) = ?p + j"
          using nk True ptop by (auto simp: ready_queue_delete_def Let_def)
        have "p < ?p + j \<Longrightarrow> ?Q (Rdy p) = []" for p
          using below [of p] found(3) [of "p - ?p"] bits [of p] found(1) by (cases "p < ?p") auto
        then show ?thesis using found bits [of "?p + j"] unfolding eq by auto
      next
        case none
        then have eq: "top_priority (ready_queue_delete t s) = NUM_PRI"
          using nk True ptop by (auto simp: ready_queue_delete_def Let_def)
        have "p < NUM_PRI \<Longrightarrow> ?Q (Rdy p) = []" for p
          using below [of p] none(1) [of "p - ?p"] bits [of p] by (cases "p < ?p") auto
        then show ?thesis unfolding eq by auto
      qed
    qed
    have "\<forall>p\<ge>NUM_PRI. ?Q (Rdy p) = []" using ok'(4) by simp
    then show ?thesis
      unfolding rdq_ok_def que_ready_queue_delete b
      using q bits top key ok'(2) by simp
  qed
qed


text \<open>A task that waits for the kernel lock is in no ready queue: taking it from the lock queue
  leaves the ready queue alone.\<close>

lemma rdq_ok_delete_klockwait:
  assumes ok: "rdq_ok s" and t: "\<And>p. t \<notin> set (que s (Rdy p))" and k: "klockwait (tcbs s t)"
  shows "rdq_ok (ready_queue_delete t s)"
proof -
  have "bitmap (ready_queue_delete t s) = bitmap s"
    "top_priority (ready_queue_delete t s) = top_priority s"
    using k by (auto simp: ready_queue_delete_def Let_def)
  moreover have "removeAll t (que s (Rdy p)) = que s (Rdy p)" for p
    using t by (simp add: removeAll_id)
  ultimately show ?thesis
    using ok by (auto simp: rdq_ok_def que_ready_queue_delete ready_queue_delete_fields)
qed

text \<open>Moving a task of the ready queue behind its equals (\<open>rotate\<close>, \<open>move_last\<close>) changes the
  order of one queue, not its content.\<close>

lemma rdq_ok_permute:
  assumes ok: "rdq_ok s" and Q: "que s' = (que s)(Rdy p := xs)"
    and xs: "set xs = set (que s (Rdy p))" "distinct xs"
    and same: "bitmap s' = bitmap s" "top_priority s' = top_priority s"
      "\<And>u. priority (tcbs s' u) = priority (tcbs s u)"
  shows "rdq_ok s'"
proof -
  note ok' = ok [unfolded rdq_ok_def]
  have e: "que s' (Rdy q) = [] \<longleftrightarrow> que s (Rdy q) = []" for q
    using xs(1) by (auto simp: Q)
  have st: "set (que s' q) = set (que s q)" for q
    using xs(1) by (auto simp: Q)
  have "distinct (que s' q)" for q
    using ok' xs(2) by (auto simp: Q que_ok_def)
  then have "que_ok (que s')"
    using ok' unfolding que_ok_def st by blast
  then show ?thesis
    using ok' by (simp add: rdq_ok_def same e st)
qed

lemma ready_queue_rotate_eq:
  "ready_queue_rotate p s =
     (case que s (Rdy p) of
        [] \<Rightarrow> s
      | t # ts \<Rightarrow> tcb_upd t (\<lambda>c. c\<lparr>slicecnt := 0\<rparr>) (que_insert t (Rdy p) (que_remove t s)))"
  by (simp add: ready_queue_rotate_def que_remove_next_def split: list.split)

lemma que_rotate:
  assumes "que_ok (que s)" "que s (Rdy p) = t # ts"
  shows "(que s)(Rdy p := ts @ [t]) = que (que_insert t (Rdy p) (que_remove t s))"
proof
  fix q
  have d: "t \<notin> set ts" using que_ok_distinct [OF assms(1), of "Rdy p"] assms(2) by simp
  show "((que s)(Rdy p := ts @ [t])) q = que (que_insert t (Rdy p) (que_remove t s)) q"
  proof (cases "q = Rdy p")
    case False
    then have "t \<notin> set (que s q)"
      using que_okD [OF assms(1), of t "Rdy p" q] assms(2) by auto
    with False show ?thesis by (simp add: removeAll_id)
  qed (use d assms(2) in simp)
qed

lemma que_ready_queue_rotate [que_simps]:
  "que_ok (que s) \<Longrightarrow> que (ready_queue_rotate p s) = (que s)(Rdy p := rotate1 (que s (Rdy p)))"
  by (cases "que s (Rdy p)") (auto simp: ready_queue_rotate_eq que_rotate)

lemma rdq_ok_rotate: "rdq_ok s \<Longrightarrow> rdq_ok (ready_queue_rotate p s)"
proof -
  assume ok: "rdq_ok s"
  show ?thesis
  proof (rule rdq_ok_permute [OF ok])
    show "que (ready_queue_rotate p s) = (que s)(Rdy p := rotate1 (que s (Rdy p)))"
      by (rule que_ready_queue_rotate [OF rdq_okD(1) [OF ok]])
    show "distinct (rotate1 (que s (Rdy p)))"
      using que_ok_distinct [OF rdq_okD(1) [OF ok]] by simp
  qed (auto simp: ready_queue_rotate_eq split: list.splits)
qed

lemma que_ready_queue_move_last [que_simps]:
  assumes "que_ok (que s)" "t \<in> set (que s (Rdy (priority (tcbs s t))))"
  shows "que (snd (ready_queue_move_last t s)) =
    (que s)(Rdy (priority (tcbs s t)) := removeAll t (que s (Rdy (priority (tcbs s t)))) @ [t])"
proof
  fix q
  have "q \<noteq> Rdy (priority (tcbs s t)) \<Longrightarrow> removeAll t (que s q) = que s q"
    using que_okD [OF assms, of q] by (intro removeAll_id) auto
  then show "que (snd (ready_queue_move_last t s)) q =
    ((que s)(Rdy (priority (tcbs s t)) :=
        removeAll t (que s (Rdy (priority (tcbs s t)))) @ [t])) q"
    by (auto simp: ready_queue_move_last_def Let_def)
qed

lemma ready_queue_move_last_fields [frame_simps]:
  "tcbs (snd (ready_queue_move_last t s)) = (tcbs s)(t := (tcbs s t)\<lparr>slicecnt := 0\<rparr>)"
  "bitmap (snd (ready_queue_move_last t s)) = bitmap s"
  "top_priority (snd (ready_queue_move_last t s)) = top_priority s"
  "klocktsk (snd (ready_queue_move_last t s)) = klocktsk s"
  by (auto simp: ready_queue_move_last_def Let_def tcb_upd_def)

lemma rdq_ok_move_last:
  assumes ok: "rdq_ok s" and t: "t \<in> set (que s (Rdy (priority (tcbs s t))))"
  shows "rdq_ok (snd (ready_queue_move_last t s))"
proof (rule rdq_ok_permute [OF ok que_ready_queue_move_last [OF rdq_okD(1) [OF ok] t]])
  show "distinct (removeAll t (que s (Rdy (priority (tcbs s t)))) @ [t])"
    using que_ok_distinct [OF rdq_okD(1) [OF ok]] by (simp add: distinct_removeAll)
qed (use t in \<open>auto simp: ready_queue_move_last_fields\<close>)

lemma rdq_ok_initialize:
  assumes "que_ok (que s)" "\<And>p. p \<ge> NUM_PRI \<Longrightarrow> que s (Rdy p) = []"
  shows "rdq_ok (ready_queue_initialize s)"
proof -
  let ?Q = "\<lambda>q. case q of Rdy i \<Rightarrow> if i < NUM_PRI then [] else que s q | _ \<Rightarrow> que s q"
  have sub: "?Q q = [] \<or> ?Q q = que s q" for q by (cases q) auto
  have mem: "t \<in> set (?Q q) \<Longrightarrow> t \<in> set (que s q)" for t q
    using sub [of q] by auto
  have d: "distinct (?Q q)" for q
    using sub [of q] assms(1) by (auto simp: que_ok_def)
  have "que_ok ?Q"
    using assms(1) d mem unfolding que_ok_def by blast
  moreover have "p < NUM_PRI \<Longrightarrow> \<not> BitTest (replicate NUM_BITMAP 0) p" for p
    by (auto simp: BitTest_def Let_def NUM_BITMAP_def NUM_PRI_def)
  ultimately show ?thesis
    using assms(2) by (auto simp: rdq_ok_def ready_queue_initialize_def)
qed

section \<open>The interface of a queue ordered by a key\<close>

text \<open>
  What a scheduler asks of its queue: the content is a list sorted by a key, and the first
  element is the one returned. The ready queue (key: priority), the timer queue (key: event
  time) and a wait queue ordered by priority provide it.
\<close>

locale ordered_queue =
  fixes inv :: "'s \<Rightarrow> bool"
    and content :: "'s \<Rightarrow> 'e list"
    and key :: "'s \<Rightarrow> 'e \<Rightarrow> 'k::linorder"
    and front :: "'s \<Rightarrow> 'e option"
  assumes content_sorted: "inv s \<Longrightarrow> sorted (map (key s) (content s))"
    and front_content: "inv s \<Longrightarrow>
      front s = (case content s of [] \<Rightarrow> None | x # _ \<Rightarrow> Some x)"
begin

lemma front_None: "inv s \<Longrightarrow> front s = None \<longleftrightarrow> content s = []"
  by (simp add: front_content split: list.split)

lemma front_in: "inv s \<Longrightarrow> front s = Some x \<Longrightarrow> x \<in> set (content s)"
  by (auto simp: front_content split: list.splits)

lemma front_least: "inv s \<Longrightarrow> front s = Some x \<Longrightarrow> y \<in> set (content s) \<Longrightarrow> key s x \<le> key s y"
  using content_sorted [of s] by (auto simp: front_content split: list.splits)

end

text \<open>The ready queue as one list.\<close>

definition ready_list :: "'a kst_scheme \<Rightarrow> ID list" where
  "ready_list s = concat (map (\<lambda>p. que s (Rdy p)) [0..<NUM_PRI])"

lemma set_ready_list: "rdq_ok s \<Longrightarrow> t \<in> set (ready_list s) \<longleftrightarrow> t \<in> set (que s (Rdy (priority (tcbs s t))))"
proof -
  assume ok: "rdq_ok s"
  have "t \<in> set (ready_list s) \<longleftrightarrow> (\<exists>p < NUM_PRI. t \<in> set (que s (Rdy p)))"
    by (auto simp: ready_list_def)
  then show ?thesis
    using rdq_okD(4,8) [OF ok] by (metis empty_iff list.set(1) not_le)
qed

lemma sorted_concat_keys:
  fixes key :: "'e \<Rightarrow> nat"
  assumes "\<And>p x. x \<in> set (Q p) \<Longrightarrow> key x = p"
  shows "sorted (map key (concat (map Q [i..<j])))"
proof (induction j)
  case 0
  then show ?case by simp
next
  case (Suc j)
  have "map key (Q j) = map (\<lambda>_. j) (Q j)"
    using assms by (intro map_cong) auto
  then have "sorted (map key (Q j))"
    by (simp add: sorted_iff_nth_mono)
  moreover have "key x < j" if "x \<in> set (concat (map Q [i..<j]))" for x
    using that assms by auto
  ultimately show ?case
    using Suc assms by (auto simp: sorted_append less_imp_le)
qed

lemma ready_list_sorted: "rdq_ok s \<Longrightarrow> sorted (map (\<lambda>t. priority (tcbs s t)) (ready_list s))"
  unfolding ready_list_def by (rule sorted_concat_keys) (rule rdq_okD(8))

lemma ready_list_top:
  assumes ok: "rdq_ok s" and k: "klocktsk s = None"
  shows "ready_queue_top s = (case ready_list s of [] \<Rightarrow> None | t # _ \<Rightarrow> Some t)"
proof (cases "top_priority s = NUM_PRI")
  case True
  then have "ready_list s = []"
    using rdq_okD(6) [OF ok] by (auto simp: ready_list_def)
  with True k show ?thesis by (simp add: ready_queue_top_def)
next
  case False
  then have lt: "top_priority s < NUM_PRI" using rdq_okD(5) [OF ok] by simp
  then have up: "[0..<NUM_PRI] =
      [0..<top_priority s] @ top_priority s # [Suc (top_priority s)..<NUM_PRI]"
    by (metis le0 less_imp_le upt_add_eq_append upt_conv_Cons le_add_diff_inverse plus_nat.add_0)
  have z: "concat (map (\<lambda>p. que s (Rdy p)) [0..<top_priority s]) = []"
    using rdq_okD(6) [OF ok] by simp
  obtain t ts where q: "que s (Rdy (top_priority s)) = t # ts"
    using rdq_okD(7) [OF ok lt] by (cases "que s (Rdy (top_priority s))") auto
  have "ready_list s = t # ts @ concat (map (\<lambda>p. que s (Rdy p)) [Suc (top_priority s)..<NUM_PRI])"
    unfolding ready_list_def up using z q by simp
  with False k q show ?thesis by (simp add: ready_queue_top_def)
qed

interpretation rdyq: ordered_queue
  "\<lambda>s :: 'a kst_scheme. rdq_ok s \<and> klocktsk s = None" ready_list
  "\<lambda>s t. priority (tcbs s t)" ready_queue_top
  by unfold_locales (simp_all add: ready_list_sorted ready_list_top)


text \<open>The operations on the structure are the operations on the sorted list: insertion behind
  the tasks of the same priority, removal.\<close>

lemma insert_before_append:
  "(\<And>y. y \<in> set us \<Longrightarrow> \<not> gt y) \<Longrightarrow>
   insert_before gt x (us @ vs) = us @ insert_before gt x vs"
  by (induction us) auto

lemma insert_before_all_gt:
  "(\<And>y. y \<in> set vs \<Longrightarrow> gt y) \<Longrightarrow> insert_before gt x vs = x # vs"
  by (cases vs) auto

lemma upt_split_at: "p < n \<Longrightarrow> [0..<n] = [0..<p] @ p # [Suc p..<n]"
  by (metis le0 less_imp_le upt_add_eq_append upt_conv_Cons le_add_diff_inverse plus_nat.add_0)

lemma ready_list_insert:
  assumes ok: "rdq_ok s" and t: "unqueued t s" and pri: "priority (tcbs s t) < NUM_PRI"
  shows "ready_list (snd (ready_queue_insert t s)) =
    insert_before (\<lambda>u. priority (tcbs s u) > priority (tcbs s t)) t (ready_list s)"
proof -
  let ?p = "priority (tcbs s t)" and ?Q = "\<lambda>p. que s (Rdy p)"
  let ?gt = "\<lambda>u. priority (tcbs s u) > ?p"
  have key: "u \<in> set (?Q p) \<Longrightarrow> priority (tcbs s u) = p" for u p
    by (rule rdq_okD(8) [OF ok])
  have new: "que (snd (ready_queue_insert t s)) (Rdy p) = (if p = ?p then ?Q p @ [t] else ?Q p)" for p
    by (simp add: que_ready_queue_insert)
  have lo: "map (\<lambda>p. if p = ?p then ?Q p @ [t] else ?Q p) [0..<?p] = map ?Q [0..<?p]"
    and hi: "map (\<lambda>p. if p = ?p then ?Q p @ [t] else ?Q p) [Suc ?p..<NUM_PRI] =
      map ?Q [Suc ?p..<NUM_PRI]"
    by auto
  have "ready_list (snd (ready_queue_insert t s)) =
      (concat (map ?Q [0..<?p]) @ ?Q ?p) @ t # concat (map ?Q [Suc ?p..<NUM_PRI])"
    unfolding ready_list_def new upt_split_at [OF pri]
    by (simp only: map_append list.map lo hi concat_append concat.simps) simp
  also have "\<dots> = (concat (map ?Q [0..<?p]) @ ?Q ?p) @
      insert_before ?gt t (concat (map ?Q [Suc ?p..<NUM_PRI]))"
    by (subst insert_before_all_gt) (auto dest!: key)
  also have "\<dots> = insert_before ?gt t
      ((concat (map ?Q [0..<?p]) @ ?Q ?p) @ concat (map ?Q [Suc ?p..<NUM_PRI]))"
    by (rule insert_before_append [symmetric]) (auto dest!: key)
  also have "(concat (map ?Q [0..<?p]) @ ?Q ?p) @ concat (map ?Q [Suc ?p..<NUM_PRI]) = ready_list s"
    unfolding ready_list_def upt_split_at [OF pri] by simp
  finally show ?thesis .
qed

lemma ready_list_delete:
  "ready_list (ready_queue_delete t s) = removeAll t (ready_list s)"
  by (simp add: ready_list_def que_ready_queue_delete removeAll_filter_not_eq filter_concat comp_def)

end
