(* ===== verification/Timer.thy ===== *)
theory Timer
  imports Ready_Queue
begin

text \<open>
  The timer event queue (\<open>timer.c\<close>, \<open>timer.h\<close>): events in the order of their time, inserted
  behind the events of the same time. Times are 64-bit values in microseconds; \<open>ll_cmp\<close> is the
  difference of two of them, as \<open>longlong.h\<close> has it, so the order is the order of the values
  only while differences do not wrap. \<open>tmtime_ok\<close> is the range in which the theory shows it.
\<close>

definition ll_cmp :: "LSYSTIM \<Rightarrow> LSYSTIM \<Rightarrow> int" where
  "ll_cmp a b = sint (a - b)"

definition enqueue_tmeb :: "tmid \<Rightarrow> 'a kst_scheme \<Rightarrow> 'a kst_scheme" where
  "enqueue_tmeb ev s =
     s\<lparr>timer_queue :=
         insert_before (\<lambda>q. ll_cmp (tm_time (tmebs s ev)) (tm_time (tmebs s q)) < 0) ev (timer_queue s)\<rparr>"

definition set_callback :: "tmid \<Rightarrow> cback option \<Rightarrow> 'a kst_scheme \<Rightarrow> 'a kst_scheme" where
  "set_callback ev cb s = s\<lparr>tmebs := (tmebs s)(ev := (tmebs s ev)\<lparr>tm_callback := cb\<rparr>)\<rparr>"

definition set_time :: "tmid \<Rightarrow> LSYSTIM \<Rightarrow> 'a kst_scheme \<Rightarrow> 'a kst_scheme" where
  "set_time ev tm s = s\<lparr>tmebs := (tmebs s)(ev := (tmebs s ev)\<lparr>tm_time := tm\<rparr>)\<rparr>"

text \<open>\<open>adjust_time\<close>: the time elapsed since the last timer interrupt.\<close>

definition adjust_time :: "'a kst_scheme \<Rightarrow> 64 word" where
  "adjust_time s = hw_usec s"

text \<open>With \<open>TMO_FEVR\<close> the event is linked to itself (\<open>QueInit\<close>), which on lists is to be in no
  queue, so that \<open>timer_delete\<close> does nothing.\<close>

definition timer_insert :: "tmid \<Rightarrow> int \<Rightarrow> cback option \<Rightarrow> 'a kst_scheme \<Rightarrow> 'a kst_scheme" where
  "timer_insert ev tmout cb s =
     (let s1 = set_callback ev cb s
      in if tmout = TMO_FEVR then s1
         else enqueue_tmeb ev
           (set_time ev ((current_time s1 + word_of_int tmout) + adjust_time s1) s1))"

definition timer_insert_reltim ::
  "tmid \<Rightarrow> RELTIM_U \<Rightarrow> cback option \<Rightarrow> 'a kst_scheme \<Rightarrow> 'a kst_scheme" where
  "timer_insert_reltim ev tmout cb s =
     (let s1 = set_callback ev cb s
      in enqueue_tmeb ev (set_time ev ((current_time s1 + tmout) + adjust_time s1) s1))"

definition timer_insert_abs ::
  "tmid \<Rightarrow> LSYSTIM \<Rightarrow> cback option \<Rightarrow> 'a kst_scheme \<Rightarrow> 'a kst_scheme" where
  "timer_insert_abs ev tm cb s = enqueue_tmeb ev (set_time ev tm (set_callback ev cb s))"

definition timer_delete :: "tmid \<Rightarrow> 'a kst_scheme \<Rightarrow> 'a kst_scheme" where
  "timer_delete ev s = s\<lparr>timer_queue := removeAll ev (timer_queue s)\<rparr>"

section \<open>What the operations touch\<close>

lemmas timer_defs = timer_insert_def timer_insert_reltim_def timer_insert_abs_def
  timer_delete_def enqueue_tmeb_def set_callback_def set_time_def adjust_time_def Let_def

lemma timer_insert_frame [simp]:
  "tcbs (timer_insert ev tmout cb s) = tcbs s" "que (timer_insert ev tmout cb s) = que s"
  "ctxtsk (timer_insert ev tmout cb s) = ctxtsk s"
  "schedtsk (timer_insert ev tmout cb s) = schedtsk s"
  "max_tskid (timer_insert ev tmout cb s) = max_tskid s"
  "top_priority (timer_insert ev tmout cb s) = top_priority s"
  "bitmap (timer_insert ev tmout cb s) = bitmap s"
  "klocktsk (timer_insert ev tmout cb s) = klocktsk s"
  "current_time (timer_insert ev tmout cb s) = current_time s"
  "mem_uint (timer_insert ev tmout cb s) = mem_uint s"
  "mem_int (timer_insert ev tmout cb s) = mem_int s"
  "mem_ptr (timer_insert ev tmout cb s) = mem_ptr s"
  "mem_byte (timer_insert ev tmout cb s) = mem_byte s"
  "dispatch_disabled (timer_insert ev tmout cb s) = dispatch_disabled s"
  "task_indep (timer_insert ev tmout cb s) = task_indep s"
  "cpu_di (timer_insert ev tmout cb s) = cpu_di s"
  "kst.more (timer_insert ev tmout cb s) = kst.more s"
  by (simp_all add: timer_defs)

lemma timer_insert_reltim_frame [simp]:
  "tcbs (timer_insert_reltim ev tmout cb s) = tcbs s" "que (timer_insert_reltim ev tmout cb s) = que s"
  "ctxtsk (timer_insert_reltim ev tmout cb s) = ctxtsk s"
  "schedtsk (timer_insert_reltim ev tmout cb s) = schedtsk s"
  "max_tskid (timer_insert_reltim ev tmout cb s) = max_tskid s"
  "top_priority (timer_insert_reltim ev tmout cb s) = top_priority s"
  "bitmap (timer_insert_reltim ev tmout cb s) = bitmap s"
  "klocktsk (timer_insert_reltim ev tmout cb s) = klocktsk s"
  "current_time (timer_insert_reltim ev tmout cb s) = current_time s"
  "mem_uint (timer_insert_reltim ev tmout cb s) = mem_uint s"
  "mem_int (timer_insert_reltim ev tmout cb s) = mem_int s"
  "mem_ptr (timer_insert_reltim ev tmout cb s) = mem_ptr s"
  "mem_byte (timer_insert_reltim ev tmout cb s) = mem_byte s"
  "dispatch_disabled (timer_insert_reltim ev tmout cb s) = dispatch_disabled s"
  "task_indep (timer_insert_reltim ev tmout cb s) = task_indep s"
  "cpu_di (timer_insert_reltim ev tmout cb s) = cpu_di s"
  "kst.more (timer_insert_reltim ev tmout cb s) = kst.more s"
  by (simp_all add: timer_defs)

lemma timer_delete_frame [simp]:
  "tcbs (timer_delete ev s) = tcbs s" "que (timer_delete ev s) = que s"
  "ctxtsk (timer_delete ev s) = ctxtsk s" "schedtsk (timer_delete ev s) = schedtsk s"
  "max_tskid (timer_delete ev s) = max_tskid s"
  "top_priority (timer_delete ev s) = top_priority s"
  "bitmap (timer_delete ev s) = bitmap s" "klocktsk (timer_delete ev s) = klocktsk s"
  "tmebs (timer_delete ev s) = tmebs s" "current_time (timer_delete ev s) = current_time s"
  "mem_uint (timer_delete ev s) = mem_uint s" "mem_int (timer_delete ev s) = mem_int s"
  "mem_ptr (timer_delete ev s) = mem_ptr s" "mem_byte (timer_delete ev s) = mem_byte s"
  "dispatch_disabled (timer_delete ev s) = dispatch_disabled s"
  "task_indep (timer_delete ev s) = task_indep s" "cpu_di (timer_delete ev s) = cpu_di s"
  "kst.more (timer_delete ev s) = kst.more s"
  "timer_queue (timer_delete ev s) = removeAll ev (timer_queue s)"
  by (simp_all add: timer_delete_def)

section \<open>The queue is ordered by time\<close>

definition tmtime_ok :: "LSYSTIM \<Rightarrow> bool" where
  "tmtime_ok w \<longleftrightarrow> 0 \<le> sint w \<and> sint w < 2 ^ 62"

definition event_time :: "'a kst_scheme \<Rightarrow> tmid \<Rightarrow> int" where
  "event_time s ev = sint (tm_time (tmebs s ev))"

definition tmq_ok :: "'a kst_scheme \<Rightarrow> bool" where
  "tmq_ok s \<longleftrightarrow>
     distinct (timer_queue s) \<and>
     (\<forall>ev \<in> set (timer_queue s). tmtime_ok (tm_time (tmebs s ev))) \<and>
     sorted (map (event_time s) (timer_queue s))"

lemma sint_small:
  assumes "- (2 ^ 63) \<le> k" "k < 2 ^ 63"
  shows "sint (word_of_int k :: 64 word) = k"
  using assms by (simp add: sint_sbintrunc' signed_take_bit_int_eq_self)

lemma ll_cmp_exact:
  assumes "tmtime_ok a" "tmtime_ok b"
  shows "ll_cmp a b = sint a - sint b"
proof -
  have "a - b = word_of_int (sint a - sint b)" by simp
  moreover have "sint (word_of_int (sint a - sint b) :: 64 word) = sint a - sint b"
    using assms by (intro sint_small) (auto simp: tmtime_ok_def)
  ultimately show ?thesis unfolding ll_cmp_def by presburger
qed

lemma tmq_ok_delete: "tmq_ok s \<Longrightarrow> tmq_ok (timer_delete ev s)"
  by (auto simp: tmq_ok_def distinct_removeAll event_time_def [abs_def] sorted_map_removeAll)

text \<open>The general step: an event that is in no queue gets a time and is inserted.\<close>

lemma enqueue_sorted:
  assumes ok: "tmq_ok s" and new: "ev \<notin> set (timer_queue s)" and tm: "tmtime_ok tm"
  shows "timer_queue (enqueue_tmeb ev (set_time ev tm s)) =
      insert_before (\<lambda>q. event_time s q > sint tm) ev (timer_queue s)"
    and "tmq_ok (enqueue_tmeb ev (set_time ev tm s))"
proof -
  let ?s = "enqueue_tmeb ev (set_time ev tm s)"
  have neq: "q \<in> set (timer_queue s) \<Longrightarrow> q \<noteq> ev" for q using new by auto
  show q: "timer_queue ?s = insert_before (\<lambda>q. event_time s q > sint tm) ev (timer_queue s)"
    using ok tm neq by (auto simp: enqueue_tmeb_def set_time_def event_time_def tmq_ok_def
        ll_cmp_exact intro!: insert_before_cong)
  have et: "event_time ?s q = (if q = ev then sint tm else event_time s q)" for q
    by (simp add: event_time_def enqueue_tmeb_def set_time_def)
  have c: "timer_queue ?s = insert_before (\<lambda>q. event_time ?s q > event_time ?s ev) ev (timer_queue s)"
    unfolding q using neq by (auto simp: et intro!: insert_before_cong)
  have old: "map (event_time ?s) (timer_queue s) = map (event_time s) (timer_queue s)"
    using neq by (auto simp: et)
  have "sorted (map (event_time ?s) (timer_queue s))"
    using ok by (simp add: old tmq_ok_def)
  then have "sorted (map (event_time ?s) (timer_queue ?s))"
    unfolding c by (rule sorted_insert_before)
  moreover have "distinct (timer_queue ?s)"
    using ok new by (simp add: q tmq_ok_def)
  moreover have "\<forall>e \<in> set (timer_queue ?s). tmtime_ok (tm_time (tmebs ?s e))"
    using ok tm by (auto simp: q tmq_ok_def enqueue_tmeb_def set_time_def)
  ultimately show "tmq_ok ?s" by (simp add: tmq_ok_def)
qed

lemma event_time_set_callback: "event_time (set_callback ev cb s) = event_time s"
  by (auto simp: set_callback_def event_time_def fun_eq_iff)

lemma tmq_ok_set_callback:
  "tmq_ok (set_callback ev cb s) = tmq_ok s"
  "timer_queue (set_callback ev cb s) = timer_queue s"
  "current_time (set_callback ev cb s) = current_time s"
  "hw_usec (set_callback ev cb s) = hw_usec s"
  by (auto simp: tmq_ok_def event_time_set_callback) (auto simp: set_callback_def split: if_splits)

text \<open>The time at which a wait of \<open>tmout\<close> microseconds that starts now ends.\<close>

definition due :: "int \<Rightarrow> 'a kst_scheme \<Rightarrow> int" where
  "due tmout s = sint (current_time s) + tmout + uint (hw_usec s)"

lemma due_exact:
  assumes "0 \<le> sint (current_time s)" "0 \<le> tmout" "due tmout s < 2 ^ 62"
  shows "sint ((current_time s + word_of_int tmout) + hw_usec s) = due tmout s"
    and "tmtime_ok ((current_time s + word_of_int tmout) + hw_usec s)"
proof -
  have nn: "0 \<le> due tmout s" using assms by (simp add: due_def)
  have "(current_time s + word_of_int tmout) + hw_usec s = word_of_int (due tmout s)"
    by (simp add: due_def)
  moreover have "sint (word_of_int (due tmout s) :: 64 word) = due tmout s"
    using nn assms(3) by (intro sint_small) auto
  ultimately show eq: "sint ((current_time s + word_of_int tmout) + hw_usec s) = due tmout s"
    by presburger
  show "tmtime_ok ((current_time s + word_of_int tmout) + hw_usec s)"
    unfolding tmtime_ok_def eq using nn assms(3) by simp
qed

lemma timer_insert_sorted:
  assumes ok: "tmq_ok s" and new: "ev \<notin> set (timer_queue s)"
    and rng: "0 \<le> sint (current_time s)" "0 \<le> tmout" "due tmout s < 2 ^ 62"
  shows "timer_queue (timer_insert ev tmout cb s) =
      insert_before (\<lambda>q. event_time s q > due tmout s) ev (timer_queue s)"
    and "tmq_ok (timer_insert ev tmout cb s)"
    and "event_time (timer_insert ev tmout cb s) ev = due tmout s"
proof -
  let ?c = "set_callback ev cb s" and ?t = "(current_time s + word_of_int tmout) + hw_usec s"
  have e: "timer_insert ev tmout cb s = enqueue_tmeb ev (set_time ev ?t ?c)"
    using rng(2) by (simp add: timer_insert_def Let_def tmq_ok_set_callback adjust_time_def TMO_FEVR_def)
  have ok': "tmq_ok ?c" "ev \<notin> set (timer_queue ?c)"
    using ok new by (simp_all add: tmq_ok_set_callback)
  note tm = due_exact [OF rng]
  show "timer_queue (timer_insert ev tmout cb s) =
      insert_before (\<lambda>q. event_time s q > due tmout s) ev (timer_queue s)"
    unfolding e using enqueue_sorted(1) [OF ok' tm(2)] by (simp add: tm(1) tmq_ok_set_callback event_time_set_callback)
  show "tmq_ok (timer_insert ev tmout cb s)"
    unfolding e by (rule enqueue_sorted(2) [OF ok' tm(2)])
  show "event_time (timer_insert ev tmout cb s) ev = due tmout s"
    unfolding e by (simp add: event_time_def enqueue_tmeb_def set_time_def tm(1))
qed

definition timer_front :: "'a kst_scheme \<Rightarrow> tmid option" where
  "timer_front s = (case timer_queue s of [] \<Rightarrow> None | ev # _ \<Rightarrow> Some ev)"

interpretation tmq: ordered_queue tmq_ok timer_queue event_time timer_front
  by unfold_locales (simp_all add: tmq_ok_def timer_front_def)

end
