(* ===== verification/Task.thy ===== *)
theory Task
  imports Timer
begin

text \<open>
  Task control (\<open>task.c\<close>): the transitions of a task into and out of the ready queue, time
  slicing and the choice of the task to execute. \<open>kinv\<close> is the invariant of the kernel that
  ties task states, queues and the scheduler's choice together; the theory shows that the
  transitions keep it, and that the scheduled task is the first one of the highest priority as
  long as no task holds the kernel lock.
\<close>

section \<open>The operations\<close>

text \<open>\<open>setup_context\<close> fills the CPU context of the task and is not modelled.\<close>

definition make_dormant :: "ID \<Rightarrow> 'a kst_scheme \<Rightarrow> 'a kst_scheme" where
  "make_dormant t = tcb_upd t (\<lambda>c. c\<lparr>
     tstate := TS_DORMANT, priority := ipriority c, bpriority := ipriority c,
     sysmode := isysmode c, wupcnt := 0, suscnt := 0, waitmask := 0,
     nodiswai := False, klockwait := False, klocked := False,
     slicetime := 0, stime := 0, utime := 0,
     mtxlist := None, tskevt := 0, reqdct := 0,
     texhdr := NULL, texmask := 0, pendtex := 0, exectex := 0, texflg := 0, execssid := 0\<rparr>)"

definition time_slice_schedule :: "ID option \<Rightarrow> 'a kst_scheme \<Rightarrow> ID option \<times> 'a kst_scheme" where
  "time_slice_schedule tcb s =
     (case tcb of
        None \<Rightarrow> (None, s)
      | Some t \<Rightarrow>
          if slicetime (tcbs s t) > 0 then
            (let s1 = tcb_upd t (\<lambda>c. c\<lparr>slicecnt := slicecnt c + timer_period s\<rparr>) s
             in if slicecnt (tcbs s1 t) > slicetime (tcbs s1 t)
                then ready_queue_move_last t s1
                else (Some t, s1))
          else (Some t, s))"

definition reschedule :: "'a kst_scheme \<Rightarrow> 'a kst_scheme" where
  "reschedule s =
     (let toptsk = ready_queue_top s
      in if schedtsk s \<noteq> toptsk then
           (let s1 = (if schedtsk s = ctxtsk s then snd (time_slice_schedule (schedtsk s) s) else s)
            in s1\<lparr>schedtsk := toptsk\<rparr>)
         else s)"

definition make_ready :: "ID \<Rightarrow> 'a kst_scheme \<Rightarrow> 'a kst_scheme" where
  "make_ready t s =
     (let s1 = tcb_upd t (\<lambda>c. c\<lparr>tstate := TS_READY\<rparr>) s;
          (changed, s2) = ready_queue_insert t s1
      in if changed then
           (let s3 = (if schedtsk s2 = ctxtsk s2 then snd (time_slice_schedule (schedtsk s2) s2) else s2)
            in s3\<lparr>schedtsk := Some t\<rparr>)
         else s2)"

definition make_non_ready :: "ID \<Rightarrow> 'a kst_scheme \<Rightarrow> 'a kst_scheme" where
  "make_non_ready t s =
     (let s1 = ready_queue_delete t s
      in if schedtsk s1 = Some t then s1\<lparr>schedtsk := ready_queue_top s1\<rparr> else s1)"

text \<open>
  The hook of the wait specification is called through a function pointer; \<open>call_hook\<close> is that
  call. The components that define hooks supply it (\<open>Mutex\<close>).
\<close>

definition change_task_priority ::
  "(hook \<Rightarrow> ID \<Rightarrow> int \<Rightarrow> 'a kst_scheme \<Rightarrow> 'a kst_scheme) \<Rightarrow>
   ID \<Rightarrow> nat \<Rightarrow> 'a kst_scheme \<Rightarrow> 'a kst_scheme" where
  "change_task_priority call_hook t pri s =
     (if tstate (tcbs s t) = TS_READY then
        (let s1 = ready_queue_delete t s;
             s2 = tcb_upd t (\<lambda>c. c\<lparr>priority := pri\<rparr>) s1;
             s3 = snd (ready_queue_insert t s2)
         in reschedule s3)
      else
        (let oldpri = priority (tcbs s t);
             s1 = tcb_upd t (\<lambda>c. c\<lparr>priority := pri\<rparr>) s
         in if in_wait (tstate (tcbs s1 t)) then
              (case chg_pri_hook (wspec (tcbs s1 t)) of
                 None \<Rightarrow> s1
               | Some h \<Rightarrow> call_hook h t (int oldpri) s1)
            else s1))"

definition rotate_ready_queue :: "nat \<Rightarrow> 'a kst_scheme \<Rightarrow> 'a kst_scheme" where
  "rotate_ready_queue pri s = reschedule (ready_queue_rotate pri s)"

definition rotate_ready_queue_run :: "'a kst_scheme \<Rightarrow> 'a kst_scheme" where
  "rotate_ready_queue_run s =
     (if schedtsk s \<noteq> None
      then reschedule (ready_queue_rotate (ready_queue_top_priority s) s)
      else s)"

text \<open>\<open>CHECK_PRI\<close>, and the debugger's view of a ready queue: the identifiers of up to \<open>nent\<close>
  tasks, and the number of tasks.\<close>

definition chk_pri :: "int \<Rightarrow> bool" where
  "chk_pri pri \<longleftrightarrow> 1 \<le> pri \<and> pri \<le> 140"

definition int_priority :: "int \<Rightarrow> nat" where
  "int_priority x = nat (x - 1)"

definition td_rdy_que :: "int \<Rightarrow> int \<Rightarrow> 'a kst_scheme \<Rightarrow> ER \<times> ID list" where
  "td_rdy_que pri nent s =
     (if \<not> chk_pri pri then (E_PAR, [])
      else (let xs = que s (Rdy (int_priority pri)) in (int (length xs), take (nat nent) xs)))"

text \<open>Initialisation (\<open>task_initialize\<close>): every TCB is put on the free queue. What
  \<open>_tk_get_cfn\<close> reports for the three tags and whether \<open>Imalloc\<close> succeeds are parameters.\<close>

definition MIN_SYS_STACK_SIZE :: int where "MIN_SYS_STACK_SIZE = 1024"

definition task_initialize ::
  "int \<times> int \<Rightarrow> int \<times> int \<Rightarrow> int \<times> int \<Rightarrow> bool \<Rightarrow> 'a kst_scheme \<Rightarrow> ER \<times> 'a kst_scheme" where
  "task_initialize cfn_maxtskid cfn_sstksz cfn_svclimit malloc_ok s =
     (let s1 = s\<lparr>max_tskid := snd cfn_maxtskid\<rparr>
      in if fst cfn_maxtskid < 1 \<or> max_tskid s1 < 1 then (E_SYS, s1)
         else if fst cfn_sstksz < 1 \<or> snd cfn_sstksz < MIN_SYS_STACK_SIZE then (E_SYS, s1)
         else if fst cfn_svclimit < 1 \<or> snd cfn_svclimit < 0 \<or> snd cfn_svclimit > 3 then (E_SYS, s1)
         else if \<not> malloc_ok then (E_NOMEM, s1)
         else
           (let s2 = ready_queue_initialize (s1\<lparr>ctxtsk := None, schedtsk := None\<rparr>);
                s3 = s2\<lparr>dispatch_disabled := 0, que := (que s2)(FreeTcb := [])\<rparr>;
                add = (\<lambda>t s. que_insert t FreeTcb
                        (tcb_upd t (\<lambda>c. c\<lparr>tstate := TS_NONEXIST, svclocked := None,
                          wrdvno := word_of_int t\<rparr>) s))
            in (E_OK, fold add [1..max_tskid s3] s3)))"

section \<open>The kernel invariant\<close>

text \<open>
  \<open>kinv_x X s\<close>: the ready queues hold exactly the READY tasks that do not wait for the kernel
  lock (the tasks of \<open>X\<close> may be missing: they are in transition), a wait queue holds waiting
  tasks that wait for its object, the free queue holds non-existent tasks, and the scheduled
  task is in its ready queue.
\<close>

definition kinv_x :: "ID set \<Rightarrow> 'a kst_scheme \<Rightarrow> bool" where
  "kinv_x X s \<longleftrightarrow>
     rdq_ok s \<and>
     (\<forall>p. \<forall>t \<in> set (que s (Rdy p)). tstate (tcbs s t) = TS_READY \<and> \<not> klockwait (tcbs s t)) \<and>
     (\<forall>t. t \<notin> X \<longrightarrow> tstate (tcbs s t) = TS_READY \<longrightarrow> \<not> klockwait (tcbs s t) \<longrightarrow>
        t \<in> set (que s (Rdy (priority (tcbs s t))))) \<and>
     (\<forall>k i. \<forall>t \<in> set (que s (WaitQ k i)). in_wait (tstate (tcbs s t)) \<and> wid (tcbs s t) = i) \<and>
     (\<forall>k i. \<forall>t \<in> set (que s (LockQ k i)). tstate (tcbs s t) = TS_READY \<and> klockwait (tcbs s t)) \<and>
     (\<forall>t \<in> set (que s FreeTcb). tstate (tcbs s t) = TS_NONEXIST) \<and>
     (\<forall>t. tstate (tcbs s t) \<noteq> TS_NONEXIST \<longrightarrow> priority (tcbs s t) < NUM_PRI) \<and>
     (\<forall>t. schedtsk s = Some t \<longrightarrow> t \<in> set (que s (Rdy (priority (tcbs s t))))) \<and>
     (\<forall>t. klocktsk s = Some t \<longrightarrow> t \<in> set (que s (Rdy (priority (tcbs s t))))) \<and>
     (\<forall>t. klockwait (tcbs s t) \<longrightarrow> tstate (tcbs s t) = TS_READY \<or> tstate (tcbs s t) = TS_NONEXIST)"

abbreviation kinv :: "'a kst_scheme \<Rightarrow> bool" where
  "kinv s \<equiv> kinv_x {} s"

text \<open>The choice of the scheduler, when no task holds the kernel lock.\<close>

definition sched_ok :: "'a kst_scheme \<Rightarrow> bool" where
  "sched_ok s \<longleftrightarrow> klocktsk s = None \<and>
     (\<forall>t. tstate (tcbs s t) \<noteq> TS_NONEXIST \<longrightarrow> \<not> klocked (tcbs s t)) \<and>
     schedtsk s = ready_queue_top s"

lemma kinv_xD:
  assumes "kinv_x X s"
  shows "rdq_ok s" "que_ok (que s)"
    "t \<in> set (que s (Rdy p)) \<Longrightarrow> tstate (tcbs s t) = TS_READY \<and> \<not> klockwait (tcbs s t)"
    "t \<notin> X \<Longrightarrow> tstate (tcbs s t) = TS_READY \<Longrightarrow> \<not> klockwait (tcbs s t) \<Longrightarrow>
       t \<in> set (que s (Rdy (priority (tcbs s t))))"
    "t \<in> set (que s (WaitQ k i)) \<Longrightarrow> in_wait (tstate (tcbs s t)) \<and> wid (tcbs s t) = i"
    "t \<in> set (que s (LockQ k i)) \<Longrightarrow> tstate (tcbs s t) = TS_READY \<and> klockwait (tcbs s t)"
    "t \<in> set (que s FreeTcb) \<Longrightarrow> tstate (tcbs s t) = TS_NONEXIST"
    "tstate (tcbs s t) \<noteq> TS_NONEXIST \<Longrightarrow> priority (tcbs s t) < NUM_PRI"
    "schedtsk s = Some t \<Longrightarrow> t \<in> set (que s (Rdy (priority (tcbs s t))))"
    "klocktsk s = Some t \<Longrightarrow> t \<in> set (que s (Rdy (priority (tcbs s t))))"
    "klockwait (tcbs s t) \<Longrightarrow> tstate (tcbs s t) = TS_READY \<or> tstate (tcbs s t) = TS_NONEXIST"
  using assms by (auto simp: kinv_x_def dest: rdq_okD(1))

lemma kinv_xI:
  assumes "rdq_ok s"
    "\<And>t p. t \<in> set (que s (Rdy p)) \<Longrightarrow> tstate (tcbs s t) = TS_READY \<and> \<not> klockwait (tcbs s t)"
    "\<And>t. t \<notin> X \<Longrightarrow> tstate (tcbs s t) = TS_READY \<Longrightarrow> \<not> klockwait (tcbs s t) \<Longrightarrow>
       t \<in> set (que s (Rdy (priority (tcbs s t))))"
    "\<And>t k i. t \<in> set (que s (WaitQ k i)) \<Longrightarrow> in_wait (tstate (tcbs s t)) \<and> wid (tcbs s t) = i"
    "\<And>t k i. t \<in> set (que s (LockQ k i)) \<Longrightarrow> tstate (tcbs s t) = TS_READY \<and> klockwait (tcbs s t)"
    "\<And>t. t \<in> set (que s FreeTcb) \<Longrightarrow> tstate (tcbs s t) = TS_NONEXIST"
    "\<And>t. tstate (tcbs s t) \<noteq> TS_NONEXIST \<Longrightarrow> priority (tcbs s t) < NUM_PRI"
    "\<And>t. schedtsk s = Some t \<Longrightarrow> t \<in> set (que s (Rdy (priority (tcbs s t))))"
    "\<And>t. klocktsk s = Some t \<Longrightarrow> t \<in> set (que s (Rdy (priority (tcbs s t))))"
    "\<And>t. klockwait (tcbs s t) \<Longrightarrow> tstate (tcbs s t) = TS_READY \<or> tstate (tcbs s t) = TS_NONEXIST"
  shows "kinv_x X s"
  using assms unfolding kinv_x_def by blast

text \<open>The scheduled task can be any task of the ready queues.\<close>

lemma kinv_x_schedtsk:
  assumes k: "kinv_x X s" and t: "\<And>t. x = Some t \<Longrightarrow> t \<in> set (que s (Rdy (priority (tcbs s t))))"
  shows "kinv_x X (s\<lparr>schedtsk := x\<rparr>)"
proof -
  note kd = kinv_xD [OF k]
  have "rdq_ok (s\<lparr>schedtsk := x\<rparr>)" using kd(1) by (simp add: rdq_ok_def)
  then show ?thesis
    by (rule kinv_xI; simp) (use kd t in auto)
qed

text \<open>What the invariant looks at.\<close>

lemma kinv_x_cong:
  assumes "rdq_ok s \<Longrightarrow> rdq_ok s'"
    "\<And>q. set (que s' q) = set (que s q)" "schedtsk s' = schedtsk s" "klocktsk s' = klocktsk s"
    "\<And>u. tstate (tcbs s' u) = tstate (tcbs s u)" "\<And>u. klockwait (tcbs s' u) = klockwait (tcbs s u)"
    "\<And>u. priority (tcbs s' u) = priority (tcbs s u)" "\<And>u. wid (tcbs s' u) = wid (tcbs s u)"
    "kinv_x X s"
  shows "kinv_x X s'"
  using assms(9) assms(1) unfolding kinv_x_def assms(2-8) by blast

lemma rdq_ok_cong:
  assumes "que s' = que s" "bitmap s' = bitmap s" "top_priority s' = top_priority s"
    "\<And>u. priority (tcbs s' u) = priority (tcbs s u)" "rdq_ok s"
  shows "rdq_ok s'"
  using assms by (simp add: rdq_ok_def)

lemma kinv_x_same:
  assumes "que s' = que s" "bitmap s' = bitmap s" "top_priority s' = top_priority s"
    "schedtsk s' = schedtsk s" "klocktsk s' = klocktsk s"
    "\<And>u. tstate (tcbs s' u) = tstate (tcbs s u)" "\<And>u. klockwait (tcbs s' u) = klockwait (tcbs s u)"
    "\<And>u. priority (tcbs s' u) = priority (tcbs s u)" "\<And>u. wid (tcbs s' u) = wid (tcbs s u)"
    "kinv_x X s"
  shows "kinv_x X s'"
  by (rule kinv_x_cong [OF _ _ assms(4-10)]) (use assms in \<open>auto elim: rdq_ok_cong [rotated 4]\<close>)

lemma kinv_x_mono: "kinv_x X s \<Longrightarrow> X \<subseteq> Y \<Longrightarrow> kinv_x Y s"
  by (auto simp: kinv_x_def)

text \<open>A waiting or suspended task is in no ready queue.\<close>

lemma not_ready_not_queued:
  "kinv_x X s \<Longrightarrow> tstate (tcbs s t) \<noteq> TS_READY \<Longrightarrow> t \<notin> set (que s (Rdy p))"
  by (auto dest: kinv_xD(3))

section \<open>Time slices\<close>

text \<open>A time slice that is used up puts the task behind its equals: the order within one ready
  queue and the slice counter are all that changes.\<close>

lemma slice_cases:
  obtains (same) "snd (time_slice_schedule x s) = s"
    | (count) t v where "x = Some t" "snd (time_slice_schedule x s) = tcb_upd t (\<lambda>c. c\<lparr>slicecnt := v\<rparr>) s"
    | (move) t v where "x = Some t"
        "snd (time_slice_schedule x s) = snd (ready_queue_move_last t (tcb_upd t (\<lambda>c. c\<lparr>slicecnt := v\<rparr>) s))"
proof (cases x)
  case None
  then show ?thesis using same by (simp add: time_slice_schedule_def)
next
  case (Some t)
  let ?v = "slicecnt (tcbs s t) + timer_period s"
  have e: "tcb_upd t (\<lambda>c. c\<lparr>slicecnt := slicecnt c + timer_period s\<rparr>) s =
      tcb_upd t (\<lambda>c. c\<lparr>slicecnt := ?v\<rparr>) s"
    by (simp add: tcb_upd_def)
  consider "slicetime (tcbs s t) > 0" "?v > slicetime (tcbs s t)"
    | "slicetime (tcbs s t) > 0" "\<not> ?v > slicetime (tcbs s t)" | "\<not> slicetime (tcbs s t) > 0"
    by blast
  then show ?thesis
  proof cases
    case 1
    then show ?thesis using Some by (intro move [of t ?v]) (simp_all add: time_slice_schedule_def e)
  next
    case 2
    then show ?thesis using Some by (intro count [of t ?v]) (simp_all add: time_slice_schedule_def e)
  next
    case 3
    then show ?thesis using Some by (intro same) (simp add: time_slice_schedule_def)
  qed
qed

lemma slice_tcbs: "\<exists>v. tcbs (snd (time_slice_schedule x s)) u = (tcbs s u)\<lparr>slicecnt := v\<rparr>"
proof (cases x s rule: slice_cases)
  case same
  then show ?thesis by (intro exI [of _ "slicecnt (tcbs s u)"]) simp
next
  case (count t v)
  then show ?thesis
    by (intro exI [of _ "if u = t then v else slicecnt (tcbs s u)"]) simp
next
  case (move t v)
  then show ?thesis
    by (intro exI [of _ "if u = t then 0 else slicecnt (tcbs s u)"])
      (simp add: ready_queue_move_last_fields)
qed

lemma slice_fields [simp]:
  "bitmap (snd (time_slice_schedule x s)) = bitmap s"
  "top_priority (snd (time_slice_schedule x s)) = top_priority s"
  "klocktsk (snd (time_slice_schedule x s)) = klocktsk s"
  "schedtsk (snd (time_slice_schedule x s)) = schedtsk s"
  "ctxtsk (snd (time_slice_schedule x s)) = ctxtsk s"
  "max_tskid (snd (time_slice_schedule x s)) = max_tskid s"
  "dispatch_disabled (snd (time_slice_schedule x s)) = dispatch_disabled s"
  "task_indep (snd (time_slice_schedule x s)) = task_indep s"
  "cpu_di (snd (time_slice_schedule x s)) = cpu_di s"
  "timer_queue (snd (time_slice_schedule x s)) = timer_queue s"
  "tmebs (snd (time_slice_schedule x s)) = tmebs s"
  "current_time (snd (time_slice_schedule x s)) = current_time s"
  "hw_usec (snd (time_slice_schedule x s)) = hw_usec s"
  "mem_uint (snd (time_slice_schedule x s)) = mem_uint s"
  "mem_int (snd (time_slice_schedule x s)) = mem_int s"
  "mem_ptr (snd (time_slice_schedule x s)) = mem_ptr s"
  "mem_byte (snd (time_slice_schedule x s)) = mem_byte s"
  "kst.more (snd (time_slice_schedule x s)) = kst.more s"
  by (cases x s rule: slice_cases; simp add: ready_queue_move_last_def Let_def)+

lemma slice_que:
  assumes "que_ok (que s)" "\<And>t. x = Some t \<Longrightarrow> t \<in> set (que s (Rdy (priority (tcbs s t))))"
  shows "que (snd (time_slice_schedule x s)) q = que s q \<or>
     (\<exists>t. x = Some t \<and> q = Rdy (priority (tcbs s t)) \<and>
          que (snd (time_slice_schedule x s)) q = removeAll t (que s q) @ [t])"
proof (cases x s rule: slice_cases)
  case (move t v)
  then show ?thesis
    using assms que_ready_queue_move_last [of "tcb_upd t (\<lambda>c. c\<lparr>slicecnt := v\<rparr>) s" t] by auto
qed simp_all

lemma slice_rdq_ok:
  assumes "rdq_ok s" "\<And>t. x = Some t \<Longrightarrow> t \<in> set (que s (Rdy (priority (tcbs s t))))"
  shows "rdq_ok (snd (time_slice_schedule x s))"
proof (cases x s rule: slice_cases)
  case (count t v)
  then show ?thesis using assms(1) by (simp add: rdq_ok_def)
next
  case (move t v)
  have "rdq_ok (tcb_upd t (\<lambda>c. c\<lparr>slicecnt := v\<rparr>) s)" using assms(1) by (simp add: rdq_ok_def)
  with move assms(2) show ?thesis by (simp add: rdq_ok_move_last)
qed (use assms in simp)

lemma slice_tcb_fields:
  "tstate (tcbs (snd (time_slice_schedule x s)) u) = tstate (tcbs s u)"
  "klockwait (tcbs (snd (time_slice_schedule x s)) u) = klockwait (tcbs s u)"
  "priority (tcbs (snd (time_slice_schedule x s)) u) = priority (tcbs s u)"
  "wid (tcbs (snd (time_slice_schedule x s)) u) = wid (tcbs s u)"
  using slice_tcbs [of x s u] by auto

lemma slice_kinv_x:
  assumes "kinv_x X s" "\<And>t. x = Some t \<Longrightarrow> t \<in> set (que s (Rdy (priority (tcbs s t))))"
  shows "kinv_x X (snd (time_slice_schedule x s))"
proof (rule kinv_x_cong [OF _ _ _ _ _ _ _ _ assms(1)])
  show "set (que (snd (time_slice_schedule x s)) q) = set (que s q)" for q
    using slice_que [OF kinv_xD(2) [OF assms(1)], of x q] assms(2) by auto
  show "rdq_ok s \<Longrightarrow> rdq_ok (snd (time_slice_schedule x s))"
    by (rule slice_rdq_ok [OF _ assms(2)])
qed (simp_all add: slice_tcb_fields)


section \<open>Into and out of the ready queue\<close>

lemma make_ready_eq:
  "make_ready t s =
     (let s2 = snd (ready_queue_insert t (tcb_upd t (\<lambda>c. c\<lparr>tstate := TS_READY\<rparr>) s))
      in if priority (tcbs s t) < top_priority s then
           (let s3 = (if schedtsk s = ctxtsk s then snd (time_slice_schedule (schedtsk s) s2) else s2)
            in s3\<lparr>schedtsk := Some t\<rparr>)
         else s2)"
  by (simp add: make_ready_def ready_queue_insert_def Let_def)

lemma ready_queue_insert_frame [simp]:
  "schedtsk (snd (ready_queue_insert t s)) = schedtsk s"
  "ctxtsk (snd (ready_queue_insert t s)) = ctxtsk s"
  "max_tskid (snd (ready_queue_insert t s)) = max_tskid s"
  "dispatch_disabled (snd (ready_queue_insert t s)) = dispatch_disabled s"
  "task_indep (snd (ready_queue_insert t s)) = task_indep s"
  "cpu_di (snd (ready_queue_insert t s)) = cpu_di s"
  "timer_queue (snd (ready_queue_insert t s)) = timer_queue s"
  "tmebs (snd (ready_queue_insert t s)) = tmebs s"
  "current_time (snd (ready_queue_insert t s)) = current_time s"
  "hw_usec (snd (ready_queue_insert t s)) = hw_usec s"
  "mem_uint (snd (ready_queue_insert t s)) = mem_uint s"
  "mem_int (snd (ready_queue_insert t s)) = mem_int s"
  "mem_ptr (snd (ready_queue_insert t s)) = mem_ptr s"
  "mem_byte (snd (ready_queue_insert t s)) = mem_byte s"
  "kst.more (snd (ready_queue_insert t s)) = kst.more s"
  by (simp_all add: ready_queue_insert_def Let_def)

lemma ready_queue_delete_frame [simp]:
  "schedtsk (ready_queue_delete t s) = schedtsk s"
  "ctxtsk (ready_queue_delete t s) = ctxtsk s"
  "max_tskid (ready_queue_delete t s) = max_tskid s"
  "dispatch_disabled (ready_queue_delete t s) = dispatch_disabled s"
  "task_indep (ready_queue_delete t s) = task_indep s"
  "cpu_di (ready_queue_delete t s) = cpu_di s"
  "timer_queue (ready_queue_delete t s) = timer_queue s"
  "tmebs (ready_queue_delete t s) = tmebs s"
  "current_time (ready_queue_delete t s) = current_time s"
  "hw_usec (ready_queue_delete t s) = hw_usec s"
  "mem_uint (ready_queue_delete t s) = mem_uint s"
  "mem_int (ready_queue_delete t s) = mem_int s"
  "mem_ptr (ready_queue_delete t s) = mem_ptr s"
  "mem_byte (ready_queue_delete t s) = mem_byte s"
  "kst.more (ready_queue_delete t s) = kst.more s"
  by (simp_all add: ready_queue_delete_def Let_def)

lemma make_ready_frame [simp]:
  "ctxtsk (make_ready t s) = ctxtsk s" "max_tskid (make_ready t s) = max_tskid s"
  "dispatch_disabled (make_ready t s) = dispatch_disabled s"
  "task_indep (make_ready t s) = task_indep s" "cpu_di (make_ready t s) = cpu_di s"
  "timer_queue (make_ready t s) = timer_queue s" "tmebs (make_ready t s) = tmebs s"
  "current_time (make_ready t s) = current_time s" "hw_usec (make_ready t s) = hw_usec s"
  "mem_uint (make_ready t s) = mem_uint s" "mem_int (make_ready t s) = mem_int s"
  "mem_ptr (make_ready t s) = mem_ptr s" "mem_byte (make_ready t s) = mem_byte s"
  "kst.more (make_ready t s) = kst.more s"
  by (simp_all add: make_ready_eq Let_def)

lemma make_non_ready_frame [simp]:
  "ctxtsk (make_non_ready t s) = ctxtsk s" "max_tskid (make_non_ready t s) = max_tskid s"
  "dispatch_disabled (make_non_ready t s) = dispatch_disabled s"
  "task_indep (make_non_ready t s) = task_indep s" "cpu_di (make_non_ready t s) = cpu_di s"
  "timer_queue (make_non_ready t s) = timer_queue s" "tmebs (make_non_ready t s) = tmebs s"
  "current_time (make_non_ready t s) = current_time s" "hw_usec (make_non_ready t s) = hw_usec s"
  "mem_uint (make_non_ready t s) = mem_uint s" "mem_int (make_non_ready t s) = mem_int s"
  "mem_ptr (make_non_ready t s) = mem_ptr s" "mem_byte (make_non_ready t s) = mem_byte s"
  "kst.more (make_non_ready t s) = kst.more s"
  by (simp_all add: make_non_ready_def Let_def)

text \<open>The TCBs: only the state of the task and slice counters.\<close>

lemma make_ready_tcbs:
  "\<exists>v. tcbs (make_ready t s) u =
     (if u = t then (tcbs s t)\<lparr>tstate := TS_READY, slicecnt := v\<rparr> else (tcbs s u)\<lparr>slicecnt := v\<rparr>)"
proof -
  let ?s2 = "snd (ready_queue_insert t (tcb_upd t (\<lambda>c. c\<lparr>tstate := TS_READY\<rparr>) s))"
  have 2: "tcbs ?s2 u = (if u = t then (tcbs s t)\<lparr>tstate := TS_READY, slicecnt := 0\<rparr> else tcbs s u)"
    by (simp add: ready_queue_insert_fields)
  obtain v where v: "tcbs (snd (time_slice_schedule (schedtsk s) ?s2)) u = (tcbs ?s2 u)\<lparr>slicecnt := v\<rparr>"
    using slice_tcbs by blast
  have "tcbs (make_ready t s) u = tcbs ?s2 u \<or>
      tcbs (make_ready t s) u = tcbs (snd (time_slice_schedule (schedtsk s) ?s2)) u"
    by (simp add: make_ready_eq Let_def)
  then consider "tcbs (make_ready t s) u = tcbs ?s2 u"
    | "tcbs (make_ready t s) u = (tcbs ?s2 u)\<lparr>slicecnt := v\<rparr>" using v by auto
  then show ?thesis
  proof cases
    case 1
    then show ?thesis unfolding 2
      by (intro exI [of _ "if u = t then 0 else slicecnt (tcbs s u)"]) simp
  next
    case 2
    then show ?thesis unfolding \<open>tcbs ?s2 u = _\<close> by (intro exI [of _ v]) simp
  qed
qed

lemma make_non_ready_tcbs:
  "tcbs (make_non_ready t s) = (tcbs s)(t := (tcbs s t)\<lparr>klockwait := False\<rparr>)"
  by (simp add: make_non_ready_def Let_def ready_queue_delete_fields)

lemma make_ready_sel [simp]:
  "tstate (tcbs (make_ready t s) u) = (if u = t then TS_READY else tstate (tcbs s u))"
  "priority (tcbs (make_ready t s) u) = priority (tcbs s u)"
  "bpriority (tcbs (make_ready t s) u) = bpriority (tcbs s u)"
  "ipriority (tcbs (make_ready t s) u) = ipriority (tcbs s u)"
  "wid (tcbs (make_ready t s) u) = wid (tcbs s u)"
  "wspec (tcbs (make_ready t s) u) = wspec (tcbs s u)"
  "winfo (tcbs (make_ready t s) u) = winfo (tcbs s u)"
  "wercd (tcbs (make_ready t s) u) = wercd (tcbs s u)"
  "wupcnt (tcbs (make_ready t s) u) = wupcnt (tcbs s u)"
  "suscnt (tcbs (make_ready t s) u) = suscnt (tcbs s u)"
  "waitmask (tcbs (make_ready t s) u) = waitmask (tcbs s u)"
  "tskevt (tcbs (make_ready t s) u) = tskevt (tcbs s u)"
  "nodiswai (tcbs (make_ready t s) u) = nodiswai (tcbs s u)"
  "klockwait (tcbs (make_ready t s) u) = klockwait (tcbs s u)"
  "klocked (tcbs (make_ready t s) u) = klocked (tcbs s u)"
  "mtxlist (tcbs (make_ready t s) u) = mtxlist (tcbs s u)"
  "wrdvno (tcbs (make_ready t s) u) = wrdvno (tcbs s u)"
  "svclocked (tcbs (make_ready t s) u) = svclocked (tcbs s u)"
  "resid (tcbs (make_ready t s) u) = resid (tcbs s u)"
  "slicetime (tcbs (make_ready t s) u) = slicetime (tcbs s u)"
  using make_ready_tcbs [of t s u] by (auto split: if_splits)

lemma make_non_ready_sel [simp]:
  "tstate (tcbs (make_non_ready t s) u) = tstate (tcbs s u)"
  "priority (tcbs (make_non_ready t s) u) = priority (tcbs s u)"
  "bpriority (tcbs (make_non_ready t s) u) = bpriority (tcbs s u)"
  "ipriority (tcbs (make_non_ready t s) u) = ipriority (tcbs s u)"
  "wid (tcbs (make_non_ready t s) u) = wid (tcbs s u)"
  "wspec (tcbs (make_non_ready t s) u) = wspec (tcbs s u)"
  "winfo (tcbs (make_non_ready t s) u) = winfo (tcbs s u)"
  "wercd (tcbs (make_non_ready t s) u) = wercd (tcbs s u)"
  "wupcnt (tcbs (make_non_ready t s) u) = wupcnt (tcbs s u)"
  "suscnt (tcbs (make_non_ready t s) u) = suscnt (tcbs s u)"
  "waitmask (tcbs (make_non_ready t s) u) = waitmask (tcbs s u)"
  "tskevt (tcbs (make_non_ready t s) u) = tskevt (tcbs s u)"
  "nodiswai (tcbs (make_non_ready t s) u) = nodiswai (tcbs s u)"
  "klockwait (tcbs (make_non_ready t s) u) = (u \<noteq> t \<and> klockwait (tcbs s u))"
  "klocked (tcbs (make_non_ready t s) u) = klocked (tcbs s u)"
  "mtxlist (tcbs (make_non_ready t s) u) = mtxlist (tcbs s u)"
  "wrdvno (tcbs (make_non_ready t s) u) = wrdvno (tcbs s u)"
  "svclocked (tcbs (make_non_ready t s) u) = svclocked (tcbs s u)"
  by (simp_all add: make_non_ready_tcbs)

section \<open>The invariant across the transitions\<close>

definition is_rdy :: "qid \<Rightarrow> bool" where
  "is_rdy q \<longleftrightarrow> (\<exists>p. q = Rdy p)"

lemma is_rdy_simps [simp]:
  "is_rdy (Rdy p)" "\<not> is_rdy (WaitQ k i)" "\<not> is_rdy (LockQ k i)" "\<not> is_rdy FreeTcb"
  by (simp_all add: is_rdy_def)

lemma insert_kinv_x:
  assumes k: "kinv_x (insert t X) s" and t: "unqueued t s" "tstate (tcbs s t) = TS_READY"
    "\<not> klockwait (tcbs s t)"
  shows "kinv_x X (snd (ready_queue_insert t s))"
proof -
  let ?p = "priority (tcbs s t)" and ?s = "snd (ready_queue_insert t s)"
  note kd = kinv_xD [OF k]
  have pri: "?p < NUM_PRI" using kd(8) t(2) by simp
  have Q: "set (que ?s q) = (if q = Rdy ?p then insert t (set (que s q)) else set (que s q))" for q
    by (simp add: que_ready_queue_insert)
  have T: "tstate (tcbs ?s u) = tstate (tcbs s u)" "klockwait (tcbs ?s u) = klockwait (tcbs s u)"
    "priority (tcbs ?s u) = priority (tcbs s u)" "wid (tcbs ?s u) = wid (tcbs s u)" for u
    by (simp_all add: ready_queue_insert_fields)
  have K: "klocktsk ?s = (if klocked (tcbs s t) then Some t else klocktsk s)"
    by (rule ready_queue_insert_fields)
  show ?thesis
    unfolding kinv_x_def T
  proof (intro conjI allI impI ballI)
    show "rdq_ok ?s" by (rule rdq_ok_insert [OF kd(1) t(1) pri])
    fix p u assume "u \<in> set (que ?s (Rdy p))"
    then show "tstate (tcbs s u) = TS_READY" "\<not> klockwait (tcbs s u)"
      using kd(3) [of u p] t by (auto simp: Q split: if_splits)
  next
    fix u assume "u \<notin> X" "tstate (tcbs s u) = TS_READY" "\<not> klockwait (tcbs s u)"
    then show "u \<in> set (que ?s (Rdy (priority (tcbs s u))))"
      using kd(4) [of u] by (cases "u = t") (auto simp: Q)
  next
    fix u assume "klocktsk ?s = Some u"
    then show "u \<in> set (que ?s (Rdy (priority (tcbs s u))))"
      using kd(10) [of u] by (auto simp: Q K split: if_splits)
  qed (use kd in \<open>auto simp: Q split: if_splits\<close>)
qed

lemma unqueued_insert: "unqueued u (snd (ready_queue_insert t s)) \<longleftrightarrow> u \<noteq> t \<and> unqueued u s"
  by (auto simp: unqueued_def que_ready_queue_insert)

lemma tcb_upd_kinv_x:
  assumes k: "kinv_x X s" and t: "unqueued t s" "t \<in> X"
    and p: "tstate (f (tcbs s t)) \<noteq> TS_NONEXIST \<Longrightarrow> priority (f (tcbs s t)) < NUM_PRI"
    and kw: "klockwait (f (tcbs s t)) \<Longrightarrow>
      tstate (f (tcbs s t)) = TS_READY \<or> tstate (f (tcbs s t)) = TS_NONEXIST"
  shows "kinv_x X (tcb_upd t f s)"
proof -
  note kd = kinv_xD [OF k]
  have nt: "u \<in> set (que s q) \<Longrightarrow> u \<noteq> t" for u q using t(1) by (auto simp: unqueued_def)
  have "rdq_ok (tcb_upd t f s)"
    using kd(1) nt by (auto simp: rdq_ok_def)
  moreover have "schedtsk s \<noteq> Some t" "klocktsk s \<noteq> Some t"
    using kd(9) [of t] kd(10) [of t] nt [of t] by blast+
  ultimately show ?thesis
    using k t(2) p kw nt by (auto simp: kinv_x_def)
qed

text \<open>Once its state is not READY, a task is out of transition.\<close>

lemma kinv_x_drop:
  "kinv_x (insert t X) s \<Longrightarrow> tstate (tcbs s t) \<noteq> TS_READY \<or> klockwait (tcbs s t) \<Longrightarrow> kinv_x X s"
  unfolding kinv_x_def by auto

lemma make_ready_que:
  assumes k: "kinv_x X s" and t: "unqueued t s" and q: "\<not> is_rdy q"
  shows "que (make_ready t s) q = que s q"
proof -
  let ?s2 = "snd (ready_queue_insert t (tcb_upd t (\<lambda>c. c\<lparr>tstate := TS_READY\<rparr>) s))"
  have q2: "que ?s2 q' = (if q' = Rdy (priority (tcbs s t)) then que s q' @ [t] else que s q')" for q'
    by (simp add: que_ready_queue_insert)
  have e: "que ?s2 = (que s)(Rdy (priority (tcbs s t)) := que s (Rdy (priority (tcbs s t))) @ [t])"
    by (simp add: que_ready_queue_insert)
  have ok: "que_ok (que ?s2)"
    unfolding e using kinv_xD(2) [OF k] t by (intro que_ok_insert) (auto simp: unqueued_def)
  have sch: "schedtsk s = Some u \<Longrightarrow> u \<in> set (que ?s2 (Rdy (priority (tcbs ?s2 u))))" for u
    using kinv_xD(9) [OF k, of u] by (auto simp: q2 ready_queue_insert_fields)
  have "que (snd (time_slice_schedule (schedtsk s) ?s2)) q = que ?s2 q"
    using slice_que [OF ok, of "schedtsk s" q] sch q by auto
  then show ?thesis
    using q q2 by (auto simp: make_ready_eq Let_def)
qed

lemma make_ready_kinv_x:
  assumes k: "kinv_x (insert t X) s" and t: "unqueued t s" "\<not> klockwait (tcbs s t)"
    and p: "priority (tcbs s t) < NUM_PRI"
  shows "kinv_x X (make_ready t s)"
proof -
  let ?s1 = "tcb_upd t (\<lambda>c. c\<lparr>tstate := TS_READY\<rparr>) s"
  let ?s2 = "snd (ready_queue_insert t ?s1)"
  have "kinv_x (insert t X) ?s1" using k t p by (intro tcb_upd_kinv_x) auto
  then have k2: "kinv_x X ?s2" using t by (intro insert_kinv_x) auto
  have sch: "schedtsk s = Some u \<Longrightarrow> u \<in> set (que ?s2 (Rdy (priority (tcbs ?s2 u))))" for u
    using kinv_xD(9) [OF k2, of u] by simp
  have k3: "kinv_x X (snd (time_slice_schedule (schedtsk s) ?s2))"
    using sch by (intro slice_kinv_x [OF k2])
  have tin: "t \<in> set (que s' (Rdy (priority (tcbs s' t))))"
    if "s' = ?s2 \<or> s' = snd (time_slice_schedule (schedtsk s) ?s2)" for s'
  proof -
    have t2: "t \<in> set (que ?s2 (Rdy (priority (tcbs ?s2 t))))"
      by (simp add: que_ready_queue_insert ready_queue_insert_fields)
    then have "tstate (tcbs ?s2 t) = TS_READY" "\<not> klockwait (tcbs ?s2 t)"
      using kinv_xD(3) [OF k2] by blast+
    then have "t \<in> set (que (snd (time_slice_schedule (schedtsk s) ?s2))
        (Rdy (priority (tcbs (snd (time_slice_schedule (schedtsk s) ?s2)) t))))"
      using slice_que [OF kinv_xD(2) [OF k2], of "schedtsk s"
          "Rdy (priority (tcbs (snd (time_slice_schedule (schedtsk s) ?s2)) t))"] sch t2
      by (auto simp: slice_tcb_fields)
    with t2 that show ?thesis by blast
  qed
  have upd: "kinv_x X (s'\<lparr>schedtsk := Some t\<rparr>)"
    if "kinv_x X s'" "t \<in> set (que s' (Rdy (priority (tcbs s' t))))" for s' :: "'a kst_scheme"
    using that by (intro kinv_x_schedtsk) auto
  have "kinv_x X (?s2\<lparr>schedtsk := Some t\<rparr>)"
    "kinv_x X ((snd (time_slice_schedule (schedtsk s) ?s2))\<lparr>schedtsk := Some t\<rparr>)"
    by (rule upd [OF k2 tin], simp) (rule upd [OF k3 tin], simp)
  with k2 show ?thesis
    unfolding make_ready_eq Let_def
    by (cases "priority (tcbs s t) < top_priority s"; cases "schedtsk s = ctxtsk s") simp_all
qed

lemma ready_queue_top_in:
  assumes k: "kinv_x X s" and t: "ready_queue_top s = Some t"
  shows "t \<in> set (que s (Rdy (priority (tcbs s t))))"
proof (cases "klocktsk s")
  case (Some u)
  then show ?thesis using t kinv_xD(10) [OF k] by (simp add: ready_queue_top_def)
next
  case None
  then have "t \<in> set (que s (Rdy (top_priority s)))"
    using t by (auto simp: ready_queue_top_def split: if_splits list.splits)
  then show ?thesis using rdq_okD(8) [OF kinv_xD(1) [OF k]] by auto
qed

lemma unqueued_delete: "unqueued t (ready_queue_delete t s)"
  by (simp add: unqueued_def que_ready_queue_delete)

lemma unqueued_make_non_ready [simp]: "unqueued t (make_non_ready t s)"
  using unqueued_delete [of t s] by (simp add: make_non_ready_def Let_def unqueued_def)

lemma que_make_non_ready: "que (make_non_ready t s) = (\<lambda>q. removeAll t (que s q))"
  by (simp add: make_non_ready_def Let_def que_ready_queue_delete)

lemma delete_kinv_x:
  assumes k: "kinv_x X s" and t: "tstate (tcbs s t) = TS_READY" "t \<notin> X" and sch: "schedtsk s \<noteq> Some t"
  shows "kinv_x (insert t X) (ready_queue_delete t s)"
proof -
  note kd = kinv_xD [OF k]
  let ?s = "ready_queue_delete t s"
  have ok: "rdq_ok ?s"
  proof (cases "klockwait (tcbs s t)")
    case True
    then show ?thesis using kd(3) by (intro rdq_ok_delete_klockwait [OF kd(1)]) auto
  next
    case False
    then show ?thesis using kd(4) t by (intro rdq_ok_delete [OF kd(1)]) auto
  qed
  show ?thesis
    using k ok sch t
    by (auto simp: kinv_x_def que_ready_queue_delete ready_queue_delete_fields)
qed

lemma make_non_ready_kinv_x:
  assumes k: "kinv_x X s" and t: "tstate (tcbs s t) = TS_READY" "t \<notin> X"
  shows "kinv_x (insert t X) (make_non_ready t s)"
proof (cases "schedtsk s = Some t")
  case False
  then show ?thesis using delete_kinv_x [OF k t False] by (simp add: make_non_ready_def Let_def)
next
  case True
  let ?s0 = "s\<lparr>schedtsk := None\<rparr>" and ?s1 = "ready_queue_delete t s"
  have "kinv_x X ?s0" using k by (rule kinv_x_schedtsk) simp
  then have k1: "kinv_x (insert t X) (ready_queue_delete t ?s0)"
    using t by (intro delete_kinv_x) auto
  have e: "ready_queue_delete t ?s0 = ?s1\<lparr>schedtsk := None\<rparr>"
    by (simp add: ready_queue_delete_def Let_def que_remove_def tcb_upd_def)
  have "ready_queue_top (?s1\<lparr>schedtsk := None\<rparr>) = ready_queue_top ?s1"
    by (simp add: ready_queue_top_def split: option.split)
  then have "ready_queue_top ?s1 = Some u \<Longrightarrow> u \<in> set (que ?s1 (Rdy (priority (tcbs ?s1 u))))" for u
    using ready_queue_top_in [OF k1, of u] unfolding e by simp
  then have "kinv_x (insert t X) (?s1\<lparr>schedtsk := ready_queue_top ?s1\<rparr>)"
    using kinv_x_schedtsk [OF k1, of "ready_queue_top ?s1"] unfolding e by simp
  with True show ?thesis by (simp add: make_non_ready_def Let_def)
qed

text \<open>Into a wait queue, out of a wait queue.\<close>

lemma wait_insert_kinv_x:
  assumes k: "kinv_x X s" and t: "unqueued t s" "in_wait (tstate (tcbs s t))" "wid (tcbs s t) = i"
    and xs: "set xs = insert t (set (que s (WaitQ kd i)))" "distinct xs"
  shows "kinv_x X (s\<lparr>que := (que s)(WaitQ kd i := xs)\<rparr>)"
proof -
  have "que_ok ((que s)(WaitQ kd i := xs))"
    using kinv_xD(2) [OF k] t(1) xs by (auto simp: que_ok_def unqueued_def split: if_splits)
  then have "rdq_ok (s\<lparr>que := (que s)(WaitQ kd i := xs)\<rparr>)"
    using kinv_xD(1) [OF k] by (auto simp: rdq_ok_def)
  then show ?thesis
    using k t xs by (auto simp: kinv_x_def split: if_splits)
qed

lemma que_remove_kinv_x:
  assumes k: "kinv_x X s" and t: "tstate (tcbs s t) \<noteq> TS_READY"
  shows "kinv_x X (que_remove t s)"
proof -
  note kd = kinv_xD [OF k]
  have nr: "removeAll t (que s (Rdy p)) = que s (Rdy p)" for p
    using not_ready_not_queued [OF k t] by (simp add: removeAll_id)
  have "que_ok (\<lambda>q. removeAll t (que s q))" using kd(2) by blast
  then have "rdq_ok (que_remove t s)"
    using kd(1) by (simp add: rdq_ok_def que_que_remove nr)
  then show ?thesis
    using k by (auto simp: kinv_x_def nr)
qed


text \<open>The ready tasks in the order of their priority, and the task on top: the transitions are
  the operations on the sorted list, and the scheduled task stays its head.\<close>

lemma sched_ok_iff:
  "rdq_ok s \<Longrightarrow> sched_ok s \<longleftrightarrow>
     klocktsk s = None \<and> (\<forall>t. tstate (tcbs s t) \<noteq> TS_NONEXIST \<longrightarrow> \<not> klocked (tcbs s t)) \<and>
     schedtsk s = (case ready_list s of [] \<Rightarrow> None | t # _ \<Rightarrow> Some t)"
  by (auto simp: sched_ok_def ready_list_top)

lemma ready_queue_top_upd [simp]: "ready_queue_top (s\<lparr>schedtsk := x\<rparr>) = ready_queue_top s"
  by (simp add: ready_queue_top_def split: option.split)

lemma make_ready_sched_ok:
  assumes k: "kinv_x (insert t X) s" and t: "unqueued t s" "\<not> klockwait (tcbs s t)"
    and p: "priority (tcbs s t) < NUM_PRI" and nl: "\<not> klocked (tcbs s t)" and sc: "sched_ok s"
  shows "sched_ok (make_ready t s)"
proof -
  let ?s1 = "tcb_upd t (\<lambda>c. c\<lparr>tstate := TS_READY\<rparr>) s"
  let ?s2 = "snd (ready_queue_insert t ?s1)" and ?p = "priority (tcbs s t)"
  note ok = kinv_xD(1) [OF k]
  have nlr: "\<forall>u. tstate (tcbs (make_ready t s) u) \<noteq> TS_NONEXIST \<longrightarrow> \<not> klocked (tcbs (make_ready t s) u)"
    using sc nl by (auto simp: sched_ok_def)
  have kl: "klocktsk ?s2 = None" using sc nl by (simp add: sched_ok_def ready_queue_insert_fields)
  have top2: "top_priority ?s2 = min ?p (top_priority s)" by (simp add: ready_queue_insert_fields)
  have q2: "que ?s2 q = (if q = Rdy ?p then que s q @ [t] else que s q)" for q
    by (simp add: que_ready_queue_insert)
  show ?thesis
  proof (cases "?p < top_priority s")
    case True
    let ?s3 = "if schedtsk s = ctxtsk s then snd (time_slice_schedule (schedtsk s) ?s2) else ?s2"
    have e: "make_ready t s = ?s3\<lparr>schedtsk := Some t\<rparr>"
      using True by (simp add: make_ready_eq Let_def)
    have empty: "que s (Rdy ?p) = []" using rdq_okD(6) [OF ok True] .
    have u: "schedtsk s = Some u \<Longrightarrow> priority (tcbs s u) \<noteq> ?p" for u
      using kinv_xD(9) [OF k, of u] empty by auto
    have "que ?s3 (Rdy ?p) = [t]"
    proof (cases "schedtsk s")
      case (Some u)
      have "que (snd (time_slice_schedule (schedtsk s) ?s2)) (Rdy ?p) = que ?s2 (Rdy ?p)"
      proof (cases "schedtsk s" ?s2 rule: slice_cases)
        case (move w v)
        with Some have w: "w = u" by simp
        have "u \<noteq> t" using kinv_xD(9) [OF k Some] t(1) by (auto simp: unqueued_def)
        with move w u [OF Some] show ?thesis
          by (simp add: ready_queue_move_last_def Let_def ready_queue_insert_fields q2 empty)
      qed simp_all
      then show ?thesis by (cases "schedtsk s = ctxtsk s") (simp_all add: q2 empty)
    qed (simp add: q2 empty time_slice_schedule_def)
    moreover have "top_priority ?s3 = ?p" "klocktsk ?s3 = None" using kl top2 True by auto
    ultimately have "ready_queue_top ?s3 = Some t" using p by (simp add: ready_queue_top_def)
    then have "ready_queue_top (make_ready t s) = Some t"
      unfolding e ready_queue_top_upd .
    moreover have "klocktsk (make_ready t s) = None" "schedtsk (make_ready t s) = Some t"
      using kl by (simp_all add: e)
    ultimately show ?thesis using nlr by (simp add: sched_ok_def)
  next
    case False
    have "top_priority s < NUM_PRI" using False p by simp
    then have ne: "que s (Rdy (top_priority s)) \<noteq> []" using rdq_okD(7) [OF ok] by simp
    have "ready_queue_top ?s2 = ready_queue_top s"
      using kl sc top2 False ne
      by (auto simp: ready_queue_top_def sched_ok_def q2 split: list.splits)
    moreover have "make_ready t s = ?s2" using False by (simp add: make_ready_eq Let_def)
    ultimately show ?thesis using kl sc nlr by (simp add: sched_ok_def)
  qed
qed

lemma make_non_ready_sched_ok:
  assumes k: "kinv_x X s" and t: "tstate (tcbs s t) = TS_READY" "t \<notin> X" and sc: "sched_ok s"
  shows "sched_ok (make_non_ready t s)"
proof -
  let ?s1 = "ready_queue_delete t s"
  note ok = kinv_xD(1) [OF k]
  have kl: "klocktsk ?s1 = None" using sc by (simp add: sched_ok_def ready_queue_delete_fields)
  have nlr: "\<forall>u. tstate (tcbs ?s1 u) \<noteq> TS_NONEXIST \<longrightarrow> \<not> klocked (tcbs ?s1 u)"
    using sc by (auto simp: sched_ok_def ready_queue_delete_fields)
  have "rdq_ok ?s1"
  proof (cases "klockwait (tcbs s t)")
    case True
    then show ?thesis using kinv_xD(3) [OF k] by (intro rdq_ok_delete_klockwait [OF ok]) auto
  next
    case False
    then show ?thesis using kinv_xD(4) [OF k] t by (intro rdq_ok_delete [OF ok]) auto
  qed
  then have top1: "ready_queue_top ?s1 = (case removeAll t (ready_list s) of [] \<Rightarrow> None | u # _ \<Rightarrow> Some u)"
    using kl by (simp add: ready_list_top ready_list_delete)
  have sch: "schedtsk s = (case ready_list s of [] \<Rightarrow> None | u # _ \<Rightarrow> Some u)"
    using sc ok by (simp add: sched_ok_iff)
  show ?thesis
  proof (cases "schedtsk s = Some t")
    case True
    then have e: "make_non_ready t s = ?s1\<lparr>schedtsk := ready_queue_top ?s1\<rparr>"
      by (simp add: make_non_ready_def Let_def)
    show ?thesis unfolding e using kl nlr by (simp add: sched_ok_def)
  next
    case False
    then have e: "make_non_ready t s = ?s1" by (simp add: make_non_ready_def Let_def)
    have "ready_queue_top ?s1 = schedtsk s"
      using False unfolding top1 sch by (auto split: list.splits)
    then show ?thesis unfolding e using kl nlr by (simp add: sched_ok_def)
  qed
qed

text \<open>What the transitions leave of the other queues.\<close>

lemma make_non_ready_wait_que [simp]:
  "que (make_non_ready t s) (WaitQ k i) = removeAll t (que s (WaitQ k i))"
  by (simp add: que_make_non_ready)

lemma make_ready_wait_que_le: "set (que (make_ready t s) (WaitQ k i)) \<subseteq> set (que s (WaitQ k i))"
  "length (que (make_ready t s) (WaitQ k i)) \<le> length (que s (WaitQ k i))"
proof -
  let ?s2 = "snd (ready_queue_insert t (tcb_upd t (\<lambda>c. c\<lparr>tstate := TS_READY\<rparr>) s))"
  have q2: "que ?s2 (WaitQ k i) = que s (WaitQ k i)" by (simp add: que_ready_queue_insert)
  have "set (que (snd (time_slice_schedule x ?s2)) (WaitQ k i)) \<subseteq> set (que s (WaitQ k i)) \<and>
     length (que (snd (time_slice_schedule x ?s2)) (WaitQ k i)) \<le> length (que s (WaitQ k i))" for x
    by (cases x ?s2 rule: slice_cases)
      (auto simp: q2 ready_queue_move_last_def Let_def length_removeAll_less_eq)
  then show "set (que (make_ready t s) (WaitQ k i)) \<subseteq> set (que s (WaitQ k i))"
    "length (que (make_ready t s) (WaitQ k i)) \<le> length (que s (WaitQ k i))"
    using q2 by (auto simp: make_ready_eq Let_def)
qed


section \<open>Rescheduling and the change of a priority\<close>

lemma queued_slice:
  assumes k: "kinv_x X s" and x: "\<And>t. x = Some t \<Longrightarrow> t \<in> set (que s (Rdy (priority (tcbs s t))))"
    and u: "u \<in> set (que s (Rdy (priority (tcbs s u))))"
  shows "u \<in> set (que (snd (time_slice_schedule x s))
    (Rdy (priority (tcbs (snd (time_slice_schedule x s)) u))))"
  using slice_que [OF kinv_xD(2) [OF k], of x "Rdy (priority (tcbs s u))"] x u
  by (auto simp: slice_tcb_fields)

lemma reschedule_kinv_x:
  assumes k: "kinv_x X s"
  shows "kinv_x X (reschedule s)"
proof (cases "schedtsk s = ready_queue_top s")
  case True
  then show ?thesis using k by (simp add: reschedule_def Let_def)
next
  case False
  note top = ready_queue_top_in [OF k]
  have 1: "kinv_x X (s\<lparr>schedtsk := ready_queue_top s\<rparr>)"
    using top by (intro kinv_x_schedtsk [OF k]) auto
  have 2: "kinv_x X ((snd (time_slice_schedule (schedtsk s) s))\<lparr>schedtsk := ready_queue_top s\<rparr>)"
    using top kinv_xD(9) [OF k]
    by (intro kinv_x_schedtsk slice_kinv_x [OF k] queued_slice [OF k]) auto
  from 1 2 False show ?thesis
    by (cases "schedtsk s = ctxtsk s") (simp_all add: reschedule_def Let_def)
qed

lemma reschedule_sched_ok:
  assumes k: "kinv_x X s" and kl: "klocktsk s = None"
    and nl: "\<And>t. tstate (tcbs s t) \<noteq> TS_NONEXIST \<Longrightarrow> \<not> klocked (tcbs s t)"
  shows "sched_ok (reschedule s)"
proof (cases "schedtsk s = ready_queue_top s")
  case True
  then show ?thesis using kl nl by (simp add: reschedule_def Let_def sched_ok_def)
next
  case False
  let ?s1 = "snd (time_slice_schedule (schedtsk s) s)"
  have "ready_queue_top ?s1 = ready_queue_top s"
  proof (cases "schedtsk s" s rule: slice_cases)
    case (move t v)
    have t: "t \<in> set (que s (Rdy (priority (tcbs s t))))" using kinv_xD(9) [OF k] move(1) by simp
    have q: "que ?s1 q = (if q = Rdy (priority (tcbs s t)) then removeAll t (que s q) @ [t] else que s q)" for q
      using que_ready_queue_move_last [of "tcb_upd t (\<lambda>c. c\<lparr>slicecnt := v\<rparr>) s" t] t
        kinv_xD(2) [OF k] by (simp add: move(2))
    show ?thesis
    proof (cases "priority (tcbs s t) = top_priority s")
      case True
      then obtain h hs where h: "que s (Rdy (top_priority s)) = h # hs"
        using t by (cases "que s (Rdy (top_priority s))") auto
      have "top_priority s \<noteq> NUM_PRI"
        using t rdq_okD(4) [OF kinv_xD(1) [OF k], of NUM_PRI] True by auto
      then have "h \<noteq> t" using False h kl move(1) by (auto simp: ready_queue_top_def)
      then show ?thesis using kl h True by (simp add: ready_queue_top_def q)
    next
      case False
      then show ?thesis using kl by (simp add: ready_queue_top_def q)
    qed
  qed (simp_all add: ready_queue_top_def split: option.split)
  moreover have "klocked (tcbs ?s1 u) = klocked (tcbs s u)" for u
    using slice_tcbs [of "schedtsk s" s u] by auto
  ultimately show ?thesis using False kl nl
    by (cases "schedtsk s = ctxtsk s")
      (simp_all add: reschedule_def Let_def sched_ok_def slice_tcb_fields)
qed

lemma schedtsk_upd_commute:
  "ready_queue_delete t (s\<lparr>schedtsk := x\<rparr>) = (ready_queue_delete t s)\<lparr>schedtsk := x\<rparr>"
  "tcb_upd t f (s\<lparr>schedtsk := x\<rparr>) = (tcb_upd t f s)\<lparr>schedtsk := x\<rparr>"
  "snd (ready_queue_insert t (s\<lparr>schedtsk := x\<rparr>)) = (snd (ready_queue_insert t s))\<lparr>schedtsk := x\<rparr>"
  by (simp_all add: ready_queue_insert_def ready_queue_delete_def Let_def que_remove_def
      que_insert_def tcb_upd_def)

lemma set_priority_ready_kinv_x:
  assumes k: "kinv_x X s" and t: "tstate (tcbs s t) = TS_READY" "t \<notin> X" and p: "pri < NUM_PRI"
  shows "kinv_x X (snd (ready_queue_insert t
    (tcb_upd t (\<lambda>c. c\<lparr>priority := pri\<rparr>) (ready_queue_delete t s))))"
    (is "kinv_x X (?f s)")
proof -
  let ?s0 = "s\<lparr>schedtsk := None\<rparr>"
  have "kinv_x X ?s0" using k by (rule kinv_x_schedtsk) simp
  then have "kinv_x (insert t X) (ready_queue_delete t ?s0)"
    using t by (intro delete_kinv_x) auto
  then have "kinv_x (insert t X) (tcb_upd t (\<lambda>c. c\<lparr>priority := pri\<rparr>) (ready_queue_delete t ?s0))"
    using p t(1) unqueued_delete by (intro tcb_upd_kinv_x) (auto simp: ready_queue_delete_fields)
  then have k0: "kinv_x X (?f ?s0)"
    using t(1) unqueued_delete by (intro insert_kinv_x) (auto simp: ready_queue_delete_fields)
  have e: "?f s = (?f ?s0)\<lparr>schedtsk := schedtsk s\<rparr>"
    by (simp add: schedtsk_upd_commute)
  show ?thesis
    unfolding e
  proof (rule kinv_x_schedtsk [OF k0])
    fix u assume u: "schedtsk s = Some u"
    note ru = kinv_xD(9) [OF k u]
    show "u \<in> set (que (?f ?s0) (Rdy (priority (tcbs (?f ?s0) u))))"
      using ru by (auto simp: que_ready_queue_insert que_ready_queue_delete ready_queue_insert_fields
          ready_queue_delete_fields)
  qed
qed

lemma set_priority_wait_kinv_x:
  assumes k: "kinv_x X s" and nr: "tstate (tcbs s t) \<noteq> TS_READY" and p: "pri < NUM_PRI"
  shows "kinv_x X (tcb_upd t (\<lambda>c. c\<lparr>priority := pri\<rparr>) s)"
proof -
  note kd = kinv_xD [OF k]
  have nt: "t \<notin> set (que s (Rdy p))" for p using not_ready_not_queued [OF k nr] .
  have ok: "rdq_ok (tcb_upd t (\<lambda>c. c\<lparr>priority := pri\<rparr>) s)"
    using kd(1) nt by (auto simp: rdq_ok_def)
  have "schedtsk s \<noteq> Some t" "klocktsk s \<noteq> Some t" using kd(9,10) nt by blast+
  then show "kinv_x X (tcb_upd t (\<lambda>c. c\<lparr>priority := pri\<rparr>) s)"
    by (intro kinv_xI [OF ok]) (use kd(1-10) kd(11) [of t] kd(11) p nr in \<open>auto split: if_splits\<close>)
qed

lemma change_task_priority_kinv_x:
  assumes k: "kinv_x X s" and t: "t \<notin> X" and p: "pri < NUM_PRI"
    and hook: "\<And>h old. tstate (tcbs s t) \<noteq> TS_READY \<Longrightarrow>
      kinv_x X (call_hook h t old (tcb_upd t (\<lambda>c. c\<lparr>priority := pri\<rparr>) s))"
  shows "kinv_x X (change_task_priority call_hook t pri s)"
proof (cases "tstate (tcbs s t) = TS_READY")
  case True
  then show ?thesis
    using set_priority_ready_kinv_x [OF k True t p]
    by (simp add: change_task_priority_def Let_def reschedule_kinv_x)
next
  case False
  then have "kinv_x X (tcb_upd t (\<lambda>c. c\<lparr>priority := pri\<rparr>) s)"
    using set_priority_wait_kinv_x [OF k _ p] by blast
  with False hook show ?thesis
    by (auto simp: change_task_priority_def Let_def split: option.splits)
qed

end
