(* ===== verification/Wait.thy ===== *)
theory Wait
  imports Task
begin

text \<open>
  The common routines of synchronisation (\<open>wait.c\<close>, \<open>wait.h\<close>): putting the running task into
  the WAIT state with a time limit, connecting it to the wait queue of an object, and releasing
  waiting tasks. An object is given by its identifier and attribute (\<open>GCB\<close>), its wait queue is
  \<open>WaitQ kind id\<close>. The hook of the wait specification is called through a function pointer;
  \<open>rel_hook\<close> is that call.
\<close>

section \<open>Releasing a task\<close>

definition make_non_wait :: "ID \<Rightarrow> 'a kst_scheme \<Rightarrow> 'a kst_scheme" where
  "make_non_wait t s =
     (if tstate (tcbs s t) = TS_WAIT then make_ready t s
      else tcb_upd t (\<lambda>c. c\<lparr>tstate := TS_SUSPEND\<rparr>) s)"

definition wait_release :: "ID \<Rightarrow> 'a kst_scheme \<Rightarrow> 'a kst_scheme" where
  "wait_release t s = make_non_wait t (que_remove t (timer_delete (TskTm t) s))"

definition set_wercd :: "ID \<Rightarrow> ER \<Rightarrow> 'a kst_scheme \<Rightarrow> 'a kst_scheme" where
  "set_wercd t e = tcb_upd t (\<lambda>c. c\<lparr>wercd := e\<rparr>)"

definition wait_release_ok :: "ID \<Rightarrow> 'a kst_scheme \<Rightarrow> 'a kst_scheme" where
  "wait_release_ok t s = set_wercd t E_OK (wait_release t s)"

definition wait_release_ok_ercd :: "ID \<Rightarrow> ER \<Rightarrow> 'a kst_scheme \<Rightarrow> 'a kst_scheme" where
  "wait_release_ok_ercd t e s = set_wercd t e (wait_release t s)"

definition wait_release_ng ::
  "(hook \<Rightarrow> ID \<Rightarrow> 'a kst_scheme \<Rightarrow> 'a kst_scheme) \<Rightarrow> ID \<Rightarrow> ER \<Rightarrow> 'a kst_scheme \<Rightarrow> 'a kst_scheme" where
  "wait_release_ng rel_hook t e s =
     (let s1 = wait_release t s;
          s2 = (case rel_wai_hook (wspec (tcbs s1 t)) of None \<Rightarrow> s1 | Some h \<Rightarrow> rel_hook h t s1)
      in set_wercd t e s2)"

definition wait_release_tmout ::
  "(hook \<Rightarrow> ID \<Rightarrow> 'a kst_scheme \<Rightarrow> 'a kst_scheme) \<Rightarrow> ID \<Rightarrow> 'a kst_scheme \<Rightarrow> 'a kst_scheme" where
  "wait_release_tmout rel_hook t s =
     (let s1 = make_non_wait t (que_remove t s)
      in (case rel_wai_hook (wspec (tcbs s1 t)) of None \<Rightarrow> s1 | Some h \<Rightarrow> rel_hook h t s1))"

definition wait_cancel :: "ID \<Rightarrow> 'a kst_scheme \<Rightarrow> 'a kst_scheme" where
  "wait_cancel t s = que_remove t (timer_delete (TskTm t) s)"

section \<open>Putting the running task to wait\<close>

text \<open>The running task, \<open>*ctxtsk\<close>.\<close>

abbreviation me :: "'a kst_scheme \<Rightarrow> ID" where
  "me s \<equiv> the (ctxtsk s)"

definition enter_wait :: "ATR \<Rightarrow> 'a kst_scheme \<Rightarrow> 'a kst_scheme" where
  "enter_wait atr s =
     (let t = me s;
          s1 = (case tstate (tcbs s t) of
                  TS_READY \<Rightarrow> tcb_upd t (\<lambda>c. c\<lparr>tstate := TS_WAIT\<rparr>) (make_non_ready t s)
                | TS_SUSPEND \<Rightarrow> tcb_upd t (\<lambda>c. c\<lparr>tstate := TS_WAITSUS\<rparr>) s
                | _ \<Rightarrow> s)
      in tcb_upd t (\<lambda>c. c\<lparr>nodiswai := has atr TA_NODISWAI\<rparr>) s1)"

definition make_wait :: "int \<Rightarrow> ATR \<Rightarrow> 'a kst_scheme \<Rightarrow> 'a kst_scheme" where
  "make_wait tmout atr s =
     timer_insert (TskTm (me s)) tmout (Some (CB_wait_release_tmout (me s))) (enter_wait atr s)"

definition make_wait_reltim :: "RELTIM_U \<Rightarrow> ATR \<Rightarrow> 'a kst_scheme \<Rightarrow> 'a kst_scheme" where
  "make_wait_reltim tmout atr s =
     timer_insert_reltim (TskTm (me s)) tmout (Some (CB_wait_release_tmout (me s))) (enter_wait atr s)"

text \<open>\<open>queue_insert_tpri\<close>, by the link structure \<open>Queue.queue_insert_tpri_ptr\<close>.\<close>

definition queue_insert_tpri :: "ID \<Rightarrow> qid \<Rightarrow> 'a kst_scheme \<Rightarrow> 'a kst_scheme" where
  "queue_insert_tpri t q s =
     s\<lparr>que := (que s)(q :=
         insert_before (\<lambda>u. priority (tcbs s u) > priority (tcbs s t)) t (que s q))\<rparr>"

definition wait_tskid :: "qid \<Rightarrow> 'a kst_scheme \<Rightarrow> ID" where
  "wait_tskid q s = (case que s q of [] \<Rightarrow> 0 | t # _ \<Rightarrow> t)"

text \<open>How an object with this attribute connects a task to its wait queue.\<close>

definition connect_wait :: "ATR \<Rightarrow> ID \<Rightarrow> qid \<Rightarrow> 'a kst_scheme \<Rightarrow> 'a kst_scheme" where
  "connect_wait atr t q s =
     (if has atr TA_TPRI then queue_insert_tpri t q s else que_insert t q s)"

definition gcb_make_wait :: "okind \<Rightarrow> ID \<Rightarrow> ATR \<Rightarrow> int \<Rightarrow> 'a kst_scheme \<Rightarrow> 'a kst_scheme" where
  "gcb_make_wait k objid objatr tmout s =
     (let s1 = tcb_upd (me s) (\<lambda>c. c\<lparr>wid := objid\<rparr>) s;
          s2 = make_wait tmout objatr s1
      in connect_wait objatr (me s) (WaitQ k objid) s2)"

definition is_diswai :: "ATR \<Rightarrow> ID \<Rightarrow> UINT \<Rightarrow> 'a kst_scheme \<Rightarrow> bool" where
  "is_diswai objatr t tw s \<longleftrightarrow> has (waitmask (tcbs s t)) tw \<and> \<not> has objatr TA_NODISWAI"

definition gcb_make_wait_with_diswai ::
  "okind \<Rightarrow> ID \<Rightarrow> ATR \<Rightarrow> int \<Rightarrow> 'a kst_scheme \<Rightarrow> 'a kst_scheme" where
  "gcb_make_wait_with_diswai k objid objatr tmout s =
     (if is_diswai objatr (me s) (tskwait (wspec (tcbs s (me s)))) s
      then set_wercd (me s) E_DISWAI s
      else
        (let s1 = set_wercd (me s) E_TMOUT s
         in if tmout \<noteq> TMO_POL then gcb_make_wait k objid objatr tmout s1 else s1))"

text \<open>A system call that may have put its task to wait returns the value of \<open>ercd\<close>, which
  \<open>wercd\<close> points to, if the task did not start to wait.\<close>

definition wait_ret :: "'a kst_scheme \<Rightarrow> sysret" where
  "wait_ret s = (if in_wait (tstate (tcbs s (me s))) then Blocked else Ret (wercd (tcbs s (me s))))"

definition gcb_change_priority :: "qid \<Rightarrow> ID \<Rightarrow> 'a kst_scheme \<Rightarrow> 'a kst_scheme" where
  "gcb_change_priority q t s = queue_insert_tpri t q (que_remove t s)"

definition gcb_top_of_wait_queue :: "ATR \<Rightarrow> qid \<Rightarrow> ID \<Rightarrow> 'a kst_scheme \<Rightarrow> ID" where
  "gcb_top_of_wait_queue objatr q t s =
     (case que s q of
        [] \<Rightarrow> t
      | h # _ \<Rightarrow> if \<not> has objatr TA_TPRI then h
                 else if priority (tcbs s t) < priority (tcbs s h) then t else h)"

section \<open>Releasing every task of a queue\<close>

lemma make_non_wait_que_le: "length (que (make_non_wait t s) (WaitQ k i)) \<le> length (que s (WaitQ k i))"
  using make_ready_wait_que_le(2) by (auto simp: make_non_wait_def)

lemma wait_release_que_less:
  assumes q: "que s (WaitQ k i) = t # ts"
  shows "length (que (wait_release t s) (WaitQ k i)) \<le> length ts"
proof -
  have "length (que (wait_release t s) (WaitQ k i)) \<le> length (removeAll t (que s (WaitQ k i)))"
    using make_non_wait_que_le [of t "que_remove t (timer_delete (TskTm t) s)" k i]
    by (simp add: wait_release_def)
  then show ?thesis
    using order_trans [OF _ length_removeAll_less_eq [of t ts]] by (simp add: q)
qed

function wait_delete :: "okind \<Rightarrow> ID \<Rightarrow> 'a kst_scheme \<Rightarrow> 'a kst_scheme" where
  "wait_delete k i s =
     (case que s (WaitQ k i) of
        [] \<Rightarrow> s
      | t # _ \<Rightarrow> wait_delete k i (set_wercd t E_DLT (wait_release t s)))"
  by auto
termination
  by (relation "measure (\<lambda>(k, i, s). length (que s (WaitQ k i)))")
    (auto simp: set_wercd_def less_Suc_eq_le wait_release_que_less)

declare wait_delete.simps [simp del]


section \<open>What the routines leave unchanged\<close>

lemma set_wercd_frame [simp]:
  "ctxtsk (set_wercd t e s) = ctxtsk s" "max_tskid (set_wercd t e s) = max_tskid s"
  "dispatch_disabled (set_wercd t e s) = dispatch_disabled s"
  "task_indep (set_wercd t e s) = task_indep s" "cpu_di (set_wercd t e s) = cpu_di s"
  "current_time (set_wercd t e s) = current_time s" "mem_uint (set_wercd t e s) = mem_uint s"
  "mem_int (set_wercd t e s) = mem_int s" "mem_ptr (set_wercd t e s) = mem_ptr s"
  "mem_byte (set_wercd t e s) = mem_byte s" "kst.more (set_wercd t e s) = kst.more s"
  "que (set_wercd t e s) = que s" "timer_queue (set_wercd t e s) = timer_queue s"
  "tmebs (set_wercd t e s) = tmebs s" "schedtsk (set_wercd t e s) = schedtsk s"
  "klocktsk (set_wercd t e s) = klocktsk s"
  by (simp_all add: set_wercd_def)

lemma queue_insert_tpri_frame [simp]:
  "ctxtsk (queue_insert_tpri t q s) = ctxtsk s" "max_tskid (queue_insert_tpri t q s) = max_tskid s"
  "dispatch_disabled (queue_insert_tpri t q s) = dispatch_disabled s"
  "task_indep (queue_insert_tpri t q s) = task_indep s"
  "cpu_di (queue_insert_tpri t q s) = cpu_di s"
  "current_time (queue_insert_tpri t q s) = current_time s"
  "mem_uint (queue_insert_tpri t q s) = mem_uint s" "mem_int (queue_insert_tpri t q s) = mem_int s"
  "mem_ptr (queue_insert_tpri t q s) = mem_ptr s" "mem_byte (queue_insert_tpri t q s) = mem_byte s"
  "kst.more (queue_insert_tpri t q s) = kst.more s" "tcbs (queue_insert_tpri t q s) = tcbs s"
  "timer_queue (queue_insert_tpri t q s) = timer_queue s"
  "tmebs (queue_insert_tpri t q s) = tmebs s" "schedtsk (queue_insert_tpri t q s) = schedtsk s"
  "klocktsk (queue_insert_tpri t q s) = klocktsk s"
  by (simp_all add: queue_insert_tpri_def)

lemma connect_wait_frame [simp]:
  "ctxtsk (connect_wait atr t q s) = ctxtsk s" "max_tskid (connect_wait atr t q s) = max_tskid s"
  "dispatch_disabled (connect_wait atr t q s) = dispatch_disabled s"
  "task_indep (connect_wait atr t q s) = task_indep s" "cpu_di (connect_wait atr t q s) = cpu_di s"
  "current_time (connect_wait atr t q s) = current_time s"
  "mem_uint (connect_wait atr t q s) = mem_uint s" "mem_int (connect_wait atr t q s) = mem_int s"
  "mem_ptr (connect_wait atr t q s) = mem_ptr s" "mem_byte (connect_wait atr t q s) = mem_byte s"
  "kst.more (connect_wait atr t q s) = kst.more s" "tcbs (connect_wait atr t q s) = tcbs s"
  "timer_queue (connect_wait atr t q s) = timer_queue s" "tmebs (connect_wait atr t q s) = tmebs s"
  "schedtsk (connect_wait atr t q s) = schedtsk s" "klocktsk (connect_wait atr t q s) = klocktsk s"
  by (simp_all add: connect_wait_def)

lemma make_non_wait_frame [simp]:
  "ctxtsk (make_non_wait t s) = ctxtsk s" "max_tskid (make_non_wait t s) = max_tskid s"
  "dispatch_disabled (make_non_wait t s) = dispatch_disabled s"
  "task_indep (make_non_wait t s) = task_indep s" "cpu_di (make_non_wait t s) = cpu_di s"
  "current_time (make_non_wait t s) = current_time s" "mem_uint (make_non_wait t s) = mem_uint s"
  "mem_int (make_non_wait t s) = mem_int s" "mem_ptr (make_non_wait t s) = mem_ptr s"
  "mem_byte (make_non_wait t s) = mem_byte s" "kst.more (make_non_wait t s) = kst.more s"
  by (simp_all add: make_non_wait_def)

lemma wait_release_frame [simp]:
  "ctxtsk (wait_release t s) = ctxtsk s" "max_tskid (wait_release t s) = max_tskid s"
  "dispatch_disabled (wait_release t s) = dispatch_disabled s"
  "task_indep (wait_release t s) = task_indep s" "cpu_di (wait_release t s) = cpu_di s"
  "current_time (wait_release t s) = current_time s" "mem_uint (wait_release t s) = mem_uint s"
  "mem_int (wait_release t s) = mem_int s" "mem_ptr (wait_release t s) = mem_ptr s"
  "mem_byte (wait_release t s) = mem_byte s" "kst.more (wait_release t s) = kst.more s"
  by (simp_all add: wait_release_def)

lemma wait_release_ok_frame [simp]:
  "ctxtsk (wait_release_ok t s) = ctxtsk s" "max_tskid (wait_release_ok t s) = max_tskid s"
  "dispatch_disabled (wait_release_ok t s) = dispatch_disabled s"
  "task_indep (wait_release_ok t s) = task_indep s" "cpu_di (wait_release_ok t s) = cpu_di s"
  "current_time (wait_release_ok t s) = current_time s"
  "mem_uint (wait_release_ok t s) = mem_uint s" "mem_int (wait_release_ok t s) = mem_int s"
  "mem_ptr (wait_release_ok t s) = mem_ptr s" "mem_byte (wait_release_ok t s) = mem_byte s"
  "kst.more (wait_release_ok t s) = kst.more s"
  by (simp_all add: wait_release_ok_def)

lemma wait_release_ok_ercd_frame [simp]:
  "ctxtsk (wait_release_ok_ercd t e s) = ctxtsk s"
  "max_tskid (wait_release_ok_ercd t e s) = max_tskid s"
  "dispatch_disabled (wait_release_ok_ercd t e s) = dispatch_disabled s"
  "task_indep (wait_release_ok_ercd t e s) = task_indep s"
  "cpu_di (wait_release_ok_ercd t e s) = cpu_di s"
  "current_time (wait_release_ok_ercd t e s) = current_time s"
  "mem_uint (wait_release_ok_ercd t e s) = mem_uint s"
  "mem_int (wait_release_ok_ercd t e s) = mem_int s"
  "mem_ptr (wait_release_ok_ercd t e s) = mem_ptr s"
  "mem_byte (wait_release_ok_ercd t e s) = mem_byte s"
  "kst.more (wait_release_ok_ercd t e s) = kst.more s"
  by (simp_all add: wait_release_ok_ercd_def)

lemma enter_wait_frame [simp]:
  "ctxtsk (enter_wait atr s) = ctxtsk s" "max_tskid (enter_wait atr s) = max_tskid s"
  "dispatch_disabled (enter_wait atr s) = dispatch_disabled s"
  "task_indep (enter_wait atr s) = task_indep s" "cpu_di (enter_wait atr s) = cpu_di s"
  "current_time (enter_wait atr s) = current_time s" "mem_uint (enter_wait atr s) = mem_uint s"
  "mem_int (enter_wait atr s) = mem_int s" "mem_ptr (enter_wait atr s) = mem_ptr s"
  "mem_byte (enter_wait atr s) = mem_byte s" "kst.more (enter_wait atr s) = kst.more s"
  by (simp_all add: enter_wait_def Let_def split: tstat.split)

lemma make_wait_frame [simp]:
  "ctxtsk (make_wait tmout atr s) = ctxtsk s" "max_tskid (make_wait tmout atr s) = max_tskid s"
  "dispatch_disabled (make_wait tmout atr s) = dispatch_disabled s"
  "task_indep (make_wait tmout atr s) = task_indep s" "cpu_di (make_wait tmout atr s) = cpu_di s"
  "current_time (make_wait tmout atr s) = current_time s"
  "mem_uint (make_wait tmout atr s) = mem_uint s" "mem_int (make_wait tmout atr s) = mem_int s"
  "mem_ptr (make_wait tmout atr s) = mem_ptr s" "mem_byte (make_wait tmout atr s) = mem_byte s"
  "kst.more (make_wait tmout atr s) = kst.more s"
  by (simp_all add: make_wait_def)

lemma make_wait_reltim_frame [simp]:
  "ctxtsk (make_wait_reltim rt atr s) = ctxtsk s"
  "max_tskid (make_wait_reltim rt atr s) = max_tskid s"
  "dispatch_disabled (make_wait_reltim rt atr s) = dispatch_disabled s"
  "task_indep (make_wait_reltim rt atr s) = task_indep s"
  "cpu_di (make_wait_reltim rt atr s) = cpu_di s"
  "current_time (make_wait_reltim rt atr s) = current_time s"
  "mem_uint (make_wait_reltim rt atr s) = mem_uint s"
  "mem_int (make_wait_reltim rt atr s) = mem_int s"
  "mem_ptr (make_wait_reltim rt atr s) = mem_ptr s"
  "mem_byte (make_wait_reltim rt atr s) = mem_byte s"
  "kst.more (make_wait_reltim rt atr s) = kst.more s"
  by (simp_all add: make_wait_reltim_def)

lemma gcb_make_wait_frame [simp]:
  "ctxtsk (gcb_make_wait k i atr tmout s) = ctxtsk s"
  "max_tskid (gcb_make_wait k i atr tmout s) = max_tskid s"
  "dispatch_disabled (gcb_make_wait k i atr tmout s) = dispatch_disabled s"
  "task_indep (gcb_make_wait k i atr tmout s) = task_indep s"
  "cpu_di (gcb_make_wait k i atr tmout s) = cpu_di s"
  "current_time (gcb_make_wait k i atr tmout s) = current_time s"
  "mem_uint (gcb_make_wait k i atr tmout s) = mem_uint s"
  "mem_int (gcb_make_wait k i atr tmout s) = mem_int s"
  "mem_ptr (gcb_make_wait k i atr tmout s) = mem_ptr s"
  "mem_byte (gcb_make_wait k i atr tmout s) = mem_byte s"
  "kst.more (gcb_make_wait k i atr tmout s) = kst.more s"
  by (simp_all add: gcb_make_wait_def Let_def)

lemma gcb_make_wait_with_diswai_frame [simp]:
  "ctxtsk (gcb_make_wait_with_diswai k i atr tmout s) = ctxtsk s"
  "max_tskid (gcb_make_wait_with_diswai k i atr tmout s) = max_tskid s"
  "dispatch_disabled (gcb_make_wait_with_diswai k i atr tmout s) = dispatch_disabled s"
  "task_indep (gcb_make_wait_with_diswai k i atr tmout s) = task_indep s"
  "cpu_di (gcb_make_wait_with_diswai k i atr tmout s) = cpu_di s"
  "current_time (gcb_make_wait_with_diswai k i atr tmout s) = current_time s"
  "mem_uint (gcb_make_wait_with_diswai k i atr tmout s) = mem_uint s"
  "mem_int (gcb_make_wait_with_diswai k i atr tmout s) = mem_int s"
  "mem_ptr (gcb_make_wait_with_diswai k i atr tmout s) = mem_ptr s"
  "mem_byte (gcb_make_wait_with_diswai k i atr tmout s) = mem_byte s"
  "kst.more (gcb_make_wait_with_diswai k i atr tmout s) = kst.more s"
  by (simp_all add: gcb_make_wait_with_diswai_def Let_def)

lemma wait_delete_frame [simp]:
  "ctxtsk (wait_delete k i s) = ctxtsk s" "max_tskid (wait_delete k i s) = max_tskid s"
  "dispatch_disabled (wait_delete k i s) = dispatch_disabled s"
  "task_indep (wait_delete k i s) = task_indep s" "cpu_di (wait_delete k i s) = cpu_di s"
  "current_time (wait_delete k i s) = current_time s" "mem_uint (wait_delete k i s) = mem_uint s"
  "mem_int (wait_delete k i s) = mem_int s" "mem_ptr (wait_delete k i s) = mem_ptr s"
  "mem_byte (wait_delete k i s) = mem_byte s" "kst.more (wait_delete k i s) = kst.more s"
  by (induction k i s rule: wait_delete.induct; subst wait_delete.simps; simp split: list.split)+


section \<open>The fields of the control blocks\<close>

lemma tcb_upd_kinv_same:
  assumes "tstate (f (tcbs s t)) = tstate (tcbs s t)" "klockwait (f (tcbs s t)) = klockwait (tcbs s t)"
    "priority (f (tcbs s t)) = priority (tcbs s t)" "wid (f (tcbs s t)) = wid (tcbs s t)"
  shows "kinv_x X (tcb_upd t f s) \<longleftrightarrow> kinv_x X s"
proof -
  have 1: "tstate (tcbs (tcb_upd t f s) u) = tstate (tcbs s u)"
    "klockwait (tcbs (tcb_upd t f s) u) = klockwait (tcbs s u)"
    "priority (tcbs (tcb_upd t f s) u) = priority (tcbs s u)"
    "wid (tcbs (tcb_upd t f s) u) = wid (tcbs s u)" for u
    using assms by simp_all
  have "rdq_ok (tcb_upd t f s) \<longleftrightarrow> rdq_ok s" unfolding rdq_ok_def 1 by simp
  then show ?thesis unfolding kinv_x_def 1 by simp
qed

lemma sched_ok_cong:
  assumes "schedtsk s' = schedtsk s" "klocktsk s' = klocktsk s" "top_priority s' = top_priority s"
    "\<And>p. que s' (Rdy p) = que s (Rdy p)" "\<And>u. tstate (tcbs s' u) = tstate (tcbs s u)"
    "\<And>u. klocked (tcbs s' u) = klocked (tcbs s u)"
  shows "sched_ok s' \<longleftrightarrow> sched_ok s"
  unfolding sched_ok_def ready_queue_top_def assms ..

lemma set_wercd_inv [simp]:
  "kinv_x X (set_wercd t e s) = kinv_x X s" "sched_ok (set_wercd t e s) = sched_ok s"
  by (simp_all add: set_wercd_def tcb_upd_kinv_same) (rule sched_ok_cong, auto)

lemma set_wercd_sel [simp]:
  "tstate (tcbs (set_wercd t e s) u) = tstate (tcbs s u)"
  "priority (tcbs (set_wercd t e s) u) = priority (tcbs s u)"
  "bpriority (tcbs (set_wercd t e s) u) = bpriority (tcbs s u)"
  "wid (tcbs (set_wercd t e s) u) = wid (tcbs s u)"
  "wspec (tcbs (set_wercd t e s) u) = wspec (tcbs s u)"
  "winfo (tcbs (set_wercd t e s) u) = winfo (tcbs s u)"
  "waitmask (tcbs (set_wercd t e s) u) = waitmask (tcbs s u)"
  "nodiswai (tcbs (set_wercd t e s) u) = nodiswai (tcbs s u)"
  "klockwait (tcbs (set_wercd t e s) u) = klockwait (tcbs s u)"
  "klocked (tcbs (set_wercd t e s) u) = klocked (tcbs s u)"
  "mtxlist (tcbs (set_wercd t e s) u) = mtxlist (tcbs s u)"
  "wrdvno (tcbs (set_wercd t e s) u) = wrdvno (tcbs s u)"
  "svclocked (tcbs (set_wercd t e s) u) = svclocked (tcbs s u)"
  "wupcnt (tcbs (set_wercd t e s) u) = wupcnt (tcbs s u)"
  "suscnt (tcbs (set_wercd t e s) u) = suscnt (tcbs s u)"
  "wercd (tcbs (set_wercd t e s) u) = (if u = t then e else wercd (tcbs s u))"
  by (simp_all add: set_wercd_def)

lemma unqueued_set_wercd [simp]: "unqueued u (set_wercd t e s) = unqueued u s"
  by (simp add: unqueued_def)

text \<open>The state of a released task.\<close>

definition released :: "tstat \<Rightarrow> tstat" where
  "released st = (if st = TS_WAIT then TS_READY else TS_SUSPEND)"

lemma make_non_wait_sel [simp]:
  "tstate (tcbs (make_non_wait t s) u) = (if u = t then released (tstate (tcbs s t)) else tstate (tcbs s u))"
  "priority (tcbs (make_non_wait t s) u) = priority (tcbs s u)"
  "bpriority (tcbs (make_non_wait t s) u) = bpriority (tcbs s u)"
  "wid (tcbs (make_non_wait t s) u) = wid (tcbs s u)"
  "wspec (tcbs (make_non_wait t s) u) = wspec (tcbs s u)"
  "winfo (tcbs (make_non_wait t s) u) = winfo (tcbs s u)"
  "wercd (tcbs (make_non_wait t s) u) = wercd (tcbs s u)"
  "waitmask (tcbs (make_non_wait t s) u) = waitmask (tcbs s u)"
  "nodiswai (tcbs (make_non_wait t s) u) = nodiswai (tcbs s u)"
  "klockwait (tcbs (make_non_wait t s) u) = klockwait (tcbs s u)"
  "klocked (tcbs (make_non_wait t s) u) = klocked (tcbs s u)"
  "mtxlist (tcbs (make_non_wait t s) u) = mtxlist (tcbs s u)"
  "wrdvno (tcbs (make_non_wait t s) u) = wrdvno (tcbs s u)"
  "svclocked (tcbs (make_non_wait t s) u) = svclocked (tcbs s u)"
  "wupcnt (tcbs (make_non_wait t s) u) = wupcnt (tcbs s u)"
  "suscnt (tcbs (make_non_wait t s) u) = suscnt (tcbs s u)"
  by (simp_all add: make_non_wait_def released_def)

lemma wait_release_sel [simp]:
  "tstate (tcbs (wait_release t s) u) = (if u = t then released (tstate (tcbs s t)) else tstate (tcbs s u))"
  "priority (tcbs (wait_release t s) u) = priority (tcbs s u)"
  "bpriority (tcbs (wait_release t s) u) = bpriority (tcbs s u)"
  "wid (tcbs (wait_release t s) u) = wid (tcbs s u)"
  "wspec (tcbs (wait_release t s) u) = wspec (tcbs s u)"
  "winfo (tcbs (wait_release t s) u) = winfo (tcbs s u)"
  "wercd (tcbs (wait_release t s) u) = wercd (tcbs s u)"
  "waitmask (tcbs (wait_release t s) u) = waitmask (tcbs s u)"
  "nodiswai (tcbs (wait_release t s) u) = nodiswai (tcbs s u)"
  "klockwait (tcbs (wait_release t s) u) = klockwait (tcbs s u)"
  "klocked (tcbs (wait_release t s) u) = klocked (tcbs s u)"
  "mtxlist (tcbs (wait_release t s) u) = mtxlist (tcbs s u)"
  "wrdvno (tcbs (wait_release t s) u) = wrdvno (tcbs s u)"
  "svclocked (tcbs (wait_release t s) u) = svclocked (tcbs s u)"
  "wupcnt (tcbs (wait_release t s) u) = wupcnt (tcbs s u)"
  "suscnt (tcbs (wait_release t s) u) = suscnt (tcbs s u)"
  by (simp_all add: wait_release_def)

section \<open>The invariant\<close>

lemma make_non_wait_kinv_x:
  assumes k: "kinv_x X s" and w: "in_wait (tstate (tcbs s t))" and u: "unqueued t s"
  shows "kinv_x X (make_non_wait t s)"
proof -
  note kd = kinv_xD [OF k]
  have ki: "kinv_x (insert t X) s" using kinv_x_mono [OF k] by blast
  have nk: "\<not> klockwait (tcbs s t)" and p: "priority (tcbs s t) < NUM_PRI"
    using kd(8,11) [of t] w by (auto simp: in_wait_iff)
  show ?thesis
  proof (cases "tstate (tcbs s t) = TS_WAIT")
    case True
    then show ?thesis using make_ready_kinv_x [OF ki u nk p] by (simp add: make_non_wait_def)
  next
    case False
    have "kinv_x (insert t X) (tcb_upd t (\<lambda>c. c\<lparr>tstate := TS_SUSPEND\<rparr>) s)"
      using u p nk by (intro tcb_upd_kinv_x [OF ki]) auto
    then have "kinv_x X (tcb_upd t (\<lambda>c. c\<lparr>tstate := TS_SUSPEND\<rparr>) s)"
      by (rule kinv_x_drop) simp
    with False show ?thesis by (simp add: make_non_wait_def)
  qed
qed

lemma timer_delete_inv [simp]:
  "kinv_x X (timer_delete ev s) = kinv_x X s" "sched_ok (timer_delete ev s) = sched_ok s"
proof -
  have "rdq_ok (timer_delete ev s) = rdq_ok s" by (simp add: rdq_ok_def)
  then show "kinv_x X (timer_delete ev s) = kinv_x X s" by (simp add: kinv_x_def)
qed (rule sched_ok_cong, auto)

lemma in_wait_not_ready: "in_wait st \<Longrightarrow> st \<noteq> TS_READY"
  by (auto simp: in_wait_iff)

lemma wait_release_kinv_x:
  assumes k: "kinv_x X s" and w: "in_wait (tstate (tcbs s t))"
  shows "kinv_x X (wait_release t s)"
  unfolding wait_release_def
  using k w by (intro make_non_wait_kinv_x que_remove_kinv_x) (auto dest: in_wait_not_ready)

lemma wait_release_que:
  assumes k: "kinv_x X s" and w: "in_wait (tstate (tcbs s t))"
  shows "que (wait_release t s) (WaitQ kd i) = removeAll t (que s (WaitQ kd i))"
proof -
  let ?s = "que_remove t (timer_delete (TskTm t) s)"
  have "kinv_x X ?s" using k w by (intro que_remove_kinv_x) (auto dest: in_wait_not_ready)
  moreover have "unqueued t ?s" by simp
  ultimately show ?thesis
    by (simp add: wait_release_def make_non_wait_def make_ready_que)
qed

lemma make_non_wait_sched_ok:
  assumes k: "kinv_x X s" and w: "in_wait (tstate (tcbs s t))" and sc: "sched_ok s"
  shows "sched_ok (make_non_wait t (que_remove t s))"
proof -
  let ?s = "que_remove t s"
  have k': "kinv_x X ?s" using k w by (intro que_remove_kinv_x) (auto dest: in_wait_not_ready)
  note kd = kinv_xD [OF k']
  have nr: "removeAll t (que s (Rdy p)) = que s (Rdy p)" for p
    using not_ready_not_queued [OF k, of t p] in_wait_not_ready [OF w] by (simp add: removeAll_id)
  have sc': "sched_ok ?s" using sc by (subst sched_ok_cong [of _ s]) (auto simp: nr)
  have "tstate (tcbs ?s t) \<noteq> TS_NONEXIST" "tstate (tcbs ?s t) \<noteq> TS_READY"
    using w by (auto simp: in_wait_iff)
  then have t: "\<not> klocked (tcbs ?s t)" "\<not> klockwait (tcbs ?s t)" "priority (tcbs ?s t) < NUM_PRI"
    using sc' kd(8,11) unfolding sched_ok_def by blast+
  have "sched_ok (make_ready t ?s)"
    using kinv_x_mono [OF k'] t sc' by (intro make_ready_sched_ok [of t X]) auto
  moreover have "sched_ok (tcb_upd t (\<lambda>c. c\<lparr>tstate := TS_SUSPEND\<rparr>) ?s)"
    using sc' t(1) by (auto simp: sched_ok_def ready_queue_top_def)
  ultimately show ?thesis unfolding make_non_wait_def by simp
qed

lemma wait_release_sched_ok:
  "kinv_x X s \<Longrightarrow> in_wait (tstate (tcbs s t)) \<Longrightarrow> sched_ok s \<Longrightarrow> sched_ok (wait_release t s)"
  unfolding wait_release_def using make_non_wait_sched_ok [of X "timer_delete (TskTm t) s" t] by simp

section \<open>Waiting\<close>

text \<open>The running task can be suspended by an interrupt handler meanwhile, but it does not wait.\<close>

definition running :: "ID \<Rightarrow> 'a kst_scheme \<Rightarrow> bool" where
  "running t s \<longleftrightarrow> ctxtsk s = Some t \<and> (tstate (tcbs s t) = TS_READY \<or> tstate (tcbs s t) = TS_SUSPEND)"

lemma runningD: "running t s \<Longrightarrow> me s = t" "running t s \<Longrightarrow> \<not> in_wait (tstate (tcbs s t))"
  by (auto simp: running_def)

lemma not_wait_not_queued:
  "kinv_x X s \<Longrightarrow> \<not> in_wait (tstate (tcbs s t)) \<Longrightarrow> t \<notin> set (que s (WaitQ k i))"
  by (auto dest: kinv_xD(5))

definition waiting :: "tstat \<Rightarrow> tstat" where
  "waiting st = (if st = TS_READY then TS_WAIT else TS_WAITSUS)"

lemma in_wait_waiting [simp]: "in_wait (waiting st)"
  by (simp add: waiting_def)

lemma enter_wait_sel:
  assumes "running t s"
  shows "tstate (tcbs (enter_wait atr s) u) = (if u = t then waiting (tstate (tcbs s t)) else tstate (tcbs s u))"
    "priority (tcbs (enter_wait atr s) u) = priority (tcbs s u)"
    "bpriority (tcbs (enter_wait atr s) u) = bpriority (tcbs s u)"
    "wid (tcbs (enter_wait atr s) u) = wid (tcbs s u)"
    "wspec (tcbs (enter_wait atr s) u) = wspec (tcbs s u)"
    "winfo (tcbs (enter_wait atr s) u) = winfo (tcbs s u)"
    "wercd (tcbs (enter_wait atr s) u) = wercd (tcbs s u)"
    "waitmask (tcbs (enter_wait atr s) u) = waitmask (tcbs s u)"
    "nodiswai (tcbs (enter_wait atr s) u) = (if u = t then has atr TA_NODISWAI else nodiswai (tcbs s u))"
    "klocked (tcbs (enter_wait atr s) u) = klocked (tcbs s u)"
    "mtxlist (tcbs (enter_wait atr s) u) = mtxlist (tcbs s u)"
    "wupcnt (tcbs (enter_wait atr s) u) = wupcnt (tcbs s u)"
    "suscnt (tcbs (enter_wait atr s) u) = suscnt (tcbs s u)"
    "wrdvno (tcbs (enter_wait atr s) u) = wrdvno (tcbs s u)"
    "svclocked (tcbs (enter_wait atr s) u) = svclocked (tcbs s u)"
  using assms by (auto simp: enter_wait_def Let_def running_def waiting_def split: tstat.split)

lemma enter_wait_kinv_x:
  assumes k: "kinv_x X s" and r: "running t s" and x: "t \<notin> X"
  shows "kinv_x X (enter_wait atr s)" "unqueued t (enter_wait atr s)"
    "que (enter_wait atr s) (WaitQ kd i) = que s (WaitQ kd i)"
proof -
  note kd = kinv_xD [OF k]
  have q: "t \<notin> set (que s (WaitQ kd i))" for kd i
    using not_wait_not_queued [OF k runningD(2) [OF r]] .
  have nd: "kinv_x X (tcb_upd t (\<lambda>c. c\<lparr>nodiswai := b\<rparr>) s') = kinv_x X s'" for b and s' :: "'a kst_scheme"
    by (rule tcb_upd_kinv_same) simp_all
  show "kinv_x X (enter_wait atr s)" "unqueued t (enter_wait atr s)"
    "que (enter_wait atr s) (WaitQ kd i) = que s (WaitQ kd i)"
  proof (atomize (full), cases "tstate (tcbs s t) = TS_READY")
    case True
    have p: "priority (tcbs s t) < NUM_PRI" using kd(8) True by simp
    have "kinv_x (insert t X) (make_non_ready t s)" by (rule make_non_ready_kinv_x [OF k True x])
    then have "kinv_x (insert t X) (tcb_upd t (\<lambda>c. c\<lparr>tstate := TS_WAIT\<rparr>) (make_non_ready t s))"
      using p by (intro tcb_upd_kinv_x) auto
    then have "kinv_x X (tcb_upd t (\<lambda>c. c\<lparr>tstate := TS_WAIT\<rparr>) (make_non_ready t s))"
      by (rule kinv_x_drop) simp
    with True r q show "kinv_x X (enter_wait atr s) \<and> unqueued t (enter_wait atr s) \<and>
        que (enter_wait atr s) (WaitQ kd i) = que s (WaitQ kd i)"
      by (simp add: enter_wait_def Let_def running_def nd)
  next
    case False
    then have st: "tstate (tcbs s t) = TS_SUSPEND" using r by (simp add: running_def)
    then have nk: "\<not> klockwait (tcbs s t)" "priority (tcbs s t) < NUM_PRI" using kd(8,11) [of t] by auto
    have uq: "unqueued t s"
      unfolding unqueued_def
    proof
      fix q show "t \<notin> set (que s q)"
        using kd(3,5,6,7) [of t] st by (cases q) force+
    qed
    have "kinv_x (insert t X) (tcb_upd t (\<lambda>c. c\<lparr>tstate := TS_WAITSUS\<rparr>) s)"
      using nk kinv_x_mono [OF k] uq by (intro tcb_upd_kinv_x) auto
    then have "kinv_x X (tcb_upd t (\<lambda>c. c\<lparr>tstate := TS_WAITSUS\<rparr>) s)"
      by (rule kinv_x_drop) simp
    with st r uq show "kinv_x X (enter_wait atr s) \<and> unqueued t (enter_wait atr s) \<and>
        que (enter_wait atr s) (WaitQ kd i) = que s (WaitQ kd i)"
      by (simp add: enter_wait_def Let_def running_def nd)
  qed
qed

lemma timer_insert_inv [simp]:
  "kinv_x X (timer_insert ev tmout cb s) = kinv_x X s"
  "kinv_x X (timer_insert_reltim ev rt cb s) = kinv_x X s"
  "sched_ok (timer_insert ev tmout cb s) = sched_ok s"
  "sched_ok (timer_insert_reltim ev rt cb s) = sched_ok s"
  "unqueued t (timer_insert ev tmout cb s) = unqueued t s"
  "unqueued t (timer_insert_reltim ev rt cb s) = unqueued t s"
proof -
  have "rdq_ok (timer_insert ev tmout cb s) = rdq_ok s"
    "rdq_ok (timer_insert_reltim ev rt cb s) = rdq_ok s" by (simp_all add: rdq_ok_def)
  then show "kinv_x X (timer_insert ev tmout cb s) = kinv_x X s"
    "kinv_x X (timer_insert_reltim ev rt cb s) = kinv_x X s" by (simp_all add: kinv_x_def)
next
  show "sched_ok (timer_insert ev tmout cb s) = sched_ok s"
    by (rule sched_ok_cong) simp_all
  show "sched_ok (timer_insert_reltim ev rt cb s) = sched_ok s"
    by (rule sched_ok_cong) simp_all
qed (simp_all add: unqueued_def)

lemma enter_wait_sched_ok:
  assumes k: "kinv_x X s" and r: "running t s" and x: "t \<notin> X" and sc: "sched_ok s"
  shows "sched_ok (enter_wait atr s)"
proof -
  have s1: "sched_ok (tcb_upd t f s') = sched_ok s'"
    if "\<And>c. klocked (f c) = klocked c" "tstate (tcbs s' t) \<noteq> TS_NONEXIST" "tstate (f (tcbs s' t)) \<noteq> TS_NONEXIST"
    for f and s' :: "'a kst_scheme"
    using that by (auto simp: sched_ok_def ready_queue_top_def)
  show ?thesis
  proof (cases "tstate (tcbs s t) = TS_READY")
    case True
    have "sched_ok (make_non_ready t s)" by (rule make_non_ready_sched_ok [OF k True x sc])
    then show ?thesis using True r by (simp add: enter_wait_def Let_def running_def s1)
  next
    case False
    then show ?thesis using r sc by (auto simp: enter_wait_def Let_def running_def s1)
  qed
qed

text \<open>The queue of a waiting object: by priority, or first come first served.\<close>

definition wait_order :: "ATR \<Rightarrow> (ID \<Rightarrow> nat) \<Rightarrow> ID \<Rightarrow> ID list \<Rightarrow> ID list" where
  "wait_order atr pri t xs =
     (if has atr TA_TPRI then insert_before (\<lambda>u. pri u > pri t) t xs else xs @ [t])"

lemma set_wait_order [simp]: "set (wait_order atr pri t xs) = insert t (set xs)"
  by (auto simp: wait_order_def)

lemma distinct_wait_order [simp]: "distinct (wait_order atr pri t xs) \<longleftrightarrow> t \<notin> set xs \<and> distinct xs"
  by (auto simp: wait_order_def)

lemma wait_order_not_Nil [simp]: "wait_order atr pri t xs \<noteq> []"
  by (auto simp: wait_order_def)

lemma connect_wait_eq:
  "connect_wait atr t q s = s\<lparr>que := (que s)(q := wait_order atr (\<lambda>u. priority (tcbs s u)) t (que s q))\<rparr>"
  by (simp add: connect_wait_def wait_order_def queue_insert_tpri_def que_insert_def)

lemma connect_wait_kinv_x:
  assumes "kinv_x X s" "unqueued t s" "in_wait (tstate (tcbs s t))" "wid (tcbs s t) = i"
  shows "kinv_x X (connect_wait atr t (WaitQ kd i) s)"
  unfolding connect_wait_eq
  using assms que_ok_distinct [OF kinv_xD(2) [OF assms(1)]]
  by (intro wait_insert_kinv_x) (auto simp: unqueued_def)

lemma connect_wait_sched_ok [simp]:
  "sched_ok (connect_wait atr t (WaitQ kd i) s) = sched_ok s"
  by (rule sched_ok_cong) (auto simp: connect_wait_eq)

lemma gcb_make_wait_kinv_x:
  assumes k: "kinv_x X s" and r: "running t s" and x: "t \<notin> X"
  shows "kinv_x X (gcb_make_wait kd i atr tmout s)"
    "que (gcb_make_wait kd i atr tmout s) (WaitQ kd' j) =
       (if kd' = kd \<and> j = i
        then wait_order atr (\<lambda>u. priority (tcbs s u)) t (que s (WaitQ kd i))
        else que s (WaitQ kd' j))"
proof -
  let ?s1 = "tcb_upd t (\<lambda>c. c\<lparr>wid := i\<rparr>) s"
  note kd = kinv_xD [OF k]
  have q: "t \<notin> set (que s (WaitQ kd i))" for kd i
    using not_wait_not_queued [OF k runningD(2) [OF r]] .
  have "rdq_ok ?s1" using kd(1) unfolding rdq_ok_def by simp
  then have k1: "kinv_x X ?s1" by (rule kinv_xI) (use kd q in \<open>auto split: if_splits\<close>)
  have r1: "running t ?s1" using r by (simp add: running_def)
  note e1 = enter_wait_kinv_x [OF k1 r1 x] and f1 = enter_wait_sel [OF r1]
  have eq: "gcb_make_wait kd i atr tmout s = connect_wait atr t (WaitQ kd i)
      (timer_insert (TskTm t) tmout (Some (CB_wait_release_tmout t)) (enter_wait atr ?s1))"
    using r by (simp add: gcb_make_wait_def make_wait_def Let_def running_def)
  have pe: "(\<lambda>u. priority (tcbs (enter_wait atr ?s1) u)) = (\<lambda>u. priority (tcbs s u))"
    by (rule ext) (simp add: f1)
  show "kinv_x X (gcb_make_wait kd i atr tmout s)"
    unfolding eq using e1 f1 by (intro connect_wait_kinv_x) simp_all
  show "que (gcb_make_wait kd i atr tmout s) (WaitQ kd' j) =
       (if kd' = kd \<and> j = i
        then wait_order atr (\<lambda>u. priority (tcbs s u)) t (que s (WaitQ kd i))
        else que s (WaitQ kd' j))"
    unfolding eq connect_wait_eq using e1(3) by (simp add: pe)
qed

lemma gcb_make_wait_sched_ok:
  assumes k: "kinv_x X s" and r: "running t s" and x: "t \<notin> X" and sc: "sched_ok s"
  shows "sched_ok (gcb_make_wait kd i atr tmout s)"
proof -
  let ?s1 = "tcb_upd t (\<lambda>c. c\<lparr>wid := i\<rparr>) s"
  note kd = kinv_xD [OF k]
  have q: "t \<notin> set (que s (WaitQ kd i))" for kd i
    using not_wait_not_queued [OF k runningD(2) [OF r]] .
  have "rdq_ok ?s1" using kd(1) unfolding rdq_ok_def by simp
  then have k1: "kinv_x X ?s1" by (rule kinv_xI) (use kd q in \<open>auto split: if_splits\<close>)
  have r1: "running t ?s1" using r by (simp add: running_def)
  have "sched_ok ?s1" using sc by (subst sched_ok_cong [of _ s]) auto
  then have "sched_ok (enter_wait atr ?s1)" by (rule enter_wait_sched_ok [OF k1 r1 x])
  then show ?thesis using r by (simp add: gcb_make_wait_def make_wait_def Let_def running_def)
qed

lemma gcb_make_wait_sel:
  assumes "running t s"
  shows "tstate (tcbs (gcb_make_wait kd i atr tmout s) u) =
      (if u = t then waiting (tstate (tcbs s t)) else tstate (tcbs s u))"
    "priority (tcbs (gcb_make_wait kd i atr tmout s) u) = priority (tcbs s u)"
    "bpriority (tcbs (gcb_make_wait kd i atr tmout s) u) = bpriority (tcbs s u)"
    "wid (tcbs (gcb_make_wait kd i atr tmout s) u) = (if u = t then i else wid (tcbs s u))"
    "wspec (tcbs (gcb_make_wait kd i atr tmout s) u) = wspec (tcbs s u)"
    "winfo (tcbs (gcb_make_wait kd i atr tmout s) u) = winfo (tcbs s u)"
    "wercd (tcbs (gcb_make_wait kd i atr tmout s) u) = wercd (tcbs s u)"
    "waitmask (tcbs (gcb_make_wait kd i atr tmout s) u) = waitmask (tcbs s u)"
    "klocked (tcbs (gcb_make_wait kd i atr tmout s) u) = klocked (tcbs s u)"
    "mtxlist (tcbs (gcb_make_wait kd i atr tmout s) u) = mtxlist (tcbs s u)"
    "wupcnt (tcbs (gcb_make_wait kd i atr tmout s) u) = wupcnt (tcbs s u)"
    "suscnt (tcbs (gcb_make_wait kd i atr tmout s) u) = suscnt (tcbs s u)"
    "wrdvno (tcbs (gcb_make_wait kd i atr tmout s) u) = wrdvno (tcbs s u)"
    "svclocked (tcbs (gcb_make_wait kd i atr tmout s) u) = svclocked (tcbs s u)"
proof -
  have r1: "running t (tcb_upd t (\<lambda>c. c\<lparr>wid := i\<rparr>) s)" using assms by (simp add: running_def)
  show "tstate (tcbs (gcb_make_wait kd i atr tmout s) u) =
      (if u = t then waiting (tstate (tcbs s t)) else tstate (tcbs s u))"
    "priority (tcbs (gcb_make_wait kd i atr tmout s) u) = priority (tcbs s u)"
    "bpriority (tcbs (gcb_make_wait kd i atr tmout s) u) = bpriority (tcbs s u)"
    "wid (tcbs (gcb_make_wait kd i atr tmout s) u) = (if u = t then i else wid (tcbs s u))"
    "wspec (tcbs (gcb_make_wait kd i atr tmout s) u) = wspec (tcbs s u)"
    "winfo (tcbs (gcb_make_wait kd i atr tmout s) u) = winfo (tcbs s u)"
    "wercd (tcbs (gcb_make_wait kd i atr tmout s) u) = wercd (tcbs s u)"
    "waitmask (tcbs (gcb_make_wait kd i atr tmout s) u) = waitmask (tcbs s u)"
    "klocked (tcbs (gcb_make_wait kd i atr tmout s) u) = klocked (tcbs s u)"
    "mtxlist (tcbs (gcb_make_wait kd i atr tmout s) u) = mtxlist (tcbs s u)"
    "wupcnt (tcbs (gcb_make_wait kd i atr tmout s) u) = wupcnt (tcbs s u)"
    "suscnt (tcbs (gcb_make_wait kd i atr tmout s) u) = suscnt (tcbs s u)"
    "wrdvno (tcbs (gcb_make_wait kd i atr tmout s) u) = wrdvno (tcbs s u)"
    "svclocked (tcbs (gcb_make_wait kd i atr tmout s) u) = svclocked (tcbs s u)"
    using assms enter_wait_sel [OF r1, of atr u]
    by (simp_all add: gcb_make_wait_def make_wait_def Let_def runningD)
qed

text \<open>The three ways out of the routine every waiting call ends with.\<close>

lemma diswai_cases:
  assumes "running t s"
  obtains (refused) "gcb_make_wait_with_diswai kd i atr tmout s = set_wercd t E_DISWAI s"
      "is_diswai atr t (tskwait (wspec (tcbs s t))) s"
    | (polled) "gcb_make_wait_with_diswai kd i atr tmout s = set_wercd t E_TMOUT s"
      "tmout = TMO_POL" "\<not> is_diswai atr t (tskwait (wspec (tcbs s t))) s"
    | (waits) "gcb_make_wait_with_diswai kd i atr tmout s =
        gcb_make_wait kd i atr tmout (set_wercd t E_TMOUT s)" "running t (set_wercd t E_TMOUT s)"
      "tmout \<noteq> TMO_POL" "\<not> is_diswai atr t (tskwait (wspec (tcbs s t))) s"
  using assms unfolding gcb_make_wait_with_diswai_def Let_def running_def
  by (cases "is_diswai atr t (tskwait (wspec (tcbs s t))) s"; cases "tmout = TMO_POL") auto


lemma diswai_kinv_x:
  assumes k: "kinv_x X s" and r: "running t s" and x: "t \<notin> X"
  shows "kinv_x X (gcb_make_wait_with_diswai kd i atr tmout s)"
using r
proof (cases rule: diswai_cases [where kd = kd and i = i and atr = atr and tmout = tmout])
  case waits
  then show ?thesis using k gcb_make_wait_kinv_x(1) [OF _ waits(2) x] by simp
qed (simp_all add: k)

lemma diswai_sched_ok:
  assumes k: "kinv_x X s" and r: "running t s" and x: "t \<notin> X" and sc: "sched_ok s"
  shows "sched_ok (gcb_make_wait_with_diswai kd i atr tmout s)"
using r
proof (cases rule: diswai_cases [where kd = kd and i = i and atr = atr and tmout = tmout])
  case waits
  then show ?thesis using k sc gcb_make_wait_sched_ok [OF _ waits(2) x] by simp
qed (simp_all add: sc)

text \<open>What becomes of the caller: refused, timed out at once, or queued.\<close>

definition blocks :: "ATR \<Rightarrow> int \<Rightarrow> ID \<Rightarrow> 'a kst_scheme \<Rightarrow> bool" where
  "blocks atr tmout t s \<longleftrightarrow> tmout \<noteq> TMO_POL \<and> \<not> is_diswai atr t (tskwait (wspec (tcbs s t))) s"

lemma diswai_que:
  assumes k: "kinv_x X s" and r: "running t s" and x: "t \<notin> X"
  shows "que (gcb_make_wait_with_diswai kd i atr tmout s) (WaitQ kd' j) =
    (if kd' = kd \<and> j = i \<and> blocks atr tmout t s
     then wait_order atr (\<lambda>u. priority (tcbs s u)) t (que s (WaitQ kd i))
     else que s (WaitQ kd' j))"
using r
proof (cases rule: diswai_cases [where kd = kd and i = i and atr = atr and tmout = tmout])
  case waits
  have k': "kinv_x X (set_wercd t E_TMOUT s)" using k by simp
  show ?thesis
    using waits(3,4) gcb_make_wait_kinv_x(2) [OF k' waits(2) x, of kd i atr tmout kd' j]
    by (simp add: waits(1) blocks_def)
qed (simp_all add: blocks_def)

lemma diswai_sel:
  assumes r: "running t s"
  shows "tstate (tcbs (gcb_make_wait_with_diswai kd i atr tmout s) u) =
      (if u = t \<and> blocks atr tmout t s then waiting (tstate (tcbs s t)) else tstate (tcbs s u))"
    "priority (tcbs (gcb_make_wait_with_diswai kd i atr tmout s) u) = priority (tcbs s u)"
    "bpriority (tcbs (gcb_make_wait_with_diswai kd i atr tmout s) u) = bpriority (tcbs s u)"
    "wid (tcbs (gcb_make_wait_with_diswai kd i atr tmout s) u) =
      (if u = t \<and> blocks atr tmout t s then i else wid (tcbs s u))"
    "wspec (tcbs (gcb_make_wait_with_diswai kd i atr tmout s) u) = wspec (tcbs s u)"
    "winfo (tcbs (gcb_make_wait_with_diswai kd i atr tmout s) u) = winfo (tcbs s u)"
    "waitmask (tcbs (gcb_make_wait_with_diswai kd i atr tmout s) u) = waitmask (tcbs s u)"
    "mtxlist (tcbs (gcb_make_wait_with_diswai kd i atr tmout s) u) = mtxlist (tcbs s u)"
    "wercd (tcbs (gcb_make_wait_with_diswai kd i atr tmout s) u) =
      (if u = t then if is_diswai atr t (tskwait (wspec (tcbs s t))) s then E_DISWAI else E_TMOUT
       else wercd (tcbs s u))"
    "wrdvno (tcbs (gcb_make_wait_with_diswai kd i atr tmout s) u) = wrdvno (tcbs s u)"
    "svclocked (tcbs (gcb_make_wait_with_diswai kd i atr tmout s) u) = svclocked (tcbs s u)"
proof (atomize (full), goal_cases)
  case 1
  show ?case
    using r
  proof (cases rule: diswai_cases [where kd = kd and i = i and atr = atr and tmout = tmout])
    case waits
    show ?thesis
      using waits(3,4) by (simp add: waits(1) blocks_def gcb_make_wait_sel [OF waits(2)])
  qed (simp_all add: blocks_def)
qed

lemma diswai_ret:
  assumes r: "running t s"
  shows "wait_ret (gcb_make_wait_with_diswai kd i atr tmout s) =
    (if is_diswai atr t (tskwait (wspec (tcbs s t))) s then Ret E_DISWAI
     else if tmout = TMO_POL then Ret E_TMOUT else Blocked)"
  using r by (auto simp: wait_ret_def diswai_sel blocks_def runningD)

section \<open>Deleting a wait queue\<close>

lemma released_simps: "released TS_WAIT = TS_READY" "released TS_WAITSUS = TS_SUSPEND"
  by (simp_all add: released_def)

lemma released_not_wait [simp]: "\<not> in_wait (released st)"
  by (simp add: released_def)

text \<open>What the routines do not touch in a control block.\<close>

definition tcb_view where
  "tcb_view c = (wspec c, winfo c, priority c, bpriority c, wid c, waitmask c,
     (klockwait c, klocked c, mtxlist c, wupcnt c, suscnt c, wrdvno c, svclocked c))"

lemma tcb_viewD:
  assumes "tcb_view c = tcb_view d"
  shows "wspec c = wspec d" "winfo c = winfo d" "priority c = priority d"
    "bpriority c = bpriority d" "wid c = wid d" "waitmask c = waitmask d"
    "klockwait c = klockwait d" "klocked c = klocked d" "mtxlist c = mtxlist d"
    "wupcnt c = wupcnt d" "suscnt c = suscnt d" "wrdvno c = wrdvno d" "svclocked c = svclocked d"
  using assms by (simp_all add: tcb_view_def)

lemma tcb_view_release [simp]:
  "tcb_view (tcbs (wait_release t s) u) = tcb_view (tcbs s u)"
  "tcb_view (tcbs (set_wercd t e s) u) = tcb_view (tcbs s u)"
  by (simp_all add: tcb_view_def)

text \<open>
  The contract of an operation that takes one waiting task out of its wait and gives it its
  return value, whatever it does to the object: the lemma about a sequence of such operations
  is shown once.
\<close>

locale release_step =
  fixes tid :: "'b \<Rightarrow> ID" and step :: "'b \<Rightarrow> 'a kst_scheme \<Rightarrow> 'a kst_scheme" and ercd :: ER
  assumes kinv: "kinv_x X s \<Longrightarrow> in_wait (tstate (tcbs s (tid x))) \<Longrightarrow> kinv_x X (step x s)"
    and sched: "kinv_x X s \<Longrightarrow> in_wait (tstate (tcbs s (tid x))) \<Longrightarrow> sched_ok s \<Longrightarrow>
      sched_ok (step x s)"
    and wque: "kinv_x X s \<Longrightarrow> in_wait (tstate (tcbs s (tid x))) \<Longrightarrow>
      que (step x s) (WaitQ k i) = removeAll (tid x) (que s (WaitQ k i))"
    and tstate: "tstate (tcbs (step x s) u) =
      (if u = tid x then released (tstate (tcbs s (tid x))) else tstate (tcbs s u))"
    and wercd: "wercd (tcbs (step x s) u) = (if u = tid x then ercd else wercd (tcbs s u))"
    and view: "tcb_view (tcbs (step x s) u) = tcb_view (tcbs s u)"
    and ctx: "ctxtsk (step x s) = ctxtsk s"
begin

lemma fold_all:
  assumes "kinv_x X s" "distinct (map tid xs)" "\<forall>t \<in> tid ` set xs. in_wait (tstate (tcbs s t))"
  shows "kinv_x X (fold step xs s)"
    "que (fold step xs s) (WaitQ k i) = filter (\<lambda>t. t \<notin> tid ` set xs) (que s (WaitQ k i))"
    "sched_ok s \<Longrightarrow> sched_ok (fold step xs s)"
    "tstate (tcbs (fold step xs s) u) =
       (if u \<in> tid ` set xs then released (tstate (tcbs s u)) else tstate (tcbs s u))"
    "wercd (tcbs (fold step xs s) u) = (if u \<in> tid ` set xs then ercd else wercd (tcbs s u))"
    "tcb_view (tcbs (fold step xs s) u) = tcb_view (tcbs s u)"
    "ctxtsk (fold step xs s) = ctxtsk s"
  using assms
proof (atomize (full), induction xs arbitrary: s)
  case Nil
  then show ?case by simp
next
  case (Cons x xs)
  have w: "in_wait (tstate (tcbs s (tid x)))" using Cons.prems by simp
  have k': "kinv_x X (step x s)" using kinv [OF _ w] Cons.prems by simp
  have 1: "\<forall>u \<in> tid ` set xs. in_wait (tstate (tcbs (step x s) u))"
  proof
    fix u assume u: "u \<in> tid ` set xs"
    have "tid x \<notin> tid ` set xs" using Cons.prems(2) by simp
    then have "u \<noteq> tid x" using u by metis
    moreover have "in_wait (tstate (tcbs s u))" using Cons.prems(3) u by auto
    ultimately show "in_wait (tstate (tcbs (step x s) u))" by (simp add: tstate)
  qed
  note IH = Cons.IH [of "step x s"]
  have q: "que (step x s) (WaitQ k i) = removeAll (tid x) (que s (WaitQ k i))"
    using wque [OF _ w] Cons.prems by auto
  have sc: "sched_ok s \<Longrightarrow> sched_ok (step x s)"
    using sched [OF _ w] Cons.prems by auto
  have f: "filter (\<lambda>y. y \<notin> tid ` set xs) (removeAll (tid x) ys) =
      filter (\<lambda>y. y \<notin> tid ` set (x # xs)) ys" for ys
    by (induction ys) auto
  show ?case
    using IH k' 1 Cons.prems sc by (auto simp: q f tstate wercd view ctx)
qed

end

abbreviation release_dlt :: "ID \<Rightarrow> 'a kst_scheme \<Rightarrow> 'a kst_scheme" where
  "release_dlt t s \<equiv> set_wercd t E_DLT (wait_release t s)"

interpretation dlt: release_step "\<lambda>t. t" release_dlt E_DLT
  by unfold_locales (auto simp: wait_release_kinv_x wait_release_que wait_release_sched_ok)

interpretation rok: release_step "\<lambda>t. t" wait_release_ok E_OK
  by unfold_locales
    (auto simp: wait_release_ok_def wait_release_kinv_x wait_release_que wait_release_sched_ok)

lemma wait_delete_step:
  "que s (WaitQ k i) = [] \<Longrightarrow> wait_delete k i s = s"
  "que s (WaitQ k i) = t # ts \<Longrightarrow> wait_delete k i s = wait_delete k i (release_dlt t s)"
  by (subst wait_delete.simps; simp)+

lemma wait_delete_fold:
  "kinv_x X s \<Longrightarrow> wait_delete k i s = fold release_dlt (que s (WaitQ k i)) s"
proof (induction "que s (WaitQ k i)" arbitrary: s)
  case Nil
  then show ?case using wait_delete_step(1) [of s k i] by simp
next
  case (Cons t ts)
  have w: "in_wait (tstate (tcbs s t))"
    using kinv_xD(5) [OF Cons.prems, of t k i] Cons.hyps(2) [symmetric] by simp
  have "distinct (t # ts)"
    using que_ok_distinct [OF kinv_xD(2) [OF Cons.prems], of "WaitQ k i"] Cons.hyps(2) by simp
  then have "que (release_dlt t s) (WaitQ k i) = ts"
    using wait_release_que [OF Cons.prems w, of k i] Cons.hyps(2) [symmetric] by simp
  moreover have "kinv_x X (release_dlt t s)" using wait_release_kinv_x [OF Cons.prems w] by simp
  ultimately have "wait_delete k i (release_dlt t s) = fold release_dlt ts (release_dlt t s)"
    using Cons.hyps(1) by simp
  then show ?case
    using wait_delete_step(2) [OF Cons.hyps(2) [symmetric]] Cons.hyps(2) [symmetric] by simp
qed

lemma wait_delete_spec:
  assumes k: "kinv_x X s"
  shows "kinv_x X (wait_delete kd i s)"
    "que (wait_delete kd i s) (WaitQ kd' j) = (if kd' = kd \<and> j = i then [] else que s (WaitQ kd' j))"
    "sched_ok s \<Longrightarrow> sched_ok (wait_delete kd i s)"
    "tstate (tcbs (wait_delete kd i s) u) =
       (if u \<in> set (que s (WaitQ kd i)) then released (tstate (tcbs s u)) else tstate (tcbs s u))"
    "wercd (tcbs (wait_delete kd i s) u) =
       (if u \<in> set (que s (WaitQ kd i)) then E_DLT else wercd (tcbs s u))"
    "tcb_view (tcbs (wait_delete kd i s) u) = tcb_view (tcbs s u)"
proof -
  have w: "\<forall>t \<in> set (que s (WaitQ kd i)). in_wait (tstate (tcbs s t))"
    using kinv_xD(5) [OF k] by blast
  note f = dlt.fold_all [OF k, of "que s (WaitQ kd i)", simplified, OF que_ok_distinct [OF kinv_xD(2) [OF k]] w]
  note e = wait_delete_fold [OF k, of kd i]
  have q: "filter (\<lambda>t. t \<notin> set (que s (WaitQ kd i))) (que s (WaitQ kd' j)) =
      (if kd' = kd \<and> j = i then [] else que s (WaitQ kd' j))"
    using que_okD [OF kinv_xD(2) [OF k], of _ "WaitQ kd' j" "WaitQ kd i"]
    by (auto simp: filter_empty_conv filter_id_conv)
  show "kinv_x X (wait_delete kd i s)"
    "que (wait_delete kd i s) (WaitQ kd' j) = (if kd' = kd \<and> j = i then [] else que s (WaitQ kd' j))"
    "sched_ok s \<Longrightarrow> sched_ok (wait_delete kd i s)"
    "tstate (tcbs (wait_delete kd i s) u) =
       (if u \<in> set (que s (WaitQ kd i)) then released (tstate (tcbs s u)) else tstate (tcbs s u))"
    "wercd (tcbs (wait_delete kd i s) u) =
       (if u \<in> set (que s (WaitQ kd i)) then E_DLT else wercd (tcbs s u))"
    "tcb_view (tcbs (wait_delete kd i s) u) = tcb_view (tcbs s u)"
    by (simp_all only: e f q)
qed

section \<open>Changing the priority of a waiting task\<close>

lemma gcb_change_priority_frame:
  "tcbs (gcb_change_priority q t s) = tcbs s" "schedtsk (gcb_change_priority q t s) = schedtsk s"
  "klocktsk (gcb_change_priority q t s) = klocktsk s" "ctxtsk (gcb_change_priority q t s) = ctxtsk s"
  "kst.more (gcb_change_priority q t s) = kst.more s"
  by (simp_all add: gcb_change_priority_def)

lemma gcb_change_priority_que:
  "que (gcb_change_priority q t s) q' =
     (if q' = q then insert_before (\<lambda>u. priority (tcbs s u) > priority (tcbs s t)) t (removeAll t (que s q))
      else removeAll t (que s q'))"
  by (simp add: gcb_change_priority_def queue_insert_tpri_def)

lemma gcb_change_priority_kinv_x:
  assumes k: "kinv_x X s" and w: "in_wait (tstate (tcbs s t))" "wid (tcbs s t) = i"
  shows "kinv_x X (gcb_change_priority (WaitQ kd i) t s)"
proof -
  have k1: "kinv_x X (que_remove t s)" using k w by (intro que_remove_kinv_x) (auto dest: in_wait_not_ready)
  then show ?thesis
    unfolding gcb_change_priority_def queue_insert_tpri_def
    using w que_ok_distinct [OF kinv_xD(2) [OF k1]] by (intro wait_insert_kinv_x) auto
qed


section \<open>Fields the invariant does not look at\<close>

lemma kinv_x_upd [simp]:
  "kinv_x X (s\<lparr>ctxtsk := c\<rparr>) = kinv_x X s" "kinv_x X (s\<lparr>mem_uint := mu\<rparr>) = kinv_x X s"
  "kinv_x X (s\<lparr>mem_int := mi\<rparr>) = kinv_x X s" "kinv_x X (s\<lparr>mem_ptr := mp\<rparr>) = kinv_x X s"
  "kinv_x X (s\<lparr>mem_byte := mb\<rparr>) = kinv_x X s" "kinv_x X (s\<lparr>dispatch_disabled := d\<rparr>) = kinv_x X s"
  by (simp_all add: kinv_x_def rdq_ok_def)

lemma sched_ok_upd [simp]:
  "sched_ok (s\<lparr>ctxtsk := c\<rparr>) = sched_ok s" "sched_ok (s\<lparr>mem_uint := mu\<rparr>) = sched_ok s"
  "sched_ok (s\<lparr>mem_int := mi\<rparr>) = sched_ok s" "sched_ok (s\<lparr>mem_ptr := mp\<rparr>) = sched_ok s"
  "sched_ok (s\<lparr>mem_byte := mb\<rparr>) = sched_ok s"
  by (rule sched_ok_cong; simp)+

lemma running_upd [simp]:
  "running t (s\<lparr>mem_uint := mu\<rparr>) = running t s" "running t (s\<lparr>mem_int := mi\<rparr>) = running t s"
  "running t (s\<lparr>mem_ptr := mp\<rparr>) = running t s" "running t (s\<lparr>mem_byte := mb\<rparr>) = running t s"
  by (simp_all add: running_def)

end
