(* ===== verification/Object_Pool.thy ===== *)
theory Object_Pool
  imports Wait
begin

text \<open>
  What the synchronisation objects share: a table of control blocks of which some are in use,
  a free queue of the others, and wait queues that are empty for objects that do not exist. A
  component states what makes one object well-formed (\<open>pre\<close>: it looks only at the control block,
  the queues of the object and what its waiting tasks wait for) and settled (no task waits for
  what is there); the locale shows what creation, deletion and an operation on one object do to
  the invariant of the whole component.
\<close>

text \<open>The waiting tasks of the queue wait as before.\<close>

definition same_waits :: "'a kst_scheme \<Rightarrow> 'a kst_scheme \<Rightarrow> okind \<Rightarrow> ID \<Rightarrow> bool" where
  "same_waits s' s k j \<longleftrightarrow>
     que s' (WaitQ k j) = que s (WaitQ k j) \<and>
     (\<forall>t \<in> set (que s (WaitQ k j)).
        winfo (tcbs s' t) = winfo (tcbs s t) \<and> wspec (tcbs s' t) = wspec (tcbs s t))"

lemma same_waitsI:
  "que s' (WaitQ k j) = que s (WaitQ k j) \<Longrightarrow>
   (\<And>t. t \<in> set (que s (WaitQ k j)) \<Longrightarrow>
      winfo (tcbs s' t) = winfo (tcbs s t) \<and> wspec (tcbs s' t) = wspec (tcbs s t)) \<Longrightarrow>
   same_waits s' s k j"
  by (simp add: same_waits_def)

lemma same_waitsD:
  assumes "same_waits s' s k j"
  shows "que s' (WaitQ k j) = que s (WaitQ k j)"
    "t \<in> set (que s (WaitQ k j)) \<Longrightarrow> winfo (tcbs s' t) = winfo (tcbs s t)"
    "t \<in> set (que s (WaitQ k j)) \<Longrightarrow> wspec (tcbs s' t) = wspec (tcbs s t)"
  using assms by (simp_all add: same_waits_def)

lemma same_waits_tcbs: "tcbs s' = tcbs s \<Longrightarrow> que s' = que s \<Longrightarrow> same_waits s' s k j"
  by (simp add: same_waits_def)

text \<open>A task that starts to wait is in no queue before, so the other queues wait as before.\<close>

lemma same_waits_running:
  assumes k: "kinv_x X s" and r: "running t s" and q: "que s' (WaitQ kd j) = que s (WaitQ kd j)"
    and v: "\<And>u. u \<noteq> t \<Longrightarrow> winfo (tcbs s' u) = winfo (tcbs s u)"
      "\<And>u. u \<noteq> t \<Longrightarrow> wspec (tcbs s' u) = wspec (tcbs s u)"
  shows "same_waits s' s kd j"
proof (rule same_waitsI [OF q])
  fix u assume "u \<in> set (que s (WaitQ kd j))"
  then have "u \<noteq> t" using not_wait_not_queued [OF k runningD(2) [OF r], of kd j] by auto
  then show "winfo (tcbs s' u) = winfo (tcbs s u) \<and> wspec (tcbs s' u) = wspec (tcbs s u)"
    using v by blast
qed

locale object_pool =
  fixes kds :: "okind set" and mx :: "'a kst_scheme \<Rightarrow> ID" and fr :: "'a kst_scheme \<Rightarrow> ID list"
    and cb :: "'a kst_scheme \<Rightarrow> ID \<Rightarrow> 'c" and idf :: "'c \<Rightarrow> ID"
    and pre settled :: "ID \<Rightarrow> 'a kst_scheme \<Rightarrow> bool"
    and ok :: "'a kst_scheme \<Rightarrow> bool" and weak :: "ID \<Rightarrow> 'a kst_scheme \<Rightarrow> bool"
  assumes weak_iff: "weak i s \<longleftrightarrow> kinv s \<and> distinct (fr s) \<and>
      (\<forall>j. j \<in> set (fr s) \<longleftrightarrow> chk_id (mx s) j \<and> idf (cb s j) = 0) \<and>
      (\<forall>j. if chk_id (mx s) j \<and> idf (cb s j) \<noteq> 0 then pre j s \<and> (j \<noteq> i \<longrightarrow> settled j s)
           else (\<forall>k \<in> kds. que s (WaitQ k j) = []))"
    and ok_iff: "ok s \<longleftrightarrow> weak i s \<and> (chk_id (mx s) i \<and> idf (cb s i) \<noteq> 0 \<longrightarrow> settled i s)"
    and pre_cong: "cb s' j = cb s j \<Longrightarrow> (\<And>k. k \<in> kds \<Longrightarrow> same_waits s' s k j) \<Longrightarrow>
      pre j s \<Longrightarrow> pre j s'"
    and settled_cong: "cb s' j = cb s j \<Longrightarrow> (\<And>k. k \<in> kds \<Longrightarrow> same_waits s' s k j) \<Longrightarrow>
      settled j s \<Longrightarrow> settled j s'"
begin

lemma weakD:
  assumes "weak i s"
  shows "kinv s" "distinct (fr s)"
    "j \<in> set (fr s) \<longleftrightarrow> chk_id (mx s) j \<and> idf (cb s j) = 0"
    "chk_id (mx s) j \<Longrightarrow> idf (cb s j) \<noteq> 0 \<Longrightarrow> pre j s"
    "chk_id (mx s) j \<Longrightarrow> idf (cb s j) \<noteq> 0 \<Longrightarrow> j \<noteq> i \<Longrightarrow> settled j s"
    "k \<in> kds \<Longrightarrow> \<not> (chk_id (mx s) j \<and> idf (cb s j) \<noteq> 0) \<Longrightarrow> que s (WaitQ k j) = []"
  using assms unfolding weak_iff by (auto split: if_splits)

lemma okD:
  assumes "ok s"
  shows "weak i s" "chk_id (mx s) i \<Longrightarrow> idf (cb s i) \<noteq> 0 \<Longrightarrow> settled i s"
  using assms ok_iff [of s i] by blast+

lemma waits_exists:
  assumes "weak i s" "t \<in> set (que s (WaitQ k j))" "k \<in> kds"
  shows "chk_id (mx s) j" "idf (cb s j) \<noteq> 0"
  using weakD(6) [OF assms(1,3), of j] assms(2)
  by (cases "chk_id (mx s) j \<and> idf (cb s j) \<noteq> 0"; force)+

text \<open>An operation on object \<open>i\<close>.\<close>

lemma frame_weak:
  assumes wk: "weak i s" and k: "kinv s'"
    and same: "fr s' = fr s" "mx s' = mx s" "idf (cb s' i) = idf (cb s i)"
    and other: "\<And>j. j \<noteq> i \<Longrightarrow> cb s' j = cb s j"
      "\<And>j k. j \<noteq> i \<Longrightarrow> k \<in> kds \<Longrightarrow> same_waits s' s k j"
    and obj: "chk_id (mx s) i \<Longrightarrow> idf (cb s i) \<noteq> 0 \<Longrightarrow> pre i s'"
      "\<And>k. k \<in> kds \<Longrightarrow> \<not> (chk_id (mx s) i \<and> idf (cb s i) \<noteq> 0) \<Longrightarrow> que s' (WaitQ k i) = []"
  shows "weak i s'"
proof -
  have id: "idf (cb s' j) = idf (cb s j)" for j using same(3) other(1) [of j] by (cases "j = i") auto
  have p: "chk_id (mx s) j \<Longrightarrow> idf (cb s j) \<noteq> 0 \<Longrightarrow> pre j s'" for j
    using obj(1) weakD(4) [OF wk, of j] pre_cong [OF other] by (cases "j = i") auto
  have st: "chk_id (mx s) j \<Longrightarrow> idf (cb s j) \<noteq> 0 \<Longrightarrow> j \<noteq> i \<Longrightarrow> settled j s'" for j
    using weakD(5) [OF wk, of j] settled_cong [OF other] by auto
  have q: "\<not> (chk_id (mx s) j \<and> idf (cb s j) \<noteq> 0) \<Longrightarrow> k \<in> kds \<Longrightarrow> que s' (WaitQ k j) = []" for j k
    using obj(2) [of k] weakD(6) [OF wk, of k j] same_waitsD(1) [OF other(2), of j k] by (cases "j = i") auto
  show ?thesis
    unfolding weak_iff same id using k weakD(2,3) [OF wk] p st q by simp
qed

lemma frame:
  assumes "weak i s" "kinv s'" "fr s' = fr s" "mx s' = mx s" "idf (cb s' i) = idf (cb s i)"
    "\<And>j. j \<noteq> i \<Longrightarrow> cb s' j = cb s j" "\<And>j k. j \<noteq> i \<Longrightarrow> k \<in> kds \<Longrightarrow> same_waits s' s k j"
    "chk_id (mx s) i \<Longrightarrow> idf (cb s i) \<noteq> 0 \<Longrightarrow> pre i s' \<and> settled i s'"
    "\<And>k. k \<in> kds \<Longrightarrow> \<not> (chk_id (mx s) i \<and> idf (cb s i) \<noteq> 0) \<Longrightarrow> que s' (WaitQ k i) = []"
  shows "ok s'"
  using frame_weak [OF assms(1-7) _ assms(9)] assms(4,5,8) ok_iff [of s' i] by auto

text \<open>An operation that concerns no object of the component.\<close>

lemma same:
  assumes ok: "ok s" and k: "kinv s'" and same: "fr s' = fr s" "mx s' = mx s" "cb s' = cb s"
    and w: "\<And>j k. k \<in> kds \<Longrightarrow> same_waits s' s k j"
  shows "ok s'"
proof (rule frame [of 0 s])
  show "weak 0 s" by (rule okD(1) [OF ok])
  show "pre 0 s' \<and> settled 0 s'" if "chk_id (mx s) 0" "idf (cb s 0) \<noteq> 0"
    using that by (simp add: chk_id_def)
  show "que s' (WaitQ k 0) = []" if "k \<in> kds" "\<not> (chk_id (mx s) 0 \<and> idf (cb s 0) \<noteq> 0)" for k
    using that weakD(6) [OF okD(1) [OF ok, of 0] that] same_waitsD(1) [OF w] by simp
qed (use k same w in simp_all)

lemma create:
  assumes ok: "ok s" and fr: "fr s = i # free" and k: "kinv s'"
    and new: "fr s' = free" "mx s' = mx s" "idf (cb s' i) \<noteq> 0"
    and other: "\<And>j. j \<noteq> i \<Longrightarrow> cb s' j = cb s j" "\<And>j k. k \<in> kds \<Longrightarrow> same_waits s' s k j"
    and obj: "pre i s'" "settled i s'"
  shows "ok s'"
proof -
  note wk = okD(1) [OF ok, of i]
  have i: "chk_id (mx s) i" "idf (cb s i) = 0" using weakD(3) [OF wk, of i] fr by auto
  have d: "distinct free" "i \<notin> set free" using weakD(2) [OF wk] fr by auto
  have p: "pre j s'" if "chk_id (mx s) j" "idf (cb s' j) \<noteq> 0" for j
    using that obj(1) other(1) [of j] weakD(4) [OF wk, of j] pre_cong [OF other(1) other(2)]
    by (cases "j = i") auto
  have st: "settled j s'" if "chk_id (mx s) j" "idf (cb s' j) \<noteq> 0" "j \<noteq> i" for j
    using that other(1) [of j] weakD(5) [OF wk, of j] settled_cong [OF other(1) other(2)] by auto
  have q: "que s' (WaitQ k j) = []" if "\<not> (chk_id (mx s) j \<and> idf (cb s' j) \<noteq> 0)" "k \<in> kds" for j k
    using that i new(3) other(1) [of j] weakD(6) [OF wk, of k j] same_waitsD(1) [OF other(2), of k j]
    by (cases "j = i") auto
  have f: "j \<in> set free \<longleftrightarrow> chk_id (mx s) j \<and> idf (cb s' j) = 0" for j
    using weakD(3) [OF wk, of j] fr d i new(3) other(1) [of j] by (cases "j = i") auto
  have "weak i s'" unfolding weak_iff new using k d p st q f by simp
  then show ?thesis using obj(2) ok_iff [of s' i] by blast
qed

lemma delete:
  assumes ok: "ok s" and i: "chk_id (mx s) i" "idf (cb s i) \<noteq> 0" and k: "kinv s'"
    and new: "fr s' = fr s @ [i]" "mx s' = mx s" "idf (cb s' i) = 0"
    and other: "\<And>j. j \<noteq> i \<Longrightarrow> cb s' j = cb s j"
      "\<And>j k. j \<noteq> i \<Longrightarrow> k \<in> kds \<Longrightarrow> same_waits s' s k j"
    and empty: "\<And>k. k \<in> kds \<Longrightarrow> que s' (WaitQ k i) = []"
  shows "ok s'"
proof -
  note wk = okD(1) [OF ok, of i]
  have d: "distinct (fr s @ [i])" using weakD(2,3) [OF wk] i by auto
  have p: "pre j s'" if "chk_id (mx s) j" "idf (cb s' j) \<noteq> 0" for j
    using that new(3) other(1) [of j] weakD(4) [OF wk, of j] pre_cong [OF other]
    by (cases "j = i") auto
  have st: "settled j s'" if "chk_id (mx s) j" "idf (cb s' j) \<noteq> 0" for j
    using that new(3) other(1) [of j] weakD(5) [OF wk, of j] settled_cong [OF other]
    by (cases "j = i") auto
  have q: "que s' (WaitQ k j) = []" if "\<not> (chk_id (mx s) j \<and> idf (cb s' j) \<noteq> 0)" "k \<in> kds" for j k
    using that empty [of k] other(1) [of j] weakD(6) [OF wk, of k j] same_waitsD(1) [OF other(2), of j k]
    by (cases "j = i") auto
  have f: "j \<in> set (fr s @ [i]) \<longleftrightarrow> chk_id (mx s) j \<and> idf (cb s' j) = 0" for j
    using weakD(3) [OF wk, of j] i new(3) other(1) [of j] by (cases "j = i") auto
  have "weak i s'" unfolding weak_iff new using k d p st q f by simp
  then show ?thesis using new(2,3) ok_iff [of s' i] by blast
qed

end

text \<open>
  Objects that stay settled when a task leaves their queue: releasing a waiting task, whatever it
  waits for, keeps the invariant without a hook.
\<close>

locale leaving_pool = object_pool +
  assumes leave: "cb s' i = cb s i \<Longrightarrow>
      (\<And>k. k \<in> kds \<Longrightarrow> que s' (WaitQ k i) = removeAll t (que s (WaitQ k i))) \<Longrightarrow>
      (\<And>u. winfo (tcbs s' u) = winfo (tcbs s u)) \<Longrightarrow> (\<And>u. wspec (tcbs s' u) = wspec (tcbs s u)) \<Longrightarrow>
      pre i s \<Longrightarrow> pre i s' \<and> (settled i s \<longrightarrow> settled i s')"
begin

lemma leave_ok:
  assumes ok: "ok s" and k: "kinv s'" and same: "cb s' = cb s" "fr s' = fr s" "mx s' = mx s"
    and q: "\<And>k j. k \<in> kds \<Longrightarrow> que s' (WaitQ k j) = removeAll t (que s (WaitQ k j))"
    and v: "\<And>u. winfo (tcbs s' u) = winfo (tcbs s u)" "\<And>u. wspec (tcbs s' u) = wspec (tcbs s u)"
  shows "ok s'"
proof -
  note wk = okD(1) [OF ok]
  have p: "pre j s'" if "chk_id (mx s) j" "idf (cb s j) \<noteq> 0" for j
    using weakD(4) [OF wk that] leave [of s' j s t] same q v by simp
  have st: "settled j s'" if "chk_id (mx s) j" "idf (cb s j) \<noteq> 0" for j
    using okD(2) [OF ok that] weakD(4) [OF wk that] leave [of s' j s t] same q v by simp
  have e: "que s' (WaitQ k j) = []" if "\<not> (chk_id (mx s) j \<and> idf (cb s j) \<noteq> 0)" "k \<in> kds" for j k
    using that weakD(6) [OF wk that(2), of j] q [of k j] by simp
  have "weak 0 s'" unfolding weak_iff same using k weakD(2,3) [OF wk] p st e by simp
  then show ?thesis using ok_iff [of s' 0] by (simp add: chk_id_def)
qed

lemma release_ok:
  assumes ok: "ok s" and w: "in_wait (tstate (tcbs s t))"
    and same: "cb (wait_release t s) = cb s" "fr (wait_release t s) = fr s" "mx (wait_release t s) = mx s"
  shows "ok (wait_release t s)"
  using wait_release_kinv_x [OF weakD(1) [OF okD(1) [OF ok]] w]
    wait_release_que [OF weakD(1) [OF okD(1) [OF ok]] w]
  by (intro leave_ok [OF ok _ same]) simp_all

lemma timeout_ok:
  assumes ok: "ok s" and w: "in_wait (tstate (tcbs s t))"
  defines "s' \<equiv> make_non_wait t (que_remove t s)"
  assumes same: "cb s' = cb s" "fr s' = fr s" "mx s' = mx s"
  shows "ok s'"
proof -
  note k = weakD(1) [OF okD(1) [OF ok]]
  have k0: "kinv (que_remove t s)" using k w by (intro que_remove_kinv_x) (auto dest: in_wait_not_ready)
  have k1: "kinv s'" unfolding s'_def using w by (intro make_non_wait_kinv_x [OF k0]) simp_all
  have "que s' (WaitQ k j) = removeAll t (que s (WaitQ k j))" for k j
    using make_ready_que [OF k0, of t] by (simp add: make_non_wait_def s'_def)
  then show ?thesis by (intro leave_ok [OF ok k1 same]) (simp_all add: s'_def)
qed

end

text \<open>Deletion of one queue leaves the tasks of the others waiting as before.\<close>

lemma same_waits_delete:
  "kinv_x X s \<Longrightarrow> kd \<noteq> k \<or> j \<noteq> i \<Longrightarrow> same_waits (wait_delete kd i s) s k j"
  using tcb_viewD(1,2) [OF wait_delete_spec(6), of X s kd i] wait_delete_spec(2) [of X s kd i k j]
  by (auto simp: same_waits_def)

lemma same_waits_trans:
  "same_waits s'' s' k j \<Longrightarrow> same_waits s' s k j \<Longrightarrow> same_waits s'' s k j"
  by (simp add: same_waits_def)


section \<open>A call that may wait\<close>

text \<open>The tail of every waiting call: the wait is described in the control block of the running
  task, which is then put to wait on object \<open>i\<close>, refused, or turned back at once.\<close>

definition call_wait ::
  "okind \<Rightarrow> ID \<Rightarrow> ATR \<Rightarrow> int \<Rightarrow> wspec \<Rightarrow> winfo \<Rightarrow> 'a kst_scheme \<Rightarrow> 'a kst_scheme" where
  "call_wait kd i atr tmout w f s =
     gcb_make_wait_with_diswai kd i atr tmout
       (tcb_upd (me s) (\<lambda>c. c\<lparr>wspec := w, wercd := E_OK, winfo := f\<rparr>) s)"

lemma call_wait_more [simp]: "kst.more (call_wait kd i atr tmout w f s) = kst.more s"
  by (simp add: call_wait_def)

lemma call_wait_frame [simp]:
  "ctxtsk (call_wait kd i atr tmout w f s) = ctxtsk s"
  "mem_uint (call_wait kd i atr tmout w f s) = mem_uint s"
  "mem_int (call_wait kd i atr tmout w f s) = mem_int s"
  "mem_ptr (call_wait kd i atr tmout w f s) = mem_ptr s"
  "mem_byte (call_wait kd i atr tmout w f s) = mem_byte s"
  by (simp_all add: call_wait_def)

definition starts_wait :: "ATR \<Rightarrow> int \<Rightarrow> UINT \<Rightarrow> ID \<Rightarrow> 'a kst_scheme \<Rightarrow> bool" where
  "starts_wait atr tmout tw t s \<longleftrightarrow> tmout \<noteq> TMO_POL \<and> \<not> is_diswai atr t tw s"

lemma call_wait:
  fixes s :: "'a kst_scheme" and kd :: okind and i :: ID and atr :: ATR and tmout :: int
    and w :: wspec and f :: winfo
  assumes k: "kinv s" and r: "running t s"
  defines "s' \<equiv> call_wait kd i atr tmout w f s"
  shows "kinv s'"
    "que s' (WaitQ kd' j) =
       (if kd' = kd \<and> j = i \<and> starts_wait atr tmout (tskwait w) t s
        then wait_order atr (\<lambda>u. priority (tcbs s u)) t (que s (WaitQ kd i))
        else que s (WaitQ kd' j))"
    "winfo (tcbs s' u) = (if u = t then f else winfo (tcbs s u))"
    "wspec (tcbs s' u) = (if u = t then w else wspec (tcbs s u))"
    "kd' \<noteq> kd \<or> j \<noteq> i \<Longrightarrow> same_waits s' s kd' j"
    "wait_ret s' = (if is_diswai atr t (tskwait w) s then Ret E_DISWAI
       else if tmout = TMO_POL then Ret E_TMOUT else Blocked)"
    "sched_ok s \<Longrightarrow> sched_ok s'"
    "tstate (tcbs s' u) = (if u = t \<and> starts_wait atr tmout (tskwait w) t s
       then waiting (tstate (tcbs s t)) else tstate (tcbs s u))"
    "priority (tcbs s' u) = priority (tcbs s u)" "mtxlist (tcbs s' u) = mtxlist (tcbs s u)"
    "bpriority (tcbs s' u) = bpriority (tcbs s u)"
    "wid (tcbs s' u) = (if u = t \<and> starts_wait atr tmout (tskwait w) t s then i else wid (tcbs s u))"
    "wrdvno (tcbs s' u) = wrdvno (tcbs s u)" "svclocked (tcbs s' u) = svclocked (tcbs s u)"
proof -
  let ?s1 = "tcb_upd t (\<lambda>c. c\<lparr>wspec := w, wercd := E_OK, winfo := f\<rparr>) s"
  have s': "s' = gcb_make_wait_with_diswai kd i atr tmout ?s1"
    using r by (simp add: s'_def call_wait_def runningD)
  have k1: "kinv ?s1" using k by (subst tcb_upd_kinv_same) simp_all
  have r1: "running t ?s1" using r by (simp add: running_def)
  have d: "is_diswai atr t (tskwait w) ?s1 = is_diswai atr t (tskwait w) s"
    by (simp add: is_diswai_def)
  then have b: "blocks atr tmout t ?s1 = starts_wait atr tmout (tskwait w) t s"
    by (simp add: blocks_def starts_wait_def)
  have pr: "(\<lambda>u. priority (tcbs ?s1 u)) = (\<lambda>u. priority (tcbs s u))" by auto
  show "kinv s'" unfolding s' by (rule diswai_kinv_x [OF k1 r1]) simp
  show q: "que s' (WaitQ kd' j) =
       (if kd' = kd \<and> j = i \<and> starts_wait atr tmout (tskwait w) t s
        then wait_order atr (\<lambda>u. priority (tcbs s u)) t (que s (WaitQ kd i))
        else que s (WaitQ kd' j))" for kd' j
    using diswai_que [OF k1 r1, of kd i atr tmout kd' j, folded s', unfolded b pr] by simp
  have f12: "winfo (tcbs s' u) = winfo (tcbs ?s1 u)" "wspec (tcbs s' u) = wspec (tcbs ?s1 u)" for u
    unfolding s' by (simp_all only: diswai_sel [OF r1])
  show f: "winfo (tcbs s' u) = (if u = t then f else winfo (tcbs s u))"
    "wspec (tcbs s' u) = (if u = t then w else wspec (tcbs s u))" for u
    by (simp_all add: f12)
  show "same_waits s' s kd' j" if "kd' \<noteq> kd \<or> j \<noteq> i"
    by (rule same_waits_running [OF k r]) (use that q f in auto)
  show "wait_ret s' = (if is_diswai atr t (tskwait w) s then Ret E_DISWAI
       else if tmout = TMO_POL then Ret E_TMOUT else Blocked)"
    unfolding s' using diswai_ret [OF r1, of kd i atr tmout] by (simp add: d)
  have "sched_ok ?s1 = sched_ok s" by (rule sched_ok_cong) simp_all
  then show "sched_ok s \<Longrightarrow> sched_ok s'"
    unfolding s' by (intro diswai_sched_ok [OF k1 r1]) simp_all
  show "tstate (tcbs s' u) = (if u = t \<and> starts_wait atr tmout (tskwait w) t s
       then waiting (tstate (tcbs s t)) else tstate (tcbs s u))"
    "priority (tcbs s' u) = priority (tcbs s u)" "mtxlist (tcbs s' u) = mtxlist (tcbs s u)"
    "bpriority (tcbs s' u) = bpriority (tcbs s u)"
    "wid (tcbs s' u) = (if u = t \<and> starts_wait atr tmout (tskwait w) t s then i else wid (tcbs s u))"
    "wrdvno (tcbs s' u) = wrdvno (tcbs s u)" "svclocked (tcbs s' u) = svclocked (tcbs s u)"
    unfolding s' by (simp_all add: diswai_sel [OF r1] b)
qed

end
