(* ===== verification/Semaphore.thy ===== *)
theory Semaphore
  imports Object_Pool
begin

text \<open>
  Semaphores (\<open>semaphore.c\<close>). The control block table, the free queue and the system calls are
  as in the source; the wait queue of semaphore \<open>i\<close> is \<open>WaitQ OSem i\<close>. \<open>sem_ok\<close> is the
  invariant: counts stay within bounds and no task is left waiting for a count that is there.
  The loops that hand out counts are shown to be the list function \<open>sem_grant\<close>.
\<close>

section \<open>Control blocks and operations\<close>

record semcb =
  semid :: ID
  sem_exinf :: addr
  sematr :: ATR
  semcnt :: int
  maxsem :: int
  sem_name :: "UB list"

record sem_st = kst +
  semcb_table :: "ID \<Rightarrow> semcb"
  free_semcb :: "ID list"
  max_semid :: ID

record t_csem =
  cs_exinf :: addr
  cs_sematr :: ATR
  cs_isemcnt :: int
  cs_maxsem :: int
  cs_dsname :: "UB list"

record t_rsem =
  rs_exinf :: addr
  rs_wtsk :: ID
  rs_semcnt :: int

definition upd_semcb :: "ID \<Rightarrow> (semcb \<Rightarrow> semcb) \<Rightarrow> 'a sem_st_scheme \<Rightarrow> 'a sem_st_scheme" where
  "upd_semcb i f s = s\<lparr>semcb_table := (semcb_table s)(i := f (semcb_table s i))\<rparr>"

text \<open>\<open>max_semid\<close> and the number of entries \<open>_tk_get_cfn\<close> reports, and whether \<open>Imalloc\<close>
  succeeds, come from outside.\<close>

definition semaphore_initialize :: "int \<times> int \<Rightarrow> bool \<Rightarrow> 'a sem_st_scheme \<Rightarrow> ER \<times> 'a sem_st_scheme" where
  "semaphore_initialize cfn malloc_ok s =
     (let s1 = s\<lparr>max_semid := snd cfn\<rparr>
      in if fst cfn < 1 \<or> max_semid s1 < 1 then (E_SYS, s1)
         else if \<not> malloc_ok then (E_NOMEM, s1)
         else (E_OK, fold (\<lambda>i s. (upd_semcb i (\<lambda>c. c\<lparr>semid := 0\<rparr>) s)\<lparr>free_semcb := free_semcb s @ [i]\<rparr>)
                       [1..max_semid s1] (s1\<lparr>free_semcb := []\<rparr>)))"

text \<open>Take the counts of a waiting task and release it: the body of the two loops below.\<close>

definition sem_take :: "ID \<Rightarrow> ID \<Rightarrow> 'a sem_st_scheme \<Rightarrow> 'a sem_st_scheme" where
  "sem_take i t s =
     (let s1 = wait_release_ok t s
      in upd_semcb i (\<lambda>c. c\<lparr>semcnt := semcnt c - sem_cnt (winfo (tcbs s1 t))\<rparr>) s1)"

text \<open>The loops read the successor of an entry before they release it, so they go through the
  entries of the queue as it was when they started.\<close>

fun sem_chg_pri_loop :: "ID \<Rightarrow> ID list \<Rightarrow> 'a sem_st_scheme \<Rightarrow> 'a sem_st_scheme" where
  "sem_chg_pri_loop i [] s = s"
| "sem_chg_pri_loop i (h # queue) s =
     (if semcnt (semcb_table s i) < sem_cnt (winfo (tcbs s h)) then s
      else sem_chg_pri_loop i queue (sem_take i h s))"

definition sem_chg_pri :: "ID \<Rightarrow> int \<Rightarrow> 'a sem_st_scheme \<Rightarrow> 'a sem_st_scheme" where
  "sem_chg_pri t oldpri s =
     (let i = wid (tcbs s t);
          s1 = (if oldpri \<ge> 0 then gcb_change_priority (WaitQ OSem i) t s else s)
      in if has (sematr (semcb_table s1 i)) TA_CNT then s1
         else sem_chg_pri_loop i (que s1 (WaitQ OSem i)) s1)"

definition sem_rel_wai :: "ID \<Rightarrow> 'a sem_st_scheme \<Rightarrow> 'a sem_st_scheme" where
  "sem_rel_wai t s = sem_chg_pri t (-1) s"

definition wspec_sem_tfifo :: wspec where
  "wspec_sem_tfifo = \<lparr>tskwait = TTW_SEM, chg_pri_hook = None, rel_wai_hook = Some H_sem_rel_wai\<rparr>"

definition wspec_sem_tpri :: wspec where
  "wspec_sem_tpri =
     \<lparr>tskwait = TTW_SEM, chg_pri_hook = Some H_sem_chg_pri, rel_wai_hook = Some H_sem_rel_wai\<rparr>"

definition VALID_SEMATR :: ATR where
  "VALID_SEMATR = TA_TPRI OR TA_CNT OR TA_NODISWAI OR TA_DSNAME"

definition tk_cre_sem :: "t_csem \<Rightarrow> 'a sem_st_scheme \<Rightarrow> ER \<times> 'a sem_st_scheme" where
  "tk_cre_sem pk s =
     (if \<not> chk_rsatr (cs_sematr pk) VALID_SEMATR then (E_RSATR, s)
      else if \<not> cs_isemcnt pk \<ge> 0 then (E_PAR, s)
      else if \<not> cs_maxsem pk > 0 then (E_PAR, s)
      else if \<not> cs_maxsem pk \<ge> cs_isemcnt pk then (E_PAR, s)
      else (case free_semcb s of
              [] \<Rightarrow> (E_LIMIT, s)
            | i # free \<Rightarrow>
                let s1 = upd_semcb i (\<lambda>c. c\<lparr>semid := i, sem_exinf := cs_exinf pk,
                           sematr := cs_sematr pk, semcnt := cs_isemcnt pk, maxsem := cs_maxsem pk\<rparr>)
                           (s\<lparr>free_semcb := free\<rparr>);
                    s2 = (if has (cs_sematr pk) TA_DSNAME
                          then upd_semcb i (\<lambda>c. c\<lparr>sem_name :=
                                 tkl_strncpy (cs_dsname pk) OBJECT_NAME_LENGTH\<rparr>) s1
                          else s1)
                in (i, s2)))"

definition tk_del_sem :: "ID \<Rightarrow> 'a sem_st_scheme \<Rightarrow> ER \<times> 'a sem_st_scheme" where
  "tk_del_sem i s =
     (if \<not> chk_id (max_semid s) i then (E_ID, s)
      else if semid (semcb_table s i) = 0 then (E_NOEXS, s)
      else
        (let s1 = wait_delete OSem i s;
             s2 = s1\<lparr>free_semcb := free_semcb s1 @ [i]\<rparr>
         in (E_OK, upd_semcb i (\<lambda>c. c\<lparr>semid := 0\<rparr>) s2)))"

fun sig_sem_loop :: "ID \<Rightarrow> ID list \<Rightarrow> 'a sem_st_scheme \<Rightarrow> 'a sem_st_scheme" where
  "sig_sem_loop i [] s = s"
| "sig_sem_loop i (t # queue) s =
     (if semcnt (semcb_table s i) < sem_cnt (winfo (tcbs s t)) then
        (if \<not> has (sematr (semcb_table s i)) TA_CNT then s
         else sig_sem_loop i queue s)
      else
        (let s1 = sem_take i t s
         in if semcnt (semcb_table s1 i) \<le> 0 then s1 else sig_sem_loop i queue s1))"

definition tk_sig_sem :: "ID \<Rightarrow> int \<Rightarrow> 'a sem_st_scheme \<Rightarrow> ER \<times> 'a sem_st_scheme" where
  "tk_sig_sem i cnt s =
     (if \<not> chk_id (max_semid s) i then (E_ID, s)
      else if \<not> cnt > 0 then (E_PAR, s)
      else if semid (semcb_table s i) = 0 then (E_NOEXS, s)
      else if cnt > maxsem (semcb_table s i) - semcnt (semcb_table s i) then (E_QOVR, s)
      else
        (let s1 = upd_semcb i (\<lambda>c. c\<lparr>semcnt := semcnt c + cnt\<rparr>) s
         in (E_OK, sig_sem_loop i (que s1 (WaitQ OSem i)) s1)))"

definition tk_wai_sem_u :: "ID \<Rightarrow> int \<Rightarrow> int \<Rightarrow> 'a sem_st_scheme \<Rightarrow> sysret \<times> 'a sem_st_scheme" where
  "tk_wai_sem_u i cnt tmout s =
     (if \<not> chk_id (max_semid s) i then (Ret E_ID, s)
      else if \<not> cnt > 0 then (Ret E_PAR, s)
      else if \<not> chk_tmout tmout then (Ret E_PAR, s)
      else if in_ddsp s then (Ret E_CTX, s)
      else
        (let t = me s; cb = semcb_table s i
         in if semid cb = 0 then (Ret E_NOEXS, s)
            else if cnt > maxsem cb then (Ret E_PAR, s)
            else if is_diswai (sematr cb) t TTW_SEM s then (Ret E_DISWAI, s)
            else if (has (sematr cb) TA_CNT \<or>
                     gcb_top_of_wait_queue (sematr cb) (WaitQ OSem i) t s = t) \<and> semcnt cb \<ge> cnt
            then (Ret E_OK, upd_semcb i (\<lambda>c. c\<lparr>semcnt := semcnt c - cnt\<rparr>) s)
            else
              (let s1 = tcb_upd t (\<lambda>c. c\<lparr>
                     wspec := (if has (sematr cb) TA_TPRI then wspec_sem_tpri else wspec_sem_tfifo),
                     wercd := E_OK, winfo := WI_sem cnt\<rparr>) s;
                   s2 = gcb_make_wait_with_diswai OSem i (sematr cb) tmout s1
               in (wait_ret s2, s2))))"

definition tk_wai_sem :: "ID \<Rightarrow> int \<Rightarrow> int \<Rightarrow> 'a sem_st_scheme \<Rightarrow> sysret \<times> 'a sem_st_scheme" where
  "tk_wai_sem i cnt tmout s = tk_wai_sem_u i cnt (to_usec_tmo tmout) s"

definition tk_ref_sem :: "ID \<Rightarrow> 'a sem_st_scheme \<Rightarrow> ER \<times> t_rsem option" where
  "tk_ref_sem i s =
     (if \<not> chk_id (max_semid s) i then (E_ID, None)
      else if semid (semcb_table s i) = 0 then (E_NOEXS, None)
      else (E_OK, Some \<lparr>rs_exinf = sem_exinf (semcb_table s i), rs_wtsk = wait_tskid (WaitQ OSem i) s,
                        rs_semcnt = semcnt (semcb_table s i)\<rparr>))"

definition semaphore_getname :: "ID \<Rightarrow> 'a sem_st_scheme \<Rightarrow> ER \<times> UB list option" where
  "semaphore_getname i s =
     (if \<not> chk_id (max_semid s) i then (E_ID, None)
      else if semid (semcb_table s i) = 0 then (E_NOEXS, None)
      else if \<not> has (sematr (semcb_table s i)) TA_DSNAME then (E_OBJ, None)
      else (E_OK, Some (sem_name (semcb_table s i))))"

definition td_lst_sem :: "int \<Rightarrow> 'a sem_st_scheme \<Rightarrow> int \<times> ID list" where
  "td_lst_sem nent s =
     (let ids = filter (\<lambda>j. semid (semcb_table s j) \<noteq> 0) [1..max_semid s]
      in (int (length ids), take (nat nent) (map (\<lambda>j. semid (semcb_table s j)) ids)))"

definition td_ref_sem :: "ID \<Rightarrow> 'a sem_st_scheme \<Rightarrow> ER \<times> t_rsem option" where
  "td_ref_sem i s =
     (if \<not> chk_id (max_semid s) i then (E_ID, None)
      else if semid (semcb_table s i) = 0 then (E_NOEXS, None)
      else (E_OK, Some \<lparr>rs_exinf = sem_exinf (semcb_table s i), rs_wtsk = wait_tskid (WaitQ OSem i) s,
                        rs_semcnt = semcnt (semcb_table s i)\<rparr>))"

definition td_sem_que :: "ID \<Rightarrow> int \<Rightarrow> 'a sem_st_scheme \<Rightarrow> int \<times> ID list" where
  "td_sem_que i nent s =
     (if \<not> chk_id (max_semid s) i then (E_ID, [])
      else if semid (semcb_table s i) = 0 then (E_NOEXS, [])
      else (let xs = que s (WaitQ OSem i) in (int (length xs), take (nat nent) xs)))"

lemma sem_more:
  assumes "kst.more s' = kst.more s"
  shows "semcb_table s' = semcb_table s"
    "free_semcb s' = free_semcb s"
    "max_semid s' = max_semid s"
  using assms by (cases s; cases s'; simp add: sem_st.defs)+

lemma sem_frame [simp]:
  "semcb_table (set_wercd t e s) = semcb_table s" "free_semcb (set_wercd t e s) = free_semcb s" "max_semid (set_wercd t e s) = max_semid s"
  "semcb_table (tcb_upd t f s) = semcb_table s" "free_semcb (tcb_upd t f s) = free_semcb s" "max_semid (tcb_upd t f s) = max_semid s"
  "semcb_table (que_remove t s) = semcb_table s" "free_semcb (que_remove t s) = free_semcb s" "max_semid (que_remove t s) = max_semid s"
  "semcb_table (wait_release t s) = semcb_table s" "free_semcb (wait_release t s) = free_semcb s" "max_semid (wait_release t s) = max_semid s"
  "semcb_table (wait_release_ok t s) = semcb_table s" "free_semcb (wait_release_ok t s) = free_semcb s" "max_semid (wait_release_ok t s) = max_semid s"
  "semcb_table (wait_release_ok_ercd t e s) = semcb_table s" "free_semcb (wait_release_ok_ercd t e s) = free_semcb s" "max_semid (wait_release_ok_ercd t e s) = max_semid s"
  "semcb_table (queue_insert_tpri t q s) = semcb_table s" "free_semcb (queue_insert_tpri t q s) = free_semcb s" "max_semid (queue_insert_tpri t q s) = max_semid s"
  "semcb_table (gcb_change_priority q t s) = semcb_table s" "free_semcb (gcb_change_priority q t s) = free_semcb s" "max_semid (gcb_change_priority q t s) = max_semid s"
  "semcb_table (gcb_make_wait k i a tmo s) = semcb_table s" "free_semcb (gcb_make_wait k i a tmo s) = free_semcb s" "max_semid (gcb_make_wait k i a tmo s) = max_semid s"
  "semcb_table (gcb_make_wait_with_diswai k i a tmo s) = semcb_table s" "free_semcb (gcb_make_wait_with_diswai k i a tmo s) = free_semcb s" "max_semid (gcb_make_wait_with_diswai k i a tmo s) = max_semid s"
  "semcb_table (wait_delete k i s) = semcb_table s" "free_semcb (wait_delete k i s) = free_semcb s" "max_semid (wait_delete k i s) = max_semid s"
  "semcb_table (make_wait tmo a s) = semcb_table s" "free_semcb (make_wait tmo a s) = free_semcb s" "max_semid (make_wait tmo a s) = max_semid s"
  "semcb_table (make_wait_reltim rt a s) = semcb_table s" "free_semcb (make_wait_reltim rt a s) = free_semcb s" "max_semid (make_wait_reltim rt a s) = max_semid s"
  by (rule sem_more; simp add: gcb_change_priority_frame)+

lemma upd_semcb_sel [simp]:
  "semcb_table (upd_semcb i f s) j = (if j = i then f (semcb_table s i) else semcb_table s j)"
  "free_semcb (upd_semcb i f s) = free_semcb s" "max_semid (upd_semcb i f s) = max_semid s"
  "tcbs (upd_semcb i f s) = tcbs s" "que (upd_semcb i f s) = que s"
  "ctxtsk (upd_semcb i f s) = ctxtsk s" "schedtsk (upd_semcb i f s) = schedtsk s"
  "klocktsk (upd_semcb i f s) = klocktsk s" "top_priority (upd_semcb i f s) = top_priority s"
  "bitmap (upd_semcb i f s) = bitmap s"
  by (simp_all add: upd_semcb_def)

lemma kinv_sem_upd [simp]:
  "kinv_x X (upd_semcb i f s) = kinv_x X s" "sched_ok (upd_semcb i f s) = sched_ok s"
  "kinv_x X (s\<lparr>free_semcb := fr\<rparr>) = kinv_x X s" "sched_ok (s\<lparr>free_semcb := fr\<rparr>) = sched_ok s"
  "running t (upd_semcb i f s) = running t s"
  by (simp_all add: kinv_x_def rdq_ok_def running_def) (rule sched_ok_cong, simp_all)+

section \<open>The loops\<close>

text \<open>Which tasks get their counts: with \<open>TA_CNT\<close> every task in turn whose count is there,
  without it the tasks up to the first one whose count is not there.\<close>

fun sem_grant :: "bool \<Rightarrow> int \<Rightarrow> (ID \<times> int) list \<Rightarrow> ID list" where
  "sem_grant c a [] = []"
| "sem_grant c a ((t, n) # xs) =
     (if a < n then (if c then sem_grant c a xs else [])
      else if a - n \<le> 0 then [t] else t # sem_grant c (a - n) xs)"

fun granted_sum :: "ID list \<Rightarrow> (ID \<times> int) list \<Rightarrow> int" where
  "granted_sum G [] = 0"
| "granted_sum G ((t, n) # xs) = (if t \<in> set G then n else 0) + granted_sum G xs"

lemma granted_sum_Nil [simp]: "granted_sum [] xs = 0"
  by (induction xs) auto

lemma granted_sum_notin: "t \<notin> fst ` set xs \<Longrightarrow> granted_sum (t # G) xs = granted_sum G xs"
  by (induction xs) force+

lemma granted_sum_nonneg: "\<forall>(t, n) \<in> set xs. 0 < n \<Longrightarrow> 0 \<le> granted_sum G xs"
  by (induction xs) auto

lemma sem_grant_subset: "set (sem_grant c a xs) \<subseteq> fst ` set xs"
  by (induction c a xs rule: sem_grant.induct) auto

lemma sem_grant_distinct: "distinct (map fst xs) \<Longrightarrow> distinct (sem_grant c a xs)"
proof (induction c a xs rule: sem_grant.induct)
  case (2 c a t n xs)
  then show ?case using sem_grant_subset [of c "a - n" xs] by auto
qed simp

text \<open>The counts handed out are there, and every task left behind lacks its count: with
  \<open>TA_CNT\<close> all of them, without it the first one.\<close>

lemma sem_grant_sum:
  "0 \<le> a \<Longrightarrow> distinct (map fst xs) \<Longrightarrow> \<forall>(t, n) \<in> set xs. 0 < n \<Longrightarrow>
   granted_sum (sem_grant c a xs) xs \<le> a"
proof (induction c a xs rule: sem_grant.induct)
  case (2 c a t n xs)
  have nt: "t \<notin> set (sem_grant c a' xs)" for a'
    using 2(4) sem_grant_subset [of c a' xs] by auto
  show ?case using 2 nt by (auto simp: granted_sum_notin)
qed simp

lemma sem_grant_rest_cnt:
  "0 \<le> a \<Longrightarrow> distinct (map fst xs) \<Longrightarrow> \<forall>(t, n) \<in> set xs. 0 < n \<Longrightarrow>
   (t, n) \<in> set xs \<Longrightarrow> t \<notin> set (sem_grant True a xs) \<Longrightarrow>
   a - granted_sum (sem_grant True a xs) xs < n"
proof (induction True a xs rule: sem_grant.induct)
  case (2 a t' n' xs)
  have nt: "t' \<notin> set (sem_grant True a' xs)" for a'
    using 2(4) sem_grant_subset [of True a' xs] by auto
  have le: "granted_sum G xs \<ge> 0" for G
    using 2(5) by (intro granted_sum_nonneg) auto
  show ?case
  proof (cases "t = t'")
    case True
    then have "n = n'" using 2(4,6) by force
    then show ?thesis using True 2(5,7) le [of "sem_grant True a xs"] nt
      by (auto simp: granted_sum_notin split: if_splits)
  next
    case False
    then show ?thesis using 2 nt by (auto simp: granted_sum_notin split: if_splits)
  qed
qed simp

lemma sem_grant_rest_first:
  "0 \<le> a \<Longrightarrow> distinct (map fst xs) \<Longrightarrow> \<forall>(t, n) \<in> set xs. 0 < n \<Longrightarrow>
   filter (\<lambda>(t, n). t \<notin> set (sem_grant False a xs)) xs = (u, m) # ys \<Longrightarrow>
   a - granted_sum (sem_grant False a xs) xs < m"
proof (induction False a xs rule: sem_grant.induct)
  case (2 a t' n' xs)
  have nt: "t' \<notin> set (sem_grant False a' xs)" for a'
    using "2.prems"(2) sem_grant_subset [of False a' xs] by auto
  have e: "filter (\<lambda>(t, n). t \<noteq> t' \<and> P t) xs = filter (\<lambda>(t, n). P t) xs" for P
    using "2.prems"(2) by (intro filter_cong) force+
  have m: "filter P xs = (u, m) # ys \<Longrightarrow> 0 < m" for P
    using "2.prems"(3) Cons_eq_filterD [of "(u, m)" ys P xs] by fastforce
  show ?case using 2 nt m by (auto simp: granted_sum_notin e split: if_splits)
qed simp

section \<open>The loops hand out what \<open>sem_grant\<close> says\<close>

definition sem_reqs :: "'a sem_st_scheme \<Rightarrow> ID list \<Rightarrow> (ID \<times> int) list" where
  "sem_reqs s ts = map (\<lambda>t. (t, sem_cnt (winfo (tcbs s t)))) ts"

lemma sem_take_sel [simp]:
  "semcb_table (sem_take i t s) j =
     (if j = i then (semcb_table s i)\<lparr>semcnt := semcnt (semcb_table s i) - sem_cnt (winfo (tcbs s t))\<rparr>
      else semcb_table s j)"
  "free_semcb (sem_take i t s) = free_semcb s" "max_semid (sem_take i t s) = max_semid s"
  by (simp_all add: sem_take_def Let_def wait_release_ok_def)

interpretation semt: release_step "\<lambda>t. t" "sem_take sid" E_OK for sid
  by unfold_locales
    (simp_all add: sem_take_def Let_def wait_release_ok_def wait_release_kinv_x wait_release_que
      wait_release_sched_ok)

lemma sem_reqs_take: "sem_reqs (sem_take i t s) ts = sem_reqs s ts"
  using tcb_viewD(2) [OF semt.view [of i t s]] by (simp add: sem_reqs_def)

lemma sig_sem_loop_eq:
  "sig_sem_loop i ts s =
     fold (sem_take i) (sem_grant (has (sematr (semcb_table s i)) TA_CNT) (semcnt (semcb_table s i))
       (sem_reqs s ts)) s"
proof (induction ts arbitrary: s)
  case Nil
  then show ?case by (simp add: sem_reqs_def)
next
  case (Cons t ts)
  have r: "sem_reqs s (t # ts) = (t, sem_cnt (winfo (tcbs s t))) # sem_reqs s ts" for s :: "'a sem_st_scheme"
    by (simp add: sem_reqs_def)
  show ?case by (auto simp: Let_def Cons.IH r sem_reqs_take)
qed

lemma sem_chg_pri_loop_eq:
  assumes "\<forall>t \<in> set ts. 0 < sem_cnt (winfo (tcbs s t))"
  shows "sem_chg_pri_loop i ts s =
    fold (sem_take i) (sem_grant False (semcnt (semcb_table s i)) (sem_reqs s ts)) s"
  using assms
proof (induction ts arbitrary: s)
  case Nil
  then show ?case by (simp add: sem_reqs_def)
next
  case (Cons t ts)
  let ?n = "sem_cnt (winfo (tcbs s t))" and ?a = "semcnt (semcb_table s i)"
  have r: "sem_reqs s (t # ts) = (t, ?n) # sem_reqs s ts" by (simp add: sem_reqs_def)
  have pos: "\<forall>u \<in> set ts. 0 < sem_cnt (winfo (tcbs (sem_take i t s) u))"
    using Cons.prems tcb_viewD(2) [OF semt.view [of i t s]] by simp
  have z: "sem_grant False (?a - ?n) (sem_reqs s ts) = []" if "?a - ?n \<le> 0"
    using that Cons.prems by (cases ts) (auto simp: sem_reqs_def)
  show ?case using Cons.IH [OF pos] z by (auto simp: r sem_reqs_take)
qed

lemma sem_take_semcnt:
  assumes "distinct ts" "set G \<subseteq> set ts" "distinct G"
  shows "semcnt (semcb_table (fold (sem_take i) G s) i) =
      semcnt (semcb_table s i) - granted_sum G (sem_reqs s ts)"
    "(semcb_table (fold (sem_take i) G s) i)\<lparr>semcnt := x\<rparr> = (semcb_table s i)\<lparr>semcnt := x\<rparr>"
    "j \<noteq> i \<Longrightarrow> semcb_table (fold (sem_take i) G s) j = semcb_table s j"
    "free_semcb (fold (sem_take i) G s) = free_semcb s"
    "max_semid (fold (sem_take i) G s) = max_semid s"
  using assms(2,3)
proof (atomize (full), induction G arbitrary: s)
  case Nil
  then show ?case by simp
next
  case (Cons t G)
  have split: "granted_sum (t # G) (sem_reqs s ts) =
      sem_cnt (winfo (tcbs s t)) + granted_sum G (sem_reqs s ts)"
    if "t \<in> set ts" "distinct ts" "t \<notin> set G" for ts
    using that
  proof (induction ts)
    case (Cons u ts)
    have "t \<notin> fst ` set (sem_reqs s ts)" if "t \<notin> set ts" using that by (auto simp: sem_reqs_def)
    then show ?case using Cons granted_sum_notin [of t "sem_reqs s ts" G]
      by (auto simp: sem_reqs_def)
  qed simp
  show ?case
    using Cons split [OF _ assms(1)] by (auto simp: sem_reqs_take)
qed

section \<open>The invariant\<close>

definition sem_no_lost :: "bool \<Rightarrow> int \<Rightarrow> (ID \<times> int) list \<Rightarrow> bool" where
  "sem_no_lost c a xs \<longleftrightarrow>
     (if c then \<forall>(t, n) \<in> set xs. a < n else (case xs of [] \<Rightarrow> True | (t, n) # _ \<Rightarrow> a < n))"

definition sem_exists :: "ID \<Rightarrow> 'a sem_st_scheme \<Rightarrow> bool" where
  "sem_exists i s \<longleftrightarrow> chk_id (max_semid s) i \<and> semid (semcb_table s i) \<noteq> 0"

text \<open>The count is within its bounds, every waiting task asks for a possible count, and none of
  them waits for a count that is there.\<close>

definition sem_obj_pre :: "ID \<Rightarrow> 'a sem_st_scheme \<Rightarrow> bool" where
  "sem_obj_pre i s \<longleftrightarrow>
     (let c = semcb_table s i; q = que s (WaitQ OSem i)
      in semid c = i \<and> 0 \<le> semcnt c \<and> semcnt c \<le> maxsem c \<and>
         (\<forall>t \<in> set q. 0 < sem_cnt (winfo (tcbs s t)) \<and> sem_cnt (winfo (tcbs s t)) \<le> maxsem c \<and>
            rel_wai_hook (wspec (tcbs s t)) = Some H_sem_rel_wai \<and>
            chg_pri_hook (wspec (tcbs s t)) =
              (if has (sematr c) TA_TPRI then Some H_sem_chg_pri else None)))"

definition sem_obj_settled :: "ID \<Rightarrow> 'a sem_st_scheme \<Rightarrow> bool" where
  "sem_obj_settled i s \<longleftrightarrow>
     sem_no_lost (has (sematr (semcb_table s i)) TA_CNT) (semcnt (semcb_table s i))
       (sem_reqs s (que s (WaitQ OSem i)))"

definition sem_obj_ok :: "ID \<Rightarrow> 'a sem_st_scheme \<Rightarrow> bool" where
  "sem_obj_ok i s \<longleftrightarrow> sem_obj_pre i s \<and> sem_obj_settled i s"

definition sem_ok :: "'a sem_st_scheme \<Rightarrow> bool" where
  "sem_ok s \<longleftrightarrow>
     kinv s \<and> distinct (free_semcb s) \<and>
     (\<forall>i. i \<in> set (free_semcb s) \<longleftrightarrow> chk_id (max_semid s) i \<and> \<not> sem_exists i s) \<and>
     (\<forall>i. if sem_exists i s then sem_obj_ok i s else que s (WaitQ OSem i) = [])"

lemma sem_okD:
  assumes "sem_ok s"
  shows "kinv s" "distinct (free_semcb s)"
    "i \<in> set (free_semcb s) \<longleftrightarrow> chk_id (max_semid s) i \<and> \<not> sem_exists i s"
    "sem_exists i s \<Longrightarrow> sem_obj_ok i s" "\<not> sem_exists i s \<Longrightarrow> que s (WaitQ OSem i) = []"
  using assms by (simp_all add: sem_ok_def)

text \<open>All is well but for semaphore \<open>i\<close>, whose queue or count has just changed: there may be
  tasks to be served.\<close>

definition sem_weak :: "ID \<Rightarrow> 'a sem_st_scheme \<Rightarrow> bool" where
  "sem_weak i s \<longleftrightarrow>
     kinv s \<and> distinct (free_semcb s) \<and>
     (\<forall>i. i \<in> set (free_semcb s) \<longleftrightarrow> chk_id (max_semid s) i \<and> \<not> sem_exists i s) \<and>
     (\<forall>j. if sem_exists j s then sem_obj_pre j s \<and> (j \<noteq> i \<longrightarrow> sem_obj_settled j s)
          else que s (WaitQ OSem j) = [])"

lemma sem_weakD:
  assumes "sem_weak i s"
  shows "kinv s" "sem_exists j s \<Longrightarrow> sem_obj_pre j s"
    "\<not> sem_exists j s \<Longrightarrow> que s (WaitQ OSem j) = []"
  using assms by (simp_all add: sem_weak_def)

lemma sem_ok_weak: "sem_ok s \<longleftrightarrow> sem_weak i s \<and> (sem_exists i s \<longrightarrow> sem_obj_settled i s)"
  by (auto simp: sem_ok_def sem_weak_def sem_obj_ok_def split: if_splits)

interpretation semo: object_pool "{OSem}" max_semid free_semcb semcb_table semid
  sem_obj_pre sem_obj_settled sem_ok sem_weak
proof unfold_locales
  fix s s' :: "'a sem_st_scheme" and j
  assume cb: "semcb_table s' j = semcb_table s j" and w: "\<And>k. k \<in> {OSem} \<Longrightarrow> same_waits s' s k j"
  note w = same_waitsD [OF w [of OSem, simplified]]
  have "sem_reqs s' (que s (WaitQ OSem j)) = sem_reqs s (que s (WaitQ OSem j))"
    using w(2) by (simp add: sem_reqs_def)
  then show "sem_obj_settled j s \<Longrightarrow> sem_obj_settled j s'"
    by (simp add: sem_obj_settled_def cb w(1))
  show "sem_obj_pre j s \<Longrightarrow> sem_obj_pre j s'"
    by (simp add: sem_obj_pre_def Let_def cb w(1)) (use w(2,3) in simp)
qed (auto simp: sem_weak_def sem_ok_def sem_obj_ok_def sem_exists_def split: if_splits)

text \<open>Handing out counts to the queue of \<open>i\<close>.\<close>

lemma sem_no_lost_grant:
  assumes "0 \<le> a" "distinct (map fst xs)" "\<forall>(t, n) \<in> set xs. 0 < n"
  shows "sem_no_lost c (a - granted_sum (sem_grant c a xs) xs)
    (filter (\<lambda>(t, n). t \<notin> set (sem_grant c a xs)) xs)"
proof (cases c)
  case True
  then show ?thesis using sem_grant_rest_cnt [OF assms] by (auto simp: sem_no_lost_def)
next
  case False
  then show ?thesis using sem_grant_rest_first [OF assms]
    by (auto simp: sem_no_lost_def split: list.split)
qed

lemma grant_all:
  fixes s :: "'a sem_st_scheme" and c :: bool
  assumes k: "kinv s" and a: "0 \<le> semcnt (semcb_table s i)"
    and pos: "\<And>t. t \<in> set (que s (WaitQ OSem i)) \<Longrightarrow> 0 < sem_cnt (winfo (tcbs s t))"
  defines "q \<equiv> que s (WaitQ OSem i)"
  defines "G \<equiv> sem_grant c (semcnt (semcb_table s i)) (sem_reqs s q)"
  defines "s' \<equiv> fold (sem_take i) G s"
  shows "kinv s'" "que s' (WaitQ OSem i) = filter (\<lambda>t. t \<notin> set G) q"
    "j \<noteq> i \<Longrightarrow> que s' (WaitQ OSem j) = que s (WaitQ OSem j)"
    "tcb_view (tcbs s' t) = tcb_view (tcbs s t)"
    "semcnt (semcb_table s' i) = semcnt (semcb_table s i) - granted_sum G (sem_reqs s q)"
    "0 \<le> semcnt (semcb_table s' i)" "semcnt (semcb_table s' i) \<le> semcnt (semcb_table s i)"
    "(semcb_table s' i)\<lparr>semcnt := x\<rparr> = (semcb_table s i)\<lparr>semcnt := x\<rparr>"
    "j \<noteq> i \<Longrightarrow> semcb_table s' j = semcb_table s j"
    "free_semcb s' = free_semcb s" "max_semid s' = max_semid s"
    "sem_no_lost c (semcnt (semcb_table s' i)) (sem_reqs s' (que s' (WaitQ OSem i)))"
    "sched_ok s \<Longrightarrow> sched_ok s'" "ctxtsk s' = ctxtsk s"
    "tstate (tcbs s' t) = (if t \<in> set G then released (tstate (tcbs s t)) else tstate (tcbs s t))"
    "wercd (tcbs s' t) = (if t \<in> set G then E_OK else wercd (tcbs s t))"
    "set G \<subseteq> set q"
proof -
  let ?xs = "sem_reqs s q"
  have fst: "map fst ?xs = q" by (simp add: sem_reqs_def comp_def)
  have dq: "distinct q" using que_ok_distinct [OF kinv_xD(2) [OF k]] by (simp add: q_def)
  have posx: "\<forall>(t, n) \<in> set ?xs. 0 < n" using pos by (auto simp: sem_reqs_def q_def)
  have sub: "set G \<subseteq> set q"
    using sem_grant_subset [of c _ ?xs] fst by (metis G_def set_map)
  have dG: "distinct G" unfolding G_def by (rule sem_grant_distinct) (simp add: fst dq)
  have w: "\<forall>t \<in> set G. in_wait (tstate (tcbs s t))" using sub kinv_xD(5) [OF k] by (auto simp: q_def)
  note f = semt.fold_all [where sid = i and xs = G, OF k, simplified, OF dG w, folded s'_def] and c = sem_take_semcnt [where i = i and s = s, OF dq sub dG, folded s'_def]
  show "kinv s'" "ctxtsk s' = ctxtsk s" by (rule f)+
  show "sched_ok s \<Longrightarrow> sched_ok s'" by (rule f)
  show q': "que s' (WaitQ OSem i) = filter (\<lambda>t. t \<notin> set G) q" by (simp add: f q_def)
  show v: "tcb_view (tcbs s' t) = tcb_view (tcbs s t)" for t by (rule f)
  show "tstate (tcbs s' t) = (if t \<in> set G then released (tstate (tcbs s t)) else tstate (tcbs s t))"
    "wercd (tcbs s' t) = (if t \<in> set G then E_OK else wercd (tcbs s t))" by (rule f)+
  show "que s' (WaitQ OSem j) = que s (WaitQ OSem j)" if "j \<noteq> i"
  proof -
    have "t \<notin> set G" if "t \<in> set (que s (WaitQ OSem j))" for t
      using that sub \<open>j \<noteq> i\<close> que_okD [OF kinv_xD(2) [OF k], of t "WaitQ OSem j" "WaitQ OSem i"]
      by (auto simp: q_def)
    then show ?thesis by (simp add: f filter_id_conv)
  qed
  show cnt: "semcnt (semcb_table s' i) = semcnt (semcb_table s i) - granted_sum G ?xs" by (rule c)
  show "(semcb_table s' i)\<lparr>semcnt := x\<rparr> = (semcb_table s i)\<lparr>semcnt := x\<rparr>" by (rule c)
  show "j \<noteq> i \<Longrightarrow> semcb_table s' j = semcb_table s j" by (rule c)
  show "free_semcb s' = free_semcb s" "max_semid s' = max_semid s" by (rule c)+
  have xs: "distinct (map fst ?xs)" using dq by (simp add: fst)
  have "granted_sum G ?xs \<le> semcnt (semcb_table s i)"
    unfolding G_def by (rule sem_grant_sum [OF a xs posx])
  then show "0 \<le> semcnt (semcb_table s' i)" by (simp add: cnt)
  show "semcnt (semcb_table s' i) \<le> semcnt (semcb_table s i)"
    using granted_sum_nonneg [OF posx, of G] by (simp add: cnt)
  have "sem_reqs s' (que s' (WaitQ OSem i)) = filter (\<lambda>(t, n). t \<notin> set G) ?xs"
    using tcb_viewD(2) [OF v] by (simp add: q' sem_reqs_def filter_map comp_def)
  then show "sem_no_lost c (semcnt (semcb_table s' i)) (sem_reqs s' (que s' (WaitQ OSem i)))"
    unfolding cnt using sem_no_lost_grant [OF a xs posx, of c] by (simp add: G_def)
  show "set G \<subseteq> set q" by (rule sub)
qed

section \<open>Every operation keeps the invariant\<close>

lemma sem_obj_preD:
  assumes "sem_obj_pre i s"
  shows "semid (semcb_table s i) = i" "0 \<le> semcnt (semcb_table s i)"
    "semcnt (semcb_table s i) \<le> maxsem (semcb_table s i)"
    "t \<in> set (que s (WaitQ OSem i)) \<Longrightarrow> 0 < sem_cnt (winfo (tcbs s t))"
    "t \<in> set (que s (WaitQ OSem i)) \<Longrightarrow> sem_cnt (winfo (tcbs s t)) \<le> maxsem (semcb_table s i)"
    "t \<in> set (que s (WaitQ OSem i)) \<Longrightarrow> rel_wai_hook (wspec (tcbs s t)) = Some H_sem_rel_wai"
    "t \<in> set (que s (WaitQ OSem i)) \<Longrightarrow> chg_pri_hook (wspec (tcbs s t)) =
       (if has (sematr (semcb_table s i)) TA_TPRI then Some H_sem_chg_pri else None)"
  using assms by (auto simp: sem_obj_pre_def Let_def)

lemma semcb_eqD:
  "x\<lparr>semcnt := 0\<rparr> = y\<lparr>semcnt := 0\<rparr> \<Longrightarrow>
     semid x = semid y \<and> sematr x = sematr y \<and> maxsem x = maxsem y"
  by (cases x; cases y) simp

text \<open>Handing out the counts of a semaphore settles it.\<close>

lemma sem_grant_ok:
  assumes wk: "sem_weak i s" and c: "c = has (sematr (semcb_table s i)) TA_CNT"
  shows "sem_ok (fold (sem_take i) (sem_grant c (semcnt (semcb_table s i))
    (sem_reqs s (que s (WaitQ OSem i)))) s)" (is "sem_ok ?s'")
proof (cases "sem_exists i s")
  case True
  note p = sem_obj_preD [OF sem_weakD(2) [OF wk True]]
  note g = grant_all [OF sem_weakD(1) [OF wk] p(2,4), where c = c]
  note cb = semcb_eqD [OF g(8)]
  note v = tcb_viewD(1,2) [OF g(4)]
  have "sem_obj_pre i ?s'"
    using p g(2,6,7) cb by (auto simp: sem_obj_pre_def Let_def v)
  moreover have "sem_obj_settled i ?s'" using g(12) c cb by (simp add: sem_obj_settled_def)
  moreover have "semid (semcb_table ?s' j) = semid (semcb_table s j)" for j
    using g(9) [of j] cb by (cases "j = i") auto
  ultimately show ?thesis
    by (intro semo.frame [OF wk g(1)] same_waitsI) (use True g v in \<open>simp_all add: sem_exists_def\<close>)
next
  case False
  then have e: "que s (WaitQ OSem i) = []" using sem_weakD(3) [OF wk] by simp
  then have "?s' = s" by (simp add: sem_reqs_def)
  then show ?thesis using wk False by (simp add: sem_ok_weak [of s i])
qed

theorem sem_chg_pri_ok:
  assumes wk: "sem_weak i s" and w: "wid (tcbs s t) = i"
    and st: "sem_exists i s \<Longrightarrow> has (sematr (semcb_table s i)) TA_CNT \<Longrightarrow> sem_obj_settled i s"
    and q: "old \<ge> 0 \<Longrightarrow> t \<in> set (que s (WaitQ OSem i))"
  shows "sem_ok (sem_chg_pri t old s)"
proof -
  let ?s1 = "if old \<ge> 0 then gcb_change_priority (WaitQ OSem i) t s else s"
  note k0 = sem_weakD(1) [OF wk]
  note disj = que_okD [OF kinv_xD(2) [OF k0], of t "WaitQ OSem _" "WaitQ OSem i"]
  have qs: "set (que ?s1 (WaitQ OSem j)) = set (que s (WaitQ OSem j))" for j
    using q disj [of j] by (auto simp: gcb_change_priority_que)
  have qn: "que ?s1 (WaitQ OSem j) = que s (WaitQ OSem j)" if "j \<noteq> i" for j
    using q that disj [of j] by (auto simp: gcb_change_priority_que intro!: removeAll_id)
  have qe: "que s (WaitQ OSem j) = [] \<Longrightarrow> que ?s1 (WaitQ OSem j) = []" for j
    using qs [of j] by simp
  have f: "tcbs ?s1 = tcbs s" "semcb_table ?s1 = semcb_table s" "free_semcb ?s1 = free_semcb s"
    "max_semid ?s1 = max_semid s" by (simp_all add: gcb_change_priority_frame)
  have k: "kinv ?s1"
    using k0 q w kinv_xD(5) [OF k0, of t OSem i] by (auto intro: gcb_change_priority_kinv_x)
  have stj: "sem_obj_settled j ?s1 = sem_obj_settled j s" if "j \<noteq> i" for j
    by (simp only: sem_obj_settled_def f qn [OF that] sem_reqs_def)
  have pre: "sem_obj_pre j ?s1 = sem_obj_pre j s" for j
    unfolding sem_obj_pre_def Let_def f qs ..
  have ex: "sem_exists j ?s1 = sem_exists j s" for j unfolding sem_exists_def f ..
  have wk1: "sem_weak i ?s1"
    using wk k qe stj unfolding sem_weak_def f ex pre by auto
  show ?thesis
  proof (cases "has (sematr (semcb_table s i)) TA_CNT")
    case True
    then have e: "sem_chg_pri t old s = ?s1" using w f by (simp add: sem_chg_pri_def Let_def)
    have "sem_obj_settled i ?s1" if "sem_exists i s"
      using st [OF that True] qs [of i] True unfolding sem_obj_settled_def f
      by (simp add: sem_no_lost_def sem_reqs_def f)
    then show ?thesis unfolding e using wk1 ex by (simp add: sem_ok_weak [of _ i])
  next
    case False
    have pos: "\<forall>u \<in> set (que ?s1 (WaitQ OSem i)). 0 < sem_cnt (winfo (tcbs ?s1 u))"
      using sem_weakD(2,3) [OF wk1, of i] sem_obj_preD(4) [of i ?s1]
      by (cases "sem_exists i ?s1") auto
    have e: "sem_chg_pri t old s = sem_chg_pri_loop i (que ?s1 (WaitQ OSem i)) ?s1"
      using w f False by (simp add: sem_chg_pri_def Let_def)
    show ?thesis
      unfolding e sem_chg_pri_loop_eq [OF pos] using False f
      by (intro sem_grant_ok [OF wk1, of False]) simp
  qed
qed

theorem tk_sig_sem_ok:
  assumes ok: "sem_ok s"
  shows "sem_ok (snd (tk_sig_sem i cnt s))"
proof -
  let ?s1 = "upd_semcb i (\<lambda>c. c\<lparr>semcnt := semcnt c + cnt\<rparr>) s"
  have "sem_ok (sig_sem_loop i (que s (WaitQ OSem i)) ?s1)"
    if g: "chk_id (max_semid s) i" "cnt > 0" "semid (semcb_table s i) \<noteq> 0"
      "\<not> cnt > maxsem (semcb_table s i) - semcnt (semcb_table s i)"
  proof -
    have wk: "sem_weak i s" using ok sem_ok_weak by blast
    have ex: "sem_exists j ?s1 = sem_exists j s" for j by (simp add: sem_exists_def)
    have r: "sem_reqs ?s1 = sem_reqs s" by (simp add: sem_reqs_def fun_eq_iff)
    have "sem_obj_pre j s \<Longrightarrow> sem_obj_pre j ?s1" for j
      using g by (auto simp: sem_obj_pre_def Let_def)
    moreover have "j \<noteq> i \<Longrightarrow> sem_obj_settled j ?s1 = sem_obj_settled j s" for j
      by (simp add: sem_obj_settled_def r)
    ultimately have "sem_weak i ?s1"
      using wk unfolding sem_weak_def ex by auto
    from sem_grant_ok [OF this refl] show ?thesis by (simp add: sig_sem_loop_eq)
  qed
  with ok show ?thesis by (auto simp: tk_sig_sem_def Let_def)
qed


lemma sem_diswai_hooks [simp]:
  "rel_wai_hook wspec_sem_tpri = Some H_sem_rel_wai" "rel_wai_hook wspec_sem_tfifo = Some H_sem_rel_wai"
  "chg_pri_hook wspec_sem_tpri = Some H_sem_chg_pri" "chg_pri_hook wspec_sem_tfifo = None"
  "tskwait wspec_sem_tpri = TTW_SEM" "tskwait wspec_sem_tfifo = TTW_SEM"
  by (simp_all add: wspec_sem_tpri_def wspec_sem_tfifo_def)

lemma sem_no_lost_mono: "sem_no_lost c a xs \<Longrightarrow> b \<le> a \<Longrightarrow> sem_no_lost c b xs"
  by (cases c) (fastforce simp: sem_no_lost_def split: list.splits)+

text \<open>A task that starts to wait: it is not ahead of a task that could be served, and its own
  count is not there if it is ahead.\<close>

lemma sem_no_lost_wait:
  assumes nl: "sem_no_lost c a (map f xs)" and f: "f = (\<lambda>u. (u, g u))"
    and n: "c \<Longrightarrow> a < g t" "\<not> c \<Longrightarrow> xs = [] \<Longrightarrow> a < g t"
      "\<not> c \<Longrightarrow> has atr TA_TPRI \<Longrightarrow> xs \<noteq> [] \<Longrightarrow> pri t < pri (hd xs) \<Longrightarrow> a < g t"
  shows "sem_no_lost c a (map f (wait_order atr pri t xs))"
  using assms by (cases xs) (auto simp: sem_no_lost_def wait_order_def)

theorem tk_wai_sem_u_ok:
  assumes ok: "sem_ok s" and r: "in_ddsp s \<or> running (me s) s"
  shows "sem_ok (snd (tk_wai_sem_u i cnt tmout s))"
proof -
  define cb where "cb = semcb_table s i"
  define t where "t = me s"
  define fits where "fits = ((has (sematr cb) TA_CNT \<or>
    gcb_top_of_wait_queue (sematr cb) (WaitQ OSem i) t s = t) \<and> semcnt cb \<ge> cnt)"
  define s1 where "s1 = tcb_upd t (\<lambda>c. c\<lparr>
    wspec := (if has (sematr cb) TA_TPRI then wspec_sem_tpri else wspec_sem_tfifo),
    wercd := E_OK, winfo := WI_sem cnt\<rparr>) s"
  define s2 where "s2 = gcb_make_wait_with_diswai OSem i (sematr cb) tmout s1"
  have main: "sem_ok (if fits then upd_semcb i (\<lambda>c. c\<lparr>semcnt := semcnt c - cnt\<rparr>) s else s2)"
    if g: "chk_id (max_semid s) i" "cnt > 0" "\<not> in_ddsp s" "semid cb \<noteq> 0" "cnt \<le> maxsem cb"
  proof -
    have ex: "sem_exists i s" using g by (simp add: sem_exists_def cb_def)
    have run: "running t s" using r g by (simp add: t_def)
    note o = sem_okD(4) [OF ok ex, unfolded sem_obj_ok_def]
    note p = sem_obj_preD [OF conjunct1 [OF o], folded cb_def]
    note k = sem_okD(1) [OF ok]
    have wk: "sem_weak i s" using ok sem_ok_weak by blast
    show ?thesis
    proof (cases fits)
      case True
      let ?s1 = "upd_semcb i (\<lambda>c. c\<lparr>semcnt := semcnt c - cnt\<rparr>) s"
      have "sem_obj_pre i ?s1"
        using p g True unfolding fits_def by (auto simp: sem_obj_pre_def Let_def cb_def)
      moreover have "sem_obj_settled i ?s1"
        using o g by (auto simp: sem_obj_settled_def sem_reqs_def elim: sem_no_lost_mono)
      ultimately have "sem_ok ?s1"
        by (intro semo.frame [OF wk] same_waitsI) (use ex k in \<open>simp_all add: sem_exists_def\<close>)
      with True show ?thesis by simp
    next
      case False
      have k1: "kinv s1" unfolding s1_def using k by (subst tcb_upd_kinv_same) simp_all
      have r1: "running t s1" using run by (simp add: s1_def running_def)
      have nq: "t \<notin> set (que s (WaitQ kd j))" for kd j
        using not_wait_not_queued [OF k runningD(2) [OF run]] .
      have s12: "winfo (tcbs s2 u) = winfo (tcbs s1 u)" "wspec (tcbs s2 u) = wspec (tcbs s1 u)" for u
        by (simp_all add: s2_def diswai_sel [OF r1])
      have old: "winfo (tcbs s2 u) = winfo (tcbs s u)" "wspec (tcbs s2 u) = wspec (tcbs s u)"
        if "u \<noteq> t" for u
        using that by (simp_all add: s12) (simp_all add: s1_def)
      have oldq: "winfo (tcbs s2 u) = winfo (tcbs s u) \<and> wspec (tcbs s2 u) = wspec (tcbs s u)"
        if "u \<in> set (que s (WaitQ OSem j))" for u j
        using that nq old [of u] by blast
      have new: "winfo (tcbs s2 t) = WI_sem cnt"
        "wspec (tcbs s2 t) = (if has (sematr cb) TA_TPRI then wspec_sem_tpri else wspec_sem_tfifo)"
        by (simp_all add: s12) (simp_all add: s1_def)
      have q1: "que s1 = que s" and pr1: "(\<lambda>u. priority (tcbs s1 u)) = (\<lambda>u. priority (tcbs s u))"
        by (auto simp: s1_def)
      note q2 = diswai_que [OF k1 r1, of OSem i "sematr cb" tmout, folded s2_def, unfolded q1 pr1, simplified]
      have tab: "semcb_table s2 = semcb_table s" "free_semcb s2 = free_semcb s" "max_semid s2 = max_semid s"
        by (simp_all add: s2_def s1_def)
      let ?q = "que s (WaitQ OSem i)"
      have map: "sem_reqs s2 xs = map (\<lambda>u. (u, if u = t then cnt else sem_cnt (winfo (tcbs s u)))) xs" for xs
        using old new by (auto simp: sem_reqs_def)
      have same: "map (\<lambda>u. (u, if u = t then cnt else sem_cnt (winfo (tcbs s u)))) ?q = sem_reqs s ?q"
        using nq by (auto simp: sem_reqs_def)
      have nl: "sem_no_lost (has (sematr cb) TA_CNT) (semcnt cb) (sem_reqs s ?q)"
        using o by (simp add: sem_obj_settled_def cb_def)
      have "sem_obj_settled i s2"
        unfolding sem_obj_settled_def tab cb_def [symmetric] map
      proof (cases "blocks (sematr cb) tmout t s1")
        case True
        then have q: "que s2 (WaitQ OSem i) = wait_order (sematr cb) (\<lambda>u. priority (tcbs s u)) t ?q"
          by (simp add: q2)
        show "sem_no_lost (has (sematr cb) TA_CNT) (semcnt cb)
          (map (\<lambda>u. (u, if u = t then cnt else sem_cnt (winfo (tcbs s u)))) (que s2 (WaitQ OSem i)))"
          unfolding q
          by (rule sem_no_lost_wait [where g = "\<lambda>u. if u = t then cnt else sem_cnt (winfo (tcbs s u))"])
            (use nl same False in \<open>auto simp: fits_def gcb_top_of_wait_queue_def split: list.splits\<close>)
      qed (simp add: q2 same nl)
      moreover have "sem_obj_pre i s2"
      proof -
        have mem: "0 < sem_cnt (winfo (tcbs s2 u)) \<and> sem_cnt (winfo (tcbs s2 u)) \<le> maxsem cb \<and>
            rel_wai_hook (wspec (tcbs s2 u)) = Some H_sem_rel_wai \<and>
            chg_pri_hook (wspec (tcbs s2 u)) =
              (if has (sematr cb) TA_TPRI then Some H_sem_chg_pri else None)"
          if u: "u \<in> set (que s2 (WaitQ OSem i))" for u
        proof (cases "u = t")
          case True
          then show ?thesis using new g by simp
        next
          case False
          then have "u \<in> set ?q" using u by (auto simp: q2 split: if_splits)
          with False show ?thesis using p old by simp
        qed
        show ?thesis
          unfolding sem_obj_pre_def Let_def tab cb_def [symmetric] using p mem by blast
      qed
      moreover have "kinv s2" unfolding s2_def by (rule diswai_kinv_x [OF k1 r1]) simp
      ultimately have "sem_ok s2"
        by (intro semo.frame [OF wk] same_waitsI)
          (use ex oldq q2 tab in \<open>simp_all add: sem_exists_def\<close>)
      with False show ?thesis by simp
    qed
  qed
  show ?thesis
    unfolding tk_wai_sem_u_def Let_def
    using ok main [unfolded fits_def s2_def s1_def t_def cb_def] by (auto split: if_splits)
qed


theorem tk_cre_sem_ok:
  assumes ok: "sem_ok s"
  shows "sem_ok (snd (tk_cre_sem pk s))"
proof (cases "free_semcb s")
  case Nil
  then show ?thesis using ok by (simp add: tk_cre_sem_def)
next
  case (Cons i free)
  let ?s1 = "upd_semcb i (\<lambda>c. c\<lparr>semid := i, sem_exinf := cs_exinf pk, sematr := cs_sematr pk,
      semcnt := cs_isemcnt pk, maxsem := cs_maxsem pk\<rparr>) (s\<lparr>free_semcb := free\<rparr>)"
  let ?s2 = "if has (cs_sematr pk) TA_DSNAME
      then upd_semcb i (\<lambda>c. c\<lparr>sem_name := tkl_strncpy (cs_dsname pk) OBJECT_NAME_LENGTH\<rparr>) ?s1 else ?s1"
  have i: "chk_id (max_semid s) i" "\<not> sem_exists i s" using sem_okD(3) [OF ok, of i] Cons by auto
  then have i1: "i \<noteq> 0" by (auto simp: chk_id_def)
  have e: "que s (WaitQ OSem i) = []" using sem_okD(5) [OF ok] i by simp
  have "sem_ok ?s2" if g: "0 \<le> cs_isemcnt pk" "cs_isemcnt pk \<le> cs_maxsem pk"
    by (rule semo.create [OF ok Cons]) (use sem_okD(1) [OF ok] i1 e g in
      \<open>simp_all add: same_waits_tcbs sem_obj_pre_def sem_obj_settled_def sem_reqs_def
        sem_no_lost_def Let_def\<close>)
  then show ?thesis using Cons ok by (simp add: tk_cre_sem_def Let_def)
qed

theorem tk_del_sem_ok:
  assumes ok: "sem_ok s"
  shows "sem_ok (snd (tk_del_sem i s))"
proof -
  let ?w = "wait_delete OSem i s"
  let ?s2 = "upd_semcb i (\<lambda>c. c\<lparr>semid := 0\<rparr>) (?w\<lparr>free_semcb := free_semcb s @ [i]\<rparr>)"
  note k = sem_okD(1) [OF ok]
  note w = wait_delete_spec [OF k, of OSem i]
  have "same_waits ?s2 s OSem j" if "j \<noteq> i" for j
    by (rule same_waits_trans [OF same_waits_tcbs same_waits_delete [OF k, of OSem _ _ i]])
      (use that in simp_all)
  then have "sem_ok ?s2" if "sem_exists i s"
    by (intro semo.delete [OF ok, of i]) (use that w in \<open>simp_all add: sem_exists_def\<close>)
  then show ?thesis using ok by (simp add: tk_del_sem_def Let_def sem_exists_def)
qed

text \<open>A waiting task that is released by another call or by its time limit leaves the queue; the
  hook serves the tasks behind it.\<close>

lemma sem_leave_weak:
  assumes ok: "sem_ok s" and t: "t \<in> set (que s (WaitQ OSem i))"
    and k: "kinv s'" and q: "\<And>j. que s' (WaitQ OSem j) = removeAll t (que s (WaitQ OSem j))"
    and v: "\<And>u. winfo (tcbs s' u) = winfo (tcbs s u)" "\<And>u. wspec (tcbs s' u) = wspec (tcbs s u)"
    and m: "semcb_table s' = semcb_table s" "free_semcb s' = free_semcb s" "max_semid s' = max_semid s"
  shows "sem_weak i s'"
    "sem_exists i s' \<Longrightarrow> has (sematr (semcb_table s' i)) TA_CNT \<Longrightarrow> sem_obj_settled i s'"
proof -
  have ex: "sem_exists j s' = sem_exists j s" for j by (simp add: sem_exists_def m)
  have same: "que s' (WaitQ OSem j) = que s (WaitQ OSem j)" if "j \<noteq> i" for j
  proof -
    have "t \<notin> set (que s (WaitQ OSem j))"
      using t that que_okD [OF kinv_xD(2) [OF sem_okD(1) [OF ok]], of t "WaitQ OSem j" "WaitQ OSem i"]
      by auto
    then show ?thesis by (simp add: q)
  qed
  have "sem_obj_pre j s \<Longrightarrow> sem_obj_pre j s'" for j
    unfolding sem_obj_pre_def Let_def m q v by auto
  moreover have "sem_obj_settled j s' = sem_obj_settled j s" if "j \<noteq> i" for j
    unfolding sem_obj_settled_def m same [OF that] by (simp add: sem_reqs_def v)
  ultimately show "sem_weak i s'"
    using ok k unfolding sem_ok_weak [of s i] sem_weak_def ex m by (auto simp: q)
  show "sem_obj_settled i s'" if "sem_exists i s'" "has (sematr (semcb_table s' i)) TA_CNT"
    using sem_okD(4) [OF ok, of i] that
    unfolding sem_obj_ok_def sem_obj_settled_def ex m q
    by (auto simp: sem_no_lost_def sem_reqs_def v)
qed

text \<open>The calls of the hooks of this component through the wait specification.\<close>

definition sem_rel_hook :: "hook \<Rightarrow> ID \<Rightarrow> 'a sem_st_scheme \<Rightarrow> 'a sem_st_scheme" where
  "sem_rel_hook h t s = (if h = H_sem_rel_wai then sem_rel_wai t s else s)"

definition sem_chg_hook :: "hook \<Rightarrow> ID \<Rightarrow> int \<Rightarrow> 'a sem_st_scheme \<Rightarrow> 'a sem_st_scheme" where
  "sem_chg_hook h t old s = (if h = H_sem_chg_pri then sem_chg_pri t old s else s)"

lemma sem_weak_exists: "sem_ok s \<Longrightarrow> t \<in> set (que s (WaitQ OSem i)) \<Longrightarrow> sem_exists i s"
  using sem_okD(5) [of s i] by (cases "sem_exists i s") auto

lemma set_wercd_sem_ok [simp]: "sem_ok (set_wercd t e s) = sem_ok s"
  unfolding sem_ok_def sem_exists_def sem_obj_ok_def sem_obj_pre_def sem_obj_settled_def sem_reqs_def
  by simp

theorem sem_wait_release_ng_ok:
  assumes ok: "sem_ok s" and t: "t \<in> set (que s (WaitQ OSem i))"
  shows "sem_ok (wait_release_ng sem_rel_hook t e s)"
proof -
  let ?s1 = "wait_release t s"
  note k = sem_okD(1) [OF ok]
  have w: "in_wait (tstate (tcbs s t))" "wid (tcbs s t) = i" using kinv_xD(5) [OF k t] by auto
  have h: "rel_wai_hook (wspec (tcbs s t)) = Some H_sem_rel_wai"
    using sem_obj_preD(6) [of i s t] sem_okD(4) [OF ok sem_weak_exists [OF ok t]] t
    by (simp add: sem_obj_ok_def)
  note lv = sem_leave_weak [OF ok t wait_release_kinv_x [OF k w(1)] wait_release_que [OF k w(1)]]
  have "sem_ok (sem_chg_pri t (-1) ?s1)"
    by (rule sem_chg_pri_ok [where i = i]) (use lv w in simp_all)
  then show ?thesis by (simp add: wait_release_ng_def Let_def h sem_rel_hook_def sem_rel_wai_def)
qed

theorem sem_wait_release_tmout_ok:
  assumes ok: "sem_ok s" and t: "t \<in> set (que s (WaitQ OSem i))"
  shows "sem_ok (wait_release_tmout sem_rel_hook t s)"
proof -
  let ?s1 = "make_non_wait t (que_remove t s)"
  note k = sem_okD(1) [OF ok]
  have w: "in_wait (tstate (tcbs s t))" "wid (tcbs s t) = i" using kinv_xD(5) [OF k t] by auto
  have k0: "kinv (que_remove t s)" using k w by (intro que_remove_kinv_x) (auto dest: in_wait_not_ready)
  have k1: "kinv ?s1" using w by (intro make_non_wait_kinv_x [OF k0]) simp_all
  have q: "que ?s1 (WaitQ OSem j) = removeAll t (que s (WaitQ OSem j))" for j
    using make_ready_que [OF k0, of t] by (simp add: make_non_wait_def)
  have m: "semcb_table ?s1 = semcb_table s" "free_semcb ?s1 = free_semcb s" "max_semid ?s1 = max_semid s"
    by (rule sem_more, simp)+
  have h: "rel_wai_hook (wspec (tcbs s t)) = Some H_sem_rel_wai"
    using sem_obj_preD(6) [of i s t] sem_okD(4) [OF ok sem_weak_exists [OF ok t]] t
    by (simp add: sem_obj_ok_def)
  note lv = sem_leave_weak [OF ok t k1 q _ _ m]
  have "sem_ok (sem_chg_pri t (-1) ?s1)"
    by (rule sem_chg_pri_ok [where i = i]) (use lv w in simp_all)
  then show ?thesis by (simp add: wait_release_tmout_def Let_def h sem_rel_hook_def sem_rel_wai_def)
qed


section \<open>The component as a system of steps\<close>

lemma sem_ok_priority:
  assumes ok: "sem_ok s" and t: "t \<in> set (que s (WaitQ OSem i))" and p: "pri < NUM_PRI"
  shows "sem_ok (change_task_priority sem_chg_hook t pri s)"
proof -
  let ?s1 = "tcb_upd t (\<lambda>c. c\<lparr>priority := pri\<rparr>) s"
  note k = sem_okD(1) [OF ok] and ex = sem_weak_exists [OF ok t]
  have w: "in_wait (tstate (tcbs s t))" "wid (tcbs s t) = i" using kinv_xD(5) [OF k t] by auto
  have nr: "tstate (tcbs s t) \<noteq> TS_READY" by (rule in_wait_not_ready [OF w(1)])
  have h: "chg_pri_hook (wspec (tcbs s t)) =
      (if has (sematr (semcb_table s i)) TA_TPRI then Some H_sem_chg_pri else None)"
    using sem_obj_preD(7) [of i s t] sem_okD(4) [OF ok ex] t by (simp add: sem_obj_ok_def)
  have k1: "kinv ?s1"
    by (rule set_priority_wait_kinv_x [OF k nr p])
  have ok1: "sem_ok ?s1"
    by (rule semo.same [OF ok k1]) (simp_all add: same_waits_def)
  have "sem_ok (sem_chg_pri t (int (priority (tcbs s t))) ?s1)"
    using ok1 w t ex by (intro sem_chg_pri_ok [where i = i])
      (simp_all add: sem_ok_weak [of ?s1 i] sem_exists_def)
  then show ?thesis
    using nr w ok1 by (simp add: change_task_priority_def Let_def h sem_chg_hook_def)
qed

text \<open>
  Every call of the component, the release of a waiting task by another call or by its time
  limit, a change of the priority of a waiting task, and the dispatcher. A call that may wait is
  made by a task that runs.
\<close>

inductive sem_step :: "'a sem_st_scheme \<Rightarrow> 'a sem_st_scheme \<Rightarrow> bool" where
  cre: "sem_step s (snd (tk_cre_sem pk s))"
| del: "sem_step s (snd (tk_del_sem i s))"
| sig: "sem_step s (snd (tk_sig_sem i cnt s))"
| wai: "in_ddsp s \<or> running (me s) s \<Longrightarrow> sem_step s (snd (tk_wai_sem i cnt tmout s))"
| wai_u: "in_ddsp s \<or> running (me s) s \<Longrightarrow> sem_step s (snd (tk_wai_sem_u i cnt tmout s))"
| release: "t \<in> set (que s (WaitQ OSem i)) \<Longrightarrow> sem_step s (wait_release_ng sem_rel_hook t e s)"
| timeout: "t \<in> set (que s (WaitQ OSem i)) \<Longrightarrow> sem_step s (wait_release_tmout sem_rel_hook t s)"
| chg_pri: "t \<in> set (que s (WaitQ OSem i)) \<Longrightarrow> pri < NUM_PRI \<Longrightarrow>
    sem_step s (change_task_priority sem_chg_hook t pri s)"
| dispatch: "sem_step s (s\<lparr>ctxtsk := schedtsk s\<rparr>)"

lemma sem_ok_dispatch: "sem_ok s \<Longrightarrow> sem_ok (s\<lparr>ctxtsk := t\<rparr>)"
  by (rule semo.same [of s]) (simp_all add: sem_okD same_waits_def)

lemma sem_step_ok: "sem_step s s' \<Longrightarrow> sem_ok s \<Longrightarrow> sem_ok s'"
  by (induction rule: sem_step.induct)
    (auto simp: tk_cre_sem_ok tk_del_sem_ok tk_sig_sem_ok tk_wai_sem_u_ok tk_wai_sem_def
      sem_wait_release_ng_ok sem_wait_release_tmout_ok sem_ok_priority sem_ok_dispatch)

lemma sem_steps_ok: "sem_step\<^sup>*\<^sup>* s s' \<Longrightarrow> sem_ok s \<Longrightarrow> sem_ok s'"
  by (induction rule: rtranclp_induct) (auto intro: sem_step_ok)

section \<open>What the calls do\<close>

text \<open>Signal: the counts go to the tasks \<open>sem_grant\<close> names, which return \<open>E_OK\<close>; what is not
  handed out stays.\<close>

lemma tk_sig_sem_effect:
  fixes s :: "'a sem_st_scheme"
  assumes ok: "sem_ok s" and ex: "sem_exists i s" and n: "cnt > 0"
    and mx: "semcnt (semcb_table s i) + cnt \<le> maxsem (semcb_table s i)"
  defines "q \<equiv> que s (WaitQ OSem i)"
  defines "G \<equiv> sem_grant (has (sematr (semcb_table s i)) TA_CNT) (semcnt (semcb_table s i) + cnt)
    (sem_reqs s q)"
  defines "s' \<equiv> snd (tk_sig_sem i cnt s)"
  shows "fst (tk_sig_sem i cnt s) = E_OK"
    "que s' (WaitQ OSem i) = filter (\<lambda>t. t \<notin> set G) q"
    "semcnt (semcb_table s' i) + granted_sum G (sem_reqs s q) = semcnt (semcb_table s i) + cnt"
    "t \<in> set G \<Longrightarrow> tstate (tcbs s' t) = released (tstate (tcbs s t)) \<and> wercd (tcbs s' t) = E_OK"
    "t \<notin> set G \<Longrightarrow> tstate (tcbs s' t) = tstate (tcbs s t) \<and> wercd (tcbs s' t) = wercd (tcbs s t)"
    "set G \<subseteq> set q"
    "sched_ok s \<Longrightarrow> sched_ok s'"
proof -
  let ?s1 = "upd_semcb i (\<lambda>c. c\<lparr>semcnt := semcnt c + cnt\<rparr>) s"
  note p = sem_obj_preD [of i s]
  have pre: "sem_obj_pre i s" using sem_okD(4) [OF ok ex] by (simp add: sem_obj_ok_def)
  have r: "sem_reqs ?s1 = sem_reqs s" by (simp add: sem_reqs_def fun_eq_iff)
  have e: "tk_sig_sem i cnt s = (E_OK, fold (sem_take i) G ?s1)"
    using ex n mx by (simp add: tk_sig_sem_def sem_exists_def sig_sem_loop_eq r G_def q_def)
  have k1: "kinv ?s1" using sem_okD(1) [OF ok] by simp
  have a1: "0 \<le> semcnt (semcb_table ?s1 i)" using p(2) [OF pre] n by simp
  have pos1: "\<And>t. t \<in> set (que ?s1 (WaitQ OSem i)) \<Longrightarrow> 0 < sem_cnt (winfo (tcbs ?s1 t))"
    using p(4) [OF pre] by simp
  note g = grant_all [OF k1 a1 pos1, where c = "has (sematr (semcb_table s i)) TA_CNT",
      unfolded r, simplified upd_semcb_sel, folded q_def, simplified, folded G_def]
  have s': "s' = fold (sem_take i) G ?s1" by (simp add: s'_def e)
  show "fst (tk_sig_sem i cnt s) = E_OK" by (simp add: e)
  show "que s' (WaitQ OSem i) = filter (\<lambda>t. t \<notin> set G) q" using g(2) by (simp add: s')
  show "semcnt (semcb_table s' i) + granted_sum G (sem_reqs s q) = semcnt (semcb_table s i) + cnt"
    using g(5) by (simp add: s')
  show "t \<in> set G \<Longrightarrow> tstate (tcbs s' t) = released (tstate (tcbs s t)) \<and> wercd (tcbs s' t) = E_OK"
    "t \<notin> set G \<Longrightarrow> tstate (tcbs s' t) = tstate (tcbs s t) \<and> wercd (tcbs s' t) = wercd (tcbs s t)"
    using g(15,16) [of t] by (simp_all add: s')
  show "set G \<subseteq> set q" using g(17) .
  show "sched_ok s \<Longrightarrow> sched_ok s'" using g(13) by (simp add: s')
qed

text \<open>Delete: every waiting task returns \<open>E_DLT\<close>.\<close>

lemma tk_del_sem_effect:
  assumes ok: "sem_ok s" and ex: "sem_exists i s"
  shows "fst (tk_del_sem i s) = E_OK" "\<not> sem_exists i (snd (tk_del_sem i s))"
    "que (snd (tk_del_sem i s)) (WaitQ OSem i) = []"
    "t \<in> set (que s (WaitQ OSem i)) \<Longrightarrow>
       tstate (tcbs (snd (tk_del_sem i s)) t) = released (tstate (tcbs s t)) \<and>
       wercd (tcbs (snd (tk_del_sem i s)) t) = E_DLT"
    "free_semcb (snd (tk_del_sem i s)) = free_semcb s @ [i]"
  using wait_delete_spec [OF sem_okD(1) [OF ok], of OSem i] ex
  by (auto simp: tk_del_sem_def Let_def sem_exists_def)

end
