(* ===== verification/Eventflag.thy ===== *)
theory Eventflag
  imports Semaphore
begin

text \<open>
  Event flags (\<open>eventflag.c\<close>). The wait queue of event flag \<open>i\<close> is \<open>WaitQ OFlg i\<close>. \<open>flg_ok\<close> is
  the invariant: no task waits for a condition that holds. The loop of \<open>tk_set_flg\<close> is shown to
  be the list function \<open>flg_serve\<close>, which says which tasks are released, with which pattern,
  and which bits remain.
\<close>

section \<open>Control blocks and operations\<close>

definition TWF_ORW :: UINT where "TWF_ORW = 0x00000001"
definition TWF_CLR :: UINT where "TWF_CLR = 0x00000010"
definition TWF_BITCLR :: UINT where "TWF_BITCLR = 0x00000020"

record flgcb =
  flgid :: ID
  flg_exinf :: addr
  flgatr :: ATR
  flgptn :: UINT
  flg_name :: "UB list"

record flg_st = sem_st +
  flgcb_table :: "ID \<Rightarrow> flgcb"
  free_flgcb :: "ID list"
  max_flgid :: ID

record t_cflg =
  cf_exinf :: addr
  cf_flgatr :: ATR
  cf_iflgptn :: UINT
  cf_dsname :: "UB list"

record t_rflg =
  rf_exinf :: addr
  rf_wtsk :: ID
  rf_flgptn :: UINT

definition upd_flgcb :: "ID \<Rightarrow> (flgcb \<Rightarrow> flgcb) \<Rightarrow> 'a flg_st_scheme \<Rightarrow> 'a flg_st_scheme" where
  "upd_flgcb i f s = s\<lparr>flgcb_table := (flgcb_table s)(i := f (flgcb_table s i))\<rparr>"

definition eventflag_initialize :: "int \<times> int \<Rightarrow> bool \<Rightarrow> 'a flg_st_scheme \<Rightarrow> ER \<times> 'a flg_st_scheme" where
  "eventflag_initialize cfn malloc_ok s =
     (let s1 = s\<lparr>max_flgid := snd cfn\<rparr>
      in if fst cfn < 1 \<or> max_flgid s1 < 1 then (E_SYS, s1)
         else if \<not> malloc_ok then (E_NOMEM, s1)
         else (E_OK, fold (\<lambda>i s. (upd_flgcb i (\<lambda>c. c\<lparr>flgid := 0\<rparr>) s)\<lparr>free_flgcb := free_flgcb s @ [i]\<rparr>)
                       [1..max_flgid s1] (s1\<lparr>free_flgcb := []\<rparr>)))"

definition eventflag_cond :: "UINT \<Rightarrow> UINT \<Rightarrow> UINT \<Rightarrow> bool" where
  "eventflag_cond ptn waiptn wfmode =
     (if has wfmode TWF_ORW then ptn AND waiptn \<noteq> 0 else ptn AND waiptn = waiptn)"

definition flg_chg_pri :: "ID \<Rightarrow> int \<Rightarrow> 'a flg_st_scheme \<Rightarrow> 'a flg_st_scheme" where
  "flg_chg_pri t oldpri s = gcb_change_priority (WaitQ OFlg (wid (tcbs s t))) t s"

definition wspec_flg_tfifo :: wspec where
  "wspec_flg_tfifo = \<lparr>tskwait = TTW_FLG, chg_pri_hook = None, rel_wai_hook = None\<rparr>"

definition wspec_flg_tpri :: wspec where
  "wspec_flg_tpri = \<lparr>tskwait = TTW_FLG, chg_pri_hook = Some H_flg_chg_pri, rel_wai_hook = None\<rparr>"

definition VALID_FLGATR :: ATR where
  "VALID_FLGATR = TA_TPRI OR TA_WMUL OR TA_NODISWAI OR TA_DSNAME"

definition tk_cre_flg :: "t_cflg \<Rightarrow> 'a flg_st_scheme \<Rightarrow> ER \<times> 'a flg_st_scheme" where
  "tk_cre_flg pk s =
     (if \<not> chk_rsatr (cf_flgatr pk) VALID_FLGATR then (E_RSATR, s)
      else (case free_flgcb s of
              [] \<Rightarrow> (E_LIMIT, s)
            | i # free \<Rightarrow>
                let s1 = upd_flgcb i (\<lambda>c. c\<lparr>flgid := i, flg_exinf := cf_exinf pk,
                           flgatr := cf_flgatr pk, flgptn := cf_iflgptn pk\<rparr>)
                           (s\<lparr>free_flgcb := free\<rparr>);
                    s2 = (if has (cf_flgatr pk) TA_DSNAME
                          then upd_flgcb i (\<lambda>c. c\<lparr>flg_name :=
                                 tkl_strncpy (cf_dsname pk) OBJECT_NAME_LENGTH\<rparr>) s1
                          else s1)
                in (i, s2)))"

definition tk_del_flg :: "ID \<Rightarrow> 'a flg_st_scheme \<Rightarrow> ER \<times> 'a flg_st_scheme" where
  "tk_del_flg i s =
     (if \<not> chk_id (max_flgid s) i then (E_ID, s)
      else if flgid (flgcb_table s i) = 0 then (E_NOEXS, s)
      else
        (let s1 = wait_delete OFlg i s;
             s2 = s1\<lparr>free_flgcb := free_flgcb s1 @ [i]\<rparr>
         in (E_OK, upd_flgcb i (\<lambda>c. c\<lparr>flgid := 0\<rparr>) s2)))"

text \<open>The body of the loop of \<open>_tk_set_flg\<close> up to the release: the pattern is stored for the task.\<close>

definition flg_release :: "UINT \<Rightarrow> ID \<Rightarrow> 'a flg_st_scheme \<Rightarrow> 'a flg_st_scheme" where
  "flg_release ptn t s =
     wait_release_ok t
       (s\<lparr>mem_uint := (mem_uint s)(flg_p_flgptn (winfo (tcbs s t)) := ptn)\<rparr>)"

fun set_flg_loop :: "ID \<Rightarrow> ID list \<Rightarrow> 'a flg_st_scheme \<Rightarrow> 'a flg_st_scheme" where
  "set_flg_loop i [] s = s"
| "set_flg_loop i (t # queue) s =
     (let waiptn = flg_waiptn (winfo (tcbs s t)); wfmode = flg_wfmode (winfo (tcbs s t))
      in if eventflag_cond (flgptn (flgcb_table s i)) waiptn wfmode then
           (let s1 = flg_release (flgptn (flgcb_table s i)) t s;
                s2 = (if has wfmode TWF_BITCLR
                      then upd_flgcb i (\<lambda>c. c\<lparr>flgptn := flgptn c AND NOT waiptn\<rparr>) s1 else s1)
            in if has wfmode TWF_BITCLR \<and> flgptn (flgcb_table s2 i) = 0 then s2
               else if has wfmode TWF_CLR then upd_flgcb i (\<lambda>c. c\<lparr>flgptn := 0\<rparr>) s2
               else set_flg_loop i queue s2)
         else set_flg_loop i queue s)"

definition tk_set_flg :: "ID \<Rightarrow> UINT \<Rightarrow> 'a flg_st_scheme \<Rightarrow> ER \<times> 'a flg_st_scheme" where
  "tk_set_flg i setptn s =
     (if \<not> chk_id (max_flgid s) i then (E_ID, s)
      else if flgid (flgcb_table s i) = 0 then (E_NOEXS, s)
      else
        (let s1 = upd_flgcb i (\<lambda>c. c\<lparr>flgptn := flgptn c OR setptn\<rparr>) s
         in (E_OK, set_flg_loop i (que s1 (WaitQ OFlg i)) s1)))"

definition tk_clr_flg :: "ID \<Rightarrow> UINT \<Rightarrow> 'a flg_st_scheme \<Rightarrow> ER \<times> 'a flg_st_scheme" where
  "tk_clr_flg i clrptn s =
     (if \<not> chk_id (max_flgid s) i then (E_ID, s)
      else if flgid (flgcb_table s i) = 0 then (E_NOEXS, s)
      else (E_OK, upd_flgcb i (\<lambda>c. c\<lparr>flgptn := flgptn c AND clrptn\<rparr>) s))"

definition tk_wai_flg_u ::
  "ID \<Rightarrow> UINT \<Rightarrow> UINT \<Rightarrow> addr \<Rightarrow> int \<Rightarrow> 'a flg_st_scheme \<Rightarrow> sysret \<times> 'a flg_st_scheme" where
  "tk_wai_flg_u i waiptn wfmode p_flgptn tmout s =
     (if \<not> chk_id (max_flgid s) i then (Ret E_ID, s)
      else if \<not> waiptn \<noteq> 0 then (Ret E_PAR, s)
      else if \<not> wfmode AND NOT (TWF_ORW OR TWF_CLR OR TWF_BITCLR) = 0 then (Ret E_PAR, s)
      else if \<not> chk_tmout tmout then (Ret E_PAR, s)
      else if in_ddsp s then (Ret E_CTX, s)
      else
        (let t = me s; cb = flgcb_table s i
         in if flgid cb = 0 then (Ret E_NOEXS, s)
            else if \<not> has (flgatr cb) TA_WMUL \<and> que s (WaitQ OFlg i) \<noteq> [] then (Ret E_OBJ, s)
            else if is_diswai (flgatr cb) t TTW_FLG s then (Ret E_DISWAI, s)
            else if eventflag_cond (flgptn cb) waiptn wfmode then
              (let s1 = s\<lparr>mem_uint := (mem_uint s)(p_flgptn := flgptn cb)\<rparr>;
                   s2 = (if has wfmode TWF_BITCLR
                         then upd_flgcb i (\<lambda>c. c\<lparr>flgptn := flgptn c AND NOT waiptn\<rparr>) s1 else s1);
                   s3 = (if has wfmode TWF_CLR then upd_flgcb i (\<lambda>c. c\<lparr>flgptn := 0\<rparr>) s2 else s2)
               in (Ret E_OK, s3))
            else
              (let s2 = call_wait OFlg i (flgatr cb) tmout
                     (if has (flgatr cb) TA_TPRI then wspec_flg_tpri else wspec_flg_tfifo)
                     (WI_flg waiptn wfmode p_flgptn) s
               in (wait_ret s2, s2))))"

definition tk_wai_flg ::
  "ID \<Rightarrow> UINT \<Rightarrow> UINT \<Rightarrow> addr \<Rightarrow> int \<Rightarrow> 'a flg_st_scheme \<Rightarrow> sysret \<times> 'a flg_st_scheme" where
  "tk_wai_flg i waiptn wfmode p_flgptn tmout s =
     tk_wai_flg_u i waiptn wfmode p_flgptn (to_usec_tmo tmout) s"

definition tk_ref_flg :: "ID \<Rightarrow> 'a flg_st_scheme \<Rightarrow> ER \<times> t_rflg option" where
  "tk_ref_flg i s =
     (if \<not> chk_id (max_flgid s) i then (E_ID, None)
      else if flgid (flgcb_table s i) = 0 then (E_NOEXS, None)
      else (E_OK, Some \<lparr>rf_exinf = flg_exinf (flgcb_table s i), rf_wtsk = wait_tskid (WaitQ OFlg i) s,
                        rf_flgptn = flgptn (flgcb_table s i)\<rparr>))"

definition eventflag_getname :: "ID \<Rightarrow> 'a flg_st_scheme \<Rightarrow> ER \<times> UB list option" where
  "eventflag_getname i s =
     (if \<not> chk_id (max_flgid s) i then (E_ID, None)
      else if flgid (flgcb_table s i) = 0 then (E_NOEXS, None)
      else if \<not> has (flgatr (flgcb_table s i)) TA_DSNAME then (E_OBJ, None)
      else (E_OK, Some (flg_name (flgcb_table s i))))"

definition td_lst_flg :: "int \<Rightarrow> 'a flg_st_scheme \<Rightarrow> int \<times> ID list" where
  "td_lst_flg nent s =
     (let ids = filter (\<lambda>j. flgid (flgcb_table s j) \<noteq> 0) [1..max_flgid s]
      in (int (length ids), take (nat nent) (map (\<lambda>j. flgid (flgcb_table s j)) ids)))"

definition td_ref_flg :: "ID \<Rightarrow> 'a flg_st_scheme \<Rightarrow> ER \<times> t_rflg option" where
  "td_ref_flg i s =
     (if \<not> chk_id (max_flgid s) i then (E_ID, None)
      else if flgid (flgcb_table s i) = 0 then (E_NOEXS, None)
      else (E_OK, Some \<lparr>rf_exinf = flg_exinf (flgcb_table s i), rf_wtsk = wait_tskid (WaitQ OFlg i) s,
                        rf_flgptn = flgptn (flgcb_table s i)\<rparr>))"

definition td_flg_que :: "ID \<Rightarrow> int \<Rightarrow> 'a flg_st_scheme \<Rightarrow> int \<times> ID list" where
  "td_flg_que i nent s =
     (if \<not> chk_id (max_flgid s) i then (E_ID, [])
      else if flgid (flgcb_table s i) = 0 then (E_NOEXS, [])
      else (let xs = que s (WaitQ OFlg i) in (int (length xs), take (nat nent) xs)))"

lemma flg_more:
  assumes "kst.more s' = kst.more s"
  shows "flgcb_table s' = flgcb_table s"
    "free_flgcb s' = free_flgcb s"
    "max_flgid s' = max_flgid s"
  using assms by (cases s; cases s'; simp add: flg_st.defs)+

lemma flg_frame [simp]:
  "flgcb_table (call_wait kd i atr tmo w wi s) = flgcb_table s" "free_flgcb (call_wait kd i atr tmo w wi s) = free_flgcb s" "max_flgid (call_wait kd i atr tmo w wi s) = max_flgid s"
  "flgcb_table (set_wercd t e s) = flgcb_table s" "free_flgcb (set_wercd t e s) = free_flgcb s" "max_flgid (set_wercd t e s) = max_flgid s"
  "flgcb_table (tcb_upd t f s) = flgcb_table s" "free_flgcb (tcb_upd t f s) = free_flgcb s" "max_flgid (tcb_upd t f s) = max_flgid s"
  "flgcb_table (que_remove t s) = flgcb_table s" "free_flgcb (que_remove t s) = free_flgcb s" "max_flgid (que_remove t s) = max_flgid s"
  "flgcb_table (wait_release t s) = flgcb_table s" "free_flgcb (wait_release t s) = free_flgcb s" "max_flgid (wait_release t s) = max_flgid s"
  "flgcb_table (wait_release_ok t s) = flgcb_table s" "free_flgcb (wait_release_ok t s) = free_flgcb s" "max_flgid (wait_release_ok t s) = max_flgid s"
  "flgcb_table (wait_release_ok_ercd t e s) = flgcb_table s" "free_flgcb (wait_release_ok_ercd t e s) = free_flgcb s" "max_flgid (wait_release_ok_ercd t e s) = max_flgid s"
  "flgcb_table (queue_insert_tpri t q s) = flgcb_table s" "free_flgcb (queue_insert_tpri t q s) = free_flgcb s" "max_flgid (queue_insert_tpri t q s) = max_flgid s"
  "flgcb_table (gcb_change_priority q t s) = flgcb_table s" "free_flgcb (gcb_change_priority q t s) = free_flgcb s" "max_flgid (gcb_change_priority q t s) = max_flgid s"
  "flgcb_table (gcb_make_wait k i a tmo s) = flgcb_table s" "free_flgcb (gcb_make_wait k i a tmo s) = free_flgcb s" "max_flgid (gcb_make_wait k i a tmo s) = max_flgid s"
  "flgcb_table (gcb_make_wait_with_diswai k i a tmo s) = flgcb_table s" "free_flgcb (gcb_make_wait_with_diswai k i a tmo s) = free_flgcb s" "max_flgid (gcb_make_wait_with_diswai k i a tmo s) = max_flgid s"
  "flgcb_table (wait_delete k i s) = flgcb_table s" "free_flgcb (wait_delete k i s) = free_flgcb s" "max_flgid (wait_delete k i s) = max_flgid s"
  "flgcb_table (make_wait tmo a s) = flgcb_table s" "free_flgcb (make_wait tmo a s) = free_flgcb s" "max_flgid (make_wait tmo a s) = max_flgid s"
  "flgcb_table (make_wait_reltim rt a s) = flgcb_table s" "free_flgcb (make_wait_reltim rt a s) = free_flgcb s" "max_flgid (make_wait_reltim rt a s) = max_flgid s"
  by (rule flg_more; simp add: gcb_change_priority_frame)+

lemma upd_flgcb_sel [simp]:
  "flgcb_table (upd_flgcb i f s) j = (if j = i then f (flgcb_table s i) else flgcb_table s j)"
  "free_flgcb (upd_flgcb i f s) = free_flgcb s" "max_flgid (upd_flgcb i f s) = max_flgid s"
  "tcbs (upd_flgcb i f s) = tcbs s" "que (upd_flgcb i f s) = que s"
  "ctxtsk (upd_flgcb i f s) = ctxtsk s" "mem_uint (upd_flgcb i f s) = mem_uint s"
  by (simp_all add: upd_flgcb_def)

lemma kinv_flg_upd [simp]:
  "kinv_x X (upd_flgcb i f s) = kinv_x X s" "sched_ok (upd_flgcb i f s) = sched_ok s"
  "kinv_x X (s\<lparr>free_flgcb := fr\<rparr>) = kinv_x X s" "sched_ok (s\<lparr>free_flgcb := fr\<rparr>) = sched_ok s"
  "running t (upd_flgcb i f s) = running t s"
  by (simp_all add: upd_flgcb_def kinv_x_def rdq_ok_def running_def) (rule sched_ok_cong, simp_all)+

section \<open>The loop of \<open>tk_set_flg\<close>\<close>

lemma cond_zero [simp]: "w \<noteq> 0 \<Longrightarrow> \<not> eventflag_cond 0 w m"
  by (simp add: eventflag_cond_def)

text \<open>Clearing bits never makes a condition true.\<close>

lemma cond_mono:
  assumes sub: "q AND p = q" and c: "eventflag_cond q w m"
  shows "eventflag_cond p w m"
proof (cases "has m TWF_ORW")
  case True
  have "q AND w = q AND (p AND w)" using sub and.assoc [of q p w] by simp
  then have "p AND w = 0 \<Longrightarrow> q AND w = 0" by simp
  then show ?thesis using True c by (auto simp: eventflag_cond_def)
next
  case False
  then have q: "q AND w = w" using c by (simp add: eventflag_cond_def)
  have "p AND w = p AND (q AND w)" by (simp only: q)
  also have "\<dots> = (q AND p) AND w" by (simp only: ac_simps)
  also have "\<dots> = w" by (simp only: sub q)
  finally show ?thesis using False by (simp add: eventflag_cond_def)
qed

lemma and_sub_trans: "r AND q = r \<Longrightarrow> q AND p = q \<Longrightarrow> r AND p = (r :: 'a::len word)"
  by (metis and.assoc)

lemma and_not_sub: "(p AND NOT w) AND p = p AND NOT (w :: 'a::len word)"
  by (metis and.assoc and.commute and.idem)

text \<open>A grant is a task, the pattern it is given and the pattern that is left.\<close>

fun flg_serve :: "UINT \<Rightarrow> (ID \<times> UINT \<times> UINT) list \<Rightarrow> (ID \<times> UINT \<times> UINT) list" where
  "flg_serve p [] = []"
| "flg_serve p ((t, w, m) # xs) =
     (if eventflag_cond p w m then
        (let q = (if has m TWF_BITCLR then p AND NOT w else p)
         in if has m TWF_BITCLR \<and> q = 0 then [(t, p, q)]
            else if has m TWF_CLR then [(t, p, 0)]
            else (t, p, q) # flg_serve q xs)
      else flg_serve p xs)"

definition served_left :: "UINT \<Rightarrow> (ID \<times> UINT \<times> UINT) list \<Rightarrow> UINT" where
  "served_left p G = (if G = [] then p else snd (snd (last G)))"

lemma served_left_Nil [simp]: "served_left p [] = p"
  by (simp add: served_left_def)

lemma served_left_Cons [simp]: "served_left p ((t, a, q) # G) = served_left q G"
  by (simp add: served_left_def)

lemma flg_serve_subset: "fst ` set (flg_serve p xs) \<subseteq> fst ` set xs"
  by (induction p xs rule: flg_serve.induct) (simp_all add: Let_def subset_insertI2)

lemma flg_serve_distinct: "distinct (map fst xs) \<Longrightarrow> distinct (map fst (flg_serve p xs))"
proof (induction p xs rule: flg_serve.induct)
  case (2 p t w m xs)
  have nt: "t \<notin> fst ` set (flg_serve q xs)" for q
    using "2.prems" flg_serve_subset [of q xs] by auto
  show ?case using 2 nt by (auto simp: Let_def)
qed simp

lemma flg_serve_left: "served_left p (flg_serve p xs) AND p = served_left p (flg_serve p xs)"
proof (induction p xs rule: flg_serve.induct)
  case (2 p t w m xs)
  then show ?case
    by (auto simp: Let_def and_not_sub intro: and_sub_trans [OF _ and_not_sub])
qed simp

text \<open>Every task is given a pattern that satisfied its condition, and no condition of a task
  that is left behind holds.\<close>

lemma flg_serve_cond:
  "distinct (map fst xs) \<Longrightarrow> (t, a, q) \<in> set (flg_serve p xs) \<Longrightarrow> (t, w, m) \<in> set xs \<Longrightarrow>
   eventflag_cond a w m"
proof (induction p xs rule: flg_serve.induct)
  case (2 p t' w' m' xs)
  have nt: "(t', b, c) \<notin> set (flg_serve q xs)" for q b c
    using "2.prems"(1) flg_serve_subset [of q xs] by force
  have nx: "(t', b, c) \<notin> set xs" for b c using "2.prems"(1) by force
  show ?case using 2 nt nx by (auto simp: Let_def split: if_splits)
qed simp

lemma flg_serve_rest:
  "distinct (map fst xs) \<Longrightarrow> \<forall>(t, w, m) \<in> set xs. w \<noteq> 0 \<Longrightarrow> (t, w, m) \<in> set xs \<Longrightarrow>
   t \<notin> fst ` set (flg_serve p xs) \<Longrightarrow> \<not> eventflag_cond (served_left p (flg_serve p xs)) w m"
proof (induction p xs rule: flg_serve.induct)
  case (2 p t' w' m' xs)
  have nx: "(t', b, c) \<notin> set xs" for b c using "2.prems"(1) by force
  have wz: "w \<noteq> 0" using "2.prems"(2,3) by auto
  show ?case
  proof (cases "t = t'")
    case True
    then have e: "w = w'" "m = m'" using "2.prems"(3) nx by auto
    have nc: "\<not> eventflag_cond p w m" using "2.prems"(4) True e by (auto simp: Let_def split: if_splits)
    have "served_left p (flg_serve p xs) AND p = served_left p (flg_serve p xs)" by (rule flg_serve_left)
    then have "\<not> eventflag_cond (served_left p (flg_serve p xs)) w m" using cond_mono nc by blast
    then show ?thesis using nc e by simp
  next
    case False
    then have x: "(t, w, m) \<in> set xs" using "2.prems"(3) by auto
    show ?thesis using 2 x wz by (auto simp: Let_def split: if_splits)
  qed
qed simp

definition flg_reqs :: "'a flg_st_scheme \<Rightarrow> ID list \<Rightarrow> (ID \<times> UINT \<times> UINT) list" where
  "flg_reqs s ts = map (\<lambda>t. (t, flg_waiptn (winfo (tcbs s t)), flg_wfmode (winfo (tcbs s t)))) ts"

definition flg_step :: "ID \<Rightarrow> ID \<times> UINT \<times> UINT \<Rightarrow> 'a flg_st_scheme \<Rightarrow> 'a flg_st_scheme" where
  "flg_step i x s = upd_flgcb i (\<lambda>c. c\<lparr>flgptn := snd (snd x)\<rparr>) (flg_release (fst (snd x)) (fst x) s)"

lemma flg_release_sel [simp]:
  "flgcb_table (flg_release p t s) = flgcb_table s" "free_flgcb (flg_release p t s) = free_flgcb s"
  "max_flgid (flg_release p t s) = max_flgid s" "ctxtsk (flg_release p t s) = ctxtsk s"
  by (simp_all add: flg_release_def)

interpretation flgt: release_step fst "flg_step fid" E_OK for fid
proof unfold_locales
  fix X and s :: "'a flg_st_scheme" and x :: "ID \<times> UINT \<times> UINT"
  assume k: "kinv_x X s" and w: "in_wait (tstate (tcbs s (fst x)))"
  let ?s = "s\<lparr>mem_uint := (mem_uint s)(flg_p_flgptn (winfo (tcbs s (fst x))) := fst (snd x))\<rparr>"
  have k': "kinv_x X ?s" and w': "in_wait (tstate (tcbs ?s (fst x)))" using k w by simp_all
  show "kinv_x X (flg_step fid x s)"
    using wait_release_kinv_x [OF k' w'] by (simp add: flg_step_def flg_release_def wait_release_ok_def)
  show "sched_ok s \<Longrightarrow> sched_ok (flg_step fid x s)"
    using wait_release_sched_ok [OF k' w'] by (simp add: flg_step_def flg_release_def wait_release_ok_def)
  show "que (flg_step fid x s) (WaitQ k i) = removeAll (fst x) (que s (WaitQ k i))" for k i
    using wait_release_que [OF k' w', of k i] by (simp add: flg_step_def flg_release_def wait_release_ok_def)
qed (simp_all add: flg_step_def flg_release_def wait_release_ok_def)

lemma flg_step_sel [simp]:
  "flgcb_table (flg_step i x s) j =
     (if j = i then (flgcb_table s i)\<lparr>flgptn := snd (snd x)\<rparr> else flgcb_table s j)"
  "free_flgcb (flg_step i x s) = free_flgcb s" "max_flgid (flg_step i x s) = max_flgid s"
  by (simp_all add: flg_step_def)

lemma flg_reqs_step: "flg_reqs (flg_step i x s) ts = flg_reqs s ts"
  using tcb_viewD(2) [OF flgt.view [of i x s]] by (simp add: flg_reqs_def)

lemma upd_flgcb_twice: "upd_flgcb i f (upd_flgcb i g s) = upd_flgcb i (\<lambda>c. f (g c)) s"
  by (simp add: upd_flgcb_def)

lemma upd_flgcb_eqI: "f (flgcb_table s i) = g (flgcb_table s i) \<Longrightarrow> upd_flgcb i f s = upd_flgcb i g s"
  by (simp add: upd_flgcb_def)

lemma upd_flgcb_id: "f (flgcb_table s i) = flgcb_table s i \<Longrightarrow> upd_flgcb i f s = s"
  by (simp add: upd_flgcb_def)

lemma set_flg_loop_eq:
  "set_flg_loop i ts s =
     fold (flg_step i) (flg_serve (flgptn (flgcb_table s i)) (flg_reqs s ts)) s"
proof (induction ts arbitrary: s)
  case Nil
  then show ?case by (simp add: flg_reqs_def)
next
  case (Cons t ts)
  let ?w = "flg_waiptn (winfo (tcbs s t))" and ?m = "flg_wfmode (winfo (tcbs s t))"
  let ?p = "flgptn (flgcb_table s i)"
  let ?s1 = "flg_release ?p t s"
  let ?q = "if has ?m TWF_BITCLR then ?p AND NOT ?w else ?p"
  let ?s2 = "if has ?m TWF_BITCLR then upd_flgcb i (\<lambda>c. c\<lparr>flgptn := flgptn c AND NOT ?w\<rparr>) ?s1 else ?s1"
  have r: "flg_reqs s (t # ts) = (t, ?w, ?m) # flg_reqs s ts" by (simp add: flg_reqs_def)
  have s2: "?s2 = flg_step i (t, ?p, ?q) s"
    by (auto simp: flg_step_def intro!: upd_flgcb_eqI upd_flgcb_id [symmetric])
  have clr: "upd_flgcb i (\<lambda>c. c\<lparr>flgptn := 0\<rparr>) ?s2 = flg_step i (t, ?p, 0) s"
    by (auto simp: flg_step_def upd_flgcb_twice)
  have q2: "flgptn (flgcb_table ?s2 i) = ?q" by simp
  show ?case
    unfolding set_flg_loop.simps Let_def r flg_serve.simps q2 clr
    unfolding s2 by (simp add: Cons.IH flg_reqs_step)
qed

section \<open>The invariant\<close>

definition flg_obj_pre :: "ID \<Rightarrow> 'a flg_st_scheme \<Rightarrow> bool" where
  "flg_obj_pre i s \<longleftrightarrow>
     (let c = flgcb_table s i; q = que s (WaitQ OFlg i)
      in flgid c = i \<and> (has (flgatr c) TA_WMUL \<or> length q \<le> 1) \<and>
         (\<forall>t \<in> set q. flg_waiptn (winfo (tcbs s t)) \<noteq> 0 \<and> rel_wai_hook (wspec (tcbs s t)) = None \<and>
            chg_pri_hook (wspec (tcbs s t)) =
              (if has (flgatr c) TA_TPRI then Some H_flg_chg_pri else None)))"

text \<open>No task waits for a condition that holds.\<close>

definition flg_obj_settled :: "ID \<Rightarrow> 'a flg_st_scheme \<Rightarrow> bool" where
  "flg_obj_settled i s \<longleftrightarrow>
     (\<forall>t \<in> set (que s (WaitQ OFlg i)).
        \<not> eventflag_cond (flgptn (flgcb_table s i)) (flg_waiptn (winfo (tcbs s t)))
            (flg_wfmode (winfo (tcbs s t))))"

definition flg_exists :: "ID \<Rightarrow> 'a flg_st_scheme \<Rightarrow> bool" where
  "flg_exists i s \<longleftrightarrow> chk_id (max_flgid s) i \<and> flgid (flgcb_table s i) \<noteq> 0"

definition flg_weak :: "ID \<Rightarrow> 'a flg_st_scheme \<Rightarrow> bool" where
  "flg_weak i s \<longleftrightarrow>
     kinv s \<and> distinct (free_flgcb s) \<and>
     (\<forall>j. j \<in> set (free_flgcb s) \<longleftrightarrow> chk_id (max_flgid s) j \<and> flgid (flgcb_table s j) = 0) \<and>
     (\<forall>j. if flg_exists j s then flg_obj_pre j s \<and> (j \<noteq> i \<longrightarrow> flg_obj_settled j s)
          else que s (WaitQ OFlg j) = [])"

definition flg_ok :: "'a flg_st_scheme \<Rightarrow> bool" where
  "flg_ok s \<longleftrightarrow>
     kinv s \<and> distinct (free_flgcb s) \<and>
     (\<forall>j. j \<in> set (free_flgcb s) \<longleftrightarrow> chk_id (max_flgid s) j \<and> flgid (flgcb_table s j) = 0) \<and>
     (\<forall>j. if flg_exists j s then flg_obj_pre j s \<and> flg_obj_settled j s
          else que s (WaitQ OFlg j) = [])"

interpretation flgo: leaving_pool "{OFlg}" max_flgid free_flgcb flgcb_table flgid
  flg_obj_pre flg_obj_settled flg_ok flg_weak
proof unfold_locales
  fix s s' :: "'a flg_st_scheme" and j
  assume cb: "flgcb_table s' j = flgcb_table s j" and w: "\<And>k. k \<in> {OFlg} \<Longrightarrow> same_waits s' s k j"
  note w = same_waitsD [OF w [of OFlg, simplified]]
  show "flg_obj_settled j s \<Longrightarrow> flg_obj_settled j s'"
    by (simp add: flg_obj_settled_def cb w(1)) (use w(2) in simp)
  show "flg_obj_pre j s \<Longrightarrow> flg_obj_pre j s'"
    by (simp add: flg_obj_pre_def Let_def cb w(1)) (use w(2,3) in simp)
next
  fix s s' :: "'a flg_st_scheme" and i t
  assume cb: "flgcb_table s' i = flgcb_table s i"
    and q: "\<And>k. k \<in> {OFlg} \<Longrightarrow> que s' (WaitQ k i) = removeAll t (que s (WaitQ k i))"
    and v: "\<And>u. winfo (tcbs s' u) = winfo (tcbs s u)" "\<And>u. wspec (tcbs s' u) = wspec (tcbs s u)"
    and p: "flg_obj_pre i s"
  show "flg_obj_pre i s' \<and> (flg_obj_settled i s \<longrightarrow> flg_obj_settled i s')"
    using p order_trans [OF length_removeAll_less_eq [of t "que s (WaitQ OFlg i)"], of 1]
    by (auto simp: flg_obj_pre_def flg_obj_settled_def Let_def cb q v)
qed (auto simp: flg_weak_def flg_ok_def flg_exists_def split: if_splits)

lemma flg_okD:
  assumes "flg_ok s"
  shows "kinv s" "flg_weak i s" "flg_exists i s \<Longrightarrow> flg_obj_pre i s"
    "flg_exists i s \<Longrightarrow> flg_obj_settled i s" "\<not> flg_exists i s \<Longrightarrow> que s (WaitQ OFlg i) = []"
  using assms flgo.okD(1) [OF assms, of i] by (simp_all add: flg_ok_def)

section \<open>Every operation keeps the invariant\<close>

text \<open>Serving the queue of event flag \<open>i\<close>.\<close>

lemma flg_step_fold:
  assumes "G = [] \<Longrightarrow> p = flgptn (flgcb_table s i)"
  shows "flgcb_table (fold (flg_step i) G s) j =
      (if j = i then (flgcb_table s i)\<lparr>flgptn := served_left p G\<rparr> else flgcb_table s j)"
    "free_flgcb (fold (flg_step i) G s) = free_flgcb s"
    "max_flgid (fold (flg_step i) G s) = max_flgid s"
  using assms
proof (atomize (full), induction G arbitrary: s p)
  case Nil
  then show ?case by simp
next
  case (Cons x G)
  obtain t a q where x: "x = (t, a, q)" by (cases x)
  show ?case using Cons.IH [of q "flg_step i x s"] by (simp add: x)
qed

lemma flg_serve_all:
  fixes s :: "'a flg_st_scheme"
  assumes wk: "flg_weak i s" and ex: "flg_exists i s"
  defines "q \<equiv> que s (WaitQ OFlg i)"
  defines "G \<equiv> flg_serve (flgptn (flgcb_table s i)) (flg_reqs s q)"
  defines "s' \<equiv> set_flg_loop i q s"
  shows "flg_ok s'" "que s' (WaitQ OFlg i) = filter (\<lambda>t. t \<notin> fst ` set G) q"
    "flgptn (flgcb_table s' i) = served_left (flgptn (flgcb_table s i)) G"
    "tstate (tcbs s' t) = (if t \<in> fst ` set G then released (tstate (tcbs s t)) else tstate (tcbs s t))"
    "wercd (tcbs s' t) = (if t \<in> fst ` set G then E_OK else wercd (tcbs s t))"
    "sched_ok s \<Longrightarrow> sched_ok s'" "fst ` set G \<subseteq> set q"
proof -
  let ?xs = "flg_reqs s q" and ?p = "flgptn (flgcb_table s i)"
  note k = flgo.weakD(1) [OF wk]
  have pre: "flg_obj_pre i s" using flgo.weakD(4) [OF wk] ex by (simp add: flg_exists_def)
  have f: "map fst ?xs = q" by (simp add: flg_reqs_def comp_def)
  have dq: "distinct q" using que_ok_distinct [OF kinv_xD(2) [OF k]] by (simp add: q_def)
  have nz: "\<forall>(t, w, m) \<in> set ?xs. w \<noteq> 0"
    using pre by (auto simp: flg_reqs_def flg_obj_pre_def Let_def q_def)
  show sub: "fst ` set G \<subseteq> set q"
    using flg_serve_subset [of ?p ?xs] f by (metis G_def set_map)
  have dG: "distinct (map fst G)" unfolding G_def by (rule flg_serve_distinct) (simp add: f dq)
  have w: "\<forall>t \<in> fst ` set G. in_wait (tstate (tcbs s t))"
    using sub kinv_xD(5) [OF k] by (auto simp: q_def)
  have s': "s' = fold (flg_step i) G s" by (simp add: s'_def G_def set_flg_loop_eq)
  note fa = flgt.fold_all [where fid = i, OF k dG w, folded s']
  note tb = flg_step_fold [where s = s and i = i and G = G and p = ?p, OF refl, folded s']
  note v = tcb_viewD(1,2) [OF fa(6)]
  show q': "que s' (WaitQ OFlg i) = filter (\<lambda>t. t \<notin> fst ` set G) q" by (simp add: fa(2) q_def)
  show p': "flgptn (flgcb_table s' i) = served_left ?p G" by (simp add: tb)
  show "tstate (tcbs s' t) = (if t \<in> fst ` set G then released (tstate (tcbs s t)) else tstate (tcbs s t))"
    "wercd (tcbs s' t) = (if t \<in> fst ` set G then E_OK else wercd (tcbs s t))" by (rule fa)+
  show "sched_ok s \<Longrightarrow> sched_ok s'" by (rule fa)
  have set: "flg_obj_settled i s'"
    unfolding flg_obj_settled_def p' q' v
  proof
    fix t assume "t \<in> set (filter (\<lambda>t. t \<notin> fst ` set G) q)"
    then have "(t, flg_waiptn (winfo (tcbs s t)), flg_wfmode (winfo (tcbs s t))) \<in> set ?xs"
      "t \<notin> fst ` set G" by (auto simp: flg_reqs_def)
    then show "\<not> eventflag_cond (served_left ?p G) (flg_waiptn (winfo (tcbs s t)))
        (flg_wfmode (winfo (tcbs s t)))"
      unfolding G_def using nz dq f by (intro flg_serve_rest) simp_all
  qed
  have "length q \<le> 1 \<Longrightarrow> length (que s' (WaitQ OFlg i)) \<le> 1"
    unfolding q' by (rule order_trans [OF length_filter_le])
  then have pre': "flg_obj_pre i s'"
    using pre by (auto simp: flg_obj_pre_def Let_def tb v q' q_def)
  have other: "same_waits s' s OFlg j" if "j \<noteq> i" for j
  proof (rule same_waitsI)
    have "t \<notin> fst ` set G" if "t \<in> set (que s (WaitQ OFlg j))" for t
      using that sub \<open>j \<noteq> i\<close> que_okD [OF kinv_xD(2) [OF k], of t "WaitQ OFlg j" "WaitQ OFlg i"]
      by (auto simp: q_def)
    then show "que s' (WaitQ OFlg j) = que s (WaitQ OFlg j)" by (simp add: fa(2) filter_id_conv)
  qed (simp add: v)
  show "flg_ok s'"
    by (rule flgo.frame [OF wk fa(1)]) (use tb pre' set other ex in \<open>simp_all add: flg_exists_def\<close>)
qed

theorem tk_set_flg_ok:
  assumes ok: "flg_ok s"
  shows "flg_ok (snd (tk_set_flg i setptn s))"
proof -
  let ?s1 = "upd_flgcb i (\<lambda>c. c\<lparr>flgptn := flgptn c OR setptn\<rparr>) s"
  have "flg_ok (set_flg_loop i (que s (WaitQ OFlg i)) ?s1)" if ex: "flg_exists i s"
  proof -
    have "flg_weak i ?s1"
      by (rule flgo.frame_weak [OF flg_okD(2) [OF ok]])
        (use flg_okD(1,3) [OF ok] ex in \<open>simp_all add: same_waits_tcbs flg_obj_pre_def flg_exists_def Let_def\<close>)
    moreover have "flg_exists i ?s1" using ex by (simp add: flg_exists_def)
    ultimately show ?thesis using flg_serve_all(1) [of i ?s1] by simp
  qed
  then show ?thesis using ok by (simp add: tk_set_flg_def Let_def flg_exists_def)
qed

theorem tk_clr_flg_ok:
  assumes ok: "flg_ok s"
  shows "flg_ok (snd (tk_clr_flg i clrptn s))"
proof -
  let ?s1 = "upd_flgcb i (\<lambda>c. c\<lparr>flgptn := flgptn c AND clrptn\<rparr>) s"
  have "flg_ok ?s1" if ex: "flg_exists i s"
  proof (rule flgo.frame [OF flg_okD(2) [OF ok]])
    have "(p AND clrptn) AND p = p AND clrptn" for p :: UINT by (simp add: and.commute and.left_commute)
    then have "eventflag_cond (p AND clrptn) w m \<Longrightarrow> eventflag_cond p w m" for p w m
      by (rule cond_mono)
    then have "flg_obj_settled i ?s1"
      using flg_okD(4) [OF ok ex] by (auto simp: flg_obj_settled_def)
    then show "flg_obj_pre i ?s1 \<and> flg_obj_settled i ?s1"
      using flg_okD(3) [OF ok ex] by (simp add: flg_obj_pre_def Let_def)
  qed (use flg_okD(1) [OF ok] ex in \<open>simp_all add: same_waits_tcbs flg_exists_def\<close>)
  then show ?thesis using ok by (simp add: tk_clr_flg_def flg_exists_def)
qed


lemma flg_wspec_hooks [simp]:
  "rel_wai_hook wspec_flg_tpri = None" "rel_wai_hook wspec_flg_tfifo = None"
  "chg_pri_hook wspec_flg_tpri = Some H_flg_chg_pri" "chg_pri_hook wspec_flg_tfifo = None"
  "tskwait wspec_flg_tpri = TTW_FLG" "tskwait wspec_flg_tfifo = TTW_FLG"
  by (simp_all add: wspec_flg_tpri_def wspec_flg_tfifo_def)

text \<open>A task whose condition does not hold starts to wait.\<close>

lemma flg_call_wait_ok:
  assumes ok: "flg_ok s" and r: "running t s" and ex: "flg_exists i s"
    and w: "waiptn \<noteq> 0" "\<not> eventflag_cond (flgptn (flgcb_table s i)) waiptn wfmode"
      "has (flgatr (flgcb_table s i)) TA_WMUL \<or> que s (WaitQ OFlg i) = []"
  shows "flg_ok (call_wait OFlg i (flgatr (flgcb_table s i)) tmout
    (if has (flgatr (flgcb_table s i)) TA_TPRI then wspec_flg_tpri else wspec_flg_tfifo)
    (WI_flg waiptn wfmode p) s)" (is "flg_ok ?s'")
proof -
  note c = call_wait [OF flg_okD(1) [OF ok] r, where kd = OFlg and i = i and atr = "flgatr (flgcb_table s i)" and tmout = tmout
      and w = "if has (flgatr (flgcb_table s i)) TA_TPRI then wspec_flg_tpri else wspec_flg_tfifo"
      and f = "WI_flg waiptn wfmode p"]
  let ?q = "que s (WaitQ OFlg i)"
  have sub: "set (que ?s' (WaitQ OFlg i)) \<subseteq> insert t (set ?q)" by (simp add: c(2)) blast
  have len: "has (flgatr (flgcb_table s i)) TA_WMUL \<or> length (que ?s' (WaitQ OFlg i)) \<le> 1"
    using w(3) by (auto simp: c(2) wait_order_def)
  note p = flg_okD(3) [OF ok ex] and st = flg_okD(4) [OF ok ex]
  have mem: "flg_waiptn (winfo (tcbs ?s' u)) \<noteq> 0 \<and> rel_wai_hook (wspec (tcbs ?s' u)) = None \<and>
      chg_pri_hook (wspec (tcbs ?s' u)) =
        (if has (flgatr (flgcb_table s i)) TA_TPRI then Some H_flg_chg_pri else None) \<and>
      \<not> eventflag_cond (flgptn (flgcb_table s i)) (flg_waiptn (winfo (tcbs ?s' u)))
          (flg_wfmode (winfo (tcbs ?s' u)))"
    if "u \<in> set (que ?s' (WaitQ OFlg i))" for u
  proof (cases "u = t")
    case True
    then show ?thesis using w by (simp add: c(3,4))
  next
    case False
    then have "u \<in> set ?q" using that sub by blast
    then show ?thesis using False p st
      by (simp add: c(3,4) flg_obj_pre_def flg_obj_settled_def Let_def)
  qed
  show ?thesis
  proof (rule flgo.frame [OF flg_okD(2) [OF ok, of i] c(1)])
    show "flg_obj_pre i ?s' \<and> flg_obj_settled i ?s'"
      using len mem p unfolding flg_obj_pre_def flg_obj_settled_def Let_def flg_frame by blast
  qed (use ex c(5) in \<open>simp_all add: flg_exists_def\<close>)
qed

theorem tk_wai_flg_u_ok:
  assumes ok: "flg_ok s" and r: "in_ddsp s \<or> running (me s) s"
  shows "flg_ok (snd (tk_wai_flg_u i waiptn wfmode p_flgptn tmout s))"
proof -
  define cb where "cb = flgcb_table s i"
  let ?s1 = "s\<lparr>mem_uint := (mem_uint s)(p_flgptn := flgptn cb)\<rparr>"
  let ?s2 = "if has wfmode TWF_BITCLR
      then upd_flgcb i (\<lambda>c. c\<lparr>flgptn := flgptn c AND NOT waiptn\<rparr>) ?s1 else ?s1"
  let ?s3 = "if has wfmode TWF_CLR then upd_flgcb i (\<lambda>c. c\<lparr>flgptn := 0\<rparr>) ?s2 else ?s2"
  define s3 where "s3 = ?s3"
  define s4 where "s4 = call_wait OFlg i (flgatr cb) tmout
      (if has (flgatr cb) TA_TPRI then wspec_flg_tpri else wspec_flg_tfifo)
      (WI_flg waiptn wfmode p_flgptn) s"
  have f3: "tcbs s3 = tcbs s" "que s3 = que s" "free_flgcb s3 = free_flgcb s" "max_flgid s3 = max_flgid s"
      "kinv s3 = kinv s" by (simp_all add: s3_def)
  have t3: "flgid (flgcb_table s3 i) = flgid cb" "flgatr (flgcb_table s3 i) = flgatr cb"
      "j \<noteq> i \<Longrightarrow> flgcb_table s3 j = flgcb_table s j" for j by (simp_all add: s3_def cb_def)
  have p3: "flgptn (flgcb_table s3 i) AND flgptn cb = flgptn (flgcb_table s3 i)"
    by (simp add: s3_def cb_def and_not_sub)
  have get: "flg_ok s3" if ex: "flg_exists i s"
  proof (rule flgo.frame [OF flg_okD(2) [OF ok, of i]])
    have "flg_obj_settled i s3"
      using flg_okD(4) [OF ok ex] cond_mono [OF p3]
      by (auto simp: flg_obj_settled_def f3 cb_def)
    moreover have "flg_obj_pre i s3"
      using flg_okD(3) [OF ok ex] by (simp add: flg_obj_pre_def Let_def f3 t3 cb_def)
    ultimately show "flg_obj_pre i s3 \<and> flg_obj_settled i s3" by blast
  qed (use flg_okD(1) [OF ok] ex f3 t3 in \<open>simp_all add: same_waits_tcbs flg_exists_def cb_def\<close>)
  have wait: "flg_ok s4"
    if "flg_exists i s" "\<not> in_ddsp s" "waiptn \<noteq> 0" "\<not> eventflag_cond (flgptn cb) waiptn wfmode"
      "has (flgatr cb) TA_WMUL \<or> que s (WaitQ OFlg i) = []"
    using that r unfolding s4_def cb_def by (intro flg_call_wait_ok [OF ok]) auto
  show ?thesis
    unfolding tk_wai_flg_u_def Let_def cb_def [symmetric] s3_def [symmetric] s4_def [symmetric]
    using ok get wait by (auto simp: flg_exists_def cb_def [symmetric])
qed

theorem tk_cre_flg_ok:
  assumes ok: "flg_ok s"
  shows "flg_ok (snd (tk_cre_flg pk s))"
proof (cases "free_flgcb s")
  case Nil
  then show ?thesis using ok by (simp add: tk_cre_flg_def)
next
  case (Cons i free)
  let ?s1 = "upd_flgcb i (\<lambda>c. c\<lparr>flgid := i, flg_exinf := cf_exinf pk, flgatr := cf_flgatr pk,
      flgptn := cf_iflgptn pk\<rparr>) (s\<lparr>free_flgcb := free\<rparr>)"
  let ?s2 = "if has (cf_flgatr pk) TA_DSNAME
      then upd_flgcb i (\<lambda>c. c\<lparr>flg_name := tkl_strncpy (cf_dsname pk) OBJECT_NAME_LENGTH\<rparr>) ?s1 else ?s1"
  have i: "chk_id (max_flgid s) i" "\<not> flg_exists i s"
    using flgo.weakD(3) [OF flg_okD(2) [OF ok], of i] Cons by (auto simp: flg_exists_def)
  then have i1: "i \<noteq> 0" by (auto simp: chk_id_def)
  have e: "que s (WaitQ OFlg i) = []" using flg_okD(5) [OF ok] i by simp
  have "flg_ok ?s2"
    by (rule flgo.create [OF ok Cons]) (use flg_okD(1) [OF ok] i1 e in
      \<open>simp_all add: same_waits_tcbs flg_obj_pre_def flg_obj_settled_def Let_def\<close>)
  then show ?thesis using Cons ok by (simp add: tk_cre_flg_def Let_def)
qed

theorem tk_del_flg_ok:
  assumes ok: "flg_ok s"
  shows "flg_ok (snd (tk_del_flg i s))"
proof -
  let ?w = "wait_delete OFlg i s"
  let ?s2 = "upd_flgcb i (\<lambda>c. c\<lparr>flgid := 0\<rparr>) (?w\<lparr>free_flgcb := free_flgcb s @ [i]\<rparr>)"
  note k = flg_okD(1) [OF ok]
  note w = wait_delete_spec [OF k, of OFlg i]
  have "same_waits ?s2 s OFlg j" if "j \<noteq> i" for j
    by (rule same_waits_trans [OF same_waits_tcbs same_waits_delete [OF k, of OFlg _ _ i]])
      (use that in simp_all)
  then have "flg_ok ?s2" if "flg_exists i s"
    by (intro flgo.delete [OF ok, of i]) (use that w in \<open>simp_all add: flg_exists_def\<close>)
  then show ?thesis using ok by (simp add: tk_del_flg_def Let_def flg_exists_def)
qed

theorem flg_chg_pri_ok:
  assumes ok: "flg_ok s" and t: "t \<in> set (que s (WaitQ OFlg i))"
  shows "flg_ok (flg_chg_pri t old s)"
proof -
  note k = flg_okD(1) [OF ok]
  have w: "in_wait (tstate (tcbs s t))" "wid (tcbs s t) = i" using kinv_xD(5) [OF k t] by auto
  let ?s' = "gcb_change_priority (WaitQ OFlg i) t s"
  have ex: "flg_exists i s" using flgo.waits_exists [OF flg_okD(2) [OF ok] t] by (simp add: flg_exists_def)
  have ti: "set (que ?s' (WaitQ OFlg i)) = set (que s (WaitQ OFlg i))"
    "length (que ?s' (WaitQ OFlg i)) = length (que s (WaitQ OFlg i))"
    using t length_removeAll_distinct [OF t que_ok_distinct [OF kinv_xD(2) [OF k]]]
    by (auto simp: gcb_change_priority_que)
  have "flg_ok ?s'"
  proof (rule flgo.frame [OF flg_okD(2) [OF ok, of i] gcb_change_priority_kinv_x [OF k w]])
    show "flg_obj_pre i ?s' \<and> flg_obj_settled i ?s'"
      using flg_okD(3,4) [OF ok ex]
      unfolding flg_obj_pre_def flg_obj_settled_def Let_def ti flg_frame gcb_change_priority_frame by blast
    show "same_waits ?s' s k j" if "j \<noteq> i" "k \<in> {OFlg}" for j k
    proof -
      have "t \<notin> set (que s (WaitQ OFlg j))"
        using t that que_okD [OF kinv_xD(2) [OF k], of t "WaitQ OFlg j" "WaitQ OFlg i"] by auto
      then show ?thesis using that by (simp add: same_waits_def gcb_change_priority_que gcb_change_priority_frame)
    qed
  qed (use ex in \<open>simp_all add: flg_exists_def\<close>)
  then show ?thesis by (simp add: flg_chg_pri_def w)
qed


lemma flg_ok_set_wercd: "flg_ok s \<Longrightarrow> flg_ok (set_wercd t e s)"
  by (rule flgo.same [of s]) (simp_all add: flg_okD same_waits_def)

text \<open>The wait specifications of event flags have no release hook.\<close>

lemma flg_no_rel_hook:
  assumes ok: "flg_ok s" and t: "t \<in> set (que s (WaitQ OFlg i))"
  shows "rel_wai_hook (wspec (tcbs s t)) = None"
proof -
  have "flg_exists i s" using flgo.waits_exists [OF flg_okD(2) [OF ok] t] by (simp add: flg_exists_def)
  then show ?thesis using flg_okD(3) [OF ok] t by (simp add: flg_obj_pre_def Let_def)
qed

theorem flg_wait_release_ng_ok:
  assumes ok: "flg_ok s" and t: "t \<in> set (que s (WaitQ OFlg i))"
  shows "flg_ok (wait_release_ng rel_hook t e s)"
proof -
  have w: "in_wait (tstate (tcbs s t))" using kinv_xD(5) [OF flg_okD(1) [OF ok] t] by simp
  show ?thesis
    using flgo.release_ok [OF ok w] flg_no_rel_hook [OF ok t]
    by (simp add: wait_release_ng_def Let_def flg_ok_set_wercd)
qed

theorem flg_wait_release_tmout_ok:
  assumes ok: "flg_ok s" and t: "t \<in> set (que s (WaitQ OFlg i))"
  shows "flg_ok (wait_release_tmout rel_hook t s)"
proof -
  have w: "in_wait (tstate (tcbs s t))" using kinv_xD(5) [OF flg_okD(1) [OF ok] t] by simp
  have m: "kst.more (make_non_wait t (que_remove t s)) = kst.more s" by simp
  show ?thesis
    using flgo.timeout_ok [OF ok w flg_more [OF m]] flg_no_rel_hook [OF ok t]
    by (simp add: wait_release_tmout_def Let_def)
qed

inductive flg_sys_step :: "'a flg_st_scheme \<Rightarrow> 'a flg_st_scheme \<Rightarrow> bool" where
  cre: "flg_sys_step s (snd (tk_cre_flg pk s))"
| del: "flg_sys_step s (snd (tk_del_flg i s))"
| set: "flg_sys_step s (snd (tk_set_flg i ptn s))"
| clr: "flg_sys_step s (snd (tk_clr_flg i ptn s))"
| wai: "in_ddsp s \<or> running (me s) s \<Longrightarrow> flg_sys_step s (snd (tk_wai_flg i w m p tmout s))"
| wai_u: "in_ddsp s \<or> running (me s) s \<Longrightarrow> flg_sys_step s (snd (tk_wai_flg_u i w m p tmout s))"
| release: "t \<in> set (que s (WaitQ OFlg i)) \<Longrightarrow> flg_sys_step s (wait_release_ng rel_hook t e s)"
| timeout: "t \<in> set (que s (WaitQ OFlg i)) \<Longrightarrow> flg_sys_step s (wait_release_tmout rel_hook t s)"
| chg_pri: "t \<in> set (que s (WaitQ OFlg i)) \<Longrightarrow> flg_sys_step s (flg_chg_pri t old s)"
| dispatch: "flg_sys_step s (s\<lparr>ctxtsk := schedtsk s\<rparr>)"

lemma flg_ok_dispatch: "flg_ok s \<Longrightarrow> flg_ok (s\<lparr>ctxtsk := t\<rparr>)"
  by (rule flgo.same [of s]) (simp_all add: flg_okD same_waits_def)

lemma flg_sys_step_ok: "flg_sys_step s s' \<Longrightarrow> flg_ok s \<Longrightarrow> flg_ok s'"
  by (induction rule: flg_sys_step.induct)
    (auto simp: tk_cre_flg_ok tk_del_flg_ok tk_set_flg_ok tk_clr_flg_ok tk_wai_flg_u_ok tk_wai_flg_def
      flg_wait_release_ng_ok flg_wait_release_tmout_ok flg_chg_pri_ok flg_ok_dispatch)

lemma flg_sys_steps_ok: "flg_sys_step\<^sup>*\<^sup>* s s' \<Longrightarrow> flg_ok s \<Longrightarrow> flg_ok s'"
  by (induction rule: rtranclp_induct) (auto intro: flg_sys_step_ok)

section \<open>What setting a flag does\<close>

lemma tk_set_flg_effect:
  fixes s :: "'a flg_st_scheme" and i :: ID and setptn :: UINT
  assumes ok: "flg_ok s" and ex: "flg_exists i s"
  defines "q \<equiv> que s (WaitQ OFlg i)"
  defines "p \<equiv> flgptn (flgcb_table s i) OR setptn"
  defines "G \<equiv> flg_serve p (flg_reqs s q)"
  defines "s' \<equiv> snd (tk_set_flg i setptn s)"
  shows "fst (tk_set_flg i setptn s) = E_OK"
    "que s' (WaitQ OFlg i) = filter (\<lambda>t. t \<notin> fst ` set G) q"
    "flgptn (flgcb_table s' i) = served_left p G"
    "t \<in> fst ` set G \<Longrightarrow> tstate (tcbs s' t) = released (tstate (tcbs s t)) \<and> wercd (tcbs s' t) = E_OK"
    "t \<notin> fst ` set G \<Longrightarrow> tstate (tcbs s' t) = tstate (tcbs s t) \<and> wercd (tcbs s' t) = wercd (tcbs s t)"
    "sched_ok s \<Longrightarrow> sched_ok s'"
proof -
  let ?s1 = "upd_flgcb i (\<lambda>c. c\<lparr>flgptn := flgptn c OR setptn\<rparr>) s"
  have wk: "flg_weak i ?s1"
    by (rule flgo.frame_weak [OF flg_okD(2) [OF ok]])
      (use flg_okD(1,3) [OF ok] ex in \<open>simp_all add: same_waits_tcbs flg_obj_pre_def flg_exists_def Let_def\<close>)
  have ex1: "flg_exists i ?s1" using ex by (simp add: flg_exists_def)
  have r: "flg_reqs ?s1 = flg_reqs s" by (simp add: flg_reqs_def fun_eq_iff)
  have e: "tk_set_flg i setptn s = (E_OK, set_flg_loop i q ?s1)"
    using ex by (simp add: tk_set_flg_def flg_exists_def Let_def q_def)
  note g = flg_serve_all [OF wk ex1, unfolded r, simplified, folded p_def q_def, folded G_def]
  have s': "s' = set_flg_loop i q ?s1" by (simp add: s'_def e)
  show "fst (tk_set_flg i setptn s) = E_OK" by (simp add: e)
  show "que s' (WaitQ OFlg i) = filter (\<lambda>t. t \<notin> fst ` set G) q"
    "flgptn (flgcb_table s' i) = served_left p G" using g(2,3) by (simp_all add: s')
  show "t \<in> fst ` set G \<Longrightarrow> tstate (tcbs s' t) = released (tstate (tcbs s t)) \<and> wercd (tcbs s' t) = E_OK"
    "t \<notin> fst ` set G \<Longrightarrow> tstate (tcbs s' t) = tstate (tcbs s t) \<and> wercd (tcbs s' t) = wercd (tcbs s t)"
    using g(4,5) [of t] by (simp_all add: s')
  show "sched_ok s \<Longrightarrow> sched_ok s'" using g(6) by (simp add: s')
qed

end
