(* ===== verification/Mailbox.thy ===== *)
theory Mailbox
  imports Eventflag
begin

text \<open>
  Mailboxes (\<open>mailbox.c\<close>). Messages are linked through a header in the message itself, so the
  queue of a mailbox is a chain in memory: \<open>msg_next\<close> is the link of the head in the control block
  (\<open>MHead i\<close>) and of a message (\<open>MAt m\<close>), \<open>msg_pri\<close> the field \<open>msgpri\<close> of a message. The insertion
  by priority follows the links and need not return on a damaged queue. \<open>mbx_content\<close> is the list
  a chain stands for; sending and receiving are shown to be operations on it.
\<close>

section \<open>Control blocks and operations\<close>

datatype mlink = MHead ID | MAt addr

record mbxcb =
  mbxid :: ID
  mbx_exinf :: addr
  mbxatr :: ATR
  mq_tail :: addr
  mbx_name :: "UB list"

record mbx_st = flg_st +
  mbxcb_table :: "ID \<Rightarrow> mbxcb"
  free_mbxcb :: "ID list"
  max_mbxid :: ID
  msg_next :: "mlink \<Rightarrow> addr"
  msg_pri :: "addr \<Rightarrow> int"

record t_cmbx =
  cm_exinf :: addr
  cm_mbxatr :: ATR
  cm_dsname :: "UB list"

record t_rmbx =
  rm_exinf :: addr
  rm_wtsk :: ID
  rm_pk_msg :: addr

definition upd_mbxcb :: "ID \<Rightarrow> (mbxcb \<Rightarrow> mbxcb) \<Rightarrow> 'a mbx_st_scheme \<Rightarrow> 'a mbx_st_scheme" where
  "upd_mbxcb i f s = s\<lparr>mbxcb_table := (mbxcb_table s)(i := f (mbxcb_table s i))\<rparr>"

definition set_next :: "mlink \<Rightarrow> addr \<Rightarrow> 'a mbx_st_scheme \<Rightarrow> 'a mbx_st_scheme" where
  "set_next p m s = s\<lparr>msg_next := (msg_next s)(p := m)\<rparr>"

definition headmsg :: "ID \<Rightarrow> 'a mbx_st_scheme \<Rightarrow> addr" where
  "headmsg i s = msg_next s (MHead i)"

definition mailbox_initialize :: "int \<times> int \<Rightarrow> bool \<Rightarrow> 'a mbx_st_scheme \<Rightarrow> ER \<times> 'a mbx_st_scheme" where
  "mailbox_initialize cfn malloc_ok s =
     (let s1 = s\<lparr>max_mbxid := snd cfn\<rparr>
      in if fst cfn < 1 \<or> max_mbxid s1 < 1 then (E_SYS, s1)
         else if \<not> malloc_ok then (E_NOMEM, s1)
         else (E_OK, fold (\<lambda>i s. (upd_mbxcb i (\<lambda>c. c\<lparr>mbxid := 0\<rparr>) s)\<lparr>free_mbxcb := free_mbxcb s @ [i]\<rparr>)
                       [1..max_mbxid s1] (s1\<lparr>free_mbxcb := []\<rparr>)))"

text \<open>The search of \<open>queue_insert_mpri\<close>: the link behind which the message goes. On a cyclic
  queue it does not return.\<close>

partial_function (option) mpri_search ::
  "(mlink \<Rightarrow> addr) \<Rightarrow> (addr \<Rightarrow> int) \<Rightarrow> int \<Rightarrow> mlink \<Rightarrow> mlink option" where
  "mpri_search lk pri p prevmsg =
     (if lk prevmsg \<noteq> NULL then
        (if pri (lk prevmsg) > p then Some prevmsg
         else mpri_search lk pri p (MAt (lk prevmsg)))
      else Some prevmsg)"

definition queue_insert_mpri :: "addr \<Rightarrow> ID \<Rightarrow> 'a mbx_st_scheme \<Rightarrow> 'a mbx_st_scheme option" where
  "queue_insert_mpri pk_msg i s =
     (case mpri_search (msg_next s) (msg_pri s) (msg_pri s pk_msg) (MHead i) of
        None \<Rightarrow> None
      | Some prevmsg \<Rightarrow>
          let s1 = set_next (MAt pk_msg) (msg_next s prevmsg) s
          in Some (set_next prevmsg pk_msg s1))"

definition mbx_chg_pri :: "ID \<Rightarrow> int \<Rightarrow> 'a mbx_st_scheme \<Rightarrow> 'a mbx_st_scheme" where
  "mbx_chg_pri t oldpri s = gcb_change_priority (WaitQ OMbx (wid (tcbs s t))) t s"

definition wspec_mbx_tfifo :: wspec where
  "wspec_mbx_tfifo = \<lparr>tskwait = TTW_MBX, chg_pri_hook = None, rel_wai_hook = None\<rparr>"

definition wspec_mbx_tpri :: wspec where
  "wspec_mbx_tpri = \<lparr>tskwait = TTW_MBX, chg_pri_hook = Some H_mbx_chg_pri, rel_wai_hook = None\<rparr>"

definition VALID_MBXATR :: ATR where
  "VALID_MBXATR = TA_MPRI OR TA_TPRI OR TA_NODISWAI OR TA_DSNAME"

definition tk_cre_mbx :: "t_cmbx \<Rightarrow> 'a mbx_st_scheme \<Rightarrow> ER \<times> 'a mbx_st_scheme" where
  "tk_cre_mbx pk s =
     (if \<not> chk_rsatr (cm_mbxatr pk) VALID_MBXATR then (E_RSATR, s)
      else (case free_mbxcb s of
              [] \<Rightarrow> (E_LIMIT, s)
            | i # free \<Rightarrow>
                let s1 = upd_mbxcb i (\<lambda>c. c\<lparr>mbxid := i, mbx_exinf := cm_exinf pk,
                           mbxatr := cm_mbxatr pk\<rparr>) (s\<lparr>free_mbxcb := free\<rparr>);
                    s2 = set_next (MHead i) NULL s1;
                    s3 = (if has (cm_mbxatr pk) TA_DSNAME
                          then upd_mbxcb i (\<lambda>c. c\<lparr>mbx_name :=
                                 tkl_strncpy (cm_dsname pk) OBJECT_NAME_LENGTH\<rparr>) s2
                          else s2)
                in (i, s3)))"

definition tk_del_mbx :: "ID \<Rightarrow> 'a mbx_st_scheme \<Rightarrow> ER \<times> 'a mbx_st_scheme" where
  "tk_del_mbx i s =
     (if \<not> chk_id (max_mbxid s) i then (E_ID, s)
      else if mbxid (mbxcb_table s i) = 0 then (E_NOEXS, s)
      else
        (let s1 = wait_delete OMbx i s;
             s2 = s1\<lparr>free_mbxcb := free_mbxcb s1 @ [i]\<rparr>
         in (E_OK, upd_mbxcb i (\<lambda>c. c\<lparr>mbxid := 0\<rparr>) s2)))"

text \<open>\<open>None\<close> is a call that does not return.\<close>

definition tk_snd_mbx :: "ID \<Rightarrow> addr \<Rightarrow> 'a mbx_st_scheme \<Rightarrow> (ER \<times> 'a mbx_st_scheme) option" where
  "tk_snd_mbx i pk_msg s =
     (if \<not> chk_id (max_mbxid s) i then Some (E_ID, s)
      else if mbxid (mbxcb_table s i) = 0 then Some (E_NOEXS, s)
      else if has (mbxatr (mbxcb_table s i)) TA_MPRI \<and> msg_pri s pk_msg \<le> 0 then Some (E_PAR, s)
      else
        (case que s (WaitQ OMbx i) of
           t # _ \<Rightarrow>
             let s1 = s\<lparr>mem_ptr := (mem_ptr s)(mbx_ppk_msg (winfo (tcbs s t)) := pk_msg)\<rparr>
             in Some (E_OK, wait_release_ok t s1)
         | [] \<Rightarrow>
             if has (mbxatr (mbxcb_table s i)) TA_MPRI then
               map_option (Pair E_OK) (queue_insert_mpri pk_msg i s)
             else
               (let s1 = set_next (MAt pk_msg) NULL s;
                    s2 = (if headmsg i s1 = NULL then set_next (MHead i) pk_msg s1
                          else set_next (MAt (mq_tail (mbxcb_table s1 i))) pk_msg s1)
                in Some (E_OK, upd_mbxcb i (\<lambda>c. c\<lparr>mq_tail := pk_msg\<rparr>) s2))))"

definition tk_rcv_mbx_u :: "ID \<Rightarrow> addr \<Rightarrow> int \<Rightarrow> 'a mbx_st_scheme \<Rightarrow> sysret \<times> 'a mbx_st_scheme" where
  "tk_rcv_mbx_u i ppk_msg tmout s =
     (if \<not> chk_id (max_mbxid s) i then (Ret E_ID, s)
      else if \<not> chk_tmout tmout then (Ret E_PAR, s)
      else if in_ddsp s then (Ret E_CTX, s)
      else
        (let t = me s; cb = mbxcb_table s i
         in if mbxid cb = 0 then (Ret E_NOEXS, s)
            else if is_diswai (mbxatr cb) t TTW_MBX s then (Ret E_DISWAI, s)
            else if headmsg i s \<noteq> NULL then
              (let s1 = s\<lparr>mem_ptr := (mem_ptr s)(ppk_msg := headmsg i s)\<rparr>
               in (Ret E_OK, set_next (MHead i) (msg_next s1 (MAt (mem_ptr s1 ppk_msg))) s1))
            else
              (let s2 = call_wait OMbx i (mbxatr cb) tmout
                     (if has (mbxatr cb) TA_TPRI then wspec_mbx_tpri else wspec_mbx_tfifo)
                     (WI_mbx ppk_msg) s
               in (wait_ret s2, s2))))"

definition tk_rcv_mbx :: "ID \<Rightarrow> addr \<Rightarrow> int \<Rightarrow> 'a mbx_st_scheme \<Rightarrow> sysret \<times> 'a mbx_st_scheme" where
  "tk_rcv_mbx i ppk_msg tmout s = tk_rcv_mbx_u i ppk_msg (to_usec_tmo tmout) s"

definition tk_ref_mbx :: "ID \<Rightarrow> 'a mbx_st_scheme \<Rightarrow> ER \<times> t_rmbx option" where
  "tk_ref_mbx i s =
     (if \<not> chk_id (max_mbxid s) i then (E_ID, None)
      else if mbxid (mbxcb_table s i) = 0 then (E_NOEXS, None)
      else (E_OK, Some \<lparr>rm_exinf = mbx_exinf (mbxcb_table s i), rm_wtsk = wait_tskid (WaitQ OMbx i) s,
                        rm_pk_msg = headmsg i s\<rparr>))"

definition mailbox_getname :: "ID \<Rightarrow> 'a mbx_st_scheme \<Rightarrow> ER \<times> UB list option" where
  "mailbox_getname i s =
     (if \<not> chk_id (max_mbxid s) i then (E_ID, None)
      else if mbxid (mbxcb_table s i) = 0 then (E_NOEXS, None)
      else if \<not> has (mbxatr (mbxcb_table s i)) TA_DSNAME then (E_OBJ, None)
      else (E_OK, Some (mbx_name (mbxcb_table s i))))"

definition td_lst_mbx :: "int \<Rightarrow> 'a mbx_st_scheme \<Rightarrow> int \<times> ID list" where
  "td_lst_mbx nent s =
     (let ids = filter (\<lambda>j. mbxid (mbxcb_table s j) \<noteq> 0) [1..max_mbxid s]
      in (int (length ids), take (nat nent) (map (\<lambda>j. mbxid (mbxcb_table s j)) ids)))"

definition td_ref_mbx :: "ID \<Rightarrow> 'a mbx_st_scheme \<Rightarrow> ER \<times> t_rmbx option" where
  "td_ref_mbx i s =
     (if \<not> chk_id (max_mbxid s) i then (E_ID, None)
      else if mbxid (mbxcb_table s i) = 0 then (E_NOEXS, None)
      else (E_OK, Some \<lparr>rm_exinf = mbx_exinf (mbxcb_table s i), rm_wtsk = wait_tskid (WaitQ OMbx i) s,
                        rm_pk_msg = headmsg i s\<rparr>))"

definition td_mbx_que :: "ID \<Rightarrow> int \<Rightarrow> 'a mbx_st_scheme \<Rightarrow> int \<times> ID list" where
  "td_mbx_que i nent s =
     (if \<not> chk_id (max_mbxid s) i then (E_ID, [])
      else if mbxid (mbxcb_table s i) = 0 then (E_NOEXS, [])
      else (let xs = que s (WaitQ OMbx i) in (int (length xs), take (nat nent) xs)))"

lemma mbx_more:
  assumes "kst.more s' = kst.more s"
  shows "mbxcb_table s' = mbxcb_table s"
    "free_mbxcb s' = free_mbxcb s"
    "max_mbxid s' = max_mbxid s"
    "msg_next s' = msg_next s"
    "msg_pri s' = msg_pri s"
  using assms by (cases s; cases s'; simp add: mbx_st.defs)+

lemma mbx_frame [simp]:
  "mbxcb_table (call_wait kd i atr tmo w wi s) = mbxcb_table s" "free_mbxcb (call_wait kd i atr tmo w wi s) = free_mbxcb s" "max_mbxid (call_wait kd i atr tmo w wi s) = max_mbxid s" "msg_next (call_wait kd i atr tmo w wi s) = msg_next s" "msg_pri (call_wait kd i atr tmo w wi s) = msg_pri s"
  "mbxcb_table (set_wercd t e s) = mbxcb_table s" "free_mbxcb (set_wercd t e s) = free_mbxcb s" "max_mbxid (set_wercd t e s) = max_mbxid s" "msg_next (set_wercd t e s) = msg_next s" "msg_pri (set_wercd t e s) = msg_pri s"
  "mbxcb_table (tcb_upd t f s) = mbxcb_table s" "free_mbxcb (tcb_upd t f s) = free_mbxcb s" "max_mbxid (tcb_upd t f s) = max_mbxid s" "msg_next (tcb_upd t f s) = msg_next s" "msg_pri (tcb_upd t f s) = msg_pri s"
  "mbxcb_table (que_remove t s) = mbxcb_table s" "free_mbxcb (que_remove t s) = free_mbxcb s" "max_mbxid (que_remove t s) = max_mbxid s" "msg_next (que_remove t s) = msg_next s" "msg_pri (que_remove t s) = msg_pri s"
  "mbxcb_table (wait_release t s) = mbxcb_table s" "free_mbxcb (wait_release t s) = free_mbxcb s" "max_mbxid (wait_release t s) = max_mbxid s" "msg_next (wait_release t s) = msg_next s" "msg_pri (wait_release t s) = msg_pri s"
  "mbxcb_table (wait_release_ok t s) = mbxcb_table s" "free_mbxcb (wait_release_ok t s) = free_mbxcb s" "max_mbxid (wait_release_ok t s) = max_mbxid s" "msg_next (wait_release_ok t s) = msg_next s" "msg_pri (wait_release_ok t s) = msg_pri s"
  "mbxcb_table (wait_release_ok_ercd t e s) = mbxcb_table s" "free_mbxcb (wait_release_ok_ercd t e s) = free_mbxcb s" "max_mbxid (wait_release_ok_ercd t e s) = max_mbxid s" "msg_next (wait_release_ok_ercd t e s) = msg_next s" "msg_pri (wait_release_ok_ercd t e s) = msg_pri s"
  "mbxcb_table (queue_insert_tpri t q s) = mbxcb_table s" "free_mbxcb (queue_insert_tpri t q s) = free_mbxcb s" "max_mbxid (queue_insert_tpri t q s) = max_mbxid s" "msg_next (queue_insert_tpri t q s) = msg_next s" "msg_pri (queue_insert_tpri t q s) = msg_pri s"
  "mbxcb_table (gcb_change_priority q t s) = mbxcb_table s" "free_mbxcb (gcb_change_priority q t s) = free_mbxcb s" "max_mbxid (gcb_change_priority q t s) = max_mbxid s" "msg_next (gcb_change_priority q t s) = msg_next s" "msg_pri (gcb_change_priority q t s) = msg_pri s"
  "mbxcb_table (gcb_make_wait k i a tmo s) = mbxcb_table s" "free_mbxcb (gcb_make_wait k i a tmo s) = free_mbxcb s" "max_mbxid (gcb_make_wait k i a tmo s) = max_mbxid s" "msg_next (gcb_make_wait k i a tmo s) = msg_next s" "msg_pri (gcb_make_wait k i a tmo s) = msg_pri s"
  "mbxcb_table (gcb_make_wait_with_diswai k i a tmo s) = mbxcb_table s" "free_mbxcb (gcb_make_wait_with_diswai k i a tmo s) = free_mbxcb s" "max_mbxid (gcb_make_wait_with_diswai k i a tmo s) = max_mbxid s" "msg_next (gcb_make_wait_with_diswai k i a tmo s) = msg_next s" "msg_pri (gcb_make_wait_with_diswai k i a tmo s) = msg_pri s"
  "mbxcb_table (wait_delete k i s) = mbxcb_table s" "free_mbxcb (wait_delete k i s) = free_mbxcb s" "max_mbxid (wait_delete k i s) = max_mbxid s" "msg_next (wait_delete k i s) = msg_next s" "msg_pri (wait_delete k i s) = msg_pri s"
  "mbxcb_table (make_wait tmo a s) = mbxcb_table s" "free_mbxcb (make_wait tmo a s) = free_mbxcb s" "max_mbxid (make_wait tmo a s) = max_mbxid s" "msg_next (make_wait tmo a s) = msg_next s" "msg_pri (make_wait tmo a s) = msg_pri s"
  "mbxcb_table (make_wait_reltim rt a s) = mbxcb_table s" "free_mbxcb (make_wait_reltim rt a s) = free_mbxcb s" "max_mbxid (make_wait_reltim rt a s) = max_mbxid s" "msg_next (make_wait_reltim rt a s) = msg_next s" "msg_pri (make_wait_reltim rt a s) = msg_pri s"
  by (rule mbx_more; simp add: gcb_change_priority_frame)+

lemma upd_mbxcb_sel [simp]:
  "mbxcb_table (upd_mbxcb i f s) j = (if j = i then f (mbxcb_table s i) else mbxcb_table s j)"
  "free_mbxcb (upd_mbxcb i f s) = free_mbxcb s" "max_mbxid (upd_mbxcb i f s) = max_mbxid s"
  "msg_next (upd_mbxcb i f s) = msg_next s" "msg_pri (upd_mbxcb i f s) = msg_pri s"
  "tcbs (upd_mbxcb i f s) = tcbs s" "que (upd_mbxcb i f s) = que s"
  "ctxtsk (upd_mbxcb i f s) = ctxtsk s" "mem_ptr (upd_mbxcb i f s) = mem_ptr s"
  by (simp_all add: upd_mbxcb_def)

lemma set_next_sel [simp]:
  "msg_next (set_next p m s) q = (if q = p then m else msg_next s q)"
  "mbxcb_table (set_next p m s) = mbxcb_table s" "free_mbxcb (set_next p m s) = free_mbxcb s"
  "max_mbxid (set_next p m s) = max_mbxid s" "msg_pri (set_next p m s) = msg_pri s"
  "tcbs (set_next p m s) = tcbs s" "que (set_next p m s) = que s"
  "ctxtsk (set_next p m s) = ctxtsk s" "mem_ptr (set_next p m s) = mem_ptr s"
  by (simp_all add: set_next_def)

lemma kinv_mbx_upd [simp]:
  "kinv_x X (upd_mbxcb i f s) = kinv_x X s" "sched_ok (upd_mbxcb i f s) = sched_ok s"
  "kinv_x X (set_next p m s) = kinv_x X s" "sched_ok (set_next p m s) = sched_ok s"
  "kinv_x X (s\<lparr>free_mbxcb := fr\<rparr>) = kinv_x X s" "sched_ok (s\<lparr>free_mbxcb := fr\<rparr>) = sched_ok s"
  by (simp_all add: upd_mbxcb_def set_next_def kinv_x_def rdq_ok_def) (rule sched_ok_cong, simp_all)+

lemma mbx_wspec_hooks [simp]:
  "rel_wai_hook wspec_mbx_tpri = None" "rel_wai_hook wspec_mbx_tfifo = None"
  "chg_pri_hook wspec_mbx_tpri = Some H_mbx_chg_pri" "chg_pri_hook wspec_mbx_tfifo = None"
  "tskwait wspec_mbx_tpri = TTW_MBX" "tskwait wspec_mbx_tfifo = TTW_MBX"
  by (simp_all add: wspec_mbx_tpri_def wspec_mbx_tfifo_def)

section \<open>The content of a message queue\<close>

text \<open>The list a chain of messages stands for, \<open>None\<close> if the chain does not end.\<close>

partial_function (option) msg_list :: "(mlink \<Rightarrow> addr) \<Rightarrow> mlink \<Rightarrow> addr list option" where
  "msg_list lk p =
     (if lk p = NULL then Some []
      else Option.bind (msg_list lk (MAt (lk p))) (\<lambda>ms. Some (lk p # ms)))"

fun mchain :: "(mlink \<Rightarrow> addr) \<Rightarrow> mlink \<Rightarrow> addr list \<Rightarrow> bool" where
  "mchain lk p [] \<longleftrightarrow> lk p = NULL"
| "mchain lk p (m # ms) \<longleftrightarrow> lk p = m \<and> m \<noteq> NULL \<and> mchain lk (MAt m) ms"

lemma mchain_list: "mchain lk p ms \<Longrightarrow> msg_list lk p = Some ms"
proof (induction ms arbitrary: p)
  case Nil
  then show ?case by (subst msg_list.simps) simp
next
  case (Cons m ms)
  then show ?case by (subst msg_list.simps) simp
qed

lemma list_mchain:
  assumes "msg_list lk p = Some ms"
  shows "mchain lk p ms"
proof (rule msg_list.raw_induct [OF _ assms])
  fix f :: "(mlink \<Rightarrow> addr) \<Rightarrow> mlink \<Rightarrow> addr list option" and lk p ms
  assume "\<And>lk p ms. f lk p = Some ms \<Longrightarrow> mchain lk p ms"
    and "(if lk p = NULL then Some []
      else Option.bind (f lk (MAt (lk p))) (\<lambda>ms. Some (lk p # ms))) = Some ms"
  then show "mchain lk p ms" by (auto split: if_splits simp: bind_eq_Some_conv)
qed

lemma msg_list_iff: "msg_list lk p = Some ms \<longleftrightarrow> mchain lk p ms"
  using list_mchain mchain_list by blast

lemma mchain_unique: "mchain lk p ms \<Longrightarrow> mchain lk p ns \<Longrightarrow> ms = ns"
  using mchain_list by (metis option.inject)

text \<open>A chain does not run into itself.\<close>

lemma mchain_suffix: "mchain lk p (us @ m # vs) \<Longrightarrow> mchain lk (MAt m) vs"
  by (induction us arbitrary: p) auto

lemma mchain_no_loop:
  assumes "mchain lk p (us @ m # vs)"
  shows "p \<noteq> MAt m"
proof
  assume "p = MAt m"
  then have "mchain lk p vs" using mchain_suffix [OF assms] by simp
  then have "length vs = length (us @ m # vs)" using mchain_unique [OF assms] by simp
  then show False by simp
qed

lemma mchain_distinct: "mchain lk p ms \<Longrightarrow> distinct ms"
proof (induction ms arbitrary: p)
  case (Cons m ms)
  have "m \<notin> set ms"
  proof
    assume "m \<in> set ms"
    then obtain us vs where ms: "ms = us @ m # vs" by (auto dest: split_list)
    have "mchain lk (MAt m) (us @ m # vs)" using Cons.prems by (simp add: ms)
    then show False using mchain_no_loop by blast
  qed
  with Cons show ?case by auto
qed simp

lemma mchain_NULL: "mchain lk p ms \<Longrightarrow> NULL \<notin> set ms"
  by (induction ms arbitrary: p) auto

lemma mchain_end: "mchain lk p ms \<Longrightarrow> lk (if ms = [] then p else MAt (last ms)) = NULL"
  by (induction ms arbitrary: p) auto

text \<open>A chain depends on the links of its messages only.\<close>

lemma mchain_cong:
  "lk' p = lk p \<Longrightarrow> (\<And>m. m \<in> set ms \<Longrightarrow> lk' (MAt m) = lk (MAt m)) \<Longrightarrow> mchain lk p ms \<Longrightarrow> mchain lk' p ms"
  by (induction ms arbitrary: p) auto

lemma mchain_upd:
  "q \<noteq> p \<Longrightarrow> (\<And>m. m \<in> set ms \<Longrightarrow> q \<noteq> MAt m) \<Longrightarrow> mchain lk p ms \<Longrightarrow> mchain (lk(q := x)) p ms"
  by (rule mchain_cong) auto

text \<open>Linking a message in behind a link of the chain.\<close>

lemma mchain_insert:
  "mchain lk p (us @ vs) \<Longrightarrow> m \<noteq> NULL \<Longrightarrow> m \<notin> set (us @ vs) \<Longrightarrow> p \<noteq> MAt m \<Longrightarrow>
   q = (if us = [] then p else MAt (last us)) \<Longrightarrow>
   mchain (lk(MAt m := lk q, q := m)) p (us @ m # vs)"
proof (induction us arbitrary: p)
  case Nil
  have "p \<noteq> MAt u" if "u \<in> set vs" for u
    using split_list [OF that] Nil(1) mchain_no_loop [of lk p] by force
  then have "\<forall>u \<in> set vs. p \<noteq> MAt u \<and> MAt u \<noteq> p" by force
  then have "mchain (lk(MAt m := lk p, p := m)) (MAt m) vs"
    using Nil by (cases vs) (auto intro!: mchain_cong [where lk = lk])
  moreover have "q = p" using Nil by simp
  ultimately show ?case
    using Nil(2,4) by (simp only: append_Nil mchain.simps fun_upd_same simp_thms)
next
  case (Cons u us)
  have q: "q = (if us = [] then MAt u else MAt (last us))" using Cons.prems(5) by simp
  have 1: "mchain (lk(MAt m := lk q, q := m)) (MAt u) (us @ m # vs)"
    using Cons.prems by (intro Cons.IH q) simp_all
  have "p \<noteq> q"
  proof -
    have "last (u # us) \<in> set ((u # us) @ vs)" using last_in_set [of "u # us"] by auto
    then obtain as bs where "(u # us) @ vs = as @ last (u # us) # bs" by (metis split_list)
    then show ?thesis using Cons.prems(1,5) mchain_no_loop [of lk p as "last (u # us)" bs] by simp
  qed
  then have "(lk(MAt m := lk q, q := m)) p = u" using Cons.prems by simp
  then show ?case using 1 Cons.prems(1) by (simp only: append_Cons mchain.simps) simp
qed

text \<open>The search of the insertion by priority stops behind the messages that are not behind in
  priority.\<close>

lemma mpri_search_chain:
  "mchain lk p ms \<Longrightarrow>
   mpri_search lk pri k p =
     Some (let us = takeWhile (\<lambda>m. \<not> pri m > k) ms in if us = [] then p else MAt (last us))"
proof (induction ms arbitrary: p)
  case Nil
  then show ?case by (subst mpri_search.simps) simp
next
  case (Cons m ms)
  then show ?case by (subst mpri_search.simps) (auto simp: Let_def)
qed


section \<open>The invariant\<close>

definition mbx_content :: "ID \<Rightarrow> 'a mbx_st_scheme \<Rightarrow> addr list option" where
  "mbx_content i s = msg_list (msg_next s) (MHead i)"

lemma mbx_content_iff: "mbx_content i s = Some ms \<longleftrightarrow> mchain (msg_next s) (MHead i) ms"
  by (simp add: mbx_content_def msg_list_iff)

definition mbx_exists :: "ID \<Rightarrow> 'a mbx_st_scheme \<Rightarrow> bool" where
  "mbx_exists i s \<longleftrightarrow> chk_id (max_mbxid s) i \<and> mbxid (mbxcb_table s i) \<noteq> 0"

text \<open>What belongs to a mailbox: the control block, the messages and their priorities.\<close>

definition mbx_data ::
  "'a mbx_st_scheme \<Rightarrow> ID \<Rightarrow> mbxcb \<times> (addr list \<times> int list) option" where
  "mbx_data s i = (mbxcb_table s i,
     if mbx_exists i s then map_option (\<lambda>ms. (ms, map (msg_pri s) ms)) (mbx_content i s) else None)"

text \<open>The queue of messages ends, it is in the order of the priorities or ends at \<open>mq_tail\<close>.\<close>

definition mbx_obj_pre :: "ID \<Rightarrow> 'a mbx_st_scheme \<Rightarrow> bool" where
  "mbx_obj_pre i s \<longleftrightarrow>
     (let c = mbxcb_table s i; q = que s (WaitQ OMbx i)
      in mbxid c = i \<and> chk_id (max_mbxid s) i \<and>
         (case mbx_content i s of
            None \<Rightarrow> False
          | Some ms \<Rightarrow> if has (mbxatr c) TA_MPRI then sorted (map (msg_pri s) ms)
                       else ms \<noteq> [] \<longrightarrow> mq_tail c = last ms) \<and>
         (\<forall>t \<in> set q. rel_wai_hook (wspec (tcbs s t)) = None \<and>
            chg_pri_hook (wspec (tcbs s t)) =
              (if has (mbxatr c) TA_TPRI then Some H_mbx_chg_pri else None)))"

text \<open>No task waits while there is a message.\<close>

definition mbx_obj_settled :: "ID \<Rightarrow> 'a mbx_st_scheme \<Rightarrow> bool" where
  "mbx_obj_settled i s \<longleftrightarrow>
     (que s (WaitQ OMbx i) \<noteq> [] \<longrightarrow> mbx_exists i s \<and> mbx_content i s = Some [])"

definition mbx_weak :: "ID \<Rightarrow> 'a mbx_st_scheme \<Rightarrow> bool" where
  "mbx_weak i s \<longleftrightarrow>
     kinv s \<and> distinct (free_mbxcb s) \<and>
     (\<forall>j. j \<in> set (free_mbxcb s) \<longleftrightarrow> chk_id (max_mbxid s) j \<and> mbxid (mbxcb_table s j) = 0) \<and>
     (\<forall>j. if mbx_exists j s then mbx_obj_pre j s \<and> (j \<noteq> i \<longrightarrow> mbx_obj_settled j s)
          else que s (WaitQ OMbx j) = [])"

definition mbx_pool_ok :: "'a mbx_st_scheme \<Rightarrow> bool" where
  "mbx_pool_ok s \<longleftrightarrow>
     kinv s \<and> distinct (free_mbxcb s) \<and>
     (\<forall>j. j \<in> set (free_mbxcb s) \<longleftrightarrow> chk_id (max_mbxid s) j \<and> mbxid (mbxcb_table s j) = 0) \<and>
     (\<forall>j. if mbx_exists j s then mbx_obj_pre j s \<and> mbx_obj_settled j s
          else que s (WaitQ OMbx j) = [])"

text \<open>A message is in one mailbox at most.\<close>

definition mbx_disjoint :: "'a mbx_st_scheme \<Rightarrow> bool" where
  "mbx_disjoint s \<longleftrightarrow>
     (\<forall>i j ms ns. i \<noteq> j \<longrightarrow> mbx_exists i s \<longrightarrow> mbx_exists j s \<longrightarrow>
        mbx_content i s = Some ms \<longrightarrow> mbx_content j s = Some ns \<longrightarrow> set ms \<inter> set ns = {})"

definition mbx_ok :: "'a mbx_st_scheme \<Rightarrow> bool" where
  "mbx_ok s \<longleftrightarrow> mbx_pool_ok s \<and> mbx_disjoint s"

lemma mbx_dataD:
  assumes d: "mbx_data s' j = mbx_data s j" and e: "mbx_exists j s"
    and c: "mbx_content j s = Some ms"
  shows "mbxcb_table s' j = mbxcb_table s j" "mbx_exists j s'" "mbx_content j s' = Some ms"
    "map (msg_pri s') ms = map (msg_pri s) ms"
  using assms by (auto simp: mbx_data_def split: if_splits)

lemma mbx_dataI:
  assumes "mbxcb_table s' j = mbxcb_table s j" "max_mbxid s' = max_mbxid s"
    "mbx_exists j s \<Longrightarrow> mbx_content j s' = mbx_content j s"
    "\<And>ms m. mbx_exists j s \<Longrightarrow> mbx_content j s = Some ms \<Longrightarrow> m \<in> set ms \<Longrightarrow> msg_pri s' m = msg_pri s m"
  shows "mbx_data s' j = mbx_data s j"
proof -
  have "mbx_exists j s' = mbx_exists j s" using assms(1,2) by (simp add: mbx_exists_def)
  then show ?thesis
    using assms(1,3,4) by (cases "mbx_content j s") (auto simp: mbx_data_def)
qed

lemma mbx_pre_data:
  assumes d: "mbx_data s' j = mbx_data s j" and p: "mbx_obj_pre j s" and z: "mbxid (mbxcb_table s j) \<noteq> 0"
  shows "\<exists>ms. mbx_content j s = Some ms \<and> mbx_content j s' = Some ms \<and>
    map (msg_pri s') ms = map (msg_pri s) ms" "chk_id (max_mbxid s') j"
    "mbxcb_table s' j = mbxcb_table s j"
proof -
  obtain ms where c: "mbx_content j s = Some ms" and e: "mbx_exists j s"
    using p z by (auto simp: mbx_obj_pre_def Let_def mbx_exists_def split: option.splits)
  note dd = mbx_dataD [OF d e c]
  show "\<exists>ms. mbx_content j s = Some ms \<and> mbx_content j s' = Some ms \<and>
    map (msg_pri s') ms = map (msg_pri s) ms" "chk_id (max_mbxid s') j"
    "mbxcb_table s' j = mbxcb_table s j"
    using dd c by (auto simp: mbx_exists_def)
qed

lemma chk_id_nonzero: "chk_id m i \<Longrightarrow> i \<noteq> 0"
  by (auto simp: chk_id_def)

lemma mbx_data_fst [simp]: "fst (mbx_data s i) = mbxcb_table s i"
  by (simp add: mbx_data_def)

interpretation mbxo: leaving_pool "{OMbx}" max_mbxid free_mbxcb mbx_data "\<lambda>c. mbxid (fst c)"
  mbx_obj_pre mbx_obj_settled mbx_pool_ok mbx_weak
proof unfold_locales
  fix s s' :: "'a mbx_st_scheme" and j
  assume d: "mbx_data s' j = mbx_data s j" and w: "\<And>k. k \<in> {OMbx} \<Longrightarrow> same_waits s' s k j"
  note w = same_waitsD [OF w [of OMbx, simplified]]
  show "mbx_obj_pre j s'" if p: "mbx_obj_pre j s"
  proof -
    have z: "mbxid (mbxcb_table s j) \<noteq> 0"
      using p chk_id_nonzero by (auto simp: mbx_obj_pre_def Let_def)
    from mbx_pre_data(1) [OF d p z] obtain ms where ms: "mbx_content j s = Some ms"
      "mbx_content j s' = Some ms" "map (msg_pri s') ms = map (msg_pri s) ms" by blast
    show ?thesis
      using p mbx_pre_data(2,3) [OF d p z] w ms
      by (simp add: mbx_obj_pre_def Let_def del: map_eq_conv)
  qed
  show "mbx_obj_settled j s'" if st: "mbx_obj_settled j s"
    using st mbx_dataD [OF d, of "[]"] w(1) by (auto simp: mbx_obj_settled_def)
next
  fix s s' :: "'a mbx_st_scheme" and i t
  assume d: "mbx_data s' i = mbx_data s i"
    and q: "\<And>k. k \<in> {OMbx} \<Longrightarrow> que s' (WaitQ k i) = removeAll t (que s (WaitQ k i))"
    and v: "\<And>u. winfo (tcbs s' u) = winfo (tcbs s u)" "\<And>u. wspec (tcbs s' u) = wspec (tcbs s u)"
    and p: "mbx_obj_pre i s"
  have z: "mbxid (mbxcb_table s i) \<noteq> 0"
    using p chk_id_nonzero by (auto simp: mbx_obj_pre_def Let_def)
  from mbx_pre_data(1) [OF d p z] obtain ms where ms: "mbx_content i s = Some ms"
    "mbx_content i s' = Some ms" "map (msg_pri s') ms = map (msg_pri s) ms" by blast
  show "mbx_obj_pre i s' \<and> (mbx_obj_settled i s \<longrightarrow> mbx_obj_settled i s')"
    using p mbx_pre_data(2,3) [OF d p z] ms v q [of OMbx] z
    by (auto simp: mbx_obj_pre_def mbx_obj_settled_def Let_def mbx_exists_def simp del: map_eq_conv)
qed (auto simp: mbx_weak_def mbx_pool_ok_def mbx_exists_def mbx_data_def split: if_splits)


lemma mbx_okD:
  assumes "mbx_ok s"
  shows "kinv s" "mbx_pool_ok s" "mbx_weak i s" "mbx_disjoint s"
    "mbx_exists i s \<Longrightarrow> mbx_obj_pre i s" "mbx_exists i s \<Longrightarrow> mbx_obj_settled i s"
    "\<not> mbx_exists i s \<Longrightarrow> que s (WaitQ OMbx i) = []"
  using assms mbxo.okD(1) [of s i] by (simp_all add: mbx_ok_def mbx_pool_ok_def)

lemma mbx_okI: "mbx_pool_ok s \<Longrightarrow> mbx_disjoint s \<Longrightarrow> mbx_ok s"
  by (simp add: mbx_ok_def)

lemma mbx_same_mem:
  assumes "mbxcb_table s' = mbxcb_table s" "max_mbxid s' = max_mbxid s" "msg_next s' = msg_next s"
    "msg_pri s' = msg_pri s"
  shows "mbx_data s' = mbx_data s" "mbx_disjoint s' = mbx_disjoint s"
    "mbx_content i s' = mbx_content i s" "mbx_exists i s' = mbx_exists i s"
proof -
  show c: "mbx_content i s' = mbx_content i s" for i by (simp add: mbx_content_def assms)
  show e: "mbx_exists i s' = mbx_exists i s" for i by (simp add: mbx_exists_def assms)
  show "mbx_data s' = mbx_data s" by (simp add: mbx_data_def fun_eq_iff c e assms)
  show "mbx_disjoint s' = mbx_disjoint s" by (simp add: mbx_disjoint_def c e)
qed

lemma mbx_pre_content: "mbx_obj_pre i s \<Longrightarrow> \<exists>ms. mbx_content i s = Some ms"
  by (auto simp: mbx_obj_pre_def Let_def split: option.splits)

lemma mbx_mem_ptr [simp]:
  "mbx_data (s\<lparr>mem_ptr := f\<rparr>) = mbx_data s" "mbx_disjoint (s\<lparr>mem_ptr := f\<rparr>) = mbx_disjoint s"
  "mbx_content i (s\<lparr>mem_ptr := f\<rparr>) = mbx_content i s" "mbx_exists i (s\<lparr>mem_ptr := f\<rparr>) = mbx_exists i s"
  by (rule mbx_same_mem; simp)+

text \<open>Linking a message into mailbox \<open>i\<close> behind the link \<open>q\<close>.\<close>

lemma mbx_link_in:
  fixes s :: "'a mbx_st_scheme"
  assumes ok: "mbx_ok s" and ex: "mbx_exists i s" and c: "mbx_content i s = Some (us @ vs)"
    and m: "m \<noteq> NULL" "\<And>j ms. mbx_exists j s \<Longrightarrow> mbx_content j s = Some ms \<Longrightarrow> m \<notin> set ms"
    and q: "q = (if us = [] then MHead i else MAt (last us))"
  defines "s' \<equiv> set_next q m (set_next (MAt m) (msg_next s q) s)"
  shows "mbx_content i s' = Some (us @ m # vs)"
    "j \<noteq> i \<Longrightarrow> mbx_exists j s \<Longrightarrow> mbx_content j s' = mbx_content j s"
    "mbx_disjoint s'"
proof -
  have nx: "msg_next s' = (msg_next s)(MAt m := msg_next s q, q := m)"
    by (simp add: s'_def fun_eq_iff)
  have ch: "mchain (msg_next s) (MHead i) (us @ vs)" using c by (simp add: mbx_content_iff)
  have mi: "m \<notin> set (us @ vs)" using m(2) [OF ex c] .
  show ci: "mbx_content i s' = Some (us @ m # vs)"
    unfolding mbx_content_iff nx using mchain_insert [OF ch m(1) mi _ q] by simp
  show cj: "mbx_content j s' = mbx_content j s" if j: "j \<noteq> i" "mbx_exists j s" for j
  proof -
    obtain ms where ms: "mbx_content j s = Some ms"
      using mbx_pre_content mbx_okD(5) [OF ok j(2)] by blast
    have dis: "set ms \<inter> set (us @ vs) = {}"
      using mbx_okD(4) [OF ok] j ex ms c unfolding mbx_disjoint_def by blast
    have mj: "m \<notin> set ms" using m(2) [OF j(2) ms] .
    have "q \<noteq> MHead j" using j(1) by (simp add: q)
    moreover have "q \<noteq> MAt u" if "u \<in> set ms" for u
      using that dis q last_in_set [of us] by auto
    moreover have "MAt m \<noteq> MAt u" if "u \<in> set ms" for u using that mj by auto
    ultimately have "mchain (msg_next s') (MHead j) ms"
      unfolding nx using ms by (intro mchain_upd) (simp_all add: mbx_content_iff)
    then show ?thesis using ms by (metis mbx_content_iff)
  qed
  have e: "mbx_exists j s' = mbx_exists j s" for j by (simp add: mbx_exists_def s'_def)
  show "mbx_disjoint s'"
    unfolding mbx_disjoint_def e
  proof (intro allI impI)
    fix j k ms ns
    assume jk: "j \<noteq> k" and e: "mbx_exists j s" "mbx_exists k s"
      and c': "mbx_content j s' = Some ms" "mbx_content k s' = Some ns"
    note dis = mbx_okD(4) [OF ok, unfolded mbx_disjoint_def, rule_format]
    consider "j = i" | "k = i" "j \<noteq> i" | "j \<noteq> i" "k \<noteq> i" by blast
    then show "set ms \<inter> set ns = {}"
    proof cases
      case 1
      then have "mbx_content k s = Some ns" using cj [of k] jk e c' by simp
      moreover have "ms = us @ m # vs" using ci c' 1 by simp
      ultimately show ?thesis using dis [OF jk e, of "us @ vs" ns] c m(2) [OF e(2)] 1 by auto
    next
      case 2
      then have "mbx_content j s = Some ms" using cj [of j] e c' by simp
      moreover have "ns = us @ m # vs" using ci c' 2 by simp
      ultimately show ?thesis using dis [OF jk e, of ms "us @ vs"] c m(2) [OF e(1)] 2 by auto
    next
      case 3
      then show ?thesis using dis [OF jk e] cj e c' by simp
    qed
  qed
qed

lemma mbx_data_other:
  assumes "mbxcb_table s' j = mbxcb_table s j" "max_mbxid s' = max_mbxid s" "msg_pri s' = msg_pri s"
    "mbx_exists j s \<Longrightarrow> mbx_content j s' = mbx_content j s"
  shows "mbx_data s' j = mbx_data s j"
  using assms by (intro mbx_dataI) simp_all

lemma takeWhile_drop_split: "takeWhile P xs @ dropWhile P xs = xs"
  by simp

text \<open>Sending when no task waits.\<close>

lemma tk_snd_mbx_store:
  fixes s :: "'a mbx_st_scheme"
  assumes ok: "mbx_ok s" and ex: "mbx_exists i s" and c: "mbx_content i s = Some ms"
    and m: "m \<noteq> NULL" "\<And>j ms. mbx_exists j s \<Longrightarrow> mbx_content j s = Some ms \<Longrightarrow> m \<notin> set ms"
    and nw: "que s (WaitQ OMbx i) = []"
    and pri: "has (mbxatr (mbxcb_table s i)) TA_MPRI \<Longrightarrow> msg_pri s m > 0"
  obtains s' where "tk_snd_mbx i m s = Some (E_OK, s')" "mbx_ok s'"
    "mbx_content i s' = Some (if has (mbxatr (mbxcb_table s i)) TA_MPRI
       then insert_before (\<lambda>x. msg_pri s x > msg_pri s m) m ms else ms @ [m])"
    "\<And>j. j \<noteq> i \<Longrightarrow> mbx_exists j s \<Longrightarrow> mbx_content j s' = mbx_content j s"
    "tcbs s' = tcbs s" "que s' = que s" "\<And>j. mbx_exists j s' = mbx_exists j s"
proof -
  let ?pri = "has (mbxatr (mbxcb_table s i)) TA_MPRI"
  let ?us = "if ?pri then takeWhile (\<lambda>x. \<not> msg_pri s x > msg_pri s m) ms else ms"
  let ?vs = "if ?pri then dropWhile (\<lambda>x. \<not> msg_pri s x > msg_pri s m) ms else []"
  define q where "q = (if ?us = [] then MHead i else MAt (last ?us))"
  define s1 where "s1 = set_next q m (set_next (MAt m) (msg_next s q) s)"
  define s' where "s' = (if ?pri then s1 else upd_mbxcb i (\<lambda>c. c\<lparr>mq_tail := m\<rparr>) s1)"
  note p = mbx_okD(5) [OF ok ex]
  have ci: "mbx_content i s = Some (?us @ ?vs)" using c by simp
  note l = mbx_link_in [OF ok ex ci m q_def, folded s1_def]
  have f: "tcbs s' = tcbs s" "que s' = que s" "max_mbxid s' = max_mbxid s" "msg_next s' = msg_next s1"
    "free_mbxcb s' = free_mbxcb s" "msg_pri s' = msg_pri s" "kinv s' = kinv s"
    "mbxid (mbxcb_table s' i) = mbxid (mbxcb_table s i)"
    "mbxatr (mbxcb_table s' i) = mbxatr (mbxcb_table s i)"
    by (simp_all add: s'_def s1_def)
  have tj: "j \<noteq> i \<Longrightarrow> mbxcb_table s' j = mbxcb_table s j" for j by (simp add: s'_def s1_def)
  have c1: "mbx_content j s' = mbx_content j s1" for j by (simp add: mbx_content_def f)
  have cont: "mbx_content i s' = Some (if ?pri
       then insert_before (\<lambda>x. msg_pri s x > msg_pri s m) m ms else ms @ [m])"
    using l(1) by (simp add: c1 insert_before_split)
  have ej: "mbx_exists j s' = mbx_exists j s" for j
    using f(8) tj by (cases "j = i") (auto simp: mbx_exists_def f)
  have dis: "mbx_disjoint s'"
  proof -
    have "mbx_exists j s1 = mbx_exists j s" for j by (simp add: mbx_exists_def s1_def)
    then show ?thesis using l(3) by (simp add: mbx_disjoint_def c1 ej)
  qed
  have "sorted (map (msg_pri s) ms)" if ?pri
    using p c that by (simp add: mbx_obj_pre_def Let_def)
  then have "sorted (map (msg_pri s) (insert_before (\<lambda>x. msg_pri s x > msg_pri s m) m ms))" if ?pri
    using that by (intro sorted_insert_before) simp
  moreover have "mq_tail (mbxcb_table s' i) = m" if "\<not> ?pri" using that by (simp add: s'_def)
  moreover have "mbx_obj_pre i s \<longleftrightarrow> mbxid (mbxcb_table s i) = i \<and> chk_id (max_mbxid s) i \<and>
      (if ?pri then sorted (map (msg_pri s) ms) else ms \<noteq> [] \<longrightarrow> mq_tail (mbxcb_table s i) = last ms) \<and>
      (\<forall>t \<in> set (que s (WaitQ OMbx i)). rel_wai_hook (wspec (tcbs s t)) = None \<and>
            chg_pri_hook (wspec (tcbs s t)) =
              (if has (mbxatr (mbxcb_table s i)) TA_TPRI then Some H_mbx_chg_pri else None))"
    by (simp add: mbx_obj_pre_def Let_def c)
  ultimately have "mbx_obj_pre i s'"
    using p unfolding mbx_obj_pre_def [of i s'] Let_def cont f by simp
  moreover have "mbx_obj_settled i s'" using nw by (simp add: mbx_obj_settled_def f)
  ultimately have pre: "mbx_obj_pre i s' \<and> mbx_obj_settled i s'" by blast
  have dj: "mbx_data s' j = mbx_data s j" if "j \<noteq> i" for j
    using that tj f l(2) c1 by (intro mbx_data_other) simp_all
  have pool: "mbx_pool_ok s'"
  proof (rule mbxo.frame [OF mbx_okD(3) [OF ok, of i]])
    show "mbx_data s' j = mbx_data s j" if "j \<noteq> i" for j by (rule dj [OF that])
  qed (use mbx_okD(1) [OF ok] f pre ex in \<open>simp_all add: same_waits_tcbs mbx_exists_def\<close>)
  have cs: "mchain (msg_next s) (MHead i) ms" using c by (simp add: mbx_content_iff)
  have "tk_snd_mbx i m s = Some (E_OK, s')"
  proof (cases ?pri)
    case True
    have "mpri_search (msg_next s) (msg_pri s) (msg_pri s m) (MHead i) = Some q"
      using mpri_search_chain [OF cs] True by (simp add: q_def Let_def)
    then show ?thesis
      using ex nw True pri
      by (simp add: tk_snd_mbx_def mbx_exists_def queue_insert_mpri_def s'_def s1_def Let_def)
  next
    case False
    have nm: "m \<notin> set ms" using m(2) [OF ex c] .
    have "msg_next s q = NULL"
      using mchain_end [OF cs] False by (cases "ms = []") (simp_all add: q_def)
    moreover have "headmsg i (set_next (MAt m) NULL s) = NULL \<longleftrightarrow> ms = []"
      using cs by (cases ms) (auto simp: headmsg_def)
    moreover have "ms \<noteq> [] \<Longrightarrow> mq_tail (mbxcb_table s i) = last ms"
      using p c False by (simp add: mbx_obj_pre_def Let_def)
    ultimately show ?thesis
      using ex nw False by (auto simp: tk_snd_mbx_def mbx_exists_def s'_def s1_def q_def Let_def)
  qed
  then show thesis
    by (rule that [OF _ mbx_okI [OF pool dis] cont]) (use l(2) f ej in \<open>simp_all add: c1\<close>)
qed

text \<open>A message for a waiting task goes to the task.\<close>

lemma mbx_more_data:
  assumes "kst.more s' = kst.more s"
  shows "mbx_data s' = mbx_data s" "mbx_disjoint s' = mbx_disjoint s"
    "mbx_content i s' = mbx_content i s" "mbx_exists i s' = mbx_exists i s"
    "free_mbxcb s' = free_mbxcb s" "max_mbxid s' = max_mbxid s"
  using mbx_same_mem [of s' s] mbx_more [OF assms] by simp_all

lemma tk_snd_mbx_deliver:
  fixes s :: "'a mbx_st_scheme"
  assumes ok: "mbx_ok s" and ex: "mbx_exists i s" and q: "que s (WaitQ OMbx i) = t # ts"
    and pri: "has (mbxatr (mbxcb_table s i)) TA_MPRI \<Longrightarrow> msg_pri s m > 0"
  defines "p \<equiv> mbx_ppk_msg (winfo (tcbs s t))"
  obtains s' where "tk_snd_mbx i m s = Some (E_OK, s')" "mbx_ok s'"
    "mem_ptr s' = (mem_ptr s)(p := m)" "\<And>j. mbx_content j s' = mbx_content j s"
    "que s' (WaitQ OMbx i) = ts" "tstate (tcbs s' t) = released (tstate (tcbs s t))"
    "wercd (tcbs s' t) = E_OK" "sched_ok s \<Longrightarrow> sched_ok s'"
proof -
  let ?s1 = "s\<lparr>mem_ptr := (mem_ptr s)(p := m)\<rparr>"
  let ?s2 = "wait_release_ok t ?s1"
  note k = mbx_okD(1) [OF ok]
  have w: "in_wait (tstate (tcbs s t))" using kinv_xD(5) [OF k, of t OMbx i] q by simp
  have ok1: "mbx_pool_ok ?s1"
    using k by (intro mbxo.same [OF mbx_okD(2) [OF ok]]) (simp_all add: same_waits_tcbs)
  have k1: "kinv ?s1" using k by simp
  have m1: "kst.more ?s2 = kst.more s" "kst.more (wait_release t ?s1) = kst.more ?s1"
    "kst.more (set_wercd t E_OK (wait_release t ?s1)) = kst.more (wait_release t ?s1)" by simp_all
  have "mbx_pool_ok (wait_release t ?s1)"
    using w by (intro mbxo.release_ok [OF ok1]) (simp_all add: mbx_more_data [OF m1(2)])
  then have "mbx_pool_ok ?s2"
    unfolding wait_release_ok_def
    by (rule mbxo.same) (use wait_release_kinv_x [OF k1, of t] w in
        \<open>simp_all add: same_waits_def mbx_more_data [OF m1(3)]\<close>)
  then have ok2: "mbx_ok ?s2"
    by (rule mbx_okI) (simp add: mbx_more_data [OF m1(1)] mbx_okD(4) [OF ok])
  have dq: "distinct (t # ts)" using que_ok_distinct [OF kinv_xD(2) [OF k], of "WaitQ OMbx i"] q by simp
  have f: "que ?s2 (WaitQ OMbx i) = ts" "tstate (tcbs ?s2 t) = released (tstate (tcbs s t))"
    "wercd (tcbs ?s2 t) = E_OK" "sched_ok s \<Longrightarrow> sched_ok ?s2"
    using wait_release_que [OF k1, of t OMbx i] w dq q wait_release_sched_ok [OF k1, of t]
    by (simp_all add: wait_release_ok_def removeAll_id)
  have e: "tk_snd_mbx i m s = Some (E_OK, ?s2)"
    using ex q pri by (auto simp: tk_snd_mbx_def mbx_exists_def Let_def p_def)
  show thesis
    by (rule that [OF e ok2]) (use f in \<open>simp_all add: mbx_more_data [OF m1(1)]\<close>)
qed

text \<open>Sending returns and keeps the invariant.\<close>

lemma tk_snd_mbx_ok:
  fixes s :: "'a mbx_st_scheme"
  assumes ok: "mbx_ok s" and m: "m \<noteq> NULL"
    "\<And>j ms. mbx_exists j s \<Longrightarrow> mbx_content j s = Some ms \<Longrightarrow> m \<notin> set ms"
  shows "\<exists>r s'. tk_snd_mbx i m s = Some (r, s') \<and> mbx_ok s'"
proof (cases "mbx_exists i s \<and> (has (mbxatr (mbxcb_table s i)) TA_MPRI \<longrightarrow> msg_pri s m > 0)")
  case True
  then have ex: "mbx_exists i s" and pri: "has (mbxatr (mbxcb_table s i)) TA_MPRI \<Longrightarrow> msg_pri s m > 0"
    by blast+
  obtain ms where c: "mbx_content i s = Some ms" using mbx_pre_content mbx_okD(5) [OF ok ex] by blast
  show ?thesis
  proof (cases "que s (WaitQ OMbx i)")
    case Nil
    show ?thesis by (rule tk_snd_mbx_store [OF ok ex c m Nil pri]) blast+
  next
    case (Cons t ts)
    show ?thesis by (rule tk_snd_mbx_deliver [OF ok ex Cons pri]) blast+
  qed
next
  case False
  then show ?thesis using ok by (auto simp: tk_snd_mbx_def mbx_exists_def)
qed

text \<open>Receiving takes the first message.\<close>

lemma mbx_take:
  fixes s :: "'a mbx_st_scheme" and p :: addr
  assumes ok: "mbx_ok s" and ex: "mbx_exists i s" and c: "mbx_content i s = Some (m # ms)"
  defines "s' \<equiv> set_next (MHead i) (msg_next s (MAt m)) (s\<lparr>mem_ptr := (mem_ptr s)(p := m)\<rparr>)"
  shows "mbx_ok s'" "mbx_content i s' = Some ms"
    "j \<noteq> i \<Longrightarrow> mbx_content j s' = mbx_content j s" "mbx_exists j s' = mbx_exists j s"
    "mem_ptr s' p = m" "tcbs s' = tcbs s" "que s' = que s"
proof -
  have ch: "mchain (msg_next s) (MHead i) (m # ms)" using c by (simp add: mbx_content_iff)
  have nx: "msg_next s' = (msg_next s)(MHead i := msg_next s (MAt m))" by (simp add: s'_def fun_eq_iff)
  have f: "tcbs s' = tcbs s" "que s' = que s" "mbxcb_table s' = mbxcb_table s"
    "max_mbxid s' = max_mbxid s" "free_mbxcb s' = free_mbxcb s" "msg_pri s' = msg_pri s"
    "kinv s' = kinv s" "mem_ptr s' p = m" by (simp_all add: s'_def)
  have "mchain (msg_next s') (MHead i) ms"
    using ch unfolding nx by (cases ms) (auto intro: mchain_upd)
  then show c': "mbx_content i s' = Some ms" by (simp add: mbx_content_iff)
  have l: "msg_list (msg_next s') (MHead j) = msg_list (msg_next s) (MHead j)" if "j \<noteq> i" for j
  proof -
    have "mchain (msg_next s') (MHead j) xs = mchain (msg_next s) (MHead j) xs" for xs
    proof
      show "mchain (msg_next s) (MHead j) xs \<Longrightarrow> mchain (msg_next s') (MHead j) xs"
        unfolding nx using that by (intro mchain_upd) simp_all
      show "mchain (msg_next s') (MHead j) xs \<Longrightarrow> mchain (msg_next s) (MHead j) xs"
        unfolding nx using that by (intro mchain_cong [where lk' = "msg_next s"
            and lk = "(msg_next s)(MHead i := msg_next s (MAt m))"]) simp_all
    qed
    then show ?thesis by (metis msg_list_iff not_Some_eq)
  qed
  show cj: "mbx_content j s' = mbx_content j s" if "j \<noteq> i" for j
    using l [OF that] by (simp add: mbx_content_def)
  show ej: "mbx_exists j s' = mbx_exists j s" for j by (simp add: mbx_exists_def f)
  note p = mbx_okD(5) [OF ok ex] and st = mbx_okD(6) [OF ok ex]
  have "mbx_obj_pre i s'"
    using p unfolding mbx_obj_pre_def Let_def c c' f by (simp split: if_splits)
  moreover have "que s (WaitQ OMbx i) = []" using st c by (auto simp: mbx_obj_settled_def)
  then have "mbx_obj_settled i s'" by (simp add: mbx_obj_settled_def f)
  ultimately have pre: "mbx_obj_pre i s' \<and> mbx_obj_settled i s'" by blast
  have dj: "mbx_data s' j = mbx_data s j" if "j \<noteq> i" for j
    using that f cj by (intro mbx_data_other) simp_all
  have pool: "mbx_pool_ok s'"
  proof (rule mbxo.frame [OF mbx_okD(3) [OF ok, of i]])
    show "mbx_data s' j = mbx_data s j" if "j \<noteq> i" for j by (rule dj [OF that])
  qed (use mbx_okD(1) [OF ok] f pre ex in \<open>simp_all add: same_waits_tcbs mbx_exists_def\<close>)
  have "mbx_disjoint s'"
    unfolding mbx_disjoint_def ej
  proof (intro allI impI)
    fix j k as bs
    assume jk: "j \<noteq> k" and e: "mbx_exists j s" "mbx_exists k s"
      and c2: "mbx_content j s' = Some as" "mbx_content k s' = Some bs"
    note dis = mbx_okD(4) [OF ok, unfolded mbx_disjoint_def, rule_format, OF jk e]
    consider "j = i" "k \<noteq> i" | "k = i" "j \<noteq> i" | "j \<noteq> i" "k \<noteq> i" using jk by blast
    then show "set as \<inter> set bs = {}"
      by cases (use dis [of "m # ms" bs] dis [of as "m # ms"] dis [of as bs] c c' c2 cj in auto)
  qed
  then show "mbx_ok s'" using mbx_okI pool by blast
  show "mem_ptr s' p = m" "tcbs s' = tcbs s" "que s' = que s" by (simp_all add: f)
qed

lemma headmsg_content:
  "mbx_content i s = Some ms \<Longrightarrow> headmsg i s = (case ms of [] \<Rightarrow> NULL | m # _ \<Rightarrow> m)"
  by (cases ms) (auto simp: mbx_content_iff headmsg_def)

text \<open>A task that finds no message starts to wait.\<close>

lemma mbx_call_wait_ok:
  fixes s :: "'a mbx_st_scheme"
  assumes ok: "mbx_ok s" and r: "running t s" and ex: "mbx_exists i s" and c: "mbx_content i s = Some []"
  shows "mbx_ok (call_wait OMbx i (mbxatr (mbxcb_table s i)) tmout
    (if has (mbxatr (mbxcb_table s i)) TA_TPRI then wspec_mbx_tpri else wspec_mbx_tfifo)
    (WI_mbx p) s)" (is "mbx_ok ?s'")
proof -
  have m: "kst.more ?s' = kst.more s" by simp
  note d = mbx_more_data [OF m]
  note c1 = call_wait [OF mbx_okD(1) [OF ok] r, where kd = OMbx and i = i
      and atr = "mbxatr (mbxcb_table s i)" and tmout = tmout
      and w = "if has (mbxatr (mbxcb_table s i)) TA_TPRI then wspec_mbx_tpri else wspec_mbx_tfifo"
      and f = "WI_mbx p"]
  have sub: "set (que ?s' (WaitQ OMbx i)) \<subseteq> insert t (set (que s (WaitQ OMbx i)))"
    by (simp add: c1(2)) blast
  note p = mbx_okD(5) [OF ok ex]
  have mem: "rel_wai_hook (wspec (tcbs ?s' u)) = None \<and> chg_pri_hook (wspec (tcbs ?s' u)) =
        (if has (mbxatr (mbxcb_table s i)) TA_TPRI then Some H_mbx_chg_pri else None)"
    if "u \<in> set (que ?s' (WaitQ OMbx i))" for u
  proof (cases "u = t")
    case False
    then have "u \<in> set (que s (WaitQ OMbx i))" using that sub by blast
    then show ?thesis using False p by (simp add: c1(4) mbx_obj_pre_def Let_def)
  qed (simp add: c1(4))
  have "mbx_obj_pre i ?s'"
    using p mem c unfolding mbx_obj_pre_def Let_def d mbx_frame by auto
  moreover have "mbx_obj_settled i ?s'" using ex c by (simp add: mbx_obj_settled_def d)
  ultimately have "mbx_pool_ok ?s'"
    using ex c1(5) by (intro mbxo.frame [OF mbx_okD(3) [OF ok, of i] c1(1)]) (simp_all add: d mbx_exists_def)
  then show ?thesis by (rule mbx_okI) (simp add: d mbx_okD(4) [OF ok])
qed

lemma tk_rcv_mbx_u_ok:
  fixes s :: "'a mbx_st_scheme"
  assumes ok: "mbx_ok s" and r: "in_ddsp s \<or> running (me s) s"
  shows "mbx_ok (snd (tk_rcv_mbx_u i p tmout s))"
proof -
  have "mbx_ok (snd (tk_rcv_mbx_u i p tmout s))"
    if ex: "mbx_exists i s" and c: "mbx_content i s = Some ms" for ms
    using ex ok r mbx_take(1) [OF ok ex, where p = p] mbx_call_wait_ok [OF ok _ ex] c headmsg_content [OF c]
      mchain_NULL [of "msg_next s" "MHead i" ms]
    by (auto simp: tk_rcv_mbx_u_def mbx_exists_def Let_def mbx_content_iff split: list.splits)
  moreover have "mbx_ok (snd (tk_rcv_mbx_u i p tmout s))" if "\<not> mbx_exists i s"
    using that ok by (auto simp: tk_rcv_mbx_u_def mbx_exists_def Let_def)
  ultimately show ?thesis using mbx_pre_content [OF mbx_okD(5) [OF ok]] by blast
qed

text \<open>A receiver finds the oldest message, or the one of highest priority.\<close>

lemma tk_rcv_mbx_u_takes:
  fixes s :: "'a mbx_st_scheme"
  assumes ok: "mbx_ok s" and ex: "mbx_exists i s" and c: "mbx_content i s = Some (m # ms)"
    and "chk_tmout tmout" "\<not> in_ddsp s" "\<not> is_diswai (mbxatr (mbxcb_table s i)) (me s) TTW_MBX s"
  obtains s' where "tk_rcv_mbx_u i p tmout s = (Ret E_OK, s')" "mbx_ok s'" "mbx_content i s' = Some ms"
    "mem_ptr s' p = m" "tcbs s' = tcbs s" "que s' = que s"
proof -
  note t = mbx_take [OF ok ex c, where p = p]
  have "m \<noteq> NULL" using c by (simp add: mbx_content_iff)
  then have "tk_rcv_mbx_u i p tmout s =
      (Ret E_OK, set_next (MHead i) (msg_next s (MAt m)) (s\<lparr>mem_ptr := (mem_ptr s)(p := m)\<rparr>))"
    using assms headmsg_content [OF c] by (simp add: tk_rcv_mbx_u_def mbx_exists_def Let_def)
  then show thesis by (rule that) (rule t)+
qed

section \<open>The other operations\<close>

lemma tk_cre_mbx_ok:
  fixes s :: "'a mbx_st_scheme"
  assumes ok: "mbx_ok s"
  shows "mbx_ok (snd (tk_cre_mbx pk s))"
proof (cases "free_mbxcb s")
  case Nil
  then show ?thesis using ok by (simp add: tk_cre_mbx_def)
next
  case (Cons i free)
  define s1 where "s1 = upd_mbxcb i (\<lambda>c. c\<lparr>mbxid := i, mbx_exinf := cm_exinf pk,
      mbxatr := cm_mbxatr pk\<rparr>) (s\<lparr>free_mbxcb := free\<rparr>)"
  define s3 where "s3 = (if has (cm_mbxatr pk) TA_DSNAME
      then upd_mbxcb i (\<lambda>c. c\<lparr>mbx_name := tkl_strncpy (cm_dsname pk) OBJECT_NAME_LENGTH\<rparr>)
        (set_next (MHead i) NULL s1) else set_next (MHead i) NULL s1)"
  have i: "chk_id (max_mbxid s) i" "\<not> mbx_exists i s"
    using mbxo.weakD(3) [OF mbx_okD(3) [OF ok], of i] Cons by (auto simp: mbx_exists_def)
  then have i1: "i \<noteq> 0" by (auto simp: chk_id_def)
  have e: "que s (WaitQ OMbx i) = []" using mbx_okD(7) [OF ok] i by simp
  have f: "tcbs s3 = tcbs s" "que s3 = que s" "max_mbxid s3 = max_mbxid s" "free_mbxcb s3 = free"
    "msg_pri s3 = msg_pri s" "kinv s3 = kinv s" "mbxid (mbxcb_table s3 i) = i"
    "j \<noteq> i \<Longrightarrow> mbxcb_table s3 j = mbxcb_table s j"
    "msg_next s3 = (msg_next s)(MHead i := NULL)" for j
    by (simp_all add: s3_def s1_def fun_eq_iff)
  have ci: "mbx_content i s3 = Some []" by (simp add: mbx_content_iff f)
  have cj: "mbx_content j s3 = mbx_content j s" if j: "j \<noteq> i" "mbx_exists j s" for j
  proof -
    obtain ms where ms: "mbx_content j s = Some ms"
      using mbx_pre_content mbx_okD(5) [OF ok j(2)] by blast
    then have "mbx_content j s3 = Some ms"
      unfolding mbx_content_iff f using j by (intro mchain_upd) simp_all
    then show ?thesis using ms by simp
  qed
  have dj: "mbx_data s3 j = mbx_data s j" if "j \<noteq> i" for j
    using that f cj by (intro mbx_data_other) simp_all
  have "mbx_obj_pre i s3" "mbx_obj_settled i s3"
    using i i1 e by (simp_all add: mbx_obj_pre_def mbx_obj_settled_def Let_def ci f)
  then have pool: "mbx_pool_ok s3"
    using mbx_okD(1) [OF ok] f dj i1
    by (intro mbxo.create [OF mbx_okD(2) [OF ok] Cons]) (simp_all add: same_waits_tcbs)
  have ej: "mbx_exists j s3 \<longleftrightarrow> j = i \<or> mbx_exists j s" for j
    using f i i1 by (cases "j = i") (auto simp: mbx_exists_def)
  have "mbx_disjoint s3"
    unfolding mbx_disjoint_def ej
  proof (intro allI impI)
    fix j k as bs
    assume jk: "j \<noteq> k" and e: "j = i \<or> mbx_exists j s" "k = i \<or> mbx_exists k s"
      and c2: "mbx_content j s3 = Some as" "mbx_content k s3 = Some bs"
    consider "j = i" | "k = i" | "j \<noteq> i" "k \<noteq> i" by blast
    then show "set as \<inter> set bs = {}"
    proof cases
      case 3
      then show ?thesis
        using mbx_okD(4) [OF ok, unfolded mbx_disjoint_def, rule_format, OF jk, of as bs] e c2 cj by simp
    qed (use ci c2 in simp_all)
  qed
  then have "mbx_ok s3" using mbx_okI pool by blast
  then show ?thesis
    unfolding s3_def s1_def using Cons ok by (simp add: tk_cre_mbx_def Let_def)
qed

lemma tk_del_mbx_ok:
  fixes s :: "'a mbx_st_scheme"
  assumes ok: "mbx_ok s"
  shows "mbx_ok (snd (tk_del_mbx i s))"
proof -
  let ?w = "wait_delete OMbx i s"
  define s2 where "s2 = upd_mbxcb i (\<lambda>c. c\<lparr>mbxid := 0\<rparr>) (?w\<lparr>free_mbxcb := free_mbxcb s @ [i]\<rparr>)"
  note k = mbx_okD(1) [OF ok]
  note w = wait_delete_spec [OF k, of OMbx i]
  have f: "tcbs s2 = tcbs ?w" "que s2 = que ?w" "max_mbxid s2 = max_mbxid s"
    "free_mbxcb s2 = free_mbxcb s @ [i]" "msg_pri s2 = msg_pri s" "kinv s2 = kinv ?w"
    "mbxid (mbxcb_table s2 i) = 0" "j \<noteq> i \<Longrightarrow> mbxcb_table s2 j = mbxcb_table s j"
    "msg_next s2 = msg_next s" for j
    by (simp_all add: s2_def)
  have cj: "mbx_content j s2 = mbx_content j s" for j by (simp add: mbx_content_def f)
  have ej: "mbx_exists j s2 \<longleftrightarrow> j \<noteq> i \<and> mbx_exists j s" for j
    using f(7,8) by (cases "j = i") (auto simp: mbx_exists_def f(3))
  have dj: "mbx_data s2 j = mbx_data s j" if "j \<noteq> i" for j
    using that f cj by (intro mbx_data_other) simp_all
  have sw: "same_waits s2 s OMbx j" if "j \<noteq> i" for j
    by (rule same_waits_trans [OF same_waits_tcbs same_waits_delete [OF k, of OMbx _ _ i]])
      (use that f in simp_all)
  have "mbx_ok s2" if ex: "mbx_exists i s"
  proof (rule mbx_okI)
    show "mbx_pool_ok s2"
      by (rule mbxo.delete [OF mbx_okD(2) [OF ok], of i])
        (use ex w f dj sw in \<open>simp_all add: mbx_exists_def\<close>)
    show "mbx_disjoint s2" using mbx_okD(4) [OF ok] unfolding mbx_disjoint_def ej cj by blast
  qed
  then show ?thesis using ok by (simp add: tk_del_mbx_def Let_def mbx_exists_def s2_def)
qed

lemma mbx_chg_pri_ok:
  fixes s :: "'a mbx_st_scheme"
  assumes ok: "mbx_ok s" and t: "t \<in> set (que s (WaitQ OMbx i))"
  shows "mbx_ok (mbx_chg_pri t old s)"
proof -
  note k = mbx_okD(1) [OF ok]
  have w: "in_wait (tstate (tcbs s t))" "wid (tcbs s t) = i" using kinv_xD(5) [OF k t] by auto
  let ?s' = "gcb_change_priority (WaitQ OMbx i) t s"
  have m: "kst.more ?s' = kst.more s" by (simp add: gcb_change_priority_frame)
  note d = mbx_more_data [OF m]
  have ex: "mbx_exists i s" using mbxo.waits_exists [OF mbx_okD(3) [OF ok] t] by (simp add: mbx_exists_def)
  have ti: "set (que ?s' (WaitQ OMbx i)) = set (que s (WaitQ OMbx i))"
    using t by (auto simp: gcb_change_priority_que)
  have pre: "mbx_obj_pre i ?s'"
    using mbx_okD(5) [OF ok ex]
    unfolding mbx_obj_pre_def Let_def ti d mbx_frame gcb_change_priority_frame by simp
  have st: "mbx_obj_settled i ?s'"
    using mbx_okD(6) [OF ok ex] t unfolding mbx_obj_settled_def d by force
  have "mbx_pool_ok ?s'"
  proof (rule mbxo.frame [OF mbx_okD(3) [OF ok, of i] gcb_change_priority_kinv_x [OF k w]])
    show "same_waits ?s' s kd j" if "j \<noteq> i" "kd \<in> {OMbx}" for j kd
    proof -
      have "t \<notin> set (que s (WaitQ OMbx j))"
        using t that que_okD [OF kinv_xD(2) [OF k], of t "WaitQ OMbx j" "WaitQ OMbx i"] by auto
      then show ?thesis using that by (simp add: same_waits_def gcb_change_priority_que gcb_change_priority_frame)
    qed
  qed (use ex pre st in \<open>simp_all add: mbx_exists_def d\<close>)
  then have "mbx_ok ?s'" by (rule mbx_okI) (simp add: d mbx_okD(4) [OF ok])
  then show ?thesis by (simp add: mbx_chg_pri_def w)
qed

lemma mbx_ok_kst:
  assumes "mbx_pool_ok s'" "mbx_ok s" "kst.more s' = kst.more s"
  shows "mbx_ok s'"
  using assms(1) by (rule mbx_okI) (simp add: mbx_more_data [OF assms(3)] mbx_okD(4) [OF assms(2)])

lemma mbx_ok_set_wercd:
  assumes "mbx_ok s"
  shows "mbx_ok (set_wercd t e s)"
proof -
  have m: "kst.more (set_wercd t e s) = kst.more s" by simp
  have "mbx_pool_ok (set_wercd t e s)"
    by (rule mbxo.same [OF mbx_okD(2) [OF assms]])
      (simp_all add: mbx_okD(1) [OF assms] mbx_more_data [OF m] same_waits_def)
  then show ?thesis using mbx_ok_kst assms m by blast
qed

lemma mbx_no_rel_hook:
  assumes ok: "mbx_ok s" and t: "t \<in> set (que s (WaitQ OMbx i))"
  shows "rel_wai_hook (wspec (tcbs s t)) = None"
proof -
  have "mbx_exists i s" using mbxo.waits_exists [OF mbx_okD(3) [OF ok] t] by (simp add: mbx_exists_def)
  then show ?thesis using mbx_okD(5) [OF ok] t by (simp add: mbx_obj_pre_def Let_def)
qed

lemma mbx_wait_release_ng_ok:
  fixes s :: "'a mbx_st_scheme"
  assumes ok: "mbx_ok s" and t: "t \<in> set (que s (WaitQ OMbx i))"
  shows "mbx_ok (wait_release_ng rel_hook t e s)"
proof -
  have w: "in_wait (tstate (tcbs s t))" using kinv_xD(5) [OF mbx_okD(1) [OF ok] t] by simp
  have m: "kst.more (wait_release t s) = kst.more s" by simp
  have "mbx_ok (wait_release t s)"
    by (rule mbx_ok_kst [OF mbxo.release_ok [OF mbx_okD(2) [OF ok] w] ok m])
      (simp_all add: mbx_more_data [OF m])
  then show ?thesis
    using mbx_no_rel_hook [OF ok t] by (simp add: wait_release_ng_def Let_def mbx_ok_set_wercd)
qed

lemma mbx_wait_release_tmout_ok:
  fixes s :: "'a mbx_st_scheme"
  assumes ok: "mbx_ok s" and t: "t \<in> set (que s (WaitQ OMbx i))"
  shows "mbx_ok (wait_release_tmout rel_hook t s)"
proof -
  have w: "in_wait (tstate (tcbs s t))" using kinv_xD(5) [OF mbx_okD(1) [OF ok] t] by simp
  have m: "kst.more (make_non_wait t (que_remove t s)) = kst.more s" by simp
  have "mbx_ok (make_non_wait t (que_remove t s))"
    by (rule mbx_ok_kst [OF mbxo.timeout_ok [OF mbx_okD(2) [OF ok] w] ok m])
      (simp_all add: mbx_more_data [OF m])
  then show ?thesis
    using mbx_no_rel_hook [OF ok t] by (simp add: wait_release_tmout_def Let_def)
qed

inductive mbx_sys_step :: "'a mbx_st_scheme \<Rightarrow> 'a mbx_st_scheme \<Rightarrow> bool" where
  cre: "mbx_sys_step s (snd (tk_cre_mbx pk s))"
| del: "mbx_sys_step s (snd (tk_del_mbx i s))"
| snd: "m \<noteq> NULL \<Longrightarrow> (\<And>j ms. mbx_exists j s \<Longrightarrow> mbx_content j s = Some ms \<Longrightarrow> m \<notin> set ms) \<Longrightarrow>
    tk_snd_mbx i m s = Some (r, s') \<Longrightarrow> mbx_sys_step s s'"
| rcv: "in_ddsp s \<or> running (me s) s \<Longrightarrow> mbx_sys_step s (snd (tk_rcv_mbx i p tmout s))"
| rcv_u: "in_ddsp s \<or> running (me s) s \<Longrightarrow> mbx_sys_step s (snd (tk_rcv_mbx_u i p tmout s))"
| release: "t \<in> set (que s (WaitQ OMbx i)) \<Longrightarrow> mbx_sys_step s (wait_release_ng rel_hook t e s)"
| timeout: "t \<in> set (que s (WaitQ OMbx i)) \<Longrightarrow> mbx_sys_step s (wait_release_tmout rel_hook t s)"
| chg_pri: "t \<in> set (que s (WaitQ OMbx i)) \<Longrightarrow> mbx_sys_step s (mbx_chg_pri t old s)"
| dispatch: "mbx_sys_step s (s\<lparr>ctxtsk := schedtsk s\<rparr>)"

lemma mbx_ok_dispatch:
  assumes "mbx_ok s"
  shows "mbx_ok (s\<lparr>ctxtsk := t\<rparr>)"
proof (rule mbx_okI)
  have d: "mbx_data (s\<lparr>ctxtsk := t\<rparr>) = mbx_data s" "mbx_disjoint (s\<lparr>ctxtsk := t\<rparr>) = mbx_disjoint s"
    by (rule mbx_same_mem; simp)+
  show "mbx_pool_ok (s\<lparr>ctxtsk := t\<rparr>)"
    by (rule mbxo.same [OF mbx_okD(2) [OF assms]])
      (simp_all add: mbx_okD(1) [OF assms] d same_waits_def)
  show "mbx_disjoint (s\<lparr>ctxtsk := t\<rparr>)" using mbx_okD(4) [OF assms] by (simp add: d)
qed

lemma mbx_sys_step_ok: "mbx_sys_step s s' \<Longrightarrow> mbx_ok s \<Longrightarrow> mbx_ok s'"
proof (induction rule: mbx_sys_step.induct)
  case (snd m s i r s')
  then show ?case using tk_snd_mbx_ok [of s m i] by fastforce
qed (auto simp: tk_cre_mbx_ok tk_del_mbx_ok tk_rcv_mbx_u_ok tk_rcv_mbx_def
      mbx_wait_release_ng_ok mbx_wait_release_tmout_ok mbx_chg_pri_ok mbx_ok_dispatch)

lemma mbx_sys_steps_ok: "mbx_sys_step\<^sup>*\<^sup>* s s' \<Longrightarrow> mbx_ok s \<Longrightarrow> mbx_ok s'"
  by (induction rule: rtranclp_induct) (auto intro: mbx_sys_step_ok)


end
