(* ===== verification/Mbf_Ring.thy ===== *)
theory Mbf_Ring
  imports Mailbox
begin

text \<open>
  The ring buffer of a message buffer (\<open>messagebuf.c\<close>): a message is stored as a header with its
  size and its bytes, rounded up to whole words, and wraps around the end of the buffer. The
  buffer is a block of its own from the kernel's allocator, \<open>None\<close> is the pointer \<open>NULL\<close>; the
  header is a little-endian word (\<open>BIGENDIAN\<close> is 0 for the machine). \<open>mbf_holds\<close> says which messages
  the bytes stand for; storing appends a message and fetching takes the first one.
\<close>

unbundle bit_operations_syntax

section \<open>The code\<close>

record mbfcb =
  mbfid :: ID
  mbf_exinf :: addr
  mbfatr :: ATR
  bufsz :: int
  maxmsz :: int
  frbufsz :: int
  mbf_head :: int
  mbf_tail :: int
  mbf_buffer :: "(int \<Rightarrow> UB) option"
  mbf_name :: "UB list"

definition HEADERSZ :: UINT where "HEADERSZ = 4"
definition ROUNDSIZE :: UINT where "ROUNDSIZE = 4"

definition ROUNDSZ :: "int \<Rightarrow> UINT" where
  "ROUNDSZ sz = (word_of_int sz + (ROUNDSIZE - 1)) AND NOT (ROUNDSIZE - 1)"

definition mbf_free :: "mbfcb \<Rightarrow> int \<Rightarrow> bool" where
  "mbf_free cb msgsz \<longleftrightarrow> HEADERSZ + word_of_int msgsz \<le> (word_of_int (frbufsz cb) :: UINT)"

definition mbf_empty :: "mbfcb \<Rightarrow> bool" where
  "mbf_empty cb \<longleftrightarrow> frbufsz cb = bufsz cb"

text \<open>\<open>*(HEADER*)&buffer[p]\<close>, written and read.\<close>

definition hdr_byte :: "int \<Rightarrow> nat \<Rightarrow> UB" where
  "hdr_byte x k = ucast (drop_bit (8 * k) (word_of_int x :: 32 word))"

definition put_header :: "int \<Rightarrow> int \<Rightarrow> (int \<Rightarrow> UB) \<Rightarrow> int \<Rightarrow> UB" where
  "put_header p x b =
     b(p := hdr_byte x 0, p + 1 := hdr_byte x 1, p + 2 := hdr_byte x 2, p + 3 := hdr_byte x 3)"

definition get_header :: "(int \<Rightarrow> UB) \<Rightarrow> int \<Rightarrow> int" where
  "get_header b p = sint
     (ucast (b p) OR push_bit 8 (ucast (b (p + 1))) OR push_bit 16 (ucast (b (p + 2)))
        OR push_bit 24 (ucast (b (p + 3))) :: 32 word)"

text \<open>\<open>MEMCPY\<close> into the buffer, out of the buffer, and within the memory of the tasks.\<close>

definition copy_in :: "int \<Rightarrow> (addr \<Rightarrow> UB) \<Rightarrow> addr \<Rightarrow> UINT \<Rightarrow> (int \<Rightarrow> UB) \<Rightarrow> int \<Rightarrow> UB" where
  "copy_in p mem src n b = (\<lambda>i. if p \<le> i \<and> i < p + uint n then mem (src + nat (i - p)) else b i)"

definition copy_out :: "addr \<Rightarrow> (int \<Rightarrow> UB) \<Rightarrow> int \<Rightarrow> UINT \<Rightarrow> (addr \<Rightarrow> UB) \<Rightarrow> addr \<Rightarrow> UB" where
  "copy_out dst b p n mem = (\<lambda>a. if dst \<le> a \<and> a < dst + unat n then b (p + int (a - dst)) else mem a)"

definition copy_mem :: "addr \<Rightarrow> addr \<Rightarrow> UINT \<Rightarrow> (addr \<Rightarrow> UB) \<Rightarrow> addr \<Rightarrow> UB" where
  "copy_mem dst src n mem = (\<lambda>a. if dst \<le> a \<and> a < dst + unat n then mem (src + (a - dst)) else mem a)"

definition msg_to_mbf :: "mbfcb \<Rightarrow> (addr \<Rightarrow> UB) \<Rightarrow> addr \<Rightarrow> int \<Rightarrow> mbfcb" where
  "msg_to_mbf cb mem msg msgsz =
     (let cb1 = cb\<lparr>frbufsz := frbufsz cb - sint (HEADERSZ + ROUNDSZ msgsz)\<rparr>;
          tail = mbf_tail cb; sz = bufsz cb;
          tail1 = tail + sint HEADERSZ;
          tail2 = (if tail1 \<ge> sz then 0 else tail1);
          remsz = sz - tail2;
          wraps = remsz < msgsz;
          msg' = (if wraps then msg + nat remsz else msg);
          msgsz' = (if wraps then msgsz - remsz else msgsz);
          tail3 = (if wraps then 0 else tail2);
          tail4 = tail3 + sint (ROUNDSZ msgsz');
          tail5 = (if tail4 \<ge> sz then 0 else tail4);
          store = (\<lambda>b. let b1 = put_header tail msgsz b;
                           b2 = (if wraps then copy_in tail2 mem msg (word_of_int remsz) b1 else b1)
                       in copy_in tail3 mem msg' (word_of_int msgsz') b2)
      in cb1\<lparr>mbf_tail := tail5, mbf_buffer := map_option store (mbf_buffer cb)\<rparr>)"

definition mbf_to_msg :: "mbfcb \<Rightarrow> (addr \<Rightarrow> UB) \<Rightarrow> addr \<Rightarrow> int \<times> mbfcb \<times> (addr \<Rightarrow> UB)" where
  "mbf_to_msg cb mem msg =
     (let head = mbf_head cb; sz = bufsz cb; b = the (mbf_buffer cb);
          msgsz = get_header b head;
          cb1 = cb\<lparr>frbufsz := frbufsz cb + sint (HEADERSZ + ROUNDSZ msgsz)\<rparr>;
          head1 = head + sint HEADERSZ;
          head2 = (if head1 \<ge> sz then 0 else head1);
          remsz = sz - head2;
          wraps = remsz < msgsz;
          mem1 = (if wraps then copy_out msg b head2 (word_of_int remsz) mem else mem);
          msg' = (if wraps then msg + nat remsz else msg);
          msgsz' = (if wraps then msgsz - remsz else msgsz);
          head3 = (if wraps then 0 else head2);
          mem2 = copy_out msg' b head3 (word_of_int msgsz') mem1;
          head4 = head3 + sint (ROUNDSZ msgsz');
          head5 = (if head4 \<ge> sz then 0 else head4)
      in (msgsz, cb1\<lparr>mbf_head := head5\<rparr>, mem2))"

section \<open>Sizes\<close>

definition round4 :: "int \<Rightarrow> int" where
  "round4 n = (n + 3) div 4 * 4"

lemma round4: "n \<le> round4 n" "round4 n < n + 4" "4 dvd round4 n"
  unfolding round4_def by presburger+

lemma ROUNDSZ_uint:
  assumes "0 \<le> n" "n < 2 ^ 32 - 4"
  shows "uint (ROUNDSZ n) = round4 n"
proof -
  have "ROUNDSZ n = (word_of_int (n + 3) :: 32 word) AND NOT (mask 2)"
    by (simp add: ROUNDSZ_def ROUNDSIZE_def mask_eq_exp_minus_1)
  then show ?thesis using uint_and_not_mask32 [of "n + 3" 2] assms by (simp add: round4_def)
qed

lemma ROUNDSZ_sint:
  assumes "0 \<le> n" "4 + round4 n < 2 ^ 31"
  shows "sint (ROUNDSZ n) = round4 n" "sint (HEADERSZ + ROUNDSZ n) = 4 + round4 n"
    "sint HEADERSZ = 4"
proof -
  have u: "uint (ROUNDSZ n) = round4 n"
    using assms round4(1) [of n] by (intro ROUNDSZ_uint) simp_all
  then show "sint (ROUNDSZ n) = round4 n" using assms by (subst sint_small32) simp_all
  have "uint HEADERSZ = 4" by (simp add: HEADERSZ_def)
  then have "uint (HEADERSZ + ROUNDSZ n) = (4 + round4 n) mod 2 ^ 32"
    unfolding uint_word_ariths(1) u by simp
  moreover have "0 \<le> round4 n" using assms(1) round4(1) [of n] by simp
  ultimately have "uint (HEADERSZ + ROUNDSZ n) = 4 + round4 n" using assms(2) by simp
  then show "sint (HEADERSZ + ROUNDSZ n) = 4 + round4 n" using assms by (subst sint_small32) simp_all
qed (simp add: HEADERSZ_def)

section \<open>The header\<close>

lemma bytes_word:
  "ucast (ucast (drop_bit 0 w) :: UB) OR push_bit 8 (ucast (ucast (drop_bit 8 w) :: UB))
     OR push_bit 16 (ucast (ucast (drop_bit 16 w) :: UB))
     OR push_bit 24 (ucast (ucast (drop_bit 24 w) :: UB)) = (w :: 32 word)"
proof (rule bit_word_eqI)
  fix n :: nat assume n: "n < LENGTH(32)"
  consider "n < 8" | "8 \<le> n" "n < 16" | "16 \<le> n" "n < 24" | "24 \<le> n" "n < 32" using n by fastforce
  then show "bit (ucast (ucast (drop_bit 0 w) :: UB) OR push_bit 8 (ucast (ucast (drop_bit 8 w) :: UB))
     OR push_bit 16 (ucast (ucast (drop_bit 16 w) :: UB))
     OR push_bit 24 (ucast (ucast (drop_bit 24 w) :: UB)) :: 32 word) n = bit w n"
    by cases (auto simp: bit_simps)
qed

lemma get_put_header:
  assumes "0 \<le> x" "x < 2 ^ 31"
    and b: "\<And>k. k < 4 \<Longrightarrow> b (p + int k) = hdr_byte x k"
  shows "get_header b p = x"
proof -
  let ?w = "word_of_int x :: 32 word"
  have 1: "b p = ucast (drop_bit 0 ?w)" "b (p + 1) = ucast (drop_bit 8 ?w)"
    "b (p + 2) = ucast (drop_bit 16 ?w)" "b (p + 3) = ucast (drop_bit 24 ?w)"
    using b [of 0] b [of 1] b [of 2] b [of 3] by (simp_all add: hdr_byte_def)
  have "get_header b p = sint ?w"
    unfolding get_header_def 1 by (simp only: bytes_word)
  also have "\<dots> = x"
    using assms(1,2) by (subst sint_small32) (simp_all add: uint_word_of_int_eq take_bit_int_eq_self)
  finally show ?thesis .
qed

section \<open>Positions in the ring\<close>

lemma ring_mod:
  assumes "0 \<le> p" "p < n" "0 \<le> k" "k < n"
  shows "(p + k) mod n = (if p + k < n then p + k else p + k - (n :: int))"
proof (cases "p + k < n")
  case False
  have "(p + k) mod n = (p + k - n) mod n" by (rule minus_mod_self2 [symmetric])
  also have "\<dots> = p + k - n" using False assms by (intro mod_pos_pos_trivial) simp_all
  finally show ?thesis using False by simp
qed (use assms in simp)

lemma dvd_gap: "(4 :: int) dvd a \<Longrightarrow> 4 dvd b \<Longrightarrow> a < b \<Longrightarrow> a + 4 \<le> b"
  by presburger

lemma put_header_at:
  "0 \<le> k \<Longrightarrow> k < 4 \<Longrightarrow> put_header p x b (p + k) = hdr_byte x (nat k)"
  "q < p \<or> p + 4 \<le> q \<Longrightarrow> put_header p x b q = b q"
proof -
  show "q < p \<or> p + 4 \<le> q \<Longrightarrow> put_header p x b q = b q" by (auto simp: put_header_def)
  assume k: "0 \<le> k" "k < 4"
  consider "k = 0" | "k = 1" | "k = 2" | "k = 3" using k by fastforce
  then show "put_header p x b (p + k) = hdr_byte x (nat k)" by cases (simp_all add: put_header_def)
qed

text \<open>Storing a message writes the ring from the tail on, and nothing else.\<close>

lemma msg_to_mbf_bytes:
  fixes cb :: mbfcb and mem :: "addr \<Rightarrow> UB" and msg :: addr and sz :: int
  defines "n \<equiv> bufsz cb" and "tp \<equiv> mbf_tail cb" and "cb' \<equiv> msg_to_mbf cb mem msg sz"
  assumes al: "4 dvd n" "4 dvd tp" "0 \<le> tp" "tp < n" "n < 2 ^ 31" and sz: "0 < sz" "4 + round4 sz \<le> n"
    and b: "mbf_buffer cb = Some b"
  obtains b' where "mbf_buffer cb' = Some b'"
    "\<And>k. 0 \<le> k \<Longrightarrow> k < n \<Longrightarrow> b' ((tp + k) mod n) =
       (if k < 4 then hdr_byte sz (nat k)
        else if k < 4 + sz then mem (msg + nat (k - 4)) else b ((tp + k) mod n))"
    "mbf_tail cb' = (tp + 4 + round4 sz) mod n"
    "frbufsz cb' = frbufsz cb - (4 + round4 sz)"
    "\<And>k. k < 0 \<or> k \<ge> n \<Longrightarrow> b' k = b k"
proof -
  define t2 where "t2 = (if tp + 4 \<ge> n then 0 else tp + 4)"
  have gap: "tp + 4 \<le> n" using dvd_gap al by blast
  have t2: "0 \<le> t2" "t2 < n" "4 dvd t2" "t2 = (tp + 4) mod n"
    using al gap by (auto simp: t2_def)
  have wraps: "n - t2 < sz \<longleftrightarrow> t2 + sz > n" by auto
  have rs: "n - t2 < 2 ^ 31" "4 dvd n - t2" using al(1,5) t2(1-3) by auto
  note r4 = round4 [of sz]
  have sz31: "sz < 2 ^ 31" using r4 sz al by simp
  define rem where "rem = sz - (n - t2)"
  have rr: "round4 rem = round4 sz - (n - t2)" if "n - t2 < sz"
  proof -
    obtain q where q: "n - t2 = 4 * q" using rs(2) by (elim dvdE)
    have "rem = sz - 4 * q" by (simp add: rem_def q)
    then show ?thesis unfolding q by (simp add: round4_def) presburger
  qed
  have u: "0 \<le> x \<Longrightarrow> x < 2 ^ 31 \<Longrightarrow> uint (word_of_int x :: UINT) = x" for x
    by (simp add: uint_word_of_int_eq take_bit_int_eq_self)
  have sr: "0 \<le> x \<Longrightarrow> x \<le> sz \<Longrightarrow> round4 x \<le> round4 sz" for x by (simp add: round4_def)
  have c31: "4 + round4 sz < 2 ^ 31" using sz al by simp
  have S: "sint (ROUNDSZ sz) = round4 sz" "sint (HEADERSZ + ROUNDSZ sz) = 4 + round4 sz"
    "sint HEADERSZ = 4" using ROUNDSZ_sint [OF _ c31] sz by simp_all
  let ?w = "n - t2 < sz"
  define b' where "b' = copy_in (if ?w then 0 else t2) mem (if ?w then msg + nat (n - t2) else msg)
      (word_of_int (if ?w then rem else sz))
      (if ?w then copy_in t2 mem msg (word_of_int (n - t2)) (put_header tp sz b) else put_header tp sz b)"
  have st: "cb' = cb\<lparr>frbufsz := frbufsz cb - (4 + round4 sz),
      mbf_tail := (let t4 = (if ?w then round4 rem else t2 + round4 sz) in if t4 \<ge> n then 0 else t4),
      mbf_buffer := Some b'\<rparr>"
  proof -
    have "sint (ROUNDSZ rem) = round4 rem" if ?w
      using that sr [of rem] c31 rem_def t2 by (intro ROUNDSZ_sint(1)) auto
    then show ?thesis
      using sz unfolding cb'_def msg_to_mbf_def Let_def tp_def [symmetric] n_def [symmetric] S(3)
        t2_def [symmetric]
      by (simp add: b S(1,2) b'_def rem_def)
  qed
  have tail: "mbf_tail cb' = (tp + 4 + round4 sz) mod n"
  proof -
    have "(tp + 4 + round4 sz) mod n = (t2 + round4 sz) mod n" unfolding t2(4) by (simp add: mod_simps)
    also have "\<dots> = (if t2 + round4 sz < n then t2 + round4 sz else t2 + round4 sz - n)"
      using sz t2 r4 by (intro ring_mod) simp_all
    also have "\<dots> = mbf_tail cb'"
    proof (cases ?w)
      case True
      then show ?thesis using rr t2(2) sz r4 by (simp add: st Let_def)
    next
      case False
      have "\<not> n < t2 + round4 sz" using dvd_gap [of n "t2 + round4 sz"] False al(1) t2(3) r4 by auto
      then show ?thesis using False by (auto simp: st Let_def)
    qed
    finally show ?thesis by simp
  qed
  have bytes: "b' ((tp + k) mod n) =
       (if k < 4 then hdr_byte sz (nat k)
        else if k < 4 + sz then mem (msg + nat (k - 4)) else b ((tp + k) mod n))"
    if k: "0 \<le> k" "k < n" for k
  proof -
    have p: "(tp + k) mod n = (if tp + k < n then tp + k else tp + k - n)" using al k by (intro ring_mod)
    have "t2 = 0 \<Longrightarrow> \<not> ?w" using sz r4 by simp
    moreover have "t2 = 0 \<or> t2 = tp + 4" by (simp add: t2_def)
    ultimately consider "t2 = 0" "\<not> ?w" | "t2 = tp + 4" "\<not> ?w" | "t2 = tp + 4" "?w" by blast
    then show ?thesis
    proof cases
      case 1
      then have "tp + 4 = n" using gap al(3) by (simp add: t2_def split: if_splits)
      then show ?thesis
        using 1 k p sz r4 sz31 by (auto simp: b'_def copy_in_def put_header_at u)
    next
      case 2
      then show ?thesis
        using k p sz r4 sz31 al by (auto simp: b'_def copy_in_def put_header_at u)
    next
      case 3
      have r: "0 < rem" "rem \<le> tp" "rem < 2 ^ 31" "n - t2 < 2 ^ 31" "0 \<le> n - t2"
        using 3 sz r4 t2 sz31 al by (auto simp: rem_def)
      have un: "uint (word_of_int (n - t2) :: UINT) = n - t2" "uint (word_of_int rem :: UINT) = rem"
        using r by (intro u; simp)+
      have b': "b' i = (if 0 \<le> i \<and> i < rem then mem (msg + nat (n - t2) + nat i)
          else if t2 \<le> i \<and> i < n then mem (msg + nat (i - t2)) else put_header tp sz b i)" for i
        using 3(2) unfolding b'_def copy_in_def by (simp add: un del: of_int_diff)
      have a: "msg + nat (n - t2) + nat (tp + k - n) = msg + nat (k - 4)" if "\<not> tp + k < n"
        using that 3 k r al by simp
      show ?thesis
      proof (cases "tp + k < n")
        case True
        then show ?thesis
          using 3(1) k p r al(3) sz rem_def by (cases "k < 4") (simp_all add: b' put_header_at)
      next
        case False
        then show ?thesis
          using 3(1) k p r al(3) sz rem_def a [OF False]
          by (cases "k < 4 + sz") (simp_all add: b' put_header_at add.assoc)
      qed
    qed
  qed
  have out: "b' k = b k" if "k < 0 \<or> k \<ge> n" for k
  proof -
    have un: "uint (word_of_int (n - t2) :: UINT) = n - t2" using t2 rs by (intro u) simp_all
    have ur: "uint (word_of_int (if ?w then rem else sz) :: UINT) = (if ?w then rem else sz)"
      using sz31 sz t2 by (intro u) (auto simp: rem_def)
    have "put_header tp sz b k = b k" using that gap al(3) by (intro put_header_at(2)) auto
    then show ?thesis
      using that t2(1,2) sz r4 unfolding b'_def copy_in_def ur un by (auto simp: rem_def)
  qed
  show thesis
    by (rule that [OF _ bytes tail _ out]) (use st in \<open>auto simp: Let_def\<close>)
qed


text \<open>Fetching a message reads the ring from the head on.\<close>

lemma mbf_to_msg_bytes:
  fixes cb :: mbfcb and mem :: "addr \<Rightarrow> UB" and msg :: addr and sz :: int
  defines "n \<equiv> bufsz cb" and "hp \<equiv> mbf_head cb"
  assumes al: "4 dvd n" "4 dvd hp" "0 \<le> hp" "hp < n" "n < 2 ^ 31" and sz: "0 < sz" "4 + round4 sz \<le> n"
    and b: "mbf_buffer cb = Some b" and h: "get_header b hp = sz"
  shows "mbf_to_msg cb mem msg =
    (sz, cb\<lparr>frbufsz := frbufsz cb + (4 + round4 sz), mbf_head := (hp + 4 + round4 sz) mod n\<rparr>,
     \<lambda>a. if msg \<le> a \<and> a < msg + nat sz then b ((hp + 4 + int (a - msg)) mod n) else mem a)"
proof -
  define h2 where "h2 = (if hp + 4 \<ge> n then 0 else hp + 4)"
  have gap: "hp + 4 \<le> n" using dvd_gap al by blast
  have h2: "0 \<le> h2" "h2 < n" "4 dvd h2" "h2 = (hp + 4) mod n"
    using al gap by (auto simp: h2_def)
  have rs: "n - h2 < 2 ^ 31" "4 dvd n - h2" using al(1,5) h2(1-3) by auto
  note r4 = round4 [of sz]
  have sz31: "sz < 2 ^ 31" using r4 sz al by simp
  define rem where "rem = sz - (n - h2)"
  let ?w = "n - h2 < sz"
  have rr: "round4 rem = round4 sz - (n - h2)"
  proof -
    obtain q where q: "n - h2 = 4 * q" using rs(2) by (elim dvdE)
    have "rem = sz - 4 * q" by (simp add: rem_def q)
    then show ?thesis unfolding q by (simp add: round4_def) presburger
  qed
  have u: "0 \<le> x \<Longrightarrow> x < 2 ^ 31 \<Longrightarrow> unat (word_of_int x :: UINT) = nat x" for x
    by (simp add: unat_eq_nat_uint uint_word_of_int_eq take_bit_int_eq_self)
  have sr: "0 \<le> x \<Longrightarrow> x \<le> sz \<Longrightarrow> round4 x \<le> round4 sz" for x by (simp add: round4_def)
  have c31: "4 + round4 sz < 2 ^ 31" using sz al by simp
  have S: "sint (ROUNDSZ sz) = round4 sz" "sint (HEADERSZ + ROUNDSZ sz) = 4 + round4 sz"
    "sint HEADERSZ = 4" using ROUNDSZ_sint [OF _ c31] sz by simp_all
  have Sr: "sint (ROUNDSZ rem) = round4 rem" if ?w
    using that sr [of rem] c31 rem_def h2 by (intro ROUNDSZ_sint(1)) auto
  have eq: "mbf_to_msg cb mem msg = (sz, cb\<lparr>frbufsz := frbufsz cb + (4 + round4 sz),
      mbf_head := (let h4 = (if ?w then round4 rem else h2 + round4 sz) in if h4 \<ge> n then 0 else h4)\<rparr>,
      copy_out (if ?w then msg + nat (n - h2) else msg) b (if ?w then 0 else h2)
        (word_of_int (if ?w then rem else sz))
        (if ?w then copy_out msg b h2 (word_of_int (n - h2)) mem else mem))"
    using Sr unfolding mbf_to_msg_def Let_def S(3) hp_def [symmetric] n_def [symmetric] b option.sel h
    unfolding h2_def [symmetric] rem_def [symmetric]
    by (simp add: S(1,2) del: of_int_diff)
  have head: "(let h4 = (if ?w then round4 rem else h2 + round4 sz) in if h4 \<ge> n then 0 else h4) =
      (hp + 4 + round4 sz) mod n"
  proof -
    have "(hp + 4 + round4 sz) mod n = (h2 + round4 sz) mod n" unfolding h2(4) by (simp add: mod_simps)
    also have "\<dots> = (if h2 + round4 sz < n then h2 + round4 sz else h2 + round4 sz - n)"
      using sz h2 r4 by (intro ring_mod) simp_all
    also have "\<dots> = (let h4 = (if ?w then round4 rem else h2 + round4 sz) in if h4 \<ge> n then 0 else h4)"
    proof (cases ?w)
      case True
      then show ?thesis using rr h2(2) sz r4 by (simp add: Let_def)
    next
      case False
      have "\<not> n < h2 + round4 sz" using dvd_gap [of n "h2 + round4 sz"] False al(1) h2(3) r4 by auto
      then show ?thesis using False by (auto simp: Let_def)
    qed
    finally show ?thesis by simp
  qed
  have pos: "(hp + 4 + k) mod n = (if h2 + k < n then h2 + k else h2 + k - n)" if "0 \<le> k" "k < sz" for k
  proof -
    have "(hp + 4 + k) mod n = (h2 + k) mod n" unfolding h2(4) by (simp add: mod_simps)
    then show ?thesis using ring_mod [of h2 n k] that h2 sz r4 by simp
  qed
  have mem: "copy_out (if ?w then msg + nat (n - h2) else msg) b (if ?w then 0 else h2)
        (word_of_int (if ?w then rem else sz))
        (if ?w then copy_out msg b h2 (word_of_int (n - h2)) mem else mem) a =
      (if msg \<le> a \<and> a < msg + nat sz then b ((hp + 4 + int (a - msg)) mod n) else mem a)" for a
  proof (cases ?w)
    case True
    have un: "unat (word_of_int (n - h2) :: UINT) = nat (n - h2)" "unat (word_of_int rem :: UINT) = nat rem"
      using True rs h2 sz31 by (auto simp: u rem_def simp del: of_int_diff)
    have p: "msg \<le> a \<Longrightarrow> a < msg + nat sz \<Longrightarrow> (hp + 4 + int (a - msg)) mod n =
        (if a < msg + nat (n - h2) then h2 + int (a - msg) else h2 + int (a - msg) - n)"
      using pos [of "int (a - msg)"] h2 by auto
    have "msg + nat (n - h2) + nat rem = msg + nat sz" using True h2 by (simp add: rem_def)
    moreover have "int (a - (msg + nat (n - h2))) = h2 + int (a - msg) - n" if "msg + nat (n - h2) \<le> a"
      using that h2(2) by (simp add: of_nat_diff)
    ultimately show ?thesis
      using True p h2(1,2) unfolding copy_out_def un if_P [OF True] by (auto simp: algebra_simps)
  next
    case False
    have "unat (word_of_int sz :: UINT) = nat sz" using sz sz31 by (simp add: u)
    then show ?thesis using False pos [of "int (a - msg)"] sz by (auto simp: copy_out_def)
  qed
  show ?thesis unfolding eq head mem by (simp add: fun_eq_iff)
qed

section \<open>What the buffer holds\<close>

definition msize :: "UB list \<Rightarrow> int" where
  "msize m = 4 + round4 (int (length m))"

definition used :: "UB list list \<Rightarrow> int" where
  "used ms = sum_list (map msize ms)"

text \<open>The messages lie one after the other from position \<open>p\<close> of a ring of \<open>n\<close> bytes.\<close>

fun stored :: "int \<Rightarrow> (int \<Rightarrow> UB) \<Rightarrow> int \<Rightarrow> UB list list \<Rightarrow> bool" where
  "stored n b p [] \<longleftrightarrow> True"
| "stored n b p (m # ms) \<longleftrightarrow>
     (\<forall>k < 4. b ((p + int k) mod n) = hdr_byte (int (length m)) k) \<and>
     (\<forall>k < length m. b ((p + 4 + int k) mod n) = m ! k) \<and>
     stored n b ((p + msize m) mod n) ms"

definition mbf_holds :: "mbfcb \<Rightarrow> UB list list \<Rightarrow> bool" where
  "mbf_holds cb ms \<longleftrightarrow>
     0 \<le> bufsz cb \<and> bufsz cb < 2 ^ 31 \<and> 4 dvd bufsz cb \<and> (\<forall>m \<in> set ms. m \<noteq> []) \<and>
     frbufsz cb = bufsz cb - used ms \<and> 0 \<le> frbufsz cb \<and>
     (bufsz cb > 0 \<longrightarrow>
        0 \<le> mbf_head cb \<and> mbf_head cb < bufsz cb \<and> 4 dvd mbf_head cb \<and>
        mbf_tail cb = (mbf_head cb + used ms) mod bufsz cb \<and>
        (case mbf_buffer cb of None \<Rightarrow> False | Some b \<Rightarrow> stored (bufsz cb) b (mbf_head cb) ms))"

lemma msize_pos: "4 \<le> msize m" "4 dvd msize m" "int (length m) + 4 \<le> msize m"
  using round4 [of "int (length m)"] by (auto simp: msize_def)

lemma used_simps [simp]: "used [] = 0" "used (m # ms) = msize m + used ms"
    "used (ms @ ns) = used ms + used ns"
  by (simp_all add: used_def)

lemma used_pos: "0 \<le> used ms" "4 dvd used ms" "used ms = 0 \<longleftrightarrow> ms = []"
proof -
  show p: "0 \<le> used ms" for ms
  proof (induction ms)
    case (Cons m ms)
    then show ?case using msize_pos(1) [of m] by simp
  qed simp
  show "4 dvd used ms" by (induction ms) (simp_all add: msize_pos)
  show "used ms = 0 \<longleftrightarrow> ms = []"
  proof (cases ms)
    case (Cons m ns)
    then show ?thesis using p [of ns] msize_pos(1) [of m] by simp
  qed simp
qed

lemma stored_cong:
  "(\<And>j. 0 \<le> j \<Longrightarrow> j < used ms \<Longrightarrow> b' ((p + j) mod n) = b ((p + j) mod n)) \<Longrightarrow>
   stored n b p ms \<Longrightarrow> stored n b' p ms"
proof (induction ms arbitrary: p)
  case (Cons m ms)
  have u: "0 \<le> used ms" "4 \<le> msize m" "int (length m) + 4 \<le> msize m" using used_pos msize_pos by auto
  have e: "b' ((p + j) mod n) = b ((p + j) mod n)" if "0 \<le> j" "j < msize m + used ms" for j
    using Cons.prems(1) that by simp
  have "b' (((p + msize m) mod n + j) mod n) = b (((p + msize m) mod n + j) mod n)"
    if "0 \<le> j" "j < used ms" for j
    using e [of "msize m + j"] that u by (simp add: mod_simps add.assoc)
  then have "stored n b' ((p + msize m) mod n) ms" using Cons.prems(2) by (intro Cons.IH) simp_all
  moreover have "b' ((p + int k) mod n) = b ((p + int k) mod n)" if "k < 4" for k
    using e [of "int k"] that u by simp
  moreover have "b' ((p + 4 + int k) mod n) = b ((p + 4 + int k) mod n)" if "k < length m" for k
    using e [of "4 + int k"] that u by (simp add: add.assoc)
  ultimately show ?case using Cons.prems(2) by simp
qed simp

lemma stored_append:
  "p mod n = p \<Longrightarrow>
   stored n b p (ms @ ns) \<longleftrightarrow> stored n b p ms \<and> stored n b ((p + used ms) mod n) ns"
proof (induction ms arbitrary: p)
  case (Cons m ms)
  show ?case using Cons.IH [of "(p + msize m) mod n"] by (auto simp: mod_simps add.assoc)
qed simp

lemma mbf_free_iff:
  assumes h: "mbf_holds cb ms" and sz: "0 < sz" "sz < 2 ^ 31"
  shows "mbf_free cb sz \<longleftrightarrow> 4 + round4 sz \<le> frbufsz cb"
proof -
  have f: "0 \<le> frbufsz cb" "frbufsz cb < 2 ^ 31" "4 dvd frbufsz cb"
    using h used_pos(1,2) [of ms] by (auto simp: mbf_holds_def)
  have u: "uint (word_of_int (frbufsz cb) :: UINT) = frbufsz cb"
    "uint (word_of_int sz :: UINT) = sz"
    using f sz by (simp_all add: uint_word_of_int_eq take_bit_int_eq_self)
  have "uint (HEADERSZ + word_of_int sz) = 4 + sz"
    using sz u by (simp add: uint_word_ariths HEADERSZ_def)
  then have "mbf_free cb sz \<longleftrightarrow> 4 + sz \<le> frbufsz cb"
    using u by (simp add: mbf_free_def word_le_def)
  also have "\<dots> \<longleftrightarrow> 4 + round4 sz \<le> frbufsz cb"
    using f(3) unfolding round4_def by presburger
  finally show ?thesis .
qed


section \<open>Storing and fetching\<close>

text \<open>Storing appends the message, the bytes that are in the memory of the sender.\<close>

lemma msg_to_mbf_holds:
  assumes h: "mbf_holds cb ms" and sz: "0 < sz" "sz < 2 ^ 31" and f: "mbf_free cb sz"
  shows "mbf_holds (msg_to_mbf cb mem msg sz) (ms @ [map (\<lambda>k. mem (msg + k)) [0..<nat sz]])"
proof -
  let ?m = "map (\<lambda>k. mem (msg + k)) [0..<nat sz]" and ?n = "bufsz cb" and ?h = "mbf_head cb"
  let ?cb' = "msg_to_mbf cb mem msg sz"
  have fr: "4 + round4 sz \<le> frbufsz cb" using f mbf_free_iff [OF h sz] by simp
  have ms: "msize ?m = 4 + round4 sz" "int (length ?m) = sz" using sz by (simp_all add: msize_def)
  have fb: "frbufsz cb = ?n - used ms" "0 \<le> used ms" using h used_pos(1) by (auto simp: mbf_holds_def)
  have n: "4 + round4 sz \<le> ?n" "0 < ?n" using fr fb round4(1) [of sz] sz by auto
  have hd: "0 \<le> ?h" "?h < ?n" "4 dvd ?h" "4 dvd ?n" "?n < 2 ^ 31" "mbf_tail cb = (?h + used ms) mod ?n"
    using h n by (auto simp: mbf_holds_def)
  obtain b where b: "mbf_buffer cb = Some b" and st: "stored ?n b ?h ms"
    using h n by (auto simp: mbf_holds_def split: option.splits)
  have tl: "4 dvd mbf_tail cb" "0 \<le> mbf_tail cb" "mbf_tail cb < ?n"
    using hd used_pos(2) [of ms] n by (auto simp: dvd_mod)
  obtain b' where b': "mbf_buffer ?cb' = Some b'"
    "\<And>k. 0 \<le> k \<Longrightarrow> k < ?n \<Longrightarrow> b' ((mbf_tail cb + k) mod ?n) =
       (if k < 4 then hdr_byte sz (nat k)
        else if k < 4 + sz then mem (msg + nat (k - 4)) else b ((mbf_tail cb + k) mod ?n))"
    "mbf_tail ?cb' = (mbf_tail cb + 4 + round4 sz) mod ?n"
    "frbufsz ?cb' = frbufsz cb - (4 + round4 sz)"
    using msg_to_mbf_bytes [OF hd(4) tl hd(5) sz(1) n(1) b] by metis
  have same: "bufsz ?cb' = ?n" "mbf_head ?cb' = ?h" by (simp_all add: msg_to_mbf_def Let_def)
  have "b' ((?h + j) mod ?n) = b ((?h + j) mod ?n)" if j: "0 \<le> j" "j < used ms" for j
  proof -
    have "(mbf_tail cb + (?n - used ms + j)) mod ?n = (?h + used ms + (?n - used ms + j)) mod ?n"
      unfolding hd(6) by (rule mod_add_left_eq)
    also have "?h + used ms + (?n - used ms + j) = ?h + j + ?n" by simp
    finally have "(mbf_tail cb + (?n - used ms + j)) mod ?n = (?h + j + ?n) mod ?n" .
    then have "(mbf_tail cb + (?n - used ms + j)) mod ?n = (?h + j) mod ?n" by simp
    then have e: "(mbf_tail cb + (?n - used ms + j)) mod ?n = (?h + j) mod ?n" by simp
    have c: "4 + sz \<le> ?n - used ms + j" "?n - used ms + j < ?n"
      using j fb fr round4(1) [of sz] by simp_all
    then have "0 \<le> ?n - used ms + j" "\<not> ?n - used ms + j < 4" "\<not> ?n - used ms + j < 4 + sz"
      using sz by simp_all
    then show ?thesis using b'(2) [OF _ c(2)] e by simp
  qed
  then have st': "stored ?n b' ?h ms" using st by (rule stored_cong)
  have "stored ?n b' (mbf_tail cb) [?m]"
    using b'(2) [of "int _"] b'(2) [of "4 + int _"] n sz round4(1) [of sz]
    by (auto simp: add.assoc)
  then have "stored ?n b' ?h (ms @ [?m])"
    using st' hd by (subst stored_append) simp_all
  moreover have "mbf_tail ?cb' = (?h + used (ms @ [?m])) mod ?n"
    unfolding b'(3) hd(6) used_simps ms by (simp add: mod_simps add.assoc)
  ultimately show ?thesis
    using h hd b' fb fr ms sz unfolding mbf_holds_def same by auto
qed

text \<open>Fetching takes the first message.\<close>

lemma mbf_to_msg_holds:
  assumes h: "mbf_holds cb (m # ms)"
  obtains cb' where
    "mbf_to_msg cb mem msg = (int (length m), cb',
       \<lambda>a. if msg \<le> a \<and> a < msg + length m then m ! (a - msg) else mem a)"
    "mbf_holds cb' ms" "bufsz cb' = bufsz cb" "mbfid cb' = mbfid cb" "mbfatr cb' = mbfatr cb"
    "maxmsz cb' = maxmsz cb"
proof -
  let ?n = "bufsz cb" and ?h = "mbf_head cb" and ?sz = "int (length m)"
  have u: "0 \<le> used ms" using used_pos(1) .
  have ne: "0 < ?sz" using h by (auto simp: mbf_holds_def)
  have n: "4 + round4 ?sz \<le> ?n" "0 < ?n"
    using h u msize_pos(1) [of m] by (auto simp: mbf_holds_def msize_def)
  have hd: "0 \<le> ?h" "?h < ?n" "4 dvd ?h" "4 dvd ?n" "?n < 2 ^ 31"
    "mbf_tail cb = (?h + used (m # ms)) mod ?n" using h n by (auto simp: mbf_holds_def)
  obtain b where b: "mbf_buffer cb = Some b" and st: "stored ?n b ?h (m # ms)"
    using h n by (auto simp: mbf_holds_def split: option.splits)
  have gap: "?h + 4 \<le> ?n" using dvd_gap hd by blast
  have "get_header b ?h = ?sz"
  proof (rule get_put_header)
    show "b (?h + int k) = hdr_byte ?sz k" if "k < 4" for k
      using st that gap hd(1) by (simp add: mod_pos_pos_trivial)
    show "?sz < 2 ^ 31" using n hd(5) round4(1) [of ?sz] by simp
  qed simp
  note e = mbf_to_msg_bytes [OF hd(4,3,1,2,5) ne n(1) b this, of mem msg]
  define cb' where "cb' = cb\<lparr>frbufsz := frbufsz cb + (4 + round4 ?sz), mbf_head := (?h + 4 + round4 ?sz) mod ?n\<rparr>"
  have m: "4 + round4 ?sz = msize m" by (simp add: msize_def)
  have d: "\<forall>k < length m. b ((?h + 4 + int k) mod ?n) = m ! k" using st by simp
  have "b ((?h + 4 + int (a - msg)) mod ?n) = m ! (a - msg)" if "msg \<le> a \<and> a < msg + length m" for a
    by (rule d [rule_format]) (use that in auto)
  then have "(\<lambda>a. if msg \<le> a \<and> a < msg + nat ?sz then b ((?h + 4 + int (a - msg)) mod ?n) else mem a) =
      (\<lambda>a. if msg \<le> a \<and> a < msg + length m then m ! (a - msg) else mem a)"
    unfolding nat_int by (intro ext if_cong refl) blast
  then have e': "mbf_to_msg cb mem msg = (?sz, cb',
       \<lambda>a. if msg \<le> a \<and> a < msg + length m then m ! (a - msg) else mem a)"
    unfolding e cb'_def by simp
  have hm: "mbf_head cb' = (?h + msize m) mod ?n" unfolding cb'_def m [symmetric] by (simp add: add.assoc)
  have "4 dvd (?h + msize m) mod ?n" using hd msize_pos(2) [of m] by (auto simp: dvd_mod)
  moreover have "(?h + used (m # ms)) mod ?n = ((?h + msize m) mod ?n + used ms) mod ?n"
    by (simp add: mod_simps add.assoc)
  moreover have "used ms \<le> ?n" using h msize_pos(1) [of m] by (simp add: mbf_holds_def)
  ultimately have "mbf_holds cb' ms"
    using h st b hd n m hm u unfolding mbf_holds_def by (simp add: cb'_def)
  then show thesis by (rule that [OF e']) (simp_all add: cb'_def)
qed

lemma mbf_empty_iff: "mbf_holds cb ms \<Longrightarrow> mbf_empty cb \<longleftrightarrow> ms = []"
  using used_pos(3) [of ms] by (auto simp: mbf_holds_def mbf_empty_def)

text \<open>The message sent is the message received, whatever is stored meanwhile.\<close>

lemma mbf_round_trip:
  assumes h: "mbf_holds cb []" and sz: "0 < sz" "sz < 2 ^ 31" and f: "mbf_free cb sz"
  shows "\<exists>cb' mem'. mbf_to_msg (msg_to_mbf cb mem src sz) mem2 dst = (sz, cb', mem') \<and>
    mbf_holds cb' [] \<and> (\<forall>k < nat sz. mem' (dst + k) = mem (src + k)) \<and>
    (\<forall>a. a < dst \<or> a \<ge> dst + nat sz \<longrightarrow> mem' a = mem2 a)"
proof -
  let ?m = "map (\<lambda>k. mem (src + k)) [0..<nat sz]"
  have "mbf_holds (msg_to_mbf cb mem src sz) [?m]" using msg_to_mbf_holds [OF h sz f] by simp
  then obtain cb' where cb': "mbf_to_msg (msg_to_mbf cb mem src sz) mem2 dst = (int (length ?m), cb',
       \<lambda>a. if dst \<le> a \<and> a < dst + length ?m then ?m ! (a - dst) else mem2 a)" "mbf_holds cb' []"
    by (rule mbf_to_msg_holds)
  then show ?thesis using sz by (intro exI conjI) (auto simp: cb')
qed


end
