(* ===== verification/Messagebuf.thy ===== *)
theory Messagebuf
  imports Mbf_Ring
begin

text \<open>
  Message buffers (\<open>messagebuf.c\<close>). A message buffer has a queue of senders that found no room and
  a queue of receivers that found no message; a sender in the queue still has its message, and it
  is stored and the sender released as soon as there is room.
\<close>

section \<open>State and operations\<close>

record mbf_st = mbx_st +
  mbfcb_table :: "ID \<Rightarrow> mbfcb"
  free_mbfcb :: "ID list"
  max_mbfid :: ID

record t_cmbf =
  cb_exinf :: addr
  cb_mbfatr :: ATR
  cb_bufsz :: int
  cb_maxmsz :: int
  cb_dsname :: "UB list"

record t_rmbf =
  rb_exinf :: addr
  rb_wtsk :: ID
  rb_stsk :: ID
  rb_msgsz :: int
  rb_frbufsz :: int
  rb_maxmsz :: int

definition upd_mbfcb :: "ID \<Rightarrow> (mbfcb \<Rightarrow> mbfcb) \<Rightarrow> 'a mbf_st_scheme \<Rightarrow> 'a mbf_st_scheme" where
  "upd_mbfcb i f s = s\<lparr>mbfcb_table := (mbfcb_table s)(i := f (mbfcb_table s i))\<rparr>"

definition messagebuffer_initialize ::
  "int \<times> int \<Rightarrow> bool \<Rightarrow> 'a mbf_st_scheme \<Rightarrow> ER \<times> 'a mbf_st_scheme" where
  "messagebuffer_initialize cfn malloc_ok s =
     (let s1 = s\<lparr>max_mbfid := snd cfn\<rparr>
      in if fst cfn < 1 \<or> max_mbfid s1 < 1 then (E_SYS, s1)
         else if \<not> malloc_ok then (E_NOMEM, s1)
         else (E_OK, fold (\<lambda>i s. (upd_mbfcb i (\<lambda>c. c\<lparr>mbfid := 0\<rparr>) s)\<lparr>free_mbfcb := free_mbfcb s @ [i]\<rparr>)
                       [1..max_mbfid s1] (s1\<lparr>free_mbfcb := []\<rparr>)))"

text \<open>The message of a waiting sender is stored when the sender is released.\<close>

definition mbf_accept :: "ID \<Rightarrow> ID \<Rightarrow> 'a mbf_st_scheme \<Rightarrow> 'a mbf_st_scheme" where
  "mbf_accept i hd_t s =
     (let w = winfo (tcbs s hd_t)
      in wait_release_ok hd_t
           (upd_mbfcb i (\<lambda>c. msg_to_mbf c (mem_byte s) (smbf_msg w) (smbf_msgsz w)) s))"

lemma mbf_accept_que_less:
  "que s (WaitQ OSmbf i) = t # ts \<Longrightarrow> length (que (mbf_accept i t s) (WaitQ OSmbf i)) \<le> length ts"
  by (auto simp: mbf_accept_def Let_def wait_release_ok_def set_wercd_def upd_mbfcb_def
    intro!: wait_release_que_less)

function mbf_wakeup :: "ID \<Rightarrow> 'a mbf_st_scheme \<Rightarrow> 'a mbf_st_scheme" where
  "mbf_wakeup i s =
     (case que s (WaitQ OSmbf i) of
        [] \<Rightarrow> s
      | hd_t # _ \<Rightarrow>
          if \<not> mbf_free (mbfcb_table s i) (smbf_msgsz (winfo (tcbs s hd_t))) then s
          else mbf_wakeup i (mbf_accept i hd_t s))"
  by auto
termination
  by (relation "measure (\<lambda>(i, s). length (que s (WaitQ OSmbf i)))") (auto simp: less_Suc_eq_le mbf_accept_que_less)

declare mbf_wakeup.simps [simp del]

definition mbf_chg_pri :: "ID \<Rightarrow> int \<Rightarrow> 'a mbf_st_scheme \<Rightarrow> 'a mbf_st_scheme" where
  "mbf_chg_pri t oldpri s =
     (let i = wid (tcbs s t);
          s1 = (if oldpri \<ge> 0 then gcb_change_priority (WaitQ OSmbf i) t s else s)
      in mbf_wakeup i s1)"

definition mbf_rel_wai :: "ID \<Rightarrow> 'a mbf_st_scheme \<Rightarrow> 'a mbf_st_scheme" where
  "mbf_rel_wai t s = mbf_chg_pri t (-1) s"

definition wspec_smbf_tfifo :: wspec where
  "wspec_smbf_tfifo = \<lparr>tskwait = TTW_SMBF, chg_pri_hook = None, rel_wai_hook = Some H_mbf_rel_wai\<rparr>"

definition wspec_smbf_tpri :: wspec where
  "wspec_smbf_tpri = \<lparr>tskwait = TTW_SMBF, chg_pri_hook = Some H_mbf_chg_pri,
     rel_wai_hook = Some H_mbf_rel_wai\<rparr>"

definition wspec_rmbf :: wspec where
  "wspec_rmbf = \<lparr>tskwait = TTW_RMBF, chg_pri_hook = None, rel_wai_hook = None\<rparr>"

definition VALID_MBFATR :: ATR where
  "VALID_MBFATR = TA_TPRI OR TA_NODISWAI OR TA_DSNAME"

text \<open>\<open>malloc\<close> is the block \<open>Imalloc\<close> returns.\<close>

definition tk_cre_mbf :: "(int \<Rightarrow> UB) option \<Rightarrow> t_cmbf \<Rightarrow> 'a mbf_st_scheme \<Rightarrow> ER \<times> 'a mbf_st_scheme" where
  "tk_cre_mbf malloc pk s =
     (if \<not> chk_rsatr (cb_mbfatr pk) VALID_MBFATR then (E_RSATR, s)
      else if \<not> cb_bufsz pk \<ge> 0 then (E_PAR, s)
      else if \<not> cb_maxmsz pk > 0 then (E_PAR, s)
      else
        (let sz = sint (ROUNDSZ (cb_bufsz pk));
             msgbuf = (if sz > 0 then malloc else None)
         in if sz > 0 \<and> msgbuf = None then (E_NOMEM, s)
            else (case free_mbfcb s of
                    [] \<Rightarrow> (E_LIMIT, s)
                  | i # free \<Rightarrow>
                      let s1 = upd_mbfcb i (\<lambda>c. c\<lparr>mbfid := i, mbf_exinf := cb_exinf pk,
                                 mbfatr := cb_mbfatr pk, mbf_buffer := msgbuf, bufsz := sz,
                                 frbufsz := sz, maxmsz := cb_maxmsz pk, mbf_head := 0,
                                 mbf_tail := 0\<rparr>) (s\<lparr>free_mbfcb := free\<rparr>);
                          s2 = (if has (cb_mbfatr pk) TA_DSNAME
                                then upd_mbfcb i (\<lambda>c. c\<lparr>mbf_name :=
                                       tkl_strncpy (cb_dsname pk) OBJECT_NAME_LENGTH\<rparr>) s1
                                else s1)
                      in (i, s2))))"

definition tk_del_mbf :: "ID \<Rightarrow> 'a mbf_st_scheme \<Rightarrow> ER \<times> 'a mbf_st_scheme" where
  "tk_del_mbf i s =
     (if \<not> chk_id (max_mbfid s) i then (E_ID, s)
      else if mbfid (mbfcb_table s i) = 0 then (E_NOEXS, s)
      else
        (let s1 = wait_delete OSmbf i (wait_delete ORmbf i s);
             s2 = s1\<lparr>free_mbfcb := free_mbfcb s1 @ [i]\<rparr>
         in (E_OK, upd_mbfcb i (\<lambda>c. c\<lparr>mbfid := 0\<rparr>) s2)))"

definition tk_snd_mbf_u :: "ID \<Rightarrow> addr \<Rightarrow> int \<Rightarrow> int \<Rightarrow> 'a mbf_st_scheme \<Rightarrow> sysret \<times> 'a mbf_st_scheme" where
  "tk_snd_mbf_u i msg msgsz tmout s =
     (if \<not> chk_id (max_mbfid s) i then (Ret E_ID, s)
      else if \<not> msgsz > 0 then (Ret E_PAR, s)
      else if \<not> chk_tmout tmout then (Ret E_PAR, s)
      else if tmout \<noteq> TMO_POL \<and> in_ddsp s then (Ret E_CTX, s)
      else
        (let cb = mbfcb_table s i
         in if mbfid cb = 0 then (Ret E_NOEXS, s)
            else if msgsz > maxmsz cb then (Ret E_PAR, s)
            else if \<not> in_indp s \<and> is_diswai (mbfatr cb) (me s) TTW_SMBF s then (Ret E_DISWAI, s)
            else
              (case que s (WaitQ ORmbf i) of
                 t # _ \<Rightarrow>
                   let w = winfo (tcbs s t);
                       s1 = s\<lparr>mem_byte := copy_mem (rmbf_msg w) msg (word_of_int msgsz) (mem_byte s)\<rparr>;
                       s2 = s1\<lparr>mem_int := (mem_int s1)(rmbf_p_msgsz w := msgsz)\<rparr>
                   in (Ret E_OK, wait_release_ok t s2)
               | [] \<Rightarrow>
                   if (in_indp s \<or> gcb_top_of_wait_queue (mbfatr cb) (WaitQ OSmbf i) (me s) s = me s)
                      \<and> mbf_free cb msgsz
                   then (Ret E_OK, upd_mbfcb i (\<lambda>c. msg_to_mbf c (mem_byte s) msg msgsz) s)
                   else if tmout \<noteq> TMO_POL then
                     (let s2 = call_wait OSmbf i (mbfatr cb) tmout
                            (if has (mbfatr cb) TA_TPRI then wspec_smbf_tpri else wspec_smbf_tfifo)
                            (WI_smbf msg msgsz) s
                      in (wait_ret s2, s2))
                   else (Ret E_TMOUT, s))))"

definition tk_snd_mbf :: "ID \<Rightarrow> addr \<Rightarrow> int \<Rightarrow> int \<Rightarrow> 'a mbf_st_scheme \<Rightarrow> sysret \<times> 'a mbf_st_scheme" where
  "tk_snd_mbf i msg msgsz tmout s = tk_snd_mbf_u i msg msgsz (to_usec_tmo tmout) s"

text \<open>A receiver is connected at the end of its queue, whatever the attribute; \<open>p_rcvsz\<close> is the
  address of the local variable \<open>rcvsz\<close>.\<close>

definition rcv_mbf_wait :: "addr \<Rightarrow> ID \<Rightarrow> addr \<Rightarrow> int \<Rightarrow> 'a mbf_st_scheme \<Rightarrow> 'a mbf_st_scheme" where
  "rcv_mbf_wait p_rcvsz i msg tmout s =
     (let t = me s;
          s1 = tcb_upd t (\<lambda>c. c\<lparr>wspec := wspec_rmbf, wid := i, wercd := E_TMOUT,
                 winfo := WI_rmbf msg p_rcvsz\<rparr>) s;
          s2 = make_wait tmout (mbfatr (mbfcb_table s i)) s1
      in que_insert t (WaitQ ORmbf i) s2)"

definition tk_rcv_mbf_u ::
  "addr \<Rightarrow> ID \<Rightarrow> addr \<Rightarrow> int \<Rightarrow> 'a mbf_st_scheme \<Rightarrow> sysret \<times> 'a mbf_st_scheme" where
  "tk_rcv_mbf_u p_rcvsz i msg tmout s =
     (if \<not> chk_id (max_mbfid s) i then (Ret E_ID, s)
      else if \<not> chk_tmout tmout then (Ret E_PAR, s)
      else if in_ddsp s then (Ret E_CTX, s)
      else
        (let cb = mbfcb_table s i
         in if mbfid cb = 0 then (Ret E_NOEXS, s)
            else if is_diswai (mbfatr cb) (me s) TTW_RMBF s then (Ret E_DISWAI, s)
            else if \<not> mbf_empty cb then
              (let (rcvsz, cb', mem') = mbf_to_msg cb (mem_byte s) msg;
                   s1 = upd_mbfcb i (\<lambda>_. cb') (s\<lparr>mem_byte := mem'\<rparr>)
               in (Ret rcvsz, mbf_wakeup i s1))
            else
              (case que s (WaitQ OSmbf i) of
                 t # _ \<Rightarrow>
                   let w = winfo (tcbs s t);
                       rcvsz = smbf_msgsz w;
                       s1 = s\<lparr>mem_byte := copy_mem msg (smbf_msg w) (word_of_int rcvsz) (mem_byte s)\<rparr>
                   in (Ret rcvsz, mbf_wakeup i (wait_release_ok t s1))
               | [] \<Rightarrow>
                   if tmout \<noteq> TMO_POL then (Blocked, rcv_mbf_wait p_rcvsz i msg tmout s)
                   else (Ret E_TMOUT, s))))"

text \<open>What the call returns to a task that waited, once it is released.\<close>

definition rcv_mbf_result :: "addr \<Rightarrow> ID \<Rightarrow> 'a kst_scheme \<Rightarrow> int" where
  "rcv_mbf_result p_rcvsz t s =
     (if wercd (tcbs s t) < E_OK then wercd (tcbs s t) else mem_int s p_rcvsz)"

definition tk_rcv_mbf ::
  "addr \<Rightarrow> ID \<Rightarrow> addr \<Rightarrow> int \<Rightarrow> 'a mbf_st_scheme \<Rightarrow> sysret \<times> 'a mbf_st_scheme" where
  "tk_rcv_mbf p_rcvsz i msg tmout s = tk_rcv_mbf_u p_rcvsz i msg (to_usec_tmo tmout) s"

definition mbf_next_msgsz :: "ID \<Rightarrow> 'a mbf_st_scheme \<Rightarrow> int" where
  "mbf_next_msgsz i s =
     (let cb = mbfcb_table s i
      in if \<not> mbf_empty cb then get_header (the (mbf_buffer cb)) (mbf_head cb)
         else (case que s (WaitQ OSmbf i) of t # _ \<Rightarrow> smbf_msgsz (winfo (tcbs s t)) | [] \<Rightarrow> 0))"

definition tk_ref_mbf :: "ID \<Rightarrow> 'a mbf_st_scheme \<Rightarrow> ER \<times> t_rmbf option" where
  "tk_ref_mbf i s =
     (if \<not> chk_id (max_mbfid s) i then (E_ID, None)
      else if mbfid (mbfcb_table s i) = 0 then (E_NOEXS, None)
      else (E_OK, Some \<lparr>rb_exinf = mbf_exinf (mbfcb_table s i), rb_wtsk = wait_tskid (WaitQ ORmbf i) s,
              rb_stsk = wait_tskid (WaitQ OSmbf i) s, rb_msgsz = mbf_next_msgsz i s,
              rb_frbufsz = frbufsz (mbfcb_table s i), rb_maxmsz = maxmsz (mbfcb_table s i)\<rparr>))"

definition messagebuffer_getname :: "ID \<Rightarrow> 'a mbf_st_scheme \<Rightarrow> ER \<times> UB list option" where
  "messagebuffer_getname i s =
     (if \<not> chk_id (max_mbfid s) i then (E_ID, None)
      else if mbfid (mbfcb_table s i) = 0 then (E_NOEXS, None)
      else if \<not> has (mbfatr (mbfcb_table s i)) TA_DSNAME then (E_OBJ, None)
      else (E_OK, Some (mbf_name (mbfcb_table s i))))"

definition td_lst_mbf :: "int \<Rightarrow> 'a mbf_st_scheme \<Rightarrow> int \<times> ID list" where
  "td_lst_mbf nent s =
     (let ids = filter (\<lambda>j. mbfid (mbfcb_table s j) \<noteq> 0) [1..max_mbfid s]
      in (int (length ids), take (nat nent) (map (\<lambda>j. mbfid (mbfcb_table s j)) ids)))"

definition td_ref_mbf :: "ID \<Rightarrow> 'a mbf_st_scheme \<Rightarrow> ER \<times> t_rmbf option" where
  "td_ref_mbf i s =
     (if \<not> chk_id (max_mbfid s) i then (E_ID, None)
      else if mbfid (mbfcb_table s i) = 0 then (E_NOEXS, None)
      else (E_OK, Some \<lparr>rb_exinf = mbf_exinf (mbfcb_table s i), rb_wtsk = wait_tskid (WaitQ ORmbf i) s,
              rb_stsk = wait_tskid (WaitQ OSmbf i) s, rb_msgsz = mbf_next_msgsz i s,
              rb_frbufsz = frbufsz (mbfcb_table s i), rb_maxmsz = maxmsz (mbfcb_table s i)\<rparr>))"

definition td_smbf_que :: "ID \<Rightarrow> int \<Rightarrow> 'a mbf_st_scheme \<Rightarrow> int \<times> ID list" where
  "td_smbf_que i nent s =
     (if \<not> chk_id (max_mbfid s) i then (E_ID, [])
      else if mbfid (mbfcb_table s i) = 0 then (E_NOEXS, [])
      else (let xs = que s (WaitQ OSmbf i) in (int (length xs), take (nat nent) xs)))"

definition td_rmbf_que :: "ID \<Rightarrow> int \<Rightarrow> 'a mbf_st_scheme \<Rightarrow> int \<times> ID list" where
  "td_rmbf_que i nent s =
     (if \<not> chk_id (max_mbfid s) i then (E_ID, [])
      else if mbfid (mbfcb_table s i) = 0 then (E_NOEXS, [])
      else (let xs = que s (WaitQ ORmbf i) in (int (length xs), take (nat nent) xs)))"

lemma mbf_more:
  assumes "kst.more s' = kst.more s"
  shows "mbfcb_table s' = mbfcb_table s"
    "free_mbfcb s' = free_mbfcb s"
    "max_mbfid s' = max_mbfid s"
  using assms by (cases s; cases s'; simp add: mbf_st.defs)+

lemma mbf_frame [simp]:
  "mbfcb_table (call_wait kd i atr tmo w wi s) = mbfcb_table s" "free_mbfcb (call_wait kd i atr tmo w wi s) = free_mbfcb s" "max_mbfid (call_wait kd i atr tmo w wi s) = max_mbfid s"
  "mbfcb_table (set_wercd t e s) = mbfcb_table s" "free_mbfcb (set_wercd t e s) = free_mbfcb s" "max_mbfid (set_wercd t e s) = max_mbfid s"
  "mbfcb_table (tcb_upd t f s) = mbfcb_table s" "free_mbfcb (tcb_upd t f s) = free_mbfcb s" "max_mbfid (tcb_upd t f s) = max_mbfid s"
  "mbfcb_table (que_remove t s) = mbfcb_table s" "free_mbfcb (que_remove t s) = free_mbfcb s" "max_mbfid (que_remove t s) = max_mbfid s"
  "mbfcb_table (wait_release t s) = mbfcb_table s" "free_mbfcb (wait_release t s) = free_mbfcb s" "max_mbfid (wait_release t s) = max_mbfid s"
  "mbfcb_table (wait_release_ok t s) = mbfcb_table s" "free_mbfcb (wait_release_ok t s) = free_mbfcb s" "max_mbfid (wait_release_ok t s) = max_mbfid s"
  "mbfcb_table (wait_release_ok_ercd t e s) = mbfcb_table s" "free_mbfcb (wait_release_ok_ercd t e s) = free_mbfcb s" "max_mbfid (wait_release_ok_ercd t e s) = max_mbfid s"
  "mbfcb_table (queue_insert_tpri t q s) = mbfcb_table s" "free_mbfcb (queue_insert_tpri t q s) = free_mbfcb s" "max_mbfid (queue_insert_tpri t q s) = max_mbfid s"
  "mbfcb_table (gcb_change_priority q t s) = mbfcb_table s" "free_mbfcb (gcb_change_priority q t s) = free_mbfcb s" "max_mbfid (gcb_change_priority q t s) = max_mbfid s"
  "mbfcb_table (gcb_make_wait k i a tmo s) = mbfcb_table s" "free_mbfcb (gcb_make_wait k i a tmo s) = free_mbfcb s" "max_mbfid (gcb_make_wait k i a tmo s) = max_mbfid s"
  "mbfcb_table (gcb_make_wait_with_diswai k i a tmo s) = mbfcb_table s" "free_mbfcb (gcb_make_wait_with_diswai k i a tmo s) = free_mbfcb s" "max_mbfid (gcb_make_wait_with_diswai k i a tmo s) = max_mbfid s"
  "mbfcb_table (wait_delete k i s) = mbfcb_table s" "free_mbfcb (wait_delete k i s) = free_mbfcb s" "max_mbfid (wait_delete k i s) = max_mbfid s"
  "mbfcb_table (make_wait tmo a s) = mbfcb_table s" "free_mbfcb (make_wait tmo a s) = free_mbfcb s" "max_mbfid (make_wait tmo a s) = max_mbfid s"
  "mbfcb_table (make_wait_reltim rt a s) = mbfcb_table s" "free_mbfcb (make_wait_reltim rt a s) = free_mbfcb s" "max_mbfid (make_wait_reltim rt a s) = max_mbfid s"
  by (rule mbf_more; simp add: gcb_change_priority_frame)+

lemma upd_mbfcb_sel [simp]:
  "mbfcb_table (upd_mbfcb i f s) j = (if j = i then f (mbfcb_table s i) else mbfcb_table s j)"
  "free_mbfcb (upd_mbfcb i f s) = free_mbfcb s" "max_mbfid (upd_mbfcb i f s) = max_mbfid s"
  "tcbs (upd_mbfcb i f s) = tcbs s" "que (upd_mbfcb i f s) = que s"
  "ctxtsk (upd_mbfcb i f s) = ctxtsk s" "mem_byte (upd_mbfcb i f s) = mem_byte s"
  by (simp_all add: upd_mbfcb_def)

lemma kinv_mbf_upd [simp]:
  "kinv_x X (upd_mbfcb i f s) = kinv_x X s" "sched_ok (upd_mbfcb i f s) = sched_ok s"
  "kinv_x X (s\<lparr>free_mbfcb := fr\<rparr>) = kinv_x X s" "sched_ok (s\<lparr>free_mbfcb := fr\<rparr>) = sched_ok s"
  by (simp_all add: upd_mbfcb_def kinv_x_def rdq_ok_def) (rule sched_ok_cong, simp_all)+

lemma mbf_wspec_hooks [simp]:
  "rel_wai_hook wspec_smbf_tpri = Some H_mbf_rel_wai" "rel_wai_hook wspec_smbf_tfifo = Some H_mbf_rel_wai"
  "chg_pri_hook wspec_smbf_tpri = Some H_mbf_chg_pri" "chg_pri_hook wspec_smbf_tfifo = None"
  "tskwait wspec_smbf_tpri = TTW_SMBF" "tskwait wspec_smbf_tfifo = TTW_SMBF"
  "rel_wai_hook wspec_rmbf = None" "chg_pri_hook wspec_rmbf = None" "tskwait wspec_rmbf = TTW_RMBF"
  by (simp_all add: wspec_smbf_tpri_def wspec_smbf_tfifo_def wspec_rmbf_def)

lemma msg_to_mbf_sel [simp]:
  "mbfid (msg_to_mbf c mem p n) = mbfid c" "mbfatr (msg_to_mbf c mem p n) = mbfatr c"
  "bufsz (msg_to_mbf c mem p n) = bufsz c" "maxmsz (msg_to_mbf c mem p n) = maxmsz c"
  by (simp_all add: msg_to_mbf_def Let_def)

section \<open>The invariant\<close>

definition mbf_exists :: "ID \<Rightarrow> 'a mbf_st_scheme \<Rightarrow> bool" where
  "mbf_exists i s \<longleftrightarrow> chk_id (max_mbfid s) i \<and> mbfid (mbfcb_table s i) \<noteq> 0"

definition mbf_obj_pre :: "ID \<Rightarrow> 'a mbf_st_scheme \<Rightarrow> bool" where
  "mbf_obj_pre i s \<longleftrightarrow>
     (let c = mbfcb_table s i
      in mbfid c = i \<and> 0 < maxmsz c \<and> maxmsz c < 2 ^ 31 \<and> (\<exists>ms. mbf_holds c ms) \<and>
         (\<forall>t \<in> set (que s (WaitQ OSmbf i)).
            0 < smbf_msgsz (winfo (tcbs s t)) \<and> smbf_msgsz (winfo (tcbs s t)) \<le> maxmsz c \<and>
            rel_wai_hook (wspec (tcbs s t)) = Some H_mbf_rel_wai \<and>
            chg_pri_hook (wspec (tcbs s t)) =
              (if has (mbfatr c) TA_TPRI then Some H_mbf_chg_pri else None)) \<and>
         (\<forall>t \<in> set (que s (WaitQ ORmbf i)). rel_wai_hook (wspec (tcbs s t)) = None \<and>
            chg_pri_hook (wspec (tcbs s t)) = None))"

text \<open>No sender waits while its message fits, no receiver while there is a message or a sender.\<close>

definition mbf_obj_settled :: "ID \<Rightarrow> 'a mbf_st_scheme \<Rightarrow> bool" where
  "mbf_obj_settled i s \<longleftrightarrow>
     (case que s (WaitQ OSmbf i) of
        [] \<Rightarrow> True
      | t # _ \<Rightarrow> \<not> mbf_free (mbfcb_table s i) (smbf_msgsz (winfo (tcbs s t)))) \<and>
     (que s (WaitQ ORmbf i) \<noteq> [] \<longrightarrow> mbf_empty (mbfcb_table s i) \<and> que s (WaitQ OSmbf i) = [])"

definition mbf_weak :: "ID \<Rightarrow> 'a mbf_st_scheme \<Rightarrow> bool" where
  "mbf_weak i s \<longleftrightarrow>
     kinv s \<and> distinct (free_mbfcb s) \<and>
     (\<forall>j. j \<in> set (free_mbfcb s) \<longleftrightarrow> chk_id (max_mbfid s) j \<and> mbfid (mbfcb_table s j) = 0) \<and>
     (\<forall>j. if mbf_exists j s then mbf_obj_pre j s \<and> (j \<noteq> i \<longrightarrow> mbf_obj_settled j s)
          else que s (WaitQ OSmbf j) = [] \<and> que s (WaitQ ORmbf j) = [])"

definition mbf_ok :: "'a mbf_st_scheme \<Rightarrow> bool" where
  "mbf_ok s \<longleftrightarrow>
     kinv s \<and> distinct (free_mbfcb s) \<and>
     (\<forall>j. j \<in> set (free_mbfcb s) \<longleftrightarrow> chk_id (max_mbfid s) j \<and> mbfid (mbfcb_table s j) = 0) \<and>
     (\<forall>j. if mbf_exists j s then mbf_obj_pre j s \<and> mbf_obj_settled j s
          else que s (WaitQ OSmbf j) = [] \<and> que s (WaitQ ORmbf j) = [])"

interpretation mbfo: object_pool "{OSmbf, ORmbf}" max_mbfid free_mbfcb mbfcb_table mbfid
  mbf_obj_pre mbf_obj_settled mbf_ok mbf_weak
proof unfold_locales
  fix s s' :: "'a mbf_st_scheme" and j
  assume cb: "mbfcb_table s' j = mbfcb_table s j"
    and w: "\<And>k. k \<in> {OSmbf, ORmbf} \<Longrightarrow> same_waits s' s k j"
  note ws = same_waitsD [OF w [of OSmbf, simplified]] and wr = same_waitsD [OF w [of ORmbf, simplified]]
  show "mbf_obj_settled j s \<Longrightarrow> mbf_obj_settled j s'"
    unfolding mbf_obj_settled_def cb ws(1) wr(1) using ws(2) by (auto split: list.splits)
  show "mbf_obj_pre j s \<Longrightarrow> mbf_obj_pre j s'"
    unfolding mbf_obj_pre_def Let_def cb ws(1) wr(1) using ws(2,3) wr(2,3) by simp
qed (auto simp: mbf_weak_def mbf_ok_def mbf_exists_def split: if_splits)

lemma mbf_okD:
  assumes "mbf_ok s"
  shows "kinv s" "mbf_weak i s" "mbf_exists i s \<Longrightarrow> mbf_obj_pre i s"
    "mbf_exists i s \<Longrightarrow> mbf_obj_settled i s"
    "\<not> mbf_exists i s \<Longrightarrow> que s (WaitQ OSmbf i) = [] \<and> que s (WaitQ ORmbf i) = []"
  using assms mbfo.okD(1) [OF assms, of i] by (simp_all add: mbf_ok_def)

section \<open>Accepting the messages of waiting senders\<close>

text \<open>The message of a waiting sender.\<close>

definition smbf_bytes :: "'a kst_scheme \<Rightarrow> ID \<Rightarrow> UB list" where
  "smbf_bytes s t = map (\<lambda>k. mem_byte s (smbf_msg (winfo (tcbs s t)) + k))
     [0..<nat (smbf_msgsz (winfo (tcbs s t)))]"

text \<open>One sender accepted.\<close>

lemma mbf_accept_weak:
  fixes s :: "'a mbf_st_scheme"
  assumes wk: "mbf_weak i s" and ex: "mbf_exists i s" and q: "que s (WaitQ OSmbf i) = t # ts"
    and f: "mbf_free (mbfcb_table s i) (smbf_msgsz (winfo (tcbs s t)))"
    and h: "mbf_holds (mbfcb_table s i) ms"
  defines "s' \<equiv> mbf_accept i t s"
  shows "mbf_weak i s'" "mbf_exists i s'" "que s' (WaitQ OSmbf i) = ts"
    "que s' (WaitQ ORmbf i) = que s (WaitQ ORmbf i)"
    "mbf_holds (mbfcb_table s' i) (ms @ [smbf_bytes s t])"
    "tstate (tcbs s' u) = (if u = t then released (tstate (tcbs s t)) else tstate (tcbs s u))"
    "wercd (tcbs s' u) = (if u = t then E_OK else wercd (tcbs s u))"
    "smbf_bytes s' = smbf_bytes s" "sched_ok s \<Longrightarrow> sched_ok s'" "mem_byte s' = mem_byte s"
proof -
  let ?w = "winfo (tcbs s t)"
  let ?s1 = "upd_mbfcb i (\<lambda>c. msg_to_mbf c (mem_byte s) (smbf_msg ?w) (smbf_msgsz ?w)) s"
  have s': "s' = wait_release_ok t ?s1" by (simp add: s'_def mbf_accept_def Let_def)
  note k = mbfo.weakD(1) [OF wk]
  have k1: "kinv ?s1" using k by simp
  have pre: "mbf_obj_pre i s" using mbfo.weakD(4) [OF wk] ex by (simp add: mbf_exists_def)
  have w: "in_wait (tstate (tcbs ?s1 t))" using kinv_xD(5) [OF k, of t OSmbf i] q by simp
  note ro = rok.kinv [OF k1 w] rok.wque [OF k1 w] rok.sched [OF k1 w] rok.tstate rok.wercd
  have v: "winfo (tcbs s' u) = winfo (tcbs s u)" "wspec (tcbs s' u) = wspec (tcbs s u)" for u
    unfolding s' by (simp_all add: wait_release_ok_def)
  have c: "mbfcb_table s' j = mbfcb_table ?s1 j" for j by (simp add: s')
  have dq: "distinct (t # ts)" using que_ok_distinct [OF kinv_xD(2) [OF k], of "WaitQ OSmbf i"] q by simp
  have nq: "t \<notin> set (que s (WaitQ kd j))" if "kd \<noteq> OSmbf \<or> j \<noteq> i" for kd j
    using que_okD [OF kinv_xD(2) [OF k], of t "WaitQ kd j" "WaitQ OSmbf i"] q that by auto
  show qs: "que s' (WaitQ OSmbf i) = ts" using ro(2) [of OSmbf i] q dq by (simp add: s' removeAll_id)
  have qo: "que s' (WaitQ kd j) = que s (WaitQ kd j)" if "kd \<noteq> OSmbf \<or> j \<noteq> i" for kd j
    using ro(2) [of kd j] nq [OF that] by (simp add: s' removeAll_id)
  show "que s' (WaitQ ORmbf i) = que s (WaitQ ORmbf i)" using qo by simp
  have sz: "0 < smbf_msgsz ?w" "smbf_msgsz ?w < 2 ^ 31" using pre q by (auto simp: mbf_obj_pre_def Let_def)
  show h': "mbf_holds (mbfcb_table s' i) (ms @ [smbf_bytes s t])"
    using msg_to_mbf_holds [OF h sz f, of "mem_byte s" "smbf_msg ?w"] by (simp add: c smbf_bytes_def)
  have pre': "mbf_obj_pre i s'"
    using pre q h' qo [of ORmbf i] unfolding mbf_obj_pre_def Let_def qs v c by auto
  show "mbf_weak i s'"
  proof (rule mbfo.frame_weak [OF wk])
    show "kinv s'" using ro(1) by (simp add: s')
    show "same_waits s' s kd j" if "j \<noteq> i" for kd j
      using that qo [of kd j] v by (simp add: same_waits_def)
  qed (use ex pre' in \<open>simp_all add: c mbf_exists_def, simp_all add: s'\<close>)
  show "mbf_exists i s'" using ex by (simp add: mbf_exists_def c) (simp add: s')
  show "tstate (tcbs s' u) = (if u = t then released (tstate (tcbs s t)) else tstate (tcbs s u))"
    "wercd (tcbs s' u) = (if u = t then E_OK else wercd (tcbs s u))"
    using ro(4) [of t ?s1 u] ro(5) [of t ?s1 u] by (simp_all add: s')
  show "mem_byte s' = mem_byte s" by (simp add: s')
  then show "smbf_bytes s' = smbf_bytes s" by (simp add: smbf_bytes_def fun_eq_iff v)
  show "sched_ok s \<Longrightarrow> sched_ok s'" using ro(3) by (simp add: s')
qed

text \<open>The senders are accepted from the front of the queue, as long as their messages fit; the
  messages are stored in this order.\<close>

lemma mbf_wakeup_all:
  fixes s :: "'a mbf_st_scheme"
  assumes "mbf_weak i s" "mbf_exists i s" "mbf_holds (mbfcb_table s i) ms"
    "que s (WaitQ ORmbf i) \<noteq> [] \<Longrightarrow> mbf_obj_settled i s"
  shows "\<exists>n. let q = que s (WaitQ OSmbf i); s' = mbf_wakeup i s
    in mbf_ok s' \<and> que s' (WaitQ OSmbf i) = drop n q \<and>
       que s' (WaitQ ORmbf i) = que s (WaitQ ORmbf i) \<and>
       mbf_holds (mbfcb_table s' i) (ms @ map (smbf_bytes s) (take n q)) \<and>
       (\<forall>u. tstate (tcbs s' u) = (if u \<in> set (take n q) then released (tstate (tcbs s u)) else tstate (tcbs s u)) \<and>
            wercd (tcbs s' u) = (if u \<in> set (take n q) then E_OK else wercd (tcbs s u))) \<and>
       (sched_ok s \<longrightarrow> sched_ok s') \<and> mem_byte s' = mem_byte s"
  using assms
proof (induction "que s (WaitQ OSmbf i)" arbitrary: s ms)
  case Nil
  then have w: "mbf_wakeup i s = s" by (subst mbf_wakeup.simps) simp
  have st: "mbf_obj_settled i s" using Nil by (cases "que s (WaitQ ORmbf i) = []") (auto simp: mbf_obj_settled_def)
  then have "mbf_ok s" using Nil.prems(1,2) mbfo.ok_iff [of s i] by (simp add: mbf_exists_def)
  then show ?case using Nil by (intro exI [of _ 0]) (simp add: w Let_def)
next
  case (Cons t ts)
  note q = Cons.hyps(2) [symmetric]
  show ?case
  proof (cases "mbf_free (mbfcb_table s i) (smbf_msgsz (winfo (tcbs s t)))")
    case False
    then have w: "mbf_wakeup i s = s" by (subst mbf_wakeup.simps) (simp add: q)
    have "mbf_obj_settled i s" using Cons.prems(4) False q by (auto simp: mbf_obj_settled_def)
    then have "mbf_ok s" using Cons.prems(1,2) mbfo.ok_iff [of s i] by (simp add: mbf_exists_def)
    then show ?thesis using Cons.prems(3) by (intro exI [of _ 0]) (simp add: w Let_def)
  next
    case True
    let ?s = "mbf_accept i t s"
    have w: "mbf_wakeup i s = mbf_wakeup i ?s" using True by (subst mbf_wakeup.simps) (simp add: q)
    note a = mbf_accept_weak [OF Cons.prems(1,2) q True Cons.prems(3)]
    have r: "que s (WaitQ ORmbf i) = []" using Cons.prems(4) q by (auto simp: mbf_obj_settled_def)
    have "que ?s (WaitQ ORmbf i) \<noteq> [] \<Longrightarrow> mbf_obj_settled i ?s" by (simp add: a(4) r)
    from Cons.hyps(1) [OF a(3) [symmetric] a(1,2,5) this] obtain n where n:
      "mbf_ok (mbf_wakeup i ?s)" "que (mbf_wakeup i ?s) (WaitQ OSmbf i) = drop n ts"
      "que (mbf_wakeup i ?s) (WaitQ ORmbf i) = que ?s (WaitQ ORmbf i)"
      "mbf_holds (mbfcb_table (mbf_wakeup i ?s) i) ((ms @ [smbf_bytes s t]) @ map (smbf_bytes ?s) (take n ts))"
      "\<And>u. tstate (tcbs (mbf_wakeup i ?s) u) =
         (if u \<in> set (take n ts) then released (tstate (tcbs ?s u)) else tstate (tcbs ?s u)) \<and>
         wercd (tcbs (mbf_wakeup i ?s) u) = (if u \<in> set (take n ts) then E_OK else wercd (tcbs ?s u))"
      "sched_ok ?s \<longrightarrow> sched_ok (mbf_wakeup i ?s)" "mem_byte (mbf_wakeup i ?s) = mem_byte ?s"
      unfolding Let_def a(3) by blast
    have d: "t \<notin> set ts" using que_ok_distinct [OF kinv_xD(2) [OF mbfo.weakD(1) [OF Cons.prems(1)]], of "WaitQ OSmbf i"] q
      by simp
    then have dn: "t \<notin> set (take n ts)" by (meson in_set_takeD)
    show ?thesis
    proof (intro exI [of _ "Suc n"], unfold Let_def w q, intro conjI allI)
      fix u
      show "tstate (tcbs (mbf_wakeup i ?s) u) =
          (if u \<in> set (take (Suc n) (t # ts)) then released (tstate (tcbs s u)) else tstate (tcbs s u))"
        "wercd (tcbs (mbf_wakeup i ?s) u) = (if u \<in> set (take (Suc n) (t # ts)) then E_OK else wercd (tcbs s u))"
        using n(5) [of u] dn by (auto simp: a(6,7))
    qed (use n a r in simp_all)
  qed
qed


section \<open>Sending\<close>

lemma mbf_upd_mem [simp]:
  "mbf_ok (s\<lparr>mem_byte := mb\<rparr>) = mbf_ok s" "mbf_ok (s\<lparr>mem_int := mi\<rparr>) = mbf_ok s"
  "mbf_ok (s\<lparr>ctxtsk := c\<rparr>) = mbf_ok s"
  "mbf_weak i (s\<lparr>mem_byte := mb\<rparr>) = mbf_weak i s"
  by (simp_all add: mbf_ok_def mbf_weak_def mbf_exists_def mbf_obj_pre_def mbf_obj_settled_def
    cong: list.case_cong)

lemma mbf_ok_set_wercd [simp]: "mbf_ok (set_wercd t e s) = mbf_ok s"
  by (simp add: mbf_ok_def mbf_exists_def mbf_obj_pre_def mbf_obj_settled_def cong: list.case_cong)

text \<open>A task leaves a queue.\<close>

lemma mbf_leave:
  fixes s s' :: "'a mbf_st_scheme"
  assumes ok: "mbf_ok s" and t: "t \<in> set (que s (WaitQ kd i))" and kd: "kd \<in> {OSmbf, ORmbf}"
    and k': "kinv s'" and q: "\<And>k j. que s' (WaitQ k j) = removeAll t (que s (WaitQ k j))"
    and v: "\<And>u. winfo (tcbs s' u) = winfo (tcbs s u)" "\<And>u. wspec (tcbs s' u) = wspec (tcbs s u)"
    and same: "mbfcb_table s' = mbfcb_table s" "free_mbfcb s' = free_mbfcb s" "max_mbfid s' = max_mbfid s"
  shows "mbf_weak i s'" "mbf_exists i s'" "kd = OSmbf \<Longrightarrow> que s' (WaitQ ORmbf i) = []"
    "kd = ORmbf \<Longrightarrow> mbf_ok s'" "mbf_exists i s"
proof -
  note k = mbf_okD(1) [OF ok]
  show ex: "mbf_exists i s"
    using mbfo.waits_exists [OF mbf_okD(2) [OF ok] t kd] by (simp add: mbf_exists_def)
  then show "mbf_exists i s'" by (simp add: mbf_exists_def same)
  note pre = mbf_okD(3) [OF ok ex] and st = mbf_okD(4) [OF ok ex]
  have nq: "que s' (WaitQ k j) = que s (WaitQ k j)" if "k \<noteq> kd \<or> j \<noteq> i" for k j
  proof -
    have "t \<notin> set (que s (WaitQ k j))"
      using que_okD [OF kinv_xD(2) [OF k], of t "WaitQ k j" "WaitQ kd i"] t that by auto
    then show ?thesis by (simp add: q removeAll_id)
  qed
  have pre': "mbf_obj_pre i s'"
    using pre unfolding mbf_obj_pre_def Let_def v same q by simp
  have sw: "same_waits s' s k j" if "j \<noteq> i" for k j
    using that nq [of k j] v by (simp add: same_waits_def)
  show wk: "mbf_weak i s'"
    by (rule mbfo.frame_weak [OF mbf_okD(2) [OF ok] k']) (use same ex pre' sw in \<open>simp_all add: mbf_exists_def\<close>)
  show "que s' (WaitQ ORmbf i) = []" if "kd = OSmbf"
    using st t that nq [of ORmbf i] by (auto simp: mbf_obj_settled_def)
  show "mbf_ok s'" if "kd = ORmbf"
  proof -
    have "que s (WaitQ OSmbf i) = []" using st t that by (auto simp: mbf_obj_settled_def)
    then have "mbf_obj_settled i s'"
      using st t that nq [of OSmbf i] by (auto simp: mbf_obj_settled_def same)
    then show ?thesis using wk mbfo.ok_iff [of s' i] by blast
  qed
qed

lemma mbf_free_mono:
  assumes "mbf_holds c ms" "mbf_holds c' ms'" "frbufsz c' \<le> frbufsz c" "0 < n" "n < 2 ^ 31"
  shows "mbf_free c' n \<Longrightarrow> mbf_free c n"
  using mbf_free_iff [OF assms(1,4,5)] mbf_free_iff [OF assms(2,4,5)] assms(3) by simp

text \<open>A message is stored in the buffer.\<close>

lemma mbf_store:
  fixes s :: "'a mbf_st_scheme" and msg :: addr
  assumes ok: "mbf_ok s" and ex: "mbf_exists i s" and h: "mbf_holds (mbfcb_table s i) ms"
    and n: "0 < n" "n \<le> maxmsz (mbfcb_table s i)" and f: "mbf_free (mbfcb_table s i) n"
    and r: "que s (WaitQ ORmbf i) = []"
  defines "s' \<equiv> upd_mbfcb i (\<lambda>c. msg_to_mbf c (mem_byte s) msg n) s"
  shows "mbf_ok s'" "mbf_holds (mbfcb_table s' i) (ms @ [map (\<lambda>k. mem_byte s (msg + k)) [0..<nat n]])"
proof -
  note pre = mbf_okD(3) [OF ok ex] and st = mbf_okD(4) [OF ok ex]
  have n31: "n < 2 ^ 31" using n pre by (simp add: mbf_obj_pre_def Let_def)
  show h': "mbf_holds (mbfcb_table s' i) (ms @ [map (\<lambda>k. mem_byte s (msg + k)) [0..<nat n]])"
    using msg_to_mbf_holds [OF h n(1) n31 f] by (simp add: s'_def)
  have less: "frbufsz (mbfcb_table s' i) \<le> frbufsz (mbfcb_table s i)"
    using h h' msize_pos(1) [of "map (\<lambda>k. mem_byte s (msg + k)) [0..<nat n]"]
    by (simp add: mbf_holds_def s'_def)
  have pre': "mbf_obj_pre i s'"
    using pre h' unfolding mbf_obj_pre_def Let_def by (auto simp: s'_def)
  have st': "mbf_obj_settled i s'"
  proof (cases "que s (WaitQ OSmbf i)")
    case (Cons t ts)
    then have t: "0 < smbf_msgsz (winfo (tcbs s t))" "smbf_msgsz (winfo (tcbs s t)) < 2 ^ 31"
      using pre by (auto simp: mbf_obj_pre_def Let_def)
    have "\<not> mbf_free (mbfcb_table s i) (smbf_msgsz (winfo (tcbs s t)))"
      using st Cons by (simp add: mbf_obj_settled_def)
    then have "\<not> mbf_free (mbfcb_table s' i) (smbf_msgsz (winfo (tcbs s t)))"
      using mbf_free_mono [OF h h' less t] by blast
    then show ?thesis using Cons r by (simp add: mbf_obj_settled_def s'_def)
  qed (use r in \<open>simp add: mbf_obj_settled_def s'_def\<close>)
  show "mbf_ok s'"
    by (rule mbfo.frame [OF mbf_okD(2) [OF ok, of i]])
      (use mbf_okD(1) [OF ok] pre' st' ex in \<open>simp_all add: same_waits_tcbs mbf_exists_def,
        simp_all add: s'_def same_waits_tcbs\<close>)
qed

text \<open>A message goes to a waiting receiver.\<close>

lemma mbf_deliver:
  fixes s :: "'a mbf_st_scheme"
  assumes ok: "mbf_ok s" and q: "que s (WaitQ ORmbf i) = t # ts"
  shows "mbf_ok (wait_release_ok t s)" "que (wait_release_ok t s) (WaitQ ORmbf i) = ts"
    "sched_ok s \<Longrightarrow> sched_ok (wait_release_ok t s)"
proof -
  note k = mbf_okD(1) [OF ok]
  have w: "in_wait (tstate (tcbs s t))" using kinv_xD(5) [OF k, of t ORmbf i] q by simp
  have m: "kst.more (wait_release t s) = kst.more s" by simp
  have "mbf_ok (wait_release t s)"
    by (rule mbf_leave(4) [OF ok, of t ORmbf i])
      (use wait_release_kinv_x [OF k w] wait_release_que [OF k w] q mbf_more [OF m] in simp_all)
  then show "mbf_ok (wait_release_ok t s)" by (simp add: wait_release_ok_def)
  have "distinct (t # ts)" using que_ok_distinct [OF kinv_xD(2) [OF k], of "WaitQ ORmbf i"] q by simp
  then show "que (wait_release_ok t s) (WaitQ ORmbf i) = ts"
    using rok.wque [OF k w, of ORmbf i] q by (simp add: removeAll_id)
  show "sched_ok s \<Longrightarrow> sched_ok (wait_release_ok t s)" by (rule rok.sched [OF k w])
qed

text \<open>A sender whose message does not fit, or that is not the first, starts to wait.\<close>

lemma mbf_call_wait_ok:
  fixes s :: "'a mbf_st_scheme"
  assumes ok: "mbf_ok s" and r: "running t s" and ex: "mbf_exists i s"
    and n: "0 < n" "n \<le> maxmsz (mbfcb_table s i)" and rq: "que s (WaitQ ORmbf i) = []"
    and nf: "gcb_top_of_wait_queue (mbfatr (mbfcb_table s i)) (WaitQ OSmbf i) t s = t \<Longrightarrow>
      \<not> mbf_free (mbfcb_table s i) n"
  shows "mbf_ok (call_wait OSmbf i (mbfatr (mbfcb_table s i)) tmout
    (if has (mbfatr (mbfcb_table s i)) TA_TPRI then wspec_smbf_tpri else wspec_smbf_tfifo)
    (WI_smbf msg n) s)"
proof -
  define s' where "s' = call_wait OSmbf i (mbfatr (mbfcb_table s i)) tmout
    (if has (mbfatr (mbfcb_table s i)) TA_TPRI then wspec_smbf_tpri else wspec_smbf_tfifo)
    (WI_smbf msg n) s"
  let ?a = "mbfatr (mbfcb_table s i)" and ?q = "que s (WaitQ OSmbf i)" and ?c = "mbfcb_table s i"
  note c = call_wait [OF mbf_okD(1) [OF ok] r, where kd = OSmbf and i = i and atr = ?a and tmout = tmout
      and w = "if has ?a TA_TPRI then wspec_smbf_tpri else wspec_smbf_tfifo" and f = "WI_smbf msg n", folded s'_def]
  have fr: "mbfcb_table s' = mbfcb_table s" "free_mbfcb s' = free_mbfcb s" "max_mbfid s' = max_mbfid s"
    by (simp_all add: s'_def)
  note pre = mbf_okD(3) [OF ok ex] and st = mbf_okD(4) [OF ok ex]
  have tq: "t \<notin> set (que s (WaitQ k j))" for k j
    using not_wait_not_queued [OF mbf_okD(1) [OF ok] runningD(2) [OF r]] .
  have qs: "que s' (WaitQ OSmbf i) = ?q \<or>
      que s' (WaitQ OSmbf i) = wait_order ?a (\<lambda>u. priority (tcbs s u)) t ?q" by (auto simp: c(2))
  have rq': "que s' (WaitQ ORmbf i) = []" by (simp add: c(2) rq)
  have v: "u \<noteq> t \<Longrightarrow> winfo (tcbs s' u) = winfo (tcbs s u)" "u \<noteq> t \<Longrightarrow> wspec (tcbs s' u) = wspec (tcbs s u)"
    "winfo (tcbs s' t) = WI_smbf msg n" for u by (simp_all add: c(3,4))
  have mem: "0 < smbf_msgsz (winfo (tcbs s' u)) \<and> smbf_msgsz (winfo (tcbs s' u)) \<le> maxmsz ?c \<and>
      rel_wai_hook (wspec (tcbs s' u)) = Some H_mbf_rel_wai \<and>
      chg_pri_hook (wspec (tcbs s' u)) = (if has ?a TA_TPRI then Some H_mbf_chg_pri else None)"
    if "u \<in> insert t (set ?q)" for u
  proof (cases "u = t")
    case True
    then show ?thesis using n by (simp add: c(3,4))
  next
    case False
    then have "u \<in> set ?q" using that by simp
    then show ?thesis using pre v(1,2) [OF False] by (simp add: mbf_obj_pre_def Let_def)
  qed
  have "set (que s' (WaitQ OSmbf i)) \<subseteq> insert t (set ?q)" using qs by auto
  then have pre': "mbf_obj_pre i s'"
    using pre mem rq' unfolding mbf_obj_pre_def Let_def fr by auto
  have "case que s' (WaitQ OSmbf i) of [] \<Rightarrow> True
      | h # _ \<Rightarrow> \<not> mbf_free ?c (smbf_msgsz (winfo (tcbs s' h)))"
  proof (cases ?q)
    case Nil
    then have "gcb_top_of_wait_queue ?a (WaitQ OSmbf i) t s = t" by (simp add: gcb_top_of_wait_queue_def)
    then show ?thesis using qs Nil nf by (auto simp: wait_order_def c(3))
  next
    case (Cons h ts)
    have h: "\<not> mbf_free ?c (smbf_msgsz (winfo (tcbs s h)))" "h \<noteq> t"
      using st Cons tq [of OSmbf i] by (auto simp: mbf_obj_settled_def)
    show ?thesis
    proof (cases "has ?a TA_TPRI \<and> priority (tcbs s t) < priority (tcbs s h)")
      case True
      then have "gcb_top_of_wait_queue ?a (WaitQ OSmbf i) t s = t"
        using Cons by (simp add: gcb_top_of_wait_queue_def)
      then show ?thesis using qs Cons nf h True by (auto simp: wait_order_def c(3))
    next
      case False
      then show ?thesis using qs Cons h v(1) [OF h(2)] by (auto simp: wait_order_def)
    qed
  qed
  then have st': "mbf_obj_settled i s'" unfolding mbf_obj_settled_def fr rq' by simp
  have "mbf_ok s'"
    by (rule mbfo.frame [OF mbf_okD(2) [OF ok, of i] c(1)])
      (use ex pre' st' c(5) fr in \<open>simp_all add: mbf_exists_def\<close>)
  then show ?thesis by (simp add: s'_def)
qed

lemma in_indp_ddsp: "in_indp s \<Longrightarrow> in_ddsp s"
  by (simp add: in_ddsp_def)

lemma tk_snd_mbf_u_ok:
  fixes s :: "'a mbf_st_scheme"
  assumes ok: "mbf_ok s" and r: "in_ddsp s \<or> running (me s) s"
  shows "mbf_ok (snd (tk_snd_mbf_u i msg n tmout s))"
proof (cases "mbf_exists i s \<and> 0 < n \<and> n \<le> maxmsz (mbfcb_table s i)")
  case True
  then have ex: "mbf_exists i s" and n: "0 < n" "n \<le> maxmsz (mbfcb_table s i)" by auto
  obtain ms where h: "mbf_holds (mbfcb_table s i) ms"
    using mbf_okD(3) [OF ok ex] by (auto simp: mbf_obj_pre_def Let_def)
  show ?thesis
  proof (cases "que s (WaitQ ORmbf i)")
    case (Cons t ts)
    have "mbf_ok (wait_release_ok t ((s\<lparr>mem_byte := mb\<rparr>)\<lparr>mem_int := mi\<rparr>))" for mb mi
      by (rule mbf_deliver(1) [where ts = ts and i = i]) (use ok Cons in simp_all)
    then show ?thesis using ok ex n Cons by (simp add: tk_snd_mbf_u_def Let_def)
  next
    case Nil
    note st = mbf_store(1) [OF ok ex h n _ Nil]
    have "mbf_ok (call_wait OSmbf i (mbfatr (mbfcb_table s i)) tmout
      (if has (mbfatr (mbfcb_table s i)) TA_TPRI then wspec_smbf_tpri else wspec_smbf_tfifo)
      (WI_smbf msg n) s)"
      if "\<not> in_ddsp s" "gcb_top_of_wait_queue (mbfatr (mbfcb_table s i)) (WaitQ OSmbf i) (me s) s = me s \<Longrightarrow>
        \<not> mbf_free (mbfcb_table s i) n"
      using that r by (intro mbf_call_wait_ok [OF ok _ ex n Nil]) auto
    then show ?thesis using ok st Nil by (auto simp: tk_snd_mbf_u_def Let_def)
  qed
qed (use ok in \<open>auto simp: tk_snd_mbf_u_def Let_def mbf_exists_def\<close>)


section \<open>Receiving\<close>

text \<open>A message is taken from the buffer and senders that now fit are accepted.\<close>

lemma mbf_fetch:
  fixes s :: "'a mbf_st_scheme" and msg :: addr
  assumes ok: "mbf_ok s" and ex: "mbf_exists i s" and h: "mbf_holds (mbfcb_table s i) (m # ms)"
  obtains cb' where
    "mbf_to_msg (mbfcb_table s i) (mem_byte s) msg = (int (length m), cb',
       \<lambda>a. if msg \<le> a \<and> a < msg + length m then m ! (a - msg) else mem_byte s a)"
    "mbf_holds cb' ms" "que s (WaitQ ORmbf i) = []"
    "\<And>mb. mbf_weak i (upd_mbfcb i (\<lambda>_. cb') (s\<lparr>mem_byte := mb\<rparr>))"
    "\<And>mb. mbf_exists i (upd_mbfcb i (\<lambda>_. cb') (s\<lparr>mem_byte := mb\<rparr>))"
proof -
  note pre = mbf_okD(3) [OF ok ex] and st = mbf_okD(4) [OF ok ex]
  obtain cb' where cb': "mbf_to_msg (mbfcb_table s i) (mem_byte s) msg = (int (length m), cb',
       \<lambda>a. if msg \<le> a \<and> a < msg + length m then m ! (a - msg) else mem_byte s a)"
    "mbf_holds cb' ms" "bufsz cb' = bufsz (mbfcb_table s i)" "mbfid cb' = mbfid (mbfcb_table s i)"
    "mbfatr cb' = mbfatr (mbfcb_table s i)" "maxmsz cb' = maxmsz (mbfcb_table s i)"
    using mbf_to_msg_holds [OF h] .
  have rq: "que s (WaitQ ORmbf i) = []"
    using st mbf_empty_iff [OF h] by (auto simp: mbf_obj_settled_def)
  have wk: "mbf_weak i (upd_mbfcb i (\<lambda>_. cb') (s\<lparr>mem_byte := mb\<rparr>))" for mb
    by (rule mbfo.frame_weak [OF mbf_okD(2) [OF ok]])
      (use mbf_okD(1) [OF ok] pre cb' ex in \<open>auto simp: same_waits_tcbs mbf_obj_pre_def Let_def mbf_exists_def\<close>)
  have "mbf_exists i (upd_mbfcb i (\<lambda>_. cb') (s\<lparr>mem_byte := mb\<rparr>))" for mb
    using ex cb' by (simp add: mbf_exists_def)
  then show thesis using that cb'(1,2) rq wk by blast
qed

text \<open>Waiting for a message.\<close>

lemma tcb_upd_twice: "tcb_upd t f (tcb_upd t g s) = tcb_upd t (\<lambda>c. f (g c)) s"
  by (simp add: tcb_upd_def)

lemma rcv_mbf_wait_eq:
  assumes r: "running t s" and w: "\<not> is_diswai (mbfatr (mbfcb_table s i)) t TTW_RMBF s" "tmout \<noteq> TMO_POL"
  shows "rcv_mbf_wait p i msg tmout s =
    call_wait ORmbf i (mbfatr (mbfcb_table s i) AND NOT TA_TPRI) tmout wspec_rmbf (WI_rmbf msg p) s"
proof -
  let ?a = "mbfatr (mbfcb_table s i)"
  have h: "has (?a AND NOT TA_TPRI) TA_NODISWAI = has ?a TA_NODISWAI" "\<not> has (?a AND NOT TA_TPRI) TA_TPRI"
    by (simp_all add: has_def TA_NODISWAI_def TA_TPRI_def and.assoc)
  have m: "me s = t" using r by (rule runningD)
  have ew: "enter_wait (?a AND NOT TA_TPRI) s' = enter_wait ?a s'" for s' :: "'a mbf_st_scheme"
    by (simp add: enter_wait_def h)
  have u: "(\<lambda>c. c\<lparr>wspec := wspec_rmbf, winfo := WI_rmbf msg p, wercd := E_TMOUT, wid := i\<rparr>) =
      (\<lambda>c. c\<lparr>wspec := wspec_rmbf, wid := i, wercd := E_TMOUT, winfo := WI_rmbf msg p\<rparr> :: tcb)"
    by (rule ext) simp
  have nd: "\<not> (has (waitmask (tcbs s t)) TTW_RMBF \<and> \<not> has ?a TA_NODISWAI)"
    using w(1) by (simp add: is_diswai_def)
  show ?thesis
    using w(2) nd by (auto simp add: rcv_mbf_wait_def call_wait_def gcb_make_wait_with_diswai_def gcb_make_wait_def
      is_diswai_def h m connect_wait_def make_wait_def ew set_wercd_def tcb_upd_twice Let_def u)
qed

lemma rcv_mbf_wait_ok:
  fixes s :: "'a mbf_st_scheme"
  assumes ok: "mbf_ok s" and r: "running t s" and ex: "mbf_exists i s"
    and e: "mbf_empty (mbfcb_table s i)" "que s (WaitQ OSmbf i) = []"
    and w: "\<not> is_diswai (mbfatr (mbfcb_table s i)) t TTW_RMBF s" "tmout \<noteq> TMO_POL"
  shows "mbf_ok (rcv_mbf_wait p i msg tmout s)"
proof -
  define s' where "s' = call_wait ORmbf i (mbfatr (mbfcb_table s i) AND NOT TA_TPRI) tmout wspec_rmbf (WI_rmbf msg p) s"
  note c = call_wait [OF mbf_okD(1) [OF ok] r, where kd = ORmbf and i = i and tmout = tmout
      and atr = "mbfatr (mbfcb_table s i) AND NOT TA_TPRI" and w = wspec_rmbf and f = "WI_rmbf msg p",
      folded s'_def]
  have fr: "mbfcb_table s' = mbfcb_table s" "free_mbfcb s' = free_mbfcb s" "max_mbfid s' = max_mbfid s"
    by (simp_all add: s'_def)
  note pre = mbf_okD(3) [OF ok ex]
  have sq: "que s' (WaitQ OSmbf i) = []" by (simp add: c(2) e)
  have sub: "set (que s' (WaitQ ORmbf i)) \<subseteq> insert t (set (que s (WaitQ ORmbf i)))" by (simp add: c(2)) blast
  have "rel_wai_hook (wspec (tcbs s' u)) = None \<and> chg_pri_hook (wspec (tcbs s' u)) = None"
    if "u \<in> set (que s' (WaitQ ORmbf i))" for u
    using that sub pre by (cases "u = t") (auto simp: c(4) mbf_obj_pre_def Let_def)
  then have pre': "mbf_obj_pre i s'" using pre unfolding mbf_obj_pre_def Let_def fr sq by auto
  have st': "mbf_obj_settled i s'" using e by (simp add: mbf_obj_settled_def fr sq)
  have "mbf_ok s'"
    by (rule mbfo.frame [OF mbf_okD(2) [OF ok, of i] c(1)])
      (use ex pre' st' c(5) fr in \<open>simp_all add: mbf_exists_def\<close>)
  then show ?thesis using rcv_mbf_wait_eq [OF r w] by (simp add: s'_def)
qed

text \<open>A receiver takes the message of a sender whose message does not fit in the empty buffer.\<close>

lemma mbf_direct:
  fixes s :: "'a mbf_st_scheme"
  assumes ok: "mbf_ok s" and ex: "mbf_exists i s" and q: "que s (WaitQ OSmbf i) = t # ts"
  shows "mbf_weak i (wait_release_ok t s)" "mbf_exists i (wait_release_ok t s)"
    "que (wait_release_ok t s) (WaitQ OSmbf i) = ts" "que (wait_release_ok t s) (WaitQ ORmbf i) = []"
proof -
  note k = mbf_okD(1) [OF ok]
  have w: "in_wait (tstate (tcbs s t))" using kinv_xD(5) [OF k, of t OSmbf i] q by simp
  have m: "kst.more (wait_release_ok t s) = kst.more s" by simp
  note l = mbf_leave [OF ok, of t OSmbf i "wait_release_ok t s"]
  have v: "winfo (tcbs (wait_release_ok t s) u) = winfo (tcbs s u)"
    "wspec (tcbs (wait_release_ok t s) u) = wspec (tcbs s u)" for u by (simp_all add: wait_release_ok_def)
  show "mbf_weak i (wait_release_ok t s)" "mbf_exists i (wait_release_ok t s)"
    "que (wait_release_ok t s) (WaitQ ORmbf i) = []"
    using l(1,2,3) [OF _ _ rok.kinv [OF k w] rok.wque [OF k w] v mbf_more [OF m]] q by simp_all
  have "distinct (t # ts)" using que_ok_distinct [OF kinv_xD(2) [OF k], of "WaitQ OSmbf i"] q by simp
  then show "que (wait_release_ok t s) (WaitQ OSmbf i) = ts"
    using rok.wque [OF k w, of OSmbf i] q by (simp add: removeAll_id)
qed

lemma mbf_wakeup_ok:
  fixes s :: "'a mbf_st_scheme"
  assumes wk: "mbf_weak i s" and ex: "mbf_exists i s"
    and st: "que s (WaitQ ORmbf i) \<noteq> [] \<Longrightarrow> mbf_obj_settled i s"
  shows "mbf_ok (mbf_wakeup i s)"
proof -
  have "mbf_obj_pre i s" using mbfo.weakD(4) [OF wk] ex by (simp add: mbf_exists_def)
  then obtain ms where "mbf_holds (mbfcb_table s i) ms" by (auto simp: mbf_obj_pre_def Let_def)
  from mbf_wakeup_all [OF wk ex this st] show ?thesis by (auto simp: Let_def)
qed

lemma tk_rcv_mbf_u_ok:
  fixes s :: "'a mbf_st_scheme"
  assumes ok: "mbf_ok s" and r: "in_ddsp s \<or> running (me s) s"
  shows "mbf_ok (snd (tk_rcv_mbf_u p i msg tmout s))"
proof (cases "mbf_exists i s \<and> \<not> in_ddsp s")
  case True
  then have ex: "mbf_exists i s" and rn: "running (me s) s" using r by auto
  obtain ms where h: "mbf_holds (mbfcb_table s i) ms"
    using mbf_okD(3) [OF ok ex] by (auto simp: mbf_obj_pre_def Let_def)
  show ?thesis
  proof (cases ms)
    case (Cons m ns)
    obtain cb' where f: "mbf_to_msg (mbfcb_table s i) (mem_byte s) msg = (int (length m), cb',
         \<lambda>a. if msg \<le> a \<and> a < msg + length m then m ! (a - msg) else mem_byte s a)"
      "mbf_holds cb' ns" "que s (WaitQ ORmbf i) = []"
      "\<And>mb. mbf_weak i (upd_mbfcb i (\<lambda>_. cb') (s\<lparr>mem_byte := mb\<rparr>))"
      "\<And>mb. mbf_exists i (upd_mbfcb i (\<lambda>_. cb') (s\<lparr>mem_byte := mb\<rparr>))"
      using mbf_fetch [OF ok ex h [unfolded Cons], of msg] by blast
    have "mbf_ok (mbf_wakeup i (upd_mbfcb i (\<lambda>_. cb') (s\<lparr>mem_byte := mb\<rparr>)))" for mb
      using f(3) by (intro mbf_wakeup_ok [OF f(4,5)]) simp
    moreover have "\<not> mbf_empty (mbfcb_table s i)" using mbf_empty_iff [OF h] Cons by simp
    ultimately show ?thesis using ok ex by (simp add: tk_rcv_mbf_u_def Let_def f(1))
  next
    case Nil
    then have e: "mbf_empty (mbfcb_table s i)" using mbf_empty_iff [OF h] by simp
    show ?thesis
    proof (cases "que s (WaitQ OSmbf i)")
      case sq: Nil
      have "mbf_ok (rcv_mbf_wait p i msg tmout s)"
        if "\<not> is_diswai (mbfatr (mbfcb_table s i)) (me s) TTW_RMBF s" "tmout \<noteq> TMO_POL"
        using rcv_mbf_wait_ok [OF ok rn ex e sq that] .
      then show ?thesis using ok e sq by (auto simp: tk_rcv_mbf_u_def Let_def)
    next
      case sq: (Cons t ts)
      have "mbf_ok (mbf_wakeup i (wait_release_ok t (s\<lparr>mem_byte := mb\<rparr>)))" for mb
      proof -
        have "mbf_ok (s\<lparr>mem_byte := mb\<rparr>)" "mbf_exists i (s\<lparr>mem_byte := mb\<rparr>)"
          "que (s\<lparr>mem_byte := mb\<rparr>) (WaitQ OSmbf i) = t # ts"
          using ok ex sq by (simp_all add: mbf_exists_def)
        from mbf_direct [OF this] show ?thesis by (intro mbf_wakeup_ok) simp_all
      qed
      then show ?thesis using ok e sq by (simp add: tk_rcv_mbf_u_def Let_def)
    qed
  qed
qed (use ok in \<open>auto simp: tk_rcv_mbf_u_def Let_def mbf_exists_def\<close>)

section \<open>The other operations\<close>

text \<open>Creation, for a size that is still positive when it is rounded up.\<close>

lemma mbf_holds_new:
  "0 \<le> n \<Longrightarrow> n < 2 ^ 31 \<Longrightarrow> 4 dvd n \<Longrightarrow> bufsz c = n \<Longrightarrow> frbufsz c = n \<Longrightarrow>
   mbf_head c = 0 \<Longrightarrow> mbf_tail c = 0 \<Longrightarrow> (n > 0 \<Longrightarrow> mbf_buffer c \<noteq> None) \<Longrightarrow> mbf_holds c []"
  by (auto simp: mbf_holds_def)

lemma tk_cre_mbf_ok:
  fixes s :: "'a mbf_st_scheme"
  assumes ok: "mbf_ok s" and sz: "cb_bufsz pk \<le> INT_MAX - 3" "cb_maxmsz pk \<le> INT_MAX"
  shows "mbf_ok (snd (tk_cre_mbf malloc pk s))"
proof (cases "free_mbfcb s")
  case Nil
  then show ?thesis using ok by (simp add: tk_cre_mbf_def Let_def)
next
  case (Cons i free)
  define n where "n = sint (ROUNDSZ (cb_bufsz pk))"
  define msgbuf where "msgbuf = (if n > 0 then malloc else None)"
  let ?s1 = "upd_mbfcb i (\<lambda>c. c\<lparr>mbfid := i, mbf_exinf := cb_exinf pk, mbfatr := cb_mbfatr pk,
      mbf_buffer := msgbuf, bufsz := n, frbufsz := n, maxmsz := cb_maxmsz pk, mbf_head := 0,
      mbf_tail := 0\<rparr>) (s\<lparr>free_mbfcb := free\<rparr>)"
  define s2 where "s2 = (if has (cb_mbfatr pk) TA_DSNAME
      then upd_mbfcb i (\<lambda>c. c\<lparr>mbf_name := tkl_strncpy (cb_dsname pk) OBJECT_NAME_LENGTH\<rparr>) ?s1 else ?s1)"
  have i: "chk_id (max_mbfid s) i" "\<not> mbf_exists i s"
    using mbfo.weakD(3) [OF mbf_okD(2) [OF ok], of i] Cons by (auto simp: mbf_exists_def)
  then have i1: "i \<noteq> 0" by (auto simp: chk_id_def)
  have e: "que s (WaitQ OSmbf i) = []" "que s (WaitQ ORmbf i) = []" using mbf_okD(5) [OF ok i(2)] by auto
  have "mbf_ok s2" if b: "0 \<le> cb_bufsz pk" and m: "0 < cb_maxmsz pk" and nb: "\<not> (n > 0 \<and> msgbuf = None)"
  proof -
    have rn: "n = round4 (cb_bufsz pk)"
    proof -
      have "round4 (cb_bufsz pk) < 2 ^ 31"
        using b sz(1) round4(2,3) [of "cb_bufsz pk"] dvd_gap [of "round4 (cb_bufsz pk)" "2 ^ 31"]
        by (simp add: INT_MAX_def)
      then have "uint (ROUNDSZ (cb_bufsz pk)) = round4 (cb_bufsz pk) \<and> uint (ROUNDSZ (cb_bufsz pk)) < 2 ^ 31"
        using b sz by (simp add: ROUNDSZ_uint INT_MAX_def)
      then show ?thesis unfolding n_def by (metis sint_small32)
    qed
    have n: "0 \<le> n" "n < 2 ^ 31" "4 dvd n"
      using rn b round4 [of "cb_bufsz pk"] sz(1) dvd_gap [of "round4 (cb_bufsz pk)" "2 ^ 31"]
      by (simp_all add: INT_MAX_def)
    have f: "tcbs s2 = tcbs s" "que s2 = que s" "kinv s2 = kinv s" "free_mbfcb s2 = free"
      "max_mbfid s2 = max_mbfid s" "j \<noteq> i \<Longrightarrow> mbfcb_table s2 j = mbfcb_table s j"
      "mbfid (mbfcb_table s2 i) = i" "maxmsz (mbfcb_table s2 i) = cb_maxmsz pk" for j
      by (simp_all add: s2_def)
    have "mbf_holds (mbfcb_table s2 i) []"
      by (rule mbf_holds_new [OF n]) (use nb in \<open>auto simp: s2_def\<close>)
    then have "mbf_obj_pre i s2" "mbf_obj_settled i s2"
      using m sz(2) e by (auto simp: mbf_obj_pre_def mbf_obj_settled_def Let_def f INT_MAX_def)
    then show ?thesis
      using mbf_okD(1) [OF ok] i1 f by (intro mbfo.create [OF ok Cons]) (simp_all add: same_waits_tcbs)
  qed
  then show ?thesis
    using Cons ok unfolding tk_cre_mbf_def Let_def n_def [symmetric] unfolding msgbuf_def [symmetric] s2_def
    by simp
qed

lemma tk_del_mbf_ok:
  fixes s :: "'a mbf_st_scheme"
  assumes ok: "mbf_ok s"
  shows "mbf_ok (snd (tk_del_mbf i s))"
proof -
  let ?w1 = "wait_delete ORmbf i s" and ?w = "wait_delete OSmbf i (wait_delete ORmbf i s)"
  let ?s2 = "upd_mbfcb i (\<lambda>c. c\<lparr>mbfid := 0\<rparr>) (?w\<lparr>free_mbfcb := free_mbfcb s @ [i]\<rparr>)"
  note k = mbf_okD(1) [OF ok]
  note w1 = wait_delete_spec [OF k, of ORmbf i]
  note w2 = wait_delete_spec [OF w1(1), of OSmbf i]
  have "same_waits ?s2 s kd j" if "j \<noteq> i" for kd j
    by (rule same_waits_trans [OF same_waits_tcbs
          same_waits_trans [OF same_waits_delete [OF w1(1), of OSmbf _ _ i] same_waits_delete [OF k, of ORmbf _ _ i]]])
      (use that in simp_all)
  then have "mbf_ok ?s2" if "mbf_exists i s"
    by (intro mbfo.delete [OF ok, of i]) (use that w1 w2 in \<open>auto simp: mbf_exists_def\<close>)
  then show ?thesis using ok by (simp add: tk_del_mbf_def Let_def mbf_exists_def)
qed


text \<open>The hooks of the wait specification.\<close>

definition mbf_rel_hook :: "hook \<Rightarrow> ID \<Rightarrow> 'a mbf_st_scheme \<Rightarrow> 'a mbf_st_scheme" where
  "mbf_rel_hook h t s = (if h = H_mbf_rel_wai then mbf_rel_wai t s else s)"

text \<open>Changing the priority of a waiting sender.\<close>

lemma mbf_chg_pri_ok:
  fixes s :: "'a mbf_st_scheme"
  assumes ok: "mbf_ok s" and t: "t \<in> set (que s (WaitQ OSmbf i))"
  shows "mbf_ok (mbf_chg_pri t old s)"
proof -
  note k = mbf_okD(1) [OF ok]
  have w: "in_wait (tstate (tcbs s t))" "wid (tcbs s t) = i" using kinv_xD(5) [OF k t] by auto
  have ex: "mbf_exists i s" using mbfo.waits_exists [OF mbf_okD(2) [OF ok] t] by (simp add: mbf_exists_def)
  note pre = mbf_okD(3) [OF ok ex] and st = mbf_okD(4) [OF ok ex]
  let ?s' = "gcb_change_priority (WaitQ OSmbf i) t s"
  have rq: "que s (WaitQ ORmbf i) = []" using st t by (auto simp: mbf_obj_settled_def)
  have nq: "t \<notin> set (que s (WaitQ kd j))" if "kd \<noteq> OSmbf \<or> j \<noteq> i" for kd j
    using que_okD [OF kinv_xD(2) [OF k], of t "WaitQ kd j" "WaitQ OSmbf i"] t that by auto
  have qo: "que ?s' (WaitQ kd j) = que s (WaitQ kd j)" if "kd \<noteq> OSmbf \<or> j \<noteq> i" for kd j
    using that nq [OF that] by (auto simp: gcb_change_priority_que removeAll_id)
  have ti: "set (que ?s' (WaitQ OSmbf i)) = set (que s (WaitQ OSmbf i))"
    using t by (auto simp: gcb_change_priority_que)
  have pre': "mbf_obj_pre i ?s'"
    using pre qo [of ORmbf i] unfolding mbf_obj_pre_def Let_def ti mbf_frame gcb_change_priority_frame by simp
  have "mbf_weak i ?s'"
  proof (rule mbfo.frame_weak [OF mbf_okD(2) [OF ok, of i] gcb_change_priority_kinv_x [OF k w]])
    show "same_waits ?s' s kd j" if "j \<noteq> i" for kd j
      using that qo [of kd j] by (simp add: same_waits_def gcb_change_priority_frame)
  qed (use ex pre' in \<open>simp_all add: mbf_exists_def\<close>)
  moreover have "mbf_exists i ?s'" using ex by (simp add: mbf_exists_def)
  moreover have "que ?s' (WaitQ ORmbf i) = []" using qo [of ORmbf i] rq by simp
  ultimately have "mbf_ok (mbf_wakeup i ?s')" by (intro mbf_wakeup_ok) simp_all
  moreover have "mbf_ok (mbf_wakeup i s)"
    using mbf_okD(2,4) [OF ok] ex by (intro mbf_wakeup_ok) simp_all
  ultimately show ?thesis by (simp add: mbf_chg_pri_def Let_def w)
qed

text \<open>A waiting task that is released by force or by time: what remains is settled by the hook.\<close>

lemma mbf_left_ok:
  fixes s s1 :: "'a mbf_st_scheme"
  assumes ok: "mbf_ok s" and t: "t \<in> set (que s (WaitQ kd i))" and kd: "kd \<in> {OSmbf, ORmbf}"
    and k: "kinv s1" and q: "\<And>k j. que s1 (WaitQ k j) = removeAll t (que s (WaitQ k j))"
    and v: "\<And>u. winfo (tcbs s1 u) = winfo (tcbs s u)" "\<And>u. wspec (tcbs s1 u) = wspec (tcbs s u)"
      "wid (tcbs s1 t) = wid (tcbs s t)"
    and m: "kst.more s1 = kst.more s"
  shows "mbf_ok (case rel_wai_hook (wspec (tcbs s1 t)) of None \<Rightarrow> s1 | Some h \<Rightarrow> mbf_rel_hook h t s1)"
proof -
  note l = mbf_leave [OF ok t kd k q v(1,2) mbf_more [OF m]]
  note pre = mbf_okD(3) [OF ok l(5)]
  have w: "wid (tcbs s t) = i" using kinv_xD(5) [OF mbf_okD(1) [OF ok] t] by auto
  show ?thesis
  proof (cases "kd = OSmbf")
    case True
    have "rel_wai_hook (wspec (tcbs s t)) = Some H_mbf_rel_wai"
      using pre t True by (simp add: mbf_obj_pre_def Let_def)
    moreover have "mbf_ok (mbf_wakeup i s1)" using l(3) [OF True] by (intro mbf_wakeup_ok l) simp
    ultimately show ?thesis by (simp add: v mbf_rel_hook_def mbf_rel_wai_def mbf_chg_pri_def w)
  next
    case False
    then have r: "kd = ORmbf" using kd by simp
    then have "rel_wai_hook (wspec (tcbs s t)) = None" using pre t by (simp add: mbf_obj_pre_def Let_def)
    then show ?thesis using l(4) [OF r] by (simp add: v)
  qed
qed

lemma mbf_wait_release_ng_ok:
  fixes s :: "'a mbf_st_scheme"
  assumes ok: "mbf_ok s" and t: "t \<in> set (que s (WaitQ kd i))" and kd: "kd \<in> {OSmbf, ORmbf}"
  shows "mbf_ok (wait_release_ng mbf_rel_hook t e s)"
proof -
  note k = mbf_okD(1) [OF ok]
  have w: "in_wait (tstate (tcbs s t))" using kinv_xD(5) [OF k t] by simp
  have "mbf_ok (case rel_wai_hook (wspec (tcbs (wait_release t s) t)) of None \<Rightarrow> wait_release t s
      | Some h \<Rightarrow> mbf_rel_hook h t (wait_release t s))"
    by (rule mbf_left_ok [OF ok t kd wait_release_kinv_x [OF k w] wait_release_que [OF k w]]) simp_all
  then show ?thesis by (simp add: wait_release_ng_def Let_def)
qed

lemma mbf_wait_release_tmout_ok:
  fixes s :: "'a mbf_st_scheme"
  assumes ok: "mbf_ok s" and t: "t \<in> set (que s (WaitQ kd i))" and kd: "kd \<in> {OSmbf, ORmbf}"
  shows "mbf_ok (wait_release_tmout mbf_rel_hook t s)"
proof -
  let ?s1 = "make_non_wait t (que_remove t s)"
  note k = mbf_okD(1) [OF ok]
  have w: "in_wait (tstate (tcbs s t))" using kinv_xD(5) [OF k t] by simp
  have k0: "kinv (que_remove t s)" using k w by (intro que_remove_kinv_x) (auto dest: in_wait_not_ready)
  have k1: "kinv ?s1" using w by (intro make_non_wait_kinv_x [OF k0]) simp_all
  have q: "que ?s1 (WaitQ kd j) = removeAll t (que s (WaitQ kd j))" for kd j
    using make_ready_que [OF k0, of t] by (simp add: make_non_wait_def)
  have "mbf_ok (case rel_wai_hook (wspec (tcbs ?s1 t)) of None \<Rightarrow> ?s1
      | Some h \<Rightarrow> mbf_rel_hook h t ?s1)"
    by (rule mbf_left_ok [OF ok t kd k1 q]) simp_all
  then show ?thesis by (simp add: wait_release_tmout_def Let_def)
qed

inductive mbf_sys_step :: "'a mbf_st_scheme \<Rightarrow> 'a mbf_st_scheme \<Rightarrow> bool" where
  cre: "cb_bufsz pk \<le> INT_MAX - 3 \<Longrightarrow> cb_maxmsz pk \<le> INT_MAX \<Longrightarrow>
    mbf_sys_step s (snd (tk_cre_mbf malloc pk s))"
| del: "mbf_sys_step s (snd (tk_del_mbf i s))"
| snd: "in_ddsp s \<or> running (me s) s \<Longrightarrow> mbf_sys_step s (snd (tk_snd_mbf i msg n tmout s))"
| snd_u: "in_ddsp s \<or> running (me s) s \<Longrightarrow> mbf_sys_step s (snd (tk_snd_mbf_u i msg n tmout s))"
| rcv: "in_ddsp s \<or> running (me s) s \<Longrightarrow> mbf_sys_step s (snd (tk_rcv_mbf p i msg tmout s))"
| rcv_u: "in_ddsp s \<or> running (me s) s \<Longrightarrow> mbf_sys_step s (snd (tk_rcv_mbf_u p i msg tmout s))"
| release: "t \<in> set (que s (WaitQ kd i)) \<Longrightarrow> kd \<in> {OSmbf, ORmbf} \<Longrightarrow>
    mbf_sys_step s (wait_release_ng mbf_rel_hook t e s)"
| timeout: "t \<in> set (que s (WaitQ kd i)) \<Longrightarrow> kd \<in> {OSmbf, ORmbf} \<Longrightarrow>
    mbf_sys_step s (wait_release_tmout mbf_rel_hook t s)"
| chg_pri: "t \<in> set (que s (WaitQ OSmbf i)) \<Longrightarrow> mbf_sys_step s (mbf_chg_pri t old s)"
| user: "mbf_sys_step s (s\<lparr>mem_byte := mb\<rparr>)"
| dispatch: "mbf_sys_step s (s\<lparr>ctxtsk := schedtsk s\<rparr>)"

lemma mbf_sys_step_ok: "mbf_sys_step s s' \<Longrightarrow> mbf_ok s \<Longrightarrow> mbf_ok s'"
  by (induction rule: mbf_sys_step.induct)
    (auto simp: tk_cre_mbf_ok tk_del_mbf_ok tk_snd_mbf_u_ok tk_snd_mbf_def tk_rcv_mbf_u_ok tk_rcv_mbf_def
      mbf_wait_release_ng_ok mbf_wait_release_tmout_ok mbf_chg_pri_ok)

lemma mbf_sys_steps_ok: "mbf_sys_step\<^sup>*\<^sup>* s s' \<Longrightarrow> mbf_ok s \<Longrightarrow> mbf_ok s'"
  by (induction rule: rtranclp_induct) (auto intro: mbf_sys_step_ok)

section \<open>The message that is sent is the message that is received\<close>

text \<open>A receiver gets the first message of the buffer; the senders accepted into the room it
  leaves come behind the messages that were there.\<close>

lemma tk_rcv_mbf_u_first:
  fixes s :: "'a mbf_st_scheme" and msg p :: addr and tmout :: int
  assumes ok: "mbf_ok s" and ex: "mbf_exists i s" and h: "mbf_holds (mbfcb_table s i) (m # ms)"
    and c: "chk_tmout tmout" "\<not> in_ddsp s" "\<not> is_diswai (mbfatr (mbfcb_table s i)) (me s) TTW_RMBF s"
  defines "s' \<equiv> snd (tk_rcv_mbf_u p i msg tmout s)"
  shows "fst (tk_rcv_mbf_u p i msg tmout s) = Ret (int (length m))" "mbf_ok s'"
    "\<forall>k < length m. mem_byte s' (msg + k) = m ! k"
    "\<exists>ns. mbf_holds (mbfcb_table s' i) (ms @ ns)"
proof -
  obtain cb' where f: "mbf_to_msg (mbfcb_table s i) (mem_byte s) msg = (int (length m), cb',
       \<lambda>a. if msg \<le> a \<and> a < msg + length m then m ! (a - msg) else mem_byte s a)"
    "mbf_holds cb' ms" "que s (WaitQ ORmbf i) = []"
    "\<And>mb. mbf_weak i (upd_mbfcb i (\<lambda>_. cb') (s\<lparr>mem_byte := mb\<rparr>))"
    "\<And>mb. mbf_exists i (upd_mbfcb i (\<lambda>_. cb') (s\<lparr>mem_byte := mb\<rparr>))"
    using mbf_fetch [OF ok ex h, of msg] by blast
  define mb where "mb = (\<lambda>a. if msg \<le> a \<and> a < msg + length m then m ! (a - msg) else mem_byte s a)"
  define s1 where "s1 = upd_mbfcb i (\<lambda>_. cb') (s\<lparr>mem_byte := mb\<rparr>)"
  have ne: "\<not> mbf_empty (mbfcb_table s i)" using mbf_empty_iff [OF h] by simp
  have e: "tk_rcv_mbf_u p i msg tmout s = (Ret (int (length m)), mbf_wakeup i s1)"
    using c ex ne by (simp add: tk_rcv_mbf_u_def mbf_exists_def Let_def f(1) s1_def mb_def)
  then show "fst (tk_rcv_mbf_u p i msg tmout s) = Ret (int (length m))" by simp
  have s': "s' = mbf_wakeup i s1" by (simp add: s'_def e)
  have "mbf_holds (mbfcb_table s1 i) ms" "que s1 (WaitQ ORmbf i) = []" "mem_byte s1 = mb"
    using f by (simp_all add: s1_def)
  with mbf_wakeup_all [of i s1 ms] f(4,5) [of mb] obtain ns where
    "mbf_ok s'" "mbf_holds (mbfcb_table s' i) (ms @ ns)" "mem_byte s' = mb"
    unfolding s' s1_def [symmetric] Let_def by auto
  then show "mbf_ok s'" "\<forall>k < length m. mem_byte s' (msg + k) = m ! k"
    "\<exists>ns. mbf_holds (mbfcb_table s' i) (ms @ ns)" by (auto simp: mb_def)
qed

text \<open>A sender that finds room stores its message behind the others.\<close>

lemma tk_snd_mbf_u_store:
  fixes s :: "'a mbf_st_scheme" and msg :: addr and tmout :: int
  assumes ok: "mbf_ok s" and ex: "mbf_exists i s" and h: "mbf_holds (mbfcb_table s i) ms"
    and n: "0 < n" "n \<le> maxmsz (mbfcb_table s i)" and f: "mbf_free (mbfcb_table s i) n"
    and q: "que s (WaitQ ORmbf i) = []" "que s (WaitQ OSmbf i) = []"
    and c: "chk_tmout tmout" "\<not> in_ddsp s" "\<not> is_diswai (mbfatr (mbfcb_table s i)) (me s) TTW_SMBF s"
  defines "s' \<equiv> snd (tk_snd_mbf_u i msg n tmout s)"
  shows "fst (tk_snd_mbf_u i msg n tmout s) = Ret E_OK" "mbf_ok s'"
    "mbf_holds (mbfcb_table s' i) (ms @ [map (\<lambda>k. mem_byte s (msg + k)) [0..<nat n]])"
    "tcbs s' = tcbs s" "que s' = que s"
proof -
  have e: "tk_snd_mbf_u i msg n tmout s = (Ret E_OK, upd_mbfcb i (\<lambda>c. msg_to_mbf c (mem_byte s) msg n) s)"
    using c ex n f q by (simp add: tk_snd_mbf_u_def mbf_exists_def Let_def gcb_top_of_wait_queue_def)
  note st = mbf_store [OF ok ex h n f q(1), of msg]
  show "fst (tk_snd_mbf_u i msg n tmout s) = Ret E_OK" "mbf_ok s'"
    "mbf_holds (mbfcb_table s' i) (ms @ [map (\<lambda>k. mem_byte s (msg + k)) [0..<nat n]])"
    "tcbs s' = tcbs s" "que s' = que s"
    using st by (simp_all add: s'_def e)
qed


end
