(* ===== verification/Klock.thy ===== *)
theory Klock
  imports Messagebuf
begin

text \<open>
  The kernel locks (\<open>klock.c\<close>). An object lock (\<open>OBJLOCK\<close>) protects an object whose operations are
  no critical sections; the task that holds one runs before all others. The lock of an extended
  system call (\<open>SVCLOCK\<close>) is nested; the locks a task holds are linked through \<open>locklist\<close>. The
  tasks that wait for a lock stay READY and are in the queue \<open>LockQ\<close> of the lock.

  The lock of object \<open>i\<close> of kind \<open>k\<close> is named by the pair, the lock \<open>svclock\<close> of task \<open>c\<close> by \<open>c\<close>;
  \<open>wtskq.next != NULL\<close> is \<open>obj_locked\<close> and \<open>svc_locked\<close>. It is shown that no two tasks hold a lock at a time, that a
  lock with waiting tasks is always held, and that releasing all locks of a task ends.
\<close>

section \<open>State and operations\<close>

record klk_st = mbf_st +
  obj_locked :: "okind \<Rightarrow> ID \<Rightarrow> bool"
  svc_locked :: "ID \<Rightarrow> bool"
  svc_locklist :: "ID \<Rightarrow> ID option"

definition InitOBJLOCK :: "okind \<Rightarrow> ID \<Rightarrow> 'a klk_st_scheme \<Rightarrow> 'a klk_st_scheme" where
  "InitOBJLOCK k i s = s\<lparr>obj_locked := (obj_locked s)(k := (obj_locked s k)(i := False))\<rparr>"

definition isLockedOBJ :: "okind \<Rightarrow> ID \<Rightarrow> 'a klk_st_scheme \<Rightarrow> bool" where
  "isLockedOBJ k i s = obj_locked s k i"

text \<open>One pass of the loop: \<open>True\<close> when the caller holds the lock, \<open>False\<close> when it was put to wait
  and will try again when it runs again.\<close>

definition wait_for_lock :: "qid \<Rightarrow> 'a kst_scheme \<Rightarrow> 'a kst_scheme" where
  "wait_for_lock q s =
     (let t = me s;
          s1 = que_insert t q (tcb_upd t (\<lambda>c. c\<lparr>klockwait := True\<rparr>) (ready_queue_delete t s))
      in s1\<lparr>schedtsk := ready_queue_top s1\<rparr>)"

definition LockOBJ :: "okind \<Rightarrow> ID \<Rightarrow> 'a klk_st_scheme \<Rightarrow> bool \<times> 'a klk_st_scheme" where
  "LockOBJ k i s =
     (if klocked (tcbs s (me s)) then (True, s)
      else if \<not> obj_locked s k i then
        (True, tcb_upd (me s) (\<lambda>c. c\<lparr>klocked := True\<rparr>)
           (s\<lparr>obj_locked := (obj_locked s)(k := (obj_locked s k)(i := True)), klocktsk := ctxtsk s\<rparr>))
      else (False, wait_for_lock (LockQ k i) s))"

definition UnlockOBJ :: "okind \<Rightarrow> ID \<Rightarrow> 'a klk_st_scheme \<Rightarrow> 'a klk_st_scheme" where
  "UnlockOBJ k i s =
     (let s1 = tcb_upd (me s) (\<lambda>c. c\<lparr>klocked := False\<rparr>) (s\<lparr>klocktsk := None\<rparr>);
          s2 = (case que s1 (LockQ k i) of
                  [] \<Rightarrow> s1\<lparr>obj_locked := (obj_locked s1)(k := (obj_locked s1 k)(i := False))\<rparr>
                | t # _ \<Rightarrow> ready_queue_insert_top t
                            (tcb_upd t (\<lambda>c. c\<lparr>klockwait := False, klocked := True\<rparr>) (que_remove t s1)))
      in s2\<lparr>schedtsk := ready_queue_top s2\<rparr>)"

definition LockSVC :: "ID \<Rightarrow> 'a klk_st_scheme \<Rightarrow> bool \<times> 'a klk_st_scheme" where
  "LockSVC l s =
     (if svclocked (tcbs s (me s)) = Some l then (True, s)
      else if \<not> svc_locked s l then
        (True, tcb_upd (me s) (\<lambda>c. c\<lparr>svclocked := Some l\<rparr>)
           (s\<lparr>svc_locked := (svc_locked s)(l := True),
              svc_locklist := (svc_locklist s)(l := svclocked (tcbs s (me s)))\<rparr>))
      else (False, wait_for_lock (LockQ OSvc l) s))"

text \<open>Giving up the lock \<open>l\<close>: the first waiting task gets it, or it becomes free.\<close>

definition pass_svc :: "ID \<Rightarrow> 'a klk_st_scheme \<Rightarrow> 'a klk_st_scheme" where
  "pass_svc l s =
     (case que s (LockQ OSvc l) of
        [] \<Rightarrow> s\<lparr>svc_locked := (svc_locked s)(l := False)\<rparr>
      | t # _ \<Rightarrow>
          let s1 = que_remove t s;
              s2 = s1\<lparr>svc_locklist := (svc_locklist s1)(l := svclocked (tcbs s1 t))\<rparr>
          in snd (ready_queue_insert t (tcb_upd t (\<lambda>c. c\<lparr>klockwait := False, svclocked := Some l\<rparr>) s2)))"

definition drop_svc :: "ID \<Rightarrow> ID \<Rightarrow> 'a klk_st_scheme \<Rightarrow> 'a klk_st_scheme" where
  "drop_svc t l s = pass_svc l (tcb_upd t (\<lambda>c. c\<lparr>svclocked := svc_locklist s l\<rparr>) s)"

definition UnlockSVC :: "'a klk_st_scheme \<Rightarrow> 'a klk_st_scheme" where
  "UnlockSVC s =
     (case svclocked (tcbs s (me s)) of
        None \<Rightarrow> s
      | Some l \<Rightarrow>
          let s1 = drop_svc (me s) l s
          in if que s (LockQ OSvc l) = [] then s1 else s1\<lparr>schedtsk := ready_queue_top s1\<rparr>)"

text \<open>The loop of \<open>AllUnlockSVC\<close> ends when the task holds no lock.\<close>

partial_function (option) unlock_svc_loop :: "ID \<Rightarrow> 'a klk_st_scheme \<Rightarrow> 'a klk_st_scheme option" where
  "unlock_svc_loop t s =
     (case svclocked (tcbs s t) of
        None \<Rightarrow> Some s
      | Some l \<Rightarrow> unlock_svc_loop t (drop_svc t l s))"

definition AllUnlockSVC :: "ID \<Rightarrow> 'a klk_st_scheme \<Rightarrow> 'a klk_st_scheme option" where
  "AllUnlockSVC t s = map_option (\<lambda>s1. s1\<lparr>schedtsk := ready_queue_top s1\<rparr>) (unlock_svc_loop t s)"

section \<open>The ready queue\<close>

lemma que_insert_top [que_simps]:
  "que (ready_queue_insert_top t s) =
     (que s)(Rdy (priority (tcbs s t)) := t # que s (Rdy (priority (tcbs s t))))"
  by (simp add: ready_queue_insert_top_def Let_def)

lemma ready_queue_insert_top_fields [frame_simps]:
  "tcbs (ready_queue_insert_top t s) = tcbs s"
  "bitmap (ready_queue_insert_top t s) = BitSet (bitmap s) (priority (tcbs s t))"
  "top_priority (ready_queue_insert_top t s) = min (priority (tcbs s t)) (top_priority s)"
  "klocktsk (ready_queue_insert_top t s) = (if klocked (tcbs s t) then Some t else klocktsk s)"
  "schedtsk (ready_queue_insert_top t s) = schedtsk s"
  "ctxtsk (ready_queue_insert_top t s) = ctxtsk s" "kst.more (ready_queue_insert_top t s) = kst.more s"
  by (auto simp: ready_queue_insert_top_def Let_def)

text \<open>Inserting on top is inserting at the end, but for the order and the slice counter.\<close>

lemma insert_top_kinv_x:
  assumes k: "kinv_x (insert t X) s" and t: "unqueued t s" "tstate (tcbs s t) = TS_READY"
    "\<not> klockwait (tcbs s t)"
  shows "kinv_x X (ready_queue_insert_top t s)"
proof -
  let ?i = "snd (ready_queue_insert t s)" and ?s = "ready_queue_insert_top t s" and ?p = "priority (tcbs s t)"
  have ki: "kinv_x X ?i" by (rule insert_kinv_x [OF k t])
  have d: "distinct (que s (Rdy ?p))" by (rule que_ok_distinct [OF kinv_xD(2) [OF k]])
  have nt: "t \<notin> set (que s (Rdy ?p))" using t(1) by (simp add: unqueued_def)
  have "rdq_ok ?s"
  proof (rule rdq_ok_permute [OF kinv_xD(1) [OF ki], of ?s ?p "t # que s (Rdy ?p)"])
    show "que ?s = (que ?i)(Rdy ?p := t # que s (Rdy ?p))"
      by (simp add: que_insert_top que_ready_queue_insert)
  qed (use d nt in \<open>simp_all add: que_ready_queue_insert ready_queue_insert_fields ready_queue_insert_top_fields\<close>)
  then show ?thesis
    by (intro kinv_x_cong [OF _ _ _ _ _ _ _ _ ki])
      (auto simp: que_insert_top que_ready_queue_insert ready_queue_insert_fields ready_queue_insert_top_fields)
qed

text \<open>A task that waits for a lock leaves the lock queue.\<close>

lemma leave_lock_queue:
  assumes k: "kinv_x X s" and t: "t \<in> set (que s (LockQ kd i))"
  shows "kinv_x X (que_remove t s)" and "unqueued t (que_remove t s)"
    and "tstate (tcbs s t) = TS_READY" and "que (que_remove t s) (LockQ kd i) = tl (que s (LockQ kd i)) \<or> t \<noteq> hd (que s (LockQ kd i))"
proof -
  have kt: "tstate (tcbs s t) = TS_READY" "klockwait (tcbs s t)" using kinv_xD(6) [OF k t] by auto
  show "tstate (tcbs s t) = TS_READY" by (rule kt)
  show "unqueued t (que_remove t s)" by (simp add: unqueued_def)
  have nr: "removeAll t (que s (Rdy p)) = que s (Rdy p)" for p
    using kinv_xD(3) [OF k, of t p] kt by (intro removeAll_id) auto
  have "que_ok (\<lambda>q. removeAll t (que s q))" using kinv_xD(2) [OF k] by blast
  then have "rdq_ok (que_remove t s)"
    using kinv_xD(1) [OF k] by (simp add: rdq_ok_def que_que_remove nr)
  then show "kinv_x X (que_remove t s)" using k by (auto simp: kinv_x_def nr)
  have "distinct (que s (LockQ kd i))" by (rule que_ok_distinct [OF kinv_xD(2) [OF k]])
  then show "que (que_remove t s) (LockQ kd i) = tl (que s (LockQ kd i)) \<or> t \<noteq> hd (que s (LockQ kd i))"
    by (cases "que s (LockQ kd i)") (auto simp: removeAll_id)
qed

lemma wait_for_lock_que:
  "que (wait_for_lock q s) q' = (if q' = q then removeAll (me s) (que s q) @ [me s] else removeAll (me s) (que s q'))"
  by (simp add: wait_for_lock_def Let_def que_ready_queue_delete)

lemma wait_for_lock_frame [simp]:
  "tcbs (wait_for_lock q s) u = (if u = me s then (tcbs s u)\<lparr>klockwait := True\<rparr> else tcbs s u)"
  "ctxtsk (wait_for_lock q s) = ctxtsk s" "kst.more (wait_for_lock q s) = kst.more s"
proof -
  have "ctxtsk (ready_queue_delete t s) = ctxtsk s \<and> kst.more (ready_queue_delete t s) = kst.more s" for t
    by (simp add: ready_queue_delete_def Let_def)
  then show "tcbs (wait_for_lock q s) u = (if u = me s then (tcbs s u)\<lparr>klockwait := True\<rparr> else tcbs s u)"
    "ctxtsk (wait_for_lock q s) = ctxtsk s" "kst.more (wait_for_lock q s) = kst.more s"
    by (simp_all add: wait_for_lock_def Let_def ready_queue_delete_fields)
qed

lemma wait_for_lock_kinv:
  assumes k: "kinv s" and t: "tstate (tcbs s (me s)) = TS_READY"
  shows "kinv (wait_for_lock (LockQ kd i) s)"
proof -
  let ?t = "me s" and ?s0 = "s\<lparr>schedtsk := None\<rparr>"
  let ?s1 = "ready_queue_delete ?t ?s0"
  let ?s2 = "tcb_upd ?t (\<lambda>c. c\<lparr>klockwait := True\<rparr>) ?s1"
  let ?s3 = "que_insert ?t (LockQ kd i) ?s2"
  have "kinv ?s0" by (rule kinv_x_schedtsk [OF k]) simp
  then have k1: "kinv_x {?t} ?s1" using t by (intro delete_kinv_x) auto
  have uq: "unqueued ?t ?s1" by (rule unqueued_delete)
  have "kinv_x {?t} ?s2"
    using kinv_xD(8) [OF k, of ?t] t uq by (intro tcb_upd_kinv_x [OF k1]) (auto simp: ready_queue_delete_fields)
  then have k2: "kinv ?s2" by (rule kinv_x_drop) simp
  have uq2: "unqueued ?t ?s2" using uq by simp
  have q3: "que_ok (que ?s3)"
    using que_ok_insert [OF kinv_xD(2) [OF k2], of ?t "LockQ kd i"] uq2
    by (simp add: que_que_insert unqueued_def)
  have "rdq_ok ?s3" using kinv_xD(1) [OF k2] q3 by (auto simp: rdq_ok_def que_que_insert)
  then have k3: "kinv ?s3"
    using k2 t by (auto simp: kinv_x_def que_que_insert ready_queue_delete_fields)
  have e: "wait_for_lock (LockQ kd i) s = ?s3\<lparr>schedtsk := ready_queue_top ?s3\<rparr>"
    by (simp add: wait_for_lock_def Let_def ready_queue_delete_def que_remove_def tcb_upd_def que_insert_def
        ready_queue_top_def split: option.split)
  show ?thesis
    unfolding e by (rule kinv_x_schedtsk [OF k3 ready_queue_top_in [OF k3]])
qed

section \<open>Object locks\<close>

text \<open>\<open>H\<close> says which task holds which lock. A task holds one lock at most, a task that waits
  for a lock holds none, and a lock for which tasks wait is held.\<close>

definition obj_inv :: "(okind \<times> ID \<Rightarrow> ID option) \<Rightarrow> 'a klk_st_scheme \<Rightarrow> bool" where
  "obj_inv H s \<longleftrightarrow>
     (\<forall>k i. obj_locked s k i \<longleftrightarrow> H (k, i) \<noteq> None) \<and>
     (\<forall>t. klocked (tcbs s t) \<longleftrightarrow> (\<exists>l. H l = Some t)) \<and>
     (\<forall>l l' t. H l = Some t \<longrightarrow> H l' = Some t \<longrightarrow> l = l') \<and>
     (\<forall>k i. k \<noteq> OSvc \<longrightarrow> que s (LockQ k i) \<noteq> [] \<longrightarrow> obj_locked s k i) \<and>
     (\<forall>k i t. k \<noteq> OSvc \<longrightarrow> t \<in> set (que s (LockQ k i)) \<longrightarrow> \<not> klocked (tcbs s t)) \<and>
     (\<forall>t. klocktsk s = Some t \<longrightarrow> klocked (tcbs s t))"

lemma obj_inv_schedtsk [simp]: "obj_inv H (s\<lparr>schedtsk := x\<rparr>) = obj_inv H s"
  by (simp add: obj_inv_def)

lemma obj_invD:
  assumes "obj_inv H s"
  shows "obj_locked s k i \<longleftrightarrow> H (k, i) \<noteq> None" "klocked (tcbs s t) \<longleftrightarrow> (\<exists>l. H l = Some t)"
    "H l = Some t \<Longrightarrow> H l' = Some t \<Longrightarrow> l = l'"
    "k \<noteq> OSvc \<Longrightarrow> que s (LockQ k i) \<noteq> [] \<Longrightarrow> obj_locked s k i"
    "k \<noteq> OSvc \<Longrightarrow> t \<in> set (que s (LockQ k i)) \<Longrightarrow> \<not> klocked (tcbs s t)"
    "klocktsk s = Some t \<Longrightarrow> klocked (tcbs s t)"
  using assms unfolding obj_inv_def by blast+

lemma klk_more:
  assumes "kst.more s' = kst.more s"
  shows "obj_locked s' = obj_locked s" "svc_locked s' = svc_locked s" "svc_locklist s' = svc_locklist s"
  using assms by (cases s; cases s'; simp add: klk_st.defs)+

lemma klk_frame [simp]:
  "obj_locked (tcb_upd t f s) = obj_locked s" "svc_locked (tcb_upd t f s) = svc_locked s" "svc_locklist (tcb_upd t f s) = svc_locklist s"
  "obj_locked (que_remove t s) = obj_locked s" "svc_locked (que_remove t s) = svc_locked s" "svc_locklist (que_remove t s) = svc_locklist s"
  "obj_locked (wait_for_lock q s) = obj_locked s" "svc_locked (wait_for_lock q s) = svc_locked s" "svc_locklist (wait_for_lock q s) = svc_locklist s"
  "obj_locked (ready_queue_insert_top t s) = obj_locked s" "svc_locked (ready_queue_insert_top t s) = svc_locked s"
  "svc_locklist (ready_queue_insert_top t s) = svc_locklist s"
  "obj_locked (snd (ready_queue_insert t s)) = obj_locked s" "svc_locked (snd (ready_queue_insert t s)) = svc_locked s"
  "svc_locklist (snd (ready_queue_insert t s)) = svc_locklist s"
  by (rule klk_more; simp add: ready_queue_insert_top_fields ready_queue_insert_def Let_def)+

lemma holder_upd_free: "H x = None \<Longrightarrow> (\<exists>l. (H(x := v)) l = Some u) \<longleftrightarrow> v = Some u \<or> (\<exists>l. H l = Some u)"
  by (metis fun_upd_apply option.distinct(1))

lemma holder_upd:
  assumes "\<And>l l'. H l = Some t \<Longrightarrow> H l' = Some t \<Longrightarrow> l = l'" and "H x = Some t"
  shows "(\<exists>l. (H(x := v)) l = Some u) \<longleftrightarrow> v = Some u \<or> (u \<noteq> t \<and> (\<exists>l. H l = Some u))"
  using assms by (metis fun_upd_apply option.inject)

lemma kinv_klk_upd [simp]:
  "kinv_x X (s\<lparr>obj_locked := a\<rparr>) = kinv_x X s" "kinv_x X (s\<lparr>svc_locked := b\<rparr>) = kinv_x X s"
  "kinv_x X (s\<lparr>svc_locklist := c\<rparr>) = kinv_x X s"
  by (simp_all add: kinv_x_def rdq_ok_def)

text \<open>Locking: whoever gets the lock is the only one who has it, and runs before all others.\<close>

lemma LockOBJ_spec:
  assumes inv: "obj_inv H s" and kv: "kinv s" and me: "ctxtsk s = Some t" "\<not> klockwait (tcbs s t)"
    and k: "k \<noteq> OSvc" and one: "klocked (tcbs s t) \<Longrightarrow> H (k, i) = Some t \<and> klocktsk s = Some t"
  shows "fst (LockOBJ k i s) \<longleftrightarrow> H (k, i) = None \<or> H (k, i) = Some t"
    and "fst (LockOBJ k i s) \<Longrightarrow> obj_inv (H((k, i) := Some t)) (snd (LockOBJ k i s))
      \<and> klocktsk (snd (LockOBJ k i s)) = Some t"
    and "\<not> fst (LockOBJ k i s) \<Longrightarrow> obj_inv H (snd (LockOBJ k i s))"
proof -
  note d = obj_invD [OF inv]
  have same: "H (k, i) = Some t \<Longrightarrow> klocked (tcbs s t)" using d(2) [of t] by blast
  have nq: "t \<notin> set (que s (LockQ k' i'))" for k' i'
    using kinv_xD(6) [OF kv, of t k' i'] me(2) by blast
  show 1: "fst (LockOBJ k i s) \<longleftrightarrow> H (k, i) = None \<or> H (k, i) = Some t"
    using same one d(1) [of k i] me by (auto simp: LockOBJ_def)
  show "obj_inv (H((k, i) := Some t)) (snd (LockOBJ k i s)) \<and> klocktsk (snd (LockOBJ k i s)) = Some t"
    if "fst (LockOBJ k i s)"
  proof (cases "klocked (tcbs s t)")
    case True
    then have "H((k, i) := Some t) = H" using one by auto
    then show ?thesis using inv True me one by (simp add: LockOBJ_def)
  next
    case False
    let ?s = "snd (LockOBJ k i s)"
    have H: "H (k, i) = None" using that 1 same False by auto
    then have nl: "\<not> obj_locked s k i" using d(1) by simp
    have e: "?s = tcb_upd t (\<lambda>c. c\<lparr>klocked := True\<rparr>)
        (s\<lparr>obj_locked := (obj_locked s)(k := (obj_locked s k)(i := True)), klocktsk := Some t\<rparr>)"
      using nl False me by (simp add: LockOBJ_def)
    have no: "H l \<noteq> Some t" for l using d(2) [of t] False by blast
    have "klocked (tcbs ?s u) \<longleftrightarrow> Some t = Some u \<or> klocked (tcbs s u)" for u unfolding e by auto
    then have kl: "klocked (tcbs ?s u) \<longleftrightarrow> (\<exists>l. (H((k, i) := Some t)) l = Some u)" for u
      using d(2) [of u] holder_upd_free [where H = H and x = "(k, i)" and v = "Some t" and u = u, OF H] by blast
    have ol: "obj_locked ?s k' i' \<longleftrightarrow> (H((k, i) := Some t)) (k', i') \<noteq> None" for k' i'
      using d(1) [of k' i'] unfolding e by (cases "k' = k") auto
    have uniq: "l = l'" if "(H((k, i) := Some t)) l = Some u" "(H((k, i) := Some t)) l' = Some u" for l l' u
      using that d(3) no by (auto split: if_splits)
    show ?thesis
      unfolding obj_inv_def
    proof (intro conjI allI impI)
      show "obj_locked ?s k' i'" if "k' \<noteq> OSvc" "que ?s (LockQ k' i') \<noteq> []" for k' i'
        using that d(4) [OF that(1), of i'] by (cases "k' = k") (auto simp: e)
      show "\<not> klocked (tcbs ?s u)" if "k' \<noteq> OSvc" "u \<in> set (que ?s (LockQ k' i'))" for k' i' u
        using that d(5) [of k' u i'] nq by (auto simp: e)
      show "klocked (tcbs ?s u)" if "klocktsk ?s = Some u" for u using that by (simp add: e)
    qed (fact ol kl uniq | simp add: e)+
  qed
  show "obj_inv H (snd (LockOBJ k i s))" if "\<not> fst (LockOBJ k i s)"
  proof -
    let ?s = "wait_for_lock (LockQ k i) s"
    have nk: "\<not> klocked (tcbs s t)" and l: "obj_locked s k i"
      using that by (auto simp: LockOBJ_def me split: if_splits)
    then have e: "snd (LockOBJ k i s) = ?s" by (simp add: LockOBJ_def me)
    have q: "que ?s (LockQ k' i') = (if k' = k \<and> i' = i then que s (LockQ k i) @ [t] else que s (LockQ k' i'))" for k' i'
      using nq [of k' i'] nq [of k i] me(1) by (simp add: wait_for_lock_que removeAll_id)
    have kl: "klocked (tcbs ?s u) = klocked (tcbs s u)" for u by simp
    have kt: "klocktsk ?s = Some u \<Longrightarrow> klocktsk s = Some u" for u
      by (simp add: wait_for_lock_def Let_def ready_queue_delete_fields split: if_splits)
    show ?thesis
      unfolding e obj_inv_def kl klk_frame q
      using d l nk kt by auto
  qed
qed

text \<open>Unlocking: the first waiting task gets the lock, or it becomes free.\<close>

definition next_holder :: "qid \<Rightarrow> 'a kst_scheme \<Rightarrow> ID option" where
  "next_holder q s = (case que s q of [] \<Rightarrow> None | u # _ \<Rightarrow> Some u)"

lemma UnlockOBJ_spec:
  assumes inv: "obj_inv H s" and kv: "kinv s" and me: "ctxtsk s = Some t"
    and k: "k \<noteq> OSvc" and own: "H (k, i) = Some t"
  shows "obj_inv (H((k, i) := next_holder (LockQ k i) s)) (UnlockOBJ k i s)"
    and "klocktsk (UnlockOBJ k i s) = next_holder (LockQ k i) s"
    and "kinv (UnlockOBJ k i s)"
proof -
  note d = obj_invD [OF inv]
  let ?s1 = "tcb_upd t (\<lambda>c. c\<lparr>klocked := False\<rparr>) (s\<lparr>klocktsk := None\<rparr>)"
  have "kinv (s\<lparr>klocktsk := None\<rparr>)" using kv by (simp add: kinv_x_def rdq_ok_def)
  then have k1: "kinv ?s1" by (simp add: tcb_upd_kinv_same)
  have q1: "que ?s1 = que s" by simp
  show "obj_inv (H((k, i) := next_holder (LockQ k i) s)) (UnlockOBJ k i s)"
    "klocktsk (UnlockOBJ k i s) = next_holder (LockQ k i) s" "kinv (UnlockOBJ k i s)"
  proof (atomize (full), cases "que s (LockQ k i)")
    case Nil
    let ?s2 = "?s1\<lparr>obj_locked := (obj_locked s)(k := (obj_locked s k)(i := False))\<rparr>"
    have e: "UnlockOBJ k i s = ?s2\<lparr>schedtsk := ready_queue_top ?s2\<rparr>"
      using Nil me by (simp add: UnlockOBJ_def Let_def)
    have k2: "kinv ?s2" using k1 by simp
    have "kinv (UnlockOBJ k i s)" unfolding e by (rule kinv_x_schedtsk [OF k2 ready_queue_top_in [OF k2]])
    moreover have n: "next_holder (LockQ k i) s = None" using Nil by (simp add: next_holder_def)
    moreover have "klocked (tcbs ?s2 u) \<longleftrightarrow> None = Some u \<or> (u \<noteq> t \<and> klocked (tcbs s u))" for u by simp
    then have "klocked (tcbs ?s2 u) \<longleftrightarrow> (\<exists>l. (H((k, i) := None)) l = Some u)" for u
      using d(2) [of u] holder_upd [where H = H and t = t and x = "(k, i)" and v = None and u = u, OF _ own] d(3) [of _ t] by blast
    note kl = this
    have uniq: "l = l'" if "(H((k, i) := None)) l = Some u" "(H((k, i) := None)) l' = Some u" for l l' u
      using that d(3) by (auto split: if_splits)
    have "obj_inv (H((k, i) := None)) ?s2"
      unfolding obj_inv_def
    proof (intro conjI allI impI)
      show "obj_locked ?s2 k' i'" if "k' \<noteq> OSvc" "que ?s2 (LockQ k' i') \<noteq> []" for k' i'
        using that Nil d(4) [OF that(1), of i'] by (cases "k' = k") auto
      show "\<not> klocked (tcbs ?s2 u)" if "k' \<noteq> OSvc" "u \<in> set (que ?s2 (LockQ k' i'))" for k' i' u
        using d(5) [of k' u i'] that by simp
      show "obj_locked ?s2 k' i' \<longleftrightarrow> (H((k, i) := None)) (k', i') \<noteq> None" for k' i'
        using d(1) [of k' i'] by (cases "k' = k") auto
    qed (fact kl uniq | simp)+
    then have "obj_inv (H((k, i) := None)) (UnlockOBJ k i s)" unfolding e obj_inv_schedtsk .
    ultimately show "obj_inv (H((k, i) := next_holder (LockQ k i) s)) (UnlockOBJ k i s) \<and>
        klocktsk (UnlockOBJ k i s) = next_holder (LockQ k i) s \<and> kinv (UnlockOBJ k i s)"
      by (simp add: e)
  next
    case (Cons w ws)
    let ?s2 = "tcb_upd w (\<lambda>c. c\<lparr>klockwait := False, klocked := True\<rparr>) (que_remove w ?s1)"
    let ?s3 = "ready_queue_insert_top w ?s2"
    have w: "w \<in> set (que ?s1 (LockQ k i))" using Cons by simp
    note l = leave_lock_queue [OF k1 w]
    have nw: "\<not> klocked (tcbs s w)" using d(5) [OF k, of w i] Cons by simp
    have noH: "H l \<noteq> Some w" for l using d(2) [of w] nw by blast
    have wt: "w \<noteq> t" using own noH by auto
    have n: "next_holder (LockQ k i) s = Some w" using Cons by (simp add: next_holder_def)
    have e: "UnlockOBJ k i s = ?s3\<lparr>schedtsk := ready_queue_top ?s3\<rparr>"
      using Cons me by (simp add: UnlockOBJ_def Let_def)
    have "kinv_x {w} (que_remove w ?s1)" by (rule kinv_x_mono [OF l(1)]) simp
    then have "kinv_x {w} ?s2"
      using kinv_xD(8) [OF k1, of w] l(3) by (intro tcb_upd_kinv_x [OF _ l(2)]) auto
    then have k3: "kinv ?s3"
      using l(2,3) wt by (intro insert_top_kinv_x) simp_all
    have "kinv (UnlockOBJ k i s)" unfolding e by (rule kinv_x_schedtsk [OF k3 ready_queue_top_in [OF k3]])
    moreover have q: "que ?s3 (LockQ k' i') = (if k' = k \<and> i' = i then ws else que s (LockQ k' i'))" for k' i'
    proof (cases "k' = k \<and> i' = i")
      case True
      have "distinct (w # ws)" using que_ok_distinct [OF kinv_xD(2) [OF kv], of "LockQ k i"] Cons by simp
      then show ?thesis using True Cons by (simp add: que_insert_top removeAll_id)
    next
      case False
      then have "w \<notin> set (que s (LockQ k' i'))"
        using que_okD [OF kinv_xD(2) [OF kv], of w "LockQ k' i'" "LockQ k i"] Cons by auto
      then show ?thesis unfolding if_not_P [OF False] by (simp add: que_insert_top removeAll_id)
    qed
    have "klocked (tcbs ?s3 u) \<longleftrightarrow> Some w = Some u \<or> (u \<noteq> t \<and> klocked (tcbs s u))" for u
      using wt by (auto simp: ready_queue_insert_top_fields)
    then have kl: "klocked (tcbs ?s3 u) \<longleftrightarrow> (\<exists>l. (H((k, i) := Some w)) l = Some u)" for u
      using d(2) [of u] holder_upd [where H = H and t = t and x = "(k, i)" and v = "Some w" and u = u, OF _ own] d(3) [of _ t] by blast
    have uniq: "l = l'" if "(H((k, i) := Some w)) l = Some u" "(H((k, i) := Some w)) l' = Some u" for l l' u
      using that d(3) noH by (auto split: if_splits)
    have wq: "w \<notin> set ws" using que_ok_distinct [OF kinv_xD(2) [OF kv], of "LockQ k i"] Cons by simp
    have inq: "u \<in> set (que ?s3 (LockQ k' i')) \<Longrightarrow> u \<in> set (que s (LockQ k' i')) \<and> u \<noteq> w" for u k' i'
      using que_okD [OF kinv_xD(2) [OF kv], of w "LockQ k' i'" "LockQ k i"] Cons wq by (auto simp: q split: if_splits)
    have "obj_inv (H((k, i) := Some w)) ?s3"
      unfolding obj_inv_def
    proof (intro conjI allI impI)
      fix k' i' assume a: "k' \<noteq> OSvc" "que ?s3 (LockQ k' i') \<noteq> []"
      then have "que s (LockQ k' i') \<noteq> []" using Cons by (auto simp: q split: if_splits)
      then show "obj_locked ?s3 k' i'" using d(4) [OF a(1)] by simp
    next
      fix k' i' u assume a: "k' \<noteq> OSvc" "u \<in> set (que ?s3 (LockQ k' i'))"
      then show "\<not> klocked (tcbs ?s3 u)"
        using inq [OF a(2)] d(5) [OF a(1), of u i'] by (simp add: ready_queue_insert_top_fields)
    next
      fix u assume "klocktsk ?s3 = Some u"
      then show "klocked (tcbs ?s3 u)" by (simp add: ready_queue_insert_top_fields)
    next
      show "obj_locked ?s3 k' i' \<longleftrightarrow> (H((k, i) := Some w)) (k', i') \<noteq> None" for k' i'
        using d(1) [of k' i'] own by (cases "k' = k \<and> i' = i") auto
    qed (fact kl uniq)+
    then have "obj_inv (H((k, i) := Some w)) (UnlockOBJ k i s)" unfolding e obj_inv_schedtsk .
    ultimately show "obj_inv (H((k, i) := next_holder (LockQ k i) s)) (UnlockOBJ k i s) \<and>
        klocktsk (UnlockOBJ k i s) = next_holder (LockQ k i) s \<and> kinv (UnlockOBJ k i s)"
      by (simp add: e n ready_queue_insert_top_fields)
  qed
qed

section \<open>Locks of extended system calls\<close>

text \<open>The locks a task holds, from the last one it got.\<close>

fun svc_chain :: "(ID \<Rightarrow> ID option) \<Rightarrow> ID option \<Rightarrow> ID list \<Rightarrow> bool" where
  "svc_chain nx v [] \<longleftrightarrow> v = None"
| "svc_chain nx v (l # ls) \<longleftrightarrow> v = Some l \<and> svc_chain nx (nx l) ls"

definition svc_inv :: "(ID \<Rightarrow> ID list) \<Rightarrow> 'a klk_st_scheme \<Rightarrow> bool" where
  "svc_inv H s \<longleftrightarrow>
     (\<forall>t. svc_chain (svc_locklist s) (svclocked (tcbs s t)) (H t)) \<and> (\<forall>t. distinct (H t)) \<and>
     (\<forall>t u. t \<noteq> u \<longrightarrow> set (H t) \<inter> set (H u) = {}) \<and>
     (\<forall>l. svc_locked s l \<longleftrightarrow> (\<exists>t. l \<in> set (H t))) \<and>
     (\<forall>l. que s (LockQ OSvc l) \<noteq> [] \<longrightarrow> svc_locked s l)"

lemma svc_invD:
  assumes "svc_inv H s"
  shows "svc_chain (svc_locklist s) (svclocked (tcbs s t)) (H t)" "distinct (H t)"
    "t \<noteq> u \<Longrightarrow> set (H t) \<inter> set (H u) = {}" "svc_locked s l \<longleftrightarrow> (\<exists>t. l \<in> set (H t))"
    "que s (LockQ OSvc l) \<noteq> [] \<Longrightarrow> svc_locked s l"
  using assms unfolding svc_inv_def by blast+

lemma svc_chain_upd: "l \<notin> set ls \<Longrightarrow> svc_chain (nx(l := x)) v ls = svc_chain nx v ls"
  by (induction ls arbitrary: v) auto

lemma svc_chain_None: "svc_chain nx None ls \<longleftrightarrow> ls = []"
  by (cases ls) auto

lemma svc_chain_Some: "svc_chain nx (Some l) ls \<longleftrightarrow> (\<exists>r. ls = l # r \<and> svc_chain nx (nx l) r)"
  by (cases ls) auto

text \<open>Locking: the lock was free, and is now the first of the caller's.\<close>

lemma LockSVC_spec:
  assumes inv: "svc_inv H s" and me: "ctxtsk s = Some t"
  shows "svclocked (tcbs s t) \<noteq> Some l \<Longrightarrow> fst (LockSVC l s) \<Longrightarrow>
      (\<forall>u. l \<notin> set (H u)) \<and> svc_inv (H(t := l # H t)) (snd (LockSVC l s))"
    and "svclocked (tcbs s t) = Some l \<Longrightarrow> LockSVC l s = (True, s)"
    and "\<not> fst (LockSVC l s) \<Longrightarrow> \<not> klockwait (tcbs s t) \<Longrightarrow> kinv s \<Longrightarrow> svc_inv H (snd (LockSVC l s))"
proof -
  note d = svc_invD [OF inv]
  show "LockSVC l s = (True, s)" if "svclocked (tcbs s t) = Some l" using that me by (simp add: LockSVC_def)
  show "(\<forall>u. l \<notin> set (H u)) \<and> svc_inv (H(t := l # H t)) (snd (LockSVC l s))"
    if "svclocked (tcbs s t) \<noteq> Some l" "fst (LockSVC l s)"
  proof -
    have nl: "\<not> svc_locked s l" using that me by (auto simp: LockSVC_def split: if_splits)
    then have free: "l \<notin> set (H u)" for u using d(4) by blast
    let ?s = "tcb_upd t (\<lambda>c. c\<lparr>svclocked := Some l\<rparr>)
      (s\<lparr>svc_locked := (svc_locked s)(l := True), svc_locklist := (svc_locklist s)(l := svclocked (tcbs s t))\<rparr>)"
    have e: "snd (LockSVC l s) = ?s" using that nl me by (simp add: LockSVC_def)
    have "svc_chain (svc_locklist ?s) (svclocked (tcbs ?s u)) ((H(t := l # H t)) u)" for u
      using d(1) [of u] svc_chain_upd [OF free] by (cases "u = t") auto
    moreover have "svc_locked ?s m \<longleftrightarrow> (\<exists>u. m \<in> set ((H(t := l # H t)) u))" for m
      using d(4) [of m] by auto
    moreover have "distinct ((H(t := l # H t)) u)" for u using d(2) [of u] free [of u] by auto
    moreover have "set ((H(t := l # H t)) u) \<inter> set ((H(t := l # H t)) v) = {}" if "u \<noteq> v" for u v
      using d(3) [OF that] free that by auto
    moreover have "svc_locked ?s m" if "que ?s (LockQ OSvc m) \<noteq> []" for m using d(5) [of m] that by simp
    ultimately have "svc_inv (H(t := l # H t)) ?s" unfolding svc_inv_def by blast
    then show ?thesis using e free by simp
  qed
  show "svc_inv H (snd (LockSVC l s))" if "\<not> fst (LockSVC l s)" "\<not> klockwait (tcbs s t)" "kinv s"
  proof -
    let ?s = "wait_for_lock (LockQ OSvc l) s"
    have e: "snd (LockSVC l s) = ?s" "svc_locked s l"
      using that(1) by (auto simp: LockSVC_def split: if_splits)
    have sv: "svclocked (tcbs ?s u) = svclocked (tcbs s u)" for u by simp
    have "que s (LockQ OSvc m) \<noteq> [] \<or> m = l" if "que ?s (LockQ OSvc m) \<noteq> []" for m
      using that by (auto simp: wait_for_lock_que split: if_splits)
    then show ?thesis
      unfolding e svc_inv_def klk_frame sv using d e(2) by blast
  qed
qed

text \<open>Giving up a lock: the first waiting task has it next.\<close>

definition svc_after :: "ID \<Rightarrow> 'a kst_scheme \<Rightarrow> (ID \<Rightarrow> ID list) \<Rightarrow> ID \<Rightarrow> ID list" where
  "svc_after l s H = (case que s (LockQ OSvc l) of [] \<Rightarrow> H | u # _ \<Rightarrow> H(u := l # H u))"

lemma drop_svc_spec:
  assumes inv: "svc_inv H s" and kv: "kinv s" and own: "svclocked (tcbs s t) = Some l"
    and nq: "\<And>m. t \<notin> set (que s (LockQ OSvc m))"
  shows "H t = l # tl (H t)" and "svc_inv (svc_after l s (H(t := tl (H t)))) (drop_svc t l s)"
    and "kinv (drop_svc t l s)" and "svclocked (tcbs (drop_svc t l s) t) = svc_locklist s l"
    and "\<And>m. t \<notin> set (que (drop_svc t l s) (LockQ OSvc m))"
    and "ctxtsk (drop_svc t l s) = ctxtsk s" and "klocktsk s = None \<Longrightarrow> (\<And>u. \<not> klocked (tcbs s u)) \<Longrightarrow>
      klocktsk (drop_svc t l s) = None \<and> (\<forall>u. \<not> klocked (tcbs (drop_svc t l s) u))"
proof -
  note d = svc_invD [OF inv]
  obtain r where r: "H t = l # r" "svc_chain (svc_locklist s) (svc_locklist s l) r"
    using d(1) [of t] own by (auto simp: svc_chain_Some)
  then show "H t = l # tl (H t)" by simp
  let ?H = "H(t := r)" and ?s1 = "tcb_upd t (\<lambda>c. c\<lparr>svclocked := svc_locklist s l\<rparr>) s"
  have k1: "kinv ?s1" using kv by (simp add: tcb_upd_kinv_same)
  have dr: "l \<notin> set r" "distinct r" using d(2) [of t] r by auto
  have lu: "l \<notin> set (?H u)" for u using d(3) [of t u] r dr by (cases "u = t") auto
  have ch: "svc_chain (svc_locklist s) (svclocked (tcbs ?s1 u)) (?H u)" for u
    using d(1) [of u] r by simp
  have dis: "distinct (?H u)" for u using d(2) [of u] dr by simp
  have disj: "u \<noteq> v \<Longrightarrow> set (?H u) \<inter> set (?H v) = {}" for u v
    using d(3) [of u v] r by (auto split: if_splits)
  have held: "(\<exists>u. m \<in> set (?H u)) \<longleftrightarrow> m \<noteq> l \<and> svc_locked s m" for m
  proof (cases "m = l")
    case True
    then show ?thesis using lu by auto
  next
    case False
    then have "m \<in> set (?H u) \<longleftrightarrow> m \<in> set (H u)" for u using r by auto
    then show ?thesis using False d(4) [of m] by auto
  qed
  have all: "svc_inv (svc_after l s (H(t := tl (H t)))) (drop_svc t l s) \<and>
      kinv (drop_svc t l s) \<and> svclocked (tcbs (drop_svc t l s) t) = svc_locklist s l \<and>
      (\<forall>m. t \<notin> set (que (drop_svc t l s) (LockQ OSvc m))) \<and>
      ctxtsk (drop_svc t l s) = ctxtsk s \<and> (klocktsk s = None \<longrightarrow> (\<forall>u. \<not> klocked (tcbs s u)) \<longrightarrow>
        klocktsk (drop_svc t l s) = None \<and> (\<forall>u. \<not> klocked (tcbs (drop_svc t l s) u)))"
  proof (cases "que s (LockQ OSvc l)")
    case Nil
    let ?s2 = "?s1\<lparr>svc_locked := (svc_locked s)(l := False)\<rparr>"
    have e: "drop_svc t l s = ?s2" using Nil by (simp add: drop_svc_def pass_svc_def)
    have "svc_inv ?H ?s2"
      unfolding svc_inv_def
    proof (intro conjI allI impI)
      show "svc_chain (svc_locklist ?s2) (svclocked (tcbs ?s2 u)) (?H u)" for u using ch [of u] by simp
      show "svc_locked ?s2 m \<longleftrightarrow> (\<exists>u. m \<in> set (?H u))" for m unfolding held by simp
      show "svc_locked ?s2 m" if "que ?s2 (LockQ OSvc m) \<noteq> []" for m
        using that d(5) [of m] Nil by (cases "m = l") auto
    qed (use dis disj in blast)+
    moreover have "kinv ?s2" using k1 by simp
    ultimately show ?thesis
      unfolding e using Nil nq r by (simp add: svc_after_def)
  next
    case (Cons w ws)
    let ?s2 = "que_remove w ?s1"
    let ?s3 = "?s2\<lparr>svc_locklist := (svc_locklist s)(l := svclocked (tcbs s w))\<rparr>"
    let ?s4 = "tcb_upd w (\<lambda>c. c\<lparr>klockwait := False, svclocked := Some l\<rparr>) ?s3"
    let ?s5 = "snd (ready_queue_insert w ?s4)" and ?H2 = "?H(w := l # ?H w)"
    have wt: "w \<noteq> t" using nq [of l] Cons by auto
    have e: "drop_svc t l s = ?s5" using Cons wt by (simp add: drop_svc_def pass_svc_def Let_def)
    have w: "w \<in> set (que ?s1 (LockQ OSvc l))" using Cons by simp
    note lv = leave_lock_queue [OF k1 w]
    have "kinv_x {w} ?s2" by (rule kinv_x_mono [OF lv(1)]) simp
    then have "kinv_x {w} ?s3" by simp
    moreover have uq: "unqueued w ?s3" using lv(2) by (simp add: unqueued_def)
    ultimately have "kinv_x {w} ?s4"
      using kinv_xD(8) [OF k1, of w] lv(3) by (intro tcb_upd_kinv_x) auto
    then have k5: "kinv ?s5" using lv(3) uq wt by (intro insert_kinv_x) auto
    have q: "que ?s5 (LockQ OSvc m) = removeAll w (que s (LockQ OSvc m))" for m
      by (simp add: que_ready_queue_insert)
    have "svc_inv ?H2 ?s5"
      unfolding svc_inv_def
    proof (intro conjI allI impI)
      have up: "svc_chain ((svc_locklist s)(l := x)) v (?H u) = svc_chain (svc_locklist s) v (?H u)" for x v u
        by (rule svc_chain_upd [OF lu])
      show "svc_chain (svc_locklist ?s5) (svclocked (tcbs ?s5 u)) (?H2 u)" for u
      proof (cases "u = w")
        case True
        then show ?thesis using ch [of w] up [of "svclocked (tcbs s w)" "svclocked (tcbs s w)" w] wt
          by (simp add: ready_queue_insert_fields)
      next
        case False
        then show ?thesis using ch [of u] up [of "svclocked (tcbs s w)" "svclocked (tcbs ?s1 u)" u]
          by (simp add: ready_queue_insert_fields)
      qed
      show "distinct (?H2 u)" for u using dis [of u] lu [of u] by auto
      show "set (?H2 u) \<inter> set (?H2 v) = {}" if "u \<noteq> v" for u v
        using disj [OF that] lu [of u] lu [of v] that wt by (cases "u = w"; cases "v = w") auto
      have "(\<exists>u. m \<in> set (?H2 u)) \<longleftrightarrow> m = l \<or> (\<exists>u. m \<in> set (?H u))" for m by auto
      moreover have "svc_locked s l" using d(5) [of l] Cons by simp
      ultimately show "svc_locked ?s5 m \<longleftrightarrow> (\<exists>u. m \<in> set (?H2 u))" for m unfolding held by auto
      show "svc_locked ?s5 m" if "que ?s5 (LockQ OSvc m) \<noteq> []" for m
        using that d(5) [of m] unfolding q by (cases "que s (LockQ OSvc m)") simp_all
    qed
    moreover have "klocktsk ?s5 = (if klocked (tcbs s w) then Some w else klocktsk s)"
      using wt by (simp add: ready_queue_insert_fields)
    moreover have "klocked (tcbs ?s5 u) = klocked (tcbs s u)" for u by (simp add: ready_queue_insert_fields)
    moreover have "ctxtsk ?s5 = ctxtsk s" by (simp add: ready_queue_insert_def Let_def)
    ultimately show ?thesis
      unfolding e using Cons nq r k5 wt by (simp add: svc_after_def q ready_queue_insert_fields)
  qed
  show "svc_inv (svc_after l s (H(t := tl (H t)))) (drop_svc t l s)"
    "kinv (drop_svc t l s)" "svclocked (tcbs (drop_svc t l s) t) = svc_locklist s l"
    "\<And>m. t \<notin> set (que (drop_svc t l s) (LockQ OSvc m))"
    "ctxtsk (drop_svc t l s) = ctxtsk s" "klocktsk s = None \<Longrightarrow> (\<And>u. \<not> klocked (tcbs s u)) \<Longrightarrow>
      klocktsk (drop_svc t l s) = None \<and> (\<forall>u. \<not> klocked (tcbs (drop_svc t l s) u))"
    using all by blast+
qed

text \<open>\<open>AllUnlockSVC\<close> returns, and the task holds no lock then.\<close>

lemma unlock_svc_loop_ok:
  assumes "svc_inv H s" "kinv s" "\<And>m. t \<notin> set (que s (LockQ OSvc m))"
  shows "\<exists>s' H'. unlock_svc_loop t s = Some s' \<and> svc_inv H' s' \<and> H' t = [] \<and> kinv s' \<and>
    svclocked (tcbs s' t) = None \<and> ctxtsk s' = ctxtsk s"
  using assms
proof (induction "H t" arbitrary: H s)
  case Nil
  then have "svclocked (tcbs s t) = None" using svc_invD(1) [OF Nil.prems(1), of t] by simp
  then show ?case
    using Nil by (subst unlock_svc_loop.simps) auto
next
  case (Cons l r)
  have own: "svclocked (tcbs s t) = Some l" using svc_invD(1) [OF Cons.prems(1), of t] Cons.hyps(2) [symmetric] by simp
  note ds = drop_svc_spec [OF Cons.prems(1,2) own Cons.prems(3)]
  let ?H = "svc_after l s (H(t := tl (H t)))"
  have "r = ?H t"
    using Cons.hyps(2) [symmetric] Cons.prems(3) [of l]
    by (auto simp: svc_after_def split: list.split)
  from Cons.hyps(1) [OF this ds(2,3,5)] show ?case
    using own ds(6) by (subst unlock_svc_loop.simps) simp
qed

lemma AllUnlockSVC_ok:
  assumes "svc_inv H s" "kinv s" "\<And>m. t \<notin> set (que s (LockQ OSvc m))"
  shows "\<exists>s' H'. AllUnlockSVC t s = Some s' \<and> svc_inv H' s' \<and> H' t = [] \<and> kinv s' \<and>
    svclocked (tcbs s' t) = None"
proof -
  obtain s1 H' where u: "unlock_svc_loop t s = Some s1" "svc_inv H' s1" "H' t = []" "kinv s1"
    "svclocked (tcbs s1 t) = None"
    using unlock_svc_loop_ok [OF assms] by blast
  have "kinv (s1\<lparr>schedtsk := ready_queue_top s1\<rparr>)"
    by (rule kinv_x_schedtsk [OF u(4) ready_queue_top_in [OF u(4)]])
  then show ?thesis
    using u by (auto simp: AllUnlockSVC_def svc_inv_def)
qed


section \<open>Calls that run with a lock held\<close>

text \<open>What the calls on memory pools do: \<open>LockOBJ\<close>, the work, \<open>UnlockOBJ\<close>. A caller that has to wait
  for the lock (it is answered \<open>busy\<close> here) starts again when the lock is handed over.\<close>

definition with_lock ::
  "okind \<Rightarrow> ID \<Rightarrow> 'r \<Rightarrow> ('a klk_st_scheme \<Rightarrow> 'r \<times> 'a klk_st_scheme) \<Rightarrow> 'a klk_st_scheme \<Rightarrow>
   'r \<times> 'a klk_st_scheme" where
  "with_lock k i busy body s =
     (case LockOBJ k i s of
        (got, s1) \<Rightarrow>
          if got then (case body s1 of (r, s2) \<Rightarrow> (r, UnlockOBJ k i s2))
          else (busy, s1))"

text \<open>The task that makes a call: it is READY and waits for no lock.\<close>

definition executing :: "ID \<Rightarrow> 'a kst_scheme \<Rightarrow> bool" where
  "executing t s \<longleftrightarrow> ctxtsk s = Some t \<and> tstate (tcbs s t) = TS_READY \<and> \<not> klockwait (tcbs s t)"

lemma executingD:
  assumes "executing t s"
  shows "ctxtsk s = Some t" "tstate (tcbs s t) = TS_READY" "\<not> klockwait (tcbs s t)" "running t s" "me s = t"
  using assms by (simp_all add: executing_def running_def)

lemma klk_more_kst: "kst.more s' = kst.more s \<Longrightarrow> klk_st.more s' = klk_st.more s"
  by (cases s; cases s'; simp add: klk_st.defs)

lemma LockOBJ_more: "klk_st.more (snd (LockOBJ k i s)) = klk_st.more s"
proof -
  have "klk_st.more (wait_for_lock q s) = klk_st.more s" for q
    by (rule klk_more_kst) simp
  then show ?thesis by (simp add: LockOBJ_def tcb_upd_def)
qed

lemma UnlockOBJ_more: "klk_st.more (UnlockOBJ k i s) = klk_st.more s"
proof -
  have "klk_st.more (ready_queue_insert_top t s) = klk_st.more s" "klk_st.more (tcb_upd t f s) = klk_st.more s"
    "klk_st.more (que_remove t s) = klk_st.more s" for t f and s :: "'a klk_st_scheme"
    by (rule klk_more_kst; simp add: ready_queue_insert_top_fields)+
  then show ?thesis by (simp add: UnlockOBJ_def Let_def split: list.split)
qed

lemma LockOBJ_got:
  assumes "fst (LockOBJ k i s)" "executing t s"
  defines "s' \<equiv> snd (LockOBJ k i s)"
  shows "que s' = que s" "ctxtsk s' = ctxtsk s" "tcbs s' u = (tcbs s u)\<lparr>klocked := klocked (tcbs s' u)\<rparr>"
    "executing t s'" "mem_ptr s' = mem_ptr s" "in_ddsp s' = in_ddsp s" "mem_byte s' = mem_byte s" "mem_int s' = mem_int s"
  using assms by (auto simp: LockOBJ_def executing_def in_ddsp_def in_indp_def split: if_splits)

lemma LockOBJ_kinv:
  assumes k: "kinv s" and t: "executing t s"
  shows "kinv (snd (LockOBJ kd i s))"
proof -
  note e = executingD [OF t]
  have q: "t \<in> set (que s (Rdy (priority (tcbs s t))))" using kinv_xD(4) [OF k, of t] e by simp
  have "rdq_ok (s\<lparr>klocktsk := Some t\<rparr>)" using kinv_xD(1) [OF k] by (simp add: rdq_ok_def)
  then have "kinv (s\<lparr>klocktsk := Some t\<rparr>)"
    by (rule kinv_xI; simp) (use kinv_xD [OF k] q in auto)
  then have "kinv (tcb_upd t (\<lambda>c. c\<lparr>klocked := True\<rparr>) (s\<lparr>obj_locked := ol, klocktsk := Some t\<rparr>))" for ol
    by (subst tcb_upd_kinv_same) (simp_all add: kinv_x_def rdq_ok_def)
  then show ?thesis
    using k e wait_for_lock_kinv [OF k, of kd i] by (simp add: LockOBJ_def)
qed

lemma LockOBJ_waits:
  assumes k: "kinv s" and t: "executing t s"
  shows "same_waits (snd (LockOBJ kd i s)) s kd' j"
proof (cases "fst (LockOBJ kd i s)")
  case True
  note g = LockOBJ_got [OF True t]
  have "winfo (tcbs (snd (LockOBJ kd i s)) u) = winfo (tcbs s u)"
    "wspec (tcbs (snd (LockOBJ kd i s)) u) = wspec (tcbs s u)" for u
    by (subst g(3), simp)+
  then show ?thesis by (simp add: same_waits_def g(1))
next
  case False
  have e: "snd (LockOBJ kd i s) = wait_for_lock (LockQ kd i) s"
    using False by (auto simp: LockOBJ_def split: if_splits)
  have "t \<notin> set (que s (WaitQ kd' j))" using not_wait_not_queued [OF k, of t] executingD [OF t] by simp
  then show ?thesis
    unfolding e using executingD [OF t] by (simp add: same_waits_def wait_for_lock_que removeAll_id)
qed

lemma unlock_first:
  assumes k: "kinv s" and t: "t \<in> set (que s (LockQ kd i))"
  shows "kinv (ready_queue_insert_top t
      (tcb_upd t (\<lambda>c. c\<lparr>klockwait := False, klocked := True\<rparr>) (que_remove t s)))" (is "kinv (ready_queue_insert_top t ?s)")
proof -
  note l = leave_lock_queue [OF k t]
  have "kinv_x {t} (que_remove t s)" by (rule kinv_x_mono [OF l(1)]) simp
  then have "kinv_x {t} ?s"
    using kinv_xD(8) [OF k, of t] l(3) by (intro tcb_upd_kinv_x [OF _ l(2)]) auto
  then show ?thesis using l(2,3) by (intro insert_top_kinv_x) simp_all
qed

lemma UnlockOBJ_kinv:
  assumes k: "kinv s"
  shows "kinv (UnlockOBJ kd i s)"
proof -
  let ?s1 = "tcb_upd (me s) (\<lambda>c. c\<lparr>klocked := False\<rparr>) (s\<lparr>klocktsk := None\<rparr>)"
  have "kinv (s\<lparr>klocktsk := None\<rparr>)" using k by (simp add: kinv_x_def rdq_ok_def)
  then have k1: "kinv ?s1" by (simp add: tcb_upd_kinv_same)
  show ?thesis
  proof (cases "que s (LockQ kd i)")
    case Nil
    have k2: "kinv (?s1\<lparr>obj_locked := x\<rparr>)" for x using k1 by simp
    show ?thesis
      using Nil kinv_x_schedtsk [OF k2 ready_queue_top_in [OF k2]] by (simp add: UnlockOBJ_def Let_def)
  next
    case (Cons w ws)
    have "kinv (ready_queue_insert_top w (tcb_upd w (\<lambda>c. c\<lparr>klockwait := False, klocked := True\<rparr>) (que_remove w ?s1)))"
      by (rule unlock_first [OF k1, of w kd i]) (use Cons in simp)
    note k2 = this
    show ?thesis
      using Cons kinv_x_schedtsk [OF k2 ready_queue_top_in [OF k2]] by (simp add: UnlockOBJ_def Let_def)
  qed
qed

lemma UnlockOBJ_frame [simp]:
  "ctxtsk (UnlockOBJ k i s) = ctxtsk s" "mem_ptr (UnlockOBJ k i s) = mem_ptr s"
  "winfo (tcbs (UnlockOBJ k i s) u) = winfo (tcbs s u)" "wspec (tcbs (UnlockOBJ k i s) u) = wspec (tcbs s u)"
  "tstate (tcbs (UnlockOBJ k i s) u) = tstate (tcbs s u)" "wercd (tcbs (UnlockOBJ k i s) u) = wercd (tcbs s u)"
  "wid (tcbs (UnlockOBJ k i s) u) = wid (tcbs s u)" "priority (tcbs (UnlockOBJ k i s) u) = priority (tcbs s u)"
  by (simp_all add: UnlockOBJ_def Let_def ready_queue_insert_top_fields ready_queue_insert_top_def split: list.split)

lemma UnlockOBJ_wait_que:
  assumes "kinv s"
  shows "que (UnlockOBJ k i s) (WaitQ kd j) = que s (WaitQ kd j)"
proof -
  have "w \<notin> set (que s (WaitQ kd j))" if "w \<in> set (que s (LockQ k i))" for w
    using that que_okD [OF kinv_xD(2) [OF assms], of w "LockQ k i" "WaitQ kd j"] by auto
  then show ?thesis
    by (auto simp: UnlockOBJ_def Let_def que_insert_top removeAll_id split: list.split)
qed

lemma UnlockOBJ_waits: "kinv s \<Longrightarrow> same_waits (UnlockOBJ k i s) s kd j"
  by (simp add: same_waits_def UnlockOBJ_wait_que)

text \<open>An invariant that the locks do not concern.\<close>

lemma with_lock_inv:
  assumes lock: "I (snd (LockOBJ k i s))" and t: "executing t s"
    and body: "executing t (snd (LockOBJ k i s)) \<Longrightarrow> I (snd (body (snd (LockOBJ k i s))))"
    and unlock: "\<And>s2. I s2 \<Longrightarrow> I (UnlockOBJ k i s2)"
  shows "I (snd (with_lock k i busy body s))"
proof (cases "fst (LockOBJ k i s)")
  case True
  have "I (snd (body (snd (LockOBJ k i s))))" by (rule body [OF LockOBJ_got(4) [OF True t]])
  then show ?thesis
    using True unlock by (auto simp: with_lock_def split: prod.splits)
next
  case False
  then show ?thesis using lock by (auto simp: with_lock_def split: prod.splits)
qed

lemma with_lock_got:
  assumes "fst (LockOBJ k i s)"
  shows "with_lock k i busy body s =
    (let (r, s2) = body (snd (LockOBJ k i s)) in (r, UnlockOBJ k i s2))"
  using assms by (auto simp: with_lock_def split: prod.splits)

lemma with_lock_busy: "\<not> fst (LockOBJ k i s) \<Longrightarrow> with_lock k i busy body s = (busy, snd (LockOBJ k i s))"
  by (auto simp: with_lock_def split: prod.splits)

end
