(* ===== verification/Mempfix.thy ===== *)
theory Mempfix
  imports Klock
begin

text \<open>
  Fixed-size memory pools (\<open>mempfix.c\<close>). A pool is a row of blocks: those below \<open>unused\<close> have been
  handed out before, and the ones that came back are in \<open>freelist\<close> (the code links them through
  their first word, here it is the list). Every call runs with the object lock of the pool held.
  \<open>mpf_ok\<close> is the invariant: no block is free twice, and no task waits while a block is free.
\<close>

section \<open>State and operations\<close>

record mpfcb =
  mpfid :: ID
  mpf_exinf :: addr
  mpfatr :: ATR
  mpfcnt :: int
  blfsz :: int
  mpfsz :: int
  frbcnt :: int
  mpf_mempool :: addr
  mpf_unused :: addr
  mpf_freelist :: "addr list"
  mpf_name :: "UB list"

record mpf_st = klk_st +
  mpfcb_table :: "ID \<Rightarrow> mpfcb"
  free_mpfcb :: "ID list"
  max_mpfid :: ID

record t_cmpf =
  cpf_exinf :: addr
  cpf_mpfatr :: ATR
  cpf_mpfcnt :: int
  cpf_blfsz :: int
  cpf_dsname :: "UB list"

record t_rmpf =
  rpf_exinf :: addr
  rpf_wtsk :: ID
  rpf_frbcnt :: int

definition upd_mpfcb :: "ID \<Rightarrow> (mpfcb \<Rightarrow> mpfcb) \<Rightarrow> 'a mpf_st_scheme \<Rightarrow> 'a mpf_st_scheme" where
  "upd_mpfcb i f s = s\<lparr>mpfcb_table := (mpfcb_table s)(i := f (mpfcb_table s i))\<rparr>"

definition fix_memorypool_initialize :: "int \<times> int \<Rightarrow> bool \<Rightarrow> 'a mpf_st_scheme \<Rightarrow> ER \<times> 'a mpf_st_scheme" where
  "fix_memorypool_initialize cfn malloc_ok s =
     (let s1 = s\<lparr>max_mpfid := snd cfn\<rparr>
      in if fst cfn < 1 \<or> max_mpfid s1 < 1 then (E_SYS, s1)
         else if \<not> malloc_ok then (E_NOMEM, s1)
         else (E_OK, fold (\<lambda>i s. (InitOBJLOCK OMpf i (upd_mpfcb i (\<lambda>c. c\<lparr>mpfid := 0\<rparr>) s))
                              \<lparr>free_mpfcb := free_mpfcb s @ [i]\<rparr>)
                       [1..max_mpfid s1] (s1\<lparr>free_mpfcb := []\<rparr>)))"

text \<open>\<open>MINSZ\<close>: a block has room for the link of the free list (4 bytes).\<close>

definition MINSZ :: "int \<Rightarrow> int" where
  "MINSZ sz = sint ((word_of_int sz + (4 - 1)) AND NOT (4 - 1) :: 32 word)"

definition mempool_end :: "mpfcb \<Rightarrow> int" where
  "mempool_end cb = int (mpf_mempool cb) + mpfsz cb"

definition mpf_chg_pri :: "ID \<Rightarrow> int \<Rightarrow> 'a mpf_st_scheme \<Rightarrow> 'a mpf_st_scheme" where
  "mpf_chg_pri t oldpri s = gcb_change_priority (WaitQ OMpf (wid (tcbs s t))) t s"

definition wspec_mpf_tfifo :: wspec where
  "wspec_mpf_tfifo = \<lparr>tskwait = TTW_MPF, chg_pri_hook = None, rel_wai_hook = None\<rparr>"

definition wspec_mpf_tpri :: wspec where
  "wspec_mpf_tpri = \<lparr>tskwait = TTW_MPF, chg_pri_hook = Some H_mpf_chg_pri, rel_wai_hook = None\<rparr>"

definition VALID_MPFATR :: ATR where
  "VALID_MPFATR = TA_TPRI OR TA_RNG3 OR TA_NORESIDENT OR TA_NODISWAI OR TA_DSNAME"

text \<open>\<open>iamalloc\<close> is what \<open>IAmalloc\<close> returns for the size and the attribute. The control block is off
  the free queue when its lock is asked for. What the calls do between \<open>LockOBJ\<close> and \<open>UnlockOBJ\<close> are
  the functions \<open>cre_mpf_body\<close> and so on.\<close>

definition cre_mpf_body ::
  "t_cmpf \<Rightarrow> int \<Rightarrow> int \<Rightarrow> addr \<Rightarrow> ID \<Rightarrow> 'a mpf_st_scheme \<Rightarrow> sysret \<times> 'a mpf_st_scheme" where
  "cre_mpf_body pk bsz psz mem i s =
     (let s1 = upd_mpfcb i (\<lambda>c. c\<lparr>mpf_exinf := cpf_exinf pk, mpfatr := cpf_mpfatr pk,
                 mpfcnt := cpf_mpfcnt pk, frbcnt := cpf_mpfcnt pk, blfsz := bsz, mpfsz := psz,
                 mpf_unused := mem, mpf_mempool := mem, mpf_freelist := []\<rparr>) s;
          s2 = (if has (cpf_mpfatr pk) TA_DSNAME
                then upd_mpfcb i (\<lambda>c. c\<lparr>mpf_name :=
                       tkl_strncpy (cpf_dsname pk) OBJECT_NAME_LENGTH\<rparr>) s1
                else s1)
      in (Ret i, upd_mpfcb i (\<lambda>c. c\<lparr>mpfid := i\<rparr>) s2))"

definition tk_cre_mpf ::
  "(UINT \<Rightarrow> ATR \<Rightarrow> addr) \<Rightarrow> t_cmpf \<Rightarrow> 'a mpf_st_scheme \<Rightarrow> sysret \<times> 'a mpf_st_scheme" where
  "tk_cre_mpf iamalloc pk s =
     (if \<not> chk_rsatr (cpf_mpfatr pk) VALID_MPFATR then (Ret E_RSATR, s)
      else if \<not> cpf_mpfcnt pk > 0 then (Ret E_PAR, s)
      else if \<not> cpf_blfsz pk > 0 then (Ret E_PAR, s)
      else if in_ddsp s then (Ret E_CTX, s)
      else
        (let bsz = MINSZ (cpf_blfsz pk);
             psz = sint (word_of_int bsz * word_of_int (cpf_mpfcnt pk) :: 32 word);
             mem = iamalloc (word_of_int psz) (cpf_mpfatr pk)
         in if mem = NULL then (Ret E_NOMEM, s)
            else (case free_mpfcb s of
                    [] \<Rightarrow> (Ret E_LIMIT, s)
                  | i # free \<Rightarrow>
                      with_lock OMpf i Retry (cre_mpf_body pk bsz psz mem i)
                        (s\<lparr>free_mpfcb := free\<rparr>))))"

definition del_mpf_body :: "ID \<Rightarrow> 'a mpf_st_scheme \<Rightarrow> sysret \<times> 'a mpf_st_scheme" where
  "del_mpf_body i s =
     (if mpfid (mpfcb_table s i) = 0 then (Ret E_NOEXS, s)
      else
        (let s1 = wait_delete OMpf i s;
             s2 = s1\<lparr>free_mpfcb := free_mpfcb s1 @ [i]\<rparr>
         in (Ret E_OK, upd_mpfcb i (\<lambda>c. c\<lparr>mpfid := 0\<rparr>) s2)))"

definition tk_del_mpf :: "ID \<Rightarrow> 'a mpf_st_scheme \<Rightarrow> sysret \<times> 'a mpf_st_scheme" where
  "tk_del_mpf i s =
     (if \<not> chk_id (max_mpfid s) i then (Ret E_ID, s)
      else if in_ddsp s then (Ret E_CTX, s)
      else with_lock OMpf i Retry (del_mpf_body i) s)"

text \<open>Taking a block: the one that came back last, or the first that was never handed out.\<close>

definition mpf_take :: "ID \<Rightarrow> addr \<Rightarrow> 'a mpf_st_scheme \<Rightarrow> 'a mpf_st_scheme" where
  "mpf_take i p_blf s =
     (let cb = mpfcb_table s i;
          s1 = (case mpf_freelist cb of
                  b # rest \<Rightarrow> upd_mpfcb i (\<lambda>c. c\<lparr>mpf_freelist := rest\<rparr>)
                                (s\<lparr>mem_ptr := (mem_ptr s)(p_blf := b)\<rparr>)
                | [] \<Rightarrow> upd_mpfcb i (\<lambda>c. c\<lparr>mpf_unused := nat (int (mpf_unused c) + blfsz c)\<rparr>)
                         (s\<lparr>mem_ptr := (mem_ptr s)(p_blf := mpf_unused cb)\<rparr>))
      in upd_mpfcb i (\<lambda>c. c\<lparr>frbcnt := frbcnt c - 1\<rparr>) s1)"

definition get_mpf_body :: "ID \<Rightarrow> addr \<Rightarrow> int \<Rightarrow> 'a mpf_st_scheme \<Rightarrow> sysret \<times> 'a mpf_st_scheme" where
  "get_mpf_body i p_blf tmout s =
     (let cb = mpfcb_table s i
      in if mpfid cb = 0 then (Ret E_NOEXS, s)
         else if is_diswai (mpfatr cb) (me s) TTW_MPF s then (Ret E_DISWAI, s)
         else if frbcnt cb \<le> 0 then
           (let s1 = call_wait OMpf i (mpfatr cb) tmout
                  (if has (mpfatr cb) TA_TPRI then wspec_mpf_tpri else wspec_mpf_tfifo)
                  (WI_mpf p_blf) s
            in (wait_ret s1, s1))
         else (Ret E_OK, mpf_take i p_blf s))"

definition tk_get_mpf_u :: "ID \<Rightarrow> addr \<Rightarrow> int \<Rightarrow> 'a mpf_st_scheme \<Rightarrow> sysret \<times> 'a mpf_st_scheme" where
  "tk_get_mpf_u i p_blf tmout s =
     (if \<not> chk_id (max_mpfid s) i then (Ret E_ID, s)
      else if \<not> chk_tmout tmout then (Ret E_PAR, s)
      else if in_ddsp s then (Ret E_CTX, s)
      else with_lock OMpf i Retry (get_mpf_body i p_blf tmout) s)"

definition tk_get_mpf :: "ID \<Rightarrow> addr \<Rightarrow> int \<Rightarrow> 'a mpf_st_scheme \<Rightarrow> sysret \<times> 'a mpf_st_scheme" where
  "tk_get_mpf i p_blf tmout s = tk_get_mpf_u i p_blf (to_usec_tmo tmout) s"

definition rel_mpf_body :: "ID \<Rightarrow> addr \<Rightarrow> 'a mpf_st_scheme \<Rightarrow> sysret \<times> 'a mpf_st_scheme" where
  "rel_mpf_body i blf s =
     (let cb = mpfcb_table s i
      in if mpfid cb = 0 then (Ret E_NOEXS, s)
         else if blf < mpf_mempool cb \<or> int blf \<ge> mempool_end cb \<or>
                 (int blf - int (mpf_mempool cb)) mod blfsz cb \<noteq> 0 then (Ret E_PAR, s)
         else
           (case que s (WaitQ OMpf i) of
              t # _ \<Rightarrow>
                (Ret E_OK, wait_release_ok t
                   (s\<lparr>mem_ptr := (mem_ptr s)(mpf_p_blf (winfo (tcbs s t)) := blf)\<rparr>))
            | [] \<Rightarrow>
                (Ret E_OK, upd_mpfcb i (\<lambda>c. c\<lparr>mpf_freelist := blf # mpf_freelist c,
                   frbcnt := frbcnt c + 1\<rparr>) s)))"

definition tk_rel_mpf :: "ID \<Rightarrow> addr \<Rightarrow> 'a mpf_st_scheme \<Rightarrow> sysret \<times> 'a mpf_st_scheme" where
  "tk_rel_mpf i blf s =
     (if \<not> chk_id (max_mpfid s) i then (Ret E_ID, s)
      else if in_ddsp s then (Ret E_CTX, s)
      else with_lock OMpf i Retry (rel_mpf_body i blf) s)"

definition mpf_packet :: "ID \<Rightarrow> 'a mpf_st_scheme \<Rightarrow> t_rmpf" where
  "mpf_packet i s = \<lparr>rpf_exinf = mpf_exinf (mpfcb_table s i), rpf_wtsk = wait_tskid (WaitQ OMpf i) s,
     rpf_frbcnt = frbcnt (mpfcb_table s i)\<rparr>"

definition tk_ref_mpf :: "ID \<Rightarrow> 'a mpf_st_scheme \<Rightarrow> (sysret \<times> t_rmpf option) \<times> 'a mpf_st_scheme" where
  "tk_ref_mpf i s =
     (if \<not> chk_id (max_mpfid s) i then ((Ret E_ID, None), s)
      else if in_ddsp s then ((Ret E_CTX, None), s)
      else
        with_lock OMpf i (Retry, None) (\<lambda>s.
          if mpfid (mpfcb_table s i) = 0 then ((Ret E_NOEXS, None), s)
          else ((Ret E_OK, Some (mpf_packet i s)), s)) s)"

definition fix_memorypool_getname :: "ID \<Rightarrow> 'a mpf_st_scheme \<Rightarrow> ER \<times> UB list option" where
  "fix_memorypool_getname i s =
     (if \<not> chk_id (max_mpfid s) i then (E_ID, None)
      else if mpfid (mpfcb_table s i) = 0 then (E_NOEXS, None)
      else if \<not> has (mpfatr (mpfcb_table s i)) TA_DSNAME then (E_OBJ, None)
      else (E_OK, Some (mpf_name (mpfcb_table s i))))"

definition td_lst_mpf :: "int \<Rightarrow> 'a mpf_st_scheme \<Rightarrow> int \<times> ID list" where
  "td_lst_mpf nent s =
     (let ids = filter (\<lambda>j. mpfid (mpfcb_table s j) \<noteq> 0) [1..max_mpfid s]
      in (int (length ids), take (nat nent) ids))"

definition td_ref_mpf :: "ID \<Rightarrow> 'a mpf_st_scheme \<Rightarrow> ER \<times> t_rmpf option" where
  "td_ref_mpf i s =
     (if \<not> chk_id (max_mpfid s) i then (E_ID, None)
      else if mpfid (mpfcb_table s i) = 0 then (E_NOEXS, None)
      else if isLockedOBJ OMpf i s then (E_CTX, None)
      else (E_OK, Some (mpf_packet i s)))"

definition td_mpf_que :: "ID \<Rightarrow> int \<Rightarrow> 'a mpf_st_scheme \<Rightarrow> int \<times> ID list" where
  "td_mpf_que i nent s =
     (if \<not> chk_id (max_mpfid s) i then (E_ID, [])
      else if mpfid (mpfcb_table s i) = 0 then (E_NOEXS, [])
      else (let xs = que s (WaitQ OMpf i) in (int (length xs), take (nat nent) xs)))"

text \<open>What the other operations leave unchanged.\<close>

lemma mpf_more:
  assumes "klk_st.more s' = klk_st.more s"
  shows "mpfcb_table s' = mpfcb_table s" "free_mpfcb s' = free_mpfcb s" "max_mpfid s' = max_mpfid s"
  using assms by (cases s; cases s'; simp add: mpf_st.defs)+

lemma mpf_frame [simp]:
  "mpfcb_table (call_wait kd i atr tmo w wi s) = mpfcb_table s" "free_mpfcb (call_wait kd i atr tmo w wi s) = free_mpfcb s" "max_mpfid (call_wait kd i atr tmo w wi s) = max_mpfid s"
  "mpfcb_table (set_wercd t e s) = mpfcb_table s" "free_mpfcb (set_wercd t e s) = free_mpfcb s" "max_mpfid (set_wercd t e s) = max_mpfid s"
  "mpfcb_table (tcb_upd t f s) = mpfcb_table s" "free_mpfcb (tcb_upd t f s) = free_mpfcb s" "max_mpfid (tcb_upd t f s) = max_mpfid s"
  "mpfcb_table (que_remove t s) = mpfcb_table s" "free_mpfcb (que_remove t s) = free_mpfcb s" "max_mpfid (que_remove t s) = max_mpfid s"
  "mpfcb_table (wait_release t s) = mpfcb_table s" "free_mpfcb (wait_release t s) = free_mpfcb s" "max_mpfid (wait_release t s) = max_mpfid s"
  "mpfcb_table (wait_release_ok t s) = mpfcb_table s" "free_mpfcb (wait_release_ok t s) = free_mpfcb s" "max_mpfid (wait_release_ok t s) = max_mpfid s"
  "mpfcb_table (wait_release_ok_ercd t e s) = mpfcb_table s" "free_mpfcb (wait_release_ok_ercd t e s) = free_mpfcb s" "max_mpfid (wait_release_ok_ercd t e s) = max_mpfid s"
  "mpfcb_table (queue_insert_tpri t q s) = mpfcb_table s" "free_mpfcb (queue_insert_tpri t q s) = free_mpfcb s" "max_mpfid (queue_insert_tpri t q s) = max_mpfid s"
  "mpfcb_table (gcb_change_priority q t s) = mpfcb_table s" "free_mpfcb (gcb_change_priority q t s) = free_mpfcb s" "max_mpfid (gcb_change_priority q t s) = max_mpfid s"
  "mpfcb_table (gcb_make_wait k i a tmo s) = mpfcb_table s" "free_mpfcb (gcb_make_wait k i a tmo s) = free_mpfcb s" "max_mpfid (gcb_make_wait k i a tmo s) = max_mpfid s"
  "mpfcb_table (gcb_make_wait_with_diswai k i a tmo s) = mpfcb_table s" "free_mpfcb (gcb_make_wait_with_diswai k i a tmo s) = free_mpfcb s" "max_mpfid (gcb_make_wait_with_diswai k i a tmo s) = max_mpfid s"
  "mpfcb_table (wait_delete k i s) = mpfcb_table s" "free_mpfcb (wait_delete k i s) = free_mpfcb s" "max_mpfid (wait_delete k i s) = max_mpfid s"
  "mpfcb_table (make_wait tmo a s) = mpfcb_table s" "free_mpfcb (make_wait tmo a s) = free_mpfcb s" "max_mpfid (make_wait tmo a s) = max_mpfid s"
  "mpfcb_table (make_wait_reltim rt a s) = mpfcb_table s" "free_mpfcb (make_wait_reltim rt a s) = free_mpfcb s" "max_mpfid (make_wait_reltim rt a s) = max_mpfid s"
  "mpfcb_table (make_non_wait t s) = mpfcb_table s" "free_mpfcb (make_non_wait t s) = free_mpfcb s" "max_mpfid (make_non_wait t s) = max_mpfid s"
  by (rule mpf_more, rule klk_more_kst; simp add: gcb_change_priority_frame)+

lemma mpf_lock_frame [simp]:
  "mpfcb_table (snd (LockOBJ k i s)) = mpfcb_table s" "free_mpfcb (snd (LockOBJ k i s)) = free_mpfcb s" "max_mpfid (snd (LockOBJ k i s)) = max_mpfid s"
  "mpfcb_table (UnlockOBJ k i s) = mpfcb_table s" "free_mpfcb (UnlockOBJ k i s) = free_mpfcb s" "max_mpfid (UnlockOBJ k i s) = max_mpfid s"
  by (rule mpf_more, rule LockOBJ_more UnlockOBJ_more)+

lemma upd_mpfcb_sel [simp]:
  "mpfcb_table (upd_mpfcb i f s) j = (if j = i then f (mpfcb_table s i) else mpfcb_table s j)"
  "free_mpfcb (upd_mpfcb i f s) = free_mpfcb s" "max_mpfid (upd_mpfcb i f s) = max_mpfid s"
  "tcbs (upd_mpfcb i f s) = tcbs s" "que (upd_mpfcb i f s) = que s"
  "ctxtsk (upd_mpfcb i f s) = ctxtsk s" "mem_ptr (upd_mpfcb i f s) = mem_ptr s"
  by (simp_all add: upd_mpfcb_def)

lemma kinv_mpf_upd [simp]:
  "kinv_x X (upd_mpfcb i f s) = kinv_x X s" "kinv_x X (s\<lparr>free_mpfcb := fr\<rparr>) = kinv_x X s"
  "executing t (s\<lparr>free_mpfcb := fr\<rparr>) = executing t s"
  by (simp_all add: upd_mpfcb_def kinv_x_def rdq_ok_def executing_def)

lemma mpf_wspec_hooks [simp]:
  "rel_wai_hook wspec_mpf_tpri = None" "rel_wai_hook wspec_mpf_tfifo = None"
  "chg_pri_hook wspec_mpf_tpri = Some H_mpf_chg_pri" "chg_pri_hook wspec_mpf_tfifo = None"
  "tskwait wspec_mpf_tpri = TTW_MPF" "tskwait wspec_mpf_tfifo = TTW_MPF"
  by (simp_all add: wspec_mpf_tpri_def wspec_mpf_tfifo_def)

section \<open>The blocks of a pool\<close>

text \<open>The addresses of the first \<open>n\<close> blocks, and the blocks that are in the hands of tasks.\<close>

definition mpf_block :: "mpfcb \<Rightarrow> nat \<Rightarrow> addr" where
  "mpf_block c k = mpf_mempool c + k * nat (blfsz c)"

definition mpf_used :: "mpfcb \<Rightarrow> nat" where
  "mpf_used c = (mpf_unused c - mpf_mempool c) div nat (blfsz c)"

definition mpf_out :: "mpfcb \<Rightarrow> addr set" where
  "mpf_out c = mpf_block c ` {..<mpf_used c} - set (mpf_freelist c)"

definition mpf_blocks_ok :: "mpfcb \<Rightarrow> bool" where
  "mpf_blocks_ok c \<longleftrightarrow>
     0 < mpfcnt c \<and> 0 < blfsz c \<and> mpfsz c = blfsz c * mpfcnt c \<and>
     mpf_unused c = mpf_block c (mpf_used c) \<and> int (mpf_used c) \<le> mpfcnt c \<and>
     distinct (mpf_freelist c) \<and> set (mpf_freelist c) \<subseteq> mpf_block c ` {..<mpf_used c} \<and>
     frbcnt c = mpfcnt c - int (mpf_used c) + int (length (mpf_freelist c))"

lemma mpf_block_inj: "0 < blfsz c \<Longrightarrow> mpf_block c k = mpf_block c l \<longleftrightarrow> k = l"
  by (simp add: mpf_block_def)

lemma mpf_used_block: "0 < blfsz c \<Longrightarrow> mpf_unused c = mpf_block c n \<Longrightarrow> mpf_used c = n"
  by (simp add: mpf_used_def mpf_block_def)

lemma finite_mpf_out: "finite (mpf_out c)"
  by (simp add: mpf_out_def)

text \<open>The free blocks and those handed out are all the blocks.\<close>

lemma mpf_blocks_count:
  assumes "mpf_blocks_ok c"
  shows "int (card (mpf_out c)) + frbcnt c = mpfcnt c" "0 \<le> frbcnt c"
proof -
  have inj: "inj_on (mpf_block c) {..<mpf_used c}"
    using assms by (auto simp: mpf_blocks_ok_def inj_on_def mpf_block_inj)
  have len: "card (set (mpf_freelist c)) = length (mpf_freelist c)"
    using assms by (simp add: mpf_blocks_ok_def distinct_card)
  have "card (set (mpf_freelist c)) \<le> card (mpf_block c ` {..<mpf_used c})"
    using assms by (intro card_mono) (auto simp: mpf_blocks_ok_def)
  then have le: "length (mpf_freelist c) \<le> mpf_used c" by (simp add: len card_image [OF inj])
  have "card (mpf_out c) = mpf_used c - length (mpf_freelist c)"
    unfolding mpf_out_def
    using assms by (subst card_Diff_subset) (auto simp: mpf_blocks_ok_def card_image [OF inj] len)
  then show "int (card (mpf_out c)) + frbcnt c = mpfcnt c" "0 \<le> frbcnt c"
    using assms le by (simp_all add: mpf_blocks_ok_def)
qed

lemma mpf_out_in_pool:
  assumes "mpf_blocks_ok c" "b \<in> mpf_out c"
  shows "mpf_mempool c \<le> b" "int b < mempool_end c" "(int b - int (mpf_mempool c)) mod blfsz c = 0"
proof -
  obtain k where k: "b = mpf_block c k" "k < mpf_used c" using assms(2) by (auto simp: mpf_out_def)
  have p: "0 < blfsz c" "int k + 1 \<le> mpfcnt c" "mpfsz c = blfsz c * mpfcnt c"
    using assms(1) k by (auto simp: mpf_blocks_ok_def)
  have ib: "int b = int (mpf_mempool c) + int k * blfsz c" using p by (simp add: k mpf_block_def)
  show "mpf_mempool c \<le> b" using k by (simp add: mpf_block_def)
  have "(int k + 1) * blfsz c \<le> mpfcnt c * blfsz c" using p by (intro mult_right_mono) auto
  then show "int b < mempool_end c" using p by (simp add: ib mempool_end_def algebra_simps)
  show "(int b - int (mpf_mempool c)) mod blfsz c = 0" by (simp add: ib)
qed

text \<open>Taking a block hands out one that was free; giving it back undoes that.\<close>

lemma mpf_take_frame [simp]:
  "tcbs (mpf_take i p s) = tcbs s" "que (mpf_take i p s) = que s" "ctxtsk (mpf_take i p s) = ctxtsk s"
  "free_mpfcb (mpf_take i p s) = free_mpfcb s" "max_mpfid (mpf_take i p s) = max_mpfid s"
  "kinv_x X (mpf_take i p s) = kinv_x X s" "j \<noteq> i \<Longrightarrow> mpfcb_table (mpf_take i p s) j = mpfcb_table s j"
  "mpfid (mpfcb_table (mpf_take i p s) i) = mpfid (mpfcb_table s i)"
  "mpfatr (mpfcb_table (mpf_take i p s) i) = mpfatr (mpfcb_table s i)"
  "frbcnt (mpfcb_table (mpf_take i p s) i) = frbcnt (mpfcb_table s i) - 1"
  by (simp_all add: mpf_take_def Let_def split: list.split)

lemma mpf_take_spec:
  fixes s :: "'a mpf_st_scheme" and p :: addr
  assumes ok: "mpf_blocks_ok (mpfcb_table s i)" and f: "0 < frbcnt (mpfcb_table s i)"
  defines "c \<equiv> mpfcb_table s i" and "s' \<equiv> mpf_take i p s"
  defines "c' \<equiv> mpfcb_table s' i" and "b \<equiv> mem_ptr s' p"
  shows "mpf_blocks_ok c' \<and> b \<notin> mpf_out c \<and> mpf_out c' = insert b (mpf_out c)"
proof (cases "mpf_freelist c")
  case (Cons x rest)
  have b: "b = x" using Cons by (simp add: b_def s'_def mpf_take_def Let_def c_def)
  have c': "c' = c\<lparr>mpf_freelist := rest, frbcnt := frbcnt c - 1\<rparr>"
    using Cons by (simp add: c'_def s'_def mpf_take_def Let_def c_def)
  have e: "mpf_used c' = mpf_used c" "mpf_block c' = mpf_block c"
    by (simp_all add: c' mpf_used_def mpf_block_def fun_eq_iff)
  have "mpf_blocks_ok c'"
    using ok Cons unfolding mpf_blocks_ok_def e c_def [symmetric] by (simp add: c')
  moreover have "x \<in> mpf_block c ` {..<mpf_used c}" "x \<notin> set rest"
    using ok Cons by (auto simp: mpf_blocks_ok_def c_def [symmetric])
  then have "b \<notin> mpf_out c \<and> mpf_out c' = insert b (mpf_out c)"
    using Cons unfolding mpf_out_def e by (auto simp: c' b)
  ultimately show ?thesis by blast
next
  case Nil
  have p: "0 < blfsz c" "mpf_unused c = mpf_block c (mpf_used c)" "int (mpf_used c) < mpfcnt c"
    using ok f Nil by (auto simp: mpf_blocks_ok_def c_def [symmetric])
  have b: "b = mpf_unused c" using Nil by (simp add: b_def s'_def mpf_take_def Let_def c_def)
  have un: "nat (int (mpf_unused c) + blfsz c) = mpf_unused c + nat (blfsz c)" using p(1) by linarith
  have c': "c' = c\<lparr>mpf_unused := mpf_unused c + nat (blfsz c), frbcnt := frbcnt c - 1\<rparr>"
    using Nil un by (simp add: c'_def s'_def mpf_take_def Let_def c_def)
  have bl: "mpf_block c' = mpf_block c" by (simp add: c' mpf_block_def fun_eq_iff)
  have "mpf_unused c' = mpf_block c' (Suc (mpf_used c))"
    using p unfolding bl by (simp add: c' mpf_block_def)
  then have us: "mpf_used c' = Suc (mpf_used c)" using p(1) by (intro mpf_used_block) (simp_all add: c')
  have "mpf_blocks_ok c'"
    using ok Nil p unfolding mpf_blocks_ok_def bl us c_def [symmetric]
    by (auto simp: c' mpf_block_def)
  moreover have "mpf_block c (mpf_used c) \<notin> mpf_block c ` {..<mpf_used c}"
    using mpf_block_inj [OF p(1)] by auto
  then have "b \<notin> mpf_out c \<and> mpf_out c' = insert b (mpf_out c)"
    using Nil p(2) unfolding mpf_out_def us bl by (auto simp: c' b lessThan_Suc)
  ultimately show ?thesis by blast
qed

definition mpf_put :: "addr \<Rightarrow> mpfcb \<Rightarrow> mpfcb" where
  "mpf_put blf c = c\<lparr>mpf_freelist := blf # mpf_freelist c, frbcnt := frbcnt c + 1\<rparr>"

lemma mpf_put_sel [simp]:
  "mpfid (mpf_put b c) = mpfid c" "mpfatr (mpf_put b c) = mpfatr c" "frbcnt (mpf_put b c) = frbcnt c + 1"
  by (simp_all add: mpf_put_def)

lemma mpf_put_spec:
  assumes ok: "mpf_blocks_ok c" and b: "b \<in> mpf_out c"
  shows "mpf_blocks_ok (mpf_put b c)" "mpf_out (mpf_put b c) = mpf_out c - {b}"
proof -
  have e: "mpf_used (mpf_put b c) = mpf_used c" "mpf_block (mpf_put b c) = mpf_block c"
    by (simp_all add: mpf_put_def mpf_used_def mpf_block_def fun_eq_iff)
  have "b \<in> mpf_block c ` {..<mpf_used c}" "b \<notin> set (mpf_freelist c)" using b by (auto simp: mpf_out_def)
  then show "mpf_blocks_ok (mpf_put b c)"
    using ok unfolding mpf_blocks_ok_def e by (simp add: mpf_put_def)
  show "mpf_out (mpf_put b c) = mpf_out c - {b}"
    unfolding mpf_out_def e by (auto simp: mpf_put_def)
qed

section \<open>The invariant\<close>

definition mpf_exists :: "ID \<Rightarrow> 'a mpf_st_scheme \<Rightarrow> bool" where
  "mpf_exists i s \<longleftrightarrow> chk_id (max_mpfid s) i \<and> mpfid (mpfcb_table s i) \<noteq> 0"

definition mpf_obj_pre :: "ID \<Rightarrow> 'a mpf_st_scheme \<Rightarrow> bool" where
  "mpf_obj_pre i s \<longleftrightarrow>
     (let c = mpfcb_table s i
      in mpfid c = i \<and> mpf_blocks_ok c \<and>
         (\<forall>t \<in> set (que s (WaitQ OMpf i)). rel_wai_hook (wspec (tcbs s t)) = None \<and>
            chg_pri_hook (wspec (tcbs s t)) = (if has (mpfatr c) TA_TPRI then Some H_mpf_chg_pri else None)))"

text \<open>No task waits while a block is free.\<close>

definition mpf_obj_settled :: "ID \<Rightarrow> 'a mpf_st_scheme \<Rightarrow> bool" where
  "mpf_obj_settled i s \<longleftrightarrow> que s (WaitQ OMpf i) = [] \<or> frbcnt (mpfcb_table s i) = 0"

definition mpf_weak :: "ID \<Rightarrow> 'a mpf_st_scheme \<Rightarrow> bool" where
  "mpf_weak i s \<longleftrightarrow>
     kinv s \<and> distinct (free_mpfcb s) \<and>
     (\<forall>j. j \<in> set (free_mpfcb s) \<longleftrightarrow> chk_id (max_mpfid s) j \<and> mpfid (mpfcb_table s j) = 0) \<and>
     (\<forall>j. if mpf_exists j s then mpf_obj_pre j s \<and> (j \<noteq> i \<longrightarrow> mpf_obj_settled j s)
          else que s (WaitQ OMpf j) = [])"

definition mpf_ok :: "'a mpf_st_scheme \<Rightarrow> bool" where
  "mpf_ok s \<longleftrightarrow>
     kinv s \<and> distinct (free_mpfcb s) \<and>
     (\<forall>j. j \<in> set (free_mpfcb s) \<longleftrightarrow> chk_id (max_mpfid s) j \<and> mpfid (mpfcb_table s j) = 0) \<and>
     (\<forall>j. if mpf_exists j s then mpf_obj_pre j s \<and> mpf_obj_settled j s
          else que s (WaitQ OMpf j) = [])"

interpretation mpfo: leaving_pool "{OMpf}" max_mpfid free_mpfcb mpfcb_table mpfid
  mpf_obj_pre mpf_obj_settled mpf_ok mpf_weak
proof unfold_locales
  fix s s' :: "'a mpf_st_scheme" and j
  assume cb: "mpfcb_table s' j = mpfcb_table s j" and w: "\<And>k. k \<in> {OMpf} \<Longrightarrow> same_waits s' s k j"
  note w = same_waitsD [OF w [of OMpf, simplified]]
  show "mpf_obj_settled j s \<Longrightarrow> mpf_obj_settled j s'"
    by (simp add: mpf_obj_settled_def cb w(1))
  show "mpf_obj_pre j s \<Longrightarrow> mpf_obj_pre j s'"
    by (simp add: mpf_obj_pre_def Let_def cb w(1)) (use w(2,3) in simp)
next
  fix s s' :: "'a mpf_st_scheme" and i t
  assume cb: "mpfcb_table s' i = mpfcb_table s i"
    and q: "\<And>k. k \<in> {OMpf} \<Longrightarrow> que s' (WaitQ k i) = removeAll t (que s (WaitQ k i))"
    and v: "\<And>u. winfo (tcbs s' u) = winfo (tcbs s u)" "\<And>u. wspec (tcbs s' u) = wspec (tcbs s u)"
    and p: "mpf_obj_pre i s"
  show "mpf_obj_pre i s' \<and> (mpf_obj_settled i s \<longrightarrow> mpf_obj_settled i s')"
    using p by (auto simp: mpf_obj_pre_def mpf_obj_settled_def Let_def cb q v)
qed (auto simp: mpf_weak_def mpf_ok_def mpf_exists_def split: if_splits)

lemma mpf_okD:
  assumes "mpf_ok s"
  shows "kinv s" "mpf_weak i s" "mpf_exists i s \<Longrightarrow> mpf_obj_pre i s"
    "mpf_exists i s \<Longrightarrow> mpf_obj_settled i s" "\<not> mpf_exists i s \<Longrightarrow> que s (WaitQ OMpf i) = []"
  using assms mpfo.okD(1) [OF assms, of i] by (simp_all add: mpf_ok_def)

section \<open>Every operation keeps the invariant\<close>

lemma mpf_ok_lock: "mpf_ok s \<Longrightarrow> executing t s \<Longrightarrow> mpf_ok (snd (LockOBJ k i s))"
  by (rule mpfo.same) (auto intro: mpf_okD LockOBJ_kinv LockOBJ_waits)

lemma mpf_ok_unlock: "mpf_ok s \<Longrightarrow> mpf_ok (UnlockOBJ k i s)"
  by (rule mpfo.same) (auto intro: mpf_okD UnlockOBJ_kinv UnlockOBJ_waits)

lemma mpf_with_lock:
  assumes "mpf_ok s" "executing t s"
    and "\<And>s1. mpf_ok s1 \<Longrightarrow> executing t s1 \<Longrightarrow> mpfcb_table s1 = mpfcb_table s \<Longrightarrow>
      free_mpfcb s1 = free_mpfcb s \<Longrightarrow> max_mpfid s1 = max_mpfid s \<Longrightarrow> mpf_ok (snd (body s1))"
  shows "mpf_ok (snd (with_lock k i busy body s))"
proof (rule with_lock_inv [where I = mpf_ok and t = t])
  show "mpf_ok (snd (LockOBJ k i s))" by (rule mpf_ok_lock [OF assms(1,2)])
  then show "mpf_ok (snd (body (snd (LockOBJ k i s))))" if "executing t (snd (LockOBJ k i s))"
    using that by (intro assms(3)) simp_all
qed (use assms(2) mpf_ok_unlock in simp_all)

lemma mpf_take_ok:
  assumes ok: "mpf_ok s" and ex: "mpf_exists i s" and f: "0 < frbcnt (mpfcb_table s i)"
  shows "mpf_ok (mpf_take i p s)"
proof (rule mpfo.frame [OF mpf_okD(2) [OF ok]])
  note pr = mpf_okD(3,4) [OF ok ex]
  have b: "mpf_blocks_ok (mpfcb_table s i)" using pr(1) by (simp add: mpf_obj_pre_def Let_def)
  show "mpf_obj_pre i (mpf_take i p s) \<and> mpf_obj_settled i (mpf_take i p s)"
    using pr f mpf_take_spec [OF b f, of p] by (auto simp: mpf_obj_pre_def mpf_obj_settled_def Let_def)
qed (use mpf_okD(1) [OF ok] ex in \<open>simp_all add: same_waits_tcbs mpf_exists_def\<close>)

lemma mpf_call_wait_ok:
  assumes ok: "mpf_ok s" and r: "running t s" and ex: "mpf_exists i s" and e: "frbcnt (mpfcb_table s i) \<le> 0"
  shows "mpf_ok (call_wait OMpf i (mpfatr (mpfcb_table s i)) tmout
    (if has (mpfatr (mpfcb_table s i)) TA_TPRI then wspec_mpf_tpri else wspec_mpf_tfifo) (WI_mpf p) s)" (is "mpf_ok ?s'")
proof -
  note c = call_wait [OF mpf_okD(1) [OF ok] r, where kd = OMpf and i = i and atr = "mpfatr (mpfcb_table s i)" and tmout = tmout
      and w = "if has (mpfatr (mpfcb_table s i)) TA_TPRI then wspec_mpf_tpri else wspec_mpf_tfifo" and f = "WI_mpf p"]
  note pr = mpf_okD(3) [OF ok ex]
  have b: "mpf_blocks_ok (mpfcb_table s i)" using pr by (simp add: mpf_obj_pre_def Let_def)
  have sub: "set (que ?s' (WaitQ OMpf i)) \<subseteq> insert t (set (que s (WaitQ OMpf i)))" by (simp add: c(2)) blast
  show ?thesis
  proof (rule mpfo.frame [OF mpf_okD(2) [OF ok, of i] c(1)])
    have "mpf_obj_settled i ?s'" using e mpf_blocks_count(2) [OF b] by (simp add: mpf_obj_settled_def)
    moreover have "rel_wai_hook (wspec (tcbs ?s' u)) = None \<and> chg_pri_hook (wspec (tcbs ?s' u)) =
        (if has (mpfatr (mpfcb_table s i)) TA_TPRI then Some H_mpf_chg_pri else None)"
      if "u \<in> set (que ?s' (WaitQ OMpf i))" for u
      using that sub pr by (cases "u = t") (auto simp: c(4) mpf_obj_pre_def Let_def)
    then have "mpf_obj_pre i ?s'" using pr unfolding mpf_obj_pre_def Let_def mpf_frame by blast
    ultimately show "mpf_obj_pre i ?s' \<and> mpf_obj_settled i ?s'" by blast
  qed (use ex c(5) in \<open>simp_all add: mpf_exists_def\<close>)
qed

lemma get_mpf_body_ok:
  assumes "mpf_ok s" "executing t s" "chk_id (max_mpfid s) i"
  shows "mpf_ok (snd (get_mpf_body i p tmout s))"
  using assms mpf_take_ok [of s i p] mpf_call_wait_ok [of s t i tmout p] executingD(4) [OF assms(2)]
  by (simp add: get_mpf_body_def Let_def mpf_exists_def)

lemma tk_get_mpf_u_ok:
  assumes ok: "mpf_ok s" and t: "in_ddsp s \<or> executing t s"
  shows "mpf_ok (snd (tk_get_mpf_u i p tmout s))"
  using t ok unfolding tk_get_mpf_u_def by (auto intro!: mpf_with_lock [OF ok] intro: get_mpf_body_ok)

text \<open>Returning a block that a task has: the first waiting task gets it, or it becomes free.\<close>

lemma mpf_put_ok:
  assumes ok: "mpf_ok s" and ex: "mpf_exists i s" and b: "b \<in> mpf_out (mpfcb_table s i)"
    and q: "que s (WaitQ OMpf i) = []"
  shows "mpf_ok (upd_mpfcb i (mpf_put b) s)"
proof (rule mpfo.frame [OF mpf_okD(2) [OF ok]])
  note pr = mpf_okD(3) [OF ok ex]
  have c: "mpf_blocks_ok (mpfcb_table s i)" using pr by (simp add: mpf_obj_pre_def Let_def)
  show "mpf_obj_pre i (upd_mpfcb i (mpf_put b) s) \<and> mpf_obj_settled i (upd_mpfcb i (mpf_put b) s)"
    using pr q mpf_put_spec(1) [OF c b] by (simp add: mpf_obj_pre_def mpf_obj_settled_def Let_def)
qed (use mpf_okD(1) [OF ok] ex in \<open>simp_all add: same_waits_tcbs mpf_exists_def\<close>)

lemma mpf_ok_mem: "mpf_ok s \<Longrightarrow> mpf_ok (s\<lparr>mem_ptr := m\<rparr>)"
  by (rule mpfo.same [of s]) (auto simp: same_waits_def intro: mpf_okD)

lemma mpf_release_ok:
  assumes ok: "mpf_ok s" and t: "t \<in> set (que s (WaitQ OMpf i))"
  shows "mpf_ok (wait_release_ok t s)"
proof -
  have w: "in_wait (tstate (tcbs s t))" using kinv_xD(5) [OF mpf_okD(1) [OF ok] t] by simp
  have r: "mpf_ok (wait_release t s)" by (rule mpfo.release_ok [OF ok w]) simp_all
  show ?thesis
    by (rule mpfo.same [OF r]) (use mpf_okD(1) [OF r] in \<open>simp_all add: wait_release_ok_def same_waits_def\<close>)
qed

text \<open>The code cannot tell whether a block was handed out; a caller that returns one it has keeps the
  pool intact, and an address that is no block of the pool is refused.\<close>

definition mpf_returnable :: "ID \<Rightarrow> addr \<Rightarrow> 'a mpf_st_scheme \<Rightarrow> bool" where
  "mpf_returnable i blf s \<longleftrightarrow>
     (let c = mpfcb_table s i
      in mpf_exists i s \<longrightarrow> blf < mpf_mempool c \<or> int blf \<ge> mempool_end c \<or>
         (int blf - int (mpf_mempool c)) mod blfsz c \<noteq> 0 \<or> blf \<in> mpf_out c)"

lemma rel_mpf_body_ok:
  assumes ok: "mpf_ok s" and c: "chk_id (max_mpfid s) i" and b: "mpf_returnable i blf s"
  shows "mpf_ok (snd (rel_mpf_body i blf s))"
proof (cases "que s (WaitQ OMpf i)")
  case Nil
  let ?c = "mpfcb_table s i"
  have "mpf_ok (upd_mpfcb i (mpf_put blf) s)"
    if "mpfid ?c \<noteq> 0" "\<not> (blf < mpf_mempool ?c \<or> int blf \<ge> mempool_end ?c \<or>
      (int blf - int (mpf_mempool ?c)) mod blfsz ?c \<noteq> 0)"
  proof (rule mpf_put_ok [OF ok _ _ Nil])
    show ex: "mpf_exists i s" using that c by (simp add: mpf_exists_def)
    then show "blf \<in> mpf_out ?c" using that b by (simp add: mpf_returnable_def Let_def)
  qed
  then show ?thesis using ok Nil by (simp add: rel_mpf_body_def Let_def mpf_put_def [abs_def])
next
  case (Cons u us)
  have "mpf_ok (wait_release_ok u (s\<lparr>mem_ptr := m\<rparr>))" for m
    by (rule mpf_release_ok [OF mpf_ok_mem [OF ok], where i = i]) (simp add: Cons)
  then show ?thesis using ok Cons by (simp add: rel_mpf_body_def Let_def)
qed

lemma mpf_returnable_cong:
  "mpfcb_table s' = mpfcb_table s \<Longrightarrow> max_mpfid s' = max_mpfid s \<Longrightarrow>
   mpf_returnable i b s' = mpf_returnable i b s"
  by (simp add: mpf_returnable_def mpf_exists_def)

lemma tk_rel_mpf_ok:
  assumes ok: "mpf_ok s" and t: "in_ddsp s \<or> executing t s" and b: "mpf_returnable i blf s"
  shows "mpf_ok (snd (tk_rel_mpf i blf s))"
  using t ok b unfolding tk_rel_mpf_def
  by (auto intro!: mpf_with_lock [OF ok] rel_mpf_body_ok [OF _ _ mpf_returnable_cong [THEN iffD2, OF _ _ b]])

lemma tk_ref_mpf_ok:
  assumes "mpf_ok s" and "in_ddsp s \<or> executing t s"
  shows "mpf_ok (snd (tk_ref_mpf i s))"
  using assms unfolding tk_ref_mpf_def by (auto intro!: mpf_with_lock [OF assms(1)])

lemma del_mpf_body_ok:
  assumes ok: "mpf_ok s" and c: "chk_id (max_mpfid s) i"
  shows "mpf_ok (snd (del_mpf_body i s))"
proof -
  let ?s2 = "upd_mpfcb i (\<lambda>c. c\<lparr>mpfid := 0\<rparr>) ((wait_delete OMpf i s)\<lparr>free_mpfcb := free_mpfcb s @ [i]\<rparr>)"
  note w = wait_delete_spec [OF mpf_okD(1) [OF ok], of OMpf i]
  have "same_waits ?s2 s OMpf j" if "j \<noteq> i" for j
    by (rule same_waits_trans [OF same_waits_tcbs same_waits_delete [OF mpf_okD(1) [OF ok], of OMpf _ _ i]])
      (use that in simp_all)
  then have "mpf_ok ?s2" if "mpf_exists i s"
    by (intro mpfo.delete [OF ok, of i]) (use that w in \<open>simp_all add: mpf_exists_def\<close>)
  then show ?thesis using ok c by (simp add: del_mpf_body_def Let_def mpf_exists_def)
qed

lemma tk_del_mpf_ok:
  assumes ok: "mpf_ok s" and t: "in_ddsp s \<or> executing t s"
  shows "mpf_ok (snd (tk_del_mpf i s))"
  using t ok unfolding tk_del_mpf_def by (auto intro!: mpf_with_lock [OF ok] del_mpf_body_ok)

text \<open>A pool whose size does not overflow.\<close>

definition mpf_size_fits :: "t_cmpf \<Rightarrow> bool" where
  "mpf_size_fits pk \<longleftrightarrow> 0 < MINSZ (cpf_blfsz pk) \<and> MINSZ (cpf_blfsz pk) * cpf_mpfcnt pk < 2 ^ 31"

lemma MINSZ_eq:
  assumes "0 < sz" "sz < 2 ^ 31 - 4"
  shows "MINSZ sz = (sz + 3) div 4 * 4" "sz \<le> MINSZ sz"
proof -
  have m: "(4 - 1 :: 32 word) = mask 2" by (simp add: mask_eq_exp_minus_1)
  have e: "(word_of_int sz + (4 - 1)) AND NOT (4 - 1) = (word_of_int (sz + 3) :: 32 word) AND NOT (mask 2)"
    unfolding m by (simp add: mask_eq_exp_minus_1)
  have u: "uint ((word_of_int sz + (4 - 1)) AND NOT (4 - 1) :: 32 word) = (sz + 3) div 4 * 4"
    unfolding e using assms by (subst uint_and_not_mask32) simp_all
  show eq: "MINSZ sz = (sz + 3) div 4 * 4"
    unfolding MINSZ_def using u assms by (subst sint_small32) (simp_all, linarith?)
  show "sz \<le> MINSZ sz" unfolding eq by linarith
qed

lemma mpf_size_fitsD:
  assumes f: "mpf_size_fits pk" and c: "cpf_mpfcnt pk > 0"
  shows "sint (word_of_int (MINSZ (cpf_blfsz pk)) * word_of_int (cpf_mpfcnt pk) :: 32 word) =
    MINSZ (cpf_blfsz pk) * cpf_mpfcnt pk"
proof -
  let ?n = "MINSZ (cpf_blfsz pk) * cpf_mpfcnt pk"
  have n: "0 \<le> ?n" "?n < 2 ^ 31" using f c by (auto simp: mpf_size_fits_def)
  then have u: "uint (word_of_int ?n :: 32 word) = ?n"
    by (simp add: uint_word_of_int_eq take_bit_int_eq_self del: of_int_mult)
  then have "sint (word_of_int ?n :: 32 word) = ?n" using n by (subst sint_small32) simp_all
  then show ?thesis by simp
qed

lemma mpf_blocks_ok_new:
  assumes "0 < mpfcnt c" "0 < blfsz c" "mpfsz c = blfsz c * mpfcnt c" "frbcnt c = mpfcnt c"
    "mpf_unused c = mpf_mempool c" "mpf_freelist c = []"
  shows "mpf_blocks_ok c"
proof -
  have "mpf_used c = 0" using assms by (simp add: mpf_used_def)
  then show ?thesis using assms by (simp add: mpf_blocks_ok_def mpf_block_def)
qed

lemma tk_cre_mpf_ok:
  assumes ok: "mpf_ok s" and t: "in_ddsp s \<or> executing t s" and f: "mpf_size_fits pk"
    and l: "\<And>i free. free_mpfcb s = i # free \<Longrightarrow> fst (LockOBJ OMpf i (s\<lparr>free_mpfcb := free\<rparr>))"
  shows "mpf_ok (snd (tk_cre_mpf iamalloc pk s))"
proof (cases "free_mpfcb s")
  case Nil
  then show ?thesis using ok by (simp add: tk_cre_mpf_def Let_def)
next
  case (Cons i free)
  let ?bsz = "MINSZ (cpf_blfsz pk)" and ?s0 = "s\<lparr>free_mpfcb := free\<rparr>"
  define psz where "psz = sint (word_of_int ?bsz * word_of_int (cpf_mpfcnt pk) :: 32 word)"
  define s1 where "s1 = snd (LockOBJ OMpf i ?s0)"
  have "mpf_ok (UnlockOBJ OMpf i (snd (cre_mpf_body pk ?bsz psz mem i s1)))"
    if c: "cpf_mpfcnt pk > 0" and t: "executing t s" for mem
  proof (rule mpf_ok_unlock)
    have t0: "executing t ?s0" and k0: "kinv ?s0" using t mpf_okD(1) [OF ok] by simp_all
    have tb: "mpfcb_table s1 = mpfcb_table s" "free_mpfcb s1 = free" "max_mpfid s1 = max_mpfid s"
      by (simp_all add: s1_def)
    have k1: "kinv s1" unfolding s1_def by (rule LockOBJ_kinv [OF k0 t0])
    have sw: "same_waits s1 s kd j" for kd j
      using LockOBJ_waits [OF k0 t0, of OMpf i kd j] by (simp add: s1_def same_waits_def)
    have i: "chk_id (max_mpfid s) i" "\<not> mpf_exists i s"
      using mpfo.weakD(3) [OF mpf_okD(2) [OF ok], of i] Cons by (auto simp: mpf_exists_def)
    then have i0: "i \<noteq> 0" by (auto simp: chk_id_def)
    have e: "que s1 (WaitQ OMpf i) = []" using mpf_okD(5) [OF ok i(2)] same_waitsD(1) [OF sw] by simp
    have new: "mpf_blocks_ok (mpfcb_table (snd (cre_mpf_body pk ?bsz psz mem i s1)) i)"
      using f c mpf_size_fitsD [OF f c]
      by (intro mpf_blocks_ok_new) (simp_all add: cre_mpf_body_def Let_def psz_def mpf_size_fits_def)
    show "mpf_ok (snd (cre_mpf_body pk ?bsz psz mem i s1))" (is "mpf_ok ?s2")
    proof (rule mpfo.create [OF ok Cons])
      have "que ?s2 = que s1" "tcbs ?s2 = tcbs s1" by (simp_all add: cre_mpf_body_def Let_def)
      then show "same_waits ?s2 s k j" for k j using sw [of k j] by (simp add: same_waits_def)
      show "mpf_obj_pre i ?s2" "mpf_obj_settled i ?s2"
        using new e \<open>que ?s2 = _\<close>
        by (simp_all add: mpf_obj_pre_def mpf_obj_settled_def) (simp add: cre_mpf_body_def Let_def)
    qed (use k1 i0 tb in \<open>simp_all add: cre_mpf_body_def Let_def\<close>)
  qed
  then show ?thesis
    using Cons ok t l [OF Cons]
    by (simp add: tk_cre_mpf_def Let_def with_lock_got psz_def s1_def split: prod.split)
      (metis snd_conv)?
qed

lemma mpf_chg_pri_ok:
  assumes ok: "mpf_ok s" and t: "t \<in> set (que s (WaitQ OMpf i))"
  shows "mpf_ok (mpf_chg_pri t old s)"
proof -
  note k = mpf_okD(1) [OF ok]
  have w: "in_wait (tstate (tcbs s t))" "wid (tcbs s t) = i" using kinv_xD(5) [OF k t] by auto
  let ?s' = "gcb_change_priority (WaitQ OMpf i) t s"
  have ex: "mpf_exists i s" using mpfo.waits_exists [OF mpf_okD(2) [OF ok] t] by (simp add: mpf_exists_def)
  have ti: "set (que ?s' (WaitQ OMpf i)) = set (que s (WaitQ OMpf i))"
    "que s (WaitQ OMpf i) \<noteq> []" using t by (auto simp: gcb_change_priority_que)
  have "mpf_ok ?s'"
  proof (rule mpfo.frame [OF mpf_okD(2) [OF ok, of i] gcb_change_priority_kinv_x [OF k w]])
    show "mpf_obj_pre i ?s' \<and> mpf_obj_settled i ?s'"
      using mpf_okD(3,4) [OF ok ex] ti(2)
      unfolding mpf_obj_pre_def mpf_obj_settled_def Let_def ti(1) mpf_frame gcb_change_priority_frame by blast
    show "same_waits ?s' s k j" if "j \<noteq> i" "k \<in> {OMpf}" for j k
    proof -
      have "t \<notin> set (que s (WaitQ OMpf j))"
        using t that que_okD [OF kinv_xD(2) [OF k], of t "WaitQ OMpf j" "WaitQ OMpf i"] by auto
      then show ?thesis using that by (simp add: same_waits_def gcb_change_priority_que gcb_change_priority_frame)
    qed
  qed (use ex in \<open>simp_all add: mpf_exists_def\<close>)
  then show ?thesis by (simp add: mpf_chg_pri_def w)
qed

lemma mpf_ok_set_wercd: "mpf_ok s \<Longrightarrow> mpf_ok (set_wercd t e s)"
  by (rule mpfo.same [of s]) (simp_all add: mpf_okD same_waits_def)

lemma mpf_no_rel_hook:
  assumes ok: "mpf_ok s" and t: "t \<in> set (que s (WaitQ OMpf i))"
  shows "rel_wai_hook (wspec (tcbs s t)) = None"
proof -
  have "mpf_exists i s" using mpfo.waits_exists [OF mpf_okD(2) [OF ok] t] by (simp add: mpf_exists_def)
  then show ?thesis using mpf_okD(3) [OF ok] t by (simp add: mpf_obj_pre_def Let_def)
qed

lemma mpf_wait_release_ng_ok:
  assumes ok: "mpf_ok s" and t: "t \<in> set (que s (WaitQ OMpf i))"
  shows "mpf_ok (wait_release_ng rel_hook t e s)"
proof -
  have w: "in_wait (tstate (tcbs s t))" using kinv_xD(5) [OF mpf_okD(1) [OF ok] t] by simp
  show ?thesis
    using mpfo.release_ok [OF ok w] mpf_no_rel_hook [OF ok t]
    by (simp add: wait_release_ng_def Let_def mpf_ok_set_wercd)
qed

lemma mpf_wait_release_tmout_ok:
  assumes ok: "mpf_ok s" and t: "t \<in> set (que s (WaitQ OMpf i))"
  shows "mpf_ok (wait_release_tmout rel_hook t s)"
proof -
  have w: "in_wait (tstate (tcbs s t))" using kinv_xD(5) [OF mpf_okD(1) [OF ok] t] by simp
  show ?thesis
    using mpfo.timeout_ok [OF ok w] mpf_no_rel_hook [OF ok t]
    by (simp add: wait_release_tmout_def Let_def)
qed

inductive mpf_sys_step :: "'a mpf_st_scheme \<Rightarrow> 'a mpf_st_scheme \<Rightarrow> bool" where
  cre: "in_ddsp s \<or> executing (me s) s \<Longrightarrow> mpf_size_fits pk \<Longrightarrow>
     (\<And>i free. free_mpfcb s = i # free \<Longrightarrow> fst (LockOBJ OMpf i (s\<lparr>free_mpfcb := free\<rparr>))) \<Longrightarrow>
     mpf_sys_step s (snd (tk_cre_mpf iamalloc pk s))"
| del: "in_ddsp s \<or> executing (me s) s \<Longrightarrow> mpf_sys_step s (snd (tk_del_mpf i s))"
| get: "in_ddsp s \<or> executing (me s) s \<Longrightarrow> mpf_sys_step s (snd (tk_get_mpf i p tmout s))"
| get_u: "in_ddsp s \<or> executing (me s) s \<Longrightarrow> mpf_sys_step s (snd (tk_get_mpf_u i p tmout s))"
| rel: "in_ddsp s \<or> executing (me s) s \<Longrightarrow> mpf_returnable i blf s \<Longrightarrow>
     mpf_sys_step s (snd (tk_rel_mpf i blf s))"
| ref: "in_ddsp s \<or> executing (me s) s \<Longrightarrow> mpf_sys_step s (snd (tk_ref_mpf i s))"
| release: "t \<in> set (que s (WaitQ OMpf i)) \<Longrightarrow> mpf_sys_step s (wait_release_ng rel_hook t e s)"
| timeout: "t \<in> set (que s (WaitQ OMpf i)) \<Longrightarrow> mpf_sys_step s (wait_release_tmout rel_hook t s)"
| chg_pri: "t \<in> set (que s (WaitQ OMpf i)) \<Longrightarrow> mpf_sys_step s (mpf_chg_pri t old s)"
| dispatch: "mpf_sys_step s (s\<lparr>ctxtsk := schedtsk s\<rparr>)"

lemma mpf_ok_dispatch: "mpf_ok s \<Longrightarrow> mpf_ok (s\<lparr>ctxtsk := t\<rparr>)"
  by (rule mpfo.same [of s]) (simp_all add: mpf_okD same_waits_def)

lemma mpf_sys_step_ok: "mpf_sys_step s s' \<Longrightarrow> mpf_ok s \<Longrightarrow> mpf_ok s'"
  by (induction rule: mpf_sys_step.induct)
    (auto simp: tk_cre_mpf_ok tk_del_mpf_ok tk_get_mpf_def tk_get_mpf_u_ok tk_rel_mpf_ok tk_ref_mpf_ok
      mpf_wait_release_ng_ok mpf_wait_release_tmout_ok mpf_chg_pri_ok mpf_ok_dispatch)

lemma mpf_sys_steps_ok: "mpf_sys_step\<^sup>*\<^sup>* s s' \<Longrightarrow> mpf_ok s \<Longrightarrow> mpf_ok s'"
  by (induction rule: rtranclp_induct) (auto intro: mpf_sys_step_ok)

section \<open>What the calls return\<close>

lemma is_diswai_klocked:
  "tcbs s' u = (tcbs s u)\<lparr>klocked := b\<rparr> \<Longrightarrow> is_diswai atr u w s' = is_diswai atr u w s"
  by (simp add: is_diswai_def)

text \<open>A caller that gets a block gets one that no task has; the others stay with their tasks.\<close>

lemma tk_get_mpf_u_gets:
  fixes s :: "'a mpf_st_scheme" and p :: addr
  assumes ok: "mpf_ok s" and ex: "mpf_exists i s" and t: "executing t s" "\<not> in_ddsp s" "chk_tmout tmout"
    and l: "fst (LockOBJ OMpf i s)" and d: "\<not> is_diswai (mpfatr (mpfcb_table s i)) t TTW_MPF s"
    and f: "0 < frbcnt (mpfcb_table s i)"
  defines "s' \<equiv> snd (tk_get_mpf_u i p tmout s)"
  shows "fst (tk_get_mpf_u i p tmout s) = Ret E_OK"
    "mem_ptr s' p \<notin> mpf_out (mpfcb_table s i)"
    "mpf_out (mpfcb_table s' i) = insert (mem_ptr s' p) (mpf_out (mpfcb_table s i))"
    "j \<noteq> i \<Longrightarrow> mpfcb_table s' j = mpfcb_table s j"
proof -
  let ?s1 = "snd (LockOBJ OMpf i s)"
  note g = LockOBJ_got [OF l t(1)]
  have d1: "\<not> is_diswai (mpfatr (mpfcb_table ?s1 i)) (me ?s1) TTW_MPF ?s1"
    unfolding executingD(5) [OF g(4)] is_diswai_klocked [OF g(3)] using d by simp
  have e: "tk_get_mpf_u i p tmout s = (Ret E_OK, UnlockOBJ OMpf i (mpf_take i p ?s1))"
    using ex t d1 f by (simp add: tk_get_mpf_u_def mpf_exists_def with_lock_got [OF l] get_mpf_body_def Let_def)
  have "mpf_blocks_ok (mpfcb_table s i)" using mpf_okD(3) [OF ok ex] by (simp add: mpf_obj_pre_def Let_def)
  then have "mpf_blocks_ok (mpfcb_table ?s1 i)" "0 < frbcnt (mpfcb_table ?s1 i)" using f by simp_all
  note tk = mpf_take_spec [OF this, of p]
  show "fst (tk_get_mpf_u i p tmout s) = Ret E_OK" by (simp add: e)
  show "mem_ptr s' p \<notin> mpf_out (mpfcb_table s i)"
    "mpf_out (mpfcb_table s' i) = insert (mem_ptr s' p) (mpf_out (mpfcb_table s i))"
    using tk by (simp_all add: s'_def e)
  show "j \<noteq> i \<Longrightarrow> mpfcb_table s' j = mpfcb_table s j" by (simp add: s'_def e)
qed

text \<open>A size that overflows: a pool of 65537 blocks of 65536 bytes gets 65536 bytes.\<close>

lemma mpf_size_overflow:
  "MINSZ 65536 = 65536"
  "sint (word_of_int (MINSZ 65536) * word_of_int 65537 :: 32 word) = 65536"
proof -
  show m: "MINSZ 65536 = 65536" by (subst MINSZ_eq) simp_all
  show "sint (word_of_int (MINSZ 65536) * word_of_int 65537 :: 32 word) = 65536"
    unfolding m by (simp add: sint_uint)
qed

text \<open>A block that is returned twice is free twice.\<close>

lemma mpf_double_return: "\<not> mpf_blocks_ok (mpf_put b (mpf_put b c))"
  by (simp add: mpf_blocks_ok_def mpf_put_def)
end
