(* ===== verification/Mpl_Area.thy ===== *)
theory Mpl_Area
  imports Prelude
begin

text \<open>
  The allocator of the variable-size memory pools (\<open>mempool.c\<close>): the queue \<open>areaque\<close> of all
  areas in address order, the queue \<open>freeque\<close> of the free ones by size, and the operations
  \<open>searchFreeArea\<close>, \<open>appendFreeArea\<close>, \<open>removeFreeQue\<close>, \<open>get_blk\<close>, \<open>rel_blk\<close>, \<open>init_mempool\<close>.

  An area is the address of its header (a \<open>QUEUE\<close> of 8 bytes) with the flag \<open>AREA_USE\<close> that the
  code keeps in bit 0 of \<open>prev\<close>; the block handed out starts 8 bytes later. \<open>areaque\<close> is the list
  of the areas with the end marker last; the queue head, flagged \<open>AREA_USE\<close> by \<open>init_mempool\<close>,
  is the end of the list on both sides. \<open>freeque\<close> is the list of the groups of equal
  size: the head of a group is linked by size order (\<open>aq + 1\<close>), the others hang in its
  same-size queue (\<open>aq + 2\<close>).
\<close>

section \<open>State\<close>

definition MPL_ROUNDSZ :: int where "MPL_ROUNDSZ = 8"
definition MIN_FRAGMENT :: int where "MIN_FRAGMENT = 16"
definition MAX_ALLOCATE :: int where "MAX_ALLOCATE = 0x7FFFFFF8"

definition roundSize :: "int \<Rightarrow> int" where
  "roundSize sz =
     (let sz1 = (if sz < MIN_FRAGMENT then MIN_FRAGMENT else sz)
      in sint ((word_of_int sz1 + word_of_int (MPL_ROUNDSZ - 1)) AND NOT (word_of_int (MPL_ROUNDSZ - 1)) :: 32 word))"

record mpool =
  areaque :: "(addr \<times> bool) list"
  freeque :: "addr list list"
  mplsz :: int

text \<open>\<open>AreaSize(aq)\<close> and \<open>FreeSize(aq + 1)\<close>: from behind the header to the next header.\<close>

fun area_gap :: "addr list \<Rightarrow> addr \<Rightarrow> int" where
  "area_gap (x # y # ys) a = (if x = a then int y - int (x + 8) else area_gap (y # ys) a)"
| "area_gap _ a = 0"

definition AreaSize :: "mpool \<Rightarrow> addr \<Rightarrow> int" where
  "AreaSize p a = area_gap (map fst (areaque p)) a"

definition MaxFreeSize :: "mpool \<Rightarrow> int" where
  "MaxFreeSize p = (if freeque p = [] then 0 else AreaSize p (hd (last (freeque p))))"

section \<open>Operations\<close>

text \<open>\<open>searchFreeArea\<close>: the result is the position of a group in \<open>freeque\<close>, and the
  length of \<open>freeque\<close> stands for \<open>&mplcb->freeque\<close>.\<close>

fun search_smaller :: "(addr \<Rightarrow> int) \<Rightarrow> int \<Rightarrow> addr list list \<Rightarrow> nat" where
  "search_smaller fs blksz [] = 0"
| "search_smaller fs blksz (g # gs) =
     (if fs (hd g) \<ge> blksz then 0 else Suc (search_smaller fs blksz gs))"

fun search_larger :: "(addr \<Rightarrow> int) \<Rightarrow> int \<Rightarrow> addr list list \<Rightarrow> nat \<Rightarrow> int \<Rightarrow> nat" where
  "search_larger fs blksz gs 0 fsz = (if fsz \<ge> blksz then 0 else length gs)"
| "search_larger fs blksz gs (Suc i) fsz =
     (let f = fs (hd (gs ! i))
      in if f \<le> blksz then (if f < blksz then Suc i else i)
         else search_larger fs blksz gs i f)"

definition searchFreeArea :: "mpool \<Rightarrow> int \<Rightarrow> nat" where
  "searchFreeArea p blksz =
     (if blksz > mplsz p div 4
      then search_larger (AreaSize p) blksz (freeque p) (length (freeque p)) 0
      else search_smaller (AreaSize p) blksz (freeque p))"

definition set_area_flag :: "addr \<Rightarrow> bool \<Rightarrow> mpool \<Rightarrow> mpool" where
  "set_area_flag a u p = p\<lparr>areaque := map (\<lambda>x. if fst x = a then (a, u) else x) (areaque p)\<rparr>"

definition appendFreeArea :: "addr \<Rightarrow> mpool \<Rightarrow> mpool" where
  "appendFreeArea a p =
     (let i = searchFreeArea p (AreaSize p a);
          gs = freeque p;
          p1 = set_area_flag a False p
      in if i < length gs \<and> AreaSize p (hd (gs ! i)) = AreaSize p a
         then p1\<lparr>freeque := gs[i := gs ! i @ [a]]\<rparr>
         else p1\<lparr>freeque := List.take i gs @ [a] # drop i gs\<rparr>)"

text \<open>\<open>removeFreeQue\<close>: when the head of a group goes, its first follower takes its place.\<close>

fun remove_group :: "addr \<Rightarrow> addr list list \<Rightarrow> addr list list" where
  "remove_group a [] = []"
| "remove_group a (g # gs) =
     (if a \<in> set g
      then (case g of
              [b] \<Rightarrow> gs
            | b # c # cs \<Rightarrow> (if a = b then (c # cs) # gs else (b # remove1 a (c # cs)) # gs)
            | [] \<Rightarrow> gs)
      else g # remove_group a gs)"

definition removeFreeQue :: "addr \<Rightarrow> mpool \<Rightarrow> mpool" where
  "removeFreeQue a p = p\<lparr>freeque := remove_group a (freeque p)\<rparr>"

fun insert_area :: "addr \<Rightarrow> addr \<Rightarrow> (addr \<times> bool) list \<Rightarrow> (addr \<times> bool) list" where
  "insert_area que ent [] = []"
| "insert_area que ent (x # xs) =
     (if fst x = que then x # (ent, False) # xs else x # insert_area que ent xs)"

definition insertAreaQue :: "addr \<Rightarrow> addr \<Rightarrow> mpool \<Rightarrow> mpool" where
  "insertAreaQue que ent p = p\<lparr>areaque := insert_area que ent (areaque p)\<rparr>"

definition removeAreaQue :: "addr \<Rightarrow> mpool \<Rightarrow> mpool" where
  "removeAreaQue a p = p\<lparr>areaque := filter (\<lambda>x. fst x \<noteq> a) (areaque p)\<rparr>"

definition get_blk :: "int \<Rightarrow> mpool \<Rightarrow> addr option \<times> mpool" where
  "get_blk blksz p =
     (let i = searchFreeArea p blksz
      in if i = length (freeque p) then (None, p)
         else
           (let aq = hd (freeque p ! i);
                p1 = removeFreeQue aq p;
                p2 = (if AreaSize p1 aq - blksz \<ge> MIN_FRAGMENT + 8
                      then (let q = aq + 8 + nat blksz in appendFreeArea q (insertAreaQue aq q p1))
                      else p1)
            in (Some (aq + 8), set_area_flag aq True p2)))"

fun next_area :: "(addr \<times> bool) list \<Rightarrow> addr \<Rightarrow> (addr \<times> bool) option" where
  "next_area (x # y # ys) a = (if fst x = a then Some y else next_area (y # ys) a)"
| "next_area _ a = None"

fun prev_area :: "(addr \<times> bool) list \<Rightarrow> addr \<Rightarrow> (addr \<times> bool) option" where
  "prev_area (x # y # ys) a = (if fst y = a then Some x else prev_area (y # ys) a)"
| "prev_area _ a = None"

definition merge_next :: "addr \<Rightarrow> mpool \<Rightarrow> mpool" where
  "merge_next a p =
     (case next_area (areaque p) a of
        Some (n, False) \<Rightarrow> removeAreaQue n (removeFreeQue n p)
      | _ \<Rightarrow> p)"

definition merge_prev :: "addr \<Rightarrow> mpool \<Rightarrow> addr \<times> mpool" where
  "merge_prev a p =
     (case prev_area (areaque p) a of
        Some (b, False) \<Rightarrow> (b, removeAreaQue a (removeFreeQue b p))
      | _ \<Rightarrow> (a, p))"

text \<open>\<open>rel_blk\<close> on the address of a block. The code reads the flag in front of whatever address it
  is given: for an address that is no block of the pool the result is \<open>None\<close> (the
  code's behaviour then depends on the bytes found there).\<close>

definition rel_blk :: "addr \<Rightarrow> mpool \<Rightarrow> (ER \<times> mpool) option" where
  "rel_blk blk p =
     (if blk < 8 \<or> next_area (areaque p) (blk - 8) = None then None
      else if map_of (areaque p) (blk - 8) = Some False then Some (E_PAR, p)
      else
        (let aq = blk - 8;
             p1 = merge_next aq (set_area_flag aq False p);
             (aq2, p2) = merge_prev aq p1
         in Some (E_OK, appendFreeArea aq2 p2)))"

definition init_mempool :: "addr \<Rightarrow> int \<Rightarrow> int \<Rightarrow> mpool" where
  "init_mempool mempool mempsz msz =
     appendFreeArea mempool
       \<lparr>areaque = [(mempool, False), (mempool + nat mempsz - 8, True)], freeque = [], mplsz = msz\<rparr>"

text \<open>The sum \<open>tk_ref_mpl\<close> reports.\<close>

definition free_total :: "mpool \<Rightarrow> int" where
  "free_total p = (\<Sum>g\<leftarrow>freeque p. (\<Sum>a\<leftarrow>g. AreaSize p (hd g)))"

section \<open>Invariants\<close>

definition areas_wf :: "(addr \<times> bool) list \<Rightarrow> bool" where
  "areas_wf as \<longleftrightarrow> successively (\<lambda>x y. fst x + 24 \<le> fst y \<and> 8 dvd (fst y - fst x)) as"

definition coalesced :: "(addr \<times> bool) list \<Rightarrow> bool" where
  "coalesced as \<longleftrightarrow> successively (\<lambda>x y. snd x \<or> snd y) as"

definition same_sz :: "(addr \<Rightarrow> int) \<Rightarrow> addr list \<Rightarrow> bool" where
  "same_sz fs g \<longleftrightarrow> (\<forall>a \<in> set g. fs a = fs (hd g))"

definition groups_ok :: "(addr \<Rightarrow> int) \<Rightarrow> addr set \<Rightarrow> addr list list \<Rightarrow> bool" where
  "groups_ok fs F gs \<longleftrightarrow>
     distinct (concat gs) \<and> set (concat gs) = F \<and> [] \<notin> set gs \<and>
     (\<forall>g \<in> set gs. same_sz fs g) \<and> sorted_wrt (<) (map (\<lambda>g. fs (hd g)) gs)"

lemma same_szD: "same_sz fs g \<Longrightarrow> a \<in> set g \<Longrightarrow> fs a = fs (hd g)"
  by (auto simp: same_sz_def)

definition free_areas :: "(addr \<times> bool) list \<Rightarrow> addr set" where
  "free_areas as = {a. (a, False) \<in> set as}"

definition mpool_inv :: "mpool \<Rightarrow> bool" where
  "mpool_inv p \<longleftrightarrow>
     2 \<le> length (areaque p) \<and> areas_wf (areaque p) \<and> coalesced (areaque p) \<and> snd (last (areaque p)) \<and>
     groups_ok (AreaSize p) (free_areas (areaque p)) (freeque p) \<and>
     int (fst (last (areaque p))) = int (fst (hd (areaque p))) + mplsz p + 8"

section \<open>Sizes\<close>

lemma roundSize:
  assumes "0 < n" and "n \<le> MAX_ALLOCATE"
  shows "roundSize n = (max n 16 + 7) div 8 * 8" and "16 \<le> roundSize n" and "8 dvd roundSize n"
    and "n \<le> roundSize n" and "roundSize n \<le> MAX_ALLOCATE"
proof -
  let ?m = "max n 16"
  have m: "?m + 7 < 2 ^ 31" "16 \<le> ?m" "n \<le> ?m" "?m \<le> 0x7FFFFFF8" using assms by (auto simp: MAX_ALLOCATE_def)
  have r: "roundSize n = sint ((word_of_int (?m + 7) :: 32 word) AND NOT (mask 3))"
    by (simp add: roundSize_def MIN_FRAGMENT_def MPL_ROUNDSZ_def Let_def mask_eq_exp_minus_1 max_def)
  have u: "uint ((word_of_int (?m + 7) :: 32 word) AND NOT (mask 3)) = (?m + 7) div 2 ^ 3 * 2 ^ 3"
    using m by (intro uint_and_not_mask32) simp_all
  have "(?m + 7) div 2 ^ 3 * 2 ^ 3 \<le> ?m + 7" by (simp add: minus_mod_eq_div_mult [symmetric])
  then have "(?m + 7) div 2 ^ 3 * 2 ^ 3 < 2 ^ 31" using m(1) by linarith
  then have "sint ((word_of_int (?m + 7) :: 32 word) AND NOT (mask 3)) = (?m + 7) div 2 ^ 3 * 2 ^ 3"
    using u by (subst sint_small32) simp_all
  then show rs: "roundSize n = (max n 16 + 7) div 8 * 8" using r by simp
  show "16 \<le> roundSize n" "n \<le> roundSize n" unfolding rs using m(2,3) by linarith+
  show "8 dvd roundSize n" unfolding rs by simp
  show "roundSize n \<le> MAX_ALLOCATE" unfolding rs using m(4) by (simp add: MAX_ALLOCATE_def)
qed

section \<open>Search\<close>

lemma search_smaller_takeWhile:
  "search_smaller fs sz gs = length (takeWhile (\<lambda>g. fs (hd g) < sz) gs)"
  by (induction gs) auto

lemma search_larger_takeWhile:
  assumes "sorted_wrt (<) (map (\<lambda>g. fs (hd g)) gs)" and "i \<le> length gs" and "0 < sz"
    and "\<forall>j < length gs. i \<le> j \<longrightarrow> fs (hd (gs ! j)) > sz"
    and "fsz = (if i < length gs then fs (hd (gs ! i)) else 0)"
  shows "search_larger fs sz gs i fsz = length (takeWhile (\<lambda>g. fs (hd g) < sz) gs)"
  using assms
proof (induction i arbitrary: fsz)
  case 0
  show ?case
  proof (cases gs)
    case Nil
    then show ?thesis using 0 by simp
  next
    case (Cons g r)
    then have "fs (hd g) > sz" using "0.prems"(4) by force
    then show ?thesis using 0 Cons by simp
  qed
next
  case (Suc i)
  let ?f = "fs (hd (gs ! i))"
  have below: "fs (hd (gs ! j)) < ?f" if "j < i" for j
    using Suc.prems(1,2) that by (auto simp: sorted_wrt_iff_nth_less)
  have idx: "length (takeWhile (\<lambda>g. fs (hd g) < sz) gs) = k"
    if "k \<le> length gs" "\<forall>j < k. fs (hd (gs ! j)) < sz" "k < length gs \<Longrightarrow> \<not> fs (hd (gs ! k)) < sz" for k
  proof -
    have "takeWhile (\<lambda>g. fs (hd g) < sz) gs = List.take k gs"
    proof (cases "k < length gs")
      case True
      then show ?thesis using that by (intro takeWhile_eq_take_P_nth) auto
    next
      case False
      then show ?thesis using that by (auto simp: takeWhile_eq_all_conv in_set_conv_nth)
    qed
    then show ?thesis using that by simp
  qed
  show ?case
  proof (cases "?f \<le> sz")
    case True
    show ?thesis
    proof (cases "?f < sz")
      case lt: True
      have "length (takeWhile (\<lambda>g. fs (hd g) < sz) gs) = Suc i"
      proof (rule idx)
        show "\<forall>j < Suc i. fs (hd (gs ! j)) < sz" using below lt less_Suc_eq by fastforce
        show "Suc i < length gs \<Longrightarrow> \<not> fs (hd (gs ! Suc i)) < sz" using Suc.prems(4) by force
      qed (use Suc.prems in simp)
      then show ?thesis using True lt by (simp add: Let_def)
    next
      case False
      have "length (takeWhile (\<lambda>g. fs (hd g) < sz) gs) = i"
      proof (rule idx)
        show "\<forall>j < i. fs (hd (gs ! j)) < sz" using below True by fastforce
      qed (use Suc.prems False in auto)
      then show ?thesis using True False by (simp add: Let_def)
    qed
  next
    case False
    have "search_larger fs sz gs i ?f = length (takeWhile (\<lambda>g. fs (hd g) < sz) gs)"
    proof (rule Suc.IH)
      show "\<forall>j < length gs. i \<le> j \<longrightarrow> fs (hd (gs ! j)) > sz"
        using Suc.prems(4) False by (metis not_less le_neq_implies_less less_eq_Suc_le)
    qed (use Suc.prems in auto)
    then show ?thesis using False by (simp add: Let_def)
  qed
qed

lemma searchFreeArea_takeWhile:
  assumes "groups_ok (AreaSize p) F (freeque p)" and "0 < sz"
  shows "searchFreeArea p sz = length (takeWhile (\<lambda>g. AreaSize p (hd g) < sz) (freeque p))"
  using assms unfolding searchFreeArea_def groups_ok_def
  by (auto simp: search_smaller_takeWhile intro!: search_larger_takeWhile)

section \<open>The groups of free areas\<close>

lemma groups_ok_cong:
  "groups_ok fs F gs \<Longrightarrow> (\<And>a. a \<in> F \<Longrightarrow> fs' a = fs a) \<Longrightarrow> groups_ok fs' F gs"
proof -
  assume ok: "groups_ok fs F gs" and eq: "\<And>a. a \<in> F \<Longrightarrow> fs' a = fs a"
  have mem: "a \<in> F" if "g \<in> set gs" "a \<in> set g" for g a
    using ok that unfolding groups_ok_def by auto
  have hd_mem: "hd g \<in> F" if "g \<in> set gs" for g
    using ok that mem hd_in_set unfolding groups_ok_def by metis
  have m: "map (\<lambda>g. fs' (hd g)) gs = map (\<lambda>g. fs (hd g)) gs"
    using hd_mem eq by simp
  have "\<forall>g \<in> set gs. same_sz fs' g"
    using ok mem hd_mem eq unfolding groups_ok_def same_sz_def by metis
  then show ?thesis
    using ok unfolding groups_ok_def m by blast
qed

lemma remove_group_cases:
  assumes "a \<in> set g" and "[] \<notin> set (g # gs)"
  shows "remove_group a (g # gs) = (if g = [a] then gs else remove1 a g # gs)"
  using assms by (auto split: list.splits)

lemma remove1_not_Nil: "a \<in> set g \<Longrightarrow> g \<noteq> [a] \<Longrightarrow> remove1 a g \<noteq> []"
  by (cases g) auto

lemma remove_group_id: "a \<notin> set (concat gs) \<Longrightarrow> remove_group a gs = gs"
  by (induction gs) auto

lemma set_remove_group:
  assumes "distinct (concat gs)" and "[] \<notin> set gs"
  shows "set (concat (remove_group a gs)) = set (concat gs) - {a} \<and> distinct (concat (remove_group a gs))
    \<and> [] \<notin> set (remove_group a gs)"
  using assms
proof (induction gs)
  case Nil
  then show ?case by simp
next
  case (Cons g gs)
  show ?case
  proof (cases "a \<in> set g")
    case True
    have "remove1 a g \<noteq> []" if "g \<noteq> [a]"
      by (rule remove1_not_Nil [OF True that])
    then show ?thesis
      unfolding remove_group_cases [OF True Cons.prems(2)] using Cons.prems True by auto
  next
    case False
    then show ?thesis using Cons by auto
  qed
qed

lemma remove_group_groups:
  assumes "groups_ok fs F gs"
  shows "(\<forall>g \<in> set (remove_group a gs). \<exists>h \<in> set gs. set g \<subseteq> set h)
    \<and> sorted_wrt (<) (map (\<lambda>g. fs (hd g)) (remove_group a gs))"
  using assms
proof (induction gs arbitrary: F)
  case Nil
  then show ?case by simp
next
  case (Cons g gs)
  have ok: "groups_ok fs (F - set g) gs"
    using Cons.prems unfolding groups_ok_def by auto
  note IH = Cons.IH [OF ok]
  show ?case
  proof (cases "a \<in> set g")
    case True
    have rem: "remove_group a (g # gs) = (if g = [a] then gs else remove1 a g # gs)"
      using Cons.prems True by (intro remove_group_cases) (auto simp: groups_ok_def)
    show ?thesis
    proof (cases "g = [a]")
      case one: True
      then have "remove_group a (g # gs) = gs" using rem by simp
      moreover have "\<forall>h \<in> set gs. \<exists>k \<in> set (g # gs). set h \<subseteq> set k" by auto
      moreover have "sorted_wrt (<) (map (\<lambda>g. fs (hd g)) gs)" using ok unfolding groups_ok_def by simp
      ultimately show ?thesis by (simp only: simp_thms)
    next
      case False
      have ne: "remove1 a g \<noteq> []"
        by (rule remove1_not_Nil [OF True False])
      have "hd (remove1 a g) \<in> set g" by (rule subsetD [OF set_remove1_subset hd_in_set [OF ne]])
      then have eq: "fs (hd (remove1 a g)) = fs (hd g)"
        using Cons.prems same_szD unfolding groups_ok_def by (metis list.set_intros(1))
      have r: "remove_group a (g # gs) = remove1 a g # gs" using rem False by simp
      have sub: "\<forall>h \<in> set (remove1 a g # gs). \<exists>k \<in> set (g # gs). set h \<subseteq> set k"
        using set_remove1_subset [of a g] by (metis list.set_intros set_ConsD subset_refl)
      show ?thesis unfolding r using Cons.prems sub eq unfolding groups_ok_def by simp
    qed
  next
    case False
    then have r: "remove_group a (g # gs) = g # remove_group a gs" by simp
    have lt: "fs (hd g) < fs (hd h)" if h: "h \<in> set (remove_group a gs)" for h
    proof -
      obtain k where k: "k \<in> set gs" "set h \<subseteq> set k" using IH h by blast
      have "[] \<notin> set (remove_group a gs)"
        using set_remove_group [of gs a] ok unfolding groups_ok_def by blast
      then have "hd h \<in> set k" using h k hd_in_set by (metis subsetD)
      then have "fs (hd h) = fs (hd k)" using ok k same_szD unfolding groups_ok_def by blast
      then show ?thesis using Cons.prems k unfolding groups_ok_def by auto
    qed
    have "\<forall>h \<in> set (g # remove_group a gs). \<exists>k \<in> set (g # gs). set h \<subseteq> set k"
      using IH by auto
    then show ?thesis unfolding r using IH lt by simp
  qed
qed

lemma remove_group_ok:
  assumes "groups_ok fs F gs"
  shows "groups_ok fs (F - {a}) (remove_group a gs)"
proof -
  let ?r = "remove_group a gs"
  have base: "distinct (concat ?r)" "set (concat ?r) = F - {a}" "[] \<notin> set ?r"
    using set_remove_group [of gs a] assms unfolding groups_ok_def by auto
  have "fs b = fs (hd g)" if g: "g \<in> set ?r" "b \<in> set g" for g b
  proof -
    obtain h where h: "h \<in> set gs" "set g \<subseteq> set h" using remove_group_groups [OF assms] g by blast
    have "hd g \<in> set g" using base g hd_in_set by metis
    then show ?thesis using assms h g same_szD unfolding groups_ok_def by (metis subsetD)
  qed
  then show ?thesis using base remove_group_groups [OF assms] unfolding groups_ok_def same_sz_def by blast
qed

text \<open>Where a new area goes: into the group of its size, or between the smaller and the larger.\<close>

definition add_group :: "(addr \<Rightarrow> int) \<Rightarrow> addr \<Rightarrow> addr list list \<Rightarrow> addr list list" where
  "add_group fs a gs =
     (let i = length (takeWhile (\<lambda>g. fs (hd g) < fs a) gs)
      in if i < length gs \<and> fs (hd (gs ! i)) = fs a then gs[i := gs ! i @ [a]]
         else List.take i gs @ [a] # drop i gs)"

lemma add_group_Cons:
  "add_group fs a (g # gs) =
     (if fs (hd g) < fs a then g # add_group fs a gs
      else if fs (hd g) = fs a then (g @ [a]) # gs else [a] # g # gs)"
  by (auto simp: add_group_def Let_def)

lemma add_group_Nil: "add_group fs a [] = [[a]]"
  by (simp add: add_group_def)

lemma set_add_group:
  "set (concat (add_group fs a gs)) = insert a (set (concat gs))"
  "distinct (concat gs) \<Longrightarrow> a \<notin> set (concat gs) \<Longrightarrow> distinct (concat (add_group fs a gs))"
  "[] \<notin> set gs \<Longrightarrow> [] \<notin> set (add_group fs a gs)"
  by (induction gs) (auto simp: add_group_Nil add_group_Cons)

lemma add_group_ok:
  assumes "groups_ok fs F gs" and "a \<notin> F"
  shows "groups_ok fs (insert a F) (add_group fs a gs)"
proof -
  have base: "distinct (concat (add_group fs a gs))" "set (concat (add_group fs a gs)) = insert a F"
    "[] \<notin> set (add_group fs a gs)"
    using assms set_add_group(1) [of fs a gs] set_add_group(2,3) [of gs] unfolding groups_ok_def by auto
  have sizes: "(\<forall>g \<in> set (add_group fs a gs). same_sz fs g)
    \<and> sorted_wrt (<) (map (\<lambda>g. fs (hd g)) (add_group fs a gs))
    \<and> (\<forall>g \<in> set (add_group fs a gs). fs (hd g) = fs a \<or> (\<exists>h \<in> set gs. fs (hd g) = fs (hd h)))"
    if "[] \<notin> set gs" "\<forall>g \<in> set gs. same_sz fs g" "sorted_wrt (<) (map (\<lambda>g. fs (hd g)) gs)" for gs
    using that
  proof (induction gs)
    case Nil
    then show ?case by (simp add: add_group_Nil same_sz_def)
  next
    case (Cons g gs)
    show ?case
    proof (cases "fs (hd g) < fs a")
      case True
      have r: "add_group fs a (g # gs) = g # add_group fs a gs" using True by (simp add: add_group_Cons)
      have IH: "\<forall>g \<in> set (add_group fs a gs). same_sz fs g"
        "sorted_wrt (<) (map (\<lambda>g. fs (hd g)) (add_group fs a gs))"
        and hds: "\<forall>g \<in> set (add_group fs a gs). fs (hd g) = fs a \<or> (\<exists>h \<in> set gs. fs (hd g) = fs (hd h))"
        using Cons by auto
      have "fs (hd g) < fs (hd h)" if h: "h \<in> set (add_group fs a gs)" for h
      proof -
        from hds h consider "fs (hd h) = fs a" | k where "k \<in> set gs" "fs (hd h) = fs (hd k)" by blast
        then show ?thesis using True Cons.prems(3) by cases auto
      qed
      moreover have "\<forall>h \<in> set (g # add_group fs a gs). fs (hd h) = fs a \<or> (\<exists>k \<in> set (g # gs). fs (hd h) = fs (hd k))"
        using hds by auto
      ultimately show ?thesis unfolding r using IH Cons.prems by simp
    next
      case False
      have "g \<noteq> []" "same_sz fs g" using Cons.prems by auto
      then have "fs (hd g) = fs a \<Longrightarrow> same_sz fs (g @ [a])" by (simp add: same_sz_def)
      then show ?thesis
        using Cons.prems False \<open>g \<noteq> []\<close> \<open>same_sz fs g\<close>
        by (cases "fs (hd g) = fs a") (auto simp: add_group_Cons same_sz_def [of fs "[a]"])
    qed
  qed
  show ?thesis
    using base sizes [of gs] assms unfolding groups_ok_def by blast
qed

lemma appendFreeArea_eq:
  assumes "groups_ok (AreaSize p) F (freeque p)" and "0 < AreaSize p a"
  shows "appendFreeArea a p = (set_area_flag a False p)\<lparr>freeque := add_group (AreaSize p) a (freeque p)\<rparr>"
  unfolding appendFreeArea_def add_group_def Let_def searchFreeArea_takeWhile [OF assms] by simp

section \<open>The areas in address order\<close>

lemma area_gap_notin: "a \<notin> set xs \<Longrightarrow> area_gap xs a = 0"
  by (induction xs a rule: area_gap.induct) auto

lemma area_gap_append:
  "area_gap (xs @ y # ys) c = (if c \<in> set xs then area_gap (xs @ [y]) c else area_gap (y # ys) c)"
proof (induction xs)
  case Nil
  then show ?case by simp
next
  case (Cons x xs)
  then show ?case by (cases xs) auto
qed

lemma area_gap_here: "a \<notin> set xs \<Longrightarrow> area_gap (xs @ a # b # ys) a = int b - int (a + 8)"
  unfolding area_gap_append [of xs a "b # ys"] by simp

lemma area_gap_skip:
  "c \<noteq> a \<Longrightarrow> c \<noteq> b \<Longrightarrow> area_gap (xs @ a # b # ys) c = area_gap (xs @ a # ys) c"
  unfolding area_gap_append [of xs a "b # ys"] area_gap_append [of xs a ys] by (cases ys) simp_all

lemma areas_wf_sorted:
  "areas_wf as \<longleftrightarrow> sorted_wrt (\<lambda>x y. fst x + 24 \<le> fst y \<and> 8 dvd (fst y - fst x)) as"
  unfolding areas_wf_def
proof (rule successively_conv_sorted_wrt)
  show "transp (\<lambda>x y :: addr \<times> bool. fst x + 24 \<le> fst y \<and> 8 dvd (fst y - fst x))"
  proof (intro transpI conjI)
    fix x y z :: "addr \<times> bool"
    assume "fst x + 24 \<le> fst y \<and> 8 dvd (fst y - fst x)" "fst y + 24 \<le> fst z \<and> 8 dvd (fst z - fst y)"
    note h = this
    show "fst x + 24 \<le> fst z" using h by linarith
    have "fst z - fst x = (fst z - fst y) + (fst y - fst x)" using h by linarith
    then show "8 dvd (fst z - fst x)" using h by (simp only: dvd_add)
  qed
qed

lemma areas_wf_distinct: "areas_wf as \<Longrightarrow> distinct (map fst as)"
  unfolding areas_wf_sorted
proof (induction as)
  case (Cons x as)
  then have "fst x < fst y" if "y \<in> set as" for y using that by auto
  then have "fst x \<notin> set (map fst as)" by (metis imageE less_irrefl set_map)
  then show ?case using Cons by simp
qed simp

lemma areas_wf_append:
  "areas_wf (xs @ ys) \<longleftrightarrow> areas_wf xs \<and> areas_wf ys \<and>
     (xs = [] \<or> ys = [] \<or> fst (last xs) + 24 \<le> fst (hd ys) \<and> 8 dvd (fst (hd ys) - fst (last xs)))"
  unfolding areas_wf_def by (simp add: successively_append_iff)

lemma areas_wf_Cons:
  "areas_wf (x # ys) \<longleftrightarrow> ys = [] \<or> fst x + 24 \<le> fst (hd ys) \<and> 8 dvd (fst (hd ys) - fst x) \<and> areas_wf ys"
  unfolding areas_wf_def by (auto simp: successively_Cons)

lemma coalesced_append:
  "coalesced (xs @ ys) \<longleftrightarrow> coalesced xs \<and> coalesced ys \<and> (xs = [] \<or> ys = [] \<or> snd (last xs) \<or> snd (hd ys))"
  unfolding coalesced_def by (simp add: successively_append_iff)

lemma coalesced_Cons:
  "coalesced (x # ys) \<longleftrightarrow> ys = [] \<or> (snd x \<or> snd (hd ys)) \<and> coalesced ys"
  unfolding coalesced_def by (auto simp: successively_Cons)

text \<open>The queue operations on a queue that is split at the area they work on.\<close>

lemma map_flag_other: "a \<notin> fst ` set as \<Longrightarrow> map (\<lambda>x. if fst x = a then (a, u) else x) as = as"
  by (induction as) auto

lemma set_area_flag_split:
  assumes "areaque p = pre @ (a, v) # post" and "a \<notin> fst ` set pre" and "a \<notin> fst ` set post"
  shows "set_area_flag a u p = p\<lparr>areaque := pre @ (a, u) # post\<rparr>"
  using assms by (simp add: set_area_flag_def map_flag_other)

lemma insert_area_split:
  "a \<notin> fst ` set pre \<Longrightarrow> insert_area a e (pre @ (a, u) # post) = pre @ (a, u) # (e, False) # post"
  by (induction pre) auto

lemma filter_area_split:
  "a \<notin> fst ` set pre \<Longrightarrow> a \<notin> fst ` set post \<Longrightarrow> filter (\<lambda>x. fst x \<noteq> a) (pre @ (a, u) # post) = pre @ post"
proof -
  assume "a \<notin> fst ` set pre" "a \<notin> fst ` set post"
  then have "filter (\<lambda>x. fst x \<noteq> a) pre = pre" "filter (\<lambda>x. fst x \<noteq> a) post = post"
    by (auto simp: filter_id_conv)
  then show ?thesis by simp
qed

lemma next_area_split:
  "a \<notin> fst ` set pre \<Longrightarrow> next_area (pre @ (a, u) # y # post) a = Some y"
proof (induction pre)
  case (Cons x pre)
  then show ?case by (cases pre) auto
qed simp

lemma next_area_SomeD:
  "next_area as a = Some y \<Longrightarrow> \<exists>pre u post. as = pre @ (a, u) # y # post \<and> a \<notin> fst ` set pre"
proof (induction as a rule: next_area.induct)
  case (1 x y' ys a)
  show ?case
  proof (cases "fst x = a")
    case True
    then have "x # y' # ys = [] @ (a, snd x) # y # ys" using 1 by auto
    then show ?thesis by fastforce
  next
    case False
    then obtain pre u post where "y' # ys = pre @ (a, u) # y # post" "a \<notin> fst ` set pre" using 1 by auto
    then have "x # y' # ys = (x # pre) @ (a, u) # y # post" "a \<notin> fst ` set (x # pre)" using False by auto
    then show ?thesis by blast
  qed
qed auto

lemma prev_area_split:
  assumes "a \<notin> fst ` set pre"
  shows "prev_area (pre @ (a, u) # post) a = (if pre = [] then prev_area ((a, u) # post) a else Some (last pre))"
  using assms
proof (induction pre)
  case (Cons x pre)
  then show ?case by (cases pre) auto
qed simp

lemma prev_area_notin: "a \<notin> fst ` set post \<Longrightarrow> prev_area ((a, u) # post) a = None"
proof -
  have "a \<notin> fst ` set post \<Longrightarrow> prev_area (x # post) a = None" for x
    by (induction post arbitrary: x) auto
  then show "a \<notin> fst ` set post \<Longrightarrow> prev_area ((a, u) # post) a = None" by blast
qed

lemma AreaSize_flag [simp]: "AreaSize (set_area_flag a u p) = AreaSize p"
proof -
  have "map fst (map (\<lambda>x. if fst x = a then (a, u) else x) as) = map fst as" for as
    by (induction as) auto
  then show ?thesis by (simp add: AreaSize_def set_area_flag_def fun_eq_iff del: map_map)
qed

lemma AreaSize_freeque [simp]: "AreaSize (p\<lparr>freeque := g\<rparr>) = AreaSize p"
  by (simp add: AreaSize_def fun_eq_iff)

lemma removeFreeQue_simps [simp]:
  "areaque (removeFreeQue a p) = areaque p" "AreaSize (removeFreeQue a p) = AreaSize p"
  "mplsz (removeFreeQue a p) = mplsz p" "freeque (removeFreeQue a p) = remove_group a (freeque p)"
  by (simp_all add: removeFreeQue_def)

lemma set_area_flag_simps [simp]:
  "mplsz (set_area_flag a u p) = mplsz p" "freeque (set_area_flag a u p) = freeque p"
  by (simp_all add: set_area_flag_def)

lemma free_areas_simps [simp]:
  "free_areas [] = {}" "free_areas ((a, False) # as) = insert a (free_areas as)"
  "free_areas ((a, True) # as) = free_areas as" "free_areas (xs @ ys) = free_areas xs \<union> free_areas ys"
  by (auto simp: free_areas_def)

lemma free_areas_notin: "a \<notin> fst ` set as \<Longrightarrow> a \<notin> free_areas as"
  by (force simp: free_areas_def)

lemma in_butlast_split: "x \<in> set (butlast xs) \<Longrightarrow> \<exists>pre y post. xs = pre @ x # y # post"
proof -
  assume "x \<in> set (butlast xs)"
  then obtain pre post where "butlast xs = pre @ x # post" by (auto dest: split_list)
  moreover have "xs \<noteq> []" using \<open>x \<in> set (butlast xs)\<close> by auto
  ultimately have "xs = pre @ x # post @ [last xs]" using append_butlast_last_id [of xs] by simp
  then show ?thesis by (cases post) auto
qed

text \<open>An area is at least a fragment, and its size is a multiple of the unit.\<close>

lemma AreaSize_pos:
  assumes "areas_wf (areaque p)" and "(a, u) \<in> set (butlast (areaque p))"
  shows "16 \<le> AreaSize p a" and "8 dvd AreaSize p a"
proof -
  obtain pre y ys where as: "areaque p = pre @ (a, u) # y # ys"
    using in_butlast_split [OF assms(2)] by blast
  have "a \<notin> set (map fst pre)" using areas_wf_distinct [OF assms(1)] as by auto
  then have sz: "AreaSize p a = int (fst y) - int (a + 8)"
    unfolding AreaSize_def as using area_gap_here [of a "map fst pre" "fst y" "map fst ys"] by simp
  have "a + 24 \<le> fst y" "8 dvd (fst y - a)"
    using assms(1) unfolding as areas_wf_append by (auto simp: areas_wf_Cons)
  then show "16 \<le> AreaSize p a" "8 dvd AreaSize p a" unfolding sz by presburger+
qed

section \<open>Allocation\<close>

lemma search_none:
  assumes ok: "groups_ok (AreaSize p) F (freeque p)" and "0 < sz"
    and "searchFreeArea p sz = length (freeque p)" and "a \<in> F"
  shows "AreaSize p a < sz"
proof -
  obtain g where g: "g \<in> set (freeque p)" "a \<in> set g"
    using ok assms(4) unfolding groups_ok_def by auto
  have "\<forall>h \<in> set (freeque p). AreaSize p (hd h) < sz"
    using assms(3) unfolding searchFreeArea_takeWhile [OF ok assms(2)]
    by (metis takeWhile_eq_all_conv append_Nil2 append_eq_conv_conj takeWhile_eq_take)
  moreover have "AreaSize p a = AreaSize p (hd g)"
    using ok g same_szD unfolding groups_ok_def by blast
  ultimately show ?thesis using g by simp
qed

lemma search_some:
  assumes ok: "groups_ok (AreaSize p) F (freeque p)" and "0 < sz"
    and ne: "searchFreeArea p sz \<noteq> length (freeque p)"
  defines "a \<equiv> hd (freeque p ! searchFreeArea p sz)"
  shows "a \<in> F" and "sz \<le> AreaSize p a" and "c \<in> F \<Longrightarrow> sz \<le> AreaSize p c \<Longrightarrow> AreaSize p a \<le> AreaSize p c"
proof -
  let ?gs = "freeque p" and ?i = "searchFreeArea p sz" and ?P = "\<lambda>g. AreaSize p (hd g) < sz"
  have i: "?i = length (takeWhile ?P ?gs)" by (rule searchFreeArea_takeWhile [OF ok assms(2)])
  have lt: "?i < length ?gs"
    using ne length_takeWhile_le [of ?P ?gs] unfolding i by simp
  have mem: "?gs ! ?i \<in> set ?gs" using lt by simp
  then have "?gs ! ?i \<noteq> []" using ok unfolding groups_ok_def by metis
  then have hd: "a \<in> set (?gs ! ?i)" unfolding a_def by simp
  show "a \<in> F" using ok mem hd unfolding groups_ok_def by auto
  show "sz \<le> AreaSize p a"
    using nth_length_takeWhile [of ?P ?gs] lt unfolding a_def i by simp
  assume c: "c \<in> F" "sz \<le> AreaSize p c"
  then obtain g where g: "g \<in> set ?gs" "c \<in> set g" using ok unfolding groups_ok_def by auto
  have cg: "AreaSize p c = AreaSize p (hd g)" using ok g same_szD unfolding groups_ok_def by blast
  obtain j where j: "j < length ?gs" "g = ?gs ! j" using g by (auto simp: in_set_conv_nth)
  have "\<not> j < ?i"
  proof
    assume "j < ?i"
    then have "?P (takeWhile ?P ?gs ! j)" unfolding i by (metis nth_mem set_takeWhileD)
    then show False using \<open>j < ?i\<close> c cg j unfolding i by (simp add: takeWhile_nth)
  qed
  then have "?i = j \<or> ?i < j" by linarith
  then show "AreaSize p a \<le> AreaSize p c"
  proof
    assume "?i < j"
    then have "AreaSize p (hd (?gs ! ?i)) < AreaSize p (hd (?gs ! j))"
      using ok j unfolding groups_ok_def by (auto simp: sorted_wrt_iff_nth_less)
    then show ?thesis using cg j unfolding a_def by simp
  qed (use cg j in \<open>simp add: a_def\<close>)
qed

text \<open>The invariant, at an area of the queue.\<close>

lemma free_area_split:
  assumes inv: "mpool_inv p" and a: "a \<in> free_areas (areaque p)"
  obtains pre n post where "areaque p = pre @ (a, False) # (n, True) # post"
proof -
  obtain pre post where sp: "areaque p = pre @ (a, False) # post"
    using a unfolding free_areas_def by (auto dest: split_list)
  have "post \<noteq> []" using inv unfolding mpool_inv_def sp by auto
  then obtain n nu post' where "post = (n, nu) # post'" by (cases post) auto
  moreover have nu using inv unfolding mpool_inv_def sp calculation coalesced_append
    by (auto simp: coalesced_Cons)
  ultimately show thesis using that sp by simp
qed

lemma AreaSize_split:
  assumes "areas_wf (areaque p)" and "areaque p = pre @ (a, u) # (n, v) # post"
  shows "AreaSize p a = int n - int (a + 8)"
proof -
  have "a \<notin> set (map fst pre)" using areas_wf_distinct [OF assms(1)] assms(2) by auto
  then show ?thesis
    unfolding AreaSize_def assms(2) using area_gap_here [of a "map fst pre" n "map fst post"] by simp
qed

lemma AreaSize_skip:
  assumes "areaque p = pre @ (a, u) # (b, v) # post" and "areaque q = pre @ (a, w) # post"
    and "c \<noteq> a" and "c \<noteq> b"
  shows "AreaSize p c = AreaSize q c"
  unfolding AreaSize_def assms(1,2) using area_gap_skip [OF assms(3,4)] by simp

text \<open>Taking a free area without splitting it.\<close>

lemma take_whole_ok:
  assumes inv: "mpool_inv p" and as: "areaque p = pre @ (a, False) # (n, True) # post"
  defines "q \<equiv> set_area_flag a True (removeFreeQue a p)"
  shows "areaque q = pre @ (a, True) # (n, True) # post" and "mpool_inv q" and "mplsz q = mplsz p"
proof -
  have wf: "areas_wf (areaque p)" and ok: "groups_ok (AreaSize p) (free_areas (areaque p)) (freeque p)"
    using inv unfolding mpool_inv_def by auto
  have dis: "distinct (map fst (pre @ (a, False) # (n, True) # post))"
    using areas_wf_distinct [OF wf] unfolding as .
  then have nin: "a \<notin> fst ` set pre" "a \<notin> fst ` set ((n, True) # post)" by auto
  show q: "areaque q = pre @ (a, True) # (n, True) # post"
    unfolding q_def using set_area_flag_split [of "removeFreeQue a p"] nin as by simp
  have "a \<notin> free_areas pre" "a \<notin> free_areas post"
    using nin by (auto intro!: free_areas_notin simp del: image_iff)
  then have "free_areas (areaque q) = free_areas (areaque p) - {a}"
    unfolding q as by auto
  moreover have "groups_ok (AreaSize q) (free_areas (areaque p) - {a}) (freeque q)"
    using remove_group_ok [OF ok] unfolding q_def by simp
  moreover have "areas_wf (areaque q)" "coalesced (areaque q)"
    using inv unfolding mpool_inv_def q as
    by (auto simp: areas_wf_append areas_wf_Cons coalesced_append coalesced_Cons)
  moreover have "fst (hd (areaque q)) = fst (hd (areaque p))" unfolding q as by (cases pre) auto
  moreover show "mplsz q = mplsz p" unfolding q_def by simp
  ultimately show "mpool_inv q"
    using inv unfolding mpool_inv_def q as by auto
qed

lemma appendFreeArea_split:
  assumes wf: "areas_wf (areaque p)" and as: "areaque p = pre @ (a, u) # y # post"
    and ok: "groups_ok (AreaSize p) F (freeque p)" and "a \<notin> F"
  shows "areaque (appendFreeArea a p) = pre @ (a, False) # y # post"
    and "groups_ok (AreaSize p) (insert a F) (freeque (appendFreeArea a p))"
    and "AreaSize (appendFreeArea a p) = AreaSize p" and "mplsz (appendFreeArea a p) = mplsz p"
proof -
  have "(a, u) \<in> set (butlast (areaque p))" unfolding as by (simp add: butlast_append)
  then have pos: "0 < AreaSize p a" using AreaSize_pos(1) [OF wf] by fastforce
  note eq = appendFreeArea_eq [OF ok pos]
  have "a \<notin> fst ` set pre" "a \<notin> fst ` set (y # post)"
    using areas_wf_distinct [OF wf] unfolding as by auto
  then show "areaque (appendFreeArea a p) = pre @ (a, False) # y # post"
    unfolding eq using set_area_flag_split [OF as] by simp
  show "groups_ok (AreaSize p) (insert a F) (freeque (appendFreeArea a p))"
    unfolding eq using add_group_ok [OF ok assms(4)] by simp
  show "AreaSize (appendFreeArea a p) = AreaSize p" "mplsz (appendFreeArea a p) = mplsz p"
    unfolding eq by simp_all
qed

text \<open>Taking a free area and giving the rest of it back.\<close>

lemma take_split_ok:
  assumes inv: "mpool_inv p" and as: "areaque p = pre @ (a, False) # (n, True) # post"
    and sz: "16 \<le> sz" "8 dvd sz" "AreaSize p a - sz \<ge> 24"
  defines "b \<equiv> a + 8 + nat sz"
  defines "q \<equiv> set_area_flag a True (appendFreeArea b (insertAreaQue a b (removeFreeQue a p)))"
  shows "areaque q = pre @ (a, True) # (b, False) # (n, True) # post" and "mpool_inv q" and "mplsz q = mplsz p"
proof -
  let ?p1 = "removeFreeQue a p"
  let ?p2 = "insertAreaQue a b ?p1"
  let ?F = "free_areas (areaque p) - {a}"
  have wf: "areas_wf (areaque p)" and ok: "groups_ok (AreaSize p) (free_areas (areaque p)) (freeque p)"
    using inv unfolding mpool_inv_def by auto
  have dis: "distinct (map fst (pre @ (a, False) # (n, True) # post))"
    using areas_wf_distinct [OF wf] unfolding as .
  then have nin: "a \<notin> fst ` set pre" "a \<notin> fst ` set ((n, True) # post)" by auto
  have gap: "AreaSize p a = int n - int (a + 8)" by (rule AreaSize_split [OF wf as])
  have bn: "b + 24 \<le> n" "a + 24 \<le> b" using sz gap unfolding b_def by linarith+
  have "8 dvd (n - a)" using wf unfolding as by (auto simp: areas_wf_append areas_wf_Cons)
  moreover obtain k where k: "sz = 8 * k" using sz(2) by (auto elim: dvdE)
  then have "nat sz = 8 * nat k" by (simp add: nat_mult_distrib)
  then have ba: "8 dvd (b - a)" unfolding b_def by (simp add: add.assoc)
  ultimately have nb: "8 dvd (n - b)"
    using bn dvd_diff_nat [of 8 "n - a" "b - a"] by (simp add: diff_diff_right Nat.diff_diff_right)
  have as2: "areaque ?p2 = (pre @ [(a, False)]) @ (b, False) # (n, True) # post"
    using insert_area_split [OF nin(1)] as by (simp add: insertAreaQue_def)
  have wf2: "areas_wf (areaque ?p2)"
    using wf bn ba nb unfolding as as2 by (auto simp: areas_wf_append areas_wf_Cons)
  have bnin: "b \<notin> fst ` set (pre @ [(a, False)])" "b \<notin> fst ` set ((n, True) # post)"
    using areas_wf_distinct [OF wf2] unfolding as2 by auto
  then have bF: "b \<notin> ?F" using free_areas_notin unfolding as by auto
  have same: "AreaSize ?p2 c = AreaSize p c" if "c \<noteq> a" "c \<noteq> b" for c
    using AreaSize_skip [of ?p2 pre a False b False _ p False] that as as2 by simp
  have fq2: "freeque ?p2 = remove_group a (freeque p)" by (simp add: insertAreaQue_def)
  have ok2: "groups_ok (AreaSize ?p2) ?F (freeque ?p2)"
    unfolding fq2 using bF by (intro groups_ok_cong [OF remove_group_ok [OF ok]] same) auto
  note ap = appendFreeArea_split [OF wf2 as2 ok2 bF]
  have as3: "areaque (appendFreeArea b ?p2) = pre @ (a, False) # (b, False) # (n, True) # post"
    using ap(1) by simp
  have anin: "a \<notin> fst ` set ((b, False) # (n, True) # post)" using nin bn by auto
  show q: "areaque q = pre @ (a, True) # (b, False) # (n, True) # post"
    unfolding q_def using set_area_flag_split [OF as3 nin(1) anin] by simp
  have "a \<notin> free_areas pre" "a \<notin> free_areas post"
    using nin by (auto intro!: free_areas_notin simp del: image_iff)
  then have F: "free_areas (areaque q) = insert b ?F" unfolding q as by auto
  show msz: "mplsz q = mplsz p" unfolding q_def by (simp add: ap(4)) (simp add: insertAreaQue_def)
  have "groups_ok (AreaSize q) (free_areas (areaque q)) (freeque q)"
    unfolding F unfolding q_def using ap(2) by (simp add: ap(3))
  moreover have "areas_wf (areaque q)" "coalesced (areaque q)"
    using wf2 inv unfolding mpool_inv_def q as as2
    by (auto simp: areas_wf_append areas_wf_Cons coalesced_append coalesced_Cons)
  moreover have "fst (hd (areaque q)) = fst (hd (areaque p))" unfolding q as by (cases pre) auto
  ultimately show "mpool_inv q"
    using inv msz unfolding mpool_inv_def q as by auto
qed

text \<open>\<open>get_blk\<close>: nothing fits, or the smallest area that fits is taken, and what is left of it
  becomes a free area of its own when it is big enough.\<close>

lemma get_blk_cases:
  assumes inv: "mpool_inv p" and sz: "16 \<le> sz" "8 dvd sz"
  obtains (none) "get_blk sz p = (None, p)" and "\<forall>a \<in> free_areas (areaque p). AreaSize p a < sz"
  | (taken) pre a n post p' where "get_blk sz p = (Some (a + 8), p')"
      and "areaque p = pre @ (a, False) # (n, True) # post" and "sz \<le> AreaSize p a"
      and "\<forall>c \<in> free_areas (areaque p). sz \<le> AreaSize p c \<longrightarrow> AreaSize p a \<le> AreaSize p c"
      and "areaque p' = pre @ (a, True) # (if AreaSize p a - sz \<ge> 24 then [(a + 8 + nat sz, False)] else [])
             @ (n, True) # post"
      and "mpool_inv p'" and "mplsz p' = mplsz p"
proof (cases "searchFreeArea p sz = length (freeque p)")
  case True
  have ok: "groups_ok (AreaSize p) (free_areas (areaque p)) (freeque p)" using inv unfolding mpool_inv_def by auto
  have "get_blk sz p = (None, p)" using True by (simp add: get_blk_def)
  moreover have "\<forall>a \<in> free_areas (areaque p). AreaSize p a < sz" using search_none [OF ok _ True] sz by auto
  ultimately show thesis by (rule none)
next
  case False
  define a where "a = hd (freeque p ! searchFreeArea p sz)"
  have ok: "groups_ok (AreaSize p) (free_areas (areaque p)) (freeque p)" using inv unfolding mpool_inv_def by auto
  have "0 < sz" using sz by simp
  note found = search_some [OF ok this False, folded a_def]
  obtain pre n post where as: "areaque p = pre @ (a, False) # (n, True) # post"
    using free_area_split [OF inv found(1)] by blast
  have g: "get_blk sz p = (Some (a + 8), set_area_flag a True
      (if AreaSize p a - sz \<ge> 24
       then appendFreeArea (a + 8 + nat sz) (insertAreaQue a (a + 8 + nat sz) (removeFreeQue a p))
       else removeFreeQue a p))"
    using False by (simp add: get_blk_def Let_def a_def MIN_FRAGMENT_def)
  show thesis
  proof (cases "AreaSize p a - sz \<ge> 24")
    case True
    note t = take_split_ok [OF inv as sz True]
    show thesis
    proof (rule taken)
      show "get_blk sz p = (Some (a + 8), set_area_flag a True
          (appendFreeArea (a + 8 + nat sz) (insertAreaQue a (a + 8 + nat sz) (removeFreeQue a p))))"
        using g True by (simp only: if_True)
    qed (use True t as found in auto)
  next
    case False
    note t = take_whole_ok [OF inv as]
    show thesis
    proof (rule taken)
      show "get_blk sz p = (Some (a + 8), set_area_flag a True (removeFreeQue a p))"
        using g False by (simp only: if_False)
    qed (use False t as found in auto)
  qed
qed

section \<open>Release\<close>

text \<open>The state in the middle of \<open>rel_blk\<close>: the area \<open>a\<close> is marked free but in no group.\<close>

definition mid_inv :: "(addr \<times> bool) list \<Rightarrow> addr \<Rightarrow> (addr \<times> bool) list \<Rightarrow> mpool \<Rightarrow> bool" where
  "mid_inv pre a rest p \<longleftrightarrow>
     areaque p = pre @ (a, False) # rest \<and> rest \<noteq> [] \<and> areas_wf (areaque p) \<and>
     groups_ok (AreaSize p) (free_areas pre \<union> free_areas rest) (freeque p)"

lemma mid_inv_notin:
  assumes "mid_inv pre a rest p"
  shows "a \<notin> fst ` set pre" and "a \<notin> fst ` set rest" and "free_areas pre \<inter> fst ` set rest = {}"
    and "distinct (map fst pre)"
proof -
  have "distinct (map fst (pre @ (a, False) # rest))"
    using assms areas_wf_distinct unfolding mid_inv_def by metis
  then show "a \<notin> fst ` set pre" "a \<notin> fst ` set rest" "free_areas pre \<inter> fst ` set rest = {}"
    "distinct (map fst pre)"
    by (auto simp: free_areas_def) force
qed

lemma merge_next_used: "mid_inv pre a ((n, True) # post) p \<Longrightarrow> merge_next a p = p"
proof -
  assume mid: "mid_inv pre a ((n, True) # post) p"
  have "next_area (areaque p) a = Some (n, True)"
    using mid next_area_split [OF mid_inv_notin(1) [OF mid]] unfolding mid_inv_def by simp
  then show ?thesis by (simp add: merge_next_def)
qed

lemma merge_next_free:
  assumes mid: "mid_inv pre a ((n, False) # post) p" and "post \<noteq> []"
  shows "mid_inv pre a post (merge_next a p)" and "mplsz (merge_next a p) = mplsz p"
proof -
  note nin = mid_inv_notin [OF mid]
  have as: "areaque p = pre @ (a, False) # (n, False) # post" and wf: "areas_wf (areaque p)"
    and ok: "groups_ok (AreaSize p) (free_areas pre \<union> insert n (free_areas post)) (freeque p)"
    using mid unfolding mid_inv_def by auto
  have npost: "n \<notin> fst ` set pre" "n \<noteq> a" "n \<notin> fst ` set post"
    using areas_wf_distinct [OF wf] unfolding as by auto
  let ?q = "removeAreaQue n (removeFreeQue n p)"
  have q: "merge_next a p = ?q" unfolding merge_next_def as next_area_split [OF nin(1)] by simp
  have "n \<notin> fst ` set (pre @ [(a, False)])" using npost by auto
  then have as': "areaque ?q = pre @ (a, False) # post"
    using filter_area_split [of n "pre @ [(a, False)]" post False] npost as by (simp add: removeAreaQue_def)
  have fq: "freeque ?q = remove_group n (freeque p)" by (simp add: removeAreaQue_def)
  have "groups_ok (AreaSize p) (free_areas pre \<union> insert n (free_areas post) - {n}) (freeque ?q)"
    unfolding fq by (rule remove_group_ok [OF ok])
  moreover have "free_areas pre \<union> insert n (free_areas post) - {n} = free_areas pre \<union> free_areas post"
    using npost free_areas_notin by blast
  ultimately have ok1: "groups_ok (AreaSize p) (free_areas pre \<union> free_areas post) (freeque ?q)" by simp
  have "groups_ok (AreaSize ?q) (free_areas pre \<union> free_areas post) (freeque ?q)"
  proof (rule groups_ok_cong [OF ok1])
    fix c assume "c \<in> free_areas pre \<union> free_areas post"
    then have "c \<noteq> a" "c \<noteq> n" using nin(1,2) npost(1,3) free_areas_notin by auto
    then show "AreaSize ?q c = AreaSize p c" using AreaSize_skip [OF as as'] by simp
  qed
  moreover have "areas_wf (areaque ?q)"
    using wf \<open>post \<noteq> []\<close> unfolding as as' areas_wf_sorted by (auto simp: sorted_wrt_append)
  ultimately show "mid_inv pre a post (merge_next a p)"
    unfolding q mid_inv_def using as' \<open>post \<noteq> []\<close> by simp
  show "mplsz (merge_next a p) = mplsz p" unfolding q by (simp add: removeAreaQue_def)
qed

lemma merge_prev_used:
  assumes mid: "mid_inv pre a rest p" and "pre = [] \<or> snd (last pre)"
  shows "merge_prev a p = (a, p)"
proof -
  note nin = mid_inv_notin [OF mid]
  have "prev_area (areaque p) a = (if pre = [] then None else Some (last pre))"
    using mid prev_area_split [OF nin(1)] prev_area_notin [OF nin(2)] unfolding mid_inv_def by simp
  then show ?thesis using assms(2) by (cases "last pre") (auto simp: merge_prev_def)
qed

lemma merge_prev_free:
  assumes mid: "mid_inv (pre @ [(b, False)]) a rest p"
  shows "fst (merge_prev a p) = b" and "mid_inv pre b rest (snd (merge_prev a p))"
    and "mplsz (snd (merge_prev a p)) = mplsz p"
proof -
  note nin = mid_inv_notin [OF mid]
  have as: "areaque p = pre @ (b, False) # (a, False) # rest" and wf: "areas_wf (areaque p)" and rest: "rest \<noteq> []"
    and ok: "groups_ok (AreaSize p) (insert b (free_areas pre) \<union> free_areas rest) (freeque p)"
    using mid unfolding mid_inv_def by auto
  have bnin: "b \<notin> fst ` set pre" "b \<noteq> a" "b \<notin> fst ` set rest" "a \<notin> fst ` set pre"
    using areas_wf_distinct [OF wf] unfolding as by auto
  let ?q = "removeAreaQue a (removeFreeQue b p)"
  have "prev_area (areaque p) a = Some (b, False)"
    using prev_area_split [OF nin(1)] as by simp
  then have q: "merge_prev a p = (b, ?q)" by (simp add: merge_prev_def)
  then show "fst (merge_prev a p) = b" by simp
  have as': "areaque ?q = pre @ (b, False) # rest"
    using filter_area_split [OF nin(1,2), of False] as by (simp add: removeAreaQue_def)
  have fq: "freeque ?q = remove_group b (freeque p)" by (simp add: removeAreaQue_def)
  have "groups_ok (AreaSize p) (insert b (free_areas pre) \<union> free_areas rest - {b}) (freeque ?q)"
    unfolding fq by (rule remove_group_ok [OF ok])
  moreover have "insert b (free_areas pre) \<union> free_areas rest - {b} = free_areas pre \<union> free_areas rest"
    using bnin free_areas_notin by blast
  ultimately have ok1: "groups_ok (AreaSize p) (free_areas pre \<union> free_areas rest) (freeque ?q)" by simp
  have "groups_ok (AreaSize ?q) (free_areas pre \<union> free_areas rest) (freeque ?q)"
  proof (rule groups_ok_cong [OF ok1])
    fix c assume "c \<in> free_areas pre \<union> free_areas rest"
    then have "c \<noteq> a" "c \<noteq> b" using nin(2) bnin free_areas_notin by auto
    then show "AreaSize ?q c = AreaSize p c" using AreaSize_skip [OF as as'] by simp
  qed
  moreover have "areas_wf (areaque ?q)"
    using wf rest unfolding as as' areas_wf_sorted by (auto simp: sorted_wrt_append)
  ultimately show "mid_inv pre b rest (snd (merge_prev a p))"
    unfolding q mid_inv_def using as' rest by simp
  show "mplsz (snd (merge_prev a p)) = mplsz p" unfolding q by (simp add: removeAreaQue_def)
qed

lemma append_mid:
  assumes mid: "mid_inv pre a rest p"
    and flags: "coalesced pre" "coalesced rest" "pre = [] \<or> snd (last pre)" "snd (hd rest)" "snd (last rest)"
    and size: "int (fst (last rest)) = int (fst (hd (pre @ [(a, False)]))) + mplsz p + 8"
  shows "mpool_inv (appendFreeArea a p)" and "areaque (appendFreeArea a p) = pre @ (a, False) # rest"
    and "mplsz (appendFreeArea a p) = mplsz p"
proof -
  obtain y post where rest: "rest = y # post" using mid unfolding mid_inv_def by (cases rest) auto
  have as: "areaque p = pre @ (a, False) # y # post" and wf: "areas_wf (areaque p)"
    and ok: "groups_ok (AreaSize p) (free_areas pre \<union> free_areas rest) (freeque p)"
    using mid unfolding mid_inv_def rest by auto
  have "a \<notin> free_areas pre \<union> free_areas rest"
    using mid_inv_notin(1,2) [OF mid] free_areas_notin by blast
  note ap = appendFreeArea_split [OF wf as ok this]
  show as': "areaque (appendFreeArea a p) = pre @ (a, False) # rest" using ap(1) rest by simp
  show msz: "mplsz (appendFreeArea a p) = mplsz p" by (rule ap(4))
  have "groups_ok (AreaSize (appendFreeArea a p)) (free_areas (pre @ (a, False) # rest)) (freeque (appendFreeArea a p))"
    using ap(2,3) by simp
  moreover have "coalesced (pre @ (a, False) # rest)"
    using flags rest by (auto simp: coalesced_append coalesced_Cons)
  moreover have "areas_wf (pre @ (a, False) # rest)" using wf as rest by simp
  ultimately show "mpool_inv (appendFreeArea a p)"
    unfolding mpool_inv_def as' msz using flags(5) size rest by (auto simp: hd_append)
qed

text \<open>The areas before and behind a released one, after merging with the free neighbours.\<close>

definition left_part :: "(addr \<times> bool) list \<Rightarrow> (addr \<times> bool) list" where
  "left_part pre = (if pre \<noteq> [] \<and> \<not> snd (last pre) then butlast pre else pre)"

definition merged_start :: "(addr \<times> bool) list \<Rightarrow> addr \<Rightarrow> addr" where
  "merged_start pre a = (if pre \<noteq> [] \<and> \<not> snd (last pre) then fst (last pre) else a)"

definition right_part :: "(addr \<times> bool) list \<Rightarrow> (addr \<times> bool) list" where
  "right_part rest = (if snd (hd rest) then rest else tl rest)"

lemma coalesced_left_part:
  "coalesced pre \<Longrightarrow> coalesced (left_part pre) \<and> (left_part pre = [] \<or> snd (last (left_part pre)))"
  by (cases pre rule: rev_cases) (auto simp: left_part_def coalesced_append coalesced_Cons)

lemma coalesced_right_part:
  "coalesced rest \<Longrightarrow> rest \<noteq> [] \<Longrightarrow> snd (last rest) \<Longrightarrow>
     coalesced (right_part rest) \<and> right_part rest \<noteq> [] \<and> snd (hd (right_part rest))
     \<and> last (right_part rest) = last rest"
  by (cases rest) (auto simp: right_part_def coalesced_Cons)

lemma rel_blk_busy:
  assumes inv: "mpool_inv p" and as: "areaque p = pre @ (a, True) # rest" and rest: "rest \<noteq> []"
  obtains p' where "rel_blk (a + 8) p = Some (E_OK, p')" and "mpool_inv p'"
    and "areaque p' = left_part pre @ (merged_start pre a, False) # right_part rest" and "mplsz p' = mplsz p"
proof -
  have wf: "areas_wf (areaque p)" and co: "coalesced (areaque p)"
    and ok: "groups_ok (AreaSize p) (free_areas (areaque p)) (freeque p)"
    and lst: "snd (last rest)" and sz: "int (fst (last rest)) = int (fst (hd (areaque p))) + mplsz p + 8"
    using inv rest unfolding mpool_inv_def as by auto
  obtain n nu post where r: "rest = (n, nu) # post" using rest by (cases rest) auto
  have dis: "distinct (map fst (pre @ (a, True) # rest))" using areas_wf_distinct [OF wf] as by simp
  then have nin: "a \<notin> fst ` set pre" "a \<notin> fst ` set rest" by auto
  let ?p1 = "set_area_flag a False p"
  have p1: "areaque ?p1 = pre @ (a, False) # rest" using set_area_flag_split [OF as nin] by simp
  have mid1: "mid_inv pre a rest ?p1"
    unfolding mid_inv_def p1 using rest wf ok unfolding as by (simp add: areas_wf_append areas_wf_Cons)
  let ?p2 = "merge_next a ?p1"
  have cp: "coalesced pre" "coalesced rest" using co rest unfolding as by (auto simp: coalesced_append coalesced_Cons)
  have mid2: "mid_inv pre a (right_part rest) ?p2 \<and> mplsz ?p2 = mplsz p"
  proof (cases nu)
    case True
    then show ?thesis using mid1 merge_next_used [of pre a n post ?p1] unfolding r by (simp add: right_part_def)
  next
    case False
    have "post \<noteq> []" using lst False unfolding r by auto
    then show ?thesis
      using merge_next_free [of pre a n post ?p1] mid1 False unfolding r by (simp add: right_part_def)
  qed
  obtain a2 p3 where m: "merge_prev a ?p2 = (a2, p3)" by fastforce
  have mid3: "a2 = merged_start pre a \<and> mid_inv (left_part pre) a2 (right_part rest) p3 \<and> mplsz p3 = mplsz p"
  proof (cases "pre \<noteq> [] \<and> \<not> snd (last pre)")
    case True
    then obtain pre' b where pre: "pre = pre' @ [(b, False)]" by (cases pre rule: rev_cases) auto
    note f = merge_prev_free [of pre' b a "right_part rest" ?p2]
    show ?thesis using mid2 m f True pre by (simp add: left_part_def merged_start_def)
  next
    case False
    then show ?thesis using mid2 m merge_prev_used [of pre a "right_part rest" ?p2]
      by (auto simp: left_part_def merged_start_def)
  qed
  have "rel_blk (a + 8) p = Some (E_OK, appendFreeArea a2 p3)"
    using next_area_split [OF nin(1), of True "(n, nu)" post] m nin unfolding rel_blk_def as r
    by (simp add: Let_def map_of_append map_add_def dom_map_of_conv_image_fst split: option.splits)
       (metis domI dom_map_of_conv_image_fst option.inject)
  moreover have start: "fst (hd (left_part pre @ [(a2, False)])) = fst (hd (areaque p))"
    using mid3 unfolding as by (cases pre rule: rev_cases) (auto simp: left_part_def merged_start_def hd_append)
  note ap = append_mid [of "left_part pre" a2 "right_part rest" p3]
  have "mpool_inv (appendFreeArea a2 p3) \<and> areaque (appendFreeArea a2 p3) = left_part pre @ (a2, False) # right_part rest
      \<and> mplsz (appendFreeArea a2 p3) = mplsz p3"
    using ap mid3 coalesced_left_part [OF cp(1)] coalesced_right_part [OF cp(2) rest lst] start sz lst by auto
  ultimately show thesis using mid3 that by auto
qed

lemma rel_blk_free:
  assumes inv: "mpool_inv p" and "a \<in> free_areas (areaque p)"
  shows "rel_blk (a + 8) p = Some (E_PAR, p)"
proof -
  obtain pre n post where as: "areaque p = pre @ (a, False) # (n, True) # post"
    using free_area_split [OF assms] by blast
  have dis: "distinct (map fst (areaque p))" using inv areas_wf_distinct unfolding mpool_inv_def by blast
  have "map_of (areaque p) a = Some False" using dis as by (intro map_of_is_SomeI) auto
  moreover have "next_area (areaque p) a = Some (n, True)"
    unfolding as by (rule next_area_split) (use dis as in auto)
  ultimately show ?thesis by (simp add: rel_blk_def)
qed

section \<open>The pool as its clients see it\<close>

text \<open>The blocks handed out; the end marker is flagged like one but is no block.\<close>

definition busy_areas :: "(addr \<times> bool) list \<Rightarrow> addr set" where
  "busy_areas as = {a. (a, True) \<in> set (butlast as)}"

definition blocks :: "mpool \<Rightarrow> addr set" where
  "blocks p = (\<lambda>a. a + 8) ` busy_areas (areaque p)"

lemma busy_areas_mid: "rest \<noteq> [] \<Longrightarrow> busy_areas (pre @ x # rest) = {a. (a, True) \<in> set pre} \<union> {a. x = (a, True)} \<union> busy_areas rest"
  by (auto simp: busy_areas_def butlast_append)

lemma busy_areas_Cons: "rest \<noteq> [] \<Longrightarrow> busy_areas (x # rest) = {a. x = (a, True)} \<union> busy_areas rest"
  using busy_areas_mid [of rest "[]" x] by simp

lemma init_mempool_ok:
  assumes "16 \<le> msz" and "8 dvd msz"
  shows "mpool_inv (init_mempool base (msz + 16) msz)"
    and "areaque (init_mempool base (msz + 16) msz) = [(base, False), (base + nat msz + 8, True)]"
    and "mplsz (init_mempool base (msz + 16) msz) = msz"
proof -
  have e: "base + nat (msz + 16) - 8 = base + nat msz + 8" using assms by linarith
  obtain k where "msz = 8 * k" using assms(2) by (auto elim: dvdE)
  then have d: "8 dvd nat msz + 8" by (simp add: nat_mult_distrib)
  let ?p = "\<lparr>areaque = [(base, False), (base + nat msz + 8, True)], freeque = [], mplsz = msz\<rparr>"
  have "areas_wf (areaque ?p)" using assms d by (simp add: areas_wf_def)
  then have mid: "mid_inv [] base [(base + nat msz + 8, True)] ?p"
    by (simp add: mid_inv_def groups_ok_def)
  have "mpool_inv (appendFreeArea base ?p) \<and> areaque (appendFreeArea base ?p) = [(base, False), (base + nat msz + 8, True)]
      \<and> mplsz (appendFreeArea base ?p) = msz"
    using append_mid [OF mid] assms by (simp add: coalesced_def)
  then show "mpool_inv (init_mempool base (msz + 16) msz)"
    "areaque (init_mempool base (msz + 16) msz) = [(base, False), (base + nat msz + 8, True)]"
    "mplsz (init_mempool base (msz + 16) msz) = msz"
    unfolding init_mempool_def e by auto
qed

lemma get_blk_some_facts:
  assumes inv: "mpool_inv p" and sz: "16 \<le> sz" "8 dvd sz" and g: "get_blk sz p = (Some b, p')"
  shows "mpool_inv p' \<and> mplsz p' = mplsz p \<and> b \<notin> blocks p \<and> blocks p' = insert b (blocks p) \<and>
    sz \<le> AreaSize p' (b - 8) \<and> AreaSize p' (b - 8) < sz + 24 \<and> fst (hd (areaque p')) = fst (hd (areaque p)) \<and>
    (\<exists>p''. rel_blk b p' = Some (E_OK, p'') \<and> areaque p'' = areaque p)"
  using inv sz
proof (cases rule: get_blk_cases)
  case none
  then show ?thesis
    using g by simp
next
  case (taken pre a n post q)
  have q: "q = p'" "b = a + 8" using g taken(1) by auto
  let ?mid = "if AreaSize p a - sz \<ge> 24 then [(a + 8 + nat sz, False)] else []"
  have as': "areaque p' = pre @ (a, True) # ?mid @ (n, True) # post" using taken q by simp
  have wf: "areas_wf (areaque p)" and wf': "areas_wf (areaque p')" and co: "coalesced (areaque p)"
    using inv taken(6) q unfolding mpool_inv_def by auto
  have dis: "distinct (map fst (areaque p))" by (rule areas_wf_distinct [OF wf])
  have busy: "busy_areas (areaque p') = insert a (busy_areas (areaque p))"
    unfolding as' taken(2) by (auto simp: busy_areas_mid busy_areas_Cons)
  have "a \<notin> busy_areas (areaque p)"
    using dis taken(2) by (auto simp: busy_areas_def dest!: in_set_butlastD) force+
  then have nb: "b \<notin> blocks p" unfolding blocks_def q by auto
  have size: "AreaSize p' a = (if AreaSize p a - sz \<ge> 24 then sz else AreaSize p a)"
  proof (cases "AreaSize p a - sz \<ge> 24")
    case True
    then have "areaque p' = pre @ (a, True) # (a + 8 + nat sz, False) # (n, True) # post" using as' by simp
    then show ?thesis using AreaSize_split [OF wf'] True sz by simp
  next
    case False
    then have "areaque p' = pre @ (a, True) # (n, True) # post" using as' by simp
    then show ?thesis using AreaSize_split [OF wf'] AreaSize_split [OF wf taken(2)] False by simp
  qed
  have hd: "fst (hd (areaque p')) = fst (hd (areaque p))" unfolding as' taken(2) by (cases pre) auto
  have "pre = [] \<or> snd (last pre)" using co unfolding taken(2) coalesced_append by auto
  then have "left_part pre = pre" "merged_start pre a = a" by (auto simp: left_part_def merged_start_def)
  moreover have "right_part (?mid @ (n, True) # post) = (n, True) # post" by (simp add: right_part_def)
  moreover obtain p'' where "rel_blk (a + 8) p' = Some (E_OK, p'')"
    "areaque p'' = left_part pre @ (merged_start pre a, False) # right_part (?mid @ (n, True) # post)"
    using rel_blk_busy [OF _ as'] taken(6) q by auto
  ultimately have "\<exists>p''. rel_blk b p' = Some (E_OK, p'') \<and> areaque p'' = areaque p"
    using q taken(2) by auto
  then show ?thesis
    using taken q nb hd size busy by (auto simp: blocks_def)
qed

text \<open>\<open>get_blk\<close> succeeds exactly when the size is at most what \<open>MaxFreeSize\<close> reports, the test
  \<open>mpl_wakeup\<close> makes.\<close>

lemma MaxFreeSize_iff:
  assumes inv: "mpool_inv p" and sz: "16 \<le> sz"
  shows "sz \<le> MaxFreeSize p \<longleftrightarrow> (\<exists>a \<in> free_areas (areaque p). sz \<le> AreaSize p a)"
proof
  have ok: "groups_ok (AreaSize p) (free_areas (areaque p)) (freeque p)" using inv unfolding mpool_inv_def by auto
  {
    assume "sz \<le> MaxFreeSize p"
    then have m: "freeque p \<noteq> []" "sz \<le> AreaSize p (hd (last (freeque p)))"
      using sz unfolding MaxFreeSize_def by (auto split: if_splits)
    moreover have "hd (last (freeque p)) \<in> set (concat (freeque p))"
      using m ok unfolding groups_ok_def by (metis UN_I concat.simps hd_in_set last_in_set set_concat)
    ultimately show "\<exists>a \<in> free_areas (areaque p). sz \<le> AreaSize p a"
      using ok unfolding groups_ok_def by auto
  next
    assume "\<exists>a \<in> free_areas (areaque p). sz \<le> AreaSize p a"
    then obtain a where a: "a \<in> free_areas (areaque p)" "sz \<le> AreaSize p a" by blast
    then obtain g where g: "g \<in> set (freeque p)" "a \<in> set g" using ok unfolding groups_ok_def by auto
    have "AreaSize p a = AreaSize p (hd g)" using ok g same_szD unfolding groups_ok_def by blast
    moreover obtain i where i: "i < length (freeque p)" "g = freeque p ! i" using g by (auto simp: in_set_conv_nth)
    moreover have "AreaSize p (hd g) \<le> AreaSize p (hd (last (freeque p)))"
    proof (cases "Suc i = length (freeque p)")
      case True
      then have "last (freeque p) = g" using i by (metis diff_Suc_1 last_conv_nth length_0_conv not_less_zero)
      then show ?thesis by simp
    next
      case False
      then have "i < length (freeque p) - 1" using i by simp
      then have "AreaSize p (hd (freeque p ! i)) < AreaSize p (hd (freeque p ! (length (freeque p) - 1)))"
        using ok unfolding groups_ok_def by (auto simp: sorted_wrt_iff_nth_less)
      moreover have "freeque p \<noteq> []" using i by auto
      ultimately show ?thesis using i by (simp add: last_conv_nth)
    qed
    ultimately show "sz \<le> MaxFreeSize p" using a i unfolding MaxFreeSize_def by auto
  }
qed

lemma get_blk_iff_MaxFreeSize:
  assumes inv: "mpool_inv p" and sz: "16 \<le> sz" "8 dvd sz"
  shows "fst (get_blk sz p) \<noteq> None \<longleftrightarrow> sz \<le> MaxFreeSize p"
  using inv sz
proof (cases rule: get_blk_cases)
  case none
  then show ?thesis using MaxFreeSize_iff [OF inv sz(1)] by auto
next
  case (taken pre a n post p')
  then have "a \<in> free_areas (areaque p)" by simp
  then show ?thesis using MaxFreeSize_iff [OF inv sz(1)] taken by auto
qed

lemma rel_blk_block:
  assumes inv: "mpool_inv p" and b: "b \<in> blocks p"
  obtains p' where "rel_blk b p = Some (E_OK, p')" and "mpool_inv p'" and "mplsz p' = mplsz p"
    and "blocks p' = blocks p - {b}" and "fst (hd (areaque p')) = fst (hd (areaque p))"
proof -
  obtain a where a: "b = a + 8" "(a, True) \<in> set (butlast (areaque p))"
    using b unfolding blocks_def busy_areas_def by auto
  obtain pre y post where sp: "areaque p = pre @ (a, True) # y # post"
    using in_butlast_split [OF a(2)] by blast
  define rest where "rest = y # post"
  have as: "areaque p = pre @ (a, True) # rest" and rest: "rest \<noteq> []" unfolding rest_def using sp by simp_all
  have wf: "areas_wf (areaque p)" and co: "coalesced (areaque p)" and lst: "snd (last rest)"
    using inv rest unfolding mpool_inv_def as by auto
  obtain p' where p': "rel_blk (a + 8) p = Some (E_OK, p')" "mpool_inv p'" "mplsz p' = mplsz p"
    "areaque p' = left_part pre @ (merged_start pre a, False) # right_part rest"
    using rel_blk_busy [OF inv as rest] by blast
  have cr: "coalesced rest" using co rest unfolding as by (auto simp: coalesced_append coalesced_Cons)
  have rp: "coalesced (right_part rest)" "right_part rest \<noteq> []"
    using coalesced_right_part [OF cr rest lst] by simp_all
  have "distinct (map fst (pre @ (a, True) # rest))" using areas_wf_distinct [OF wf] as by simp
  then have nin: "a \<notin> fst ` set pre" "a \<notin> fst ` set rest" by auto
  have left: "{c. (c, True) \<in> set (left_part pre)} = {c. (c, True) \<in> set pre}"
    by (cases pre rule: rev_cases) (auto simp: left_part_def)
  have right: "busy_areas (right_part rest) = busy_areas rest"
    using lst by (cases rest) (auto simp: right_part_def busy_areas_def)
  have "busy_areas (areaque p') = busy_areas (areaque p) - {a}"
  proof -
    have "a \<notin> {c. (c, True) \<in> set pre}" using nin(1) by force
    moreover have "a \<notin> busy_areas rest" using nin(2) in_set_butlastD unfolding busy_areas_def by force
    ultimately show ?thesis
      unfolding p'(4) as busy_areas_mid [OF rest] busy_areas_mid [OF rp(2)] left right by blast
  qed
  then have "blocks p' = blocks p - {b}"
    unfolding blocks_def a(1) by (simp add: image_set_diff inj_def)
  moreover have "fst (hd (areaque p')) = fst (hd (areaque p))"
  proof (cases pre rule: rev_cases)
    case (snoc pre' x)
    then show ?thesis
      unfolding p'(4) as by (cases pre') (simp_all add: left_part_def merged_start_def)
  qed (simp add: p'(4) as left_part_def merged_start_def)
  ultimately show thesis using that [of p'] p'(1-3) a(1) by simp
qed

text \<open>Blocks lie inside the pool and do not overlap.\<close>

lemma areas_disjoint:
  assumes wf: "areas_wf (areaque p)" and "(a, u) \<in> set (butlast (areaque p))" and "(b, v) \<in> set (areaque p)"
    and "a < b"
  shows "int (a + 8) + AreaSize p a \<le> int b"
proof -
  obtain pre n nv ys where as: "areaque p = pre @ (a, u) # (n, nv) # ys"
    using in_butlast_split [OF assms(2)] by auto
  have "sorted_wrt (\<lambda>x y. fst x + 24 \<le> fst y \<and> 8 dvd (fst y - fst x)) (pre @ (a, u) # (n, nv) # ys)"
    using wf unfolding as areas_wf_sorted .
  then have lt: "\<forall>x \<in> set pre. fst x < a" "\<forall>x \<in> set ys. n < fst x" by (auto simp: sorted_wrt_append)
  have "(b, v) \<in> set pre \<or> b = a \<or> b = n \<or> (b, v) \<in> set ys" using assms(3) unfolding as by auto
  then have "n \<le> b" using lt assms(4) by force
  then show ?thesis using AreaSize_split [OF wf as] by simp
qed

lemma blocks_disjoint:
  assumes inv: "mpool_inv p" and "b \<in> blocks p" "c \<in> blocks p" "b < c"
  shows "int b + AreaSize p (b - 8) \<le> int (c - 8)"
proof -
  have "areas_wf (areaque p)" using inv unfolding mpool_inv_def by blast
  moreover obtain x y where "b = x + 8" "c = y + 8" "(x, True) \<in> set (butlast (areaque p))"
    "(y, True) \<in> set (butlast (areaque p))"
    using assms(2,3) unfolding blocks_def busy_areas_def by auto
  ultimately show ?thesis using areas_disjoint [of p x True y True] assms(4) by (auto dest: in_set_butlastD)
qed

lemma blocks_inside:
  assumes inv: "mpool_inv p" and "b \<in> blocks p"
  shows "fst (hd (areaque p)) + 8 \<le> b"
    and "int b + AreaSize p (b - 8) \<le> int (fst (hd (areaque p))) + mplsz p + 8"
proof -
  have wf: "areas_wf (areaque p)" and len: "2 \<le> length (areaque p)"
    and sz: "int (fst (last (areaque p))) = int (fst (hd (areaque p))) + mplsz p + 8"
    using inv unfolding mpool_inv_def by blast+
  obtain x where x: "b = x + 8" "(x, True) \<in> set (butlast (areaque p))"
    using assms(2) unfolding blocks_def busy_areas_def by auto
  obtain y ys where as: "areaque p = y # ys" using len by (cases "areaque p") auto
  have "fst y \<le> x" using wf x in_set_butlastD [OF x(2)] unfolding areas_wf_sorted as by fastforce
  then show "fst (hd (areaque p)) + 8 \<le> b" using x as by simp
  have ne: "areaque p \<noteq> []" using as by simp
  obtain pre z post where sp: "areaque p = pre @ (x, True) # z # post" using in_butlast_split [OF x(2)] by blast
  have "last (areaque p) \<in> set (z # post)" unfolding sp by simp
  then have "x < fst (last (areaque p))"
    using wf unfolding areas_wf_sorted sp by (auto simp: sorted_wrt_append)
  moreover have "(fst (last (areaque p)), snd (last (areaque p))) \<in> set (areaque p)" using ne by simp
  ultimately have "int (x + 8) + AreaSize p x \<le> int (fst (last (areaque p)))"
    using areas_disjoint [OF wf x(2)] by blast
  then show "int b + AreaSize p (b - 8) \<le> int (fst (hd (areaque p))) + mplsz p + 8" using x sz by simp
qed

text \<open>When no block is out, the pool is one free area again.\<close>

lemma no_blocks_whole:
  assumes inv: "mpool_inv p" and "blocks p = {}"
  obtains base where "areaque p = [(base, False), (base + nat (mplsz p) + 8, True)]" and "0 \<le> mplsz p"
proof -
  have len: "2 \<le> length (areaque p)" and co: "coalesced (areaque p)" and wf: "areas_wf (areaque p)"
    and lst: "snd (last (areaque p))"
    and sz: "int (fst (last (areaque p))) = int (fst (hd (areaque p))) + mplsz p + 8"
    using inv unfolding mpool_inv_def by auto
  obtain a u b v r where as: "areaque p = (a, u) # (b, v) # r"
    using len by (cases "areaque p" rule: remdups_adj.cases) auto
  have busy: "busy_areas (areaque p) = {}" using assms(2) unfolding blocks_def by simp
  have u: "\<not> u" using busy unfolding as busy_areas_def by auto
  then have v using co unfolding as coalesced_def by simp
  have "r = []"
  proof (rule ccontr)
    assume "r \<noteq> []"
    then show False using busy \<open>v\<close> unfolding as busy_areas_def by auto
  qed
  moreover have "a + 24 \<le> b" using wf unfolding as by (simp add: areas_wf_Cons)
  ultimately show thesis using that [of a] sz as u \<open>v\<close> by auto
qed

text \<open>The two directions of \<open>searchFreeArea\<close> find the same group: which one is used, by the
  quarter of the pool size, only matters for the time it takes.\<close>

lemma search_directions_agree:
  assumes "mpool_inv p" and "0 < sz"
  shows "search_larger (AreaSize p) sz (freeque p) (length (freeque p)) 0
    = search_smaller (AreaSize p) sz (freeque p)"
proof -
  have "sorted_wrt (<) (map (\<lambda>g. AreaSize p (hd g)) (freeque p))"
    using assms(1) unfolding mpool_inv_def groups_ok_def by blast
  then show ?thesis
    unfolding search_smaller_takeWhile using assms(2) by (intro search_larger_takeWhile) auto
qed

text \<open>What a client does with a pool: get blocks of any size the system call accepts, and release
  blocks it holds, in any order. \<open>B\<close> are the blocks it holds.\<close>

inductive pool_run :: "addr \<Rightarrow> int \<Rightarrow> mpool \<Rightarrow> addr set \<Rightarrow> bool" for base msz where
  pool_start: "\<lbrakk>0 < n; n \<le> MAX_ALLOCATE; msz = roundSize n\<rbrakk> \<Longrightarrow>
    pool_run base msz (init_mempool base (msz + 16) msz) {}"
| pool_get: "\<lbrakk>pool_run base msz p B; 0 < n; n \<le> MAX_ALLOCATE; get_blk (roundSize n) p = (Some b, p')\<rbrakk> \<Longrightarrow>
    pool_run base msz p' (insert b B)"
| pool_rel: "\<lbrakk>pool_run base msz p B; b \<in> B; rel_blk b p = Some (e, p')\<rbrakk> \<Longrightarrow>
    pool_run base msz p' (B - {b})"

lemma pool_run_inv:
  "pool_run base msz p B \<Longrightarrow>
     mpool_inv p \<and> mplsz p = msz \<and> fst (hd (areaque p)) = base \<and> blocks p = B"
proof (induction rule: pool_run.induct)
  case (pool_start n)
  note r = roundSize [OF pool_start(1,2)]
  have "16 \<le> msz" "8 dvd msz" using r pool_start(3) by simp_all
  note i = init_mempool_ok [OF this, of base]
  have "blocks (init_mempool base (msz + 16) msz) = {}"
    unfolding blocks_def busy_areas_def i(2) by simp
  then show ?case using i by simp
next
  case (pool_get p B n b p')
  note r = roundSize [OF pool_get.hyps(2,3)]
  show ?case using get_blk_some_facts [OF _ r(2,3) pool_get.hyps(4)] pool_get.IH by simp
next
  case (pool_rel p B b e p')
  then have "mpool_inv p" "b \<in> blocks p" by auto
  then obtain q where "rel_blk b p = Some (E_OK, q)" "mpool_inv q" "mplsz q = mplsz p" "blocks q = blocks p - {b}"
    "fst (hd (areaque q)) = fst (hd (areaque p))"
    by (rule rel_blk_block)
  then show ?case using pool_rel by simp
qed

lemma pool_run_rel_total: "pool_run base msz p B \<Longrightarrow> b \<in> B \<Longrightarrow> \<exists>p'. rel_blk b p = Some (E_OK, p')"
  using pool_run_inv rel_blk_block by metis

lemma pool_run_empty:
  assumes run: "pool_run base msz p {}"
  shows "areaque p = [(base, False), (base + nat msz + 8, True)]"
proof -
  have inv: "mpool_inv p" and "mplsz p = msz" "fst (hd (areaque p)) = base" "blocks p = {}"
    using pool_run_inv [OF run] by auto
  moreover obtain b where "areaque p = [(b, False), (b + nat (mplsz p) + 8, True)]" "0 \<le> mplsz p"
    using no_blocks_whole [OF inv \<open>blocks p = {}\<close>] by blast
  ultimately show ?thesis by simp
qed

lemma pool_example: "fst (get_blk (roundSize 20) (init_mempool 1000 80 64)) = Some 1008"
  by code_simp


text \<open>Taking a block makes no free area larger.\<close>

lemma get_blk_no_larger:
  assumes inv: "mpool_inv p" and sz: "16 \<le> sz" "8 dvd sz" and g: "get_blk sz p = (Some b, p')"
    and c: "c \<in> free_areas (areaque p')"
  shows "\<exists>d \<in> free_areas (areaque p). AreaSize p' c \<le> AreaSize p d"
  using inv sz
proof (cases rule: get_blk_cases)
  case none
  then show ?thesis using g by simp
next
  case (taken pre a n post q)
  have q: "q = p'" using g taken(1) by simp
  have wf: "areas_wf (areaque p)" "areas_wf (areaque p')"
    using inv taken(6) q by (auto simp: mpool_inv_def)
  have a: "a \<in> free_areas (areaque p)" using taken(2) by (simp add: free_areas_def)
  show ?thesis
  proof (cases "AreaSize p a - sz \<ge> 24")
    case True
    let ?r = "a + 8 + nat sz"
    have as': "areaque p' = pre @ (a, True) # (?r, False) # (n, True) # post" using taken(5) True q by simp
    have dis: "distinct (map fst (areaque p'))" by (rule areas_wf_distinct [OF wf(2)])
    show ?thesis
    proof (cases "c = ?r")
      case True
      have "AreaSize p' ?r = int n - int (?r + 8)"
        by (rule AreaSize_split [OF wf(2), of "pre @ [(a, True)]" ?r False n True post]) (simp add: as')
      moreover have "AreaSize p a = int n - int (a + 8)" by (rule AreaSize_split [OF wf(1) taken(2)])
      ultimately show ?thesis using True a sz by (intro bexI [of _ a]) simp_all
    next
      case False
      have "(a, True) \<in> set (areaque p')" unfolding as' by simp
      then have ca: "c \<noteq> a" using c eq_key_imp_eq_value [OF dis, of a True False] by (auto simp: free_areas_def)
      then have "c \<in> free_areas (areaque p)" using c False unfolding as' taken(2) free_areas_def by auto
      moreover have "AreaSize p' c = AreaSize p c" by (rule AreaSize_skip [OF as' taken(2) ca False])
      ultimately show ?thesis by auto
    qed
  next
    case False
    then have as': "areaque p' = pre @ (a, True) # (n, True) # post" using taken(5) q by simp
    then have "AreaSize p' = AreaSize p" unfolding AreaSize_def taken(2) by simp
    moreover have "c \<in> free_areas (areaque p)" using c unfolding as' taken(2) free_areas_def by auto
    ultimately show ?thesis by auto
  qed
qed

end
