(* ===== verification/Mempool.thy ===== *)
theory Mempool
  imports Mempfix Mpl_Area
begin

text \<open>
  Variable-size memory pools as kernel objects (\<open>mempool.c\<close>): the system calls around the allocator of
  \<open>Mpl_Area\<close>. A task whose block does not fit, or that is not the first, waits; whenever a block comes
  back, a waiting task leaves or priorities change, the tasks at the front of the queue get
  their blocks as long as they fit. \<open>mpl_ok\<close> is the invariant: the first waiting task never fits.
\<close>

section \<open>State and operations\<close>

record mplcb =
  mplid :: ID
  mpl_exinf :: addr
  mplatr :: ATR
  mpl_pool :: mpool
  mpl_name :: "UB list"

record mpl_st = mpf_st +
  mplcb_table :: "ID \<Rightarrow> mplcb"
  free_mplcb :: "ID list"
  max_mplid :: ID

record t_cmpl =
  cpl_exinf :: addr
  cpl_mplatr :: ATR
  cpl_mplsz :: int
  cpl_dsname :: "UB list"

record t_rmpl =
  rpl_exinf :: addr
  rpl_wtsk :: ID
  rpl_frsz :: int
  rpl_maxsz :: int

definition upd_mplcb :: "ID \<Rightarrow> (mplcb \<Rightarrow> mplcb) \<Rightarrow> 'a mpl_st_scheme \<Rightarrow> 'a mpl_st_scheme" where
  "upd_mplcb i f s = s\<lparr>mplcb_table := (mplcb_table s)(i := f (mplcb_table s i))\<rparr>"

definition memorypool_initialize :: "int \<times> int \<Rightarrow> bool \<Rightarrow> 'a mpl_st_scheme \<Rightarrow> ER \<times> 'a mpl_st_scheme" where
  "memorypool_initialize cfn malloc_ok s =
     (let s1 = s\<lparr>max_mplid := snd cfn\<rparr>
      in if fst cfn < 1 \<or> max_mplid s1 < 1 then (E_SYS, s1)
         else if \<not> malloc_ok then (E_NOMEM, s1)
         else (E_OK, fold (\<lambda>i s. (upd_mplcb i (\<lambda>c. c\<lparr>mplid := 0\<rparr>) s)\<lparr>free_mplcb := free_mplcb s @ [i]\<rparr>)
                       [1..max_mplid s1] (s1\<lparr>free_mplcb := []\<rparr>)))"

text \<open>What a pointer to a block is when there is no block.\<close>

definition blk_ptr :: "addr option \<Rightarrow> addr" where
  "blk_ptr b = (case b of None \<Rightarrow> NULL | Some a \<Rightarrow> a)"

text \<open>One pass of the loop of \<open>mpl_wakeup\<close>: the first waiting task gets its block.\<close>

definition mpl_grant :: "ID \<Rightarrow> ID \<Rightarrow> 'a mpl_st_scheme \<Rightarrow> 'a mpl_st_scheme" where
  "mpl_grant i hd_t s =
     (let w = winfo (tcbs s hd_t);
          (blk, pool) = get_blk (mpl_blksz w) (mpl_pool (mplcb_table s i));
          s1 = upd_mplcb i (\<lambda>c. c\<lparr>mpl_pool := pool\<rparr>) s
      in wait_release_ok hd_t (s1\<lparr>mem_ptr := (mem_ptr s1)(mpl_p_blk w := blk_ptr blk)\<rparr>))"

lemma mpl_grant_que_less:
  "que s (WaitQ OMpl i) = t # ts \<Longrightarrow> length (que (mpl_grant i t s) (WaitQ OMpl i)) \<le> length ts"
  by (auto simp: mpl_grant_def Let_def wait_release_ok_def set_wercd_def upd_mplcb_def
    intro!: wait_release_que_less split: prod.split)

function mpl_wakeup :: "ID \<Rightarrow> 'a mpl_st_scheme \<Rightarrow> 'a mpl_st_scheme" where
  "mpl_wakeup i s =
     (case que s (WaitQ OMpl i) of
        [] \<Rightarrow> s
      | hd_t # _ \<Rightarrow>
          if mpl_blksz (winfo (tcbs s hd_t)) > MaxFreeSize (mpl_pool (mplcb_table s i)) then s
          else mpl_wakeup i (mpl_grant i hd_t s))"
  by auto
termination
  by (relation "measure (\<lambda>(i, s). length (que s (WaitQ OMpl i)))") (auto simp: less_Suc_eq_le mpl_grant_que_less)

declare mpl_wakeup.simps [simp del]

definition mpl_chg_pri :: "ID \<Rightarrow> int \<Rightarrow> 'a mpl_st_scheme \<Rightarrow> 'a mpl_st_scheme" where
  "mpl_chg_pri t oldpri s =
     (let i = wid (tcbs s t);
          s1 = (if oldpri \<ge> 0 then gcb_change_priority (WaitQ OMpl i) t s else s)
      in mpl_wakeup i s1)"

definition mpl_rel_wai :: "ID \<Rightarrow> 'a mpl_st_scheme \<Rightarrow> 'a mpl_st_scheme" where
  "mpl_rel_wai t s = mpl_chg_pri t (-1) s"

definition wspec_mpl_tfifo :: wspec where
  "wspec_mpl_tfifo = \<lparr>tskwait = TTW_MPL, chg_pri_hook = None, rel_wai_hook = Some H_mpl_rel_wai\<rparr>"

definition wspec_mpl_tpri :: wspec where
  "wspec_mpl_tpri = \<lparr>tskwait = TTW_MPL, chg_pri_hook = Some H_mpl_chg_pri,
     rel_wai_hook = Some H_mpl_rel_wai\<rparr>"

definition VALID_MPLATR :: ATR where
  "VALID_MPLATR = TA_TPRI OR TA_RNG3 OR TA_NODISWAI OR TA_DSNAME"

text \<open>\<open>iamalloc\<close> is what \<open>IAmalloc\<close> returns for the size and the attribute.\<close>

definition tk_cre_mpl ::
  "(UINT \<Rightarrow> ATR \<Rightarrow> addr) \<Rightarrow> t_cmpl \<Rightarrow> 'a mpl_st_scheme \<Rightarrow> ER \<times> 'a mpl_st_scheme" where
  "tk_cre_mpl iamalloc pk s =
     (if \<not> chk_rsatr (cpl_mplatr pk) VALID_MPLATR then (E_RSATR, s)
      else if \<not> (cpl_mplsz pk > 0 \<and> cpl_mplsz pk \<le> MAX_ALLOCATE) then (E_PAR, s)
      else if in_ddsp s then (E_CTX, s)
      else
        (let sz = roundSize (cpl_mplsz pk);
             mem = iamalloc (word_of_int sz + 16) (cpl_mplatr pk)
         in if mem = NULL then (E_NOMEM, s)
            else (case free_mplcb s of
                    [] \<Rightarrow> (E_LIMIT, s)
                  | i # free \<Rightarrow>
                      let s1 = upd_mplcb i (\<lambda>c. c\<lparr>mplid := i, mpl_exinf := cpl_exinf pk,
                                 mplatr := cpl_mplatr pk\<rparr>) (s\<lparr>free_mplcb := free\<rparr>);
                          s2 = (if has (cpl_mplatr pk) TA_DSNAME
                                then upd_mplcb i (\<lambda>c. c\<lparr>mpl_name :=
                                       tkl_strncpy (cpl_dsname pk) OBJECT_NAME_LENGTH\<rparr>) s1
                                else s1);
                          pool = init_mempool mem (sint (word_of_int (sz + 16) :: 32 word)) sz
                      in (i, upd_mplcb i (\<lambda>c. c\<lparr>mpl_pool := pool\<rparr>) s2))))"

definition tk_del_mpl :: "ID \<Rightarrow> 'a mpl_st_scheme \<Rightarrow> ER \<times> 'a mpl_st_scheme" where
  "tk_del_mpl i s =
     (if \<not> chk_id (max_mplid s) i then (E_ID, s)
      else if in_ddsp s then (E_CTX, s)
      else if mplid (mplcb_table s i) = 0 then (E_NOEXS, s)
      else
        (let s1 = wait_delete OMpl i s;
             s2 = s1\<lparr>free_mplcb := free_mplcb s1 @ [i]\<rparr>
         in (E_OK, upd_mplcb i (\<lambda>c. c\<lparr>mplid := 0\<rparr>) s2)))"

text \<open>The first of the queue, and the pool has a block: \<open>blk\<close> of \<open>_tk_get_mpl_u\<close>.\<close>

definition mpl_try :: "ID \<Rightarrow> int \<Rightarrow> 'a mpl_st_scheme \<Rightarrow> addr option \<times> 'a mpl_st_scheme" where
  "mpl_try i sz s =
     (let cb = mplcb_table s i
      in if gcb_top_of_wait_queue (mplatr cb) (WaitQ OMpl i) (me s) s = me s
         then (case get_blk sz (mpl_pool cb) of
                 (blk, pool) \<Rightarrow> (blk, upd_mplcb i (\<lambda>c. c\<lparr>mpl_pool := pool\<rparr>) s))
         else (None, s))"

definition tk_get_mpl_u :: "ID \<Rightarrow> int \<Rightarrow> addr \<Rightarrow> int \<Rightarrow> 'a mpl_st_scheme \<Rightarrow> sysret \<times> 'a mpl_st_scheme" where
  "tk_get_mpl_u i blksz p_blk tmout s =
     (if \<not> chk_id (max_mplid s) i then (Ret E_ID, s)
      else if \<not> (blksz > 0 \<and> blksz \<le> MAX_ALLOCATE) then (Ret E_PAR, s)
      else if \<not> chk_tmout tmout then (Ret E_PAR, s)
      else if in_ddsp s then (Ret E_CTX, s)
      else
        (let cb = mplcb_table s i; sz = roundSize blksz
         in if mplid cb = 0 then (Ret E_NOEXS, s)
            else if sz > mplsz (mpl_pool cb) then (Ret E_PAR, s)
            else if is_diswai (mplatr cb) (me s) TTW_MPL s then (Ret E_DISWAI, s)
            else
              (case mpl_try i sz s of
                 (Some blk, s1) \<Rightarrow> (Ret E_OK, s1\<lparr>mem_ptr := (mem_ptr s1)(p_blk := blk)\<rparr>)
               | (None, s1) \<Rightarrow>
                   let s2 = call_wait OMpl i (mplatr cb) tmout
                          (if has (mplatr cb) TA_TPRI then wspec_mpl_tpri else wspec_mpl_tfifo)
                          (WI_mpl sz p_blk) s1
                   in (wait_ret s2, s2))))"

definition tk_get_mpl :: "ID \<Rightarrow> int \<Rightarrow> addr \<Rightarrow> int \<Rightarrow> 'a mpl_st_scheme \<Rightarrow> sysret \<times> 'a mpl_st_scheme" where
  "tk_get_mpl i blksz p_blk tmout s = tk_get_mpl_u i blksz p_blk (to_usec_tmo tmout) s"

text \<open>For an address in the range of the pool that is no block, \<open>rel_blk\<close> is not defined: \<open>None\<close>.\<close>

definition tk_rel_mpl :: "ID \<Rightarrow> addr \<Rightarrow> 'a mpl_st_scheme \<Rightarrow> (ER \<times> 'a mpl_st_scheme) option" where
  "tk_rel_mpl i blk s =
     (if \<not> chk_id (max_mplid s) i then Some (E_ID, s)
      else if in_ddsp s then Some (E_CTX, s)
      else
        (let cb = mplcb_table s i; pool = mpl_pool cb
         in if mplid cb = 0 then Some (E_NOEXS, s)
            else if blk < fst (hd (areaque pool)) \<or> blk > fst (last (areaque pool)) then Some (E_PAR, s)
            else
              (case rel_blk blk pool of
                 None \<Rightarrow> None
               | Some (ercd, pool1) \<Rightarrow>
                   let s1 = upd_mplcb i (\<lambda>c. c\<lparr>mpl_pool := pool1\<rparr>) s
                   in if ercd < E_OK then Some (ercd, s1) else Some (ercd, mpl_wakeup i s1))))"

definition tk_ref_mpl :: "ID \<Rightarrow> 'a mpl_st_scheme \<Rightarrow> ER \<times> t_rmpl option" where
  "tk_ref_mpl i s =
     (if \<not> chk_id (max_mplid s) i then (E_ID, None)
      else if in_ddsp s then (E_CTX, None)
      else if mplid (mplcb_table s i) = 0 then (E_NOEXS, None)
      else (E_OK, Some \<lparr>rpl_exinf = mpl_exinf (mplcb_table s i), rpl_wtsk = wait_tskid (WaitQ OMpl i) s,
              rpl_frsz = free_total (mpl_pool (mplcb_table s i)),
              rpl_maxsz = MaxFreeSize (mpl_pool (mplcb_table s i))\<rparr>))"

definition memorypool_getname :: "ID \<Rightarrow> 'a mpl_st_scheme \<Rightarrow> ER \<times> UB list option" where
  "memorypool_getname i s =
     (if \<not> chk_id (max_mplid s) i then (E_ID, None)
      else if mplid (mplcb_table s i) = 0 then (E_NOEXS, None)
      else if \<not> has (mplatr (mplcb_table s i)) TA_DSNAME then (E_OBJ, None)
      else (E_OK, Some (mpl_name (mplcb_table s i))))"

definition td_lst_mpl :: "int \<Rightarrow> 'a mpl_st_scheme \<Rightarrow> int \<times> ID list" where
  "td_lst_mpl nent s =
     (let ids = filter (\<lambda>j. mplid (mplcb_table s j) \<noteq> 0) [1..max_mplid s]
      in (int (length ids), take (nat nent) ids))"

definition td_ref_mpl :: "ID \<Rightarrow> 'a mpl_st_scheme \<Rightarrow> ER \<times> t_rmpl option" where
  "td_ref_mpl i s =
     (if \<not> chk_id (max_mplid s) i then (E_ID, None)
      else if mplid (mplcb_table s i) = 0 then (E_NOEXS, None)
      else (E_OK, Some \<lparr>rpl_exinf = mpl_exinf (mplcb_table s i), rpl_wtsk = wait_tskid (WaitQ OMpl i) s,
              rpl_frsz = free_total (mpl_pool (mplcb_table s i)),
              rpl_maxsz = MaxFreeSize (mpl_pool (mplcb_table s i))\<rparr>))"

definition td_mpl_que :: "ID \<Rightarrow> int \<Rightarrow> 'a mpl_st_scheme \<Rightarrow> int \<times> ID list" where
  "td_mpl_que i nent s =
     (if \<not> chk_id (max_mplid s) i then (E_ID, [])
      else if mplid (mplcb_table s i) = 0 then (E_NOEXS, [])
      else (let xs = que s (WaitQ OMpl i) in (int (length xs), take (nat nent) xs)))"

text \<open>What the other operations leave unchanged.\<close>

lemma mpl_more:
  assumes "mpf_st.more s' = mpf_st.more s"
  shows "mplcb_table s' = mplcb_table s" "free_mplcb s' = free_mplcb s" "max_mplid s' = max_mplid s"
  using assms by (cases s; cases s'; simp add: mpl_st.defs)+

lemma mpf_more_kst: "kst.more s' = kst.more s \<Longrightarrow> mpf_st.more s' = mpf_st.more s"
  by (cases s; cases s'; simp add: mpf_st.defs)

lemma mpl_frame [simp]:
  "mplcb_table (call_wait kd i atr tmo w wi s) = mplcb_table s" "free_mplcb (call_wait kd i atr tmo w wi s) = free_mplcb s" "max_mplid (call_wait kd i atr tmo w wi s) = max_mplid s"
  "mplcb_table (set_wercd t e s) = mplcb_table s" "free_mplcb (set_wercd t e s) = free_mplcb s" "max_mplid (set_wercd t e s) = max_mplid s"
  "mplcb_table (tcb_upd t f s) = mplcb_table s" "free_mplcb (tcb_upd t f s) = free_mplcb s" "max_mplid (tcb_upd t f s) = max_mplid s"
  "mplcb_table (que_remove t s) = mplcb_table s" "free_mplcb (que_remove t s) = free_mplcb s" "max_mplid (que_remove t s) = max_mplid s"
  "mplcb_table (wait_release t s) = mplcb_table s" "free_mplcb (wait_release t s) = free_mplcb s" "max_mplid (wait_release t s) = max_mplid s"
  "mplcb_table (wait_release_ok t s) = mplcb_table s" "free_mplcb (wait_release_ok t s) = free_mplcb s" "max_mplid (wait_release_ok t s) = max_mplid s"
  "mplcb_table (wait_release_ok_ercd t e s) = mplcb_table s" "free_mplcb (wait_release_ok_ercd t e s) = free_mplcb s" "max_mplid (wait_release_ok_ercd t e s) = max_mplid s"
  "mplcb_table (queue_insert_tpri t q s) = mplcb_table s" "free_mplcb (queue_insert_tpri t q s) = free_mplcb s" "max_mplid (queue_insert_tpri t q s) = max_mplid s"
  "mplcb_table (gcb_change_priority q t s) = mplcb_table s" "free_mplcb (gcb_change_priority q t s) = free_mplcb s" "max_mplid (gcb_change_priority q t s) = max_mplid s"
  "mplcb_table (gcb_make_wait k i a tmo s) = mplcb_table s" "free_mplcb (gcb_make_wait k i a tmo s) = free_mplcb s" "max_mplid (gcb_make_wait k i a tmo s) = max_mplid s"
  "mplcb_table (gcb_make_wait_with_diswai k i a tmo s) = mplcb_table s" "free_mplcb (gcb_make_wait_with_diswai k i a tmo s) = free_mplcb s" "max_mplid (gcb_make_wait_with_diswai k i a tmo s) = max_mplid s"
  "mplcb_table (wait_delete k i s) = mplcb_table s" "free_mplcb (wait_delete k i s) = free_mplcb s" "max_mplid (wait_delete k i s) = max_mplid s"
  "mplcb_table (make_wait tmo a s) = mplcb_table s" "free_mplcb (make_wait tmo a s) = free_mplcb s" "max_mplid (make_wait tmo a s) = max_mplid s"
  "mplcb_table (make_wait_reltim rt a s) = mplcb_table s" "free_mplcb (make_wait_reltim rt a s) = free_mplcb s" "max_mplid (make_wait_reltim rt a s) = max_mplid s"
  "mplcb_table (make_non_wait t s) = mplcb_table s" "free_mplcb (make_non_wait t s) = free_mplcb s" "max_mplid (make_non_wait t s) = max_mplid s"
  by (rule mpl_more, rule mpf_more_kst; simp add: gcb_change_priority_frame)+

lemma upd_mplcb_sel [simp]:
  "mplcb_table (upd_mplcb i f s) j = (if j = i then f (mplcb_table s i) else mplcb_table s j)"
  "free_mplcb (upd_mplcb i f s) = free_mplcb s" "max_mplid (upd_mplcb i f s) = max_mplid s"
  "tcbs (upd_mplcb i f s) = tcbs s" "que (upd_mplcb i f s) = que s"
  "ctxtsk (upd_mplcb i f s) = ctxtsk s" "mem_ptr (upd_mplcb i f s) = mem_ptr s"
  by (simp_all add: upd_mplcb_def)

lemma kinv_mpl_upd [simp]:
  "kinv_x X (upd_mplcb i f s) = kinv_x X s" "sched_ok (upd_mplcb i f s) = sched_ok s"
  "kinv_x X (s\<lparr>free_mplcb := fr\<rparr>) = kinv_x X s" "sched_ok (s\<lparr>free_mplcb := fr\<rparr>) = sched_ok s"
  "running t (upd_mplcb i f s) = running t s"
  by (simp_all add: upd_mplcb_def kinv_x_def rdq_ok_def running_def) (rule sched_ok_cong, simp_all)+

lemma mpl_wspec_hooks [simp]:
  "rel_wai_hook wspec_mpl_tpri = Some H_mpl_rel_wai" "rel_wai_hook wspec_mpl_tfifo = Some H_mpl_rel_wai"
  "chg_pri_hook wspec_mpl_tpri = Some H_mpl_chg_pri" "chg_pri_hook wspec_mpl_tfifo = None"
  "tskwait wspec_mpl_tpri = TTW_MPL" "tskwait wspec_mpl_tfifo = TTW_MPL"
  by (simp_all add: wspec_mpl_tpri_def wspec_mpl_tfifo_def)

section \<open>The invariant\<close>

definition mpl_exists :: "ID \<Rightarrow> 'a mpl_st_scheme \<Rightarrow> bool" where
  "mpl_exists i s \<longleftrightarrow> chk_id (max_mplid s) i \<and> mplid (mplcb_table s i) \<noteq> 0"

definition mpl_request_ok :: "int \<Rightarrow> bool" where
  "mpl_request_ok n \<longleftrightarrow> 16 \<le> n \<and> 8 dvd n"

definition mpl_obj_pre :: "ID \<Rightarrow> 'a mpl_st_scheme \<Rightarrow> bool" where
  "mpl_obj_pre i s \<longleftrightarrow>
     (let c = mplcb_table s i
      in mplid c = i \<and> mpool_inv (mpl_pool c) \<and>
         (\<forall>t \<in> set (que s (WaitQ OMpl i)).
            mpl_request_ok (mpl_blksz (winfo (tcbs s t))) \<and>
            rel_wai_hook (wspec (tcbs s t)) = Some H_mpl_rel_wai \<and>
            chg_pri_hook (wspec (tcbs s t)) =
              (if has (mplatr c) TA_TPRI then Some H_mpl_chg_pri else None)))"

text \<open>The block the first task waits for does not fit.\<close>

definition mpl_obj_settled :: "ID \<Rightarrow> 'a mpl_st_scheme \<Rightarrow> bool" where
  "mpl_obj_settled i s \<longleftrightarrow>
     (case que s (WaitQ OMpl i) of
        [] \<Rightarrow> True
      | t # _ \<Rightarrow> mpl_blksz (winfo (tcbs s t)) > MaxFreeSize (mpl_pool (mplcb_table s i)))"

definition mpl_weak :: "ID \<Rightarrow> 'a mpl_st_scheme \<Rightarrow> bool" where
  "mpl_weak i s \<longleftrightarrow>
     kinv s \<and> distinct (free_mplcb s) \<and>
     (\<forall>j. j \<in> set (free_mplcb s) \<longleftrightarrow> chk_id (max_mplid s) j \<and> mplid (mplcb_table s j) = 0) \<and>
     (\<forall>j. if mpl_exists j s then mpl_obj_pre j s \<and> (j \<noteq> i \<longrightarrow> mpl_obj_settled j s)
          else que s (WaitQ OMpl j) = [])"

definition mpl_ok :: "'a mpl_st_scheme \<Rightarrow> bool" where
  "mpl_ok s \<longleftrightarrow>
     kinv s \<and> distinct (free_mplcb s) \<and>
     (\<forall>j. j \<in> set (free_mplcb s) \<longleftrightarrow> chk_id (max_mplid s) j \<and> mplid (mplcb_table s j) = 0) \<and>
     (\<forall>j. if mpl_exists j s then mpl_obj_pre j s \<and> mpl_obj_settled j s
          else que s (WaitQ OMpl j) = [])"

interpretation mplo: object_pool "{OMpl}" max_mplid free_mplcb mplcb_table mplid
  mpl_obj_pre mpl_obj_settled mpl_ok mpl_weak
proof unfold_locales
  fix s s' :: "'a mpl_st_scheme" and j
  assume cb: "mplcb_table s' j = mplcb_table s j" and w: "\<And>k. k \<in> {OMpl} \<Longrightarrow> same_waits s' s k j"
  note w = same_waitsD [OF w [of OMpl, simplified]]
  show "mpl_obj_settled j s \<Longrightarrow> mpl_obj_settled j s'"
    unfolding mpl_obj_settled_def cb w(1) using w(2) by (auto split: list.splits)
  show "mpl_obj_pre j s \<Longrightarrow> mpl_obj_pre j s'"
    unfolding mpl_obj_pre_def Let_def cb w(1) using w(2,3) by simp
qed (auto simp: mpl_weak_def mpl_ok_def mpl_exists_def split: if_splits)

lemma mpl_okD:
  assumes "mpl_ok s"
  shows "kinv s" "mpl_weak i s" "mpl_exists i s \<Longrightarrow> mpl_obj_pre i s"
    "mpl_exists i s \<Longrightarrow> mpl_obj_settled i s" "\<not> mpl_exists i s \<Longrightarrow> que s (WaitQ OMpl i) = []"
  using assms mplo.okD(1) [OF assms, of i] by (simp_all add: mpl_ok_def)

section \<open>Serving the queue\<close>

lemma get_blk_fits:
  assumes "mpool_inv p" "mpl_request_ok n" "n \<le> MaxFreeSize p"
  obtains b p' where "get_blk n p = (Some b, p')" "mpool_inv p'" "mplsz p' = mplsz p"
    "b \<notin> blocks p" "blocks p' = insert b (blocks p)" "n \<le> AreaSize p' (b - 8)"
proof -
  have n: "16 \<le> n" "8 dvd n" using assms(2) by (auto simp: mpl_request_ok_def)
  obtain b p' where g: "get_blk n p = (Some b, p')"
    using get_blk_iff_MaxFreeSize [OF assms(1) n] assms(3) by (cases "get_blk n p") auto
  show thesis using that [OF g] get_blk_some_facts [OF assms(1) n g] by blast
qed

lemma get_blk_fails:
  assumes "mpool_inv p" "mpl_request_ok n" "\<not> n \<le> MaxFreeSize p"
  shows "get_blk n p = (None, p)"
proof -
  have n: "16 \<le> n" "8 dvd n" using assms(2) by (auto simp: mpl_request_ok_def)
  have "fst (get_blk n p) = None" using get_blk_iff_MaxFreeSize [OF assms(1) n] assms(3) by auto
  then show ?thesis
    by (auto simp: get_blk_def Let_def split: if_splits)
qed

text \<open>One task gets its block.\<close>

lemma mpl_grant_weak:
  fixes s :: "'a mpl_st_scheme"
  assumes wk: "mpl_weak i s" and ex: "mpl_exists i s" and q: "que s (WaitQ OMpl i) = t # ts"
    and f: "mpl_blksz (winfo (tcbs s t)) \<le> MaxFreeSize (mpl_pool (mplcb_table s i))"
  defines "s' \<equiv> mpl_grant i t s"
  shows "mpl_weak i s'" "mpl_exists i s'" "que s' (WaitQ OMpl i) = ts"
    "tstate (tcbs s' u) = (if u = t then released (tstate (tcbs s t)) else tstate (tcbs s u))"
    "wercd (tcbs s' u) = (if u = t then E_OK else wercd (tcbs s u))"
    "winfo (tcbs s' u) = winfo (tcbs s u)" "sched_ok s \<Longrightarrow> sched_ok s'"
    "mem_ptr s' (mpl_p_blk (winfo (tcbs s t))) \<notin> blocks (mpl_pool (mplcb_table s i))"
    "blocks (mpl_pool (mplcb_table s' i)) =
       insert (mem_ptr s' (mpl_p_blk (winfo (tcbs s t)))) (blocks (mpl_pool (mplcb_table s i)))"
proof -
  let ?w = "winfo (tcbs s t)" and ?p = "mpl_pool (mplcb_table s i)"
  note k = mplo.weakD(1) [OF wk]
  have pre: "mpl_obj_pre i s" using mplo.weakD(4) [OF wk] ex by (simp add: mpl_exists_def)
  have p: "mpool_inv ?p" "mpl_request_ok (mpl_blksz ?w)" using pre q by (auto simp: mpl_obj_pre_def Let_def)
  obtain b p' where g: "get_blk (mpl_blksz ?w) ?p = (Some b, p')" "mpool_inv p'" "mplsz p' = mplsz ?p"
    "b \<notin> blocks ?p" "blocks p' = insert b (blocks ?p)"
    using get_blk_fits [OF p f] by metis
  let ?s1 = "(upd_mplcb i (\<lambda>c. c\<lparr>mpl_pool := p'\<rparr>) s)\<lparr>mem_ptr := (mem_ptr s)(mpl_p_blk ?w := b)\<rparr>"
  have s': "s' = wait_release_ok t ?s1" by (simp add: s'_def mpl_grant_def Let_def g blk_ptr_def)
  have k1: "kinv ?s1" using k by simp
  have w: "in_wait (tstate (tcbs ?s1 t))" using kinv_xD(5) [OF k, of t OMpl i] q by simp
  note ro = rok.kinv [OF k1 w] rok.wque [OF k1 w] rok.sched [OF k1 w] rok.tstate rok.wercd
  have v: "winfo (tcbs s' u) = winfo (tcbs s u)" "wspec (tcbs s' u) = wspec (tcbs s u)" for u
    unfolding s' by (simp_all add: wait_release_ok_def)
  then show "winfo (tcbs s' u) = winfo (tcbs s u)" by simp
  have c: "mplcb_table s' j = mplcb_table ?s1 j" for j by (simp add: s')
  have dq: "distinct (t # ts)" using que_ok_distinct [OF kinv_xD(2) [OF k], of "WaitQ OMpl i"] q by simp
  have nq: "t \<notin> set (que s (WaitQ kd j))" if "kd \<noteq> OMpl \<or> j \<noteq> i" for kd j
    using que_okD [OF kinv_xD(2) [OF k], of t "WaitQ kd j" "WaitQ OMpl i"] q that by auto
  show qs: "que s' (WaitQ OMpl i) = ts" using ro(2) [of OMpl i] q dq by (simp add: s' removeAll_id)
  have qo: "que s' (WaitQ kd j) = que s (WaitQ kd j)" if "kd \<noteq> OMpl \<or> j \<noteq> i" for kd j
    using ro(2) [of kd j] nq [OF that] by (simp add: s' removeAll_id)
  have pre': "mpl_obj_pre i s'"
    using pre q g unfolding mpl_obj_pre_def Let_def qs v c by auto
  show "mpl_weak i s'"
  proof (rule mplo.frame_weak [OF wk])
    show "kinv s'" using ro(1) by (simp add: s')
    show "same_waits s' s kd j" if "j \<noteq> i" for kd j
      using that qo [of kd j] v by (simp add: same_waits_def)
  qed (use ex pre' in \<open>simp_all add: c mpl_exists_def, simp_all add: s'\<close>)
  show "mpl_exists i s'" using ex by (simp add: mpl_exists_def c) (simp add: s')
  show "tstate (tcbs s' u) = (if u = t then released (tstate (tcbs s t)) else tstate (tcbs s u))"
    "wercd (tcbs s' u) = (if u = t then E_OK else wercd (tcbs s u))"
    using ro(4) [of t ?s1 u] ro(5) [of t ?s1 u] by (simp_all add: s')
  show "sched_ok s \<Longrightarrow> sched_ok s'" using ro(3) by (simp add: s')
  have "mem_ptr s' (mpl_p_blk ?w) = b" by (simp add: s')
  then show "mem_ptr s' (mpl_p_blk ?w) \<notin> blocks ?p"
    "blocks (mpl_pool (mplcb_table s' i)) = insert (mem_ptr s' (mpl_p_blk ?w)) (blocks ?p)"
    using g by (simp_all add: c)
qed

text \<open>The tasks get their blocks from the front of the queue, as long as they fit. All blocks that
  were out stay out, and each task served has one more.\<close>

lemma mpl_wakeup_all:
  fixes s :: "'a mpl_st_scheme"
  assumes "mpl_weak i s" "mpl_exists i s"
  shows "\<exists>n. let q = que s (WaitQ OMpl i); s' = mpl_wakeup i s
    in mpl_ok s' \<and> que s' (WaitQ OMpl i) = drop n q \<and> n \<le> length q \<and>
       (\<forall>u. tstate (tcbs s' u) = (if u \<in> set (take n q) then released (tstate (tcbs s u)) else tstate (tcbs s u)) \<and>
            wercd (tcbs s' u) = (if u \<in> set (take n q) then E_OK else wercd (tcbs s u))) \<and>
       (\<exists>bs. length bs = n \<and> distinct bs \<and> set bs \<inter> blocks (mpl_pool (mplcb_table s i)) = {} \<and>
          blocks (mpl_pool (mplcb_table s' i)) = blocks (mpl_pool (mplcb_table s i)) \<union> set bs) \<and>
       (sched_ok s \<longrightarrow> sched_ok s')"
  using assms
proof (induction "que s (WaitQ OMpl i)" arbitrary: s)
  case Nil
  then have w: "mpl_wakeup i s = s" by (subst mpl_wakeup.simps) simp
  have "mpl_obj_settled i s" using Nil(1) [symmetric] by (simp add: mpl_obj_settled_def)
  then have "mpl_ok s" using Nil.prems mplo.ok_iff [of s i] by (simp add: mpl_exists_def)
  then show ?case using Nil by (intro exI [of _ 0]) (simp add: w Let_def)
next
  case (Cons t ts)
  note q = Cons.hyps(2) [symmetric]
  let ?P = "\<lambda>s. blocks (mpl_pool (mplcb_table s i))"
  show ?case
  proof (cases "mpl_blksz (winfo (tcbs s t)) > MaxFreeSize (mpl_pool (mplcb_table s i))")
    case True
    then have w: "mpl_wakeup i s = s" by (subst mpl_wakeup.simps) (simp add: q)
    have "mpl_obj_settled i s" using True q by (simp add: mpl_obj_settled_def)
    then have "mpl_ok s" using Cons.prems mplo.ok_iff [of s i] by (simp add: mpl_exists_def)
    then show ?thesis by (intro exI [of _ 0]) (simp add: w Let_def)
  next
    case False
    then have f: "mpl_blksz (winfo (tcbs s t)) \<le> MaxFreeSize (mpl_pool (mplcb_table s i))" by simp
    let ?s = "mpl_grant i t s"
    have w: "mpl_wakeup i s = mpl_wakeup i ?s" using False by (subst mpl_wakeup.simps) (simp add: q)
    note a = mpl_grant_weak [OF Cons.prems q f]
    from Cons.hyps(1) [OF a(3) [symmetric] a(1,2)] obtain n bs where n:
      "mpl_ok (mpl_wakeup i ?s)" "que (mpl_wakeup i ?s) (WaitQ OMpl i) = drop n ts" "n \<le> length ts"
      "\<And>u. tstate (tcbs (mpl_wakeup i ?s) u) =
         (if u \<in> set (take n ts) then released (tstate (tcbs ?s u)) else tstate (tcbs ?s u)) \<and>
         wercd (tcbs (mpl_wakeup i ?s) u) = (if u \<in> set (take n ts) then E_OK else wercd (tcbs ?s u))"
      "length bs = n" "distinct bs" "set bs \<inter> ?P ?s = {}" "?P (mpl_wakeup i ?s) = ?P ?s \<union> set bs"
      "sched_ok ?s \<longrightarrow> sched_ok (mpl_wakeup i ?s)"
      unfolding Let_def a(3) by blast
    have d: "t \<notin> set ts" using que_ok_distinct [OF kinv_xD(2) [OF mplo.weakD(1) [OF Cons.prems(1)]], of "WaitQ OMpl i"] q
      by simp
    then have dn: "t \<notin> set (take n ts)" by (meson in_set_takeD)
    let ?b = "mem_ptr ?s (mpl_p_blk (winfo (tcbs s t)))"
    have bl: "length (?b # bs) = Suc n \<and> distinct (?b # bs) \<and> set (?b # bs) \<inter> ?P s = {} \<and>
        ?P (mpl_wakeup i ?s) = ?P s \<union> set (?b # bs)"
      using n(5-8) a(8,9) by auto
    have ex: "\<exists>bs. length bs = Suc n \<and> distinct bs \<and> set bs \<inter> ?P s = {} \<and>
        ?P (mpl_wakeup i ?s) = ?P s \<union> set bs" using bl by blast
    show ?thesis
    proof (intro exI [of _ "Suc n"], unfold Let_def w q, intro conjI allI)
      fix u
      show "tstate (tcbs (mpl_wakeup i ?s) u) =
          (if u \<in> set (take (Suc n) (t # ts)) then released (tstate (tcbs s u)) else tstate (tcbs s u))"
        "wercd (tcbs (mpl_wakeup i ?s) u) = (if u \<in> set (take (Suc n) (t # ts)) then E_OK else wercd (tcbs s u))"
        using n(4) [of u] dn by (auto simp: a(4,5))
      show "mpl_ok (mpl_wakeup i ?s)" "que (mpl_wakeup i ?s) (WaitQ OMpl i) = drop (Suc n) (t # ts)"
        "Suc n \<le> length (t # ts)" using n(1-3) by simp_all
      show "sched_ok s \<longrightarrow> sched_ok (mpl_wakeup i ?s)" using n(9) a(7) by blast
    qed (fact ex)
  qed
qed

lemma mpl_wakeup_ok: "mpl_weak i s \<Longrightarrow> mpl_exists i s \<Longrightarrow> mpl_ok (mpl_wakeup i s)"
  using mpl_wakeup_all [of i s] by (auto simp: Let_def)

section \<open>Every operation keeps the invariant\<close>

lemma mpl_upd_mem [simp]:
  "mpl_ok (s\<lparr>mem_ptr := m\<rparr>) = mpl_ok s" "mpl_ok (s\<lparr>ctxtsk := c\<rparr>) = mpl_ok s"
  by (simp_all add: mpl_ok_def mpl_exists_def mpl_obj_pre_def mpl_obj_settled_def cong: list.case_cong)

lemma mpl_ok_set_wercd [simp]: "mpl_ok (set_wercd t e s) = mpl_ok s"
  by (simp add: mpl_ok_def mpl_exists_def mpl_obj_pre_def mpl_obj_settled_def cong: list.case_cong)

text \<open>A change of the pool of object \<open>i\<close>.\<close>

lemma mpl_set_pool_weak:
  assumes ok: "mpl_ok s" and ex: "mpl_exists i s" and p: "mpool_inv p"
  shows "mpl_weak i (upd_mplcb i (\<lambda>c. c\<lparr>mpl_pool := p\<rparr>) s)" (is "mpl_weak i ?s")
    "mpl_exists i (upd_mplcb i (\<lambda>c. c\<lparr>mpl_pool := p\<rparr>) s)"
proof -
  have "mpl_obj_pre i ?s" using mpl_okD(3) [OF ok ex] p by (simp add: mpl_obj_pre_def Let_def)
  then show "mpl_weak i ?s"
    by (intro mplo.frame_weak [OF mpl_okD(2) [OF ok]])
      (use mpl_okD(1) [OF ok] ex in \<open>simp_all add: same_waits_tcbs mpl_exists_def\<close>)
  show "mpl_exists i ?s" using ex by (simp add: mpl_exists_def)
qed

text \<open>A block is taken while nobody waits in front: what did not fit before does not fit now.\<close>

lemma MaxFreeSize_get:
  assumes p: "mpool_inv p" and n: "mpl_request_ok n" and g: "get_blk n p = (Some b, p')"
    and m: "mpl_request_ok m" "m > MaxFreeSize p"
  shows "m > MaxFreeSize p'"
proof (rule ccontr)
  assume c: "\<not> m > MaxFreeSize p'"
  have n16: "16 \<le> n" "8 dvd n" "16 \<le> m" using n m by (auto simp: mpl_request_ok_def)
  have p': "mpool_inv p'" using get_blk_some_facts [OF p n16(1,2) g] by blast
  obtain a where a: "a \<in> free_areas (areaque p')" "m \<le> AreaSize p' a"
    using c MaxFreeSize_iff [OF p' n16(3)] by auto
  obtain d where "d \<in> free_areas (areaque p)" "AreaSize p' a \<le> AreaSize p d"
    using get_blk_no_larger [OF p n16(1,2) g a(1)] by blast
  then have "m \<le> MaxFreeSize p" using a(2) MaxFreeSize_iff [OF p n16(3)] by fastforce
  then show False using m(2) by simp
qed

lemma mpl_request_roundSize: "0 < n \<Longrightarrow> n \<le> MAX_ALLOCATE \<Longrightarrow> mpl_request_ok (roundSize n)"
  using roundSize [of n] by (simp add: mpl_request_ok_def)

text \<open>A task that is the first of the queue takes a block.\<close>

lemma mpl_get_now_ok:
  assumes ok: "mpl_ok s" and ex: "mpl_exists i s" and n: "mpl_request_ok n"
    and g: "get_blk n (mpl_pool (mplcb_table s i)) = (Some b, p')"
  shows "mpl_ok (upd_mplcb i (\<lambda>c. c\<lparr>mpl_pool := p'\<rparr>) s)" (is "mpl_ok ?s")
proof -
  note pre = mpl_okD(3) [OF ok ex] and st = mpl_okD(4) [OF ok ex]
  have p: "mpool_inv (mpl_pool (mplcb_table s i))" using pre by (simp add: mpl_obj_pre_def Let_def)
  have p': "mpool_inv p'" using get_blk_some_facts [OF p _ _ g] n by (simp add: mpl_request_ok_def)
  have "mpl_obj_settled i ?s"
  proof (cases "que s (WaitQ OMpl i)")
    case (Cons t ts)
    then have "mpl_request_ok (mpl_blksz (winfo (tcbs s t)))" using pre by (auto simp: mpl_obj_pre_def Let_def)
    then show ?thesis using MaxFreeSize_get [OF p n g] st Cons by (simp add: mpl_obj_settled_def)
  qed (simp add: mpl_obj_settled_def)
  then show ?thesis using mpl_set_pool_weak(1) [OF ok ex p'] mplo.ok_iff [of ?s i] by blast
qed

text \<open>A task that is not the first, or for which there is no block, starts to wait.\<close>

lemma mpl_call_wait_ok:
  fixes s :: "'a mpl_st_scheme"
  assumes ok: "mpl_ok s" and r: "running t s" and ex: "mpl_exists i s" and n: "mpl_request_ok n"
    and nf: "gcb_top_of_wait_queue (mplatr (mplcb_table s i)) (WaitQ OMpl i) t s = t \<Longrightarrow>
      n > MaxFreeSize (mpl_pool (mplcb_table s i))"
  shows "mpl_ok (call_wait OMpl i (mplatr (mplcb_table s i)) tmout
    (if has (mplatr (mplcb_table s i)) TA_TPRI then wspec_mpl_tpri else wspec_mpl_tfifo)
    (WI_mpl n p) s)"
proof -
  define s' where "s' = call_wait OMpl i (mplatr (mplcb_table s i)) tmout
    (if has (mplatr (mplcb_table s i)) TA_TPRI then wspec_mpl_tpri else wspec_mpl_tfifo)
    (WI_mpl n p) s"
  let ?a = "mplatr (mplcb_table s i)" and ?q = "que s (WaitQ OMpl i)" and ?c = "mplcb_table s i"
  note c = call_wait [OF mpl_okD(1) [OF ok] r, where kd = OMpl and i = i and atr = ?a and tmout = tmout
      and w = "if has ?a TA_TPRI then wspec_mpl_tpri else wspec_mpl_tfifo" and f = "WI_mpl n p", folded s'_def]
  have fr: "mplcb_table s' = mplcb_table s" "free_mplcb s' = free_mplcb s" "max_mplid s' = max_mplid s"
    by (simp_all add: s'_def)
  note pre = mpl_okD(3) [OF ok ex] and st = mpl_okD(4) [OF ok ex]
  have tq: "t \<notin> set (que s (WaitQ k j))" for k j
    using not_wait_not_queued [OF mpl_okD(1) [OF ok] runningD(2) [OF r]] .
  have qs: "que s' (WaitQ OMpl i) = ?q \<or>
      que s' (WaitQ OMpl i) = wait_order ?a (\<lambda>u. priority (tcbs s u)) t ?q" by (auto simp: c(2))
  have v: "u \<noteq> t \<Longrightarrow> winfo (tcbs s' u) = winfo (tcbs s u)" "u \<noteq> t \<Longrightarrow> wspec (tcbs s' u) = wspec (tcbs s u)"
    for u by (simp_all add: c(3,4))
  have mem: "mpl_request_ok (mpl_blksz (winfo (tcbs s' u))) \<and>
      rel_wai_hook (wspec (tcbs s' u)) = Some H_mpl_rel_wai \<and>
      chg_pri_hook (wspec (tcbs s' u)) = (if has ?a TA_TPRI then Some H_mpl_chg_pri else None)"
    if "u \<in> insert t (set ?q)" for u
  proof (cases "u = t")
    case True
    then show ?thesis using n by (simp add: c(3,4))
  next
    case False
    then have "u \<in> set ?q" using that by simp
    then show ?thesis using pre v [OF False] by (simp add: mpl_obj_pre_def Let_def)
  qed
  have "set (que s' (WaitQ OMpl i)) \<subseteq> insert t (set ?q)" using qs by auto
  then have pre': "mpl_obj_pre i s'"
    using pre mem unfolding mpl_obj_pre_def Let_def fr by auto
  have "case que s' (WaitQ OMpl i) of [] \<Rightarrow> True
      | h # _ \<Rightarrow> mpl_blksz (winfo (tcbs s' h)) > MaxFreeSize (mpl_pool ?c)"
  proof (cases ?q)
    case Nil
    then have "gcb_top_of_wait_queue ?a (WaitQ OMpl i) t s = t" by (simp add: gcb_top_of_wait_queue_def)
    then show ?thesis using qs Nil nf by (auto simp: wait_order_def c(3))
  next
    case (Cons h ts)
    have h: "mpl_blksz (winfo (tcbs s h)) > MaxFreeSize (mpl_pool ?c)" "h \<noteq> t"
      using st Cons tq [of OMpl i] by (auto simp: mpl_obj_settled_def)
    show ?thesis
    proof (cases "has ?a TA_TPRI \<and> priority (tcbs s t) < priority (tcbs s h)")
      case True
      then have "gcb_top_of_wait_queue ?a (WaitQ OMpl i) t s = t"
        using Cons by (simp add: gcb_top_of_wait_queue_def)
      then show ?thesis using qs Cons nf h True by (auto simp: wait_order_def c(3))
    next
      case False
      then show ?thesis using qs Cons h v(1) [OF h(2)] by (auto simp: wait_order_def)
    qed
  qed
  then have st': "mpl_obj_settled i s'" unfolding mpl_obj_settled_def fr by simp
  have "mpl_ok s'"
    by (rule mplo.frame [OF mpl_okD(2) [OF ok, of i] c(1)])
      (use ex pre' st' c(5) fr in \<open>simp_all add: mpl_exists_def\<close>)
  then show ?thesis by (simp add: s'_def)
qed

lemma mpl_try_cases:
  assumes ok: "mpl_ok s" and ex: "mpl_exists i s" and n: "mpl_request_ok n"
  obtains (got) b p' where "mpl_try i n s = (Some b, upd_mplcb i (\<lambda>c. c\<lparr>mpl_pool := p'\<rparr>) s)"
      "get_blk n (mpl_pool (mplcb_table s i)) = (Some b, p')"
      "gcb_top_of_wait_queue (mplatr (mplcb_table s i)) (WaitQ OMpl i) (me s) s = me s"
  | (no) "mpl_try i n s = (None, s)"
      "gcb_top_of_wait_queue (mplatr (mplcb_table s i)) (WaitQ OMpl i) (me s) s = me s \<Longrightarrow>
       n > MaxFreeSize (mpl_pool (mplcb_table s i))"
proof -
  let ?p = "mpl_pool (mplcb_table s i)" and ?top = "gcb_top_of_wait_queue (mplatr (mplcb_table s i)) (WaitQ OMpl i) (me s) s = me s"
  have p: "mpool_inv ?p" using mpl_okD(3) [OF ok ex] by (simp add: mpl_obj_pre_def Let_def)
  have id: "upd_mplcb i (\<lambda>c. c\<lparr>mpl_pool := ?p\<rparr>) s = s" by (simp add: upd_mplcb_def)
  show thesis
  proof (cases "?top \<and> n \<le> MaxFreeSize ?p")
    case True
    then obtain b p' where "get_blk n ?p = (Some b, p')" using get_blk_fits [OF p n] by metis
    then show thesis using True got by (simp add: mpl_try_def Let_def)
  next
    case False
    then have "mpl_try i n s = (None, s)"
      using get_blk_fails [OF p n] id by (auto simp: mpl_try_def Let_def)
    then show thesis using False by (intro no) auto
  qed
qed

lemma tk_get_mpl_u_ok:
  assumes ok: "mpl_ok s" and r: "in_ddsp s \<or> running (me s) s"
  shows "mpl_ok (snd (tk_get_mpl_u i blksz p tmout s))"
proof (cases "mpl_exists i s \<and> \<not> in_ddsp s \<and> blksz > 0 \<and> blksz \<le> MAX_ALLOCATE")
  case True
  then have ex: "mpl_exists i s" and rn: "running (me s) s" and n: "mpl_request_ok (roundSize blksz)"
    using r mpl_request_roundSize by auto
  show ?thesis
    using ok ex n
  proof (cases rule: mpl_try_cases)
    case (got b p')
    then show ?thesis
      using ok mpl_get_now_ok [OF ok ex n got(2)] by (simp add: tk_get_mpl_u_def Let_def)
  next
    case no
    then show ?thesis
      using ok mpl_call_wait_ok [OF ok rn ex n no(2)] by (simp add: tk_get_mpl_u_def Let_def)
  qed
qed (use ok in \<open>auto simp: tk_get_mpl_u_def Let_def mpl_exists_def\<close>)

text \<open>Returning a block that was handed out.\<close>

lemma tk_rel_mpl_block:
  fixes s :: "'a mpl_st_scheme" and blk :: addr
  assumes ok: "mpl_ok s" and ex: "mpl_exists i s" and d: "\<not> in_ddsp s"
    and b: "blk \<in> blocks (mpl_pool (mplcb_table s i))"
  obtains s1 where "tk_rel_mpl i blk s = Some (E_OK, mpl_wakeup i s1)" "mpl_weak i s1" "mpl_exists i s1"
    "blocks (mpl_pool (mplcb_table s1 i)) = blocks (mpl_pool (mplcb_table s i)) - {blk}"
    "que s1 = que s" "tcbs s1 = tcbs s"
proof -
  let ?p = "mpl_pool (mplcb_table s i)"
  have p: "mpool_inv ?p" using mpl_okD(3) [OF ok ex] by (simp add: mpl_obj_pre_def Let_def)
  obtain p' where p': "rel_blk blk ?p = Some (E_OK, p')" "mpool_inv p'" "blocks p' = blocks ?p - {blk}"
    using rel_blk_block [OF p b] by metis
  have "0 \<le> AreaSize ?p (blk - 8)"
    using p b AreaSize_pos [of ?p] unfolding blocks_def busy_areas_def mpool_inv_def by fastforce
  then have "\<not> blk < fst (hd (areaque ?p))" "\<not> blk > fst (last (areaque ?p))"
    using blocks_inside [OF p b] p by (auto simp: mpool_inv_def)
  moreover define s1 where "s1 = upd_mplcb i (\<lambda>c. c\<lparr>mpl_pool := p'\<rparr>) s"
  ultimately have "tk_rel_mpl i blk s = Some (E_OK, mpl_wakeup i s1)"
    using ex d p' by (simp add: tk_rel_mpl_def mpl_exists_def Let_def)
  moreover have "mpl_weak i s1" "mpl_exists i s1" using mpl_set_pool_weak [OF ok ex p'(2)] by (simp_all add: s1_def)
  ultimately show thesis using that [of s1] p'(3) by (simp add: s1_def)
qed

text \<open>The addresses for which \<open>rel_blk\<close> is defined: outside the pool, a block, or a block that is free
  already (which is refused).\<close>

definition mpl_returnable :: "ID \<Rightarrow> addr \<Rightarrow> 'a mpl_st_scheme \<Rightarrow> bool" where
  "mpl_returnable i blk s \<longleftrightarrow>
     (let p = mpl_pool (mplcb_table s i)
      in mpl_exists i s \<longrightarrow> blk < fst (hd (areaque p)) \<or> blk > fst (last (areaque p)) \<or>
         blk \<in> blocks p \<or> 8 \<le> blk \<and> blk - 8 \<in> free_areas (areaque p))"

lemma tk_rel_mpl_ok:
  assumes ok: "mpl_ok s" and r: "mpl_returnable i blk s"
  shows "\<exists>e s'. tk_rel_mpl i blk s = Some (e, s') \<and> mpl_ok s'"
proof (cases "mpl_exists i s \<and> \<not> in_ddsp s \<and> \<not> (blk < fst (hd (areaque (mpl_pool (mplcb_table s i)))) \<or>
    blk > fst (last (areaque (mpl_pool (mplcb_table s i)))))")
  case True
  let ?p = "mpl_pool (mplcb_table s i)"
  have ex: "mpl_exists i s" and d: "\<not> in_ddsp s" using True by auto
  have p: "mpool_inv ?p" using mpl_okD(3) [OF ok ex] by (simp add: mpl_obj_pre_def Let_def)
  consider (blk) "blk \<in> blocks ?p" | (free) "8 \<le> blk" "blk - 8 \<in> free_areas (areaque ?p)"
    using r True by (auto simp: mpl_returnable_def Let_def)
  then show ?thesis
  proof cases
    case blk
    then show ?thesis using tk_rel_mpl_block [OF ok ex d] mpl_wakeup_ok by metis
  next
    case free
    then have "rel_blk blk ?p = Some (E_PAR, ?p)" using rel_blk_free [OF p free(2)] by simp
    moreover have "upd_mplcb i (\<lambda>c. c\<lparr>mpl_pool := ?p\<rparr>) s = s" by (simp add: upd_mplcb_def)
    ultimately show ?thesis using True ok by (simp add: tk_rel_mpl_def mpl_exists_def Let_def ercd_values)
  qed
qed (use ok in \<open>auto simp: tk_rel_mpl_def mpl_exists_def Let_def\<close>)

lemma tk_cre_mpl_ok:
  assumes ok: "mpl_ok s" and sz: "roundSize (cpl_mplsz pk) + 16 < 2 ^ 31"
  shows "mpl_ok (snd (tk_cre_mpl iamalloc pk s))"
proof (cases "free_mplcb s")
  case Nil
  then show ?thesis using ok by (simp add: tk_cre_mpl_def Let_def)
next
  case (Cons i free)
  let ?n = "roundSize (cpl_mplsz pk)"
  let ?pool = "\<lambda>mem. init_mempool mem (sint (word_of_int (?n + 16) :: 32 word)) ?n"
  let ?s1 = "upd_mplcb i (\<lambda>c. c\<lparr>mplid := i, mpl_exinf := cpl_exinf pk, mplatr := cpl_mplatr pk\<rparr>)
      (s\<lparr>free_mplcb := free\<rparr>)"
  define s2 where "s2 = (if has (cpl_mplatr pk) TA_DSNAME
      then upd_mplcb i (\<lambda>c. c\<lparr>mpl_name := tkl_strncpy (cpl_dsname pk) OBJECT_NAME_LENGTH\<rparr>) ?s1 else ?s1)"
  have i: "chk_id (max_mplid s) i" "\<not> mpl_exists i s"
    using mplo.weakD(3) [OF mpl_okD(2) [OF ok], of i] Cons by (auto simp: mpl_exists_def)
  then have i1: "i \<noteq> 0" by (auto simp: chk_id_def)
  have e: "que s (WaitQ OMpl i) = []" using mpl_okD(5) [OF ok i(2)] .
  have "mpl_ok (upd_mplcb i (\<lambda>c. c\<lparr>mpl_pool := ?pool mem\<rparr>) s2)" (is "mpl_ok ?s3")
    if c: "cpl_mplsz pk > 0" "cpl_mplsz pk \<le> MAX_ALLOCATE" for mem
  proof -
    note rs = roundSize [OF c]
    have "sint (word_of_int (?n + 16) :: 32 word) = ?n + 16"
      using sz rs(2) by (subst sint_small32) (simp_all add: uint_word_of_int_eq take_bit_int_eq_self del: of_int_add)
    then have p: "mpool_inv (?pool mem)" using init_mempool_ok(1) [OF rs(2,3)] by simp
    have f: "tcbs s2 = tcbs s" "que s2 = que s" "kinv s2 = kinv s" "free_mplcb s2 = free"
      "max_mplid s2 = max_mplid s" "j \<noteq> i \<Longrightarrow> mplcb_table s2 j = mplcb_table s j"
      "mplid (mplcb_table s2 i) = i" for j by (simp_all add: s2_def)
    have "mpl_obj_pre i ?s3" "mpl_obj_settled i ?s3"
      using p e by (simp_all add: mpl_obj_pre_def mpl_obj_settled_def Let_def f)
    then show ?thesis
      using mpl_okD(1) [OF ok] i1 f by (intro mplo.create [OF ok Cons]) (simp_all add: same_waits_tcbs)
  qed
  then show ?thesis
    using Cons ok unfolding tk_cre_mpl_def Let_def s2_def by (cases "has (cpl_mplatr pk) TA_DSNAME") simp_all
qed

lemma tk_del_mpl_ok:
  assumes ok: "mpl_ok s"
  shows "mpl_ok (snd (tk_del_mpl i s))"
proof -
  let ?s2 = "upd_mplcb i (\<lambda>c. c\<lparr>mplid := 0\<rparr>) ((wait_delete OMpl i s)\<lparr>free_mplcb := free_mplcb s @ [i]\<rparr>)"
  note k = mpl_okD(1) [OF ok]
  note w = wait_delete_spec [OF k, of OMpl i]
  have "same_waits ?s2 s OMpl j" if "j \<noteq> i" for j
    by (rule same_waits_trans [OF same_waits_tcbs same_waits_delete [OF k, of OMpl _ _ i]])
      (use that in simp_all)
  then have "mpl_ok ?s2" if "mpl_exists i s"
    by (intro mplo.delete [OF ok, of i]) (use that w in \<open>simp_all add: mpl_exists_def\<close>)
  then show ?thesis using ok by (simp add: tk_del_mpl_def Let_def mpl_exists_def)
qed

section \<open>The hooks of the wait specification\<close>

definition mpl_rel_hook :: "hook \<Rightarrow> ID \<Rightarrow> 'a mpl_st_scheme \<Rightarrow> 'a mpl_st_scheme" where
  "mpl_rel_hook h t s = (if h = H_mpl_rel_wai then mpl_rel_wai t s else s)"

lemma mpl_chg_pri_ok:
  fixes s :: "'a mpl_st_scheme"
  assumes ok: "mpl_ok s" and t: "t \<in> set (que s (WaitQ OMpl i))"
  shows "mpl_ok (mpl_chg_pri t old s)"
proof -
  note k = mpl_okD(1) [OF ok]
  have w: "in_wait (tstate (tcbs s t))" "wid (tcbs s t) = i" using kinv_xD(5) [OF k t] by auto
  have ex: "mpl_exists i s" using mplo.waits_exists [OF mpl_okD(2) [OF ok] t] by (simp add: mpl_exists_def)
  let ?s' = "gcb_change_priority (WaitQ OMpl i) t s"
  have ti: "set (que ?s' (WaitQ OMpl i)) = set (que s (WaitQ OMpl i))"
    using t by (auto simp: gcb_change_priority_que)
  have pre': "mpl_obj_pre i ?s'"
    using mpl_okD(3) [OF ok ex] unfolding mpl_obj_pre_def Let_def ti mpl_frame gcb_change_priority_frame by simp
  have "mpl_weak i ?s'"
  proof (rule mplo.frame_weak [OF mpl_okD(2) [OF ok, of i] gcb_change_priority_kinv_x [OF k w]])
    show "same_waits ?s' s kd j" if "j \<noteq> i" "kd \<in> {OMpl}" for kd j
    proof -
      have "t \<notin> set (que s (WaitQ OMpl j))"
        using t that que_okD [OF kinv_xD(2) [OF k], of t "WaitQ OMpl j" "WaitQ OMpl i"] by auto
      then show ?thesis using that by (simp add: same_waits_def gcb_change_priority_que gcb_change_priority_frame)
    qed
  qed (use ex pre' in \<open>simp_all add: mpl_exists_def\<close>)
  moreover have "mpl_exists i ?s'" using ex by (simp add: mpl_exists_def)
  ultimately have "mpl_ok (mpl_wakeup i ?s')" by (rule mpl_wakeup_ok)
  moreover have "mpl_ok (mpl_wakeup i s)" using mpl_okD(2) [OF ok] ex by (rule mpl_wakeup_ok)
  ultimately show ?thesis by (simp add: mpl_chg_pri_def Let_def w)
qed

text \<open>A waiting task that is released by force or by time: those behind it may fit now.\<close>

lemma mpl_left_ok:
  fixes s s1 :: "'a mpl_st_scheme"
  assumes ok: "mpl_ok s" and t: "t \<in> set (que s (WaitQ OMpl i))"
    and k: "kinv s1" and q: "\<And>k j. que s1 (WaitQ k j) = removeAll t (que s (WaitQ k j))"
    and v: "\<And>u. winfo (tcbs s1 u) = winfo (tcbs s u)" "\<And>u. wspec (tcbs s1 u) = wspec (tcbs s u)"
      "wid (tcbs s1 t) = wid (tcbs s t)"
    and m: "kst.more s1 = kst.more s"
  shows "mpl_ok (case rel_wai_hook (wspec (tcbs s1 t)) of None \<Rightarrow> s1 | Some h \<Rightarrow> mpl_rel_hook h t s1)"
proof -
  note same = mpl_more [OF mpf_more_kst [OF m]]
  have ex: "mpl_exists i s" using mplo.waits_exists [OF mpl_okD(2) [OF ok] t] by (simp add: mpl_exists_def)
  note pre = mpl_okD(3) [OF ok ex]
  have w: "wid (tcbs s t) = i" using kinv_xD(5) [OF mpl_okD(1) [OF ok] t] by auto
  have "mpl_obj_pre i s1" using pre unfolding mpl_obj_pre_def Let_def v same q by simp
  moreover have "same_waits s1 s OMpl j" if "j \<noteq> i" for j
  proof -
    have "t \<notin> set (que s (WaitQ OMpl j))"
      using that t que_okD [OF kinv_xD(2) [OF mpl_okD(1) [OF ok]], of t "WaitQ OMpl j" "WaitQ OMpl i"] by auto
    then show ?thesis by (simp add: same_waits_def q v removeAll_id)
  qed
  ultimately have "mpl_weak i s1"
    by (intro mplo.frame_weak [OF mpl_okD(2) [OF ok] k]) (use same ex in \<open>simp_all add: mpl_exists_def\<close>)
  moreover have "mpl_exists i s1" using ex by (simp add: mpl_exists_def same)
  ultimately have "mpl_ok (mpl_wakeup i s1)" by (rule mpl_wakeup_ok)
  moreover have "rel_wai_hook (wspec (tcbs s t)) = Some H_mpl_rel_wai"
    using pre t by (simp add: mpl_obj_pre_def Let_def)
  ultimately show ?thesis by (simp add: v mpl_rel_hook_def mpl_rel_wai_def mpl_chg_pri_def w)
qed

lemma mpl_wait_release_ng_ok:
  fixes s :: "'a mpl_st_scheme"
  assumes ok: "mpl_ok s" and t: "t \<in> set (que s (WaitQ OMpl i))"
  shows "mpl_ok (wait_release_ng mpl_rel_hook t e s)"
proof -
  note k = mpl_okD(1) [OF ok]
  have w: "in_wait (tstate (tcbs s t))" using kinv_xD(5) [OF k t] by simp
  have "mpl_ok (case rel_wai_hook (wspec (tcbs (wait_release t s) t)) of None \<Rightarrow> wait_release t s
      | Some h \<Rightarrow> mpl_rel_hook h t (wait_release t s))"
    by (rule mpl_left_ok [OF ok t wait_release_kinv_x [OF k w] wait_release_que [OF k w]]) simp_all
  then show ?thesis by (simp add: wait_release_ng_def Let_def)
qed

lemma mpl_wait_release_tmout_ok:
  fixes s :: "'a mpl_st_scheme"
  assumes ok: "mpl_ok s" and t: "t \<in> set (que s (WaitQ OMpl i))"
  shows "mpl_ok (wait_release_tmout mpl_rel_hook t s)"
proof -
  let ?s1 = "make_non_wait t (que_remove t s)"
  note k = mpl_okD(1) [OF ok]
  have w: "in_wait (tstate (tcbs s t))" using kinv_xD(5) [OF k t] by simp
  have k0: "kinv (que_remove t s)" using k w by (intro que_remove_kinv_x) (auto dest: in_wait_not_ready)
  have k1: "kinv ?s1" using w by (intro make_non_wait_kinv_x [OF k0]) simp_all
  have q: "que ?s1 (WaitQ kd j) = removeAll t (que s (WaitQ kd j))" for kd j
    using make_ready_que [OF k0, of t] by (simp add: make_non_wait_def)
  have "mpl_ok (case rel_wai_hook (wspec (tcbs ?s1 t)) of None \<Rightarrow> ?s1
      | Some h \<Rightarrow> mpl_rel_hook h t ?s1)"
    by (rule mpl_left_ok [OF ok t k1 q]) simp_all
  then show ?thesis by (simp add: wait_release_tmout_def Let_def)
qed

inductive mpl_sys_step :: "'a mpl_st_scheme \<Rightarrow> 'a mpl_st_scheme \<Rightarrow> bool" where
  cre: "roundSize (cpl_mplsz pk) + 16 < 2 ^ 31 \<Longrightarrow> mpl_sys_step s (snd (tk_cre_mpl iamalloc pk s))"
| del: "mpl_sys_step s (snd (tk_del_mpl i s))"
| get: "in_ddsp s \<or> running (me s) s \<Longrightarrow> mpl_sys_step s (snd (tk_get_mpl i n p tmout s))"
| get_u: "in_ddsp s \<or> running (me s) s \<Longrightarrow> mpl_sys_step s (snd (tk_get_mpl_u i n p tmout s))"
| rel: "mpl_returnable i blk s \<Longrightarrow> tk_rel_mpl i blk s = Some (e, s') \<Longrightarrow> mpl_sys_step s s'"
| release: "t \<in> set (que s (WaitQ OMpl i)) \<Longrightarrow> mpl_sys_step s (wait_release_ng mpl_rel_hook t e s)"
| timeout: "t \<in> set (que s (WaitQ OMpl i)) \<Longrightarrow> mpl_sys_step s (wait_release_tmout mpl_rel_hook t s)"
| chg_pri: "t \<in> set (que s (WaitQ OMpl i)) \<Longrightarrow> mpl_sys_step s (mpl_chg_pri t old s)"
| dispatch: "mpl_sys_step s (s\<lparr>ctxtsk := schedtsk s\<rparr>)"

lemma mpl_sys_step_ok: "mpl_sys_step s s' \<Longrightarrow> mpl_ok s \<Longrightarrow> mpl_ok s'"
proof (induction rule: mpl_sys_step.induct)
  case (rel i blk s e s')
  then show ?case using tk_rel_mpl_ok [OF rel.prems rel.hyps(1)] by simp
qed (simp_all add: tk_cre_mpl_ok tk_del_mpl_ok tk_get_mpl_def tk_get_mpl_u_ok
    mpl_wait_release_ng_ok mpl_wait_release_tmout_ok mpl_chg_pri_ok)

lemma mpl_sys_steps_ok: "mpl_sys_step\<^sup>*\<^sup>* s s' \<Longrightarrow> mpl_ok s \<Longrightarrow> mpl_ok s'"
  by (induction rule: rtranclp_induct) (auto intro: mpl_sys_step_ok)

section \<open>What returning a block does\<close>

text \<open>The block is out no more, the first \<open>n\<close> waiting tasks are released with \<open>E_OK\<close> and have a new block
  each, and the next one does not fit.\<close>

lemma tk_rel_mpl_serves:
  fixes s :: "'a mpl_st_scheme"
  assumes ok: "mpl_ok s" and ex: "mpl_exists i s" and d: "\<not> in_ddsp s"
    and b: "blk \<in> blocks (mpl_pool (mplcb_table s i))"
  shows "\<exists>s' n bs. tk_rel_mpl i blk s = Some (E_OK, s') \<and> mpl_ok s' \<and>
    que s' (WaitQ OMpl i) = drop n (que s (WaitQ OMpl i)) \<and>
    (\<forall>u \<in> set (take n (que s (WaitQ OMpl i))).
       tstate (tcbs s' u) = released (tstate (tcbs s u)) \<and> wercd (tcbs s' u) = E_OK) \<and>
    length bs = n \<and> distinct bs \<and> set bs \<inter> (blocks (mpl_pool (mplcb_table s i)) - {blk}) = {} \<and>
    blocks (mpl_pool (mplcb_table s' i)) = blocks (mpl_pool (mplcb_table s i)) - {blk} \<union> set bs \<and>
    mpl_obj_settled i s'"
proof -
  obtain s1 where s1: "tk_rel_mpl i blk s = Some (E_OK, mpl_wakeup i s1)" "mpl_weak i s1" "mpl_exists i s1"
    "blocks (mpl_pool (mplcb_table s1 i)) = blocks (mpl_pool (mplcb_table s i)) - {blk}"
    "que s1 = que s" "tcbs s1 = tcbs s"
    using tk_rel_mpl_block [OF ok ex d b] .
  obtain n bs where w: "mpl_ok (mpl_wakeup i s1)" "que (mpl_wakeup i s1) (WaitQ OMpl i) = drop n (que s (WaitQ OMpl i))"
    "n \<le> length (que s (WaitQ OMpl i))"
    "\<And>u. tstate (tcbs (mpl_wakeup i s1) u) = (if u \<in> set (take n (que s (WaitQ OMpl i)))
        then released (tstate (tcbs s u)) else tstate (tcbs s u)) \<and>
      wercd (tcbs (mpl_wakeup i s1) u) = (if u \<in> set (take n (que s (WaitQ OMpl i))) then E_OK else wercd (tcbs s u))"
    "length bs = n" "distinct bs" "set bs \<inter> (blocks (mpl_pool (mplcb_table s i)) - {blk}) = {}"
    "blocks (mpl_pool (mplcb_table (mpl_wakeup i s1) i)) = blocks (mpl_pool (mplcb_table s i)) - {blk} \<union> set bs"
    using mpl_wakeup_all [OF s1(2,3)] unfolding Let_def s1(4-6) by blast
  have st: "mpl_obj_settled i (mpl_wakeup i s1)"
  proof (cases "mpl_exists i (mpl_wakeup i s1)")
    case False
    then show ?thesis using mpl_okD(5) [OF w(1) False] by (simp add: mpl_obj_settled_def)
  qed (rule mpl_okD(4) [OF w(1)])
  show ?thesis
    by (intro exI [of _ "mpl_wakeup i s1"] exI [of _ n] exI [of _ bs] conjI)
      (use s1(1) w st in \<open>simp_all\<close>)
qed
end
