(* ===== verification/Rendezvous.thy ===== *)
theory Rendezvous
  imports Mempool
begin

text \<open>
  Rendezvous ports (\<open>rendezvous.c\<close>). A caller waits in the call queue until a task accepts a pattern
  that meets its own, then, in no queue, until the accepting task replies; the accepting task may
  forward the caller to another port. The rendezvous number that names the meeting has the
  caller's task ID in its lower half. \<open>por_ok\<close> is the invariant: no caller waits that a waiting
  acceptor would take. \<open>rdv_inv\<close> says that rendezvous numbers name the tasks that wait for the
  reply.
\<close>

section \<open>State and operations\<close>

record porcb =
  porid :: ID
  por_exinf :: addr
  poratr :: ATR
  maxcmsz :: int
  maxrmsz :: int
  por_name :: "UB list"

record por_st = mpl_st +
  porcb_table :: "ID \<Rightarrow> porcb"
  free_porcb :: "ID list"
  max_porid :: ID

record t_cpor =
  cpo_exinf :: addr
  cpo_poratr :: ATR
  cpo_maxcmsz :: int
  cpo_maxrmsz :: int
  cpo_dsname :: "UB list"

record t_rpor =
  rpo_exinf :: addr
  rpo_wtsk :: ID
  rpo_atsk :: ID
  rpo_maxcmsz :: int
  rpo_maxrmsz :: int

definition upd_porcb :: "ID \<Rightarrow> (porcb \<Rightarrow> porcb) \<Rightarrow> 'a por_st_scheme \<Rightarrow> 'a por_st_scheme" where
  "upd_porcb i f s = s\<lparr>porcb_table := (porcb_table s)(i := f (porcb_table s i))\<rparr>"

definition rendezvous_initialize :: "int \<times> int \<Rightarrow> bool \<Rightarrow> 'a por_st_scheme \<Rightarrow> ER \<times> 'a por_st_scheme" where
  "rendezvous_initialize cfn malloc_ok s =
     (let s1 = s\<lparr>max_porid := snd cfn\<rparr>
      in if fst cfn < 1 \<or> max_porid s1 < 1 then (E_SYS, s1)
         else if \<not> malloc_ok then (E_NOMEM, s1)
         else (E_OK, fold (\<lambda>i s. (upd_porcb i (\<lambda>c. c\<lparr>porid := 0\<rparr>) s)\<lparr>free_porcb := free_porcb s @ [i]\<rparr>)
                       [1..max_porid s1] (s1\<lparr>free_porcb := []\<rparr>)))"

definition RDVNO_SHIFT :: nat where "RDVNO_SHIFT = 16"

definition gen_rdvno :: "ID \<Rightarrow> 'a kst_scheme \<Rightarrow> RNO \<times> 'a kst_scheme" where
  "gen_rdvno t s =
     (wrdvno (tcbs s t), tcb_upd t (\<lambda>c. c\<lparr>wrdvno := wrdvno c + push_bit RDVNO_SHIFT 1\<rparr>) s)"

definition get_tskid_rdvno :: "RNO \<Rightarrow> ID" where
  "get_tskid_rdvno r = uint (r AND (push_bit RDVNO_SHIFT 1 - 1))"

definition cal_chg_pri :: "ID \<Rightarrow> int \<Rightarrow> 'a por_st_scheme \<Rightarrow> 'a por_st_scheme" where
  "cal_chg_pri t oldpri s = gcb_change_priority (WaitQ OCal (wid (tcbs s t))) t s"

definition wspec_cal_tfifo :: wspec where
  "wspec_cal_tfifo = \<lparr>tskwait = TTW_CAL, chg_pri_hook = None, rel_wai_hook = None\<rparr>"

definition wspec_cal_tpri :: wspec where
  "wspec_cal_tpri = \<lparr>tskwait = TTW_CAL, chg_pri_hook = Some H_cal_chg_pri, rel_wai_hook = None\<rparr>"

definition wspec_acp :: wspec where
  "wspec_acp = \<lparr>tskwait = TTW_ACP, chg_pri_hook = None, rel_wai_hook = None\<rparr>"

definition wspec_rdv :: wspec where
  "wspec_rdv = \<lparr>tskwait = TTW_RDV, chg_pri_hook = None, rel_wai_hook = None\<rparr>"

text \<open>None of these waits has a release hook, so \<open>wait_release_ng\<close> calls none.\<close>

definition no_hook :: "hook \<Rightarrow> ID \<Rightarrow> 'a kst_scheme \<Rightarrow> 'a kst_scheme" where
  "no_hook h t s = s"

definition VALID_PORATR :: ATR where
  "VALID_PORATR = TA_TPRI OR TA_NODISWAI OR TA_DSNAME"

definition tk_cre_por :: "t_cpor \<Rightarrow> 'a por_st_scheme \<Rightarrow> ER \<times> 'a por_st_scheme" where
  "tk_cre_por pk s =
     (if \<not> chk_rsatr (cpo_poratr pk) VALID_PORATR then (E_RSATR, s)
      else if \<not> cpo_maxcmsz pk \<ge> 0 then (E_PAR, s)
      else if \<not> cpo_maxrmsz pk \<ge> 0 then (E_PAR, s)
      else if in_indp s then (E_CTX, s)
      else (case free_porcb s of
              [] \<Rightarrow> (E_LIMIT, s)
            | i # free \<Rightarrow>
                let s1 = upd_porcb i (\<lambda>c. c\<lparr>porid := i, por_exinf := cpo_exinf pk, poratr := cpo_poratr pk,
                           maxcmsz := cpo_maxcmsz pk, maxrmsz := cpo_maxrmsz pk\<rparr>)
                           (s\<lparr>free_porcb := free\<rparr>);
                    s2 = (if has (cpo_poratr pk) TA_DSNAME
                          then upd_porcb i (\<lambda>c. c\<lparr>por_name :=
                                 tkl_strncpy (cpo_dsname pk) OBJECT_NAME_LENGTH\<rparr>) s1
                          else s1)
                in (i, s2)))"

definition tk_del_por :: "ID \<Rightarrow> 'a por_st_scheme \<Rightarrow> ER \<times> 'a por_st_scheme" where
  "tk_del_por i s =
     (if \<not> chk_id (max_porid s) i then (E_ID, s)
      else if in_indp s then (E_CTX, s)
      else if porid (porcb_table s i) = 0 then (E_NOEXS, s)
      else
        (let s1 = wait_delete OAcp i (wait_delete OCal i s);
             s2 = s1\<lparr>free_porcb := free_porcb s1 @ [i]\<rparr>
         in (E_OK, upd_porcb i (\<lambda>c. c\<lparr>porid := 0\<rparr>) s2)))"

text \<open>The first task of a queue whose pattern meets \<open>ptn\<close>.\<close>

definition find_acp :: "UINT \<Rightarrow> ID \<Rightarrow> 'a kst_scheme \<Rightarrow> ID option" where
  "find_acp calptn i s = find (\<lambda>u. calptn AND acp_acpptn (winfo (tcbs s u)) \<noteq> 0) (que s (WaitQ OAcp i))"

definition find_cal :: "UINT \<Rightarrow> ID \<Rightarrow> 'a kst_scheme \<Rightarrow> ID option" where
  "find_cal acpptn i s = find (\<lambda>u. acpptn AND cal_calptn (winfo (tcbs s u)) \<noteq> 0) (que s (WaitQ OCal i))"

text \<open>\<open>MEMCPY\<close> of a message, for a size that is positive.\<close>

definition put_msg :: "addr \<Rightarrow> addr \<Rightarrow> int \<Rightarrow> 'a kst_scheme \<Rightarrow> 'a kst_scheme" where
  "put_msg dst src n s =
     (if n > 0 then s\<lparr>mem_byte := copy_mem dst src (word_of_int n) (mem_byte s)\<rparr> else s)"

text \<open>\<open>Send message\<close>: the waiting acceptor \<open>u\<close> gets the message, the number and the size, and is released.\<close>

definition rdv_send :: "ID \<Rightarrow> RNO \<Rightarrow> addr \<Rightarrow> int \<Rightarrow> 'a kst_scheme \<Rightarrow> 'a kst_scheme" where
  "rdv_send u rdvno msg n s =
     (let w = winfo (tcbs s u);
          s1 = put_msg (acp_msg w) msg n s;
          s2 = s1\<lparr>mem_uint := (mem_uint s1)(acp_p_rdvno w := rdvno)\<rparr>;
          s3 = s2\<lparr>mem_int := (mem_int s2)(acp_p_cmsgsz w := n)\<rparr>
      in wait_release_ok u s3)"

text \<open>\<open>p_rmsgsz\<close> is the address of the local variable \<open>rmsgsz\<close>.\<close>

definition rdv_wait :: "RNO \<Rightarrow> addr \<Rightarrow> addr \<Rightarrow> ID \<Rightarrow> 'a por_st_scheme \<Rightarrow> 'a por_st_scheme" where
  "rdv_wait rdvno msg p_rmsgsz i s =
     (let cb = porcb_table s i
      in make_wait TMO_FEVR (poratr cb)
           (tcb_upd (me s) (\<lambda>c. c\<lparr>wspec := wspec_rdv, wid := 0, wercd := E_TMOUT,
              winfo := WI_rdv rdvno msg (maxrmsz cb) p_rmsgsz\<rparr>) s))"

definition tk_cal_por_u ::
  "addr \<Rightarrow> ID \<Rightarrow> UINT \<Rightarrow> addr \<Rightarrow> int \<Rightarrow> int \<Rightarrow> 'a por_st_scheme \<Rightarrow> sysret \<times> 'a por_st_scheme" where
  "tk_cal_por_u p_rmsgsz i calptn msg cmsgsz tmout s =
     (if \<not> chk_id (max_porid s) i then (Ret E_ID, s)
      else if \<not> calptn \<noteq> 0 then (Ret E_PAR, s)
      else if \<not> cmsgsz \<ge> 0 then (Ret E_PAR, s)
      else if \<not> chk_tmout tmout then (Ret E_PAR, s)
      else if in_ddsp s then (Ret E_CTX, s)
      else
        (let cb = porcb_table s i; t = me s
         in if porid cb = 0 then (Ret E_NOEXS, s)
            else if cmsgsz > maxcmsz cb then (Ret E_PAR, s)
            else
              (case find_acp calptn i s of
                 Some u \<Rightarrow>
                   if is_diswai (poratr cb) t TTW_CAL s then (Ret E_DISWAI, s)
                   else
                     (let (rdvno, s1) = gen_rdvno t s;
                          s2 = rdv_send u rdvno msg cmsgsz s1
                      in if is_diswai (poratr cb) t TTW_RDV s2 then (Ret E_DISWAI, s2)
                         else (Blocked, rdv_wait rdvno msg p_rmsgsz i s2))
               | None \<Rightarrow>
                   let s2 = call_wait OCal i (poratr cb) tmout
                          (if has (poratr cb) TA_TPRI then wspec_cal_tpri else wspec_cal_tfifo)
                          (WI_cal calptn msg cmsgsz p_rmsgsz) s
                   in (wait_ret s2, s2))))"

definition tk_cal_por ::
  "addr \<Rightarrow> ID \<Rightarrow> UINT \<Rightarrow> addr \<Rightarrow> int \<Rightarrow> int \<Rightarrow> 'a por_st_scheme \<Rightarrow> sysret \<times> 'a por_st_scheme" where
  "tk_cal_por p_rmsgsz i calptn msg cmsgsz tmout s =
     tk_cal_por_u p_rmsgsz i calptn msg cmsgsz (to_usec_tmo tmout) s"

text \<open>What the calls return to a task that waited, once it is released.\<close>

definition rdv_result :: "addr \<Rightarrow> ID \<Rightarrow> 'a kst_scheme \<Rightarrow> int" where
  "rdv_result p_msgsz t s =
     (if wercd (tcbs s t) < E_OK then wercd (tcbs s t) else mem_int s p_msgsz)"

text \<open>The accepted caller \<open>u\<close> leaves the call queue and waits for the reply.\<close>

definition rdv_accept :: "ID \<Rightarrow> RNO \<Rightarrow> int \<Rightarrow> 'a kst_scheme \<Rightarrow> 'a kst_scheme" where
  "rdv_accept u rdvno maxsz s =
     (let s1 = wait_cancel u s;
          s2 = tcb_upd u (\<lambda>c. c\<lparr>wspec := wspec_rdv, wid := 0,
                 winfo := WI_rdv rdvno (cal_msg (winfo c)) maxsz (cal_p_rmsgsz (winfo c))\<rparr>) s1
      in timer_insert (TskTm u) TMO_FEVR (Some (CB_wait_release_tmout u)) s2)"

text \<open>\<open>p_cmsgsz\<close> is the address of the local variable \<open>cmsgsz\<close>.\<close>

definition acp_wait :: "addr \<Rightarrow> ID \<Rightarrow> UINT \<Rightarrow> addr \<Rightarrow> addr \<Rightarrow> int \<Rightarrow> 'a por_st_scheme \<Rightarrow> 'a por_st_scheme" where
  "acp_wait p_cmsgsz i acpptn p_rdvno msg tmout s =
     (let t = me s;
          s1 = tcb_upd t (\<lambda>c. c\<lparr>wspec := wspec_acp, wid := i, wercd := E_TMOUT,
                 winfo := WI_acp acpptn msg p_rdvno p_cmsgsz\<rparr>) s;
          s2 = make_wait tmout (poratr (porcb_table s i)) s1
      in que_insert t (WaitQ OAcp i) s2)"

definition tk_acp_por_u ::
  "addr \<Rightarrow> ID \<Rightarrow> UINT \<Rightarrow> addr \<Rightarrow> addr \<Rightarrow> int \<Rightarrow> 'a por_st_scheme \<Rightarrow> sysret \<times> 'a por_st_scheme" where
  "tk_acp_por_u p_cmsgsz i acpptn p_rdvno msg tmout s =
     (if \<not> chk_id (max_porid s) i then (Ret E_ID, s)
      else if \<not> acpptn \<noteq> 0 then (Ret E_PAR, s)
      else if \<not> chk_tmout tmout then (Ret E_PAR, s)
      else if in_ddsp s then (Ret E_CTX, s)
      else
        (let cb = porcb_table s i; t = me s
         in if porid cb = 0 then (Ret E_NOEXS, s)
            else
              (case find_cal acpptn i s of
                 Some u \<Rightarrow>
                   if is_diswai (poratr cb) t TTW_ACP s then (Ret E_DISWAI, s)
                   else
                     (let (rdvno, s1) = gen_rdvno u s;
                          s2 = s1\<lparr>mem_uint := (mem_uint s1)(p_rdvno := rdvno)\<rparr>;
                          cmsgsz = cal_cmsgsz (winfo (tcbs s u));
                          s3 = put_msg msg (cal_msg (winfo (tcbs s u))) cmsgsz s2
                      in if is_diswai (poratr cb) u TTW_RDV s3
                         then (Ret cmsgsz, wait_release_ng no_hook u E_DISWAI s3)
                         else (Ret cmsgsz, rdv_accept u rdvno (maxrmsz cb) s3))
               | None \<Rightarrow>
                   if is_diswai (poratr cb) t TTW_ACP s then (Ret E_DISWAI, s)
                   else if tmout \<noteq> TMO_POL
                   then (Blocked, acp_wait p_cmsgsz i acpptn p_rdvno msg tmout s)
                   else (Ret E_TMOUT, s))))"

definition tk_acp_por ::
  "addr \<Rightarrow> ID \<Rightarrow> UINT \<Rightarrow> addr \<Rightarrow> addr \<Rightarrow> int \<Rightarrow> 'a por_st_scheme \<Rightarrow> sysret \<times> 'a por_st_scheme" where
  "tk_acp_por p_cmsgsz i acpptn p_rdvno msg tmout s =
     tk_acp_por_u p_cmsgsz i acpptn p_rdvno msg (to_usec_tmo tmout) s"

text \<open>The task \<open>t\<close> waits for the end of the rendezvous \<open>rdvno\<close>.\<close>

definition in_rdv :: "RNO \<Rightarrow> ID \<Rightarrow> 'a kst_scheme \<Rightarrow> bool" where
  "in_rdv rdvno t s \<longleftrightarrow>
     in_wait (tstate (tcbs s t)) \<and> wspec (tcbs s t) = wspec_rdv \<and> rdvno = rdv_rdvno (winfo (tcbs s t))"

text \<open>Forwarding. The members \<open>msg\<close> and \<open>p_rmsgsz\<close> of \<open>winfo.cal\<close> and \<open>winfo.rdv\<close> are at the same place of
  the union.\<close>

definition rdv_forward :: "ID \<Rightarrow> RNO \<Rightarrow> ID \<Rightarrow> 'a por_st_scheme \<Rightarrow> 'a por_st_scheme" where
  "rdv_forward cal new_rdvno i s =
     (let cb = porcb_table s i
      in tcb_upd cal (\<lambda>c. c\<lparr>winfo := WI_rdv new_rdvno (rdv_msg (winfo c)) (maxrmsz cb) (rdv_p_rmsgsz (winfo c)),
           nodiswai := has (poratr cb) TA_NODISWAI\<rparr>) s)"

definition rdv_requeue :: "ID \<Rightarrow> UINT \<Rightarrow> addr \<Rightarrow> int \<Rightarrow> ID \<Rightarrow> 'a por_st_scheme \<Rightarrow> 'a por_st_scheme" where
  "rdv_requeue cal calptn msg cmsgsz i s =
     (let cb = porcb_table s i;
          s1 = tcb_upd cal (\<lambda>c. c\<lparr>
                 wspec := (if has (poratr cb) TA_TPRI then wspec_cal_tpri else wspec_cal_tfifo), wid := i,
                 winfo := WI_cal calptn (rdv_msg (winfo c)) cmsgsz (rdv_p_rmsgsz (winfo c)),
                 nodiswai := has (poratr cb) TA_NODISWAI\<rparr>) s;
          s2 = timer_insert (TskTm cal) TMO_FEVR (Some (CB_wait_release_tmout cal)) s1;
          s3 = connect_wait (poratr cb) cal (WaitQ OCal i) s2
      in put_msg (cal_msg (winfo (tcbs s3 cal))) msg cmsgsz s3)"

definition tk_fwd_por ::
  "ID \<Rightarrow> UINT \<Rightarrow> RNO \<Rightarrow> addr \<Rightarrow> int \<Rightarrow> 'a por_st_scheme \<Rightarrow> ER \<times> 'a por_st_scheme" where
  "tk_fwd_por i calptn rdvno msg cmsgsz s =
     (if \<not> chk_id (max_porid s) i then (E_ID, s)
      else if \<not> calptn \<noteq> 0 then (E_PAR, s)
      else if \<not> chk_id (max_tskid s) (get_tskid_rdvno rdvno) then (E_OBJ, s)
      else if \<not> cmsgsz \<ge> 0 then (E_PAR, s)
      else if in_indp s then (E_CTX, s)
      else
        (let cb = porcb_table s i; cal = get_tskid_rdvno rdvno
         in if porid cb = 0 then (E_NOEXS, s)
            else if cmsgsz > maxcmsz cb then (E_PAR, s)
            else if \<not> in_rdv rdvno cal s then (E_OBJ, s)
            else if maxrmsz cb > rdv_maxrmsz (winfo (tcbs s cal)) then (E_OBJ, s)
            else if cmsgsz > rdv_maxrmsz (winfo (tcbs s cal)) then (E_PAR, s)
            else
              (case find_acp calptn i s of
                 Some u \<Rightarrow>
                   if is_diswai (poratr cb) cal TTW_CAL s
                   then (E_DISWAI, wait_release_ng no_hook cal E_DISWAI s)
                   else
                     (let (new_rdvno, s1) = gen_rdvno cal s;
                          s2 = rdv_send u new_rdvno msg cmsgsz s1
                      in if is_diswai (poratr cb) cal TTW_RDV s2
                         then (E_DISWAI, wait_release_ng no_hook cal E_DISWAI s2)
                         else (E_OK, rdv_forward cal new_rdvno i s2))
               | None \<Rightarrow>
                   if is_diswai (poratr cb) cal TTW_CAL s
                   then (E_DISWAI, wait_release_ng no_hook cal E_DISWAI s)
                   else (E_OK, rdv_requeue cal calptn msg cmsgsz i s))))"

definition tk_rpl_rdv :: "RNO \<Rightarrow> addr \<Rightarrow> int \<Rightarrow> 'a por_st_scheme \<Rightarrow> ER \<times> 'a por_st_scheme" where
  "tk_rpl_rdv rdvno msg rmsgsz s =
     (if \<not> chk_id (max_tskid s) (get_tskid_rdvno rdvno) then (E_OBJ, s)
      else if \<not> rmsgsz \<ge> 0 then (E_PAR, s)
      else if in_indp s then (E_CTX, s)
      else
        (let cal = get_tskid_rdvno rdvno; w = winfo (tcbs s cal)
         in if \<not> in_rdv rdvno cal s then (E_OBJ, s)
            else if rmsgsz > rdv_maxrmsz w then (E_PAR, s)
            else
              (let s1 = put_msg (rdv_msg w) msg rmsgsz s;
                   s2 = s1\<lparr>mem_int := (mem_int s1)(rdv_p_rmsgsz w := rmsgsz)\<rparr>
               in (E_OK, wait_release_ok cal s2))))"

definition tk_ref_por :: "ID \<Rightarrow> 'a por_st_scheme \<Rightarrow> ER \<times> t_rpor option" where
  "tk_ref_por i s =
     (if \<not> chk_id (max_porid s) i then (E_ID, None)
      else if porid (porcb_table s i) = 0 then (E_NOEXS, None)
      else (E_OK, Some \<lparr>rpo_exinf = por_exinf (porcb_table s i), rpo_wtsk = wait_tskid (WaitQ OCal i) s,
              rpo_atsk = wait_tskid (WaitQ OAcp i) s, rpo_maxcmsz = maxcmsz (porcb_table s i),
              rpo_maxrmsz = maxrmsz (porcb_table s i)\<rparr>))"

definition rendezvous_getname :: "ID \<Rightarrow> 'a por_st_scheme \<Rightarrow> ER \<times> UB list option" where
  "rendezvous_getname i s =
     (if \<not> chk_id (max_porid s) i then (E_ID, None)
      else if porid (porcb_table s i) = 0 then (E_NOEXS, None)
      else if \<not> has (poratr (porcb_table s i)) TA_DSNAME then (E_OBJ, None)
      else (E_OK, Some (por_name (porcb_table s i))))"

definition td_lst_por :: "int \<Rightarrow> 'a por_st_scheme \<Rightarrow> int \<times> ID list" where
  "td_lst_por nent s =
     (let ids = filter (\<lambda>j. porid (porcb_table s j) \<noteq> 0) [1..max_porid s]
      in (int (length ids), take (nat nent) (map (\<lambda>j. porid (porcb_table s j)) ids)))"

definition td_ref_por :: "ID \<Rightarrow> 'a por_st_scheme \<Rightarrow> ER \<times> t_rpor option" where
  "td_ref_por i s =
     (if \<not> chk_id (max_porid s) i then (E_ID, None)
      else if porid (porcb_table s i) = 0 then (E_NOEXS, None)
      else (E_OK, Some \<lparr>rpo_exinf = por_exinf (porcb_table s i), rpo_wtsk = wait_tskid (WaitQ OCal i) s,
              rpo_atsk = wait_tskid (WaitQ OAcp i) s, rpo_maxcmsz = maxcmsz (porcb_table s i),
              rpo_maxrmsz = maxrmsz (porcb_table s i)\<rparr>))"

definition td_cal_que :: "ID \<Rightarrow> int \<Rightarrow> 'a por_st_scheme \<Rightarrow> int \<times> ID list" where
  "td_cal_que i nent s =
     (if \<not> chk_id (max_porid s) i then (E_ID, [])
      else if porid (porcb_table s i) = 0 then (E_NOEXS, [])
      else (let xs = que s (WaitQ OCal i) in (int (length xs), take (nat nent) xs)))"

definition td_acp_que :: "ID \<Rightarrow> int \<Rightarrow> 'a por_st_scheme \<Rightarrow> int \<times> ID list" where
  "td_acp_que i nent s =
     (if \<not> chk_id (max_porid s) i then (E_ID, [])
      else if porid (porcb_table s i) = 0 then (E_NOEXS, [])
      else (let xs = que s (WaitQ OAcp i) in (int (length xs), take (nat nent) xs)))"

text \<open>What the other operations leave unchanged.\<close>

lemma por_more:
  assumes "mpl_st.more s' = mpl_st.more s"
  shows "porcb_table s' = porcb_table s" "free_porcb s' = free_porcb s" "max_porid s' = max_porid s"
  using assms by (cases s; cases s'; simp add: por_st.defs)+

lemma mpl_more_kst: "kst.more s' = kst.more s \<Longrightarrow> mpl_st.more s' = mpl_st.more s"
  by (cases s; cases s'; simp add: mpl_st.defs)

lemma wait_release_ng_no_hook [simp]: "wait_release_ng no_hook t e s = wait_release_ok_ercd t e s"
  by (simp add: wait_release_ng_def wait_release_ok_ercd_def no_hook_def Let_def split: option.split)

lemma put_msg_frame [simp]:
  "tcbs (put_msg d p n s) = tcbs s" "que (put_msg d p n s) = que s" "ctxtsk (put_msg d p n s) = ctxtsk s"
  "mem_int (put_msg d p n s) = mem_int s" "mem_uint (put_msg d p n s) = mem_uint s"
  "max_tskid (put_msg d p n s) = max_tskid s" "kst.more (put_msg d p n s) = kst.more s"
  "kinv_x X (put_msg d p n s) = kinv_x X s" "sched_ok (put_msg d p n s) = sched_ok s"
  by (simp_all add: put_msg_def)

lemma gen_rdvno_frame [simp]:
  "que (snd (gen_rdvno t s)) = que s" "ctxtsk (snd (gen_rdvno t s)) = ctxtsk s"
  "kst.more (snd (gen_rdvno t s)) = kst.more s" "kinv_x X (snd (gen_rdvno t s)) = kinv_x X s"
  "max_tskid (snd (gen_rdvno t s)) = max_tskid s" "fst (gen_rdvno t s) = wrdvno (tcbs s t)"
  "tstate (tcbs (snd (gen_rdvno t s)) u) = tstate (tcbs s u)" "winfo (tcbs (snd (gen_rdvno t s)) u) = winfo (tcbs s u)"
  "wspec (tcbs (snd (gen_rdvno t s)) u) = wspec (tcbs s u)" "wercd (tcbs (snd (gen_rdvno t s)) u) = wercd (tcbs s u)"
  "waitmask (tcbs (snd (gen_rdvno t s)) u) = waitmask (tcbs s u)" "wid (tcbs (snd (gen_rdvno t s)) u) = wid (tcbs s u)"
  by (simp_all add: gen_rdvno_def tcb_upd_kinv_same)

lemma rdv_send_frame [simp]:
  "kst.more (rdv_send u r p n s) = kst.more s" "ctxtsk (rdv_send u r p n s) = ctxtsk s"
  by (simp_all add: rdv_send_def Let_def)

lemma rdv_accept_frame [simp]:
  "kst.more (rdv_accept u r n s) = kst.more s" "ctxtsk (rdv_accept u r n s) = ctxtsk s"
  by (simp_all add: rdv_accept_def wait_cancel_def Let_def)

lemma por_frame [simp]:
  "porcb_table (call_wait kd i atr tmo w wi s) = porcb_table s" "free_porcb (call_wait kd i atr tmo w wi s) = free_porcb s" "max_porid (call_wait kd i atr tmo w wi s) = max_porid s"
  "porcb_table (set_wercd t e s) = porcb_table s" "free_porcb (set_wercd t e s) = free_porcb s" "max_porid (set_wercd t e s) = max_porid s"
  "porcb_table (tcb_upd t f s) = porcb_table s" "free_porcb (tcb_upd t f s) = free_porcb s" "max_porid (tcb_upd t f s) = max_porid s"
  "porcb_table (que_remove t s) = porcb_table s" "free_porcb (que_remove t s) = free_porcb s" "max_porid (que_remove t s) = max_porid s"
  "porcb_table (que_insert t q s) = porcb_table s" "free_porcb (que_insert t q s) = free_porcb s" "max_porid (que_insert t q s) = max_porid s"
  "porcb_table (connect_wait a t q s) = porcb_table s" "free_porcb (connect_wait a t q s) = free_porcb s" "max_porid (connect_wait a t q s) = max_porid s"
  "porcb_table (wait_release t s) = porcb_table s" "free_porcb (wait_release t s) = free_porcb s" "max_porid (wait_release t s) = max_porid s"
  "porcb_table (wait_release_ok t s) = porcb_table s" "free_porcb (wait_release_ok t s) = free_porcb s" "max_porid (wait_release_ok t s) = max_porid s"
  "porcb_table (wait_release_ok_ercd t e s) = porcb_table s" "free_porcb (wait_release_ok_ercd t e s) = free_porcb s" "max_porid (wait_release_ok_ercd t e s) = max_porid s"
  "porcb_table (queue_insert_tpri t q s) = porcb_table s" "free_porcb (queue_insert_tpri t q s) = free_porcb s" "max_porid (queue_insert_tpri t q s) = max_porid s"
  "porcb_table (gcb_change_priority q t s) = porcb_table s" "free_porcb (gcb_change_priority q t s) = free_porcb s" "max_porid (gcb_change_priority q t s) = max_porid s"
  "porcb_table (gcb_make_wait k i a tmo s) = porcb_table s" "free_porcb (gcb_make_wait k i a tmo s) = free_porcb s" "max_porid (gcb_make_wait k i a tmo s) = max_porid s"
  "porcb_table (gcb_make_wait_with_diswai k i a tmo s) = porcb_table s" "free_porcb (gcb_make_wait_with_diswai k i a tmo s) = free_porcb s" "max_porid (gcb_make_wait_with_diswai k i a tmo s) = max_porid s"
  "porcb_table (wait_delete k i s) = porcb_table s" "free_porcb (wait_delete k i s) = free_porcb s" "max_porid (wait_delete k i s) = max_porid s"
  "porcb_table (make_wait tmo a s) = porcb_table s" "free_porcb (make_wait tmo a s) = free_porcb s" "max_porid (make_wait tmo a s) = max_porid s"
  "porcb_table (make_wait_reltim rt a s) = porcb_table s" "free_porcb (make_wait_reltim rt a s) = free_porcb s" "max_porid (make_wait_reltim rt a s) = max_porid s"
  "porcb_table (make_non_wait t s) = porcb_table s" "free_porcb (make_non_wait t s) = free_porcb s" "max_porid (make_non_wait t s) = max_porid s"
  "porcb_table (timer_insert ev tmo cb s) = porcb_table s" "free_porcb (timer_insert ev tmo cb s) = free_porcb s" "max_porid (timer_insert ev tmo cb s) = max_porid s"
  "porcb_table (timer_delete ev s) = porcb_table s" "free_porcb (timer_delete ev s) = free_porcb s" "max_porid (timer_delete ev s) = max_porid s"
  "porcb_table (put_msg d p n s) = porcb_table s" "free_porcb (put_msg d p n s) = free_porcb s" "max_porid (put_msg d p n s) = max_porid s"
  "porcb_table (rdv_send u r p n s) = porcb_table s" "free_porcb (rdv_send u r p n s) = free_porcb s" "max_porid (rdv_send u r p n s) = max_porid s"
  "porcb_table (snd (gen_rdvno t s)) = porcb_table s" "free_porcb (snd (gen_rdvno t s)) = free_porcb s" "max_porid (snd (gen_rdvno t s)) = max_porid s"
  "porcb_table (rdv_accept u r n s) = porcb_table s" "free_porcb (rdv_accept u r n s) = free_porcb s" "max_porid (rdv_accept u r n s) = max_porid s"
  by (rule por_more, rule mpl_more_kst; simp add: gcb_change_priority_frame)+

lemma upd_porcb_sel [simp]:
  "porcb_table (upd_porcb i f s) j = (if j = i then f (porcb_table s i) else porcb_table s j)"
  "free_porcb (upd_porcb i f s) = free_porcb s" "max_porid (upd_porcb i f s) = max_porid s"
  "tcbs (upd_porcb i f s) = tcbs s" "que (upd_porcb i f s) = que s"
  "ctxtsk (upd_porcb i f s) = ctxtsk s"
  by (simp_all add: upd_porcb_def)

lemma kinv_por_upd [simp]:
  "kinv_x X (upd_porcb i f s) = kinv_x X s" "kinv_x X (s\<lparr>free_porcb := fr\<rparr>) = kinv_x X s"
  by (simp_all add: upd_porcb_def kinv_x_def rdq_ok_def)

lemma por_wspec_hooks [simp]:
  "rel_wai_hook wspec_cal_tpri = None" "rel_wai_hook wspec_cal_tfifo = None"
  "chg_pri_hook wspec_cal_tpri = Some H_cal_chg_pri" "chg_pri_hook wspec_cal_tfifo = None"
  "tskwait wspec_cal_tpri = TTW_CAL" "tskwait wspec_cal_tfifo = TTW_CAL"
  "rel_wai_hook wspec_acp = None" "chg_pri_hook wspec_acp = None" "tskwait wspec_acp = TTW_ACP"
  "rel_wai_hook wspec_rdv = None" "chg_pri_hook wspec_rdv = None" "tskwait wspec_rdv = TTW_RDV"
  by (simp_all add: wspec_cal_tpri_def wspec_cal_tfifo_def wspec_acp_def wspec_rdv_def)

lemma wspec_not_rdv [simp]: "wspec_cal_tpri \<noteq> wspec_rdv" "wspec_cal_tfifo \<noteq> wspec_rdv" "wspec_acp \<noteq> wspec_rdv"
  by (simp_all add: wspec_cal_tpri_def wspec_cal_tfifo_def wspec_acp_def wspec_rdv_def TTW_CAL_def TTW_ACP_def TTW_RDV_def)

section \<open>The invariant\<close>

definition por_exists :: "ID \<Rightarrow> 'a por_st_scheme \<Rightarrow> bool" where
  "por_exists i s \<longleftrightarrow> chk_id (max_porid s) i \<and> porid (porcb_table s i) \<noteq> 0"

definition por_obj_pre :: "ID \<Rightarrow> 'a por_st_scheme \<Rightarrow> bool" where
  "por_obj_pre i s \<longleftrightarrow>
     (let c = porcb_table s i
      in porid c = i \<and> 0 \<le> maxcmsz c \<and> 0 \<le> maxrmsz c \<and>
         (\<forall>t \<in> set (que s (WaitQ OCal i)).
            is_WI_cal (winfo (tcbs s t)) \<and>
            cal_calptn (winfo (tcbs s t)) \<noteq> 0 \<and> 0 \<le> cal_cmsgsz (winfo (tcbs s t)) \<and>
            cal_cmsgsz (winfo (tcbs s t)) \<le> maxcmsz c \<and>
            wspec (tcbs s t) = (if has (poratr c) TA_TPRI then wspec_cal_tpri else wspec_cal_tfifo)) \<and>
         (\<forall>t \<in> set (que s (WaitQ OAcp i)).
            is_WI_acp (winfo (tcbs s t)) \<and> acp_acpptn (winfo (tcbs s t)) \<noteq> 0 \<and>
            wspec (tcbs s t) = wspec_acp))"

text \<open>No waiting acceptor would take a waiting caller.\<close>

definition por_obj_settled :: "ID \<Rightarrow> 'a por_st_scheme \<Rightarrow> bool" where
  "por_obj_settled i s \<longleftrightarrow>
     (\<forall>t \<in> set (que s (WaitQ OCal i)). \<forall>u \<in> set (que s (WaitQ OAcp i)).
        cal_calptn (winfo (tcbs s t)) AND acp_acpptn (winfo (tcbs s u)) = 0)"

definition por_weak :: "ID \<Rightarrow> 'a por_st_scheme \<Rightarrow> bool" where
  "por_weak i s \<longleftrightarrow>
     kinv s \<and> distinct (free_porcb s) \<and>
     (\<forall>j. j \<in> set (free_porcb s) \<longleftrightarrow> chk_id (max_porid s) j \<and> porid (porcb_table s j) = 0) \<and>
     (\<forall>j. if por_exists j s then por_obj_pre j s \<and> (j \<noteq> i \<longrightarrow> por_obj_settled j s)
          else que s (WaitQ OCal j) = [] \<and> que s (WaitQ OAcp j) = [])"

definition por_ok :: "'a por_st_scheme \<Rightarrow> bool" where
  "por_ok s \<longleftrightarrow>
     kinv s \<and> distinct (free_porcb s) \<and>
     (\<forall>j. j \<in> set (free_porcb s) \<longleftrightarrow> chk_id (max_porid s) j \<and> porid (porcb_table s j) = 0) \<and>
     (\<forall>j. if por_exists j s then por_obj_pre j s \<and> por_obj_settled j s
          else que s (WaitQ OCal j) = [] \<and> que s (WaitQ OAcp j) = [])"

interpretation poro: leaving_pool "{OCal, OAcp}" max_porid free_porcb porcb_table porid
  por_obj_pre por_obj_settled por_ok por_weak
proof unfold_locales
  fix s s' :: "'a por_st_scheme" and j
  assume cb: "porcb_table s' j = porcb_table s j"
    and w: "\<And>k. k \<in> {OCal, OAcp} \<Longrightarrow> same_waits s' s k j"
  note wc = same_waitsD [OF w [of OCal, simplified]] and wa = same_waitsD [OF w [of OAcp, simplified]]
  show "por_obj_settled j s \<Longrightarrow> por_obj_settled j s'"
    unfolding por_obj_settled_def wc(1) wa(1) using wc(2) wa(2) by simp
  show "por_obj_pre j s \<Longrightarrow> por_obj_pre j s'"
    unfolding por_obj_pre_def Let_def cb wc(1) wa(1) using wc(2,3) wa(2,3) by simp
next
  fix s s' :: "'a por_st_scheme" and i t
  assume cb: "porcb_table s' i = porcb_table s i"
    and q: "\<And>k. k \<in> {OCal, OAcp} \<Longrightarrow> que s' (WaitQ k i) = removeAll t (que s (WaitQ k i))"
    and v: "\<And>u. winfo (tcbs s' u) = winfo (tcbs s u)" "\<And>u. wspec (tcbs s' u) = wspec (tcbs s u)"
    and p: "por_obj_pre i s"
  show "por_obj_pre i s' \<and> (por_obj_settled i s \<longrightarrow> por_obj_settled i s')"
    using p by (simp add: por_obj_pre_def por_obj_settled_def Let_def cb q v)
qed (auto simp: por_weak_def por_ok_def por_exists_def split: if_splits)

lemma por_okD:
  assumes "por_ok s"
  shows "kinv s" "por_weak i s" "por_exists i s \<Longrightarrow> por_obj_pre i s"
    "por_exists i s \<Longrightarrow> por_obj_settled i s"
    "\<not> por_exists i s \<Longrightarrow> que s (WaitQ OCal i) = [] \<and> que s (WaitQ OAcp i) = []"
  using assms poro.okD(1) [OF assms, of i] by (simp_all add: por_ok_def)

lemma por_preD:
  assumes "por_obj_pre i s"
  shows "t \<in> set (que s (WaitQ OCal i)) \<Longrightarrow> wspec (tcbs s t) \<noteq> wspec_rdv"
    "t \<in> set (que s (WaitQ OAcp i)) \<Longrightarrow> wspec (tcbs s t) \<noteq> wspec_rdv"
    "t \<in> set (que s (WaitQ OCal i)) \<Longrightarrow> rel_wai_hook (wspec (tcbs s t)) = None"
    "t \<in> set (que s (WaitQ OAcp i)) \<Longrightarrow> rel_wai_hook (wspec (tcbs s t)) = None"
  using assms by (auto simp: por_obj_pre_def Let_def)

text \<open>A rendezvous number names the task that waits for its end; such a task is in no queue.\<close>

definition rdv_waits :: "ID \<Rightarrow> 'a kst_scheme \<Rightarrow> bool" where
  "rdv_waits t s \<longleftrightarrow> in_wait (tstate (tcbs s t)) \<and> wspec (tcbs s t) = wspec_rdv"

definition rdv_inv :: "'a kst_scheme \<Rightarrow> bool" where
  "rdv_inv s \<longleftrightarrow>
     (\<forall>t. tstate (tcbs s t) \<noteq> TS_NONEXIST \<longrightarrow> get_tskid_rdvno (wrdvno (tcbs s t)) = t) \<and>
     (\<forall>t. rdv_waits t s \<longrightarrow> get_tskid_rdvno (rdv_rdvno (winfo (tcbs s t))) = t \<and>
        is_WI_rdv (winfo (tcbs s t)) \<and> (\<forall>k i. t \<notin> set (que s (WaitQ k i))))"

lemma rdv_invD:
  assumes "rdv_inv s"
  shows "tstate (tcbs s t) \<noteq> TS_NONEXIST \<Longrightarrow> get_tskid_rdvno (wrdvno (tcbs s t)) = t"
    "rdv_waits t s \<Longrightarrow> get_tskid_rdvno (rdv_rdvno (winfo (tcbs s t))) = t"
    "rdv_waits t s \<Longrightarrow> is_WI_rdv (winfo (tcbs s t))" "rdv_waits t s \<Longrightarrow> t \<notin> set (que s (WaitQ k i))"
  using assms unfolding rdv_inv_def by blast+

lemma rdv_inv_mem [simp]:
  "rdv_inv (s\<lparr>mem_uint := a\<rparr>) = rdv_inv s" "rdv_inv (s\<lparr>mem_int := b\<rparr>) = rdv_inv s"
  "rdv_inv (s\<lparr>mem_byte := m\<rparr>) = rdv_inv s" "rdv_inv (put_msg d p n s) = rdv_inv s"
  "rdv_inv (s\<lparr>ctxtsk := c\<rparr>) = rdv_inv s" "rdv_inv (upd_porcb i f (x :: 'b por_st_scheme)) = rdv_inv x"
  "rdv_inv ((x :: 'b por_st_scheme)\<lparr>free_porcb := fr\<rparr>) = rdv_inv x"
  by (simp_all add: rdv_inv_def rdv_waits_def put_msg_def)

text \<open>An operation that is concerned with the task \<open>x\<close>.\<close>

lemma rdv_inv_step:
  assumes inv: "rdv_inv s"
    and e: "\<And>u. tstate (tcbs s' u) \<noteq> TS_NONEXIST \<Longrightarrow> tstate (tcbs s u) \<noteq> TS_NONEXIST"
    and n: "\<And>u. get_tskid_rdvno (wrdvno (tcbs s' u)) = get_tskid_rdvno (wrdvno (tcbs s u))"
    and o: "\<And>u. u \<noteq> x \<Longrightarrow> rdv_waits u s' \<Longrightarrow> rdv_waits u s \<and> winfo (tcbs s' u) = winfo (tcbs s u) \<and>
      (\<forall>k i. u \<in> set (que s' (WaitQ k i)) \<longrightarrow> u \<in> set (que s (WaitQ k i)))"
    and x: "rdv_waits x s' \<Longrightarrow> get_tskid_rdvno (rdv_rdvno (winfo (tcbs s' x))) = x \<and>
      is_WI_rdv (winfo (tcbs s' x)) \<and> (\<forall>k i. x \<notin> set (que s' (WaitQ k i)))"
  shows "rdv_inv s'"
  unfolding rdv_inv_def
proof (intro conjI allI impI)
  fix t assume "tstate (tcbs s' t) \<noteq> TS_NONEXIST"
  then show "get_tskid_rdvno (wrdvno (tcbs s' t)) = t" using e n rdv_invD(1) [OF inv] by simp
next
  fix t assume w: "rdv_waits t s'"
  show "get_tskid_rdvno (rdv_rdvno (winfo (tcbs s' t))) = t" "is_WI_rdv (winfo (tcbs s' t))"
    using w x o [of t] rdv_invD(2,3) [OF inv, of t] by (cases "t = x"; simp)+
  show "t \<notin> set (que s' (WaitQ k i))" for k i
    using w x o [of t] rdv_invD(4) [OF inv, of t] by (cases "t = x") auto
qed

text \<open>The number that is generated next has the same lower half.\<close>

lemma get_tskid_step: "get_tskid_rdvno (r + push_bit RDVNO_SHIFT 1) = get_tskid_rdvno r"
proof -
  have m: "(push_bit RDVNO_SHIFT 1 - 1 :: RNO) = mask 16" by (simp add: RDVNO_SHIFT_def mask_eq_exp_minus_1)
  have e: "uint (w AND mask 16) = uint w mod 65536" for w :: RNO
    unfolding take_bit_eq_mask [symmetric] by (simp add: take_bit_eq_mod uint_mod_distrib)
  have "uint (r + push_bit RDVNO_SHIFT 1) = (uint r + 65536) mod 4294967296"
    by (simp add: RDVNO_SHIFT_def uint_word_ariths)
  then have "uint (r + push_bit RDVNO_SHIFT 1) mod 65536 = uint r mod 65536"
    by (simp add: mod_mod_cancel)
  then show ?thesis unfolding get_tskid_rdvno_def m e .
qed

lemma gen_rdvno_tskid [simp]:
  "get_tskid_rdvno (wrdvno (tcbs (snd (gen_rdvno t s)) u)) = get_tskid_rdvno (wrdvno (tcbs s u))"
  using get_tskid_step [of "wrdvno (tcbs s t)"] by (simp add: gen_rdvno_def)

lemma gen_rdvno_inv: "rdv_inv (snd (gen_rdvno t s)) = rdv_inv s"
  by (simp add: rdv_inv_def rdv_waits_def)

section \<open>Releasing, sending, waiting\<close>

lemma por_same:
  "por_ok s \<Longrightarrow> kinv s' \<Longrightarrow> free_porcb s' = free_porcb s \<Longrightarrow> max_porid s' = max_porid s \<Longrightarrow>
   porcb_table s' = porcb_table s \<Longrightarrow> (\<And>k j. k \<in> {OCal, OAcp} \<Longrightarrow> same_waits s' s k j) \<Longrightarrow> por_ok s'"
  by (rule poro.same)

lemma por_ok_mem [simp]:
  "por_ok (s\<lparr>mem_uint := a\<rparr>) = por_ok s" "por_ok (s\<lparr>mem_int := b\<rparr>) = por_ok s"
  "por_ok (s\<lparr>mem_byte := m\<rparr>) = por_ok s" "por_ok (put_msg d p n s) = por_ok s"
  "por_ok (s\<lparr>ctxtsk := c\<rparr>) = por_ok s" "por_ok (set_wercd t e s) = por_ok s"
  "por_ok (snd (gen_rdvno t s)) = por_ok s"
proof -
  have e: "por_ok s' = por_ok s" if "kinv s' = kinv s" "porcb_table s' = porcb_table s"
    "free_porcb s' = free_porcb s" "max_porid s' = max_porid s" "que s' = que s"
    "\<And>u. winfo (tcbs s' u) = winfo (tcbs s u)" "\<And>u. wspec (tcbs s' u) = wspec (tcbs s u)" for s' s :: "'b por_st_scheme"
    by (simp add: por_ok_def por_exists_def por_obj_pre_def por_obj_settled_def that)
  show "por_ok (s\<lparr>mem_uint := a\<rparr>) = por_ok s" "por_ok (s\<lparr>mem_int := b\<rparr>) = por_ok s"
    "por_ok (s\<lparr>mem_byte := m\<rparr>) = por_ok s" "por_ok (put_msg d p n s) = por_ok s"
    "por_ok (s\<lparr>ctxtsk := c\<rparr>) = por_ok s" "por_ok (set_wercd t e s) = por_ok s"
    "por_ok (snd (gen_rdvno t s)) = por_ok s"
    by (rule e; simp)+
qed

lemma por_release_ok:
  assumes ok: "por_ok s" and w: "in_wait (tstate (tcbs s t))"
  shows "por_ok (wait_release t s)" "por_ok (wait_release_ok t s)" "por_ok (wait_release_ok_ercd t e s)"
proof -
  show "por_ok (wait_release t s)" by (rule poro.release_ok [OF ok w]) simp_all
  then show "por_ok (wait_release_ok t s)" "por_ok (wait_release_ok_ercd t e s)"
    by (simp_all add: wait_release_ok_def wait_release_ok_ercd_def)
qed

lemma rdv_release_inv:
  assumes inv: "rdv_inv s" and k: "kinv s" and w: "in_wait (tstate (tcbs s t))"
  shows "rdv_inv (wait_release t s)" "rdv_inv (wait_release_ok t s)" "rdv_inv (wait_release_ok_ercd t e s)"
proof -
  have r: "rdv_inv (wait_release t s)"
  proof (rule rdv_inv_step [OF inv, where x = t])
    show "tstate (tcbs s u) \<noteq> TS_NONEXIST" if "tstate (tcbs (wait_release t s) u) \<noteq> TS_NONEXIST" for u
      using that w by (auto split: if_splits)
    show "rdv_waits u s \<and> winfo (tcbs (wait_release t s) u) = winfo (tcbs s u) \<and>
        (\<forall>k i. u \<in> set (que (wait_release t s) (WaitQ k i)) \<longrightarrow> u \<in> set (que s (WaitQ k i)))"
      if "u \<noteq> t" "rdv_waits u (wait_release t s)" for u
      using that wait_release_que [OF k w] by (auto simp: rdv_waits_def)
  qed (simp_all add: rdv_waits_def)
  have e: "rdv_inv (set_wercd t e s') = rdv_inv s'" for e and s' :: "'a kst_scheme"
    by (simp add: rdv_inv_def rdv_waits_def)
  show "rdv_inv (wait_release t s)" "rdv_inv (wait_release_ok t s)" "rdv_inv (wait_release_ok_ercd t e s)"
    using r by (simp_all add: wait_release_ok_def wait_release_ok_ercd_def e)
qed

lemma find_acp_SomeD:
  assumes "find_acp p i s = Some u"
  shows "u \<in> set (que s (WaitQ OAcp i))" "p AND acp_acpptn (winfo (tcbs s u)) \<noteq> 0"
  using assms by (auto simp: find_acp_def find_Some_iff)

lemma find_acp_NoneD: "find_acp p i s = None \<Longrightarrow> u \<in> set (que s (WaitQ OAcp i)) \<Longrightarrow>
    p AND acp_acpptn (winfo (tcbs s u)) = 0"
  by (auto simp: find_acp_def find_None_iff)

lemma find_cal_SomeD:
  assumes "find_cal p i s = Some u"
  shows "u \<in> set (que s (WaitQ OCal i))" "p AND cal_calptn (winfo (tcbs s u)) \<noteq> 0"
  using assms by (auto simp: find_cal_def find_Some_iff)

lemma find_cal_NoneD: "find_cal p i s = None \<Longrightarrow> u \<in> set (que s (WaitQ OCal i)) \<Longrightarrow>
    p AND cal_calptn (winfo (tcbs s u)) = 0"
  by (auto simp: find_cal_def find_None_iff)

lemma rdv_send_eq:
  obtains s1 where "rdv_send u r msg n s = wait_release_ok u s1" "tcbs s1 = tcbs s" "que s1 = que s"
    "kst.more s1 = kst.more s" "ctxtsk s1 = ctxtsk s" "kinv s1 = kinv s" "rdv_inv s1 = rdv_inv s"
    "mem_uint s1 (acp_p_rdvno (winfo (tcbs s u))) = r" "mem_int s1 (acp_p_cmsgsz (winfo (tcbs s u))) = n"
    "mem_byte s1 = (if n > 0 then copy_mem (acp_msg (winfo (tcbs s u))) msg (word_of_int n) (mem_byte s) else mem_byte s)"
proof -
  let ?w = "winfo (tcbs s u)"
  let ?s1 = "put_msg (acp_msg ?w) msg n s"
  let ?s2 = "?s1\<lparr>mem_uint := (mem_uint ?s1)(acp_p_rdvno ?w := r)\<rparr>"
  let ?s3 = "?s2\<lparr>mem_int := (mem_int ?s2)(acp_p_cmsgsz ?w := n)\<rparr>"
  show thesis
    by (rule that [of ?s3]) (simp_all add: rdv_send_def Let_def, simp_all add: put_msg_def)
qed

text \<open>What \<open>rdv_send\<close> does to the tasks.\<close>

lemma rdv_send_sel:
  "tstate (tcbs (rdv_send u r msg n s) v) = (if v = u then released (tstate (tcbs s u)) else tstate (tcbs s v))"
  "winfo (tcbs (rdv_send u r msg n s) v) = winfo (tcbs s v)" "wspec (tcbs (rdv_send u r msg n s) v) = wspec (tcbs s v)"
  "wrdvno (tcbs (rdv_send u r msg n s) v) = wrdvno (tcbs s v)"
  "waitmask (tcbs (rdv_send u r msg n s) v) = waitmask (tcbs s v)"
  by (simp_all add: rdv_send_def Let_def wait_release_ok_def)

lemma rdv_send_ok:
  assumes ok: "por_ok s" and inv: "rdv_inv s" and u: "u \<in> set (que s (WaitQ OAcp i))"
  shows "por_ok (rdv_send u r msg n s)" "rdv_inv (rdv_send u r msg n s)"
    "que (rdv_send u r msg n s) (WaitQ k j) = removeAll u (que s (WaitQ k j))"
proof -
  obtain s1 where s1: "rdv_send u r msg n s = wait_release_ok u s1" "tcbs s1 = tcbs s" "que s1 = que s"
    "kst.more s1 = kst.more s" "ctxtsk s1 = ctxtsk s" "kinv s1 = kinv s" "rdv_inv s1 = rdv_inv s"
    by (rule rdv_send_eq [of u r msg n s]) blast
  have m: "mpl_st.more s1 = mpl_st.more s" by (rule mpl_more_kst [OF s1(4)])
  have k: "kinv s1" using s1 por_okD(1) [OF ok] by simp
  have ok1: "por_ok s1" by (rule por_same [OF ok]) (use k s1 por_more [OF m] in \<open>simp_all add: same_waits_tcbs\<close>)
  have w: "in_wait (tstate (tcbs s1 u))" using kinv_xD(5) [OF por_okD(1) [OF ok] u] s1 by simp
  show "por_ok (rdv_send u r msg n s)" using por_release_ok(2) [OF ok1 w] s1 by simp
  show "rdv_inv (rdv_send u r msg n s)" using rdv_release_inv(2) [OF _ k w] inv s1 by simp
  show "que (rdv_send u r msg n s) (WaitQ k j) = removeAll u (que s (WaitQ k j))"
    using wait_release_que [OF k w] s1 by (simp add: wait_release_ok_def)
qed

lemma waiting_unqueued:
  assumes k: "kinv_x X s" and w: "in_wait (tstate (tcbs s t))" and q: "\<And>k i. t \<notin> set (que s (WaitQ k i))"
  shows "unqueued t s"
  unfolding unqueued_def
proof
  fix q' show "t \<notin> set (que s q')"
    using kinv_xD(3,6,7) [OF k, of t] w q by (cases q') (auto simp: in_wait_iff)
qed

text \<open>A task that is in no wait queue gets another wait.\<close>

lemma upd_unwaited_kinv:
  assumes k: "kinv_x X s" and q: "\<And>k i. t \<notin> set (que s (WaitQ k i))"
    and f: "tstate (f (tcbs s t)) = tstate (tcbs s t)" "priority (f (tcbs s t)) = priority (tcbs s t)"
      "klockwait (f (tcbs s t)) = klockwait (tcbs s t)"
  shows "kinv_x X (tcb_upd t f s)"
proof -
  have v: "tstate (tcbs (tcb_upd t f s) u) = tstate (tcbs s u)"
    "klockwait (tcbs (tcb_upd t f s) u) = klockwait (tcbs s u)"
    "priority (tcbs (tcb_upd t f s) u) = priority (tcbs s u)"
    "u \<in> set (que s (WaitQ k i)) \<Longrightarrow> wid (tcbs (tcb_upd t f s) u) = wid (tcbs s u)" for u k i
    using f q by auto
  have "rdq_ok (tcb_upd t f s)" using kinv_xD(1) [OF k] unfolding rdq_ok_def v by simp
  then show ?thesis
    by (rule kinv_xI; unfold v(1-3) tcb_upd_sel(2-21)) (use kinv_xD [OF k] v(4) in auto)
qed

text \<open>The caller waits for an acceptor.\<close>

lemma por_call_wait_ok:
  fixes s :: "'a por_st_scheme" and q msg :: addr and tmout :: int
  assumes ok: "por_ok s" and inv: "rdv_inv s" and r: "running t s" and ex: "por_exists i s"
    and p: "calptn \<noteq> 0" "0 \<le> n" "n \<le> maxcmsz (porcb_table s i)" and none: "find_acp calptn i s = None"
  defines "s' \<equiv> call_wait OCal i (poratr (porcb_table s i)) tmout
      (if has (poratr (porcb_table s i)) TA_TPRI then wspec_cal_tpri else wspec_cal_tfifo)
      (WI_cal calptn msg n q) s"
  shows "por_ok s' \<and> rdv_inv s'"
proof -
  let ?a = "poratr (porcb_table s i)"
  let ?w = "if has ?a TA_TPRI then wspec_cal_tpri else wspec_cal_tfifo"
  note c = call_wait [OF por_okD(1) [OF ok] r, where kd = OCal and i = i and atr = ?a and tmout = tmout
      and w = ?w and f = "WI_cal calptn msg n q", folded s'_def]
  have fr: "porcb_table s' = porcb_table s" "free_porcb s' = free_porcb s" "max_porid s' = max_porid s"
    by (simp_all add: s'_def)
  note pre = por_okD(3) [OF ok ex] and st = por_okD(4) [OF ok ex]
  have sub: "set (que s' (WaitQ OCal i)) \<subseteq> insert t (set (que s (WaitQ OCal i)))" by (simp add: c(2)) blast
  have acp: "que s' (WaitQ OAcp j) = que s (WaitQ OAcp j)" for j by (simp add: c(2))
  have tq: "t \<notin> set (que s (WaitQ k j))" for k j
    using not_wait_not_queued [OF por_okD(1) [OF ok] runningD(2) [OF r]] .
  have pre': "por_obj_pre i s'"
    unfolding por_obj_pre_def Let_def fr acp
  proof (intro conjI ballI)
    fix u assume "u \<in> set (que s' (WaitQ OCal i))"
    then have u: "u = t \<or> u \<in> set (que s (WaitQ OCal i)) \<and> u \<noteq> t" using sub by auto
    then show "is_WI_cal (winfo (tcbs s' u))" "cal_calptn (winfo (tcbs s' u)) \<noteq> 0" "0 \<le> cal_cmsgsz (winfo (tcbs s' u))"
      "cal_cmsgsz (winfo (tcbs s' u)) \<le> maxcmsz (porcb_table s i)" "wspec (tcbs s' u) = ?w"
      using p pre by (auto simp: c(3,4) por_obj_pre_def Let_def)
  next
    fix u assume u: "u \<in> set (que s (WaitQ OAcp i))"
    then have "u \<noteq> t" using tq by auto
    then show "is_WI_acp (winfo (tcbs s' u))" "acp_acpptn (winfo (tcbs s' u)) \<noteq> 0" "wspec (tcbs s' u) = wspec_acp"
      using u pre by (simp_all add: c(3,4) por_obj_pre_def Let_def)
  qed (use pre in \<open>simp_all add: por_obj_pre_def Let_def\<close>)
  have st': "por_obj_settled i s'"
    unfolding por_obj_settled_def acp
  proof (intro ballI)
    fix v u assume v: "v \<in> set (que s' (WaitQ OCal i))" and u: "u \<in> set (que s (WaitQ OAcp i))"
    have "u \<noteq> t" using u tq by auto
    moreover have "v = t \<or> v \<in> set (que s (WaitQ OCal i)) \<and> v \<noteq> t" using v sub by auto
    ultimately show "cal_calptn (winfo (tcbs s' v)) AND acp_acpptn (winfo (tcbs s' u)) = 0"
      using st u find_acp_NoneD [OF none u] by (auto simp: c(3) por_obj_settled_def)
  qed
  have "por_ok s'"
    by (rule poro.frame [OF por_okD(2) [OF ok, of i] c(1)])
      (use ex pre' st' c(5) fr in \<open>simp_all add: por_exists_def\<close>)
  moreover have "rdv_inv s'"
  proof (rule rdv_inv_step [OF inv, where x = t])
    show "tstate (tcbs s u) \<noteq> TS_NONEXIST" if "tstate (tcbs s' u) \<noteq> TS_NONEXIST" for u
      using that r by (auto simp: c(8) running_def split: if_splits)
    show "get_tskid_rdvno (wrdvno (tcbs s' u)) = get_tskid_rdvno (wrdvno (tcbs s u))" for u by (simp add: c(13))
    show "rdv_waits u s \<and> winfo (tcbs s' u) = winfo (tcbs s u) \<and>
        (\<forall>k i. u \<in> set (que s' (WaitQ k i)) \<longrightarrow> u \<in> set (que s (WaitQ k i)))"
      if "u \<noteq> t" "rdv_waits u s'" for u
      using that by (auto simp: rdv_waits_def c(2,3,4,8) split: if_splits)
  qed (use wspec_not_rdv in \<open>auto simp: rdv_waits_def c(4) split: if_splits\<close>)
  ultimately show ?thesis by blast
qed

text \<open>The caller waits for the reply.\<close>

lemma rdv_wait_sel:
  assumes r: "running t s"
  shows "tstate (tcbs (rdv_wait rdvno msg p i s) u) =
      (if u = t then waiting (tstate (tcbs s t)) else tstate (tcbs s u))"
    "winfo (tcbs (rdv_wait rdvno msg p i s) u) =
      (if u = t then WI_rdv rdvno msg (maxrmsz (porcb_table s i)) p else winfo (tcbs s u))"
    "wspec (tcbs (rdv_wait rdvno msg p i s) u) = (if u = t then wspec_rdv else wspec (tcbs s u))"
    "wrdvno (tcbs (rdv_wait rdvno msg p i s) u) = wrdvno (tcbs s u)"
proof -
  let ?f = "\<lambda>c. c\<lparr>wspec := wspec_rdv, wid := 0, wercd := E_TMOUT,
      winfo := WI_rdv rdvno msg (maxrmsz (porcb_table s i)) p\<rparr>"
  have r1: "running t (tcb_upd t ?f s)" using r by (simp add: running_def)
  show "tstate (tcbs (rdv_wait rdvno msg p i s) u) =
      (if u = t then waiting (tstate (tcbs s t)) else tstate (tcbs s u))"
    "winfo (tcbs (rdv_wait rdvno msg p i s) u) =
      (if u = t then WI_rdv rdvno msg (maxrmsz (porcb_table s i)) p else winfo (tcbs s u))"
    "wspec (tcbs (rdv_wait rdvno msg p i s) u) = (if u = t then wspec_rdv else wspec (tcbs s u))"
    "wrdvno (tcbs (rdv_wait rdvno msg p i s) u) = wrdvno (tcbs s u)"
    using enter_wait_sel [OF r1] runningD(1) [OF r] by (simp_all add: rdv_wait_def make_wait_def Let_def)
qed

lemma rdv_wait_ok:
  assumes ok: "por_ok s" and inv: "rdv_inv s" and r: "running t s" and n: "get_tskid_rdvno rdvno = t"
  shows "por_ok (rdv_wait rdvno msg p i s) \<and> rdv_inv (rdv_wait rdvno msg p i s)" (is "por_ok ?s' \<and> rdv_inv ?s'")
proof -
  let ?f = "\<lambda>c. c\<lparr>wspec := wspec_rdv, wid := 0, wercd := E_TMOUT,
      winfo := WI_rdv rdvno msg (maxrmsz (porcb_table s i)) p\<rparr>"
  let ?s1 = "tcb_upd t ?f s"
  have m: "me s = t" by (rule runningD [OF r])
  have tq: "t \<notin> set (que s (WaitQ k j))" for k j
    using not_wait_not_queued [OF por_okD(1) [OF ok] runningD(2) [OF r]] .
  have r1: "running t ?s1" using r by (simp add: running_def)
  have k1: "kinv ?s1" using tq by (intro upd_unwaited_kinv [OF por_okD(1) [OF ok]]) simp_all
  note ew = enter_wait_kinv_x [OF k1 r1, simplified]
  have e: "?s' = timer_insert (TskTm t) TMO_FEVR (Some (CB_wait_release_tmout t))
      (enter_wait (poratr (porcb_table s i)) ?s1)" by (simp add: rdv_wait_def make_wait_def Let_def m)
  have k: "kinv ?s'" using ew(1) by (simp add: e)
  have q: "que ?s' (WaitQ k j) = que s (WaitQ k j)" for k j using ew(3) by (simp add: e)
  note sel = rdv_wait_sel [OF r, of rdvno msg p i]
  have "same_waits ?s' s k j" for k j
    by (rule same_waits_running [OF por_okD(1) [OF ok] r q]) (simp_all add: sel)
  then have "por_ok ?s'" by (intro por_same [OF ok k]) (simp_all add: rdv_wait_def Let_def)
  moreover have "rdv_inv ?s'"
  proof (rule rdv_inv_step [OF inv, where x = t])
    show "tstate (tcbs s u) \<noteq> TS_NONEXIST" if "tstate (tcbs ?s' u) \<noteq> TS_NONEXIST" for u
      using that r by (auto simp: sel running_def split: if_splits)
  qed (use n tq in \<open>simp_all add: sel q rdv_waits_def\<close>)
  ultimately show ?thesis by blast
qed

text \<open>The caller is accepted: it leaves the call queue and waits for the reply.\<close>

lemma rdv_accept_sel:
  "tstate (tcbs (rdv_accept u rdvno mx s) v) = tstate (tcbs s v)"
  "winfo (tcbs (rdv_accept u rdvno mx s) v) =
     (if v = u then WI_rdv rdvno (cal_msg (winfo (tcbs s u))) mx (cal_p_rmsgsz (winfo (tcbs s u))) else winfo (tcbs s v))"
  "wspec (tcbs (rdv_accept u rdvno mx s) v) = (if v = u then wspec_rdv else wspec (tcbs s v))"
  "wrdvno (tcbs (rdv_accept u rdvno mx s) v) = wrdvno (tcbs s v)"
  "que (rdv_accept u rdvno mx s) q = removeAll u (que s q)"
  by (simp_all add: rdv_accept_def wait_cancel_def Let_def)

lemma rdv_accept_ok:
  assumes ok: "por_ok s" and inv: "rdv_inv s" and u: "u \<in> set (que s (WaitQ OCal i))"
    and n: "get_tskid_rdvno rdvno = u"
  shows "por_ok (rdv_accept u rdvno mx s) \<and> rdv_inv (rdv_accept u rdvno mx s)" (is "por_ok ?s' \<and> rdv_inv ?s'")
proof -
  note k = por_okD(1) [OF ok]
  have w: "in_wait (tstate (tcbs s u))" using kinv_xD(5) [OF k u] by simp
  let ?f = "\<lambda>c. c\<lparr>wspec := wspec_rdv, wid := 0,
      winfo := WI_rdv rdvno (cal_msg (winfo c)) mx (cal_p_rmsgsz (winfo c))\<rparr>"
  let ?s1 = "wait_cancel u s"
  have k1: "kinv ?s1" using k w by (auto simp: wait_cancel_def intro!: que_remove_kinv_x dest: in_wait_not_ready)
  have ok1: "por_ok ?s1"
    by (rule poro.leave_ok [OF ok k1, where t = u]) (simp_all add: wait_cancel_def)
  have k2: "kinv (tcb_upd u ?f ?s1)"
    by (intro upd_unwaited_kinv [OF k1]) (simp_all add: wait_cancel_def)
  then have k': "kinv ?s'" by (simp add: rdv_accept_def Let_def)
  have "same_waits ?s' ?s1 kd j" for kd j
    by (rule same_waitsI) (auto simp: rdv_accept_sel wait_cancel_def)
  then have "por_ok ?s'"
    by (intro por_same [OF ok1 k']) (simp_all add: rdv_accept_def Let_def)
  moreover have "rdv_inv ?s'"
    by (rule rdv_inv_step [OF inv, where x = u]) (use n in \<open>simp_all add: rdv_accept_sel rdv_waits_def\<close>)
  ultimately show ?thesis by blast
qed

text \<open>Waiting for a caller.\<close>

lemma acp_wait_eq:
  assumes r: "running t s" and w: "\<not> is_diswai (poratr (porcb_table s i)) t TTW_ACP s" "tmout \<noteq> TMO_POL"
  shows "acp_wait p i ptn pr msg tmout s =
    call_wait OAcp i (poratr (porcb_table s i) AND NOT TA_TPRI) tmout wspec_acp (WI_acp ptn msg pr p) s"
proof -
  let ?a = "poratr (porcb_table s i)"
  have h: "has (?a AND NOT TA_TPRI) TA_NODISWAI = has ?a TA_NODISWAI" "\<not> has (?a AND NOT TA_TPRI) TA_TPRI"
    by (simp_all add: has_def TA_NODISWAI_def TA_TPRI_def and.assoc)
  have m: "me s = t" using r by (rule runningD)
  have ew: "enter_wait (?a AND NOT TA_TPRI) s' = enter_wait ?a s'" for s' :: "'a por_st_scheme"
    by (simp add: enter_wait_def h)
  have u: "(\<lambda>c. c\<lparr>wspec := wspec_acp, winfo := WI_acp ptn msg pr p, wercd := E_TMOUT, wid := i\<rparr>) =
      (\<lambda>c. c\<lparr>wspec := wspec_acp, wid := i, wercd := E_TMOUT, winfo := WI_acp ptn msg pr p\<rparr> :: tcb)"
    by (rule ext) simp
  have nd: "\<not> (has (waitmask (tcbs s t)) TTW_ACP \<and> \<not> has ?a TA_NODISWAI)"
    using w(1) by (simp add: is_diswai_def)
  show ?thesis
    using w(2) nd by (auto simp add: acp_wait_def call_wait_def gcb_make_wait_with_diswai_def gcb_make_wait_def
      is_diswai_def h m connect_wait_def make_wait_def ew set_wercd_def tcb_upd_twice Let_def u)
qed

lemma acp_wait_ok:
  fixes s :: "'a por_st_scheme" and p pr msg :: addr
  assumes ok: "por_ok s" and inv: "rdv_inv s" and r: "running t s" and ex: "por_exists i s"
    and p: "ptn \<noteq> 0" and none: "find_cal ptn i s = None"
    and w: "\<not> is_diswai (poratr (porcb_table s i)) t TTW_ACP s" "tmout \<noteq> TMO_POL"
  shows "por_ok (acp_wait p i ptn pr msg tmout s) \<and> rdv_inv (acp_wait p i ptn pr msg tmout s)"
proof -
  let ?a = "poratr (porcb_table s i)"
  define s' where "s' = call_wait OAcp i (?a AND NOT TA_TPRI) tmout wspec_acp (WI_acp ptn msg pr p) s"
  note c = call_wait [OF por_okD(1) [OF ok] r, where kd = OAcp and i = i and tmout = tmout
      and atr = "?a AND NOT TA_TPRI" and w = wspec_acp and f = "WI_acp ptn msg pr p", folded s'_def]
  have fr: "porcb_table s' = porcb_table s" "free_porcb s' = free_porcb s" "max_porid s' = max_porid s"
    by (simp_all add: s'_def)
  note pre = por_okD(3) [OF ok ex] and st = por_okD(4) [OF ok ex]
  have sub: "set (que s' (WaitQ OAcp i)) \<subseteq> insert t (set (que s (WaitQ OAcp i)))" by (simp add: c(2)) blast
  have cal: "que s' (WaitQ OCal j) = que s (WaitQ OCal j)" for j by (simp add: c(2))
  have tq: "t \<notin> set (que s (WaitQ k j))" for k j
    using not_wait_not_queued [OF por_okD(1) [OF ok] runningD(2) [OF r]] .
  have pre': "por_obj_pre i s'"
    unfolding por_obj_pre_def Let_def fr cal
  proof (intro conjI ballI)
    fix u assume "u \<in> set (que s' (WaitQ OAcp i))"
    then have u: "u = t \<or> u \<in> set (que s (WaitQ OAcp i)) \<and> u \<noteq> t" using sub by auto
    then show "is_WI_acp (winfo (tcbs s' u))" "acp_acpptn (winfo (tcbs s' u)) \<noteq> 0" "wspec (tcbs s' u) = wspec_acp"
      using p pre by (auto simp: c(3,4) por_obj_pre_def Let_def)
  next
    fix u assume u: "u \<in> set (que s (WaitQ OCal i))"
    then have "u \<noteq> t" using tq by auto
    then show "is_WI_cal (winfo (tcbs s' u))" "cal_calptn (winfo (tcbs s' u)) \<noteq> 0" "0 \<le> cal_cmsgsz (winfo (tcbs s' u))"
      "cal_cmsgsz (winfo (tcbs s' u)) \<le> maxcmsz (porcb_table s i)"
      "wspec (tcbs s' u) = (if has ?a TA_TPRI then wspec_cal_tpri else wspec_cal_tfifo)"
      using u pre by (simp_all add: c(3,4) por_obj_pre_def Let_def)
  qed (use pre in \<open>simp_all add: por_obj_pre_def Let_def\<close>)
  have st': "por_obj_settled i s'"
    unfolding por_obj_settled_def cal
  proof (intro ballI)
    fix v u assume v: "v \<in> set (que s (WaitQ OCal i))" and u: "u \<in> set (que s' (WaitQ OAcp i))"
    have "v \<noteq> t" using v tq by auto
    moreover have "u = t \<or> u \<in> set (que s (WaitQ OAcp i)) \<and> u \<noteq> t" using u sub by auto
    ultimately show "cal_calptn (winfo (tcbs s' v)) AND acp_acpptn (winfo (tcbs s' u)) = 0"
      using st v find_cal_NoneD [OF none v] by (auto simp: c(3) por_obj_settled_def and.commute)
  qed
  have "por_ok s'"
    by (rule poro.frame [OF por_okD(2) [OF ok, of i] c(1)])
      (use ex pre' st' c(5) fr in \<open>simp_all add: por_exists_def\<close>)
  moreover have "rdv_inv s'"
  proof (rule rdv_inv_step [OF inv, where x = t])
    show "tstate (tcbs s u) \<noteq> TS_NONEXIST" if "tstate (tcbs s' u) \<noteq> TS_NONEXIST" for u
      using that r by (auto simp: c(8) running_def split: if_splits)
    show "get_tskid_rdvno (wrdvno (tcbs s' u)) = get_tskid_rdvno (wrdvno (tcbs s u))" for u by (simp add: c(13))
    show "rdv_waits u s \<and> winfo (tcbs s' u) = winfo (tcbs s u) \<and>
        (\<forall>k i. u \<in> set (que s' (WaitQ k i)) \<longrightarrow> u \<in> set (que s (WaitQ k i)))"
      if "u \<noteq> t" "rdv_waits u s'" for u
      using that by (auto simp: rdv_waits_def c(2,3,4,8) split: if_splits)
  qed (simp_all add: rdv_waits_def c(4))
  ultimately show ?thesis unfolding s'_def using acp_wait_eq [OF r w] by simp
qed

section \<open>Every operation keeps the invariant\<close>

definition por_inv :: "'a por_st_scheme \<Rightarrow> bool" where
  "por_inv s \<longleftrightarrow> por_ok s \<and> rdv_inv s"

lemma running_tstate: "running t s \<Longrightarrow> tstate (tcbs s t) \<noteq> TS_NONEXIST"
  by (auto simp: running_def)

lemma por_inv_gen [simp]: "por_inv (snd (gen_rdvno t s)) = por_inv s"
  by (simp add: por_inv_def gen_rdvno_inv)

lemma por_inv_mem [simp]:
  "por_inv (s\<lparr>mem_uint := a\<rparr>) = por_inv s" "por_inv (s\<lparr>mem_int := b\<rparr>) = por_inv s"
  "por_inv (s\<lparr>mem_byte := m\<rparr>) = por_inv s" "por_inv (put_msg d p n s) = por_inv s"
  "por_inv (s\<lparr>ctxtsk := c\<rparr>) = por_inv s"
  by (simp_all add: por_inv_def)

lemma por_inv_release:
  assumes "por_inv s" "in_wait (tstate (tcbs s t))"
  shows "por_inv (wait_release_ok t s)" "por_inv (wait_release_ok_ercd t e s)" "por_inv (wait_release t s)"
  using assms por_release_ok rdv_release_inv [OF _ por_okD(1)] by (auto simp: por_inv_def)

lemma por_inv_send: "por_inv s \<Longrightarrow> u \<in> set (que s (WaitQ OAcp i)) \<Longrightarrow> por_inv (rdv_send u r msg n s)"
  using rdv_send_ok by (auto simp: por_inv_def)

lemma tk_cal_por_u_ok:
  assumes inv: "por_inv s" and r: "in_ddsp s \<or> running (me s) s"
  shows "por_inv (snd (tk_cal_por_u p i calptn msg n tmout s))"
proof (cases "por_exists i s \<and> \<not> in_ddsp s \<and> calptn \<noteq> 0 \<and> 0 \<le> n \<and> n \<le> maxcmsz (porcb_table s i)")
  case True
  let ?t = "me s"
  have ok: "por_ok s" "rdv_inv s" using inv by (simp_all add: por_inv_def)
  have rn: "running ?t s" using True r by blast
  show ?thesis
  proof (cases "find_acp calptn i s")
    case None
    then show ?thesis
      using inv True por_call_wait_ok [OF ok rn _ _ _ _ None, where n = n and q = p and msg = msg and tmout = tmout]
      by (auto simp: tk_cal_por_u_def Let_def por_inv_def)
  next
    case (Some u)
    note u = find_acp_SomeD(1) [OF Some]
    obtain r1 s1 where g: "gen_rdvno ?t s = (r1, s1)" by fastforce
    have s1: "s1 = snd (gen_rdvno ?t s)" "r1 = wrdvno (tcbs s ?t)" using g gen_rdvno_frame(6) [of ?t s] by auto
    have "u \<in> set (que s1 (WaitQ OAcp i))" using u by (simp add: s1)
    then have inv2: "por_inv (rdv_send u r1 msg n s1)" using inv by (intro por_inv_send) (simp_all add: s1)
    have ne: "u \<noteq> ?t" using u not_wait_not_queued [OF por_okD(1) [OF ok(1)] runningD(2) [OF rn], of OAcp i] by auto
    then have "running ?t (rdv_send u r1 msg n s1)" using rn by (simp add: running_def rdv_send_sel s1)
    moreover have "get_tskid_rdvno r1 = ?t" using rdv_invD(1) [OF ok(2) running_tstate [OF rn]] by (simp add: s1)
    ultimately have "por_inv (rdv_wait r1 msg p i (rdv_send u r1 msg n s1))"
      using inv2 rdv_wait_ok [of "rdv_send u r1 msg n s1" ?t r1 msg p i] by (simp add: por_inv_def)
    then show ?thesis using inv inv2 Some g by (auto simp: tk_cal_por_u_def Let_def)
  qed
qed (use inv in \<open>auto simp: tk_cal_por_u_def Let_def por_exists_def\<close>)

lemma tk_acp_por_u_ok:
  assumes inv: "por_inv s" and r: "in_ddsp s \<or> running (me s) s"
  shows "por_inv (snd (tk_acp_por_u p i acpptn pr msg tmout s))"
proof (cases "por_exists i s \<and> \<not> in_ddsp s \<and> acpptn \<noteq> 0")
  case True
  let ?t = "me s"
  have ok: "por_ok s" "rdv_inv s" using inv by (simp_all add: por_inv_def)
  have rn: "running ?t s" using True r by blast
  show ?thesis
  proof (cases "find_cal acpptn i s")
    case None
    then show ?thesis
      using inv True acp_wait_ok [OF ok rn _ _ None]
      by (auto simp: tk_acp_por_u_def Let_def por_inv_def)
  next
    case (Some u)
    note u = find_cal_SomeD(1) [OF Some]
    have w: "in_wait (tstate (tcbs s u))" using kinv_xD(5) [OF por_okD(1) [OF ok(1)] u] by simp
    let ?m = "cal_msg (winfo (tcbs s u))" and ?n = "cal_cmsgsz (winfo (tcbs s u))"
    let ?s1 = "snd (gen_rdvno u s)"
    let ?s3 = "put_msg msg ?m ?n (?s1\<lparr>mem_uint := (mem_uint ?s1)(pr := wrdvno (tcbs s u))\<rparr>)"
    have i3: "por_inv ?s3" using inv by simp
    have e: "tstate (tcbs s u) \<noteq> TS_NONEXIST" using w by (auto simp: in_wait_iff)
    have "por_inv (wait_release_ok_ercd u E_DISWAI ?s3)" using w by (intro por_inv_release [OF i3]) simp
    moreover have "por_inv (rdv_accept u (wrdvno (tcbs s u)) (maxrmsz (porcb_table s i)) ?s3)"
      using i3 rdv_accept_ok [of ?s3 u i "wrdvno (tcbs s u)"] u rdv_invD(1) [OF ok(2) e] by (simp add: por_inv_def)
    moreover have "gen_rdvno u s = (wrdvno (tcbs s u), ?s1)" by (simp add: gen_rdvno_def)
    ultimately show ?thesis using inv Some by (auto simp: tk_acp_por_u_def Let_def split: prod.splits)
  qed
qed (use inv in \<open>auto simp: tk_acp_por_u_def Let_def por_exists_def\<close>)

section \<open>Forwarding and replying\<close>

lemma in_rdv_waits: "in_rdv rdvno t s \<Longrightarrow> rdv_waits t s"
  by (simp add: in_rdv_def rdv_waits_def)

lemma rdv_forward_ok:
  assumes inv: "por_inv s" and w: "rdv_waits cal s" and n: "get_tskid_rdvno r = cal"
  shows "por_inv (rdv_forward cal r i s)" (is "por_inv ?s'")
proof -
  have ok: "por_ok s" "rdv_inv s" using inv by (simp_all add: por_inv_def)
  have q: "cal \<notin> set (que s (WaitQ k j))" for k j by (rule rdv_invD(4) [OF ok(2) w])
  have "kinv ?s'"
    unfolding rdv_forward_def Let_def using por_okD(1) [OF ok(1)] by (subst tcb_upd_kinv_same) simp_all
  then have "por_ok ?s'"
    by (rule por_same [OF ok(1)])
      (use q in \<open>auto simp: rdv_forward_def Let_def same_waits_def\<close>)
  moreover have "rdv_inv ?s'"
    by (rule rdv_inv_step [OF ok(2), where x = cal])
      (use n q in \<open>auto simp: rdv_forward_def Let_def rdv_waits_def split: if_splits\<close>)
  ultimately show ?thesis by (simp add: por_inv_def)
qed

lemma rdv_requeue_ok:
  assumes inv: "por_inv s" and w: "rdv_waits cal s" and ex: "por_exists i s"
    and p: "ptn \<noteq> 0" "0 \<le> n" "n \<le> maxcmsz (porcb_table s i)" and none: "find_acp ptn i s = None"
  shows "por_inv (rdv_requeue cal ptn msg n i s)" (is "por_inv ?s'")
proof -
  have ok: "por_ok s" "rdv_inv s" using inv by (simp_all add: por_inv_def)
  let ?a = "poratr (porcb_table s i)"
  let ?w = "if has ?a TA_TPRI then wspec_cal_tpri else wspec_cal_tfifo"
  let ?f = "\<lambda>c. c\<lparr>wspec := ?w, wid := i,
                 winfo := WI_cal ptn (rdv_msg (winfo c)) n (rdv_p_rmsgsz (winfo c)),
                 nodiswai := has ?a TA_NODISWAI\<rparr>"
  let ?s1 = "tcb_upd cal ?f s"
  let ?s2 = "timer_insert (TskTm cal) TMO_FEVR (Some (CB_wait_release_tmout cal)) ?s1"
  let ?s3 = "connect_wait ?a cal (WaitQ OCal i) ?s2"
  have q: "cal \<notin> set (que s (WaitQ k j))" for k j by (rule rdv_invD(4) [OF ok(2) w])
  have iw: "in_wait (tstate (tcbs s cal))" using w by (simp add: rdv_waits_def)
  have k1: "kinv ?s1" by (rule upd_unwaited_kinv [OF por_okD(1) [OF ok(1)] q]) simp_all
  have u2: "unqueued cal ?s2"
    using waiting_unqueued [OF k1, of cal] iw q by (simp add: unqueued_def)
  have k3: "kinv ?s3"
    using iw k1 by (intro connect_wait_kinv_x [OF _ u2]) simp_all
  have e: "?s' = put_msg (cal_msg (winfo (tcbs ?s3 cal))) msg n ?s3"
    by (simp add: rdv_requeue_def Let_def)
  define s' where "s' = ?s'"
  have tq: "que s' (WaitQ k j) = (if k = OCal \<and> j = i
      then wait_order ?a (\<lambda>u. priority (tcbs ?s2 u)) cal (que s (WaitQ OCal i)) else que s (WaitQ k j))" for k j
    by (simp add: e s'_def connect_wait_eq)
  have sub: "set (que s' (WaitQ OCal i)) \<subseteq> insert cal (set (que s (WaitQ OCal i)))" by (simp add: tq)
  have sel: "winfo (tcbs s' u) = (if u = cal then WI_cal ptn (rdv_msg (winfo (tcbs s cal))) n
        (rdv_p_rmsgsz (winfo (tcbs s cal))) else winfo (tcbs s u))"
    "wspec (tcbs s' u) = (if u = cal then ?w else wspec (tcbs s u))"
    "wrdvno (tcbs s' u) = wrdvno (tcbs s u)" "tstate (tcbs s' u) = tstate (tcbs s u)" for u
    by (simp_all add: e s'_def)
  have fr: "porcb_table s' = porcb_table s" "free_porcb s' = free_porcb s" "max_porid s' = max_porid s"
    by (simp_all add: e s'_def)
  have k': "kinv s'" using k3 by (simp add: e s'_def)
  have wo: "same_waits s' s kd j" if "kd \<noteq> OCal \<or> j \<noteq> i" for kd j
    using that q by (intro same_waitsI) (auto simp: tq sel)
  note pre = por_okD(3) [OF ok(1) ex] and st = por_okD(4) [OF ok(1) ex]
  have acp: "que s' (WaitQ OAcp j) = que s (WaitQ OAcp j)" for j by (simp add: tq)
  have pre': "por_obj_pre i s'"
    unfolding por_obj_pre_def Let_def fr acp
  proof (intro conjI ballI)
    fix u assume "u \<in> set (que s' (WaitQ OCal i))"
    then have u: "u = cal \<or> u \<in> set (que s (WaitQ OCal i)) \<and> u \<noteq> cal" using sub by auto
    then show "is_WI_cal (winfo (tcbs s' u))" "cal_calptn (winfo (tcbs s' u)) \<noteq> 0" "0 \<le> cal_cmsgsz (winfo (tcbs s' u))"
      "cal_cmsgsz (winfo (tcbs s' u)) \<le> maxcmsz (porcb_table s i)" "wspec (tcbs s' u) = ?w"
      using p pre by (auto simp: sel por_obj_pre_def Let_def)
  next
    fix u assume u: "u \<in> set (que s (WaitQ OAcp i))"
    then have "u \<noteq> cal" using q by auto
    then show "is_WI_acp (winfo (tcbs s' u))" "acp_acpptn (winfo (tcbs s' u)) \<noteq> 0" "wspec (tcbs s' u) = wspec_acp"
      using u pre by (simp_all add: sel por_obj_pre_def Let_def)
  qed (use pre in \<open>simp_all add: por_obj_pre_def Let_def\<close>)
  have st': "por_obj_settled i s'"
    unfolding por_obj_settled_def acp
  proof (intro ballI)
    fix v u assume v: "v \<in> set (que s' (WaitQ OCal i))" and u: "u \<in> set (que s (WaitQ OAcp i))"
    have "u \<noteq> cal" using u q by auto
    moreover have "v = cal \<or> v \<in> set (que s (WaitQ OCal i)) \<and> v \<noteq> cal" using v sub by auto
    ultimately show "cal_calptn (winfo (tcbs s' v)) AND acp_acpptn (winfo (tcbs s' u)) = 0"
      using st u find_acp_NoneD [OF none u] by (auto simp: sel por_obj_settled_def)
  qed
  have "por_ok s'"
    by (rule poro.frame [OF por_okD(2) [OF ok(1), of i] k'])
      (use ex pre' st' wo fr in \<open>simp_all add: por_exists_def\<close>)
  moreover have "rdv_inv s'"
    by (rule rdv_inv_step [OF ok(2), where x = cal])
      (use wspec_not_rdv sub in \<open>auto simp: rdv_waits_def sel tq split: if_splits\<close>)
  ultimately show ?thesis by (simp add: por_inv_def s'_def)
qed

lemma tk_fwd_por_ok:
  assumes inv: "por_inv s"
  shows "por_inv (snd (tk_fwd_por i ptn rdvno msg n s))"
proof (cases "por_exists i s \<and> ptn \<noteq> 0 \<and> 0 \<le> n \<and> n \<le> maxcmsz (porcb_table s i) \<and>
    in_rdv rdvno (get_tskid_rdvno rdvno) s")
  case True
  let ?cal = "get_tskid_rdvno rdvno"
  have ok: "por_ok s" "rdv_inv s" using inv by (simp_all add: por_inv_def)
  have rw: "rdv_waits ?cal s" using True in_rdv_waits by blast
  have w: "in_wait (tstate (tcbs s ?cal))" using rw by (simp add: rdv_waits_def)
  have rel: "por_inv (wait_release_ok_ercd ?cal E_DISWAI s)" using w by (rule por_inv_release [OF inv])
  show ?thesis
  proof (cases "find_acp ptn i s")
    case None
    have "por_inv (rdv_requeue ?cal ptn msg n i s)" using True by (intro rdv_requeue_ok [OF inv rw _ _ _ _ None]) auto
    then show ?thesis using inv rel None by (auto simp: tk_fwd_por_def Let_def)
  next
    case (Some u)
    note u = find_acp_SomeD(1) [OF Some]
    obtain r1 s1 where g: "gen_rdvno ?cal s = (r1, s1)" by fastforce
    have s1: "s1 = snd (gen_rdvno ?cal s)" "r1 = wrdvno (tcbs s ?cal)"
      using g gen_rdvno_frame(6) [of ?cal s] by auto
    have ne: "?cal \<noteq> u" using u rdv_invD(4) [OF ok(2) rw, of OAcp i] by auto
    have inv2: "por_inv (rdv_send u r1 msg n s1)" using inv u by (intro por_inv_send) (simp_all add: s1)
    have rw2: "rdv_waits ?cal (rdv_send u r1 msg n s1)"
      using rw ne by (simp add: rdv_waits_def rdv_send_sel s1)
    then have w2: "in_wait (tstate (tcbs (rdv_send u r1 msg n s1) ?cal))" by (simp add: rdv_waits_def)
    have "get_tskid_rdvno r1 = ?cal" using rdv_invD(1) [OF ok(2), of ?cal] w by (auto simp: s1 in_wait_iff)
    then have "por_inv (rdv_forward ?cal r1 i (rdv_send u r1 msg n s1))" by (rule rdv_forward_ok [OF inv2 rw2])
    moreover have "por_inv (wait_release_ok_ercd ?cal E_DISWAI (rdv_send u r1 msg n s1))"
      using w2 by (rule por_inv_release [OF inv2])
    ultimately show ?thesis using inv rel Some g by (auto simp: tk_fwd_por_def Let_def)
  qed
qed (use inv in \<open>auto simp: tk_fwd_por_def Let_def por_exists_def\<close>)

lemma tk_rpl_rdv_ok:
  assumes inv: "por_inv s"
  shows "por_inv (snd (tk_rpl_rdv rdvno msg n s))"
proof (cases "in_rdv rdvno (get_tskid_rdvno rdvno) s")
  case True
  then have w: "in_wait (tstate (tcbs s (get_tskid_rdvno rdvno)))" by (simp add: in_rdv_def)
  have "por_inv (wait_release_ok (get_tskid_rdvno rdvno) s')"
    if "por_inv s'" "tcbs s' = tcbs s" for s' :: "'a por_st_scheme" using that w by (intro por_inv_release) simp_all
  then show ?thesis using inv by (simp add: tk_rpl_rdv_def Let_def)
qed (use inv in \<open>simp add: tk_rpl_rdv_def Let_def\<close>)

section \<open>Creation and deletion\<close>

lemma tk_cre_por_ok:
  assumes inv: "por_inv s"
  shows "por_inv (snd (tk_cre_por pk s))"
proof (cases "free_porcb s")
  case Nil
  then show ?thesis using inv by (simp add: tk_cre_por_def Let_def)
next
  case (Cons i free)
  have ok: "por_ok s" "rdv_inv s" using inv by (simp_all add: por_inv_def)
  let ?s1 = "upd_porcb i (\<lambda>c. c\<lparr>porid := i, por_exinf := cpo_exinf pk, poratr := cpo_poratr pk,
                           maxcmsz := cpo_maxcmsz pk, maxrmsz := cpo_maxrmsz pk\<rparr>) (s\<lparr>free_porcb := free\<rparr>)"
  define s2 where "s2 = (if has (cpo_poratr pk) TA_DSNAME
      then upd_porcb i (\<lambda>c. c\<lparr>por_name := tkl_strncpy (cpo_dsname pk) OBJECT_NAME_LENGTH\<rparr>) ?s1 else ?s1)"
  have i: "chk_id (max_porid s) i" "\<not> por_exists i s"
    using poro.weakD(3) [OF por_okD(2) [OF ok(1)], of i] Cons by (auto simp: por_exists_def)
  then have i1: "i \<noteq> 0" by (auto simp: chk_id_def)
  have e: "que s (WaitQ OCal i) = []" "que s (WaitQ OAcp i) = []" using por_okD(5) [OF ok(1) i(2)] by auto
  have f: "tcbs s2 = tcbs s" "que s2 = que s" "kinv s2 = kinv s" "free_porcb s2 = free"
    "max_porid s2 = max_porid s" "j \<noteq> i \<Longrightarrow> porcb_table s2 j = porcb_table s j"
    "porid (porcb_table s2 i) = i" "maxcmsz (porcb_table s2 i) = cpo_maxcmsz pk"
    "maxrmsz (porcb_table s2 i) = cpo_maxrmsz pk" "rdv_inv s2 = rdv_inv s" for j by (simp_all add: s2_def)
  have "por_inv s2" if "0 \<le> cpo_maxcmsz pk" "0 \<le> cpo_maxrmsz pk"
  proof -
    have "por_obj_pre i s2" "por_obj_settled i s2"
      using e that i1 by (simp_all add: por_obj_pre_def por_obj_settled_def Let_def f)
    then have "por_ok s2"
      using por_okD(1) [OF ok(1)] i1 f by (intro poro.create [OF ok(1) Cons]) (simp_all add: same_waits_tcbs)
    then show ?thesis using ok(2) by (simp add: por_inv_def f)
  qed
  then show ?thesis
    using Cons inv unfolding tk_cre_por_def Let_def s2_def by (cases "has (cpo_poratr pk) TA_DSNAME") simp_all
qed

lemma rdv_inv_delete:
  assumes inv: "rdv_inv s" and k: "kinv s"
  shows "rdv_inv (wait_delete kd i s)"
proof -
  note w = wait_delete_spec [OF k, of kd i] and v = tcb_viewD [OF wait_delete_spec(6) [OF k, of kd i]]
  show ?thesis
  proof (rule rdv_inv_step [OF inv, where x = 0])
    show "tstate (tcbs s u) \<noteq> TS_NONEXIST" if "tstate (tcbs (wait_delete kd i s) u) \<noteq> TS_NONEXIST" for u
    proof (cases "u \<in> set (que s (WaitQ kd i))")
      case True
      then show ?thesis using kinv_xD(5) [OF k True] by auto
    next
      case False
      then show ?thesis using that w by simp
    qed
    have a: "rdv_waits u s \<and> winfo (tcbs (wait_delete kd i s) u) = winfo (tcbs s u) \<and>
        (\<forall>k j. u \<in> set (que (wait_delete kd i s) (WaitQ k j)) \<longrightarrow> u \<in> set (que s (WaitQ k j)))"
      if r: "rdv_waits u (wait_delete kd i s)" for u
    proof -
      have "u \<notin> set (que s (WaitQ kd i))" using r w by (auto simp: rdv_waits_def)
      then show ?thesis using r w v by (auto simp: rdv_waits_def)
    qed
    then show "rdv_waits u s \<and> winfo (tcbs (wait_delete kd i s) u) = winfo (tcbs s u) \<and>
        (\<forall>k j. u \<in> set (que (wait_delete kd i s) (WaitQ k j)) \<longrightarrow> u \<in> set (que s (WaitQ k j)))"
      if "rdv_waits u (wait_delete kd i s)" for u using that .
    show "get_tskid_rdvno (rdv_rdvno (winfo (tcbs (wait_delete kd i s) 0))) = 0 \<and>
      is_WI_rdv (winfo (tcbs (wait_delete kd i s) 0)) \<and> (\<forall>k j. 0 \<notin> set (que (wait_delete kd i s) (WaitQ k j)))"
      if "rdv_waits 0 (wait_delete kd i s)" using a [OF that] rdv_invD(2-4) [OF inv, of 0] by auto
  qed (simp_all add: v)
qed

lemma tk_del_por_ok:
  assumes inv: "por_inv s"
  shows "por_inv (snd (tk_del_por i s))"
proof -
  have ok: "por_ok s" "rdv_inv s" using inv by (simp_all add: por_inv_def)
  let ?s1 = "wait_delete OAcp i (wait_delete OCal i s)"
  let ?s2 = "upd_porcb i (\<lambda>c. c\<lparr>porid := 0\<rparr>) (?s1\<lparr>free_porcb := free_porcb s @ [i]\<rparr>)"
  note k = por_okD(1) [OF ok(1)]
  note w1 = wait_delete_spec [OF k, of OCal i]
  note w2 = wait_delete_spec [OF w1(1), of OAcp i]
  have "same_waits ?s2 s kd j" if "j \<noteq> i" for kd j
    by (rule same_waits_trans [OF same_waits_tcbs
        same_waits_trans [OF same_waits_delete [OF w1(1)] same_waits_delete [OF k]]])
      (use that in auto)
  then have "por_ok ?s2" if "por_exists i s"
    by (intro poro.delete [OF ok(1), of i]) (use that w1 w2 in \<open>auto simp: por_exists_def\<close>)
  moreover have "rdv_inv ?s2" using rdv_inv_delete [OF rdv_inv_delete [OF ok(2) k] w1(1)] by simp
  ultimately show ?thesis using inv by (simp add: tk_del_por_def Let_def por_exists_def por_inv_def)
qed

section \<open>Change of priority, release and time-out\<close>

lemma cal_chg_pri_ok:
  fixes s :: "'a por_st_scheme"
  assumes inv: "por_inv s" and t: "t \<in> set (que s (WaitQ OCal i))"
  shows "por_inv (cal_chg_pri t old s)"
proof -
  have ok: "por_ok s" "rdv_inv s" using inv by (simp_all add: por_inv_def)
  note k = por_okD(1) [OF ok(1)]
  have w: "in_wait (tstate (tcbs s t))" "wid (tcbs s t) = i" using kinv_xD(5) [OF k t] by auto
  have ex: "por_exists i s" using poro.waits_exists [OF por_okD(2) [OF ok(1)] t] by (simp add: por_exists_def)
  let ?s' = "gcb_change_priority (WaitQ OCal i) t s"
  have u: "kd = OCal \<and> j = i" if "t \<in> set (que s (WaitQ kd j))" for kd j
    using that que_okD [OF kinv_xD(2) [OF k] t, of "WaitQ kd j"] by auto
  have oq: "que ?s' (WaitQ kd j) = que s (WaitQ kd j)" if "kd \<noteq> OCal \<or> j \<noteq> i" for kd j
  proof -
    have "t \<notin> set (que s (WaitQ kd j))" using that u by blast
    then show ?thesis using that unfolding gcb_change_priority_que by auto
  qed
  have ti: "set (que ?s' (WaitQ OCal i)) = set (que s (WaitQ OCal i))"
    unfolding gcb_change_priority_que using t by auto
  have set: "set (que ?s' (WaitQ kd j)) = set (que s (WaitQ kd j))" for kd j
    using ti oq [of kd j] by (cases "kd = OCal \<and> j = i") auto
  have pre': "por_obj_pre i ?s'" "por_obj_settled i ?s'"
    using por_okD(3,4) [OF ok(1) ex]
    unfolding por_obj_pre_def por_obj_settled_def Let_def set por_frame gcb_change_priority_frame by simp_all
  have "por_ok ?s'"
    by (rule poro.frame [OF por_okD(2) [OF ok(1), of i] gcb_change_priority_kinv_x [OF k w]])
      (use ex pre' oq in \<open>simp_all add: por_exists_def same_waits_def gcb_change_priority_frame\<close>)
  moreover have "rdv_inv ?s'"
    using ok(2) unfolding rdv_inv_def rdv_waits_def set gcb_change_priority_frame .
  ultimately show ?thesis by (simp add: cal_chg_pri_def w por_inv_def)
qed

lemma por_timeout_ok:
  fixes s :: "'a por_st_scheme"
  assumes inv: "por_inv s" and w: "in_wait (tstate (tcbs s t))"
  shows "por_inv (wait_release_tmout no_hook t s)"
proof -
  let ?s' = "make_non_wait t (que_remove t s)"
  have ok: "por_ok s" "rdv_inv s" using inv by (simp_all add: por_inv_def)
  note k = por_okD(1) [OF ok(1)]
  have k0: "kinv (que_remove t s)" using k w by (intro que_remove_kinv_x) (auto dest: in_wait_not_ready)
  have q: "que ?s' (WaitQ kd j) = removeAll t (que s (WaitQ kd j))" for kd j
    using make_ready_que [OF k0, of t] by (simp add: make_non_wait_def)
  have "por_ok ?s'" by (rule poro.timeout_ok [OF ok(1) w]) simp_all
  moreover have "rdv_inv ?s'"
  proof (rule rdv_inv_step [OF ok(2), where x = t])
    show "tstate (tcbs s u) \<noteq> TS_NONEXIST" if "tstate (tcbs ?s' u) \<noteq> TS_NONEXIST" for u
      using that w by (auto split: if_splits)
  qed (use q in \<open>auto simp: rdv_waits_def\<close>)
  ultimately show ?thesis
    by (auto simp: wait_release_tmout_def no_hook_def Let_def por_inv_def split: option.split)
qed

definition por_waits :: "ID \<Rightarrow> 'a kst_scheme \<Rightarrow> bool" where
  "por_waits t s \<longleftrightarrow> rdv_waits t s \<or>
     (\<exists>i. t \<in> set (que s (WaitQ OCal i)) \<or> t \<in> set (que s (WaitQ OAcp i)))"

lemma por_waits_in_wait: "por_inv s \<Longrightarrow> por_waits t s \<Longrightarrow> in_wait (tstate (tcbs s t))"
  using kinv_xD(5) [OF por_okD(1)] by (auto simp: por_inv_def por_waits_def rdv_waits_def)

inductive por_sys_step :: "'a por_st_scheme \<Rightarrow> 'a por_st_scheme \<Rightarrow> bool" where
  cre: "por_sys_step s (snd (tk_cre_por pk s))"
| del: "por_sys_step s (snd (tk_del_por i s))"
| cal: "in_ddsp s \<or> running (me s) s \<Longrightarrow> por_sys_step s (snd (tk_cal_por p i ptn msg n tmout s))"
| cal_u: "in_ddsp s \<or> running (me s) s \<Longrightarrow> por_sys_step s (snd (tk_cal_por_u p i ptn msg n tmout s))"
| acp: "in_ddsp s \<or> running (me s) s \<Longrightarrow> por_sys_step s (snd (tk_acp_por p i ptn pr msg tmout s))"
| acp_u: "in_ddsp s \<or> running (me s) s \<Longrightarrow> por_sys_step s (snd (tk_acp_por_u p i ptn pr msg tmout s))"
| fwd: "por_sys_step s (snd (tk_fwd_por i ptn rdvno msg n s))"
| rpl: "por_sys_step s (snd (tk_rpl_rdv rdvno msg n s))"
| release: "por_waits t s \<Longrightarrow> por_sys_step s (wait_release_ng no_hook t e s)"
| timeout: "por_waits t s \<Longrightarrow> por_sys_step s (wait_release_tmout no_hook t s)"
| chg_pri: "t \<in> set (que s (WaitQ OCal i)) \<Longrightarrow> por_sys_step s (cal_chg_pri t old s)"
| dispatch: "por_sys_step s (s\<lparr>ctxtsk := schedtsk s\<rparr>)"

lemma por_sys_step_ok: "por_sys_step s s' \<Longrightarrow> por_inv s \<Longrightarrow> por_inv s'"
proof (induction rule: por_sys_step.induct)
  case (release t s e)
  then show ?case using por_inv_release(2) [OF release.prems por_waits_in_wait] by simp
next
  case (timeout t s)
  then show ?case using por_timeout_ok [OF timeout.prems por_waits_in_wait] by simp
qed (simp_all add: tk_cre_por_ok tk_del_por_ok tk_cal_por_def tk_cal_por_u_ok tk_acp_por_def tk_acp_por_u_ok
    tk_fwd_por_ok tk_rpl_rdv_ok cal_chg_pri_ok)

lemma por_sys_steps_ok: "por_sys_step\<^sup>*\<^sup>* s s' \<Longrightarrow> por_inv s \<Longrightarrow> por_inv s'"
  by (induction rule: rtranclp_induct) (auto intro: por_sys_step_ok)

lemma por_inv_typed:
  assumes inv: "por_inv s"
  shows "t \<in> set (que s (WaitQ OCal i)) \<Longrightarrow> is_WI_cal (winfo (tcbs s t))"
    "t \<in> set (que s (WaitQ OAcp i)) \<Longrightarrow> is_WI_acp (winfo (tcbs s t))"
    "rdv_waits t s \<Longrightarrow> is_WI_rdv (winfo (tcbs s t)) \<and> get_tskid_rdvno (rdv_rdvno (winfo (tcbs s t))) = t \<and>
       (\<forall>kd j. t \<notin> set (que s (WaitQ kd j)))"
proof -
  have ok: "por_ok s" "rdv_inv s" using inv by (simp_all add: por_inv_def)
  have "por_exists i s" if "t \<in> set (que s (WaitQ OCal i)) \<or> t \<in> set (que s (WaitQ OAcp i))"
    using that por_okD(5) [OF ok(1), of i] by force
  then show "t \<in> set (que s (WaitQ OCal i)) \<Longrightarrow> is_WI_cal (winfo (tcbs s t))"
    "t \<in> set (que s (WaitQ OAcp i)) \<Longrightarrow> is_WI_acp (winfo (tcbs s t))"
    using por_okD(3) [OF ok(1), of i] by (auto simp: por_obj_pre_def Let_def)
  show "rdv_waits t s \<Longrightarrow> is_WI_rdv (winfo (tcbs s t)) \<and> get_tskid_rdvno (rdv_rdvno (winfo (tcbs s t))) = t \<and>
       (\<forall>kd j. t \<notin> set (que s (WaitQ kd j)))"
    using rdv_invD(2-4) [OF ok(2)] by auto
qed

section \<open>The effect of a rendezvous\<close>

text \<open>A reply copies the message, writes the size and releases the caller; its number is used up.\<close>

lemma tk_rpl_rdv_effect:
  assumes a: "in_rdv rdvno t s" "get_tskid_rdvno rdvno = t" "chk_id (max_tskid s) t" "\<not> in_indp s"
    and n: "0 \<le> n" "n \<le> rdv_maxrmsz (winfo (tcbs s t))"
  obtains s' where "tk_rpl_rdv rdvno msg n s = (E_OK, s')"
    "\<And>u. tstate (tcbs s' u) = (if u = t then released (tstate (tcbs s t)) else tstate (tcbs s u))"
    "wercd (tcbs s' t) = E_OK" "rdv_result (rdv_p_rmsgsz (winfo (tcbs s t))) t s' = n"
    "mem_byte s' = (if n > 0 then copy_mem (rdv_msg (winfo (tcbs s t))) msg (word_of_int n) (mem_byte s) else mem_byte s)"
    "\<not> in_rdv rdvno t s'" "max_tskid s' = max_tskid s" "in_indp s' = in_indp s"
proof -
  let ?w = "winfo (tcbs s t)"
  let ?s1 = "put_msg (rdv_msg ?w) msg n s"
  let ?s2 = "?s1\<lparr>mem_int := (mem_int ?s1)(rdv_p_rmsgsz ?w := n)\<rparr>"
  have w: "in_wait (tstate (tcbs s t))" using a(1) by (simp add: in_rdv_def)
  have "tk_rpl_rdv rdvno msg n s = (E_OK, wait_release_ok t ?s2)"
    using a n by (simp add: tk_rpl_rdv_def Let_def)
  then show thesis
    by (rule that)
      (use w in \<open>simp_all add: wait_release_ok_def rdv_result_def in_rdv_def in_indp_def\<close>, simp_all add: put_msg_def)
qed

text \<open>An acceptor finds a caller: the number it is given is the one by which a reply finds the caller.\<close>

lemma tk_acp_por_u_accepts:
  assumes inv: "por_inv s" and ex: "por_exists i s" and d: "\<not> in_ddsp s" and r: "ptn \<noteq> 0" "chk_tmout tmout"
    and f: "find_cal ptn i s = Some u"
    and w: "\<not> is_diswai (poratr (porcb_table s i)) (me s) TTW_ACP s"
      "\<not> is_diswai (poratr (porcb_table s i)) u TTW_RDV s"
  obtains s' where "tk_acp_por_u p i ptn pr msg tmout s = (Ret (cal_cmsgsz (winfo (tcbs s u))), s')"
    "in_rdv (mem_uint s' pr) u s'" "get_tskid_rdvno (mem_uint s' pr) = u"
    "que s' (WaitQ OCal i) = removeAll u (que s (WaitQ OCal i))"
    "mem_byte s' = (if cal_cmsgsz (winfo (tcbs s u)) > 0
       then copy_mem msg (cal_msg (winfo (tcbs s u))) (word_of_int (cal_cmsgsz (winfo (tcbs s u)))) (mem_byte s)
       else mem_byte s)"
    "winfo (tcbs s' u) = WI_rdv (mem_uint s' pr) (cal_msg (winfo (tcbs s u)))
       (maxrmsz (porcb_table s i)) (cal_p_rmsgsz (winfo (tcbs s u)))"
    "max_tskid s' = max_tskid s" "ctxtsk s' = ctxtsk s" "task_indep s' = task_indep s"
proof -
  have ok: "por_ok s" "rdv_inv s" using inv by (simp_all add: por_inv_def)
  note u = find_cal_SomeD(1) [OF f]
  have iw: "in_wait (tstate (tcbs s u))" using kinv_xD(5) [OF por_okD(1) [OF ok(1)] u] by simp
  then have e: "tstate (tcbs s u) \<noteq> TS_NONEXIST" by (auto simp: in_wait_iff)
  let ?m = "cal_msg (winfo (tcbs s u))" and ?n = "cal_cmsgsz (winfo (tcbs s u))"
  let ?s1 = "snd (gen_rdvno u s)"
  let ?s3 = "put_msg msg ?m ?n (?s1\<lparr>mem_uint := (mem_uint ?s1)(pr := wrdvno (tcbs s u))\<rparr>)"
  define s' where "s' = rdv_accept u (wrdvno (tcbs s u)) (maxrmsz (porcb_table s i)) ?s3"
  have dw: "\<not> is_diswai (poratr (porcb_table s i)) u TTW_RDV ?s3" using w(2) by (simp add: is_diswai_def)
  have "tk_acp_por_u p i ptn pr msg tmout s = (Ret ?n, s')"
    using ex d r f w(1) dw by (simp add: tk_acp_por_u_def por_exists_def Let_def s'_def split_beta)
  moreover have mu: "mem_uint s' pr = wrdvno (tcbs s u)"
    by (simp add: s'_def rdv_accept_def wait_cancel_def Let_def)
  moreover have "task_indep s' = task_indep s" "max_tskid s' = max_tskid s" "ctxtsk s' = ctxtsk s"
    by (simp_all add: s'_def rdv_accept_def wait_cancel_def Let_def put_msg_def gen_rdvno_def)
  moreover have "mem_byte s' = (if ?n > 0 then copy_mem msg ?m (word_of_int ?n) (mem_byte s) else mem_byte s)"
    by (simp add: s'_def rdv_accept_def wait_cancel_def Let_def put_msg_def gen_rdvno_def)
  ultimately show thesis
    using rdv_invD(1) [OF ok(2) e] iw
    by (intro that [of s']) (simp_all add: mu in_rdv_def s'_def rdv_accept_sel)
qed

text \<open>Acceptance and reply together.\<close>

lemma rendezvous_meets:
  assumes inv: "por_inv s" and ex: "por_exists i s" and d: "\<not> in_ddsp s" and r: "ptn \<noteq> 0" "chk_tmout tmout"
    and f: "find_cal ptn i s = Some u" and id: "chk_id (max_tskid s) u"
    and w: "\<not> is_diswai (poratr (porcb_table s i)) (me s) TTW_ACP s"
      "\<not> is_diswai (poratr (porcb_table s i)) u TTW_RDV s"
    and n: "0 \<le> n" "n \<le> maxrmsz (porcb_table s i)"
  shows "\<exists>s1 s2. tk_acp_por_u p i ptn pr msg tmout s = (Ret (cal_cmsgsz (winfo (tcbs s u))), s1) \<and>
    in_wait (tstate (tcbs s1 u)) \<and> u \<notin> set (que s1 (WaitQ OCal i)) \<and>
    tk_rpl_rdv (mem_uint s1 pr) reply n s1 = (E_OK, s2) \<and>
    \<not> in_wait (tstate (tcbs s2 u)) \<and> rdv_result (cal_p_rmsgsz (winfo (tcbs s u))) u s2 = n \<and>
    fst (tk_rpl_rdv (mem_uint s1 pr) reply n s2) = E_OBJ"
proof -
  obtain s1 where s1: "tk_acp_por_u p i ptn pr msg tmout s = (Ret (cal_cmsgsz (winfo (tcbs s u))), s1)"
    "in_rdv (mem_uint s1 pr) u s1" "get_tskid_rdvno (mem_uint s1 pr) = u"
    "que s1 (WaitQ OCal i) = removeAll u (que s (WaitQ OCal i))"
    "winfo (tcbs s1 u) = WI_rdv (mem_uint s1 pr) (cal_msg (winfo (tcbs s u)))
       (maxrmsz (porcb_table s i)) (cal_p_rmsgsz (winfo (tcbs s u)))"
    "max_tskid s1 = max_tskid s" "ctxtsk s1 = ctxtsk s" "task_indep s1 = task_indep s"
    using tk_acp_por_u_accepts [OF inv ex d r f w, of p pr msg] by metis
  have i1: "\<not> in_indp s1" using d s1(7,8) by (simp add: in_ddsp_def in_indp_def)
  have c: "chk_id (max_tskid s1) u" "n \<le> rdv_maxrmsz (winfo (tcbs s1 u))" using s1 id n by simp_all
  obtain s2 where s2: "tk_rpl_rdv (mem_uint s1 pr) reply n s1 = (E_OK, s2)"
    "tstate (tcbs s2 u) = released (tstate (tcbs s1 u))" "rdv_result (rdv_p_rmsgsz (winfo (tcbs s1 u))) u s2 = n"
    "\<not> in_rdv (mem_uint s1 pr) u s2" "max_tskid s2 = max_tskid s1" "in_indp s2 = in_indp s1"
    using tk_rpl_rdv_effect [OF s1(2,3) c(1) i1 n(1) c(2), of reply] by metis
  have "fst (tk_rpl_rdv (mem_uint s1 pr) reply n s2) = E_OBJ"
    using s2(4-6) s1(3) i1 c(1) n(1) by (simp add: tk_rpl_rdv_def Let_def)
  then show ?thesis using s1 s2 by (intro exI [of _ s1] exI [of _ s2]) (simp add: in_rdv_def released_not_wait)
qed
end
