(* ===== verification/Mutex.thy ===== *)
theory Mutex
  imports Rendezvous
begin

text \<open>
  Mutexes (\<open>mutex.c\<close>). A task keeps the mutexes it has locked in a list linked through the
  control blocks. A mutex with \<open>TA_INHERIT\<close> lends its holder the priority of the tasks that wait
  for it, one with \<open>TA_CEILING\<close> lends it a fixed priority. A change of the priority of a waiting
  task goes on to the holder of the mutex it waits for, and so on: the functions \<open>mtx_chg_pri\<close>,
  \<open>change_task_priority\<close> and \<open>release_mutex\<close> call each other through the hooks, so they are partial
  functions here; \<open>None\<close> is a call that does not return. \<open>Inheritance\<close> shows that they return.
\<close>

section \<open>Control blocks\<close>

record mtxcb =
  mtxid :: ID
  mtx_exinf :: addr
  mtxatr :: ATR
  ceilpri :: nat
  mtxtsk :: "ID option"
  mtx_link :: "ID option"
  mtx_name :: "UB list"

record mtx_st = por_st +
  mtxcb_table :: "ID \<Rightarrow> mtxcb"
  free_mtxcb :: "ID list"
  max_mtxid :: ID

record t_cmtx =
  cx_exinf :: addr
  cx_mtxatr :: ATR
  cx_ceilpri :: int
  cx_dsname :: "UB list"

record t_rmtx =
  rx_exinf :: addr
  rx_htsk :: ID
  rx_wtsk :: ID

definition upd_mtxcb :: "ID \<Rightarrow> (mtxcb \<Rightarrow> mtxcb) \<Rightarrow> 'a mtx_st_scheme \<Rightarrow> 'a mtx_st_scheme" where
  "upd_mtxcb i f s = s\<lparr>mtxcb_table := (mtxcb_table s)(i := f (mtxcb_table s i))\<rparr>"

definition mutex_initialize :: "int \<times> int \<Rightarrow> bool \<Rightarrow> 'a mtx_st_scheme \<Rightarrow> ER \<times> 'a mtx_st_scheme" where
  "mutex_initialize cfn malloc_ok s =
     (let s1 = s\<lparr>max_mtxid := snd cfn\<rparr>
      in if fst cfn < 1 \<or> max_mtxid s1 < 1 then (E_SYS, s1)
         else if \<not> malloc_ok then (E_NOMEM, s1)
         else (E_OK, fold (\<lambda>i s. (upd_mtxcb i (\<lambda>c. c\<lparr>mtxid := 0\<rparr>) s)\<lparr>free_mtxcb := free_mtxcb s @ [i]\<rparr>)
                       [1..max_mtxid s1] (s1\<lparr>free_mtxcb := []\<rparr>)))"

text \<open>\<open>mtxatr & TA_CEILING\<close>: the two lowest bits tell the kind of mutex.\<close>

definition mtx_kind :: "ID \<Rightarrow> 'a mtx_st_scheme \<Rightarrow> ATR" where
  "mtx_kind i s = mtxatr (mtxcb_table s i) AND TA_CEILING"

definition mtx_waited :: "ID \<Rightarrow> 'a mtx_st_scheme \<Rightarrow> bool" where
  "mtx_waited i s \<longleftrightarrow> que s (WaitQ OMtx i) \<noteq> []"

definition mtx_head_pri :: "ID \<Rightarrow> 'a mtx_st_scheme \<Rightarrow> nat" where
  "mtx_head_pri i s = priority (tcbs s (hd (que s (WaitQ OMtx i))))"

section \<open>The list of a task, and the priority it is entitled to\<close>

text \<open>The addresses \<open>prev\<close> can have in \<open>release_mutex\<close>: the field \<open>mtxlist\<close> of a task or of a
  mutex.\<close>

datatype mtxptr = TskList ID | MtxLink ID

fun get_list :: "mtxptr \<Rightarrow> 'a mtx_st_scheme \<Rightarrow> ID option" where
  "get_list (TskList t) s = mtxlist (tcbs s t)"
| "get_list (MtxLink i) s = mtx_link (mtxcb_table s i)"

fun set_list :: "mtxptr \<Rightarrow> ID option \<Rightarrow> 'a mtx_st_scheme \<Rightarrow> 'a mtx_st_scheme" where
  "set_list (TskList t) v s = tcb_upd t (\<lambda>c. c\<lparr>mtxlist := v\<rparr>) s"
| "set_list (MtxLink i) v s = upd_mtxcb i (\<lambda>c. c\<lparr>mtx_link := v\<rparr>) s"

text \<open>The \<open>switch\<close> of the loops: \<open>pri\<close> keeps its value when the mutex has nothing to say.\<close>

definition mtx_pri :: "ID \<Rightarrow> nat \<Rightarrow> 'a mtx_st_scheme \<Rightarrow> nat" where
  "mtx_pri i pri s =
     (if mtx_kind i s = TA_CEILING then ceilpri (mtxcb_table s i)
      else if mtx_kind i s = TA_INHERIT then (if mtx_waited i s then mtx_head_pri i s else pri)
      else pri)"

partial_function (option) release_loop ::
  "ID option \<Rightarrow> mtxptr \<Rightarrow> nat \<Rightarrow> nat \<Rightarrow> 'a mtx_st_scheme \<Rightarrow> (nat \<times> 'a mtx_st_scheme) option" where
  "release_loop rel prev newpri pri s =
     (case get_list prev s of
        None \<Rightarrow> Some (newpri, s)
      | Some m \<Rightarrow>
          if rel = Some m then
            release_loop rel prev newpri pri (set_list prev (mtx_link (mtxcb_table s m)) s)
          else
            (let pri' = mtx_pri m pri s
             in release_loop rel (MtxLink m) (if newpri > pri' then pri' else newpri) pri' s))"

section \<open>Changing priorities\<close>

text \<open>\<open>change_task_priority\<close> with hooks that may not return.\<close>

definition change_task_priority_o ::
  "(hook \<Rightarrow> ID \<Rightarrow> int \<Rightarrow> 'a kst_scheme \<Rightarrow> 'a kst_scheme option) \<Rightarrow>
   ID \<Rightarrow> nat \<Rightarrow> 'a kst_scheme \<Rightarrow> 'a kst_scheme option" where
  "change_task_priority_o call_hook t pri s =
     (if tstate (tcbs s t) = TS_READY then
        (let s1 = ready_queue_delete t s;
             s2 = tcb_upd t (\<lambda>c. c\<lparr>priority := pri\<rparr>) s1;
             s3 = snd (ready_queue_insert t s2)
         in Some (reschedule s3))
      else
        (let oldpri = priority (tcbs s t);
             s1 = tcb_upd t (\<lambda>c. c\<lparr>priority := pri\<rparr>) s
         in if in_wait (tstate (tcbs s1 t)) then
              (case chg_pri_hook (wspec (tcbs s1 t)) of
                 None \<Rightarrow> Some s1
               | Some h \<Rightarrow> call_hook h t (int oldpri) s1)
            else Some s1))"

definition release_mutex ::
  "(hook \<Rightarrow> ID \<Rightarrow> int \<Rightarrow> 'a mtx_st_scheme \<Rightarrow> 'a mtx_st_scheme option) \<Rightarrow>
   ID \<Rightarrow> ID option \<Rightarrow> 'a mtx_st_scheme \<Rightarrow> 'a mtx_st_scheme option" where
  "release_mutex call_hook t rel s =
     (let b = bpriority (tcbs s t)
      in case release_loop rel (TskList t) b b s of
           None \<Rightarrow> None
         | Some (newpri, s1) \<Rightarrow>
             if newpri \<noteq> priority (tcbs s1 t) then change_task_priority_o call_hook t newpri s1
             else Some s1)"

lemma change_task_priority_o_mono [partial_function_mono]:
  assumes "\<And>h u old s. mono_option (\<lambda>f. c f h u old s)"
  shows "mono_option (\<lambda>f. change_task_priority_o (c f) t pri s)"
  using assms
  by (auto simp: change_task_priority_o_def monotone_def Let_def flat_ord_def split: option.splits)

lemma release_mutex_mono [partial_function_mono]:
  assumes "\<And>h u old s. mono_option (\<lambda>f. c f h u old s)"
  shows "mono_option (\<lambda>f. release_mutex (c f) t rel s)"
proof -
  have "monotone (fun_ord option_ord) option_ord (\<lambda>f. change_task_priority_o (c f) u p s')" for u p s'
    by (rule change_task_priority_o_mono [OF assms])
  then show ?thesis
    by (auto simp: release_mutex_def monotone_def Let_def flat_ord_def split: option.splits)
qed

text \<open>The hooks of the other objects.\<close>

definition obj_chg_hook :: "hook \<Rightarrow> ID \<Rightarrow> int \<Rightarrow> 'a por_st_scheme \<Rightarrow> 'a por_st_scheme" where
  "obj_chg_hook h t oldpri s =
     (case h of
        H_sem_chg_pri \<Rightarrow> sem_chg_pri t oldpri s
      | H_flg_chg_pri \<Rightarrow> flg_chg_pri t oldpri s
      | H_mbx_chg_pri \<Rightarrow> mbx_chg_pri t oldpri s
      | H_mbf_chg_pri \<Rightarrow> mbf_chg_pri t oldpri s
      | H_mpf_chg_pri \<Rightarrow> mpf_chg_pri t oldpri s
      | H_mpl_chg_pri \<Rightarrow> mpl_chg_pri t oldpri s
      | H_cal_chg_pri \<Rightarrow> cal_chg_pri t oldpri s
      | _ \<Rightarrow> s)"

text \<open>The call through the function pointer, \<open>mtx_hook\<close> being \<open>mtx_chg_pri\<close>.\<close>

definition call_chg_hook ::
  "(ID \<Rightarrow> int \<Rightarrow> 'a por_st_scheme \<Rightarrow> 'a por_st_scheme option) \<Rightarrow>
   hook \<Rightarrow> ID \<Rightarrow> int \<Rightarrow> 'a por_st_scheme \<Rightarrow> 'a por_st_scheme option" where
  "call_chg_hook mtx_hook h t oldpri s =
     (if h = H_mtx_chg_pri then mtx_hook t oldpri s else Some (obj_chg_hook h t oldpri s))"

lemma call_chg_hook_mono [partial_function_mono]:
  assumes "\<And>u old s. mono_option (\<lambda>f. c f u old s)"
  shows "mono_option (\<lambda>f. call_chg_hook (c f) h t old s)"
  using assms by (auto simp: call_chg_hook_def monotone_def flat_ord_def)

partial_function (option) mtx_chg_pri :: "ID \<Rightarrow> int \<Rightarrow> 'a mtx_st_scheme \<Rightarrow> 'a mtx_st_scheme option" where
  "mtx_chg_pri t oldpri s =
     (let i = wid (tcbs s t);
          s1 = gcb_change_priority (WaitQ OMtx i) t s
      in if mtx_kind i s1 = TA_INHERIT then
           (let m = the (mtxtsk (mtxcb_table s1 i))
            in if priority (tcbs s1 m) > priority (tcbs s1 t) then
                 change_task_priority_o (call_chg_hook mtx_chg_pri) m (priority (tcbs s1 t)) s1
               else if int (priority (tcbs s1 m)) = oldpri then
                 release_mutex (call_chg_hook mtx_chg_pri) m None s1
               else Some s1)
         else Some s1)"

text \<open>All hooks of the kernel, and the functions that call them.\<close>

definition kernel_chg_hook :: "hook \<Rightarrow> ID \<Rightarrow> int \<Rightarrow> 'a mtx_st_scheme \<Rightarrow> 'a mtx_st_scheme option" where
  "kernel_chg_hook = call_chg_hook mtx_chg_pri"

abbreviation change_priority :: "ID \<Rightarrow> nat \<Rightarrow> 'a mtx_st_scheme \<Rightarrow> 'a mtx_st_scheme option" where
  "change_priority \<equiv> change_task_priority_o kernel_chg_hook"

definition mtx_rel_wai :: "ID \<Rightarrow> 'a mtx_st_scheme \<Rightarrow> 'a mtx_st_scheme option" where
  "mtx_rel_wai t s =
     (let i = wid (tcbs s t);
          m = the (mtxtsk (mtxcb_table s i))
      in if priority (tcbs s m) = priority (tcbs s t)
         then release_mutex kernel_chg_hook m None s else Some s)"

definition kernel_rel_hook :: "hook \<Rightarrow> ID \<Rightarrow> 'a mtx_st_scheme \<Rightarrow> 'a mtx_st_scheme option" where
  "kernel_rel_hook h t s =
     (case h of
        H_mtx_rel_wai \<Rightarrow> mtx_rel_wai t s
      | H_sem_rel_wai \<Rightarrow> Some (sem_rel_wai t s)
      | H_mbf_rel_wai \<Rightarrow> Some (mbf_rel_wai t s)
      | H_mpl_rel_wai \<Rightarrow> Some (mpl_rel_wai t s)
      | _ \<Rightarrow> Some s)"

definition kernel_wait_release_ng :: "ID \<Rightarrow> ER \<Rightarrow> 'a mtx_st_scheme \<Rightarrow> 'a mtx_st_scheme option" where
  "kernel_wait_release_ng t e s =
     (let s1 = wait_release t s
      in map_option (set_wercd t e)
           (case rel_wai_hook (wspec (tcbs s1 t)) of None \<Rightarrow> Some s1 | Some h \<Rightarrow> kernel_rel_hook h t s1))"

definition kernel_wait_release_tmout :: "ID \<Rightarrow> 'a mtx_st_scheme \<Rightarrow> 'a mtx_st_scheme option" where
  "kernel_wait_release_tmout t s =
     (let s1 = make_non_wait t (que_remove t s)
      in case rel_wai_hook (wspec (tcbs s1 t)) of None \<Rightarrow> Some s1 | Some h \<Rightarrow> kernel_rel_hook h t s1)"

section \<open>System calls\<close>

definition wspec_mtx_tfifo :: wspec where
  "wspec_mtx_tfifo = \<lparr>tskwait = TTW_MTX, chg_pri_hook = None, rel_wai_hook = None\<rparr>"

definition wspec_mtx_tpri :: wspec where
  "wspec_mtx_tpri = \<lparr>tskwait = TTW_MTX, chg_pri_hook = Some H_mtx_chg_pri, rel_wai_hook = None\<rparr>"

definition wspec_mtx_inherit :: wspec where
  "wspec_mtx_inherit =
     \<lparr>tskwait = TTW_MTX, chg_pri_hook = Some H_mtx_chg_pri, rel_wai_hook = Some H_mtx_rel_wai\<rparr>"

definition mtx_wspec :: "ATR \<Rightarrow> wspec" where
  "mtx_wspec kd =
     (if kd = 0 then wspec_mtx_tfifo else if kd = TA_INHERIT then wspec_mtx_inherit else wspec_mtx_tpri)"

definition VALID_MTXATR :: ATR where
  "VALID_MTXATR = TA_CEILING OR TA_NODISWAI OR TA_DSNAME"

definition tk_cre_mtx :: "t_cmtx \<Rightarrow> 'a mtx_st_scheme \<Rightarrow> ER \<times> 'a mtx_st_scheme" where
  "tk_cre_mtx pk s =
     (if \<not> chk_rsatr (cx_mtxatr pk) VALID_MTXATR then (E_RSATR, s)
      else if cx_mtxatr pk AND TA_CEILING = TA_CEILING \<and> \<not> chk_pri (cx_ceilpri pk) then (E_PAR, s)
      else (case free_mtxcb s of
              [] \<Rightarrow> (E_LIMIT, s)
            | i # free \<Rightarrow>
                let cpri = (if cx_mtxatr pk AND TA_CEILING = TA_CEILING
                            then int_priority (cx_ceilpri pk) else 0);
                    s1 = upd_mtxcb i (\<lambda>c. c\<lparr>mtxid := i, mtx_exinf := cx_exinf pk, mtxatr := cx_mtxatr pk,
                           ceilpri := cpri, mtxtsk := None, mtx_link := None\<rparr>) (s\<lparr>free_mtxcb := free\<rparr>);
                    s2 = (if has (cx_mtxatr pk) TA_DSNAME
                          then upd_mtxcb i (\<lambda>c. c\<lparr>mtx_name :=
                                 tkl_strncpy (cx_dsname pk) OBJECT_NAME_LENGTH\<rparr>) s1
                          else s1)
                in (i, s2)))"

definition tk_del_mtx :: "ID \<Rightarrow> 'a mtx_st_scheme \<Rightarrow> (ER \<times> 'a mtx_st_scheme) option" where
  "tk_del_mtx i s =
     (if \<not> chk_id (max_mtxid s) i then Some (E_ID, s)
      else if mtxid (mtxcb_table s i) = 0 then Some (E_NOEXS, s)
      else
        (case (case mtxtsk (mtxcb_table s i) of
                 Some t \<Rightarrow> release_mutex kernel_chg_hook t (Some i) s
               | None \<Rightarrow> Some s) of
           None \<Rightarrow> None
         | Some s1 \<Rightarrow>
             let s2 = wait_delete OMtx i s1;
                 s3 = s2\<lparr>free_mtxcb := free_mtxcb s2 @ [i]\<rparr>
             in Some (E_OK, upd_mtxcb i (\<lambda>c. c\<lparr>mtxid := 0\<rparr>) s3)))"

text \<open>The task becomes the holder: the mutex is put in front of its list.\<close>

definition get_lock :: "ID \<Rightarrow> ID \<Rightarrow> 'a mtx_st_scheme \<Rightarrow> 'a mtx_st_scheme" where
  "get_lock i t s =
     (let s1 = upd_mtxcb i (\<lambda>c. c\<lparr>mtxtsk := Some t\<rparr>) s;
          s2 = upd_mtxcb i (\<lambda>c. c\<lparr>mtx_link := mtxlist (tcbs s1 t)\<rparr>) s1
      in tcb_upd t (\<lambda>c. c\<lparr>mtxlist := Some i\<rparr>) s2)"

definition raise_to_ceiling :: "ID \<Rightarrow> ID \<Rightarrow> 'a mtx_st_scheme \<Rightarrow> 'a mtx_st_scheme option" where
  "raise_to_ceiling i t s =
     (if mtx_kind i s = TA_CEILING \<and> priority (tcbs s t) > ceilpri (mtxcb_table s i)
      then change_priority t (ceilpri (mtxcb_table s i)) s
      else Some s)"

text \<open>The end of \<open>_tk_loc_mtx_u\<close>: the running task waits.\<close>

definition mtx_make_wait :: "ID \<Rightarrow> int \<Rightarrow> 'a mtx_st_scheme \<Rightarrow> 'a mtx_st_scheme" where
  "mtx_make_wait i tmout s =
     (let t = me s; kd = mtx_kind i s;
          s1 = tcb_upd t (\<lambda>c. c\<lparr>wspec := mtx_wspec kd, wercd := E_TMOUT, wid := mtxid (mtxcb_table s i)\<rparr>) s;
          s2 = make_wait tmout (mtxatr (mtxcb_table s i)) s1
      in if kd = 0 then que_insert t (WaitQ OMtx i) s2 else queue_insert_tpri t (WaitQ OMtx i) s2)"

definition tk_loc_mtx_u :: "ID \<Rightarrow> int \<Rightarrow> 'a mtx_st_scheme \<Rightarrow> (sysret \<times> 'a mtx_st_scheme) option" where
  "tk_loc_mtx_u i tmout s =
     (if \<not> chk_id (max_mtxid s) i then Some (Ret E_ID, s)
      else if \<not> chk_tmout tmout then Some (Ret E_PAR, s)
      else if in_ddsp s then Some (Ret E_CTX, s)
      else
        (let t = me s; cb = mtxcb_table s i; kd = mtx_kind i s
         in if mtxid cb = 0 then Some (Ret E_NOEXS, s)
            else if mtxtsk cb = ctxtsk s then Some (Ret E_ILUSE, s)
            else if kd = TA_CEILING \<and> bpriority (tcbs s t) < ceilpri cb then Some (Ret E_ILUSE, s)
            else if is_diswai (mtxatr cb) t TTW_MTX s then Some (Ret E_DISWAI, s)
            else
              (case mtxtsk cb of
                 None \<Rightarrow> map_option (Pair (Ret E_OK)) (raise_to_ceiling i t (get_lock i t s))
               | Some h \<Rightarrow>
                   if tmout = TMO_POL then Some (Ret E_TMOUT, s)
                   else
                     map_option (\<lambda>s1. (Blocked, mtx_make_wait i tmout s1))
                       (if kd = TA_INHERIT \<and> priority (tcbs s h) > priority (tcbs s t)
                        then change_priority h (priority (tcbs s t)) s
                        else Some s))))"

definition tk_loc_mtx :: "ID \<Rightarrow> int \<Rightarrow> 'a mtx_st_scheme \<Rightarrow> (sysret \<times> 'a mtx_st_scheme) option" where
  "tk_loc_mtx i tmout s = tk_loc_mtx_u i (to_usec_tmo tmout) s"

text \<open>The mutex goes to the first waiting task, or becomes free.\<close>

definition hand_over :: "ID \<Rightarrow> 'a mtx_st_scheme \<Rightarrow> 'a mtx_st_scheme option" where
  "hand_over i s =
     (case que s (WaitQ OMtx i) of
        t # _ \<Rightarrow> raise_to_ceiling i t (get_lock i t (wait_release_ok t s))
      | [] \<Rightarrow> Some (upd_mtxcb i (\<lambda>c. c\<lparr>mtxtsk := None\<rparr>) s))"

definition tk_unl_mtx :: "ID \<Rightarrow> 'a mtx_st_scheme \<Rightarrow> (ER \<times> 'a mtx_st_scheme) option" where
  "tk_unl_mtx i s =
     (if \<not> chk_id (max_mtxid s) i then Some (E_ID, s)
      else if in_indp s then Some (E_CTX, s)
      else if mtxid (mtxcb_table s i) = 0 then Some (E_NOEXS, s)
      else if mtxtsk (mtxcb_table s i) \<noteq> ctxtsk s then Some (E_ILUSE, s)
      else
        (case release_mutex kernel_chg_hook (me s) (Some i) s of
           None \<Rightarrow> None
         | Some s1 \<Rightarrow> map_option (Pair E_OK) (hand_over i s1)))"

text \<open>When a task ends, its mutexes go on to the waiting tasks.\<close>

partial_function (option) signal_all_loop ::
  "ID option \<Rightarrow> 'a mtx_st_scheme \<Rightarrow> 'a mtx_st_scheme option" where
  "signal_all_loop next_mtx s =
     (case next_mtx of
        None \<Rightarrow> Some s
      | Some m \<Rightarrow>
          Option.bind (hand_over m s) (signal_all_loop (mtx_link (mtxcb_table s m))))"

definition signal_all_mutex :: "ID \<Rightarrow> 'a mtx_st_scheme \<Rightarrow> 'a mtx_st_scheme option" where
  "signal_all_mutex t s = signal_all_loop (mtxlist (tcbs s t)) s"

text \<open>What \<open>tk_chg_pri\<close> asks before it changes a base priority.\<close>

partial_function (option) chg_pri_loop ::
  "ID option \<Rightarrow> nat \<Rightarrow> nat \<Rightarrow> nat \<Rightarrow> 'a mtx_st_scheme \<Rightarrow> (nat \<times> nat) option" where
  "chg_pri_loop mtx hi_pri low_pri pri s =
     (case mtx of
        None \<Rightarrow> Some (hi_pri, low_pri)
      | Some m \<Rightarrow>
          (let pri' = mtx_pri m pri s;
               low' = (if mtx_kind m s = TA_CEILING \<and> pri' > low_pri then pri' else low_pri)
           in chg_pri_loop (mtx_link (mtxcb_table s m)) (if pri' < hi_pri then pri' else hi_pri) low' pri' s))"

definition chg_pri_mutex :: "ID \<Rightarrow> nat \<Rightarrow> 'a mtx_st_scheme \<Rightarrow> int option" where
  "chg_pri_mutex t pri s =
     (let w = wid (tcbs s t);
          low = (if in_wait (tstate (tcbs s t)) \<and> has (tskwait (wspec (tcbs s t))) TTW_MTX \<and>
                    mtx_kind w s = TA_CEILING \<and> ceilpri (mtxcb_table s w) > 0
                 then ceilpri (mtxcb_table s w) else 0)
      in case chg_pri_loop (mtxlist (tcbs s t)) pri low pri s of
           None \<Rightarrow> None
         | Some (hi, low') \<Rightarrow> Some (if pri < low' then E_ILUSE else int hi))"

section \<open>Reference\<close>

definition tk_ref_mtx :: "ID \<Rightarrow> 'a mtx_st_scheme \<Rightarrow> ER \<times> t_rmtx option" where
  "tk_ref_mtx i s =
     (if \<not> chk_id (max_mtxid s) i then (E_ID, None)
      else if mtxid (mtxcb_table s i) = 0 then (E_NOEXS, None)
      else (E_OK, Some \<lparr>rx_exinf = mtx_exinf (mtxcb_table s i),
              rx_htsk = (case mtxtsk (mtxcb_table s i) of Some t \<Rightarrow> t | None \<Rightarrow> 0),
              rx_wtsk = wait_tskid (WaitQ OMtx i) s\<rparr>))"

definition mutex_getname :: "ID \<Rightarrow> 'a mtx_st_scheme \<Rightarrow> ER \<times> UB list option" where
  "mutex_getname i s =
     (if \<not> chk_id (max_mtxid s) i then (E_ID, None)
      else if mtxid (mtxcb_table s i) = 0 then (E_NOEXS, None)
      else if \<not> has (mtxatr (mtxcb_table s i)) TA_DSNAME then (E_OBJ, None)
      else (E_OK, Some (mtx_name (mtxcb_table s i))))"

definition td_lst_mtx :: "int \<Rightarrow> 'a mtx_st_scheme \<Rightarrow> int \<times> ID list" where
  "td_lst_mtx nent s =
     (let ids = filter (\<lambda>j. mtxid (mtxcb_table s j) \<noteq> 0) [1..max_mtxid s]
      in (int (length ids), take (nat nent) (map (\<lambda>j. mtxid (mtxcb_table s j)) ids)))"

definition td_ref_mtx :: "ID \<Rightarrow> 'a mtx_st_scheme \<Rightarrow> ER \<times> t_rmtx option" where
  "td_ref_mtx i s =
     (if \<not> chk_id (max_mtxid s) i then (E_ID, None)
      else if mtxid (mtxcb_table s i) = 0 then (E_NOEXS, None)
      else (E_OK, Some \<lparr>rx_exinf = mtx_exinf (mtxcb_table s i),
              rx_htsk = (case mtxtsk (mtxcb_table s i) of Some t \<Rightarrow> t | None \<Rightarrow> 0),
              rx_wtsk = wait_tskid (WaitQ OMtx i) s\<rparr>))"

definition td_mtx_que :: "ID \<Rightarrow> int \<Rightarrow> 'a mtx_st_scheme \<Rightarrow> int \<times> ID list" where
  "td_mtx_que i nent s =
     (if \<not> chk_id (max_mtxid s) i then (E_ID, [])
      else if mtxid (mtxcb_table s i) = 0 then (E_NOEXS, [])
      else (let xs = que s (WaitQ OMtx i) in (int (length xs), take (nat nent) xs)))"


section \<open>What the routines leave unchanged\<close>

lemma mtx_more:
  assumes "kst.more s' = kst.more s"
  shows "mtxcb_table s' = mtxcb_table s"
    "free_mtxcb s' = free_mtxcb s"
    "max_mtxid s' = max_mtxid s"
  using assms by (cases s; cases s'; simp add: mtx_st.defs)+

lemma mtx_frame [simp]:
  "mtxcb_table (call_wait kd i atr tmo w wi s) = mtxcb_table s" "free_mtxcb (call_wait kd i atr tmo w wi s) = free_mtxcb s" "max_mtxid (call_wait kd i atr tmo w wi s) = max_mtxid s"
  "mtxcb_table (set_wercd t e s) = mtxcb_table s" "free_mtxcb (set_wercd t e s) = free_mtxcb s" "max_mtxid (set_wercd t e s) = max_mtxid s"
  "mtxcb_table (tcb_upd t f s) = mtxcb_table s" "free_mtxcb (tcb_upd t f s) = free_mtxcb s" "max_mtxid (tcb_upd t f s) = max_mtxid s"
  "mtxcb_table (que_remove t s) = mtxcb_table s" "free_mtxcb (que_remove t s) = free_mtxcb s" "max_mtxid (que_remove t s) = max_mtxid s"
  "mtxcb_table (wait_release t s) = mtxcb_table s" "free_mtxcb (wait_release t s) = free_mtxcb s" "max_mtxid (wait_release t s) = max_mtxid s"
  "mtxcb_table (wait_release_ok t s) = mtxcb_table s" "free_mtxcb (wait_release_ok t s) = free_mtxcb s" "max_mtxid (wait_release_ok t s) = max_mtxid s"
  "mtxcb_table (wait_release_ok_ercd t e s) = mtxcb_table s" "free_mtxcb (wait_release_ok_ercd t e s) = free_mtxcb s" "max_mtxid (wait_release_ok_ercd t e s) = max_mtxid s"
  "mtxcb_table (queue_insert_tpri t q s) = mtxcb_table s" "free_mtxcb (queue_insert_tpri t q s) = free_mtxcb s" "max_mtxid (queue_insert_tpri t q s) = max_mtxid s"
  "mtxcb_table (gcb_change_priority q t s) = mtxcb_table s" "free_mtxcb (gcb_change_priority q t s) = free_mtxcb s" "max_mtxid (gcb_change_priority q t s) = max_mtxid s"
  "mtxcb_table (gcb_make_wait k i a tmo s) = mtxcb_table s" "free_mtxcb (gcb_make_wait k i a tmo s) = free_mtxcb s" "max_mtxid (gcb_make_wait k i a tmo s) = max_mtxid s"
  "mtxcb_table (gcb_make_wait_with_diswai k i a tmo s) = mtxcb_table s" "free_mtxcb (gcb_make_wait_with_diswai k i a tmo s) = free_mtxcb s" "max_mtxid (gcb_make_wait_with_diswai k i a tmo s) = max_mtxid s"
  "mtxcb_table (wait_delete k i s) = mtxcb_table s" "free_mtxcb (wait_delete k i s) = free_mtxcb s" "max_mtxid (wait_delete k i s) = max_mtxid s"
  "mtxcb_table (make_wait tmo a s) = mtxcb_table s" "free_mtxcb (make_wait tmo a s) = free_mtxcb s" "max_mtxid (make_wait tmo a s) = max_mtxid s"
  "mtxcb_table (make_wait_reltim rt a s) = mtxcb_table s" "free_mtxcb (make_wait_reltim rt a s) = free_mtxcb s" "max_mtxid (make_wait_reltim rt a s) = max_mtxid s"
  by (rule mtx_more; simp add: gcb_change_priority_frame)+

lemma upd_mtxcb_sel [simp]:
  "mtxcb_table (upd_mtxcb i f s) j = (if j = i then f (mtxcb_table s i) else mtxcb_table s j)"
  "free_mtxcb (upd_mtxcb i f s) = free_mtxcb s" "max_mtxid (upd_mtxcb i f s) = max_mtxid s"
  "tcbs (upd_mtxcb i f s) = tcbs s" "que (upd_mtxcb i f s) = que s"
  "ctxtsk (upd_mtxcb i f s) = ctxtsk s" "kinv_x X (upd_mtxcb i f s) = kinv_x X s"
  "sched_ok (upd_mtxcb i f s) = sched_ok s" "klocktsk (upd_mtxcb i f s) = klocktsk s"
  "schedtsk (upd_mtxcb i f s) = schedtsk s"
  by (simp_all add: upd_mtxcb_def kinv_x_def rdq_ok_def) (rule sched_ok_cong, simp_all)

lemma mtx_wspec_hooks [simp]:
  "rel_wai_hook wspec_mtx_tfifo = None" "chg_pri_hook wspec_mtx_tfifo = None"
  "rel_wai_hook wspec_mtx_tpri = None" "chg_pri_hook wspec_mtx_tpri = Some H_mtx_chg_pri"
  "rel_wai_hook wspec_mtx_inherit = Some H_mtx_rel_wai"
  "chg_pri_hook wspec_mtx_inherit = Some H_mtx_chg_pri"
  by (simp_all add: wspec_mtx_tfifo_def wspec_mtx_tpri_def wspec_mtx_inherit_def)

lemma mtx_kinds [simp]: "TA_INHERIT \<noteq> 0" "TA_CEILING \<noteq> 0" "TA_INHERIT \<noteq> TA_CEILING" "TA_CEILING \<noteq> TA_INHERIT"
  by (simp_all add: TA_INHERIT_def TA_CEILING_def)

lemma set_list_sel [simp]:
  "que (set_list p v s) = que s" "ctxtsk (set_list p v s) = ctxtsk s"
  "free_mtxcb (set_list p v s) = free_mtxcb s" "max_mtxid (set_list p v s) = max_mtxid s"
  "priority (tcbs (set_list p v s) u) = priority (tcbs s u)"
  "bpriority (tcbs (set_list p v s) u) = bpriority (tcbs s u)"
  "tstate (tcbs (set_list p v s) u) = tstate (tcbs s u)"
  "wspec (tcbs (set_list p v s) u) = wspec (tcbs s u)"
  "wid (tcbs (set_list p v s) u) = wid (tcbs s u)"
  "winfo (tcbs (set_list p v s) u) = winfo (tcbs s u)"
  "mtxid (mtxcb_table (set_list p v s) i) = mtxid (mtxcb_table s i)"
  "mtxatr (mtxcb_table (set_list p v s) i) = mtxatr (mtxcb_table s i)"
  "ceilpri (mtxcb_table (set_list p v s) i) = ceilpri (mtxcb_table s i)"
  "mtxtsk (mtxcb_table (set_list p v s) i) = mtxtsk (mtxcb_table s i)"
  by (cases p; simp)+

lemma get_set_list [simp]: "get_list q (set_list p v s) = (if q = p then v else get_list q s)"
  by (cases p; cases q) auto

lemma set_list_inv [simp]:
  "kinv_x X (set_list p v s) = kinv_x X s" "sched_ok (set_list p v s) = sched_ok s"
proof -
  show "kinv_x X (set_list p v s) = kinv_x X s" by (cases p) (simp_all add: tcb_upd_kinv_same)
  have "sched_ok (tcb_upd t (\<lambda>c. c\<lparr>mtxlist := v\<rparr>) s) = sched_ok s" for t
    by (rule sched_ok_cong) auto
  then show "sched_ok (set_list p v s) = sched_ok s" by (cases p) simp_all
qed

lemma mtx_kind_cong: "mtxatr (mtxcb_table s' i) = mtxatr (mtxcb_table s i) \<Longrightarrow> mtx_kind i s' = mtx_kind i s"
  by (simp add: mtx_kind_def)


end
