(* ===== verification/Inheritance.thy ===== *)
theory Inheritance
  imports Mutex
begin

text \<open>
  Priority inheritance. The specification is \<open>eff_pri\<close>: the priority a task is entitled to is the
  highest of its base priority, the ceilings of the mutexes it holds, and the priorities of the
  tasks that wait for its inheritance mutexes. \<open>mtx_inv\<close> says that every task has it. A change of
  one priority makes at most one other task wrong, the holder of the mutex the task waits for; the
  theory shows that the chain of corrections ends, also when tasks wait for each other in a
  circle, and leaves every priority right.
\<close>

section \<open>Lists of mutexes and the specification\<close>

definition mtx_exists :: "ID \<Rightarrow> 'a mtx_st_scheme \<Rightarrow> bool" where
  "mtx_exists i s \<longleftrightarrow> chk_id (max_mtxid s) i \<and> mtxid (mtxcb_table s i) \<noteq> 0"

fun mlist :: "ID list \<Rightarrow> ID option \<Rightarrow> 'a mtx_st_scheme \<Rightarrow> bool" where
  "mlist [] p s \<longleftrightarrow> p = None"
| "mlist (m # ms) p s \<longleftrightarrow> p = Some m \<and> mlist ms (mtx_link (mtxcb_table s m)) s"

text \<open>The mutexes a task holds, without those of \<open>Z\<close>, which are being released.\<close>

definition holds :: "ID set \<Rightarrow> ID \<Rightarrow> 'a mtx_st_scheme \<Rightarrow> ID set" where
  "holds Z t s = {i. mtx_exists i s \<and> i \<notin> Z \<and> mtxtsk (mtxcb_table s i) = Some t}"

definition boosts :: "ID set \<Rightarrow> 'a mtx_st_scheme \<Rightarrow> nat set" where
  "boosts I s = {p. \<exists>i \<in> I. mtx_kind i s = TA_CEILING \<and> p = ceilpri (mtxcb_table s i) \<or>
     mtx_kind i s = TA_INHERIT \<and> p \<in> (\<lambda>u. priority (tcbs s u)) ` set (que s (WaitQ OMtx i))}"

text \<open>\<open>E\<close> adds priorities of tasks that are about to wait.\<close>

definition eff_pri :: "ID set \<Rightarrow> (ID \<Rightarrow> nat set) \<Rightarrow> ID \<Rightarrow> 'a mtx_st_scheme \<Rightarrow> nat" where
  "eff_pri Z E t s = Min (insert (bpriority (tcbs s t)) (boosts (holds Z t s) s \<union> E t))"

lemma finite_exists: "finite {i. mtx_exists i s}"
  by (rule finite_subset [of _ "{1..max_mtxid s}"]) (auto simp: mtx_exists_def chk_id_def)

lemma finite_holds: "finite (holds Z t s)"
  by (rule finite_subset [OF _ finite_exists [of s]]) (auto simp: holds_def)

lemma finite_boosts: "finite I \<Longrightarrow> finite (boosts I s)"
proof -
  assume "finite I"
  moreover have "boosts I s \<subseteq> (\<Union>i \<in> I. insert (ceilpri (mtxcb_table s i))
      ((\<lambda>u. priority (tcbs s u)) ` set (que s (WaitQ OMtx i))))"
    by (auto simp: boosts_def)
  ultimately show ?thesis by (auto intro: finite_subset)
qed

lemma boosts_cong:
  assumes "\<And>i. i \<in> I \<Longrightarrow> mtx_kind i s' = mtx_kind i s"
    "\<And>i. i \<in> I \<Longrightarrow> ceilpri (mtxcb_table s' i) = ceilpri (mtxcb_table s i)"
    "\<And>i. i \<in> I \<Longrightarrow> mtx_kind i s = TA_INHERIT \<Longrightarrow> set (que s' (WaitQ OMtx i)) = set (que s (WaitQ OMtx i))"
    "\<And>u. priority (tcbs s' u) = priority (tcbs s u)"
  shows "boosts I s' = boosts I s"
proof -
  have "(\<exists>i \<in> I. mtx_kind i s' = TA_CEILING \<and> p = ceilpri (mtxcb_table s' i) \<or>
      mtx_kind i s' = TA_INHERIT \<and> p \<in> (\<lambda>u. priority (tcbs s' u)) ` set (que s' (WaitQ OMtx i))) \<longleftrightarrow>
    (\<exists>i \<in> I. mtx_kind i s = TA_CEILING \<and> p = ceilpri (mtxcb_table s i) \<or>
      mtx_kind i s = TA_INHERIT \<and> p \<in> (\<lambda>u. priority (tcbs s u)) ` set (que s (WaitQ OMtx i)))" for p
    using assms by (intro bex_cong refl) auto
  then show ?thesis by (simp add: boosts_def)
qed

section \<open>The invariant\<close>

definition mtx_struct :: "ID set \<Rightarrow> 'a mtx_st_scheme \<Rightarrow> bool" where
  "mtx_struct Z s \<longleftrightarrow>
     distinct (free_mtxcb s) \<and>
     (\<forall>j. j \<in> set (free_mtxcb s) \<longleftrightarrow> chk_id (max_mtxid s) j \<and> mtxid (mtxcb_table s j) = 0) \<and>
     (\<forall>i. \<not> mtx_exists i s \<longrightarrow> que s (WaitQ OMtx i) = []) \<and>
     (\<forall>i t. mtx_exists i s \<longrightarrow> t \<in> set (que s (WaitQ OMtx i)) \<longrightarrow>
        wspec (tcbs s t) = mtx_wspec (mtx_kind i s) \<and>
        mtxtsk (mtxcb_table s i) \<noteq> None \<and> mtxtsk (mtxcb_table s i) \<noteq> Some t) \<and>
     (\<forall>i. mtx_exists i s \<longrightarrow> mtxid (mtxcb_table s i) = i \<and>
        (mtx_kind i s = TA_CEILING \<longrightarrow> ceilpri (mtxcb_table s i) < NUM_PRI) \<and>
        (mtx_kind i s \<noteq> 0 \<longrightarrow> sorted (map (\<lambda>u. priority (tcbs s u)) (que s (WaitQ OMtx i))))) \<and>
     (\<forall>i t. mtx_exists i s \<longrightarrow> mtxtsk (mtxcb_table s i) = Some t \<longrightarrow> task_alive (tstate (tcbs s t))) \<and>
     (\<forall>t. in_wait (tstate (tcbs s t)) \<longrightarrow> chg_pri_hook (wspec (tcbs s t)) = Some H_mtx_chg_pri \<or>
          rel_wai_hook (wspec (tcbs s t)) = Some H_mtx_rel_wai \<longrightarrow>
        t \<in> set (que s (WaitQ OMtx (wid (tcbs s t))))) \<and>
     (\<forall>t. task_alive (tstate (tcbs s t)) \<longrightarrow> bpriority (tcbs s t) < NUM_PRI \<and>
        (\<exists>ms. mlist ms (mtxlist (tcbs s t)) s \<and> distinct ms \<and> set ms = holds Z t s))"

definition mtx_inv :: "ID set \<Rightarrow> ID set \<Rightarrow> (ID \<Rightarrow> nat set) \<Rightarrow> 'a mtx_st_scheme \<Rightarrow> bool" where
  "mtx_inv X Z E s \<longleftrightarrow>
     kinv s \<and> finite {u. tstate (tcbs s u) \<noteq> TS_NONEXIST} \<and> mtx_struct Z s \<and> (\<forall>t. finite (E t)) \<and>
     (\<forall>t. task_alive (tstate (tcbs s t)) \<longrightarrow> t \<notin> X \<longrightarrow> priority (tcbs s t) = eff_pri Z E t s)"

lemma mtx_structD:
  assumes "mtx_struct Z s"
  shows "distinct (free_mtxcb s)"
    "j \<in> set (free_mtxcb s) \<longleftrightarrow> chk_id (max_mtxid s) j \<and> mtxid (mtxcb_table s j) = 0"
    "\<not> mtx_exists i s \<Longrightarrow> que s (WaitQ OMtx i) = []"
    "t \<in> set (que s (WaitQ OMtx i)) \<Longrightarrow> mtx_exists i s"
    "t \<in> set (que s (WaitQ OMtx i)) \<Longrightarrow> wspec (tcbs s t) = mtx_wspec (mtx_kind i s)"
    "t \<in> set (que s (WaitQ OMtx i)) \<Longrightarrow> mtxtsk (mtxcb_table s i) \<noteq> None"
    "t \<in> set (que s (WaitQ OMtx i)) \<Longrightarrow> mtxtsk (mtxcb_table s i) \<noteq> Some t"
    "mtx_exists i s \<Longrightarrow> mtxid (mtxcb_table s i) = i"
    "mtx_exists i s \<Longrightarrow> mtx_kind i s = TA_CEILING \<Longrightarrow> ceilpri (mtxcb_table s i) < NUM_PRI"
    "mtx_exists i s \<Longrightarrow> mtx_kind i s \<noteq> 0 \<Longrightarrow>
       sorted (map (\<lambda>u. priority (tcbs s u)) (que s (WaitQ OMtx i)))"
    "mtx_exists i s \<Longrightarrow> mtxtsk (mtxcb_table s i) = Some t \<Longrightarrow> task_alive (tstate (tcbs s t))"
    "in_wait (tstate (tcbs s t)) \<Longrightarrow> chg_pri_hook (wspec (tcbs s t)) = Some H_mtx_chg_pri \<Longrightarrow>
       t \<in> set (que s (WaitQ OMtx (wid (tcbs s t))))"
    "task_alive (tstate (tcbs s t)) \<Longrightarrow> bpriority (tcbs s t) < NUM_PRI"
    "task_alive (tstate (tcbs s t)) \<Longrightarrow>
       \<exists>ms. mlist ms (mtxlist (tcbs s t)) s \<and> distinct ms \<and> set ms = holds Z t s"
    "in_wait (tstate (tcbs s t)) \<Longrightarrow> rel_wai_hook (wspec (tcbs s t)) = Some H_mtx_rel_wai \<Longrightarrow>
       t \<in> set (que s (WaitQ OMtx (wid (tcbs s t))))"
proof -
  have e: "t \<in> set (que s (WaitQ OMtx i)) \<Longrightarrow> mtx_exists i s" for t i
    using assms unfolding mtx_struct_def by (metis empty_iff empty_set)
  show "t \<in> set (que s (WaitQ OMtx i)) \<Longrightarrow> mtx_exists i s" by (rule e)
  show "t \<in> set (que s (WaitQ OMtx i)) \<Longrightarrow> wspec (tcbs s t) = mtx_wspec (mtx_kind i s)"
    "t \<in> set (que s (WaitQ OMtx i)) \<Longrightarrow> mtxtsk (mtxcb_table s i) \<noteq> None"
    "t \<in> set (que s (WaitQ OMtx i)) \<Longrightarrow> mtxtsk (mtxcb_table s i) \<noteq> Some t"
    using assms e [of t i] unfolding mtx_struct_def by blast+
qed (use assms in \<open>unfold mtx_struct_def, blast+\<close>)

lemma mtx_structI:
  assumes "distinct (free_mtxcb s)"
    "\<And>j. j \<in> set (free_mtxcb s) \<longleftrightarrow> chk_id (max_mtxid s) j \<and> mtxid (mtxcb_table s j) = 0"
    "\<And>i. \<not> mtx_exists i s \<Longrightarrow> que s (WaitQ OMtx i) = []"
    "\<And>i t. mtx_exists i s \<Longrightarrow> t \<in> set (que s (WaitQ OMtx i)) \<Longrightarrow>
       wspec (tcbs s t) = mtx_wspec (mtx_kind i s) \<and>
       mtxtsk (mtxcb_table s i) \<noteq> None \<and> mtxtsk (mtxcb_table s i) \<noteq> Some t"
    "\<And>i. mtx_exists i s \<Longrightarrow> mtxid (mtxcb_table s i) = i"
    "\<And>i. mtx_exists i s \<Longrightarrow> mtx_kind i s = TA_CEILING \<Longrightarrow> ceilpri (mtxcb_table s i) < NUM_PRI"
    "\<And>i. mtx_exists i s \<Longrightarrow> mtx_kind i s \<noteq> 0 \<Longrightarrow>
       sorted (map (\<lambda>u. priority (tcbs s u)) (que s (WaitQ OMtx i)))"
    "\<And>i t. mtx_exists i s \<Longrightarrow> mtxtsk (mtxcb_table s i) = Some t \<Longrightarrow> task_alive (tstate (tcbs s t))"
    "\<And>t. in_wait (tstate (tcbs s t)) \<Longrightarrow> chg_pri_hook (wspec (tcbs s t)) = Some H_mtx_chg_pri \<or>
         rel_wai_hook (wspec (tcbs s t)) = Some H_mtx_rel_wai \<Longrightarrow>
       t \<in> set (que s (WaitQ OMtx (wid (tcbs s t))))"
    "\<And>t. task_alive (tstate (tcbs s t)) \<Longrightarrow> bpriority (tcbs s t) < NUM_PRI"
    "\<And>t. task_alive (tstate (tcbs s t)) \<Longrightarrow>
       \<exists>ms. mlist ms (mtxlist (tcbs s t)) s \<and> distinct ms \<and> set ms = holds Z t s"
  shows "mtx_struct Z s"
  using assms unfolding mtx_struct_def by blast

lemma mtx_invD:
  assumes "mtx_inv X Z E s"
  shows "kinv s" "finite {u. tstate (tcbs s u) \<noteq> TS_NONEXIST}" "mtx_struct Z s" "finite (E t)"
    "task_alive (tstate (tcbs s t)) \<Longrightarrow> t \<notin> X \<Longrightarrow> priority (tcbs s t) = eff_pri Z E t s"
  using assms unfolding mtx_inv_def by blast+

section \<open>What the other objects do to mutexes: nothing\<close>

text \<open>A task may have been released, everything mutexes look at is as before.\<close>

definition mtx_same :: "'a mtx_st_scheme \<Rightarrow> 'a mtx_st_scheme \<Rightarrow> bool" where
  "mtx_same s' s \<longleftrightarrow>
     mtxcb_table s' = mtxcb_table s \<and> free_mtxcb s' = free_mtxcb s \<and> max_mtxid s' = max_mtxid s \<and>
     ctxtsk s' = ctxtsk s \<and>
     (\<forall>u. tcb_view (tcbs s' u) = tcb_view (tcbs s u)) \<and>
     (\<forall>u. tstate (tcbs s' u) = tstate (tcbs s u) \<or>
          in_wait (tstate (tcbs s u)) \<and> tstate (tcbs s' u) = released (tstate (tcbs s u))) \<and>
     (\<forall>i. que s' (WaitQ OMtx i) = que s (WaitQ OMtx i))"

lemma released_alive: "in_wait st \<Longrightarrow> task_alive (released st) \<and> task_alive st"
  by (auto simp: released_def task_alive_iff in_wait_iff)

lemma mtx_sameD:
  assumes "mtx_same s' s"
  shows "mtxcb_table s' = mtxcb_table s" "free_mtxcb s' = free_mtxcb s" "max_mtxid s' = max_mtxid s"
    "wspec (tcbs s' u) = wspec (tcbs s u)" "priority (tcbs s' u) = priority (tcbs s u)"
    "bpriority (tcbs s' u) = bpriority (tcbs s u)" "wid (tcbs s' u) = wid (tcbs s u)"
    "mtxlist (tcbs s' u) = mtxlist (tcbs s u)" "winfo (tcbs s' u) = winfo (tcbs s u)"
    "que s' (WaitQ OMtx i) = que s (WaitQ OMtx i)"
    "task_alive (tstate (tcbs s' u)) = task_alive (tstate (tcbs s u))"
    "in_wait (tstate (tcbs s' u)) \<Longrightarrow> in_wait (tstate (tcbs s u))"
    "tstate (tcbs s' u) = TS_NONEXIST \<longleftrightarrow> tstate (tcbs s u) = TS_NONEXIST"
    "ctxtsk s' = ctxtsk s"
    "\<not> in_wait (tstate (tcbs s u)) \<Longrightarrow> tstate (tcbs s' u) = tstate (tcbs s u)"
proof -
  have v: "tcb_view (tcbs s' u) = tcb_view (tcbs s u)" using assms by (simp add: mtx_same_def)
  show "wspec (tcbs s' u) = wspec (tcbs s u)" "priority (tcbs s' u) = priority (tcbs s u)"
    "bpriority (tcbs s' u) = bpriority (tcbs s u)" "wid (tcbs s' u) = wid (tcbs s u)"
    "mtxlist (tcbs s' u) = mtxlist (tcbs s u)" "winfo (tcbs s' u) = winfo (tcbs s u)"
    using tcb_viewD [OF v] by auto
  have t: "tstate (tcbs s' u) = tstate (tcbs s u) \<or>
      in_wait (tstate (tcbs s u)) \<and> tstate (tcbs s' u) = released (tstate (tcbs s u))"
    using assms unfolding mtx_same_def by blast
  then show "task_alive (tstate (tcbs s' u)) = task_alive (tstate (tcbs s u))"
    "in_wait (tstate (tcbs s' u)) \<Longrightarrow> in_wait (tstate (tcbs s u))"
    "tstate (tcbs s' u) = TS_NONEXIST \<longleftrightarrow> tstate (tcbs s u) = TS_NONEXIST"
    "\<not> in_wait (tstate (tcbs s u)) \<Longrightarrow> tstate (tcbs s' u) = tstate (tcbs s u)"
    using released_alive [of "tstate (tcbs s u)"] by (auto simp: task_alive_iff)
qed (use assms in \<open>auto simp: mtx_same_def\<close>)

lemma mtx_same_refl: "mtx_same s s"
  by (simp add: mtx_same_def)

lemma mtx_same_trans:
  assumes "mtx_same s'' s'" "mtx_same s' s"
  shows "mtx_same s'' s"
proof -
  have "tstate (tcbs s'' u) = tstate (tcbs s u) \<or>
      in_wait (tstate (tcbs s u)) \<and> tstate (tcbs s'' u) = released (tstate (tcbs s u))" for u
  proof (cases "in_wait (tstate (tcbs s u)) \<and> tstate (tcbs s' u) = released (tstate (tcbs s u))")
    case True
    then show ?thesis using mtx_sameD(15) [OF assms(1), of u] by auto
  next
    case False
    then have "tstate (tcbs s' u) = tstate (tcbs s u)" using assms(2) unfolding mtx_same_def by blast
    then show ?thesis using assms(1) unfolding mtx_same_def by metis
  qed
  then show ?thesis using assms unfolding mtx_same_def by metis
qed

lemma mtx_same_eqs:
  assumes s: "mtx_same s' s"
  shows "mtx_exists i s' = mtx_exists i s" "mtx_kind i s' = mtx_kind i s"
    "holds Z t s' = holds Z t s" "boosts I s' = boosts I s" "eff_pri Z E t s' = eff_pri Z E t s"
    "mlist ms p s' = mlist ms p s"
proof -
  note d = mtx_sameD [OF s]
  show e: "mtx_exists i s' = mtx_exists i s" "mtx_kind i s' = mtx_kind i s" for i
    by (simp_all add: mtx_exists_def mtx_kind_def d)
  show h: "holds Z t s' = holds Z t s" for Z t by (simp add: holds_def e d)
  show b: "boosts I s' = boosts I s" for I by (simp add: boosts_def e d)
  show "eff_pri Z E t s' = eff_pri Z E t s" by (simp add: eff_pri_def h b d)
  show "mlist ms p s' = mlist ms p s" by (induction ms arbitrary: p) (simp_all add: d)
qed

lemma mtx_same_struct:
  assumes s: "mtx_same s' s" and st: "mtx_struct Z s"
  shows "mtx_struct Z s'"
  using st mtx_sameD(12) [OF s] unfolding mtx_struct_def mtx_same_eqs [OF s] mtx_sameD(1-11) [OF s]
  by blast

lemma mtx_same_inv:
  assumes s: "mtx_same s' s" and k: "kinv s'" and i: "mtx_inv X Z E s"
  shows "mtx_inv X Z E s'"
proof -
  have "mtx_struct Z s'" by (rule mtx_same_struct [OF s mtx_invD(3) [OF i]])
  then show ?thesis
    using i k unfolding mtx_inv_def mtx_same_eqs [OF s] mtx_sameD(1-11,13) [OF s] by blast
qed

text \<open>The steps the other objects take.\<close>

lemma mtx_same_upd [simp]:
  "mtx_same (upd_semcb i f s) s" "mtx_same (upd_mbfcb i g s) s" "mtx_same (upd_mplcb i h s) s"
  "mtx_same (s\<lparr>mem_ptr := m\<rparr>) s"
  by (simp_all add: mtx_same_def upd_semcb_def upd_mbfcb_def upd_mplcb_def)

lemma mtx_same_release:
  assumes k: "kinv s" and t: "t \<in> set (que s (WaitQ kd i))" "kd \<noteq> OMtx"
  shows "mtx_same (wait_release_ok t s) s" "kinv (wait_release_ok t s)"
    "que (wait_release_ok t s) (WaitQ kd j) = removeAll t (que s (WaitQ kd j))"
proof -
  have w: "in_wait (tstate (tcbs s t))" using kinv_xD(5) [OF k t(1)] by simp
  have nq: "t \<notin> set (que s (WaitQ OMtx j))" for j
    using que_okD [OF kinv_xD(2) [OF k] t(1), of "WaitQ OMtx j"] t(2) by auto
  show "mtx_same (wait_release_ok t s) s"
    using w nq by (auto simp: mtx_same_def rok.wque [OF k w] rok.view rok.tstate removeAll_id)
  show "kinv (wait_release_ok t s)" by (rule rok.kinv [OF k w])
  show "que (wait_release_ok t s) (WaitQ kd j) = removeAll t (que s (WaitQ kd j))"
    by (rule rok.wque [OF k w])
qed

lemma mtx_same_reorder:
  assumes k: "kinv s" and w: "in_wait (tstate (tcbs s t))" and nq: "\<And>j. t \<notin> set (que s (WaitQ OMtx j))"
    and kd: "kd \<noteq> OMtx"
  defines "s' \<equiv> gcb_change_priority (WaitQ kd (wid (tcbs s t))) t s"
  shows "mtx_same s' s" "kinv s'"
  using gcb_change_priority_kinv_x [OF k w] nq kd
  by (auto simp: s'_def mtx_same_def gcb_change_priority_frame gcb_change_priority_que removeAll_id)

lemma sem_loop_same:
  "kinv s \<Longrightarrow> distinct ts \<Longrightarrow> set ts \<subseteq> set (que s (WaitQ OSem i)) \<Longrightarrow>
     mtx_same (sem_chg_pri_loop i ts s) s \<and> kinv (sem_chg_pri_loop i ts s)"
proof (induction ts arbitrary: s)
  case Nil
  then show ?case by (simp add: mtx_same_refl)
next
  case (Cons t ts)
  have t: "t \<in> set (que s (WaitQ OSem i))" using Cons.prems(3) by simp
  note r = mtx_same_release [OF Cons.prems(1) t, simplified]
  let ?s = "sem_take i t s"
  have m: "mtx_same ?s s"
    by (simp add: sem_take_def Let_def) (rule mtx_same_trans [OF mtx_same_upd(1) r(1)])
  have k: "kinv ?s" using r(2) by (simp add: sem_take_def Let_def)
  have "set ts \<subseteq> set (que ?s (WaitQ OSem i))"
    using Cons.prems(2,3) r(3) by (auto simp: sem_take_def Let_def)
  then have "mtx_same (sem_chg_pri_loop i ts ?s) ?s \<and> kinv (sem_chg_pri_loop i ts ?s)"
    using Cons.prems(2) by (intro Cons.IH k) simp_all
  then show ?case using Cons.prems(1) mtx_same_trans [OF _ m] by (auto simp: mtx_same_refl)
qed

lemma mbf_wakeup_same: "kinv s \<Longrightarrow> mtx_same (mbf_wakeup i s) s \<and> kinv (mbf_wakeup i s)"
proof (induction i s rule: mbf_wakeup.induct)
  case (1 i s)
  show ?case
  proof (cases "que s (WaitQ OSmbf i)")
    case Nil
    then show ?thesis using 1(2) by (subst (1 2) mbf_wakeup.simps) (simp add: mtx_same_refl)
  next
    case (Cons t ts)
    let ?s1 = "upd_mbfcb i (\<lambda>c. msg_to_mbf c (mem_byte s) (smbf_msg (winfo (tcbs s t)))
      (smbf_msgsz (winfo (tcbs s t)))) s"
    have r: "mtx_same (wait_release_ok t ?s1) ?s1" "kinv (wait_release_ok t ?s1)"
      using 1(2) Cons by (auto intro: mtx_same_release [where kd = OSmbf and i = i])
    have m: "mtx_same (mbf_accept i t s) s" "kinv (mbf_accept i t s)"
      using mtx_same_trans [OF r(1) mtx_same_upd(2)] r(2) by (simp_all add: mbf_accept_def Let_def)
    show ?thesis
      using 1(1) [OF Cons _ m(2)] mtx_same_trans [OF _ m(1)] 1(2) Cons
      by (subst (1 2) mbf_wakeup.simps) (auto simp: mtx_same_refl)
  qed
qed

lemma sem_chg_pri_same:
  assumes k: "kinv s" and w: "old \<ge> 0 \<Longrightarrow> in_wait (tstate (tcbs s t))"
    and nq: "\<And>j. t \<notin> set (que s (WaitQ OMtx j))"
  shows "mtx_same (sem_chg_pri t old s) s \<and> kinv (sem_chg_pri t old s)"
proof -
  let ?i = "wid (tcbs s t)"
  define s1 where "s1 = (if old \<ge> 0 then gcb_change_priority (WaitQ OSem ?i) t s else s)"
  have s1: "mtx_same s1 s" "kinv s1"
    using mtx_same_reorder [OF k w nq, of OSem] k by (auto simp: s1_def mtx_same_refl)
  have "mtx_same (sem_chg_pri_loop ?i (que s1 (WaitQ OSem ?i)) s1) s1 \<and>
      kinv (sem_chg_pri_loop ?i (que s1 (WaitQ OSem ?i)) s1)"
    by (rule sem_loop_same [OF s1(2) que_ok_distinct [OF kinv_xD(2) [OF s1(2)]]]) simp
  then show ?thesis
    unfolding sem_chg_pri_def Let_def s1_def [symmetric] using s1 mtx_same_trans [OF _ s1(1)] by auto
qed

lemma mbf_chg_pri_same:
  assumes k: "kinv s" and w: "old \<ge> 0 \<Longrightarrow> in_wait (tstate (tcbs s t))"
    and nq: "\<And>j. t \<notin> set (que s (WaitQ OMtx j))"
  shows "mtx_same (mbf_chg_pri t old s) s \<and> kinv (mbf_chg_pri t old s)"
proof -
  let ?i = "wid (tcbs s t)"
  define s1 where "s1 = (if old \<ge> 0 then gcb_change_priority (WaitQ OSmbf ?i) t s else s)"
  have s1: "mtx_same s1 s" "kinv s1"
    using mtx_same_reorder [OF k w nq, of OSmbf] k by (auto simp: s1_def mtx_same_refl)
  then show ?thesis
    unfolding mbf_chg_pri_def Let_def s1_def [symmetric]
    using mbf_wakeup_same [OF s1(2)] mtx_same_trans [OF _ s1(1)] by blast
qed

lemma mpl_wakeup_same: "kinv s \<Longrightarrow> mtx_same (mpl_wakeup i s) s \<and> kinv (mpl_wakeup i s)"
proof (induction i s rule: mpl_wakeup.induct)
  case (1 i s)
  show ?case
  proof (cases "que s (WaitQ OMpl i)")
    case Nil
    then show ?thesis using 1(2) by (subst (1 2) mpl_wakeup.simps) (simp add: mtx_same_refl)
  next
    case (Cons t ts)
    have m: "mtx_same (mpl_grant i t s) s \<and> kinv (mpl_grant i t s)"
    proof -
      have "mtx_same (wait_release_ok t s1) s \<and> kinv (wait_release_ok t s1)"
        if "mtx_same s1 s" "kinv s1" "que s1 = que s" for s1 :: "'a mtx_st_scheme"
      proof -
        have t: "t \<in> set (que s1 (WaitQ OMpl i))" using that(3) Cons by simp
        show ?thesis using mtx_same_release [OF that(2) t] mtx_same_trans [OF _ that(1)] by simp
      qed
      moreover have "mtx_same ((upd_mplcb i h s)\<lparr>mem_ptr := a\<rparr>) s" for h a
        by (rule mtx_same_trans [OF mtx_same_upd(4) mtx_same_upd(3)])
      ultimately show ?thesis using 1(2) by (auto simp: mpl_grant_def Let_def split: prod.split)
    qed
    show ?thesis
      using 1(1) [OF Cons _ conjunct2 [OF m]] mtx_same_trans [OF _ conjunct1 [OF m]] 1(2) Cons
      by (subst (1 2) mpl_wakeup.simps) (auto simp: mtx_same_refl)
  qed
qed

lemma mpl_chg_pri_same:
  assumes k: "kinv s" and w: "old \<ge> 0 \<Longrightarrow> in_wait (tstate (tcbs s t))"
    and nq: "\<And>j. t \<notin> set (que s (WaitQ OMtx j))"
  shows "mtx_same (mpl_chg_pri t old s) s \<and> kinv (mpl_chg_pri t old s)"
proof -
  let ?i = "wid (tcbs s t)"
  define s1 where "s1 = (if old \<ge> 0 then gcb_change_priority (WaitQ OMpl ?i) t s else s)"
  have s1: "mtx_same s1 s" "kinv s1"
    using mtx_same_reorder [OF k w nq, of OMpl] k by (auto simp: s1_def mtx_same_refl)
  then show ?thesis
    unfolding mpl_chg_pri_def Let_def s1_def [symmetric]
    using mpl_wakeup_same [OF s1(2)] mtx_same_trans [OF _ s1(1)] by blast
qed

lemma obj_chg_hook_same:
  assumes k: "kinv s" and w: "in_wait (tstate (tcbs s t))" and nq: "\<And>j. t \<notin> set (que s (WaitQ OMtx j))"
  shows "mtx_same (obj_chg_hook h t old s) s \<and> kinv (obj_chg_hook h t old s)"
  using mtx_same_reorder [OF k w nq] sem_chg_pri_same [OF k w nq, of old] mbf_chg_pri_same [OF k w nq, of old]
    mpl_chg_pri_same [OF k w nq, of old] k
  by (cases h) (simp_all add: obj_chg_hook_def flg_chg_pri_def mbx_chg_pri_def mpf_chg_pri_def cal_chg_pri_def
      mtx_same_refl)


section \<open>The loop of \<open>release_mutex\<close>\<close>

definition mtx_limit :: "ID \<Rightarrow> 'a mtx_st_scheme \<Rightarrow> nat option" where
  "mtx_limit i s =
     (if mtx_kind i s = TA_CEILING then Some (ceilpri (mtxcb_table s i))
      else if mtx_kind i s = TA_INHERIT \<and> mtx_waited i s then Some (mtx_head_pri i s) else None)"

definition limits :: "ID list \<Rightarrow> 'a mtx_st_scheme \<Rightarrow> nat list" where
  "limits ms s = List.map_filter (\<lambda>m. mtx_limit m s) ms"

lemma limits_simps [simp]:
  "limits [] s = []"
  "limits (m # ms) s = (case mtx_limit m s of None \<Rightarrow> limits ms s | Some p \<Rightarrow> p # limits ms s)"
  by (auto simp: limits_def map_filter_def split: option.splits)

lemma mtx_pri_limit: "mtx_pri m q s = (case mtx_limit m s of None \<Rightarrow> q | Some p \<Rightarrow> p)"
  by (simp add: mtx_pri_def mtx_limit_def)

lemma Min_insert_swap: "Min (insert (min a b) (set xs)) = Min (insert a (insert b (set xs)))" for a b :: nat
  by (cases "xs = []") (auto simp: min.assoc min.left_commute)

lemma limit_step:
  fixes n q :: nat and m :: ID and s :: "'a mtx_st_scheme"
  assumes "n \<le> q"
  defines "q' \<equiv> mtx_pri m q s"
  defines "n' \<equiv> if n > q' then q' else n"
  shows "n' \<le> q'" "Min (insert n' (set (limits ms s))) = Min (insert n (set (limits (m # ms) s)))"
proof -
  show "n' \<le> q'" by (simp add: n'_def)
  have n': "n' = (case mtx_limit m s of None \<Rightarrow> n | Some p \<Rightarrow> min n p)"
    using assms(1) by (auto simp: n'_def q'_def mtx_pri_limit split: option.splits)
  show "Min (insert n' (set (limits ms s))) = Min (insert n (set (limits (m # ms) s)))"
    unfolding n' using Min_insert_swap [of n] by (auto split: option.splits)
qed

lemma mlist_cong:
  "(\<And>m. m \<in> set ms \<Longrightarrow> mtx_link (mtxcb_table s' m) = mtx_link (mtxcb_table s m)) \<Longrightarrow>
   mlist ms p s' = mlist ms p s"
  by (induction ms arbitrary: p) auto

text \<open>Without the mutex to be removed.\<close>

lemma release_loop_none:
  "mlist ms (get_list prev s) s \<Longrightarrow> (\<And>m. m \<in> set ms \<Longrightarrow> rel \<noteq> Some m) \<Longrightarrow> n \<le> q \<Longrightarrow>
   release_loop rel prev n q s = Some (Min (insert n (set (limits ms s))), s)"
proof (induction ms arbitrary: prev n q)
  case Nil
  then show ?case by (simp add: release_loop.simps)
next
  case (Cons m ms)
  let ?q = "mtx_pri m q s"
  have "release_loop rel prev n q s = release_loop rel (MtxLink m) (if n > ?q then ?q else n) ?q s"
    using Cons.prems(1) Cons.prems(2) [of m] by (subst release_loop.simps) (simp add: Let_def)
  also have "\<dots> = Some (Min (insert (if n > ?q then ?q else n) (set (limits ms s))), s)"
    using Cons.prems limit_step(1) [OF Cons.prems(3)] by (intro Cons.IH) auto
  finally show ?case unfolding limit_step(2) [OF Cons.prems(3)] .
qed

lemma limits_cong:
  "(\<And>m. m \<in> set ms \<Longrightarrow> mtx_limit m s' = mtx_limit m s) \<Longrightarrow> limits ms s' = limits ms s"
  by (induction ms) (auto split: option.splits)

lemma mtx_limit_set_list [simp]: "mtx_limit i (set_list p v s) = mtx_limit i s"
  by (simp add: mtx_limit_def mtx_kind_def mtx_waited_def mtx_head_pri_def)

lemma limits_set_list [simp]: "limits ms (set_list p v s) = limits ms s"
  by (rule limits_cong) simp

lemma mlist_set_list:
  "(\<And>m. p = MtxLink m \<Longrightarrow> m \<notin> set ms) \<Longrightarrow> mlist ms q (set_list p v s) = mlist ms q s"
  by (rule mlist_cong) (cases p; auto)

text \<open>With it: one link is changed, the list without the mutex remains.\<close>

lemma release_loop_some:
  assumes "mlist ms (get_list prev s) s" "distinct ms" "r \<in> set ms" "n \<le> q"
    "\<And>m. prev = MtxLink m \<Longrightarrow> m \<notin> set ms"
  shows "\<exists>p. let s' = set_list p (mtx_link (mtxcb_table s r)) s in
    release_loop (Some r) prev n q s = Some (Min (insert n (set (limits (removeAll r ms) s))), s') \<and>
    mlist (removeAll r ms) (get_list prev s') s' \<and>
    (p = prev \<or> (\<exists>m \<in> set ms. p = MtxLink m))"
  using assms
proof (induction ms arbitrary: prev n q)
  case (Cons m ms)
  show ?case
  proof (cases "m = r")
    case True
    let ?s = "set_list prev (mtx_link (mtxcb_table s r)) s"
    have ms: "mlist ms (get_list prev ?s) ?s"
      using Cons.prems(1,5) True by (auto simp: mlist_set_list)
    have nr: "r \<notin> set ms" using Cons.prems(2) True by simp
    have "release_loop (Some r) prev n q s = release_loop (Some r) prev n q ?s"
      using Cons.prems(1) True by (subst release_loop.simps) simp
    also have "\<dots> = Some (Min (insert n (set (limits ms s))), ?s)"
      using release_loop_none [OF ms, of "Some r" n q] nr Cons.prems(4) by auto
    finally show ?thesis
      using ms nr True by (intro exI [of _ prev]) (simp add: Let_def removeAll_id)
  next
    case False
    let ?q = "mtx_pri m q s" and ?n = "if n > mtx_pri m q s then mtx_pri m q s else n"
    have step: "release_loop (Some r) prev n q s = release_loop (Some r) (MtxLink m) ?n ?q s"
      using Cons.prems(1) False by (subst release_loop.simps) (simp add: Let_def)
    have "\<exists>p. let s' = set_list p (mtx_link (mtxcb_table s r)) s in
      release_loop (Some r) (MtxLink m) ?n ?q s = Some (Min (insert ?n (set (limits (removeAll r ms) s))), s') \<and>
      mlist (removeAll r ms) (get_list (MtxLink m) s') s' \<and>
      (p = MtxLink m \<or> (\<exists>m \<in> set ms. p = MtxLink m))"
      using Cons.prems False limit_step(1) [OF Cons.prems(4)] by (intro Cons.IH) auto
    then obtain p where p: "let s' = set_list p (mtx_link (mtxcb_table s r)) s in
      release_loop (Some r) (MtxLink m) ?n ?q s = Some (Min (insert ?n (set (limits (removeAll r ms) s))), s') \<and>
      mlist (removeAll r ms) (get_list (MtxLink m) s') s' \<and>
      (p = MtxLink m \<or> (\<exists>m \<in> set ms. p = MtxLink m))" by blast
    have pp: "p \<noteq> prev" using p Cons.prems(5) by (auto simp: Let_def)
    have "get_list prev s = Some m" using Cons.prems(1) by simp
    then show ?thesis
      using p pp False step unfolding limit_step(2) [OF Cons.prems(4)]
      by (intro exI [of _ p]) (auto simp: Let_def)
  qed
qed simp

text \<open>The limits the code reads are the boosts of the specification, because the queues are
  sorted.\<close>

lemma limit_boosts:
  assumes st: "mtx_struct Z s" and I: "set ms \<subseteq> {i. mtx_exists i s}"
  shows "Min (insert b (set (limits ms s))) = Min (insert b (boosts (set ms) s))"
proof (rule antisym)
  have fin: "finite (boosts (set ms) s)" by (simp add: finite_boosts)
  have le: "\<exists>p' \<in> set (limits ms s). p' \<le> p" if p: "p \<in> boosts (set ms) s" for p
  proof -
    obtain i where i: "i \<in> set ms" "mtx_kind i s = TA_CEILING \<and> p = ceilpri (mtxcb_table s i) \<or>
       mtx_kind i s = TA_INHERIT \<and> p \<in> (\<lambda>u. priority (tcbs s u)) ` set (que s (WaitQ OMtx i))"
      using p by (auto simp: boosts_def)
    have "\<exists>p'. mtx_limit i s = Some p' \<and> p' \<le> p"
    proof (cases "mtx_kind i s = TA_CEILING")
      case False
      then have k: "mtx_kind i s = TA_INHERIT" and q: "p \<in> (\<lambda>u. priority (tcbs s u)) ` set (que s (WaitQ OMtx i))"
        using i(2) by auto
      obtain u us where us: "que s (WaitQ OMtx i) = u # us" using q by (cases "que s (WaitQ OMtx i)") auto
      have "sorted (map (\<lambda>u. priority (tcbs s u)) (u # us))"
        using mtx_structD(10) [OF st, of i] I i(1) k us by auto
      then show ?thesis using k us q by (auto simp: mtx_limit_def mtx_waited_def mtx_head_pri_def)
    qed (use i in \<open>auto simp: mtx_limit_def\<close>)
    then show ?thesis using i(1) by (force simp: limits_def map_filter_def)
  qed
  have sub: "set (limits ms s) \<subseteq> boosts (set ms) s"
    by (force simp: limits_def map_filter_def boosts_def mtx_limit_def mtx_waited_def mtx_head_pri_def
        split: if_splits)
  show "Min (insert b (boosts (set ms) s)) \<le> Min (insert b (set (limits ms s)))"
    using sub fin by (intro Min_antimono) auto
  show "Min (insert b (set (limits ms s))) \<le> Min (insert b (boosts (set ms) s))"
    using le fin by (auto simp: Min_le_iff)
qed


section \<open>The effect of \<open>release_mutex\<close>\<close>

abbreviation no_extra :: "ID \<Rightarrow> nat set" where
  "no_extra \<equiv> \<lambda>_. {}"

lemma set_list_eqs [simp]:
  "mtx_exists i (set_list p v s) = mtx_exists i s" "mtx_kind i (set_list p v s) = mtx_kind i s"
  "holds Z t (set_list p v s) = holds Z t s" "boosts I (set_list p v s) = boosts I s"
  "eff_pri Z E t (set_list p v s) = eff_pri Z E t s"
  by (simp_all add: mtx_exists_def mtx_kind_def holds_def boosts_def eff_pri_def)

lemma eff_pri_limits:
  assumes st: "mtx_struct Y s" and ms: "set ms = holds Z t s"
  shows "eff_pri Z no_extra t s = Min (insert (bpriority (tcbs s t)) (set (limits ms s)))"
proof -
  have "set ms \<subseteq> {i. mtx_exists i s}" using ms by (auto simp: holds_def)
  then show ?thesis using limit_boosts [OF st, of ms] by (simp add: eff_pri_def ms)
qed

lemma release_mutex_none:
  assumes st: "mtx_struct Z s" and t: "task_alive (tstate (tcbs s t))"
  shows "release_mutex h t None s =
    (if eff_pri Z no_extra t s \<noteq> priority (tcbs s t)
     then change_task_priority_o h t (eff_pri Z no_extra t s) s else Some s)"
proof -
  obtain ms where ms: "mlist ms (mtxlist (tcbs s t)) s" "set ms = holds Z t s"
    using mtx_structD(14) [OF st t] by blast
  have "release_loop None (TskList t) (bpriority (tcbs s t)) (bpriority (tcbs s t)) s =
      Some (eff_pri Z no_extra t s, s)"
    unfolding eff_pri_limits [OF st ms(2)] using ms(1) by (intro release_loop_none) auto
  then show ?thesis by (simp add: release_mutex_def Let_def)
qed

lemma holds_removeAll:
  "set ms = holds {} t s \<Longrightarrow> set (removeAll i ms) = holds {i} t s"
  by (auto simp: holds_def)

lemma unlink_struct:
  assumes st: "mtx_struct {} s" and i: "mtx_exists i s" "mtxtsk (mtxcb_table s i) = Some t"
    and ms: "mlist ms (mtxlist (tcbs s t)) s" "distinct ms" "set ms = holds {} t s"
    and p: "p = TskList t \<or> (\<exists>m \<in> set ms. p = MtxLink m)"
    and ms': "mlist (removeAll i ms) (mtxlist (tcbs (set_list p v s) t)) (set_list p v s)"
  shows "mtx_struct {i} (set_list p v s)"
proof -
  let ?s = "set_list p v s"
  note d = mtx_structD [OF st]
  have l: "\<exists>ms. mlist ms (mtxlist (tcbs ?s u)) ?s \<and> distinct ms \<and> set ms = holds {i} u s"
    if u: "task_alive (tstate (tcbs s u))" for u
  proof (cases "u = t")
    case True
    then show ?thesis using ms' ms(2) holds_removeAll [OF ms(3)] by (intro exI [of _ "removeAll i ms"]) (simp add: distinct_removeAll)
  next
    case False
    obtain us where us: "mlist us (mtxlist (tcbs s u)) s" "distinct us" "set us = holds {} u s"
      using d(14) [OF u] by blast
    have hu: "holds {} u s = holds {i} u s" using i False by (auto simp: holds_def)
    have dj: "m \<notin> set us" if "p = MtxLink m" for m
      using that p ms(3) us(3) False by (auto simp: holds_def)
    have "mtxlist (tcbs ?s u) = mtxlist (tcbs s u)" using p False by (cases p) auto
    moreover have "mlist us (mtxlist (tcbs s u)) ?s" using us(1) dj by (subst mlist_set_list) auto
    ultimately show ?thesis using us hu by (intro exI [of _ us]) simp
  qed
  show ?thesis
    unfolding mtx_struct_def set_list_sel set_list_eqs
    using d(1-13,15) l by blast
qed

lemma release_mutex_some:
  assumes inv: "mtx_inv {} {} no_extra s" and i: "mtx_exists i s" "mtxtsk (mtxcb_table s i) = Some t"
  shows "\<exists>p v. let s1 = set_list p v s in mtx_inv {t} {i} no_extra s1 \<and>
    release_mutex h t (Some i) s =
      (if eff_pri {i} no_extra t s1 \<noteq> priority (tcbs s1 t)
       then change_task_priority_o h t (eff_pri {i} no_extra t s1) s1 else Some s1)"
proof -
  note st = mtx_invD(3) [OF inv]
  have t: "task_alive (tstate (tcbs s t))" using mtx_structD(11) [OF st i] .
  obtain ms where ms: "mlist ms (mtxlist (tcbs s t)) s" "distinct ms" "set ms = holds {} t s"
    using mtx_structD(14) [OF st t] by blast
  have im: "i \<in> set ms" using i ms(3) by (simp add: holds_def)
  let ?b = "bpriority (tcbs s t)" and ?v = "mtx_link (mtxcb_table s i)"
  have "\<exists>p. release_loop (Some i) (TskList t) ?b ?b s =
      Some (Min (insert ?b (set (limits (removeAll i ms) s))), set_list p ?v s) \<and>
    mlist (removeAll i ms) (get_list (TskList t) (set_list p ?v s)) (set_list p ?v s) \<and>
    (p = TskList t \<or> (\<exists>m \<in> set ms. p = MtxLink m))"
    using release_loop_some [OF _ ms(2) im, of "TskList t" s ?b ?b] ms(1) unfolding Let_def by simp
  then obtain p where p: "release_loop (Some i) (TskList t) ?b ?b s =
      Some (Min (insert ?b (set (limits (removeAll i ms) s))), set_list p ?v s)"
    "mlist (removeAll i ms) (get_list (TskList t) (set_list p ?v s)) (set_list p ?v s)"
    "p = TskList t \<or> (\<exists>m \<in> set ms. p = MtxLink m)"
    by blast
  let ?s = "set_list p ?v s"
  have e: "eff_pri {i} no_extra t s = Min (insert ?b (set (limits (removeAll i ms) s)))"
    by (rule eff_pri_limits [OF st holds_removeAll [OF ms(3)]])
  have eq: "priority (tcbs s u) = eff_pri {i} no_extra u s"
    if "task_alive (tstate (tcbs s u))" "u \<noteq> t" for u
  proof -
    have "holds {i} u s = holds {} u s" using i that(2) by (auto simp: holds_def)
    then show ?thesis using mtx_invD(5) [OF inv that(1)] by (simp add: eff_pri_def)
  qed
  have "mtx_struct {i} ?s" by (rule unlink_struct [OF st i ms p(3) p(2) [unfolded get_list.simps]])
  then have "mtx_inv {t} {i} no_extra ?s"
    unfolding mtx_inv_def using mtx_invD(1,2) [OF inv] eq by simp
  then show ?thesis
    using p(1) by (intro exI [of _ p] exI [of _ ?v]) (simp add: release_mutex_def Let_def e)
qed

section \<open>One step of the chain\<close>

text \<open>What the chain changes besides priorities.\<close>

definition mtx_keeps :: "'a mtx_st_scheme \<Rightarrow> 'a mtx_st_scheme \<Rightarrow> bool" where
  "mtx_keeps s' s \<longleftrightarrow>
     mtxcb_table s' = mtxcb_table s \<and> free_mtxcb s' = free_mtxcb s \<and> max_mtxid s' = max_mtxid s \<and>
     ctxtsk s' = ctxtsk s \<and>
     (\<forall>u. wspec (tcbs s' u) = wspec (tcbs s u) \<and> bpriority (tcbs s' u) = bpriority (tcbs s u) \<and>
          wid (tcbs s' u) = wid (tcbs s u) \<and> mtxlist (tcbs s' u) = mtxlist (tcbs s u) \<and>
          winfo (tcbs s' u) = winfo (tcbs s u)) \<and>
     (\<forall>u. tstate (tcbs s' u) = tstate (tcbs s u) \<or>
          in_wait (tstate (tcbs s u)) \<and> tstate (tcbs s' u) = released (tstate (tcbs s u))) \<and>
     (\<forall>i. set (que s' (WaitQ OMtx i)) = set (que s (WaitQ OMtx i)))"

text \<open>The state in which task \<open>t\<close> has its new priority.\<close>

definition repriorized :: "ID \<Rightarrow> nat \<Rightarrow> 'a mtx_st_scheme \<Rightarrow> 'a mtx_st_scheme \<Rightarrow> bool" where
  "repriorized t p s' s \<longleftrightarrow> mtx_keeps s' s \<and>
     (\<forall>u. priority (tcbs s' u) = (if u = t then p else priority (tcbs s u)))"

lemma mtx_keepsD:
  assumes "mtx_keeps s' s"
  shows "mtxcb_table s' = mtxcb_table s" "free_mtxcb s' = free_mtxcb s" "max_mtxid s' = max_mtxid s"
    "wspec (tcbs s' u) = wspec (tcbs s u)" "bpriority (tcbs s' u) = bpriority (tcbs s u)"
    "wid (tcbs s' u) = wid (tcbs s u)" "mtxlist (tcbs s' u) = mtxlist (tcbs s u)"
    "winfo (tcbs s' u) = winfo (tcbs s u)"
    "set (que s' (WaitQ OMtx i)) = set (que s (WaitQ OMtx i))"
    "task_alive (tstate (tcbs s' u)) = task_alive (tstate (tcbs s u))"
    "in_wait (tstate (tcbs s' u)) \<Longrightarrow> in_wait (tstate (tcbs s u))"
    "tstate (tcbs s' u) = TS_NONEXIST \<longleftrightarrow> tstate (tcbs s u) = TS_NONEXIST"
    "ctxtsk s' = ctxtsk s"
    "\<not> in_wait (tstate (tcbs s u)) \<Longrightarrow> tstate (tcbs s' u) = tstate (tcbs s u)"
    "mtx_exists i s' = mtx_exists i s" "mtx_kind i s' = mtx_kind i s" "holds Z t s' = holds Z t s"
    "mlist ms q s' = mlist ms q s"
proof -
  have t: "tstate (tcbs s' u) = tstate (tcbs s u) \<or>
      in_wait (tstate (tcbs s u)) \<and> tstate (tcbs s' u) = released (tstate (tcbs s u))"
    using assms unfolding mtx_keeps_def by blast
  then show "task_alive (tstate (tcbs s' u)) = task_alive (tstate (tcbs s u))"
    "in_wait (tstate (tcbs s' u)) \<Longrightarrow> in_wait (tstate (tcbs s u))"
    "tstate (tcbs s' u) = TS_NONEXIST \<longleftrightarrow> tstate (tcbs s u) = TS_NONEXIST"
    "\<not> in_wait (tstate (tcbs s u)) \<Longrightarrow> tstate (tcbs s' u) = tstate (tcbs s u)"
    using released_alive [of "tstate (tcbs s u)"] by (auto simp: task_alive_iff)
  show tb: "mtxcb_table s' = mtxcb_table s" and mx: "max_mtxid s' = max_mtxid s"
    using assms by (simp_all add: mtx_keeps_def)
  show "mtx_exists i s' = mtx_exists i s" "mtx_kind i s' = mtx_kind i s" "holds Z t s' = holds Z t s"
    by (simp_all add: mtx_exists_def mtx_kind_def holds_def tb mx)
  show "mlist ms q s' = mlist ms q s" by (rule mlist_cong) (simp add: tb)
qed (use assms in \<open>simp_all add: mtx_keeps_def\<close>)

lemma mtx_keeps_refl: "mtx_keeps s s"
  by (simp add: mtx_keeps_def)

lemma mtx_keeps_trans:
  assumes "mtx_keeps s'' s'" "mtx_keeps s' s"
  shows "mtx_keeps s'' s"
proof -
  have "tstate (tcbs s'' u) = tstate (tcbs s u) \<or>
      in_wait (tstate (tcbs s u)) \<and> tstate (tcbs s'' u) = released (tstate (tcbs s u))" for u
  proof (cases "in_wait (tstate (tcbs s u)) \<and> tstate (tcbs s' u) = released (tstate (tcbs s u))")
    case True
    then show ?thesis using mtx_keepsD(14) [OF assms(1), of u] by auto
  next
    case False
    then have "tstate (tcbs s' u) = tstate (tcbs s u)" using assms(2) unfolding mtx_keeps_def by blast
    then show ?thesis using assms(1) unfolding mtx_keeps_def by metis
  qed
  then show ?thesis using assms unfolding mtx_keeps_def by metis
qed

lemma mtx_same_frame: "mtx_same s' s \<Longrightarrow> mtx_keeps s' s"
  unfolding mtx_same_def mtx_keeps_def using tcb_viewD by metis


lemma repriorizedD:
  assumes "repriorized t p s' s"
  shows "mtx_keeps s' s" "priority (tcbs s' u) = (if u = t then p else priority (tcbs s u))"
  using assms by (auto simp: repriorized_def)

lemma repriorized_struct:
  assumes r: "repriorized t p s' s" and st: "mtx_struct Z s"
    and q: "\<And>i. mtx_exists i s \<Longrightarrow> mtx_kind i s \<noteq> 0 \<Longrightarrow>
      sorted (map (\<lambda>u. priority (tcbs s' u)) (que s' (WaitQ OMtx i)))"
  shows "mtx_struct Z s'"
proof -
  note f = mtx_keepsD [OF repriorizedD(1) [OF r]]
  have e: "que s' (WaitQ OMtx i) = [] \<longleftrightarrow> que s (WaitQ OMtx i) = []" for i
    using f(9) [of i] by (metis set_empty)
  show ?thesis
    using st f(11) q unfolding mtx_struct_def f(1-10,15-18) e by blast
qed

text \<open>What the new priority does to the boosts.\<close>

lemma repriorized_boosts_same:
  assumes r: "repriorized t p s' s"
    and nq: "\<And>i. i \<in> I \<Longrightarrow> mtx_kind i s = TA_INHERIT \<Longrightarrow> t \<notin> set (que s (WaitQ OMtx i))"
  shows "boosts I s' = boosts I s"
proof -
  note f = mtx_keepsD [OF repriorizedD(1) [OF r]]
  have "(\<lambda>u. priority (tcbs s' u)) ` set (que s (WaitQ OMtx i)) =
      (\<lambda>u. priority (tcbs s u)) ` set (que s (WaitQ OMtx i))"
    if "i \<in> I" "mtx_kind i s = TA_INHERIT" for i
    using nq [OF that] repriorizedD(2) [OF r] by (intro image_cong) auto
  then show ?thesis unfolding boosts_def f(1,9,16) by blast
qed

lemma repriorized_boosts:
  assumes r: "repriorized t p s' s"
    and j: "j \<in> I" "mtx_kind j s = TA_INHERIT" "t \<in> set (que s (WaitQ OMtx j))"
  shows "boosts I s' \<subseteq> insert p (boosts I s)" "boosts I s \<subseteq> insert (priority (tcbs s t)) (boosts I s')"
    "p \<in> boosts I s'"
proof -
  note f = mtx_keepsD [OF repriorizedD(1) [OF r]]
  note pr = repriorizedD(2) [OF r]
  show "boosts I s' \<subseteq> insert p (boosts I s)" "boosts I s \<subseteq> insert (priority (tcbs s t)) (boosts I s')"
    unfolding boosts_def f(1,9,16) by (auto simp: pr image_iff split: if_splits)
  have "p = priority (tcbs s' t)" using pr by simp
  then show "p \<in> boosts I s'" using j unfolding boosts_def f(1,9,16) by blast
qed

lemma repriorized_inv:
  assumes r: "repriorized t p s' s" and inv: "mtx_inv {t} Z E s" and k: "kinv s'"
    and q: "\<And>i. mtx_exists i s \<Longrightarrow> mtx_kind i s \<noteq> 0 \<Longrightarrow>
      sorted (map (\<lambda>u. priority (tcbs s' u)) (que s' (WaitQ OMtx i)))"
    and nq: "\<And>j. t \<in> set (que s (WaitQ OMtx j)) \<Longrightarrow> mtx_kind j s \<noteq> TA_INHERIT"
    and p: "p = eff_pri Z E t s"
  shows "mtx_inv {} Z E s'"
proof -
  note f = mtx_keepsD [OF repriorizedD(1) [OF r]] and i = mtx_invD [OF inv]
  have "boosts (holds Z u s) s' = boosts (holds Z u s) s" for u
    by (rule repriorized_boosts_same [OF r]) (use nq in blast)
  then have "eff_pri Z E u s' = eff_pri Z E u s" for u by (simp add: eff_pri_def f)
  then show ?thesis
    using k repriorized_struct [OF r i(3) q] i(2,4,5) p repriorizedD(2) [OF r]
    unfolding mtx_inv_def f(10,12) by auto
qed

text \<open>With a mutex that inherits, the holder may be wrong now. The set of the priorities it is
  entitled to has lost the old priority at most, and got the new one.\<close>

lemma repriorized_holder:
  assumes r: "repriorized t p s' s" and inv: "mtx_inv {t} Z E s" and k: "kinv s'"
    and q: "\<And>i. mtx_exists i s \<Longrightarrow> mtx_kind i s \<noteq> 0 \<Longrightarrow>
      sorted (map (\<lambda>u. priority (tcbs s' u)) (que s' (WaitQ OMtx i)))"
    and j: "mtx_kind j s = TA_INHERIT" "t \<in> set (que s (WaitQ OMtx j))" "mtxtsk (mtxcb_table s j) = Some m"
      "j \<notin> Z"
    and p: "p = eff_pri Z E t s"
  defines "S \<equiv> insert (bpriority (tcbs s m)) (boosts (holds Z m s) s \<union> E m)"
    and "S' \<equiv> insert (bpriority (tcbs s' m)) (boosts (holds Z m s') s' \<union> E m)"
  shows "mtx_inv {m} Z E s'" "m \<noteq> t" "finite S" "finite S'" "S' \<subseteq> insert p S"
    "S \<subseteq> insert (priority (tcbs s t)) S'" "p \<in> S'" "priority (tcbs s' m) = Min S" "eff_pri Z E m s' = Min S'"
    "task_alive (tstate (tcbs s' m))"
proof -
  note f = mtx_keepsD [OF repriorizedD(1) [OF r]] and i = mtx_invD [OF inv]
  note st = mtx_structD [OF i(3)]
  note pr = repriorizedD(2) [OF r]
  have ex: "mtx_exists j s" by (rule st(4) [OF j(2)])
  show mt: "m \<noteq> t" using st(7) [OF j(2)] j(3) by auto
  have al: "task_alive (tstate (tcbs s m))" by (rule st(11) [OF ex j(3)])
  then show "task_alive (tstate (tcbs s' m))" by (simp add: f)
  have jm: "j \<in> holds Z m s" using ex j by (simp add: holds_def)
  show "finite S" "finite S'" by (simp_all add: S_def S'_def finite_boosts finite_holds i(4))
  note b = repriorized_boosts [OF r jm j(1,2)]
  show "S' \<subseteq> insert p S" "S \<subseteq> insert (priority (tcbs s t)) S'" "p \<in> S'"
    using b by (auto simp: S_def S'_def f)
  show "priority (tcbs s' m) = Min S" using pr mt i(5) [OF al] by (simp add: eff_pri_def S_def)
  show "eff_pri Z E m s' = Min S'" by (simp add: eff_pri_def S'_def)
  have "boosts (holds Z u s) s' = boosts (holds Z u s) s" if "u \<noteq> m" for u
  proof (rule repriorized_boosts_same [OF r])
    fix i assume "i \<in> holds Z u s" "mtx_kind i s = TA_INHERIT"
    show "t \<notin> set (que s (WaitQ OMtx i))"
    proof
      assume ti: "t \<in> set (que s (WaitQ OMtx i))"
      have "WaitQ OMtx i = WaitQ OMtx j" by (rule que_okD [OF kinv_xD(2) [OF i(1)] ti j(2)])
      then show False using \<open>i \<in> holds Z u s\<close> that j(3) by (simp add: holds_def)
    qed
  qed
  then have "eff_pri Z E u s' = eff_pri Z E u s" if "u \<noteq> m" for u using that by (simp add: eff_pri_def f)
  then show "mtx_inv {m} Z E s'"
    using k repriorized_struct [OF r i(3) q] i(2,4,5) p pr mt
    unfolding mtx_inv_def f(10,12) by auto
qed


text \<open>A new priority for a task that is ready.\<close>

lemma reschedule_same:
  assumes k: "kinv_x X s"
  shows "\<exists>v. tcbs (reschedule s) u = (tcbs s u)\<lparr>slicecnt := v\<rparr>"
    "que (reschedule s) (WaitQ kd i) = que s (WaitQ kd i)"
    "kst.more (reschedule s) = kst.more s" "ctxtsk (reschedule s) = ctxtsk s"
proof -
  have q: "que (snd (time_slice_schedule (schedtsk s) s)) (WaitQ kd i) = que s (WaitQ kd i)"
    using slice_que [OF kinv_xD(2) [OF k], of "schedtsk s" "WaitQ kd i"] kinv_xD(9) [OF k] by auto
  then show "que (reschedule s) (WaitQ kd i) = que s (WaitQ kd i)"
    by (auto simp: reschedule_def Let_def)
  have "tcbs (reschedule s) u = tcbs s u \<or>
      tcbs (reschedule s) u = tcbs (snd (time_slice_schedule (schedtsk s) s)) u"
    by (simp add: reschedule_def Let_def)
  then show "\<exists>v. tcbs (reschedule s) u = (tcbs s u)\<lparr>slicecnt := v\<rparr>"
  proof
    assume "tcbs (reschedule s) u = tcbs s u"
    then show ?thesis by (intro exI [of _ "slicecnt (tcbs s u)"]) simp
  next
    assume "tcbs (reschedule s) u = tcbs (snd (time_slice_schedule (schedtsk s) s)) u"
    then show ?thesis using slice_tcbs by metis
  qed
qed (simp_all add: reschedule_def Let_def)

lemma change_ready:
  fixes s :: "'a mtx_st_scheme"
  assumes k: "kinv s" and t: "tstate (tcbs s t) = TS_READY" and p: "p < NUM_PRI"
  obtains s' where "change_task_priority_o h t p s = Some s'" "kinv s'" "repriorized t p s' s"
    "\<And>i. que s' (WaitQ OMtx i) = que s (WaitQ OMtx i)"
proof -
  let ?s3 = "snd (ready_queue_insert t (tcb_upd t (\<lambda>c. c\<lparr>priority := p\<rparr>) (ready_queue_delete t s)))"
  let ?s' = "reschedule ?s3"
  have k3: "kinv ?s3" using set_priority_ready_kinv_x [OF k t _ p] by simp
  note r = reschedule_same [OF k3]
  have nq: "t \<notin> set (que s (WaitQ kd i))" for kd i using kinv_xD(5) [OF k, of t kd i] t by auto
  have q: "que ?s' (WaitQ kd i) = que s (WaitQ kd i)" for kd i
    unfolding r(2) using nq by (simp add: que_ready_queue_insert que_ready_queue_delete removeAll_id)
  have m: "kst.more ?s' = kst.more s" by (simp add: r(3))
  have f: "\<exists>v w. tcbs ?s' u = (tcbs s u)\<lparr>priority := (if u = t then p else priority (tcbs s u)),
      klockwait := w, slicecnt := v\<rparr>" for u
  proof -
    obtain v where "tcbs ?s' u = (tcbs ?s3 u)\<lparr>slicecnt := v\<rparr>" using r(1) by blast
    then show ?thesis
      by (intro exI [of _ v] exI [of _ "if u = t then False else klockwait (tcbs s u)"])
        (simp add: ready_queue_insert_fields ready_queue_delete_fields)
  qed
  have "wspec (tcbs ?s' u) = wspec (tcbs s u) \<and> bpriority (tcbs ?s' u) = bpriority (tcbs s u) \<and>
      wid (tcbs ?s' u) = wid (tcbs s u) \<and> mtxlist (tcbs ?s' u) = mtxlist (tcbs s u) \<and>
      winfo (tcbs ?s' u) = winfo (tcbs s u) \<and> tstate (tcbs ?s' u) = tstate (tcbs s u) \<and>
      priority (tcbs ?s' u) = (if u = t then p else priority (tcbs s u))" for u
    using f [of u] by auto
  then have "repriorized t p ?s' s"
    unfolding repriorized_def mtx_keeps_def using mtx_more [OF m] by (simp add: q r(4))
  then show ?thesis
    using q t by (intro that [of ?s'] reschedule_kinv_x [OF k3]) (simp_all add: change_task_priority_o_def Let_def)
qed

text \<open>A new priority for a task that is not: up to the call of the hook.\<close>

lemma set_pri_repriorized: "repriorized t p (tcb_upd t (\<lambda>c. c\<lparr>priority := p\<rparr>) s) s"
  by (simp add: repriorized_def mtx_keeps_def)

lemma repriorized_trans:
  assumes "repriorized t p s' s" "mtx_same s'' s'"
  shows "repriorized t p s'' s"
  using mtx_keeps_trans [OF mtx_same_frame [OF assms(2)] repriorizedD(1) [OF assms(1)]]
    mtx_sameD(5) [OF assms(2)] repriorizedD(2) [OF assms(1)]
  by (simp add: repriorized_def)

text \<open>In the queue of a mutex the task moves to its new place.\<close>

lemma map_others: "t \<notin> set xs \<Longrightarrow> (\<And>u. u \<noteq> t \<Longrightarrow> g u = f u) \<Longrightarrow> map g xs = map f xs"
  by (intro map_cong refl) metis

lemma move_repriorized:
  fixes s :: "'a mtx_st_scheme" and t :: ID and p :: nat
  assumes st: "mtx_struct Z s" and k: "kinv s" and t: "t \<in> set (que s (WaitQ OMtx j))" and p: "p < NUM_PRI"
  defines "s1 \<equiv> tcb_upd t (\<lambda>c. c\<lparr>priority := p\<rparr>) s"
  defines "s2 \<equiv> gcb_change_priority (WaitQ OMtx j) t s1"
  shows "repriorized t p s2 s" "kinv s2"
    "mtx_exists i s \<Longrightarrow> mtx_kind i s \<noteq> 0 \<Longrightarrow> sorted (map (\<lambda>u. priority (tcbs s2 u)) (que s2 (WaitQ OMtx i)))"
proof -
  have w: "in_wait (tstate (tcbs s t))" "wid (tcbs s t) = j" using kinv_xD(5) [OF k t] by auto
  have k1: "kinv s1" unfolding s1_def using w(1) p by (intro set_priority_wait_kinv_x [OF k]) (auto simp: in_wait_iff)
  show "kinv s2" unfolding s2_def using w by (intro gcb_change_priority_kinv_x [OF k1]) (simp_all add: s1_def)
  have nt: "t \<notin> set (que s (WaitQ OMtx i))" if "i \<noteq> j" for i
    using que_okD [OF kinv_xD(2) [OF k] t, of "WaitQ OMtx i"] that by auto
  have q: "que s2 (WaitQ OMtx i) = (if i = j then
      insert_before (\<lambda>u. priority (tcbs s1 u) > p) t (removeAll t (que s (WaitQ OMtx j)))
      else que s (WaitQ OMtx i))" for i
    using nt [of i] by (simp add: s2_def s1_def gcb_change_priority_que removeAll_id)
  have tc: "tcbs s2 = tcbs s1" by (simp add: s2_def gcb_change_priority_frame)
  have "set (que s2 (WaitQ OMtx i)) = set (que s (WaitQ OMtx i))" for i using t by (auto simp: q)
  then have "mtx_keeps s2 s"
    unfolding mtx_keeps_def tc by (simp add: s2_def s1_def gcb_change_priority_frame)
  then show "repriorized t p s2 s" by (simp add: repriorized_def tc s1_def)
  show "sorted (map (\<lambda>u. priority (tcbs s2 u)) (que s2 (WaitQ OMtx i)))"
    if i: "mtx_exists i s" "mtx_kind i s \<noteq> 0"
  proof -
    have s: "sorted (map (\<lambda>u. priority (tcbs s u)) (que s (WaitQ OMtx i)))"
      by (rule mtx_structD(10) [OF st i])
    have e: "priority (tcbs s1 u) = priority (tcbs s u)" if "u \<noteq> t" for u using that by (simp add: s1_def)
    have p1: "priority (tcbs s1 t) = p" by (simp add: s1_def)
    show ?thesis
    proof (cases "i = j")
      case True
      have "sorted (map (\<lambda>u. priority (tcbs s u)) (removeAll t (que s (WaitQ OMtx i))))"
        using s by (rule sorted_map_removeAll)
      moreover have "map (\<lambda>u. priority (tcbs s1 u)) (removeAll t (que s (WaitQ OMtx i))) =
          map (\<lambda>u. priority (tcbs s u)) (removeAll t (que s (WaitQ OMtx i)))"
        by (intro map_cong refl e) simp
      ultimately have "sorted (map (\<lambda>u. priority (tcbs s1 u)) (removeAll t (que s (WaitQ OMtx i))))"
        by (simp only:)
      then show ?thesis
        using True sorted_insert_before [of "\<lambda>u. priority (tcbs s1 u)" "removeAll t (que s (WaitQ OMtx i))" t]
        by (simp add: q tc p1)
    next
      case False
      have "map (\<lambda>u. priority (tcbs s1 u)) (que s (WaitQ OMtx i)) =
          map (\<lambda>u. priority (tcbs s u)) (que s (WaitQ OMtx i))"
        by (rule map_others [OF nt [OF False] e])
      then have "sorted (map (\<lambda>u. priority (tcbs s1 u)) (que s (WaitQ OMtx i)))" using s by (simp only:)
      then show ?thesis using False by (simp add: q tc)
    qed
  qed
qed


text \<open>A change of priority is over after one step, or goes on with the holder of the mutex.\<close>

lemma mtx_wspec_None: "chg_pri_hook (mtx_wspec kd) = None \<longleftrightarrow> kd = 0"
  by (auto simp: mtx_wspec_def)

lemma mtx_wspec_Some: "chg_pri_hook (mtx_wspec kd) = Some h \<Longrightarrow> h = H_mtx_chg_pri"
  by (auto simp: mtx_wspec_def split: if_splits)

lemma change_step:
  fixes s :: "'a mtx_st_scheme"
  assumes inv: "mtx_inv {t} Z E s" and p: "p < NUM_PRI" "p = eff_pri Z E t s"
  obtains (ends) s' where "change_priority t p s = Some s'" "mtx_inv {} Z E s'" "repriorized t p s' s"
  | (goes_on) j m s' where "t \<in> set (que s (WaitQ OMtx j))" "mtx_kind j s = TA_INHERIT"
      "mtxtsk (mtxcb_table s j) = Some m" "repriorized t p s' s" "kinv s'"
      "\<And>i. mtx_exists i s \<Longrightarrow> mtx_kind i s \<noteq> 0 \<Longrightarrow>
         sorted (map (\<lambda>u. priority (tcbs s' u)) (que s' (WaitQ OMtx i)))"
      "change_priority t p s =
        (if priority (tcbs s' m) > p then change_priority m p s'
         else if priority (tcbs s' m) = priority (tcbs s t) then release_mutex kernel_chg_hook m None s'
         else Some s')"
proof -
  note i = mtx_invD [OF inv] and st = mtx_structD [OF mtx_invD(3) [OF inv]]
  let ?s1 = "tcb_upd t (\<lambda>c. c\<lparr>priority := p\<rparr>) s"
  have quiet: "mtx_inv {} Z E s'"
    if r: "repriorized t p s' s" and k: "kinv s'"
      and q: "\<And>i. que s' (WaitQ OMtx i) = que s (WaitQ OMtx i)"
      and z: "\<And>j. t \<in> set (que s (WaitQ OMtx j)) \<Longrightarrow> mtx_kind j s = 0" for s'
  proof (rule repriorized_inv [OF r inv k _ _ p(2)])
    show "mtx_kind j s \<noteq> TA_INHERIT" if "t \<in> set (que s (WaitQ OMtx j))" for j using z [OF that] by simp
    show "sorted (map (\<lambda>u. priority (tcbs s' u)) (que s' (WaitQ OMtx i)))"
      if "mtx_exists i s" "mtx_kind i s \<noteq> 0" for i
    proof -
      have "t \<notin> set (que s (WaitQ OMtx i))" using z that by auto
      then have "map (\<lambda>u. priority (tcbs s' u)) (que s (WaitQ OMtx i)) =
          map (\<lambda>u. priority (tcbs s u)) (que s (WaitQ OMtx i))"
        by (rule map_others) (simp add: repriorizedD(2) [OF r])
      then show ?thesis using st(10) [OF that] unfolding q by (simp only:)
    qed
  qed
  show ?thesis
  proof (cases "tstate (tcbs s t) = TS_READY")
    case True
    obtain s' where s': "change_priority t p s = Some s'" "kinv s'" "repriorized t p s' s"
      "\<And>i. que s' (WaitQ OMtx i) = que s (WaitQ OMtx i)"
      using change_ready [OF i(1) True p(1), of kernel_chg_hook] by blast
    have "t \<notin> set (que s (WaitQ OMtx j))" for j using kinv_xD(5) [OF i(1), of t OMtx j] True by auto
    then show ?thesis using s' quiet [OF s'(3,2,4)] by (intro ends) auto
  next
    case False
    have k1: "kinv ?s1" using set_priority_wait_kinv_x [OF i(1) False p(1)] .
    note r1 = set_pri_repriorized [of t p s]
    show ?thesis
    proof (cases "in_wait (tstate (tcbs s t)) \<and> chg_pri_hook (wspec (tcbs s t)) \<noteq> None")
      case nohook: False
      then have c: "change_priority t p s = Some ?s1"
        using False by (auto simp: change_task_priority_o_def Let_def)
      have "mtx_kind j s = 0" if "t \<in> set (que s (WaitQ OMtx j))" for j
        using nohook st(5) [OF that] kinv_xD(5) [OF i(1) that] mtx_wspec_None by auto
      then show ?thesis using quiet [OF r1 k1] r1 c by (intro ends) auto
    next
      case True
      then obtain h where h: "in_wait (tstate (tcbs s t))" "chg_pri_hook (wspec (tcbs s t)) = Some h" by auto
      then have c: "change_priority t p s = kernel_chg_hook h t (int (priority (tcbs s t))) ?s1"
        using False by (simp add: change_task_priority_o_def Let_def)
      show ?thesis
      proof (cases "h = H_mtx_chg_pri")
        case other: False
        have nq: "t \<notin> set (que s (WaitQ OMtx j))" for j
          using st(5) [of t j] h(2) mtx_wspec_Some other by auto
        let ?s' = "obj_chg_hook h t (int (priority (tcbs s t))) ?s1"
        have m: "mtx_same ?s' ?s1" "kinv ?s'"
          using obj_chg_hook_same [OF k1, of t h "int (priority (tcbs s t))"] h(1) nq by auto
        have "mtx_inv {} Z E ?s1" using quiet [OF r1 k1] nq by auto
        then have "mtx_inv {} Z E ?s'" by (rule mtx_same_inv [OF m])
        then show ?thesis
          using repriorized_trans [OF r1 m(1)] c other
          by (intro ends) (simp_all add: kernel_chg_hook_def call_chg_hook_def)
      next
        case mtx: True
        define j where "j = wid (tcbs s t)"
        have tj: "t \<in> set (que s (WaitQ OMtx j))" using st(12) [OF h(1)] h(2) mtx by (simp add: j_def)
        define s2 where "s2 = gcb_change_priority (WaitQ OMtx j) t ?s1"
        note mv = move_repriorized [OF i(3,1) tj p(1), folded s2_def]
        have tb: "mtxcb_table s2 = mtxcb_table s" "tcbs s2 = tcbs ?s1"
          by (simp_all add: s2_def gcb_change_priority_frame)
        then have kd: "mtx_kind j s2 = mtx_kind j s" by (simp add: mtx_kind_def)
        have w1: "wid (tcbs ?s1 t) = j" and pt: "priority (tcbs s2 t) = p" by (simp_all add: j_def tb)
        have "change_priority t p s = mtx_chg_pri t (int (priority (tcbs s t))) ?s1"
          unfolding c mtx by (simp add: kernel_chg_hook_def call_chg_hook_def)
        also have "\<dots> = (if mtx_kind j s = TA_INHERIT then
           (let m = the (mtxtsk (mtxcb_table s j))
            in if priority (tcbs s2 m) > p then change_priority m p s2
               else if priority (tcbs s2 m) = priority (tcbs s t) then release_mutex kernel_chg_hook m None s2
               else Some s2) else Some s2)"
          by (subst mtx_chg_pri.simps)
            (simp only: Let_def w1 s2_def [symmetric] kd tb(1) pt kernel_chg_hook_def of_nat_eq_iff)
        finally have c2: "change_priority t p s = (if mtx_kind j s = TA_INHERIT then
           (let m = the (mtxtsk (mtxcb_table s j))
            in if priority (tcbs s2 m) > p then change_priority m p s2
               else if priority (tcbs s2 m) = priority (tcbs s t) then release_mutex kernel_chg_hook m None s2
               else Some s2) else Some s2)" .
        show ?thesis
        proof (cases "mtx_kind j s = TA_INHERIT")
          case True
          obtain m where m: "mtxtsk (mtxcb_table s j) = Some m" using st(6) [OF tj] by auto
          show ?thesis
            by (rule goes_on [OF tj True m mv(1,2)]) (use mv(3) c2 True m in \<open>simp_all add: Let_def\<close>)
        next
          case no: False
          have "mtx_kind i s \<noteq> TA_INHERIT" if "t \<in> set (que s (WaitQ OMtx i))" for i
            using que_okD [OF kinv_xD(2) [OF i(1)] tj that] no by auto
          then have "mtx_inv {} Z E s2" using repriorized_inv [OF mv(1) inv mv(2,3) _ p(2)] by blast
          then show ?thesis using c2 no mv(1) by (intro ends [of s2]) simp_all
        qed
      qed
    qed
  qed
qed


section \<open>The chain ends\<close>

text \<open>Who waits for whom.\<close>

definition waits_for :: "'a mtx_st_scheme \<Rightarrow> (ID \<times> ID) set" where
  "waits_for s = {(u, m). \<exists>j. u \<in> set (que s (WaitQ OMtx j)) \<and> mtxtsk (mtxcb_table s j) = Some m}"

text \<open>No chain from \<open>t\<close> leads through a mutex of \<open>Z\<close>.\<close>

definition avoids :: "ID set \<Rightarrow> ID \<Rightarrow> 'a mtx_st_scheme \<Rightarrow> bool" where
  "avoids Z t s \<longleftrightarrow> (\<forall>u j. (t, u) \<in> (waits_for s)\<^sup>* \<longrightarrow> j \<in> Z \<longrightarrow> u \<notin> set (que s (WaitQ OMtx j)))"

lemma avoids_empty [simp]: "avoids {} t s"
  by (simp add: avoids_def)

lemma avoids_step:
  assumes r: "repriorized t p s' s" and a: "avoids Z t s"
    and j: "t \<in> set (que s (WaitQ OMtx j))" "mtxtsk (mtxcb_table s j) = Some m"
  shows "avoids Z m s'" "j \<notin> Z"
proof -
  note f = mtx_keepsD [OF repriorizedD(1) [OF r]]
  have w: "waits_for s' = waits_for s" by (simp add: waits_for_def f(1,9))
  have "(t, m) \<in> waits_for s" using j by (auto simp: waits_for_def)
  then show "avoids Z m s'"
    using a unfolding avoids_def w f(9) by (meson converse_rtrancl_into_rtrancl)
  show "j \<notin> Z" using a j(1) by (auto simp: avoids_def)
qed

text \<open>Minima of sets that differ in one element.\<close>

lemma Min_moved:
  fixes S S' :: "nat set"
  assumes "finite S" "finite S'" "S' \<subseteq> insert p S" "S \<subseteq> insert q S'" "p \<in> S'"
  shows "p < Min S \<Longrightarrow> Min S' = p" "Min S \<le> p \<Longrightarrow> Min S \<noteq> q \<Longrightarrow> S \<noteq> {} \<Longrightarrow> Min S' = Min S"
    "Min S \<le> p \<Longrightarrow> S \<noteq> {} \<Longrightarrow> Min S \<le> Min S'"
proof -
  show "Min S' = p" if "p < Min S"
  proof (rule Min_eqI [OF assms(2) _ assms(5)])
    fix y assume "y \<in> S'"
    then have "y = p \<or> y \<in> S" using assms(3) by blast
    then show "p \<le> y" using that Min_le [OF assms(1), of y] by auto
  qed
  have ge: "Min S \<le> y" if "y \<in> S'" "Min S \<le> p" for y
    using that assms(3) Min_le [OF assms(1), of y] by blast
  show "Min S' = Min S" if "Min S \<le> p" "Min S \<noteq> q" "S \<noteq> {}"
    using Min_in [OF assms(1) that(3)] assms(4) that(2) ge [OF _ that(1)]
    by (intro Min_eqI [OF assms(2)]) auto
  show "Min S \<le> Min S'" if "Min S \<le> p" "S \<noteq> {}"
    using assms(5) ge [OF _ that(1)] by (subst Min_ge_iff [OF assms(2)]) auto
qed

text \<open>Raising: every task of the chain gets the same priority.\<close>

lemma change_raises:
  fixes s :: "'a mtx_st_scheme"
  assumes "mtx_inv {t} Z E s" "avoids Z t s" "p < NUM_PRI" "p = eff_pri Z E t s" "p < priority (tcbs s t)"
    "task_alive (tstate (tcbs s t))"
  shows "\<exists>s'. change_priority t p s = Some s' \<and> mtx_inv {} Z E s' \<and> mtx_keeps s' s \<and>
    (\<forall>u. priority (tcbs s u) \<le> p \<longrightarrow> priority (tcbs s' u) = priority (tcbs s u))"
  using assms
proof (induction "card {u. tstate (tcbs s u) \<noteq> TS_NONEXIST \<and> p < priority (tcbs s u)}" arbitrary: s t rule: less_induct)
  case less
  note inv = less.prems(1)
  show ?case
  proof (cases rule: change_step [OF inv less.prems(3,4), case_names ends goes_on])
    case (ends s')
    then show ?thesis using repriorizedD [OF ends(3)] less.prems(5) by auto
  next
    case (goes_on j m s')
    note r = goes_on(4) and f = mtx_keepsD [OF repriorizedD(1) [OF goes_on(4)]]
    note pr = repriorizedD(2) [OF r]
    note av = avoids_step [OF r less.prems(2) goes_on(1,3)]
    note h = repriorized_holder [OF r inv goes_on(5,6,2,1,3) av(2) less.prems(4)]
    note M = Min_moved [OF h(3-7)]
    show ?thesis
    proof (cases "p < priority (tcbs s' m)")
      case True
      have em: "p = eff_pri Z E m s'" using M(1) True h(8,9) by simp
      let ?A = "{u. tstate (tcbs s' u) \<noteq> TS_NONEXIST \<and> p < priority (tcbs s' u)}"
      let ?B = "{u. tstate (tcbs s u) \<noteq> TS_NONEXIST \<and> p < priority (tcbs s u)}"
      have "t \<in> ?B" "t \<notin> ?A" using less.prems(5,6) pr by (auto simp: task_alive_iff)
      moreover have "?A \<subseteq> ?B" by (auto simp: pr f(12) split: if_splits)
      moreover have "finite ?B" using mtx_invD(2) [OF inv] by (rule finite_subset [rotated]) blast
      ultimately have "card ?A < card ?B" by (intro psubset_card_mono) auto
      then have "\<exists>s''. change_priority m p s' = Some s'' \<and> mtx_inv {} Z E s'' \<and> mtx_keeps s'' s' \<and>
          (\<forall>u. priority (tcbs s' u) \<le> p \<longrightarrow> priority (tcbs s'' u) = priority (tcbs s' u))"
        by (rule less.hyps [OF _ h(1) av(1) less.prems(3) em True h(10)])
      then show ?thesis
        using goes_on(7) True mtx_keeps_trans [OF _ repriorizedD(1) [OF r]] pr less.prems(5)
        by (metis linorder_not_less)
    next
      case False
      then have le: "priority (tcbs s' m) \<le> p" by simp
      then have "Min (insert (bpriority (tcbs s' m)) (boosts (holds Z m s') s' \<union> E m)) = priority (tcbs s' m)"
        using M(2) h(8) less.prems(5) by simp
      then have eq: "priority (tcbs s' m) = eff_pri Z E m s'" using h(9) by simp
      have "mtx_inv {} Z E s'" using h(1) eq unfolding mtx_inv_def by auto
      moreover have "change_priority t p s = Some s'" using goes_on(7) le less.prems(5) by simp
      ultimately show ?thesis using repriorizedD [OF r] less.prems(5) by auto
    qed
  qed
qed

text \<open>Lowering.\<close>

lemma eff_pri_bound:
  assumes "mtx_struct Y s" "task_alive (tstate (tcbs s t))" "finite (E t)"
  shows "eff_pri Z E t s < NUM_PRI" "eff_pri Z E t s \<le> bpriority (tcbs s t)"
proof -
  show "eff_pri Z E t s \<le> bpriority (tcbs s t)"
    unfolding eff_pri_def using assms(3) by (intro Min_le) (auto simp: finite_boosts finite_holds)
  then show "eff_pri Z E t s < NUM_PRI" using mtx_structD(13) [OF assms(1,2)] by simp
qed

lemma change_lowers:
  fixes s :: "'a mtx_st_scheme"
  assumes "mtx_inv {t} Z no_extra s" "avoids Z t s" "p = eff_pri Z no_extra t s" "priority (tcbs s t) < p"
    "task_alive (tstate (tcbs s t))"
  shows "\<exists>s'. change_priority t p s = Some s' \<and> mtx_inv {} Z no_extra s' \<and> mtx_keeps s' s"
  using assms
proof (induction "\<Sum>u | tstate (tcbs s u) \<noteq> TS_NONEXIST. NUM_PRI - priority (tcbs s u)"
    arbitrary: s t p rule: less_induct)
  case less
  note inv = less.prems(1)
  have pb: "p < NUM_PRI" using eff_pri_bound(1) [OF mtx_invD(3) [OF inv] less.prems(5)] less.prems(3) by simp
  show ?case
  proof (cases rule: change_step [OF inv pb less.prems(3), case_names ends goes_on])
    case (ends s')
    then show ?thesis using repriorizedD(1) [OF ends(3)] by auto
  next
    case (goes_on j m s')
    note r = goes_on(4) and f = mtx_keepsD [OF repriorizedD(1) [OF goes_on(4)]]
    note pr = repriorizedD(2) [OF r]
    note av = avoids_step [OF r less.prems(2) goes_on(1,3)]
    note h = repriorized_holder [OF r inv goes_on(5,6,2,1,3) av(2) less.prems(3)]
    note M = Min_moved [OF h(3-7)]
    let ?S = "insert (bpriority (tcbs s m)) (boosts (holds Z m s) s \<union> no_extra m)"
    have told: "priority (tcbs s t) \<in> ?S"
      using h(6) h(7) goes_on(1-3) mtx_structD(4) [OF mtx_invD(3) [OF inv] goes_on(1)] av(2)
      by (auto simp: boosts_def holds_def)
    have "Min ?S \<le> priority (tcbs s t)" using told h(3) by (intro Min_le) auto
    then have le: "priority (tcbs s' m) \<le> priority (tcbs s t)" using h(8) by simp
    show ?thesis
    proof (cases "priority (tcbs s' m) = priority (tcbs s t) \<and> eff_pri Z no_extra m s' \<noteq> priority (tcbs s' m)")
      case True
      have gt: "priority (tcbs s' m) < eff_pri Z no_extra m s'"
        using M(3) le less.prems(4) h(8,9) True by simp
      let ?sum = "\<lambda>s. \<Sum>u | tstate (tcbs s u) \<noteq> TS_NONEXIST. NUM_PRI - priority (tcbs s u)"
      have fin: "finite {u. tstate (tcbs s u) \<noteq> TS_NONEXIST}" by (rule mtx_invD(2) [OF inv])
      have "?sum s' = (\<Sum>u | tstate (tcbs s u) \<noteq> TS_NONEXIST. NUM_PRI - priority (tcbs s' u))"
        by (simp add: f(12))
      also have "\<dots> < ?sum s"
      proof (rule sum_strict_mono_ex1 [OF fin])
        show "\<exists>u \<in> {u. tstate (tcbs s u) \<noteq> TS_NONEXIST}.
            NUM_PRI - priority (tcbs s' u) < NUM_PRI - priority (tcbs s u)"
          using less.prems(4,5) pb by (intro bexI [of _ t]) (auto simp: pr task_alive_iff)
      qed (use less.prems(4) in \<open>auto simp: pr\<close>)
      finally have "\<exists>s''. change_priority m (eff_pri Z no_extra m s') s' = Some s'' \<and>
          mtx_inv {} Z no_extra s'' \<and> mtx_keeps s'' s'"
        by (rule less.hyps [OF _ h(1) av(1) refl gt h(10)])
      moreover have "change_priority t p s = change_priority m (eff_pri Z no_extra m s') s'"
        using goes_on(7) le less.prems(4) True release_mutex_none [OF mtx_invD(3) [OF h(1)] h(10)] by simp
      ultimately show ?thesis using mtx_keeps_trans [OF _ repriorizedD(1) [OF r]] by metis
    next
      case False
      have "eff_pri Z no_extra m s' = priority (tcbs s' m)"
      proof (cases "priority (tcbs s' m) = priority (tcbs s t)")
        case ne: False
        have "Min (insert (bpriority (tcbs s' m)) (boosts (holds Z m s') s' \<union> no_extra m)) = Min ?S"
          by (rule M(2)) (use ne le less.prems(4) h(8) in auto)
        then show ?thesis using h(8,9) by simp
      qed (use False in simp)
      then have "mtx_inv {} Z no_extra s'" using h(1) unfolding mtx_inv_def by auto
      moreover have "change_priority t p s = Some s'"
        using goes_on(7) le less.prems(4) False release_mutex_none [OF mtx_invD(3) [OF h(1)] h(10)] by auto
      ultimately show ?thesis using repriorizedD(1) [OF r] by auto
    qed
  qed
qed


text \<open>The general case.\<close>

lemma change_priority_ok:
  fixes s :: "'a mtx_st_scheme"
  assumes inv: "mtx_inv {t} Z no_extra s" and av: "avoids Z t s" and t: "task_alive (tstate (tcbs s t))"
  shows "\<exists>s'. change_priority t (eff_pri Z no_extra t s) s = Some s' \<and> mtx_inv {} Z no_extra s' \<and> mtx_keeps s' s"
proof -
  let ?p = "eff_pri Z no_extra t s"
  have pb: "?p < NUM_PRI" by (rule eff_pri_bound(1) [OF mtx_invD(3) [OF inv] t]) simp
  consider "?p < priority (tcbs s t)" | "priority (tcbs s t) < ?p" | (same) "?p = priority (tcbs s t)" by linarith
  then show ?thesis
  proof cases
    case 1
    then show ?thesis using change_raises [OF inv av pb refl _ t] by blast
  next
    case 2
    then show ?thesis using change_lowers [OF inv av refl _ t] by blast
  next
    case same
    show ?thesis
    proof (cases rule: change_step [OF inv pb refl, case_names ends goes_on])
      case (ends s')
      then show ?thesis using repriorizedD(1) by blast
    next
      case (goes_on j m s')
      note r = goes_on(4)
      note av' = avoids_step [OF r av goes_on(1,3)]
      note h = repriorized_holder [OF r inv goes_on(5,6,2,1,3) av'(2) refl]
      let ?S = "insert (bpriority (tcbs s m)) (boosts (holds Z m s) s \<union> no_extra m)"
      have told: "priority (tcbs s t) \<in> ?S"
        using goes_on(1-3) mtx_structD(4) [OF mtx_invD(3) [OF inv] goes_on(1)] av'(2)
        by (auto simp: boosts_def holds_def)
      have S: "insert (bpriority (tcbs s' m)) (boosts (holds Z m s') s' \<union> no_extra m) = ?S"
        by (rule subset_antisym) (use h(5,6,7) told same in \<open>metis insert_absorb\<close>)+
      have le: "Min ?S \<le> priority (tcbs s t)" by (rule Min_le [OF h(3) told])
      have eq: "eff_pri Z no_extra m s' = priority (tcbs s' m)" using h(8,9) S by simp
      have "mtx_inv {} Z no_extra s'" using h(1) eq unfolding mtx_inv_def by auto
      moreover have "change_priority t ?p s = Some s'"
        using goes_on(7) h(8) le same eq release_mutex_none [OF mtx_invD(3) [OF h(1)] h(10)] by simp
      ultimately show ?thesis using repriorizedD(1) [OF r] by blast
    qed
  qed
qed

end
