(* ===== verification/Mutex_Calls.thy ===== *)
theory Mutex_Calls
  imports Inheritance
begin

text \<open>
  The system calls on mutexes return and keep \<open>mtx_ok\<close>: every task has the priority it is entitled
  to, the lists of the tasks are the mutexes they hold, and the queues are in order. A deletion
  does so when no task waits in a circle through the mutex; \<open>Spec2Isabelle\<close> shows what happens
  otherwise.
\<close>

definition mtx_ok :: "'a mtx_st_scheme \<Rightarrow> bool" where
  "mtx_ok s \<longleftrightarrow> mtx_inv {} {} no_extra s"

lemma mtx_okD:
  assumes "mtx_ok s"
  shows "kinv s" "mtx_struct {} s" "finite {u. tstate (tcbs s u) \<noteq> TS_NONEXIST}"
    "task_alive (tstate (tcbs s t)) \<Longrightarrow> priority (tcbs s t) = eff_pri {} no_extra t s"
  using mtx_invD [OF assms [unfolded mtx_ok_def]] by auto

lemma mtx_okI:
  assumes "kinv s" "mtx_struct {} s" "finite {u. tstate (tcbs s u) \<noteq> TS_NONEXIST}"
    "\<And>t. task_alive (tstate (tcbs s t)) \<Longrightarrow> priority (tcbs s t) = eff_pri {} no_extra t s"
  shows "mtx_ok s"
  using assms by (simp add: mtx_ok_def mtx_inv_def)

lemma mtx_same_ok: "mtx_same s' s \<Longrightarrow> kinv s' \<Longrightarrow> mtx_ok s \<Longrightarrow> mtx_ok s'"
  unfolding mtx_ok_def by (rule mtx_same_inv)

section \<open>Creation\<close>

lemma mtx_free_kinv [simp]: "kinv_x X (s\<lparr>free_mtxcb := fr\<rparr>) = kinv_x X s"
  by (simp add: kinv_x_def rdq_ok_def)

lemma tk_cre_mtx_ok:
  fixes s :: "'a mtx_st_scheme"
  assumes ok: "mtx_ok s"
  shows "mtx_ok (snd (tk_cre_mtx pk s))"
proof (cases "free_mtxcb s")
  case Nil
  then show ?thesis using ok by (simp add: tk_cre_mtx_def)
next
  case (Cons i free)
  note st = mtx_structD [OF mtx_okD(2) [OF ok]]
  define cpri where "cpri = (if cx_mtxatr pk AND TA_CEILING = TA_CEILING then int_priority (cx_ceilpri pk) else 0)"
  define nm where "nm = (if has (cx_mtxatr pk) TA_DSNAME then tkl_strncpy (cx_dsname pk) OBJECT_NAME_LENGTH
    else mtx_name (mtxcb_table s i))"
  define cb where "cb = (mtxcb_table s i)\<lparr>mtxid := i, mtx_exinf := cx_exinf pk, mtxatr := cx_mtxatr pk,
    ceilpri := cpri, mtxtsk := None, mtx_link := None, mtx_name := nm\<rparr>"
  define s' where "s' = upd_mtxcb i (\<lambda>_. cb) (s\<lparr>free_mtxcb := free\<rparr>)"
  have eq: "snd (tk_cre_mtx pk s) = (if chk_rsatr (cx_mtxatr pk) VALID_MTXATR \<and>
      \<not> (cx_mtxatr pk AND TA_CEILING = TA_CEILING \<and> \<not> chk_pri (cx_ceilpri pk)) then s' else s)"
    by (simp add: tk_cre_mtx_def Cons Let_def s'_def cb_def cpri_def nm_def upd_mtxcb_def)
  show ?thesis
  proof (cases "chk_rsatr (cx_mtxatr pk) VALID_MTXATR \<and>
      \<not> (cx_mtxatr pk AND TA_CEILING = TA_CEILING \<and> \<not> chk_pri (cx_ceilpri pk))")
    case False
    then show ?thesis using ok eq by auto
  next
    case True
    have i: "chk_id (max_mtxid s) i" "mtxid (mtxcb_table s i) = 0" using st(2) [of i] Cons by auto
    have i0: "i \<noteq> 0" using i(1) by (simp add: chk_id_def)
    have nex: "\<not> mtx_exists i s" using i by (simp add: mtx_exists_def)
    have qi: "que s (WaitQ OMtx i) = []" by (rule st(3) [OF nex])
    have ex: "mtx_exists j s' \<longleftrightarrow> j = i \<or> mtx_exists j s" for j
      using i i0 by (auto simp: mtx_exists_def s'_def cb_def)
    have tb: "mtxcb_table s' j = (if j = i then cb else mtxcb_table s j)" for j by (simp add: s'_def)
    have other: "tcbs s' = tcbs s" "que s' = que s" by (simp_all add: s'_def)
    have kd: "mtx_kind j s' = (if j = i then cx_mtxatr pk AND TA_CEILING else mtx_kind j s)" for j
      by (simp add: mtx_kind_def tb cb_def)
    have hd: "holds {} t s' = holds {} t s" for t using nex by (auto simp: holds_def ex tb cb_def)
    have ni: "i \<notin> holds {} t s" for t using nex by (simp add: holds_def)
    have bo: "boosts (holds {} t s) s' = boosts (holds {} t s) s" for t
      using ni [of t] by (intro boosts_cong) (auto simp: kd tb other)
    have ef: "eff_pri {} no_extra t s' = eff_pri {} no_extra t s" for t by (simp add: eff_pri_def hd bo other)
    have ls: "\<exists>ms. mlist ms (mtxlist (tcbs s' t)) s' \<and> distinct ms \<and> set ms = holds {} t s'"
      if t: "task_alive (tstate (tcbs s t))" for t
    proof -
      obtain ms where ms: "mlist ms (mtxlist (tcbs s t)) s" "distinct ms" "set ms = holds {} t s"
        using st(14) [OF t] by blast
      then have "mlist ms (mtxlist (tcbs s t)) s'"
        using ni [of t] by (subst mlist_cong [of _ _ s]) (auto simp: tb)
      then show ?thesis using ms hd other by auto
    qed
    have cp: "cpri < NUM_PRI" if "cx_mtxatr pk AND TA_CEILING = TA_CEILING"
      using True that by (auto simp: cpri_def chk_pri_def int_priority_def NUM_PRI_def)
    have fr: "free_mtxcb s' = free" "max_mtxid s' = max_mtxid s" by (simp_all add: s'_def)
    have q: "que s' (WaitQ OMtx j) = que s (WaitQ OMtx j)" for j by (simp add: other)
    have "mtx_struct {} s'"
    proof (rule mtx_structI)
      show "j \<in> set (free_mtxcb s') \<longleftrightarrow> chk_id (max_mtxid s') j \<and> mtxid (mtxcb_table s' j) = 0" for j
        using st(1) st(2) [of j] Cons i0 by (auto simp: fr tb cb_def)
      show "wspec (tcbs s' t) = mtx_wspec (mtx_kind j s') \<and> mtxtsk (mtxcb_table s' j) \<noteq> None \<and>
          mtxtsk (mtxcb_table s' j) \<noteq> Some t" if "t \<in> set (que s' (WaitQ OMtx j))" for j t
        using that qi st(5-7) [of t j] by (auto simp: other tb kd)
      show "sorted (map (\<lambda>u. priority (tcbs s' u)) (que s' (WaitQ OMtx j)))"
        if "mtx_exists j s'" "mtx_kind j s' \<noteq> 0" for j
        using that st(10) [of j] qi by (cases "j = i") (simp_all add: ex kd other)
      show "ceilpri (mtxcb_table s' j) < NUM_PRI" if "mtx_exists j s'" "mtx_kind j s' = TA_CEILING" for j
        using that st(9) [of j] cp by (cases "j = i") (simp_all add: ex kd tb cb_def)
    qed (use st(1,3,8,11-13,15) ex Cons ls in \<open>auto simp: other fr tb cb_def split: if_splits\<close>)
    then have "mtx_ok s'"
      using mtx_okD(1,3,4) [OF ok] by (intro mtx_okI) (simp_all add: ef other, simp add: s'_def)
    then show ?thesis using eq True by simp
  qed
qed

section \<open>A task leaves the queue of a mutex\<close>

definition left_mtx :: "ID \<Rightarrow> 'a mtx_st_scheme \<Rightarrow> 'a mtx_st_scheme \<Rightarrow> bool" where
  "left_mtx t s' s \<longleftrightarrow>
     mtxcb_table s' = mtxcb_table s \<and> free_mtxcb s' = free_mtxcb s \<and> max_mtxid s' = max_mtxid s \<and>
     (\<forall>u. tcb_view (tcbs s' u) = tcb_view (tcbs s u)) \<and>
     (\<forall>u. tstate (tcbs s' u) = (if u = t then released (tstate (tcbs s t)) else tstate (tcbs s u))) \<and>
     (\<forall>i. que s' (WaitQ OMtx i) = removeAll t (que s (WaitQ OMtx i)))"

lemma left_mtxD:
  assumes "left_mtx t s' s" "in_wait (tstate (tcbs s t))"
  shows "mtxcb_table s' = mtxcb_table s" "free_mtxcb s' = free_mtxcb s" "max_mtxid s' = max_mtxid s"
    "wspec (tcbs s' u) = wspec (tcbs s u)" "priority (tcbs s' u) = priority (tcbs s u)"
    "bpriority (tcbs s' u) = bpriority (tcbs s u)" "wid (tcbs s' u) = wid (tcbs s u)"
    "mtxlist (tcbs s' u) = mtxlist (tcbs s u)"
    "que s' (WaitQ OMtx i) = removeAll t (que s (WaitQ OMtx i))"
    "task_alive (tstate (tcbs s' u)) = task_alive (tstate (tcbs s u))"
    "in_wait (tstate (tcbs s' u)) \<longleftrightarrow> in_wait (tstate (tcbs s u)) \<and> u \<noteq> t"
    "tstate (tcbs s' u) = TS_NONEXIST \<longleftrightarrow> tstate (tcbs s u) = TS_NONEXIST"
    "mtx_exists i s' = mtx_exists i s" "mtx_kind i s' = mtx_kind i s" "holds Z v s' = holds Z v s"
    "mlist ms q s' = mlist ms q s"
proof -
  have v: "tcb_view (tcbs s' u) = tcb_view (tcbs s u)" using assms by (simp add: left_mtx_def)
  show "wspec (tcbs s' u) = wspec (tcbs s u)" "priority (tcbs s' u) = priority (tcbs s u)"
    "bpriority (tcbs s' u) = bpriority (tcbs s u)" "wid (tcbs s' u) = wid (tcbs s u)"
    "mtxlist (tcbs s' u) = mtxlist (tcbs s u)"
    using tcb_viewD [OF v] by auto
  have "tstate (tcbs s' u) = (if u = t then released (tstate (tcbs s t)) else tstate (tcbs s u))"
    using assms(1) unfolding left_mtx_def by blast
  then show "task_alive (tstate (tcbs s' u)) = task_alive (tstate (tcbs s u))"
    "in_wait (tstate (tcbs s' u)) \<longleftrightarrow> in_wait (tstate (tcbs s u)) \<and> u \<noteq> t"
    "tstate (tcbs s' u) = TS_NONEXIST \<longleftrightarrow> tstate (tcbs s u) = TS_NONEXIST"
    using assms(2) released_alive [of "tstate (tcbs s t)"] by (auto simp: task_alive_iff)
  show tb: "mtxcb_table s' = mtxcb_table s" and mx: "max_mtxid s' = max_mtxid s"
    using assms by (simp_all add: left_mtx_def)
  show "mtx_exists i s' = mtx_exists i s" "mtx_kind i s' = mtx_kind i s" "holds Z v s' = holds Z v s"
    by (simp_all add: mtx_exists_def mtx_kind_def holds_def tb mx)
  show "mlist ms q s' = mlist ms q s" by (rule mlist_cong) (simp add: tb)
qed (use assms in \<open>simp_all add: left_mtx_def\<close>)

lemma left_mtx_release:
  assumes k: "kinv s" and w: "in_wait (tstate (tcbs s t))"
  shows "left_mtx t (wait_release t s) s" "left_mtx t (wait_release_ok t s) s"
  by (simp_all add: left_mtx_def wait_release_que [OF k w] rok.wque [OF k w] rok.view rok.tstate)

lemma left_mtx_tmout:
  assumes k: "kinv s" and w: "in_wait (tstate (tcbs s t))"
  defines "s' \<equiv> make_non_wait t (que_remove t s)"
  shows "left_mtx t s' s" "kinv s'" "wspec (tcbs s' t) = wspec (tcbs s t)"
proof -
  have k0: "kinv (que_remove t s)" using k w by (intro que_remove_kinv_x) (auto dest: in_wait_not_ready)
  show "kinv s'" unfolding s'_def using w by (intro make_non_wait_kinv_x [OF k0]) simp_all
  have m: "kst.more s' = kst.more s" by (simp add: s'_def)
  show "left_mtx t s' s"
    using make_ready_que [OF k0, of t] mtx_more [OF m]
    by (simp add: left_mtx_def s'_def tcb_view_def) (simp add: make_non_wait_def)
qed (simp add: s'_def)

lemma left_struct:
  assumes l: "left_mtx t s' s" and w: "in_wait (tstate (tcbs s t))" and st: "mtx_struct Z s"
  shows "mtx_struct Z s'"
proof -
  note d = left_mtxD [OF l w] and m = mtx_structD [OF st]
  have q: "u \<in> set (removeAll t (que s (WaitQ OMtx i))) \<longleftrightarrow> u \<noteq> t \<and> u \<in> set (que s (WaitQ OMtx i))" for u i
    by auto
  show ?thesis
  proof (rule mtx_structI; unfold d)
    show "sorted (map (\<lambda>u. priority (tcbs s u)) (removeAll t (que s (WaitQ OMtx i))))"
      if "mtx_exists i s" "mtx_kind i s \<noteq> 0" for i
      using m(10) [OF that] by (rule sorted_map_removeAll)
  qed ((unfold q)?, (use m(3) in \<open>simp; fail\<close> | use m(1,2,4-9,11-15) in blast))+
qed

text \<open>Only the holder of a mutex that inherits can be affected.\<close>

lemma left_eff_same:
  assumes l: "left_mtx t s' s" and w: "in_wait (tstate (tcbs s t))"
    and n: "\<And>i. i \<in> holds Z u s \<Longrightarrow> mtx_kind i s = TA_INHERIT \<Longrightarrow> t \<notin> set (que s (WaitQ OMtx i))"
  shows "eff_pri Z E u s' = eff_pri Z E u s"
proof -
  note d = left_mtxD [OF l w]
  have "boosts (holds Z u s) s' = boosts (holds Z u s) s"
    using n by (intro boosts_cong) (auto simp: d)
  then show ?thesis by (simp add: eff_pri_def d)
qed

lemma left_inv:
  assumes l: "left_mtx t s' s" and inv: "mtx_inv {} Z no_extra s" and k: "kinv s'"
    and w: "in_wait (tstate (tcbs s t))"
    and X: "\<And>u i. i \<in> holds Z u s \<Longrightarrow> mtx_kind i s = TA_INHERIT \<Longrightarrow> t \<in> set (que s (WaitQ OMtx i)) \<Longrightarrow> u \<in> X"
  shows "mtx_inv X Z no_extra s'"
proof -
  note d = left_mtxD [OF l w] and i = mtx_invD [OF inv]
  have "eff_pri Z no_extra u s' = eff_pri Z no_extra u s" if "u \<notin> X" for u
    using X that by (intro left_eff_same [OF l w]) blast
  then show ?thesis
    unfolding mtx_inv_def using k i(2,5) left_struct [OF l w i(3)] by (simp add: d)
qed

text \<open>The holder keeps its priority, or gets a lower one.\<close>

lemma left_holder:
  assumes l: "left_mtx t s' s" and w: "in_wait (tstate (tcbs s t))" and inv: "mtx_inv {} Z no_extra s"
    and m: "task_alive (tstate (tcbs s m))" and n: "priority (tcbs s m) \<noteq> priority (tcbs s t)"
  shows "eff_pri Z no_extra m s' = priority (tcbs s' m)"
proof -
  note d = left_mtxD [OF l w] and i = mtx_invD [OF inv]
  let ?S = "insert (bpriority (tcbs s m)) (boosts (holds Z m s) s \<union> no_extra m)"
  let ?S' = "insert (bpriority (tcbs s' m)) (boosts (holds Z m s') s' \<union> no_extra m)"
  have f: "finite ?S" by (simp add: finite_boosts finite_holds)
  have sub: "?S' \<subseteq> ?S" "?S \<subseteq> insert (priority (tcbs s t)) ?S'"
    by (auto simp: boosts_def d)
  have p: "priority (tcbs s m) = Min ?S" using i(5) [OF m] by (simp add: eff_pri_def)
  have "Min ?S \<in> ?S'" using Min_in [OF f] sub(2) p n by auto
  then have "Min ?S' = Min ?S"
    using sub(1) f by (intro Min_eqI finite_subset [OF sub(1) f]) (auto intro: Min_le)
  then show ?thesis using p by (simp add: eff_pri_def d)
qed

section \<open>Getting a mutex\<close>

lemma inv_unowned:
  assumes inv: "mtx_inv X {} E s" and o: "mtxtsk (mtxcb_table s i) = None"
  shows "mtx_inv X {i} E s"
proof -
  have h: "holds {i} t s = holds {} t s" for t using o by (auto simp: holds_def)
  have "mtx_struct {i} s = mtx_struct {} s" by (simp add: mtx_struct_def h)
  then show ?thesis using inv by (simp add: mtx_inv_def eff_pri_def h)
qed

lemma get_lock_sel [simp]:
  "que (get_lock i t s) = que s" "ctxtsk (get_lock i t s) = ctxtsk s"
  "free_mtxcb (get_lock i t s) = free_mtxcb s" "max_mtxid (get_lock i t s) = max_mtxid s"
  "mtxcb_table (get_lock i t s) j = (if j = i
     then (mtxcb_table s i)\<lparr>mtxtsk := Some t, mtx_link := mtxlist (tcbs s t)\<rparr> else mtxcb_table s j)"
  "tcbs (get_lock i t s) u = (if u = t then (tcbs s t)\<lparr>mtxlist := Some i\<rparr> else tcbs s u)"
  "kinv_x X (get_lock i t s) = kinv_x X s"
  by (simp_all add: get_lock_def Let_def tcb_upd_kinv_same)

lemma get_lock_inv:
  fixes s :: "'a mtx_st_scheme" and i t :: ID
  assumes inv: "mtx_inv {} {i} no_extra s" and ex: "mtx_exists i s" and t: "task_alive (tstate (tcbs s t))"
    and nq: "t \<notin> set (que s (WaitQ OMtx i))"
  defines "s' \<equiv> get_lock i t s"
  shows "mtx_inv {t} {} no_extra s'"
    "eff_pri {} no_extra t s' = Min (insert (priority (tcbs s t)) (boosts {i} s))"
proof -
  note d = mtx_invD [OF inv] and st = mtx_structD [OF mtx_invD(3) [OF inv]]
  have e: "mtx_exists j s' = mtx_exists j s" "mtx_kind j s' = mtx_kind j s" for j
    by (simp_all add: s'_def mtx_exists_def mtx_kind_def)
  have h: "holds {} u s' = (if u = t then insert i (holds {i} t s) else holds {i} u s)" for u
    using ex by (auto simp: holds_def e) (auto simp: s'_def split: if_splits)
  have b: "boosts I s' = boosts I s" for I by (rule boosts_cong) (simp_all add: e, simp_all add: s'_def)
  have eff: "eff_pri {} no_extra u s' = eff_pri {i} no_extra u s" if "u \<noteq> t" for u
    using that by (simp add: eff_pri_def h b) (simp add: s'_def)
  have fin: "finite (boosts (holds {i} t s) s)" "finite (boosts {i} s)"
    by (simp_all add: finite_boosts finite_holds)
  have "boosts (insert i (holds {i} t s)) s = boosts (holds {i} t s) s \<union> boosts {i} s" by (auto simp: boosts_def)
  then have "eff_pri {} no_extra t s' =
      Min (insert (bpriority (tcbs s t)) (boosts (holds {i} t s) s) \<union> boosts {i} s)"
    by (simp add: eff_pri_def h b) (simp add: s'_def)
  also have "\<dots> = Min (insert (priority (tcbs s t)) (boosts {i} s))"
  proof (cases "boosts {i} s = {}")
    case True
    then show ?thesis using d(5) [OF t] by (simp add: eff_pri_def)
  next
    case False
    have "Min (insert (bpriority (tcbs s t)) (boosts (holds {i} t s) s) \<union> boosts {i} s) =
        min (Min (insert (bpriority (tcbs s t)) (boosts (holds {i} t s) s))) (Min (boosts {i} s))"
      using fin False by (intro Min_Un) auto
    then show ?thesis using d(5) [OF t] fin False by (simp add: eff_pri_def)
  qed
  finally show "eff_pri {} no_extra t s' = Min (insert (priority (tcbs s t)) (boosts {i} s))" .
  have ls: "\<exists>ms. mlist ms (mtxlist (tcbs s' u)) s' \<and> distinct ms \<and> set ms = holds {} u s'"
    if u: "task_alive (tstate (tcbs s' u))" for u
  proof -
    have "task_alive (tstate (tcbs s u))" using u t by (auto simp: s'_def split: if_splits)
    then obtain ms where ms: "mlist ms (mtxlist (tcbs s u)) s" "distinct ms" "set ms = holds {i} u s"
      using st(14) by blast
    then have ni: "i \<notin> set ms" by (auto simp: holds_def)
    then have m': "mlist ms (mtxlist (tcbs s u)) s'"
      using ms(1) by (subst mlist_cong [of _ _ s]) (auto simp: s'_def)
    show ?thesis
    proof (cases "u = t")
      case True
      then show ?thesis using ms(2,3) ni m' h [of t] by (intro exI [of _ "i # ms"]) (simp add: s'_def)
    next
      case False
      then show ?thesis using ms(2,3) m' h [of u] by (intro exI [of _ ms]) (simp add: s'_def)
    qed
  qed
  have ts: "tstate (tcbs s' u) = tstate (tcbs s u)" "priority (tcbs s' u) = priority (tcbs s u)"
    "bpriority (tcbs s' u) = bpriority (tcbs s u)" "wspec (tcbs s' u) = wspec (tcbs s u)"
    "wid (tcbs s' u) = wid (tcbs s u)" for u by (simp_all add: s'_def)
  have tb: "mtxid (mtxcb_table s' j) = mtxid (mtxcb_table s j)"
    "ceilpri (mtxcb_table s' j) = ceilpri (mtxcb_table s j)"
    "mtxtsk (mtxcb_table s' j) = (if j = i then Some t else mtxtsk (mtxcb_table s j))" for j
    by (simp_all add: s'_def)
  have q: "que s' = que s" "free_mtxcb s' = free_mtxcb s" "max_mtxid s' = max_mtxid s" by (simp_all add: s'_def)
  have "mtx_struct {} s'"
  proof (rule mtx_structI)
    show "wspec (tcbs s' u) = mtx_wspec (mtx_kind j s') \<and> mtxtsk (mtxcb_table s' j) \<noteq> None \<and>
        mtxtsk (mtxcb_table s' j) \<noteq> Some u" if "u \<in> set (que s' (WaitQ OMtx j))" for j u
      using that nq st(5-7) [of u j] by (auto simp: ts tb e q)
    show "task_alive (tstate (tcbs s' u))" if "mtx_exists j s'" "mtxtsk (mtxcb_table s' j) = Some u" for j u
      using that t st(11) by (auto simp: ts tb e split: if_splits)
  qed (use ls in blast | use st(1-3,8-10,12,13,15) in \<open>simp add: ts tb e q\<close> | use st(12,15) in \<open>simp add: ts q, blast\<close>)+
  then show "mtx_inv {t} {} no_extra s'"
    unfolding mtx_inv_def using d(1,2,5) eff by (simp add: ts) (simp add: s'_def)
qed

lemma raise_to_ceiling_ok:
  fixes s :: "'a mtx_st_scheme"
  assumes inv: "mtx_inv {t} {} no_extra s" and t: "task_alive (tstate (tcbs s t))"
    and e: "eff_pri {} no_extra t s = Min (insert (priority (tcbs s t)) (boosts {i} s))"
    and i: "mtx_kind i s = TA_INHERIT \<Longrightarrow>
      (\<And>u. u \<in> set (que s (WaitQ OMtx i)) \<Longrightarrow> priority (tcbs s t) \<le> priority (tcbs s u))"
  shows "\<exists>s'. raise_to_ceiling i t s = Some s' \<and> mtx_ok s' \<and> mtx_keeps s' s"
proof (cases "mtx_kind i s = TA_CEILING \<and> priority (tcbs s t) > ceilpri (mtxcb_table s i)")
  case True
  then have "boosts {i} s = {ceilpri (mtxcb_table s i)}" by (auto simp: boosts_def)
  then have "eff_pri {} no_extra t s = ceilpri (mtxcb_table s i)" using e True by simp
  then show ?thesis
    using change_priority_ok [OF inv avoids_empty t] True by (simp add: raise_to_ceiling_def mtx_ok_def)
next
  case False
  have fin: "finite (boosts {i} s)" by (simp add: finite_boosts)
  have "priority (tcbs s t) \<le> p" if "p \<in> boosts {i} s" for p
    using that False i by (auto simp: boosts_def)
  then have "Min (insert (priority (tcbs s t)) (boosts {i} s)) = priority (tcbs s t)"
    using fin by (intro Min_eqI) auto
  then have "mtx_ok s" using inv e unfolding mtx_ok_def mtx_inv_def by auto
  then show ?thesis using False by (auto simp: raise_to_ceiling_def mtx_keeps_refl)
qed


end
