(* ===== verification/Mutex_Steps.thy ===== *)
theory Mutex_Steps
  imports Mutex_Calls
begin

text \<open>
  Locking, unlocking and deleting mutexes, the end of waits by force or by time, and changes of
  base priorities: each returns and keeps \<open>mtx_ok\<close>. The last section puts them together with the
  calls on the other objects as one step relation.
\<close>

section \<open>Waiting for a mutex\<close>

lemma mtx_make_wait_eq:
  assumes r: "running t s" and i: "mtxid (mtxcb_table s i) = i"
  defines "a \<equiv> (if mtx_kind i s = 0 then mtxatr (mtxcb_table s i) else mtxatr (mtxcb_table s i) OR TA_TPRI)"
  shows "mtx_make_wait i tmout s =
      gcb_make_wait OMtx i a tmout (tcb_upd t (\<lambda>c. c\<lparr>wspec := mtx_wspec (mtx_kind i s), wercd := E_TMOUT\<rparr>) s)"
    "has a TA_TPRI = (mtx_kind i s \<noteq> 0)"
proof -
  have h: "has a TA_NODISWAI = has (mtxatr (mtxcb_table s i)) TA_NODISWAI"
    by (simp add: a_def has_def TA_NODISWAI_def TA_TPRI_def bit.conj_disj_distrib2)
  have "mtxatr (mtxcb_table s i) AND TA_TPRI = (mtxatr (mtxcb_table s i) AND TA_CEILING) AND TA_TPRI"
    by (simp add: TA_TPRI_def TA_CEILING_def and.assoc)
  then have k: "mtx_kind i s = 0 \<Longrightarrow> mtxatr (mtxcb_table s i) AND TA_TPRI = 0" by (simp add: mtx_kind_def)
  show p: "has a TA_TPRI = (mtx_kind i s \<noteq> 0)"
    using k by (auto simp: a_def has_def TA_TPRI_def bit.conj_disj_distrib2)
  have m: "me s = t" using r by (rule runningD)
  have ew: "enter_wait a s' = enter_wait (mtxatr (mtxcb_table s i)) s'" for s' :: "'a mtx_st_scheme"
    by (simp add: enter_wait_def h)
  have mw: "make_wait tmout a s' = make_wait tmout (mtxatr (mtxcb_table s i)) s'" for s' :: "'a mtx_st_scheme"
    by (simp add: make_wait_def ew)
  show "mtx_make_wait i tmout s =
      gcb_make_wait OMtx i a tmout (tcb_upd t (\<lambda>c. c\<lparr>wspec := mtx_wspec (mtx_kind i s), wercd := E_TMOUT\<rparr>) s)"
    using p by (simp add: mtx_make_wait_def gcb_make_wait_def connect_wait_def Let_def m mw tcb_upd_twice i)
qed

lemma mtx_make_wait_sel:
  fixes s :: "'a mtx_st_scheme" and tmout :: int
  assumes r: "running t s" and k: "kinv s" and i: "mtxid (mtxcb_table s i) = i"
  defines "s' \<equiv> mtx_make_wait i tmout s"
  shows "kinv s'"
    "que s' (WaitQ kd j) = (if kd = OMtx \<and> j = i
       then (if mtx_kind i s = 0 then que s (WaitQ OMtx i) @ [t]
             else insert_before (\<lambda>u. priority (tcbs s u) > priority (tcbs s t)) t (que s (WaitQ OMtx i)))
       else que s (WaitQ kd j))"
    "tstate (tcbs s' u) = (if u = t then waiting (tstate (tcbs s t)) else tstate (tcbs s u))"
    "wspec (tcbs s' u) = (if u = t then mtx_wspec (mtx_kind i s) else wspec (tcbs s u))"
    "wid (tcbs s' u) = (if u = t then i else wid (tcbs s u))"
    "priority (tcbs s' u) = priority (tcbs s u)" "bpriority (tcbs s' u) = bpriority (tcbs s u)"
    "mtxlist (tcbs s' u) = mtxlist (tcbs s u)"
    "mtxcb_table s' = mtxcb_table s" "free_mtxcb s' = free_mtxcb s" "max_mtxid s' = max_mtxid s"
proof -
  define a where "a = (if mtx_kind i s = 0 then mtxatr (mtxcb_table s i) else mtxatr (mtxcb_table s i) OR TA_TPRI)"
  define s1 where "s1 = tcb_upd t (\<lambda>c. c\<lparr>wspec := mtx_wspec (mtx_kind i s), wercd := E_TMOUT\<rparr>) s"
  have eq: "s' = gcb_make_wait OMtx i a tmout s1" and p: "has a TA_TPRI = (mtx_kind i s \<noteq> 0)"
    using mtx_make_wait_eq [OF r i] by (simp_all add: s'_def s1_def a_def)
  have r1: "running t s1" using r by (simp add: running_def s1_def)
  have k1: "kinv s1" using k by (simp add: s1_def tcb_upd_kinv_same)
  note w = gcb_make_wait_kinv_x [OF k1 r1, of OMtx i a tmout] and f = gcb_make_wait_sel [OF r1, of OMtx i a tmout]
  show "kinv s'" using w(1) by (simp add: eq)
  have pr: "(\<lambda>u. priority (tcbs s1 u)) = (\<lambda>u. priority (tcbs s u))" by (rule ext) (simp add: s1_def)
  show "que s' (WaitQ kd j) = (if kd = OMtx \<and> j = i
       then (if mtx_kind i s = 0 then que s (WaitQ OMtx i) @ [t]
             else insert_before (\<lambda>u. priority (tcbs s u) > priority (tcbs s t)) t (que s (WaitQ OMtx i)))
       else que s (WaitQ kd j))"
    using w(2) p by (simp add: eq pr wait_order_def) (simp add: s1_def)
  show "mtxcb_table s' = mtxcb_table s" "free_mtxcb s' = free_mtxcb s" "max_mtxid s' = max_mtxid s"
    by (simp_all add: eq s1_def)
  show "tstate (tcbs s' u) = (if u = t then waiting (tstate (tcbs s t)) else tstate (tcbs s u))"
    "wspec (tcbs s' u) = (if u = t then mtx_wspec (mtx_kind i s) else wspec (tcbs s u))"
    "wid (tcbs s' u) = (if u = t then i else wid (tcbs s u))"
    "priority (tcbs s' u) = priority (tcbs s u)" "bpriority (tcbs s' u) = bpriority (tcbs s u)"
    "mtxlist (tcbs s' u) = mtxlist (tcbs s u)"
    by (simp_all add: eq f) (simp_all add: s1_def)
qed

lemma boosts_Union: "boosts I s = (\<Union>j \<in> I. boosts {j} s)"
  by (auto simp: boosts_def)

text \<open>The holder has been given the priority of the task that is about to wait.\<close>

abbreviation lends :: "ID \<Rightarrow> ID \<Rightarrow> ID \<Rightarrow> 'a mtx_st_scheme \<Rightarrow> ID \<Rightarrow> nat set" where
  "lends i h t s \<equiv> \<lambda>u. if u = h \<and> mtx_kind i s = TA_INHERIT then {priority (tcbs s t)} else {}"

lemma mtx_make_wait_ok:
  fixes s :: "'a mtx_st_scheme"
  assumes inv: "mtx_inv {} {} (lends i h t s) s" and r: "running t s" and ex: "mtx_exists i s"
    and h: "mtxtsk (mtxcb_table s i) = Some h" "h \<noteq> t"
  shows "mtx_ok (mtx_make_wait i tmout s)"
proof -
  let ?s' = "mtx_make_wait i tmout s"
  note d = mtx_invD [OF inv] and st = mtx_structD [OF mtx_invD(3) [OF inv]]
  note f = mtx_make_wait_sel [OF r d(1) st(8) [OF ex], of tmout]
  have nq: "t \<notin> set (que s (WaitQ OMtx j))" for j
    using not_wait_not_queued [OF d(1) runningD(2) [OF r]] .
  have e: "mtx_exists j ?s' = mtx_exists j s" "mtx_kind j ?s' = mtx_kind j s" "holds Z u ?s' = holds Z u s" for j Z u
    by (simp_all add: mtx_exists_def mtx_kind_def holds_def f)
  have q: "set (que ?s' (WaitQ OMtx j)) = (if j = i then insert t (set (que s (WaitQ OMtx i))) else set (que s (WaitQ OMtx j)))" for j
    by (auto simp: f)
  have al: "task_alive (tstate (tcbs ?s' u)) = task_alive (tstate (tcbs s u))" for u
    using r by (auto simp: f task_alive_iff waiting_def running_def)
  have ne: "tstate (tcbs ?s' u) \<noteq> TS_NONEXIST \<longleftrightarrow> tstate (tcbs s u) \<noteq> TS_NONEXIST" for u
    using r by (auto simp: f waiting_def running_def)
  have bo: "boosts (holds {} u s) ?s' = boosts (holds {} u s) s \<union> lends i h t s u" for u
  proof -
    have one: "boosts {j} ?s' = boosts {j} s \<union> (if j = i \<and> mtx_kind i s = TA_INHERIT then {priority (tcbs s t)} else {})" for j
      by (cases "j = i") (auto simp: boosts_def e f)
    have "i \<in> holds {} u s \<longleftrightarrow> u = h" using ex h by (auto simp: holds_def)
    then show ?thesis
      using boosts_Union [of "holds {} u s" ?s'] boosts_Union [of "holds {} u s" s] by (auto simp: one split: if_splits)
  qed
  have ef: "eff_pri {} no_extra u ?s' = eff_pri {} (lends i h t s) u s" for u
    by (simp add: eff_pri_def e bo f)
  have ml: "mlist ms p ?s' = mlist ms p s" for ms p by (rule mlist_cong) (simp add: f)
  have "mtx_struct {} ?s'"
  proof (rule mtx_structI)
    show "wspec (tcbs ?s' u) = mtx_wspec (mtx_kind j ?s') \<and> mtxtsk (mtxcb_table ?s' j) \<noteq> None \<and>
        mtxtsk (mtxcb_table ?s' j) \<noteq> Some u" if "u \<in> set (que ?s' (WaitQ OMtx j))" for j u
    proof (cases "u = t")
      case True
      then have "j = i" using that nq q [of j] by (auto split: if_splits)
      then show ?thesis using True h by (simp add: f e)
    next
      case False
      then have "u \<in> set (que s (WaitQ OMtx j))" using that q [of j] by (auto split: if_splits)
      then show ?thesis using False st(5-7) by (simp add: f e)
    qed
    show "sorted (map (\<lambda>u. priority (tcbs ?s' u)) (que ?s' (WaitQ OMtx j)))"
      if "mtx_exists j ?s'" "mtx_kind j ?s' \<noteq> 0" for j
      using st(10) [of j] that sorted_insert_before [of "\<lambda>u. priority (tcbs s u)" "que s (WaitQ OMtx j)" t]
      by (cases "j = i") (simp_all add: e f)
    show "u \<in> set (que ?s' (WaitQ OMtx (wid (tcbs ?s' u))))"
      if "in_wait (tstate (tcbs ?s' u))" "chg_pri_hook (wspec (tcbs ?s' u)) = Some H_mtx_chg_pri \<or>
        rel_wai_hook (wspec (tcbs ?s' u)) = Some H_mtx_rel_wai" for u
      using that st(12,15) [of u] by (cases "u = t") (auto simp: f q)
    show "que ?s' (WaitQ OMtx j) = []" if "\<not> mtx_exists j ?s'" for j
      using that st(3) [of j] ex by (auto simp: e f)
  qed (unfold e f(7-11) al ml; use st(1,2,8,9,11,13,14) in blast)+
  then show ?thesis
    using f(1) d(2,5) by (intro mtx_okI) (simp_all only: f(6) ef al ne, blast)
qed


section \<open>Lock\<close>

lemma sorted_hd_le: "sorted (map f xs) \<Longrightarrow> u \<in> set xs \<Longrightarrow> f (hd xs) \<le> f u"
  by (cases xs) auto

text \<open>Before the task waits, the holder gets its priority.\<close>

lemma lends_raised:
  fixes s :: "'a mtx_st_scheme"
  assumes ok: "mtx_ok s" and t: "task_alive (tstate (tcbs s t))" and h: "task_alive (tstate (tcbs s h))"
  shows "\<exists>s1. (if mtx_kind i s = TA_INHERIT \<and> priority (tcbs s h) > priority (tcbs s t)
      then change_priority h (priority (tcbs s t)) s else Some s) = Some s1 \<and>
    mtx_inv {} {} (lends i h t s) s1 \<and> mtx_keeps s1 s \<and> priority (tcbs s1 t) = priority (tcbs s t)"
proof -
  let ?p = "priority (tcbs s t)" and ?E = "lends i h t s"
  note d = mtx_okD [OF ok]
  let ?B = "insert (bpriority (tcbs s h)) (boosts (holds {} h s) s)"
  have mn: "Min (insert ?p ?B) = min ?p (Min ?B)"
    by (rule Min_insert) (simp_all add: finite_boosts finite_holds)
  have eh: "eff_pri {} ?E h s = (if mtx_kind i s = TA_INHERIT then min (priority (tcbs s h)) ?p else priority (tcbs s h))"
    using d(4) [OF h] mn by (simp add: eff_pri_def insert_commute min.commute)
  have eo: "eff_pri {} ?E u s = eff_pri {} no_extra u s" if "u \<noteq> h" for u using that by (simp add: eff_pri_def)
  have inv: "mtx_inv X {} ?E s" if "eff_pri {} ?E h s \<noteq> priority (tcbs s h) \<Longrightarrow> h \<in> X" for X
    unfolding mtx_inv_def
  proof (intro conjI allI impI)
    show "priority (tcbs s u) = eff_pri {} ?E u s" if "task_alive (tstate (tcbs s u))" "u \<notin> X" for u
      using d(4) [OF that(1)] that eo [of u] \<open>eff_pri {} ?E h s \<noteq> priority (tcbs s h) \<Longrightarrow> h \<in> X\<close> by metis
  qed (use d in auto)
  show ?thesis
  proof (cases "mtx_kind i s = TA_INHERIT \<and> priority (tcbs s h) > ?p")
    case True
    have pb: "?p < NUM_PRI" using kinv_xD(8) [OF d(1)] t by (auto simp: task_alive_iff)
    have "?p = eff_pri {} ?E h s" using eh True by simp
    then show ?thesis using change_raises [OF inv avoids_empty pb _ _ h] True by fastforce
  next
    case False
    then have "eff_pri {} ?E h s = priority (tcbs s h)" using eh by auto
    then show ?thesis using False inv [of "{}"] by (auto simp: mtx_keeps_refl)
  qed
qed

lemma tk_loc_mtx_u_ok:
  fixes s :: "'a mtx_st_scheme"
  assumes ok: "mtx_ok s" and r: "running t s"
  shows "\<exists>ret s'. tk_loc_mtx_u i tmout s = Some (ret, s') \<and> mtx_ok s' \<and>
    (if ret = Ret E_OK then mtxtsk (mtxcb_table s i) = None \<and> mtxtsk (mtxcb_table s' i) = Some t
     else if ret = Blocked then t \<in> set (que s' (WaitQ OMtx i)) \<and>
       (\<exists>h. mtxtsk (mtxcb_table s i) = Some h \<and> mtxtsk (mtxcb_table s' i) = Some h)
     else s' = s)"
proof -
  note d = mtx_okD [OF ok] and st = mtx_structD [OF mtx_okD(2) [OF ok]]
  have m: "me s = t" "ctxtsk s = Some t" using r by (simp_all add: running_def)
  have al: "task_alive (tstate (tcbs s t))" using r by (auto simp: running_def task_alive_iff)
  have nq: "t \<notin> set (que s (WaitQ OMtx j))" for j using not_wait_not_queued [OF d(1) runningD(2) [OF r]] .
  show ?thesis
  proof (cases "chk_id (max_mtxid s) i \<and> chk_tmout tmout \<and> \<not> in_ddsp s \<and> mtxid (mtxcb_table s i) \<noteq> 0 \<and>
      mtxtsk (mtxcb_table s i) \<noteq> ctxtsk s \<and>
      \<not> (mtx_kind i s = TA_CEILING \<and> bpriority (tcbs s t) < ceilpri (mtxcb_table s i)) \<and>
      \<not> is_diswai (mtxatr (mtxcb_table s i)) t TTW_MTX s \<and>
      (mtxtsk (mtxcb_table s i) \<noteq> None \<longrightarrow> tmout \<noteq> TMO_POL)")
    case False
    then have "\<exists>e. tk_loc_mtx_u i tmout s = Some (Ret e, s) \<and> e \<noteq> E_OK"
      by (auto simp: tk_loc_mtx_u_def Let_def m ercd_values split: option.splits)
    then show ?thesis using ok by auto
  next
    case True
    then have ex: "mtx_exists i s" by (simp add: mtx_exists_def)
    show ?thesis
    proof (cases "mtxtsk (mtxcb_table s i)")
      case None
      have q: "que s (WaitQ OMtx i) = []"
        using st(6) [of _ i] None by (metis list.set_intros(1) list.exhaust)
      note g = get_lock_inv [OF inv_unowned [OF ok [unfolded mtx_ok_def] None] ex al nq]
      have "\<exists>s'. raise_to_ceiling i t (get_lock i t s) = Some s' \<and> mtx_ok s' \<and> mtx_keeps s' (get_lock i t s)"
        by (rule raise_to_ceiling_ok [OF g(1)])
          (use al g(2) q in \<open>auto simp: boosts_def mtx_kind_def\<close>)
      then obtain s' where s': "raise_to_ceiling i t (get_lock i t s) = Some s'" "mtx_ok s'" "mtx_keeps s' (get_lock i t s)"
        by blast
      have "tk_loc_mtx_u i tmout s = Some (Ret E_OK, s')" using True None s'(1) by (auto simp: tk_loc_mtx_u_def Let_def m)
      then show ?thesis using s'(2) None by (intro exI [of _ "Ret E_OK"] exI [of _ s']) (simp add: mtx_keepsD(1) [OF s'(3)])
    next
      case (Some h)
      have ht: "h \<noteq> t" using True Some m by auto
      obtain s1 where s1: "(if mtx_kind i s = TA_INHERIT \<and> priority (tcbs s h) > priority (tcbs s t)
          then change_priority h (priority (tcbs s t)) s else Some s) = Some s1"
        "mtx_inv {} {} (lends i h t s) s1" "mtx_keeps s1 s" "priority (tcbs s1 t) = priority (tcbs s t)"
        using lends_raised [OF ok al st(11) [OF ex Some], of i] by blast
      note f = mtx_keepsD [OF s1(3)]
      have r1: "running t s1" using r f(13) f(14) [of t] by (auto simp: running_def)
      have "mtx_ok (mtx_make_wait i tmout s1)"
        by (rule mtx_make_wait_ok [OF _ r1 _ _ ht]) (use s1(2) ex Some in \<open>simp_all add: f s1(4) cong: if_cong\<close>)
      moreover have "tk_loc_mtx_u i tmout s = Some (Blocked, mtx_make_wait i tmout s1)"
        using True Some s1(1) by (auto simp: tk_loc_mtx_u_def Let_def m)
      moreover have "t \<in> set (que (mtx_make_wait i tmout s1) (WaitQ OMtx i))"
        "mtxcb_table (mtx_make_wait i tmout s1) = mtxcb_table s"
        using mtx_make_wait_sel(2,9) [OF r1 mtx_invD(1) [OF s1(2)]] st(8) [OF ex] by (auto simp: f)
      ultimately show ?thesis using Some by (intro exI [of _ Blocked] exI [of _ "mtx_make_wait i tmout s1"]) simp
    qed
  qed
qed


section \<open>Unlock\<close>

lemma avoids_set_list [simp]: "avoids Z t (set_list p v s) = avoids Z t s"
  by (simp add: avoids_def waits_for_def)

lemma avoids_running:
  assumes "kinv s" "\<not> in_wait (tstate (tcbs s t))"
  shows "avoids Z t s"
proof -
  have n: "t \<notin> set (que s (WaitQ OMtx j))" for j using not_wait_not_queued [OF assms] .
  then have "u = t" if "(t, u) \<in> (waits_for s)\<^sup>*" for u
    using that n by (auto elim: converse_rtranclE simp: waits_for_def)
  then show ?thesis using n unfolding avoids_def by blast
qed

lemma release_mutex_ok:
  fixes s :: "'a mtx_st_scheme"
  assumes ok: "mtx_ok s" and i: "mtx_exists i s" "mtxtsk (mtxcb_table s i) = Some t" and av: "avoids {i} t s"
  obtains p v s' where "release_mutex kernel_chg_hook t (Some i) s = Some s'" "mtx_inv {} {i} no_extra s'"
    "mtx_keeps s' (set_list p v s)"
    "s' = set_list p v s \<or> change_priority t (eff_pri {i} no_extra t (set_list p v s)) (set_list p v s) = Some s'"
proof -
  note st = mtx_structD [OF mtx_okD(2) [OF ok]]
  have al: "task_alive (tstate (tcbs s t))" by (rule st(11) [OF i])
  have "\<exists>p v. let s1 = set_list p v s in mtx_inv {t} {i} no_extra s1 \<and>
    release_mutex kernel_chg_hook t (Some i) s =
      (if eff_pri {i} no_extra t s1 \<noteq> priority (tcbs s1 t)
       then change_priority t (eff_pri {i} no_extra t s1) s1 else Some s1)"
    by (rule release_mutex_some [OF ok [unfolded mtx_ok_def] i])
  then obtain p v where pv: "mtx_inv {t} {i} no_extra (set_list p v s)"
    "release_mutex kernel_chg_hook t (Some i) s =
      (if eff_pri {i} no_extra t (set_list p v s) \<noteq> priority (tcbs (set_list p v s) t)
       then change_priority t (eff_pri {i} no_extra t (set_list p v s)) (set_list p v s) else Some (set_list p v s))"
    unfolding Let_def by blast
  show thesis
  proof (cases "eff_pri {i} no_extra t (set_list p v s) = priority (tcbs (set_list p v s) t)")
    case True
    then have "mtx_inv {} {i} no_extra (set_list p v s)" using pv(1) unfolding mtx_inv_def by auto
    then show ?thesis using that True pv(2) mtx_keeps_refl by metis
  next
    case False
    have "\<exists>s'. change_priority t (eff_pri {i} no_extra t (set_list p v s)) (set_list p v s) = Some s' \<and>
        mtx_inv {} {i} no_extra s' \<and> mtx_keeps s' (set_list p v s)"
      using al av by (intro change_priority_ok [OF pv(1)]) simp_all
    then show ?thesis using that False pv(2) by metis
  qed
qed

text \<open>A task that does not wait gets its new priority at once, and no queue changes.\<close>

lemma change_priority_direct:
  fixes s s' :: "'a mtx_st_scheme"
  assumes k: "kinv s" and w: "\<not> in_wait (tstate (tcbs s t))" and p: "p < NUM_PRI"
    and c: "change_priority t p s = Some s'"
  shows "que s' (WaitQ OMtx j) = que s (WaitQ OMtx j)"
proof (cases "tstate (tcbs s t) = TS_READY")
  case True
  obtain s'' where "change_priority t p s = Some s''" "\<And>i. que s'' (WaitQ OMtx i) = que s (WaitQ OMtx i)"
    using change_ready [OF k True p, of kernel_chg_hook] by blast
  then show ?thesis using c by simp
next
  case False
  then have "s' = tcb_upd t (\<lambda>c. c\<lparr>priority := p\<rparr>) s"
    using c w by (simp add: change_task_priority_o_def Let_def)
  then show ?thesis by simp
qed

lemma free_mutex_ok:
  fixes s :: "'a mtx_st_scheme"
  assumes inv: "mtx_inv {} {i} no_extra s" and q: "que s (WaitQ OMtx i) = []"
  shows "mtx_ok (upd_mtxcb i (\<lambda>c. c\<lparr>mtxtsk := None\<rparr>) s)"
proof -
  let ?s = "upd_mtxcb i (\<lambda>c. c\<lparr>mtxtsk := None\<rparr>) s"
  note d = mtx_invD [OF inv] and st = mtx_structD [OF mtx_invD(3) [OF inv]]
  have e: "mtx_exists j ?s = mtx_exists j s" "mtx_kind j ?s = mtx_kind j s" for j
    by (simp_all add: mtx_exists_def mtx_kind_def)
  have tb: "mtxid (mtxcb_table ?s j) = mtxid (mtxcb_table s j)" "ceilpri (mtxcb_table ?s j) = ceilpri (mtxcb_table s j)"
    "tcbs ?s = tcbs s" "que ?s = que s" "free_mtxcb ?s = free_mtxcb s" "max_mtxid ?s = max_mtxid s" for j by simp_all
  have h: "holds {} t ?s = holds {i} t s" for t by (auto simp: holds_def e split: if_splits)
  have b: "boosts I ?s = boosts I s" for I by (rule boosts_cong) (simp_all add: e)
  have ml: "mlist ms p ?s = mlist ms p s" for ms p by (rule mlist_cong) simp
  have ef: "eff_pri {} no_extra t ?s = eff_pri {i} no_extra t s" for t by (simp add: eff_pri_def h b)
  have "mtx_struct {} ?s"
  proof (rule mtx_structI)
    show "wspec (tcbs ?s t) = mtx_wspec (mtx_kind j ?s) \<and> mtxtsk (mtxcb_table ?s j) \<noteq> None \<and>
       mtxtsk (mtxcb_table ?s j) \<noteq> Some t" if "t \<in> set (que ?s (WaitQ OMtx j))" for j t
      using that q st(5-7) [of t j] by (cases "j = i") (auto simp: e)
    show "task_alive (tstate (tcbs ?s t))" if "mtx_exists j ?s" "mtxtsk (mtxcb_table ?s j) = Some t" for j t
      using that st(11) [of j t] by (auto simp: e split: if_splits)
    show "t \<in> set (que ?s (WaitQ OMtx (wid (tcbs ?s t))))"
      if "in_wait (tstate (tcbs ?s t))" "chg_pri_hook (wspec (tcbs ?s t)) = Some H_mtx_chg_pri \<or>
        rel_wai_hook (wspec (tcbs ?s t)) = Some H_mtx_rel_wai" for t
      using that st(12,15) [of t] by auto
  qed (unfold e h ml tb; use st(1-3,8-10,13,14) in blast)+
  then show ?thesis using d by (intro mtx_okI) (simp_all add: ef)
qed

lemma hand_over_ok:
  fixes s :: "'a mtx_st_scheme"
  assumes inv: "mtx_inv {} {i} no_extra s" and ex: "mtx_exists i s"
  shows "\<exists>s'. hand_over i s = Some s' \<and> mtx_ok s' \<and>
    mtxtsk (mtxcb_table s' i) = (case que s (WaitQ OMtx i) of [] \<Rightarrow> None | t # _ \<Rightarrow> Some t) \<and>
    (\<forall>t ts. que s (WaitQ OMtx i) = t # ts \<longrightarrow> \<not> in_wait (tstate (tcbs s' t))) \<and>
    (\<forall>j. j \<noteq> i \<longrightarrow> mtxcb_table s' j = mtxcb_table s j) \<and>
    mtxid (mtxcb_table s' i) = mtxid (mtxcb_table s i) \<and> max_mtxid s' = max_mtxid s"
proof (cases "que s (WaitQ OMtx i)")
  case Nil
  then show ?thesis using free_mutex_ok [OF inv Nil] by (simp add: hand_over_def)
next
  case (Cons t ts)
  note d = mtx_invD [OF inv] and st = mtx_structD [OF mtx_invD(3) [OF inv]]
  have tq: "t \<in> set (que s (WaitQ OMtx i))" using Cons by simp
  have w: "in_wait (tstate (tcbs s t))" using kinv_xD(5) [OF d(1) tq] by simp
  let ?s1 = "wait_release_ok t s" and ?s2 = "get_lock i t (wait_release_ok t s)"
  have l: "left_mtx t ?s1 s" by (rule left_mtx_release(2) [OF d(1) w])
  note f = left_mtxD [OF l w]
  have only: "j = i" if "t \<in> set (que s (WaitQ OMtx j))" for j
    using que_okD [OF kinv_xD(2) [OF d(1)] tq that] by simp
  have inv1: "mtx_inv {} {i} no_extra ?s1"
    by (rule left_inv [OF l inv rok.kinv [OF d(1) w] w]) (use only in \<open>auto simp: holds_def\<close>)
  have al: "task_alive (tstate (tcbs ?s1 t))" using f(10) released_alive [OF w] by simp
  have nq: "t \<notin> set (que ?s1 (WaitQ OMtx i))" by (simp add: f)
  note g = get_lock_inv [OF inv1 _ al nq]
  have ex1: "mtx_exists i ?s1" using ex by (simp add: f)
  have b: "boosts {i} ?s2 = boosts {i} ?s1" by (rule boosts_cong) (simp_all add: mtx_kind_def)
  have k: "mtx_kind i ?s2 = mtx_kind i s" by (simp add: mtx_kind_def)
  have hd: "priority (tcbs s t) \<le> priority (tcbs s u)" if "mtx_kind i s = TA_INHERIT" "u \<in> set (que s (WaitQ OMtx i))" for u
    using st(10) [OF ex] that Cons by auto
  have "\<exists>s'. raise_to_ceiling i t ?s2 = Some s' \<and> mtx_ok s' \<and> mtx_keeps s' ?s2"
    by (rule raise_to_ceiling_ok [OF g(1) [OF ex1]])
      (use al g(2) [OF ex1] hd b k in \<open>auto simp: f\<close>)
  then obtain s' where s': "raise_to_ceiling i t ?s2 = Some s'" "mtx_ok s'" "mtx_keeps s' ?s2" by blast
  note ff = mtx_keepsD [OF s'(3)]
  have "\<not> in_wait (tstate (tcbs s' t))" using ff(11) [of t] f(11) [of t] by auto
  then show ?thesis
    using s' Cons by (intro exI [of _ s']) (simp add: hand_over_def ff)
qed

lemma tk_unl_mtx_ok:
  fixes s :: "'a mtx_st_scheme"
  assumes ok: "mtx_ok s" and r: "running t s"
  shows "\<exists>e s'. tk_unl_mtx i s = Some (e, s') \<and> mtx_ok s' \<and>
    (e = E_OK \<longrightarrow> mtxtsk (mtxcb_table s i) = Some t \<and>
       mtxtsk (mtxcb_table s' i) = (case que s (WaitQ OMtx i) of [] \<Rightarrow> None | u # _ \<Rightarrow> Some u) \<and>
       (\<forall>u us. que s (WaitQ OMtx i) = u # us \<longrightarrow> \<not> in_wait (tstate (tcbs s' u)))) \<and>
    (e \<noteq> E_OK \<longrightarrow> s' = s)"
proof -
  note d = mtx_okD [OF ok] and st = mtx_structD [OF mtx_okD(2) [OF ok]]
  have m: "me s = t" "ctxtsk s = Some t" using r by (simp_all add: running_def)
  show ?thesis
  proof (cases "chk_id (max_mtxid s) i \<and> \<not> in_indp s \<and> mtxid (mtxcb_table s i) \<noteq> 0 \<and> mtxtsk (mtxcb_table s i) = ctxtsk s")
    case False
    then have "\<exists>e. tk_unl_mtx i s = Some (e, s) \<and> e \<noteq> E_OK" by (auto simp: tk_unl_mtx_def ercd_values)
    then show ?thesis using ok by blast
  next
    case True
    then have ex: "mtx_exists i s" and h: "mtxtsk (mtxcb_table s i) = Some t" using m by (simp_all add: mtx_exists_def)
    have nw: "\<not> in_wait (tstate (tcbs s t))" by (rule runningD(2) [OF r])
    show ?thesis
    proof (rule release_mutex_ok [OF ok ex h avoids_running [OF d(1) nw]])
      fix p v s1
      assume a: "release_mutex kernel_chg_hook t (Some i) s = Some s1" "mtx_inv {} {i} no_extra s1"
        "mtx_keeps s1 (set_list p v s)"
        "s1 = set_list p v s \<or> change_priority t (eff_pri {i} no_extra t (set_list p v s)) (set_list p v s) = Some s1"
      note f = mtx_keepsD [OF a(3)]
      have k: "kinv (set_list p v s)" "\<not> in_wait (tstate (tcbs (set_list p v s) t))" using d(1) nw by simp_all
      have pb: "eff_pri {i} no_extra t (set_list p v s) < NUM_PRI"
        using eff_pri_bound(1) [OF d(2) st(11) [OF ex h], of no_extra "{i}"] by simp
      have q: "que s1 (WaitQ OMtx i) = que s (WaitQ OMtx i)"
        using a(4) change_priority_direct [OF k pb] by auto
      have ex1: "mtx_exists i s1" using ex by (simp add: f)
      show ?thesis
        using hand_over_ok [OF a(2) ex1] True h m a(1) by (auto simp: tk_unl_mtx_def q)
    qed
  qed
qed


section \<open>Deletion\<close>

lemma delete_mutex_ok:
  fixes s :: "'a mtx_st_scheme" and i :: ID
  assumes inv: "mtx_inv {} {i} no_extra s" and ex: "mtx_exists i s"
  defines "w \<equiv> wait_delete OMtx i s"
  defines "s' \<equiv> upd_mtxcb i (\<lambda>c. c\<lparr>mtxid := 0\<rparr>) (w\<lparr>free_mtxcb := free_mtxcb w @ [i]\<rparr>)"
  shows "mtx_ok s'"
proof -
  note d = mtx_invD [OF inv] and st = mtx_structD [OF mtx_invD(3) [OF inv]]
  note wd = wait_delete_spec [OF d(1), of OMtx i, folded w_def]
  have tc: "tcbs s' = tcbs w" "que s' = que w" by (simp_all add: s'_def)
  note v = tcb_viewD [OF wd(6)]
  have tb: "mtxcb_table s' j = (if j = i then (mtxcb_table s i)\<lparr>mtxid := 0\<rparr> else mtxcb_table s j)"
    "max_mtxid s' = max_mtxid s" "free_mtxcb s' = free_mtxcb s @ [i]" for j
    by (simp_all add: s'_def w_def)
  have e: "mtx_exists j s' \<longleftrightarrow> j \<noteq> i \<and> mtx_exists j s" "mtx_kind j s' = mtx_kind j s"
    "holds {} t s' = holds {i} t s" for j t
    by (auto simp: mtx_exists_def mtx_kind_def holds_def tb)
  have q: "que s' (WaitQ OMtx j) = (if j = i then [] else que s (WaitQ OMtx j))" for j
    using wd(2) [of OMtx j] by (simp add: tc)
  have w: "in_wait (tstate (tcbs s u))" if "u \<in> set (que s (WaitQ OMtx i))" for u
    using kinv_xD(5) [OF d(1) that] by simp
  have ts: "in_wait (tstate (tcbs s' u)) \<longleftrightarrow> in_wait (tstate (tcbs s u)) \<and> u \<notin> set (que s (WaitQ OMtx i))"
    "task_alive (tstate (tcbs s' u)) = task_alive (tstate (tcbs s u))"
    "tstate (tcbs s' u) \<noteq> TS_NONEXIST \<longleftrightarrow> tstate (tcbs s u) \<noteq> TS_NONEXIST" for u
    using released_alive [OF w, of u] by (auto simp: tc wd(4) task_alive_iff)
  have tv: "wspec (tcbs s' u) = wspec (tcbs s u)" "priority (tcbs s' u) = priority (tcbs s u)"
    "bpriority (tcbs s' u) = bpriority (tcbs s u)" "wid (tcbs s' u) = wid (tcbs s u)"
    "mtxlist (tcbs s' u) = mtxlist (tcbs s u)" for u
    by (simp_all only: tc v)
  have ml: "mlist ms p s' = mlist ms p s" for ms p by (rule mlist_cong) (simp add: tb)
  have "boosts (holds {i} t s) s' = boosts (holds {i} t s) s" for t
    by (intro boosts_cong) (auto simp: e q tv tb holds_def)
  then have ef: "eff_pri {} no_extra t s' = eff_pri {i} no_extra t s" for t by (simp add: eff_pri_def e tv)
  have i0: "chk_id (max_mtxid s) i" "mtxid (mtxcb_table s i) \<noteq> 0" using ex by (simp_all add: mtx_exists_def)
  have "mtx_struct {} s'"
  proof (rule mtx_structI)
    show "distinct (free_mtxcb s')" using st(1) st(2) [of i] i0 by (simp add: tb)
    show "j \<in> set (free_mtxcb s') \<longleftrightarrow> chk_id (max_mtxid s') j \<and> mtxid (mtxcb_table s' j) = 0" for j
      using st(2) [of j] i0 by (auto simp: tb)
    show "t \<in> set (que s' (WaitQ OMtx (wid (tcbs s' t))))"
      if "in_wait (tstate (tcbs s' t))" "chg_pri_hook (wspec (tcbs s' t)) = Some H_mtx_chg_pri \<or>
        rel_wai_hook (wspec (tcbs s' t)) = Some H_mtx_rel_wai" for t
      using that st(12,15) [of t] by (auto simp: ts tv q)
    show "wspec (tcbs s' t) = mtx_wspec (mtx_kind j s') \<and> mtxtsk (mtxcb_table s' j) \<noteq> None \<and>
       mtxtsk (mtxcb_table s' j) \<noteq> Some t" if "t \<in> set (que s' (WaitQ OMtx j))" for j t
      using that st(5-7) [of t j] by (auto simp: e q tv tb split: if_splits)
  qed (use st(3,8-11,13,14) in \<open>simp only: e q tv tb ts(2) ml if_False simp_thms split: if_split; blast\<close>)+
  moreover have "kinv s'" using wd(1) by (simp add: s'_def)
  ultimately show ?thesis using d by (intro mtx_okI) (simp_all only: ts ef tv, blast+)
qed

lemma tk_del_mtx_ok:
  fixes s :: "'a mtx_st_scheme"
  assumes ok: "mtx_ok s"
    and av: "\<And>t. mtx_exists i s \<Longrightarrow> mtxtsk (mtxcb_table s i) = Some t \<Longrightarrow> avoids {i} t s"
  shows "\<exists>e s'. tk_del_mtx i s = Some (e, s') \<and> mtx_ok s'"
proof (cases "mtx_exists i s")
  case False
  then show ?thesis using ok by (auto simp: tk_del_mtx_def mtx_exists_def)
next
  case True
  then have i: "chk_id (max_mtxid s) i" "mtxid (mtxcb_table s i) \<noteq> 0" by (simp_all add: mtx_exists_def)
  show ?thesis
  proof (cases "mtxtsk (mtxcb_table s i)")
    case None
    then show ?thesis
      using delete_mutex_ok [OF inv_unowned [OF ok [unfolded mtx_ok_def] None] True] i
      by (simp add: tk_del_mtx_def Let_def)
  next
    case (Some t)
    show ?thesis
    proof (rule release_mutex_ok [OF ok True Some av [OF True Some]])
      fix p v s1
      assume a: "release_mutex kernel_chg_hook t (Some i) s = Some s1" "mtx_inv {} {i} no_extra s1"
        "mtx_keeps s1 (set_list p v s)"
      have "mtx_exists i s1" using True by (simp add: mtx_keepsD [OF a(3)])
      then show ?thesis using delete_mutex_ok [OF a(2)] i Some a(1) by (simp add: tk_del_mtx_def Let_def)
    qed
  qed
qed


section \<open>The end of a wait by force or by time\<close>

lemma rel_hook_ok:
  fixes s s1 :: "'a mtx_st_scheme"
  assumes ok: "mtx_ok s" and w: "in_wait (tstate (tcbs s t))" and l: "left_mtx t s1 s" and k: "kinv s1"
  shows "\<exists>s'. (case rel_wai_hook (wspec (tcbs s1 t)) of None \<Rightarrow> Some s1 | Some h \<Rightarrow> kernel_rel_hook h t s1) = Some s' \<and>
    mtx_ok s'"
proof -
  note d = mtx_okD [OF ok] and st = mtx_structD [OF mtx_okD(2) [OF ok]]
  note f = left_mtxD [OF l w]
  have inv: "mtx_inv {} {} no_extra s" using ok by (simp add: mtx_ok_def)
  have nw: "\<not> in_wait (tstate (tcbs s1 t))" by (simp add: f)
  have nq: "t \<notin> set (que s1 (WaitQ OMtx j))" for j by (simp add: f)
  show ?thesis
  proof (cases "rel_wai_hook (wspec (tcbs s t)) = Some H_mtx_rel_wai")
    case True
    define i where "i = wid (tcbs s t)"
    have q: "t \<in> set (que s (WaitQ OMtx i))" unfolding i_def by (rule st(15) [OF w True])
    obtain m where m: "mtxtsk (mtxcb_table s i) = Some m" using st(6) [OF q] by auto
    have am: "task_alive (tstate (tcbs s m))" by (rule st(11) [OF st(4) [OF q] m])
    have only: "j = i" if "t \<in> set (que s (WaitQ OMtx j))" for j
      using que_okD [OF kinv_xD(2) [OF d(1)] q that] by simp
    have inv1: "mtx_inv {m} {} no_extra s1"
    proof (rule left_inv [OF l inv k w])
      fix u j assume "j \<in> holds {} u s" "t \<in> set (que s (WaitQ OMtx j))"
      then show "u \<in> {m}" using only [of j] m by (simp add: holds_def)
    qed
    have eq: "(case rel_wai_hook (wspec (tcbs s1 t)) of None \<Rightarrow> Some s1 | Some h \<Rightarrow> kernel_rel_hook h t s1) =
        (if priority (tcbs s1 m) = priority (tcbs s1 t) then release_mutex kernel_chg_hook m None s1 else Some s1)"
      using True m by (simp add: f(4) kernel_rel_hook_def mtx_rel_wai_def f(1,7) i_def [symmetric])
    have ok1: "mtx_ok s1" if "eff_pri {} no_extra m s1 = priority (tcbs s1 m)"
      using inv1 that unfolding mtx_ok_def mtx_inv_def by auto
    show ?thesis
    proof (cases "priority (tcbs s1 m) = priority (tcbs s1 t)")
      case False
      then have "priority (tcbs s m) \<noteq> priority (tcbs s t)" by (simp add: f)
      then show ?thesis using ok1 left_holder [OF l w inv am] eq False by simp
    next
      case same: True
      have am1: "task_alive (tstate (tcbs s1 m))" using am by (simp add: f)
      have "release_mutex kernel_chg_hook m None s1 = (if eff_pri {} no_extra m s1 \<noteq> priority (tcbs s1 m)
          then change_priority m (eff_pri {} no_extra m s1) s1 else Some s1)"
        by (rule release_mutex_none [OF mtx_invD(3) [OF inv1] am1])
      moreover have "\<exists>s'. change_priority m (eff_pri {} no_extra m s1) s1 = Some s' \<and> mtx_inv {} {} no_extra s' \<and> mtx_keeps s' s1"
        by (rule change_priority_ok [OF inv1 avoids_empty am1])
      ultimately show ?thesis using ok1 eq same unfolding mtx_ok_def by auto
    qed
  next
    case False
    have "mtx_ok s1"
      unfolding mtx_ok_def
    proof (rule left_inv [OF l inv k w])
      fix u i assume "mtx_kind i s = TA_INHERIT" "t \<in> set (que s (WaitQ OMtx i))"
      then show "u \<in> {}" using st(5) False by (auto simp: mtx_wspec_def)
    qed
    moreover have "mtx_same (sem_rel_wai t s1) s1 \<and> kinv (sem_rel_wai t s1)"
      unfolding sem_rel_wai_def by (rule sem_chg_pri_same [OF k _ nq]) simp
    moreover have "mtx_same (mbf_rel_wai t s1) s1 \<and> kinv (mbf_rel_wai t s1)"
      unfolding mbf_rel_wai_def by (rule mbf_chg_pri_same [OF k _ nq]) simp
    moreover have "mtx_same (mpl_rel_wai t s1) s1 \<and> kinv (mpl_rel_wai t s1)"
      unfolding mpl_rel_wai_def by (rule mpl_chg_pri_same [OF k _ nq]) simp
    moreover have "rel_wai_hook (wspec (tcbs s1 t)) \<noteq> Some H_mtx_rel_wai" using False by (simp add: f)
    ultimately show ?thesis
      using mtx_same_ok by (auto simp: kernel_rel_hook_def split: option.split hook.split)
  qed
qed

lemma mtx_ok_set_wercd [simp]: "mtx_ok s \<Longrightarrow> mtx_ok (set_wercd t e s)"
  by (rule mtx_same_ok [of _ s]) (auto simp: mtx_same_def mtx_okD(1))

lemma kernel_wait_release_ng_ok:
  fixes s :: "'a mtx_st_scheme"
  assumes ok: "mtx_ok s" and w: "in_wait (tstate (tcbs s t))"
  shows "\<exists>s'. kernel_wait_release_ng t e s = Some s' \<and> mtx_ok s'"
proof -
  have k: "kinv s" using ok by (rule mtx_okD)
  have "\<exists>s'. (case rel_wai_hook (wspec (tcbs (wait_release t s) t)) of None \<Rightarrow> Some (wait_release t s)
      | Some h \<Rightarrow> kernel_rel_hook h t (wait_release t s)) = Some s' \<and> mtx_ok s'"
    by (rule rel_hook_ok [OF ok w left_mtx_release(1) [OF k w] wait_release_kinv_x [OF k w]])
  then show ?thesis by (auto simp: kernel_wait_release_ng_def Let_def simp del: wait_release_sel)
qed

lemma kernel_wait_release_tmout_ok:
  fixes s :: "'a mtx_st_scheme"
  assumes ok: "mtx_ok s" and w: "in_wait (tstate (tcbs s t))"
  shows "\<exists>s'. kernel_wait_release_tmout t s = Some s' \<and> mtx_ok s'"
  using rel_hook_ok [OF ok w left_mtx_tmout(1,2) [OF mtx_okD(1) [OF ok] w]]
  by (simp add: kernel_wait_release_tmout_def Let_def del: make_non_wait_sel)


section \<open>A change of the base priority\<close>

definition ceilings :: "ID list \<Rightarrow> 'a mtx_st_scheme \<Rightarrow> nat set" where
  "ceilings ms s = {p. \<exists>m \<in> set ms. mtx_kind m s = TA_CEILING \<and> p = ceilpri (mtxcb_table s m)}"

lemma ceilings_simps [simp]:
  "ceilings [] s = {}"
  "ceilings (m # ms) s =
     (if mtx_kind m s = TA_CEILING then insert (ceilpri (mtxcb_table s m)) (ceilings ms s) else ceilings ms s)"
  by (auto simp: ceilings_def)

lemma finite_ceilings: "finite (ceilings ms s)"
  by (induction ms) auto

lemma Max_insert_max: "finite A \<Longrightarrow> Max (insert (max a b) A) = Max (insert a (insert b A))" for a b :: nat
  by (cases "A = {}") (auto simp: max.assoc max.left_commute)

lemma chg_pri_loop_eq:
  "mlist ms p s \<Longrightarrow> n \<le> q \<Longrightarrow>
   chg_pri_loop p n low q s = Some (Min (insert n (set (limits ms s))), Max (insert low (ceilings ms s)))"
proof (induction ms arbitrary: p n low q)
  case Nil
  then show ?case by (simp add: chg_pri_loop.simps)
next
  case (Cons m ms)
  let ?q = "mtx_pri m q s" and ?c = "ceilpri (mtxcb_table s m)"
  let ?n = "if n > ?q then ?q else n"
  let ?low = "if mtx_kind m s = TA_CEILING \<and> ?q > low then ?q else low"
  have "chg_pri_loop p n low q s = chg_pri_loop (mtx_link (mtxcb_table s m)) ?n ?low ?q s"
    using Cons.prems(1) by (subst chg_pri_loop.simps) (simp add: Let_def)
  also have "\<dots> = Some (Min (insert ?n (set (limits ms s))), Max (insert ?low (ceilings ms s)))"
    using Cons.prems limit_step(1) [OF Cons.prems(2)] by (intro Cons.IH) auto
  also have "?low = (if mtx_kind m s = TA_CEILING then max low ?c else low)"
    by (auto simp: mtx_pri_def)
  also have "Max (insert \<dots> (ceilings ms s)) = Max (insert low (ceilings (m # ms) s))"
    by (simp add: Max_insert_max finite_ceilings)
  finally show ?case unfolding limit_step(2) [OF Cons.prems(2)] .
qed

text \<open>What \<open>chg_pri_mutex\<close> answers: \<open>E_ILUSE\<close> if a ceiling would be passed, otherwise the priority
  the task is entitled to with the new base priority.\<close>

definition passes_ceiling :: "ID \<Rightarrow> nat \<Rightarrow> 'a mtx_st_scheme \<Rightarrow> bool" where
  "passes_ceiling t pri s \<longleftrightarrow>
     (\<exists>i \<in> holds {} t s. mtx_kind i s = TA_CEILING \<and> pri < ceilpri (mtxcb_table s i)) \<or>
     (in_wait (tstate (tcbs s t)) \<and> has (tskwait (wspec (tcbs s t))) TTW_MTX \<and>
      mtx_kind (wid (tcbs s t)) s = TA_CEILING \<and> pri < ceilpri (mtxcb_table s (wid (tcbs s t))))"

abbreviation set_base :: "ID \<Rightarrow> nat \<Rightarrow> 'a kst_scheme \<Rightarrow> 'a kst_scheme" where
  "set_base t pri \<equiv> tcb_upd t (\<lambda>c. c\<lparr>bpriority := pri\<rparr>)"

lemma set_base_eqs [simp]:
  "mtx_exists i (set_base t pri s) = mtx_exists i s" "mtx_kind i (set_base t pri s) = mtx_kind i s"
  "holds Z u (set_base t pri s) = holds Z u s" "kinv (set_base t pri s) = kinv s"
  by (simp_all add: mtx_exists_def mtx_kind_def holds_def tcb_upd_kinv_same)

lemma set_base_boosts [simp]:
  "boosts I (set_base t pri s) = boosts I s" "mlist ms p (set_base t pri s) = mlist ms p s"
  by (rule boosts_cong; simp) (rule mlist_cong, simp)

lemma chg_pri_mutex_eq:
  fixes s :: "'a mtx_st_scheme"
  assumes ok: "mtx_ok s" and t: "task_alive (tstate (tcbs s t))"
  shows "chg_pri_mutex t pri s =
    Some (if passes_ceiling t pri s then E_ILUSE else int (eff_pri {} no_extra t (set_base t pri s)))"
proof -
  note st = mtx_okD(2) [OF ok]
  let ?w = "wid (tcbs s t)"
  define low where "low = (if in_wait (tstate (tcbs s t)) \<and> has (tskwait (wspec (tcbs s t))) TTW_MTX \<and>
      mtx_kind ?w s = TA_CEILING \<and> ceilpri (mtxcb_table s ?w) > 0 then ceilpri (mtxcb_table s ?w) else 0)"
  obtain ms where ms: "mlist ms (mtxlist (tcbs s t)) s" "set ms = holds {} t s"
    using mtx_structD(14) [OF st t] by blast
  have ex: "set ms \<subseteq> {i. mtx_exists i s}" by (auto simp: ms(2) holds_def)
  have "chg_pri_loop (mtxlist (tcbs s t)) pri low pri s =
      Some (Min (insert pri (set (limits ms s))), Max (insert low (ceilings ms s)))"
    using ms(1) by (intro chg_pri_loop_eq) simp_all
  moreover have "Min (insert pri (set (limits ms s))) = eff_pri {} no_extra t (set_base t pri s)"
    using limit_boosts [OF st ex, of pri] by (simp add: eff_pri_def ms(2))
  moreover have "pri < Max (insert low (ceilings ms s)) \<longleftrightarrow> pri < low \<or> (\<exists>c \<in> ceilings ms s. pri < c)"
    by (subst Max_gr_iff) (auto simp: finite_ceilings)
  moreover have "pri < low \<or> (\<exists>c \<in> ceilings ms s. pri < c) \<longleftrightarrow> passes_ceiling t pri s"
    by (auto simp: low_def passes_ceiling_def ceilings_def ms(2))
  ultimately show ?thesis by (simp add: chg_pri_mutex_def Let_def low_def [symmetric])
qed

lemma set_base_inv:
  fixes s :: "'a mtx_st_scheme"
  assumes ok: "mtx_ok s" and p: "pri < NUM_PRI"
  shows "mtx_inv {t} {} no_extra (set_base t pri s)"
proof -
  note d = mtx_okD [OF ok] and st = mtx_structD [OF mtx_okD(2) [OF ok]]
  let ?s = "set_base t pri s"
  have f: "wspec (tcbs ?s u) = wspec (tcbs s u)" "priority (tcbs ?s u) = priority (tcbs s u)"
    "wid (tcbs ?s u) = wid (tcbs s u)" "mtxlist (tcbs ?s u) = mtxlist (tcbs s u)"
    "tstate (tcbs ?s u) = tstate (tcbs s u)" "que ?s = que s" "mtxcb_table ?s = mtxcb_table s"
    "free_mtxcb ?s = free_mtxcb s" "max_mtxid ?s = max_mtxid s" for u by simp_all
  have "mtx_struct {} ?s"
  proof (rule mtx_structI)
    show "bpriority (tcbs ?s u) < NUM_PRI" if "task_alive (tstate (tcbs ?s u))" for u
      using that st(13) [of u] p by (cases "u = t") simp_all
    show "\<exists>ms. mlist ms (mtxlist (tcbs ?s u)) ?s \<and> distinct ms \<and> set ms = holds {} u ?s"
      if "task_alive (tstate (tcbs ?s u))" for u
      using st(14) [of u] that unfolding f set_base_eqs set_base_boosts by blast
  qed (unfold f set_base_eqs; use st(1-12,15) in blast)+
  moreover have "priority (tcbs s u) = eff_pri {} no_extra u ?s" if "task_alive (tstate (tcbs s u))" "u \<noteq> t" for u
    using d(4) [OF that(1)] that(2) by (simp add: eff_pri_def)
  ultimately show ?thesis unfolding mtx_inv_def f using d by auto
qed


text \<open>The part of \<open>_tk_chg_pri\<close> (\<open>task_manage.c\<close>) that follows its checks.\<close>

definition change_base_priority :: "ID \<Rightarrow> nat \<Rightarrow> 'a mtx_st_scheme \<Rightarrow> (ER \<times> 'a mtx_st_scheme) option" where
  "change_base_priority t pri s =
     (case chg_pri_mutex t pri s of
        None \<Rightarrow> None
      | Some e \<Rightarrow> if e < E_OK then Some (e, s)
                  else map_option (Pair E_OK) (change_priority t (nat e) (set_base t (nat (int pri mod 256)) s)))"

lemma change_base_priority_ok:
  fixes s :: "'a mtx_st_scheme"
  assumes ok: "mtx_ok s" and t: "task_alive (tstate (tcbs s t))" and p: "pri < NUM_PRI"
  shows "\<exists>e s'. change_base_priority t pri s = Some (e, s') \<and> mtx_ok s' \<and>
    (if passes_ceiling t pri s then e = E_ILUSE \<and> s' = s else e = E_OK \<and> mtx_keeps s' (set_base t pri s))"
proof (cases "passes_ceiling t pri s")
  case True
  then show ?thesis using chg_pri_mutex_eq [OF ok t, of pri] ok by (simp add: change_base_priority_def ercd_values)
next
  case False
  let ?s = "set_base t pri s"
  have "int pri mod 256 = int pri" using p by (simp add: NUM_PRI_def)
  moreover have "\<exists>s'. change_priority t (eff_pri {} no_extra t ?s) ?s = Some s' \<and> mtx_inv {} {} no_extra s' \<and> mtx_keeps s' ?s"
    using t by (intro change_priority_ok [OF set_base_inv [OF ok p]]) simp_all
  ultimately show ?thesis
    using False chg_pri_mutex_eq [OF ok t, of pri] by (auto simp: change_base_priority_def ercd_values mtx_ok_def)
qed

section \<open>All steps\<close>

inductive mtx_step :: "'a mtx_st_scheme \<Rightarrow> 'a mtx_st_scheme \<Rightarrow> bool" where
  cre: "mtx_step s (snd (tk_cre_mtx pk s))"
| del: "(\<And>t. mtx_exists i s \<Longrightarrow> mtxtsk (mtxcb_table s i) = Some t \<Longrightarrow> avoids {i} t s) \<Longrightarrow>
    tk_del_mtx i s = Some (e, s') \<Longrightarrow> mtx_step s s'"
| loc: "running (me s) s \<Longrightarrow> tk_loc_mtx i tmout s = Some (ret, s') \<Longrightarrow> mtx_step s s'"
| loc_u: "running (me s) s \<Longrightarrow> tk_loc_mtx_u i tmout s = Some (ret, s') \<Longrightarrow> mtx_step s s'"
| unl: "running (me s) s \<Longrightarrow> tk_unl_mtx i s = Some (e, s') \<Longrightarrow> mtx_step s s'"
| release: "in_wait (tstate (tcbs s t)) \<Longrightarrow> kernel_wait_release_ng t e s = Some s' \<Longrightarrow> mtx_step s s'"
| timeout: "in_wait (tstate (tcbs s t)) \<Longrightarrow> kernel_wait_release_tmout t s = Some s' \<Longrightarrow> mtx_step s s'"
| chg_pri: "task_alive (tstate (tcbs s t)) \<Longrightarrow> pri < NUM_PRI \<Longrightarrow>
    change_base_priority t pri s = Some (e, s') \<Longrightarrow> mtx_step s s'"
| dispatch: "mtx_step s (s\<lparr>ctxtsk := schedtsk s\<rparr>)"

lemma mtx_ok_dispatch: "mtx_ok s \<Longrightarrow> mtx_ok (s\<lparr>ctxtsk := x\<rparr>)"
proof -
  assume ok: "mtx_ok s"
  let ?s = "s\<lparr>ctxtsk := x\<rparr>"
  have e: "mtx_exists i ?s = mtx_exists i s" "mtx_kind i ?s = mtx_kind i s" "holds Z u ?s = holds Z u s"
    "boosts I ?s = boosts I s" "eff_pri Z E u ?s = eff_pri Z E u s" for i Z u I E
    by (simp_all add: mtx_exists_def mtx_kind_def holds_def boosts_def eff_pri_def)
  have m: "mlist ms p ?s = mlist ms p s" for ms p by (rule mlist_cong) simp
  have "mtx_struct {} ?s" using mtx_okD(2) [OF ok] by (simp add: mtx_struct_def e m)
  then show ?thesis using mtx_okD(1,3,4) [OF ok] by (intro mtx_okI) (simp_all add: e)
qed

lemma mtx_step_ok: "mtx_step s s' \<Longrightarrow> mtx_ok s \<Longrightarrow> mtx_ok s'"
proof (induction rule: mtx_step.induct)
  case (del i s e s')
  then show ?case using tk_del_mtx_ok [OF del.prems del.hyps(1)] by auto
next
  case (loc s i tmout ret s')
  then show ?case using tk_loc_mtx_u_ok [OF loc.prems loc.hyps(1), of i "to_usec_tmo tmout"] by (auto simp: tk_loc_mtx_def)
next
  case (loc_u s i tmout ret s')
  then show ?case using tk_loc_mtx_u_ok [OF loc_u.prems loc_u.hyps(1), of i tmout] by auto
next
  case (unl s i e s')
  then show ?case using tk_unl_mtx_ok [OF unl.prems unl.hyps(1), of i] by auto
next
  case (release s t e s')
  then show ?case using kernel_wait_release_ng_ok [OF release.prems release.hyps(1), of e] by auto
next
  case (timeout s t s')
  then show ?case using kernel_wait_release_tmout_ok [OF timeout.prems timeout.hyps(1)] by auto
next
  case (chg_pri s t pri e s')
  then show ?case using change_base_priority_ok [OF chg_pri.prems chg_pri.hyps(1,2)] by auto
qed (simp_all add: tk_cre_mtx_ok mtx_ok_dispatch)

lemma mtx_steps_ok: "mtx_step\<^sup>*\<^sup>* s s' \<Longrightarrow> mtx_ok s \<Longrightarrow> mtx_ok s'"
  by (induction rule: rtranclp_induct) (auto intro: mtx_step_ok)


lemma inherits:
  assumes ok: "mtx_ok s" and q: "t \<in> set (que s (WaitQ OMtx i))" and h: "mtxtsk (mtxcb_table s i) = Some h"
    and k: "mtx_kind i s = TA_INHERIT"
  shows "priority (tcbs s h) \<le> priority (tcbs s t)"
proof -
  note st = mtx_structD [OF mtx_okD(2) [OF ok]]
  have ex: "mtx_exists i s" by (rule st(4) [OF q])
  have "priority (tcbs s t) \<in> boosts (holds {} h s) s" using ex q h k by (auto simp: boosts_def holds_def)
  then have "eff_pri {} no_extra h s \<le> priority (tcbs s t)"
    unfolding eff_pri_def by (intro Min_le) (auto simp: finite_boosts finite_holds)
  then show ?thesis using mtx_okD(4) [OF ok st(11) [OF ex h]] by simp
qed

end
