(* ===== verification/Task_Sync.thy ===== *)
theory Task_Sync
  imports Wait
begin

text \<open>
  Task-dependent synchronisation (\<open>task_sync.c\<close>): suspending and resuming tasks, sleeping and
  waking up, task events. The invariant \<open>sync_ok\<close> says that suspensions are counted, that no
  task sleeps while a wakeup is stored, and none waits for an event that is already set.
\<close>

section \<open>Checks of \<open>check.h\<close> on tasks\<close>

definition TSK_SELF :: ID where "TSK_SELF = 0"

definition DDS_DISABLE :: int where "DDS_DISABLE = 2"

definition check_tskid :: "ID \<Rightarrow> 'a kst_scheme \<Rightarrow> ER" where
  "check_tskid t s =
     (if \<not> in_indp s \<and> t = TSK_SELF then E_OBJ else if \<not> chk_id (max_tskid s) t then E_ID else E_OK)"

definition chk_tskid_self :: "ID \<Rightarrow> 'a kst_scheme \<Rightarrow> bool" where
  "chk_tskid_self t s \<longleftrightarrow> \<not> in_indp s \<and> t = TSK_SELF \<or> chk_id (max_tskid s) t"

definition get_tcb_self :: "ID \<Rightarrow> 'a kst_scheme \<Rightarrow> ID" where
  "get_tcb_self t s = (if t = TSK_SELF then me s else t)"

text \<open>\<open>CHECK_TSKID\<close> followed by \<open>CHECK_NONSELF\<close>.\<close>

definition check_other :: "ID \<Rightarrow> 'a kst_scheme \<Rightarrow> ER" where
  "check_other t s =
     (if check_tskid t s \<noteq> E_OK then check_tskid t s
      else if \<not> in_indp s \<and> t = me s then E_OBJ else E_OK)"

definition dead_error :: "tstat \<Rightarrow> ER" where
  "dead_error st = (if st = TS_NONEXIST then E_NOEXS else E_OBJ)"

section \<open>Suspension\<close>

definition tk_sus_tsk :: "ID \<Rightarrow> 'a kst_scheme \<Rightarrow> ER \<times> 'a kst_scheme" where
  "tk_sus_tsk t s =
     (if check_other t s \<noteq> E_OK then (check_other t s, s)
      else
        (let state = tstate (tcbs s t)
         in if \<not> task_alive state then (dead_error state, s)
            else if Some t = ctxtsk s \<and> dispatch_disabled s \<ge> DDS_DISABLE then (E_CTX, s)
            else if suscnt (tcbs s t) = INT_MAX then (E_QOVR, s)
            else
              (let s1 = tcb_upd t (\<lambda>c. c\<lparr>suscnt := suscnt c + 1\<rparr>) s
               in (E_OK,
                   if state = TS_READY then tcb_upd t (\<lambda>c. c\<lparr>tstate := TS_SUSPEND\<rparr>) (make_non_ready t s1)
                   else if state = TS_WAIT then tcb_upd t (\<lambda>c. c\<lparr>tstate := TS_WAITSUS\<rparr>) s1
                   else s1))))"

definition tk_rsm_tsk :: "ID \<Rightarrow> 'a kst_scheme \<Rightarrow> ER \<times> 'a kst_scheme" where
  "tk_rsm_tsk t s =
     (if check_other t s \<noteq> E_OK then (check_other t s, s)
      else
        (case tstate (tcbs s t) of
           TS_NONEXIST \<Rightarrow> (E_NOEXS, s)
         | TS_SUSPEND \<Rightarrow>
             (let s1 = tcb_upd t (\<lambda>c. c\<lparr>suscnt := suscnt c - 1\<rparr>) s
              in (E_OK, if suscnt (tcbs s1 t) = 0 then make_ready t s1 else s1))
         | TS_WAITSUS \<Rightarrow>
             (let s1 = tcb_upd t (\<lambda>c. c\<lparr>suscnt := suscnt c - 1\<rparr>) s
              in (E_OK, if suscnt (tcbs s1 t) = 0 then tcb_upd t (\<lambda>c. c\<lparr>tstate := TS_WAIT\<rparr>) s1 else s1))
         | _ \<Rightarrow> (E_OBJ, s)))"

definition tk_frsm_tsk :: "ID \<Rightarrow> 'a kst_scheme \<Rightarrow> ER \<times> 'a kst_scheme" where
  "tk_frsm_tsk t s =
     (if check_other t s \<noteq> E_OK then (check_other t s, s)
      else
        (case tstate (tcbs s t) of
           TS_NONEXIST \<Rightarrow> (E_NOEXS, s)
         | TS_SUSPEND \<Rightarrow> (E_OK, make_ready t (tcb_upd t (\<lambda>c. c\<lparr>suscnt := 0\<rparr>) s))
         | TS_WAITSUS \<Rightarrow> (E_OK, tcb_upd t (\<lambda>c. c\<lparr>tstate := TS_WAIT\<rparr>) (tcb_upd t (\<lambda>c. c\<lparr>suscnt := 0\<rparr>) s))
         | _ \<Rightarrow> (E_OBJ, s)))"

section \<open>Sleep and wakeup\<close>

definition wspec_slp :: wspec where
  "wspec_slp = \<lparr>tskwait = TTW_SLP, chg_pri_hook = None, rel_wai_hook = None\<rparr>"

text \<open>The common end of the calls in which the caller waits for no object.\<close>

definition self_wait :: "wspec \<Rightarrow> int \<Rightarrow> 'a kst_scheme \<Rightarrow> 'a kst_scheme" where
  "self_wait w tmout s =
     make_wait tmout 0 (tcb_upd (me s) (\<lambda>c. c\<lparr>wspec := w, wid := 0, wercd := E_TMOUT\<rparr>) s)"

definition tk_slp_tsk_u :: "int \<Rightarrow> 'a kst_scheme \<Rightarrow> sysret \<times> 'a kst_scheme" where
  "tk_slp_tsk_u tmout s =
     (if \<not> chk_tmout tmout then (Ret E_PAR, s)
      else if in_ddsp s then (Ret E_CTX, s)
      else if has (waitmask (tcbs s (me s))) TTW_SLP then (Ret E_DISWAI, s)
      else if wupcnt (tcbs s (me s)) > 0
           then (Ret E_OK, tcb_upd (me s) (\<lambda>c. c\<lparr>wupcnt := wupcnt c - 1\<rparr>) s)
      else if tmout = TMO_POL then (Ret E_TMOUT, s)
      else (Blocked, self_wait wspec_slp tmout s))"

definition tk_slp_tsk :: "int \<Rightarrow> 'a kst_scheme \<Rightarrow> sysret \<times> 'a kst_scheme" where
  "tk_slp_tsk tmout s = tk_slp_tsk_u (to_usec_tmo tmout) s"

definition tk_wup_tsk :: "ID \<Rightarrow> 'a kst_scheme \<Rightarrow> ER \<times> 'a kst_scheme" where
  "tk_wup_tsk t s =
     (if check_other t s \<noteq> E_OK then (check_other t s, s)
      else
        (let state = tstate (tcbs s t)
         in if \<not> task_alive state then (dead_error state, s)
            else if in_wait state \<and> wspec (tcbs s t) = wspec_slp then (E_OK, wait_release_ok t s)
            else if wupcnt (tcbs s t) = INT_MAX then (E_QOVR, s)
            else (E_OK, tcb_upd t (\<lambda>c. c\<lparr>wupcnt := wupcnt c + 1\<rparr>) s)))"

definition tk_can_wup :: "ID \<Rightarrow> 'a kst_scheme \<Rightarrow> int \<times> 'a kst_scheme" where
  "tk_can_wup tskid s =
     (if \<not> chk_tskid_self tskid s then (E_ID, s)
      else
        (let t = get_tcb_self tskid s
         in case tstate (tcbs s t) of
              TS_NONEXIST \<Rightarrow> (E_NOEXS, s)
            | TS_DORMANT \<Rightarrow> (E_OBJ, s)
            | _ \<Rightarrow> (wupcnt (tcbs s t), tcb_upd t (\<lambda>c. c\<lparr>wupcnt := 0\<rparr>) s)))"

section \<open>Task events\<close>

definition toTTW :: "UINT \<Rightarrow> UINT" where
  "toTTW evtmask = push_bit 16 evtmask"

definition wspec_tev :: "UINT \<Rightarrow> wspec" where
  "wspec_tev waiptn = \<lparr>tskwait = toTTW waiptn, chg_pri_hook = None, rel_wai_hook = None\<rparr>"

definition tk_wai_tev_u :: "int \<Rightarrow> int \<Rightarrow> 'a kst_scheme \<Rightarrow> sysret \<times> 'a kst_scheme" where
  "tk_wai_tev_u waiptn tmout s =
     (let w = word_of_int waiptn :: UINT; t = me s
      in if \<not> chk_tmout tmout then (Ret E_PAR, s)
         else if \<not> (w AND NOT 0xFF = 0 \<and> w AND 0xFF \<noteq> 0) then (Ret E_PAR, s)
         else if in_ddsp s then (Ret E_CTX, s)
         else if has (waitmask (tcbs s t)) (toTTW w) then (Ret E_DISWAI, s)
         else if has (ucast (tskevt (tcbs s t))) w
              then (Ret (uint (tskevt (tcbs s t))),
                    tcb_upd t (\<lambda>c. c\<lparr>tskevt := ucast (ucast (tskevt c) AND NOT w)\<rparr>) s)
         else if tmout = TMO_POL then (Ret E_TMOUT, s)
         else (Blocked, self_wait (wspec_tev w) tmout s))"

definition tk_wai_tev :: "int \<Rightarrow> int \<Rightarrow> 'a kst_scheme \<Rightarrow> sysret \<times> 'a kst_scheme" where
  "tk_wai_tev waiptn tmout s = tk_wai_tev_u waiptn (to_usec_tmo tmout) s"

definition tk_sig_tev :: "ID \<Rightarrow> int \<Rightarrow> 'a kst_scheme \<Rightarrow> ER \<times> 'a kst_scheme" where
  "tk_sig_tev tskid evt s =
     (if \<not> chk_tskid_self tskid s then (E_ID, s)
      else if \<not> (1 \<le> evt \<and> evt \<le> 8) then (E_PAR, s)
      else
        (let evtmsk = push_bit (nat (evt - 1)) 1 :: UINT;
             t = get_tcb_self tskid s;
             state = tstate (tcbs s t)
         in if \<not> task_alive state then (dead_error state, s)
            else if in_wait state \<and> has (tskwait (wspec (tcbs s t))) (toTTW evtmsk)
                 then (E_OK, wait_release_ok_ercd t (uint (ucast (tskevt (tcbs s t)) OR evtmsk)) s)
            else (E_OK, tcb_upd t (\<lambda>c. c\<lparr>tskevt := ucast (ucast (tskevt c) OR evtmsk)\<rparr>) s)))"


section \<open>The invariant\<close>

definition sync_tcb :: "tcb \<Rightarrow> bool" where
  "sync_tcb c \<longleftrightarrow>
     0 \<le> suscnt c \<and> suscnt c \<le> INT_MAX \<and>
     (suscnt c > 0 \<longleftrightarrow> tstate c = TS_SUSPEND \<or> tstate c = TS_WAITSUS) \<and>
     0 \<le> wupcnt c \<and> wupcnt c \<le> INT_MAX \<and>
     (in_wait (tstate c) \<longrightarrow> (wspec c = wspec_slp \<longrightarrow> wupcnt c = 0) \<and>
        \<not> has (tskwait (wspec c)) (toTTW (ucast (tskevt c))))"

definition sync_ok :: "'a kst_scheme \<Rightarrow> bool" where
  "sync_ok s \<longleftrightarrow> kinv s \<and> sched_ok s \<and> (\<forall>t. task_alive (tstate (tcbs s t)) \<longrightarrow> sync_tcb (tcbs s t))"

definition sync_view where
  "sync_view c = (tstate c, suscnt c, wupcnt c, wspec c, tskevt c)"

lemma sync_viewD:
  assumes "sync_view c = sync_view d"
  shows "tstate c = tstate d" "suscnt c = suscnt d" "wupcnt c = wupcnt d" "wspec c = wspec d" "tskevt c = tskevt d"
  using assms by (simp_all add: sync_view_def)

lemma sync_tcb_cong: "sync_view c = sync_view d \<Longrightarrow> sync_tcb c = sync_tcb d"
  by (simp add: sync_tcb_def sync_view_def)

lemma sync_okD:
  assumes "sync_ok s"
  shows "kinv s" "sched_ok s" "task_alive (tstate (tcbs s t)) \<Longrightarrow> sync_tcb (tcbs s t)"
  using assms by (auto simp: sync_ok_def)

lemma sync_okI:
  assumes ok: "sync_ok s" and k: "kinv s'" and sc: "sched_ok s'"
    and o: "\<And>u. u \<noteq> t \<Longrightarrow> sync_view (tcbs s' u) = sync_view (tcbs s u)"
    and t: "task_alive (tstate (tcbs s' t)) \<Longrightarrow> sync_tcb (tcbs s' t)"
  shows "sync_ok s'"
  unfolding sync_ok_def
proof (intro conjI allI impI k sc)
  fix u assume u: "task_alive (tstate (tcbs s' u))"
  show "sync_tcb (tcbs s' u)"
  proof (cases "u = t")
    case False
    note v = o [OF False]
    have "task_alive (tstate (tcbs s u))" using u sync_viewD(1) [OF v] by simp
    then show ?thesis using sync_okD(3) [OF ok] sync_tcb_cong [OF v] by simp
  qed (use t u in simp)
qed

lemma sync_view_frame [simp]:
  "u \<noteq> t \<Longrightarrow> sync_view (tcbs (make_ready t s) u) = sync_view (tcbs s u)"
  "sync_view (tcbs (make_non_ready t s) u) = sync_view (tcbs s u)"
  "u \<noteq> t \<Longrightarrow> sync_view (tcbs (tcb_upd t f s) u) = sync_view (tcbs s u)"
  "u \<noteq> t \<Longrightarrow> sync_view (tcbs (make_non_wait t s) u) = sync_view (tcbs s u)"
  "u \<noteq> t \<Longrightarrow> sync_view (tcbs (wait_release t s) u) = sync_view (tcbs s u)"
  "u \<noteq> t \<Longrightarrow> sync_view (tcbs (wait_release_ok t s) u) = sync_view (tcbs s u)"
  "u \<noteq> t \<Longrightarrow> sync_view (tcbs (wait_release_ok_ercd t e s) u) = sync_view (tcbs s u)"
  by (simp_all add: sync_view_def make_non_wait_def wait_release_def wait_release_ok_def
      wait_release_ok_ercd_def set_wercd_def)

lemma tskevt_release [simp]:
  "tskevt (tcbs (make_non_wait t s) u) = tskevt (tcbs s u)"
  "tskevt (tcbs (wait_release t s) u) = tskevt (tcbs s u)"
  by (simp_all add: wait_release_def make_non_wait_def)

text \<open>Suspension does not touch what the ready queue looks at.\<close>

lemma suscnt_same [simp]:
  "kinv_x X (tcb_upd t (\<lambda>c. c\<lparr>suscnt := f c\<rparr>) s) = kinv_x X s"
  "sched_ok (tcb_upd t (\<lambda>c. c\<lparr>suscnt := f c\<rparr>) s) = sched_ok s"
  "kinv_x X (tcb_upd t (\<lambda>c. c\<lparr>wupcnt := f c\<rparr>) s) = kinv_x X s"
  "sched_ok (tcb_upd t (\<lambda>c. c\<lparr>wupcnt := f c\<rparr>) s) = sched_ok s"
  "kinv_x X (tcb_upd t (\<lambda>c. c\<lparr>tskevt := g c\<rparr>) s) = kinv_x X s"
  "sched_ok (tcb_upd t (\<lambda>c. c\<lparr>tskevt := g c\<rparr>) s) = sched_ok s"
  by (simp_all add: tcb_upd_kinv_same) (rule sched_ok_cong; auto)+

text \<open>A task that is not ready changes between WAIT and WAIT-SUSPEND.\<close>

lemma set_waiting_state:
  assumes ok: "kinv s" "sched_ok s" and w: "in_wait (tstate (tcbs s t))" and st: "in_wait st"
  defines "s' \<equiv> tcb_upd t (\<lambda>c. c\<lparr>tstate := st\<rparr>) s"
  shows "kinv s'" "sched_ok s'"
proof -
  note kd = kinv_xD [OF ok(1)]
  have nr: "t \<notin> set (que s (Rdy p))" "t \<notin> set (que s (LockQ k i))" "t \<notin> set (que s FreeTcb)" for p k i
    using w kd(3,6,7) [of t] by (auto simp: in_wait_iff)
  have nk: "\<not> klockwait (tcbs s t)" "priority (tcbs s t) < NUM_PRI" using kd(8,11) [of t] w by (auto simp: in_wait_iff)
  have "rdq_ok s'" using kd(1) by (simp add: s'_def rdq_ok_def)
  then show "kinv s'"
    by (rule kinv_xI) (use kd nr nk st in \<open>auto simp: s'_def in_wait_iff split: if_splits\<close>)
  have kt: "\<not> klocked (tcbs s t)" using ok(2) w by (auto simp: sched_ok_def in_wait_iff)
  then show "sched_ok s'"
    using ok(2) by (auto simp: sched_ok_def s'_def ready_queue_top_def)
qed

lemma suspend_ready:
  assumes ok: "kinv s" "sched_ok s" and t: "tstate (tcbs s t) = TS_READY"
  defines "s' \<equiv> tcb_upd t (\<lambda>c. c\<lparr>tstate := TS_SUSPEND\<rparr>) (make_non_ready t s)"
  shows "kinv s'" "sched_ok s'"
proof -
  have p: "priority (tcbs s t) < NUM_PRI" using kinv_xD(8) [OF ok(1)] t by simp
  have "kinv_x {t} (make_non_ready t s)" using make_non_ready_kinv_x [OF ok(1) t] by simp
  then have "kinv_x {t} s'"
    unfolding s'_def using p by (intro tcb_upd_kinv_x) auto
  then show "kinv s'" by (rule kinv_x_drop) (simp add: s'_def)
  have "sched_ok (make_non_ready t s)" by (rule make_non_ready_sched_ok [OF ok(1) t _ ok(2)]) simp
  moreover have "\<not> klocked (tcbs s t)" using ok(2) t by (auto simp: sched_ok_def)
  ultimately show "sched_ok s'" by (auto simp: sched_ok_def s'_def ready_queue_top_def)
qed

lemma resume_suspended:
  assumes ok: "kinv s" "sched_ok s" and t: "tstate (tcbs s t) = TS_SUSPEND"
  shows "kinv (make_ready t s)" "sched_ok (make_ready t s)"
proof -
  note kd = kinv_xD [OF ok(1)]
  have uq: "unqueued t s"
    unfolding unqueued_def
  proof
    fix q show "t \<notin> set (que s q)" using kd(3,5,6,7) [of t] t by (cases q) force+
  qed
  have nk: "\<not> klockwait (tcbs s t)" "priority (tcbs s t) < NUM_PRI" using kd(8,11) [of t] t by auto
  have nl: "\<not> klocked (tcbs s t)" using ok(2) t by (auto simp: sched_ok_def)
  have k: "kinv_x (insert t {}) s" using kinv_x_mono [OF ok(1)] by blast
  show "kinv (make_ready t s)" by (rule make_ready_kinv_x [OF k uq nk])
  show "sched_ok (make_ready t s)" by (rule make_ready_sched_ok [OF k uq nk nl ok(2)])
qed


section \<open>Every operation keeps it\<close>

lemma tk_sus_tsk_ok:
  assumes ok: "sync_ok s"
  shows "sync_ok (snd (tk_sus_tsk t s))"
proof (cases "check_other t s = E_OK \<and> task_alive (tstate (tcbs s t)) \<and>
    \<not> (Some t = ctxtsk s \<and> dispatch_disabled s \<ge> DDS_DISABLE) \<and> suscnt (tcbs s t) \<noteq> INT_MAX")
  case False
  then have "snd (tk_sus_tsk t s) = s" by (auto simp: tk_sus_tsk_def Let_def)
  then show ?thesis using ok by simp
next
  case True
  define s1 where "s1 = tcb_upd t (\<lambda>c. c\<lparr>suscnt := suscnt c + 1\<rparr>) s"
  have k1: "kinv s1" "sched_ok s1" using sync_okD(1,2) [OF ok] by (simp_all add: s1_def)
  have c: "sync_tcb (tcbs s t)" using sync_okD(3) [OF ok] True by simp
  have e: "snd (tk_sus_tsk t s) =
      (if tstate (tcbs s t) = TS_READY then tcb_upd t (\<lambda>c. c\<lparr>tstate := TS_SUSPEND\<rparr>) (make_non_ready t s1)
       else if tstate (tcbs s t) = TS_WAIT then tcb_upd t (\<lambda>c. c\<lparr>tstate := TS_WAITSUS\<rparr>) s1 else s1)"
    using True by (auto simp: tk_sus_tsk_def Let_def s1_def)
  have st1: "tstate (tcbs s1 t) = tstate (tcbs s t)" by (simp add: s1_def)
  show ?thesis
  proof (rule sync_okI [OF ok, of _ t])
    show "kinv (snd (tk_sus_tsk t s))" "sched_ok (snd (tk_sus_tsk t s))"
      unfolding e using suspend_ready [OF k1, of t] set_waiting_state [OF k1, of t TS_WAITSUS] k1 st1 by simp_all
    show "sync_view (tcbs (snd (tk_sus_tsk t s)) u) = sync_view (tcbs s u)" if "u \<noteq> t" for u
      unfolding e s1_def using that by simp
    show "sync_tcb (tcbs (snd (tk_sus_tsk t s)) t)"
      unfolding e s1_def using c True by (cases "tstate (tcbs s t)") (auto simp: sync_tcb_def task_alive_iff)
  qed
qed

lemma resume_cases:
  assumes ok: "sync_ok s" and t: "tstate (tcbs s t) = TS_SUSPEND \<or> tstate (tcbs s t) = TS_WAITSUS"
    and n: "0 \<le> n" "n \<le> INT_MAX"
  defines "s1 \<equiv> tcb_upd t (\<lambda>c. c\<lparr>suscnt := n\<rparr>) s"
  shows "sync_ok (if n > 0 then s1
    else if tstate (tcbs s t) = TS_SUSPEND then make_ready t s1 else tcb_upd t (\<lambda>c. c\<lparr>tstate := TS_WAIT\<rparr>) s1)"
    (is "sync_ok ?s")
proof -
  have k1: "kinv s1" "sched_ok s1" using sync_okD(1,2) [OF ok] by (simp_all add: s1_def)
  have c: "sync_tcb (tcbs s t)" using sync_okD(3) [OF ok] t by (auto simp: task_alive_iff)
  have st1: "tstate (tcbs s1 t) = tstate (tcbs s t)" by (simp add: s1_def)
  show ?thesis
  proof (rule sync_okI [OF ok, of _ t])
    show "kinv ?s" "sched_ok ?s"
      using resume_suspended [OF k1, of t] set_waiting_state [OF k1, of t TS_WAIT] k1 st1 t by auto
    show "sync_view (tcbs ?s u) = sync_view (tcbs s u)" if "u \<noteq> t" for u using that by (simp add: s1_def)
    show "sync_tcb (tcbs ?s t)" using c t n by (auto simp: sync_tcb_def s1_def)
  qed
qed

lemma tk_rsm_tsk_ok: "sync_ok s \<Longrightarrow> sync_ok (snd (tk_rsm_tsk t s))"
proof -
  assume ok: "sync_ok s"
  show ?thesis
  proof (cases "check_other t s = E_OK \<and> (tstate (tcbs s t) = TS_SUSPEND \<or> tstate (tcbs s t) = TS_WAITSUS)")
    case False
    then have "snd (tk_rsm_tsk t s) = s" by (auto simp: tk_rsm_tsk_def split: tstat.split)
    then show ?thesis using ok by simp
  next
    case True
    then have "sync_tcb (tcbs s t)" using sync_okD(3) [OF ok, of t] by (auto simp: task_alive_iff)
    then have n: "0 \<le> suscnt (tcbs s t) - 1" "suscnt (tcbs s t) - 1 \<le> INT_MAX"
      using True by (auto simp: sync_tcb_def)
    have u: "tcb_upd t (\<lambda>c. c\<lparr>suscnt := suscnt c - 1\<rparr>) s = tcb_upd t (\<lambda>c. c\<lparr>suscnt := suscnt (tcbs s t) - 1\<rparr>) s"
      by (simp add: tcb_upd_def)
    show ?thesis
      using resume_cases [OF ok, of t "suscnt (tcbs s t) - 1"] True n
      by (auto simp: tk_rsm_tsk_def Let_def u split: if_splits)
  qed
qed

lemma tk_frsm_tsk_ok: "sync_ok s \<Longrightarrow> sync_ok (snd (tk_frsm_tsk t s))"
  using resume_cases [of s t 0] by (auto simp: tk_frsm_tsk_def Let_def INT_MAX_def split: tstat.split)

text \<open>The caller starts to wait.\<close>

lemma self_wait_sel:
  assumes r: "running t s"
  shows "tstate (tcbs (self_wait w tmout s) u) = (if u = t then waiting (tstate (tcbs s t)) else tstate (tcbs s u))"
    "wspec (tcbs (self_wait w tmout s) u) = (if u = t then w else wspec (tcbs s u))"
    "suscnt (tcbs (self_wait w tmout s) u) = suscnt (tcbs s u)"
    "wupcnt (tcbs (self_wait w tmout s) u) = wupcnt (tcbs s u)"
    "tskevt (tcbs (self_wait w tmout s) u) = tskevt (tcbs s u)"
proof -
  let ?s = "tcb_upd t (\<lambda>c. c\<lparr>wspec := w, wid := 0, wercd := E_TMOUT\<rparr>) s"
  have r1: "running t ?s" and m: "me s = t" using r by (auto simp: running_def)
  have ev: "tskevt (tcbs (enter_wait atr s') u) = tskevt (tcbs s' u)" for atr and s' :: "'a kst_scheme"
    by (simp add: enter_wait_def Let_def make_non_ready_tcbs split: tstat.split)
  show "tstate (tcbs (self_wait w tmout s) u) = (if u = t then waiting (tstate (tcbs s t)) else tstate (tcbs s u))"
    "wspec (tcbs (self_wait w tmout s) u) = (if u = t then w else wspec (tcbs s u))"
    "suscnt (tcbs (self_wait w tmout s) u) = suscnt (tcbs s u)"
    "wupcnt (tcbs (self_wait w tmout s) u) = wupcnt (tcbs s u)"
    "tskevt (tcbs (self_wait w tmout s) u) = tskevt (tcbs s u)"
    using enter_wait_sel [OF r1] by (simp_all add: self_wait_def make_wait_def m ev)
qed

lemma self_wait_ok:
  assumes ok: "sync_ok s" and r: "running t s"
    and n: "w = wspec_slp \<Longrightarrow> wupcnt (tcbs s t) \<le> 0" "\<not> has (tskwait w) (toTTW (ucast (tskevt (tcbs s t))))"
  shows "sync_ok (self_wait w tmout s)"
proof -
  let ?s = "tcb_upd t (\<lambda>c. c\<lparr>wspec := w, wid := 0, wercd := E_TMOUT\<rparr>) s"
  note kd = kinv_xD [OF sync_okD(1) [OF ok]]
  have r1: "running t ?s" and m: "me s = t" using r by (auto simp: running_def)
  have al: "task_alive (tstate (tcbs s t))" using r by (auto simp: running_def task_alive_iff)
  have nq: "t \<notin> set (que s (WaitQ k i))" for k i
    using not_wait_not_queued [OF sync_okD(1) [OF ok] runningD(2) [OF r]] .
  have "rdq_ok ?s" using kd(1) by (simp add: rdq_ok_def)
  then have k1: "kinv ?s" by (rule kinv_xI) (use kd nq in \<open>auto split: if_splits\<close>)
  have sc1: "sched_ok ?s" using sync_okD(2) [OF ok] by (subst sched_ok_cong [of _ s]) auto
  have "kinv (self_wait w tmout s)" "sched_ok (self_wait w tmout s)"
    using enter_wait_kinv_x(1) [OF k1 r1] enter_wait_sched_ok [OF k1 r1 _ sc1]
    by (simp_all add: self_wait_def make_wait_def m)
  then show ?thesis
  proof (rule sync_okI [OF ok, of _ t])
    note f = self_wait_sel [OF r]
    show "sync_view (tcbs (self_wait w tmout s) u) = sync_view (tcbs s u)" if "u \<noteq> t" for u
      using that by (simp add: sync_view_def f)
    have "sync_tcb (tcbs s t)" using sync_okD(3) [OF ok al] .
    then show "sync_tcb (tcbs (self_wait w tmout s) t)"
      using r n by (auto simp: sync_tcb_def f waiting_def running_def)
  qed
qed


lemma no_slp_event: "\<not> has TTW_SLP (toTTW e)"
proof -
  have "\<not> bit (TTW_SLP AND push_bit 16 e) n" for n
    by (auto simp: TTW_SLP_def bit_simps)
  then have "TTW_SLP AND push_bit 16 e = 0" by (simp add: bit_eq_iff)
  then show ?thesis by (simp add: has_def toTTW_def)
qed

lemma has_toTTW: "has a b = False \<Longrightarrow> \<not> has (toTTW b) (toTTW a)"
  by (simp add: has_def toTTW_def push_bit_and [symmetric] and.commute)

lemma has_or: "has w (toTTW (a OR b)) \<longleftrightarrow> has w (toTTW a) \<or> has w (toTTW b)"
  unfolding has_def toTTW_def push_bit_or bit.conj_disj_distrib by (simp add: or_eq_0_iff)

lemma event_byte:
  assumes "n < 8"
  shows "ucast (ucast (ucast (e :: UB) OR push_bit n 1 :: UINT) :: UB) = (ucast e OR push_bit n 1 :: UINT)"
  by (rule bit_word_eqI) (use assms in \<open>auto simp: bit_simps dest: bit_imp_le_length\<close>)

lemma running_sync:
  assumes "sync_ok s" "running t s"
  shows "sync_tcb (tcbs s t)" "me s = t"
  using assms sync_okD(3) [OF assms(1), of t] by (auto simp: running_def task_alive_iff)

lemma tk_slp_tsk_u_ok:
  assumes ok: "sync_ok s" and r: "in_ddsp s \<or> running t s"
  shows "sync_ok (snd (tk_slp_tsk_u tmout s))"
proof (cases "chk_tmout tmout \<and> \<not> in_ddsp s \<and> \<not> has (waitmask (tcbs s (me s))) TTW_SLP \<and>
    (wupcnt (tcbs s (me s)) > 0 \<or> tmout \<noteq> TMO_POL)")
  case False
  then have "snd (tk_slp_tsk_u tmout s) = s" by (auto simp: tk_slp_tsk_u_def)
  then show ?thesis using ok by simp
next
  case True
  then have r: "running t s" using r by simp
  note c = running_sync [OF ok r]
  show ?thesis
  proof (cases "wupcnt (tcbs s t) > 0")
    case pos: True
    have "sync_ok (tcb_upd t (\<lambda>c. c\<lparr>wupcnt := wupcnt c - 1\<rparr>) s)"
      using ok c(1) pos r by (intro sync_okI [OF ok, of _ t]) (auto simp: sync_tcb_def sync_okD running_def)
    then show ?thesis using True pos c(2) by (simp add: tk_slp_tsk_u_def)
  next
    case False
    have "sync_ok (self_wait wspec_slp tmout s)"
      using False by (intro self_wait_ok [OF ok r]) (auto simp: wspec_slp_def no_slp_event)
    then show ?thesis using True False c(2) by (simp add: tk_slp_tsk_u_def)
  qed
qed

text \<open>A task that waits for no object, or whose object has no hook, is released.\<close>

lemma released_sync:
  assumes ok: "sync_ok s" and w: "in_wait (tstate (tcbs s t))"
    and s': "s' = wait_release_ok t s \<or> s' = wait_release_ok_ercd t e s \<or> s' = make_non_wait t (que_remove t s)"
  shows "sync_ok s'"
proof -
  note k = sync_okD(1,2) [OF ok]
  have k0: "kinv (que_remove t s)" using k w by (intro que_remove_kinv_x) (auto dest: in_wait_not_ready)
  have td: "kinv (make_non_wait t (que_remove t s))"
    using w by (intro make_non_wait_kinv_x [OF k0]) simp_all
  have sc: "sched_ok (make_non_wait t (que_remove t s))" by (rule make_non_wait_sched_ok [OF k(1) w k(2)])
  have c: "sync_tcb (tcbs s t)" using sync_okD(3) [OF ok] w by (auto simp: task_alive_iff in_wait_iff)
  show ?thesis
  proof (rule sync_okI [OF ok, of _ t])
    show "kinv s'" "sched_ok s'"
      using s' td sc wait_release_kinv_x [OF k(1) w] wait_release_sched_ok [OF k(1) w k(2)]
      by (auto simp: wait_release_ok_def wait_release_ok_ercd_def)
    show "sync_view (tcbs s' u) = sync_view (tcbs s u)" if "u \<noteq> t" for u
    proof -
      have "sync_view (tcbs (make_non_wait t (que_remove t s)) u) = sync_view (tcbs s u)"
        using sync_view_frame(4) [OF that, of "que_remove t s"] by simp
      then show ?thesis using s' that by auto
    qed
    have f: "tstate (tcbs s' t) = released (tstate (tcbs s t))" "suscnt (tcbs s' t) = suscnt (tcbs s t)"
      "wupcnt (tcbs s' t) = wupcnt (tcbs s t)"
      using s' by (auto simp: wait_release_ok_def wait_release_ok_ercd_def)
    have n: "suscnt (tcbs s t) > 0 \<longleftrightarrow> released (tstate (tcbs s t)) = TS_SUSPEND"
      using c w by (auto simp: sync_tcb_def released_def in_wait_iff)
    have r: "\<not> in_wait (released (tstate (tcbs s t)))" "released (tstate (tcbs s t)) \<noteq> TS_WAITSUS"
      by (simp_all add: released_def)
    show "sync_tcb (tcbs s' t)" using c n r unfolding sync_tcb_def f by blast
  qed
qed

lemma tk_wup_tsk_ok:
  assumes ok: "sync_ok s"
  shows "sync_ok (snd (tk_wup_tsk t s))"
proof (cases "check_other t s = E_OK \<and> task_alive (tstate (tcbs s t))")
  case False
  then have "snd (tk_wup_tsk t s) = s" by (auto simp: tk_wup_tsk_def Let_def)
  then show ?thesis using ok by simp
next
  case True
  have c: "sync_tcb (tcbs s t)" using sync_okD(3) [OF ok] True by simp
  have "sync_ok (tcb_upd t (\<lambda>c. c\<lparr>wupcnt := wupcnt c + 1\<rparr>) s)"
    if "\<not> (in_wait (tstate (tcbs s t)) \<and> wspec (tcbs s t) = wspec_slp)" "wupcnt (tcbs s t) \<noteq> INT_MAX"
    using c that sync_okD(1,2) [OF ok] by (intro sync_okI [OF ok, of _ t]) (auto simp: sync_tcb_def)
  then show ?thesis
    using True released_sync [OF ok, of t "wait_release_ok t s"] ok by (auto simp: tk_wup_tsk_def Let_def)
qed

lemma tk_can_wup_ok:
  assumes ok: "sync_ok s"
  shows "sync_ok (snd (tk_can_wup t s))"
proof -
  let ?t = "get_tcb_self t s"
  have "sync_ok (tcb_upd ?t (\<lambda>c. c\<lparr>wupcnt := 0\<rparr>) s)" if "task_alive (tstate (tcbs s ?t))"
    using sync_okD [OF ok] that by (intro sync_okI [OF ok, of _ ?t]) (auto simp: sync_tcb_def INT_MAX_def)
  then show ?thesis
    using ok by (auto simp: tk_can_wup_def Let_def task_alive_iff split: tstat.split)
qed

lemma tk_wai_tev_u_ok:
  assumes ok: "sync_ok s" and r: "in_ddsp s \<or> running t s"
  shows "sync_ok (snd (tk_wai_tev_u p tmout s))"
proof (cases "in_ddsp s")
  case True
  then have "snd (tk_wai_tev_u p tmout s) = s" by (simp add: tk_wai_tev_u_def Let_def)
  then show ?thesis using ok by simp
next
  case False
  then have r: "running t s" using r by simp
  note c = running_sync [OF ok r]
  let ?w = "word_of_int p :: UINT"
  have 1: "sync_ok (tcb_upd t (\<lambda>c. c\<lparr>tskevt := ucast (ucast (tskevt c) AND NOT ?w)\<rparr>) s)"
    using c(1) r by (intro sync_okI [OF ok, of _ t]) (auto simp: sync_tcb_def sync_okD [OF ok] running_def)
  have 2: "sync_ok (self_wait (wspec_tev ?w) tmout s)"
    if "\<not> has (ucast (tskevt (tcbs s t))) ?w" "?w AND 0xFF \<noteq> 0"
  proof (rule self_wait_ok [OF ok r])
    show "\<not> has (tskwait (wspec_tev ?w)) (toTTW (ucast (tskevt (tcbs s t))))"
      using has_toTTW that(1) by (simp add: wspec_tev_def)
    assume "wspec_tev ?w = wspec_slp"
    then have "TTW_SLP = toTTW ?w" by (simp add: wspec_tev_def wspec_slp_def)
    then show "wupcnt (tcbs s t) \<le> 0" using no_slp_event [of ?w] by (simp add: has_def TTW_SLP_def)
  qed
  show ?thesis
    using 1 2 ok by (auto simp: tk_wai_tev_u_def Let_def c(2))
qed

lemma tk_sig_tev_ok:
  assumes ok: "sync_ok s"
  shows "sync_ok (snd (tk_sig_tev tskid evt s))"
proof (cases "chk_tskid_self tskid s \<and> 1 \<le> evt \<and> evt \<le> 8 \<and> task_alive (tstate (tcbs s (get_tcb_self tskid s)))")
  case False
  then have "snd (tk_sig_tev tskid evt s) = s" by (auto simp: tk_sig_tev_def Let_def)
  then show ?thesis using ok by simp
next
  case True
  let ?t = "get_tcb_self tskid s" and ?m = "push_bit (nat (evt - 1)) 1 :: UINT"
  have c: "sync_tcb (tcbs s ?t)" using sync_okD(3) [OF ok] True by simp
  have e: "ucast (ucast (ucast (tskevt (tcbs s ?t)) OR ?m) :: UB) = (ucast (tskevt (tcbs s ?t)) OR ?m :: UINT)"
    using True by (intro event_byte) auto
  have "sync_ok (tcb_upd ?t (\<lambda>c. c\<lparr>tskevt := ucast (ucast (tskevt c) OR ?m)\<rparr>) s)"
    if "\<not> (in_wait (tstate (tcbs s ?t)) \<and> has (tskwait (wspec (tcbs s ?t))) (toTTW ?m))"
    using c that by (intro sync_okI [OF ok, of _ ?t]) (auto simp: sync_tcb_def sync_okD [OF ok] e [simplified] has_or)
  then show ?thesis
    using True released_sync [OF ok, of ?t "wait_release_ok_ercd ?t (uint (ucast (tskevt (tcbs s ?t)) OR ?m)) s"]
    by (auto simp: tk_sig_tev_def Let_def)
qed


section \<open>Steps\<close>

inductive sync_step :: "'a kst_scheme \<Rightarrow> 'a kst_scheme \<Rightarrow> bool" where
  sus: "sync_step s (snd (tk_sus_tsk t s))"
| rsm: "sync_step s (snd (tk_rsm_tsk t s))"
| frsm: "sync_step s (snd (tk_frsm_tsk t s))"
| slp: "in_ddsp s \<or> running (me s) s \<Longrightarrow> sync_step s (snd (tk_slp_tsk tmout s))"
| slp_u: "in_ddsp s \<or> running (me s) s \<Longrightarrow> sync_step s (snd (tk_slp_tsk_u tmout s))"
| wup: "sync_step s (snd (tk_wup_tsk t s))"
| can_wup: "sync_step s (snd (tk_can_wup t s))"
| wai_tev: "in_ddsp s \<or> running (me s) s \<Longrightarrow> sync_step s (snd (tk_wai_tev p tmout s))"
| wai_tev_u: "in_ddsp s \<or> running (me s) s \<Longrightarrow> sync_step s (snd (tk_wai_tev_u p tmout s))"
| sig_tev: "sync_step s (snd (tk_sig_tev t evt s))"
| release: "in_wait (tstate (tcbs s t)) \<Longrightarrow> rel_wai_hook (wspec (tcbs s t)) = None \<Longrightarrow>
    sync_step s (wait_release_ng h t e s)"
| timeout: "in_wait (tstate (tcbs s t)) \<Longrightarrow> rel_wai_hook (wspec (tcbs s t)) = None \<Longrightarrow>
    sync_step s (wait_release_tmout h t s)"
| dispatch: "sync_step s (s\<lparr>ctxtsk := schedtsk s\<rparr>)"

lemma released_without_hook:
  assumes "rel_wai_hook (wspec (tcbs s t)) = None"
  shows "wait_release_ng h t e s = wait_release_ok_ercd t e s"
    "wait_release_tmout h t s = make_non_wait t (que_remove t s)"
  using assms by (simp_all add: wait_release_ng_def wait_release_tmout_def wait_release_ok_ercd_def Let_def)

lemma sync_step_ok: "sync_step s s' \<Longrightarrow> sync_ok s \<Longrightarrow> sync_ok s'"
proof (induction rule: sync_step.induct)
  case (release s t h e)
  then show ?case using released_sync [OF release.prems release.hyps(1), of "wait_release_ok_ercd t e s" e] released_without_hook [OF release.hyps(2)] by simp
next
  case (timeout s t h)
  then show ?case using released_sync [OF timeout.prems timeout.hyps(1), of "make_non_wait t (que_remove t s)"] released_without_hook [OF timeout.hyps(2)] by simp
next
  case (dispatch s)
  then show ?case by (simp add: sync_ok_def)
qed (simp_all add: tk_sus_tsk_ok tk_rsm_tsk_ok tk_frsm_tsk_ok tk_slp_tsk_def tk_slp_tsk_u_ok tk_wup_tsk_ok
    tk_can_wup_ok tk_wai_tev_def tk_wai_tev_u_ok tk_sig_tev_ok)

lemma sync_steps_ok: "sync_step\<^sup>*\<^sup>* s s' \<Longrightarrow> sync_ok s \<Longrightarrow> sync_ok s'"
  by (induction rule: rtranclp_induct) (auto intro: sync_step_ok)

section \<open>Suspensions nest\<close>

text \<open>\<open>n\<close> more suspensions and as many resumptions bring the task back to the state it was in,
  and it is not ready in between.\<close>

fun sus_times :: "nat \<Rightarrow> ID \<Rightarrow> 'a kst_scheme \<Rightarrow> 'a kst_scheme" where
  "sus_times 0 t s = s"
| "sus_times (Suc n) t s = sus_times n t (snd (tk_sus_tsk t s))"

fun rsm_times :: "nat \<Rightarrow> ID \<Rightarrow> 'a kst_scheme \<Rightarrow> 'a kst_scheme" where
  "rsm_times 0 t s = s"
| "rsm_times (Suc n) t s = rsm_times n t (snd (tk_rsm_tsk t s))"

definition suspended :: "tstat \<Rightarrow> tstat" where
  "suspended st = (if st = TS_READY then TS_SUSPEND else if st = TS_WAIT then TS_WAITSUS else st)"

definition resumed :: "tstat \<Rightarrow> tstat" where
  "resumed st = (if st = TS_SUSPEND then TS_READY else if st = TS_WAITSUS then TS_WAIT else st)"

lemma check_other_frame:
  assumes "ctxtsk s' = ctxtsk s" "task_indep s' = task_indep s" "max_tskid s' = max_tskid s"
  shows "check_other t s' = check_other t s"
  using assms by (simp add: check_other_def check_tskid_def in_indp_def)

lemma sus_once:
  assumes ok: "sync_ok s" and c: "check_other t s = E_OK" "task_alive (tstate (tcbs s t))"
    "ctxtsk s \<noteq> Some t" "suscnt (tcbs s t) < INT_MAX"
  defines "s' \<equiv> snd (tk_sus_tsk t s)"
  shows "fst (tk_sus_tsk t s) = E_OK" "tstate (tcbs s' t) = suspended (tstate (tcbs s t))"
    "suscnt (tcbs s' t) = suscnt (tcbs s t) + 1" "ctxtsk s' = ctxtsk s" "check_other t s' = E_OK"
    "task_alive (tstate (tcbs s' t))"
proof -
  have e: "tk_sus_tsk t s = (E_OK,
      if tstate (tcbs s t) = TS_READY then tcb_upd t (\<lambda>c. c\<lparr>tstate := TS_SUSPEND\<rparr>)
        (make_non_ready t (tcb_upd t (\<lambda>c. c\<lparr>suscnt := suscnt c + 1\<rparr>) s))
      else if tstate (tcbs s t) = TS_WAIT then tcb_upd t (\<lambda>c. c\<lparr>tstate := TS_WAITSUS\<rparr>)
        (tcb_upd t (\<lambda>c. c\<lparr>suscnt := suscnt c + 1\<rparr>) s)
      else tcb_upd t (\<lambda>c. c\<lparr>suscnt := suscnt c + 1\<rparr>) s)"
    using c by (auto simp: tk_sus_tsk_def Let_def)
  show "fst (tk_sus_tsk t s) = E_OK" "tstate (tcbs s' t) = suspended (tstate (tcbs s t))"
    "suscnt (tcbs s' t) = suscnt (tcbs s t) + 1" "ctxtsk s' = ctxtsk s"
    by (simp_all add: s'_def e suspended_def)
  then show "task_alive (tstate (tcbs s' t))" using c(2) by (auto simp: task_alive_iff suspended_def)
  have "check_other t s' = check_other t s" unfolding s'_def e by (rule check_other_frame) simp_all
  then show "check_other t s' = E_OK" using c by simp
qed

lemma rsm_once:
  assumes ok: "sync_ok s" and c: "check_other t s = E_OK" and n: "suscnt (tcbs s t) > 0"
    and al: "task_alive (tstate (tcbs s t))"
  defines "s' \<equiv> snd (tk_rsm_tsk t s)"
  shows "tstate (tcbs s' t) = (if suscnt (tcbs s t) = 1 then resumed (tstate (tcbs s t)) else tstate (tcbs s t))"
    "suscnt (tcbs s' t) = suscnt (tcbs s t) - 1" "check_other t s' = E_OK" "task_alive (tstate (tcbs s' t))"
proof -
  have st: "tstate (tcbs s t) = TS_SUSPEND \<or> tstate (tcbs s t) = TS_WAITSUS"
    using sync_okD(3) [OF ok al] n by (auto simp: sync_tcb_def)
  let ?s1 = "tcb_upd t (\<lambda>c. c\<lparr>suscnt := suscnt c - 1\<rparr>) s"
  have e: "s' = (if suscnt (tcbs s t) = 1 then if tstate (tcbs s t) = TS_SUSPEND then make_ready t ?s1
      else tcb_upd t (\<lambda>c. c\<lparr>tstate := TS_WAIT\<rparr>) ?s1 else ?s1)"
    using c st by (auto simp: s'_def tk_rsm_tsk_def Let_def)
  show ts: "tstate (tcbs s' t) = (if suscnt (tcbs s t) = 1 then resumed (tstate (tcbs s t)) else tstate (tcbs s t))"
    and "suscnt (tcbs s' t) = suscnt (tcbs s t) - 1"
    using st by (auto simp: e resumed_def)
  show "task_alive (tstate (tcbs s' t))" using al by (auto simp: ts resumed_def task_alive_iff)
  have "check_other t s' = check_other t s" unfolding e by (rule check_other_frame) simp_all
  then show "check_other t s' = E_OK" using c by simp
qed

lemma resumed_suspended: "st = TS_READY \<or> st = TS_WAIT \<Longrightarrow> resumed (suspended st) = st"
  by (auto simp: resumed_def suspended_def)

lemma suspended_idem: "suspended (suspended st) = suspended st"
  by (simp add: suspended_def)

lemma sus_times_spec:
  assumes "sync_ok s" "check_other t s = E_OK" "task_alive (tstate (tcbs s t))" "ctxtsk s \<noteq> Some t"
    "suscnt (tcbs s t) + int n \<le> INT_MAX"
  shows "sync_ok (sus_times n t s)" "check_other t (sus_times n t s) = E_OK"
    "suscnt (tcbs (sus_times n t s) t) = suscnt (tcbs s t) + int n"
    "tstate (tcbs (sus_times n t s) t) = (if n = 0 then tstate (tcbs s t) else suspended (tstate (tcbs s t)))"
    "task_alive (tstate (tcbs (sus_times n t s) t))"
  using assms
proof (atomize (full), induction n arbitrary: s)
  case (Suc n)
  have "suscnt (tcbs s t) < INT_MAX" using Suc.prems(5) by simp
  note o = sus_once [OF Suc.prems(1-4) this]
  have "sync_ok (snd (tk_sus_tsk t s))" by (rule tk_sus_tsk_ok [OF Suc.prems(1)])
  then show ?case
    using Suc.IH [of "snd (tk_sus_tsk t s)"] o Suc.prems by (auto simp: suspended_idem)
qed simp

lemma rsm_times_spec:
  assumes "sync_ok s" "check_other t s = E_OK" "task_alive (tstate (tcbs s t))" "suscnt (tcbs s t) = int n"
  shows "tstate (tcbs (rsm_times n t s) t) = (if n = 0 then tstate (tcbs s t) else resumed (tstate (tcbs s t)))"
  using assms
proof (induction n arbitrary: s)
  case (Suc n)
  note o = rsm_once [OF Suc.prems(1,2) _ Suc.prems(3)]
  have "sync_ok (snd (tk_rsm_tsk t s))" by (rule tk_rsm_tsk_ok [OF Suc.prems(1)])
  then show ?case
    using Suc.IH [of "snd (tk_rsm_tsk t s)"] o Suc.prems(4) by (cases n) auto
qed simp

lemma sus_rsm_times:
  assumes ok: "sync_ok s" and c: "check_other t s = E_OK" "ctxtsk s \<noteq> Some t"
    and st: "tstate (tcbs s t) = TS_READY \<or> tstate (tcbs s t) = TS_WAIT" and n: "int n \<le> INT_MAX"
  shows "tstate (tcbs (rsm_times n t (sus_times n t s)) t) = tstate (tcbs s t)"
proof -
  have al: "task_alive (tstate (tcbs s t))" using st by (auto simp: task_alive_iff)
  have z: "suscnt (tcbs s t) = 0" using sync_okD(3) [OF ok al] st by (auto simp: sync_tcb_def)
  note s = sus_times_spec [OF ok c(1) al c(2), of n]
  show ?thesis
    using rsm_times_spec [OF s(1,2,5), of n] s(3,4) z n resumed_suspended [OF st] by (cases n) auto
qed

end
