(* ===== verification/Task_Manage.thy ===== *)
theory Task_Manage
  imports Mutex_Steps Task_Sync "HOL-Library.Signed_Division"
begin

text \<open>
  Task management (\<open>task_manage.c\<close>): creating, starting, ending and terminating tasks, changing
  their priorities, and asking for their state. The fields of a TCB that only this file uses are in
  \<open>tskcb\<close>; what a deletion hands to \<open>IAfree\<close> is part of its result.
\<close>

section \<open>State\<close>

record tskcb =
  task :: addr
  stksz :: int
  sstksz :: int
  istack :: addr
  isstack :: addr
  uatb :: addr
  lsid :: int
  start_r0 :: int
  start_r1 :: addr

record tsk_st = mtx_st +
  tskcbs :: "ID \<Rightarrow> tskcb"
  default_sstksz :: int
  available_cop :: ATR
  max_resid :: ID

record t_ctsk =
  ct_exinf :: addr
  ct_tskatr :: ATR
  ct_task :: addr
  ct_itskpri :: int
  ct_stksz :: int
  ct_sstksz :: int
  ct_stkptr :: addr
  ct_uatb :: addr
  ct_lsid :: int
  ct_resid :: ID
  ct_dsname :: "UB list"

record t_rtsk_u =
  rt_exinf :: addr
  rt_tskpri :: int
  rt_tskbpri :: int
  rt_tskstat :: UINT
  rt_tskwait :: UINT
  rt_wid :: ID
  rt_wupcnt :: int
  rt_suscnt :: int
  rt_slicetime_u :: RELTIM_U
  rt_waitmask :: UINT
  rt_texmask :: UINT
  rt_tskevent :: UINT

record td_rtsk_u = t_rtsk_u +
  rt_task :: addr
  rt_stksz :: int
  rt_sstksz :: int
  rt_istack :: addr
  rt_isstack :: addr

text \<open>\<open>T_RTSK\<close> has the slice time in milliseconds.\<close>

record t_rtsk =
  rm_tsk :: t_rtsk_u
  rm_slicetime :: UINT

record t_itsk_u =
  it_stime_u :: RELTIM_U
  it_utime_u :: RELTIM_U

record t_itsk =
  it_stime :: UINT
  it_utime :: UINT

definition tskcb_upd :: "ID \<Rightarrow> (tskcb \<Rightarrow> tskcb) \<Rightarrow> 'a tsk_st_scheme \<Rightarrow> 'a tsk_st_scheme" where
  "tskcb_upd t f s = s\<lparr>tskcbs := (tskcbs s)(t := f (tskcbs s t))\<rparr>"

definition TPRI_INI :: int where "TPRI_INI = 0"
definition TPRI_RUN :: int where "TPRI_RUN = 0"
definition TA_HLNG :: ATR where "TA_HLNG = 0x00000001"
definition TA_SSTKSZ :: ATR where "TA_SSTKSZ = 0x00000002"
definition TA_USERSTACK :: ATR where "TA_USERSTACK = 0x00000004"
definition TA_TASKSPACE :: ATR where "TA_TASKSPACE = 0x00000008"
definition TA_RESID :: ATR where "TA_RESID = 0x00000010"
definition TA_RNG0 :: ATR where "TA_RNG0 = 0x00000000"
definition TA_COP0 :: ATR where "TA_COP0 = 0x00001000"
definition TA_COP1 :: ATR where "TA_COP1 = 0x00002000"
definition TA_COP2 :: ATR where "TA_COP2 = 0x00004000"
definition TA_COP3 :: ATR where "TA_COP3 = 0x00008000"
definition TTS_RUN :: UINT where "TTS_RUN = 0x00000001"
definition TTS_NODISWAI :: UINT where "TTS_NODISWAI = 0x00000080"
definition TTX_SVC :: UINT where "TTX_SVC = 0x80000000"
definition MAX_LSID :: int where "MAX_LSID = 255"
definition SYS_RESID :: ID where "SYS_RESID = 1"

text \<open>Arithmetic on \<open>INT\<close>, and the conversions of times.\<close>

definition to_INT :: "int \<Rightarrow> int" where
  "to_INT x = sint (word_of_int x :: 32 word)"

definition to_usec :: "UINT \<Rightarrow> RELTIM_U" where
  "to_usec msec = ucast msec * 1000"

definition to_msec :: "RELTIM_U \<Rightarrow> UINT" where
  "to_msec usec = ucast ((usec + 999) div 1000)"

definition ext_tskpri :: "nat \<Rightarrow> int" where
  "ext_tskpri x = int x + 1"

section \<open>Creation and deletion\<close>

definition VALID_TSKATR :: ATR where
  "VALID_TSKATR = TA_HLNG OR TA_SSTKSZ OR TA_USERSTACK OR TA_TASKSPACE OR TA_RESID OR TA_RNG3 OR
     TA_COP0 OR TA_COP1 OR TA_COP2 OR TA_COP3 OR TA_DSNAME"

definition chk_nocop :: "ATR \<Rightarrow> ATR \<Rightarrow> bool" where
  "chk_nocop atr cop \<longleftrightarrow>
     \<not> (atr AND (TA_COP0 OR TA_COP1 OR TA_COP2 OR TA_COP3) \<noteq> 0 \<and> atr AND cop = 0)"

text \<open>The checks of the packet, in the order of the code.\<close>

definition ctsk_error :: "t_ctsk \<Rightarrow> 'a tsk_st_scheme \<Rightarrow> ER" where
  "ctsk_error pk s =
     (let atr = ct_tskatr pk
      in if \<not> chk_rsatr atr VALID_TSKATR then E_RSATR
         else if \<not> chk_pri (ct_itskpri pk) then E_PAR
         else if \<not> chk_nocop atr (available_cop s) then E_NOCOP
         else if has atr TA_USERSTACK \<and> \<not> (atr AND TA_RNG3 \<noteq> TA_RNG0 \<and> ct_stksz pk = 0) then E_PAR
         else if \<not> has atr TA_USERSTACK \<and> \<not> ct_stksz pk \<ge> 0 then E_PAR
         else if has atr TA_TASKSPACE \<and> \<not> (ct_lsid pk \<ge> 0 \<and> ct_lsid pk \<le> MAX_LSID) then E_PAR
         else if has atr TA_RESID \<and> \<not> chk_id (max_resid s) (ct_resid pk) then E_ID
         else if has atr TA_SSTKSZ \<and> \<not> ct_sstksz pk \<ge> MIN_SYS_STACK_SIZE then E_PAR
         else E_OK)"

text \<open>The sizes of the system and the user stack: \<open>(sz + 7) / 8 * 8\<close> on \<open>INT\<close>.\<close>

definition stack_round :: "int \<Rightarrow> int" where
  "stack_round sz = to_INT ((to_INT (sz + 7) sdiv 8) * 8)"

definition stack_sizes :: "t_ctsk \<Rightarrow> int \<Rightarrow> int \<times> int" where
  "stack_sizes pk dflt =
     (let sys = (if has (ct_tskatr pk) TA_SSTKSZ then ct_sstksz pk else dflt)
      in if ct_tskatr pk AND TA_RNG3 = TA_RNG0
         then (stack_round (to_INT (sys + ct_stksz pk)), stack_round 0)
         else (stack_round sys, stack_round (ct_stksz pk)))"

definition init_tcb :: "ID \<Rightarrow> t_ctsk \<Rightarrow> addr \<Rightarrow> addr \<Rightarrow> 'a tsk_st_scheme \<Rightarrow> 'a tsk_st_scheme" where
  "init_tcb t pk stack sstack s =
     (let atr = ct_tskatr pk;
          (ssz, usz) = stack_sizes pk (default_sstksz s);
          sm = (if atr AND TA_RNG3 = TA_RNG0 then 1 else 0 :: int);
          s1 = tcb_upd t (\<lambda>c. c\<lparr>exinf := ct_exinf pk, tskatr := atr, ipriority := int_priority (ct_itskpri pk),
                 resid := (if has atr TA_RESID then ct_resid pk else SYS_RESID),
                 isysmode := sm, sysmode := sm\<rparr>) s;
          s2 = (if has atr TA_DSNAME
                then tcb_upd t (\<lambda>c. c\<lparr>tname := tkl_strncpy (ct_dsname pk) OBJECT_NAME_LENGTH\<rparr>) s1 else s1)
      in tskcb_upd t (\<lambda>c. c\<lparr>task := ct_task pk, stksz := usz, sstksz := ssz,
           istack := (if usz > 0 then stack + nat usz else ct_stkptr pk), isstack := nat (int sstack + ssz),
           uatb := (if has atr TA_TASKSPACE then ct_uatb pk else NULL),
           lsid := (if has atr TA_TASKSPACE then ct_lsid pk else 0)\<rparr>) s2)"

text \<open>\<open>sys_alloc\<close> and \<open>usr_alloc\<close> are the two calls of \<open>IAmalloc\<close>.\<close>

definition tk_cre_tsk ::
  "(UINT \<Rightarrow> ATR \<Rightarrow> addr option) \<Rightarrow> (UINT \<Rightarrow> ATR \<Rightarrow> addr option) \<Rightarrow> t_ctsk \<Rightarrow> 'a tsk_st_scheme \<Rightarrow> ER \<times> 'a tsk_st_scheme"
where
  "tk_cre_tsk sys_alloc usr_alloc pk s =
     (if ctsk_error pk s \<noteq> E_OK then (ctsk_error pk s, s)
      else
        (let (ssz, usz) = stack_sizes pk (default_sstksz s)
         in case sys_alloc (word_of_int ssz) TA_RNG0 of
              None \<Rightarrow> (E_NOMEM, s)
            | Some sstack \<Rightarrow>
                (case (if usz > 0 then usr_alloc (word_of_int usz) (ct_tskatr pk) else Some NULL) of
                   None \<Rightarrow> (E_NOMEM, s)
                 | Some stack \<Rightarrow>
                     (case que_remove_next FreeTcb s of
                        (None, s1) \<Rightarrow> (E_LIMIT, s1)
                      | (Some t, s1) \<Rightarrow> (t, make_dormant t (init_tcb t pk stack sstack s1))))))"

text \<open>\<open>_del_tsk\<close>: what is freed, with the attributes, and the new state.\<close>

definition del_tsk :: "ID \<Rightarrow> 'a tsk_st_scheme \<Rightarrow> (int \<times> ATR) list \<times> 'a tsk_st_scheme" where
  "del_tsk t s =
     (let c = tskcbs s t
      in ((int (isstack c) - sstksz c, TA_RNG0) #
            (if stksz c > 0 then [(int (istack c) - stksz c, tskatr (tcbs s t))] else []),
          tcb_upd t (\<lambda>c. c\<lparr>tstate := TS_NONEXIST\<rparr>) (que_insert t FreeTcb s)))"

definition tk_del_tsk :: "ID \<Rightarrow> 'a tsk_st_scheme \<Rightarrow> (ER \<times> (int \<times> ATR) list) \<times> 'a tsk_st_scheme" where
  "tk_del_tsk t s =
     (if check_other t s \<noteq> E_OK then ((check_other t s, []), s)
      else if tstate (tcbs s t) \<noteq> TS_DORMANT then ((dead_error (tstate (tcbs s t)), []), s)
      else (case del_tsk t s of (fr, s1) \<Rightarrow> ((E_OK, fr), s1)))"

section \<open>Starting and ending\<close>

definition setup_stacd :: "ID \<Rightarrow> int \<Rightarrow> 'a tsk_st_scheme \<Rightarrow> 'a tsk_st_scheme" where
  "setup_stacd t stacd s = tskcb_upd t (\<lambda>c. c\<lparr>start_r0 := stacd, start_r1 := exinf (tcbs s t)\<rparr>) s"

definition tk_sta_tsk :: "ID \<Rightarrow> int \<Rightarrow> 'a tsk_st_scheme \<Rightarrow> ER \<times> 'a tsk_st_scheme" where
  "tk_sta_tsk t stacd s =
     (if check_other t s \<noteq> E_OK then (check_other t s, s)
      else if tstate (tcbs s t) \<noteq> TS_DORMANT then (dead_error (tstate (tcbs s t)), s)
      else (E_OK, make_ready t (setup_stacd t stacd s)))"

text \<open>\<open>_ter_tsk\<close>. \<open>None\<close> is a call that does not return.\<close>

definition leave_state :: "ID \<Rightarrow> 'a mtx_st_scheme \<Rightarrow> 'a mtx_st_scheme option" where
  "leave_state t s =
     (if tstate (tcbs s t) = TS_READY then Some (make_non_ready t s)
      else if in_wait (tstate (tcbs s t)) then
        (let s1 = wait_cancel t s
         in case rel_wai_hook (wspec (tcbs s1 t)) of None \<Rightarrow> Some s1 | Some h \<Rightarrow> kernel_rel_hook h t s1)
      else Some s)"

definition ter_tsk :: "ID \<Rightarrow> 'a mtx_st_scheme \<Rightarrow> 'a mtx_st_scheme option" where
  "ter_tsk t s =
     Option.bind (if svclocked (tcbs s t) \<noteq> None then AllUnlockSVC t s else Some s)
       (\<lambda>s1. Option.bind (leave_state t s1) (signal_all_mutex t))"

text \<open>\<open>force_dispatch\<close>: the context of the ended task is thrown away.\<close>

definition force_dispatch :: "'a kst_scheme \<Rightarrow> 'a kst_scheme" where
  "force_dispatch s = s\<lparr>ctxtsk := schedtsk s\<rparr>"

text \<open>A call from a task-independent part goes to the monitor and does not come back.\<close>

definition tk_ext_tsk :: "'a tsk_st_scheme \<Rightarrow> 'a tsk_st_scheme option" where
  "tk_ext_tsk s =
     (if in_indp s then None
      else map_option (\<lambda>s1. force_dispatch (make_dormant (me s) s1)) (ter_tsk (me s) s))"

definition tk_exd_tsk :: "'a tsk_st_scheme \<Rightarrow> ((int \<times> ATR) list \<times> 'a tsk_st_scheme) option" where
  "tk_exd_tsk s =
     (if in_indp s then None
      else map_option (\<lambda>s1. case del_tsk (me s) s1 of (fr, s2) \<Rightarrow> (fr, force_dispatch s2)) (ter_tsk (me s) s))"

definition tk_ter_tsk :: "ID \<Rightarrow> 'a tsk_st_scheme \<Rightarrow> (ER \<times> 'a tsk_st_scheme) option" where
  "tk_ter_tsk t s =
     (if check_other t s \<noteq> E_OK then Some (check_other t s, s)
      else if \<not> task_alive (tstate (tcbs s t)) then Some (dead_error (tstate (tcbs s t)), s)
      else if klocked (tcbs s t) then Some (E_OBJ, s)
      else map_option (\<lambda>s1. (E_OK, make_dormant t s1)) (ter_tsk t s))"

section \<open>Priorities and time slices\<close>

definition tk_chg_pri :: "ID \<Rightarrow> int \<Rightarrow> 'a mtx_st_scheme \<Rightarrow> (ER \<times> 'a mtx_st_scheme) option" where
  "tk_chg_pri tskid tskpri s =
     (if \<not> chk_tskid_self tskid s then Some (E_ID, s)
      else if tskpri \<noteq> TPRI_INI \<and> \<not> chk_pri tskpri then Some (E_PAR, s)
      else
        (let t = get_tcb_self tskid s
         in if tstate (tcbs s t) = TS_NONEXIST then Some (E_NOEXS, s)
            else change_base_priority t
                   (if tskpri = TPRI_INI then ipriority (tcbs s t) else int_priority tskpri) s))"

definition tk_rot_rdq :: "int \<Rightarrow> 'a kst_scheme \<Rightarrow> ER \<times> 'a kst_scheme" where
  "tk_rot_rdq tskpri s =
     (if tskpri \<noteq> TPRI_RUN \<and> \<not> chk_pri tskpri then (E_PAR, s)
      else if tskpri = TPRI_RUN then
        (E_OK, if in_indp s then rotate_ready_queue_run s
               else rotate_ready_queue (priority (tcbs s (me s))) s)
      else (E_OK, rotate_ready_queue (int_priority tskpri) s))"

definition tk_chg_slt_u :: "ID \<Rightarrow> RELTIM_U \<Rightarrow> 'a kst_scheme \<Rightarrow> ER \<times> 'a kst_scheme" where
  "tk_chg_slt_u tskid tm s =
     (if \<not> chk_tskid_self tskid s then (E_ID, s)
      else
        (let t = get_tcb_self tskid s
         in if tstate (tcbs s t) = TS_NONEXIST then (E_NOEXS, s)
            else (E_OK, tcb_upd t (\<lambda>c. c\<lparr>slicetime := tm\<rparr>) s)))"

definition tk_chg_slt :: "ID \<Rightarrow> UINT \<Rightarrow> 'a kst_scheme \<Rightarrow> ER \<times> 'a kst_scheme" where
  "tk_chg_slt tskid tm s = tk_chg_slt_u tskid (to_usec tm) s"

section \<open>Asking for the state\<close>

definition tk_get_tid :: "'a kst_scheme \<Rightarrow> ID" where
  "tk_get_tid s = (case ctxtsk s of None \<Rightarrow> 0 | Some t \<Rightarrow> t)"

definition zero_rtsk :: t_rtsk_u where
  "zero_rtsk = \<lparr>rt_exinf = 0, rt_tskpri = 0, rt_tskbpri = 0, rt_tskstat = 0, rt_tskwait = 0, rt_wid = 0,
     rt_wupcnt = 0, rt_suscnt = 0, rt_slicetime_u = 0, rt_waitmask = 0, rt_texmask = 0, rt_tskevent = 0\<rparr>"

text \<open>\<open>noreject\<close> is the flag that goes into the state word of a waiting task.\<close>

definition rtsk_packet :: "bool \<Rightarrow> ID \<Rightarrow> 'a kst_scheme \<Rightarrow> t_rtsk_u" where
  "rtsk_packet noreject t s =
     (let c = tcbs s t;
          stat = (if tstate c = TS_READY \<and> Some t = ctxtsk s then TTS_RUN
                  else push_bit 1 (ucast (tstat_val (tstate c))));
          w = in_wait (tstate c)
      in \<lparr>rt_exinf = exinf c, rt_tskpri = ext_tskpri (priority c), rt_tskbpri = ext_tskpri (bpriority c),
          rt_tskstat = (if w \<and> noreject then stat OR TTS_NODISWAI else stat),
          rt_tskwait = (if w then tskwait (wspec c) else 0), rt_wid = (if w then wid c else 0),
          rt_wupcnt = wupcnt c, rt_suscnt = suscnt c, rt_slicetime_u = slicetime c,
          rt_waitmask = waitmask c, rt_texmask = texmask c, rt_tskevent = ucast (tskevt c)\<rparr>)"

text \<open>\<open>old\<close> is what the packet holds before the call: an identifier out of range leaves it.\<close>

definition tk_ref_tsk_u :: "t_rtsk_u \<Rightarrow> ID \<Rightarrow> 'a kst_scheme \<Rightarrow> ER \<times> t_rtsk_u" where
  "tk_ref_tsk_u old tskid s =
     (if \<not> chk_tskid_self tskid s then (E_ID, old)
      else
        (let t = get_tcb_self tskid s
         in if tstate (tcbs s t) = TS_NONEXIST then (E_NOEXS, zero_rtsk)
            else (E_OK, rtsk_packet (nodiswai (tcbs s t)) t s)))"

text \<open>\<open>old\<close> is here what the stack of the caller holds at the place of \<open>lrtsk\<close>.\<close>

definition tk_ref_tsk :: "t_rtsk_u \<Rightarrow> ID \<Rightarrow> 'a kst_scheme \<Rightarrow> ER \<times> t_rtsk" where
  "tk_ref_tsk old tskid s =
     (case tk_ref_tsk_u old tskid s of
        (e, r) \<Rightarrow> (e, \<lparr>rm_tsk = r, rm_slicetime = to_msec (rt_slicetime_u r)\<rparr>))"

definition tk_inf_tsk_u :: "t_itsk_u \<Rightarrow> ID \<Rightarrow> bool \<Rightarrow> 'a kst_scheme \<Rightarrow> (ER \<times> t_itsk_u) \<times> 'a kst_scheme" where
  "tk_inf_tsk_u old tskid clr s =
     (if \<not> chk_tskid_self tskid s then ((E_ID, old), s)
      else
        (let t = get_tcb_self tskid s
         in if tstate (tcbs s t) = TS_NONEXIST then ((E_NOEXS, old), s)
            else ((E_OK, \<lparr>it_stime_u = stime (tcbs s t), it_utime_u = utime (tcbs s t)\<rparr>),
                  if clr then tcb_upd t (\<lambda>c. c\<lparr>stime := 0, utime := 0\<rparr>) s else s)))"

definition tk_inf_tsk :: "t_itsk_u \<Rightarrow> ID \<Rightarrow> bool \<Rightarrow> 'a kst_scheme \<Rightarrow> (ER \<times> t_itsk) \<times> 'a kst_scheme" where
  "tk_inf_tsk old tskid clr s =
     (case tk_inf_tsk_u old tskid clr s of
        ((e, r), s1) \<Rightarrow> ((e, \<lparr>it_stime = to_msec (it_stime_u r), it_utime = to_msec (it_utime_u r)\<rparr>), s1))"

definition tk_get_rid :: "ID \<Rightarrow> 'a kst_scheme \<Rightarrow> ER" where
  "tk_get_rid tskid s =
     (if \<not> chk_tskid_self tskid s then E_ID
      else if tstate (tcbs s (get_tcb_self tskid s)) = TS_NONEXIST then E_NOEXS
      else resid (tcbs s (get_tcb_self tskid s)))"

definition tk_set_rid :: "ID \<Rightarrow> ID \<Rightarrow> 'a tsk_st_scheme \<Rightarrow> ER \<times> 'a tsk_st_scheme" where
  "tk_set_rid tskid rid s =
     (if \<not> chk_tskid_self tskid s then (E_ID, s)
      else if \<not> chk_id (max_resid s) rid then (E_ID, s)
      else
        (let t = get_tcb_self tskid s
         in if tstate (tcbs s t) = TS_NONEXIST then (E_NOEXS, s)
            else (resid (tcbs s t), tcb_upd t (\<lambda>c. c\<lparr>resid := rid\<rparr>) s)))"

section \<open>Releasing a wait by force\<close>

definition tk_rel_wai :: "ID \<Rightarrow> 'a mtx_st_scheme \<Rightarrow> (ER \<times> 'a mtx_st_scheme) option" where
  "tk_rel_wai t s =
     (if check_tskid t s \<noteq> E_OK then Some (check_tskid t s, s)
      else if \<not> in_wait (tstate (tcbs s t)) then Some (dead_error (tstate (tcbs s t)), s)
      else map_option (Pair E_OK) (kernel_wait_release_ng t E_RLWAI s))"

definition WAIT_PATTERN :: UINT where
  "WAIT_PATTERN = TTW_SLP OR TTW_DLY OR TTW_SEM OR TTW_FLG OR TTW_MBX OR TTW_MTX OR TTW_SMBF OR TTW_RMBF OR
     TTW_CAL OR TTW_ACP OR TTW_RDV OR TTW_MPF OR TTW_MPL OR 0x00010000 OR 0x00020000 OR 0x00040000 OR
     0x00080000 OR 0x00100000 OR 0x00200000 OR 0x00400000 OR 0x00800000 OR TTX_SVC"

definition tk_dis_wai :: "ID \<Rightarrow> UINT \<Rightarrow> 'a mtx_st_scheme \<Rightarrow> (int \<times> 'a mtx_st_scheme) option" where
  "tk_dis_wai tskid wm s =
     (if \<not> chk_tskid_self tskid s then Some (E_ID, s)
      else if \<not> (wm AND NOT WAIT_PATTERN = 0 \<and> wm AND WAIT_PATTERN \<noteq> 0) then Some (E_PAR, s)
      else
        (let t = get_tcb_self tskid s
         in if tstate (tcbs s t) = TS_NONEXIST then Some (E_NOEXS, s)
            else
              (let s1 = tcb_upd t (\<lambda>c. c\<lparr>waitmask := wm\<rparr>) s;
                   w = tskwait (wspec (tcbs s1 t))
               in if \<not> in_wait (tstate (tcbs s1 t)) then Some (0, s1)
                  else if has w wm \<and> \<not> nodiswai (tcbs s1 t)
                  then map_option (Pair 0) (kernel_wait_release_ng t E_DISWAI s1)
                  else Some (sint w, s1))))"

definition tk_ena_wai :: "ID \<Rightarrow> 'a kst_scheme \<Rightarrow> ER \<times> 'a kst_scheme" where
  "tk_ena_wai tskid s =
     (if \<not> chk_tskid_self tskid s then (E_ID, s)
      else
        (let t = get_tcb_self tskid s
         in if tstate (tcbs s t) = TS_NONEXIST then (E_NOEXS, s)
            else (E_OK, tcb_upd t (\<lambda>c. c\<lparr>waitmask := 0\<rparr>) s)))"

section \<open>Debugger support\<close>

definition task_getname :: "ID \<Rightarrow> 'a kst_scheme \<Rightarrow> ER \<times> UB list option" where
  "task_getname tskid s =
     (if \<not> chk_tskid_self tskid s then (E_ID, None)
      else
        (let c = tcbs s (get_tcb_self tskid s)
         in if tstate c = TS_NONEXIST then (E_NOEXS, None)
            else if \<not> has (tskatr c) TA_DSNAME then (E_OBJ, None)
            else (E_OK, Some (tname c))))"

definition td_lst_tsk :: "int \<Rightarrow> 'a kst_scheme \<Rightarrow> int \<times> ID list" where
  "td_lst_tsk nent s =
     (let ids = filter (\<lambda>t. tstate (tcbs s t) \<noteq> TS_NONEXIST) [1..max_tskid s]
      in (int (length ids), take (nat nent) ids))"

text \<open>The code asks for \<open>nodiswai\<close> of the running task here.\<close>

definition td_ref_tsk_u :: "td_rtsk_u \<Rightarrow> ID \<Rightarrow> 'a tsk_st_scheme \<Rightarrow> ER \<times> td_rtsk_u" where
  "td_ref_tsk_u old tskid s =
     (if \<not> chk_tskid_self tskid s then (E_ID, old)
      else
        (let t = get_tcb_self tskid s; c = tskcbs s t
         in if tstate (tcbs s t) = TS_NONEXIST
            then (E_NOEXS, t_rtsk_u.extend zero_rtsk (td_rtsk_u.fields 0 0 0 0 0))
            else (E_OK, t_rtsk_u.extend (rtsk_packet (nodiswai (tcbs s (me s))) t s)
                    (td_rtsk_u.fields (task c) (stksz c) (sstksz c) (istack c) (isstack c)))))"

definition td_ref_tsk :: "td_rtsk_u \<Rightarrow> ID \<Rightarrow> 'a tsk_st_scheme \<Rightarrow> ER \<times> td_rtsk_u \<times> UINT" where
  "td_ref_tsk old tskid s =
     (case td_ref_tsk_u old tskid s of (e, r) \<Rightarrow> (e, r, to_msec (rt_slicetime_u r)))"

definition td_inf_tsk_u :: "t_itsk_u \<Rightarrow> ID \<Rightarrow> bool \<Rightarrow> 'a kst_scheme \<Rightarrow> (ER \<times> t_itsk_u) \<times> 'a kst_scheme" where
  "td_inf_tsk_u old tskid clr s =
     (if \<not> chk_tskid_self tskid s then ((E_ID, old), s)
      else
        (let t = get_tcb_self tskid s
         in if tstate (tcbs s t) = TS_NONEXIST then ((E_NOEXS, old), s)
            else ((E_OK, \<lparr>it_stime_u = stime (tcbs s t), it_utime_u = utime (tcbs s t)\<rparr>),
                  if clr then tcb_upd t (\<lambda>c. c\<lparr>stime := 0, utime := 0\<rparr>) s else s)))"

definition td_inf_tsk :: "t_itsk_u \<Rightarrow> ID \<Rightarrow> bool \<Rightarrow> 'a kst_scheme \<Rightarrow> (ER \<times> t_itsk) \<times> 'a kst_scheme" where
  "td_inf_tsk old tskid clr s =
     (case td_inf_tsk_u old tskid clr s of
        ((e, r), s1) \<Rightarrow> ((e, \<lparr>it_stime = to_msec (it_stime_u r), it_utime = to_msec (it_utime_u r)\<rparr>), s1))"

end
