(* ===== verification/Task_Life.thy ===== *)
theory Task_Life
  imports Task_Manage
begin

text \<open>
  The life of a task (\<open>task_manage.c\<close>): created, it is DORMANT, started it is READY, ended it is
  DORMANT again, deleted it is back in the free queue with its stacks freed. The ends of tasks are
  followed for tasks that hold no mutex and no lock and do not wait for an object that looks at its
  queue when a task leaves it; the mutexes are the subject of \<open>Mutex_Steps\<close>.
\<close>

section \<open>Stack sizes\<close>

lemma stack_round_spec:
  assumes "0 \<le> sz" "sz \<le> INT_MAX - 7"
  shows "sz \<le> stack_round sz" "stack_round sz < sz + 8" "8 dvd stack_round sz"
proof -
  have small: "to_INT x = x" if "0 \<le> x" "x \<le> INT_MAX" for x
    using that by (simp add: to_INT_def INT_MAX_def sint_sbintrunc' signed_take_bit_int_eq_self)
  have d: "(sz + 7) sdiv 8 = (sz + 7) div 8" using assms by (simp add: signed_divide_int_def sgn_if)
  have e: "(sz + 7) div 8 * 8 = sz + 7 - (sz + 7) mod 8" by (simp add: minus_mod_eq_div_mult)
  have m: "0 \<le> (sz + 7) mod 8" "(sz + 7) mod 8 < 8" by simp_all
  have r: "stack_round sz = (sz + 7) div 8 * 8"
    unfolding stack_round_def using assms m by (subst small) (simp_all add: d small e)
  show "sz \<le> stack_round sz" "stack_round sz < sz + 8" using m unfolding r e by auto
  show "8 dvd stack_round sz" unfolding r by simp
qed

text \<open>Close to \<open>INT_MAX\<close> the sum wraps around, and there is no stack.\<close>

lemma stack_round_wraps: "stack_round INT_MAX < 0" "stack_round (INT_MAX - 6) < 0"
  by (simp_all add: stack_round_def to_INT_def INT_MAX_def signed_divide_int_def)

section \<open>Creation and deletion\<close>

lemma make_dormant_sel [simp]:
  "tstate (tcbs (make_dormant t s) u) = (if u = t then TS_DORMANT else tstate (tcbs s u))"
  "klocked (tcbs (make_dormant t s) u) \<longleftrightarrow> u \<noteq> t \<and> klocked (tcbs s u)"
  "ipriority (tcbs (make_dormant t s) u) = ipriority (tcbs s u)"
  "que (make_dormant t s) = que s" "max_tskid (make_dormant t s) = max_tskid s"
  "klocktsk (make_dormant t s) = klocktsk s" "schedtsk (make_dormant t s) = schedtsk s"
  by (simp_all add: make_dormant_def)

lemma make_dormant_kinv:
  assumes k: "kinv_x {t} s" and u: "unqueued t s" and p: "ipriority (tcbs s t) < NUM_PRI"
  shows "kinv (make_dormant t s)"
proof -
  have "kinv_x {t} (make_dormant t s)"
    unfolding make_dormant_def by (rule tcb_upd_kinv_x [OF k u]) (use p in simp_all)
  then show ?thesis by (rule kinv_x_drop) simp
qed

text \<open>Such a task neither runs nor is about to.\<close>

lemma make_dormant_sched:
  assumes "sched_ok s"
  shows "sched_ok (make_dormant t s)"
  using assms by (simp add: sched_ok_def ready_queue_top_def make_dormant_def)

lemma init_tcb_sel [simp]:
  "que (init_tcb t pk a b s) = que s" "max_tskid (init_tcb t pk a b s) = max_tskid s"
  "tstate (tcbs (init_tcb t pk a b s) u) = tstate (tcbs s u)"
  "klocked (tcbs (init_tcb t pk a b s) u) = klocked (tcbs s u)"
  "ipriority (tcbs (init_tcb t pk a b s) t) = int_priority (ct_itskpri pk)"
  by (simp_all add: init_tcb_def Let_def tskcb_upd_def split_beta)

text \<open>The control blocks in the free queue are those of tasks that do not exist.\<close>

definition life_ok :: "'a kst_scheme \<Rightarrow> bool" where
  "life_ok s \<longleftrightarrow> kinv s \<and> sched_ok s \<and>
     (\<forall>t. t \<in> set (que s FreeTcb) \<longleftrightarrow> chk_id (max_tskid s) t \<and> tstate (tcbs s t) = TS_NONEXIST) \<and>
     (\<forall>t. tstate (tcbs s t) \<noteq> TS_NONEXIST \<longrightarrow> ipriority (tcbs s t) < NUM_PRI)"

lemma life_okD:
  assumes "life_ok s"
  shows "kinv s" "sched_ok s"
    "t \<in> set (que s FreeTcb) \<longleftrightarrow> chk_id (max_tskid s) t \<and> tstate (tcbs s t) = TS_NONEXIST"
    "tstate (tcbs s t) \<noteq> TS_NONEXIST \<Longrightarrow> ipriority (tcbs s t) < NUM_PRI"
  using assms by (simp_all add: life_ok_def)

lemma life_okI:
  assumes "kinv s" "sched_ok s"
    "\<And>t. t \<in> set (que s FreeTcb) \<longleftrightarrow> chk_id (max_tskid s) t \<and> tstate (tcbs s t) = TS_NONEXIST"
    "\<And>t. tstate (tcbs s t) \<noteq> TS_NONEXIST \<Longrightarrow> ipriority (tcbs s t) < NUM_PRI"
  shows "life_ok s"
  using assms by (simp add: life_ok_def)

lemma tskcb_upd_inv [simp]:
  "kinv_x X (tskcb_upd t f s) = kinv_x X s" "sched_ok (tskcb_upd t f s) = sched_ok s"
  "tcbs (tskcb_upd t f s) = tcbs s" "que (tskcb_upd t f s) = que s" "max_tskid (tskcb_upd t f s) = max_tskid s"
  "unqueued u (tskcb_upd t f s) = unqueued u s"
  by (simp_all add: tskcb_upd_def kinv_x_def rdq_ok_def sched_ok_def ready_queue_top_def unqueued_def split: option.split)

lemma init_tcb_kinv:
  assumes k: "kinv_x {t} s" and u: "unqueued t s" and n: "tstate (tcbs s t) = TS_NONEXIST"
  shows "kinv_x {t} (init_tcb t pk a b s)"
proof -
  have "kinv_x {t} (tcb_upd t f s')"
    if "kinv_x {t} s'" "unqueued t s'" "tstate (f (tcbs s' t)) = TS_NONEXIST" for f and s' :: "'a tsk_st_scheme"
    by (rule tcb_upd_kinv_x [OF that(1,2)]) (use that(3) in simp_all)
  then show ?thesis using k u n by (simp add: init_tcb_def Let_def split_beta)
qed

lemma tcb_upd_sched_same:
  assumes "tstate (f (tcbs s t)) = tstate (tcbs s t)" "klocked (f (tcbs s t)) = klocked (tcbs s t)"
  shows "sched_ok (tcb_upd t f s) = sched_ok s"
  using assms by (intro sched_ok_cong) simp_all

lemma init_tcb_sched [simp]: "sched_ok (init_tcb t pk a b s) = sched_ok s"
  by (simp add: init_tcb_def Let_def split_beta tcb_upd_sched_same)

lemma init_tcb_other [simp]: "u \<noteq> t \<Longrightarrow> tcbs (init_tcb t pk a b s) u = tcbs s u"
  by (simp add: init_tcb_def Let_def split_beta)

text \<open>An entry is taken from the free queue.\<close>

lemma take_tcb:
  assumes ok: "life_ok s" and h: "que s FreeTcb = t # ts"
  shows "kinv (que_remove t s)" "unqueued t (que_remove t s)" "sched_ok (que_remove t s)"
    "tstate (tcbs s t) = TS_NONEXIST" "chk_id (max_tskid s) t" "set (que (que_remove t s) FreeTcb) = set (que s FreeTcb) - {t}"
proof -
  have m: "t \<in> set (que s FreeTcb)" using h by simp
  then show n: "tstate (tcbs s t) = TS_NONEXIST" and "chk_id (max_tskid s) t" using life_okD(3) [OF ok, of t] by auto
  show "kinv (que_remove t s)" by (rule que_remove_kinv_x [OF life_okD(1) [OF ok]]) (simp add: n)
  show "unqueued t (que_remove t s)" by (simp add: unqueued_def que_que_remove)
  show "set (que (que_remove t s) FreeTcb) = set (que s FreeTcb) - {t}" by (auto simp: que_que_remove)
  have "t \<notin> set (que s (Rdy p))" for p using not_ready_not_queued [OF life_okD(1) [OF ok]] n by simp
  then have "que (que_remove t s) (Rdy p) = que s (Rdy p)" for p by (simp add: que_que_remove removeAll_id)
  then have "sched_ok (que_remove t s) = sched_ok s" by (intro sched_ok_cong) simp_all
  then show "sched_ok (que_remove t s)" using life_okD(2) [OF ok] by simp
qed

lemma int_priority_bound: "chk_pri p \<Longrightarrow> int_priority p < NUM_PRI"
  by (auto simp: chk_pri_def int_priority_def NUM_PRI_def nat_less_iff)

lemma ctsk_error_pri: "ctsk_error pk s = E_OK \<Longrightarrow> chk_pri (ct_itskpri pk)"
  by (auto simp: ctsk_error_def Let_def ercd_values split: if_splits)

lemma tk_cre_tsk_ok:
  assumes ok: "life_ok s"
  shows "life_ok (snd (tk_cre_tsk sa ua pk s))"
proof (cases "ctsk_error pk s = E_OK \<and> (\<exists>t ts. que s FreeTcb = t # ts)")
  case True
  then obtain t ts where h: "que s FreeTcb = t # ts" by blast
  note tk = take_tcb [OF ok h]
  have "life_ok (make_dormant t (init_tcb t pk a b (que_remove t s)))" for a b
  proof (rule life_okI)
    have k: "kinv_x {t} (init_tcb t pk a b (que_remove t s))"
      using kinv_x_mono [OF tk(1), of "{t}"] tk(2,4) by (intro init_tcb_kinv) simp_all
    show "kinv (make_dormant t (init_tcb t pk a b (que_remove t s)))"
      using True tk(2) by (intro make_dormant_kinv [OF k])
        (auto simp: unqueued_def intro!: int_priority_bound ctsk_error_pri)
    show "sched_ok (make_dormant t (init_tcb t pk a b (que_remove t s)))"
      using tk(3,4) by (intro make_dormant_sched) (simp add: init_tcb_sched)
    show "u \<in> set (que (make_dormant t (init_tcb t pk a b (que_remove t s))) FreeTcb) \<longleftrightarrow>
        chk_id (max_tskid (make_dormant t (init_tcb t pk a b (que_remove t s)))) u \<and>
        tstate (tcbs (make_dormant t (init_tcb t pk a b (que_remove t s))) u) = TS_NONEXIST" for u
      using tk(6) life_okD(3) [OF ok, of u] by (simp add: que_que_remove)
    show "ipriority (tcbs (make_dormant t (init_tcb t pk a b (que_remove t s))) u) < NUM_PRI"
      if "tstate (tcbs (make_dormant t (init_tcb t pk a b (que_remove t s))) u) \<noteq> TS_NONEXIST" for u
      using that True life_okD(4) [OF ok, of u]
      by (cases "u = t") (auto intro!: int_priority_bound ctsk_error_pri)
  qed
  then show ?thesis
    using ok True h by (simp add: tk_cre_tsk_def que_remove_next_def split: option.split prod.split)
next
  case False
  then show ?thesis using ok
    by (cases "que s FreeTcb") (auto simp: tk_cre_tsk_def que_remove_next_def split: option.split prod.split)
qed

text \<open>A task that is DORMANT is in no queue, and its deletion puts it back into the free queue.\<close>

lemma dormant_unqueued:
  assumes k: "kinv s" and d: "tstate (tcbs s t) = TS_DORMANT"
  shows "unqueued t s" "\<not> klockwait (tcbs s t)" "priority (tcbs s t) < NUM_PRI"
proof -
  note kd = kinv_xD [OF k]
  show "unqueued t s"
    unfolding unqueued_def
  proof
    fix q show "t \<notin> set (que s q)"
      using kd(3)[of t] kd(5)[of t] kd(6)[of t] kd(7)[of t] d by (cases q) (auto simp: task_alive_iff)
  qed
  show "\<not> klockwait (tcbs s t)" using k d unfolding kinv_x_def by (metis tstat.distinct(1,3,5,7,9,11,13,15,17,19,21,23,25,27,29))
  show "priority (tcbs s t) < NUM_PRI" using kd(8) [of t] d by simp
qed

lemma free_insert_kinv:
  assumes k: "kinv s" and u: "unqueued t s" and n: "tstate (tcbs s t) = TS_NONEXIST"
  shows "kinv (que_insert t FreeTcb s)"
proof -
  note kd = kinv_xD [OF k]
  have "rdq_ok (que_insert t FreeTcb s)"
    using kd(1) u unfolding rdq_ok_def by (auto simp: que_que_insert que_ok_insert unqueuedD)
  then show ?thesis using k n unfolding kinv_x_def by simp
qed

lemma del_tsk_ok:
  assumes ok: "life_ok s" and d: "tstate (tcbs s t) = TS_DORMANT" and c: "chk_id (max_tskid s) t"
  shows "life_ok (snd (del_tsk t s))"
proof -
  let ?s1 = "tcb_upd t (\<lambda>c. c\<lparr>tstate := TS_NONEXIST\<rparr>) s"
  note dq = dormant_unqueued [OF life_okD(1) [OF ok] d]
  have e: "snd (del_tsk t s) = que_insert t FreeTcb ?s1"
    by (simp add: del_tsk_def Let_def que_insert_def tcb_upd_def)
  have k: "kinv (que_insert t FreeTcb ?s1)"
  proof (rule free_insert_kinv)
    have "kinv_x {t} ?s1"
      using kinv_x_mono [OF life_okD(1) [OF ok], of "{t}"] dq by (intro tcb_upd_kinv_x) simp_all
    then show "kinv ?s1" by (rule kinv_x_drop) simp
  qed (use dq in simp_all)
  show ?thesis unfolding e
  proof (rule life_okI [OF k])
    show "sched_ok (que_insert t FreeTcb ?s1)"
      using life_okD(2) [OF ok] by (auto simp: sched_ok_def ready_queue_top_def)
  qed (use life_okD(3,4) [OF ok] c in \<open>auto split: if_splits\<close>)
qed

lemma check_other_id: "check_other t s = E_OK \<Longrightarrow> chk_id (max_tskid s) t"
  by (auto simp: check_other_def check_tskid_def ercd_values split: if_splits)

lemma tk_del_tsk_ok: "life_ok s \<Longrightarrow> life_ok (snd (tk_del_tsk t s))"
  using del_tsk_ok [of s t] check_other_id [of t s]
  by (auto simp: tk_del_tsk_def split: prod.split)

text \<open>A task that is started is put behind the ready tasks of its priority.\<close>

lemma setup_stacd_sel [simp]:
  "kinv_x X (setup_stacd t c s) = kinv_x X s" "sched_ok (setup_stacd t c s) = sched_ok s"
  "tcbs (setup_stacd t c s) = tcbs s" "que (setup_stacd t c s) = que s"
  "max_tskid (setup_stacd t c s) = max_tskid s" "unqueued u (setup_stacd t c s) = unqueued u s"
  by (simp_all add: setup_stacd_def)

lemma tk_sta_tsk_ok:
  assumes ok: "life_ok s"
  shows "life_ok (snd (tk_sta_tsk t stacd s))"
proof (cases "check_other t s = E_OK \<and> tstate (tcbs s t) = TS_DORMANT")
  case True
  let ?s = "setup_stacd t stacd s"
  note dq = dormant_unqueued [OF life_okD(1) [OF ok], of t]
  have k: "kinv_x {t} ?s" using kinv_x_mono [OF life_okD(1) [OF ok], of "{t}"] by simp
  have nl: "\<not> klocked (tcbs s t)" using life_okD(2) [OF ok] True by (auto simp: sched_ok_def)
  have u: "unqueued t ?s" using True dq by simp
  have "life_ok (make_ready t ?s)"
  proof (rule life_okI)
    show "kinv (make_ready t ?s)" "sched_ok (make_ready t ?s)"
      using k True dq nl life_okD(2) [OF ok]
      by (auto intro!: make_ready_kinv_x make_ready_sched_ok)
    show "u \<in> set (que (make_ready t ?s) FreeTcb) \<longleftrightarrow>
        chk_id (max_tskid (make_ready t ?s)) u \<and> tstate (tcbs (make_ready t ?s) u) = TS_NONEXIST" for u
      using life_okD(3) [OF ok, of u] life_okD(3) [OF ok, of t] True
      by (auto simp: make_ready_que [OF k u])
    show "ipriority (tcbs (make_ready t ?s) u) < NUM_PRI"
      if "tstate (tcbs (make_ready t ?s) u) \<noteq> TS_NONEXIST" for u
      using that life_okD(4) [OF ok, of u] True make_ready_tcbs [of t ?s u] by (auto split: if_splits)
  qed
  then show ?thesis using True by (simp add: tk_sta_tsk_def)
qed (use ok in \<open>auto simp: tk_sta_tsk_def\<close>)

text \<open>Deletion frees the stacks that creation allocated: the very addresses the allocator returned.\<close>

lemma cre_del_frees:
  assumes c: "ctsk_error pk s = E_OK" and f: "que s FreeTcb = t # ts"
    and a: "sys_alloc (word_of_int (fst (stack_sizes pk (default_sstksz s)))) TA_RNG0 = Some sstack"
    and u: "usr_alloc (word_of_int (snd (stack_sizes pk (default_sstksz s)))) (ct_tskatr pk) = Some stack"
    and p: "0 \<le> fst (stack_sizes pk (default_sstksz s))"
  defines "s' \<equiv> snd (tk_cre_tsk sys_alloc usr_alloc pk s)"
  shows "fst (tk_cre_tsk sys_alloc usr_alloc pk s) = t"
    "fst (del_tsk t s') = (int sstack, TA_RNG0) #
       (if snd (stack_sizes pk (default_sstksz s)) > 0 then [(int stack, ct_tskatr pk)] else [])"
proof -
  obtain ssz usz where z: "stack_sizes pk (default_sstksz s) = (ssz, usz)" by fastforce
  have m: "tskcbs (make_dormant t x) = tskcbs x" "tskatr (tcbs (make_dormant t x) t) = tskatr (tcbs x t)"
    "default_sstksz (que_remove t x) = default_sstksz x" for x :: "'a tsk_st_scheme"
    by (simp_all add: make_dormant_def que_remove_def tcb_upd_def)
  show "fst (tk_cre_tsk sys_alloc usr_alloc pk s) = t"
    using c f a u z by (simp add: tk_cre_tsk_def que_remove_next_def)
  have e: "\<exists>b. s' = make_dormant t (init_tcb t pk b sstack (que_remove t s)) \<and> (usz > 0 \<longrightarrow> b = stack)"
    using c f a u z unfolding s'_def by (cases "usz > 0") (auto simp: tk_cre_tsk_def que_remove_next_def)
  then obtain b where b: "s' = make_dormant t (init_tcb t pk b sstack (que_remove t s))" "usz > 0 \<longrightarrow> b = stack"
    by blast
  show "fst (del_tsk t s') = (int sstack, TA_RNG0) #
       (if snd (stack_sizes pk (default_sstksz s)) > 0 then [(int stack, ct_tskatr pk)] else [])"
    using p b(2) z unfolding b(1)
    by (auto simp: del_tsk_def Let_def m init_tcb_def tskcb_upd_def)
qed

end
