(* ===== verification/Time_Calls.thy ===== *)
theory Time_Calls
  imports Task_Manage
begin

text \<open>
  Time management (\<open>time_calls.c\<close>) and the timer interrupt (\<open>timer.c\<close>): the system clock, delays,
  cyclic handlers and alarm handlers. The handlers are user code: \<open>usr exinf hdr s\<close> is the state
  after the handler at \<open>hdr\<close> was called. While a control block is free, its first two fields are the
  link of the free queue.
\<close>

section \<open>State\<close>

record cyccb =
  cyc_exinf :: addr
  cycatr :: ATR
  cychdr :: addr
  cycstat :: UINT
  cyctim :: RELTIM_U
  cyc_name :: "UB list"

record almcb =
  alm_exinf :: addr
  almatr :: ATR
  almhdr :: addr
  almstat :: UINT
  alm_name :: "UB list"

record tim_st = tsk_st +
  real_time_ofs :: LSYSTIM
  hw_nsec :: UINT
  cyccb_table :: "ID \<Rightarrow> cyccb"
  free_cyccb :: "ID list"
  max_cycid :: ID
  almcb_table :: "ID \<Rightarrow> almcb"
  free_almcb :: "ID list"
  max_almid :: ID

record t_ccyc_u =
  cc_exinf :: addr
  cc_cycatr :: ATR
  cc_cychdr :: addr
  cc_cyctim_u :: RELTIM_U
  cc_cycphs_u :: RELTIM_U
  cc_dsname :: "UB list"

record t_ccyc =
  cm_exinf :: addr
  cm_cycatr :: ATR
  cm_cychdr :: addr
  cm_cyctim :: UINT
  cm_cycphs :: UINT
  cm_dsname :: "UB list"

record t_calm =
  ca_exinf :: addr
  ca_almatr :: ATR
  ca_almhdr :: addr
  ca_dsname :: "UB list"

text \<open>\<open>T_RCYC_U\<close> and \<open>T_RALM_U\<close> have the same members, and so have the packets in milliseconds.\<close>

record t_rhdr_u =
  rh_exinf :: addr
  rh_lfttim_u :: RELTIM_U
  rh_stat :: UINT

record t_rhdr =
  rhm_exinf :: addr
  rhm_lfttim :: UINT
  rhm_stat :: UINT

type_synonym 's usr = "addr \<Rightarrow> addr \<Rightarrow> 's \<Rightarrow> 's"

definition upd_cyccb :: "ID \<Rightarrow> (cyccb \<Rightarrow> cyccb) \<Rightarrow> 'a tim_st_scheme \<Rightarrow> 'a tim_st_scheme" where
  "upd_cyccb i f s = s\<lparr>cyccb_table := (cyccb_table s)(i := f (cyccb_table s i))\<rparr>"

definition upd_almcb :: "ID \<Rightarrow> (almcb \<Rightarrow> almcb) \<Rightarrow> 'a tim_st_scheme \<Rightarrow> 'a tim_st_scheme" where
  "upd_almcb i f s = s\<lparr>almcb_table := (almcb_table s)(i := f (almcb_table s i))\<rparr>"

definition TA_STA :: ATR where "TA_STA = 0x00000002"
definition TA_PHS :: ATR where "TA_PHS = 0x00000004"
definition TCYC_STP :: UINT where "TCYC_STP = 0x00"
definition TCYC_STA :: UINT where "TCYC_STA = 0x01"
definition TALM_STP :: UINT where "TALM_STP = 0x00"
definition TALM_STA :: UINT where "TALM_STA = 0x01"

section \<open>The system clock\<close>

text \<open>\<open>SYSTIM\<close>: milliseconds in two halves, the upper one signed.\<close>

definition toLSYSTIM :: "int \<times> UINT \<Rightarrow> LSYSTIM" where
  "toLSYSTIM tm = word_of_int ((fst tm * 2 ^ 32 + uint (snd tm)) * 1000)"

definition systim_ms :: "LSYSTIM \<Rightarrow> int" where
  "systim_ms l = sint l sdiv 1000"

definition toSYSTIM :: "LSYSTIM \<Rightarrow> int \<times> UINT" where
  "toSYSTIM l = (systim_ms l div 2 ^ 32, word_of_int (systim_ms l))"

text \<open>The microseconds that are left.\<close>

definition systim_us :: "LSYSTIM \<Rightarrow> UINT" where
  "systim_us l = word_of_int (sint l - systim_ms l * 1000)"

definition real_time :: "'a tim_st_scheme \<Rightarrow> LSYSTIM" where
  "real_time s = current_time s + real_time_ofs s"

definition tk_set_tim :: "int \<times> UINT \<Rightarrow> 'a tim_st_scheme \<Rightarrow> ER \<times> 'a tim_st_scheme" where
  "tk_set_tim tm s =
     (if \<not> fst tm \<ge> 0 then (E_PAR, s)
      else (E_OK, s\<lparr>real_time_ofs := toLSYSTIM tm - current_time s\<rparr>))"

definition tk_set_tim_u :: "LSYSTIM \<Rightarrow> 'a tim_st_scheme \<Rightarrow> ER \<times> 'a tim_st_scheme" where
  "tk_set_tim_u tm s =
     (if \<not> sint tm \<ge> 0 then (E_PAR, s) else (E_OK, s\<lparr>real_time_ofs := tm - current_time s\<rparr>))"

definition tk_get_tim :: "'a tim_st_scheme \<Rightarrow> int \<times> UINT" where
  "tk_get_tim s = toSYSTIM (real_time s)"

definition tk_get_tim_u :: "'a tim_st_scheme \<Rightarrow> LSYSTIM \<times> UINT" where
  "tk_get_tim_u s = (real_time s, hw_nsec s)"

definition tk_get_otm :: "'a tim_st_scheme \<Rightarrow> int \<times> UINT" where
  "tk_get_otm s = toSYSTIM (current_time s)"

definition tk_get_otm_u :: "'a tim_st_scheme \<Rightarrow> LSYSTIM \<times> UINT" where
  "tk_get_otm_u s = (current_time s, hw_nsec s)"

definition td_get_tim :: "'a tim_st_scheme \<Rightarrow> (int \<times> UINT) \<times> UINT" where
  "td_get_tim s = (toSYSTIM (real_time s), systim_us (real_time s) * 1000 + hw_nsec s)"

definition td_get_tim_u :: "'a tim_st_scheme \<Rightarrow> LSYSTIM \<times> UINT" where
  "td_get_tim_u s = (real_time s, hw_nsec s)"

definition td_get_otm :: "'a tim_st_scheme \<Rightarrow> (int \<times> UINT) \<times> UINT" where
  "td_get_otm s = (toSYSTIM (current_time s), systim_us (current_time s) * 1000 + hw_nsec s)"

definition td_get_otm_u :: "'a tim_st_scheme \<Rightarrow> LSYSTIM \<times> UINT" where
  "td_get_otm_u s = (current_time s, hw_nsec s)"

section \<open>Delays\<close>

definition wspec_dly :: wspec where
  "wspec_dly = \<lparr>tskwait = TTW_DLY, chg_pri_hook = None, rel_wai_hook = None\<rparr>"

definition tk_dly_tsk_u :: "RELTIM_U \<Rightarrow> 'a kst_scheme \<Rightarrow> sysret \<times> 'a kst_scheme" where
  "tk_dly_tsk_u dlytim s =
     (if in_ddsp s then (Ret E_CTX, s)
      else if dlytim > 0 then
        (if has (waitmask (tcbs s (me s))) TTW_DLY then (Ret E_DISWAI, s)
         else (Blocked, make_wait_reltim dlytim 0
                (tcb_upd (me s) (\<lambda>c. c\<lparr>wspec := wspec_dly, wid := 0, wercd := E_OK\<rparr>) s)))
      else (Ret E_OK, s))"

definition tk_dly_tsk :: "UINT \<Rightarrow> 'a kst_scheme \<Rightarrow> sysret \<times> 'a kst_scheme" where
  "tk_dly_tsk dlytim s = tk_dly_tsk_u (to_usec dlytim) s"

section \<open>Cyclic handlers\<close>

definition cyclichandler_initialize :: "int \<times> int \<Rightarrow> bool \<Rightarrow> 'a tim_st_scheme \<Rightarrow> ER \<times> 'a tim_st_scheme" where
  "cyclichandler_initialize cfn malloc_ok s =
     (let s1 = s\<lparr>max_cycid := snd cfn\<rparr>
      in if fst cfn < 1 \<or> max_cycid s1 < 1 then (E_SYS, s1)
         else if \<not> malloc_ok then (E_NOMEM, s1)
         else (E_OK, fold (\<lambda>i s. (upd_cyccb i (\<lambda>c. c\<lparr>cychdr := NULL\<rparr>) s)\<lparr>free_cyccb := free_cyccb s @ [i]\<rparr>)
                       [1..max_cycid s1] (s1\<lparr>free_cyccb := []\<rparr>)))"

text \<open>\<open>lui_div\<close> and \<open>lui_mul\<close> have an unsigned operand, so they are unsigned.\<close>

definition next_time :: "LSYSTIM \<Rightarrow> RELTIM_U \<Rightarrow> LSYSTIM \<Rightarrow> LSYSTIM" where
  "next_time now cyc tm0 =
     (let tm = tm0 + cyc
      in if ll_cmp tm now \<le> 0 then tm0 + ((now - tm0) div cyc + 1) * cyc else tm)"

definition cyc_next_time :: "ID \<Rightarrow> 'a tim_st_scheme \<Rightarrow> LSYSTIM" where
  "cyc_next_time i s =
     next_time (current_time s) (cyctim (cyccb_table s i)) (tm_time (tmebs s (CycTm i)))"

definition cyc_timer_insert :: "ID \<Rightarrow> LSYSTIM \<Rightarrow> 'a kst_scheme \<Rightarrow> 'a kst_scheme" where
  "cyc_timer_insert i tm = timer_insert_abs (CycTm i) tm (Some (CB_call_cychdr i))"

definition call_cychdr :: "'a tim_st_scheme usr \<Rightarrow> ID \<Rightarrow> 'a tim_st_scheme \<Rightarrow> 'a tim_st_scheme" where
  "call_cychdr usr i s =
     usr (cyc_exinf (cyccb_table s i)) (cychdr (cyccb_table s i)) (cyc_timer_insert i (cyc_next_time i s) s)"

text \<open>The handler is called as a task-independent part, which may be so already.\<close>

definition independent :: "('a kst_scheme \<Rightarrow> 'a kst_scheme) \<Rightarrow> 'a kst_scheme \<Rightarrow> 'a kst_scheme" where
  "independent f s = (f (s\<lparr>task_indep := True\<rparr>))\<lparr>task_indep := task_indep s\<rparr>"

definition immediate_call_cychdr :: "'a tim_st_scheme usr \<Rightarrow> ID \<Rightarrow> 'a tim_st_scheme \<Rightarrow> 'a tim_st_scheme" where
  "immediate_call_cychdr usr i s =
     independent (usr (cyc_exinf (cyccb_table s i)) (cychdr (cyccb_table s i)))
       (cyc_timer_insert i (cyc_next_time i s) s)"

definition VALID_CYCATR :: ATR where
  "VALID_CYCATR = TA_HLNG OR TA_STA OR TA_PHS OR TA_DSNAME"

text \<open>The event time is in the timer event block also while the handler is stopped.\<close>

definition first_start :: "'a tim_st_scheme usr \<Rightarrow> ID \<Rightarrow> t_ccyc_u \<Rightarrow> 'a tim_st_scheme \<Rightarrow> 'a tim_st_scheme" where
  "first_start usr i pk s =
     (let tm = (current_time s + cc_cycphs_u pk) + adjust_time s
      in if has (cc_cycatr pk) TA_STA then
           (let s1 = upd_cyccb i (\<lambda>c. c\<lparr>cycstat := TCYC_STA\<rparr>) s
            in if cc_cycphs_u pk = 0 then immediate_call_cychdr usr i (set_time (CycTm i) tm s1)
               else cyc_timer_insert i tm s1)
         else set_time (CycTm i) tm (upd_cyccb i (\<lambda>c. c\<lparr>cycstat := TCYC_STP\<rparr>) s))"

definition tk_cre_cyc_u ::
  "'a tim_st_scheme usr \<Rightarrow> t_ccyc_u \<Rightarrow> 'a tim_st_scheme \<Rightarrow> ER \<times> 'a tim_st_scheme" where
  "tk_cre_cyc_u usr pk s =
     (if \<not> chk_rsatr (cc_cycatr pk) VALID_CYCATR then (E_RSATR, s)
      else if \<not> cc_cychdr pk \<noteq> NULL then (E_PAR, s)
      else if \<not> cc_cyctim_u pk > 0 then (E_PAR, s)
      else (case free_cyccb s of
              [] \<Rightarrow> (E_LIMIT, s)
            | i # free \<Rightarrow>
                let s1 = upd_cyccb i (\<lambda>c. c\<lparr>cyc_exinf := cc_exinf pk, cycatr := cc_cycatr pk,
                           cychdr := cc_cychdr pk, cyctim := cc_cyctim_u pk\<rparr>) (s\<lparr>free_cyccb := free\<rparr>);
                    s2 = (if has (cc_cycatr pk) TA_DSNAME
                          then upd_cyccb i (\<lambda>c. c\<lparr>cyc_name :=
                                 tkl_strncpy (cc_dsname pk) OBJECT_NAME_LENGTH\<rparr>) s1
                          else s1)
                in (i, first_start usr i pk s2)))"

text \<open>\<open>name0\<close> is what the stack holds at the place of \<open>lccyc.dsname\<close>.\<close>

definition tk_cre_cyc ::
  "'a tim_st_scheme usr \<Rightarrow> UB list \<Rightarrow> t_ccyc \<Rightarrow> 'a tim_st_scheme \<Rightarrow> ER \<times> 'a tim_st_scheme" where
  "tk_cre_cyc usr name0 pk s =
     tk_cre_cyc_u usr \<lparr>cc_exinf = cm_exinf pk, cc_cycatr = cm_cycatr pk, cc_cychdr = cm_cychdr pk,
       cc_cyctim_u = to_usec (cm_cyctim pk), cc_cycphs_u = to_usec (cm_cycphs pk),
       cc_dsname = (if has (cm_cycatr pk) TA_DSNAME
                    then tkl_strncpy (cm_dsname pk) OBJECT_NAME_LENGTH else name0)\<rparr> s"

definition tk_del_cyc :: "ID \<Rightarrow> 'a tim_st_scheme \<Rightarrow> ER \<times> 'a tim_st_scheme" where
  "tk_del_cyc i s =
     (if \<not> chk_id (max_cycid s) i then (E_ID, s)
      else if cychdr (cyccb_table s i) = NULL then (E_NOEXS, s)
      else
        (let s1 = (if has (cycstat (cyccb_table s i)) TCYC_STA then timer_delete (CycTm i) s else s);
             s2 = s1\<lparr>free_cyccb := free_cyccb s1 @ [i]\<rparr>
         in (E_OK, upd_cyccb i (\<lambda>c. c\<lparr>cychdr := NULL\<rparr>) s2)))"

definition tk_sta_cyc :: "ID \<Rightarrow> 'a tim_st_scheme \<Rightarrow> ER \<times> 'a tim_st_scheme" where
  "tk_sta_cyc i s =
     (if \<not> chk_id (max_cycid s) i then (E_ID, s)
      else
        (let cb = cyccb_table s i; sta = has (cycstat cb) TCYC_STA
         in if cychdr cb = NULL then (E_NOEXS, s)
            else
              (let s1 = (if has (cycatr cb) TA_PHS then
                           (if sta then s
                            else
                              (let tm = tm_time (tmebs s (CycTm i));
                                   tm1 = (if ll_cmp tm (current_time s) \<le> 0 then cyc_next_time i s else tm)
                               in cyc_timer_insert i tm1 s))
                         else
                           (let s1 = (if sta then timer_delete (CycTm i) s else s)
                            in cyc_timer_insert i ((current_time s1 + cyctim cb) + adjust_time s1) s1))
               in (E_OK, upd_cyccb i (\<lambda>c. c\<lparr>cycstat := cycstat c OR TCYC_STA\<rparr>) s1))))"

definition tk_stp_cyc :: "ID \<Rightarrow> 'a tim_st_scheme \<Rightarrow> ER \<times> 'a tim_st_scheme" where
  "tk_stp_cyc i s =
     (if \<not> chk_id (max_cycid s) i then (E_ID, s)
      else if cychdr (cyccb_table s i) = NULL then (E_NOEXS, s)
      else
        (let s1 = (if has (cycstat (cyccb_table s i)) TCYC_STA then timer_delete (CycTm i) s else s)
         in (E_OK, upd_cyccb i (\<lambda>c. c\<lparr>cycstat := cycstat c AND NOT TCYC_STA\<rparr>) s1)))"

text \<open>The time left until \<open>tm\<close>, as the reference calls report it.\<close>

definition left_time :: "LSYSTIM \<Rightarrow> 'a kst_scheme \<Rightarrow> RELTIM_U" where
  "left_time tm s =
     (let l = (tm - current_time s) - adjust_time s in if sint l < 0 then 0 else l)"

definition cyc_packet :: "ID \<Rightarrow> 'a tim_st_scheme \<Rightarrow> t_rhdr_u" where
  "cyc_packet i s =
     (let cb = cyccb_table s i;
          tm = tm_time (tmebs s (CycTm i));
          tm1 = (if \<not> has (cycstat cb) TCYC_STA \<and> ll_cmp tm (current_time s) \<le> 0 then cyc_next_time i s else tm)
      in \<lparr>rh_exinf = cyc_exinf cb, rh_lfttim_u = left_time tm1 s, rh_stat = cycstat cb\<rparr>)"

text \<open>\<open>old\<close> is what the packet holds before the call; an error leaves it so.\<close>

definition tk_ref_cyc_u :: "t_rhdr_u \<Rightarrow> ID \<Rightarrow> 'a tim_st_scheme \<Rightarrow> ER \<times> t_rhdr_u" where
  "tk_ref_cyc_u old i s =
     (if \<not> chk_id (max_cycid s) i then (E_ID, old)
      else if cychdr (cyccb_table s i) = NULL then (E_NOEXS, old)
      else (E_OK, cyc_packet i s))"

definition in_msec :: "ER \<times> t_rhdr_u \<Rightarrow> ER \<times> t_rhdr" where
  "in_msec r = (fst r, \<lparr>rhm_exinf = rh_exinf (snd r), rhm_lfttim = to_msec (rh_lfttim_u (snd r)),
     rhm_stat = rh_stat (snd r)\<rparr>)"

definition tk_ref_cyc :: "t_rhdr_u \<Rightarrow> ID \<Rightarrow> 'a tim_st_scheme \<Rightarrow> ER \<times> t_rhdr" where
  "tk_ref_cyc old i s = in_msec (tk_ref_cyc_u old i s)"

definition cyclichandler_getname :: "ID \<Rightarrow> 'a tim_st_scheme \<Rightarrow> ER \<times> UB list option" where
  "cyclichandler_getname i s =
     (if \<not> chk_id (max_cycid s) i then (E_ID, None)
      else if cychdr (cyccb_table s i) = NULL then (E_NOEXS, None)
      else if \<not> has (cycatr (cyccb_table s i)) TA_DSNAME then (E_OBJ, None)
      else (E_OK, Some (cyc_name (cyccb_table s i))))"

definition td_lst_cyc :: "int \<Rightarrow> 'a tim_st_scheme \<Rightarrow> int \<times> ID list" where
  "td_lst_cyc nent s =
     (let ids = filter (\<lambda>j. cychdr (cyccb_table s j) \<noteq> NULL) [1..max_cycid s]
      in (int (length ids), take (nat nent) ids))"

definition td_ref_cyc_u :: "t_rhdr_u \<Rightarrow> ID \<Rightarrow> 'a tim_st_scheme \<Rightarrow> ER \<times> t_rhdr_u" where
  "td_ref_cyc_u old i s =
     (if \<not> chk_id (max_cycid s) i then (E_ID, old)
      else if cychdr (cyccb_table s i) = NULL then (E_NOEXS, old)
      else (E_OK, cyc_packet i s))"

definition td_ref_cyc :: "t_rhdr_u \<Rightarrow> ID \<Rightarrow> 'a tim_st_scheme \<Rightarrow> ER \<times> t_rhdr" where
  "td_ref_cyc old i s = in_msec (td_ref_cyc_u old i s)"

section \<open>Alarm handlers\<close>

definition alarmhandler_initialize :: "int \<times> int \<Rightarrow> bool \<Rightarrow> 'a tim_st_scheme \<Rightarrow> ER \<times> 'a tim_st_scheme" where
  "alarmhandler_initialize cfn malloc_ok s =
     (let s1 = s\<lparr>max_almid := snd cfn\<rparr>
      in if fst cfn < 1 \<or> max_almid s1 < 1 then (E_SYS, s1)
         else if \<not> malloc_ok then (E_NOMEM, s1)
         else (E_OK, fold (\<lambda>i s. (upd_almcb i (\<lambda>c. c\<lparr>almhdr := NULL\<rparr>) s)\<lparr>free_almcb := free_almcb s @ [i]\<rparr>)
                       [1..max_almid s1] (s1\<lparr>free_almcb := []\<rparr>)))"

definition call_almhdr :: "'a tim_st_scheme usr \<Rightarrow> ID \<Rightarrow> 'a tim_st_scheme \<Rightarrow> 'a tim_st_scheme" where
  "call_almhdr usr i s =
     usr (alm_exinf (almcb_table s i)) (almhdr (almcb_table s i))
       (upd_almcb i (\<lambda>c. c\<lparr>almstat := almstat c AND NOT TALM_STA\<rparr>) s)"

definition immediate_call_almhdr :: "'a tim_st_scheme usr \<Rightarrow> ID \<Rightarrow> 'a tim_st_scheme \<Rightarrow> 'a tim_st_scheme" where
  "immediate_call_almhdr usr i s =
     independent (usr (alm_exinf (almcb_table s i)) (almhdr (almcb_table s i)))
       (upd_almcb i (\<lambda>c. c\<lparr>almstat := almstat c AND NOT TALM_STA\<rparr>) s)"

definition alm_timer_insert :: "ID \<Rightarrow> RELTIM_U \<Rightarrow> 'a kst_scheme \<Rightarrow> 'a kst_scheme" where
  "alm_timer_insert i reltim s =
     timer_insert_abs (AlmTm i) ((current_time s + reltim) + adjust_time s) (Some (CB_call_almhdr i)) s"

definition VALID_ALMATR :: ATR where
  "VALID_ALMATR = TA_HLNG OR TA_DSNAME"

definition tk_cre_alm :: "t_calm \<Rightarrow> 'a tim_st_scheme \<Rightarrow> ER \<times> 'a tim_st_scheme" where
  "tk_cre_alm pk s =
     (if \<not> chk_rsatr (ca_almatr pk) VALID_ALMATR then (E_RSATR, s)
      else if \<not> ca_almhdr pk \<noteq> NULL then (E_PAR, s)
      else (case free_almcb s of
              [] \<Rightarrow> (E_LIMIT, s)
            | i # free \<Rightarrow>
                let s1 = upd_almcb i (\<lambda>c. c\<lparr>alm_exinf := ca_exinf pk, almatr := ca_almatr pk,
                           almhdr := ca_almhdr pk, almstat := TALM_STP\<rparr>) (s\<lparr>free_almcb := free\<rparr>);
                    s2 = (if has (ca_almatr pk) TA_DSNAME
                          then upd_almcb i (\<lambda>c. c\<lparr>alm_name :=
                                 tkl_strncpy (ca_dsname pk) OBJECT_NAME_LENGTH\<rparr>) s1
                          else s1)
                in (i, s2)))"

definition tk_del_alm :: "ID \<Rightarrow> 'a tim_st_scheme \<Rightarrow> ER \<times> 'a tim_st_scheme" where
  "tk_del_alm i s =
     (if \<not> chk_id (max_almid s) i then (E_ID, s)
      else if almhdr (almcb_table s i) = NULL then (E_NOEXS, s)
      else
        (let s1 = (if has (almstat (almcb_table s i)) TALM_STA then timer_delete (AlmTm i) s else s);
             s2 = s1\<lparr>free_almcb := free_almcb s1 @ [i]\<rparr>
         in (E_OK, upd_almcb i (\<lambda>c. c\<lparr>almhdr := NULL\<rparr>) s2)))"

definition tk_sta_alm_u ::
  "'a tim_st_scheme usr \<Rightarrow> ID \<Rightarrow> RELTIM_U \<Rightarrow> 'a tim_st_scheme \<Rightarrow> ER \<times> 'a tim_st_scheme" where
  "tk_sta_alm_u usr i almtim s =
     (if \<not> chk_id (max_almid s) i then (E_ID, s)
      else if almhdr (almcb_table s i) = NULL then (E_NOEXS, s)
      else
        (let s1 = (if has (almstat (almcb_table s i)) TALM_STA then timer_delete (AlmTm i) s else s)
         in (E_OK,
             if almtim > 0
             then upd_almcb i (\<lambda>c. c\<lparr>almstat := almstat c OR TALM_STA\<rparr>) (alm_timer_insert i almtim s1)
             else immediate_call_almhdr usr i s1)))"

definition tk_sta_alm ::
  "'a tim_st_scheme usr \<Rightarrow> ID \<Rightarrow> UINT \<Rightarrow> 'a tim_st_scheme \<Rightarrow> ER \<times> 'a tim_st_scheme" where
  "tk_sta_alm usr i almtim s = tk_sta_alm_u usr i (to_usec almtim) s"

definition tk_stp_alm :: "ID \<Rightarrow> 'a tim_st_scheme \<Rightarrow> ER \<times> 'a tim_st_scheme" where
  "tk_stp_alm i s =
     (if \<not> chk_id (max_almid s) i then (E_ID, s)
      else if almhdr (almcb_table s i) = NULL then (E_NOEXS, s)
      else if has (almstat (almcb_table s i)) TALM_STA
      then (E_OK, upd_almcb i (\<lambda>c. c\<lparr>almstat := almstat c AND NOT TALM_STA\<rparr>) (timer_delete (AlmTm i) s))
      else (E_OK, s))"

definition alm_packet :: "ID \<Rightarrow> 'a tim_st_scheme \<Rightarrow> t_rhdr_u" where
  "alm_packet i s =
     (let cb = almcb_table s i
      in \<lparr>rh_exinf = alm_exinf cb,
          rh_lfttim_u = (if has (almstat cb) TALM_STA then left_time (tm_time (tmebs s (AlmTm i))) s else 0),
          rh_stat = almstat cb\<rparr>)"

definition tk_ref_alm_u :: "t_rhdr_u \<Rightarrow> ID \<Rightarrow> 'a tim_st_scheme \<Rightarrow> ER \<times> t_rhdr_u" where
  "tk_ref_alm_u old i s =
     (if \<not> chk_id (max_almid s) i then (E_ID, old)
      else if almhdr (almcb_table s i) = NULL then (E_NOEXS, old)
      else (E_OK, alm_packet i s))"

definition tk_ref_alm :: "t_rhdr_u \<Rightarrow> ID \<Rightarrow> 'a tim_st_scheme \<Rightarrow> ER \<times> t_rhdr" where
  "tk_ref_alm old i s = in_msec (tk_ref_alm_u old i s)"

definition alarmhandler_getname :: "ID \<Rightarrow> 'a tim_st_scheme \<Rightarrow> ER \<times> UB list option" where
  "alarmhandler_getname i s =
     (if \<not> chk_id (max_almid s) i then (E_ID, None)
      else if almhdr (almcb_table s i) = NULL then (E_NOEXS, None)
      else if \<not> has (almatr (almcb_table s i)) TA_DSNAME then (E_OBJ, None)
      else (E_OK, Some (alm_name (almcb_table s i))))"

definition td_lst_alm :: "int \<Rightarrow> 'a tim_st_scheme \<Rightarrow> int \<times> ID list" where
  "td_lst_alm nent s =
     (let ids = filter (\<lambda>j. almhdr (almcb_table s j) \<noteq> NULL) [1..max_almid s]
      in (int (length ids), take (nat nent) ids))"

definition td_ref_alm_u :: "t_rhdr_u \<Rightarrow> ID \<Rightarrow> 'a tim_st_scheme \<Rightarrow> ER \<times> t_rhdr_u" where
  "td_ref_alm_u old i s =
     (if \<not> chk_id (max_almid s) i then (E_ID, old)
      else if almhdr (almcb_table s i) = NULL then (E_NOEXS, old)
      else (E_OK, alm_packet i s))"

definition td_ref_alm :: "t_rhdr_u \<Rightarrow> ID \<Rightarrow> 'a tim_st_scheme \<Rightarrow> ER \<times> t_rhdr" where
  "td_ref_alm old i s = in_msec (td_ref_alm_u old i s)"

section \<open>The timer interrupt\<close>

definition run_cback :: "'a tim_st_scheme usr \<Rightarrow> cback \<Rightarrow> 'a tim_st_scheme \<Rightarrow> 'a tim_st_scheme option" where
  "run_cback usr cb s =
     (case cb of
        CB_wait_release_tmout t \<Rightarrow> kernel_wait_release_tmout t s
      | CB_call_cychdr i \<Rightarrow> Some (call_cychdr usr i s)
      | CB_call_almhdr i \<Rightarrow> Some (call_almhdr usr i s))"

definition MIN_TIMER_PERIOD :: RELTIM_U where "MIN_TIMER_PERIOD = 10"
definition MAX_TIMER_PERIOD :: RELTIM_U where "MAX_TIMER_PERIOD = 50000"

text \<open>The number of values of the configuration \<open>SCTAG_TTIMPERIOD\<close>, and the two values. Starting the
  hardware timer is left out.\<close>

definition timer_initialize :: "int \<times> int \<times> int \<Rightarrow> 'a tim_st_scheme \<Rightarrow> ER \<times> 'a tim_st_scheme" where
  "timer_initialize cfn s =
     (case cfn of
        (n, t0, t1) \<Rightarrow>
          if n < 1 then (E_SYS, s)
          else
            (let s1 = s\<lparr>timer_period := word_of_int (t0 * 1000 + (if n < 2 then 0 else t1))\<rparr>
             in if timer_period s1 < MIN_TIMER_PERIOD \<or> timer_period s1 > MAX_TIMER_PERIOD then (E_SYS, s1)
                else (E_OK, s1\<lparr>current_time := 0, real_time_ofs := 0, timer_queue := []\<rparr>)))"

text \<open>The loop may go on for ever when handlers are due again at once; then the value is \<open>None\<close>.\<close>

partial_function (option) timer_loop ::
  "'a tim_st_scheme usr \<Rightarrow> 'a tim_st_scheme \<Rightarrow> 'a tim_st_scheme option" where
  "timer_loop usr s =
     (case timer_queue s of
        [] \<Rightarrow> Some s
      | ev # _ \<Rightarrow>
          if ll_cmp (tm_time (tmebs s ev)) (current_time s) > 0 then Some s
          else Option.bind
                 (case tm_callback (tmebs s ev) of
                    None \<Rightarrow> Some (timer_delete ev s)
                  | Some cb \<Rightarrow> run_cback usr cb (timer_delete ev s))
                 (timer_loop usr))"

definition account_time :: "'a kst_scheme \<Rightarrow> 'a kst_scheme" where
  "account_time s =
     (case ctxtsk s of
        None \<Rightarrow> s
      | Some t \<Rightarrow>
          let s1 = tcb_upd t (\<lambda>c. if sysmode c > 0 then c\<lparr>stime := stime c + timer_period s\<rparr>
                                  else c\<lparr>utime := utime c + timer_period s\<rparr>) s
          in if schedtsk s1 = ctxtsk s1
             then (case time_slice_schedule (Some t) s1 of (r, s2) \<Rightarrow> s2\<lparr>schedtsk := r\<rparr>)
             else s1)"

definition timer_handler :: "'a tim_st_scheme usr \<Rightarrow> 'a tim_st_scheme \<Rightarrow> 'a tim_st_scheme option" where
  "timer_handler usr s =
     timer_loop usr (account_time (s\<lparr>current_time := current_time s + timer_period s\<rparr>))"

end
