(* ===== verification/Timer_Release.thy ===== *)
theory Timer_Release
  imports Time_Calls
begin

text \<open>
  What the end of a wait does to the timer events: the functions that may release tasks
  (the hooks for a change of priority and for the end of a wait, \<open>release_mutex\<close>, and the call-back
  of a time-out) take the events of released tasks away, and leave everything else of the timer
  and the time-event handlers alone.
\<close>

section \<open>Releasing tasks takes their events away, and nothing else\<close>

definition lets_go :: "'a mtx_st_scheme \<Rightarrow> 'a mtx_st_scheme \<Rightarrow> bool" where
  "lets_go s' s \<longleftrightarrow>
     mtx_st.more s' = mtx_st.more s \<and> tmebs s' = tmebs s \<and> current_time s' = current_time s \<and>
     hw_usec s' = hw_usec s \<and>
     (\<exists>T. timer_queue s' = filter (\<lambda>ev. ev \<notin> TskTm ` T) (timer_queue s) \<and>
          (\<forall>u. u \<notin> T \<longrightarrow> in_wait (tstate (tcbs s' u)) = in_wait (tstate (tcbs s u))))"

lemma lets_goI:
  assumes "mtx_st.more s' = mtx_st.more s" "tmebs s' = tmebs s" "current_time s' = current_time s"
    "hw_usec s' = hw_usec s" "timer_queue s' = filter (\<lambda>ev. ev \<notin> TskTm ` T) (timer_queue s)"
    "\<And>u. u \<notin> T \<Longrightarrow> in_wait (tstate (tcbs s' u)) = in_wait (tstate (tcbs s u))"
  shows "lets_go s' s"
  using assms unfolding lets_go_def by blast

lemma lets_go_same:
  assumes "mtx_st.more s' = mtx_st.more s" "tmebs s' = tmebs s" "current_time s' = current_time s"
    "hw_usec s' = hw_usec s" "timer_queue s' = timer_queue s"
    "\<And>u. in_wait (tstate (tcbs s' u)) = in_wait (tstate (tcbs s u))"
  shows "lets_go s' s"
  by (rule lets_goI [where T = "{}"]) (use assms in simp_all)

lemma lets_go_refl [simp]: "lets_go s s"
  by (rule lets_go_same) simp_all

lemma lets_go_trans:
  assumes "lets_go s'' s'" "lets_go s' s"
  shows "lets_go s'' s"
proof -
  obtain T where T: "timer_queue s' = filter (\<lambda>ev. ev \<notin> TskTm ` T) (timer_queue s)"
    "\<And>u. u \<notin> T \<Longrightarrow> in_wait (tstate (tcbs s' u)) = in_wait (tstate (tcbs s u))"
    using assms(2) unfolding lets_go_def by blast
  obtain U where U: "timer_queue s'' = filter (\<lambda>ev. ev \<notin> TskTm ` U) (timer_queue s')"
    "\<And>u. u \<notin> U \<Longrightarrow> in_wait (tstate (tcbs s'' u)) = in_wait (tstate (tcbs s' u))"
    using assms(1) unfolding lets_go_def by blast
  have "timer_queue s'' = filter (\<lambda>ev. ev \<notin> TskTm ` (T \<union> U)) (timer_queue s)"
    unfolding T U by (auto simp: image_Un intro: filter_cong)
  then show ?thesis
    by (rule lets_goI [rotated 4]) (use assms T(2) U(2) in \<open>auto simp: lets_go_def\<close>)
qed

lemma mtx_more_kst: "kst.more s' = kst.more s \<Longrightarrow> mtx_st.more s' = mtx_st.more s"
  by (cases s; cases s'; simp add: mtx_st.defs)

lemma make_ready_timer [simp]:
  "timer_queue (make_ready t s) = timer_queue s" "tmebs (make_ready t s) = tmebs s"
  "current_time (make_ready t s) = current_time s" "hw_usec (make_ready t s) = hw_usec s"
  by (simp_all add: make_ready_def Let_def split_beta ready_queue_insert_def)

lemma make_non_wait_timer [simp]:
  "timer_queue (make_non_wait t s) = timer_queue s" "tmebs (make_non_wait t s) = tmebs s"
  "current_time (make_non_wait t s) = current_time s" "hw_usec (make_non_wait t s) = hw_usec s"
  by (simp_all add: make_non_wait_def)

lemma lets_go_upd [simp]:
  "lets_go (upd_semcb i f s) s" "lets_go (upd_mbfcb i g s) s" "lets_go (upd_mplcb i h s) s"
  "lets_go (s\<lparr>mem_ptr := m\<rparr>) s" "lets_go (set_wercd t e s) s"
  by (rule lets_go_same; simp add: upd_semcb_def upd_mbfcb_def upd_mplcb_def set_wercd_def tcb_upd_def)+

lemma lets_go_reorder [simp]: "lets_go (gcb_change_priority q t s) s"
  by (rule lets_go_same) (auto simp: gcb_change_priority_frame gcb_change_priority_def queue_insert_tpri_def
      que_remove_def intro!: mtx_more_kst)

lemma lets_go_release: "lets_go (wait_release t s) s" "lets_go (wait_release_ok t s) s"
proof -
  have q: "timer_queue (wait_release t s) = filter (\<lambda>ev. ev \<notin> TskTm ` {t}) (timer_queue s)"
    by (simp add: wait_release_def removeAll_filter_not_eq) (rule filter_cong, auto)
  show r: "lets_go (wait_release t s) s"
    by (rule lets_goI [OF _ _ _ _ q]) (auto simp: wait_release_def timer_delete_def intro!: mtx_more_kst)
  show "lets_go (wait_release_ok t s) s"
    unfolding wait_release_ok_def by (rule lets_go_trans [OF lets_go_upd(5) r])
qed

lemma sem_loop_lets_go [simp]: "lets_go (sem_chg_pri_loop i ts s) s"
proof (induction ts arbitrary: s)
  case (Cons t ts)
  have m: "lets_go (sem_take i t s) s"
    by (simp add: sem_take_def Let_def lets_go_trans [OF lets_go_upd(1) lets_go_release(2)])
  show ?case using lets_go_trans [OF Cons.IH m] by simp
qed simp

lemma mbf_wakeup_lets_go [simp]: "lets_go (mbf_wakeup i s) s"
proof (induction i s rule: mbf_wakeup.induct)
  case (1 i s)
  show ?case
  proof (cases "que s (WaitQ OSmbf i)")
    case (Cons t ts)
    have "lets_go (mbf_accept i t s) s"
      unfolding mbf_accept_def Let_def by (rule lets_go_trans [OF lets_go_release(2) lets_go_upd(2)])
    then show ?thesis using 1 [OF Cons] lets_go_trans Cons by (subst mbf_wakeup.simps) auto
  qed (subst mbf_wakeup.simps, simp)
qed

lemma mpl_wakeup_lets_go [simp]: "lets_go (mpl_wakeup i s) s"
proof (induction i s rule: mpl_wakeup.induct)
  case (1 i s)
  show ?case
  proof (cases "que s (WaitQ OMpl i)")
    case (Cons t ts)
    have "lets_go (wait_release_ok t ((upd_mplcb i h s)\<lparr>mem_ptr := a\<rparr>)) s" for h a
      by (rule lets_go_trans [OF lets_go_release(2) lets_go_trans [OF lets_go_upd(4) lets_go_upd(3)]])
    then have "lets_go (mpl_grant i t s) s" by (auto simp: mpl_grant_def Let_def split: prod.split)
    then show ?thesis using 1 [OF Cons] lets_go_trans Cons by (subst mpl_wakeup.simps) auto
  qed (subst mpl_wakeup.simps, simp)
qed

text \<open>The hooks of the objects: the queue is put in order, then tasks may be released.\<close>

lemma loop_hook_lets_go:
  "lets_go (sem_chg_pri t old s) s" "lets_go (mbf_chg_pri t old s) s" "lets_go (mpl_chg_pri t old s) s"
proof -
  have r: "lets_go (if old \<ge> 0 then gcb_change_priority q t s else s) s" for q by simp
  show "lets_go (sem_chg_pri t old s) s"
    unfolding sem_chg_pri_def Let_def using r lets_go_trans [OF sem_loop_lets_go r] by (auto split: if_split)
  show "lets_go (mbf_chg_pri t old s) s"
    unfolding mbf_chg_pri_def Let_def by (rule lets_go_trans [OF mbf_wakeup_lets_go r])
  show "lets_go (mpl_chg_pri t old s) s"
    unfolding mpl_chg_pri_def Let_def by (rule lets_go_trans [OF mpl_wakeup_lets_go r])
qed

lemma obj_hook_lets_go: "lets_go (obj_chg_hook h t old s) s"
  using loop_hook_lets_go
  by (cases h) (simp_all add: obj_chg_hook_def flg_chg_pri_def mbx_chg_pri_def mpf_chg_pri_def cal_chg_pri_def)

section \<open>Changes of priority\<close>

lemma lets_go_set_list: "lets_go (set_list p v s) s"
  by (cases p) (auto intro!: lets_go_same simp: upd_mtxcb_def tcb_upd_def split: if_splits)

lemma release_loop_lets_go:
  assumes "release_loop rel p n q s = Some r"
  shows "lets_go (snd r) s"
proof (rule release_loop.raw_induct [OF _ assms])
  fix loop :: "ID option \<Rightarrow> mtxptr \<Rightarrow> nat \<Rightarrow> nat \<Rightarrow> 'a mtx_st_scheme \<Rightarrow> (nat \<times> 'a mtx_st_scheme) option"
    and rel p n q s r
  assume IH: "\<And>rel p n q s r. loop rel p n q s = Some r \<Longrightarrow> lets_go (snd r) s"
    and e: "(case get_list p s of None \<Rightarrow> Some (n, s)
        | Some m \<Rightarrow> if rel = Some m then loop rel p n q (set_list p (mtx_link (mtxcb_table s m)) s)
           else let pri' = mtx_pri m q s in loop rel (MtxLink m) (if n > pri' then pri' else n) pri' s) = Some r"
  show "lets_go (snd r) s"
  proof (cases "get_list p s")
    case None
    then show ?thesis using e by auto
  next
    case (Some m)
    then show ?thesis
      using e IH lets_go_trans [OF IH lets_go_set_list] by (auto simp: Let_def split: if_splits)
  qed
qed

lemma change_pri_lets_go:
  assumes hook: "\<And>h u old s s'. hook h u old s = Some s' \<Longrightarrow> lets_go s' s"
    and e: "change_task_priority_o hook t p s = Some s'"
  shows "lets_go s' s"
proof (cases "tstate (tcbs s t) = TS_READY")
  case True
  let ?s1 = "snd (ready_queue_insert t (tcb_upd t (\<lambda>c. c\<lparr>priority := p\<rparr>) (ready_queue_delete t s)))"
  have "lets_go ?s1 s" by (rule lets_go_same) (auto intro!: mtx_more_kst simp: ready_queue_insert_def ready_queue_delete_def Let_def)
  moreover have "lets_go (reschedule ?s1) ?s1"
    by (rule lets_go_same) (auto intro!: mtx_more_kst simp: reschedule_def Let_def slice_tcb_fields)
  ultimately show ?thesis using e True lets_go_trans by (auto simp: change_task_priority_o_def Let_def)
next
  case False
  let ?s1 = "tcb_upd t (\<lambda>c. c\<lparr>priority := p\<rparr>) s"
  have "lets_go ?s1 s" by (rule lets_go_same) (simp_all add: tcb_upd_def)
  then show ?thesis
    using e False
    by (auto simp: change_task_priority_o_def Let_def dest: hook intro: lets_go_trans
        split: if_splits option.splits)
qed

lemma release_mutex_lets_go:
  assumes hook: "\<And>h u old s s'. hook h u old s = Some s' \<Longrightarrow> lets_go s' s"
    and e: "release_mutex hook t rel s = Some s'"
  shows "lets_go s' s"
proof -
  obtain n s1 where l: "release_loop rel (TskList t) (bpriority (tcbs s t)) (bpriority (tcbs s t)) s = Some (n, s1)"
    using e by (auto simp: release_mutex_def Let_def split: option.splits)
  have "lets_go s1 s" using release_loop_lets_go [OF l] by simp
  moreover have "lets_go s' s1" if "change_task_priority_o hook t n s1 = Some s'"
    by (rule change_pri_lets_go [OF hook that])
  ultimately show ?thesis
    using e l by (auto simp: release_mutex_def Let_def intro: lets_go_trans split: if_splits)
qed

lemma mtx_chg_pri_lets_go:
  assumes "mtx_chg_pri t old s = Some s'"
  shows "lets_go s' s"
proof (rule mtx_chg_pri.raw_induct [OF _ assms])
  fix f :: "ID \<Rightarrow> int \<Rightarrow> 'a mtx_st_scheme \<Rightarrow> 'a mtx_st_scheme option" and t old s s'
  assume IH: "\<And>t old s s'. f t old s = Some s' \<Longrightarrow> lets_go s' s"
    and e: "(let i = wid (tcbs s t); s1 = gcb_change_priority (WaitQ OMtx i) t s
      in if mtx_kind i s1 = TA_INHERIT then
           (let m = the (mtxtsk (mtxcb_table s1 i))
            in if priority (tcbs s1 m) > priority (tcbs s1 t) then
                 change_task_priority_o (call_chg_hook f) m (priority (tcbs s1 t)) s1
               else if int (priority (tcbs s1 m)) = old then release_mutex (call_chg_hook f) m None s1
               else Some s1)
         else Some s1) = Some s'"
  have h: "lets_go s' s" if "call_chg_hook f h u old s = Some s'" for h u old s s'
    using that IH obj_hook_lets_go by (auto simp: call_chg_hook_def split: if_splits)
  let ?s1 = "gcb_change_priority (WaitQ OMtx (wid (tcbs s t))) t s"
  have "lets_go s' ?s1"
    using e change_pri_lets_go [OF h] release_mutex_lets_go [OF h] by (auto simp: Let_def split: if_splits)
  then show "lets_go s' s" by (rule lets_go_trans [OF _ lets_go_reorder])
qed

lemma kernel_hook_lets_go: "kernel_chg_hook h t old s = Some s' \<Longrightarrow> lets_go s' s"
  using mtx_chg_pri_lets_go obj_hook_lets_go by (auto simp: kernel_chg_hook_def call_chg_hook_def split: if_splits)

text \<open>The end of a wait by time.\<close>

lemma rel_hook_lets_go: "kernel_rel_hook h t s = Some s' \<Longrightarrow> lets_go s' s"
  using release_mutex_lets_go [OF kernel_hook_lets_go] loop_hook_lets_go
  by (auto simp: kernel_rel_hook_def mtx_rel_wai_def sem_rel_wai_def mbf_rel_wai_def mpl_rel_wai_def Let_def
      split: hook.splits if_splits)

lemma wait_tmout_lets_go:
  assumes e: "kernel_wait_release_tmout t s = Some s'" and q: "TskTm t \<notin> set (timer_queue s)"
  shows "lets_go s' s"
proof -
  let ?s1 = "make_non_wait t (que_remove t s)"
  have "timer_queue s = filter (\<lambda>ev. ev \<notin> TskTm ` {t}) (timer_queue s)"
    using q by (auto intro!: filter_True [symmetric])
  then have "lets_go ?s1 s"
    by (intro lets_goI [where T = "{t}"]) (auto intro!: mtx_more_kst)
  then show ?thesis
    using e by (auto simp: kernel_wait_release_tmout_def Let_def dest: rel_hook_lets_go intro: lets_go_trans
        split: option.splits)
qed

end
