(* ===== verification/Timer_Handler.thy ===== *)
theory Timer_Handler
  imports Timer_Release
begin

text \<open>
  The timer interrupt (\<open>timer_handler\<close>, \<open>timer.c\<close>) brings every event whose time has come to its
  callback. The theory shows that it returns, with no due event left and the invariant of the
  timer events kept, as long as the handlers set no event that is due at once.
\<close>

section \<open>The invariant of the timer events\<close>

definition cyc_exists :: "ID \<Rightarrow> 'a tim_st_scheme \<Rightarrow> bool" where
  "cyc_exists i s \<longleftrightarrow> chk_id (max_cycid s) i \<and> cychdr (cyccb_table s i) \<noteq> NULL"

definition alm_exists :: "ID \<Rightarrow> 'a tim_st_scheme \<Rightarrow> bool" where
  "alm_exists i s \<longleftrightarrow> chk_id (max_almid s) i \<and> almhdr (almcb_table s i) \<noteq> NULL"

text \<open>What an event in the queue stands for, and the callback it has.\<close>

fun armed :: "tmid \<Rightarrow> 'a tim_st_scheme \<Rightarrow> bool" where
  "armed (TskTm t) s = in_wait (tstate (tcbs s t))"
| "armed (CycTm i) s = (cyc_exists i s \<and> has (cycstat (cyccb_table s i)) TCYC_STA)"
| "armed (AlmTm i) s = (alm_exists i s \<and> has (almstat (almcb_table s i)) TALM_STA)"

fun callback_of :: "tmid \<Rightarrow> cback" where
  "callback_of (TskTm t) = CB_wait_release_tmout t"
| "callback_of (CycTm i) = CB_call_cychdr i"
| "callback_of (AlmTm i) = CB_call_almhdr i"

definition is_handler :: "tmid \<Rightarrow> bool" where
  "is_handler ev \<longleftrightarrow> (\<forall>t. ev \<noteq> TskTm t)"

lemma is_handler_simps [simp]: "is_handler (CycTm i)" "is_handler (AlmTm i)" "\<not> is_handler (TskTm t)"
  by (simp_all add: is_handler_def)

text \<open>
  The events in the queue are those of started handlers and of waiting tasks; a started handler
  has its event in the queue, unless it is in \<open>X\<close>.
\<close>

definition events_ok :: "tmid set \<Rightarrow> 'a tim_st_scheme \<Rightarrow> bool" where
  "events_ok X s \<longleftrightarrow>
     (\<forall>ev \<in> set (timer_queue s). armed ev s \<and> tm_callback (tmebs s ev) = Some (callback_of ev)) \<and>
     (\<forall>ev. ev \<notin> X \<longrightarrow> is_handler ev \<longrightarrow> armed ev s \<longrightarrow> ev \<in> set (timer_queue s))"

text \<open>The free queues hold the unregistered handlers; the cycle times are in the range in which times
  do not wrap around.\<close>

definition handlers_ok :: "'a tim_st_scheme \<Rightarrow> bool" where
  "handlers_ok s \<longleftrightarrow>
     distinct (free_cyccb s) \<and> distinct (free_almcb s) \<and>
     (\<forall>i. i \<in> set (free_cyccb s) \<longleftrightarrow> chk_id (max_cycid s) i \<and> cychdr (cyccb_table s i) = NULL) \<and>
     (\<forall>i. i \<in> set (free_almcb s) \<longleftrightarrow> chk_id (max_almid s) i \<and> almhdr (almcb_table s i) = NULL) \<and>
     (\<forall>i. cyc_exists i s \<longrightarrow> 0 < uint (cyctim (cyccb_table s i)) \<and> uint (cyctim (cyccb_table s i)) < 2 ^ 61)"

definition clock_ok :: "'a kst_scheme \<Rightarrow> bool" where
  "clock_ok s \<longleftrightarrow> 0 \<le> sint (current_time s) \<and> sint (current_time s) < 2 ^ 61 \<and> uint (hw_usec s) < 2 ^ 60"

text \<open>The time of the next start is kept while a cyclic handler is stopped.\<close>

definition phases_ok :: "'a tim_st_scheme \<Rightarrow> bool" where
  "phases_ok s \<longleftrightarrow> (\<forall>i. cyc_exists i s \<longrightarrow> tmtime_ok (tm_time (tmebs s (CycTm i))))"

definition tim_ok_x :: "tmid set \<Rightarrow> 'a tim_st_scheme \<Rightarrow> bool" where
  "tim_ok_x X s \<longleftrightarrow> mtx_ok s \<and> tmq_ok s \<and> clock_ok s \<and> handlers_ok s \<and> events_ok X s \<and> phases_ok s"

abbreviation tim_ok :: "'a tim_st_scheme \<Rightarrow> bool" where
  "tim_ok s \<equiv> tim_ok_x {} s"

lemma tim_okD:
  assumes "tim_ok_x X s"
  shows "mtx_ok s" "tmq_ok s" "clock_ok s" "handlers_ok s" "events_ok X s" "phases_ok s"
  using assms by (simp_all add: tim_ok_x_def)

lemma tim_more:
  assumes "mtx_st.more s' = mtx_st.more s"
  shows "cyccb_table s' = cyccb_table s" "free_cyccb s' = free_cyccb s" "max_cycid s' = max_cycid s"
    "almcb_table s' = almcb_table s" "free_almcb s' = free_almcb s" "max_almid s' = max_almid s"
  using assms by (cases s; cases s'; simp add: tim_st.defs)+

lemma tim_more_kst: "kst.more s' = kst.more s \<Longrightarrow> mtx_st.more s' = mtx_st.more (s :: 'a tim_st_scheme)"
  by (rule mtx_more_kst)

lemma tim_frame [simp]:
  "cyccb_table (tcb_upd t f s) = cyccb_table s" "free_cyccb (tcb_upd t f s) = free_cyccb s"
  "max_cycid (tcb_upd t f s) = max_cycid s" "almcb_table (tcb_upd t f s) = almcb_table s"
  "free_almcb (tcb_upd t f s) = free_almcb s" "max_almid (tcb_upd t f s) = max_almid s"
  "cyccb_table (timer_delete e s) = cyccb_table s" "free_cyccb (timer_delete e s) = free_cyccb s"
  "max_cycid (timer_delete e s) = max_cycid s" "almcb_table (timer_delete e s) = almcb_table s"
  "free_almcb (timer_delete e s) = free_almcb s" "max_almid (timer_delete e s) = max_almid s"
  by (rule tim_more; rule mtx_more_kst; simp)+

lemma upd_hdr_sel [simp]:
  "cyccb_table (upd_cyccb i f s) j = (if j = i then f (cyccb_table s i) else cyccb_table s j)"
  "free_cyccb (upd_cyccb i f s) = free_cyccb s" "max_cycid (upd_cyccb i f s) = max_cycid s"
  "almcb_table (upd_cyccb i f s) = almcb_table s" "free_almcb (upd_cyccb i f s) = free_almcb s"
  "max_almid (upd_cyccb i f s) = max_almid s"
  "almcb_table (upd_almcb i g s) j = (if j = i then g (almcb_table s i) else almcb_table s j)"
  "free_almcb (upd_almcb i g s) = free_almcb s" "max_almid (upd_almcb i g s) = max_almid s"
  "cyccb_table (upd_almcb i g s) = cyccb_table s" "free_cyccb (upd_almcb i g s) = free_cyccb s"
  "max_cycid (upd_almcb i g s) = max_cycid s"
  "kst.tcbs (upd_cyccb i f s) = tcbs s" "timer_queue (upd_cyccb i f s) = timer_queue s"
  "tmebs (upd_cyccb i f s) = tmebs s" "current_time (upd_cyccb i f s) = current_time s"
  "hw_usec (upd_cyccb i f s) = hw_usec s"
  "kst.tcbs (upd_almcb i g s) = tcbs s" "timer_queue (upd_almcb i g s) = timer_queue s"
  "tmebs (upd_almcb i g s) = tmebs s" "current_time (upd_almcb i g s) = current_time s"
  "hw_usec (upd_almcb i g s) = hw_usec s"
  by (simp_all add: upd_cyccb_def upd_almcb_def)

lemma cong_ok:
  "timer_queue s' = timer_queue s \<Longrightarrow> tmebs s' = tmebs s \<Longrightarrow> tmq_ok s' = tmq_ok s"
  "current_time s' = current_time s \<Longrightarrow> hw_usec s' = hw_usec s \<Longrightarrow> clock_ok s' = clock_ok s"
  by (simp_all add: tmq_ok_def event_time_def [abs_def] clock_ok_def)

text \<open>Changes that mutexes do not see.\<close>

lemma mtx_ok_untouched:
  fixes s s' :: "'a tim_st_scheme"
  assumes "tcbs s' = tcbs s" "que s' = que s" "ctxtsk s' = ctxtsk s" "schedtsk s' = schedtsk s"
    "klocktsk s' = klocktsk s" "bitmap s' = bitmap s" "top_priority s' = top_priority s"
    "mtxcb_table s' = mtxcb_table s" "free_mtxcb s' = free_mtxcb s" "max_mtxid s' = max_mtxid s" "mtx_ok s"
  shows "mtx_ok s'"
proof (rule mtx_same_ok [OF _ _ assms(11)])
  show "mtx_same s' s" using assms by (simp add: mtx_same_def)
  show "kinv s'" using mtx_okD(1) [OF assms(11)] by (rule kinv_x_same [rotated 9]) (use assms in simp_all)
qed

section \<open>The next start of a cyclic handler\<close>

lemma next_time_spec:
  assumes t0: "tmtime_ok t0" "sint t0 \<le> sint now" and now: "sint now < 2 ^ 61"
    and c: "0 < uint c" "uint c < 2 ^ 61"
  shows "sint (next_time now c t0) = sint t0 + ((sint now - sint t0) div uint c + 1) * uint c"
    "sint now < sint (next_time now c t0)" "sint (next_time now c t0) \<le> sint now + uint c"
proof -
  define a n k q where "a = sint t0" and "n = sint now" and "k = uint c" and "q = (n - a) div k"
  have r: "0 \<le> a" "a \<le> n" "n < 2 ^ 61" "0 < k" "k < 2 ^ 61"
    using assms by (auto simp: tmtime_ok_def a_def n_def k_def)
  have m: "(n - a) mod k = n - a - q * k" by (simp add: q_def minus_div_mult_eq_mod)
  have q: "0 \<le> q" "q * k \<le> n - a" "n - a < (q + 1) * k" "(q + 1) * k \<le> n - a + k"
    using r pos_mod_sign [of k "n - a"] pos_mod_bound [of k "n - a"] m
    by (auto simp: q_def pos_imp_zdiv_nonneg_iff distrib_right)
  have e: "t0 = word_of_int a" "now = word_of_int n" "c = word_of_int k" by (simp_all add: a_def n_def k_def)
  have "t0 + c - now = word_of_int (a + k - n)" by (simp add: e)
  moreover have "sint (word_of_int (a + k - n) :: 64 word) = a + k - n" using r by (intro sint_small) auto
  ultimately have l: "ll_cmp (t0 + c) now = a + k - n" unfolding ll_cmp_def by presburger
  have d: "now - t0 = word_of_int (n - a)" by (simp add: e)
  have u: "uint (word_of_int (n - a) :: 64 word) = n - a"
    using r by (simp add: uint_word_of_int_eq take_bit_int_eq_self del: of_int_diff)
  have w: "next_time now c t0 = word_of_int (a + (q + 1) * k)"
  proof (cases "a + k - n \<le> 0")
    case False
    then have "q = 0" using r by (simp add: q_def)
    then show ?thesis using False l by (simp add: next_time_def Let_def e)
  next
    case True
    have "(now - t0) div c = word_of_int q"
      unfolding word_div_def d u by (simp add: q_def k_def)
    then have "next_time now c t0 = t0 + (word_of_int q + 1) * c"
      using True l by (simp add: next_time_def Let_def)
    then show ?thesis by (simp add: e)
  qed
  have v: "sint (next_time now c t0) = a + (q + 1) * k"
    unfolding w by (rule sint_small) (use r q in auto)
  show "sint (next_time now c t0) = sint t0 + ((sint now - sint t0) div uint c + 1) * uint c"
    using v by (simp add: a_def q_def n_def k_def)
  show "sint now < sint (next_time now c t0)" "sint (next_time now c t0) \<le> sint now + uint c"
    unfolding v n_def [symmetric] k_def [symmetric] using q by auto
qed

section \<open>Inserting and deleting events\<close>

lemma timer_insert_abs_frame [simp]:
  "tcbs (timer_insert_abs ev tm cb s) = tcbs s" "que (timer_insert_abs ev tm cb s) = que s"
  "ctxtsk (timer_insert_abs ev tm cb s) = ctxtsk s" "schedtsk (timer_insert_abs ev tm cb s) = schedtsk s"
  "klocktsk (timer_insert_abs ev tm cb s) = klocktsk s" "bitmap (timer_insert_abs ev tm cb s) = bitmap s"
  "top_priority (timer_insert_abs ev tm cb s) = top_priority s"
  "current_time (timer_insert_abs ev tm cb s) = current_time s" "hw_usec (timer_insert_abs ev tm cb s) = hw_usec s"
  "kst.more (timer_insert_abs ev tm cb s) = kst.more s"
  "tmebs (timer_insert_abs ev tm cb s) = (tmebs s)(ev := \<lparr>tm_time = tm, tm_callback = cb\<rparr>)"
  "set (timer_queue (timer_insert_abs ev tm cb s)) = insert ev (set (timer_queue s))"
  by (auto simp: timer_defs)

lemma armed_cong:
  assumes "mtx_st.more s' = mtx_st.more s" "\<And>u. tstate (tcbs s' u) = tstate (tcbs s u)"
  shows "armed ev s' = armed ev s"
  by (cases ev) (simp_all add: assms(2) cyc_exists_def alm_exists_def tim_more [OF assms(1)])

lemma handlers_ok_cong:
  assumes "mtx_st.more s' = mtx_st.more s"
  shows "handlers_ok s' = handlers_ok s"
  by (simp add: handlers_ok_def cyc_exists_def tim_more [OF assms])

lemma phases_ok_cong:
  assumes "mtx_st.more s' = mtx_st.more s" "tmebs s' = tmebs s"
  shows "phases_ok s' = phases_ok s"
  by (simp add: phases_ok_def cyc_exists_def tim_more [OF assms(1)] assms(2))

lemma tim_insert_ok:
  assumes ok: "tim_ok_x {ev} s" and new: "ev \<notin> set (timer_queue s)" and a: "armed ev s" and tm: "tmtime_ok tm"
  shows "tim_ok (timer_insert_abs ev tm (Some (callback_of ev)) s)" (is "tim_ok ?s")
proof -
  note d = tim_okD [OF ok]
  have e: "kst.more ?s = kst.more s" by simp
  note m = mtx_more_kst [OF e]
  have "mtx_ok ?s"
    by (rule mtx_ok_untouched [of ?s s]) (use d(1) in \<open>simp_all add: mtx_more [OF e]\<close>)
  moreover have "tmq_ok ?s"
    unfolding timer_insert_abs_def by (rule enqueue_sorted(2)) (use d(2) new tm in \<open>simp_all add: tmq_ok_set_callback\<close>)
  moreover have "events_ok {} ?s"
    using d(5) a new by (auto simp: events_ok_def armed_cong [OF m])
  moreover have "clock_ok ?s" using d(3) cong_ok(2) [of ?s s] by simp
  moreover have "phases_ok ?s" using d(6) tm by (simp add: phases_ok_def cyc_exists_def tim_more [OF m])
  ultimately show ?thesis using d(4) by (simp add: tim_ok_x_def handlers_ok_cong [OF m])
qed

lemma tim_delete_ok:
  assumes ok: "tim_ok s"
  shows "tim_ok_x {ev} (timer_delete ev s)" (is "tim_ok_x _ ?s")
proof -
  note d = tim_okD [OF ok]
  have e: "kst.more ?s = kst.more s" by simp
  note m = mtx_more_kst [OF e]
  have "mtx_ok ?s"
    by (rule mtx_ok_untouched [of ?s s]) (use d(1) in \<open>simp_all add: mtx_more [OF e]\<close>)
  moreover have "events_ok {ev} ?s" using d(5) by (auto simp: events_ok_def armed_cong [OF m])
  moreover have "clock_ok ?s" using d(3) by (simp add: clock_ok_def timer_delete_def)
  ultimately show ?thesis using d(4,6) tmq_ok_delete [OF d(2)]
    by (simp add: tim_ok_x_def handlers_ok_cong [OF m] phases_ok_cong [OF m])
qed

lemma lets_go_ok:
  fixes s s' :: "'a tim_st_scheme"
  assumes l: "lets_go s' s" and ok: "tim_ok s" and m: "mtx_ok s'"
  shows "tim_ok s'" "set (timer_queue s') \<subseteq> set (timer_queue s)" "tmebs s' = tmebs s" "current_time s' = current_time s"
proof -
  note d = tim_okD [OF ok]
  obtain T where T: "timer_queue s' = filter (\<lambda>ev. ev \<notin> TskTm ` T) (timer_queue s)"
    "\<And>u. u \<notin> T \<Longrightarrow> in_wait (tstate (tcbs s' u)) = in_wait (tstate (tcbs s u))"
    and e: "mtx_st.more s' = mtx_st.more s" "tmebs s' = tmebs s" "current_time s' = current_time s"
      "hw_usec s' = hw_usec s"
    using l unfolding lets_go_def by blast
  show "set (timer_queue s') \<subseteq> set (timer_queue s)" "tmebs s' = tmebs s" "current_time s' = current_time s"
    by (auto simp: T e)
  have a: "armed ev s' = armed ev s" if "\<And>t. ev = TskTm t \<Longrightarrow> t \<notin> T" for ev
    using that by (cases ev) (simp_all add: T cyc_exists_def alm_exists_def tim_more [OF e(1)])
  have "events_ok {} s'"
    unfolding events_ok_def
  proof (intro conjI ballI allI impI)
    fix ev assume "ev \<in> set (timer_queue s')"
    then have v: "ev \<in> set (timer_queue s)" "\<And>t. ev = TskTm t \<Longrightarrow> t \<notin> T" by (auto simp: T)
    then show "armed ev s'" "tm_callback (tmebs s' ev) = Some (callback_of ev)"
      using d(5) by (simp_all add: a [OF v(2)] e events_ok_def)
  next
    fix ev assume v: "is_handler ev" "armed ev s'"
    then have n: "\<And>t. ev = TskTm t \<Longrightarrow> t \<notin> T" by auto
    then have "ev \<in> set (timer_queue s)" using d(5) v by (simp add: a [OF n] events_ok_def)
    then show "ev \<in> set (timer_queue s')" using v(1) by (auto simp: T)
  qed
  moreover have "tmq_ok s'"
    using d(2) by (auto simp: tmq_ok_def T event_time_def [abs_def] e sorted_filter)
  moreover have "clock_ok s'" using d(3) e by (simp add: clock_ok_def)
  ultimately show "tim_ok s'" using d(4,6) m
    by (simp add: tim_ok_x_def handlers_ok_cong [OF e(1)] phases_ok_cong [OF e(1,2)])
qed

text \<open>The queue and the states of the handlers and tasks agree.\<close>

lemma tim_ok_events:
  assumes "tim_ok s"
  shows "CycTm i \<in> set (timer_queue s) \<longleftrightarrow> cyc_exists i s \<and> has (cycstat (cyccb_table s i)) TCYC_STA"
    "AlmTm i \<in> set (timer_queue s) \<longleftrightarrow> alm_exists i s \<and> has (almstat (almcb_table s i)) TALM_STA"
    "TskTm t \<in> set (timer_queue s) \<Longrightarrow> in_wait (tstate (tcbs s t))"
proof -
  have e: "is_handler ev \<Longrightarrow> ev \<in> set (timer_queue s) \<longleftrightarrow> armed ev s" "ev \<in> set (timer_queue s) \<Longrightarrow> armed ev s" for ev
    using tim_okD(5) [OF assms] unfolding events_ok_def by blast+
  show "CycTm i \<in> set (timer_queue s) \<longleftrightarrow> cyc_exists i s \<and> has (cycstat (cyccb_table s i)) TCYC_STA"
    "AlmTm i \<in> set (timer_queue s) \<longleftrightarrow> alm_exists i s \<and> has (almstat (almcb_table s i)) TALM_STA"
    using e(1) [of "CycTm i"] e(1) [of "AlmTm i"] by simp_all
  show "TskTm t \<in> set (timer_queue s) \<Longrightarrow> in_wait (tstate (tcbs s t))" using e(2) [of "TskTm t"] by simp
qed

section \<open>One event\<close>

definition due_events :: "'a kst_scheme \<Rightarrow> tmid set" where
  "due_events s = {ev \<in> set (timer_queue s). sint (tm_time (tmebs s ev)) \<le> sint (current_time s)}"

lemma finite_due [simp]: "finite (due_events s)"
  by (simp add: due_events_def)

text \<open>What is asked of the handlers: they keep the invariant and the time, and set no event that
  is due.\<close>

definition handlers_behave :: "'a tim_st_scheme usr \<Rightarrow> bool" where
  "handlers_behave usr \<longleftrightarrow>
     (\<forall>ex hdr s. tim_ok s \<longrightarrow> tim_ok (usr ex hdr s) \<and> current_time (usr ex hdr s) = current_time s \<and>
        timer_period (usr ex hdr s) = timer_period s \<and> due_events (usr ex hdr s) \<subseteq> due_events s)"

lemma handlers_behaveD:
  assumes "handlers_behave usr" "tim_ok s"
  shows "tim_ok (usr ex hdr s)" "current_time (usr ex hdr s) = current_time s"
    "due_events (usr ex hdr s) \<subseteq> due_events s" "timer_period (usr ex hdr s) = timer_period s"
  using assms by (auto simp: handlers_behave_def)

lemma call_cychdr_ok:
  assumes ok: "tim_ok_x {CycTm i} s" and new: "CycTm i \<notin> set (timer_queue s)" and a: "armed (CycTm i) s"
    and t: "tmtime_ok (tm_time (tmebs s (CycTm i)))" "sint (tm_time (tmebs s (CycTm i))) \<le> sint (current_time s)"
    and usr: "handlers_behave usr"
  shows "tim_ok (call_cychdr usr i s) \<and> current_time (call_cychdr usr i s) = current_time s \<and>
    due_events (call_cychdr usr i s) \<subseteq> due_events s"
proof -
  note d = tim_okD [OF ok]
  have ct: "0 \<le> sint (current_time s)" "sint (current_time s) < 2 ^ 61" using d(3) by (simp_all add: clock_ok_def)
  have cy: "0 < uint (cyctim (cyccb_table s i))" "uint (cyctim (cyccb_table s i)) < 2 ^ 61"
    using d(4) a by (simp_all add: handlers_ok_def)
  note n = next_time_spec [OF t ct(2) cy]
  let ?s1 = "cyc_timer_insert i (cyc_next_time i s) s"
  have tm: "tmtime_ok (cyc_next_time i s)" using n(2,3) ct cy by (simp add: tmtime_ok_def cyc_next_time_def)
  have ok1: "tim_ok ?s1" using tim_insert_ok [OF ok new a tm] by (simp add: cyc_timer_insert_def)
  have "due_events ?s1 \<subseteq> due_events s"
    using n(2) by (auto simp: due_events_def cyc_timer_insert_def cyc_next_time_def split: if_splits)
  moreover have "current_time ?s1 = current_time s" by (simp add: cyc_timer_insert_def)
  ultimately show ?thesis
    using handlers_behaveD(1,2) [OF usr ok1] order_trans [OF handlers_behaveD(3) [OF usr ok1]]
    by (simp add: call_cychdr_def)
qed

lemma call_almhdr_ok:
  assumes ok: "tim_ok_x {AlmTm i} s" and new: "AlmTm i \<notin> set (timer_queue s)" and usr: "handlers_behave usr"
  shows "tim_ok (call_almhdr usr i s) \<and> current_time (call_almhdr usr i s) = current_time s \<and>
    due_events (call_almhdr usr i s) \<subseteq> due_events s"
proof -
  note d = tim_okD [OF ok]
  let ?s1 = "upd_almcb i (\<lambda>c. c\<lparr>almstat := almstat c AND NOT TALM_STA\<rparr>) s"
  have "mtx_ok ?s1" by (rule mtx_ok_untouched [of ?s1 s]) (use d(1) in \<open>simp_all add: upd_almcb_def\<close>)
  moreover have c: "has (w AND NOT TALM_STA) TALM_STA = False" for w by (simp add: has_def TALM_STA_def and.assoc)
  have ex: "alm_exists j ?s1 = alm_exists j s" "cyc_exists j ?s1 = cyc_exists j s" for j
    by (simp_all add: alm_exists_def cyc_exists_def)
  have "armed ev ?s1 \<longleftrightarrow> ev \<noteq> AlmTm i \<and> armed ev s" for ev by (cases ev) (auto simp: ex c)
  then have "events_ok {} ?s1" using d(5) new by (auto simp: events_ok_def)
  moreover have "handlers_ok ?s1" using d(4) by (auto simp: handlers_ok_def ex)
  moreover have "tmq_ok ?s1" "clock_ok ?s1" using d(2,3) cong_ok [of ?s1 s] by simp_all
  moreover have "phases_ok ?s1" using d(6) by (simp add: phases_ok_def ex)
  ultimately have ok1: "tim_ok ?s1" by (simp add: tim_ok_x_def)
  have "due_events ?s1 = due_events s" by (simp add: due_events_def)
  then show ?thesis using handlers_behaveD(1-3) [OF usr ok1] by (simp add: call_almhdr_def)
qed


text \<open>One round of the loop: the event of the head has come, and its callback is run.\<close>

lemma due_head:
  assumes ok: "tim_ok s" and q: "timer_queue s = ev # rest"
  shows "ll_cmp (tm_time (tmebs s ev)) (current_time s) = sint (tm_time (tmebs s ev)) - sint (current_time s)"
    "tmtime_ok (tm_time (tmebs s ev))"
    "sint (current_time s) < sint (tm_time (tmebs s ev)) \<Longrightarrow> due_events s = {}"
proof -
  note d = tim_okD [OF ok]
  show t: "tmtime_ok (tm_time (tmebs s ev))" using d(2) q by (simp add: tmq_ok_def)
  have "tmtime_ok (current_time s)" using d(3) by (simp add: clock_ok_def tmtime_ok_def)
  then show "ll_cmp (tm_time (tmebs s ev)) (current_time s) = sint (tm_time (tmebs s ev)) - sint (current_time s)"
    by (rule ll_cmp_exact [OF t])
  have "\<forall>e \<in> set rest. event_time s ev \<le> event_time s e" using d(2) q by (simp add: tmq_ok_def)
  then show "due_events s = {}" if "sint (current_time s) < sint (tm_time (tmebs s ev))"
    using that q by (force simp: due_events_def event_time_def)
qed

lemma events_ok_task: "events_ok {TskTm t} s = events_ok {} s"
proof -
  have "is_handler ev \<Longrightarrow> ev \<noteq> TskTm t" for ev by auto
  then show ?thesis unfolding events_ok_def by blast
qed

lemma round_ok:
  fixes s :: "'a tim_st_scheme"
  assumes ok: "tim_ok s" and q: "timer_queue s = ev # rest" and due: "ev \<in> due_events s"
    and usr: "handlers_behave usr"
  shows "\<exists>s'. run_cback usr (callback_of ev) (timer_delete ev s) = Some s' \<and> tim_ok s' \<and>
    current_time s' = current_time s \<and> due_events s' \<subseteq> due_events s - {ev}"
proof -
  let ?s1 = "timer_delete ev s"
  have ok1: "tim_ok_x {ev} ?s1" by (rule tim_delete_ok [OF ok])
  have new: "ev \<notin> set (timer_queue ?s1)" by simp
  have a: "armed ev s" using tim_okD(5) [OF ok] q by (simp add: events_ok_def)
  have e: "kst.more ?s1 = kst.more s" by simp
  have a1: "armed ev ?s1" using a by (simp add: armed_cong [OF mtx_more_kst [OF e]])
  have dm: "due_events ?s1 = due_events s - {ev}" by (auto simp: due_events_def)
  note t = due_head(2) [OF ok q]
  have le: "sint (tm_time (tmebs s ev)) \<le> sint (current_time s)" using due by (simp add: due_events_def)
  show ?thesis
  proof (cases ev)
    case (TskTm t)
    have w: "in_wait (tstate (tcbs ?s1 t))" using a TskTm by simp
    have ok2: "tim_ok ?s1" using ok1 TskTm by (simp add: tim_ok_x_def events_ok_task)
    obtain s' where s': "kernel_wait_release_tmout t ?s1 = Some s'" "mtx_ok s'"
      using kernel_wait_release_tmout_ok [OF tim_okD(1) [OF ok1] w] by blast
    have l: "lets_go s' ?s1" by (rule wait_tmout_lets_go [OF s'(1)]) (use new TskTm in simp)
    note g = lets_go_ok [OF l ok2 s'(2)]
    have "due_events s' \<subseteq> due_events ?s1" using g(2) by (auto simp: due_events_def g(3,4))
    then show ?thesis using s'(1) g(1,4) dm TskTm by (simp add: run_cback_def)
  next
    case (CycTm i)
    have "tim_ok (call_cychdr usr i ?s1) \<and> current_time (call_cychdr usr i ?s1) = current_time ?s1 \<and>
        due_events (call_cychdr usr i ?s1) \<subseteq> due_events ?s1"
      by (rule call_cychdr_ok [OF _ _ _ _ _ usr]) (use ok1 new a1 t le CycTm in simp_all)
    then show ?thesis using dm CycTm by (simp add: run_cback_def)
  next
    case (AlmTm i)
    have "tim_ok (call_almhdr usr i ?s1) \<and> current_time (call_almhdr usr i ?s1) = current_time ?s1 \<and>
        due_events (call_almhdr usr i ?s1) \<subseteq> due_events ?s1"
      by (rule call_almhdr_ok [OF _ _ usr]) (use ok1 new AlmTm in simp_all)
    then show ?thesis using dm AlmTm by (simp add: run_cback_def)
  qed
qed

section \<open>The loop returns, and leaves no event that is due\<close>

lemma timer_loop_returns:
  assumes "tim_ok s" "handlers_behave usr"
  shows "\<exists>s'. timer_loop usr s = Some s' \<and> tim_ok s' \<and> current_time s' = current_time s \<and> due_events s' = {}"
  using assms(1)
proof (induction "card (due_events s)" arbitrary: s rule: less_induct)
  case less
  show ?case
  proof (cases "timer_queue s")
    case Nil
    then show ?thesis using less.prems by (subst timer_loop.simps) (simp add: due_events_def)
  next
    case (Cons ev rest)
    note h = due_head [OF less.prems Cons]
    show ?thesis
    proof (cases "sint (current_time s) < sint (tm_time (tmebs s ev))")
      case True
      then show ?thesis using less.prems h Cons by (subst timer_loop.simps) simp
    next
      case False
      then have due: "ev \<in> due_events s" using Cons by (simp add: due_events_def)
      have cb: "tm_callback (tmebs s ev) = Some (callback_of ev)"
        using tim_okD(5) [OF less.prems] Cons by (simp add: events_ok_def)
      obtain s1 where s1: "run_cback usr (callback_of ev) (timer_delete ev s) = Some s1" "tim_ok s1"
        "current_time s1 = current_time s" "due_events s1 \<subseteq> due_events s - {ev}"
        using round_ok [OF less.prems Cons due assms(2)] by blast
      have "due_events s1 \<subset> due_events s" using s1(4) due by blast
      then have "card (due_events s1) < card (due_events s)" by (rule psubset_card_mono [rotated]) simp
      then obtain s2 where s2: "timer_loop usr s1 = Some s2" "tim_ok s2" "current_time s2 = current_time s1"
        "due_events s2 = {}" using less.hyps s1(2) by blast
      show ?thesis using s2 s1(1,3) h(1) False cb Cons by (subst timer_loop.simps) simp
    qed
  qed
qed

section \<open>The interrupt\<close>

lemma move_last_member:
  assumes k: "kinv s" and t: "t \<in> set (que s (Rdy (priority (tcbs s t))))"
    and u: "fst (ready_queue_move_last t s) = Some u"
  shows "u \<in> set (que s (Rdy (priority (tcbs s u))))"
proof -
  let ?q = "removeAll t (que s (Rdy (priority (tcbs s t)))) @ [t]"
  obtain us where "?q = u # us" using u by (auto simp: ready_queue_move_last_def Let_def split: list.splits)
  then have "u \<in> set ?q" by (metis list.set_intros(1))
  then have "u \<in> set (que s (Rdy (priority (tcbs s t))))" using t by auto
  moreover from this have "priority (tcbs s u) = priority (tcbs s t)"
    by (rule rdq_okD(8) [OF kinv_xD(1) [OF k]])
  ultimately show ?thesis by simp
qed

text \<open>The task that a time slice chooses is ready.\<close>

lemma slice_choice:
  assumes k: "kinv s" and t: "t \<in> set (que s (Rdy (priority (tcbs s t))))"
    and u: "fst (time_slice_schedule (Some t) s) = Some u"
  shows "u \<in> set (que s (Rdy (priority (tcbs s u))))"
proof -
  let ?s = "tcb_upd t (\<lambda>c. c\<lparr>slicecnt := slicecnt c + timer_period s\<rparr>) s"
  have k1: "kinv ?s" using k by (subst tcb_upd_kinv_same) simp_all
  have "u \<in> set (que ?s (Rdy (priority (tcbs ?s u))))" if "fst (ready_queue_move_last t ?s) = Some u"
    by (rule move_last_member [OF k1 _ that]) (use t in simp)
  then show ?thesis using u t by (auto simp: time_slice_schedule_def Let_def split: if_splits)
qed

lemma slice_ok:
  fixes s :: "'a tim_st_scheme"
  assumes ok: "tim_ok s" and t: "schedtsk s = Some t"
  defines "s' \<equiv> (snd (time_slice_schedule (Some t) s))\<lparr>schedtsk := fst (time_slice_schedule (Some t) s)\<rparr>"
  shows "tim_ok s' \<and> current_time s' = current_time s"
proof -
  note d = tim_okD [OF ok]
  let ?s2 = "snd (time_slice_schedule (Some t) s)"
  have k: "kinv s" by (rule mtx_okD(1) [OF d(1)])
  have q: "t \<in> set (que s (Rdy (priority (tcbs s t))))" by (rule kinv_xD(9) [OF k t])
  have qs: "u \<in> set (que s (Rdy (priority (tcbs s u))))" if "Some t = Some u" for u using that q by blast
  have k3: "kinv s'"
    unfolding s'_def
  proof (rule kinv_x_schedtsk [OF slice_kinv_x [OF k qs]])
    fix u assume u: "fst (time_slice_schedule (Some t) s) = Some u"
    show "u \<in> set (que ?s2 (Rdy (priority (tcbs ?s2 u))))" by (rule queued_slice [OF k qs slice_choice [OF k q u]])
  qed
  have "tcb_view (tcbs s' u) = tcb_view (tcbs s u) \<and> tstate (tcbs s' u) = tstate (tcbs s u)" for u
    using slice_tcbs [of "Some t" s u] by (auto simp: tcb_view_def s'_def)
  moreover have "que s' (WaitQ OMtx i) = que s (WaitQ OMtx i)" for i
    using slice_que [OF kinv_xD(2) [OF k], of "Some t" "WaitQ OMtx i", OF qs] by (auto simp: s'_def)
  moreover have e: "kst.more s' = kst.more s" by (simp add: s'_def)
  moreover have "ctxtsk s' = ctxtsk s" by (simp add: s'_def)
  ultimately have m3: "mtx_same s' s" by (simp add: mtx_same_def mtx_more [OF e])
  have l3: "lets_go s' s"
    by (rule lets_go_same [OF mtx_more_kst [OF e]]) (simp_all add: s'_def slice_tcb_fields)
  show ?thesis using lets_go_ok(1,4) [OF l3 ok mtx_same_ok [OF m3 k3 d(1)]] by simp
qed

lemma account_time_ok:
  fixes s :: "'a tim_st_scheme"
  assumes ok: "tim_ok s"
  shows "tim_ok (account_time s) \<and> current_time (account_time s) = current_time s"
proof (cases "ctxtsk s")
  case None
  then show ?thesis using ok by (simp add: account_time_def)
next
  case (Some t)
  define s1 where "s1 = tcb_upd t (\<lambda>c. if sysmode c > 0 then c\<lparr>stime := stime c + timer_period s\<rparr>
      else c\<lparr>utime := utime c + timer_period s\<rparr>) s"
  have v1: "tcb_view (tcbs s1 u) = tcb_view (tcbs s u)" "tstate (tcbs s1 u) = tstate (tcbs s u)" for u
    by (simp_all add: s1_def tcb_view_def)
  have k1: "kinv s1" unfolding s1_def using mtx_okD(1) [OF tim_okD(1) [OF ok]] by (subst tcb_upd_kinv_same) auto
  have e: "kst.more s1 = kst.more s" by (simp add: s1_def)
  have "que s1 = que s" "ctxtsk s1 = ctxtsk s" by (simp_all add: s1_def)
  then have m1: "mtx_same s1 s" unfolding mtx_same_def v1 mtx_more [OF e] by simp
  have l1: "lets_go s1 s" by (rule lets_go_same [OF mtx_more_kst [OF e]]) (simp_all add: v1, simp_all add: s1_def)
  note t1 = lets_go_ok [OF l1 ok mtx_same_ok [OF m1 k1 tim_okD(1) [OF ok]]]
  have "account_time s = (if schedtsk s1 = ctxtsk s1
      then (snd (time_slice_schedule (Some t) s1))\<lparr>schedtsk := fst (time_slice_schedule (Some t) s1)\<rparr> else s1)"
    using Some by (simp add: account_time_def Let_def s1_def split_beta)
  moreover have "ctxtsk s1 = Some t" using Some by (simp add: s1_def)
  ultimately show ?thesis using t1(1,4) slice_ok [OF t1(1), of t] by auto
qed

text \<open>The time goes on by one period.\<close>

lemma tick_ok:
  fixes s :: "'a tim_st_scheme"
  assumes ok: "tim_ok s" and r: "sint (current_time s) + uint (timer_period s) < 2 ^ 61"
  shows "tim_ok (s\<lparr>current_time := current_time s + timer_period s\<rparr>)" (is "tim_ok ?s")
    "sint (current_time s + timer_period s) = sint (current_time s) + uint (timer_period s)"
proof -
  note d = tim_okD [OF ok]
  have "current_time s + timer_period s = word_of_int (sint (current_time s) + uint (timer_period s))" by simp
  moreover have "sint (word_of_int (sint (current_time s) + uint (timer_period s)) :: 64 word) =
      sint (current_time s) + uint (timer_period s)"
    using d(3) r by (intro sint_small) (auto simp: clock_ok_def intro: order_trans [OF _ add_nonneg_nonneg])
  ultimately show e: "sint (current_time s + timer_period s) = sint (current_time s) + uint (timer_period s)"
    by presburger
  have m: "mtx_st.more ?s = mtx_st.more s" by (rule mtx_more_kst) simp
  have a: "armed ev ?s = armed ev s" for ev by (rule armed_cong [OF m]) simp
  have "mtx_ok ?s" by (rule mtx_ok_untouched [of ?s s]) (use d(1) in simp_all)
  moreover have "tmq_ok ?s" using d(2) by (simp add: tmq_ok_def event_time_def [abs_def])
  moreover have "clock_ok ?s" using d(3) r by (simp add: clock_ok_def e)
  moreover have "timer_queue ?s = timer_queue s" "tmebs ?s = tmebs s" by simp_all
  then have "events_ok {} ?s" using d(5) unfolding events_ok_def a by metis
  moreover have "handlers_ok ?s" using d(4) unfolding handlers_ok_cong [OF m] .
  moreover have "phases_ok ?s" using d(6) phases_ok_cong [OF m] by simp
  ultimately show "tim_ok ?s" unfolding tim_ok_x_def by blast
qed

lemma timer_handler_returns:
  assumes ok: "tim_ok s" and usr: "handlers_behave usr"
    and r: "sint (current_time s) + uint (timer_period s) < 2 ^ 61"
  shows "\<exists>s'. timer_handler usr s = Some s' \<and> tim_ok s' \<and>
    sint (current_time s') = sint (current_time s) + uint (timer_period s) \<and> due_events s' = {}"
  using timer_loop_returns [OF conjunct1 [OF account_time_ok [OF tick_ok(1) [OF ok r]]] usr]
    conjunct2 [OF account_time_ok [OF tick_ok(1) [OF ok r]]] tick_ok(2) [OF ok r]
  by (auto simp: timer_handler_def)

section \<open>The calls for cyclic and alarm handlers\<close>

lemma tim_ok_mono: "tim_ok_x X s \<Longrightarrow> X \<subseteq> Y \<Longrightarrow> tim_ok_x Y s"
  by (auto simp: tim_ok_x_def events_ok_def)

lemma tim_ok_drop: "tim_ok_x {ev} s \<Longrightarrow> \<not> armed ev s \<Longrightarrow> tim_ok s"
  unfolding tim_ok_x_def events_ok_def by (metis empty_iff singletonD)

text \<open>A control block changes while its event is in no queue.\<close>

lemma upd_cyccb_ok:
  fixes s :: "'a tim_st_scheme"
  assumes ok: "tim_ok_x {CycTm i} s" and q: "CycTm i \<notin> set (timer_queue s)"
    and f: "cychdr (f (cyccb_table s i)) = cychdr (cyccb_table s i)" "cyctim (f (cyccb_table s i)) = cyctim (cyccb_table s i)"
  shows "tim_ok_x {CycTm i} (upd_cyccb i f s)" (is "tim_ok_x _ ?s")
proof -
  note d = tim_okD [OF ok]
  have h: "cychdr (cyccb_table ?s j) = cychdr (cyccb_table s j)" "cyctim (cyccb_table ?s j) = cyctim (cyccb_table s j)" for j
    using f by simp_all
  have ex: "cyc_exists j ?s = cyc_exists j s" "alm_exists j ?s = alm_exists j s" for j
    by (simp_all add: cyc_exists_def alm_exists_def h del: upd_hdr_sel(1))
  have a: "armed ev ?s = armed ev s" if "ev \<noteq> CycTm i" for ev using that by (cases ev) (simp_all add: ex)
  have "mtx_ok ?s" by (rule mtx_ok_untouched [of ?s s]) (use d(1) in \<open>simp_all add: upd_cyccb_def\<close>)
  moreover have "tmq_ok ?s" "clock_ok ?s" using d(2,3) cong_ok [of ?s s] by simp_all
  moreover have "handlers_ok ?s" using d(4) by (simp add: handlers_ok_def ex h del: upd_hdr_sel(1))
  moreover have "phases_ok ?s" using d(6) by (simp add: phases_ok_def ex)
  moreover have "events_ok {CycTm i} ?s" using d(5) q a unfolding events_ok_def upd_hdr_sel(14,15) by (metis singletonI)
  ultimately show ?thesis by (simp add: tim_ok_x_def)
qed

lemma upd_almcb_ok:
  fixes s :: "'a tim_st_scheme"
  assumes ok: "tim_ok_x {AlmTm i} s" and q: "AlmTm i \<notin> set (timer_queue s)"
    and f: "almhdr (f (almcb_table s i)) = almhdr (almcb_table s i)"
  shows "tim_ok_x {AlmTm i} (upd_almcb i f s)" (is "tim_ok_x _ ?s")
proof -
  note d = tim_okD [OF ok]
  have h: "almhdr (almcb_table ?s j) = almhdr (almcb_table s j)" for j using f by simp
  have ex: "cyc_exists j ?s = cyc_exists j s" "alm_exists j ?s = alm_exists j s" for j
    by (simp_all add: cyc_exists_def alm_exists_def h del: upd_hdr_sel(7))
  have a: "armed ev ?s = armed ev s" if "ev \<noteq> AlmTm i" for ev using that by (cases ev) (simp_all add: ex)
  have "mtx_ok ?s" by (rule mtx_ok_untouched [of ?s s]) (use d(1) in \<open>simp_all add: upd_almcb_def\<close>)
  moreover have "tmq_ok ?s" "clock_ok ?s" using d(2,3) cong_ok [of ?s s] by simp_all
  moreover have "handlers_ok ?s" using d(4) by (simp add: handlers_ok_def ex h del: upd_hdr_sel(7))
  moreover have "phases_ok ?s" using d(6) by (simp add: phases_ok_def ex)
  moreover have "events_ok {AlmTm i} ?s" using d(5) q a unfolding events_ok_def upd_hdr_sel(19,20) by (metis singletonI)
  ultimately show ?thesis by (simp add: tim_ok_x_def)
qed

end
