(* ===== verification/Handler_Calls.thy ===== *)
theory Handler_Calls
  imports Timer_Handler
begin

text \<open>
  The calls for cyclic and alarm handlers (\<open>time_calls.c\<close>) keep the invariant of the timer events, and
  the ones a handler may use set no event that is due: a started handler starts later than now.
\<close>

lemma start_time:
  assumes c: "clock_ok s" and r: "uint r < 2 ^ 60"
  shows "tmtime_ok ((current_time s + r) + adjust_time s)"
    "sint ((current_time s + r) + adjust_time s) = sint (current_time s) + uint r + uint (hw_usec s)"
proof -
  have "0 \<le> sint (current_time s)" "0 \<le> uint r" "due (uint r) s < 2 ^ 62"
    using c r by (auto simp: clock_ok_def due_def)
  then show "tmtime_ok ((current_time s + r) + adjust_time s)"
    "sint ((current_time s + r) + adjust_time s) = sint (current_time s) + uint r + uint (hw_usec s)"
    using due_exact [of s "uint r"] by (simp_all add: adjust_time_def due_def)
qed

text \<open>An operation of a handler: the invariant is kept, the time stands, no new event is due.\<close>

definition harmless :: "'a tim_st_scheme \<Rightarrow> 'a tim_st_scheme \<Rightarrow> bool" where
  "harmless s' s \<longleftrightarrow> tim_ok s' \<and> current_time s' = current_time s \<and> timer_period s' = timer_period s \<and>
     due_events s' \<subseteq> due_events s"

lemma handlers_behaveI: "(\<And>ex hdr s. tim_ok s \<Longrightarrow> harmless (usr ex hdr s) s) \<Longrightarrow> handlers_behave usr"
  by (auto simp: handlers_behave_def harmless_def)

lemma harmless_trans: "harmless s'' s' \<Longrightarrow> harmless s' s \<Longrightarrow> harmless s'' s"
  by (auto simp: harmless_def)

lemma harmless_refl: "tim_ok s \<Longrightarrow> harmless s s"
  by (simp add: harmless_def)

text \<open>The event of a handler leaves the queue when the handler is started.\<close>

definition unlink :: "bool \<Rightarrow> tmid \<Rightarrow> 'a kst_scheme \<Rightarrow> 'a kst_scheme" where
  "unlink sta ev s = (if sta then timer_delete ev s else s)"

lemma unlink_frame [simp]:
  "tcbs (unlink b ev s) = tcbs s" "current_time (unlink b ev s) = current_time s" "tmebs (unlink b ev s) = tmebs s"
  "hw_usec (unlink b ev s) = hw_usec s" "timer_period (unlink b ev s) = timer_period s"
  "kst.more (unlink b ev s) = kst.more s" "set (timer_queue (unlink b ev s)) \<subseteq> set (timer_queue s)"
  by (auto simp: unlink_def timer_delete_def)

lemma unlink_sel [simp]:
  "cyccb_table (unlink b ev s) = cyccb_table s" "free_cyccb (unlink b ev s) = free_cyccb s"
  "max_cycid (unlink b ev s) = max_cycid s" "almcb_table (unlink b ev s) = almcb_table s"
  "free_almcb (unlink b ev s) = free_almcb s" "max_almid (unlink b ev s) = max_almid s"
  by (simp_all add: unlink_def)

lemma unlink_ok:
  assumes ok: "tim_ok s" and b: "b \<longleftrightarrow> armed ev s"
  shows "tim_ok_x {ev} (unlink b ev s)" "ev \<notin> set (timer_queue (unlink b ev s))"
proof -
  show "tim_ok_x {ev} (unlink b ev s)" using tim_delete_ok [OF ok] tim_ok_mono [OF ok] by (simp add: unlink_def)
  have "ev \<notin> set (timer_queue s)" if "\<not> armed ev s" using that tim_okD(5) [OF ok] by (auto simp: events_ok_def)
  then show "ev \<notin> set (timer_queue (unlink b ev s))" using b by (simp add: unlink_def)
qed

lemma due_unlink:
  "tmebs s' = tmebs s \<Longrightarrow> current_time s' = current_time s \<Longrightarrow> set (timer_queue s') \<subseteq> set (timer_queue s) \<Longrightarrow>
   due_events s' \<subseteq> due_events s"
  by (auto simp: due_events_def)

lemma due_insert:
  assumes "sint (current_time s) < sint tm"
  shows "due_events (timer_insert_abs ev tm cb s) \<subseteq> due_events s"
  using assms by (auto simp: due_events_def split: if_splits)

lemma timer_insert_abs_period [simp]: "timer_period (timer_insert_abs ev tm cb s) = timer_period s"
  by (simp add: timer_defs)

lemma upd_insert:
  "upd_cyccb i f (timer_insert_abs ev tm cb s) = timer_insert_abs ev tm cb (upd_cyccb i f s)"
  "upd_almcb i g (timer_insert_abs ev tm cb s) = timer_insert_abs ev tm cb (upd_almcb i g s)"
  by (simp_all add: upd_cyccb_def upd_almcb_def timer_defs)

lemma upd_hdr_period [simp]:
  "timer_period (upd_cyccb i f s) = timer_period s" "timer_period (upd_almcb i g s) = timer_period s"
  by (simp_all add: upd_cyccb_def upd_almcb_def)

lemma has_bit: "m \<noteq> 0 \<Longrightarrow> has (w OR m) m" "\<not> has (w AND NOT m) m" for m :: UINT
proof -
  have e: "(w AND NOT m) AND m = 0" "(w OR m) AND m = m" by (rule bit_eqI, auto simp: bit_simps)+
  show "has (w OR m) m" if "m \<noteq> 0" using that unfolding has_def e .
  show "\<not> has (w AND NOT m) m" unfolding has_def e by simp
qed

lemma has_status [simp]:
  "has (w OR TCYC_STA) TCYC_STA" "\<not> has (w AND NOT TCYC_STA) TCYC_STA"
  "has (w OR TALM_STA) TALM_STA" "\<not> has (w AND NOT TALM_STA) TALM_STA"
  by (rule has_bit, (simp add: TCYC_STA_def TALM_STA_def)?)+

text \<open>A handler is called as a task-independent part.\<close>

lemma task_indep_ok:
  fixes s :: "'a tim_st_scheme"
  assumes ok: "tim_ok s"
  shows "tim_ok (s\<lparr>task_indep := b\<rparr>)" "due_events (s\<lparr>task_indep := b\<rparr>) = due_events s"
proof -
  let ?s = "s\<lparr>task_indep := b\<rparr>"
  note d = tim_okD [OF ok]
  have m: "mtx_st.more ?s = mtx_st.more s" by (rule mtx_more_kst) simp
  have a: "armed ev ?s = armed ev s" for ev by (rule armed_cong [OF m]) simp
  have f: "timer_queue ?s = timer_queue s" "tmebs ?s = tmebs s" by simp_all
  have "mtx_ok ?s" by (rule mtx_ok_untouched [of ?s s]) (use d(1) in simp_all)
  moreover have "tmq_ok ?s" "clock_ok ?s" using d(2,3) cong_ok [of ?s s] by simp_all
  moreover have "events_ok {} ?s" using d(5) unfolding events_ok_def a f .
  moreover have "handlers_ok ?s" using d(4) unfolding handlers_ok_cong [OF m] .
  moreover have "phases_ok ?s" using d(6) unfolding phases_ok_cong [OF m f(2)] .
  ultimately show "tim_ok ?s" unfolding tim_ok_x_def by blast
qed (simp add: due_events_def)

lemma independent_ok:
  assumes ok: "tim_ok s" and usr: "handlers_behave usr"
  shows "harmless (independent (usr ex hdr) s) s"
proof -
  let ?r = "usr ex hdr (s\<lparr>task_indep := True\<rparr>)"
  note b = handlers_behaveD [OF usr task_indep_ok(1) [OF ok, of True], of ex hdr]
  have "tim_ok (?r\<lparr>task_indep := task_indep s\<rparr>)" by (rule task_indep_ok(1) [OF b(1)])
  then show ?thesis
    using b(2-4) task_indep_ok(2) [OF b(1), of "task_indep s"] task_indep_ok(2) [OF ok, of True]
    by (simp add: harmless_def independent_def)
qed

section \<open>Cyclic handlers\<close>

lemma tk_stp_cyc_ok:
  assumes ok: "tim_ok s"
  shows "harmless (snd (tk_stp_cyc i s)) s"
proof (cases "cyc_exists i s")
  case True
  let ?sta = "has (cycstat (cyccb_table s i)) TCYC_STA"
  let ?s1 = "unlink ?sta (CycTm i) s"
  let ?s2 = "upd_cyccb i (\<lambda>c. c\<lparr>cycstat := cycstat c AND NOT TCYC_STA\<rparr>) ?s1"
  note u = unlink_ok [OF ok, of ?sta "CycTm i"]
  have "tim_ok_x {CycTm i} ?s2" by (rule upd_cyccb_ok [OF u]) (use True in simp_all)
  then have "tim_ok ?s2" by (rule tim_ok_drop) simp
  moreover have "due_events ?s2 \<subseteq> due_events s" by (rule due_unlink) simp_all
  moreover have "tk_stp_cyc i s = (E_OK, ?s2)"
    using True by (simp add: tk_stp_cyc_def cyc_exists_def unlink_def)
  ultimately show ?thesis by (simp add: harmless_def)
qed (use ok in \<open>simp add: tk_stp_cyc_def cyc_exists_def harmless_refl\<close>)

lemma cyc_started:
  assumes ok: "tim_ok_x {CycTm i} s" and q: "CycTm i \<notin> set (timer_queue s)" and ex: "cyc_exists i s"
    and tm: "tmtime_ok tm" "sint (current_time s) < sint tm"
  defines "s' \<equiv> upd_cyccb i (\<lambda>c. c\<lparr>cycstat := cycstat c OR TCYC_STA\<rparr>) (cyc_timer_insert i tm s)"
  shows "tim_ok s'" "current_time s' = current_time s" "timer_period s' = timer_period s" "due_events s' \<subseteq> due_events s"
proof -
  let ?s1 = "upd_cyccb i (\<lambda>c. c\<lparr>cycstat := cycstat c OR TCYC_STA\<rparr>) s"
  have e: "s' = timer_insert_abs (CycTm i) tm (Some (callback_of (CycTm i))) ?s1"
    by (simp add: s'_def cyc_timer_insert_def upd_insert)
  have ok1: "tim_ok_x {CycTm i} ?s1" by (rule upd_cyccb_ok [OF ok q]) simp_all
  have "cyc_exists i ?s1" using ex by (simp add: cyc_exists_def)
  then show "tim_ok s'" unfolding e using q by (intro tim_insert_ok [OF ok1 _ _ tm(1)]) simp_all
  have "due_events s' \<subseteq> due_events ?s1" unfolding e by (rule due_insert) (use tm in simp)
  also have "due_events ?s1 = due_events s" by (simp add: due_events_def)
  finally show "due_events s' \<subseteq> due_events s" .
qed (simp_all add: s'_def cyc_timer_insert_def)

lemma tk_sta_cyc_ok:
  assumes ok: "tim_ok s" and r: "uint (cyctim (cyccb_table s i)) < 2 ^ 60"
  shows "harmless (snd (tk_sta_cyc i s)) s"
proof (cases "cyc_exists i s")
  case True
  let ?cb = "cyccb_table s i"
  let ?sta = "has (cycstat ?cb) TCYC_STA" and ?phs = "has (cycatr ?cb) TA_PHS"
  let ?f = "\<lambda>c. c\<lparr>cycstat := cycstat c OR TCYC_STA\<rparr>"
  note d = tim_okD [OF ok]
  have ct: "0 \<le> sint (current_time s)" "sint (current_time s) < 2 ^ 61" using d(3) by (simp_all add: clock_ok_def)
  have cy: "0 < uint (cyctim ?cb)" "uint (cyctim ?cb) < 2 ^ 61" using d(4) True by (simp_all add: handlers_ok_def)
  have t0: "tmtime_ok (tm_time (tmebs s (CycTm i)))" using d(6) True by (simp add: phases_ok_def)
  show ?thesis
  proof (cases "?phs \<and> ?sta")
    case started: True
    have a: "CycTm i \<in> set (timer_queue s)" using d(5) True started by (simp add: events_ok_def)
    have "upd_cyccb i ?f s = s"
    proof -
      have "cycstat ?cb OR TCYC_STA = cycstat ?cb"
        using started by (auto simp: has_def TCYC_STA_def intro!: bit_eqI simp: bit_simps)
      then show ?thesis by (simp add: upd_cyccb_def)
    qed
    then show ?thesis using True started ok by (simp add: tk_sta_cyc_def cyc_exists_def Let_def harmless_refl)
  next
    case starts: False
    let ?s1 = "unlink ?sta (CycTm i) s"
    let ?tm = "if ?phs then (if ll_cmp (tm_time (tmebs s (CycTm i))) (current_time s) \<le> 0 then cyc_next_time i s
        else tm_time (tmebs s (CycTm i))) else (current_time s + cyctim ?cb) + adjust_time s"
    note u = unlink_ok [OF ok, of ?sta "CycTm i"]
    have "tmtime_ok (current_time s)" using ct by (simp add: tmtime_ok_def)
    note l = ll_cmp_exact [OF t0 this]
    have "tmtime_ok (cyc_next_time i s) \<and> sint (current_time s) < sint (cyc_next_time i s)"
      if "sint (tm_time (tmebs s (CycTm i))) \<le> sint (current_time s)"
      using next_time_spec(2,3) [OF t0 that ct(2) cy] ct cy by (simp add: cyc_next_time_def tmtime_ok_def)
    moreover have "sint (current_time s) < sint ((current_time s + cyctim ?cb) + adjust_time s)"
      using start_time(2) [OF d(3) r] cy by (simp add: uint_ge_0 add_strict_increasing2 add_pos_nonneg)
    ultimately have "tmtime_ok ?tm \<and> sint (current_time s) < sint ?tm"
      using start_time(1) [OF d(3) r] t0 l by simp
    then have "harmless (upd_cyccb i ?f (cyc_timer_insert i ?tm ?s1)) s"
      using cyc_started [of i ?s1 ?tm] u True due_unlink [of ?s1 s]
      by (auto simp: harmless_def cyc_exists_def)
    moreover have "tk_sta_cyc i s = (E_OK, upd_cyccb i ?f (cyc_timer_insert i ?tm ?s1))"
      using True starts by (auto simp: tk_sta_cyc_def cyc_exists_def Let_def unlink_def adjust_time_def timer_delete_def)
    ultimately show ?thesis by simp
  qed
qed (use ok in \<open>simp add: tk_sta_cyc_def cyc_exists_def Let_def harmless_refl\<close>)

lemma tk_del_cyc_ok:
  assumes ok: "tim_ok s"
  shows "harmless (snd (tk_del_cyc i s)) s"
proof (cases "cyc_exists i s")
  case True
  let ?sta = "has (cycstat (cyccb_table s i)) TCYC_STA"
  define s1 where "s1 = unlink ?sta (CycTm i) s"
  define s2 where "s2 = upd_cyccb i (\<lambda>c. c\<lparr>cychdr := NULL\<rparr>) (s1\<lparr>free_cyccb := free_cyccb s1 @ [i]\<rparr>)"
  note u = unlink_ok [OF ok, of ?sta "CycTm i", folded s1_def]
  have ok1: "tim_ok_x {CycTm i} s1" and q: "CycTm i \<notin> set (timer_queue s1)" using u True by simp_all
  note d = tim_okD [OF ok1]
  have ex1: "cyc_exists i s1" using True by (simp add: cyc_exists_def s1_def)
  have ex: "cyc_exists j s2 \<longleftrightarrow> j \<noteq> i \<and> cyc_exists j s1" "alm_exists j s2 = alm_exists j s1" for j
    by (auto simp: cyc_exists_def alm_exists_def s2_def)
  have f: "timer_queue s2 = timer_queue s1" "tmebs s2 = tmebs s1" "tcbs s2 = tcbs s1" by (simp_all add: s2_def)
  have "cyccb_table s2 j = cyccb_table s1 j" if "j \<noteq> i" for j using that by (simp add: s2_def)
  then have a: "armed ev s2 \<longleftrightarrow> ev \<noteq> CycTm i \<and> armed ev s1" for ev
    by (cases ev) (auto simp: ex f, simp_all add: s2_def)
  have "mtx_ok s2" by (rule mtx_ok_untouched [of s2 s1]) (use d(1) in \<open>simp_all add: s2_def upd_cyccb_def\<close>)
  moreover have "tmq_ok s2" using d(2) cong_ok(1) [OF f(1,2)] by simp
  moreover have "clock_ok s2" using d(3) by (simp add: clock_ok_def s2_def)
  moreover have "handlers_ok s2"
    using d(4) ex1 unfolding handlers_ok_def ex by (auto simp: s2_def cyc_exists_def)
  moreover have "phases_ok s2" using d(6) by (simp add: phases_ok_def ex f)
  moreover have "events_ok {} s2" using d(5) q unfolding events_ok_def f a by blast
  ultimately have "tim_ok s2" by (simp add: tim_ok_x_def)
  moreover have "due_events s2 \<subseteq> due_events s" by (rule due_unlink) (simp_all add: s2_def s1_def)
  moreover have "tk_del_cyc i s = (E_OK, s2)"
    using True by (simp add: tk_del_cyc_def cyc_exists_def unlink_def s2_def s1_def)
  ultimately show ?thesis by (simp add: harmless_def s2_def s1_def)
qed (use ok in \<open>simp add: tk_del_cyc_def cyc_exists_def harmless_refl\<close>)

text \<open>A control block taken from the free queue; its event is in no queue.\<close>

lemma set_time_hdr [simp]:
  "cyccb_table (set_time ev tm s) = cyccb_table s" "free_cyccb (set_time ev tm s) = free_cyccb s"
  "max_cycid (set_time ev tm s) = max_cycid s" "almcb_table (set_time ev tm s) = almcb_table s"
  "free_almcb (set_time ev tm s) = free_almcb s" "max_almid (set_time ev tm s) = max_almid s"
  "timer_queue (set_time ev tm s) = timer_queue s" "current_time (set_time ev tm s) = current_time s"
  "hw_usec (set_time ev tm s) = hw_usec s" "tcbs (set_time ev tm s) = tcbs s"
  "timer_period (set_time ev tm s) = timer_period s"
  "tmebs (set_time ev tm s) = (tmebs s)(ev := (tmebs s ev)\<lparr>tm_time := tm\<rparr>)"
  by (simp_all add: set_time_def)

lemma cyc_allocated:
  fixes s :: "'a tim_st_scheme"
  assumes ok: "tim_ok s" and fr: "free_cyccb s = i # free" and h: "cychdr (f (cyccb_table s i)) \<noteq> NULL"
    and c: "0 < uint (cyctim (f (cyccb_table s i)))" "uint (cyctim (f (cyccb_table s i))) < 2 ^ 61"
    and tm: "tmtime_ok tm"
  defines "s' \<equiv> set_time (CycTm i) tm (upd_cyccb i f (s\<lparr>free_cyccb := free\<rparr>))"
  shows "tim_ok_x {CycTm i} s'" "CycTm i \<notin> set (timer_queue s')" "cyc_exists i s'" "due_events s' = due_events s"
    "cyccb_table s' i = f (cyccb_table s i)" "current_time s' = current_time s" "timer_period s' = timer_period s"
    "tm_time (tmebs s' (CycTm i)) = tm" "hw_usec s' = hw_usec s"
proof -
  note d = tim_okD [OF ok]
  have i: "chk_id (max_cycid s) i" "cychdr (cyccb_table s i) = NULL" using d(4) fr by (auto simp: handlers_ok_def)
  have di: "distinct (i # free)" using d(4) fr by (simp add: handlers_ok_def)
  have sel: "cyccb_table s' j = (if j = i then f (cyccb_table s i) else cyccb_table s j)" "free_cyccb s' = free"
    "max_cycid s' = max_cycid s" "almcb_table s' = almcb_table s" "free_almcb s' = free_almcb s"
    "max_almid s' = max_almid s" "timer_queue s' = timer_queue s" "tcbs s' = tcbs s"
    "ev \<noteq> CycTm i \<Longrightarrow> tmebs s' ev = tmebs s ev" for j ev by (simp_all add: s'_def)
  show q: "CycTm i \<notin> set (timer_queue s')" using d(5) i by (auto simp: sel events_ok_def cyc_exists_def)
  show e: "cyc_exists i s'" using i h by (simp add: cyc_exists_def sel)
  have ex: "cyc_exists j s' \<longleftrightarrow> j = i \<or> cyc_exists j s" "alm_exists j s' = alm_exists j s" for j
    using e by (auto simp: cyc_exists_def alm_exists_def sel)
  have a: "armed ev s' = armed ev s" if "ev \<noteq> CycTm i" for ev using that by (cases ev) (simp_all add: ex sel)
  have ne: "ev \<noteq> CycTm i" if "ev \<in> set (timer_queue s)" for ev using that q sel by auto
  have "mtx_ok s'"
    by (rule mtx_ok_untouched [of s' s]) (use d(1) in \<open>simp_all add: s'_def upd_cyccb_def set_time_def\<close>)
  moreover have "tmq_ok s'"
  proof -
    have m: "map (event_time s') (timer_queue s) = map (event_time s) (timer_queue s)"
      using ne by (simp add: event_time_def sel)
    show ?thesis using d(2) ne unfolding tmq_ok_def sel(7) m by (simp add: sel(9))
  qed
  moreover have "clock_ok s'" using d(3) by (simp add: clock_ok_def s'_def)
  moreover have "handlers_ok s'"
    using d(4) fr di i h c unfolding handlers_ok_def ex by (auto simp: sel)
  moreover have "phases_ok s'" using d(6) tm unfolding phases_ok_def ex by (auto simp: s'_def)
  moreover have "events_ok {CycTm i} s'"
    using d(5) ne a unfolding events_ok_def sel(7) by (metis empty_iff sel(9) singletonI)
  ultimately show "tim_ok_x {CycTm i} s'" by (simp add: tim_ok_x_def)
  show "due_events s' = due_events s" using ne by (auto simp: due_events_def sel) (simp_all add: s'_def)
qed (simp_all add: s'_def)

lemma upd_cyccb_twice: "upd_cyccb i f (upd_cyccb i g s) = upd_cyccb i (\<lambda>c. f (g c)) s"
  by (simp add: upd_cyccb_def)

lemma set_time_insert: "timer_insert_abs ev tm cb (set_time ev tm' s) = timer_insert_abs ev tm cb s"
  by (simp add: timer_defs)

lemma next_time_ok:
  assumes t0: "tmtime_ok t0" "sint t0 < 2 ^ 61 + 2 ^ 60" and now: "0 \<le> sint now" "sint now < 2 ^ 61"
    and c: "0 < uint c" "uint c < 2 ^ 60"
  shows "tmtime_ok (next_time now c t0)" "sint now < sint (next_time now c t0)"
proof -
  have all: "tmtime_ok (next_time now c t0) \<and> sint now < sint (next_time now c t0)"
  proof (cases "sint t0 \<le> sint now")
    case True
    have "uint c < 2 ^ 61" using c by simp
    then show ?thesis using next_time_spec(2,3) [OF t0(1) True now(2) c(1)] now c by (simp add: tmtime_ok_def)
  next
    case False
    have "t0 + c = word_of_int (sint t0 + uint c)" by simp
    moreover have "sint (word_of_int (sint t0 + uint c) :: 64 word) = sint t0 + uint c"
      using t0 c by (intro sint_small) (auto simp: tmtime_ok_def)
    ultimately have s: "sint (t0 + c) = sint t0 + uint c" by presburger
    then have ok: "tmtime_ok (t0 + c)" using t0 c by (simp add: tmtime_ok_def)
    have "ll_cmp (t0 + c) now = sint (t0 + c) - sint now"
      using now by (intro ll_cmp_exact [OF ok]) (simp add: tmtime_ok_def)
    then show ?thesis using s ok False c by (simp add: next_time_def Let_def)
  qed
  then show "tmtime_ok (next_time now c t0)" "sint now < sint (next_time now c t0)" by auto
qed

lemma first_start_ok:
  fixes s :: "'a tim_st_scheme"
  assumes ok: "tim_ok s" and fr: "free_cyccb s = i # free" and h: "cychdr (f (cyccb_table s i)) \<noteq> NULL"
    and c: "cyctim (f (cyccb_table s i)) = cc_cyctim_u pk" "0 < uint (cc_cyctim_u pk)" "uint (cc_cyctim_u pk) < 2 ^ 60"
    and p: "uint (cc_cycphs_u pk) < 2 ^ 60" and usr: "handlers_behave usr"
  shows "harmless (first_start usr i pk (upd_cyccb i f (s\<lparr>free_cyccb := free\<rparr>))) s"
proof -
  let ?s0 = "upd_cyccb i f (s\<lparr>free_cyccb := free\<rparr>)" and ?sta = "has (cc_cycatr pk) TA_STA"
  let ?tm = "(current_time s + cc_cycphs_u pk) + adjust_time s"
  let ?st = "if ?sta then TCYC_STA else TCYC_STP"
  define s1 where "s1 = set_time (CycTm i) ?tm (upd_cyccb i (\<lambda>x. (f x)\<lparr>cycstat := ?st\<rparr>) (s\<lparr>free_cyccb := free\<rparr>))"
  note d = tim_okD [OF ok]
  have ct: "0 \<le> sint (current_time s)" "sint (current_time s) < 2 ^ 61" using d(3) by (simp_all add: clock_ok_def)
  note t = start_time [OF d(3) p]
  have ge: "sint (current_time s) + uint (cc_cycphs_u pk) \<le> sint ?tm" by (simp add: t(2))
  note al = cyc_allocated [OF ok fr, of "\<lambda>x. (f x)\<lparr>cycstat := ?st\<rparr>", OF _ _ _ t(1), folded s1_def]
  have al: "tim_ok_x {CycTm i} s1" "CycTm i \<notin> set (timer_queue s1)" "cyc_exists i s1" "due_events s1 = due_events s"
    "cyccb_table s1 i = (f (cyccb_table s i))\<lparr>cycstat := ?st\<rparr>" "current_time s1 = current_time s"
    "timer_period s1 = timer_period s" "tm_time (tmebs s1 (CycTm i)) = ?tm"
    using al h c by simp_all
  have ins: "harmless (cyc_timer_insert i tm s1) s"
    if "?sta" "tmtime_ok tm" "sint (current_time s) < sint tm" for tm
  proof -
    have "armed (CycTm i) s1" using that(1) al(3) by (simp add: al(5) TCYC_STA_def has_def)
    then have "tim_ok (cyc_timer_insert i tm s1)"
      using tim_insert_ok [OF al(1,2) _ that(2)] by (simp add: cyc_timer_insert_def)
    moreover have "due_events (cyc_timer_insert i tm s1) \<subseteq> due_events s1"
      unfolding cyc_timer_insert_def by (rule due_insert) (use that al(6) in simp)
    ultimately show ?thesis using al(4,6,7) by (simp add: harmless_def cyc_timer_insert_def)
  qed
  have f0: "current_time ?s0 = current_time s" "adjust_time ?s0 = adjust_time s" by (simp_all add: adjust_time_def)
  show ?thesis
  proof (cases ?sta)
    case False
    then have "tim_ok s1" by (intro tim_ok_drop [OF al(1)]) (simp add: al(5) TCYC_STP_def has_def)
    moreover have "first_start usr i pk ?s0 = s1"
      using False by (simp add: first_start_def Let_def f0 upd_cyccb_twice s1_def)
    ultimately show ?thesis using al(4,6,7) by (simp add: harmless_def)
  next
    case sta: True
    show ?thesis
    proof (cases "cc_cycphs_u pk = 0")
      case False
      then have "0 < uint (cc_cycphs_u pk)" by (simp add: word_neq_0_conv word_less_def)
      then have "harmless (cyc_timer_insert i ?tm s1) s" using ge by (intro ins sta t(1)) linarith
      moreover have "first_start usr i pk ?s0 = cyc_timer_insert i ?tm s1"
        using sta False
        by (simp add: first_start_def Let_def f0 upd_cyccb_twice s1_def cyc_timer_insert_def set_time_insert)
      ultimately show ?thesis by simp
    next
      case True
      let ?nt = "cyc_next_time i s1"
      have "sint ?tm < 2 ^ 61 + 2 ^ 60" using d(3) True unfolding t(2) by (simp add: clock_ok_def)
      then have nt: "tmtime_ok ?nt \<and> sint (current_time s) < sint ?nt"
        using next_time_ok [OF t(1) _ ct, of "cyctim (cyccb_table s1 i)"] c
        by (simp add: cyc_next_time_def al(5,6,8))
      let ?s2 = "cyc_timer_insert i ?nt s1"
      have hl: "harmless ?s2 s" using nt by (intro ins sta) simp_all
      then have "harmless (independent (usr ex hdr) ?s2) s" for ex hdr
        by (intro harmless_trans [OF independent_ok [OF _ usr] hl]) (simp add: harmless_def)
      moreover have "first_start usr i pk ?s0 =
          independent (usr (cyc_exinf (cyccb_table s1 i)) (cychdr (cyccb_table s1 i))) ?s2"
        using sta True by (simp add: first_start_def Let_def f0 upd_cyccb_twice s1_def immediate_call_cychdr_def)
      ultimately show ?thesis by simp
    qed
  qed
qed

lemma tk_cre_cyc_u_ok:
  assumes ok: "tim_ok s" and usr: "handlers_behave usr"
    and r: "uint (cc_cyctim_u pk) < 2 ^ 60" "uint (cc_cycphs_u pk) < 2 ^ 60"
  shows "harmless (snd (tk_cre_cyc_u usr pk s)) s"
proof (cases "cc_cychdr pk \<noteq> NULL \<and> cc_cyctim_u pk > 0 \<and> free_cyccb s \<noteq> []")
  case True
  then obtain i free where fr: "free_cyccb s = i # free" by (cases "free_cyccb s") auto
  have c: "0 < uint (cc_cyctim_u pk)" using True by (simp add: word_less_def)
  let ?f = "\<lambda>c. c\<lparr>cyc_exinf := cc_exinf pk, cycatr := cc_cycatr pk, cychdr := cc_cychdr pk, cyctim := cc_cyctim_u pk\<rparr>"
  let ?g = "\<lambda>c. if has (cc_cycatr pk) TA_DSNAME
      then (?f c)\<lparr>cyc_name := tkl_strncpy (cc_dsname pk) OBJECT_NAME_LENGTH\<rparr> else ?f c"
  have h: "harmless (first_start usr i pk (upd_cyccb i ?g (s\<lparr>free_cyccb := free\<rparr>))) s"
    using c True by (intro first_start_ok [OF ok fr _ _ _ r usr]) simp_all
  have "(if has (cc_cycatr pk) TA_DSNAME
      then upd_cyccb i (\<lambda>c. c\<lparr>cyc_name := tkl_strncpy (cc_dsname pk) OBJECT_NAME_LENGTH\<rparr>)
        (upd_cyccb i ?f (s\<lparr>free_cyccb := free\<rparr>))
      else upd_cyccb i ?f (s\<lparr>free_cyccb := free\<rparr>)) = upd_cyccb i ?g (s\<lparr>free_cyccb := free\<rparr>)"
    by (simp add: upd_cyccb_twice)
  then show ?thesis using h True ok fr unfolding tk_cre_cyc_u_def Let_def by (simp add: harmless_refl)
next
  case False
  then show ?thesis using ok by (cases "free_cyccb s") (auto simp: tk_cre_cyc_u_def harmless_refl)
qed

section \<open>Alarm handlers\<close>

lemma tk_stp_alm_ok:
  assumes ok: "tim_ok s"
  shows "harmless (snd (tk_stp_alm i s)) s"
proof (cases "alm_exists i s \<and> has (almstat (almcb_table s i)) TALM_STA")
  case True
  let ?s1 = "unlink True (AlmTm i) s"
  let ?s2 = "upd_almcb i (\<lambda>c. c\<lparr>almstat := almstat c AND NOT TALM_STA\<rparr>) ?s1"
  note u = unlink_ok [OF ok, of True "AlmTm i"]
  have "tim_ok_x {AlmTm i} ?s2" by (rule upd_almcb_ok [OF u]) (use True in simp_all)
  then have "tim_ok ?s2" by (rule tim_ok_drop) simp
  moreover have "due_events ?s2 \<subseteq> due_events s" by (rule due_unlink) simp_all
  moreover have "tk_stp_alm i s = (E_OK, ?s2)"
    using True by (simp add: tk_stp_alm_def alm_exists_def unlink_def)
  ultimately show ?thesis by (simp add: harmless_def)
qed (use ok in \<open>auto simp: tk_stp_alm_def alm_exists_def harmless_refl\<close>)

text \<open>With the time 0 the handler is called at once.\<close>

lemma tk_sta_alm_u_ok:
  assumes ok: "tim_ok s" and r: "uint almtim < 2 ^ 60"
    and usr: "handlers_behave usr"
  shows "harmless (snd (tk_sta_alm_u usr i almtim s)) s"
proof (cases "alm_exists i s")
  case True
  let ?sta = "has (almstat (almcb_table s i)) TALM_STA"
  define s1 where "s1 = unlink ?sta (AlmTm i) s"
  note u = unlink_ok [OF ok, of ?sta "AlmTm i", folded s1_def]
  have ok1: "tim_ok_x {AlmTm i} s1" and q: "AlmTm i \<notin> set (timer_queue s1)" using u True by simp_all
  let ?f = "\<lambda>c. c\<lparr>almstat := almstat c OR TALM_STA\<rparr>"
  have e: "tk_sta_alm_u usr i almtim s = (E_OK, if almtim > 0
      then upd_almcb i ?f (alm_timer_insert i almtim s1) else immediate_call_almhdr usr i s1)"
    using True by (simp add: tk_sta_alm_u_def alm_exists_def s1_def unlink_def)
  show ?thesis
  proof (cases "almtim > 0")
    case pos: True
    let ?tm = "(current_time s1 + almtim) + adjust_time s1"
    note t = start_time [OF tim_okD(3) [OF ok1] r]
    have "0 < uint almtim" using pos by (simp add: word_less_def)
    then have t1: "sint (current_time s1) < sint ?tm" unfolding t(2) using uint_ge_0 [of "hw_usec s1"] by linarith
    let ?s2 = "upd_almcb i ?f s1"
    let ?s3 = "timer_insert_abs (AlmTm i) ?tm (Some (callback_of (AlmTm i))) ?s2"
    have s3: "upd_almcb i ?f (alm_timer_insert i almtim s1) = ?s3" by (simp add: alm_timer_insert_def upd_insert)
    have ok2: "tim_ok_x {AlmTm i} ?s2" by (rule upd_almcb_ok [OF ok1 q]) simp
    have "alm_exists i ?s2" using True by (simp add: alm_exists_def s1_def)
    then have "tim_ok ?s3" using q by (intro tim_insert_ok [OF ok2 _ _ t(1)]) simp_all
    moreover have "due_events ?s3 \<subseteq> due_events ?s2" by (rule due_insert) (use t1 in simp)
    moreover have "due_events ?s2 \<subseteq> due_events s" by (rule due_unlink) (simp_all add: s1_def)
    ultimately show ?thesis using pos by (simp add: e s3 harmless_def) (simp add: s1_def)
  next
    case False
    let ?s2 = "upd_almcb i (\<lambda>c. c\<lparr>almstat := almstat c AND NOT TALM_STA\<rparr>) s1"
    have "tim_ok_x {AlmTm i} ?s2" by (rule upd_almcb_ok [OF ok1 q]) simp
    then have "tim_ok ?s2" by (rule tim_ok_drop) simp
    then have "harmless (immediate_call_almhdr usr i s1) ?s2"
      unfolding immediate_call_almhdr_def by (rule independent_ok [OF _ usr])
    moreover have "due_events ?s2 \<subseteq> due_events s" by (rule due_unlink) (simp_all add: s1_def)
    ultimately show ?thesis using False by (simp add: e harmless_def) (auto simp: s1_def)
  qed
qed (use ok in \<open>simp add: tk_sta_alm_u_def alm_exists_def harmless_refl\<close>)

lemma tk_del_alm_ok:
  assumes ok: "tim_ok s"
  shows "harmless (snd (tk_del_alm i s)) s"
proof (cases "alm_exists i s")
  case True
  let ?sta = "has (almstat (almcb_table s i)) TALM_STA"
  define s1 where "s1 = unlink ?sta (AlmTm i) s"
  define s2 where "s2 = upd_almcb i (\<lambda>c. c\<lparr>almhdr := NULL\<rparr>) (s1\<lparr>free_almcb := free_almcb s1 @ [i]\<rparr>)"
  note u = unlink_ok [OF ok, of ?sta "AlmTm i", folded s1_def]
  have ok1: "tim_ok_x {AlmTm i} s1" and q: "AlmTm i \<notin> set (timer_queue s1)" using u True by simp_all
  note d = tim_okD [OF ok1]
  have ex1: "alm_exists i s1" using True by (simp add: alm_exists_def s1_def)
  have ex: "alm_exists j s2 \<longleftrightarrow> j \<noteq> i \<and> alm_exists j s1" "cyc_exists j s2 = cyc_exists j s1" for j
    by (auto simp: cyc_exists_def alm_exists_def s2_def)
  have f: "timer_queue s2 = timer_queue s1" "tmebs s2 = tmebs s1" "tcbs s2 = tcbs s1" by (simp_all add: s2_def)
  have "almcb_table s2 j = almcb_table s1 j" if "j \<noteq> i" for j using that by (simp add: s2_def)
  then have a: "armed ev s2 \<longleftrightarrow> ev \<noteq> AlmTm i \<and> armed ev s1" for ev
    by (cases ev) (auto simp: ex f, simp_all add: s2_def)
  have "mtx_ok s2" by (rule mtx_ok_untouched [of s2 s1]) (use d(1) in \<open>simp_all add: s2_def upd_almcb_def\<close>)
  moreover have "tmq_ok s2" using d(2) cong_ok(1) [OF f(1,2)] by simp
  moreover have "clock_ok s2" using d(3) by (simp add: clock_ok_def s2_def)
  moreover have "handlers_ok s2"
    using d(4) ex1 unfolding handlers_ok_def ex by (auto simp: s2_def alm_exists_def)
  moreover have "phases_ok s2" using d(6) by (simp add: phases_ok_def ex f)
  moreover have "events_ok {} s2" using d(5) q unfolding events_ok_def f a by blast
  ultimately have "tim_ok s2" by (simp add: tim_ok_x_def)
  moreover have "due_events s2 \<subseteq> due_events s" by (rule due_unlink) (simp_all add: s2_def s1_def)
  moreover have "tk_del_alm i s = (E_OK, s2)"
    using True by (simp add: tk_del_alm_def alm_exists_def unlink_def s2_def s1_def)
  ultimately show ?thesis by (simp add: harmless_def s2_def s1_def)
qed (use ok in \<open>simp add: tk_del_alm_def alm_exists_def harmless_refl\<close>)

lemma alm_allocated:
  fixes s :: "'a tim_st_scheme"
  assumes ok: "tim_ok s" and fr: "free_almcb s = i # free"
    and h: "almhdr (f (almcb_table s i)) \<noteq> NULL" "almstat (f (almcb_table s i)) = TALM_STP"
  shows "harmless (upd_almcb i f (s\<lparr>free_almcb := free\<rparr>)) s" (is "harmless ?s s")
proof -
  note d = tim_okD [OF ok]
  have i: "chk_id (max_almid s) i" "almhdr (almcb_table s i) = NULL" using d(4) fr by (auto simp: handlers_ok_def)
  have di: "distinct (i # free)" using d(4) fr by (simp add: handlers_ok_def)
  have ex: "alm_exists j ?s \<longleftrightarrow> j = i \<or> alm_exists j s" "cyc_exists j ?s = cyc_exists j s" for j
    using i h by (auto simp: cyc_exists_def alm_exists_def)
  have f: "timer_queue ?s = timer_queue s" "tmebs ?s = tmebs s" "tcbs ?s = tcbs s" by simp_all
  have n: "\<not> armed (AlmTm i) s" using i by (simp add: alm_exists_def)
  have a: "armed ev ?s = armed ev s" for ev
  proof (cases "ev = AlmTm i")
    case True
    have "\<not> has TALM_STP TALM_STA" by (simp add: has_def TALM_STP_def)
    then show ?thesis using True n h by (simp del: armed.simps(3)) (simp add: h)
  next
    case False
    then show ?thesis by (cases ev) (simp_all add: ex)
  qed
  have "mtx_ok ?s" by (rule mtx_ok_untouched [of ?s s]) (use d(1) in \<open>simp_all add: upd_almcb_def\<close>)
  moreover have "tmq_ok ?s" using d(2) cong_ok(1) [OF f(1,2)] by simp
  moreover have "clock_ok ?s" using d(3) by (simp add: clock_ok_def)
  moreover have "handlers_ok ?s" using d(4) fr di i h unfolding handlers_ok_def ex by auto
  moreover have "phases_ok ?s" using d(6) by (simp add: phases_ok_def ex)
  moreover have "events_ok {} ?s" using d(5) unfolding events_ok_def f a .
  ultimately show ?thesis by (simp add: harmless_def tim_ok_x_def due_events_def)
qed

lemma tk_cre_alm_ok:
  assumes ok: "tim_ok s"
  shows "harmless (snd (tk_cre_alm pk s)) s"
proof (cases "ca_almhdr pk \<noteq> NULL \<and> free_almcb s \<noteq> []")
  case True
  then obtain i free where fr: "free_almcb s = i # free" by (cases "free_almcb s") auto
  let ?f = "\<lambda>c. c\<lparr>alm_exinf := ca_exinf pk, almatr := ca_almatr pk, almhdr := ca_almhdr pk, almstat := TALM_STP\<rparr>"
  let ?g = "\<lambda>c. if has (ca_almatr pk) TA_DSNAME
      then (?f c)\<lparr>alm_name := tkl_strncpy (ca_dsname pk) OBJECT_NAME_LENGTH\<rparr> else ?f c"
  have h: "harmless (upd_almcb i ?g (s\<lparr>free_almcb := free\<rparr>)) s"
    using True by (intro alm_allocated [OF ok fr]) simp_all
  have "(if has (ca_almatr pk) TA_DSNAME
      then upd_almcb i (\<lambda>c. c\<lparr>alm_name := tkl_strncpy (ca_dsname pk) OBJECT_NAME_LENGTH\<rparr>)
        (upd_almcb i ?f (s\<lparr>free_almcb := free\<rparr>))
      else upd_almcb i ?f (s\<lparr>free_almcb := free\<rparr>)) = upd_almcb i ?g (s\<lparr>free_almcb := free\<rparr>)"
    by (simp add: upd_almcb_def)
  then show ?thesis using h True ok fr unfolding tk_cre_alm_def Let_def by (simp add: harmless_refl)
next
  case False
  then show ?thesis using ok by (cases "free_almcb s") (auto simp: tk_cre_alm_def harmless_refl)
qed

end
