(* ===== verification/Clock_Calls.thy ===== *)
theory Clock_Calls
  imports Handler_Calls
begin

text \<open>
  The clocks (\<open>time_calls.c\<close>, \<open>timer.h\<close>): what is set is read back while it is a number of
  microseconds that fits 64 bits, the operating time is not touched by setting the clock, and the
  conversions of milliseconds and microseconds round up. What the checks of the code let through
  beyond that is shown by two counterexamples.
\<close>

section \<open>Conversions\<close>

lemma to_msec_to_usec: "to_msec (to_usec m) = m"
proof -
  have b: "0 \<le> uint m" "uint m < 2 ^ 32" using uint_lt2p [of m] by simp_all
  have "uint (to_usec m) = uint m * 1000"
    using b unfolding to_usec_def by (simp add: uint_word_ariths uint_up_ucast is_up)
  then have "uint (to_usec m + 999) = uint m * 1000 + 999"
    using b by (simp add: uint_word_ariths)
  then have "uint ((to_usec m + 999) div 1000) = uint m"
    by (simp add: uint_div)
  then have "(to_usec m + 999) div 1000 = ucast m"
    by (intro word_uint_eqI) (simp add: uint_up_ucast is_up)
  then show ?thesis unfolding to_msec_def by (simp add: ucast_down_ucast_id is_down)
qed

text \<open>A number of microseconds below \<open>2\<^sup>32\<close> milliseconds becomes the next number of milliseconds.\<close>

lemma to_msec_round_up:
  assumes "uint u \<le> (2 ^ 32 - 1) * 1000"
  shows "uint (to_msec u) = (uint u + 999) div 1000"
proof -
  have "uint (u + 999) = uint u + 999" using assms by (simp add: uint_word_ariths)
  then have "uint ((u + 999) div 1000) = (uint u + 999) div 1000" by (simp add: uint_div)
  moreover have "(uint u + 999) div 1000 < 2 ^ 32" "0 \<le> (uint u + 999) div 1000"
    using assms uint_ge_0 [of u] by (simp_all add: pos_imp_zdiv_nonneg_iff)
  ultimately show ?thesis unfolding to_msec_def by (simp add: unsigned_ucast_eq take_bit_int_eq_self)
qed

lemma toSYSTIM_toLSYSTIM:
  assumes "0 \<le> hi" "(hi * 2 ^ 32 + uint lo) * 1000 < 2 ^ 63"
  shows "toSYSTIM (toLSYSTIM (hi, lo)) = (hi, lo)"
proof -
  have b: "0 \<le> uint lo" "uint lo < 2 ^ 32" using uint_lt2p [of lo] by simp_all
  define x where "x = hi * 2 ^ 32 + uint lo"
  have x: "0 \<le> x" "x * 1000 < 2 ^ 63" using assms b by (simp_all add: x_def)
  have "sint (toLSYSTIM (hi, lo)) = x * 1000"
    using x unfolding toLSYSTIM_def fst_conv snd_conv x_def [symmetric] by (intro sint_small) simp_all
  then have ms: "systim_ms (toLSYSTIM (hi, lo)) = x"
    using x by (simp add: systim_ms_def signed_divide_int_def sgn_if)
  have "x div 2 ^ 32 = hi" unfolding x_def using b by simp
  moreover have "(word_of_int x :: 32 word) = lo"
  proof (rule word_uint_eqI)
    have "x mod 2 ^ 32 = uint lo" unfolding x_def using b by (simp add: mod_simps)
    then show "uint (word_of_int x :: 32 word) = uint lo" by (simp add: uint_word_of_int)
  qed
  ultimately show ?thesis by (simp add: toSYSTIM_def ms)
qed

section \<open>Setting and reading the clock\<close>

lemma real_time_set: "0 \<le> fst tm \<Longrightarrow> real_time (snd (tk_set_tim tm s)) = toLSYSTIM tm"
  by (simp add: tk_set_tim_def real_time_def)

lemma set_get_tim:
  assumes "0 \<le> hi" "(hi * 2 ^ 32 + uint lo) * 1000 < 2 ^ 63"
  shows "fst (tk_set_tim (hi, lo) s) = E_OK" "tk_get_tim (snd (tk_set_tim (hi, lo) s)) = (hi, lo)"
    "tk_get_otm (snd (tk_set_tim (hi, lo) s)) = tk_get_otm s"
  using assms toSYSTIM_toLSYSTIM [OF assms] real_time_set [of "(hi, lo)" s]
  by (simp_all add: tk_get_tim_def tk_get_otm_def) (simp_all add: tk_set_tim_def)

lemma set_get_tim_u:
  "0 \<le> sint tm \<Longrightarrow> fst (tk_get_tim_u (snd (tk_set_tim_u tm s))) = tm"
  by (simp add: tk_set_tim_u_def tk_get_tim_u_def real_time_def)

text \<open>A time the check accepts, in \<open>SYSTIM\<close>, can be read back as a negative one.\<close>

lemma set_tim_overflow:
  "fst (tk_set_tim (0x7FFFFFFF, 0) s) = E_OK"
  "tk_get_tim (snd (tk_set_tim (0x7FFFFFFF, 0) s)) = (- 1, 0)"
  using real_time_set [of "(0x7FFFFFFF, 0)" s]
  by (simp_all add: tk_get_tim_def toSYSTIM_def systim_ms_def toLSYSTIM_def signed_divide_int_def)
    (simp add: tk_set_tim_def)

section \<open>Cycles\<close>

text \<open>A cycle of \<open>2\<^sup>63\<close> microseconds, which the check of \<open>_tk_cre_cyc_u\<close> accepts, puts the next start
  at a time that is still not after the current one: the interrupt finds it due again.\<close>

lemma cycle_overflow:
  "(0x8000000000000000 :: RELTIM_U) > 0" "ll_cmp (next_time 0 0x8000000000000000 0) 0 \<le> 0"
  by (simp_all add: next_time_def ll_cmp_def Let_def)

end
