(* ===== verification/Subsystem.thy ===== *)
theory Subsystem
  imports Clock_Calls
begin

text \<open>
  Subsystems, task exceptions and resource groups (\<open>subsystem.c\<close>, with \<open>request_tex\<close> and
  \<open>setup_texhdr\<close> of \<open>cpu_init.c\<close>). The functions of a subsystem are user code: \<open>usr f args s\<close> is what
  the function at address \<open>f\<close> answers and the state in which it returns to the task that called it.
  It may define and delete subsystems itself, so a chain of \<open>ssypri_table\<close> is followed in the state
  of the moment and a walk may not end: its value is then \<open>None\<close>.
\<close>

section \<open>State\<close>

record ssycb =
  ssy_link :: "ID option"
  ssyatr :: ATR
  ssypri :: int
  svchdr :: addr
  breakfn :: addr
  startupfn :: addr
  cleanupfn :: addr
  eventfn :: addr
  resblksz :: int
  resblk :: addr

text \<open>\<open>no_support\<close> is the address of the function of this name. The places of \<open>ssypri_table\<close> are
  counted from 0.\<close>

record ssy_st = tim_st +
  ssycb_table :: "ID \<Rightarrow> ssycb"
  ssypri_table :: "int \<Rightarrow> ID option"
  max_ssyid :: ID
  max_ssypri :: int
  no_support :: addr
  resid_bitmap :: "UINT list"

record t_dssy =
  ds_ssyatr :: ATR
  ds_ssypri :: int
  ds_svchdr :: addr
  ds_breakfn :: addr
  ds_startupfn :: addr
  ds_cleanupfn :: addr
  ds_eventfn :: addr
  ds_resblksz :: int

record t_rssy =
  rs_ssypri :: int
  rs_resblksz :: int

record t_rtex =
  rx_pendtex :: UINT
  rx_texmask :: UINT

type_synonym 's ufn = "addr \<Rightarrow> int list \<Rightarrow> 's \<Rightarrow> int \<times> 's"

definition upd_ssycb :: "ID \<Rightarrow> (ssycb \<Rightarrow> ssycb) \<Rightarrow> 'a ssy_st_scheme \<Rightarrow> 'a ssy_st_scheme" where
  "upd_ssycb i f s = s\<lparr>ssycb_table := (ssycb_table s)(i := f (ssycb_table s i))\<rparr>"

definition ssypri_index :: "int \<Rightarrow> int" where "ssypri_index p = p - 1"
definition index_to_resid :: "int \<Rightarrow> ID" where "index_to_resid n = n + 1"
definition resid_to_index :: "ID \<Rightarrow> int" where "resid_to_index r = r - 1"

text \<open>\<open>((resblksz) + 3) & ~3U\<close>.\<close>

definition ROUND_RESBLKSZ :: "int \<Rightarrow> UINT" where
  "ROUND_RESBLKSZ sz = word_of_int (sz + 3) AND NOT 0x00000003"

definition chk_id_all :: "ID \<Rightarrow> ID \<Rightarrow> bool" where
  "chk_id_all mx i \<longleftrightarrow> chk_id mx i \<or> i = 0"

definition chk_ssypri :: "int \<Rightarrow> 'a ssy_st_scheme \<Rightarrow> bool" where
  "chk_ssypri p s \<longleftrightarrow> 1 \<le> p \<and> p \<le> max_ssypri s"

definition no_ssycb :: "addr \<Rightarrow> ssycb \<Rightarrow> ssycb" where
  "no_ssycb ns c = c\<lparr>svchdr := ns, breakfn := NULL, startupfn := NULL, cleanupfn := NULL, eventfn := NULL\<rparr>"

text \<open>\<open>ids\<close>, \<open>pris\<close> are what \<open>_tk_get_cfn\<close> stores, \<open>None\<close> when it fails; \<open>mem\<close> whether \<open>Imalloc\<close>
  succeeds.\<close>

definition subsystem_initialize ::
  "ID option \<Rightarrow> int option \<Rightarrow> bool \<Rightarrow> bool \<Rightarrow> 'a ssy_st_scheme \<Rightarrow> ER \<times> 'a ssy_st_scheme" where
  "subsystem_initialize ids pris mem1 mem2 s =
     (case ids of None \<Rightarrow> (E_SYS, s)
      | Some n \<Rightarrow>
        (let s1 = s\<lparr>max_ssyid := n\<rparr>
         in if n < 1 then (E_SYS, s1)
            else (case pris of None \<Rightarrow> (E_SYS, s1)
                  | Some p \<Rightarrow>
                    (let s2 = s1\<lparr>max_ssypri := p\<rparr>
                     in if p < 1 then (E_SYS, s2)
                        else if \<not> mem1 \<or> \<not> mem2 then (E_NOMEM, s2)
                        else (E_OK, s2\<lparr>ssycb_table := (\<lambda>i. if chk_id n i then no_ssycb (no_support s) (ssycb_table s i)
                                                          else ssycb_table s i),
                                       ssypri_table := (\<lambda>j. if 0 \<le> j \<and> j < p then None else ssypri_table s j)\<rparr>)))))"

section \<open>Definition of subsystems\<close>

definition E_RSFN :: ER where "E_RSFN = ERCD (-10) 0"

definition registered :: "ID \<Rightarrow> 'a ssy_st_scheme \<Rightarrow> bool" where
  "registered i s \<longleftrightarrow> svchdr (ssycb_table s i) \<noteq> no_support s"

text \<open>The loop that takes an entry out of the chain of its priority: \<open>prev\<close> is first the place in
  \<open>ssypri_table\<close>, then the link of the entry before. It may run in a circle.\<close>

partial_function (option) unlink_after :: "ID \<Rightarrow> ID \<Rightarrow> 'a ssy_st_scheme \<Rightarrow> 'a ssy_st_scheme option" where
  "unlink_after i p s =
     (case ssy_link (ssycb_table s p) of
        None \<Rightarrow> Some s
      | Some n \<Rightarrow>
          if n = i then Some (upd_ssycb p (\<lambda>c. c\<lparr>ssy_link := ssy_link (ssycb_table s i)\<rparr>) s)
          else unlink_after i n s)"

definition unlink_ssy :: "ID \<Rightarrow> 'a ssy_st_scheme \<Rightarrow> 'a ssy_st_scheme option" where
  "unlink_ssy i s =
     (let j = ssypri_index (ssypri (ssycb_table s i))
      in case ssypri_table s j of
           None \<Rightarrow> Some s
         | Some n \<Rightarrow>
             if n = i then Some (s\<lparr>ssypri_table := (ssypri_table s)(j := ssy_link (ssycb_table s i))\<rparr>)
             else unlink_after i n s)"

definition register_ssy :: "ID \<Rightarrow> t_dssy \<Rightarrow> addr \<Rightarrow> 'a ssy_st_scheme \<Rightarrow> 'a ssy_st_scheme" where
  "register_ssy i pk blk s =
     (let j = ssypri_index (ds_ssypri pk);
          s1 = upd_ssycb i (\<lambda>c. c\<lparr>ssyatr := ds_ssyatr pk, ssypri := ds_ssypri pk, svchdr := ds_svchdr pk,
                 breakfn := ds_breakfn pk, startupfn := ds_startupfn pk, cleanupfn := ds_cleanupfn pk,
                 eventfn := ds_eventfn pk, resblksz := ds_resblksz pk, resblk := blk,
                 ssy_link := ssypri_table s j\<rparr>) s
      in s1\<lparr>ssypri_table := (ssypri_table s1)(j := Some i)\<rparr>)"

definition dssy_error :: "t_dssy \<Rightarrow> 'a ssy_st_scheme \<Rightarrow> ER" where
  "dssy_error pk s =
     (if \<not> chk_rsatr (ds_ssyatr pk) 0 then E_RSATR
      else if \<not> chk_ssypri (ds_ssypri pk) s then E_PAR
      else if \<not> ds_resblksz pk \<ge> 0 then E_PAR
      else E_OK)"

text \<open>\<open>alloc\<close> is \<open>Icalloc\<close> with the number of blocks and the size of one. The result says what is
  given to \<open>Ifree\<close>.\<close>

definition tk_def_ssy ::
  "(UINT \<Rightarrow> UINT \<Rightarrow> addr option) \<Rightarrow> ID \<Rightarrow> t_dssy option \<Rightarrow> 'a ssy_st_scheme \<Rightarrow>
   ((ER \<times> addr list) \<times> 'a ssy_st_scheme) option" where
  "tk_def_ssy alloc i pk_opt s =
     (if \<not> chk_id (max_ssyid s) i then Some ((E_ID, []), s)
      else (case pk_opt of
        Some pk \<Rightarrow>
          if dssy_error pk s \<noteq> E_OK then Some ((dssy_error pk s, []), s)
          else
            (case (if ds_resblksz pk > 0 then alloc (word_of_int (max_resid s)) (ROUND_RESBLKSZ (ds_resblksz pk))
                   else Some NULL) of
               None \<Rightarrow> Some ((E_NOMEM, []), s)
             | Some blk \<Rightarrow>
                 if registered i s then Some ((E_OBJ, if blk \<noteq> NULL then [blk] else []), s)
                 else Some ((E_OK, []), register_ssy i pk blk s))
      | None \<Rightarrow>
          if \<not> registered i s then Some ((E_NOEXS, []), s)
          else
            (let blk = resblk (ssycb_table s i)
             in map_option (\<lambda>s1. ((E_OK, if blk \<noteq> NULL then [blk] else []), upd_ssycb i (no_ssycb (no_support s1)) s1))
                  (unlink_ssy i s))))"

definition tk_ref_ssy :: "ID \<Rightarrow> 'a ssy_st_scheme \<Rightarrow> ER \<times> t_rssy option" where
  "tk_ref_ssy i s =
     (if \<not> chk_id (max_ssyid s) i then (E_ID, None)
      else if \<not> registered i s then (E_NOEXS, None)
      else (E_OK, Some \<lparr>rs_ssypri = ssypri (ssycb_table s i), rs_resblksz = resblksz (ssycb_table s i)\<rparr>))"

definition td_lst_ssy :: "int \<Rightarrow> 'a ssy_st_scheme \<Rightarrow> int \<times> ID list" where
  "td_lst_ssy nent s =
     (let ids = filter (\<lambda>i. registered i s) [1..max_ssyid s]
      in (int (length ids), take (nat nent) ids))"

definition td_ref_ssy :: "ID \<Rightarrow> 'a ssy_st_scheme \<Rightarrow> ER \<times> t_rssy option" where
  "td_ref_ssy i s =
     (if \<not> chk_id (max_ssyid s) i then (E_ID, None)
      else if \<not> registered i s then (E_NOEXS, None)
      else (E_OK, Some \<lparr>rs_ssypri = ssypri (ssycb_table s i), rs_resblksz = resblksz (ssycb_table s i)\<rparr>))"

section \<open>Break functions\<close>

definition TEX0_RUNNING :: "16 word" where "TEX0_RUNNING = 0x0001"
definition TEX1_RUNNING :: "16 word" where "TEX1_RUNNING = 0x0002"
definition SSFN_RUNNING :: "16 word" where "SSFN_RUNNING = 0x0004"
definition BREAK_RAN :: "16 word" where "BREAK_RAN = 0x8000"

text \<open>A subsystem function runs: \<open>sysmode\<close> goes up, and task exceptions are suspended.\<close>

definition enter_ssfn :: "ID \<Rightarrow> 'a kst_scheme \<Rightarrow> 'a kst_scheme" where
  "enter_ssfn t = tcb_upd t (\<lambda>c. c\<lparr>texflg := texflg c OR SSFN_RUNNING, sysmode := sysmode c + 1\<rparr>)"

definition leave_ssfn :: "ID \<Rightarrow> 16 word \<Rightarrow> 'a kst_scheme \<Rightarrow> 'a kst_scheme" where
  "leave_ssfn t flg = tcb_upd t (\<lambda>c. c\<lparr>sysmode := sysmode c - 1, texflg := flg\<rparr>)"

text \<open>The critical section in front of the call: \<open>None\<close> at \<open>not_call\<close>, otherwise the function.\<close>

definition break_due :: "ID \<Rightarrow> 'a kst_scheme \<Rightarrow> bool" where
  "break_due t s \<longleftrightarrow> texflg (tcbs s t) AND SSFN_RUNNING = 0 \<and> exectex (tcbs s t) \<noteq> 0 \<and> sint (execssid (tcbs s t)) > 0"

definition mark_break :: "ID \<Rightarrow> 'a kst_scheme \<Rightarrow> 'a kst_scheme" where
  "mark_break t = tcb_upd t (\<lambda>c. c\<lparr>execssid := execssid c OR BREAK_RAN\<rparr>)"

definition lend_priority :: "ID \<Rightarrow> 'a mtx_st_scheme \<Rightarrow> 'a mtx_st_scheme option" where
  "lend_priority t s =
     (if priority (tcbs s t) < priority (tcbs s (me s)) then change_priority (me s) (priority (tcbs s t)) s
      else Some s)"

definition restore_priority :: "'a mtx_st_scheme \<Rightarrow> 'a mtx_st_scheme option" where
  "restore_priority s =
     Option.bind (chg_pri_mutex (me s) (bpriority (tcbs s (me s))) s)
       (\<lambda>p. if int (priority (tcbs s (me s))) \<noteq> p then change_priority (me s) (nat p) s else Some s)"

definition call_brkhdr :: "'a ssy_st_scheme ufn \<Rightarrow> ID \<Rightarrow> 'a ssy_st_scheme \<Rightarrow> 'a ssy_st_scheme option" where
  "call_brkhdr usr t s =
     (if \<not> break_due t s then Some s
      else
        (let f = breakfn (ssycb_table s (sint (execssid (tcbs s t))));
             s1 = mark_break t s
         in if f = NULL then Some s1
            else Option.bind (lend_priority t s1) (\<lambda>s2.
              let flg = texflg (tcbs s2 (me s2));
                  s3 = snd (usr f [t] (enter_ssfn (me s2) s2))
              in restore_priority (leave_ssfn (me s3) flg s3))))"

text \<open>What ends every call that ran subsystem functions.\<close>

definition self_break :: "'a ssy_st_scheme ufn \<Rightarrow> 'a ssy_st_scheme \<Rightarrow> 'a ssy_st_scheme option" where
  "self_break usr s = (if exectex (tcbs s (me s)) \<noteq> 0 then call_brkhdr usr (me s) s else Some s)"

section \<open>Startup, cleanup and event functions\<close>

text \<open>A walk along a chain of \<open>ssypri_table\<close>: the link is read when the function of the entry has
  returned.\<close>

partial_function (option) call_chain ::
  "(ID \<Rightarrow> ER \<times> 'a ssy_st_scheme \<Rightarrow> ER \<times> 'a ssy_st_scheme) \<Rightarrow> ID option \<Rightarrow> ER \<Rightarrow> 'a ssy_st_scheme \<Rightarrow>
   (ER \<times> 'a ssy_st_scheme) option" where
  "call_chain f cur e s =
     (case cur of
        None \<Rightarrow> Some (e, s)
      | Some i \<Rightarrow> (case f i (e, s) of (e1, s1) \<Rightarrow> call_chain f (ssy_link (ssycb_table s1 i)) e1 s1))"

text \<open>The loop over the priorities: \<open>js\<close> are the values of its variable.\<close>

fun call_levels ::
  "(ID \<Rightarrow> ER \<times> 'a ssy_st_scheme \<Rightarrow> ER \<times> 'a ssy_st_scheme) \<Rightarrow> int list \<Rightarrow> ER \<times> 'a ssy_st_scheme \<Rightarrow>
   (ER \<times> 'a ssy_st_scheme) option" where
  "call_levels f [] x = Some x"
| "call_levels f (j # js) x = Option.bind (call_chain f (ssypri_table (snd x) j) (fst x) (snd x)) (call_levels f js)"

text \<open>What the three calls share: the body runs with task exceptions suspended.\<close>

definition with_ssfn ::
  "'a ssy_st_scheme ufn \<Rightarrow> ('a ssy_st_scheme \<Rightarrow> (ER \<times> 'a ssy_st_scheme) option) \<Rightarrow> 'a ssy_st_scheme \<Rightarrow>
   (ER \<times> 'a ssy_st_scheme) option" where
  "with_ssfn usr body s =
     Option.bind (body (enter_ssfn (me s) s)) (\<lambda>(e, s1).
       map_option (Pair e) (self_break usr (leave_ssfn (me s1) (texflg (tcbs s (me s))) s1)))"

definition startup_one :: "'a ssy_st_scheme ufn \<Rightarrow> ID \<Rightarrow> int \<Rightarrow> ID \<Rightarrow> ER \<times> 'a ssy_st_scheme \<Rightarrow> ER \<times> 'a ssy_st_scheme" where
  "startup_one usr r info i x =
     (let f = startupfn (ssycb_table (snd x) i)
      in if f = NULL then x else (fst x, snd (usr f [r, info] (snd x))))"

definition tk_sta_ssy ::
  "'a ssy_st_scheme ufn \<Rightarrow> ID \<Rightarrow> ID \<Rightarrow> int \<Rightarrow> 'a ssy_st_scheme \<Rightarrow> (ER \<times> 'a ssy_st_scheme) option" where
  "tk_sta_ssy usr i r info s =
     (if \<not> chk_id_all (max_ssyid s) i then Some (E_ID, s)
      else if \<not> chk_id (max_resid s) r then Some (E_ID, s)
      else if in_ddsp s then Some (E_CTX, s)
      else with_ssfn usr (\<lambda>s1.
             if i > 0 then
               (if \<not> registered i s1 then Some (E_NOEXS, s1) else Some (startup_one usr r info i (E_OK, s1)))
             else call_levels (startup_one usr r info) [0..max_ssypri s1 - 1] (E_OK, s1)) s)"

definition clean_resblk :: "ID \<Rightarrow> int \<Rightarrow> 'a ssy_st_scheme \<Rightarrow> 'a ssy_st_scheme" where
  "clean_resblk i idx s =
     (let c = ssycb_table s i
      in if resblk c = NULL then s
         else
           (let sz = ROUND_RESBLKSZ (resblksz c);
                lo = int (resblk c) + to_INT (sint sz * idx)
            in s\<lparr>mem_byte := (\<lambda>a. if lo \<le> int a \<and> int a < lo + uint sz then 0 else mem_byte s a)\<rparr>))"

definition cleanup_one :: "'a ssy_st_scheme ufn \<Rightarrow> ID \<Rightarrow> int \<Rightarrow> ID \<Rightarrow> ER \<times> 'a ssy_st_scheme \<Rightarrow> ER \<times> 'a ssy_st_scheme" where
  "cleanup_one usr r info i x =
     (let f = cleanupfn (ssycb_table (snd x) i);
          s1 = (if f = NULL then snd x else snd (usr f [r, info] (snd x)))
      in (fst x, clean_resblk i (resid_to_index r) s1))"

definition tk_cln_ssy ::
  "'a ssy_st_scheme ufn \<Rightarrow> ID \<Rightarrow> ID \<Rightarrow> int \<Rightarrow> 'a ssy_st_scheme \<Rightarrow> (ER \<times> 'a ssy_st_scheme) option" where
  "tk_cln_ssy usr i r info s =
     (if \<not> chk_id_all (max_ssyid s) i then Some (E_ID, s)
      else if \<not> chk_id (max_resid s) r then Some (E_ID, s)
      else if in_ddsp s then Some (E_CTX, s)
      else with_ssfn usr (\<lambda>s1.
             if i > 0 then
               (if \<not> registered i s1 then Some (E_NOEXS, s1) else Some (cleanup_one usr r info i (E_OK, s1)))
             else call_levels (cleanup_one usr r info) (rev [0..max_ssypri s1 - 1]) (E_OK, s1)) s)"

text \<open>With one subsystem the answer of its function is that of the call; with all, the last error.\<close>

definition event_one ::
  "'a ssy_st_scheme ufn \<Rightarrow> int \<Rightarrow> ID \<Rightarrow> int \<Rightarrow> ID \<Rightarrow> ER \<times> 'a ssy_st_scheme \<Rightarrow> ER \<times> 'a ssy_st_scheme" where
  "event_one usr evttyp r info i x =
     (let f = eventfn (ssycb_table (snd x) i)
      in if f = NULL then x
         else (case usr f [evttyp, r, info] (snd x) of (er, s1) \<Rightarrow> (if er < 0 then er else fst x, s1)))"

definition tk_evt_ssy ::
  "'a ssy_st_scheme ufn \<Rightarrow> ID \<Rightarrow> int \<Rightarrow> ID \<Rightarrow> int \<Rightarrow> 'a ssy_st_scheme \<Rightarrow> (ER \<times> 'a ssy_st_scheme) option" where
  "tk_evt_ssy usr i evttyp r info s =
     (if \<not> chk_id_all (max_ssyid s) i then Some (E_ID, s)
      else if \<not> chk_id_all (max_resid s) r then Some (E_ID, s)
      else if in_ddsp s then Some (E_CTX, s)
      else with_ssfn usr (\<lambda>s1.
             if i > 0 then
               (if \<not> registered i s1 then Some (E_NOEXS, s1)
                else (let f = eventfn (ssycb_table s1 i)
                      in Some (if f = NULL then (E_OK, s1) else usr f [evttyp, r, info] s1)))
             else call_levels (event_one usr evttyp r info)
                    (if even evttyp then rev [0..max_ssypri s1 - 1] else [0..max_ssypri s1 - 1]) (E_OK, s1)) s)"

section \<open>Extended SVCs\<close>

text \<open>The call of an extended SVC handler; an identifier without subsystem has \<open>no_support\<close>, which
  answers -70.\<close>

definition call_svchdr :: "'a ssy_st_scheme ufn \<Rightarrow> ID \<Rightarrow> addr \<Rightarrow> int \<Rightarrow> 'a ssy_st_scheme \<Rightarrow> ER \<times> 'a ssy_st_scheme" where
  "call_svchdr usr i para fncd s =
     (if registered i s then usr (svchdr (ssycb_table s i)) [int para, fncd] s else (- 70, s))"

text \<open>The part before the handler: \<open>None\<close> means that the handler is called, with what is saved.\<close>

definition svc_enter :: "ID \<Rightarrow> 'a ssy_st_scheme \<Rightarrow> sysret option \<times> 'a ssy_st_scheme" where
  "svc_enter i s =
     (case LockSVC (me s) s of
        (False, s1) \<Rightarrow> (Some Retry, s1)
      | (True, s1) \<Rightarrow>
          if waitmask (tcbs s1 (me s1)) AND TTX_SVC \<noteq> 0 then (Some (Ret E_DISWAI), UnlockSVC s1)
          else (None, UnlockSVC (tcb_upd (me s1) (\<lambda>c. c\<lparr>
                 execssid := word_of_int i, waitmask := 0,
                 exectex := (if sint (execssid c) < 0 then 0 else exectex c), sysmode := sysmode c + 1\<rparr>) s1)))"

text \<open>The part behind it, with the values that were saved. A task that has to wait for the lock comes
  back to this part.\<close>

definition svc_leave ::
  "'a ssy_st_scheme ufn \<Rightarrow> 16 word \<Rightarrow> UINT \<Rightarrow> UINT \<Rightarrow> 'a ssy_st_scheme \<Rightarrow> (bool \<times> 'a ssy_st_scheme) option" where
  "svc_leave usr save_execssid save_waitmask save_exectex s =
     (case LockSVC (me s) s of
        (False, s1) \<Rightarrow> Some (False, s1)
      | (True, s1) \<Rightarrow>
          map_option (Pair True) (self_break usr (UnlockSVC (tcb_upd (me s1) (\<lambda>c. c\<lparr>
            sysmode := sysmode c - 1, execssid := save_execssid, waitmask := save_waitmask,
            exectex := exectex c OR save_exectex\<rparr>) s1))))"

definition svc_ientry ::
  "'a ssy_st_scheme ufn \<Rightarrow> addr \<Rightarrow> int \<Rightarrow> 'a ssy_st_scheme \<Rightarrow> (sysret \<times> 'a ssy_st_scheme) option" where
  "svc_ientry usr para fncd s =
     (let i = fncd mod 256
      in if i < 1 \<or> i > max_ssyid s then Some (Ret E_RSFN, s)
         else if in_indp s then
           (case call_svchdr usr i para fncd s of (e, s1) \<Rightarrow> Some (Ret e, s1))
         else
           (case svc_enter i s of
              (Some r, s1) \<Rightarrow> Some (r, s1)
            | (None, s1) \<Rightarrow>
                (case call_svchdr usr i para fncd s1 of (e, s2) \<Rightarrow>
                   map_option (\<lambda>(got, s3). (if got then Ret e else Retry, s3))
                     (svc_leave usr (execssid (tcbs s (me s))) (waitmask (tcbs s (me s))) (exectex (tcbs s (me s))) s2))))"

section \<open>Task exceptions\<close>

definition request_tex :: "ID \<Rightarrow> 'a kst_scheme \<Rightarrow> 'a kst_scheme" where
  "request_tex t s = (if isysmode (tcbs s t) = 0 then tcb_upd t (\<lambda>c. c\<lparr>reqdct := 1\<rparr>) s else s)"

text \<open>\<open>pk\<close> has attribute and address of the handler.\<close>

definition tk_def_tex :: "ID \<Rightarrow> (ATR \<times> addr) option \<Rightarrow> 'a kst_scheme \<Rightarrow> ER \<times> 'a kst_scheme" where
  "tk_def_tex tskid pk s =
     (if \<not> chk_tskid_self tskid s then (E_ID, s)
      else if (\<exists>a h. pk = Some (a, h) \<and> \<not> chk_rsatr a 0) then (E_RSATR, s)
      else
        (let t = get_tcb_self tskid s
         in if tstate (tcbs s t) = TS_NONEXIST then (E_NOEXS, s)
            else if tskatr (tcbs s t) AND TA_RNG3 = TA_RNG0 then (E_OBJ, s)
            else (E_OK, tcb_upd t (\<lambda>c. c\<lparr>pendtex := 0, exectex := 0, texmask := 0,
                           texhdr := (case pk of Some (a, h) \<Rightarrow> h | None \<Rightarrow> NULL)\<rparr>) s)))"

definition set_tex_mask :: "ID \<Rightarrow> UINT \<Rightarrow> bool \<Rightarrow> 'a kst_scheme \<Rightarrow> ER \<times> 'a kst_scheme" where
  "set_tex_mask tskid texmsk enable s =
     (if \<not> chk_tskid_self tskid s then (E_ID, s)
      else
        (let t = get_tcb_self tskid s
         in if tstate (tcbs s t) = TS_NONEXIST \<or> texhdr (tcbs s t) = NULL then (E_NOEXS, s)
            else (E_OK, tcb_upd t (\<lambda>c.
                    let m = (if enable then texmask c OR texmsk else texmask c AND NOT texmsk)
                    in c\<lparr>texmask := m, pendtex := pendtex c AND m\<rparr>) s)))"

definition tk_dis_tex :: "ID \<Rightarrow> UINT \<Rightarrow> 'a kst_scheme \<Rightarrow> ER \<times> 'a kst_scheme" where
  "tk_dis_tex tskid texptn s = set_tex_mask tskid texptn False s"

definition tk_ena_tex :: "ID \<Rightarrow> UINT \<Rightarrow> 'a kst_scheme \<Rightarrow> ER \<times> 'a kst_scheme" where
  "tk_ena_tex tskid texptn s = set_tex_mask tskid texptn True s"

definition raise_tex :: "ID \<Rightarrow> int \<Rightarrow> 'a kst_scheme \<Rightarrow> (ER \<times> bool) \<times> 'a kst_scheme" where
  "raise_tex t texcd s =
     (let c = tcbs s t
      in if tstate c = TS_NONEXIST \<or> texhdr c = NULL then ((E_NOEXS, False), s)
         else if tstate c = TS_DORMANT then ((E_OBJ, False), s)
         else if texflg c AND TEX0_RUNNING \<noteq> 0 then ((E_OK, False), s)
         else
           (let p = pendtex c OR (push_bit (nat texcd) 1 AND texmask c);
                s1 = tcb_upd t (\<lambda>c. c\<lparr>pendtex := p\<rparr>) s
            in if p = 0 then ((E_OK, False), s1)
               else if p AND 0x00000001 \<noteq> 0 \<or> texflg c AND TEX1_RUNNING = 0
               then ((E_OK, True), request_tex t (tcb_upd t (\<lambda>c. c\<lparr>exectex := exectex c OR p\<rparr>) s1))
               else ((E_OK, False), s1)))"

definition tk_ras_tex ::
  "'a ssy_st_scheme ufn \<Rightarrow> ID \<Rightarrow> int \<Rightarrow> 'a ssy_st_scheme \<Rightarrow> (sysret \<times> 'a ssy_st_scheme) option" where
  "tk_ras_tex usr tskid texcd s =
     (if in_indp s then Some (Ret E_CTX, s)
      else if \<not> chk_tskid_self tskid s then Some (Ret E_ID, s)
      else if \<not> (texcd \<ge> 0 \<and> texcd \<le> 31) then Some (Ret E_PAR, s)
      else if in_ddsp s then Some (Ret E_CTX, s)
      else
        (let t = get_tcb_self tskid s
         in case LockSVC t s of
              (False, s1) \<Rightarrow> Some (Retry, s1)
            | (True, s1) \<Rightarrow>
                (case raise_tex t texcd s1 of
                   ((e, ras), s2) \<Rightarrow>
                     if \<not> ras then Some (Ret e, UnlockSVC s2)
                     else Option.bind (call_brkhdr usr t s2)
                            (\<lambda>s3. map_option (Pair (Ret e)) (self_break usr (UnlockSVC s3))))))"

text \<open>The number of the lowest bit, by shifting as in the loop.\<close>

function low_bit :: "UINT \<Rightarrow> nat" where
  "low_bit w = (if w = 0 \<or> w AND 1 \<noteq> 0 then 0 else Suc (low_bit (drop_bit 1 w)))"
  by pat_completeness auto
termination
  by (relation "measure unat") (auto simp: unat_drop_bit_eq drop_bit_eq_div word_neq_0_conv word_less_nat_alt unat_div)

declare low_bit.simps [simp del]

definition tk_end_tex :: "bool \<Rightarrow> 'a kst_scheme \<Rightarrow> int \<times> 'a kst_scheme" where
  "tk_end_tex enatex s =
     (if in_ddsp s then (E_CTX, s)
      else
        (let t = me s; c = tcbs s t
         in if texflg c AND (TEX0_RUNNING OR TEX1_RUNNING) \<noteq> TEX1_RUNNING then (E_CTX, s)
            else
              (let texcd = low_bit (pendtex c AND NOT 0x00000001)
               in (int texcd,
                   if enatex \<or> texcd = 0 then
                     (let s1 = tcb_upd t (\<lambda>c. c\<lparr>texflg := texflg c AND NOT TEX1_RUNNING,
                                 exectex := exectex c OR pendtex c\<rparr>) s
                      in if texcd > 0 then request_tex t s1 else s1)
                   else tcb_upd t (\<lambda>c. c\<lparr>pendtex := pendtex c AND NOT (push_bit texcd 1)\<rparr>) s))))"

definition tk_ref_tex :: "ID \<Rightarrow> 'a kst_scheme \<Rightarrow> ER \<times> t_rtex option" where
  "tk_ref_tex tskid s =
     (if \<not> chk_tskid_self tskid s then (E_ID, None)
      else
        (let c = tcbs s (get_tcb_self tskid s)
         in if tstate c = TS_NONEXIST then (E_NOEXS, None)
            else (E_OK, Some \<lparr>rx_pendtex = pendtex c, rx_texmask = texmask c\<rparr>)))"

definition td_ref_tex :: "ID \<Rightarrow> 'a kst_scheme \<Rightarrow> ER \<times> t_rtex option" where
  "td_ref_tex tskid s =
     (if \<not> chk_tskid_self tskid s then (E_ID, None)
      else
        (let c = tcbs s (get_tcb_self tskid s)
         in if tstate c = TS_NONEXIST then (E_NOEXS, None)
            else (E_OK, Some \<lparr>rx_pendtex = pendtex c, rx_texmask = texmask c\<rparr>)))"

text \<open>The interrupt at the end of a dispatch starts the handler: the words of the two stacks at
  \<open>usp\<close> and \<open>ssp\<close> are set up so that the task goes on there. The result is the code, if there is
  one, and the new user stack pointer.\<close>

definition PSR_T :: UINT where "PSR_T = 0x00000020"
definition PSR_J :: UINT where "PSR_J = 0x01000000"

definition setup_texhdr :: "addr \<Rightarrow> addr \<Rightarrow> 'a tsk_st_scheme \<Rightarrow> (nat option \<times> addr) \<times> 'a tsk_st_scheme" where
  "setup_texhdr ssp usp s =
     (let t = me s;
          s1 = tcb_upd t (\<lambda>c. c\<lparr>reqdct := 0\<rparr>) s
      in case find (\<lambda>n. exectex (tcbs s1 t) AND push_bit n 1 \<noteq> 0) [0..<32] of
           None \<Rightarrow> ((None, usp), s1)
         | Some texcd \<Rightarrow>
             (let s2 = tcb_upd t (\<lambda>c. c\<lparr>exectex := 0, pendtex := pendtex c AND NOT (push_bit texcd 1),
                         texflg := texflg c OR (if texcd = 0 then TEX0_RUNNING else TEX1_RUNNING)\<rparr>) s1;
                  h = texhdr (tcbs s2 t);
                  sp = (if texcd = 0 then istack (tskcbs s2 t) else usp) - 12;
                  m1 = (mem_uint s2)(sp := of_nat texcd);
                  m2 = m1(sp + 4 := m1 (ssp + 4));
                  m3 = m2(sp + 8 := m2 (ssp + 8));
                  m4 = m3(ssp + 4 := of_nat h AND NOT 1);
                  psr = m4 (ssp + 8) AND NOT (PSR_T OR PSR_J);
                  m5 = m4(ssp + 8 := (if of_nat h AND (1 :: UINT) \<noteq> 0 then psr OR PSR_T else psr))
              in ((Some texcd, sp), s2\<lparr>mem_uint := m5\<rparr>)))"

section \<open>Resource groups\<close>

function BitSearch0_loop :: "UINT list \<Rightarrow> nat \<Rightarrow> nat \<Rightarrow> nat \<Rightarrow> int" where
  "BitSearch0_loop base offset width i =
     (if i < width then
        (let pos = offset + i; idx = pos div 32; bt = pos mod 32
         in if base ! idx AND push_bit bt 1 = 0 then int i
            else BitSearch0_loop base offset width (Suc i))
      else -1)"
  by pat_completeness auto
termination
  by (relation "measure (\<lambda>(base, offset, width, i). width - i)") auto

declare BitSearch0_loop.simps [simp del]

definition BitSearch0_w :: "UINT list \<Rightarrow> nat \<Rightarrow> nat \<Rightarrow> int" where
  "BitSearch0_w base offset width = BitSearch0_loop base offset width 0"

text \<open>The bitmap gets \<open>(NUM_RESID + 31) / 32\<close> bytes, not words: \<open>rest k\<close> is what the memory holds in
  byte \<open>k\<close> of the words of the bitmap where it lies behind the block.\<close>

definition le_word :: "(nat \<Rightarrow> UB) \<Rightarrow> nat \<Rightarrow> UINT" where
  "le_word b k = ucast (b (4 * k)) OR push_bit 8 (ucast (b (4 * k + 1))) OR
     push_bit 16 (ucast (b (4 * k + 2))) OR push_bit 24 (ucast (b (4 * k + 3)))"

definition resource_group_initialize ::
  "ID option \<Rightarrow> bool \<Rightarrow> (nat \<Rightarrow> UB) \<Rightarrow> 'a ssy_st_scheme \<Rightarrow> ER \<times> 'a ssy_st_scheme" where
  "resource_group_initialize ids mem rest s =
     (case ids of None \<Rightarrow> (E_SYS, s)
      | Some n \<Rightarrow>
        (let s1 = s\<lparr>max_resid := n\<rparr>
         in if n < 1 then (E_SYS, s1)
            else if \<not> mem then (E_NOMEM, s1)
            else
              (let sz = (nat n + 31) div 32;
                   bm = map (le_word (\<lambda>k. if k < sz then 0 else rest k)) [0..<sz]
               in (E_OK, s1\<lparr>resid_bitmap := BitSet bm (nat (resid_to_index SYS_RESID))\<rparr>))))"

definition tk_cre_res :: "'a ssy_st_scheme \<Rightarrow> ID \<times> 'a ssy_st_scheme" where
  "tk_cre_res s =
     (let n = BitSearch0_w (resid_bitmap s) 0 (nat (max_resid s))
      in if n < 0 then (E_LIMIT, s)
         else (index_to_resid n, s\<lparr>resid_bitmap := BitSet (resid_bitmap s) (nat n)\<rparr>))"

definition tk_del_res :: "ID \<Rightarrow> 'a ssy_st_scheme \<Rightarrow> ER \<times> 'a ssy_st_scheme" where
  "tk_del_res r s =
     (if \<not> chk_id (max_resid s) r then (E_ID, s)
      else if r = SYS_RESID then (E_ID, s)
      else
        (let idx = nat (resid_to_index r)
         in if \<not> BitTest (resid_bitmap s) idx then (E_NOEXS, s)
            else (E_OK, s\<lparr>resid_bitmap := BitClr (resid_bitmap s) idx\<rparr>)))"

definition tk_get_res :: "ID \<Rightarrow> ID \<Rightarrow> addr \<Rightarrow> 'a ssy_st_scheme \<Rightarrow> ER \<times> 'a ssy_st_scheme" where
  "tk_get_res r i p_resblk s =
     (if \<not> chk_id (max_resid s) r then (E_ID, s)
      else if \<not> chk_id (max_ssyid s) i then (E_ID, s)
      else
        (let idx = resid_to_index r; c = ssycb_table s i
         in if \<not> BitTest (resid_bitmap s) (nat idx) \<or> \<not> registered i s then (E_NOEXS, s)
            else (E_OK, s\<lparr>mem_ptr := (mem_ptr s)(p_resblk := resblk c + unat (ROUND_RESBLKSZ (resblksz c) * word_of_int idx))\<rparr>)))"

end
