(* ===== verification/Subsystem_Laws.thy ===== *)
theory Subsystem_Laws
  imports Subsystem
begin

text \<open>
  What \<open>subsystem.c\<close> promises. The chains of \<open>ssypri_table\<close> are lists: \<open>ssy_inv Q\<close> says that the
  registered subsystems of every priority are those of \<open>Q\<close>, and registration and deletion are
  insertion and removal there. The functions of all subsystems are called in the order of the
  priorities, each once, as long as they do not define subsystems themselves. A break function is
  called once for an exception, and identifiers of resource groups are given out once.
\<close>

section \<open>Chains\<close>

fun links :: "(ID \<Rightarrow> ssycb) \<Rightarrow> ID option \<Rightarrow> ID list \<Rightarrow> bool" where
  "links T cur [] \<longleftrightarrow> cur = None"
| "links T cur (i # xs) \<longleftrightarrow> cur = Some i \<and> links T (ssy_link (T i)) xs"

lemma links_cong: "(\<And>i. i \<in> set xs \<Longrightarrow> ssy_link (T' i) = ssy_link (T i)) \<Longrightarrow> links T' cur xs = links T cur xs"
  by (induction xs arbitrary: cur) auto

definition ssy_inv :: "(int \<Rightarrow> ID list) \<Rightarrow> 'a ssy_st_scheme \<Rightarrow> bool" where
  "ssy_inv Q s \<longleftrightarrow>
     (\<forall>p. chk_ssypri p s \<longrightarrow> links (ssycb_table s) (ssypri_table s (ssypri_index p)) (Q p)) \<and>
     (\<forall>p. distinct (Q p)) \<and> (\<forall>p. \<not> chk_ssypri p s \<longrightarrow> Q p = []) \<and>
     (\<forall>i. chk_id (max_ssyid s) i \<and> registered i s \<longrightarrow> i \<in> set (Q (ssypri (ssycb_table s i)))) \<and>
     (\<forall>p. \<forall>i \<in> set (Q p). chk_id (max_ssyid s) i \<and> registered i s \<and> ssypri (ssycb_table s i) = p)"

lemma ssy_invD:
  assumes "ssy_inv Q s"
  shows "chk_ssypri p s \<Longrightarrow> links (ssycb_table s) (ssypri_table s (ssypri_index p)) (Q p)"
    "distinct (Q p)" "\<not> chk_ssypri p s \<Longrightarrow> Q p = []"
    "chk_id (max_ssyid s) i \<Longrightarrow> registered i s \<Longrightarrow> i \<in> set (Q (ssypri (ssycb_table s i)))"
    "i \<in> set (Q p) \<Longrightarrow> chk_id (max_ssyid s) i \<and> registered i s \<and> ssypri (ssycb_table s i) = p"
    "i \<in> set (Q p) \<Longrightarrow> chk_ssypri p s"
proof -
  note a = assms [unfolded ssy_inv_def]
  show "chk_ssypri p s \<Longrightarrow> links (ssycb_table s) (ssypri_table s (ssypri_index p)) (Q p)"
    "distinct (Q p)" and e: "\<not> chk_ssypri p s \<Longrightarrow> Q p = []" using a by blast+
  show "chk_id (max_ssyid s) i \<Longrightarrow> registered i s \<Longrightarrow> i \<in> set (Q (ssypri (ssycb_table s i)))"
    "i \<in> set (Q p) \<Longrightarrow> chk_id (max_ssyid s) i \<and> registered i s \<and> ssypri (ssycb_table s i) = p"
    using a by blast+
  show "i \<in> set (Q p) \<Longrightarrow> chk_ssypri p s" using e by fastforce
qed

lemma ssy_invI:
  assumes "\<And>p. chk_ssypri p s \<Longrightarrow> links (ssycb_table s) (ssypri_table s (ssypri_index p)) (Q p)"
    "\<And>p. distinct (Q p)" "\<And>p. \<not> chk_ssypri p s \<Longrightarrow> Q p = []"
    "\<And>i. chk_id (max_ssyid s) i \<Longrightarrow> registered i s \<Longrightarrow> i \<in> set (Q (ssypri (ssycb_table s i)))"
    "\<And>i p. i \<in> set (Q p) \<Longrightarrow> chk_id (max_ssyid s) i \<and> registered i s \<and> ssypri (ssycb_table s i) = p"
  shows "ssy_inv Q s"
  using assms unfolding ssy_inv_def by blast

lemma ssypri_index_inj [simp]: "ssypri_index p = ssypri_index q \<longleftrightarrow> p = q"
  by (simp add: ssypri_index_def)

lemma subsystem_initialize_inv:
  assumes "n \<ge> 1" "p \<ge> 1"
  shows "fst (subsystem_initialize (Some n) (Some p) True True s) = E_OK"
    "ssy_inv (\<lambda>_. []) (snd (subsystem_initialize (Some n) (Some p) True True s))"
  using assms
  by (auto simp: subsystem_initialize_def Let_def ssy_inv_def registered_def chk_ssypri_def ssypri_index_def
      no_ssycb_def split: if_splits)

text \<open>Registration puts a subsystem in front of those of its priority.\<close>

lemma register_inv:
  assumes inv: "ssy_inv Q s" and i: "chk_id (max_ssyid s) i" "\<not> registered i s"
    and pk: "chk_ssypri (ds_ssypri pk) s" "ds_svchdr pk \<noteq> no_support s"
  shows "ssy_inv (Q(ds_ssypri pk := i # Q (ds_ssypri pk))) (register_ssy i pk blk s)"
proof -
  let ?p = "ds_ssypri pk" and ?s = "register_ssy i pk blk s"
  note d = ssy_invD [OF inv]
  have ni: "i \<notin> set (Q p)" for p using d(5) i by blast
  have eq: "ssycb_table ?s u = ssycb_table s u" if "u \<noteq> i" for u
    using that by (simp add: register_ssy_def Let_def upd_ssycb_def)
  have t: "ssypri_table ?s = (ssypri_table s)(ssypri_index ?p := Some i)" "max_ssyid ?s = max_ssyid s"
    "ssy_link (ssycb_table ?s i) = ssypri_table s (ssypri_index ?p)" "ssypri (ssycb_table ?s i) = ?p"
    "chk_ssypri q ?s = chk_ssypri q s" for q
    by (simp_all add: register_ssy_def Let_def upd_ssycb_def chk_ssypri_def)
  have r: "registered u ?s \<longleftrightarrow> u = i \<or> registered u s" for u
    using pk(2) by (auto simp: registered_def register_ssy_def Let_def upd_ssycb_def)
  have l: "links (ssycb_table ?s) cur (Q p) = links (ssycb_table s) cur (Q p)" for p cur
    by (rule links_cong) (use ni eq in metis)
  show ?thesis
  proof (rule ssy_invI)
    show "links (ssycb_table ?s) (ssypri_table ?s (ssypri_index p)) ((Q(?p := i # Q ?p)) p)"
      if "chk_ssypri p ?s" for p
      using that d(1) pk(1) by (simp add: l t)
    show "distinct ((Q(?p := i # Q ?p)) p)" for p using d(2) ni by simp
    show "(Q(?p := i # Q ?p)) p = []" if "\<not> chk_ssypri p ?s" for p using that d(3) pk(1) by (auto simp: t)
    show "u \<in> set ((Q(?p := i # Q ?p)) (ssypri (ssycb_table ?s u)))"
      if "chk_id (max_ssyid ?s) u" "registered u ?s" for u
      using that d(4) [of u] by (cases "u = i") (auto simp: t r eq)
    show "chk_id (max_ssyid ?s) u \<and> registered u ?s \<and> ssypri (ssycb_table ?s u) = p"
      if "u \<in> set ((Q(?p := i # Q ?p)) p)" for u p
      using that d(5) [of u] i(1) ni by (cases "u = i") (auto simp: t r eq split: if_splits)
  qed
qed

lemma unlink_after_spec:
  assumes "links (ssycb_table s) (ssy_link (ssycb_table s p)) xs" "i \<in> set xs" "distinct (p # xs)"
  shows "\<exists>s'. unlink_after i p s = Some s' \<and>
    ssy_link (ssycb_table s' p) = (if remove1 i xs = [] then None else Some (hd (remove1 i xs))) \<and>
    links (ssycb_table s') (ssy_link (ssycb_table s' p)) (remove1 i xs) \<and>
    (\<exists>q \<in> set (p # xs) - {i}. \<exists>l. s' = upd_ssycb q (\<lambda>c. c\<lparr>ssy_link := l\<rparr>) s)"
  using assms
proof (induction xs arbitrary: p)
  case (Cons x xs)
  then have lk: "ssy_link (ssycb_table s p) = Some x" "links (ssycb_table s) (ssy_link (ssycb_table s x)) xs" by auto
  show ?case
  proof (cases "x = i")
    case True
    let ?s' = "upd_ssycb p (\<lambda>c. c\<lparr>ssy_link := ssy_link (ssycb_table s i)\<rparr>) s"
    have l: "links (ssycb_table ?s') cur xs = links (ssycb_table s) cur xs" for cur
      by (rule links_cong) (use Cons.prems(3) in \<open>auto simp: upd_ssycb_def\<close>)
    have "unlink_after i p s = Some ?s'" using lk True by (simp add: unlink_after.simps)
    moreover have "links (ssycb_table ?s') (ssy_link (ssycb_table ?s' p)) xs"
      using lk(2) l True by (simp add: upd_ssycb_def)
    ultimately show ?thesis using True Cons.prems(3)
      by (intro exI [of _ ?s']) (cases xs; auto)
  next
    case False
    then have "i \<in> set xs" "distinct (x # xs)" using Cons.prems by auto
    then obtain s' where s': "unlink_after i x s = Some s'"
      "links (ssycb_table s') (ssy_link (ssycb_table s' x)) (remove1 i xs)"
      "\<exists>q \<in> set (x # xs) - {i}. \<exists>l. s' = upd_ssycb q (\<lambda>c. c\<lparr>ssy_link := l\<rparr>) s"
      using Cons.IH [OF lk(2)] by blast
    obtain q l where "q \<in> set (x # xs)" "s' = upd_ssycb q (\<lambda>c. c\<lparr>ssy_link := l\<rparr>) s" using s'(3) by blast
    moreover have "p \<notin> set (x # xs)" using Cons.prems(3) by simp
    ultimately have "ssy_link (ssycb_table s' p) = ssy_link (ssycb_table s p)"
      by (cases "p = q") (simp_all add: upd_ssycb_def)
    then show ?thesis using s' lk(1) False
      by (intro exI [of _ s']) (auto simp: unlink_after.simps [of i p s])
  qed
qed simp

text \<open>Deletion takes it out of its chain.\<close>

lemma unlink_spec:
  assumes l: "links (ssycb_table s) (ssypri_table s (ssypri_index p)) xs" and i: "i \<in> set xs" "distinct xs"
    and p: "ssypri (ssycb_table s i) = p"
  shows "\<exists>s'. unlink_ssy i s = Some s' \<and>
    links (ssycb_table s') (ssypri_table s' (ssypri_index p)) (remove1 i xs) \<and>
    (\<forall>j. j \<noteq> ssypri_index p \<longrightarrow> ssypri_table s' j = ssypri_table s j) \<and>
    (\<exists>t. s' = s\<lparr>ssypri_table := t\<rparr> \<or> (\<exists>q \<in> set xs - {i}. \<exists>l. s' = upd_ssycb q (\<lambda>c. c\<lparr>ssy_link := l\<rparr>) s))"
proof -
  obtain x ys where xs: "xs = x # ys" using i(1) by (cases xs) auto
  show ?thesis
  proof (cases "x = i")
    case True
    then show ?thesis using l p xs by (simp add: unlink_ssy_def Let_def) blast
  next
    case False
    then obtain s' where "unlink_after i x s = Some s'"
      "links (ssycb_table s') (ssy_link (ssycb_table s' x)) (remove1 i ys)"
      "\<exists>q \<in> set (x # ys) - {i}. \<exists>l. s' = upd_ssycb q (\<lambda>c. c\<lparr>ssy_link := l\<rparr>) s"
      using unlink_after_spec [of s x ys i] l i xs by auto
    then show ?thesis using l p xs False
      by (auto simp: unlink_ssy_def Let_def upd_ssycb_def)
  qed
qed

lemma unregister_inv:
  assumes inv: "ssy_inv Q s" and i: "chk_id (max_ssyid s) i" "registered i s"
  defines "p \<equiv> ssypri (ssycb_table s i)"
  shows "\<exists>s'. unlink_ssy i s = Some s' \<and>
    ssy_inv (Q(p := remove1 i (Q p))) (upd_ssycb i (no_ssycb (no_support s')) s')"
proof -
  note d = ssy_invD [OF inv]
  have ip: "i \<in> set (Q p)" "distinct (Q p)" "chk_ssypri p s" using d(2,4,6) i unfolding p_def by blast+
  obtain s' where s': "unlink_ssy i s = Some s'"
    "links (ssycb_table s') (ssypri_table s' (ssypri_index p)) (remove1 i (Q p))"
    "\<forall>j. j \<noteq> ssypri_index p \<longrightarrow> ssypri_table s' j = ssypri_table s j"
    "\<exists>t. s' = s\<lparr>ssypri_table := t\<rparr> \<or> (\<exists>q \<in> set (Q p) - {i}. \<exists>l. s' = upd_ssycb q (\<lambda>c. c\<lparr>ssy_link := l\<rparr>) s)"
    using unlink_spec [OF d(1) [OF ip(3)] ip(1,2)] unfolding p_def by blast
  let ?s = "upd_ssycb i (no_ssycb (no_support s')) s'" and ?Q = "Q(p := remove1 i (Q p))"
  have f: "max_ssyid ?s = max_ssyid s" "chk_ssypri q ?s = chk_ssypri q s" "ssypri_table ?s = ssypri_table s'"
    "no_support ?s = no_support s" for q
    using s'(4) by (auto simp: upd_ssycb_def chk_ssypri_def)
  have r: "registered u ?s \<longleftrightarrow> u \<noteq> i \<and> registered u s" "ssypri (ssycb_table ?s u) = ssypri (ssycb_table s u)" for u
    using s'(4) by (auto simp: upd_ssycb_def registered_def no_ssycb_def split: if_splits)
  have lk: "ssy_link (ssycb_table ?s u) = ssy_link (ssycb_table s' u)" for u by (simp add: upd_ssycb_def no_ssycb_def)
  have o: "ssy_link (ssycb_table s' u) = ssy_link (ssycb_table s u)" if "u \<notin> set (Q p)" for u
    using s'(4) that by (auto simp: upd_ssycb_def split: if_splits)
  have "ssy_inv ?Q ?s"
  proof (rule ssy_invI)
    show "links (ssycb_table ?s) (ssypri_table ?s (ssypri_index q)) (?Q q)" if "chk_ssypri q ?s" for q
    proof (cases "q = p")
      case True
      then show ?thesis using s'(2) links_cong [OF lk] unfolding f by simp
    next
      case False
      then have "u \<notin> set (Q p)" if "u \<in> set (Q q)" for u using d(5) that by blast
      then have "links (ssycb_table ?s) cur (Q q) = links (ssycb_table s) cur (Q q)" for cur
        using o lk by (intro links_cong) simp
      then show ?thesis using d(1) [of q] that s'(3) False unfolding f by simp
    qed
    show "distinct (?Q q)" for q using d(2) by simp
    show "?Q q = []" if "\<not> chk_ssypri q ?s" for q using that d(3) unfolding f by auto
    show "u \<in> set (?Q (ssypri (ssycb_table ?s u)))" if "chk_id (max_ssyid ?s) u" "registered u ?s" for u
      using that d(4) [of u] unfolding f r by (auto simp: in_set_remove1)
    show "chk_id (max_ssyid ?s) u \<and> registered u ?s \<and> ssypri (ssycb_table ?s u) = q" if "u \<in> set (?Q q)" for u q
      using that d(5) [of u] ip unfolding f r by (auto split: if_splits)
  qed
  then show ?thesis using s'(1) by blast
qed

text \<open>All of \<open>_tk_def_ssy\<close>: it returns, and the lists of subsystems change as they should.\<close>

definition def_ssy_lists :: "ID \<Rightarrow> t_dssy option \<Rightarrow> 'a ssy_st_scheme \<Rightarrow> (int \<Rightarrow> ID list) \<Rightarrow> int \<Rightarrow> ID list" where
  "def_ssy_lists i pk s Q =
     (case pk of
        Some k \<Rightarrow> Q(ds_ssypri k := i # Q (ds_ssypri k))
      | None \<Rightarrow> Q(ssypri (ssycb_table s i) := remove1 i (Q (ssypri (ssycb_table s i)))))"

lemma tk_def_ssy_inv:
  assumes inv: "ssy_inv Q s" and pk: "\<And>k. pk = Some k \<Longrightarrow> ds_svchdr k \<noteq> no_support s"
  shows "\<exists>e fr s'. tk_def_ssy alloc i pk s = Some ((e, fr), s') \<and>
    (if e = E_OK then ssy_inv (def_ssy_lists i pk s Q) s' else s' = s)"
proof -
  have "case tk_def_ssy alloc i pk s of None \<Rightarrow> False
    | Some ((e, fr), s') \<Rightarrow> if e = E_OK then ssy_inv (def_ssy_lists i pk s Q) s' else s' = s"
  proof (cases pk)
    case None
    then show ?thesis using unregister_inv [OF inv, of i]
      by (auto simp: tk_def_ssy_def def_ssy_lists_def Let_def ercd_values)
  next
    case (Some k)
    then have "chk_ssypri (ds_ssypri k) s" if "dssy_error k s = E_OK"
      using that by (auto simp: dssy_error_def ercd_values split: if_splits)
    then show ?thesis using register_inv [OF inv, of i k] pk Some
      by (auto simp: tk_def_ssy_def def_ssy_lists_def ercd_values split: option.split)
  qed
  then obtain e fr s' where "tk_def_ssy alloc i pk s = Some ((e, fr), s')"
    "if e = E_OK then ssy_inv (def_ssy_lists i pk s Q) s' else s' = s"
    by (auto split: option.splits)
  then show ?thesis by blast
qed

text \<open>A subsystem whose handler is \<open>no_support\<close> is not seen as registered: defined twice, it is linked to
  itself, and the call of all startup functions does not come back.\<close>

lemma call_chain_circle:
  fixes f :: "ID \<Rightarrow> ER \<times> 'a ssy_st_scheme \<Rightarrow> ER \<times> 'a ssy_st_scheme"
  assumes f: "\<And>x. ssy_link (ssycb_table (snd (f i x)) i) = Some i"
  shows "call_chain f (Some i) e s = None"
proof -
  have "cur \<noteq> Some i \<or> f' \<noteq> f" if "call_chain f' cur e s = Some y" for f' cur e s y
  proof (rule call_chain.raw_induct [OF _ that])
    fix loop :: "(ID \<Rightarrow> ER \<times> 'a ssy_st_scheme \<Rightarrow> ER \<times> 'a ssy_st_scheme) \<Rightarrow> ID option \<Rightarrow> ER \<Rightarrow> 'a ssy_st_scheme \<Rightarrow>
      (ER \<times> 'a ssy_st_scheme) option" and g cur e s y
    assume IH: "\<And>g cur e s y. loop g cur e s = Some y \<Longrightarrow> cur \<noteq> Some i \<or> g \<noteq> f"
      and b: "(case cur of None \<Rightarrow> Some (e, s)
        | Some i \<Rightarrow> (case g i (e, s) of (e1, s1) \<Rightarrow> loop g (ssy_link (ssycb_table s1 i)) e1 s1)) = Some y"
    show "cur \<noteq> Some i \<or> g \<noteq> f"
    proof (cases "cur = Some i \<and> g = f")
      case True
      then have "loop f (Some i) (fst (f i (e, s))) (snd (f i (e, s))) = Some y"
        using b f [of "(e, s)"] by (simp add: split_beta)
      then show ?thesis using IH by blast
    qed blast
  qed
  then show ?thesis by (cases "call_chain f (Some i) e s") blast+
qed

section \<open>The order of the calls\<close>

text \<open>A walk is a fold over the list while the chains stay as they are.\<close>

definition keeps_chains :: "(ID \<Rightarrow> ER \<times> 'a ssy_st_scheme \<Rightarrow> ER \<times> 'a ssy_st_scheme) \<Rightarrow> bool" where
  "keeps_chains f \<longleftrightarrow> (\<forall>i x. ssycb_table (snd (f i x)) = ssycb_table (snd x) \<and>
     ssypri_table (snd (f i x)) = ssypri_table (snd x))"

lemma fold_keeps_chains:
  assumes "keeps_chains f"
  shows "ssycb_table (snd (fold f xs x)) = ssycb_table (snd x)" "ssypri_table (snd (fold f xs x)) = ssypri_table (snd x)"
  using assms by (induction xs arbitrary: x) (auto simp: keeps_chains_def)

lemma call_chain_fold:
  assumes f: "keeps_chains f" and l: "links (ssycb_table (snd x)) cur xs"
  shows "call_chain f cur (fst x) (snd x) = Some (fold f xs x)"
  using l
proof (induction xs arbitrary: cur x)
  case (Cons i xs)
  moreover have "ssycb_table (snd (f i x)) = ssycb_table (snd x)" using f unfolding keeps_chains_def by blast
  ultimately have "call_chain f (ssy_link (ssycb_table (snd (f i x)) i)) (fst (f i x)) (snd (f i x)) = Some (fold f xs (f i x))"
    by (intro Cons.IH) simp
  then show ?case using Cons.prems by (simp add: call_chain.simps [of f "Some i"] split_beta)
qed (simp add: call_chain.simps)

lemma call_levels_fold:
  assumes f: "keeps_chains f" and l: "\<And>j. j \<in> set js \<Longrightarrow> links (ssycb_table (snd x)) (ssypri_table (snd x) j) (L j)"
  shows "call_levels f js x = Some (fold f (concat (map L js)) x)"
  using l
proof (induction js arbitrary: x)
  case (Cons j js)
  have "call_chain f (ssypri_table (snd x) j) (fst x) (snd x) = Some (fold f (L j) x)"
    using Cons.prems by (intro call_chain_fold [OF f]) simp
  moreover have "call_levels f js (fold f (L j) x) = Some (fold f (concat (map L js)) (fold f (L j) x))"
    using Cons.prems by (intro Cons.IH) (simp add: fold_keeps_chains [OF f])
  ultimately show ?case by simp
qed simp

text \<open>All subsystems, those of higher priority first.\<close>

definition by_priority :: "(int \<Rightarrow> ID list) \<Rightarrow> 'a ssy_st_scheme \<Rightarrow> ID list" where
  "by_priority Q s = concat (map (\<lambda>j. Q (j + 1)) [0..max_ssypri s - 1])"

definition by_priority_rev :: "(int \<Rightarrow> ID list) \<Rightarrow> 'a ssy_st_scheme \<Rightarrow> ID list" where
  "by_priority_rev Q s = concat (map (\<lambda>j. Q (j + 1)) (rev [0..max_ssypri s - 1]))"

lemma by_priority_all:
  assumes "ssy_inv Q s"
  shows "distinct (by_priority Q s)" "set (by_priority Q s) = {i. chk_id (max_ssyid s) i \<and> registered i s}"
    "distinct (by_priority_rev Q s)" "set (by_priority_rev Q s) = set (by_priority Q s)"
proof -
  note d = ssy_invD [OF assms]
  have dj: "set (Q p) \<inter> set (Q q) = {}" if "p \<noteq> q" for p q using d(5) that by blast
  have dc: "distinct js \<Longrightarrow> distinct (concat (map (\<lambda>j. Q (j + 1)) js))" for js
  proof (induction js)
    case (Cons j js)
    then have "set (Q (j + 1)) \<inter> set (Q (k + 1)) = {}" if "k \<in> set js" for k
      using that by (intro dj) auto
    then show ?case using Cons d(2) by (simp add: Int_UN_distrib)
  qed simp
  show "distinct (by_priority Q s)" "distinct (by_priority_rev Q s)"
    unfolding by_priority_def by_priority_rev_def by (intro dc, simp)+
  show "set (by_priority Q s) = {i. chk_id (max_ssyid s) i \<and> registered i s}" (is "?L = ?R")
  proof
    show "?L \<subseteq> ?R" using d(5) by (fastforce simp: by_priority_def)
    show "?R \<subseteq> ?L"
    proof
      fix i assume "i \<in> ?R"
      then have m: "i \<in> set (Q (ssypri (ssycb_table s i)))" using d(4) by blast
      then have "chk_ssypri (ssypri (ssycb_table s i)) s" by (rule d(6))
      then show "i \<in> ?L" using m
        by (auto simp: by_priority_def chk_ssypri_def intro!: bexI [of _ "ssypri (ssycb_table s i) - 1"])
    qed
  qed
  show "set (by_priority_rev Q s) = set (by_priority Q s)" by (simp add: by_priority_def by_priority_rev_def)
qed

text \<open>User functions that leave the tables of the kernel alone.\<close>

definition leaves_ssy :: "'a ssy_st_scheme ufn \<Rightarrow> bool" where
  "leaves_ssy usr \<longleftrightarrow> (\<forall>f xs s. ssycb_table (snd (usr f xs s)) = ssycb_table s \<and>
     ssypri_table (snd (usr f xs s)) = ssypri_table s)"

lemma ones_keep:
  assumes "leaves_ssy usr"
  shows "keeps_chains (startup_one usr r info)" "keeps_chains (cleanup_one usr r info)"
    "keeps_chains (event_one usr ev r info)"
  using assms
  by (auto simp: keeps_chains_def leaves_ssy_def startup_one_def cleanup_one_def event_one_def clean_resblk_def
      Let_def split_beta)

lemma all_levels:
  assumes inv: "ssy_inv Q s" and f: "keeps_chains f"
    and t: "ssycb_table (snd x) = ssycb_table s" "ssypri_table (snd x) = ssypri_table s"
  shows "call_levels f [0..max_ssypri s - 1] x = Some (fold f (by_priority Q s) x)"
    "call_levels f (rev [0..max_ssypri s - 1]) x = Some (fold f (by_priority_rev Q s) x)"
proof -
  have l: "links (ssycb_table (snd x)) (ssypri_table (snd x) j) (Q (j + 1))" if "0 \<le> j" "j \<le> max_ssypri s - 1" for j
    using ssy_invD(1) [OF inv, of "j + 1"] that by (simp add: t chk_ssypri_def ssypri_index_def)
  show "call_levels f [0..max_ssypri s - 1] x = Some (fold f (by_priority Q s) x)"
    "call_levels f (rev [0..max_ssypri s - 1]) x = Some (fold f (by_priority_rev Q s) x)"
    unfolding by_priority_def by_priority_rev_def by (rule call_levels_fold [OF f], rule l, auto)+
qed

lemma enter_ssfn_sel [simp]:
  "ssycb_table (enter_ssfn t s) = ssycb_table s" "ssypri_table (enter_ssfn t s) = ssypri_table s"
  "max_ssypri (enter_ssfn t s) = max_ssypri s" "ctxtsk (enter_ssfn t s) = ctxtsk s"
  "registered i (enter_ssfn t s) = registered i s"
  by (simp_all add: enter_ssfn_def tcb_upd_def registered_def)

text \<open>The three calls for all subsystems: startup functions run from high to low priority, cleanup
  functions from low to high, and event functions by the parity of the event.\<close>

lemma all_subsystems:
  assumes inv: "ssy_inv Q s" and usr: "leaves_ssy usr"
    and r: "chk_id (max_resid s) r" and d: "\<not> in_ddsp s"
  defines "fin \<equiv> \<lambda>x. map_option (Pair (fst x)) (self_break usr (leave_ssfn (me (snd x)) (texflg (tcbs s (me s))) (snd x)))"
    and "s1 \<equiv> enter_ssfn (me s) s"
  shows "tk_sta_ssy usr 0 r info s = fin (fold (startup_one usr r info) (by_priority Q s) (E_OK, s1))"
    "tk_cln_ssy usr 0 r info s = fin (fold (cleanup_one usr r info) (by_priority_rev Q s) (E_OK, s1))"
    "tk_evt_ssy usr 0 ev r info s =
       fin (fold (event_one usr ev r info) (if even ev then by_priority_rev Q s else by_priority Q s) (E_OK, s1))"
  using all_levels [OF inv ones_keep(1) [OF usr], of "(E_OK, s1)"] all_levels [OF inv ones_keep(2) [OF usr], of "(E_OK, s1)"]
    all_levels [OF inv ones_keep(3) [OF usr], of "(E_OK, s1)"] r d
  by (simp_all add: tk_sta_ssy_def tk_cln_ssy_def tk_evt_ssy_def with_ssfn_def chk_id_all_def fin_def s1_def split_beta)

text \<open>The answer of all event functions is the last error.\<close>

lemma events_last_error:
  "fst (fold (event_one usr ev r info) xs x) = fst x \<or> fst (fold (event_one usr ev r info) xs x) < 0"
proof (induction xs arbitrary: x)
  case (Cons i xs)
  have "fst (event_one usr ev r info i x) = fst x \<or> fst (event_one usr ev r info i x) < 0"
    by (simp add: event_one_def Let_def split: prod.split)
  then show ?case using Cons.IH [of "event_one usr ev r info i x"] by auto
qed simp

section \<open>Break functions\<close>

lemma break_ran_negative: "sint (c OR BREAK_RAN) < 0"
proof -
  have "bit (c OR BREAK_RAN) 15"
    by (simp add: bit_or_iff BREAK_RAN_def bit_numeral_word_iff bit_simps)
  then show ?thesis using bit_last_iff [of "c OR BREAK_RAN"] by simp
qed

text \<open>For one exception a break function is called at most once: when it has been marked, it is not due,
  whatever the exception flags, until the extended SVC ends and \<open>execssid\<close> is set again.\<close>

lemma break_once: "\<not> break_due t (mark_break t s)"
  using break_ran_negative [of "execssid (tcbs s t)"] by (simp add: break_due_def mark_break_def)

lemma no_break_in_ssfn: "\<not> break_due t (enter_ssfn t s)"
proof -
  have "(w OR SSFN_RUNNING) AND SSFN_RUNNING = SSFN_RUNNING" for w :: "16 word"
    by (auto simp: bit_eq_iff bit_and_iff bit_or_iff)
  then show ?thesis by (simp add: break_due_def enter_ssfn_def SSFN_RUNNING_def)
qed

lemma call_brkhdr_not_due [simp]: "\<not> break_due t s \<Longrightarrow> call_brkhdr usr t s = Some s"
  by (simp add: call_brkhdr_def)

section \<open>Task exceptions\<close>

text \<open>Only enabled exceptions are pending.\<close>

definition tex_ok :: "'a kst_scheme \<Rightarrow> bool" where
  "tex_ok s \<longleftrightarrow> (\<forall>t. tstate (tcbs s t) \<noteq> TS_NONEXIST \<longrightarrow> pendtex (tcbs s t) AND NOT (texmask (tcbs s t)) = 0)"

lemma and_not_or: "(a :: UINT) AND NOT m = 0 \<Longrightarrow> (a OR (b AND m)) AND NOT m = 0"
  by (auto simp: bit_eq_iff bit_and_iff bit_or_iff bit_not_iff)

lemma and_not_mono: "(a :: UINT) AND NOT m = 0 \<Longrightarrow> (a AND b) AND NOT m = 0"
  by (auto simp: bit_eq_iff bit_and_iff bit_or_iff bit_not_iff)

lemma and_not_self: "((a :: UINT) AND m) AND NOT m = 0"
  by (simp add: bit_eq_iff bit_and_iff bit_not_iff)

lemma tex_okD: "tex_ok s \<Longrightarrow> tstate (tcbs s t) \<noteq> TS_NONEXIST \<Longrightarrow> pendtex (tcbs s t) AND NOT (texmask (tcbs s t)) = 0"
  by (simp add: tex_ok_def)

lemma tcb_upd_tex_ok:
  assumes "tex_ok s" "tstate (f (tcbs s t)) \<noteq> TS_NONEXIST \<Longrightarrow> pendtex (f (tcbs s t)) AND NOT (texmask (f (tcbs s t))) = 0"
  shows "tex_ok (tcb_upd t f s)"
  using assms by (simp add: tex_ok_def)

lemma set_mask_tex_ok:
  assumes "tex_ok s"
  shows "tex_ok (tcb_upd t (\<lambda>c. c\<lparr>texmask := m c, pendtex := pendtex c AND m c\<rparr>) s)"
proof (rule tcb_upd_tex_ok [OF assms])
  show "pendtex (tcbs s t\<lparr>texmask := m (tcbs s t), pendtex := pendtex (tcbs s t) AND m (tcbs s t)\<rparr>) AND
    NOT (texmask (tcbs s t\<lparr>texmask := m (tcbs s t), pendtex := pendtex (tcbs s t) AND m (tcbs s t)\<rparr>)) = 0"
    using and_not_self [of "pendtex (tcbs s t)" "m (tcbs s t)"] by (simp del: bit.de_Morgan_conj bit.de_Morgan_disj)
qed

lemma request_tex_ok: "tex_ok s \<Longrightarrow> tex_ok (request_tex t s)"
  by (auto simp: request_tex_def intro!: tcb_upd_tex_ok dest: tex_okD)

lemma tex_calls_ok:
  assumes ok: "tex_ok s"
  shows "tex_ok (snd (tk_def_tex tskid pk s))" "tex_ok (snd (tk_ena_tex tskid m s))"
    "tex_ok (snd (tk_dis_tex tskid m s))" "tex_ok (snd (raise_tex t n s))" "tex_ok (snd (tk_end_tex en s))"
proof -
  show "tex_ok (snd (tk_def_tex tskid pk s))" using ok by (auto simp: tk_def_tex_def Let_def intro!: tcb_upd_tex_ok)
  show "tex_ok (snd (tk_ena_tex tskid m s))" "tex_ok (snd (tk_dis_tex tskid m s))"
    using ok set_mask_tex_ok [OF ok, of _ "\<lambda>c. texmask c OR m"] set_mask_tex_ok [OF ok, of _ "\<lambda>c. texmask c AND NOT m"]
    by (simp_all add: tk_ena_tex_def tk_dis_tex_def set_tex_mask_def Let_def)
  have "tex_ok (tcb_upd t (\<lambda>c. c\<lparr>pendtex := pendtex (tcbs s t) OR (b AND texmask (tcbs s t))\<rparr>) s)" for b
    using ok by (intro tcb_upd_tex_ok) (auto intro!: and_not_or dest: tex_okD)
  note 1 = this
  show "tex_ok (snd (raise_tex t n s))"
    unfolding raise_tex_def Let_def
    using ok 1 by (auto intro!: request_tex_ok tcb_upd_tex_ok [OF 1] tcb_upd_tex_ok [OF ok] and_not_or dest: tex_okD)
  show "tex_ok (snd (tk_end_tex en s))"
    using ok by (auto simp: tk_end_tex_def Let_def intro!: request_tex_ok tcb_upd_tex_ok and_not_mono dest: tex_okD)
qed

text \<open>An exception that is not enabled has no effect; one that is enabled is pending, and marked for the
  break function unless another handler runs.\<close>

lemma raise_tex_disabled:
  assumes "\<not> bit (texmask (tcbs s t)) (nat n)" "pendtex (tcbs s t) = 0" "0 \<le> n" "n \<le> 31"
  shows "tcbs (snd (raise_tex t n s)) = tcbs s" "\<not> snd (fst (raise_tex t n s))"
proof -
  have "push_bit (nat n) 1 AND texmask (tcbs s t) = (0 :: UINT)"
    using assms(1) by (simp add: bit_eq_iff bit_and_iff bit_push_bit_iff) (auto simp: bit_exp_iff)
  then show "tcbs (snd (raise_tex t n s)) = tcbs s" "\<not> snd (fst (raise_tex t n s))"
    using assms(2) by (auto simp: raise_tex_def Let_def fun_eq_iff)
qed

lemma low_bit_spec:
  assumes "w \<noteq> 0"
  shows "bit w (low_bit w)" "k < low_bit w \<Longrightarrow> \<not> bit w k" "low_bit w < 32"
proof -
  have "bit w (low_bit w) \<and> (\<forall>k < low_bit w. \<not> bit w k)"
    using assms
  proof (induction w rule: low_bit.induct)
    case (1 w)
    show ?case
    proof (cases "w AND 1 = 0")
      case True
      then have b0: "\<not> bit w 0" by (simp add: and_one_eq odd_iff_mod_2_eq_one bit_0)
      have d: "bit (drop_bit 1 w) k \<longleftrightarrow> bit w (Suc k)" for k by (simp add: bit_drop_bit_eq)
      obtain k where "bit w k" using 1(2) by (auto simp: bit_eq_iff [of w 0])
      then have "bit (drop_bit 1 w) (k - 1)" using b0 by (cases k) (simp_all only: d diff_Suc_1)
      then have "drop_bit 1 w \<noteq> 0" by (intro notI) (simp only: bit_0_eq bot_fun_def bot_bool_def simp_thms)
      then have IH: "bit (drop_bit 1 w) (low_bit (drop_bit 1 w))" "\<forall>k < low_bit (drop_bit 1 w). \<not> bit (drop_bit 1 w) k"
        using 1 True by auto
      have e: "low_bit w = Suc (low_bit (drop_bit 1 w))" using 1 True by (simp add: low_bit.simps [of w])
      show ?thesis unfolding e using IH b0 unfolding d by (auto simp: less_Suc_eq_0_disj)
    next
      case False
      then have "bit w 0" by (simp add: and_one_eq bit_0 odd_iff_mod_2_eq_one)
      then show ?thesis using False by (simp add: low_bit.simps [of w])
    qed
  qed
  then show "bit w (low_bit w)" and "k < low_bit w \<Longrightarrow> \<not> bit w k" by blast+
  then show "low_bit w < 32" using bit_imp_le_length [of w "low_bit w"] by simp
qed

section \<open>Resource groups\<close>

definition res_used :: "ID \<Rightarrow> 'a ssy_st_scheme \<Rightarrow> bool" where
  "res_used r s \<longleftrightarrow> BitTest (resid_bitmap s) (nat (resid_to_index r))"

definition res_ok :: "'a ssy_st_scheme \<Rightarrow> bool" where
  "res_ok s \<longleftrightarrow> nat (max_resid s) \<le> 32 * length (resid_bitmap s) \<and> res_used SYS_RESID s"

lemma BitSearch0_loop_spec:
  "(\<exists>j. i \<le> j \<and> j < width \<and> \<not> BitTest base (off + j) \<and>
        (\<forall>k. i \<le> k \<and> k < j \<longrightarrow> BitTest base (off + k)) \<and>
        BitSearch0_loop base off width i = int j) \<or>
   (\<forall>j. i \<le> j \<and> j < width \<longrightarrow> BitTest base (off + j)) \<and>
      BitSearch0_loop base off width i = -1"
proof (induction base off width i rule: BitSearch0_loop.induct)
  case (1 base off width i)
  show ?case
  proof (cases "i < width \<and> BitTest base (off + i)")
    case True
    then have eq: "BitSearch0_loop base off width i = BitSearch0_loop base off width (Suc i)"
      by (simp add: BitSearch0_loop.simps [of base off width i] BitTest_def Let_def)
    have IH: "(\<exists>j\<ge>Suc i. j < width \<and> \<not> BitTest base (off + j) \<and>
        (\<forall>k. Suc i \<le> k \<and> k < j \<longrightarrow> BitTest base (off + k)) \<and>
        BitSearch0_loop base off width (Suc i) = int j) \<or>
      (\<forall>j. Suc i \<le> j \<and> j < width \<longrightarrow> BitTest base (off + j)) \<and>
      BitSearch0_loop base off width (Suc i) = -1"
      using "1.IH" True by (auto simp: BitTest_def Let_def)
    show ?thesis
      unfolding eq using IH True by (metis Suc_leD Suc_leI le_neq_implies_less)
  next
    case False
    then show ?thesis
      by (auto simp: BitSearch0_loop.simps [of base off width i] BitTest_def Let_def)
  qed
qed

text \<open>A new group gets an identifier nobody has; when there is none, nothing changes.\<close>

lemma tk_cre_res_spec:
  assumes ok: "res_ok s"
  defines "r \<equiv> fst (tk_cre_res s)" and "s' \<equiv> snd (tk_cre_res s)"
  shows "r = E_LIMIT \<and> s' = s \<and> (\<forall>q. chk_id (max_resid s) q \<longrightarrow> res_used q s) \<or>
    chk_id (max_resid s) r \<and> \<not> res_used r s \<and>
    (\<forall>q \<ge> 1. res_used q s' \<longleftrightarrow> q = r \<or> res_used q s) \<and> res_ok s'"
  using BitSearch0_loop_spec [of 0 "nat (max_resid s)" "resid_bitmap s" 0]
proof (elim disjE exE conjE)
  fix j assume j: "j < nat (max_resid s)" "\<not> BitTest (resid_bitmap s) (0 + j)"
    "BitSearch0_loop (resid_bitmap s) 0 (nat (max_resid s)) 0 = int j"
  have e: "r = int j + 1" "s' = s\<lparr>resid_bitmap := BitSet (resid_bitmap s) j\<rparr>"
    using j(3) by (simp_all add: r_def s'_def tk_cre_res_def BitSearch0_w_def index_to_resid_def)
  have "j < 32 * length (resid_bitmap s)" using j(1) ok by (simp add: res_ok_def)
  then have u: "res_used q s' \<longleftrightarrow> q = r \<or> res_used q s" if "1 \<le> q" for q
    using that by (auto simp: res_used_def e BitTest_BitSet resid_to_index_def)
  have "\<not> res_used r s" "chk_id (max_resid s) r"
    using j by (simp_all add: res_used_def resid_to_index_def e chk_id_def)
  moreover have "res_ok s'" using ok u [of SYS_RESID] by (simp add: res_ok_def e SYS_RESID_def)
  ultimately show ?thesis using u by blast
next
  assume a: "\<forall>j. 0 \<le> j \<and> j < nat (max_resid s) \<longrightarrow> BitTest (resid_bitmap s) (0 + j)"
    "BitSearch0_loop (resid_bitmap s) 0 (nat (max_resid s)) 0 = -1"
  then show ?thesis
    by (auto simp: r_def s'_def tk_cre_res_def BitSearch0_w_def res_used_def resid_to_index_def chk_id_def)
qed

text \<open>Deletion gives it back.\<close>

lemma tk_del_res_spec:
  assumes ok: "res_ok s" and r: "chk_id (max_resid s) r" "r \<noteq> SYS_RESID" "res_used r s"
  shows "fst (tk_del_res r s) = E_OK" "res_ok (snd (tk_del_res r s))"
    "1 \<le> q \<Longrightarrow> res_used q (snd (tk_del_res r s)) \<longleftrightarrow> q \<noteq> r \<and> res_used q s"
proof -
  have b: "nat (resid_to_index r) < 32 * length (resid_bitmap s)"
    using ok r(1) by (auto simp: res_ok_def chk_id_def resid_to_index_def)
  have e: "tk_del_res r s = (E_OK, s\<lparr>resid_bitmap := BitClr (resid_bitmap s) (nat (resid_to_index r))\<rparr>)"
    using r by (simp add: tk_del_res_def Let_def res_used_def)
  have u: "res_used q (snd (tk_del_res r s)) \<longleftrightarrow> q \<noteq> r \<and> res_used q s" if "1 \<le> q" for q
    using that r(1) unfolding e by (auto simp: res_used_def BitTest_BitClr [OF b] resid_to_index_def [of q] chk_id_def)
      (auto simp: resid_to_index_def)
  then show "1 \<le> q \<Longrightarrow> res_used q (snd (tk_del_res r s)) \<longleftrightarrow> q \<noteq> r \<and> res_used q s" .
  show "fst (tk_del_res r s) = E_OK" by (simp add: e)
  show "res_ok (snd (tk_del_res r s))"
    using ok r(2) u [of SYS_RESID] unfolding e by (auto simp: res_ok_def SYS_RESID_def)
qed

text \<open>The bitmap of 512 groups needs 64 bytes and gets 16: what lies behind them counts as groups that
  are in use.\<close>

lemma resource_bitmap_short:
  "fst (tk_cre_res (snd (resource_group_initialize (Some 512) True (\<lambda>_. 0xFF) s))) = 2"
  "res_used 129 (snd (resource_group_initialize (Some 512) True (\<lambda>_. 0xFF) s))"
  by (simp_all add: resource_group_initialize_def tk_cre_res_def BitSearch0_w_def BitSearch0_loop.simps
      index_to_resid_def resid_to_index_def SYS_RESID_def BitSet_def le_word_def res_used_def BitTest_def upt_rec)

end
