(* ===== verification/Boot.thy ===== *)
theory Boot
  imports Subsystem_Laws Handler_Calls Task_Life
begin

text \<open>
  The start of the kernel (\<open>tkstart.c\<close>): \<open>t_kernel_main\<close> initialises the modules one after the other,
  creates and starts the initial task and dispatches it. A module that cannot be initialised is
  announced and the monitor is entered; \<open>tm_monitor\<close> has an empty body in all ports, so the start goes
  on. The names of the failed modules are part of the result.

  It is shown that with a valid configuration the start establishes the invariants of all components,
  which the theories of the components then show to be kept. The target-dependent modules \<open>cpu\<close> and
  \<open>tkdev\<close>, which set up interrupt vectors and registers, are left out.
\<close>

section \<open>The code\<close>

text \<open>\<open>cfn tag\<close> is what \<open>_tk_get_cfn\<close> answers and stores (up to two values); \<open>mem name k\<close> says whether the
  \<open>k\<close>-th call of \<open>Imalloc\<close> in the initialisation of a module succeeds.\<close>

type_synonym cfn = "string \<Rightarrow> int \<times> int \<times> int"

definition cfn1 :: "cfn \<Rightarrow> string \<Rightarrow> int \<times> int" where
  "cfn1 cfn tag = (case cfn tag of (n, v, _) \<Rightarrow> (n, v))"

definition cfn_opt :: "cfn \<Rightarrow> string \<Rightarrow> int option" where
  "cfn_opt cfn tag = (case cfn tag of (n, v, _) \<Rightarrow> if n < 1 then None else Some v)"

text \<open>\<open>_tk_get_cfn\<close> of the ports: one value, which is 0.\<close>

definition tk_get_cfn :: cfn where
  "tk_get_cfn name = (1, 0, 0)"

definition init_module :: "string \<Rightarrow> ('s \<Rightarrow> ER \<times> 's) \<Rightarrow> string list \<times> 's \<Rightarrow> string list \<times> 's" where
  "init_module name initfunc x =
     (case x of (failed, s) \<Rightarrow>
        (case initfunc s of (ercd, s1) \<Rightarrow> (if ercd < E_OK then failed @ [name] else failed, s1)))"

text \<open>\<open>task_initialize\<close> reads the size of system stacks into \<open>default_sstksz\<close> once it has the number of
  tasks.\<close>

definition task_initialize_sz :: "cfn \<Rightarrow> bool \<Rightarrow> 'a tsk_st_scheme \<Rightarrow> ER \<times> 'a tsk_st_scheme" where
  "task_initialize_sz cfn malloc_ok s =
     (let ids = cfn1 cfn ''TMaxTskId''; stk = cfn1 cfn ''TSysStkSz'';
          (ercd, s1) = task_initialize ids stk (cfn1 cfn ''TSVCLimit'') malloc_ok s
      in (ercd, if fst ids < 1 \<or> snd ids < 1 \<or> fst stk < 1 then s1 else s1\<lparr>default_sstksz := snd stk\<rparr>))"

definition init_modules ::
  "cfn \<Rightarrow> (string \<Rightarrow> nat \<Rightarrow> bool) \<Rightarrow> (nat \<Rightarrow> UB) \<Rightarrow> 'a ssy_st_scheme \<Rightarrow> string list \<times> 'a ssy_st_scheme" where
  "init_modules cfn mem rest s =
     (let x1 = init_module ''task'' (task_initialize_sz cfn (mem ''task'' 0)) ([], s);
          x2 = init_module ''semaphore'' (semaphore_initialize (cfn1 cfn ''TMaxSemId'') (mem ''semaphore'' 0)) x1;
          x3 = init_module ''eventflag'' (eventflag_initialize (cfn1 cfn ''TMaxFlgId'') (mem ''eventflag'' 0)) x2;
          x4 = init_module ''mailbox'' (mailbox_initialize (cfn1 cfn ''TMaxMbxId'') (mem ''mailbox'' 0)) x3;
          x5 = init_module ''messagebuffer''
                 (messagebuffer_initialize (cfn1 cfn ''TMaxMbfId'') (mem ''messagebuffer'' 0)) x4;
          x6 = init_module ''rendezvous'' (rendezvous_initialize (cfn1 cfn ''TMaxPorId'') (mem ''rendezvous'' 0)) x5;
          x7 = init_module ''mutex'' (mutex_initialize (cfn1 cfn ''TMaxMtxId'') (mem ''mutex'' 0)) x6;
          x8 = init_module ''memorypool'' (memorypool_initialize (cfn1 cfn ''TMaxMplId'') (mem ''memorypool'' 0)) x7;
          x9 = init_module ''fix_memorypool''
                 (fix_memorypool_initialize (cfn1 cfn ''TMaxMpfId'') (mem ''fix_memorypool'' 0)) x8;
          x10 = init_module ''cyclichandler''
                 (cyclichandler_initialize (cfn1 cfn ''TMaxCycId'') (mem ''cyclichandler'' 0)) x9;
          x11 = init_module ''alarmhandler''
                 (alarmhandler_initialize (cfn1 cfn ''TMaxAlmId'') (mem ''alarmhandler'' 0)) x10;
          x12 = init_module ''subsystem''
                 (subsystem_initialize (cfn_opt cfn ''TMaxSsyId'') (cfn_opt cfn ''TMaxSsyPri'')
                    (mem ''subsystem'' 0) (mem ''subsystem'' 1)) x11;
          x13 = init_module ''resource_group''
                 (resource_group_initialize (cfn_opt cfn ''TMaxResId'') (mem ''resource_group'' 0) rest) x12
      in init_module ''timer'' (timer_initialize (cfn ''TTimPeriod'')) x13)"

definition init_task_startup ::
  "(UINT \<Rightarrow> ATR \<Rightarrow> addr option) \<Rightarrow> (UINT \<Rightarrow> ATR \<Rightarrow> addr option) \<Rightarrow> t_ctsk \<Rightarrow>
   string list \<times> 'a tsk_st_scheme \<Rightarrow> string list \<times> 'a tsk_st_scheme" where
  "init_task_startup sys_alloc usr_alloc ctsk x =
     (case x of (failed, s) \<Rightarrow>
        (case tk_cre_tsk sys_alloc usr_alloc ctsk s of (ercd, s1) \<Rightarrow>
           if ercd < E_OK then (failed @ [''init_task''], s1)
           else (case tk_sta_tsk ercd 0 s1 of (ercd2, s2) \<Rightarrow>
                   (if ercd2 < E_OK then failed @ [''init_task''] else failed, s2))))"

definition t_kernel_main ::
  "cfn \<Rightarrow> (string \<Rightarrow> nat \<Rightarrow> bool) \<Rightarrow> (nat \<Rightarrow> UB) \<Rightarrow> (UINT \<Rightarrow> ATR \<Rightarrow> addr option) \<Rightarrow>
   (UINT \<Rightarrow> ATR \<Rightarrow> addr option) \<Rightarrow> t_ctsk \<Rightarrow> 'a ssy_st_scheme \<Rightarrow> string list \<times> 'a ssy_st_scheme" where
  "t_kernel_main cfn mem rest sys_alloc usr_alloc inittask s =
     (case init_task_startup sys_alloc usr_alloc inittask (init_modules cfn mem rest s) of
        (failed, s1) \<Rightarrow> (failed, force_dispatch s1))"

section \<open>The initialisers\<close>

lemma fold_reset:
  assumes "\<And>i x. f i (f i x) = f i x"
  shows "fold (\<lambda>i t. t(i := f i (t i))) xs t = (\<lambda>j. if j \<in> set xs then f j (t j) else t j)"
  using assms by (induction xs arbitrary: t) (auto simp: fun_eq_iff)

lemma in_ids: "i \<in> set [1..n] \<longleftrightarrow> chk_id n i"
  by (auto simp: chk_id_def)

definition reset_ids :: "(ID \<Rightarrow> 'c) \<Rightarrow> int \<Rightarrow> ('c \<Rightarrow> 'c) \<Rightarrow> ID \<Rightarrow> 'c" where
  "reset_ids t n f = (\<lambda>i. if chk_id n i then f (t i) else t i)"

lemma fold_reset_ids:
  "(\<And>x. f (f x) = f x) \<Longrightarrow> fold (\<lambda>i t. t(i := f (t i))) [1..n] t = reset_ids t n f"
  unfolding reset_ids_def using fold_reset [of "\<lambda>_. f" "[1..n]" t] by (simp only: in_ids)

lemma semaphore_initialize_eq:
  assumes "1 \<le> fst c" "1 \<le> snd c"
  shows "semaphore_initialize c True s = (E_OK, s\<lparr>max_semid := snd c,
    semcb_table := reset_ids (semcb_table s) (snd c) (semid_update (\<lambda>_. 0)), free_semcb := [1..snd c]\<rparr>)"
proof -
  have "fold (\<lambda>i s. (upd_semcb i f s)\<lparr>free_semcb := free_semcb s @ [i]\<rparr>) xs u =
      u\<lparr>semcb_table := fold (\<lambda>i t. t(i := f (t i))) xs (semcb_table u), free_semcb := free_semcb u @ xs\<rparr>"
    for f xs and u :: "'a sem_st_scheme"
    by (induction xs arbitrary: u) (simp_all add: upd_semcb_def)
  then show ?thesis using assms by (simp add: semaphore_initialize_def fold_reset_ids)
qed

lemma eventflag_initialize_eq:
  assumes "1 \<le> fst c" "1 \<le> snd c"
  shows "eventflag_initialize c True s = (E_OK, s\<lparr>max_flgid := snd c,
    flgcb_table := reset_ids (flgcb_table s) (snd c) (flgid_update (\<lambda>_. 0)), free_flgcb := [1..snd c]\<rparr>)"
proof -
  have "fold (\<lambda>i s. (upd_flgcb i f s)\<lparr>free_flgcb := free_flgcb s @ [i]\<rparr>) xs u =
      u\<lparr>flgcb_table := fold (\<lambda>i t. t(i := f (t i))) xs (flgcb_table u), free_flgcb := free_flgcb u @ xs\<rparr>"
    for f xs and u :: "'a flg_st_scheme"
    by (induction xs arbitrary: u) (simp_all add: upd_flgcb_def)
  then show ?thesis using assms by (simp add: eventflag_initialize_def fold_reset_ids)
qed

lemma mailbox_initialize_eq:
  assumes "1 \<le> fst c" "1 \<le> snd c"
  shows "mailbox_initialize c True s = (E_OK, s\<lparr>max_mbxid := snd c,
    mbxcb_table := reset_ids (mbxcb_table s) (snd c) (mbxid_update (\<lambda>_. 0)), free_mbxcb := [1..snd c]\<rparr>)"
proof -
  have "fold (\<lambda>i s. (upd_mbxcb i f s)\<lparr>free_mbxcb := free_mbxcb s @ [i]\<rparr>) xs u =
      u\<lparr>mbxcb_table := fold (\<lambda>i t. t(i := f (t i))) xs (mbxcb_table u), free_mbxcb := free_mbxcb u @ xs\<rparr>"
    for f xs and u :: "'a mbx_st_scheme"
    by (induction xs arbitrary: u) (simp_all add: upd_mbxcb_def)
  then show ?thesis using assms by (simp add: mailbox_initialize_def fold_reset_ids)
qed

lemma messagebuffer_initialize_eq:
  assumes "1 \<le> fst c" "1 \<le> snd c"
  shows "messagebuffer_initialize c True s = (E_OK, s\<lparr>max_mbfid := snd c,
    mbfcb_table := reset_ids (mbfcb_table s) (snd c) (mbfid_update (\<lambda>_. 0)), free_mbfcb := [1..snd c]\<rparr>)"
proof -
  have "fold (\<lambda>i s. (upd_mbfcb i f s)\<lparr>free_mbfcb := free_mbfcb s @ [i]\<rparr>) xs u =
      u\<lparr>mbfcb_table := fold (\<lambda>i t. t(i := f (t i))) xs (mbfcb_table u), free_mbfcb := free_mbfcb u @ xs\<rparr>"
    for f xs and u :: "'a mbf_st_scheme"
    by (induction xs arbitrary: u) (simp_all add: upd_mbfcb_def)
  then show ?thesis using assms by (simp add: messagebuffer_initialize_def fold_reset_ids)
qed

lemma rendezvous_initialize_eq:
  assumes "1 \<le> fst c" "1 \<le> snd c"
  shows "rendezvous_initialize c True s = (E_OK, s\<lparr>max_porid := snd c,
    porcb_table := reset_ids (porcb_table s) (snd c) (porid_update (\<lambda>_. 0)), free_porcb := [1..snd c]\<rparr>)"
proof -
  have "fold (\<lambda>i s. (upd_porcb i f s)\<lparr>free_porcb := free_porcb s @ [i]\<rparr>) xs u =
      u\<lparr>porcb_table := fold (\<lambda>i t. t(i := f (t i))) xs (porcb_table u), free_porcb := free_porcb u @ xs\<rparr>"
    for f xs and u :: "'a por_st_scheme"
    by (induction xs arbitrary: u) (simp_all add: upd_porcb_def)
  then show ?thesis using assms by (simp add: rendezvous_initialize_def fold_reset_ids)
qed

lemma mutex_initialize_eq:
  assumes "1 \<le> fst c" "1 \<le> snd c"
  shows "mutex_initialize c True s = (E_OK, s\<lparr>max_mtxid := snd c,
    mtxcb_table := reset_ids (mtxcb_table s) (snd c) (mtxid_update (\<lambda>_. 0)), free_mtxcb := [1..snd c]\<rparr>)"
proof -
  have "fold (\<lambda>i s. (upd_mtxcb i f s)\<lparr>free_mtxcb := free_mtxcb s @ [i]\<rparr>) xs u =
      u\<lparr>mtxcb_table := fold (\<lambda>i t. t(i := f (t i))) xs (mtxcb_table u), free_mtxcb := free_mtxcb u @ xs\<rparr>"
    for f xs and u :: "'a mtx_st_scheme"
    by (induction xs arbitrary: u) (simp_all add: upd_mtxcb_def)
  then show ?thesis using assms by (simp add: mutex_initialize_def fold_reset_ids)
qed

lemma memorypool_initialize_eq:
  assumes "1 \<le> fst c" "1 \<le> snd c"
  shows "memorypool_initialize c True s = (E_OK, s\<lparr>max_mplid := snd c,
    mplcb_table := reset_ids (mplcb_table s) (snd c) (mplid_update (\<lambda>_. 0)), free_mplcb := [1..snd c]\<rparr>)"
proof -
  have "fold (\<lambda>i s. (upd_mplcb i f s)\<lparr>free_mplcb := free_mplcb s @ [i]\<rparr>) xs u =
      u\<lparr>mplcb_table := fold (\<lambda>i t. t(i := f (t i))) xs (mplcb_table u), free_mplcb := free_mplcb u @ xs\<rparr>"
    for f xs and u :: "'a mpl_st_scheme"
    by (induction xs arbitrary: u) (simp_all add: upd_mplcb_def)
  then show ?thesis using assms by (simp add: memorypool_initialize_def fold_reset_ids)
qed

lemma fix_memorypool_initialize_eq:
  assumes "1 \<le> fst c" "1 \<le> snd c"
  shows "fix_memorypool_initialize c True s = (E_OK, s\<lparr>max_mpfid := snd c,
    mpfcb_table := reset_ids (mpfcb_table s) (snd c) (mpfid_update (\<lambda>_. 0)), free_mpfcb := [1..snd c],
    obj_locked := (obj_locked s)(OMpf := reset_ids (obj_locked s OMpf) (snd c) (\<lambda>_. False))\<rparr>)"
proof -
  have "fold (\<lambda>i s. (InitOBJLOCK OMpf i (upd_mpfcb i f s))\<lparr>free_mpfcb := free_mpfcb s @ [i]\<rparr>) xs u =
      u\<lparr>mpfcb_table := fold (\<lambda>i t. t(i := f (t i))) xs (mpfcb_table u), free_mpfcb := free_mpfcb u @ xs,
        obj_locked := (obj_locked u)(OMpf := fold (\<lambda>i t. t(i := False)) xs (obj_locked u OMpf))\<rparr>"
    for f xs and u :: "'a mpf_st_scheme"
    by (induction xs arbitrary: u) (simp_all add: upd_mpfcb_def InitOBJLOCK_def)
  then show ?thesis
    using assms fold_reset_ids [of "\<lambda>_. False" "snd c" "obj_locked s OMpf"]
    by (simp add: fix_memorypool_initialize_def fold_reset_ids)
qed

lemma cyclichandler_initialize_eq:
  assumes "1 \<le> fst c" "1 \<le> snd c"
  shows "cyclichandler_initialize c True s = (E_OK, s\<lparr>max_cycid := snd c,
    cyccb_table := reset_ids (cyccb_table s) (snd c) (cychdr_update (\<lambda>_. NULL)), free_cyccb := [1..snd c]\<rparr>)"
proof -
  have "fold (\<lambda>i s. (upd_cyccb i f s)\<lparr>free_cyccb := free_cyccb s @ [i]\<rparr>) xs u =
      u\<lparr>cyccb_table := fold (\<lambda>i t. t(i := f (t i))) xs (cyccb_table u), free_cyccb := free_cyccb u @ xs\<rparr>"
    for f xs and u :: "'a tim_st_scheme"
    by (induction xs arbitrary: u) (simp_all add: upd_cyccb_def)
  then show ?thesis using assms by (simp add: cyclichandler_initialize_def fold_reset_ids)
qed

lemma alarmhandler_initialize_eq:
  assumes "1 \<le> fst c" "1 \<le> snd c"
  shows "alarmhandler_initialize c True s = (E_OK, s\<lparr>max_almid := snd c,
    almcb_table := reset_ids (almcb_table s) (snd c) (almhdr_update (\<lambda>_. NULL)), free_almcb := [1..snd c]\<rparr>)"
proof -
  have "fold (\<lambda>i s. (upd_almcb i f s)\<lparr>free_almcb := free_almcb s @ [i]\<rparr>) xs u =
      u\<lparr>almcb_table := fold (\<lambda>i t. t(i := f (t i))) xs (almcb_table u), free_almcb := free_almcb u @ xs\<rparr>"
    for f xs and u :: "'a tim_st_scheme"
    by (induction xs arbitrary: u) (simp_all add: upd_almcb_def)
  then show ?thesis using assms by (simp add: alarmhandler_initialize_def fold_reset_ids)
qed

definition cfn_period :: "int \<times> int \<times> int \<Rightarrow> int" where
  "cfn_period c = (case c of (n, t0, t1) \<Rightarrow> t0 * 1000 + (if n < 2 then 0 else t1))"

lemma timer_initialize_eq:
  assumes "1 \<le> fst c" "10 \<le> cfn_period c" "cfn_period c \<le> 50000"
  shows "timer_initialize c s = (E_OK, s\<lparr>timer_period := word_of_int (cfn_period c),
    current_time := 0, real_time_ofs := 0, timer_queue := []\<rparr>)"
proof -
  obtain n t0 t1 where c: "c = (n, t0, t1)" by (cases c)
  define p where "p = t0 * 1000 + (if n < 2 then 0 else t1)"
  have cp: "cfn_period c = p" by (simp add: cfn_period_def c p_def)
  have u: "uint (word_of_int p :: 64 word) = p" using assms(2,3) by (simp add: cp uint_word_of_int take_bit_int_eq_self)
  show ?thesis
    unfolding timer_initialize_def cp unfolding c prod.case p_def [symmetric]
    using assms c cp u by (simp add: Let_def word_less_def MIN_TIMER_PERIOD_def MAX_TIMER_PERIOD_def)
qed

text \<open>The control blocks of tasks.\<close>

definition boot_tcb :: "ID \<Rightarrow> tcb \<Rightarrow> tcb" where
  "boot_tcb t c = c\<lparr>tstate := TS_NONEXIST, svclocked := None, wrdvno := word_of_int t\<rparr>"

definition boot_tcbs :: "(ID \<Rightarrow> tcb) \<Rightarrow> int \<Rightarrow> ID \<Rightarrow> tcb" where
  "boot_tcbs tab n = (\<lambda>t. if chk_id n t then boot_tcb t (tab t) else tab t)"

lemma task_initialize_eq:
  assumes "1 \<le> fst a" "1 \<le> snd a" "1 \<le> fst b" "MIN_SYS_STACK_SIZE \<le> snd b" "1 \<le> fst c" "0 \<le> snd c" "snd c \<le> 3"
  shows "task_initialize a b c True s =
    (E_OK, (ready_queue_initialize s)\<lparr>max_tskid := snd a, ctxtsk := None, schedtsk := None, dispatch_disabled := 0,
       tcbs := boot_tcbs (tcbs s) (snd a),
       que := (que (ready_queue_initialize s))(FreeTcb := [1..snd a])\<rparr>)"
proof -
  let ?add = "\<lambda>t s. que_insert t FreeTcb (tcb_upd t (\<lambda>c. c\<lparr>tstate := TS_NONEXIST, svclocked := None,
      wrdvno := word_of_int t\<rparr>) s)"
  have "fold ?add xs u = u\<lparr>tcbs := fold (\<lambda>i t. t(i := boot_tcb i (t i))) xs (tcbs u),
      que := (que u)(FreeTcb := que u FreeTcb @ xs)\<rparr>" for xs and u :: "'a kst_scheme"
    by (induction xs arbitrary: u) (simp_all add: que_insert_def tcb_upd_def boot_tcb_def)
  moreover have "fold (\<lambda>i t. t(i := boot_tcb i (t i))) [1..snd a] t = boot_tcbs t (snd a)" for t
    using fold_reset [of boot_tcb "[1..snd a]" t] unfolding in_ids by (simp add: boot_tcbs_def boot_tcb_def)
  ultimately have f: "fold ?add [1..snd a] u = u\<lparr>tcbs := boot_tcbs (tcbs u) (snd a),
      que := (que u)(FreeTcb := que u FreeTcb @ [1..snd a])\<rparr>" for u :: "'a kst_scheme"
    by simp
  show ?thesis
    using assms by (simp add: task_initialize_def Let_def f ready_queue_initialize_def fun_upd_def cong: if_cong qid.case_cong)
qed

section \<open>The state after the start\<close>

text \<open>All invariants together.\<close>

definition system_ok :: "'a ssy_st_scheme \<Rightarrow> bool" where
  "system_ok s \<longleftrightarrow> life_ok s \<and> sync_ok s \<and> sem_ok s \<and> flg_ok s \<and> mbx_ok s \<and> mbf_ok s \<and> por_inv s \<and> mtx_ok s \<and>
     mpl_ok s \<and> mpf_ok s \<and> tim_ok s \<and> (\<exists>Q. ssy_inv Q s) \<and> res_ok s"

text \<open>A table without objects.\<close>

definition fresh_tab :: "ID list \<Rightarrow> int \<Rightarrow> ('c \<Rightarrow> bool) \<Rightarrow> (ID \<Rightarrow> 'c) \<Rightarrow> bool" where
  "fresh_tab free mx absent tab \<longleftrightarrow> free = [1..mx] \<and> (\<forall>i. chk_id mx i \<longrightarrow> absent (tab i))"

lemma fresh_tabD:
  assumes "fresh_tab free mx absent tab"
  shows "distinct free" "i \<in> set free \<longleftrightarrow> chk_id mx i \<and> absent (tab i)" "chk_id mx i \<Longrightarrow> absent (tab i)"
  using assms in_ids [of i mx] by (auto simp: fresh_tab_def)

lemma fresh_tab_reset:
  "(\<And>x. absent (f x)) \<Longrightarrow> fresh_tab [1..n] n absent (reset_ids t n f)"
  by (simp add: fresh_tab_def reset_ids_def)

definition fresh :: "'a ssy_st_scheme \<Rightarrow> bool" where
  "fresh s \<longleftrightarrow>
     fresh_tab (free_semcb s) (max_semid s) (\<lambda>c. semid c = 0) (semcb_table s) \<and>
     fresh_tab (free_flgcb s) (max_flgid s) (\<lambda>c. flgid c = 0) (flgcb_table s) \<and>
     fresh_tab (free_mbxcb s) (max_mbxid s) (\<lambda>c. mbxid c = 0) (mbxcb_table s) \<and>
     fresh_tab (free_mbfcb s) (max_mbfid s) (\<lambda>c. mbfid c = 0) (mbfcb_table s) \<and>
     fresh_tab (free_porcb s) (max_porid s) (\<lambda>c. porid c = 0) (porcb_table s) \<and>
     fresh_tab (free_mtxcb s) (max_mtxid s) (\<lambda>c. mtxid c = 0) (mtxcb_table s) \<and>
     fresh_tab (free_mplcb s) (max_mplid s) (\<lambda>c. mplid c = 0) (mplcb_table s) \<and>
     fresh_tab (free_mpfcb s) (max_mpfid s) (\<lambda>c. mpfid c = 0) (mpfcb_table s) \<and>
     fresh_tab (free_cyccb s) (max_cycid s) (\<lambda>c. cychdr c = NULL) (cyccb_table s) \<and>
     fresh_tab (free_almcb s) (max_almid s) (\<lambda>c. almhdr c = NULL) (almcb_table s) \<and>
     ssy_inv (\<lambda>_. []) s \<and> res_ok s \<and> timer_queue s = [] \<and> clock_ok s"

lemma freshD:
  assumes "fresh s"
  shows "fresh_tab (free_semcb s) (max_semid s) (\<lambda>c. semid c = 0) (semcb_table s)"
    "fresh_tab (free_flgcb s) (max_flgid s) (\<lambda>c. flgid c = 0) (flgcb_table s)"
    "fresh_tab (free_mbxcb s) (max_mbxid s) (\<lambda>c. mbxid c = 0) (mbxcb_table s)"
    "fresh_tab (free_mbfcb s) (max_mbfid s) (\<lambda>c. mbfid c = 0) (mbfcb_table s)"
    "fresh_tab (free_porcb s) (max_porid s) (\<lambda>c. porid c = 0) (porcb_table s)"
    "fresh_tab (free_mtxcb s) (max_mtxid s) (\<lambda>c. mtxid c = 0) (mtxcb_table s)"
    "fresh_tab (free_mplcb s) (max_mplid s) (\<lambda>c. mplid c = 0) (mplcb_table s)"
    "fresh_tab (free_mpfcb s) (max_mpfid s) (\<lambda>c. mpfid c = 0) (mpfcb_table s)"
    "fresh_tab (free_cyccb s) (max_cycid s) (\<lambda>c. cychdr c = NULL) (cyccb_table s)"
    "fresh_tab (free_almcb s) (max_almid s) (\<lambda>c. almhdr c = NULL) (almcb_table s)"
    "ssy_inv (\<lambda>_. []) s" "res_ok s" "timer_queue s = []" "clock_ok s"
  using assms unfolding fresh_def by blast+

text \<open>No task waits for anything, and tasks that exist have just been created or started.\<close>

definition quiet_tcb :: "ID \<Rightarrow> tcb \<Rightarrow> bool" where
  "quiet_tcb t c \<longleftrightarrow> (tstate c = TS_DORMANT \<or> tstate c = TS_READY) \<and> priority c = bpriority c \<and> bpriority c < NUM_PRI \<and>
     mtxlist c = None \<and> suscnt c = 0 \<and> wupcnt c = 0 \<and> get_tskid_rdvno (wrdvno c) = t"

definition quiet :: "'a kst_scheme \<Rightarrow> bool" where
  "quiet s \<longleftrightarrow> (\<forall>k i. que s (WaitQ k i) = []) \<and> finite {t. tstate (tcbs s t) \<noteq> TS_NONEXIST} \<and>
     (\<forall>t. tstate (tcbs s t) \<noteq> TS_NONEXIST \<longrightarrow> quiet_tcb t (tcbs s t))"

lemma quietD:
  assumes "quiet s"
  shows "que s (WaitQ k i) = []" "finite {t. tstate (tcbs s t) \<noteq> TS_NONEXIST}"
    "tstate (tcbs s t) \<noteq> TS_NONEXIST \<Longrightarrow> quiet_tcb t (tcbs s t)" "\<not> in_wait (tstate (tcbs s t))"
    "task_alive (tstate (tcbs s t)) \<Longrightarrow> tstate (tcbs s t) = TS_READY"
proof -
  show "que s (WaitQ k i) = []" "finite {t. tstate (tcbs s t) \<noteq> TS_NONEXIST}"
    "tstate (tcbs s t) \<noteq> TS_NONEXIST \<Longrightarrow> quiet_tcb t (tcbs s t)"
    using assms by (simp_all add: quiet_def)
  have "tstate (tcbs s t) = TS_NONEXIST \<or> tstate (tcbs s t) = TS_DORMANT \<or> tstate (tcbs s t) = TS_READY"
    using assms unfolding quiet_def quiet_tcb_def by blast
  then show "\<not> in_wait (tstate (tcbs s t))" "task_alive (tstate (tcbs s t)) \<Longrightarrow> tstate (tcbs s t) = TS_READY"
    by (auto simp: in_wait_iff task_alive_iff)
qed

lemma quiet_mtx_ok:
  fixes s :: "'a mtx_st_scheme"
  assumes k: "kinv s" and q: "quiet s" and f: "fresh_tab (free_mtxcb s) (max_mtxid s) (\<lambda>c. mtxid c = 0) (mtxcb_table s)"
  shows "mtx_ok s"
proof -
  note qd = quietD [OF q] and fd = fresh_tabD [OF f]
  have no: "\<not> mtx_exists i s" for i using fd(3) [of i] by (auto simp: mtx_exists_def)
  have alive: "quiet_tcb t (tcbs s t)" if "task_alive (tstate (tcbs s t))" for t
    using that by (intro qd(3)) (auto simp: task_alive_iff)
  show ?thesis
  proof (rule mtx_okI [OF k])
    show "mtx_struct {} s"
      unfolding mtx_struct_def using fd qd(1,4) no alive
      by (auto simp: holds_def quiet_tcb_def intro!: exI [of _ "[]"])
    show "priority (tcbs s t) = eff_pri {} no_extra t s" if "task_alive (tstate (tcbs s t))" for t
      using alive [OF that] no by (simp add: eff_pri_def boosts_def holds_def quiet_tcb_def)
  qed (rule qd(2))
qed

lemma young_system_ok:
  assumes l: "life_ok s" and q: "quiet s" and f: "fresh s"
  shows "system_ok s"
proof -
  note ld = life_okD [OF l] and qd = quietD [OF q]
  note fd = freshD [OF f]
  have "sync_tcb (tcbs s t)" if "task_alive (tstate (tcbs s t))" for t
    using qd(3) [of t] qd(5) [OF that] by (simp add: sync_tcb_def quiet_tcb_def INT_MAX_def)
  then have sync: "sync_ok s" using ld(1,2) by (simp add: sync_ok_def)
  have sem: "sem_ok s" using fresh_tabD [OF fd(1)] ld(1) qd(1) by (auto simp: sem_ok_def sem_exists_def)
  have flg: "flg_ok s" using fresh_tabD [OF fd(2)] ld(1) qd(1) by (auto simp: flg_ok_def flg_exists_def)
  have mbx: "mbx_ok s"
    using fresh_tabD [OF fd(3)] ld(1) qd(1) by (auto simp: mbx_ok_def mbx_pool_ok_def mbx_disjoint_def mbx_exists_def)
  have mbf: "mbf_ok s" using fresh_tabD [OF fd(4)] ld(1) qd(1) by (auto simp: mbf_ok_def mbf_exists_def)
  have por: "por_ok s" using fresh_tabD [OF fd(5)] ld(1) qd(1) by (auto simp: por_ok_def por_exists_def)
  have rdv: "rdv_inv s" using qd(3,4) by (auto simp: rdv_inv_def rdv_waits_def quiet_tcb_def)
  have mtx: "mtx_ok s" by (rule quiet_mtx_ok [OF ld(1) q fd(6)])
  have mpl: "mpl_ok s" using fresh_tabD [OF fd(7)] ld(1) qd(1) by (auto simp: mpl_ok_def mpl_exists_def)
  have mpf: "mpf_ok s" using fresh_tabD [OF fd(8)] ld(1) qd(1) by (auto simp: mpf_ok_def mpf_exists_def)
  have cyc: "\<not> cyc_exists i s" for i using fresh_tabD(3) [OF fd(9)] by (auto simp: cyc_exists_def)
  have alm: "\<not> alm_exists i s" for i using fresh_tabD(3) [OF fd(10)] by (auto simp: alm_exists_def)
  have ev: "\<not> armed ev s" if "is_handler ev" for ev using that cyc alm by (cases ev) auto
  have hs: "handlers_ok s"
    using fresh_tabD(1,2) [OF fd(9)] fresh_tabD(1,2) [OF fd(10)] cyc unfolding handlers_ok_def by blast
  have tim: "tim_ok s"
    using mtx hs fd(13,14) ev cyc by (auto simp: tim_ok_x_def tmq_ok_def events_ok_def phases_ok_def)
  show ?thesis
    using l sync sem flg mbx mbf por rdv mtx mpl mpf tim fd(11,12) by (auto simp: system_ok_def por_inv_def)
qed

section \<open>The start with a valid configuration\<close>

definition id_tags :: "string list" where
  "id_tags = [''TMaxTskId'', ''TMaxSemId'', ''TMaxFlgId'', ''TMaxMbxId'', ''TMaxMbfId'', ''TMaxPorId'', ''TMaxMtxId'',
     ''TMaxMplId'', ''TMaxMpfId'', ''TMaxCycId'', ''TMaxAlmId'', ''TMaxSsyId'', ''TMaxSsyPri'', ''TMaxResId'']"

text \<open>The values the initialisers accept; the lower halves of rendezvous numbers have room for the
  identifiers of tasks.\<close>

definition cfn_ok :: "cfn \<Rightarrow> bool" where
  "cfn_ok cfn \<longleftrightarrow>
     list_all (\<lambda>tag. 1 \<le> fst (cfn1 cfn tag) \<and> 1 \<le> snd (cfn1 cfn tag)) id_tags \<and>
     snd (cfn1 cfn ''TMaxTskId'') \<le> 0xFFFF \<and>
     1 \<le> fst (cfn1 cfn ''TSysStkSz'') \<and> MIN_SYS_STACK_SIZE \<le> snd (cfn1 cfn ''TSysStkSz'') \<and>
     1 \<le> fst (cfn1 cfn ''TSVCLimit'') \<and> 0 \<le> snd (cfn1 cfn ''TSVCLimit'') \<and> snd (cfn1 cfn ''TSVCLimit'') \<le> 3 \<and>
     1 \<le> fst (cfn ''TTimPeriod'') \<and> 10 \<le> cfn_period (cfn ''TTimPeriod'') \<and> cfn_period (cfn ''TTimPeriod'') \<le> 50000"

text \<open>Before the start nothing is in a queue. What the memory of the tables holds is arbitrary; the model
  has control blocks for all integers, and those outside of the table do not count.\<close>

definition cold :: "cfn \<Rightarrow> 'a kst_scheme \<Rightarrow> bool" where
  "cold cfn s \<longleftrightarrow> (\<forall>q. que s q = []) \<and>
     (\<forall>t. \<not> chk_id (snd (cfn1 cfn ''TMaxTskId'')) t \<longrightarrow> tstate (tcbs s t) = TS_NONEXIST) \<and> uint (hw_usec s) < 2 ^ 60"

lemma subsystem_initialize_eq:
  assumes "1 \<le> n" "1 \<le> p"
  shows "subsystem_initialize (Some n) (Some p) True True s = (E_OK, s\<lparr>max_ssyid := n, max_ssypri := p,
    ssycb_table := reset_ids (ssycb_table s) n (no_ssycb (no_support s)),
    ssypri_table := (\<lambda>j. if 0 \<le> j \<and> j < p then None else ssypri_table s j)\<rparr>)"
  using assms by (simp add: subsystem_initialize_def reset_ids_def cong: if_cong)

lemma cfn_opt_Some: "1 \<le> fst (cfn1 cfn tag) \<Longrightarrow> cfn_opt cfn tag = Some (snd (cfn1 cfn tag))"
  by (simp add: cfn1_def cfn_opt_def split: prod.splits)

lemma cfn_okD:
  assumes "cfn_ok cfn"
  shows "tag \<in> set id_tags \<Longrightarrow> 1 \<le> fst (cfn1 cfn tag)" "tag \<in> set id_tags \<Longrightarrow> 1 \<le> snd (cfn1 cfn tag)"
    "snd (cfn1 cfn ''TMaxTskId'') \<le> 0xFFFF" "1 \<le> fst (cfn1 cfn ''TSysStkSz'')"
    "MIN_SYS_STACK_SIZE \<le> snd (cfn1 cfn ''TSysStkSz'')" "1 \<le> fst (cfn1 cfn ''TSVCLimit'')"
    "0 \<le> snd (cfn1 cfn ''TSVCLimit'')" "snd (cfn1 cfn ''TSVCLimit'') \<le> 3"
    "1 \<le> fst (cfn ''TTimPeriod'')" "10 \<le> cfn_period (cfn ''TTimPeriod'')" "cfn_period (cfn ''TTimPeriod'') \<le> 50000"
  using assms unfolding cfn_ok_def list_all_iff by blast+

lemma init_module_ok: "initfunc s = (E_OK, s') \<Longrightarrow> init_module name initfunc (failed, s) = (failed, s')"
  by (simp add: init_module_def)

lemma task_initialize_sz_eq:
  assumes "cfn_ok cfn"
  shows "task_initialize_sz cfn True s = (E_OK, (ready_queue_initialize s)\<lparr>max_tskid := snd (cfn1 cfn ''TMaxTskId''),
    ctxtsk := None, schedtsk := None, dispatch_disabled := 0,
    tcbs := boot_tcbs (tcbs s) (snd (cfn1 cfn ''TMaxTskId'')),
    que := (que (ready_queue_initialize s))(FreeTcb := [1..snd (cfn1 cfn ''TMaxTskId'')]),
    default_sstksz := snd (cfn1 cfn ''TSysStkSz'')\<rparr>)"
proof -
  have a: "1 \<le> fst (cfn1 cfn ''TMaxTskId'')" "1 \<le> snd (cfn1 cfn ''TMaxTskId'')"
    by (rule cfn_okD [OF assms]; simp add: id_tags_def)+
  show ?thesis
    using a cfn_okD(4) [OF assms] by (simp add: task_initialize_sz_def task_initialize_eq [OF a cfn_okD(4-8) [OF assms]] Let_def)
qed

lemma resource_group_initialize_eq:
  assumes "1 \<le> n"
  obtains bm where "\<And>s. resource_group_initialize (Some n) True rest s = (E_OK, s\<lparr>max_resid := n, resid_bitmap := bm\<rparr>)"
    "nat n \<le> 32 * length bm" "BitTest bm (nat (resid_to_index SYS_RESID))"
proof -
  define sz where "sz = (nat n + 31) div 32"
  define bm where "bm = map (le_word (\<lambda>k. if k < sz then 0 else rest k)) [0..<sz]"
  have l: "length bm = sz" by (simp add: bm_def)
  have n: "nat n \<le> 32 * sz" "0 < sz" using assms by (auto simp: sz_def)
  have "nat (resid_to_index SYS_RESID) < 32 * length bm" using n l by (simp add: resid_to_index_def SYS_RESID_def)
  then have "BitTest (BitSet bm (nat (resid_to_index SYS_RESID))) (nat (resid_to_index SYS_RESID))"
    using BitTest_BitSet by blast
  then show thesis
    using assms n(1) l by (intro that [of "BitSet bm (nat (resid_to_index SYS_RESID))"])
      (simp_all add: resource_group_initialize_def Let_def bm_def sz_def)
qed

lemma get_tskid_boot: "1 \<le> t \<Longrightarrow> t \<le> 0xFFFF \<Longrightarrow> get_tskid_rdvno (word_of_int t) = t"
proof -
  assume t: "1 \<le> t" "t \<le> 0xFFFF"
  have "(0xFFFF :: 32 word) = mask 16" by (simp add: mask_eq_exp_minus_1)
  then have "word_of_int t AND (0xFFFF :: 32 word) = take_bit 16 (word_of_int t)" by (simp only: take_bit_eq_mask)
  then show ?thesis
    using t by (simp add: get_tskid_rdvno_def RDVNO_SHIFT_def unsigned_take_bit_eq uint_word_of_int take_bit_int_eq_self)
qed

text \<open>Every module is initialised, and the tables and queues are empty.\<close>

lemma init_modules_young:
  fixes s :: "'a ssy_st_scheme"
  assumes c: "cfn_ok cfn" and m: "\<forall>name k. mem name k" and s: "cold cfn s"
  obtains s' where "init_modules cfn mem rest s = ([], s')" "life_ok s'" "quiet s'" "fresh s'"
    "que s' FreeTcb = [1..snd (cfn1 cfn ''TMaxTskId'')]" "\<And>t. tstate (tcbs s' t) = TS_NONEXIST" "ctxtsk s' = None"
    "\<And>t. chk_id (max_tskid s') t \<Longrightarrow> get_tskid_rdvno (wrdvno (tcbs s' t)) = t"
    "default_sstksz s' = snd (cfn1 cfn ''TSysStkSz'')" "max_resid s' = snd (cfn1 cfn ''TMaxResId'')"
proof -
  note cd = cfn_okD [OF c]
  have tag: "1 \<le> fst (cfn1 cfn t)" "1 \<le> snd (cfn1 cfn t)" if "list_ex (\<lambda>u. u = t) id_tags" for t
    using that cd(1,2) [of t] by (auto simp: list_ex_iff)
  obtain bm where bm: "\<And>s :: 'a ssy_st_scheme. resource_group_initialize (Some (snd (cfn1 cfn ''TMaxResId''))) True rest s =
      (E_OK, s\<lparr>max_resid := snd (cfn1 cfn ''TMaxResId''), resid_bitmap := bm\<rparr>)"
    "nat (snd (cfn1 cfn ''TMaxResId'')) \<le> 32 * length bm" "BitTest bm (nat (resid_to_index SYS_RESID))"
    using resource_group_initialize_eq [OF tag(2) [of "''TMaxResId''"], of rest] by (auto simp: id_tags_def)
  note eqs = task_initialize_sz_eq [OF c] semaphore_initialize_eq eventflag_initialize_eq mailbox_initialize_eq
    messagebuffer_initialize_eq rendezvous_initialize_eq mutex_initialize_eq memorypool_initialize_eq
    fix_memorypool_initialize_eq cyclichandler_initialize_eq alarmhandler_initialize_eq subsystem_initialize_eq
    bm(1) timer_initialize_eq [OF cd(9-11)]
  define s' where "s' = snd (init_modules cfn mem rest s)"
  have e: "init_modules cfn mem rest s = ([], s')"
    unfolding s'_def init_modules_def Let_def
    by (simp add: init_module_def eqs m tag id_tags_def cfn_opt_Some)
  let ?n = "snd (cfn1 cfn ''TMaxTskId'')" and ?r = "ready_queue_initialize s"
  have sel: "que s' = (que ?r)(FreeTcb := [1..?n])" "tcbs s' = boot_tcbs (tcbs s) ?n" "max_tskid s' = ?n"
    "ctxtsk s' = None" "schedtsk s' = None" "klocktsk s' = klocktsk ?r" "top_priority s' = top_priority ?r"
    "bitmap s' = bitmap ?r" "default_sstksz s' = snd (cfn1 cfn ''TSysStkSz'')" "max_resid s' = snd (cfn1 cfn ''TMaxResId'')"
    "timer_queue s' = []" "current_time s' = 0" "hw_usec s' = hw_usec ?r" "resid_bitmap s' = bm"
    "max_ssyid s' = snd (cfn1 cfn ''TMaxSsyId'')" "max_ssypri s' = snd (cfn1 cfn ''TMaxSsyPri'')"
    "ssycb_table s' = reset_ids (ssycb_table ?r) (max_ssyid s') (no_ssycb (no_support s'))"
    "ssypri_table s' = (\<lambda>j. if 0 \<le> j \<and> j < max_ssypri s' then None else ssypri_table ?r j)"
    and tab: "fresh_tab (free_semcb s') (max_semid s') (\<lambda>c. semid c = 0) (semcb_table s')"
    "fresh_tab (free_flgcb s') (max_flgid s') (\<lambda>c. flgid c = 0) (flgcb_table s')"
    "fresh_tab (free_mbxcb s') (max_mbxid s') (\<lambda>c. mbxid c = 0) (mbxcb_table s')"
    "fresh_tab (free_mbfcb s') (max_mbfid s') (\<lambda>c. mbfid c = 0) (mbfcb_table s')"
    "fresh_tab (free_porcb s') (max_porid s') (\<lambda>c. porid c = 0) (porcb_table s')"
    "fresh_tab (free_mtxcb s') (max_mtxid s') (\<lambda>c. mtxid c = 0) (mtxcb_table s')"
    "fresh_tab (free_mplcb s') (max_mplid s') (\<lambda>c. mplid c = 0) (mplcb_table s')"
    "fresh_tab (free_mpfcb s') (max_mpfid s') (\<lambda>c. mpfid c = 0) (mpfcb_table s')"
    "fresh_tab (free_cyccb s') (max_cycid s') (\<lambda>c. cychdr c = NULL) (cyccb_table s')"
    "fresh_tab (free_almcb s') (max_almid s') (\<lambda>c. almhdr c = NULL) (almcb_table s')"
    unfolding s'_def init_modules_def Let_def
    by (simp_all add: init_module_def eqs m tag id_tags_def cfn_opt_Some fresh_tab_reset cong: if_cong)
  have empty: "que s q = []" for q using s by (simp add: cold_def)
  have nex: "tstate (tcbs s' t) = TS_NONEXIST" for t
    using s by (simp add: sel(2) boot_tcbs_def boot_tcb_def cold_def)
  have q: "que s' q = (if q = FreeTcb then [1..?n] else [])" for q
    by (cases q) (simp_all add: sel(1) ready_queue_initialize_def empty)
  have qok: "que_ok (que s')" by (auto simp: que_ok_def q)
  have r: "rdq_ok ?r" by (rule rdq_ok_initialize) (simp_all add: empty que_ok_def)
  have bits: "\<not> BitTest (bitmap s') p" if "p < NUM_PRI" for p
    using rdq_okD(3) [OF r that] that by (simp add: sel(8) ready_queue_initialize_def)
  have rdq: "rdq_ok s'"
    unfolding rdq_ok_def using qok bits rdq_okD(2) [OF r] by (simp add: q sel(7,8) ready_queue_initialize_def)
  have kinv: "kinv s'"
    unfolding kinv_x_def using rdq nex by (simp add: q sel(5,6) ready_queue_initialize_def)
  have top: "ready_queue_top s' = None"
    by (simp add: ready_queue_top_def sel(6,7) q ready_queue_initialize_def)
  have life: "life_ok s'"
    by (rule life_okI [OF kinv]) (use nex in \<open>auto simp: sched_ok_def sel top q chk_id_def ready_queue_initialize_def\<close>)
  have quiet: "quiet s'" using nex by (simp add: quiet_def q)
  have clk: "clock_ok s'" using s by (simp add: clock_ok_def sel(12,13) cold_def ready_queue_initialize_def)
  have ssy: "ssy_inv (\<lambda>_. []) s'"
    by (rule ssy_invI)
      (auto simp: sel(17,18) chk_ssypri_def ssypri_index_def reset_ids_def registered_def no_ssycb_def)
  have res: "res_ok s'" using bm(2,3) by (simp add: res_ok_def res_used_def sel)
  have "fresh s'" using tab ssy res clk by (simp add: fresh_def sel(11))
  moreover have "get_tskid_rdvno (wrdvno (tcbs s' t)) = t" if "chk_id (max_tskid s') t" for t
    using that cd(3) get_tskid_boot [of t] by (simp add: sel(2,3) boot_tcbs_def boot_tcb_def chk_id_def)
  ultimately show thesis using e life quiet nex by (intro that [of s']) (simp_all add: q sel(4,9,10))
qed

section \<open>The initial task\<close>

lemma tables_more:
  fixes s s' :: "'a ssy_st_scheme"
  assumes "kst.more s' = kst.more s"
  shows
    "semcb_table s' = semcb_table s" "free_semcb s' = free_semcb s" "max_semid s' = max_semid s"
    "flgcb_table s' = flgcb_table s" "free_flgcb s' = free_flgcb s" "max_flgid s' = max_flgid s"
    "mbxcb_table s' = mbxcb_table s" "free_mbxcb s' = free_mbxcb s" "max_mbxid s' = max_mbxid s"
    "mbfcb_table s' = mbfcb_table s" "free_mbfcb s' = free_mbfcb s" "max_mbfid s' = max_mbfid s"
    "porcb_table s' = porcb_table s" "free_porcb s' = free_porcb s" "max_porid s' = max_porid s"
    "mtxcb_table s' = mtxcb_table s" "free_mtxcb s' = free_mtxcb s" "max_mtxid s' = max_mtxid s"
    "mplcb_table s' = mplcb_table s" "free_mplcb s' = free_mplcb s" "max_mplid s' = max_mplid s"
    "mpfcb_table s' = mpfcb_table s" "free_mpfcb s' = free_mpfcb s" "max_mpfid s' = max_mpfid s"
    "cyccb_table s' = cyccb_table s" "free_cyccb s' = free_cyccb s" "max_cycid s' = max_cycid s"
    "almcb_table s' = almcb_table s" "free_almcb s' = free_almcb s" "max_almid s' = max_almid s"
    "max_resid s' = max_resid s" "default_sstksz s' = default_sstksz s" "ssycb_table s' = ssycb_table s"
    "ssypri_table s' = ssypri_table s" "max_ssyid s' = max_ssyid s" "max_ssypri s' = max_ssypri s"
    "no_support s' = no_support s" "resid_bitmap s' = resid_bitmap s"
  using assms by (cases s; cases s'; simp add: sem_st.defs flg_st.defs mbx_st.defs mbf_st.defs klk_st.defs mpf_st.defs
      mpl_st.defs por_st.defs mtx_st.defs tsk_st.defs tim_st.defs ssy_st.defs)+

lemma tables_init_tcb [simp]:
  fixes s :: "'a ssy_st_scheme"
  shows
    "semcb_table (init_tcb t pk a b s) = semcb_table s" "free_semcb (init_tcb t pk a b s) = free_semcb s"
    "max_semid (init_tcb t pk a b s) = max_semid s" "flgcb_table (init_tcb t pk a b s) = flgcb_table s"
    "free_flgcb (init_tcb t pk a b s) = free_flgcb s" "max_flgid (init_tcb t pk a b s) = max_flgid s"
    "mbxcb_table (init_tcb t pk a b s) = mbxcb_table s" "free_mbxcb (init_tcb t pk a b s) = free_mbxcb s"
    "max_mbxid (init_tcb t pk a b s) = max_mbxid s" "mbfcb_table (init_tcb t pk a b s) = mbfcb_table s"
    "free_mbfcb (init_tcb t pk a b s) = free_mbfcb s" "max_mbfid (init_tcb t pk a b s) = max_mbfid s"
    "porcb_table (init_tcb t pk a b s) = porcb_table s" "free_porcb (init_tcb t pk a b s) = free_porcb s"
    "max_porid (init_tcb t pk a b s) = max_porid s" "mtxcb_table (init_tcb t pk a b s) = mtxcb_table s"
    "free_mtxcb (init_tcb t pk a b s) = free_mtxcb s" "max_mtxid (init_tcb t pk a b s) = max_mtxid s"
    "mplcb_table (init_tcb t pk a b s) = mplcb_table s" "free_mplcb (init_tcb t pk a b s) = free_mplcb s"
    "max_mplid (init_tcb t pk a b s) = max_mplid s" "mpfcb_table (init_tcb t pk a b s) = mpfcb_table s"
    "free_mpfcb (init_tcb t pk a b s) = free_mpfcb s" "max_mpfid (init_tcb t pk a b s) = max_mpfid s"
    "cyccb_table (init_tcb t pk a b s) = cyccb_table s" "free_cyccb (init_tcb t pk a b s) = free_cyccb s"
    "max_cycid (init_tcb t pk a b s) = max_cycid s" "almcb_table (init_tcb t pk a b s) = almcb_table s"
    "free_almcb (init_tcb t pk a b s) = free_almcb s" "max_almid (init_tcb t pk a b s) = max_almid s"
    "max_resid (init_tcb t pk a b s) = max_resid s" "default_sstksz (init_tcb t pk a b s) = default_sstksz s"
    "ssycb_table (init_tcb t pk a b s) = ssycb_table s" "ssypri_table (init_tcb t pk a b s) = ssypri_table s"
    "max_ssyid (init_tcb t pk a b s) = max_ssyid s" "max_ssypri (init_tcb t pk a b s) = max_ssypri s"
    "no_support (init_tcb t pk a b s) = no_support s" "resid_bitmap (init_tcb t pk a b s) = resid_bitmap s"
    "timer_queue (init_tcb t pk a b s) = timer_queue s" "current_time (init_tcb t pk a b s) = current_time s"
    "hw_usec (init_tcb t pk a b s) = hw_usec s" "ctxtsk (init_tcb t pk a b s) = ctxtsk s"
    "wrdvno (tcbs (init_tcb t pk a b s) u) = wrdvno (tcbs s u)"
  by (simp_all add: init_tcb_def Let_def split_beta tskcb_upd_def tcb_upd_def)

lemma fresh_cong:
  fixes s s' :: "'a ssy_st_scheme"
  assumes
    "semcb_table s' = semcb_table s" "free_semcb s' = free_semcb s" "max_semid s' = max_semid s"
    "flgcb_table s' = flgcb_table s" "free_flgcb s' = free_flgcb s" "max_flgid s' = max_flgid s"
    "mbxcb_table s' = mbxcb_table s" "free_mbxcb s' = free_mbxcb s" "max_mbxid s' = max_mbxid s"
    "mbfcb_table s' = mbfcb_table s" "free_mbfcb s' = free_mbfcb s" "max_mbfid s' = max_mbfid s"
    "porcb_table s' = porcb_table s" "free_porcb s' = free_porcb s" "max_porid s' = max_porid s"
    "mtxcb_table s' = mtxcb_table s" "free_mtxcb s' = free_mtxcb s" "max_mtxid s' = max_mtxid s"
    "mplcb_table s' = mplcb_table s" "free_mplcb s' = free_mplcb s" "max_mplid s' = max_mplid s"
    "mpfcb_table s' = mpfcb_table s" "free_mpfcb s' = free_mpfcb s" "max_mpfid s' = max_mpfid s"
    "cyccb_table s' = cyccb_table s" "free_cyccb s' = free_cyccb s" "max_cycid s' = max_cycid s"
    "almcb_table s' = almcb_table s" "free_almcb s' = free_almcb s" "max_almid s' = max_almid s"
    "max_resid s' = max_resid s" "default_sstksz s' = default_sstksz s" "ssycb_table s' = ssycb_table s"
    "ssypri_table s' = ssypri_table s" "max_ssyid s' = max_ssyid s" "max_ssypri s' = max_ssypri s"
    "no_support s' = no_support s" "resid_bitmap s' = resid_bitmap s"
    "timer_queue s' = timer_queue s" "current_time s' = current_time s" "hw_usec s' = hw_usec s"
  shows "fresh s' = fresh s"
  unfolding fresh_def ssy_inv_def res_ok_def res_used_def clock_ok_def registered_def chk_ssypri_def assms ..

lemma fresh_more:
  fixes s s' :: "'a ssy_st_scheme"
  assumes "kst.more s' = kst.more s" "timer_queue s' = timer_queue s" "current_time s' = current_time s" "hw_usec s' = hw_usec s"
  shows "fresh s' = fresh s"
  by (rule fresh_cong) (rule tables_more [OF assms(1)] assms(2-4))+

lemma fresh_init_tcb: "fresh (init_tcb t pk a b s) = fresh s"
  by (rule fresh_cong) simp_all

lemma fresh_kernel_ops:
  fixes s :: "'a ssy_st_scheme"
  shows "fresh (que_remove t s) = fresh s" "fresh (make_dormant t s) = fresh s" "fresh (make_ready t s) = fresh s"
    "fresh (setup_stacd t c s) = fresh s" "fresh (force_dispatch s) = fresh s"
proof -
  show "fresh (que_remove t s) = fresh s" by (rule fresh_more) (simp_all add: que_remove_def)
  show "fresh (make_dormant t s) = fresh s" by (rule fresh_more) (simp_all add: make_dormant_def tcb_upd_def)
  show "fresh (make_ready t s) = fresh s" by (rule fresh_more) simp_all
  show "fresh (setup_stacd t c s) = fresh s" by (rule fresh_cong) (simp_all add: setup_stacd_def tskcb_upd_def)
  show "fresh (force_dispatch s) = fresh s" by (rule fresh_more) (simp_all add: force_dispatch_def)
qed

lemma only_ready:
  assumes k: "kinv s" and sc: "sched_ok s" and r: "tstate (tcbs s t) = TS_READY" "\<not> klockwait (tcbs s t)"
    and o: "\<And>u. tstate (tcbs s u) = TS_READY \<Longrightarrow> u = t"
  shows "schedtsk s = Some t"
proof -
  note kd = kinv_xD [OF k]
  have m: "t \<in> set (que s (Rdy (priority (tcbs s t))))" using kd(4) [of t] r by simp
  have p: "priority (tcbs s t) < NUM_PRI" using kd(8) [of t] r(1) by simp
  have "top_priority s < NUM_PRI"
    using kd(1) m p unfolding rdq_ok_def by (metis emptyE list.set(1) not_le_imp_less order_less_le_trans)
  then obtain v vs where "que s (Rdy (top_priority s)) = v # vs"
    using rdq_okD(7) [OF kd(1)] by (meson neq_Nil_conv)
  then have "ready_queue_top s = Some v"
    using sc \<open>top_priority s < NUM_PRI\<close> by (simp add: ready_queue_top_def sched_ok_def)
  then obtain u where u: "schedtsk s = Some u" using sc by (auto simp: sched_ok_def)
  then have "u \<in> set (que s (Rdy (priority (tcbs s u))))" using k by (simp add: kinv_x_def)
  then show ?thesis using kd(3) o u by simp
qed

lemma start_initial_task:
  fixes s :: "'a ssy_st_scheme"
  assumes l: "life_ok s" and q: "quiet s" and f: "fresh s" and h: "que s FreeTcb = t # ts"
    and ne: "\<And>u. tstate (tcbs s u) = TS_NONEXIST" and c: "ctxtsk s = None"
    and w: "get_tskid_rdvno (wrdvno (tcbs s t)) = t"
    and pk: "ctsk_error pk s = E_OK" and al: "\<forall>n a. sa n a \<noteq> None" "\<forall>n a. ua n a \<noteq> None"
  obtains s' where "init_task_startup sa ua pk (failed, s) = (failed, s')" "life_ok s'" "quiet s'" "fresh s'"
    "schedtsk s' = Some t" "tstate (tcbs s' t) = TS_READY" "\<And>u. u \<noteq> t \<Longrightarrow> tstate (tcbs s' u) = TS_NONEXIST"
proof -
  obtain ssz usz where z: "stack_sizes pk (default_sstksz s) = (ssz, usz)" by fastforce
  obtain ss where ss: "sa (word_of_int ssz) TA_RNG0 = Some ss" using al(1) by blast
  obtain us where us: "(if usz > 0 then ua (word_of_int usz) (ct_tskatr pk) else Some NULL) = Some us" using al(2) by (cases "usz > 0") auto
  define s1 where "s1 = make_dormant t (init_tcb t pk us ss (que_remove t s))"
  define s2 where "s2 = make_ready t (setup_stacd t 0 s1)"
  have cre: "tk_cre_tsk sa ua pk s = (t, s1)"
    by (simp add: tk_cre_tsk_def pk z ss us h que_remove_next_def s1_def)
  have id: "chk_id (max_tskid s) t" using life_okD(3) [OF l, of t] h by simp
  have l1: "life_ok s1" using tk_cre_tsk_ok [OF l, of sa ua pk] cre by simp
  have t1: "tstate (tcbs s1 t) = TS_DORMANT" by (simp add: s1_def)
  have c1: "ctxtsk s1 = None" "max_tskid s1 = max_tskid s" using c by (simp_all add: s1_def make_dormant_def)
  have "check_other t s1 = E_OK" using id by (simp add: check_other_def check_tskid_def in_indp_def c1)
  then have sta: "tk_sta_tsk t 0 s1 = (E_OK, s2)" using t1 by (simp add: tk_sta_tsk_def s2_def)
  have l2: "life_ok s2" using tk_sta_tsk_ok [OF l1, of t 0] sta by simp
  have e: "init_task_startup sa ua pk (failed, s) = (failed, s2)"
    using id by (simp add: init_task_startup_def cre sta chk_id_def E_OK_def)
  note dq = dormant_unqueued [OF life_okD(1) [OF l1] t1]
  have k: "kinv_x {} (setup_stacd t 0 s1)" and u: "unqueued t (setup_stacd t 0 s1)"
    using life_okD(1) [OF l1] dq by simp_all
  have wq: "que s2 (WaitQ k i) = []" for k i
    using make_ready_que [OF k u, of "WaitQ k i"] quietD(1) [OF q]
    by (simp add: s2_def s1_def que_que_remove)
  have tc: "\<exists>v. tcbs s2 u = (if u = t then (tcbs s1 t)\<lparr>tstate := TS_READY, slicecnt := v\<rparr> else (tcbs s1 u)\<lparr>slicecnt := v\<rparr>)" for u
    using make_ready_tcbs [of t "setup_stacd t 0 s1" u] unfolding s2_def setup_stacd_sel(3) .
  have oth: "tstate (tcbs s2 u) = TS_NONEXIST" if "u \<noteq> t" for u
    using tc [of u] that ne [of u] by (auto simp: s1_def)
  have me: "quiet_tcb t (tcbs s2 t)" "tstate (tcbs s2 t) = TS_READY" "\<not> klockwait (tcbs s2 t)"
    using tc [of t] w pk by (auto simp: s1_def quiet_tcb_def make_dormant_def intro!: int_priority_bound ctsk_error_pri)
  have "quiet_tcb u (tcbs s2 u)" if "tstate (tcbs s2 u) \<noteq> TS_NONEXIST" for u
    using that me(1) oth by (cases "u = t") auto
  moreover have "finite {u. tstate (tcbs s2 u) \<noteq> TS_NONEXIST}"
    by (rule finite_subset [of _ "{t}"]) (use oth in auto)
  ultimately have q2: "quiet s2" using wq by (simp add: quiet_def)
  have "fresh s1" using f by (simp add: s1_def fresh_kernel_ops fresh_init_tcb)
  then have f2: "fresh s2" by (simp add: s2_def fresh_kernel_ops)
  have "schedtsk s2 = Some t"
    by (rule only_ready [OF life_okD(1,2) [OF l2] me(2,3)]) (use oth in force)
  then show thesis using e l2 q2 f2 me(2) oth by (intro that [of s2]) simp_all
qed

text \<open>The start of the kernel.\<close>

lemma force_dispatch_quiet: "quiet (force_dispatch s) = quiet s"
  by (simp add: quiet_def force_dispatch_def)

lemma force_dispatch_life: "life_ok (force_dispatch s) = life_ok s"
  by (simp add: life_ok_def force_dispatch_def kinv_x_def rdq_ok_def sched_ok_def ready_queue_top_def split: option.split)

lemma t_kernel_main_starts:
  fixes s :: "'a ssy_st_scheme"
  assumes c: "cfn_ok cfn" and m: "\<forall>name k. mem name k" and s: "cold cfn s"
    and pk: "ctsk_error pk (snd (init_modules cfn mem rest s)) = E_OK"
    and al: "\<forall>n a. sa n a \<noteq> None" "\<forall>n a. ua n a \<noteq> None"
  shows "\<exists>s'. t_kernel_main cfn mem rest sa ua pk s = ([], s') \<and> system_ok s' \<and> ctxtsk s' = Some 1 \<and>
    tstate (tcbs s' 1) = TS_READY \<and> (\<forall>u. u \<noteq> 1 \<longrightarrow> tstate (tcbs s' u) = TS_NONEXIST)"
proof -
  let ?n = "snd (cfn1 cfn ''TMaxTskId'')"
  obtain s1 where s1: "init_modules cfn mem rest s = ([], s1)" "life_ok s1" "quiet s1" "fresh s1" "que s1 FreeTcb = [1..?n]"
    "\<And>t. tstate (tcbs s1 t) = TS_NONEXIST" "ctxtsk s1 = None"
    "\<And>t. chk_id (max_tskid s1) t \<Longrightarrow> get_tskid_rdvno (wrdvno (tcbs s1 t)) = t"
    by (rule init_modules_young [OF c m s, where rest = rest]) (rule that)
  have "1 \<le> ?n" using cfn_okD(2) [OF c, of "''TMaxTskId''"] by (simp add: id_tags_def)
  then have h: "que s1 FreeTcb = 1 # [2..?n]" using s1(5) by (simp add: upto_rec1 [of 1 ?n])
  then have "chk_id (max_tskid s1) 1" using life_okD(3) [OF s1(2), of 1] by simp
  then have w: "get_tskid_rdvno (wrdvno (tcbs s1 1)) = 1" by (rule s1(8))
  have pk1: "ctsk_error pk s1 = E_OK" using pk s1(1) by simp
  obtain s2 where s2: "init_task_startup sa ua pk ([], s1) = ([], s2)" "life_ok s2" "quiet s2" "fresh s2"
    "schedtsk s2 = Some 1" "tstate (tcbs s2 1) = TS_READY" "\<And>u. u \<noteq> 1 \<Longrightarrow> tstate (tcbs s2 u) = TS_NONEXIST"
    by (rule start_initial_task [OF s1(2-4) h s1(6,7) w pk1 al, where failed = "[]"]) (rule that)
  have "system_ok (force_dispatch s2)"
    by (rule young_system_ok) (simp_all add: force_dispatch_quiet force_dispatch_life fresh_kernel_ops s2)
  then show ?thesis
    using s1(1) s2 by (simp add: t_kernel_main_def force_dispatch_def)
qed

text \<open>With the \<open>_tk_get_cfn\<close> of the ports no module is initialised.\<close>

lemma nothing_starts:
  "fst (init_modules tk_get_cfn mem rest s) =
    [''task'', ''semaphore'', ''eventflag'', ''mailbox'', ''messagebuffer'', ''rendezvous'', ''mutex'', ''memorypool'',
     ''fix_memorypool'', ''cyclichandler'', ''alarmhandler'', ''subsystem'', ''resource_group'', ''timer'']"
  by (simp add: init_modules_def Let_def init_module_def tk_get_cfn_def cfn1_def cfn_opt_def task_initialize_sz_def
      task_initialize_def semaphore_initialize_def eventflag_initialize_def mailbox_initialize_def
      messagebuffer_initialize_def rendezvous_initialize_def mutex_initialize_def memorypool_initialize_def
      fix_memorypool_initialize_def cyclichandler_initialize_def alarmhandler_initialize_def subsystem_initialize_def
      resource_group_initialize_def timer_initialize_def MIN_TIMER_PERIOD_def E_SYS_def E_OK_def ERCD_def)

end
