(* ===== verification/B_Types.thy ===== *)
theory B_Types
  imports Prelude
begin

text \<open>
  What the managers of the B-system share (\<open>include/btron/types.h\<close>, \<open>error.h\<close>): their error codes,
  which are not those of the kernel, 16-bit coordinates, and the tables of fixed size in which they
  look for a free or a matching entry.
\<close>

section \<open>Error codes\<close>

definition ER_OK :: ER where "ER_OK = 0"
definition ER_ADR :: ER where "ER_ADR = -1"
definition ER_NOSPC :: ER where "ER_NOSPC = -11"
definition ER_DID :: ER where "ER_DID = -14"
definition ER_FD :: ER where "ER_FD = -19"
definition ER_PAR :: ER where "ER_PAR = -33"
definition ER_ID :: ER where "ER_ID = -35"
definition ER_NOEXS :: ER where "ER_NOEXS = -52"
definition ER_BUSY :: ER where "ER_BUSY = -65"
definition ER_TMOUT :: ER where "ER_TMOUT = -69"

lemmas ER_defs = ER_OK_def ER_ADR_def ER_NOSPC_def ER_DID_def ER_FD_def ER_PAR_def ER_ID_def
  ER_NOEXS_def ER_BUSY_def ER_TMOUT_def

lemma ER_not_ok [simp]:
  "ER_ADR \<noteq> ER_OK" "ER_NOSPC \<noteq> ER_OK" "ER_DID \<noteq> ER_OK" "ER_FD \<noteq> ER_OK" "ER_PAR \<noteq> ER_OK"
  "ER_ID \<noteq> ER_OK" "ER_NOEXS \<noteq> ER_OK" "ER_BUSY \<noteq> ER_OK" "ER_TMOUT \<noteq> ER_OK"
  by (simp_all add: ER_defs)

section \<open>Coordinates\<close>

text \<open>A value of type \<open>H\<close> is an integer of 16 bits; \<open>to_H\<close> is the conversion on assignment.\<close>

definition to_H :: "int \<Rightarrow> int" where
  "to_H i = signed_take_bit 15 i"

lemma to_H_id [simp]: "- 32768 \<le> i \<Longrightarrow> i < 32768 \<Longrightarrow> to_H i = i"
  by (simp add: to_H_def signed_take_bit_int_eq_self)

lemma to_H_range: "- 32768 \<le> to_H i" "to_H i < 32768"
  using signed_take_bit_int_greater_eq_minus_exp [of 15 i] signed_take_bit_int_less_exp [of 15 i]
  by (simp_all add: to_H_def)

record PNT =
  px :: int
  py :: int

record RECT =
  r_left :: int
  r_top :: int
  r_right :: int
  r_bottom :: int

section \<open>Tables\<close>

text \<open>The loop \<open>for (i = a; i < MAX; i++) if (P(table[i])) ...\<close> finds the first entry.\<close>

fun find_from :: "nat \<Rightarrow> ('a \<Rightarrow> bool) \<Rightarrow> 'a list \<Rightarrow> nat option" where
  "find_from i P [] = None"
| "find_from i P (x # xs) = (if P x then Some i else find_from (Suc i) P xs)"

definition find_slot :: "('a \<Rightarrow> bool) \<Rightarrow> 'a list \<Rightarrow> nat option" where
  "find_slot P xs = find_from 0 P xs"

lemma find_from_None: "find_from i P xs = None \<longleftrightarrow> (\<forall>x \<in> set xs. \<not> P x)"
  by (induction xs arbitrary: i) auto

lemma find_from_Some:
  "find_from i P xs = Some k \<Longrightarrow>
     i \<le> k \<and> k < i + length xs \<and> P (xs ! (k - i)) \<and> (\<forall>j < k - i. \<not> P (xs ! j))"
proof (induction xs arbitrary: i)
  case (Cons x xs)
  show ?case
  proof (cases "P x")
    case True
    then show ?thesis using Cons.prems by simp
  next
    case False
    have k: "Suc i \<le> k \<and> k < Suc i + length xs \<and> P (xs ! (k - Suc i)) \<and> (\<forall>j < k - Suc i. \<not> P (xs ! j))"
      using Cons.IH [of "Suc i"] Cons.prems False by simp
    then have "k - i = Suc (k - Suc i)" by linarith
    then show ?thesis using k False by (auto simp: less_Suc_eq_0_disj)
  qed
qed simp

lemma find_slot_None: "find_slot P xs = None \<longleftrightarrow> (\<forall>x \<in> set xs. \<not> P x)"
  by (simp add: find_slot_def find_from_None)

lemma find_slot_SomeD:
  assumes "find_slot P xs = Some k"
  shows "k < length xs" "P (xs ! k)" "j < k \<Longrightarrow> \<not> P (xs ! j)"
  using find_from_Some [of 0 P xs k] assms by (auto simp: find_slot_def)

end
