(* ===== verification/Kernel_Heap.thy ===== *)
theory Kernel_Heap
  imports B_Types
begin

text \<open>
  The heap of the kernel (\<open>libstr.c\<close>): \<open>Imalloc\<close>, \<open>Icalloc\<close> and \<open>Ifree\<close>. Blocks lie one behind the
  other in \<open>s_heap_pool\<close>, each with a header of 48 bytes and linked both ways; memory is taken from
  the first free block that is large enough, or from the end of the pool.

  Addresses are offsets in the pool, and \<open>size_t\<close> has 64 bits, with the wrap-around of its sums written
  out. It is shown that the blocks in use never overlap, whatever is got and freed, and that the pool
  is empty again when all are freed.
\<close>

section \<open>The code\<close>

record hblk =
  hb_size :: int
  hb_free :: bool
  hb_magic :: UINT
  hb_next :: "int option"
  hb_prev :: "int option"

record heap =
  hblks :: "int \<Rightarrow> hblk"
  heap_offset :: int
  heap_head :: "int option"

definition HEAP_MAGIC :: UINT where "HEAP_MAGIC = 0x48454150"
definition HDR :: int where "HDR = 48"

lemma HDR_pos: "0 < HDR" by (simp add: HDR_def)

text \<open>Arithmetic on \<open>size_t\<close>.\<close>

definition sz64 :: "int \<Rightarrow> int" where
  "sz64 n = n mod 2 ^ 64"

definition align16 :: "int \<Rightarrow> int" where
  "align16 n = sz64 (n + 15) div 16 * 16"

definition upd_blk :: "int \<Rightarrow> (hblk \<Rightarrow> hblk) \<Rightarrow> heap \<Rightarrow> heap" where
  "upd_blk b f h = h\<lparr>hblks := (hblks h)(b := f (hblks h b))\<rparr>"

text \<open>The search for the first block that fits, and for the last block.\<close>

partial_function (option) find_fit :: "int \<Rightarrow> int option \<Rightarrow> heap \<Rightarrow> int option option" where
  "find_fit req cur h =
     (case cur of
        None \<Rightarrow> Some None
      | Some c \<Rightarrow>
          if hb_magic (hblks h c) = HEAP_MAGIC \<and> hb_free (hblks h c) \<and> hb_size (hblks h c) \<ge> req then Some (Some c)
          else find_fit req (hb_next (hblks h c)) h)"

partial_function (option) last_blk :: "int \<Rightarrow> heap \<Rightarrow> int option" where
  "last_blk tail h = (case hb_next (hblks h tail) of None \<Rightarrow> Some tail | Some n \<Rightarrow> last_blk n h)"

definition set_prev :: "int option \<Rightarrow> int \<Rightarrow> heap \<Rightarrow> heap" where
  "set_prev b p h = (case b of None \<Rightarrow> h | Some n \<Rightarrow> upd_blk n (\<lambda>k. k\<lparr>hb_prev := Some p\<rparr>) h)"

definition split_blk :: "int \<Rightarrow> int \<Rightarrow> heap \<Rightarrow> heap" where
  "split_blk req c h =
     (let k = hblks h c; sp = c + HDR + req;
          h1 = upd_blk sp (\<lambda>_. \<lparr>hb_size = sz64 (hb_size k - req - HDR), hb_free = True, hb_magic = HEAP_MAGIC,
                 hb_next = hb_next k, hb_prev = Some c\<rparr>) h;
          h2 = set_prev (hb_next k) sp h1
      in upd_blk c (\<lambda>k. k\<lparr>hb_next := Some sp, hb_size := req\<rparr>) h2)"

definition take_blk :: "int \<Rightarrow> int \<Rightarrow> heap \<Rightarrow> heap" where
  "take_blk req c h =
     upd_blk c (\<lambda>k. k\<lparr>hb_free := False\<rparr>)
       (if hb_size (hblks h c) \<ge> sz64 (req + HDR + 16) then split_blk req c h else h)"

text \<open>A new block at the end of the pool of \<open>pool\<close> bytes.\<close>

definition bump_blk :: "int \<Rightarrow> int \<Rightarrow> heap \<Rightarrow> (int option \<times> heap) option" where
  "bump_blk pool req h =
     (let needed = align16 (sz64 (HDR + req))
      in if sz64 (heap_offset h + needed) > pool then Some (None, h)
         else
           (let b = heap_offset h;
                h1 = upd_blk b (\<lambda>_. \<lparr>hb_size = req, hb_free = False, hb_magic = HEAP_MAGIC, hb_next = None,
                       hb_prev = None\<rparr>) (h\<lparr>heap_offset := sz64 (heap_offset h + needed)\<rparr>)
            in case heap_head h1 of
                 None \<Rightarrow> Some (Some (b + HDR), h1\<lparr>heap_head := Some b\<rparr>)
               | Some first \<Rightarrow>
                   map_option (\<lambda>tail. (Some (b + HDR),
                     upd_blk b (\<lambda>k. k\<lparr>hb_prev := Some tail\<rparr>) (upd_blk tail (\<lambda>k. k\<lparr>hb_next := Some b\<rparr>) h1)))
                     (last_blk first h1)))"

definition Imalloc :: "int \<Rightarrow> int \<Rightarrow> heap \<Rightarrow> (int option \<times> heap) option" where
  "Imalloc pool sz h =
     (if sz = 0 then Some (None, h)
      else
        (let req = align16 sz
         in case find_fit req (heap_head h) h of
              None \<Rightarrow> None
            | Some (Some c) \<Rightarrow> Some (Some (c + HDR), take_blk req c h)
            | Some None \<Rightarrow> bump_blk pool req h))"

text \<open>\<open>Icalloc\<close>: what is zeroed is part of the result.\<close>

definition Icalloc :: "int \<Rightarrow> int \<Rightarrow> int \<Rightarrow> heap \<Rightarrow> ((int \<times> int) option \<times> heap) option" where
  "Icalloc pool nmemb sz h =
     (let total = sz64 (nmemb * sz)
      in map_option (\<lambda>(p, h1). (map_option (\<lambda>a. (a, total)) p, h1)) (Imalloc pool total h))"

text \<open>A block swallows the one behind it.\<close>

definition absorb :: "int \<Rightarrow> int \<Rightarrow> heap \<Rightarrow> heap" where
  "absorb b n h =
     (let k = hblks h n
      in set_prev (hb_next k) b
           (upd_blk b (\<lambda>c. c\<lparr>hb_size := sz64 (hb_size c + HDR + hb_size k), hb_next := hb_next k\<rparr>) h))"

definition free_with_magic :: "heap \<Rightarrow> int option \<Rightarrow> bool" where
  "free_with_magic h b = (case b of None \<Rightarrow> False | Some n \<Rightarrow> hb_free (hblks h n) \<and> hb_magic (hblks h n) = HEAP_MAGIC)"

definition shrink :: "int \<Rightarrow> heap \<Rightarrow> heap" where
  "shrink b h =
     (if hb_next (hblks h b) = None \<and> hb_free (hblks h b) then
        (case hb_prev (hblks h b) of
           Some p \<Rightarrow> upd_blk p (\<lambda>k. k\<lparr>hb_next := None\<rparr>) h
         | None \<Rightarrow> h\<lparr>heap_head := None\<rparr>)\<lparr>heap_offset := b\<rparr>
      else h)"

definition Ifree :: "int option \<Rightarrow> heap \<Rightarrow> heap" where
  "Ifree ptr h =
     (case ptr of
        None \<Rightarrow> h
      | Some p \<Rightarrow>
          (let b = p - HDR
           in if hb_magic (hblks h b) \<noteq> HEAP_MAGIC then h
              else
                (let h1 = upd_blk b (\<lambda>k. k\<lparr>hb_free := True\<rparr>) h;
                     nx = hb_next (hblks h1 b);
                     h2 = (if free_with_magic h1 nx then absorb b (the nx) h1 else h1);
                     pv = hb_prev (hblks h2 b)
                 in if free_with_magic h2 pv then shrink (the pv) (absorb (the pv) b h2) else shrink b h2)))"

section \<open>Segments\<close>

text \<open>\<open>hseg B p a xs n\<close>: from address \<open>a\<close> on there are blocks with sizes and flags \<open>xs\<close>; the first has \<open>p\<close>
  as the block before it and the last \<open>n\<close> as the block behind it.\<close>

type_synonym hlist = "(int \<times> bool) list"

fun hlen :: "hlist \<Rightarrow> int" where
  "hlen [] = 0"
| "hlen ((sz, fr) # xs) = HDR + sz + hlen xs"

fun hlast :: "int option \<Rightarrow> int \<Rightarrow> hlist \<Rightarrow> int option" where
  "hlast p a [] = p"
| "hlast p a ((sz, fr) # xs) = hlast (Some a) (a + HDR + sz) xs"

fun hseg :: "(int \<Rightarrow> hblk) \<Rightarrow> int option \<Rightarrow> int \<Rightarrow> hlist \<Rightarrow> int option \<Rightarrow> bool" where
  "hseg B p a [] n \<longleftrightarrow> True"
| "hseg B p a ((sz, fr) # xs) n \<longleftrightarrow>
     hb_size (B a) = sz \<and> hb_free (B a) = fr \<and> hb_magic (B a) = HEAP_MAGIC \<and> hb_prev (B a) = p \<and>
     hb_next (B a) = (if xs = [] then n else Some (a + HDR + sz)) \<and> hseg B (Some a) (a + HDR + sz) xs n"

definition sizes_ok :: "hlist \<Rightarrow> bool" where
  "sizes_ok xs \<longleftrightarrow> (\<forall>x \<in> set xs. 0 < fst x \<and> 16 dvd fst x)"

lemma sizes_ok_simps [simp]:
  "sizes_ok []" "sizes_ok ((sz, fr) # xs) \<longleftrightarrow> 0 < sz \<and> 16 dvd sz \<and> sizes_ok xs"
  "sizes_ok (xs @ ys) \<longleftrightarrow> sizes_ok xs \<and> sizes_ok ys"
  by (auto simp: sizes_ok_def)

lemma hlen_append [simp]: "hlen (xs @ ys) = hlen xs + hlen ys"
  by (induction xs rule: hlen.induct) auto

lemma hlen_nonneg: "sizes_ok xs \<Longrightarrow> 0 \<le> hlen xs"
  by (induction xs rule: hlen.induct) (auto simp: HDR_def)

lemma hlen_pos: "sizes_ok xs \<Longrightarrow> xs \<noteq> [] \<Longrightarrow> HDR < hlen xs"
  by (cases xs) (use hlen_nonneg in \<open>force\<close>)+

lemma hlen_dvd: "sizes_ok xs \<Longrightarrow> 16 dvd hlen xs"
  by (induction xs rule: hlen.induct) (auto simp: HDR_def)

lemma hlast_append [simp]: "hlast p a (xs @ ys) = hlast (hlast p a xs) (a + hlen xs) ys"
  by (induction p a xs rule: hlast.induct) (auto simp: add.assoc)

lemma hlast_ne: "xs \<noteq> [] \<Longrightarrow> hlast p a xs = hlast q a xs"
  by (cases xs) auto

lemma hlast_bounds:
  assumes "sizes_ok xs" "xs \<noteq> []"
  shows "\<exists>l. hlast p a xs = Some l \<and> a \<le> l \<and> l < a + hlen xs"
  using assms
proof (induction p a xs rule: hlast.induct)
  case (2 p a sz fr xs)
  show ?case
  proof (cases "xs = []")
    case False
    then show ?thesis using 2 by (auto simp: HDR_def algebra_simps)
  qed (use 2 in \<open>auto simp: HDR_def\<close>)
qed simp

lemma hseg_append:
  "hseg B p a (xs @ ys) n \<longleftrightarrow>
     hseg B p a xs (if ys = [] then n else Some (a + hlen xs)) \<and> hseg B (hlast p a xs) (a + hlen xs) ys n"
  by (induction B p a xs n rule: hseg.induct) (auto simp: add.assoc)

text \<open>Blocks outside a segment do not matter to it.\<close>

lemma hseg_cong:
  assumes "sizes_ok xs" "\<And>b. a \<le> b \<Longrightarrow> b < a + hlen xs \<Longrightarrow> B' b = B b"
  shows "hseg B' p a xs n = hseg B p a xs n"
  using assms
proof (induction B p a xs n rule: hseg.induct)
  case (2 B p a sz fr xs n)
  have "B' a = B a" using 2 hlen_nonneg [of xs] by (intro 2(3)) (auto simp: HDR_def)
  moreover have "hseg B' (Some a) (a + HDR + sz) xs n = hseg B (Some a) (a + HDR + sz) xs n"
    using 2(2,3) by (intro 2(1)) (auto simp: HDR_def)
  ultimately show ?case by simp
qed simp

lemma hseg_upd_out:
  assumes "sizes_ok xs" "b < a \<or> a + hlen xs \<le> b"
  shows "hseg (B(b := k)) p a xs n = hseg B p a xs n"
  using assms by (intro hseg_cong) auto

text \<open>The two outer links of a segment.\<close>

lemma hseg_set_prev:
  assumes "sizes_ok xs" "xs \<noteq> []" "hseg B p a xs n"
  shows "hseg (B(a := (B a)\<lparr>hb_prev := p'\<rparr>)) p' a xs n"
proof (cases xs)
  case (Cons x ys)
  obtain sz fr where x: "x = (sz, fr)" by fastforce
  have "hseg (B(a := (B a)\<lparr>hb_prev := p'\<rparr>)) (Some a) (a + HDR + sz) ys n = hseg B (Some a) (a + HDR + sz) ys n"
    using assms(1) Cons x by (intro hseg_upd_out) (auto simp: HDR_def)
  then show ?thesis using assms Cons x by simp
qed (use assms in simp)

lemma hseg_set_next:
  assumes "sizes_ok xs" "hlast p a xs = Some l" "xs \<noteq> []" "hseg B p a xs n"
  shows "hseg (B(l := (B l)\<lparr>hb_next := n'\<rparr>)) p a xs n'"
  using assms
proof (induction B p a xs n rule: hseg.induct)
  case (2 B p a sz fr xs n)
  show ?case
  proof (cases "xs = []")
    case True
    then show ?thesis using 2 by auto
  next
    case False
    then obtain l' where "hlast (Some a) (a + HDR + sz) xs = Some l'" "a + HDR + sz \<le> l'"
      using hlast_bounds [of xs] 2(2) by fastforce
    then have "a \<noteq> l" using 2(2,3) by (auto simp: HDR_def)
    then show ?thesis using 2 False by simp
  qed
qed simp

text \<open>Replacing both outer links at once; the links are those of the neighbours in the whole list.\<close>

lemma hseg_relink_next:
  assumes "sizes_ok xs" "hseg B p a xs n" "n' = n \<or> xs = []"
  shows "hseg B p a xs n'"
  using assms by auto

section \<open>The heap as a list\<close>

definition heap_list :: "hlist \<Rightarrow> heap \<Rightarrow> bool" where
  "heap_list xs h \<longleftrightarrow> hseg (hblks h) None 0 xs None \<and> sizes_ok xs \<and> heap_offset h = hlen xs \<and>
     heap_head h = (if xs = [] then None else Some 0)"

lemma heap_listD:
  assumes "heap_list xs h"
  shows "hseg (hblks h) None 0 xs None" "sizes_ok xs" "heap_offset h = hlen xs"
    "heap_head h = (if xs = [] then None else Some 0)"
  using assms by (simp_all add: heap_list_def)

text \<open>The header of the block behind \<open>us\<close>.\<close>

lemma heap_list_header:
  assumes "heap_list (us @ (sz, fr) # vs) h"
  shows "hb_size (hblks h (hlen us)) = sz" "hb_free (hblks h (hlen us)) = fr"
    "hb_magic (hblks h (hlen us)) = HEAP_MAGIC" "hb_prev (hblks h (hlen us)) = hlast None 0 us"
    "hb_next (hblks h (hlen us)) = (if vs = [] then None else Some (hlen us + HDR + sz))"
  using heap_listD(1) [OF assms] by (auto simp: hseg_append)

lemma find_fit_spec:
  assumes "hseg (hblks h) p a xs None"
  shows "find_fit req (if xs = [] then None else Some a) h =
    Some (case List.find (\<lambda>i. snd (xs ! i) \<and> fst (xs ! i) \<ge> req) [0..<length xs] of
            None \<Rightarrow> None | Some i \<Rightarrow> Some (a + hlen (take i xs)))"
  using assms
proof (induction xs arbitrary: p a)
  case Nil
  then show ?case by (simp add: find_fit.simps)
next
  case (Cons x xs)
  obtain sz fr where x: "x = (sz, fr)" by fastforce
  have up: "[0..<length (x # xs)] = 0 # map Suc [0..<length xs]" by (simp add: upt_conv_Cons map_Suc_upt del: upt_Suc)
  have f: "List.find P (map Suc is) = map_option Suc (List.find (\<lambda>i. P (Suc i)) is)" for P "is"
    by (induction "is") auto
  show ?case
  proof (cases "fr \<and> sz \<ge> req")
    case True
    then show ?thesis using Cons.prems x unfolding up by (simp add: find_fit.simps [of req "Some a"])
  next
    case False
    then have "find_fit req (Some a) h = find_fit req (if xs = [] then None else Some (a + HDR + sz)) h"
      using Cons.prems x by (auto simp: find_fit.simps [of req "Some a"])
    also have "\<dots> = Some (case List.find (\<lambda>i. snd (xs ! i) \<and> fst (xs ! i) \<ge> req) [0..<length xs] of
            None \<Rightarrow> None | Some i \<Rightarrow> Some (a + HDR + sz + hlen (take i xs)))"
      using Cons.prems x by (intro Cons.IH [of "Some a"]) simp
    finally show ?thesis using False x unfolding up by (auto simp: f split: option.split)
  qed
qed

lemma last_blk_spec:
  assumes "hseg (hblks h) p a xs None" "xs \<noteq> []"
  shows "last_blk a h = hlast p a xs"
  using assms
proof (induction xs arbitrary: p a)
  case (Cons x xs)
  obtain sz fr where x: "x = (sz, fr)" by fastforce
  show ?case
  proof (cases "xs = []")
    case False
    then have "last_blk a h = last_blk (a + HDR + sz) h" using Cons.prems x by (simp add: last_blk.simps [of a])
    also have "\<dots> = hlast (Some a) (a + HDR + sz) xs" using Cons.prems x False by (intro Cons.IH) simp_all
    finally show ?thesis using x by simp
  qed (use Cons.prems x in \<open>simp add: last_blk.simps [of a]\<close>)
qed simp

text \<open>Replacing blocks by others of the same total length, with the links of the neighbours kept right.\<close>

lemma heap_list_change:
  assumes l: "heap_list (us @ mid @ vs) h" and m: "mid \<noteq> []" "mid' \<noteq> []" "hlen mid' = hlen mid" "sizes_ok mid'"
    and low: "\<And>b. b < hlen us \<Longrightarrow> hblks h' b = hblks h b"
    and new: "hseg (hblks h') (hlast None 0 us) (hlen us) mid' (if vs = [] then None else Some (hlen us + hlen mid))"
    and nb: "vs \<noteq> [] \<Longrightarrow> hblks h' (hlen us + hlen mid) =
      (hblks h (hlen us + hlen mid))\<lparr>hb_prev := hlast (hlast None 0 us) (hlen us) mid'\<rparr>"
    and high: "\<And>b. hlen us + hlen mid < b \<Longrightarrow> hblks h' b = hblks h b"
    and f: "heap_offset h' = heap_offset h" "heap_head h' = heap_head h"
  shows "heap_list (us @ mid' @ vs) h'"
proof -
  let ?m = "hlen us + hlen mid" and ?B = "hblks h" and ?B' = "hblks h'"
  note d = heap_listD [OF l]
  have so: "sizes_ok us" "sizes_ok mid" "sizes_ok vs" using d(2) by auto
  have s: "hseg ?B None 0 us (Some (hlen us))" "hseg ?B (hlast (hlast None 0 us) (hlen us) mid) ?m vs None"
    using d(1) m(1) by (simp_all add: hseg_append add.assoc)
  have "hseg ?B' None 0 us (Some (hlen us)) = hseg ?B None 0 us (Some (hlen us))"
    using low by (intro hseg_cong [OF so(1)]) simp
  moreover have "hseg ?B' (hlast (hlast None 0 us) (hlen us) mid') ?m vs None"
  proof (cases "vs = []")
    case False
    let ?C = "?B(?m := (?B ?m)\<lparr>hb_prev := hlast (hlast None 0 us) (hlen us) mid'\<rparr>)"
    have "hseg ?C (hlast (hlast None 0 us) (hlen us) mid') ?m vs None"
      by (rule hseg_set_prev [OF so(3) False s(2)])
    moreover have "hseg ?B' p ?m vs None = hseg ?C p ?m vs None" for p
      using nb [OF False] high by (intro hseg_cong [OF so(3)]) (auto simp: order.order_iff_strict)
    ultimately show ?thesis by simp
  qed simp
  ultimately have "hseg ?B' None 0 (us @ mid' @ vs) None"
    using s(1) new m(2,3) by (auto simp: hseg_append add.assoc)
  then show ?thesis using d m so f by (simp add: heap_list_def)
qed

lemma upd_blk_sel [simp]:
  "hblks (upd_blk b f h) = (hblks h)(b := f (hblks h b))" "heap_offset (upd_blk b f h) = heap_offset h"
  "heap_head (upd_blk b f h) = heap_head h"
  by (simp_all add: upd_blk_def)

lemma set_prev_sel:
  "hblks (set_prev b p h) c = (if b = Some c then (hblks h c)\<lparr>hb_prev := Some p\<rparr> else hblks h c)"
  "heap_offset (set_prev b p h) = heap_offset h" "heap_head (set_prev b p h) = heap_head h"
  by (simp_all add: set_prev_def split: option.split)

lemma sz64_small [simp]: "0 \<le> n \<Longrightarrow> n < 2 ^ 64 \<Longrightarrow> sz64 n = n"
  by (simp add: sz64_def)

text \<open>A block changes its flag.\<close>

lemma mark_free_list:
  assumes "heap_list (us @ (sz, fr) # vs) h"
  shows "heap_list (us @ (sz, fr') # vs) (upd_blk (hlen us) (\<lambda>k. k\<lparr>hb_free := fr'\<rparr>) h)"
proof -
  have so: "0 < sz" using heap_listD(2) [OF assms] by simp
  have "heap_list (us @ [(sz, fr')] @ vs) (upd_blk (hlen us) (\<lambda>k. k\<lparr>hb_free := fr'\<rparr>) h)"
  proof (rule heap_list_change [of us "[(sz, fr)]" vs h])
    show "heap_list (us @ [(sz, fr)] @ vs) h" using assms by simp
    show "sizes_ok [(sz, fr')]" using heap_listD(2) [OF assms] by simp
    show "vs \<noteq> [] \<Longrightarrow> hblks (upd_blk (hlen us) (\<lambda>k. k\<lparr>hb_free := fr'\<rparr>) h) (hlen us + hlen [(sz, fr)]) =
      (hblks h (hlen us + hlen [(sz, fr)]))\<lparr>hb_prev := hlast (hlast None 0 us) (hlen us) [(sz, fr')]\<rparr>"
      using heap_listD(1) [OF assms] so by (cases vs) (auto simp: hseg_append HDR_def add.assoc)
  qed (use heap_list_header [OF assms] so in \<open>auto simp: HDR_def\<close>)
  then show ?thesis by simp
qed

text \<open>A block is taken, and divided when it is much larger than needed.\<close>

definition taken :: "int \<Rightarrow> int \<Rightarrow> hlist" where
  "taken req sz = (if sz \<ge> req + 64 then [(req, False), (sz - req - HDR, True)] else [(sz, False)])"

lemma take_blk_list:
  assumes l: "heap_list (us @ (sz, fr) # vs) h" and z: "0 < req" "16 dvd req" "req \<le> sz" "sz < 2 ^ 62"
  shows "heap_list (us @ taken req sz @ vs) (take_blk req (hlen us) h)"
proof (cases "sz \<ge> req + 64")
  case False
  have "sz64 (req + HDR + 16) = req + 64" using z by (subst sz64_small) (simp_all add: HDR_def)
  then have "take_blk req (hlen us) h = upd_blk (hlen us) (\<lambda>k. k\<lparr>hb_free := False\<rparr>) h"
    using False heap_list_header [OF l] by (simp add: take_blk_def)
  then show ?thesis using mark_free_list [OF l, of False] False by (simp add: taken_def)
next
  case True
  let ?c = "hlen us" and ?sp = "hlen us + HDR + req" and ?r = "sz - req - HDR" and ?h = "take_blk req (hlen us) h"
  note hd = heap_list_header [OF l]
  have "sz64 (req + HDR + 16) = req + 64" "sz64 ?r = ?r" using z True by (auto intro!: sz64_small simp: HDR_def)
  then have e: "?h = upd_blk ?c (\<lambda>k. k\<lparr>hb_free := False\<rparr>) (split_blk req ?c h)"
    "sz64 (hb_size (hblks h ?c) - req - HDR) = ?r"
    using True hd by (simp_all add: take_blk_def)
  have b: "hblks ?h b = (if b = ?c then (hblks h ?c)\<lparr>hb_next := Some ?sp, hb_size := req, hb_free := False\<rparr>
      else if vs \<noteq> [] \<and> b = ?c + HDR + sz then (hblks h b)\<lparr>hb_prev := Some ?sp\<rparr>
      else if b = ?sp then \<lparr>hb_size = ?r, hb_free = True, hb_magic = HEAP_MAGIC,
        hb_next = (if vs = [] then None else Some (?c + HDR + sz)), hb_prev = Some ?c\<rparr> else hblks h b)" for b
    using z True unfolding e(1) split_blk_def Let_def e(2)
    by (auto simp: set_prev_sel hd HDR_def)
  have "heap_list (us @ taken req sz @ vs) ?h"
  proof (rule heap_list_change [of us "[(sz, fr)]" vs h])
    show "heap_list (us @ [(sz, fr)] @ vs) h" using l by simp
    show "sizes_ok (taken req sz)"
      using z True heap_listD(2) [OF l] by (auto simp: taken_def HDR_def intro!: dvd_diff)
    show "hseg (hblks ?h) (hlast None 0 us) ?c (taken req sz) (if vs = [] then None else Some (?c + hlen [(sz, fr)]))"
      using z True hd(3,4) by (auto simp: taken_def b HDR_def)
    show "heap_offset ?h = heap_offset h" "heap_head ?h = heap_head h"
      unfolding e(1) split_blk_def Let_def by (simp_all add: set_prev_sel)
  qed (use z True in \<open>auto simp: taken_def b HDR_def\<close>)
  then show ?thesis .
qed

text \<open>Two neighbours become one.\<close>

lemma absorb_list:
  assumes l: "heap_list (us @ (sz, fr) # (sz', fr') # vs) h" and z: "sz + HDR + sz' < 2 ^ 62"
  shows "heap_list (us @ (sz + HDR + sz', fr) # vs) (absorb (hlen us) (hlen us + HDR + sz) h)"
proof -
  let ?c = "hlen us" and ?n = "hlen us + HDR + sz" and ?h = "absorb (hlen us) (hlen us + HDR + sz) h"
  have so: "0 < sz" "0 < sz'" "16 dvd sz" "16 dvd sz'" using heap_listD(2) [OF l] by simp_all
  note hd = heap_list_header [OF l] and hn = heap_list_header [of "us @ [(sz, fr)]" sz' fr' vs h]
  have hn: "hb_size (hblks h ?n) = sz'" "hb_next (hblks h ?n) = (if vs = [] then None else Some (?n + HDR + sz'))"
    using hn l by (simp_all add: add.assoc)
  have "sz64 (sz + HDR + sz') = sz + HDR + sz'" using so z by (intro sz64_small) (auto simp: HDR_def)
  then have b: "hblks ?h b = (if b = ?c then (hblks h ?c)\<lparr>hb_size := sz + HDR + sz',
        hb_next := (if vs = [] then None else Some (?n + HDR + sz'))\<rparr>
      else if vs \<noteq> [] \<and> b = ?n + HDR + sz' then (hblks h b)\<lparr>hb_prev := Some ?c\<rparr> else hblks h b)" for b
    using so HDR_pos unfolding absorb_def Let_def by (auto simp: set_prev_sel hd(1) hn)
  have "heap_list (us @ [(sz + HDR + sz', fr)] @ vs) ?h"
  proof (rule heap_list_change [of us "[(sz, fr), (sz', fr')]" vs h])
    show "heap_list (us @ [(sz, fr), (sz', fr')] @ vs) h" using l by simp
    show "sizes_ok [(sz + HDR + sz', fr)]" using so by (auto simp: HDR_def intro!: dvd_add)
    show "heap_offset ?h = heap_offset h" "heap_head ?h = heap_head h"
      unfolding absorb_def Let_def by (simp_all add: set_prev_sel)
  qed (use so HDR_pos in \<open>auto simp: b hd\<close>)
  then show ?thesis by simp
qed

text \<open>The last block goes back to the pool, or a new one is made behind it.\<close>

lemma hseg_cut_last:
  assumes "sizes_ok us" "us \<noteq> []" "hlast None 0 us = Some p" "hseg B None 0 us n"
  shows "hseg (B(p := (B p)\<lparr>hb_next := n'\<rparr>)) None 0 us n'"
  by (rule hseg_set_next [OF assms(1,3,2,4)])

lemma shrink_list:
  assumes l: "heap_list (us @ [(sz, True)]) h"
  shows "heap_list us (shrink (hlen us) h)"
proof -
  note d = heap_listD [OF l] and hd = heap_list_header [of us sz True "[]" h, OF l]
  have s: "hseg (hblks h) None 0 us (Some (hlen us))" using d(1) by (simp add: hseg_append)
  show ?thesis
  proof (cases "us = []")
    case True
    then show ?thesis using hd by (simp add: shrink_def heap_list_def)
  next
    case False
    then obtain p where p: "hlast None 0 us = Some p" using hlast_bounds [of us None 0] d(2) by auto
    have "hseg ((hblks h)(p := (hblks h p)\<lparr>hb_next := None\<rparr>)) None 0 us None"
      using False p s d(2) by (intro hseg_cut_last) auto
    then show ?thesis using hd p d False by (simp add: shrink_def heap_list_def)
  qed
qed

lemma shrink_id:
  assumes l: "heap_list (us @ (sz, fr) # vs) h" "vs \<noteq> [] \<or> \<not> fr"
  shows "shrink (hlen us) h = h"
  using heap_list_header [OF l(1)] l(2) by (auto simp: shrink_def)

lemma align_header:
  assumes "0 < req" "16 dvd req" "req < 2 ^ 63"
  shows "align16 (sz64 (HDR + req)) = HDR + req"
  using assms by (auto simp: align16_def HDR_def elim!: dvdE)

lemma bump_list:
  assumes l: "heap_list xs h" and z: "0 < req" "16 dvd req" "req < 2 ^ 62" and fit: "hlen xs + HDR + req \<le> pool" "pool < 2 ^ 62"
  shows "\<exists>h'. bump_blk pool req h = Some (Some (hlen xs + HDR), h') \<and> heap_list (xs @ [(req, False)]) h'"
proof -
  note d = heap_listD [OF l]
  have n: "0 \<le> hlen xs" by (rule hlen_nonneg [OF d(2)])
  have "align16 (sz64 (HDR + req)) = HDR + req"
    using z by (intro align_header) simp_all
  moreover have "sz64 (hlen xs + (HDR + req)) = hlen xs + HDR + req"
    using n z fit by (subst sz64_small) (auto simp: HDR_def)
  ultimately have e: "align16 (sz64 (HDR + req)) = HDR + req" "sz64 (hlen xs + (HDR + req)) = hlen xs + HDR + req" .
  let ?b = "hlen xs" and ?k = "\<lparr>hb_size = req, hb_free = False, hb_magic = HEAP_MAGIC, hb_next = None, hb_prev = None :: int option\<rparr>"
  let ?h1 = "upd_blk ?b (\<lambda>_. ?k) (h\<lparr>heap_offset := ?b + HDR + req\<rparr>)"
  show ?thesis
  proof (cases "xs = []")
    case True
    then show ?thesis using d z fit e by (simp add: bump_blk_def Let_def heap_list_def)
  next
    case False
    have s1: "hseg (hblks ?h1) None 0 xs None" using d(1,2) by (simp add: hseg_upd_out)
    obtain t where t: "hlast None 0 xs = Some t" "0 \<le> t" "t < ?b"
      using hlast_bounds [OF d(2) False, of None 0] by auto
    have "last_blk 0 ?h1 = Some t" using last_blk_spec [OF s1 False] t(1) by simp
    then have r: "bump_blk pool req h = Some (Some (?b + HDR),
        upd_blk ?b (\<lambda>k. k\<lparr>hb_prev := Some t\<rparr>) (upd_blk t (\<lambda>k. k\<lparr>hb_next := Some ?b\<rparr>) ?h1))"
      (is "_ = Some (_, ?h')")
      using fit d(3,4) False unfolding bump_blk_def Let_def d(3) e by simp
    have "hseg ((hblks ?h1)(t := (hblks ?h1 t)\<lparr>hb_next := Some ?b\<rparr>)) None 0 xs (Some ?b)"
      by (rule hseg_set_next [OF d(2) t(1) False s1])
    moreover have "hseg (hblks ?h') None 0 xs (Some ?b) =
        hseg ((hblks ?h1)(t := (hblks ?h1 t)\<lparr>hb_next := Some ?b\<rparr>)) None 0 xs (Some ?b)"
      by (rule hseg_cong [OF d(2)]) simp
    ultimately have "hseg (hblks ?h') None 0 xs (Some ?b)" by simp
    then have "heap_list (xs @ [(req, False)]) ?h'"
      using d t z False by (simp add: heap_list_def hseg_append)
    then show ?thesis using r by blast
  qed
qed

section \<open>Getting and freeing\<close>

text \<open>Between two calls no free blocks are neighbours, and the last block is in use.\<close>

abbreviation apart :: "hlist \<Rightarrow> bool" where
  "apart \<equiv> successively (\<lambda>x y. \<not> (snd x \<and> snd y))"

definition settled :: "hlist \<Rightarrow> bool" where
  "settled xs \<longleftrightarrow> apart xs \<and> (xs = [] \<or> \<not> snd (last xs))"

lemma settled_simps [simp]:
  "settled []" "settled [x] \<longleftrightarrow> \<not> snd x"
  "settled (x # y # r) \<longleftrightarrow> \<not> (snd x \<and> snd y) \<and> settled (y # r)"
  by (auto simp: settled_def)

lemma settled_append:
  "settled (xs @ ys) \<longleftrightarrow> (if ys = [] then settled xs
     else settled ys \<and> (xs = [] \<or> apart xs \<and> \<not> (snd (last xs) \<and> snd (hd ys))))"
  by (auto simp: settled_def successively_append_iff)

lemma settled_end_used: "settled xs \<Longrightarrow> settled (xs @ [(z, False)])"
  by (simp add: settled_def successively_append_iff)

definition heap_ok :: "int \<Rightarrow> hlist \<Rightarrow> heap \<Rightarrow> bool" where
  "heap_ok pool xs h \<longleftrightarrow> heap_list xs h \<and> hlen xs \<le> pool \<and> settled xs"

text \<open>The blocks in use, with the address of the data.\<close>

fun used :: "int \<Rightarrow> hlist \<Rightarrow> (int \<times> int) set" where
  "used a [] = {}"
| "used a ((sz, fr) # xs) = (if fr then {} else {(a + HDR, sz)}) \<union> used (a + HDR + sz) xs"

lemma used_append [simp]: "used a (xs @ ys) = used a xs \<union> used (a + hlen xs) ys"
  by (induction xs arbitrary: a rule: hlen.induct) (auto simp: add.assoc)

lemma used_bounds:
  assumes "sizes_ok xs" "(p, m) \<in> used a xs"
  shows "a + HDR \<le> p" "p + m \<le> a + hlen xs" "0 < m"
proof -
  have "a + HDR \<le> p \<and> p + m \<le> a + hlen xs \<and> 0 < m"
    using assms
  proof (induction a xs rule: used.induct)
    case (2 a sz fr xs)
    have "0 \<le> hlen xs" using 2 hlen_nonneg by simp
    then show ?case using 2 HDR_pos by (auto split: if_splits)
  qed simp
  then show "a + HDR \<le> p" "p + m \<le> a + hlen xs" "0 < m" by auto
qed

lemma used_disjoint:
  assumes "sizes_ok xs" "(p, m) \<in> used a xs" "(q, n) \<in> used a xs"
  shows "(p, m) = (q, n) \<or> p + m \<le> q \<or> q + n \<le> p"
  using assms
proof (induction a xs rule: used.induct)
  case (2 a sz fr xs)
  have "a + HDR + sz + HDR \<le> p'" if "(p', m') \<in> used (a + HDR + sz) xs" for p' m'
    using used_bounds(1) [OF _ that] 2(2) by simp
  then show ?case using 2 HDR_pos by (fastforce split: if_splits)
qed simp

lemma used_aligned: "sizes_ok xs \<Longrightarrow> 16 dvd a \<Longrightarrow> (p, m) \<in> used a xs \<Longrightarrow> 16 dvd p"
proof (induction a xs rule: used.induct)
  case (2 a sz fr xs)
  have "16 dvd HDR" by (simp add: HDR_def)
  then show ?case using 2 by (auto split: if_splits)
qed simp

lemma used_split:
  assumes "sizes_ok xs" "(p, m) \<in> used a xs"
  shows "\<exists>us vs. xs = us @ (m, False) # vs \<and> p = a + hlen us + HDR"
  using assms
proof (induction a xs rule: used.induct)
  case (2 a sz fr xs)
  show ?case
  proof (cases "(p, m) = (a + HDR, sz) \<and> \<not> fr")
    case True
    then show ?thesis by (intro exI [of _ "[]"] exI [of _ xs]) simp
  next
    case False
    then have "(p, m) \<in> used (a + HDR + sz) xs" using 2(3) by (auto split: if_splits)
    then obtain us vs where "xs = us @ (m, False) # vs" "p = a + HDR + sz + hlen us + HDR"
      using 2(1,2) by auto
    then show ?thesis by (intro exI [of _ "(sz, fr) # us"] exI [of _ vs]) simp
  qed
qed simp

text \<open>\<open>Imalloc\<close>: a request that is not absurdly large gets a block of at least its size that overlaps no
  other, or there is no free block of that size and no room at the end.\<close>

lemma align16_bounds:
  assumes "0 < sz" "sz < 2 ^ 62"
  shows "sz \<le> align16 sz" "align16 sz < sz + 16" "16 dvd align16 sz"
proof -
  have e: "align16 sz = (sz + 15) div 16 * 16" using assms by (simp add: align16_def)
  have "(sz + 15) div 16 * 16 = sz + 15 - (sz + 15) mod 16" by (simp add: minus_mod_eq_div_mult)
  moreover have "0 \<le> (sz + 15) mod 16" "(sz + 15) mod 16 < 16" by simp_all
  ultimately show "sz \<le> align16 sz" "align16 sz < sz + 16" unfolding e by auto
  show "16 dvd align16 sz" unfolding e by simp
qed

lemma find_split:
  assumes "List.find (\<lambda>i. P (xs ! i)) [0..<length xs] = Some i"
  shows "\<exists>us x vs. xs = us @ x # vs \<and> P x \<and> (\<forall>u \<in> set us. \<not> P u) \<and> take i xs = us"
proof -
  have i: "i < length xs" "P (xs ! i)" "\<forall>j < i. \<not> P (xs ! j)"
    using assms by (auto simp: find_Some_iff nth_append)
  then have "xs = take i xs @ xs ! i # drop (Suc i) xs" by (simp add: id_take_nth_drop)
  moreover have "\<forall>u \<in> set (take i xs). \<not> P u" using i by (auto simp: in_set_conv_nth)
  ultimately show ?thesis using i(2) by blast
qed

lemma settled_taken:
  assumes "settled (us @ (sz, True) # vs)"
  shows "settled (us @ taken req sz @ vs)"
proof -
  have v: "vs \<noteq> []" "\<not> snd (hd vs)" "settled vs"
    using assms by (cases vs; auto simp: settled_append split: if_splits)+
  have u: "us = [] \<or> apart us" "us = [] \<or> \<not> snd (last us)" using assms by (auto simp: settled_append)
  have "settled (taken req sz @ vs)" using v by (cases vs) (auto simp: taken_def)
  then show ?thesis using u by (subst settled_append) (auto simp: taken_def)
qed

lemma Imalloc_spec:
  assumes ok: "heap_ok pool xs h" and pool: "pool < 2 ^ 62" and z: "0 < sz" "sz < 2 ^ 62"
  shows "\<exists>r h' xs'. Imalloc pool sz h = Some (r, h') \<and> heap_ok pool xs' h' \<and>
    (case r of
       None \<Rightarrow> h' = h \<and> (\<forall>x \<in> set xs. snd x \<longrightarrow> fst x < align16 sz) \<and> pool < hlen xs + HDR + align16 sz
     | Some p \<Rightarrow> \<exists>m \<ge> sz. used 0 xs' = insert (p, m) (used 0 xs) \<and> (\<forall>q n. (q, n) \<in> used 0 xs \<longrightarrow> q \<noteq> p))"
proof -
  let ?r = "align16 sz" and ?P = "\<lambda>x. snd x \<and> fst x \<ge> align16 sz"
  have l: "heap_list xs h" "hlen xs \<le> pool" "settled xs" using ok by (auto simp: heap_ok_def)
  note d = heap_listD [OF l(1)] and a = align16_bounds [OF z]
  have new: "q \<noteq> p" if "sizes_ok ys" "used 0 ys = insert (p, m) (used 0 xs)" "(q, n) \<in> used 0 xs"
    "(p, m) \<notin> used 0 xs" for q p m n ys
    using used_disjoint [OF that(1), of p m 0 q n] used_bounds(3) [OF that(1), of p m 0]
      used_bounds(3) [OF that(1), of q n 0] that by auto
  have ff: "find_fit ?r (heap_head h) h =
      Some (case List.find (\<lambda>i. ?P (xs ! i)) [0..<length xs] of None \<Rightarrow> None | Some i \<Rightarrow> Some (hlen (take i xs)))"
    using find_fit_spec [OF d(1), of ?r] by (simp add: d(4) del: split_paired_All split: option.split_asm option.split)
  show ?thesis
  proof (cases "List.find (\<lambda>i. ?P (xs ! i)) [0..<length xs]")
    case (Some i)
    then obtain us x vs where x: "xs = us @ x # vs" "?P x" "take i xs = us"
      using find_split [of ?P xs i] by blast
    then obtain c where xs: "xs = us @ (c, True) # vs" "c \<ge> ?r" by (cases x) auto
    let ?xs = "us @ taken ?r c @ vs" and ?h = "take_blk ?r (hlen us) h"
    have so: "sizes_ok us" "sizes_ok vs" using d(2) xs by auto
    have c: "c < 2 ^ 62" "0 \<le> hlen us" "0 \<le> hlen vs"
      using hlen_nonneg [OF so(1)] hlen_nonneg [OF so(2)] l(2) pool xs HDR_pos by auto
    have "heap_list ?xs ?h" by (rule take_blk_list) (use l(1) xs a z c in auto)
    moreover have "hlen ?xs = hlen xs" using xs by (simp add: taken_def)
    moreover have "settled ?xs" using settled_taken l(3) unfolding xs(1) by blast
    ultimately have "heap_ok pool ?xs ?h" using l(2) by (simp add: heap_ok_def)
    moreover have "Imalloc pool sz h = Some (Some (hlen us + HDR), ?h)"
      using ff Some z x(3) by (simp add: Imalloc_def Let_def)
    moreover have u: "used 0 ?xs = insert (hlen us + HDR, if c \<ge> ?r + 64 then ?r else c) (used 0 xs)"
      using xs by (auto simp: taken_def add.assoc)
    moreover have "(hlen us + HDR, m) \<notin> used 0 xs" for m
    proof
      assume m: "(hlen us + HDR, m) \<in> used 0 xs"
      show False
        using m used_bounds [OF so(1), of "hlen us + HDR" m 0] used_bounds [OF so(2), of "hlen us + HDR" m "hlen us + (HDR + c)"]
          xs a z HDR_pos by (auto simp: add.assoc)
    qed
    moreover have "sz \<le> (if c \<ge> ?r + 64 then ?r else c)" using a xs(2) by simp
    ultimately have "\<exists>m \<ge> sz. used 0 ?xs = insert (hlen us + HDR, m) (used 0 xs) \<and>
        (\<forall>q n. (q, n) \<in> used 0 xs \<longrightarrow> q \<noteq> hlen us + HDR)" "heap_ok pool ?xs ?h"
      "Imalloc pool sz h = Some (Some (hlen us + HDR), ?h)"
      by blast+
    then show ?thesis by (intro exI [of _ "Some (hlen us + HDR)"] exI [of _ ?h] exI [of _ ?xs]) simp
  next
    case None
    then have "\<not> ?P (xs ! i)" if "i < length xs" for i using that by (simp add: find_None_iff)
    then have nf: "\<forall>x \<in> set xs. \<not> ?P x" by (metis in_set_conv_nth)
    have im: "Imalloc pool sz h = bump_blk pool ?r h" using ff None z by (simp add: Imalloc_def Let_def)
    show ?thesis
    proof (cases "hlen xs + HDR + ?r \<le> pool")
      case True
      obtain h' where h': "bump_blk pool ?r h = Some (Some (hlen xs + HDR), h')" "heap_list (xs @ [(?r, False)]) h'"
        using bump_list [OF l(1) _ a(3) _ True pool] a z hlen_nonneg [OF d(2)] True pool HDR_pos by auto
      have "heap_ok pool (xs @ [(?r, False)]) h'" using h' True l(3) by (simp add: heap_ok_def settled_end_used)
      moreover have "(hlen xs + HDR, m) \<notin> used 0 xs" for m
        using used_bounds [OF d(2), of "hlen xs + HDR" m 0] HDR_pos by auto
      ultimately show ?thesis using h'(1) im a by (intro exI [of _ "Some (hlen xs + HDR)"] exI [of _ h'] exI) auto
    next
      case False
      have "?r < 2 ^ 62 + 16" "0 \<le> hlen xs" "hlen xs < 2 ^ 62" using a z hlen_nonneg [OF d(2)] l(2) pool by auto
      then have "align16 (sz64 (HDR + ?r)) = HDR + ?r" "sz64 (hlen xs + (HDR + ?r)) = hlen xs + HDR + ?r"
        using a z align_header [of ?r] by (simp_all add: sz64_small HDR_def)
      then have "bump_blk pool ?r h = Some (None, h)" using False d(3) by (simp add: bump_blk_def Let_def)
      then show ?thesis using im ok nf False by (intro exI [of _ None] exI [of _ h] exI [of _ xs]) auto
    qed
  qed
qed

text \<open>\<open>Ifree\<close>: the block is no longer in use, all others are.\<close>

lemma settled_cut: "settled (us @ (sz, fr) # vs) \<Longrightarrow> vs \<noteq> [] \<Longrightarrow> settled vs"
  by (cases vs) (auto simp: settled_append)

lemma Ifree_spec:
  assumes ok: "heap_ok pool xs h" and pool: "pool < 2 ^ 62" and p: "(p, m) \<in> used 0 xs"
  shows "\<exists>xs'. heap_ok pool xs' (Ifree (Some p) h) \<and> used 0 xs' = used 0 xs - {(p, m)}"
proof -
  have l: "heap_list xs h" "hlen xs \<le> pool" "settled xs" using ok by (auto simp: heap_ok_def)
  note d = heap_listD [OF l(1)]
  obtain us vs where xs: "xs = us @ (m, False) # vs" "p = hlen us + HDR" using used_split [OF d(2) p] by auto
  let ?b = "hlen us" and ?h1 = "upd_blk (hlen us) (\<lambda>k. k\<lparr>hb_free := True\<rparr>) h"
  have so: "sizes_ok us" "sizes_ok vs" "0 < m" using d(2) xs by auto
  note nn = hlen_nonneg [OF so(1)] hlen_nonneg [OF so(2)]
  have len: "hlen us + HDR + m + hlen vs \<le> pool" using l(2) xs by simp
  have u0: "used 0 xs - {(p, m)} = used 0 us \<union> used (hlen us + HDR + m) vs"
    using xs used_bounds [OF so(1), of p m 0] used_bounds [OF so(2), of p m "hlen us + HDR + m"] so(3) HDR_pos
    by (auto simp: add.assoc)
  have l1: "heap_list (us @ (m, True) # vs) ?h1" using mark_free_list [of us m False vs h True] l(1) xs by simp
  have mag: "hb_magic (hblks h ?b) = HEAP_MAGIC" using heap_list_header(3) [of us m False vs h] l(1) xs by simp
  have stu: "apart us" using l(3) xs by (auto simp: settled_append)

  define sz1 vs1 where "sz1 = (case vs of (s2, True) # _ \<Rightarrow> m + HDR + s2 | _ \<Rightarrow> m)"
    and "vs1 = (case vs of (s2, True) # r \<Rightarrow> r | _ \<Rightarrow> vs)"
  let ?nx = "hb_next (hblks ?h1 ?b)"
  define h2 where "h2 = (if free_with_magic ?h1 ?nx then absorb ?b (the ?nx) ?h1 else ?h1)"
  have A: "heap_list (us @ (sz1, True) # vs1) h2 \<and> hlen us + HDR + sz1 + hlen vs1 \<le> pool \<and>
      used (hlen us + HDR + sz1) vs1 = used (hlen us + HDR + m) vs \<and> (vs1 \<noteq> [] \<longrightarrow> \<not> snd (hd vs1) \<and> settled vs1) \<and>
      0 < sz1 \<and> sizes_ok vs1"
  proof (cases vs)
    case Nil
    then have "?nx = None" using heap_list_header(5) [OF l1] by simp
    then show ?thesis using l1 len Nil so by (simp add: h2_def sz1_def vs1_def free_with_magic_def)
  next
    case (Cons y r)
    obtain s2 f2 where y: "y = (s2, f2)" by fastforce
    have nx: "?nx = Some (?b + HDR + m)" using heap_list_header(5) [OF l1] Cons by simp
    have hy: "hb_free (hblks ?h1 (?b + HDR + m)) = f2" "hb_magic (hblks ?h1 (?b + HDR + m)) = HEAP_MAGIC"
      using heap_list_header(2,3) [of "us @ [(m, True)]" s2 f2 r ?h1] l1 Cons y by (simp_all add: add.assoc)
    have sv: "settled vs" using settled_cut l(3) xs Cons by blast
    show ?thesis
    proof (cases f2)
      case True
      have "heap_list (us @ (m + HDR + s2, True) # r) (absorb ?b (?b + HDR + m) ?h1)"
        by (rule absorb_list) (use l1 Cons y len nn pool so HDR_pos hlen_nonneg [of r] in auto)
      moreover have "\<not> snd (hd r) \<and> settled r" if "r \<noteq> []" using sv Cons y True that by (cases r) auto
      ultimately show ?thesis
        using True Cons y nx hy len so HDR_pos by (simp add: h2_def sz1_def vs1_def free_with_magic_def add.assoc)
    next
      case False
      then show ?thesis using Cons y nx hy len l1 so sv
        by (simp add: h2_def sz1_def vs1_def free_with_magic_def)
    qed
  qed
  let ?pv = "hb_prev (hblks h2 ?b)"
  have if_eq: "Ifree (Some p) h = (if free_with_magic h2 ?pv then shrink (the ?pv) (absorb (the ?pv) ?b h2) else shrink ?b h2)"
    using xs(2) mag by (simp add: Ifree_def Let_def h2_def)
  have pv: "?pv = hlast None 0 us" using heap_list_header(4) A by blast
  have fin: "\<exists>xs'. heap_ok pool xs' (shrink (hlen ws) h3) \<and> used 0 xs' = used 0 us \<union> used (hlen us + HDR + m) vs"
    if h3: "heap_list (ws @ (z, True) # vs1) h3" and ws: "used 0 ws = used 0 us" "hlen ws + HDR + z = hlen us + HDR + sz1"
      "ws = [] \<or> \<not> snd (last ws) \<and> settled ws" for ws z h3
  proof (cases "vs1 = []")
    case True
    have "heap_list ws (shrink (hlen ws) h3)" by (rule shrink_list) (use h3 True in simp)
    moreover have "0 < z" using heap_listD(2) [OF h3] by simp
    ultimately have "heap_ok pool ws (shrink (hlen ws) h3)"
      using ws A True HDR_pos by (auto simp: heap_ok_def)
    then show ?thesis using ws(1) A True by auto
  next
    case False
    then have "shrink (hlen ws) h3 = h3" using shrink_id [OF h3] by simp
    moreover have "settled (ws @ (z, True) # vs1)"
      using ws(3) A False by (cases vs1) (auto simp: settled_def successively_append_iff)
    ultimately have "heap_ok pool (ws @ (z, True) # vs1) (shrink (hlen ws) h3)"
      using h3 ws(2) A by (simp add: heap_ok_def)
    moreover have "used 0 (ws @ (z, True) # vs1) = used 0 us \<union> used (hlen us + HDR + m) vs"
    proof -
      have "used 0 (ws @ (z, True) # vs1) = used 0 ws \<union> used (hlen ws + HDR + z) vs1" by simp
      then show ?thesis using ws(1) A unfolding ws(2) by simp
    qed
    ultimately show ?thesis by blast
  qed
  show ?thesis
  proof (cases us rule: rev_cases)
    case Nil
    then have "?pv = None" using pv by simp
    then have "Ifree (Some p) h = shrink ?b h2" using if_eq by (simp add: free_with_magic_def)
    then show ?thesis using fin [of us sz1 h2] A Nil u0 by simp
  next
    case (snoc ws y)
    obtain s0 f0 where y: "y = (s0, f0)" by fastforce
    have pw: "?pv = Some (hlen ws)" using pv snoc y by simp
    have hl: "heap_list (ws @ (s0, f0) # (sz1, True) # vs1) h2" using A snoc y by simp
    note hp = heap_list_header [OF hl]
    have sw: "apart ws" "ws = [] \<or> \<not> (snd (last ws) \<and> f0)"
      using stu snoc y by (auto simp: successively_append_iff)
    have wl: "hlen us = hlen ws + HDR + s0" using snoc y by simp
    show ?thesis
    proof (cases f0)
      case True
      have e: "Ifree (Some p) h = shrink (hlen ws) (absorb (hlen ws) (hlen ws + HDR + s0) h2)"
        using if_eq pw hp True by (simp add: free_with_magic_def wl)
      have nw: "0 \<le> hlen ws" "0 \<le> hlen vs1" "0 < s0"
        using so(1) snoc y A hlen_nonneg [of ws] hlen_nonneg [of vs1] by auto
      have "heap_list (ws @ (s0 + HDR + sz1, f0) # vs1) (absorb (hlen ws) (hlen ws + HDR + s0) h2)"
        by (rule absorb_list [OF hl]) (use A pool wl nw HDR_pos in auto)
      moreover have "used 0 us = used 0 ws" using snoc y True by simp
      moreover have "ws = [] \<or> \<not> snd (last ws) \<and> settled ws"
        using sw True by (auto simp: settled_def)
      ultimately show ?thesis
        using fin [of ws "s0 + HDR + sz1" "absorb (hlen ws) (hlen ws + HDR + s0) h2"] wl True u0 e by simp
    next
      case False
      have "Ifree (Some p) h = shrink ?b h2" using if_eq pw hp False by (simp add: free_with_magic_def)
      moreover have "settled us" using stu snoc y False by (simp add: settled_def)
      ultimately show ?thesis using fin [of us sz1 h2] A u0 snoc y False by simp
    qed
  qed
qed

section \<open>What a client can do\<close>

text \<open>The client got the blocks of the list, each with the size it asked for, and has not freed them.\<close>

inductive heap_run :: "int \<Rightarrow> (int \<times> int) list \<Rightarrow> heap \<Rightarrow> bool" for pool where
  start: "heap_run pool [] \<lparr>hblks = B, heap_offset = 0, heap_head = None\<rparr>"
| got: "heap_run pool L h \<Longrightarrow> 0 < sz \<Longrightarrow> sz < 2 ^ 62 \<Longrightarrow> Imalloc pool sz h = Some (Some p, h') \<Longrightarrow>
    heap_run pool ((p, sz) # L) h'"
| full: "heap_run pool L h \<Longrightarrow> 0 < sz \<Longrightarrow> sz < 2 ^ 62 \<Longrightarrow> Imalloc pool sz h = Some (None, h') \<Longrightarrow> heap_run pool L h'"
| freed: "heap_run pool L h \<Longrightarrow> (p, sz) \<in> set L \<Longrightarrow> heap_run pool (remove1 (p, sz) L) (Ifree (Some p) h)"

definition covers :: "(int \<times> int) list \<Rightarrow> (int \<times> int) set \<Rightarrow> bool" where
  "covers L U \<longleftrightarrow> distinct (map fst L) \<and> fst ` set L = fst ` U \<and> (\<forall>(p, sz) \<in> set L. \<exists>m \<ge> sz. (p, m) \<in> U)"

lemma used_functional: "sizes_ok xs \<Longrightarrow> (p, m) \<in> used a xs \<Longrightarrow> (p, n) \<in> used a xs \<Longrightarrow> m = n"
  using used_disjoint [of xs p m a p n] used_bounds(3) [of xs p m a] used_bounds(3) [of xs p n a] by auto

lemma fst_image_remove:
  assumes "\<And>z. (p, z) \<in> U \<Longrightarrow> z = k"
  shows "fst ` (U - {(p, k)}) = fst ` U - {p}"
proof (intro equalityI subsetI)
  fix q assume "q \<in> fst ` (U - {(p, k)})"
  then obtain x where "x \<in> U" "x \<noteq> (p, k)" "q = fst x" by blast
  then obtain z where "(q, z) \<in> U" "(q, z) \<noteq> (p, k)" by (cases x) simp
  then have "(q, z) \<in> U" "q \<noteq> p" using assms by auto
  then show "q \<in> fst ` U - {p}" by (auto intro: rev_image_eqI)
next
  fix q assume "q \<in> fst ` U - {p}"
  then obtain z where "(q, z) \<in> U" "q \<noteq> p" by auto
  then show "q \<in> fst ` (U - {(p, k)})" by (auto intro: rev_image_eqI)
qed

lemma covers_remove:
  assumes c: "covers L U" and m: "(p, sz) \<in> set L" "(p, k) \<in> U" and f: "\<And>p m n. (p, m) \<in> U \<Longrightarrow> (p, n) \<in> U \<Longrightarrow> m = n"
  shows "covers (remove1 (p, sz) L) (U - {(p, k)})"
proof -
  have d: "distinct (map fst L)" "distinct L" using c by (auto simp: covers_def distinct_map)
  have s: "set (remove1 (p, sz) L) = set L - {(p, sz)}" using d(2) by simp
  have o: "q \<noteq> p" if "(q, z) \<in> set L" "(q, z) \<noteq> (p, sz)" for q z
    using that m(1) d(1) by (metis distinct_map fst_conv inj_onD)
  have "distinct (map fst (remove1 (p, sz) L))"
    using d by (auto simp: distinct_map intro: inj_on_subset)
  moreover have "fst ` (set L - {(p, sz)}) = fst ` (U - {(p, k)})"
  proof -
    have "fst ` (set L - {(p, sz)}) = fst ` set L - {p}" by (rule fst_image_remove) (use o in blast)
    moreover have "fst ` (U - {(p, k)}) = fst ` U - {p}" by (rule fst_image_remove) (use f m(2) in blast)
    ultimately show ?thesis using c by (simp add: covers_def)
  qed
  moreover have "\<exists>n \<ge> z. (q, n) \<in> U - {(p, k)}" if qz: "(q, z) \<in> set L - {(p, sz)}" for q z
  proof -
    obtain n where "n \<ge> z" "(q, n) \<in> U" using qz c by (auto simp: covers_def)
    moreover have "q \<noteq> p" using o qz by blast
    ultimately show ?thesis by blast
  qed
  ultimately show ?thesis unfolding covers_def s by auto
qed

lemma heap_run_ok:
  assumes "heap_run pool L h" "pool < 2 ^ 62" "0 \<le> pool"
  shows "\<exists>xs. heap_ok pool xs h \<and> covers L (used 0 xs)"
  using assms
proof (induction rule: heap_run.induct)
  case (start B)
  then show ?case by (intro exI [of _ "[]"]) (simp add: heap_ok_def heap_list_def covers_def)
next
  case (got L h sz p h')
  then obtain xs where xs: "heap_ok pool xs h" "covers L (used 0 xs)" by auto
  obtain xs' m where n: "heap_ok pool xs' h'" "m \<ge> sz" "used 0 xs' = insert (p, m) (used 0 xs)"
    "\<forall>q k. (q, k) \<in> used 0 xs \<longrightarrow> q \<noteq> p"
    using Imalloc_spec [OF xs(1) got.prems(1) got.hyps(2,3)] got.hyps(4) by auto
  then have "p \<notin> fst ` set L" using xs(2) by (auto simp: covers_def)
  then show ?case using xs(2) n by (intro exI [of _ xs']) (fastforce simp: covers_def)
next
  case (full L h sz h')
  then obtain xs where xs: "heap_ok pool xs h" "covers L (used 0 xs)" by auto
  then have "h' = h" using Imalloc_spec [OF xs(1) full.prems(1) full.hyps(2,3)] full.hyps(4) by auto
  then show ?case using xs by blast
next
  case (freed L h p sz)
  then obtain xs where xs: "heap_ok pool xs h" "covers L (used 0 xs)" by auto
  then obtain m where m: "(p, m) \<in> used 0 xs" using freed.hyps(2) by (fastforce simp: covers_def)
  then obtain xs' where "heap_ok pool xs' (Ifree (Some p) h)" "used 0 xs' = used 0 xs - {(p, m)}"
    using Ifree_spec [OF xs(1) freed.prems(1)] by blast
  moreover have "sizes_ok xs" using xs(1) by (simp add: heap_ok_def heap_list_def)
  ultimately show ?case
    using covers_remove [OF xs(2) freed.hyps(2) m] used_functional by (intro exI [of _ xs']) auto
qed

lemma used_empty_settled: "sizes_ok xs \<Longrightarrow> settled xs \<Longrightarrow> used a xs = {} \<Longrightarrow> xs = []"
proof (cases xs rule: rev_cases)
  case (snoc ys y)
  assume "settled xs" "used a xs = {}"
  then show ?thesis using snoc by (cases y) (auto simp: settled_def)
qed

text \<open>Blocks lie in the pool, are aligned and do not overlap; every further request gets an answer, and
  the pool is empty when everything is freed.\<close>

lemma heap_run_safe:
  assumes r: "heap_run pool L h" and pool: "pool < 2 ^ 62" "0 \<le> pool"
  shows "(p, sz) \<in> set L \<Longrightarrow> HDR \<le> p \<and> p + sz \<le> pool \<and> 16 dvd p"
    "i < j \<Longrightarrow> j < length L \<Longrightarrow> fst (L ! i) + snd (L ! i) \<le> fst (L ! j) \<or> fst (L ! j) + snd (L ! j) \<le> fst (L ! i)"
    "0 < z \<Longrightarrow> z < 2 ^ 62 \<Longrightarrow> Imalloc pool z h \<noteq> None"
    "L = [] \<Longrightarrow> heap_offset h = 0 \<and> heap_head h = None"
proof -
  obtain xs where xs: "heap_ok pool xs h" "covers L (used 0 xs)" using heap_run_ok [OF r pool] by blast
  have l: "heap_list xs h" "hlen xs \<le> pool" "settled xs" "sizes_ok xs"
    using xs(1) by (auto simp: heap_ok_def heap_list_def)
  have c: "\<exists>m \<ge> sz. (p, m) \<in> used 0 xs" if "(p, sz) \<in> set L" for p sz using xs(2) that by (auto simp: covers_def)
  show "HDR \<le> p \<and> p + sz \<le> pool \<and> 16 dvd p" if pL: "(p, sz) \<in> set L"
  proof -
    obtain m where "m \<ge> sz" "(p, m) \<in> used 0 xs" using c pL by blast
    then show ?thesis using used_bounds [OF l(4), of p m 0] used_aligned [OF l(4), of 0 p m] l(2) by auto
  qed
  show "fst (L ! i) + snd (L ! i) \<le> fst (L ! j) \<or> fst (L ! j) + snd (L ! j) \<le> fst (L ! i)" if ij: "i < j" "j < length L"
  proof -
    obtain m where m: "m \<ge> snd (L ! i)" "(fst (L ! i), m) \<in> used 0 xs" using c [of "fst (L ! i)" "snd (L ! i)"] ij by auto
    obtain n where n: "n \<ge> snd (L ! j)" "(fst (L ! j), n) \<in> used 0 xs" using c [of "fst (L ! j)" "snd (L ! j)"] ij by auto
    have "map fst L ! i \<noteq> map fst L ! j"
      using xs(2) ij nth_eq_iff_index_eq [of "map fst L" i j] by (auto simp: covers_def)
    then have "fst (L ! i) \<noteq> fst (L ! j)" using ij by simp
    then show ?thesis using used_disjoint [OF l(4) m(2) n(2)] m(1) n(1) by auto
  qed
  show "Imalloc pool z h \<noteq> None" if "0 < z" "z < 2 ^ 62" using Imalloc_spec [OF xs(1) pool(1) that] by auto
  show "heap_offset h = 0 \<and> heap_head h = None" if "L = []"
  proof -
    have "used 0 xs = {}" using xs(2) that by (auto simp: covers_def)
    then have "xs = []" using used_empty_settled l(3,4) by blast
    then show ?thesis using heap_listD [OF l(1)] by simp
  qed
qed

text \<open>Requests close to \<open>2\<^sup>64\<close> wrap around: one gets a block whose header says \<open>2\<^sup>64 - 16\<close> bytes and that
  has no memory, another is rounded to a size of 0.\<close>

lemma Imalloc_wraps:
  assumes "heap_head h = None" "heap_offset h = 0" "pool = 1024"
  shows "\<exists>h'. Imalloc pool (2 ^ 64 - 16) h = Some (Some HDR, h') \<and> heap_offset h' = 32 \<and> hb_size (hblks h' 0) = 2 ^ 64 - 16"
    "\<exists>h'. Imalloc pool (2 ^ 64 - 15) h = Some (Some HDR, h') \<and> heap_offset h' = HDR \<and> hb_size (hblks h' 0) = 0"
  using assms
  by (simp_all add: Imalloc_def bump_blk_def find_fit.simps align16_def sz64_def HDR_def)

text \<open>\<open>Icalloc\<close> multiplies in 64 bits as well.\<close>

lemma Icalloc_wraps:
  assumes "heap_head h = None" "heap_offset h = 0"
  shows "\<exists>h'. Icalloc 1024 (2 ^ 32) (2 ^ 32 + 1) h = Some (None, h')" "\<exists>h'. Icalloc 1024 (2 ^ 33) (2 ^ 31) h = Some (None, h')"
    "\<exists>h'. Icalloc 1024 (2 ^ 60 + 1) 16 h = Some (Some (HDR, 16), h')"
  using assms
  by (simp_all add: Icalloc_def Imalloc_def bump_blk_def find_fit.simps align16_def sz64_def HDR_def)

end
