(* ===== verification/Example_System.thy ===== *)
theory Example_System
  imports Messagebuf
begin

text \<open>
  A concrete state of the kernel, at which the properties are applied: task 1 runs, tasks 2 to 5
  wait for a semaphore, an event flag, a message in a mailbox and room in a message buffer,
  task 6 does not exist. \<open>x\<close> is the state of the components above.
\<close>

definition demo_tcb :: tcb where
  "demo_tcb = \<lparr>exinf = 0, tskatr = 0, resid = 1, isysmode = 0, sysmode = 0, ipriority = 9,
     bpriority = 9, priority = 9, tstate = TS_NONEXIST, nodiswai = False, klockwait = False,
     klocked = False, wspec = wspec_rmbf, wid = 0, wupcnt = 0, suscnt = 0, wercd = 0,
     winfo = WI_none, waitmask = 0, tskevt = 0, slicetime = 0, slicecnt = 0, stime = 0, utime = 0,
     wrdvno = 0, mtxlist = None, svclocked = None, reqdct = 0, texhdr = 0, texmask = 0, pendtex = 0,
     exectex = 0, texflg = 0, execssid = 0, tname = []\<rparr>"

definition demo_tcbs :: "ID \<Rightarrow> tcb" where
  "demo_tcbs = (\<lambda>_. demo_tcb)
     (1 := demo_tcb\<lparr>tstate := TS_READY\<rparr>,
      2 := demo_tcb\<lparr>tstate := TS_WAIT, priority := 5, wid := 1, wspec := wspec_sem_tfifo, winfo := WI_sem 3\<rparr>,
      3 := demo_tcb\<lparr>tstate := TS_WAIT, wid := 1, wspec := wspec_flg_tpri, winfo := WI_flg 3 0 40\<rparr>,
      4 := demo_tcb\<lparr>tstate := TS_WAIT, wid := 1, wspec := wspec_mbx_tfifo, winfo := WI_mbx 44\<rparr>,
      5 := demo_tcb\<lparr>tstate := TS_WAIT, wid := 1, wspec := wspec_smbf_tfifo, winfo := WI_smbf 200 8\<rparr>)"

definition demo_que :: "qid \<Rightarrow> ID list" where
  "demo_que q =
     (if q = Rdy 9 then [1] else if q = WaitQ OSem 1 then [2] else if q = WaitQ OFlg 1 then [3]
      else if q = WaitQ OMbx 1 then [4] else if q = WaitQ OSmbf 1 then [5]
      else if q = FreeTcb then [6] else [])"

text \<open>Mailbox 2 holds the messages 100 and 101; message buffer 1 holds the message \<open>[7]\<close>.\<close>

definition demo_mbfcb :: mbfcb where
  "demo_mbfcb = \<lparr>mbfid = 1, mbf_exinf = 0, mbfatr = 0, bufsz = 16, maxmsz = 12, frbufsz = 8,
     mbf_head = 0, mbf_tail = 8, mbf_buffer = Some ((\<lambda>_. 0)(0 := 1, 4 := 7)), mbf_name = []\<rparr>"

definition demo :: "'a \<Rightarrow> 'a mbf_st_scheme" where
  "demo x =
     \<lparr>tcbs = demo_tcbs, max_tskid = 6, ctxtsk = Some 1, schedtsk = Some 1,
      dispatch_disabled = 0, task_indep = False, cpu_di = False, que = demo_que,
      top_priority = 9, bitmap = [0x200, 0, 0, 0, 0], klocktsk = None, timer_queue = [],
      tmebs = (\<lambda>_. \<lparr>tm_time = 0, tm_callback = None\<rparr>), current_time = 1000, timer_period = 10000,
      hw_usec = 0, mem_uint = (\<lambda>_. 0), mem_int = (\<lambda>_. 0), mem_ptr = (\<lambda>_. 0),
      mem_byte = (\<lambda>a. of_nat a),
      semcb_table = (\<lambda>_. \<lparr>semid = 0, sem_exinf = 0, sematr = 0, semcnt = 0, maxsem = 0, sem_name = []\<rparr>)
        (1 := \<lparr>semid = 1, sem_exinf = 0, sematr = 0, semcnt = 1, maxsem = 5, sem_name = []\<rparr>),
      free_semcb = [2], max_semid = 2,
      flgcb_table = (\<lambda>_. \<lparr>flgid = 0, flg_exinf = 0, flgatr = 0, flgptn = 0, flg_name = []\<rparr>)
        (1 := \<lparr>flgid = 1, flg_exinf = 0, flgatr = TA_TPRI OR TA_WMUL, flgptn = 1, flg_name = []\<rparr>),
      free_flgcb = [2], max_flgid = 2,
      mbxcb_table = (\<lambda>_. \<lparr>mbxid = 0, mbx_exinf = 0, mbxatr = 0, mq_tail = 0, mbx_name = []\<rparr>)
        (1 := \<lparr>mbxid = 1, mbx_exinf = 0, mbxatr = 0, mq_tail = 0, mbx_name = []\<rparr>,
         2 := \<lparr>mbxid = 2, mbx_exinf = 0, mbxatr = 0, mq_tail = 101, mbx_name = []\<rparr>),
      free_mbxcb = [3], max_mbxid = 3,
      msg_next = (\<lambda>_. NULL)(MHead 2 := 100, MAt 100 := 101), msg_pri = (\<lambda>_. 1),
      mbfcb_table = (\<lambda>_. demo_mbfcb\<lparr>mbfid := 0\<rparr>)(1 := demo_mbfcb),
      free_mbfcb = [2], max_mbfid = 2, \<dots> = x\<rparr>"

lemmas demo_defs = demo_def demo_tcbs_def demo_que_def demo_tcb_def

lemma demo_sel [simp]:
  "tcbs (demo x) = demo_tcbs" "que (demo x) = demo_que" "ctxtsk (demo x) = Some 1"
  "schedtsk (demo x) = Some 1" "klocktsk (demo x) = None" "top_priority (demo x) = 9"
  "bitmap (demo x) = [0x200, 0, 0, 0, 0]" "max_tskid (demo x) = 6" "timer_queue (demo x) = []"
  "dispatch_disabled (demo x) = 0" "task_indep (demo x) = False" "cpu_di (demo x) = False"
  "current_time (demo x) = 1000" "hw_usec (demo x) = 0" "mem_byte (demo x) = of_nat"
  "max_semid (demo x) = 2" "free_semcb (demo x) = [2]" "max_flgid (demo x) = 2" "free_flgcb (demo x) = [2]"
  "max_mbxid (demo x) = 3" "free_mbxcb (demo x) = [3]" "max_mbfid (demo x) = 2" "free_mbfcb (demo x) = [2]"
  "msg_next (demo x) = (\<lambda>_. NULL)(MHead 2 := 100, MAt 100 := 101)" "msg_pri (demo x) = (\<lambda>_. 1)"
  "mbfcb_table (demo x) = (\<lambda>_. demo_mbfcb\<lparr>mbfid := 0\<rparr>)(1 := demo_mbfcb)"
  by (simp_all add: demo_def)

lemma demo_tcbs_simps [simp]:
  "demo_tcbs 1 = demo_tcb\<lparr>tstate := TS_READY\<rparr>"
  "demo_tcbs 2 = demo_tcb\<lparr>tstate := TS_WAIT, priority := 5, wid := 1, wspec := wspec_sem_tfifo, winfo := WI_sem 3\<rparr>"
  "demo_tcbs 3 = demo_tcb\<lparr>tstate := TS_WAIT, wid := 1, wspec := wspec_flg_tpri, winfo := WI_flg 3 0 40\<rparr>"
  "demo_tcbs 4 = demo_tcb\<lparr>tstate := TS_WAIT, wid := 1, wspec := wspec_mbx_tfifo, winfo := WI_mbx 44\<rparr>"
  "demo_tcbs 5 = demo_tcb\<lparr>tstate := TS_WAIT, wid := 1, wspec := wspec_smbf_tfifo, winfo := WI_smbf 200 8\<rparr>"
  "t \<notin> {1, 2, 3, 4, 5} \<Longrightarrow> demo_tcbs t = demo_tcb"
  by (simp_all add: demo_tcbs_def)

lemma demo_tcb_simps [simp]:
  "tstate demo_tcb = TS_NONEXIST" "priority demo_tcb = 9" "klockwait demo_tcb = False"
  "klocked demo_tcb = False" "wid demo_tcb = 0" "waitmask demo_tcb = 0"
  by (simp_all add: demo_tcb_def)

lemma demo_tasks:
  "klockwait (demo_tcbs t) = False" "klocked (demo_tcbs t) = False"
  "priority (demo_tcbs t) = (if t = 2 then 5 else 9)"
  "tstate (demo_tcbs t) = (if t = 1 then TS_READY else if t \<in> {2, 3, 4, 5} then TS_WAIT else TS_NONEXIST)"
  "waitmask (demo_tcbs t) = 0"
  by (auto simp: demo_tcbs_def demo_tcb_def)

lemma demo_que_simps [simp]:
  "demo_que (Rdy p) = (if p = 9 then [1] else [])" "demo_que FreeTcb = [6]"
  "demo_que (LockQ k i) = []"
  "demo_que (WaitQ k i) = (if i \<noteq> 1 then [] else
     case k of OSem \<Rightarrow> [2] | OFlg \<Rightarrow> [3] | OMbx \<Rightarrow> [4] | OSmbf \<Rightarrow> [5] | _ \<Rightarrow> [])"
  by (auto simp: demo_que_def split: okind.split)

lemma demo_bitmap: "p < NUM_PRI \<Longrightarrow> BitTest [0x200, 0, 0, 0, 0] p \<longleftrightarrow> p = 9"
proof -
  have b: "bit (0x200 :: UINT) n \<longleftrightarrow> n = 9" for n
  proof -
    have "(0x200 :: UINT) = 2 ^ 9" by simp
    then show ?thesis by (simp only: bit_exp_iff) auto
  qed
  assume "p < NUM_PRI"
  then have "p div 32 < 5" by (simp add: NUM_PRI_def)
  then consider "p div 32 = 0" | "p div 32 = 1" | "p div 32 = 2" | "p div 32 = 3" | "p div 32 = 4"
    by linarith
  then show ?thesis
  proof cases
    case 1
    then have "p = p mod 32" by (simp add: div_eq_0_iff)
    then show ?thesis using 1 b [of "p mod 32"] by (simp add: BitTest_bit)
  qed (auto simp: BitTest_bit)
qed

lemma demo_kinv: "kinv (demo x)"
proof (rule kinv_xI)
  have "que_ok demo_que" by (auto simp: que_ok_def demo_que_def)
  then show "rdq_ok (demo x)"
    by (auto simp: rdq_ok_def demo_bitmap NUM_BITMAP_def NUM_PRI_def)
qed (auto simp: demo_tasks NUM_PRI_def split: if_splits okind.splits)

lemma demo_sched_ok: "sched_ok (demo x)"
  by (simp add: sched_ok_def demo_tasks ready_queue_top_def NUM_PRI_def)

lemma demo_running [simp]: "running 1 (demo x)"
  by (simp add: running_def)

lemma demo_not_ddsp [simp]: "\<not> in_ddsp (demo x)"
  by (simp add: in_ddsp_def in_indp_def)

lemma demo_exists [simp]:
  "sem_exists i (demo x) \<longleftrightarrow> i = 1" "flg_exists i (demo x) \<longleftrightarrow> i = 1"
  "mbx_exists i (demo x) \<longleftrightarrow> i = 1 \<or> i = 2" "mbf_exists i (demo x) \<longleftrightarrow> i = 1"
  by (auto simp: sem_exists_def flg_exists_def mbx_exists_def mbf_exists_def chk_id_def demo_def demo_mbfcb_def)

lemma demo_sem_ok: "sem_ok (demo x)"
  by (auto simp: sem_ok_def demo_kinv sem_obj_ok_def sem_obj_pre_def sem_obj_settled_def Let_def
      sem_no_lost_def sem_reqs_def chk_id_def has_def)
    (simp_all add: demo_def wspec_sem_tfifo_def has_def TA_CNT_def)

lemma demo_flg_ok: "flg_ok (demo x)"
proof -
  have ids: "flgid (flgcb_table (demo x) j) = (if j = 1 then 1 else 0)" for j by (simp add: demo_def)
  have fr: "j \<in> set (free_flgcb (demo x)) \<longleftrightarrow>
      chk_id (max_flgid (demo x)) j \<and> flgid (flgcb_table (demo x) j) = 0" for j
    unfolding ids by (auto simp: chk_id_def)
  have "flg_obj_pre 1 (demo x)" "flg_obj_settled 1 (demo x)"
    by (simp_all add: flg_obj_pre_def flg_obj_settled_def Let_def)
      (simp_all add: demo_def has_def TA_TPRI_def TA_WMUL_def eventflag_cond_def TWF_ORW_def)
  then show ?thesis unfolding flg_ok_def using demo_kinv fr by (auto split: if_splits)
qed

lemma demo_mbx_content: "mbx_content 1 (demo x) = Some []" "mbx_content 2 (demo x) = Some [100, 101]"
  by (simp_all add: mbx_content_iff)

lemma demo_mbx_ok: "mbx_ok (demo x)"
proof (rule mbx_okI)
  have ids: "mbxid (mbxcb_table (demo x) j) = (if j = 1 \<or> j = 2 then j else 0)" for j
    by (simp add: demo_def)
  have fr: "j \<in> set (free_mbxcb (demo x)) \<longleftrightarrow>
      chk_id (max_mbxid (demo x)) j \<and> mbxid (mbxcb_table (demo x) j) = 0" for j
    unfolding ids by (auto simp: chk_id_def)
  have "mbx_obj_pre 1 (demo x)" "mbx_obj_settled 1 (demo x)" "mbx_obj_pre 2 (demo x)" "mbx_obj_settled 2 (demo x)"
    by (simp_all add: mbx_obj_pre_def mbx_obj_settled_def Let_def demo_mbx_content chk_id_def)
      (simp_all add: demo_def has_def)
  then show "mbx_pool_ok (demo x)" unfolding mbx_pool_ok_def using demo_kinv fr by (auto split: if_splits)
  show "mbx_disjoint (demo x)"
    by (auto simp: mbx_disjoint_def demo_mbx_content)
qed

lemma demo_holds: "mbf_holds demo_mbfcb [[7]]"
proof -
  have "hdr_byte 1 k = (if k = 0 then 1 else 0)" if k: "k < 4" for k
  proof -
    consider "k = 0" | "k = 1" | "k = 2" | "k = 3" using k by linarith
    then show ?thesis by cases (simp_all add: hdr_byte_def)
  qed
  then show ?thesis
    by (auto simp: mbf_holds_def demo_mbfcb_def used_def msize_def round4_def)
qed

lemma demo_not_free: "\<not> mbf_free demo_mbfcb 8"
  using mbf_free_iff [OF demo_holds, of 8] by (simp add: demo_mbfcb_def round4_def)

lemma demo_mbf_ok: "mbf_ok (demo x)"
proof -
  have pre: "mbf_obj_pre 1 (demo x)"
    using demo_holds by (auto simp: mbf_obj_pre_def Let_def demo_mbfcb_def has_def)
  have st: "mbf_obj_settled 1 (demo x)" using demo_not_free by (simp add: mbf_obj_settled_def)
  have ids: "mbfid (mbfcb_table (demo x) j) = (if j = 1 then 1 else 0)" for j by (simp add: demo_mbfcb_def)
  have fr: "j \<in> set (free_mbfcb (demo x)) \<longleftrightarrow>
      chk_id (max_mbfid (demo x)) j \<and> mbfid (mbfcb_table (demo x) j) = 0" for j
    unfolding ids by (auto simp: chk_id_def)
  show ?thesis unfolding mbf_ok_def using demo_kinv fr pre st by (auto split: if_splits)
qed


end
