(* ===== verification/Example_Pools.thy ===== *)
theory Example_Pools
  imports Example_System Rendezvous
begin

text \<open>
  The concrete state with memory pools and a rendezvous port: task 7 waits at port 1 for an acceptor
  of pattern 1 with a message of 4 bytes, task 8 for 24 bytes of the variable-size pool 1, task 9
  for a block of the fixed-size pool 1; all blocks of the pools are out. Rendezvous numbers have the
  task ID in their lower half, as \<open>task_initialize\<close> sets them.
\<close>

definition demo_mpfcb :: mpfcb where
  "demo_mpfcb = \<lparr>mpfid = 1, mpf_exinf = 0, mpfatr = 0, mpfcnt = 2, blfsz = 8, mpfsz = 16, frbcnt = 0,
     mpf_mempool = 400, mpf_unused = 416, mpf_freelist = [], mpf_name = []\<rparr>"

definition demo_mpool :: mpool where
  "demo_mpool = snd (get_blk 64 (init_mempool 1000 (64 + 16) 64))"

definition demo_mplcb :: mplcb where
  "demo_mplcb = \<lparr>mplid = 1, mpl_exinf = 0, mplatr = 0, mpl_pool = demo_mpool, mpl_name = []\<rparr>"

definition demo_porcb :: porcb where
  "demo_porcb = \<lparr>porid = 1, por_exinf = 0, poratr = 0, maxcmsz = 16, maxrmsz = 16, por_name = []\<rparr>"

definition pools_tcbs :: "ID \<Rightarrow> tcb" where
  "pools_tcbs t =
     ((demo_tcbs
        (7 := demo_tcb\<lparr>tstate := TS_WAIT, wid := 1, wspec := wspec_cal_tfifo, winfo := WI_cal 1 300 4 60\<rparr>,
         8 := demo_tcb\<lparr>tstate := TS_WAIT, wid := 1, wspec := wspec_mpl_tfifo, winfo := WI_mpl 24 70\<rparr>,
         9 := demo_tcb\<lparr>tstate := TS_WAIT, wid := 1, wspec := wspec_mpf_tfifo, winfo := WI_mpf 80\<rparr>)) t)
     \<lparr>wrdvno := word_of_int t\<rparr>"

definition pools_que :: "qid \<Rightarrow> ID list" where
  "pools_que q =
     (if q = WaitQ OCal 1 then [7] else if q = WaitQ OMpl 1 then [8] else if q = WaitQ OMpf 1 then [9] else demo_que q)"

definition pools :: "'a \<Rightarrow> 'a por_st_scheme" where
  "pools x = (demo (klk_st_ext (\<lambda>_ _. False) (\<lambda>_. False) (\<lambda>_. None)
     (mpf_st_ext ((\<lambda>_. demo_mpfcb\<lparr>mpfid := 0\<rparr>)(1 := demo_mpfcb)) [2] 2
     (mpl_st_ext ((\<lambda>_. demo_mplcb\<lparr>mplid := 0\<rparr>)(1 := demo_mplcb)) [2] 2
     (por_st_ext ((\<lambda>_. demo_porcb\<lparr>porid := 0\<rparr>)(1 := demo_porcb)) [2] 2 x)))))
     \<lparr>tcbs := pools_tcbs, que := pools_que, max_tskid := 9\<rparr>"

lemma pools_sel [simp]:
  "tcbs (pools x) = pools_tcbs" "que (pools x) = pools_que" "ctxtsk (pools x) = Some 1"
  "schedtsk (pools x) = Some 1" "klocktsk (pools x) = None" "top_priority (pools x) = 9"
  "bitmap (pools x) = [0x200, 0, 0, 0, 0]" "max_tskid (pools x) = 9"
  "dispatch_disabled (pools x) = 0" "task_indep (pools x) = False" "cpu_di (pools x) = False"
  "obj_locked (pools x) = (\<lambda>_ _. False)" "svc_locked (pools x) = (\<lambda>_. False)" "svc_locklist (pools x) = (\<lambda>_. None)"
  "mpfcb_table (pools x) = (\<lambda>_. demo_mpfcb\<lparr>mpfid := 0\<rparr>)(1 := demo_mpfcb)" "free_mpfcb (pools x) = [2]"
  "max_mpfid (pools x) = 2"
  "mplcb_table (pools x) = (\<lambda>_. demo_mplcb\<lparr>mplid := 0\<rparr>)(1 := demo_mplcb)" "free_mplcb (pools x) = [2]"
  "max_mplid (pools x) = 2"
  "porcb_table (pools x) = (\<lambda>_. demo_porcb\<lparr>porid := 0\<rparr>)(1 := demo_porcb)" "free_porcb (pools x) = [2]"
  "max_porid (pools x) = 2" "mem_byte (pools x) = of_nat"
  by (simp_all add: pools_def demo_def)

lemma pools_tasks:
  "klockwait (pools_tcbs t) = False" "klocked (pools_tcbs t) = False"
  "priority (pools_tcbs t) = (if t = 2 then 5 else 9)" "waitmask (pools_tcbs t) = 0"
  "tstate (pools_tcbs t) = (if t = 1 then TS_READY else if t \<in> {2, 3, 4, 5, 7, 8, 9} then TS_WAIT else TS_NONEXIST)"
  "t \<in> {2, 3, 4, 5, 7, 8, 9} \<Longrightarrow> wid (pools_tcbs t) = 1" "wrdvno (pools_tcbs t) = word_of_int t"
  by (auto simp: pools_tcbs_def demo_tcbs_def demo_tcb_def)

lemma pools_waits [simp]:
  "winfo (pools_tcbs 7) = WI_cal 1 300 4 60" "wspec (pools_tcbs 7) = wspec_cal_tfifo"
  "winfo (pools_tcbs 8) = WI_mpl 24 70" "wspec (pools_tcbs 8) = wspec_mpl_tfifo"
  "winfo (pools_tcbs 9) = WI_mpf 80" "wspec (pools_tcbs 9) = wspec_mpf_tfifo"
  by (simp_all add: pools_tcbs_def)

lemma pools_que_simps [simp]:
  "pools_que (Rdy p) = (if p = 9 then [1] else [])" "pools_que FreeTcb = [6]"
  "pools_que (LockQ k i) = []"
  "pools_que (WaitQ k i) = (if i \<noteq> 1 then [] else
     case k of OSem \<Rightarrow> [2] | OFlg \<Rightarrow> [3] | OMbx \<Rightarrow> [4] | OSmbf \<Rightarrow> [5] | OCal \<Rightarrow> [7] | OMpl \<Rightarrow> [8] | OMpf \<Rightarrow> [9] | _ \<Rightarrow> [])"
  by (auto simp: pools_que_def split: okind.split)

lemma pools_kinv: "kinv (pools x)"
proof (rule kinv_xI)
  have "que_ok pools_que" by (auto simp: que_ok_def pools_que_def demo_que_def)
  then show "rdq_ok (pools x)"
    by (auto simp: rdq_ok_def demo_bitmap pools_tasks NUM_BITMAP_def NUM_PRI_def)
qed (auto simp: pools_tasks NUM_PRI_def split: if_splits okind.splits)

lemma pools_running [simp]: "running 1 (pools x)" "\<not> in_ddsp (pools x)" "\<not> in_indp (pools x)"
  by (simp_all add: running_def pools_tasks in_ddsp_def in_indp_def)

lemma demo_mpool: "mpool_inv demo_mpool" "blocks demo_mpool = {1008}" "MaxFreeSize demo_mpool = 0"
proof -
  have g: "get_blk 64 (init_mempool 1000 (64 + 16) 64) = (Some 1008, demo_mpool)"
    unfolding demo_mpool_def by (rule prod_eqI) (simp, code_simp, simp)
  have b: "blocks (init_mempool 1000 (64 + 16) 64) = {}"
    using init_mempool_ok(2) [of 64 1000] by (auto simp: blocks_def busy_areas_def)
  show "mpool_inv demo_mpool" "blocks demo_mpool = {1008}"
    using get_blk_some_facts [OF init_mempool_ok(1) [of 64 1000] _ _ g] b by simp_all
  show "MaxFreeSize demo_mpool = 0" unfolding demo_mpool_def by code_simp
qed

lemma pools_exists [simp]:
  "mpf_exists i (pools x) \<longleftrightarrow> i = 1" "mpl_exists i (pools x) \<longleftrightarrow> i = 1" "por_exists i (pools x) \<longleftrightarrow> i = 1"
  by (auto simp: mpf_exists_def mpl_exists_def por_exists_def chk_id_def demo_mpfcb_def demo_mplcb_def demo_porcb_def)

lemma pools_mpl_ok: "mpl_ok (pools x)"
proof -
  have ids: "mplid (mplcb_table (pools x) j) = (if j = 1 then 1 else 0)" for j by (simp add: demo_mplcb_def)
  have fr: "j \<in> set (free_mplcb (pools x)) \<longleftrightarrow>
      chk_id (max_mplid (pools x)) j \<and> mplid (mplcb_table (pools x) j) = 0" for j
    unfolding ids by (auto simp: chk_id_def)
  have "mpl_obj_pre 1 (pools x)" "mpl_obj_settled 1 (pools x)"
    by (simp_all add: mpl_obj_pre_def mpl_obj_settled_def Let_def demo_mplcb_def demo_mpool mpl_request_ok_def has_def)
  then show ?thesis unfolding mpl_ok_def using pools_kinv fr by (auto split: if_splits)
qed

lemma pools_mpf_ok: "mpf_ok (pools x)"
proof -
  have ids: "mpfid (mpfcb_table (pools x) j) = (if j = 1 then 1 else 0)" for j by (simp add: demo_mpfcb_def)
  have fr: "j \<in> set (free_mpfcb (pools x)) \<longleftrightarrow>
      chk_id (max_mpfid (pools x)) j \<and> mpfid (mpfcb_table (pools x) j) = 0" for j
    unfolding ids by (auto simp: chk_id_def)
  have "mpf_blocks_ok demo_mpfcb"
    by (simp add: mpf_blocks_ok_def demo_mpfcb_def mpf_used_def mpf_block_def)
  then have "mpf_obj_pre 1 (pools x)" "mpf_obj_settled 1 (pools x)"
    by (simp_all add: mpf_obj_pre_def mpf_obj_settled_def Let_def) (simp_all add: demo_mpfcb_def has_def)
  then show ?thesis unfolding mpf_ok_def using pools_kinv fr by (auto split: if_splits)
qed

lemma pools_por_inv: "por_inv (pools x)"
proof -
  have ids: "porid (porcb_table (pools x) j) = (if j = 1 then 1 else 0)" for j by (simp add: demo_porcb_def)
  have fr: "j \<in> set (free_porcb (pools x)) \<longleftrightarrow>
      chk_id (max_porid (pools x)) j \<and> porid (porcb_table (pools x) j) = 0" for j
    unfolding ids by (auto simp: chk_id_def)
  have "por_obj_pre 1 (pools x)" "por_obj_settled 1 (pools x)"
    by (simp_all add: por_obj_pre_def por_obj_settled_def Let_def demo_porcb_def has_def)
  then have "por_ok (pools x)" unfolding por_ok_def using pools_kinv fr by (auto split: if_splits)
  moreover have "rdv_inv (pools x)"
    unfolding rdv_inv_def rdv_waits_def
  proof (intro conjI allI impI)
    fix t assume "tstate (tcbs (pools x) t) \<noteq> TS_NONEXIST"
    then have "t \<in> {1, 2, 3, 4, 5, 7, 8, 9}" by (auto simp: pools_tasks split: if_splits)
    then show "get_tskid_rdvno (wrdvno (tcbs (pools x) t)) = t"
      by (auto simp: pools_tasks get_tskid_rdvno_def RDVNO_SHIFT_def)
  next
    fix t
    have "wspec (pools_tcbs t) \<noteq> wspec_rdv"
      by (auto simp: pools_tcbs_def demo_tcbs_def demo_tcb_def wspec_rdv_def wspec_rmbf_def wspec_sem_tfifo_def
          wspec_flg_tpri_def wspec_mbx_tfifo_def wspec_smbf_tfifo_def wspec_mpl_tfifo_def wspec_mpf_tfifo_def
          wspec_cal_tfifo_def TTW_RMBF_def TTW_RDV_def TTW_MBX_def TTW_CAL_def TTW_MPF_def)
    moreover assume "in_wait (tstate (tcbs (pools x) t)) \<and> wspec (tcbs (pools x) t) = wspec_rdv"
    ultimately have False by simp
    then show "get_tskid_rdvno (rdv_rdvno (winfo (tcbs (pools x) t))) = t" "is_WI_rdv (winfo (tcbs (pools x) t))"
      "t \<notin> set (que (pools x) (WaitQ k i))" for k i by simp_all
  qed
  ultimately show ?thesis by (simp add: por_inv_def)
qed

end
