(* ===== verification/Example_Mutex.thy ===== *)
theory Example_Mutex
  imports Mutex_Steps Example_Pools
begin

text \<open>
  Two states with mutexes. In \<open>lent\<close> task 1 runs and holds mutex 1, for which task 2 waits;
  task 4 holds mutex 2, for which task 3 waits, and waits itself for mutex 3, which task 5 holds:
  a change for task 4 goes on to task 5. In \<open>circle\<close> the tasks 1 and 2 wait for each other.
\<close>

definition mtx_free :: mtxcb where
  "mtx_free = \<lparr>mtxid = 0, mtx_exinf = 0, mtxatr = 0, ceilpri = 0, mtxtsk = None, mtx_link = None, mtx_name = []\<rparr>"

definition mtx_held :: "ID \<Rightarrow> ID \<Rightarrow> mtxcb" where
  "mtx_held i t = mtx_free\<lparr>mtxid := i, mtxatr := TA_INHERIT, mtxtsk := Some t\<rparr>"

definition mtx_task :: "nat \<Rightarrow> nat \<Rightarrow> tstat \<Rightarrow> ID \<Rightarrow> ID option \<Rightarrow> tcb" where
  "mtx_task b p st w l = demo_tcb\<lparr>bpriority := b, priority := p, tstate := st, wid := w,
     wspec := wspec_mtx_inherit, mtxlist := l\<rparr>"

definition mtx_system :: "(ID \<Rightarrow> tcb) \<Rightarrow> (qid \<Rightarrow> ID list) \<Rightarrow> nat \<Rightarrow> UINT \<Rightarrow> ID \<Rightarrow> (ID \<Rightarrow> mtxcb) \<Rightarrow> ID list \<Rightarrow> mtx_st" where
  "mtx_system tc q tp bm run tab free = (pools (mtx_st_ext tab free 4 ()))
     \<lparr>tcbs := tc, que := q, top_priority := tp, bitmap := [bm, 0, 0, 0, 0], ctxtsk := Some run, schedtsk := Some run\<rparr>"

definition circle :: mtx_st where
  "circle = mtx_system
     ((\<lambda>_. demo_tcb)
        (1 := mtx_task 20 5 TS_WAIT 2 (Some 1), 2 := mtx_task 8 5 TS_WAIT 1 (Some 2),
         3 := mtx_task 5 5 TS_WAIT 1 None, 4 := mtx_task 9 9 TS_READY 0 None))
     (\<lambda>q. if q = Rdy 9 then [4] else if q = WaitQ OMtx 1 then [2, 3] else if q = WaitQ OMtx 2 then [1] else [])
     9 0x200 4 ((\<lambda>_. mtx_free)(1 := mtx_held 1 1, 2 := mtx_held 2 2)) [3, 4]"

definition lent :: mtx_st where
  "lent = mtx_system
     ((\<lambda>_. demo_tcb)
        (1 := mtx_task 20 9 TS_READY 0 (Some 1), 2 := mtx_task 9 9 TS_WAIT 1 None,
         3 := mtx_task 15 15 TS_WAIT 2 None, 4 := mtx_task 30 15 TS_WAIT 3 (Some 2),
         5 := (mtx_task 40 15 TS_WAIT 0 (Some 3))\<lparr>wspec := wspec_mtx_tfifo\<rparr>))
     (\<lambda>q. if q = Rdy 9 then [1] else if q = WaitQ OMtx 1 then [2] else if q = WaitQ OMtx 2 then [3]
        else if q = WaitQ OMtx 3 then [4] else [])
     9 0x200 1 ((\<lambda>_. mtx_free)(1 := mtx_held 1 1, 2 := mtx_held 2 4, 3 := mtx_held 3 5)) [4]"

lemma mtx_system_sel [simp]:
  "tcbs (mtx_system tc q tp bm run tab free) = tc" "que (mtx_system tc q tp bm run tab free) = q"
  "ctxtsk (mtx_system tc q tp bm run tab free) = Some run"
  "schedtsk (mtx_system tc q tp bm run tab free) = Some run"
  "klocktsk (mtx_system tc q tp bm run tab free) = None"
  "top_priority (mtx_system tc q tp bm run tab free) = tp"
  "bitmap (mtx_system tc q tp bm run tab free) = [bm, 0, 0, 0, 0]"
  "mtxcb_table (mtx_system tc q tp bm run tab free) = tab"
  "free_mtxcb (mtx_system tc q tp bm run tab free) = free" "max_mtxid (mtx_system tc q tp bm run tab free) = 4"
  "dispatch_disabled (mtx_system tc q tp bm run tab free) = 0" "task_indep (mtx_system tc q tp bm run tab free) = False"
  "cpu_di (mtx_system tc q tp bm run tab free) = False"
  by (simp_all add: mtx_system_def pools_def demo_def)

lemma mtx_task_sel [simp]:
  "bpriority (mtx_task b p st w l) = b" "priority (mtx_task b p st w l) = p" "tstate (mtx_task b p st w l) = st"
  "wid (mtx_task b p st w l) = w" "wspec (mtx_task b p st w l) = wspec_mtx_inherit"
  "mtxlist (mtx_task b p st w l) = l" "klockwait (mtx_task b p st w l) = False"
  "waitmask (mtx_task b p st w l) = 0"
  by (simp_all add: mtx_task_def)

lemma mtx_held_sel [simp]:
  "mtxid (mtx_held i t) = i" "mtxtsk (mtx_held i t) = Some t" "mtx_link (mtx_held i t) = None"
  "mtxatr (mtx_held i t) = TA_INHERIT" "mtxid mtx_free = 0" "mtxtsk mtx_free = None"
  by (simp_all add: mtx_held_def mtx_free_def)

lemma lent_sel:
  "tcbs lent = (\<lambda>_. demo_tcb)
        (1 := mtx_task 20 9 TS_READY 0 (Some 1), 2 := mtx_task 9 9 TS_WAIT 1 None,
         3 := mtx_task 15 15 TS_WAIT 2 None, 4 := mtx_task 30 15 TS_WAIT 3 (Some 2),
         5 := (mtx_task 40 15 TS_WAIT 0 (Some 3))\<lparr>wspec := wspec_mtx_tfifo\<rparr>)"
  "que lent = (\<lambda>q. if q = Rdy 9 then [1] else if q = WaitQ OMtx 1 then [2] else if q = WaitQ OMtx 2 then [3]
        else if q = WaitQ OMtx 3 then [4] else [])"
  "mtxcb_table lent = (\<lambda>_. mtx_free)(1 := mtx_held 1 1, 2 := mtx_held 2 4, 3 := mtx_held 3 5)"
  "free_mtxcb lent = [4]" "max_mtxid lent = 4"
  by (simp_all add: lent_def)

lemma inherit_and_ceiling [simp]: "TA_INHERIT AND TA_CEILING = TA_INHERIT"
  by (simp add: TA_INHERIT_def TA_CEILING_def)

lemma lent_exists: "mtx_exists i lent \<longleftrightarrow> i \<in> {1, 2, 3}"
  by (auto simp: mtx_exists_def lent_def chk_id_def)

lemma lent_kind: "i \<in> {1, 2, 3} \<Longrightarrow> mtx_kind i lent = TA_INHERIT"
  by (auto simp: mtx_kind_def lent_def)

lemma lent_holds: "holds {} t lent = (if t = 1 then {1} else if t = 4 then {2} else if t = 5 then {3} else {})"
  unfolding holds_def lent_exists by (auto simp: lent_def)

lemma lent_boosts:
  "boosts {1} lent = {9}" "boosts {2} lent = {15}" "boosts {3} lent = {15}" "boosts {} lent = {}"
  by (simp_all add: boosts_def lent_kind) (simp_all add: lent_def)

lemma lent_alive: "task_alive (tstate (tcbs lent t)) \<longleftrightarrow> t \<in> {1, 2, 3, 4, 5}"
  by (auto simp: lent_def task_alive_iff)

lemma lent_kinv: "kinv lent"
proof (rule kinv_xI)
  have "que_ok (que lent)" by (auto simp: que_ok_def lent_def)
  then show "rdq_ok lent"
    by (auto simp: rdq_ok_def demo_bitmap NUM_BITMAP_def NUM_PRI_def) (auto simp: lent_def demo_bitmap NUM_PRI_def split: if_splits)
qed (auto simp: lent_def NUM_PRI_def split: if_splits)

lemma lent_ok: "mtx_ok lent"
proof (rule mtx_okI)
  show "kinv lent" by (rule lent_kinv)
  show "finite {u. tstate (tcbs lent u) \<noteq> TS_NONEXIST}"
    by (rule finite_subset [of _ "{1, 2, 3, 4, 5}"]) (auto simp: lent_def split: if_splits)
  show "priority (tcbs lent t) = eff_pri {} no_extra t lent" if "task_alive (tstate (tcbs lent t))" for t
    using that unfolding lent_alive by (auto simp: eff_pri_def lent_holds lent_boosts) (auto simp: lent_def)
  show "mtx_struct {} lent"
  proof (rule mtx_structI)
    show "\<exists>ms. mlist ms (mtxlist (tcbs lent t)) lent \<and> distinct ms \<and> set ms = holds {} t lent"
      if "task_alive (tstate (tcbs lent t))" for t
      using that unfolding lent_alive lent_holds
      by (intro exI [of _ "if t = 1 then [1] else if t = 4 then [2] else if t = 5 then [3] else []"])
        (auto simp: lent_def)
  qed (auto simp: lent_exists lent_kind lent_alive lent_sel mtx_wspec_def chk_id_def NUM_PRI_def task_alive_iff split: if_splits)
qed

lemma lent_running [simp]: "running 1 lent"
  by (simp add: running_def lent_def)

section \<open>The circle\<close>

lemma circle_sel:
  "tcbs circle = (\<lambda>_. demo_tcb)
        (1 := mtx_task 20 5 TS_WAIT 2 (Some 1), 2 := mtx_task 8 5 TS_WAIT 1 (Some 2),
         3 := mtx_task 5 5 TS_WAIT 1 None, 4 := mtx_task 9 9 TS_READY 0 None)"
  "que circle = (\<lambda>q. if q = Rdy 9 then [4] else if q = WaitQ OMtx 1 then [2, 3] else if q = WaitQ OMtx 2 then [1] else [])"
  "mtxcb_table circle = (\<lambda>_. mtx_free)(1 := mtx_held 1 1, 2 := mtx_held 2 2)"
  "free_mtxcb circle = [3, 4]" "max_mtxid circle = 4"
  by (simp_all add: circle_def)

lemma circle_exists: "mtx_exists i circle \<longleftrightarrow> i \<in> {1, 2}"
  by (auto simp: mtx_exists_def circle_sel chk_id_def)

lemma circle_kind: "i \<in> {1, 2} \<Longrightarrow> mtx_kind i circle = TA_INHERIT"
  by (auto simp: mtx_kind_def circle_sel)

lemma circle_holds: "holds {} t circle = (if t = 1 then {1} else if t = 2 then {2} else {})"
  unfolding holds_def circle_exists by (auto simp: circle_sel)

lemma circle_boosts: "boosts {1} circle = {5}" "boosts {2} circle = {5}" "boosts {} circle = {}"
  by (simp_all add: boosts_def circle_kind) (simp_all add: circle_sel)

lemma circle_alive: "task_alive (tstate (tcbs circle t)) \<longleftrightarrow> t \<in> {1, 2, 3, 4}"
  by (auto simp: circle_sel task_alive_iff)

lemma circle_kinv: "kinv circle"
proof (rule kinv_xI)
  have "que_ok (que circle)" by (auto simp: que_ok_def circle_sel)
  then show "rdq_ok circle"
    by (auto simp: rdq_ok_def NUM_BITMAP_def NUM_PRI_def) (auto simp: circle_def demo_bitmap NUM_PRI_def split: if_splits)
qed (auto simp: circle_def NUM_PRI_def split: if_splits)

lemma circle_ok: "mtx_ok circle"
proof (rule mtx_okI)
  show "kinv circle" by (rule circle_kinv)
  show "finite {u. tstate (tcbs circle u) \<noteq> TS_NONEXIST}"
    by (rule finite_subset [of _ "{1, 2, 3, 4}"]) (auto simp: circle_sel split: if_splits)
  show "priority (tcbs circle t) = eff_pri {} no_extra t circle" if "task_alive (tstate (tcbs circle t))" for t
    using that unfolding circle_alive
    by (auto simp: eff_pri_def circle_holds circle_boosts) (auto simp: circle_sel)
  show "mtx_struct {} circle"
  proof (rule mtx_structI)
    show "\<exists>ms. mlist ms (mtxlist (tcbs circle t)) circle \<and> distinct ms \<and> set ms = holds {} t circle"
      if "task_alive (tstate (tcbs circle t))" for t
      using that unfolding circle_alive circle_holds
      by (intro exI [of _ "if t = 1 then [1] else if t = 2 then [2] else []"]) (auto simp: circle_sel)
  qed (auto simp: circle_exists circle_kind circle_alive circle_sel mtx_wspec_def chk_id_def NUM_PRI_def
      task_alive_iff split: if_splits)
qed

text \<open>Evaluation of the functions that call each other.\<close>

declare release_loop.simps [code] mtx_chg_pri.simps [code]

text \<open>What is left of task 1 after task 4 has deleted mutex 1: its mutexes and its priorities.\<close>

definition after_deletion :: "mtx_st \<Rightarrow> (ER \<times> ID option \<times> nat \<times> nat) option" where
  "after_deletion s = map_option (\<lambda>(e, s). (e, mtxlist (tcbs s 1), bpriority (tcbs s 1), priority (tcbs s 1)))
     (tk_del_mtx 1 s)"

lemma circle_deleted: "after_deletion circle = Some (0, None, 20, 8)"
  by code_simp


text \<open>The base priority of task 2 is raised; it lends the new priority to task 1.\<close>

lemma lent_changed:
  obtains s' where "change_base_priority 2 7 lent = Some (E_OK, s')" "mtx_step lent s'"
    "task_alive (tstate (tcbs s' t)) = task_alive (tstate (tcbs lent t))"
proof -
  have al: "task_alive (tstate (tcbs lent 2))" by (simp add: lent_alive)
  have np: "\<not> passes_ceiling 2 7 lent"
    unfolding passes_ceiling_def lent_holds by (simp add: lent_sel mtx_kind_def)
  obtain e s' where "change_base_priority 2 7 lent = Some (e, s')" "e = E_OK" "mtx_keeps s' (set_base 2 7 lent)"
    using change_base_priority_ok [OF lent_ok al, of 7] np by (auto simp: NUM_PRI_def)
  then show thesis
    using al mtx_keepsD(10) [of s' "set_base 2 7 lent" t]
    by (intro that [of s'] mtx_step.chg_pri) (auto simp: NUM_PRI_def)
qed


lemma circle_not_avoids: "\<not> avoids {1} 1 circle"
proof -
  have "(1, 2) \<in> waits_for circle"
    unfolding waits_for_def by (auto simp: circle_sel intro!: exI [of _ 2])
  then have "(1, 2) \<in> (waits_for circle)\<^sup>*" by blast
  moreover have "2 \<in> set (que circle (WaitQ OMtx 1))" by (simp add: circle_sel)
  ultimately show ?thesis unfolding avoids_def by blast
qed

end
