(* ===== verification/Example_Timer.thy ===== *)
theory Example_Timer
  imports Handler_Calls Example_Mutex
begin

text \<open>
  A concrete state with timer events: task 1 runs, task 5 sleeps with a time limit, the cyclic
  handler 1 starts every 20 milliseconds. Its function, at 100, starts alarm handler 1 five
  milliseconds later; the function of the alarm handler, at 200, stops the cyclic handler. Both events
  are due at the next interrupt.
\<close>

definition demo_usr :: "tim_st usr" where
  "demo_usr ex hdr s =
     (if hdr = 100 then snd (tk_sta_alm_u (\<lambda>_ _ s. s) 1 5000 s)
      else if hdr = 200 then snd (tk_stp_cyc 1 s) else s)"

lemma demo_usr_behaves: "handlers_behave demo_usr"
proof (rule handlers_behaveI)
  fix ex hdr :: addr and s :: tim_st assume ok: "tim_ok s"
  have "handlers_behave (\<lambda>_ _ s. s :: tim_st)" by (rule handlers_behaveI) (simp add: harmless_refl)
  then have "harmless (snd (tk_sta_alm_u (\<lambda>_ _ s. s) 1 5000 s)) s" by (rule tk_sta_alm_u_ok [OF ok, rotated]) simp
  then show "harmless (demo_usr ex hdr s) s"
    using tk_stp_cyc_ok [OF ok] harmless_refl [OF ok] by (simp add: demo_usr_def)
qed

definition no_cyc :: cyccb where
  "no_cyc = \<lparr>cyc_exinf = 0, cycatr = 0, cychdr = NULL, cycstat = TCYC_STP, cyctim = 0, cyc_name = []\<rparr>"

definition no_alm :: almcb where
  "no_alm = \<lparr>alm_exinf = 0, almatr = 0, almhdr = NULL, almstat = TALM_STP, alm_name = []\<rparr>"

definition no_task :: tskcb where
  "no_task = \<lparr>task = 0, stksz = 0, sstksz = 0, istack = 0, isstack = 0, uatb = 0, lsid = 0, start_r0 = 0, start_r1 = 0\<rparr>"

definition timer_tcbs :: "ID \<Rightarrow> tcb" where
  "timer_tcbs = (\<lambda>_. demo_tcb)(1 := demo_tcb\<lparr>tstate := TS_READY\<rparr>, 5 := demo_tcb\<lparr>tstate := TS_WAIT, wspec := wspec_slp\<rparr>)"

definition timer_que :: "qid \<Rightarrow> ID list" where
  "timer_que q = (if q = Rdy 9 then [1] else [])"

definition timers :: tim_st where
  "timers = (pools (mtx_st_ext (\<lambda>_. mtx_free) [1] 1 (tsk_st_ext (\<lambda>_. no_task) 1024 0 4 (tim_st_ext 0 0
     ((\<lambda>_. no_cyc)(1 := no_cyc\<lparr>cychdr := 100, cycstat := TCYC_STA, cyctim := 20000\<rparr>)) [2] 2
     ((\<lambda>_. no_alm)(1 := no_alm\<lparr>almhdr := 200\<rparr>)) [] 1 ()))))
     \<lparr>tcbs := timer_tcbs, que := timer_que, timer_queue := [CycTm 1, TskTm 5],
      tmebs := (\<lambda>_. \<lparr>tm_time = 0, tm_callback = None\<rparr>)
        (CycTm 1 := \<lparr>tm_time = 9000, tm_callback = Some (CB_call_cychdr 1)\<rparr>,
         TskTm 5 := \<lparr>tm_time = 11000, tm_callback = Some (CB_wait_release_tmout 5)\<rparr>)\<rparr>"

lemma timers_sel [simp]:
  "tcbs timers = timer_tcbs" "que timers = timer_que" "ctxtsk timers = Some 1" "schedtsk timers = Some 1"
  "klocktsk timers = None" "top_priority timers = 9" "bitmap timers = [0x200, 0, 0, 0, 0]"
  "mtxcb_table timers = (\<lambda>_. mtx_free)" "free_mtxcb timers = [1]" "max_mtxid timers = 1"
  "cyccb_table timers = (\<lambda>_. no_cyc)(1 := no_cyc\<lparr>cychdr := 100, cycstat := TCYC_STA, cyctim := 20000\<rparr>)"
  "free_cyccb timers = [2]" "max_cycid timers = 2"
  "almcb_table timers = (\<lambda>_. no_alm)(1 := no_alm\<lparr>almhdr := 200\<rparr>)" "free_almcb timers = []" "max_almid timers = 1"
  "timer_queue timers = [CycTm 1, TskTm 5]" "current_time timers = 1000" "timer_period timers = 10000"
  "hw_usec timers = 0"
  "tmebs timers = (\<lambda>_. \<lparr>tm_time = 0, tm_callback = None\<rparr>)
        (CycTm 1 := \<lparr>tm_time = 9000, tm_callback = Some (CB_call_cychdr 1)\<rparr>,
         TskTm 5 := \<lparr>tm_time = 11000, tm_callback = Some (CB_wait_release_tmout 5)\<rparr>)"
  by (simp_all add: timers_def pools_def demo_def)

lemma timer_tasks:
  "klockwait (timer_tcbs t) = False" "priority (timer_tcbs t) = 9" "bpriority (timer_tcbs t) = 9"
  "tstate (timer_tcbs t) = (if t = 1 then TS_READY else if t = 5 then TS_WAIT else TS_NONEXIST)"
  "mtxlist (timer_tcbs t) = None" "wspec (timer_tcbs t) = (if t = 5 then wspec_slp else wspec_rmbf)"
  by (auto simp: timer_tcbs_def) (simp_all add: demo_tcb_def)

lemma timers_kinv: "kinv timers"
proof (rule kinv_xI)
  have "que_ok timer_que" by (auto simp: que_ok_def timer_que_def)
  then show "rdq_ok timers"
    by (auto simp: rdq_ok_def demo_bitmap timer_tasks NUM_BITMAP_def NUM_PRI_def timer_que_def)
qed (auto simp: timer_tasks NUM_PRI_def timer_que_def split: if_splits)

lemma timers_mtx_ok: "mtx_ok timers"
proof (rule mtx_okI)
  have ex: "\<not> mtx_exists i timers" for i by (simp add: mtx_exists_def mtx_free_def)
  have h: "holds {} t timers = {}" for t by (simp add: holds_def ex)
  show "kinv timers" by (rule timers_kinv)
  show "finite {u. tstate (tcbs timers u) \<noteq> TS_NONEXIST}"
    by (rule finite_subset [of _ "{1, 5}"]) (auto simp: timer_tasks split: if_splits)
  show "priority (tcbs timers t) = eff_pri {} no_extra t timers" if "task_alive (tstate (tcbs timers t))" for t
    by (simp add: eff_pri_def h boosts_def timer_tasks)
  show "mtx_struct {} timers"
  proof (rule mtx_structI)
    show "\<exists>ms. mlist ms (mtxlist (tcbs timers t)) timers \<and> distinct ms \<and> set ms = holds {} t timers"
      if "task_alive (tstate (tcbs timers t))" for t
      by (intro exI [of _ "[]"]) (simp add: h timer_tasks)
  qed (auto simp: ex timer_tasks timer_que_def chk_id_def wspec_slp_def wspec_rmbf_def mtx_free_def NUM_PRI_def split: if_splits)
qed

lemma timers_ok: "tim_ok timers"
proof -
  have cy: "cyc_exists i timers \<longleftrightarrow> i = 1" for i by (auto simp: cyc_exists_def chk_id_def no_cyc_def)
  have al: "alm_exists i timers \<longleftrightarrow> i = 1" for i by (auto simp: alm_exists_def chk_id_def no_alm_def)
  have "tmq_ok timers" by (simp add: tmq_ok_def event_time_def tmtime_ok_def)
  moreover have "clock_ok timers" by (simp add: clock_ok_def)
  moreover have "handlers_ok timers"
    unfolding handlers_ok_def cy by (auto simp: chk_id_def no_cyc_def no_alm_def)
  moreover have "phases_ok timers" by (simp add: phases_ok_def cy tmtime_ok_def)
  moreover have "events_ok {} timers"
    unfolding events_ok_def
  proof (intro conjI ballI allI impI)
    fix ev assume "is_handler ev" "armed ev timers"
    then show "ev \<in> set (timer_queue timers)"
      by (cases ev) (auto simp: cy al no_alm_def has_def TALM_STP_def)
  qed (auto simp: cy timer_tasks no_cyc_def has_def TCYC_STA_def)
  ultimately show ?thesis using timers_mtx_ok by (simp add: tim_ok_x_def)
qed

end
