(* ===== verification/Example_Boot.thy ===== *)
theory Example_Boot
  imports Example_System Boot
begin

text \<open>A configuration, a packet for an initial task of priority 1, and a state before the start.\<close>

definition demo_cfn :: cfn where
  "demo_cfn tag =
     (if tag = ''TSysStkSz'' then (1, 2048, 0) else if tag = ''TSVCLimit'' then (1, 3, 0)
      else if tag = ''TTimPeriod'' then (1, 10, 0) else (1, 32, 0))"

definition demo_inittask :: t_ctsk where
  "demo_inittask = \<lparr>ct_exinf = 0, ct_tskatr = TA_HLNG, ct_task = 256, ct_itskpri = 1, ct_stksz = 4096, ct_sstksz = 0,
     ct_stkptr = 0, ct_uatb = 0, ct_lsid = 0, ct_resid = 0, ct_dsname = []\<rparr>"

definition power_on :: "'a kst_scheme \<Rightarrow> 'a kst_scheme" where
  "power_on s = s\<lparr>que := \<lambda>_. [], tcbs := \<lambda>_. demo_tcb, hw_usec := 0\<rparr>"

lemma demo_cfn_ok: "cfn_ok demo_cfn"
  by (simp add: cfn_ok_def cfn1_def demo_cfn_def id_tags_def MIN_SYS_STACK_SIZE_def cfn_period_def)

lemma power_on_cold: "cold cfn (power_on s)"
  by (simp add: cold_def power_on_def demo_tcb_def)

lemma demo_inittask_ok: "ctsk_error demo_inittask s = E_OK"
  by (simp add: ctsk_error_def demo_inittask_def chk_rsatr_def VALID_TSKATR_def chk_pri_def chk_nocop_def has_def
      TA_HLNG_def TA_SSTKSZ_def TA_USERSTACK_def TA_TASKSPACE_def TA_RESID_def TA_RNG3_def
      TA_COP0_def TA_COP1_def TA_COP2_def TA_COP3_def TA_DSNAME_def)

end
