(* ===== verification/Ring_Buffer.thy ===== *)
theory Ring_Buffer
  imports B_Types "HOL-Library.Multiset"
begin

text \<open>
  The circular arrays of the event queue and of the mailboxes: the entries between head and tail as
  a list, and what storing an entry and taking one out does to it. The locale \<open>typed_queue\<close> is what
  both promise their users: entries of one type come out in the order in which they were stored,
  none is lost and none comes twice.
\<close>

section \<open>Circular arrays\<close>

definition ring_list :: "'e list \<Rightarrow> nat \<Rightarrow> nat \<Rightarrow> 'e list" where
  "ring_list slots h n = map (\<lambda>i. slots ! ((h + i) mod length slots)) [0..<n]"

definition ring_inv :: "nat \<Rightarrow> 'e list \<Rightarrow> nat \<Rightarrow> nat \<Rightarrow> nat \<Rightarrow> bool" where
  "ring_inv sz slots h t n \<longleftrightarrow>
     sz > 0 \<and> length slots = sz \<and> h < sz \<and> n \<le> sz \<and> t = (h + n) mod sz"

lemma length_ring_list [simp]: "length (ring_list slots h n) = n"
  by (simp add: ring_list_def)

lemma nth_ring_list [simp]: "i < n \<Longrightarrow> ring_list slots h n ! i = slots ! ((h + i) mod length slots)"
  by (simp add: ring_list_def)

lemma ring_index_inj:
  fixes h i j m :: nat
  assumes "i < m" "j < m" "(h + i) mod m = (h + j) mod m"
  shows "i = j"
proof -
  have "i \<le> j \<Longrightarrow> j < m \<Longrightarrow> (h + i) mod m = (h + j) mod m \<Longrightarrow> i = j" for i j
    using mod_eq_dvd_iff_nat [of "h + i" "h + j" m] by (auto dest: dvd_imp_le)
  then show ?thesis using assms by (metis nat_le_linear)
qed

lemma ring_put:
  assumes r: "ring_inv sz slots h t n" and n: "n < sz"
  shows "ring_inv sz (slots[t := e]) h ((t + 1) mod sz) (n + 1)"
    "ring_list (slots[t := e]) h (n + 1) = ring_list slots h n @ [e]"
proof -
  have t: "t = (h + n) mod sz" "sz > 0" "length slots = sz" using r by (auto simp: ring_inv_def)
  show "ring_inv sz (slots[t := e]) h ((t + 1) mod sz) (n + 1)"
    using r n by (auto simp: ring_inv_def mod_Suc_eq)
  show "ring_list (slots[t := e]) h (n + 1) = ring_list slots h n @ [e]"
  proof (rule nth_equalityI)
    fix i assume i: "i < length (ring_list (slots[t := e]) h (n + 1))"
    have "(h + i) mod sz \<noteq> t" if "i < n"
      using ring_index_inj [of i sz n h] that n t(1) by auto
    then show "ring_list (slots[t := e]) h (n + 1) ! i = (ring_list slots h n @ [e]) ! i"
      using i t by (cases "i = n") (simp_all add: nth_append)
  qed simp
qed

lemma ring_take:
  assumes r: "ring_inv sz slots h t n" and n: "n > 0"
  shows "ring_inv sz slots ((h + 1) mod sz) t (n - 1)"
    "ring_list slots h n = slots ! h # ring_list slots ((h + 1) mod sz) (n - 1)"
proof -
  have t: "t = (h + n) mod sz" "sz > 0" "length slots = sz" "h < sz" using r by (auto simp: ring_inv_def)
  have "(h + 1) mod sz + (n - 1) = (h + 1) mod sz + n - 1" using n by simp
  have "((h + 1) mod sz + (n - 1)) mod sz = (h + 1 + (n - 1)) mod sz" by (simp add: mod_simps)
  then show "ring_inv sz slots ((h + 1) mod sz) t (n - 1)"
    using r n t(1) by (auto simp: ring_inv_def)
  show "ring_list slots h n = slots ! h # ring_list slots ((h + 1) mod sz) (n - 1)"
  proof (rule nth_equalityI)
    fix i assume i: "i < length (ring_list slots h n)"
    show "ring_list slots h n ! i = (slots ! h # ring_list slots ((h + 1) mod sz) (n - 1)) ! i"
      using i t by (cases i) (simp_all add: mod_simps)
  qed (use n in simp)
qed

section \<open>Taking the first entry that fits\<close>

fun take_first :: "('e \<Rightarrow> bool) \<Rightarrow> 'e list \<Rightarrow> 'e option \<times> 'e list" where
  "take_first P [] = (None, [])"
| "take_first P (x # xs) = (if P x then (Some x, xs) else (let (r, ys) = take_first P xs in (r, x # ys)))"

lemma take_first_None: "fst (take_first P xs) = None \<longleftrightarrow> (\<forall>x \<in> set xs. \<not> P x)"
  by (induction xs) (auto split: prod.splits)

lemma take_first_same: "fst (take_first P xs) = None \<Longrightarrow> snd (take_first P xs) = xs"
  by (induction xs) (auto split: prod.splits if_splits)

lemma take_first_Some:
  assumes "take_first P xs = (Some x, ys)"
  obtains us vs where "xs = us @ x # vs" "ys = us @ vs" "P x" "\<And>u. u \<in> set us \<Longrightarrow> \<not> P u"
  using assms
proof (induction xs arbitrary: ys thesis)
  case (Cons z xs)
  show ?case
  proof (cases "P z")
    case True
    then show ?thesis using Cons.prems(1) [of "[]" xs] Cons.prems(2) by simp
  next
    case False
    then obtain ys' where y: "take_first P xs = (Some x, ys')" "ys = z # ys'"
      using Cons.prems(2) by (auto split: prod.splits)
    obtain us vs where "xs = us @ x # vs" "ys' = us @ vs" "P x" "\<And>u. u \<in> set us \<Longrightarrow> \<not> P u"
      using Cons.IH [OF _ y(1)] by blast
    then show ?thesis using Cons.prems(1) [of "z # us" vs] y(2) False by auto
  qed
qed simp

lemma take_first_index:
  "take_first P xs = (case find_slot P xs of None \<Rightarrow> (None, xs) | Some i \<Rightarrow> (Some (xs ! i), take i xs @ drop (Suc i) xs))"
proof -
  have "take_first P xs = (case find_from k P xs of None \<Rightarrow> (None, xs)
     | Some i \<Rightarrow> (Some (xs ! (i - k)), take (i - k) xs @ drop (Suc (i - k)) xs))" for k
  proof (induction xs arbitrary: k)
    case (Cons x xs)
    show ?case
    proof (cases "find_from (Suc k) P xs")
      case None
      then show ?thesis using Cons.IH [of "Suc k"] by simp
    next
      case (Some i)
      then have "i - k = Suc (i - Suc k)" using find_from_Some [OF Some] by linarith
      then show ?thesis using Cons.IH [of "Suc k"] Some by simp
    qed
  qed simp
  from this [of 0] show ?thesis by (simp add: find_slot_def split: option.splits)
qed

section \<open>What both queues promise\<close>

datatype ('e, 'm) qop = Put 'e | Take 'm

text \<open>A run of operations: which entries were accepted and which came out.\<close>

fun q_run :: "('e \<Rightarrow> 's \<Rightarrow> bool \<times> 's) \<Rightarrow> ('m \<Rightarrow> 's \<Rightarrow> 'e option \<times> 's) \<Rightarrow> ('e, 'm) qop list \<Rightarrow> 's \<Rightarrow>
    'e list \<times> 'e list \<times> 's" where
  "q_run put fetch [] s = ([], [], s)"
| "q_run put fetch (Put e # ops) s =
     (let (ok, s1) = put e s; (ins, outs, s') = q_run put fetch ops s1 in (if ok then e # ins else ins, outs, s'))"
| "q_run put fetch (Take M # ops) s =
     (let (r, s1) = fetch M s; (ins, outs, s') = q_run put fetch ops s1
      in (ins, (case r of None \<Rightarrow> outs | Some e \<Rightarrow> e # outs), s'))"

locale typed_queue =
  fixes inv :: "'s \<Rightarrow> bool" and content :: "'s \<Rightarrow> 'e list" and cap :: nat
    and kind :: "'e \<Rightarrow> nat" and accepts :: "'e \<Rightarrow> bool"
    and put :: "'e \<Rightarrow> 's \<Rightarrow> bool \<times> 's" and fetch :: "'m \<Rightarrow> 's \<Rightarrow> 'e option \<times> 's"
    and selects :: "'m \<Rightarrow> nat \<Rightarrow> bool"
  assumes put_inv: "inv s \<Longrightarrow> inv (snd (put e s))"
    and put_stores: "inv s \<Longrightarrow> fst (put e s) \<Longrightarrow> content (snd (put e s)) = content s @ [e]"
    and put_refused: "inv s \<Longrightarrow> \<not> fst (put e s) \<Longrightarrow> snd (put e s) = s"
    and put_answer: "inv s \<Longrightarrow> fst (put e s) \<longleftrightarrow> accepts e \<and> length (content s) < cap"
    and fetch_inv: "inv s \<Longrightarrow> inv (snd (fetch M s))"
    and fetch_first: "inv s \<Longrightarrow> (fst (fetch M s), content (snd (fetch M s))) = take_first (\<lambda>e. selects M (kind e)) (content s)"
    and bounded: "inv s \<Longrightarrow> length (content s) \<le> cap"
begin

lemma run_inv: "inv s \<Longrightarrow> q_run put fetch ops s = (ins, outs, s') \<Longrightarrow> inv s'"
proof (induction ops arbitrary: s ins outs)
  case (Cons a ops)
  show ?case
  proof (cases a)
    case (Put e)
    then show ?thesis
      using Cons.IH [OF put_inv [OF Cons.prems(1), of e]] Cons.prems(2)
      by (auto simp: Let_def split: prod.splits if_splits)
  next
    case (Take M)
    then show ?thesis
      using Cons.IH [OF fetch_inv [OF Cons.prems(1), of M]] Cons.prems(2)
      by (auto simp: Let_def split: prod.splits)
  qed
qed simp

lemma fifo_by_kind:
  "inv s \<Longrightarrow> q_run put fetch ops s = (ins, outs, s') \<Longrightarrow>
     filter (\<lambda>e. kind e = k) outs @ filter (\<lambda>e. kind e = k) (content s') =
     filter (\<lambda>e. kind e = k) (content s) @ filter (\<lambda>e. kind e = k) ins"
proof (induction ops arbitrary: s ins outs)
  case (Cons a ops)
  show ?case
  proof (cases a)
    case (Put e)
    obtain ok s1 ins1 where p: "put e s = (ok, s1)" "q_run put fetch ops s1 = (ins1, outs, s')"
      "ins = (if ok then e # ins1 else ins1)"
      using Cons.prems(2) Put by (auto simp: Let_def split: prod.splits)
    have "inv s1" using put_inv [OF Cons.prems(1), of e] p(1) by simp
    note ih = Cons.IH [OF this p(2)]
    show ?thesis
      using ih put_stores [OF Cons.prems(1), of e] put_refused [OF Cons.prems(1), of e] p(1,3) by (cases ok) simp_all
  next
    case (Take M)
    obtain r s1 outs1 where p: "fetch M s = (r, s1)" "q_run put fetch ops s1 = (ins, outs1, s')"
      "outs = (case r of None \<Rightarrow> outs1 | Some e \<Rightarrow> e # outs1)"
      using Cons.prems(2) Take by (auto simp: Let_def split: prod.splits)
    have "inv s1" using fetch_inv [OF Cons.prems(1), of M] p(1) by simp
    note ih = Cons.IH [OF this p(2)]
    have tf: "take_first (\<lambda>e. selects M (kind e)) (content s) = (r, content s1)"
      using fetch_first [OF Cons.prems(1), of M] p(1) by simp
    show ?thesis
    proof (cases r)
      case None
      then show ?thesis using ih p(3) tf take_first_same [of "\<lambda>e. selects M (kind e)" "content s"] by simp
    next
      case (Some x)
      obtain us vs where u: "content s = us @ x # vs" "content s1 = us @ vs" "selects M (kind x)"
        "\<And>u. u \<in> set us \<Longrightarrow> \<not> selects M (kind u)"
        using take_first_Some [of "\<lambda>e. selects M (kind e)" "content s" x "content s1"] tf Some by blast
      have "filter (\<lambda>e. kind e = k) us = []" if "kind x = k"
        using u(3,4) that by (simp add: filter_empty_conv) blast
      then show ?thesis using ih p(3) u(1,2) Some by auto
    qed
  qed
qed simp

lemma nothing_lost:
  assumes i: "inv s" and r: "q_run put fetch ops s = (ins, outs, s')"
  shows "mset outs + mset (content s') = mset (content s) + mset ins"
proof (rule multiset_eqI)
  fix e
  have "count (mset xs) e = count (mset (filter (\<lambda>x. kind x = kind e) xs)) e" for xs :: "'e list"
    by (induction xs) auto
  from this [of "outs @ content s'"] this [of "content s @ ins"] show "count (mset outs + mset (content s')) e = count (mset (content s) + mset ins) e"
    using fifo_by_kind [OF i r, of "kind e"] by (simp del: mset_filter)
qed

text \<open>An entry that is accepted is delivered by a receiver that asks for its type, after those
  of the type that were there before.\<close>

lemma delivered_after:
  assumes i: "inv s" and e: "accepts e" "length (content s) < cap" and k: "kind e = k" and M: "selects M k"
    and others: "\<And>x. x \<in> set (content s) \<Longrightarrow> \<not> selects M (kind x)"
  shows "fst (fetch M (snd (put e s))) = Some e"
proof -
  have p: "fst (put e s)" using put_answer [OF i] e by simp
  have c: "content (snd (put e s)) = content s @ [e]" by (rule put_stores [OF i p])
  have "take_first (\<lambda>e. selects M (kind e)) (xs @ [e]) = (Some e, xs)" if "\<And>x. x \<in> set xs \<Longrightarrow> \<not> selects M (kind x)" for xs
    using that k M by (induction xs) auto
  then show ?thesis using fetch_first [OF put_inv [OF i], of M e] c others by (simp add: prod_eq_iff)
qed

end

text \<open>Receivers that take every type see one queue.\<close>

locale plain_queue = typed_queue +
  assumes takes_all: "selects M k"
begin

lemma fifo:
  "inv s \<Longrightarrow> q_run put fetch ops s = (ins, outs, s') \<Longrightarrow> outs @ content s' = content s @ ins"
proof (induction ops arbitrary: s ins outs)
  case (Cons a ops)
  show ?case
  proof (cases a)
    case (Put e)
    obtain ok s1 ins1 where p: "put e s = (ok, s1)" "q_run put fetch ops s1 = (ins1, outs, s')"
      "ins = (if ok then e # ins1 else ins1)"
      using Cons.prems(2) Put by (auto simp: Let_def split: prod.splits)
    have "inv s1" using put_inv [OF Cons.prems(1), of e] p(1) by simp
    then show ?thesis
      using Cons.IH p put_stores [OF Cons.prems(1), of e] put_refused [OF Cons.prems(1), of e] by (cases ok) simp_all
  next
    case (Take M)
    obtain r s1 outs1 where p: "fetch M s = (r, s1)" "q_run put fetch ops s1 = (ins, outs1, s')"
      "outs = (case r of None \<Rightarrow> outs1 | Some e \<Rightarrow> e # outs1)"
      using Cons.prems(2) Take by (auto simp: Let_def split: prod.splits)
    have "inv s1" using fetch_inv [OF Cons.prems(1), of M] p(1) by simp
    then show ?thesis
      using Cons.IH p fetch_first [OF Cons.prems(1), of M] takes_all by (cases "content s") (auto split: option.splits)
  qed
qed simp

end

end
