(* ===== verification/Event_Queue.thy ===== *)
theory Event_Queue
  imports Ring_Buffer
begin

text \<open>
  The event queue of the B-system (\<open>window/event.c\<close>): a circular array of 256 events, filled by the
  applications, by the keyboard of a terminal and, on a host, by the events of SDL. The codes of the
  keys come from SDL and are a parameter (\<open>sdl_keys\<close>); the bytes a terminal delivers and the events
  SDL delivers are arguments.
\<close>

section \<open>Events\<close>

datatype ev_type = EV_NONE | EV_BUT_DOWN | EV_BUT_UP | EV_MOUSE_MOVE | EV_KEY_DOWN | EV_KEY_UP
  | EV_WND_CLOSE | EV_WND_MOVE | EV_WND_FOCUS | EV_MENU_SELECT | EV_TIMER

fun ev_code :: "ev_type \<Rightarrow> nat" where
  "ev_code EV_NONE = 0" | "ev_code EV_BUT_DOWN = 1" | "ev_code EV_BUT_UP = 2"
| "ev_code EV_MOUSE_MOVE = 3" | "ev_code EV_KEY_DOWN = 4" | "ev_code EV_KEY_UP = 5"
| "ev_code EV_WND_CLOSE = 6" | "ev_code EV_WND_MOVE = 7" | "ev_code EV_WND_FOCUS = 8"
| "ev_code EV_MENU_SELECT = 9" | "ev_code EV_TIMER = 10"

record EVT =
  ev_ty :: ev_type
  ev_wndid :: ID
  ev_pos :: PNT
  ev_key :: UINT
  ev_button :: UINT
  ev_data :: nat

definition EV_MASK :: "ev_type \<Rightarrow> UINT" where
  "EV_MASK t = push_bit (ev_code t) 1"

definition evt0 :: EVT where
  "evt0 = \<lparr>ev_ty = EV_NONE, ev_wndid = 0, ev_pos = \<lparr>px = 0, py = 0\<rparr>, ev_key = 0, ev_button = 0, ev_data = 0\<rparr>"

section \<open>The queue\<close>

definition EVENT_QUEUE_SIZE :: nat where "EVENT_QUEUE_SIZE = 256"

record evt_st =
  g_queue :: "EVT list"
  g_q_head :: nat
  g_q_tail :: nat
  g_q_count :: nat

definition evt_boot :: evt_st where
  "evt_boot = \<lparr>g_queue = replicate EVENT_QUEUE_SIZE evt0, g_q_head = 0, g_q_tail = 0, g_q_count = 0\<rparr>"

definition init_evt_sys :: "evt_st \<Rightarrow> ER \<times> evt_st" where
  "init_evt_sys s = (ER_OK, s\<lparr>g_q_head := 0, g_q_tail := 0, g_q_count := 0\<rparr>)"

definition snd_evt :: "EVT option \<Rightarrow> evt_st \<Rightarrow> ER \<times> evt_st" where
  "snd_evt p_evt s =
     (case p_evt of None \<Rightarrow> (ER_PAR, s)
      | Some e \<Rightarrow>
          if g_q_count s \<ge> EVENT_QUEUE_SIZE then (ER_BUSY, s)
          else (ER_OK, s\<lparr>g_queue := (g_queue s)[g_q_tail s := e],
                 g_q_tail := (g_q_tail s + 1) mod EVENT_QUEUE_SIZE, g_q_count := g_q_count s + 1\<rparr>))"

text \<open>\<open>p\<close> is what the caller's pointer refers to, \<open>None\<close> if it is \<open>NULL\<close>.\<close>

definition get_head :: "evt_st \<Rightarrow> ER \<times> EVT option \<times> evt_st" where
  "get_head s = (ER_OK, Some (g_queue s ! g_q_head s),
     s\<lparr>g_q_head := (g_q_head s + 1) mod EVENT_QUEUE_SIZE, g_q_count := g_q_count s - 1\<rparr>)"

definition no_event :: "EVT \<Rightarrow> evt_st \<Rightarrow> ER \<times> EVT option \<times> evt_st" where
  "no_event e s = (ER_TMOUT, Some (e\<lparr>ev_ty := EV_NONE\<rparr>), s)"

text \<open>Without a host the events come from \<open>snd_evt\<close> only.\<close>

definition get_evt_bare :: "EVT option \<Rightarrow> evt_st \<Rightarrow> ER \<times> EVT option \<times> evt_st" where
  "get_evt_bare p s =
     (case p of None \<Rightarrow> (ER_PAR, None, s)
      | Some e \<Rightarrow> if g_q_count s > 0 then get_head s else no_event e s)"

section \<open>Events of a host\<close>

record sdl_keys =
  SDLK_RETURN :: UINT
  SDLK_BACKSPACE :: UINT
  SDLK_c :: UINT
  SDLK_l :: UINT
  SDLK_u :: UINT
  SDLK_UP :: UINT
  SDLK_DOWN :: UINT
  SDLK_RIGHT :: UINT
  SDLK_LEFT :: UINT
  SDLK_ESCAPE :: UINT
  KMOD_CTRL :: nat

definition key_evt :: "UINT \<Rightarrow> nat \<Rightarrow> EVT" where
  "key_evt key data = evt0\<lparr>ev_ty := EV_KEY_DOWN, ev_key := key, ev_data := data\<rparr>"

definition arrow_key :: "sdl_keys \<Rightarrow> UB \<Rightarrow> UINT" where
  "arrow_key k b =
     (if b = 65 then SDLK_UP k else if b = 66 then SDLK_DOWN k
      else if b = 67 then SDLK_RIGHT k else if b = 68 then SDLK_LEFT k else 0)"

text \<open>What one byte becomes, and how many of the following bytes belong to it.\<close>

definition tty_key :: "sdl_keys \<Rightarrow> UB \<Rightarrow> UB list \<Rightarrow> EVT option \<times> nat" where
  "tty_key k c cs =
     (if c = 13 \<or> c = 10 then (Some (key_evt (SDLK_RETURN k) 0), 0)
      else if c = 127 \<or> c = 8 then (Some (key_evt (SDLK_BACKSPACE k) 0), 0)
      else if c = 3 then (Some (key_evt (SDLK_c k) (KMOD_CTRL k)), 0)
      else if c = 12 then (Some (key_evt (SDLK_l k) (KMOD_CTRL k)), 0)
      else if c = 21 then (Some (key_evt (SDLK_u k) (KMOD_CTRL k)), 0)
      else if c = 27 then
        (if length cs \<ge> 2 \<and> cs ! 0 = 91 then (Some (key_evt (arrow_key k (cs ! 1)) 0), 2)
         else (Some (key_evt (SDLK_ESCAPE k) 0), 0))
      else if c \<ge> 32 \<and> c \<le> 126 then (Some (key_evt (ucast c) 1), 0)
      else (None, 0))"

fun tty_loop :: "sdl_keys \<Rightarrow> UB list \<Rightarrow> evt_st \<Rightarrow> evt_st" where
  "tty_loop k [] s = s"
| "tty_loop k (c # cs) s =
     tty_loop k (drop (snd (tty_key k c cs)) cs)
       (case fst (tty_key k c cs) of None \<Rightarrow> s | Some e \<Rightarrow> snd (snd_evt (Some e) s))"

definition poll_tty_stdin :: "sdl_keys \<Rightarrow> bool \<Rightarrow> UB list \<Rightarrow> evt_st \<Rightarrow> evt_st" where
  "poll_tty_stdin k tty bytes s = (if \<not> tty then s else tty_loop k (take 64 bytes) s)"

datatype sdl_event = SDL_QUIT | SDL_MOUSEBUTTONDOWN int int UB | SDL_MOUSEBUTTONUP int int UB
  | SDL_MOUSEMOTION int int | SDL_TEXTINPUT | SDL_KEYDOWN UINT nat | SDL_OTHER

definition mouse_evt :: "ev_type \<Rightarrow> int \<Rightarrow> int \<Rightarrow> UB \<Rightarrow> EVT" where
  "mouse_evt t x y b = evt0\<lparr>ev_ty := t, ev_pos := \<lparr>px = to_H x, py = to_H y\<rparr>, ev_button := ucast b\<rparr>"

fun sdl_evt :: "sdl_event \<Rightarrow> EVT option" where
  "sdl_evt SDL_QUIT = Some (evt0\<lparr>ev_ty := EV_WND_CLOSE\<rparr>)"
| "sdl_evt (SDL_MOUSEBUTTONDOWN x y b) = Some (mouse_evt EV_BUT_DOWN x y b)"
| "sdl_evt (SDL_MOUSEBUTTONUP x y b) = Some (mouse_evt EV_BUT_UP x y b)"
| "sdl_evt (SDL_MOUSEMOTION x y) = Some (mouse_evt EV_MOUSE_MOVE x y 0)"
| "sdl_evt SDL_TEXTINPUT = None"
| "sdl_evt (SDL_KEYDOWN ks kmod) = Some (key_evt ks kmod)"
| "sdl_evt SDL_OTHER = None"

text \<open>The loop \<open>while (SDL_PollEvent(...))\<close>; the events it does not take stay with SDL.\<close>

fun sdl_loop :: "EVT \<Rightarrow> sdl_event list \<Rightarrow> evt_st \<Rightarrow> (ER \<times> EVT option \<times> evt_st) \<times> sdl_event list" where
  "sdl_loop e [] s = (no_event e s, [])"
| "sdl_loop e (x # xs) s =
     (let s1 = (case sdl_evt x of None \<Rightarrow> s | Some ev \<Rightarrow> snd (snd_evt (Some ev) s))
      in if g_q_count s1 > 0 then (get_head s1, xs) else sdl_loop e xs s1)"

definition get_evt ::
  "sdl_keys \<Rightarrow> bool \<Rightarrow> UB list \<Rightarrow> sdl_event list \<Rightarrow> EVT option \<Rightarrow> evt_st \<Rightarrow> (ER \<times> EVT option \<times> evt_st) \<times> sdl_event list"
where
  "get_evt k tty bytes sdl p s =
     (case p of None \<Rightarrow> ((ER_PAR, None, s), sdl)
      | Some e \<Rightarrow>
          (let s1 = poll_tty_stdin k tty bytes s
           in if g_q_count s1 > 0 then (get_head s1, sdl) else sdl_loop e sdl s1))"

section \<open>Clearing and looking\<close>

text \<open>The first loop of \<open>clr_evt\<close> copies the events that stay into \<open>temp\<close>, the second copies them
  back to the start of the array.\<close>

fun clr_collect :: "UINT \<Rightarrow> nat list \<Rightarrow> evt_st \<Rightarrow> EVT list" where
  "clr_collect msk [] s = []"
| "clr_collect msk (i # is) s =
     (let e = g_queue s ! ((g_q_head s + i) mod EVENT_QUEUE_SIZE)
      in if \<not> has msk (EV_MASK (ev_ty e)) then e # clr_collect msk is s else clr_collect msk is s)"

fun copy_back :: "nat \<Rightarrow> EVT list \<Rightarrow> EVT list \<Rightarrow> EVT list" where
  "copy_back i [] q = q"
| "copy_back i (e # es) q = copy_back (i + 1) es (q[i := e])"

definition clr_evt :: "UINT \<Rightarrow> evt_st \<Rightarrow> ER \<times> evt_st" where
  "clr_evt msk s =
     (if msk = 0 then (ER_OK, s)
      else
        (let temp = clr_collect msk [0..<g_q_count s] s; new_count = length temp
         in (ER_OK, s\<lparr>g_queue := copy_back 0 temp (g_queue s), g_q_head := 0,
               g_q_tail := new_count mod EVENT_QUEUE_SIZE, g_q_count := new_count\<rparr>)))"

fun pke_loop :: "UINT \<Rightarrow> nat list \<Rightarrow> evt_st \<Rightarrow> EVT option" where
  "pke_loop msk [] s = None"
| "pke_loop msk (i # is) s =
     (let e = g_queue s ! ((g_q_head s + i) mod EVENT_QUEUE_SIZE)
      in if msk = 0 \<or> has msk (EV_MASK (ev_ty e)) then Some e else pke_loop msk is s)"

definition pke_evt :: "EVT option \<Rightarrow> UINT \<Rightarrow> evt_st \<Rightarrow> ER \<times> EVT option" where
  "pke_evt p msk s =
     (case p of None \<Rightarrow> (ER_PAR, None)
      | Some e \<Rightarrow> (case pke_loop msk [0..<g_q_count s] s of None \<Rightarrow> (ER_NOEXS, Some e) | Some x \<Rightarrow> (ER_OK, Some x)))"

definition def_evt :: "ID \<Rightarrow> UINT \<Rightarrow> evt_st \<Rightarrow> ER \<times> evt_st" where
  "def_evt wndid msk s = (ER_OK, s)"

section \<open>What the operations do\<close>

definition evt_ok :: "evt_st \<Rightarrow> bool" where
  "evt_ok s \<longleftrightarrow> ring_inv EVENT_QUEUE_SIZE (g_queue s) (g_q_head s) (g_q_tail s) (g_q_count s)"

definition evt_content :: "evt_st \<Rightarrow> EVT list" where
  "evt_content s = ring_list (g_queue s) (g_q_head s) (g_q_count s)"

lemma evt_boot_ok: "evt_ok evt_boot" "evt_content evt_boot = []"
  by (simp_all add: evt_ok_def evt_content_def evt_boot_def ring_inv_def ring_list_def EVENT_QUEUE_SIZE_def)

lemma init_evt_sys_ok: "evt_ok s \<Longrightarrow> evt_ok (snd (init_evt_sys s)) \<and> evt_content (snd (init_evt_sys s)) = []"
  by (auto simp: init_evt_sys_def evt_ok_def evt_content_def ring_inv_def ring_list_def)

lemma evt_okD:
  assumes "evt_ok s"
  shows "length (g_queue s) = EVENT_QUEUE_SIZE" "g_q_count s \<le> EVENT_QUEUE_SIZE" "g_q_head s < EVENT_QUEUE_SIZE"
    "g_q_tail s = (g_q_head s + g_q_count s) mod EVENT_QUEUE_SIZE"
  using assms by (auto simp: evt_ok_def ring_inv_def)

lemma snd_evt_ok:
  assumes ok: "evt_ok s"
  shows "evt_ok (snd (snd_evt p s))"
    "fst (snd_evt (Some e) s) = ER_OK \<longleftrightarrow> length (evt_content s) < EVENT_QUEUE_SIZE"
    "fst (snd_evt p s) \<noteq> ER_OK \<Longrightarrow> snd (snd_evt p s) = s"
    "fst (snd_evt (Some e) s) = ER_OK \<Longrightarrow> evt_content (snd (snd_evt (Some e) s)) = evt_content s @ [e]"
  using ring_put [OF ok [unfolded evt_ok_def]] ok
  by (auto simp: snd_evt_def evt_ok_def evt_content_def split: option.splits)

lemma get_head_ok:
  assumes ok: "evt_ok s" and n: "g_q_count s > 0"
  shows "evt_ok (snd (snd (get_head s)))" "evt_content s = the (fst (snd (get_head s))) # evt_content (snd (snd (get_head s)))"
  using ring_take [OF ok [unfolded evt_ok_def] n] by (simp_all add: get_head_def evt_ok_def evt_content_def)

lemma get_evt_bare_ok:
  assumes ok: "evt_ok s"
  shows "evt_ok (snd (snd (get_evt_bare p s)))"
    "evt_content s = x # xs \<Longrightarrow> fst (get_evt_bare (Some e) s) = ER_OK \<and> fst (snd (get_evt_bare (Some e) s)) = Some x \<and>
       evt_content (snd (snd (get_evt_bare (Some e) s))) = xs"
    "evt_content s = [] \<Longrightarrow> get_evt_bare (Some e) s = (ER_TMOUT, Some (e\<lparr>ev_ty := EV_NONE\<rparr>), s)"
proof -
  have z: "evt_content s = [] \<longleftrightarrow> g_q_count s = 0" by (simp add: evt_content_def flip: length_0_conv)
  show "evt_ok (snd (snd (get_evt_bare p s)))"
    using get_head_ok(1) [OF ok] ok by (auto simp: get_evt_bare_def no_event_def split: option.splits)
  show "evt_content s = x # xs \<Longrightarrow> fst (get_evt_bare (Some e) s) = ER_OK \<and> fst (snd (get_evt_bare (Some e) s)) = Some x \<and>
       evt_content (snd (snd (get_evt_bare (Some e) s))) = xs"
    using get_head_ok(2) [OF ok] z by (auto simp: get_evt_bare_def get_head_def)
  show "evt_content s = [] \<Longrightarrow> get_evt_bare (Some e) s = (ER_TMOUT, Some (e\<lparr>ev_ty := EV_NONE\<rparr>), s)"
    using z by (auto simp: get_evt_bare_def no_event_def)
qed

lemma clr_collect_filter:
  "length (g_queue s) = EVENT_QUEUE_SIZE \<Longrightarrow>
   clr_collect msk is s = filter (\<lambda>e. \<not> has msk (EV_MASK (ev_ty e)))
     (map (\<lambda>i. g_queue s ! ((g_q_head s + i) mod EVENT_QUEUE_SIZE)) is)"
  by (induction "is") (auto simp: Let_def)

lemma copy_back_nth:
  "i + length es \<le> length q \<Longrightarrow> length (copy_back i es q) = length q \<and>
     (\<forall>j < length q. copy_back i es q ! j = (if i \<le> j \<and> j < i + length es then es ! (j - i) else q ! j))"
proof (induction es arbitrary: i q)
  case (Cons e es)
  have "i + 1 + length es \<le> length (q[i := e])" using Cons.prems by simp
  note ih = Cons.IH [OF this]
  show ?case
  proof (intro conjI allI impI)
    show "length (copy_back i (e # es) q) = length q" using ih by simp
    fix j assume "j < length q"
    then show "copy_back i (e # es) q ! j = (if i \<le> j \<and> j < i + length (e # es) then (e # es) ! (j - i) else q ! j)"
      using ih Cons.prems by (auto simp: nth_Cons' nth_list_update le_less Suc_le_eq)
  qed
qed auto

lemma clr_evt_ok:
  assumes ok: "evt_ok s"
  shows "evt_ok (snd (clr_evt msk s))"
    "evt_content (snd (clr_evt msk s)) = filter (\<lambda>e. \<not> has msk (EV_MASK (ev_ty e))) (evt_content s)"
proof -
  let ?P = "\<lambda>e. \<not> has msk (EV_MASK (ev_ty e))"
  note o = evt_okD [OF ok]
  have e: "clr_collect msk [0..<g_q_count s] s = filter ?P (evt_content s)"
    using clr_collect_filter [OF o(1)] o(1) by (simp add: evt_content_def ring_list_def)
  have l: "length (filter ?P (evt_content s)) \<le> EVENT_QUEUE_SIZE"
    using length_filter_le [of ?P "evt_content s"] o(2) by (simp add: evt_content_def)
  define temp where "temp = filter ?P (evt_content s)"
  note cb = copy_back_nth [of 0 temp "g_queue s"]
  have cb: "length (copy_back 0 temp (g_queue s)) = EVENT_QUEUE_SIZE"
    "j < length temp \<Longrightarrow> copy_back 0 temp (g_queue s) ! j = temp ! j" for j
    using cb l o(1) by (auto simp: temp_def)
  have r: "ring_list (copy_back 0 temp (g_queue s)) 0 (length temp) = temp"
    using cb l by (intro nth_equalityI) (auto simp: temp_def)
  show "evt_ok (snd (clr_evt msk s))"
    using ok cb(1) l by (auto simp: clr_evt_def Let_def e evt_ok_def ring_inv_def temp_def)
  show "evt_content (snd (clr_evt msk s)) = filter ?P (evt_content s)"
    using r by (auto simp: clr_evt_def Let_def e evt_content_def [of "s\<lparr>g_queue := _, g_q_head := _, g_q_tail := _, g_q_count := _\<rparr>"]
        temp_def has_def)
qed

lemma pke_evt_find:
  assumes ok: "evt_ok s"
  shows "pke_evt (Some e) msk s =
    (case find (\<lambda>x. msk = 0 \<or> has msk (EV_MASK (ev_ty x))) (evt_content s) of
       None \<Rightarrow> (ER_NOEXS, Some e) | Some x \<Rightarrow> (ER_OK, Some x))"
proof -
  have "pke_loop msk is s = find (\<lambda>x. msk = 0 \<or> has msk (EV_MASK (ev_ty x)))
      (map (\<lambda>i. g_queue s ! ((g_q_head s + i) mod EVENT_QUEUE_SIZE)) is)" for "is"
    by (induction "is") (auto simp: Let_def)
  then show ?thesis using evt_okD(1) [OF ok] by (simp add: pke_evt_def evt_content_def ring_list_def)
qed

section \<open>The queue is a queue\<close>

definition evt_put :: "EVT \<Rightarrow> evt_st \<Rightarrow> bool \<times> evt_st" where
  "evt_put e s = (let (er, s') = snd_evt (Some e) s in (er = ER_OK, s'))"

definition evt_fetch :: "unit \<Rightarrow> evt_st \<Rightarrow> EVT option \<times> evt_st" where
  "evt_fetch u s = (let (er, p, s') = get_evt_bare (Some evt0) s in (if er = ER_OK then p else None, s'))"

interpretation evq: plain_queue evt_ok evt_content EVENT_QUEUE_SIZE "\<lambda>e. ev_code (ev_ty e)" "\<lambda>_. True"
  evt_put evt_fetch "\<lambda>_ _. True"
proof unfold_locales
  fix s e u
  assume ok: "evt_ok s"
  note so = snd_evt_ok [OF ok]
  show "evt_ok (snd (evt_put e s))" using so(1) by (simp add: evt_put_def case_prod_beta)
  show "fst (evt_put e s) \<Longrightarrow> evt_content (snd (evt_put e s)) = evt_content s @ [e]"
    using so(4) by (simp add: evt_put_def case_prod_beta)
  show "\<not> fst (evt_put e s) \<Longrightarrow> snd (evt_put e s) = s" using so(3) by (simp add: evt_put_def case_prod_beta)
  show "fst (evt_put e s) \<longleftrightarrow> True \<and> length (evt_content s) < EVENT_QUEUE_SIZE"
    using so(2) by (simp add: evt_put_def case_prod_beta)
  note g = get_evt_bare_ok [OF ok]
  show "evt_ok (snd (evt_fetch u s))" using g(1) by (simp add: evt_fetch_def case_prod_beta)
  show "(fst (evt_fetch u s), evt_content (snd (evt_fetch u s))) = take_first (\<lambda>e. True) (evt_content s)"
    using g(2,3) [where e = evt0] by (cases "evt_content s") (auto simp: evt_fetch_def case_prod_beta)
  show "length (evt_content s) \<le> EVENT_QUEUE_SIZE" using evt_okD(2) [OF ok] by (simp add: evt_content_def)
qed simp

section \<open>Terminal and SDL\<close>

lemma tty_loop_ok: "evt_ok s \<Longrightarrow> evt_ok (tty_loop k bs s)"
  by (induction k bs s rule: tty_loop.induct) (auto simp: snd_evt_ok(1) split: option.splits)

lemma sdl_loop_ok: "evt_ok s \<Longrightarrow> evt_ok (snd (snd (fst (sdl_loop e xs s))))"
proof (induction e xs s rule: sdl_loop.induct)
  case (2 e x xs s)
  define s1 where "s1 = (case sdl_evt x of None \<Rightarrow> s | Some ev \<Rightarrow> snd (snd_evt (Some ev) s))"
  have "evt_ok s1" using 2 snd_evt_ok(1) by (auto simp: s1_def split: option.splits)
  then show ?case using 2 get_head_ok(1) [of s1] by (auto simp: Let_def simp flip: s1_def)
qed (simp add: no_event_def)

lemma get_evt_ok: "evt_ok s \<Longrightarrow> evt_ok (snd (snd (fst (get_evt k tty bytes sdl p s))))"
proof -
  assume ok: "evt_ok s"
  have t: "evt_ok (poll_tty_stdin k tty bytes s)" using ok tty_loop_ok by (simp add: poll_tty_stdin_def)
  show ?thesis
    using ok get_head_ok(1) [OF t] sdl_loop_ok [OF t] by (simp add: get_evt_def Let_def split: option.split)
qed

end
