(* ===== verification/Ipc_Msg.thy ===== *)
theory Ipc_Msg
  imports Ring_Buffer
begin

text \<open>
  Messages between processes (\<open>ipc_msg.c\<close>): a circular array of 64 messages for each of 32 process
  identifiers. A receiver names the types it wants by a bit mask and may wait; the threads and
  the condition variable it waits on are those of the host. \<open>rcv_msg\<close> therefore takes the list of
  its wakeups, each with what other threads have done to the mailboxes in the meantime.
\<close>

section \<open>Messages and mailboxes\<close>

definition MSGMASK :: "nat \<Rightarrow> UINT" where
  "MSGMASK t = push_bit (t - 1) 1"

text \<open>The body of a message is one of the members of a union of 32 bytes.\<close>

record MESSAGE =
  msg_type :: int
  msg_size :: int
  msg_body :: "UB list"

definition MAX_QUEUED_MSGS :: nat where "MAX_QUEUED_MSGS = 64"
definition MAX_IPC_PIDS :: nat where "MAX_IPC_PIDS = 32"

record ipc_mailbox =
  messages :: "MESSAGE list"
  mb_head :: nat
  mb_tail :: nat
  mb_count :: nat
  mb_active :: bool

record ipc_st =
  g_mailboxes :: "ipc_mailbox list"
  g_ipc_initialized :: bool

definition message0 :: MESSAGE where
  "message0 = \<lparr>msg_type = 0, msg_size = 0, msg_body = replicate 32 0\<rparr>"

definition mailbox0 :: ipc_mailbox where
  "mailbox0 = \<lparr>messages = replicate MAX_QUEUED_MSGS message0, mb_head = 0, mb_tail = 0, mb_count = 0, mb_active = True\<rparr>"

definition ipc_boot :: ipc_st where
  "ipc_boot = \<lparr>g_mailboxes = replicate MAX_IPC_PIDS (mailbox0\<lparr>mb_active := False\<rparr>), g_ipc_initialized = False\<rparr>"

definition ipc_ensure_init :: "ipc_st \<Rightarrow> ipc_st" where
  "ipc_ensure_init s =
     (if \<not> g_ipc_initialized s
      then s\<lparr>g_mailboxes := replicate MAX_IPC_PIDS mailbox0, g_ipc_initialized := True\<rparr> else s)"

section \<open>Sending\<close>

definition mb_put :: "MESSAGE \<Rightarrow> ipc_mailbox \<Rightarrow> bool \<times> ipc_mailbox" where
  "mb_put m mb =
     (if mb_count mb \<ge> MAX_QUEUED_MSGS then (False, mb)
      else (True, mb\<lparr>messages := (messages mb)[mb_tail mb := m],
              mb_tail := (mb_tail mb + 1) mod MAX_QUEUED_MSGS, mb_count := mb_count mb + 1\<rparr>))"

definition snd_msg :: "int \<Rightarrow> MESSAGE option \<Rightarrow> ipc_st \<Rightarrow> ER \<times> ipc_st" where
  "snd_msg pid msg s =
     (case msg of None \<Rightarrow> (ER_PAR, s)
      | Some m \<Rightarrow>
          if pid < 0 \<or> pid \<ge> int MAX_IPC_PIDS then (ER_ID, s)
          else if msg_type m < 1 \<or> msg_type m > 31 then (ER_PAR, s)
          else
            (let s1 = ipc_ensure_init s; (ok, mb) = mb_put m (g_mailboxes s1 ! nat pid)
             in if ok then (ER_OK, s1\<lparr>g_mailboxes := (g_mailboxes s1)[nat pid := mb]\<rparr>) else (ER_NOSPC, s1)))"

section \<open>Receiving\<close>

definition wants :: "UINT \<Rightarrow> nat \<Rightarrow> bool" where
  "wants msk t \<longleftrightarrow> msk = 0 \<or> has msk (MSGMASK t)"

definition mb_index :: "ipc_mailbox \<Rightarrow> nat \<Rightarrow> nat" where
  "mb_index mb i = (mb_head mb + i) mod MAX_QUEUED_MSGS"

fun mb_search :: "UINT \<Rightarrow> nat list \<Rightarrow> ipc_mailbox \<Rightarrow> nat option" where
  "mb_search msk [] mb = None"
| "mb_search msk (i # is) mb =
     (if wants msk (nat (msg_type (messages mb ! mb_index mb i))) then Some i else mb_search msk is mb)"

text \<open>The loop that closes the gap: entry \<open>j + 1\<close> goes to \<open>j\<close>.\<close>

fun mb_shift :: "nat list \<Rightarrow> ipc_mailbox \<Rightarrow> ipc_mailbox" where
  "mb_shift [] mb = mb"
| "mb_shift (j # js) mb =
     mb_shift js (mb\<lparr>messages := (messages mb)[mb_index mb j := messages mb ! mb_index mb (j + 1)]\<rparr>)"

definition mb_remove :: "nat \<Rightarrow> ipc_mailbox \<Rightarrow> ipc_mailbox" where
  "mb_remove i mb =
     (let mb1 = mb_shift [i..<mb_count mb - 1] mb; n = mb_count mb1 - 1
      in mb1\<lparr>mb_count := n, mb_tail := (mb_head mb1 + n) mod MAX_QUEUED_MSGS\<rparr>)"

definition mb_fetch :: "UINT \<Rightarrow> ipc_mailbox \<Rightarrow> MESSAGE option \<times> ipc_mailbox" where
  "mb_fetch msk mb =
     (case mb_search msk [0..<mb_count mb] mb of None \<Rightarrow> (None, mb)
      | Some i \<Rightarrow> (Some (messages mb ! mb_index mb i), mb_remove i mb))"

text \<open>What \<open>pthread_cond_wait\<close> and \<open>pthread_cond_timedwait\<close> return with.\<close>

datatype wakeup = Woken ipc_st | Timedout ipc_st

datatype rcv_ret = Got ER "MESSAGE option" | Waiting

fun rcv_loop :: "nat \<Rightarrow> MESSAGE \<Rightarrow> UINT \<Rightarrow> int \<Rightarrow> wakeup list \<Rightarrow> ipc_st \<Rightarrow> rcv_ret \<times> ipc_st" where
  "rcv_loop pid out msk tmo ws s =
     (case mb_fetch msk (g_mailboxes s ! pid) of
        (Some m, mb) \<Rightarrow> (Got ER_OK (Some m), s\<lparr>g_mailboxes := (g_mailboxes s)[pid := mb]\<rparr>)
      | (None, _) \<Rightarrow>
          if tmo = 0 then (Got ER_TMOUT (Some out), s)
          else
            (case ws of [] \<Rightarrow> (Waiting, s)
             | Woken s' # ws' \<Rightarrow> rcv_loop pid out msk tmo ws' s'
             | Timedout s' # ws' \<Rightarrow>
                 if tmo > 0 then (Got ER_TMOUT (Some out), s') else rcv_loop pid out msk tmo ws' s'))"

declare rcv_loop.simps [simp del]

definition rcv_msg :: "int \<Rightarrow> MESSAGE option \<Rightarrow> UINT \<Rightarrow> int \<Rightarrow> wakeup list \<Rightarrow> ipc_st \<Rightarrow> rcv_ret \<times> ipc_st" where
  "rcv_msg pid msg msk tmo ws s =
     (case msg of None \<Rightarrow> (Got ER_PAR None, s)
      | Some out \<Rightarrow>
          if pid < 0 \<or> pid \<ge> int MAX_IPC_PIDS then (Got ER_ID (Some out), s)
          else rcv_loop (nat pid) out msk tmo ws (ipc_ensure_init s))"

definition chk_msg :: "int \<Rightarrow> MESSAGE option \<Rightarrow> UINT \<Rightarrow> ipc_st \<Rightarrow> rcv_ret \<times> ipc_st" where
  "chk_msg pid msg msk s = rcv_msg pid msg msk 0 [] s"

text \<open>The deadline \<open>ts\<close> that \<open>rcv_msg\<close> computes from the time of day, in seconds and nanoseconds.\<close>

definition rcv_deadline :: "int \<Rightarrow> int \<Rightarrow> int \<Rightarrow> int \<times> int" where
  "rcv_deadline sec usec tmo =
     (let tv_sec = sec + tmo div 1000; tv_nsec = (usec + (tmo mod 1000) * 1000) * 1000
      in if tv_nsec \<ge> 1000000000 then (tv_sec + 1, tv_nsec - 1000000000) else (tv_sec, tv_nsec))"

section \<open>What the operations do\<close>

definition mb_ok :: "ipc_mailbox \<Rightarrow> bool" where
  "mb_ok mb \<longleftrightarrow> ring_inv MAX_QUEUED_MSGS (messages mb) (mb_head mb) (mb_tail mb) (mb_count mb)"

definition mb_content :: "ipc_mailbox \<Rightarrow> MESSAGE list" where
  "mb_content mb = ring_list (messages mb) (mb_head mb) (mb_count mb)"

lemma mailbox0_ok: "mb_ok mailbox0" "mb_content mailbox0 = []"
  by (simp_all add: mb_ok_def mb_content_def mailbox0_def ring_inv_def ring_list_def MAX_QUEUED_MSGS_def)

lemma mb_okD:
  assumes "mb_ok mb"
  shows "length (messages mb) = MAX_QUEUED_MSGS" "mb_count mb \<le> MAX_QUEUED_MSGS" "mb_head mb < MAX_QUEUED_MSGS"
    "mb_tail mb = (mb_head mb + mb_count mb) mod MAX_QUEUED_MSGS"
  using assms by (auto simp: mb_ok_def ring_inv_def)

lemma mb_index_less [simp]: "mb_index mb i < MAX_QUEUED_MSGS"
  by (simp add: mb_index_def MAX_QUEUED_MSGS_def)

lemma mb_content_nth: "mb_ok mb \<Longrightarrow> i < mb_count mb \<Longrightarrow> mb_content mb ! i = messages mb ! mb_index mb i"
  by (simp add: mb_content_def mb_okD mb_index_def)

lemma mb_put_ok:
  assumes ok: "mb_ok mb"
  shows "mb_ok (snd (mb_put m mb))" "fst (mb_put m mb) \<longleftrightarrow> length (mb_content mb) < MAX_QUEUED_MSGS"
    "fst (mb_put m mb) \<Longrightarrow> mb_content (snd (mb_put m mb)) = mb_content mb @ [m]"
    "\<not> fst (mb_put m mb) \<Longrightarrow> snd (mb_put m mb) = mb"
  using ring_put [OF ok [unfolded mb_ok_def]] ok by (auto simp: mb_put_def mb_ok_def mb_content_def)

lemma mb_search_slot:
  assumes ok: "mb_ok mb"
  shows "mb_search msk [0..<mb_count mb] mb = find_slot (\<lambda>m. wants msk (nat (msg_type m))) (mb_content mb)"
proof -
  have "mb_search msk [k..<k + length xs] mb = find_from k (\<lambda>m. wants msk (nat (msg_type m))) xs"
    if "\<And>i. i < length xs \<Longrightarrow> xs ! i = messages mb ! mb_index mb (k + i)" for k xs
    using that
  proof (induction xs arbitrary: k)
    case (Cons x xs)
    have "xs ! i = messages mb ! mb_index mb (Suc k + i)" if "i < length xs" for i
      using Cons.prems [of "Suc i"] that by simp
    then have ih: "mb_search msk [Suc k..<Suc k + length xs] mb = find_from (Suc k) (\<lambda>m. wants msk (nat (msg_type m))) xs"
      by (rule Cons.IH)
    have "x = messages mb ! mb_index mb k" using Cons.prems [of 0] by simp
    moreover have "[k..<k + length (x # xs)] = k # [Suc k..<Suc k + length xs]" by (simp add: upt_rec)
    ultimately show ?case using ih by simp
  qed simp
  from this [of "mb_content mb" 0] show ?thesis
    using mb_content_nth [OF ok] by (simp add: find_slot_def mb_content_def)
qed

lemma mb_shift_sel [simp]:
  "mb_head (mb_shift js mb) = mb_head mb" "mb_tail (mb_shift js mb) = mb_tail mb" "mb_count (mb_shift js mb) = mb_count mb"
  "length (messages (mb_shift js mb)) = length (messages mb)" "mb_index (mb_shift js mb) = mb_index mb"
  by (induction js mb rule: mb_shift.induct) (auto simp: mb_index_def fun_eq_iff)

lemma mb_index_inj: "i < MAX_QUEUED_MSGS \<Longrightarrow> j < MAX_QUEUED_MSGS \<Longrightarrow> mb_index mb i = mb_index mb j \<longleftrightarrow> i = j"
  using ring_index_inj [of i MAX_QUEUED_MSGS j "mb_head mb"] by (auto simp: mb_index_def)

lemma mb_shift_nth:
  assumes "length (messages mb) = MAX_QUEUED_MSGS" "i + n < MAX_QUEUED_MSGS" "j < MAX_QUEUED_MSGS"
  shows "messages (mb_shift [i..<i + n] mb) ! mb_index mb j =
    (if i \<le> j \<and> j < i + n then messages mb ! mb_index mb (Suc j) else messages mb ! mb_index mb j)"
  using assms
proof (induction n arbitrary: i mb)
  case (Suc n)
  define mb1 where "mb1 = mb\<lparr>messages := (messages mb)[mb_index mb i := messages mb ! mb_index mb (i + 1)]\<rparr>"
  have ix: "mb_index mb1 = mb_index mb" by (simp add: mb1_def mb_index_def fun_eq_iff)
  have nth: "messages mb1 ! mb_index mb k = (if k = i then messages mb ! mb_index mb (Suc i) else messages mb ! mb_index mb k)"
    if "k < MAX_QUEUED_MSGS" for k
    using that Suc.prems(1,2) mb_index_inj [of k i mb] mb_index_less [of mb i] by (auto simp: mb1_def nth_list_update)
  have "[i..<i + Suc n] = i # [Suc i..<Suc i + n]" by (simp add: upt_rec)
  then have e: "mb_shift [i..<i + Suc n] mb = mb_shift [Suc i..<Suc i + n] mb1" by (simp add: mb1_def)
  have "messages (mb_shift [Suc i..<Suc i + n] mb1) ! mb_index mb1 j =
    (if Suc i \<le> j \<and> j < Suc i + n then messages mb1 ! mb_index mb1 (Suc j) else messages mb1 ! mb_index mb1 j)"
    by (rule Suc.IH) (use Suc.prems in \<open>auto simp: mb1_def\<close>)
  then show ?case unfolding e using nth [of j] nth [of "Suc j"] Suc.prems by (auto simp: ix)
qed auto

lemma mb_remove_ok:
  assumes ok: "mb_ok mb" and i: "i < mb_count mb"
  shows "mb_ok (mb_remove i mb)" "mb_content (mb_remove i mb) = take i (mb_content mb) @ drop (Suc i) (mb_content mb)"
proof -
  note o = mb_okD [OF ok]
  define n where "n = mb_count mb - 1"
  define mb1 where "mb1 = mb_shift [i..<n] mb"
  have e: "mb_remove i mb = mb1\<lparr>mb_count := n, mb_tail := (mb_head mb1 + n) mod MAX_QUEUED_MSGS\<rparr>"
    by (simp add: mb_remove_def mb1_def n_def Let_def)
  show "mb_ok (mb_remove i mb)"
    using o by (simp add: e mb_ok_def ring_inv_def mb1_def) (auto simp: n_def MAX_QUEUED_MSGS_def)
  have m: "messages mb1 ! mb_index mb j = (if i \<le> j then mb_content mb ! Suc j else mb_content mb ! j)" if j: "j < n" for j
    using mb_shift_nth [OF o(1), of i "n - i" j] j i o(2) mb_content_nth [OF ok, of j] mb_content_nth [OF ok, of "Suc j"]
    by (auto simp: mb1_def n_def)
  show "mb_content (mb_remove i mb) = take i (mb_content mb) @ drop (Suc i) (mb_content mb)"
  proof (rule nth_equalityI)
    show l: "length (mb_content (mb_remove i mb)) = length (take i (mb_content mb) @ drop (Suc i) (mb_content mb))"
      using i by (simp add: e mb_content_def n_def)
    fix j assume "j < length (mb_content (mb_remove i mb))"
    then have j: "j < n" by (simp add: e mb_content_def)
    have "mb_content (mb_remove i mb) ! j = messages mb1 ! mb_index mb j"
      using j o(1) by (simp add: e mb_content_def mb_index_def mb1_def)
    then show "mb_content (mb_remove i mb) ! j = (take i (mb_content mb) @ drop (Suc i) (mb_content mb)) ! j"
      using m [OF j] i j by (auto simp: nth_append mb_content_def n_def simp del: nth_ring_list)
  qed
qed

lemma mb_fetch_ok:
  assumes ok: "mb_ok mb"
  shows "mb_ok (snd (mb_fetch msk mb))"
    "(fst (mb_fetch msk mb), mb_content (snd (mb_fetch msk mb))) = take_first (\<lambda>m. wants msk (nat (msg_type m))) (mb_content mb)"
proof -
  have c: "i < mb_count mb" if "find_slot (\<lambda>m. wants msk (nat (msg_type m))) (mb_content mb) = Some i" for i
    using find_slot_SomeD(1) [OF that] by (simp add: mb_content_def)
  show "mb_ok (snd (mb_fetch msk mb))"
    using ok c mb_remove_ok(1) [OF ok] by (auto simp: mb_fetch_def mb_search_slot [OF ok] split: option.split)
  show "(fst (mb_fetch msk mb), mb_content (snd (mb_fetch msk mb))) = take_first (\<lambda>m. wants msk (nat (msg_type m))) (mb_content mb)"
    using c mb_remove_ok(2) [OF ok] mb_content_nth [OF ok]
    by (auto simp: mb_fetch_def mb_search_slot [OF ok] take_first_index split: option.split)
qed

interpretation ipcq: typed_queue mb_ok mb_content MAX_QUEUED_MSGS "\<lambda>m. nat (msg_type m)" "\<lambda>_. True" mb_put mb_fetch wants
  by unfold_locales
    (auto simp: mb_put_ok mb_fetch_ok, use mb_okD(2) in \<open>auto simp: mb_content_def\<close>)

section \<open>All mailboxes\<close>

definition ipc_ok :: "ipc_st \<Rightarrow> bool" where
  "ipc_ok s \<longleftrightarrow> length (g_mailboxes s) = MAX_IPC_PIDS \<and>
     (g_ipc_initialized s \<longrightarrow> (\<forall>mb \<in> set (g_mailboxes s). mb_ok mb \<and>
        (\<forall>m \<in> set (mb_content mb). 1 \<le> msg_type m \<and> msg_type m \<le> 31)))"

lemma ipc_boot_ok: "ipc_ok ipc_boot"
  by (simp add: ipc_ok_def ipc_boot_def)

lemma ipc_ensure_init_ok:
  assumes "ipc_ok s"
  shows "ipc_ok (ipc_ensure_init s)" "g_ipc_initialized (ipc_ensure_init s)"
  using assms mailbox0_ok by (auto simp: ipc_ok_def ipc_ensure_init_def)

lemma ipc_okD:
  assumes "ipc_ok s" "g_ipc_initialized s" "p < MAX_IPC_PIDS"
  shows "length (g_mailboxes s) = MAX_IPC_PIDS" "mb_ok (g_mailboxes s ! p)"
    "m \<in> set (mb_content (g_mailboxes s ! p)) \<Longrightarrow> 1 \<le> msg_type m \<and> msg_type m \<le> 31"
  using assms by (auto simp: ipc_ok_def)

lemma ipc_ok_upd:
  assumes "ipc_ok s" "g_ipc_initialized s" "mb_ok mb"
    "\<And>m. m \<in> set (mb_content mb) \<Longrightarrow> 1 \<le> msg_type m \<and> msg_type m \<le> 31"
  shows "ipc_ok (s\<lparr>g_mailboxes := (g_mailboxes s)[p := mb]\<rparr>)"
  using assms by (auto simp: ipc_ok_def dest: set_update_subset_insert [THEN subsetD])

lemma snd_msg_ok:
  assumes ok: "ipc_ok s"
  shows "ipc_ok (snd (snd_msg pid msg s))"
proof -
  define s1 where "s1 = ipc_ensure_init s"
  have s1: "ipc_ok s1" "g_ipc_initialized s1" using ipc_ensure_init_ok [OF ok] by (simp_all add: s1_def)
  have "ipc_ok (s1\<lparr>g_mailboxes := (g_mailboxes s1)[nat pid := snd (mb_put m (g_mailboxes s1 ! nat pid))]\<rparr>)"
    if p: "0 \<le> pid" "pid < int MAX_IPC_PIDS" and m: "1 \<le> msg_type m" "msg_type m \<le> 31" for m
  proof (rule ipc_ok_upd [OF s1])
    have "nat pid < MAX_IPC_PIDS" using p by simp
    note d = ipc_okD [OF s1 this]
    show "mb_ok (snd (mb_put m (g_mailboxes s1 ! nat pid)))" by (rule mb_put_ok(1) [OF d(2)])
    fix x assume "x \<in> set (mb_content (snd (mb_put m (g_mailboxes s1 ! nat pid))))"
    then show "1 \<le> msg_type x \<and> msg_type x \<le> 31"
      using mb_put_ok(3,4) [OF d(2), of m] d(3) m by (cases "fst (mb_put m (g_mailboxes s1 ! nat pid))") auto
  qed
  then show ?thesis
    using ok s1 by (auto simp: snd_msg_def Let_def case_prod_beta simp flip: s1_def split: option.split)
qed

text \<open>A message that is received is one the receiver asked for, and it was in the mailbox.\<close>

lemma rcv_loop_wants:
  assumes "rcv_loop pid out msk tmo ws s = (Got ER_OK (Some m), s')"
    and "\<And>w. w \<in> set ws \<Longrightarrow> case w of Woken t \<Rightarrow> mb_ok (g_mailboxes t ! pid) | Timedout t \<Rightarrow> mb_ok (g_mailboxes t ! pid)"
    and "mb_ok (g_mailboxes s ! pid)"
  shows "wants msk (nat (msg_type m))"
  using assms
proof (induction pid out msk tmo ws s rule: rcv_loop.induct)
  case (1 pid out msk tmo ws s)
  obtain r mb where f: "mb_fetch msk (g_mailboxes s ! pid) = (r, mb)" by (cases "mb_fetch msk (g_mailboxes s ! pid)")
  note tf = mb_fetch_ok(2) [OF "1.prems"(3), of msk]
  show ?case
  proof (cases r)
    case (Some x)
    then have "take_first (\<lambda>m. wants msk (nat (msg_type m))) (mb_content (g_mailboxes s ! pid)) = (Some x, mb_content mb)"
      using tf f by simp
    then have "wants msk (nat (msg_type x))" by (rule take_first_Some)
    then show ?thesis using "1.prems"(1) f Some by (simp add: rcv_loop.simps [of pid])
  next
    case None
    have e: "(if tmo = 0 then (Got ER_TMOUT (Some out), s)
      else (case ws of [] \<Rightarrow> (Waiting, s)
             | Woken s' # ws' \<Rightarrow> rcv_loop pid out msk tmo ws' s'
             | Timedout s' # ws' \<Rightarrow>
                 if tmo > 0 then (Got ER_TMOUT (Some out), s') else rcv_loop pid out msk tmo ws' s')) = (Got ER_OK (Some m), s')"
      using "1.prems"(1) f None by (subst (asm) rcv_loop.simps) simp
    note ih = "1.IH" [OF f [symmetric, unfolded None] refl]
    show ?thesis
    proof (cases ws)
      case (Cons w ws')
      have h: "case u of Woken t \<Rightarrow> mb_ok (g_mailboxes t ! pid) | Timedout t \<Rightarrow> mb_ok (g_mailboxes t ! pid)"
        if "u \<in> set ws'" for u using "1.prems"(2) [of u] that Cons by simp
      have hw: "case w of Woken t \<Rightarrow> mb_ok (g_mailboxes t ! pid) | Timedout t \<Rightarrow> mb_ok (g_mailboxes t ! pid)"
        using "1.prems"(2) [of w] Cons by simp
      show ?thesis
        using e ih Cons h hw by (cases w) (auto split: if_splits)
    qed (use e in \<open>auto split: if_splits\<close>)
  qed
qed

section \<open>Wakeups\<close>

text \<open>Threads that wait at one mailbox: \<open>snd_msg\<close> signals the condition variable, which wakes one
  of them, whichever; a woken thread searches, and waits again if nothing fits.\<close>

record waiters =
  w_box :: ipc_mailbox
  w_waiting :: "(nat \<times> UINT) list"
  w_woken :: "(nat \<times> UINT) list"

inductive box_step :: "waiters \<Rightarrow> waiters \<Rightarrow> bool" where
  send_wakes: "mb_put m (w_box c) = (True, mb) \<Longrightarrow> w \<in> set (w_waiting c) \<Longrightarrow>
    box_step c (c\<lparr>w_box := mb, w_waiting := remove1 w (w_waiting c), w_woken := w # w_woken c\<rparr>)"
| send_nobody: "mb_put m (w_box c) = (True, mb) \<Longrightarrow> w_waiting c = [] \<Longrightarrow> box_step c (c\<lparr>w_box := mb\<rparr>)"
| found: "w \<in> set (w_woken c) \<Longrightarrow> mb_fetch (snd w) (w_box c) = (Some m, mb) \<Longrightarrow>
    box_step c (c\<lparr>w_box := mb, w_woken := remove1 w (w_woken c)\<rparr>)"
| not_found: "w \<in> set (w_woken c) \<Longrightarrow> mb_fetch (snd w) (w_box c) = (None, mb) \<Longrightarrow>
    box_step c (c\<lparr>w_woken := remove1 w (w_woken c), w_waiting := w # w_waiting c\<rparr>)"

text \<open>With one receiving thread, no message it wants is in the mailbox while it waits.\<close>

definition one_receiver :: "waiters \<Rightarrow> bool" where
  "one_receiver c \<longleftrightarrow> mb_ok (w_box c) \<and> length (w_waiting c) + length (w_woken c) \<le> 1 \<and>
     (\<forall>w \<in> set (w_waiting c). \<forall>m \<in> set (mb_content (w_box c)). \<not> wants (snd w) (nat (msg_type m)))"

lemma box_step_one_receiver:
  assumes "box_step c c'" "one_receiver c"
  shows "one_receiver c'"
  using assms
proof (induction rule: box_step.induct)
  case (send_wakes m c mb w)
  then have "w_waiting c = [w]" "w_woken c = []" by (cases "w_waiting c"; auto simp: one_receiver_def)+
  then show ?case using send_wakes mb_put_ok(1) [of "w_box c" m] by (simp add: one_receiver_def)
next
  case (send_nobody m c mb)
  then show ?case using mb_put_ok(1) [of "w_box c" m] by (simp add: one_receiver_def)
next
  case (found w c m mb)
  then have "w_waiting c = []" "length (w_woken c) = 1" by (cases "w_woken c"; auto simp: one_receiver_def)+
  then show ?case using found mb_fetch_ok(1) [of "w_box c" "snd w"] by (simp add: one_receiver_def length_remove1)
next
  case (not_found w c mb)
  then have s: "w_waiting c = []" "w_woken c = [w]" by (cases "w_woken c"; auto simp: one_receiver_def)+
  have "take_first (\<lambda>m. wants (snd w) (nat (msg_type m))) (mb_content (w_box c)) = (None, mb_content mb)"
    using mb_fetch_ok(2) [of "w_box c" "snd w"] not_found by (simp add: one_receiver_def)
  then show ?case using s not_found.prems take_first_None [of "\<lambda>m. wants (snd w) (nat (msg_type m))" "mb_content (w_box c)"]
    by (auto simp: one_receiver_def)
qed

lemma one_receiver_steps: "box_step\<^sup>*\<^sup>* c c' \<Longrightarrow> one_receiver c \<Longrightarrow> one_receiver c'"
  by (induction rule: rtranclp_induct) (auto intro: box_step_one_receiver)

text \<open>With two, a message can stay in the mailbox although a thread waits for its type and no
  thread is awake.\<close>

definition two_waiting :: waiters where
  "two_waiting = \<lparr>w_box = mailbox0, w_waiting = [(1, MSGMASK 1), (2, MSGMASK 2)], w_woken = []\<rparr>"

lemma lost_wakeup:
  "\<exists>c. box_step\<^sup>*\<^sup>* two_waiting c \<and> w_woken c = [] \<and> (2, MSGMASK 2) \<in> set (w_waiting c) \<and>
     (\<exists>m \<in> set (mb_content (w_box c)). wants (MSGMASK 2) (nat (msg_type m)))"
proof -
  define m where "m = message0\<lparr>msg_type := 2\<rparr>"
  define mb where "mb = snd (mb_put m mailbox0)"
  define c1 where "c1 = \<lparr>w_box = mb, w_waiting = [(2, MSGMASK 2)], w_woken = [(1, MSGMASK 1)]\<rparr>"
  define c2 where "c2 = \<lparr>w_box = mb, w_waiting = [(1, MSGMASK 1), (2, MSGMASK 2)], w_woken = []\<rparr>"
  have p: "mb_put m mailbox0 = (True, mb)" by (simp add: mb_def mb_put_def mailbox0_def MAX_QUEUED_MSGS_def)
  then have c: "mb_content mb = [m]" "mb_ok mb" using mb_put_ok [OF mailbox0_ok(1), of m] mailbox0_ok(2) by simp_all
  have w: "wants (MSGMASK 2) (nat (msg_type m))" "\<not> wants (MSGMASK 1) (nat (msg_type m))"
    by (simp_all add: wants_def MSGMASK_def m_def has_def)
  have s1: "box_step two_waiting c1"
    using send_wakes [of m two_waiting mb "(1, MSGMASK 1)"] p by (simp add: two_waiting_def c1_def)
  have "fst (mb_fetch (MSGMASK 1) mb) = None" using mb_fetch_ok(2) [OF c(2), of "MSGMASK 1"] c(1) w(2) by simp
  then obtain mb' where "mb_fetch (MSGMASK 1) mb = (None, mb')" by (cases "mb_fetch (MSGMASK 1) mb") auto
  then have s2: "box_step c1 c2"
    using not_found [of "(1, MSGMASK 1)" c1 mb'] by (simp add: c1_def c2_def)
  have "box_step\<^sup>*\<^sup>* two_waiting c2" using s1 s2 by (meson rtranclp.simps)
  then show ?thesis using w(1) c(1) by (intro exI [of _ c2]) (simp add: c2_def)
qed

end
