(* ===== verification/Fs_Record.thy ===== *)
theory Fs_Record
  imports B_Types
begin

text \<open>
  The record file system (\<open>fs_record.c\<close>): 16 files of 8 records of at most 4096 bytes, and 16 open
  records with an offset each. A record is shown to be a byte string that is overwritten and
  extended; what is not promised (records that outlive their file) is stated as well.
\<close>

section \<open>State\<close>

definition MAX_FS_FILES :: nat where "MAX_FS_FILES = 16"
definition MAX_RECS_PER_FILE :: nat where "MAX_RECS_PER_FILE = 8"
definition MAX_RECORD_SIZE :: nat where "MAX_RECORD_SIZE = 4096"
definition MAX_OPEN_RECS :: nat where "MAX_OPEN_RECS = 16"

definition F_WRITE :: UINT where "F_WRITE = 2"
definition F_CREATE :: UINT where "F_CREATE = 8"
definition REC_POS_SET :: int where "REC_POS_SET = 0"
definition REC_POS_CUR :: int where "REC_POS_CUR = 1"
definition REC_POS_END :: int where "REC_POS_END = 2"

record btron_rec =
  r_data :: "UB list"
  r_size :: int
  r_in_use :: bool

record btron_file =
  f_path :: string
  f_mode :: UINT
  f_open :: bool
  f_exists :: bool
  f_records :: "btron_rec list"
  f_num_records :: int

record btron_open_rec =
  o_fd :: ID
  o_rec_idx :: int
  o_mode :: UINT
  o_offset :: int
  o_open :: bool

record fs_st =
  g_files :: "btron_file list"
  g_open_recs :: "btron_open_rec list"
  g_fs_init :: bool

definition rec0 :: btron_rec where
  "rec0 = \<lparr>r_data = replicate MAX_RECORD_SIZE 0, r_size = 0, r_in_use = False\<rparr>"

definition file0 :: btron_file where
  "file0 = \<lparr>f_path = [], f_mode = 0, f_open = False, f_exists = False,
     f_records = replicate MAX_RECS_PER_FILE rec0, f_num_records = 0\<rparr>"

definition orec0 :: btron_open_rec where
  "orec0 = \<lparr>o_fd = 0, o_rec_idx = 0, o_mode = 0, o_offset = 0, o_open = False\<rparr>"

definition fs_boot :: fs_st where
  "fs_boot = \<lparr>g_files = replicate MAX_FS_FILES file0, g_open_recs = replicate MAX_OPEN_RECS orec0, g_fs_init = False\<rparr>"

text \<open>\<open>memcpy\<close> into an array, and \<open>strncpy\<close> into a field of 64 characters of which the last stays 0.\<close>

definition write_at :: "nat \<Rightarrow> 'b list \<Rightarrow> 'b list \<Rightarrow> 'b list" where
  "write_at p bs d = take p d @ bs @ drop (p + length bs) d"

definition path_field :: "string \<Rightarrow> string" where
  "path_field path = take 63 path"

definition def_record :: "UB list" where
  "def_record = map (\<lambda>c. word_of_nat (of_char c)) ''TRON_AUTORUN''"

definition fs_init_once :: "fs_st \<Rightarrow> fs_st" where
  "fs_init_once s =
     (if g_fs_init s then s
      else s\<lparr>g_files := (replicate MAX_FS_FILES file0)
               [0 := file0\<lparr>f_exists := True, f_path := path_field ''/sys/startup.tad'', f_num_records := 1,
                  f_records := (replicate MAX_RECS_PER_FILE rec0)
                    [0 := rec0\<lparr>r_in_use := True, r_data := write_at 0 def_record (r_data rec0),
                       r_size := int (length def_record)\<rparr>]\<rparr>],
             g_open_recs := replicate MAX_OPEN_RECS orec0, g_fs_init := True\<rparr>)"

definition upd_file :: "nat \<Rightarrow> (btron_file \<Rightarrow> btron_file) \<Rightarrow> fs_st \<Rightarrow> fs_st" where
  "upd_file i f s = s\<lparr>g_files := (g_files s)[i := f (g_files s ! i)]\<rparr>"

definition upd_rec :: "nat \<Rightarrow> nat \<Rightarrow> (btron_rec \<Rightarrow> btron_rec) \<Rightarrow> fs_st \<Rightarrow> fs_st" where
  "upd_rec i j f = upd_file i (\<lambda>c. c\<lparr>f_records := (f_records c)[j := f (f_records c ! j)]\<rparr>)"

definition upd_orec :: "nat \<Rightarrow> (btron_open_rec \<Rightarrow> btron_open_rec) \<Rightarrow> fs_st \<Rightarrow> fs_st" where
  "upd_orec i f s = s\<lparr>g_open_recs := (g_open_recs s)[i := f (g_open_recs s ! i)]\<rparr>"

section \<open>Files\<close>

definition find_file :: "string \<Rightarrow> fs_st \<Rightarrow> nat option" where
  "find_file path s = find_slot (\<lambda>f. f_exists f \<and> f_path f = path) (g_files s)"

definition opn_fil :: "string option \<Rightarrow> UINT \<Rightarrow> fs_st \<Rightarrow> ID \<times> fs_st" where
  "opn_fil path md s =
     (case path of None \<Rightarrow> (ER_PAR, s)
      | Some p \<Rightarrow>
          (let s1 = fs_init_once s
           in case find_file p s1 of
                Some i \<Rightarrow> (int i + 1, upd_file i (\<lambda>f. f\<lparr>f_open := True, f_mode := md\<rparr>) s1)
              | None \<Rightarrow>
                  if has md F_CREATE
                  then
                    (case find_slot (\<lambda>f. \<not> f_exists f) (g_files s1) of
                       Some i \<Rightarrow> (int i + 1, upd_file i (\<lambda>f. f\<lparr>f_exists := True, f_open := True, f_mode := md,
                                    f_num_records := 0, f_path := path_field p\<rparr>) s1)
                     | None \<Rightarrow> (ER_NOSPC, s1))
                  else (ER_NOEXS, s1)))"

definition bad_fd :: "ID \<Rightarrow> bool" where
  "bad_fd fd \<longleftrightarrow> fd \<le> 0 \<or> fd > int MAX_FS_FILES"

definition cls_fil :: "ID \<Rightarrow> fs_st \<Rightarrow> ER \<times> fs_st" where
  "cls_fil fd s =
     (if bad_fd fd then (ER_FD, s)
      else
        (let s1 = fs_init_once s; i = nat (fd - 1)
         in if \<not> f_exists (g_files s1 ! i) \<or> \<not> f_open (g_files s1 ! i) then (ER_FD, s1)
            else (ER_OK, upd_file i (\<lambda>f. f\<lparr>f_open := False\<rparr>) s1)))"

definition cre_fil :: "string option \<Rightarrow> UINT \<Rightarrow> fs_st \<Rightarrow> ID \<times> fs_st" where
  "cre_fil path md s = opn_fil path (md OR F_CREATE) s"

definition del_fil :: "string option \<Rightarrow> fs_st \<Rightarrow> ER \<times> fs_st" where
  "del_fil path s =
     (case path of None \<Rightarrow> (ER_PAR, s)
      | Some p \<Rightarrow>
          (let s1 = fs_init_once s
           in case find_file p s1 of
                Some i \<Rightarrow> (ER_OK, upd_file i (\<lambda>f. f\<lparr>f_exists := False, f_open := False\<rparr>) s1)
              | None \<Rightarrow> (ER_NOEXS, s1)))"

definition chg_fil :: "ID \<Rightarrow> UINT \<Rightarrow> fs_st \<Rightarrow> ER \<times> fs_st" where
  "chg_fil fd md s =
     (if bad_fd fd then (ER_FD, s) else (ER_OK, upd_file (nat (fd - 1)) (\<lambda>f. f\<lparr>f_mode := md\<rparr>) s))"

definition mov_fil :: "string option \<Rightarrow> string option \<Rightarrow> fs_st \<Rightarrow> ER \<times> fs_st" where
  "mov_fil src dst s =
     (case (src, dst) of
        (Some p, Some q) \<Rightarrow>
          (let s1 = fs_init_once s
           in case find_file p s1 of
                Some i \<Rightarrow> (ER_OK, upd_file i (\<lambda>f. f\<lparr>f_path := path_field q\<rparr>) s1)
              | None \<Rightarrow> (ER_NOEXS, s1))
      | _ \<Rightarrow> (ER_PAR, s))"

section \<open>Records\<close>

definition bad_idx :: "int \<Rightarrow> bool" where
  "bad_idx i \<longleftrightarrow> i < 0 \<or> i \<ge> int MAX_RECS_PER_FILE"

definition make_slot :: "nat \<Rightarrow> int \<Rightarrow> fs_st \<Rightarrow> fs_st" where
  "make_slot i rec_idx s =
     (if \<not> r_in_use (f_records (g_files s ! i) ! nat rec_idx)
      then upd_file i (\<lambda>f. f\<lparr>f_num_records := if rec_idx \<ge> f_num_records f then rec_idx + 1 else f_num_records f\<rparr>)
             (upd_rec i (nat rec_idx) (\<lambda>r. r\<lparr>r_in_use := True, r_size := 0\<rparr>) s)
      else s)"

definition opn_rec :: "ID \<Rightarrow> int \<Rightarrow> UINT \<Rightarrow> fs_st \<Rightarrow> ID \<times> fs_st" where
  "opn_rec fd rec_idx md s =
     (if bad_fd fd then (ER_FD, s)
      else if bad_idx rec_idx then (ER_PAR, s)
      else
        (let s1 = fs_init_once s; i = nat (fd - 1)
         in if \<not> f_exists (g_files s1 ! i) then (ER_FD, s1)
            else
              (let s2 = make_slot i rec_idx s1
               in case find_slot (\<lambda>r. \<not> o_open r) (g_open_recs s2) of
                    Some k \<Rightarrow> (int k + 1, upd_orec k (\<lambda>_. \<lparr>o_fd = fd, o_rec_idx = rec_idx, o_mode = md,
                                 o_offset = 0, o_open = True\<rparr>) s2)
                  | None \<Rightarrow> (ER_NOSPC, s2))))"

definition bad_rec :: "ID \<Rightarrow> bool" where
  "bad_rec r \<longleftrightarrow> r \<le> 0 \<or> r > int MAX_OPEN_RECS"

definition cls_rec :: "ID \<Rightarrow> fs_st \<Rightarrow> ER \<times> fs_st" where
  "cls_rec r s = (if bad_rec r then (ER_ID, s) else (ER_OK, upd_orec (nat (r - 1)) (\<lambda>c. c\<lparr>o_open := False\<rparr>) s))"

abbreviation orec :: "ID \<Rightarrow> fs_st \<Rightarrow> btron_open_rec" where
  "orec r s \<equiv> g_open_recs s ! nat (r - 1)"

definition orec_rec :: "btron_open_rec \<Rightarrow> fs_st \<Rightarrow> btron_rec" where
  "orec_rec c s = f_records (g_files s ! nat (o_fd c - 1)) ! nat (o_rec_idx c)"

text \<open>The caller's buffer is the list of its bytes, \<open>None\<close> for \<open>NULL\<close>; the last result is what is
  stored through the size pointer.\<close>

definition rd_rec :: "ID \<Rightarrow> UB list option \<Rightarrow> int \<Rightarrow> fs_st \<Rightarrow> ER \<times> UB list option \<times> int option \<times> fs_st" where
  "rd_rec rec_id buf sz s =
     (case buf of None \<Rightarrow> (ER_PAR, buf, None, s)
      | Some b \<Rightarrow>
          if sz < 0 then (ER_PAR, buf, None, s)
          else if bad_rec rec_id then (ER_ID, buf, None, s)
          else if \<not> o_open (orec rec_id s) then (ER_ID, buf, None, s)
          else
            (let c = orec rec_id s; r = orec_rec c s; avail = r_size r - o_offset c;
                 to_read = (if sz < avail then sz else avail)
             in if to_read > 0
                then (ER_OK, Some (write_at 0 (take (nat to_read) (drop (nat (o_offset c)) (r_data r))) b), Some to_read,
                      upd_orec (nat (rec_id - 1)) (\<lambda>c. c\<lparr>o_offset := o_offset c + to_read\<rparr>) s)
                else (ER_OK, buf, Some 0, s)))"

definition wr_rec :: "ID \<Rightarrow> UB list option \<Rightarrow> int \<Rightarrow> fs_st \<Rightarrow> ER \<times> int option \<times> fs_st" where
  "wr_rec rec_id buf sz s =
     (case buf of None \<Rightarrow> (ER_PAR, None, s)
      | Some b \<Rightarrow>
          if sz < 0 then (ER_PAR, None, s)
          else if bad_rec rec_id then (ER_ID, None, s)
          else if \<not> o_open (orec rec_id s) then (ER_ID, None, s)
          else
            (let c = orec rec_id s; space = int MAX_RECORD_SIZE - o_offset c;
                 to_write = (if sz < space then sz else space); off = o_offset c + to_write
             in if to_write > 0
                then (ER_OK, Some to_write,
                      upd_orec (nat (rec_id - 1)) (\<lambda>c. c\<lparr>o_offset := off\<rparr>)
                        (upd_rec (nat (o_fd c - 1)) (nat (o_rec_idx c))
                          (\<lambda>r. r\<lparr>r_data := write_at (nat (o_offset c)) (take (nat to_write) b) (r_data r),
                                 r_size := if off > r_size r then off else r_size r\<rparr>) s))
                else (ER_OK, Some to_write, s)))"

definition ins_rec :: "ID \<Rightarrow> int \<Rightarrow> UB list option \<Rightarrow> int \<Rightarrow> fs_st \<Rightarrow> ER \<times> fs_st" where
  "ins_rec fd rec_idx buf sz s =
     (let (rid, s1) = opn_rec fd rec_idx F_WRITE s
      in if rid \<le> 0 then (rid, s1)
         else (let (er, _, s2) = wr_rec rid buf sz s1 in (er, snd (cls_rec rid s2))))"

definition del_rec :: "ID \<Rightarrow> int \<Rightarrow> fs_st \<Rightarrow> ER \<times> fs_st" where
  "del_rec fd rec_idx s =
     (if bad_fd fd then (ER_FD, s)
      else if bad_idx rec_idx then (ER_PAR, s)
      else (ER_OK, upd_rec (nat (fd - 1)) (nat rec_idx) (\<lambda>r. r\<lparr>r_in_use := False, r_size := 0\<rparr>) s))"

text \<open>The additions of \<open>pos_rec\<close> are in 32 bits.\<close>

definition to_W :: "int \<Rightarrow> int" where
  "to_W i = signed_take_bit 31 i"

definition pos_rec :: "ID \<Rightarrow> int \<Rightarrow> int \<Rightarrow> fs_st \<Rightarrow> ER \<times> fs_st" where
  "pos_rec rec_id offset origin s =
     (if bad_rec rec_id then (ER_ID, s)
      else if \<not> o_open (orec rec_id s) then (ER_ID, s)
      else
        (let c = orec rec_id s; size = r_size (orec_rec c s);
             o1 = (if origin = REC_POS_SET then offset
                   else if origin = REC_POS_CUR then to_W (o_offset c + offset)
                   else if origin = REC_POS_END then to_W (size + offset) else o_offset c);
             o2 = (if o1 < 0 then 0 else o1); o3 = (if o2 > size then size else o2)
         in (ER_OK, upd_orec (nat (rec_id - 1)) (\<lambda>c. c\<lparr>o_offset := o3\<rparr>) s)))"

definition trn_rec :: "ID \<Rightarrow> int \<Rightarrow> fs_st \<Rightarrow> ER \<times> fs_st" where
  "trn_rec rec_id sz s =
     (if bad_rec rec_id then (ER_ID, s)
      else if \<not> o_open (orec rec_id s) then (ER_ID, s)
      else if sz \<ge> 0 \<and> sz \<le> int MAX_RECORD_SIZE
           then (ER_OK, upd_rec (nat (o_fd (orec rec_id s) - 1)) (nat (o_rec_idx (orec rec_id s))) (\<lambda>r. r\<lparr>r_size := sz\<rparr>) s)
      else (ER_OK, s))"

section \<open>Directories, links and volumes\<close>

text \<open>These answer with constants.\<close>

record dir_entry =
  de_name :: string
  de_attr :: UINT
  de_size :: UINT
  de_robj :: ID

record vol_info =
  v_id :: ID
  v_name :: string
  v_total :: UINT
  v_free :: UINT
  v_block :: UINT

definition opn_dir :: "string option \<Rightarrow> ID" where
  "opn_dir path = 1"

definition rd_dir :: "ID \<Rightarrow> dir_entry option \<Rightarrow> ER \<times> dir_entry option" where
  "rd_dir dir_id entry =
     (case entry of None \<Rightarrow> (ER_PAR, None)
      | Some e \<Rightarrow> (ER_OK, Some \<lparr>de_name = ''sample.tad'', de_attr = 0, de_size = 1024, de_robj = 100\<rparr>))"

definition cls_dir :: "ID \<Rightarrow> ER" where
  "cls_dir dir_id = ER_OK"

definition cre_lnk :: "string option \<Rightarrow> 'l \<Rightarrow> ER" where
  "cre_lnk link_path target = ER_OK"

definition del_lnk :: "string option \<Rightarrow> ER" where
  "del_lnk link_path = ER_OK"

definition ref_vol :: "ID \<Rightarrow> vol_info option \<Rightarrow> ER \<times> vol_info option" where
  "ref_vol vol_id info =
     (case info of None \<Rightarrow> (ER_PAR, None)
      | Some i \<Rightarrow> (ER_OK, Some \<lparr>v_id = (if vol_id > 0 then vol_id else 1), v_name = ''BTRON_SYSTEM'',
          v_total = 131072, v_free = 120000, v_block = 4096\<rparr>))"

section \<open>The invariant\<close>

definition rec_ok :: "btron_rec \<Rightarrow> bool" where
  "rec_ok r \<longleftrightarrow> length (r_data r) = MAX_RECORD_SIZE \<and> 0 \<le> r_size r \<and> r_size r \<le> int MAX_RECORD_SIZE"

definition file_ok :: "btron_file \<Rightarrow> bool" where
  "file_ok f \<longleftrightarrow> length (f_records f) = MAX_RECS_PER_FILE \<and> (\<forall>r \<in> set (f_records f). rec_ok r) \<and>
     length (f_path f) \<le> 63"

definition orec_ok :: "btron_open_rec \<Rightarrow> bool" where
  "orec_ok c \<longleftrightarrow> (o_open c \<longrightarrow> \<not> bad_fd (o_fd c) \<and> \<not> bad_idx (o_rec_idx c) \<and>
     0 \<le> o_offset c \<and> o_offset c \<le> int MAX_RECORD_SIZE)"

definition fs_ok :: "fs_st \<Rightarrow> bool" where
  "fs_ok s \<longleftrightarrow> length (g_files s) = MAX_FS_FILES \<and> length (g_open_recs s) = MAX_OPEN_RECS \<and>
     (\<forall>f \<in> set (g_files s). file_ok f) \<and> (\<forall>c \<in> set (g_open_recs s). orec_ok c)"

lemma length_write_at [simp]: "p + length bs \<le> length d \<Longrightarrow> length (write_at p bs d) = length d"
  by (simp add: write_at_def)

lemma rec0_ok [simp]: "rec_ok rec0"
  by (simp add: rec_ok_def rec0_def)

lemma file0_ok [simp]: "file_ok file0"
  by (simp add: file_ok_def file0_def)

lemma orec0_ok [simp]: "orec_ok orec0"
  by (simp add: orec_ok_def orec0_def)

lemma Ball_update: "\<forall>y \<in> set xs. P y \<Longrightarrow> P x \<Longrightarrow> \<forall>y \<in> set (xs[i := x]). P y"
  using set_update_subset_insert [of xs i x] by blast

lemma fs_boot_ok: "fs_ok fs_boot"
  by (simp add: fs_ok_def fs_boot_def)

lemma fs_init_once_ok:
  assumes "fs_ok s"
  shows "fs_ok (fs_init_once s)"
proof -
  have l: "length def_record = 12" by (simp add: def_record_def)
  then have "rec_ok (rec0\<lparr>r_in_use := True, r_data := write_at 0 def_record (r_data rec0), r_size := int (length def_record)\<rparr>)"
    by (simp add: rec_ok_def rec0_def MAX_RECORD_SIZE_def)
  then have "file_ok (file0\<lparr>f_exists := True, f_path := path_field ''/sys/startup.tad'', f_num_records := 1,
                  f_records := (replicate MAX_RECS_PER_FILE rec0)
                    [0 := rec0\<lparr>r_in_use := True, r_data := write_at 0 def_record (r_data rec0),
                       r_size := int (length def_record)\<rparr>]\<rparr>)"
    using Ball_update [of "replicate MAX_RECS_PER_FILE rec0" rec_ok] by (simp add: file_ok_def path_field_def)
  then show ?thesis
    using assms Ball_update [of "replicate MAX_FS_FILES file0" file_ok] by (simp add: fs_init_once_def fs_ok_def)
qed

lemma fs_init_once_init [simp]: "g_fs_init (fs_init_once s)"
  by (simp add: fs_init_once_def)

lemma fs_okD:
  assumes "fs_ok s"
  shows "length (g_files s) = MAX_FS_FILES" "length (g_open_recs s) = MAX_OPEN_RECS"
    "i < MAX_FS_FILES \<Longrightarrow> file_ok (g_files s ! i)" "k < MAX_OPEN_RECS \<Longrightarrow> orec_ok (g_open_recs s ! k)"
  using assms by (auto simp: fs_ok_def)

lemma upd_file_ok:
  assumes "fs_ok s" "i < MAX_FS_FILES \<Longrightarrow> file_ok (g_files s ! i) \<Longrightarrow> file_ok (f (g_files s ! i))"
  shows "fs_ok (upd_file i f s)"
proof (cases "i < MAX_FS_FILES")
  case True
  then have "file_ok (f (g_files s ! i))" using assms(2) fs_okD(3) [OF assms(1)] by simp
  then have "\<forall>x \<in> set ((g_files s)[i := f (g_files s ! i)]). file_ok x"
    using assms(1) by (intro Ball_update) (simp_all add: fs_ok_def)
  then show ?thesis using assms(1) by (simp add: upd_file_def fs_ok_def)
next
  case False
  then show ?thesis using assms(1) fs_okD(1) [OF assms(1)] by (simp add: upd_file_def list_update_beyond)
qed

lemma upd_rec_ok:
  assumes ok: "fs_ok s" and r: "\<And>r. rec_ok r \<Longrightarrow> r = f_records (g_files s ! i) ! j \<Longrightarrow> rec_ok (f r)"
  shows "fs_ok (upd_rec i j f s)"
  unfolding upd_rec_def
proof (rule upd_file_ok [OF ok])
  let ?c = "g_files s ! i"
  assume c: "file_ok ?c"
  have "rec_ok (f (f_records ?c ! j))" if "j < MAX_RECS_PER_FILE" using c r that by (simp add: file_ok_def)
  then have "\<forall>x \<in> set ((f_records ?c)[j := f (f_records ?c ! j)]). rec_ok x"
    using c Ball_update [of "f_records ?c" rec_ok "f (f_records ?c ! j)" j]
    by (cases "j < MAX_RECS_PER_FILE") (simp_all add: file_ok_def list_update_beyond)
  then show "file_ok (?c\<lparr>f_records := (f_records ?c)[j := f (f_records ?c ! j)]\<rparr>)"
    using c by (simp add: file_ok_def)
qed

lemma upd_orec_ok:
  assumes "fs_ok s" "k < MAX_OPEN_RECS \<Longrightarrow> orec_ok (f (g_open_recs s ! k))"
  shows "fs_ok (upd_orec k f s)"
proof (cases "k < MAX_OPEN_RECS")
  case True
  then have "\<forall>x \<in> set ((g_open_recs s)[k := f (g_open_recs s ! k)]). orec_ok x"
    using assms by (intro Ball_update) (simp_all add: fs_ok_def)
  then show ?thesis using assms(1) by (simp add: upd_orec_def fs_ok_def)
next
  case False
  then show ?thesis using assms(1) fs_okD(2) [OF assms(1)] by (simp add: upd_orec_def list_update_beyond)
qed

lemma upd_sel [simp]:
  "g_open_recs (upd_file i f s) = g_open_recs s" "g_open_recs (upd_rec i j h s) = g_open_recs s"
  "g_files (upd_orec k g s) = g_files s" "g_fs_init (upd_file i f s) = g_fs_init s"
  "g_fs_init (upd_rec i j h s) = g_fs_init s" "g_fs_init (upd_orec k g s) = g_fs_init s"
  "orec_rec c (upd_orec k g s) = orec_rec c s"
  by (simp_all add: upd_file_def upd_rec_def upd_orec_def orec_rec_def)

lemma orec_open:
  assumes ok: "fs_ok s" and r: "\<not> bad_rec r" "o_open (orec r s)"
  shows "nat (r - 1) < MAX_OPEN_RECS" "nat (o_fd (orec r s) - 1) < MAX_FS_FILES"
    "nat (o_rec_idx (orec r s)) < MAX_RECS_PER_FILE" "0 \<le> o_offset (orec r s)"
    "o_offset (orec r s) \<le> int MAX_RECORD_SIZE" "rec_ok (orec_rec (orec r s) s)" "orec_ok (orec r s)"
proof -
  show k: "nat (r - 1) < MAX_OPEN_RECS" using r(1) by (auto simp: bad_rec_def)
  show o: "orec_ok (orec r s)" by (rule fs_okD(4) [OF ok k])
  then show f: "nat (o_fd (orec r s) - 1) < MAX_FS_FILES" and j: "nat (o_rec_idx (orec r s)) < MAX_RECS_PER_FILE"
    and "0 \<le> o_offset (orec r s)" "o_offset (orec r s) \<le> int MAX_RECORD_SIZE"
    using r(2) by (auto simp: orec_ok_def bad_fd_def bad_idx_def)
  show "rec_ok (orec_rec (orec r s) s)" using fs_okD(3) [OF ok f] j by (simp add: orec_rec_def file_ok_def)
qed

section \<open>Every operation keeps it\<close>

lemma opn_fil_ok: "fs_ok s \<Longrightarrow> fs_ok (snd (opn_fil path md s))"
  using fs_init_once_ok [of s]
  by (auto simp: opn_fil_def Let_def file_ok_def path_field_def intro!: upd_file_ok split: option.split)

lemma cls_fil_ok: "fs_ok s \<Longrightarrow> fs_ok (snd (cls_fil fd s))"
  using fs_init_once_ok [of s] by (auto simp: cls_fil_def Let_def file_ok_def intro!: upd_file_ok)

lemma del_fil_ok: "fs_ok s \<Longrightarrow> fs_ok (snd (del_fil path s))"
  using fs_init_once_ok [of s] by (auto simp: del_fil_def Let_def file_ok_def intro!: upd_file_ok split: option.split)

lemma chg_fil_ok: "fs_ok s \<Longrightarrow> fs_ok (snd (chg_fil fd md s))"
  by (auto simp: chg_fil_def file_ok_def intro!: upd_file_ok)

lemma mov_fil_ok: "fs_ok s \<Longrightarrow> fs_ok (snd (mov_fil src dst s))"
  using fs_init_once_ok [of s]
  by (auto simp: mov_fil_def Let_def file_ok_def path_field_def intro!: upd_file_ok split: option.split)

lemma make_slot_ok: "fs_ok s \<Longrightarrow> fs_ok (make_slot i k s)"
  unfolding make_slot_def by (auto simp: file_ok_def rec_ok_def intro!: upd_file_ok upd_rec_ok)

lemma opn_rec_ok: "fs_ok s \<Longrightarrow> fs_ok (snd (opn_rec fd k md s))"
proof -
  assume ok: "fs_ok s"
  note i = fs_init_once_ok [OF ok] and m = make_slot_ok [OF fs_init_once_ok [OF ok], of "nat (fd - 1)" k]
  have "fs_ok (upd_orec j (\<lambda>_. \<lparr>o_fd = fd, o_rec_idx = k, o_mode = md, o_offset = 0, o_open = True\<rparr>)
      (make_slot (nat (fd - 1)) k (fs_init_once s)))" if "\<not> bad_fd fd" "\<not> bad_idx k" for j
    using that by (intro upd_orec_ok [OF m]) (simp add: orec_ok_def)
  then show ?thesis using ok i m by (simp add: opn_rec_def Let_def split: option.split)
qed

lemma cls_rec_ok: "fs_ok s \<Longrightarrow> fs_ok (snd (cls_rec r s))"
  by (auto simp: cls_rec_def orec_ok_def intro!: upd_orec_ok)

lemma del_rec_ok: "fs_ok s \<Longrightarrow> fs_ok (snd (del_rec fd k s))"
  by (auto simp: del_rec_def rec_ok_def intro!: upd_rec_ok)

lemma rd_rec_ok:
  assumes ok: "fs_ok s"
  shows "fs_ok (snd (snd (snd (rd_rec r buf sz s))))"
proof (cases "bad_rec r \<or> \<not> o_open (orec r s)")
  case False
  then have b: "\<not> bad_rec r" "o_open (orec r s)" by auto
  note o = orec_open [OF ok b]
  have "fs_ok (upd_orec (nat (r - 1)) (\<lambda>c. c\<lparr>o_offset := o_offset c + n\<rparr>) s)"
    if "n > 0" "n \<le> r_size (orec_rec (orec r s) s) - o_offset (orec r s)" for n
    using o that b by (intro upd_orec_ok [OF ok]) (auto simp: orec_ok_def rec_ok_def)
  then show ?thesis using ok by (auto simp: rd_rec_def Let_def split: option.split)
qed (use ok in \<open>auto simp: rd_rec_def split: option.split\<close>)

text \<open>The case in which bytes are written: where they go, and how many.\<close>

lemma wr_rec_cases:
  assumes ok: "fs_ok s" and b: "\<not> bad_rec r" "o_open (orec r s)" "0 \<le> sz"
  defines "c \<equiv> orec r s"
  defines "n \<equiv> min sz (int MAX_RECORD_SIZE - o_offset c)"
  shows "0 \<le> n" "nat (o_offset c) + nat n \<le> MAX_RECORD_SIZE"
    "wr_rec r (Some b) sz s = (ER_OK, Some n,
       if n > 0 then upd_orec (nat (r - 1)) (\<lambda>c. c\<lparr>o_offset := o_offset (orec r s) + n\<rparr>)
         (upd_rec (nat (o_fd c - 1)) (nat (o_rec_idx c))
           (\<lambda>x. x\<lparr>r_data := write_at (nat (o_offset c)) (take (nat n) b) (r_data x), r_size := max (r_size x) (o_offset c + n)\<rparr>) s)
       else s)"
proof -
  note o = orec_open [OF ok b(1,2)]
  have "n \<le> int MAX_RECORD_SIZE - o_offset c" by (simp add: n_def)
  then show "nat (o_offset c) + nat n \<le> MAX_RECORD_SIZE" using o(4,5) by (simp add: c_def)
  show "0 \<le> n" using o(5) b(3) by (simp add: n_def c_def)
  have m: "(if sz < int MAX_RECORD_SIZE - o_offset c then sz else int MAX_RECORD_SIZE - o_offset c) = n"
    by (auto simp: n_def)
  have x: "(if a > r_size x then a else r_size x) = max (r_size x) a" for a x by (simp add: max_def)
  show "wr_rec r (Some b) sz s = (ER_OK, Some n,
       if n > 0 then upd_orec (nat (r - 1)) (\<lambda>c. c\<lparr>o_offset := o_offset (orec r s) + n\<rparr>)
         (upd_rec (nat (o_fd c - 1)) (nat (o_rec_idx c))
           (\<lambda>x. x\<lparr>r_data := write_at (nat (o_offset c)) (take (nat n) b) (r_data x), r_size := max (r_size x) (o_offset c + n)\<rparr>) s)
       else s)"
    unfolding wr_rec_def option.case Let_def c_def [symmetric] m x using b by (simp add: c_def)
qed

lemma wr_rec_ok:
  assumes ok: "fs_ok s" and buf: "\<And>b. buf = Some b \<Longrightarrow> sz \<le> int (length b)"
  shows "fs_ok (snd (snd (wr_rec r buf sz s)))"
proof (cases "bad_rec r \<or> \<not> o_open (orec r s) \<or> sz < 0 \<or> buf = None")
  case False
  then obtain b where b: "\<not> bad_rec r" "o_open (orec r s)" "0 \<le> sz" "buf = Some b" by auto
  note o = orec_open [OF ok b(1,2)]
  define n where "n = min sz (int MAX_RECORD_SIZE - o_offset (orec r s))"
  note w = wr_rec_cases [OF ok b(1-3), folded n_def]
  have l: "length (take (nat n) b) = nat n" using buf [OF b(4)] by (auto simp: n_def)
  have n: "o_offset (orec r s) + n \<le> int MAX_RECORD_SIZE" by (simp add: n_def)
  have "fs_ok (upd_rec (nat (o_fd (orec r s) - 1)) (nat (o_rec_idx (orec r s)))
     (\<lambda>x. x\<lparr>r_data := write_at (nat (o_offset (orec r s))) (take (nat n) b) (r_data x),
            r_size := max (r_size x) (o_offset (orec r s) + n)\<rparr>) s)" (is "fs_ok ?s1")
    using w(1,2) o l n by (intro upd_rec_ok [OF ok]) (auto simp: rec_ok_def max_def)
  then have "fs_ok (upd_orec (nat (r - 1)) (\<lambda>c. c\<lparr>o_offset := o_offset (orec r s) + n\<rparr>) ?s1)"
    using w(1,2) o b n by (intro upd_orec_ok) (auto simp: orec_ok_def)
  then show ?thesis using ok by (simp add: b(4) w(3))
qed (use ok in \<open>auto simp: wr_rec_def split: option.split\<close>)

lemma ins_rec_ok:
  assumes ok: "fs_ok s" and buf: "\<And>b. buf = Some b \<Longrightarrow> sz \<le> int (length b)"
  shows "fs_ok (snd (ins_rec fd k buf sz s))"
  using cls_rec_ok [OF wr_rec_ok [OF opn_rec_ok [OF ok] buf]] opn_rec_ok [OF ok]
  by (auto simp: ins_rec_def Let_def case_prod_beta)

lemma pos_rec_ok:
  assumes ok: "fs_ok s"
  shows "fs_ok (snd (pos_rec r off origin s))"
proof (cases "bad_rec r \<or> \<not> o_open (orec r s)")
  case False
  then have b: "\<not> bad_rec r" "o_open (orec r s)" by auto
  note o = orec_open [OF ok b]
  have "fs_ok (upd_orec (nat (r - 1)) (\<lambda>c. c\<lparr>o_offset := n\<rparr>) s)" if "0 \<le> n" "n \<le> r_size (orec_rec (orec r s) s)" for n
    using o that b by (intro upd_orec_ok [OF ok]) (auto simp: orec_ok_def rec_ok_def)
  then show ?thesis using o(6) b by (simp add: pos_rec_def Let_def rec_ok_def)
qed (use ok in \<open>auto simp: pos_rec_def\<close>)

lemma trn_rec_ok: "fs_ok s \<Longrightarrow> fs_ok (snd (trn_rec r sz s))"
  by (auto simp: trn_rec_def rec_ok_def intro!: upd_rec_ok)

inductive fs_step :: "fs_st \<Rightarrow> fs_st \<Rightarrow> bool" where
  opn_fil: "fs_step s (snd (opn_fil p m s))"
| cls_fil: "fs_step s (snd (cls_fil fd s))"
| cre_fil: "fs_step s (snd (cre_fil p m s))"
| del_fil: "fs_step s (snd (del_fil p s))"
| chg_fil: "fs_step s (snd (chg_fil fd m s))"
| mov_fil: "fs_step s (snd (mov_fil p q s))"
| opn_rec: "fs_step s (snd (opn_rec fd k m s))"
| cls_rec: "fs_step s (snd (cls_rec r s))"
| rd_rec: "fs_step s (snd (snd (snd (rd_rec r buf sz s))))"
| wr_rec: "sz \<le> int (length b) \<Longrightarrow> fs_step s (snd (snd (wr_rec r (Some b) sz s)))"
| ins_rec: "sz \<le> int (length b) \<Longrightarrow> fs_step s (snd (ins_rec fd k (Some b) sz s))"
| del_rec: "fs_step s (snd (del_rec fd k s))"
| pos_rec: "fs_step s (snd (pos_rec r off origin s))"
| trn_rec: "fs_step s (snd (trn_rec r sz s))"

lemma fs_step_ok: "fs_step s s' \<Longrightarrow> fs_ok s \<Longrightarrow> fs_ok s'"
  by (induction rule: fs_step.induct)
    (auto intro!: wr_rec_ok ins_rec_ok simp: opn_fil_ok cls_fil_ok cre_fil_def del_fil_ok chg_fil_ok mov_fil_ok opn_rec_ok cls_rec_ok
      rd_rec_ok del_rec_ok pos_rec_ok trn_rec_ok)

lemma fs_steps_ok: "fs_step\<^sup>*\<^sup>* s s' \<Longrightarrow> fs_ok s \<Longrightarrow> fs_ok s'"
  by (induction rule: rtranclp_induct) (auto intro: fs_step_ok)

section \<open>A record is a byte string\<close>

definition rec_bytes :: "btron_rec \<Rightarrow> UB list" where
  "rec_bytes r = take (nat (r_size r)) (r_data r)"

definition the_rec :: "nat \<Rightarrow> nat \<Rightarrow> fs_st \<Rightarrow> btron_rec" where
  "the_rec i j s = f_records (g_files s ! i) ! j"

lemma orec_rec_the: "orec_rec c s = the_rec (nat (o_fd c - 1)) (nat (o_rec_idx c)) s"
  by (simp add: orec_rec_def the_rec_def)

lemma the_rec_upd:
  assumes "fs_ok s" "i < MAX_FS_FILES" "j < MAX_RECS_PER_FILE"
  shows "the_rec i' j' (upd_rec i j f s) = (if i' = i \<and> j' = j then f (the_rec i j s) else the_rec i' j' s)"
  using fs_okD(1) [OF assms(1)] fs_okD(3) [OF assms(1,2)] assms(2,3)
  by (auto simp: the_rec_def upd_rec_def upd_file_def file_ok_def nth_list_update)

lemma the_rec_upd_orec [simp]: "the_rec i j (upd_orec k f s) = the_rec i j s"
  by (simp add: the_rec_def)

lemma orec_upd: "fs_ok s \<Longrightarrow> nat (r - 1) < MAX_OPEN_RECS \<Longrightarrow> orec r (upd_orec (nat (r - 1)) f s) = f (orec r s)"
  using fs_okD(2) by (simp add: upd_orec_def)

lemma write_at_take:
  assumes "p \<le> m" "m \<le> length d" "p + length bs \<le> length d"
  shows "take (max m (p + length bs)) (write_at p bs d) = write_at p bs (take m d)"
proof (cases "p + length bs \<le> m")
  case True
  have "take (p + length bs) (take m d) @ drop (p + length bs) (take m d) = take m d" by (rule append_take_drop_id)
  moreover have "max m (p + length bs) = m" "p \<le> m" "length bs \<le> m - p" using True assms by auto
  ultimately show ?thesis using assms by (simp add: write_at_def take_drop)
next
  case False
  then show ?thesis using assms by (simp add: write_at_def max_def min_def)
qed

lemma wr_rec_spec:
  assumes ok: "fs_ok s" and b: "\<not> bad_rec r" "o_open (orec r s)" "0 \<le> sz" "sz \<le> int (length b)"
    and within: "o_offset (orec r s) \<le> r_size (orec_rec (orec r s) s)"
  defines "c \<equiv> orec r s"
  defines "p \<equiv> nat (o_offset c)" and "n \<equiv> min (nat sz) (MAX_RECORD_SIZE - nat (o_offset c))"
    and "s' \<equiv> snd (snd (wr_rec r (Some b) sz s))"
  shows "fst (wr_rec r (Some b) sz s) = ER_OK" "fst (snd (wr_rec r (Some b) sz s)) = Some (int n)"
    "rec_bytes (orec_rec c s') = write_at p (take n b) (rec_bytes (orec_rec c s))"
    "orec r s' = c\<lparr>o_offset := o_offset c + int n\<rparr>"
    "(i, j) \<noteq> (nat (o_fd c - 1), nat (o_rec_idx c)) \<Longrightarrow> the_rec i j s' = the_rec i j s"
    "r_size (orec_rec c s') = max (r_size (orec_rec c s)) (o_offset c + int n)"
proof -
  note o = orec_open [OF ok b(1,2), folded c_def]
  have n: "min sz (int MAX_RECORD_SIZE - o_offset c) = int n"
    using o(4,5) b(3) by (simp add: n_def min_def) linarith
  note w = wr_rec_cases [OF ok b(1-3), folded c_def, unfolded n]
  show "fst (wr_rec r (Some b) sz s) = ER_OK" "fst (snd (wr_rec r (Some b) sz s)) = Some (int n)"
    using w(3) by simp_all
  let ?i = "nat (o_fd c - 1)" and ?j = "nat (o_rec_idx c)"
  let ?f = "\<lambda>x. x\<lparr>r_data := write_at p (take n b) (r_data x), r_size := max (r_size x) (o_offset c + int n)\<rparr>"
  have l: "length (take n b) = n" using b(4) by (simp add: n_def)
  have d: "length (r_data (orec_rec c s)) = MAX_RECORD_SIZE" "0 \<le> r_size (orec_rec c s)"
    "nat (r_size (orec_rec c s)) \<le> MAX_RECORD_SIZE" using o(6) by (auto simp: rec_ok_def)
  have nn: "o_offset c + int n \<le> int MAX_RECORD_SIZE" using w(2) o(4) by simp
  have u: "fs_ok (upd_rec ?i ?j ?f s)" using o w(2) l nn
    by (intro upd_rec_ok [OF ok]) (auto simp: rec_ok_def max_def p_def)
  show "the_rec i j s' = the_rec i j s" if "(i, j) \<noteq> (?i, ?j)"
    using that w(3) the_rec_upd [OF ok o(2,3)] by (auto simp: s'_def p_def)
  have s': "orec_rec c s' = ?f (orec_rec c s) \<and> orec r s' = c\<lparr>o_offset := o_offset c + int n\<rparr>"
  proof (cases "n = 0")
    case True
    have "write_at p [] d = d" for d :: "UB list" by (simp add: write_at_def)
    then have "?f (orec_rec c s) = orec_rec c s" using True within by (simp add: c_def max_def)
    then show ?thesis using w(3) True by (simp add: s'_def c_def)
  next
    case False
    then have e: "s' = upd_orec (nat (r - 1)) (\<lambda>x. x\<lparr>o_offset := o_offset c + int n\<rparr>) (upd_rec ?i ?j ?f s)"
      using w(3) by (simp add: s'_def p_def c_def)
    have "orec r s' = c\<lparr>o_offset := o_offset c + int n\<rparr>"
      unfolding e using orec_upd [OF u o(1)] by (simp add: c_def)
    then show ?thesis using the_rec_upd [OF ok o(2,3)] by (simp add: orec_rec_the e)
  qed
  then show "orec r s' = c\<lparr>o_offset := o_offset c + int n\<rparr>"
    "r_size (orec_rec c s') = max (r_size (orec_rec c s)) (o_offset c + int n)" by simp_all
  have m: "nat (max (r_size (orec_rec c s)) (o_offset c + int n)) = max (nat (r_size (orec_rec c s))) (p + length (take n b))"
    using d(2) o(4) l by (simp add: p_def max_def nat_add_distrib) linarith
  have "take (max (nat (r_size (orec_rec c s))) (p + length (take n b))) (write_at p (take n b) (r_data (orec_rec c s))) =
      write_at p (take n b) (take (nat (r_size (orec_rec c s))) (r_data (orec_rec c s)))"
    by (rule write_at_take) (use d(1,3) within w(2) l o(4) in \<open>simp_all add: p_def c_def nat_mono\<close>)
  then show "rec_bytes (orec_rec c s') = write_at p (take n b) (rec_bytes (orec_rec c s))"
    using s' m by (simp add: rec_bytes_def)
qed

lemma rd_rec_spec:
  assumes ok: "fs_ok s" and b: "\<not> bad_rec r" "o_open (orec r s)" "0 \<le> sz"
  defines "c \<equiv> orec r s"
  defines "p \<equiv> nat (o_offset c)"
  defines "n \<equiv> min (nat sz) (length (rec_bytes (orec_rec c s)) - p)"
  shows "fst (rd_rec r (Some buf) sz s) = ER_OK"
    "fst (snd (rd_rec r (Some buf) sz s)) = Some (write_at 0 (take n (drop p (rec_bytes (orec_rec c s)))) buf)"
    "fst (snd (snd (rd_rec r (Some buf) sz s))) = Some (int n)"
    "the_rec i j (snd (snd (snd (rd_rec r (Some buf) sz s)))) = the_rec i j s"
proof -
  note o = orec_open [OF ok b(1,2), folded c_def]
  define k where "k = (if sz < r_size (orec_rec c s) - o_offset c then sz else r_size (orec_rec c s) - o_offset c)"
  have d: "length (r_data (orec_rec c s)) = MAX_RECORD_SIZE" "0 \<le> r_size (orec_rec c s)"
    "nat (r_size (orec_rec c s)) \<le> MAX_RECORD_SIZE" using o(6) by (auto simp: rec_ok_def)
  have l: "length (rec_bytes (orec_rec c s)) = nat (r_size (orec_rec c s))" using d by (simp add: rec_bytes_def)
  have nk: "n = nat k" using l d o(4) b(3) by (auto simp: n_def k_def p_def)
  have e: "rd_rec r (Some buf) sz s =
     (if k > 0 then (ER_OK, Some (write_at 0 (take (nat k) (drop (nat (o_offset c)) (r_data (orec_rec c s)))) buf), Some k,
        upd_orec (nat (r - 1)) (\<lambda>c. c\<lparr>o_offset := o_offset c + k\<rparr>) s)
      else (ER_OK, Some buf, Some 0, s))"
    unfolding rd_rec_def option.case Let_def c_def [symmetric] k_def [symmetric] using b by (simp add: c_def)
  have t: "take (nat k) (drop p (rec_bytes (orec_rec c s))) = take (nat k) (drop p (r_data (orec_rec c s)))"
    using d o(4) by (simp add: rec_bytes_def drop_take min_def k_def p_def)
  show "fst (rd_rec r (Some buf) sz s) = ER_OK"
    "fst (snd (rd_rec r (Some buf) sz s)) = Some (write_at 0 (take n (drop p (rec_bytes (orec_rec c s)))) buf)"
    "fst (snd (snd (rd_rec r (Some buf) sz s))) = Some (int n)"
    "the_rec i j (snd (snd (snd (rd_rec r (Some buf) sz s)))) = the_rec i j s"
    using t by (auto simp: e nk p_def write_at_def)
qed

text \<open>What was written is read back after the offset is set to where it was.\<close>

lemma write_read:
  assumes ok: "fs_ok s" and b: "\<not> bad_rec r" "o_open (orec r s)" "0 \<le> sz" "sz \<le> int (length b)"
    and within: "o_offset (orec r s) \<le> r_size (orec_rec (orec r s) s)" and len: "length buf = length b"
    and w: "wr_rec r (Some b) sz s = (e1, Some n, s1)"
    and p: "pos_rec r (o_offset (orec r s)) REC_POS_SET s1 = (e2, s2)"
    and rd: "rd_rec r (Some buf) n s2 = (e3, Some got, Some m, s3)"
  shows "e1 = ER_OK \<and> e2 = ER_OK \<and> e3 = ER_OK \<and> m = n \<and> take (nat n) got = take (nat n) b"
proof -
  define c where "c = orec r s"
  define k where "k = min (nat sz) (MAX_RECORD_SIZE - nat (o_offset c))"
  note ws = wr_rec_spec [OF ok b within, folded c_def, folded k_def, unfolded w]
  note o = orec_open [OF ok b(1,2), folded c_def]
  have n: "n = int k" "e1 = ER_OK" using ws(1,2) by simp_all
  have ok1: "fs_ok s1" using wr_rec_ok [OF ok, of "Some b" sz r] b w by simp
  have o1: "orec r s1 = c\<lparr>o_offset := o_offset c + int k\<rparr>" using ws(4) by simp
  have sz1: "o_offset c \<le> r_size (orec_rec c s1)" using ws(6) within by (simp add: c_def max_def)
  have cr: "orec_rec (c\<lparr>o_offset := x\<rparr>) t = orec_rec c t" for x t by (simp add: orec_rec_def)
  have e2: "e2 = ER_OK" and s2: "s2 = upd_orec (nat (r - 1)) (\<lambda>x. x\<lparr>o_offset := o_offset c\<rparr>) s1"
    using p o1 b(1,2) sz1 o(4) by (auto simp: pos_rec_def Let_def c_def [symmetric] REC_POS_SET_def cr split: if_splits)
  have ok2: "fs_ok s2" using pos_rec_ok [OF ok1, of r "o_offset (orec r s)" REC_POS_SET] p by simp
  have c2: "orec r s2 = c" using orec_upd [OF ok1 o(1)] o1 by (simp add: s2)
  have op2: "o_open (orec r s2)" using b(2) c2 by (simp add: c_def)
  have bytes: "rec_bytes (orec_rec c s2) = write_at (nat (o_offset c)) (take k b) (rec_bytes (orec_rec c s))"
    using ws(3) by (simp add: s2 orec_rec_the)
  have lk: "length (take k b) = k" using b(4) by (simp add: k_def)
  have lb: "nat (o_offset c) \<le> length (rec_bytes (orec_rec c s))"
    using within o(6) by (auto simp: rec_bytes_def rec_ok_def c_def)
  have d: "take k (drop (nat (o_offset c)) (write_at (nat (o_offset c)) (take k b) bs)) = take k b"
    "k \<le> length (write_at (nat (o_offset c)) (take k b) bs) - nat (o_offset c)" if "nat (o_offset c) \<le> length bs" for bs
    using that lk by (simp_all add: write_at_def)
  have n0: "0 \<le> n" by (simp add: n)
  note rs = rd_rec_spec [OF ok2 b(1) op2 n0, where buf = buf, unfolded c2 rd]
  have m: "min (nat n) (length (rec_bytes (orec_rec c s2)) - nat (o_offset c)) = k"
    using d(2) [OF lb] by (simp add: bytes n)
  have "e3 = ER_OK" "got = write_at 0 (take k (drop (nat (o_offset c)) (rec_bytes (orec_rec c s2)))) buf" "m = n"
    using rs(1-3) n m by simp_all
  then have "e3 = ER_OK" "got = write_at 0 (take k b) buf" "m = n" using d(1) [OF lb] by (simp_all only: bytes)
  then show ?thesis using e2 n lk by (simp add: write_at_def)
qed

section \<open>Records outlive their file\<close>

text \<open>A deleted file leaves its records, with their sizes and marked as used, in the slot; the next
  file that is created in it has them.\<close>

lemma new_file_old_records:
  assumes ok: "fs_ok s" "g_fs_init s" and f: "find_file p s = Some i" "\<And>j. j < i \<Longrightarrow> f_exists (g_files s ! j)"
    and q: "find_file q (snd (del_fil (Some p) s)) = None"
  shows "fst (cre_fil (Some q) md (snd (del_fil (Some p) s))) = int i + 1 \<and>
    f_records (g_files (snd (cre_fil (Some q) md (snd (del_fil (Some p) s)))) ! i) = f_records (g_files s ! i)"
proof -
  define s1 where "s1 = snd (del_fil (Some p) s)"
  have i: "i < MAX_FS_FILES" using find_slot_SomeD(1) [OF f(1) [unfolded find_file_def]] fs_okD(1) [OF ok(1)] by simp
  have s1: "s1 = upd_file i (\<lambda>f. f\<lparr>f_exists := False, f_open := False\<rparr>) s"
    using ok(2) f(1) by (simp add: s1_def del_fil_def fs_init_once_def Let_def)
  have init: "fs_init_once s1 = s1" using ok(2) by (simp add: s1 fs_init_once_def)
  have g: "g_files s1 ! j = (if j = i then (g_files s ! i)\<lparr>f_exists := False, f_open := False\<rparr> else g_files s ! j)" for j
    using i fs_okD(1) [OF ok(1)] by (simp add: s1 upd_file_def nth_list_update)
  have l: "length (g_files s1) = MAX_FS_FILES" using fs_okD(1) [OF ok(1)] by (simp add: s1 upd_file_def)
  have "find_slot (\<lambda>f. \<not> f_exists f) (g_files s1) = Some i"
  proof (cases "find_slot (\<lambda>f. \<not> f_exists f) (g_files s1)")
    case None
    then have "f_exists (g_files s1 ! i)" using i l by (auto simp: find_slot_None)
    then show ?thesis using g by simp
  next
    case (Some k)
    note k = find_slot_SomeD [OF Some]
    have "k = i" using k(2) k(3) [of i] f(2) [of k] g [of k] g [of i] by (cases k i rule: linorder_cases) auto
    then show ?thesis using Some by simp
  qed
  moreover have "has (md OR F_CREATE) F_CREATE"
  proof -
    have "(md OR F_CREATE) AND F_CREATE = F_CREATE" by (simp add: bit_word_eqI bit_simps)
    then show ?thesis by (simp add: has_def F_CREATE_def)
  qed
  ultimately show ?thesis
    using q init l i g unfolding s1_def [symmetric]
    by (simp add: cre_fil_def opn_fil_def Let_def upd_file_def)
qed

end
