(* ===== verification/Managers.thy ===== *)
theory Managers
  imports Ipc_Msg
begin

text \<open>
  The managers of memory blocks (\<open>mem_mgr.c\<close>), processes (\<open>proc_mgr.c\<close>), devices (\<open>dev_mgr.c\<close>), the
  clock (\<open>clk_mgr.c\<close>) and the system configuration (\<open>sys_mgmt.c\<close>). Each has a table of fixed size
  that is searched from its start. Each call runs under the mutex of its manager and is one step.
  The memory manager asks the C library for memory: the answer of \<open>malloc\<close> is an argument.
\<close>

section \<open>Memory blocks\<close>

record mem_track =
  base_ptr :: addr
  mk_nblk :: int
  mk_atr :: UINT
  mk_in_use :: bool

record mem_mgr =
  g_mem_table :: "mem_track list"
  g_mem_init :: bool

record m_state =
  ms_blksz :: int
  ms_total :: int
  ms_free :: int

definition BTRON_BLOCK_SIZE :: int where "BTRON_BLOCK_SIZE = 4096"
definition MAX_MEM_ALLOCS :: nat where "MAX_MEM_ALLOCS = 128"

definition mem_track0 :: mem_track where
  "mem_track0 = \<lparr>base_ptr = NULL, mk_nblk = 0, mk_atr = 0, mk_in_use = False\<rparr>"

definition mem_init_once :: "mem_mgr \<Rightarrow> mem_mgr" where
  "mem_init_once s =
     (if \<not> g_mem_init s then s\<lparr>g_mem_table := replicate MAX_MEM_ALLOCS mem_track0, g_mem_init := True\<rparr> else s)"

text \<open>\<open>malloc n\<close> is what \<open>malloc\<close> answers to a request of \<open>n\<close> bytes. The result names the block; its
  \<open>nblk * 4096\<close> bytes are set to 0.\<close>

definition get_mbk :: "(int \<Rightarrow> addr) \<Rightarrow> bool \<Rightarrow> int \<Rightarrow> UINT \<Rightarrow> mem_mgr \<Rightarrow> (ER \<times> addr option) \<times> mem_mgr" where
  "get_mbk malloc adr_ok nblk atr s =
     (if \<not> adr_ok then ((ER_ADR, None), s)
      else if nblk \<le> 0 then ((ER_PAR, None), s)
      else
        (let s1 = mem_init_once s
         in case find_slot (\<lambda>e. \<not> mk_in_use e) (g_mem_table s1) of
              None \<Rightarrow> ((ER_NOSPC, None), s1)
            | Some i \<Rightarrow>
                (let ptr = malloc (nblk * BTRON_BLOCK_SIZE)
                 in if ptr = NULL then ((ER_NOSPC, None), s1)
                    else ((ER_OK, Some ptr),
                          s1\<lparr>g_mem_table := (g_mem_table s1)[i := \<lparr>base_ptr = ptr, mk_nblk = nblk, mk_atr = atr,
                                mk_in_use = True\<rparr>]\<rparr>))))"

definition find_mbk :: "addr \<Rightarrow> mem_mgr \<Rightarrow> nat option" where
  "find_mbk adr s = find_slot (\<lambda>e. mk_in_use e \<and> base_ptr e = adr) (g_mem_table s)"

text \<open>The result says what is given to \<open>free\<close>.\<close>

definition rel_mbk :: "addr \<Rightarrow> mem_mgr \<Rightarrow> (ER \<times> addr option) \<times> mem_mgr" where
  "rel_mbk adr s =
     (if adr = NULL then ((ER_ADR, None), s)
      else
        (let s1 = mem_init_once s
         in case find_mbk adr s1 of
              None \<Rightarrow> ((ER_PAR, None), s1)
            | Some i \<Rightarrow> ((ER_OK, Some adr),
                s1\<lparr>g_mem_table := (g_mem_table s1)[i := (g_mem_table s1 ! i)\<lparr>base_ptr := NULL, mk_in_use := False\<rparr>]\<rparr>)))"

definition chg_mbk :: "addr \<Rightarrow> int \<Rightarrow> mem_mgr \<Rightarrow> ER \<times> mem_mgr" where
  "chg_mbk adr nblk s =
     (if adr = NULL then (ER_ADR, s)
      else if nblk \<le> 0 then (ER_PAR, s)
      else
        (let s1 = mem_init_once s
         in case find_mbk adr s1 of
              None \<Rightarrow> (ER_PAR, s1)
            | Some i \<Rightarrow> (ER_OK, s1\<lparr>g_mem_table := (g_mem_table s1)[i := (g_mem_table s1 ! i)\<lparr>mk_nblk := nblk\<rparr>]\<rparr>)))"

text \<open>The packet is filled in also when the block is not found.\<close>

definition ref_mbk :: "addr \<Rightarrow> bool \<Rightarrow> mem_mgr \<Rightarrow> (ER \<times> m_state option) \<times> mem_mgr" where
  "ref_mbk adr pk_ok s =
     (if \<not> pk_ok then ((ER_PAR, None), s)
      else
        (let pk = \<lparr>ms_blksz = BTRON_BLOCK_SIZE, ms_total = 65536, ms_free = 65000\<rparr>
         in if adr = NULL then ((ER_OK, Some pk), s)
            else
              (let s1 = mem_init_once s
               in case find_mbk adr s1 of
                    None \<Rightarrow> ((ER_PAR, Some pk), s1)
                  | Some i \<Rightarrow> ((ER_OK, Some (pk\<lparr>ms_total := mk_nblk (g_mem_table s1 ! i), ms_free := 0\<rparr>)), s1))))"

section \<open>Processes\<close>

type_synonym LINK = "UB list"

record btron_proc =
  pr_pid :: ID
  pr_priority :: int
  pr_link :: LINK
  pr_active :: bool
  pr_exit_code :: int

text \<open>The process manager sends messages, so its state extends that of \<open>ipc_msg.c\<close>. The user information
  of an entry is never written.\<close>

record proc_mgr = ipc_st +
  g_procs :: "btron_proc list"
  g_next_pid :: ID
  g_proc_init :: bool

definition MAX_PROCESSES :: nat where "MAX_PROCESSES = 32"

definition proc0 :: btron_proc where
  "proc0 = \<lparr>pr_pid = 0, pr_priority = 0, pr_link = [], pr_active = False, pr_exit_code = 0\<rparr>"

definition proc_init_once :: "proc_mgr \<Rightarrow> proc_mgr" where
  "proc_init_once s =
     (if \<not> g_proc_init s
      then s\<lparr>g_procs := (replicate MAX_PROCESSES proc0)[0 := proc0\<lparr>pr_active := True\<rparr>], g_proc_init := True\<rparr> else s)"

text \<open>The searches for processes start at entry 1, behind the system process.\<close>

definition find_proc :: "(btron_proc \<Rightarrow> bool) \<Rightarrow> proc_mgr \<Rightarrow> nat option" where
  "find_proc P s = find_from 1 P (drop 1 (g_procs s))"

definition snd_msg_p :: "int \<Rightarrow> MESSAGE \<Rightarrow> proc_mgr \<Rightarrow> proc_mgr" where
  "snd_msg_p pid m s =
     (let i = snd (snd_msg pid (Some m) (ipc_st.truncate s))
      in s\<lparr>g_mailboxes := g_mailboxes i, g_ipc_initialized := g_ipc_initialized i\<rparr>)"

definition cre_prc :: "LINK option \<Rightarrow> int \<Rightarrow> MESSAGE option \<Rightarrow> proc_mgr \<Rightarrow> ID \<times> proc_mgr" where
  "cre_prc lnk pri msg s =
     (if pri < 0 \<or> pri > 255 then (ER_PAR, s)
      else
        (let s1 = proc_init_once s
         in case find_proc (\<lambda>p. \<not> pr_active p) s1 of
              None \<Rightarrow> (ER_NOSPC, s1)
            | Some i \<Rightarrow>
                (let pid = g_next_pid s1; p = g_procs s1 ! i;
                     s2 = s1\<lparr>g_next_pid := pid + 1,
                       g_procs := (g_procs s1)[i := \<lparr>pr_pid = pid, pr_priority = pri,
                         pr_link = (case lnk of Some l \<Rightarrow> l | None \<Rightarrow> pr_link p), pr_active = True, pr_exit_code = 0\<rparr>]\<rparr>
                 in (pid, case msg of Some m \<Rightarrow> if pid < 32 then snd_msg_p pid m s2 else s2 | None \<Rightarrow> s2))))"

definition ter_prc :: "int \<Rightarrow> int \<Rightarrow> proc_mgr \<Rightarrow> ER \<times> proc_mgr" where
  "ter_prc pid code s =
     (if pid \<le> 0 \<or> pid \<ge> int MAX_PROCESSES then (ER_ID, s)
      else
        (let s1 = proc_init_once s
         in case find_proc (\<lambda>p. pr_active p \<and> pr_pid p = pid) s1 of
              None \<Rightarrow> (ER_NOEXS, s1)
            | Some i \<Rightarrow> (ER_OK, s1\<lparr>g_procs := (g_procs s1)[i := (g_procs s1 ! i)\<lparr>pr_active := False, pr_exit_code := code\<rparr>]\<rparr>)))"

definition chg_pri :: "int \<Rightarrow> int \<Rightarrow> proc_mgr \<Rightarrow> ER \<times> proc_mgr" where
  "chg_pri i pri s =
     (if pri < 0 \<or> pri > 255 then (ER_PAR, s)
      else if i < 0 \<or> i \<ge> int MAX_PROCESSES then (ER_ID, s)
      else
        (let s1 = proc_init_once s
         in case find_slot (\<lambda>p. pr_active p \<and> pr_pid p = i) (g_procs s1) of
              None \<Rightarrow> (ER_NOEXS, s1)
            | Some k \<Rightarrow> (ER_OK, s1\<lparr>g_procs := (g_procs s1)[k := (g_procs s1 ! k)\<lparr>pr_priority := pri\<rparr>]\<rparr>)))"

definition get_tid :: int where "get_tid = 1"
definition get_pid :: int where "get_pid = 0"

section \<open>Devices\<close>

record btron_dev =
  dev_id :: ID
  dev_name :: "UB list"
  dev_mode :: UINT
  dev_open :: bool
  dev_buffer :: "UB list"
  dev_buf_len :: nat

record dev_mgr =
  g_devs :: "btron_dev list"
  g_next_dev_id :: ID
  g_dev_init :: bool

record dev_stat =
  st_dev_type :: UINT
  st_mode :: UINT
  st_buf_size :: UINT
  st_status :: UINT

definition MAX_DEVICES :: nat where "MAX_DEVICES = 16"
definition DEV_BUFSZ :: nat where "DEV_BUFSZ = 1024"
definition DEV_CMD_RESET :: int where "DEV_CMD_RESET = 1"
definition DEV_CMD_FLUSH :: int where "DEV_CMD_FLUSH = 2"

definition dev0 :: btron_dev where
  "dev0 = \<lparr>dev_id = 0, dev_name = replicate 32 0, dev_mode = 0, dev_open = False, dev_buffer = replicate DEV_BUFSZ 0,
     dev_buf_len = 0\<rparr>"

definition dev_init_once :: "dev_mgr \<Rightarrow> dev_mgr" where
  "dev_init_once s =
     (if \<not> g_dev_init s then s\<lparr>g_devs := replicate MAX_DEVICES dev0, g_dev_init := True\<rparr> else s)"

definition opn_dev_mgr :: "UB list option \<Rightarrow> UINT \<Rightarrow> dev_mgr \<Rightarrow> ID \<times> dev_mgr" where
  "opn_dev_mgr nm md s =
     (case nm of None \<Rightarrow> (ER_PAR, s)
      | Some n \<Rightarrow>
          (let s1 = dev_init_once s
           in case find_slot (\<lambda>d. \<not> dev_open d) (g_devs s1) of
                None \<Rightarrow> (ER_NOSPC, s1)
              | Some i \<Rightarrow>
                  (let did = g_next_dev_id s1; d = g_devs s1 ! i
                   in (did, s1\<lparr>g_next_dev_id := did + 1,
                         g_devs := (g_devs s1)[i := d\<lparr>dev_id := did, dev_name := tkl_strncpy n 31 @ drop 31 (dev_name d),
                           dev_mode := md, dev_open := True, dev_buf_len := 0\<rparr>]\<rparr>))))"

definition find_dev :: "ID \<Rightarrow> dev_mgr \<Rightarrow> nat option" where
  "find_dev did s = find_slot (\<lambda>d. dev_open d \<and> dev_id d = did) (g_devs s)"

text \<open>What the calls on an open device share.\<close>

definition on_dev :: "ID \<Rightarrow> 'r \<Rightarrow> (btron_dev \<Rightarrow> 'r \<times> btron_dev) \<Rightarrow> dev_mgr \<Rightarrow> 'r \<times> dev_mgr" where
  "on_dev did err f s =
     (if did \<le> 0 then (err, s)
      else
        (let s1 = dev_init_once s
         in case find_dev did s1 of
              None \<Rightarrow> (err, s1)
            | Some i \<Rightarrow> (case f (g_devs s1 ! i) of (r, d) \<Rightarrow> (r, s1\<lparr>g_devs := (g_devs s1)[i := d]\<rparr>))))"

definition cls_dev_mgr :: "ID \<Rightarrow> dev_mgr \<Rightarrow> ER \<times> dev_mgr" where
  "cls_dev_mgr did s = on_dev did ER_DID (\<lambda>d. (ER_OK, d\<lparr>dev_open := False\<rparr>)) s"

text \<open>Reading: the bytes that are copied to the caller, whose number is stored in \<open>read_sz\<close>.\<close>

definition dev_take :: "int \<Rightarrow> btron_dev \<Rightarrow> UB list \<times> btron_dev" where
  "dev_take sz d =
     (let n = nat (if sz < int (dev_buf_len d) then sz else int (dev_buf_len d)); b = dev_buffer d
      in if n > 0 then
           (take n b, d\<lparr>dev_buffer := take (dev_buf_len d - n) (drop n b) @ drop (dev_buf_len d - n) b,
                        dev_buf_len := dev_buf_len d - n\<rparr>)
         else ([], d))"

definition rea_dev :: "ID \<Rightarrow> bool \<Rightarrow> int \<Rightarrow> dev_mgr \<Rightarrow> (ER \<times> UB list) \<times> dev_mgr" where
  "rea_dev did buf_ok sz s =
     (if \<not> buf_ok \<or> sz < 0 then ((ER_PAR, []), s)
      else on_dev did (ER_DID, []) (\<lambda>d. case dev_take sz d of (bs, d1) \<Rightarrow> ((ER_OK, bs), d1)) s)"

text \<open>Writing: the first \<open>to_write\<close> bytes go behind those in the buffer.\<close>

definition dev_put :: "UB list \<Rightarrow> int \<Rightarrow> btron_dev \<Rightarrow> int \<times> btron_dev" where
  "dev_put buf sz d =
     (let space = int DEV_BUFSZ - int (dev_buf_len d);
          n = (if sz < space then sz else space); b = dev_buffer d; k = nat n
      in if n > 0 then
           (n, d\<lparr>dev_buffer := take (dev_buf_len d) b @ take k buf @ drop (dev_buf_len d + k) b,
                 dev_buf_len := dev_buf_len d + k\<rparr>)
         else (n, d))"

definition wri_dev :: "ID \<Rightarrow> UB list option \<Rightarrow> int \<Rightarrow> dev_mgr \<Rightarrow> (ER \<times> int) \<times> dev_mgr" where
  "wri_dev did buf sz s =
     (case buf of None \<Rightarrow> ((ER_PAR, 0), s)
      | Some b \<Rightarrow>
          if sz < 0 then ((ER_PAR, 0), s)
          else on_dev did (ER_DID, 0) (\<lambda>d. case dev_put b sz d of (n, d1) \<Rightarrow> ((ER_OK, n), d1)) s)"

definition ctl_dev :: "ID \<Rightarrow> int \<Rightarrow> dev_mgr \<Rightarrow> ER \<times> dev_mgr" where
  "ctl_dev did cmd s =
     on_dev did ER_DID (\<lambda>d. (ER_OK, if cmd = DEV_CMD_FLUSH \<or> cmd = DEV_CMD_RESET then d\<lparr>dev_buf_len := 0\<rparr> else d)) s"

definition ref_dev :: "ID \<Rightarrow> bool \<Rightarrow> dev_mgr \<Rightarrow> (ER \<times> dev_stat option) \<times> dev_mgr" where
  "ref_dev did st_ok s =
     (if \<not> st_ok then ((ER_PAR, None), s)
      else on_dev did (ER_DID, None) (\<lambda>d. ((ER_OK, Some \<lparr>st_dev_type = 1, st_mode = dev_mode d,
             st_buf_size = of_nat DEV_BUFSZ, st_status = 0\<rparr>), d)) s)"

text \<open>The result word of the request is set to \<open>ER_OK\<close> whether the device is open or not.\<close>

definition wai_dev :: "ID \<Rightarrow> bool \<Rightarrow> ER \<times> ER option" where
  "wai_dev did req_ok =
     (if \<not> req_ok then (ER_PAR, None) else if did \<le> 0 then (ER_DID, None) else (ER_OK, Some ER_OK))"

section \<open>Clock\<close>

record TIMEZONE =
  off_min :: int
  dst_min :: int

record DATE_TIM =
  dt_year :: int
  dt_month :: int
  dt_day :: int
  dt_hour :: int
  dt_min :: int
  dt_sec :: int
  dt_msec :: int

text \<open>The members of \<open>struct tm\<close> that are used.\<close>

record tm_info =
  tm_year :: int
  tm_mon :: int
  tm_mday :: int
  tm_hour :: int
  tm_min :: int
  tm_sec :: int

definition TRON_EPOCH_OFFSET :: int where "TRON_EPOCH_OFFSET = 473385600"
definition system_tz0 :: TIMEZONE where "system_tz0 = \<lparr>off_min = 540, dst_min = 0\<rparr>"

text \<open>\<open>gmtime\<close> is \<open>gmtime_r\<close> of the C library; \<open>now\<close> is what \<open>gettimeofday\<close> answers, in seconds and
  microseconds. The state is the time zone.\<close>

definition get_tod :: "(int \<Rightarrow> tm_info) \<Rightarrow> int \<times> int \<Rightarrow> bool \<Rightarrow> TIMEZONE \<Rightarrow> ER \<times> (DATE_TIM \<times> TIMEZONE) option" where
  "get_tod gmtime now dt_ok tz =
     (if \<not> dt_ok then (ER_PAR, None)
      else
        (let tm = gmtime (fst now)
         in (ER_OK, Some (\<lparr>dt_year = to_H (tm_year tm + 1900), dt_month = to_H (tm_mon tm + 1), dt_day = to_H (tm_mday tm),
               dt_hour = to_H (tm_hour tm), dt_min = to_H (tm_min tm), dt_sec = to_H (tm_sec tm),
               dt_msec = to_H (snd now div 1000)\<rparr>, tz))))"

definition set_tod :: "DATE_TIM option \<Rightarrow> TIMEZONE option \<Rightarrow> TIMEZONE \<Rightarrow> ER \<times> TIMEZONE" where
  "set_tod dt tz g =
     (case dt of None \<Rightarrow> (ER_PAR, g)
      | Some d \<Rightarrow>
          if dt_year d < 1985 \<or> dt_month d < 1 \<or> dt_month d > 12 \<or> dt_day d < 1 \<or> dt_day d > 31 then (ER_PAR, g)
          else (ER_OK, case tz of Some z \<Rightarrow> z | None \<Rightarrow> g))"

definition get_tim_btron :: "int \<times> int \<Rightarrow> bool \<Rightarrow> ER \<times> int option" where
  "get_tim_btron now p_ok = (if \<not> p_ok then (ER_PAR, None) else (ER_OK, Some (fst now - TRON_EPOCH_OFFSET)))"

definition set_tim_btron :: "int \<Rightarrow> ER" where
  "set_tim_btron time = ER_OK"

section \<open>System configuration\<close>

record sys_cnf =
  g_exc_handlers :: "addr list"
  g_sys_name :: "UB list"
  g_max_procs :: int

definition CNF_SYS_NAME :: int where "CNF_SYS_NAME = 1"
definition CNF_MAX_PROCS :: int where "CNF_MAX_PROCS = 2"

datatype cnf_val = CNF_name "UB list" | CNF_int int

definition def_exc :: "int \<Rightarrow> addr \<Rightarrow> sys_cnf \<Rightarrow> ER \<times> sys_cnf" where
  "def_exc exc_code handler s =
     (if exc_code < 0 \<or> exc_code \<ge> 32 then (ER_PAR, s)
      else (ER_OK, s\<lparr>g_exc_handlers := (g_exc_handlers s)[nat exc_code := handler]\<rparr>))"

text \<open>The bytes up to and with the first NUL.\<close>

definition c_string :: "UB list \<Rightarrow> UB list" where
  "c_string b = takeWhile (\<lambda>c. c \<noteq> 0) b @ [0]"

text \<open>What is written to the buffer of the caller, and to \<open>sz\<close>.\<close>

definition get_cnf :: "int \<Rightarrow> bool \<Rightarrow> sys_cnf \<Rightarrow> ER \<times> (cnf_val \<times> int) option" where
  "get_cnf key val_ok s =
     (if \<not> val_ok then (ER_PAR, None)
      else if key = CNF_SYS_NAME then (ER_OK, Some (CNF_name (c_string (g_sys_name s)), int (length (c_string (g_sys_name s)))))
      else if key = CNF_MAX_PROCS then (ER_OK, Some (CNF_int (g_max_procs s), 4))
      else (ER_PAR, None))"

text \<open>\<open>name\<close> and \<open>num\<close> are what is at the address of the caller, read as a string or as a number.\<close>

definition set_cnf :: "int \<Rightarrow> (UB list \<times> int) option \<Rightarrow> sys_cnf \<Rightarrow> ER \<times> sys_cnf" where
  "set_cnf key val s =
     (case val of None \<Rightarrow> (ER_PAR, s)
      | Some (name, num) \<Rightarrow>
          if key = CNF_SYS_NAME then (ER_OK, s\<lparr>g_sys_name := tkl_strncpy name 63 @ drop 63 (g_sys_name s)\<rparr>)
          else if key = CNF_MAX_PROCS then (ER_OK, s\<lparr>g_max_procs := num\<rparr>)
          else (ER_PAR, s))"

end
