(* ===== verification/Managers_Laws.thy ===== *)
theory Managers_Laws
  imports Managers
begin

text \<open>
  What the device manager promises. A device buffer is a bounded stream of bytes: what is read, followed
  by what is still there, is what was accepted, in order, and the devices do not disturb each other.
\<close>

section \<open>Devices\<close>

definition dev_content :: "btron_dev \<Rightarrow> UB list" where
  "dev_content d = take (dev_buf_len d) (dev_buffer d)"

definition dev_wf :: "btron_dev \<Rightarrow> bool" where
  "dev_wf d \<longleftrightarrow> length (dev_buffer d) = DEV_BUFSZ \<and> dev_buf_len d \<le> DEV_BUFSZ"

lemma dev_take_spec:
  assumes "dev_wf d" "0 \<le> sz"
  shows "fst (dev_take sz d) = take (nat sz) (dev_content d)"
    "dev_content (snd (dev_take sz d)) = drop (nat sz) (dev_content d)" "dev_wf (snd (dev_take sz d))"
    "dev_id (snd (dev_take sz d)) = dev_id d" "dev_open (snd (dev_take sz d)) = dev_open d"
proof -
  define n where "n = nat (if sz < int (dev_buf_len d) then sz else int (dev_buf_len d))"
  have n: "n = min (nat sz) (dev_buf_len d)" using assms(2) unfolding n_def min_def by (cases "sz < int (dev_buf_len d)") auto
  let ?b = "dev_buffer d" and ?l = "dev_buf_len d"
  have len: "length ?b = DEV_BUFSZ" "?l \<le> DEV_BUFSZ" using assms(1) by (auto simp: dev_wf_def)
  have e: "dev_take sz d = (if n > 0 then (take n ?b, d\<lparr>dev_buffer := take (?l - n) (drop n ?b) @ drop (?l - n) ?b,
      dev_buf_len := ?l - n\<rparr>) else ([], d))"
    by (simp add: dev_take_def Let_def n_def)
  have t: "take n ?b = take (nat sz) (dev_content d)" using n len by (simp add: dev_content_def min.commute)
  have dr: "take (?l - n) (drop n ?b) = drop (nat sz) (dev_content d)"
    using n len by (simp add: dev_content_def drop_take min_def)
  have ll: "length (take (?l - n) (drop n ?b)) = ?l - n" using len n by simp
  show "fst (dev_take sz d) = take (nat sz) (dev_content d)" using e t by (cases "n > 0") auto
  show "dev_content (snd (dev_take sz d)) = drop (nat sz) (dev_content d)"
  proof (cases "n > 0")
    case True
    then have "dev_content (snd (dev_take sz d)) = take (?l - n) (drop n ?b)" using e ll by (simp add: dev_content_def)
    then show ?thesis using dr by simp
  next
    case False
    then show ?thesis using e dr by (simp add: dev_content_def)
  qed
  show "dev_wf (snd (dev_take sz d))" using e ll len n assms(1) by (auto simp: dev_wf_def)
  show "dev_id (snd (dev_take sz d)) = dev_id d" "dev_open (snd (dev_take sz d)) = dev_open d" using e by auto
qed

lemma dev_put_spec:
  assumes "dev_wf d" "0 \<le> sz" "int (length buf) \<ge> sz"
  defines "n \<equiv> min (nat sz) (DEV_BUFSZ - dev_buf_len d)"
  shows "fst (dev_put buf sz d) = int n" "dev_content (snd (dev_put buf sz d)) = dev_content d @ take n buf"
    "dev_wf (snd (dev_put buf sz d))" "dev_id (snd (dev_put buf sz d)) = dev_id d"
    "dev_open (snd (dev_put buf sz d)) = dev_open d"
proof -
  let ?b = "dev_buffer d" and ?l = "dev_buf_len d"
  have len: "length ?b = DEV_BUFSZ" "?l \<le> DEV_BUFSZ" using assms(1) by (auto simp: dev_wf_def)
  have nn: "(if sz < int DEV_BUFSZ - int ?l then sz else int DEV_BUFSZ - int ?l) = int n"
    using assms(2) len by (auto simp: n_def min_def)
  have e: "dev_put buf sz d = (if n > 0 then (int n, d\<lparr>dev_buffer := take ?l ?b @ take n buf @ drop (?l + n) ?b,
      dev_buf_len := ?l + n\<rparr>) else (int n, d))"
    by (simp add: dev_put_def Let_def nn)
  have nl: "n \<le> length buf" "?l + n \<le> DEV_BUFSZ" using assms(3) len by (auto simp: n_def)
  show "fst (dev_put buf sz d) = int n" using e by auto
  show "dev_content (snd (dev_put buf sz d)) = dev_content d @ take n buf"
    using e nl len by (cases "n > 0") (auto simp: dev_content_def)
  show "dev_wf (snd (dev_put buf sz d))" using e nl len by (auto simp: dev_wf_def)
  show "dev_id (snd (dev_put buf sz d)) = dev_id d" "dev_open (snd (dev_put buf sz d)) = dev_open d" using e by auto
qed

text \<open>The table of devices.\<close>

definition devs_ok :: "dev_mgr \<Rightarrow> bool" where
  "devs_ok s \<longleftrightarrow> g_dev_init s \<and> length (g_devs s) = MAX_DEVICES \<and> 1 \<le> g_next_dev_id s \<and>
     (\<forall>d \<in> set (g_devs s). dev_wf d \<and> (dev_open d \<longrightarrow> 1 \<le> dev_id d \<and> dev_id d < g_next_dev_id s)) \<and>
     (\<forall>i < MAX_DEVICES. \<forall>j < MAX_DEVICES. dev_open (g_devs s ! i) \<longrightarrow> dev_open (g_devs s ! j) \<longrightarrow>
        dev_id (g_devs s ! i) = dev_id (g_devs s ! j) \<longrightarrow> i = j)"

lemma devs_okD:
  assumes "devs_ok s"
  shows "g_dev_init s" "length (g_devs s) = MAX_DEVICES" "1 \<le> g_next_dev_id s"
    "d \<in> set (g_devs s) \<Longrightarrow> dev_wf d \<and> (dev_open d \<longrightarrow> 1 \<le> dev_id d \<and> dev_id d < g_next_dev_id s)"
    "i < MAX_DEVICES \<Longrightarrow> j < MAX_DEVICES \<Longrightarrow> dev_open (g_devs s ! i) \<Longrightarrow> dev_open (g_devs s ! j) \<Longrightarrow>
      dev_id (g_devs s ! i) = dev_id (g_devs s ! j) \<Longrightarrow> i = j"
  using assms unfolding devs_ok_def by blast+

lemma devs_okI:
  assumes "g_dev_init s" "length (g_devs s) = MAX_DEVICES" "1 \<le> g_next_dev_id s"
    "\<And>d. d \<in> set (g_devs s) \<Longrightarrow> dev_wf d \<and> (dev_open d \<longrightarrow> 1 \<le> dev_id d \<and> dev_id d < g_next_dev_id s)"
    "\<And>i j. i < MAX_DEVICES \<Longrightarrow> j < MAX_DEVICES \<Longrightarrow> dev_open (g_devs s ! i) \<Longrightarrow> dev_open (g_devs s ! j) \<Longrightarrow>
      dev_id (g_devs s ! i) = dev_id (g_devs s ! j) \<Longrightarrow> i = j"
  shows "devs_ok s"
  using assms unfolding devs_ok_def by blast

text \<open>The content of the device of an identifier, if it is open.\<close>

definition stream :: "ID \<Rightarrow> dev_mgr \<Rightarrow> UB list option" where
  "stream did s = map_option (\<lambda>i. dev_content (g_devs s ! i)) (find_dev did s)"

lemma dev_init_once_ok: "devs_ok s \<Longrightarrow> dev_init_once s = s"
  by (simp add: devs_ok_def dev_init_once_def)

lemma dev_boot_ok: "devs_ok (dev_init_once \<lparr>g_devs = ds, g_next_dev_id = 1, g_dev_init = False\<rparr>)"
  by (simp add: devs_ok_def dev_init_once_def dev_wf_def dev0_def DEV_BUFSZ_def MAX_DEVICES_def)

lemma find_dev_iff:
  assumes "devs_ok s"
  shows "find_dev did s = Some i \<longleftrightarrow> i < MAX_DEVICES \<and> dev_open (g_devs s ! i) \<and> dev_id (g_devs s ! i) = did"
proof
  assume "find_dev did s = Some i"
  then show "i < MAX_DEVICES \<and> dev_open (g_devs s ! i) \<and> dev_id (g_devs s ! i) = did"
    using find_slot_SomeD [of "\<lambda>d. dev_open d \<and> dev_id d = did" "g_devs s" i] assms
    by (simp add: find_dev_def devs_ok_def)
next
  assume i: "i < MAX_DEVICES \<and> dev_open (g_devs s ! i) \<and> dev_id (g_devs s ! i) = did"
  then have "find_dev did s \<noteq> None" using assms by (auto simp: find_dev_def find_slot_None devs_ok_def)
  then obtain j where j: "find_dev did s = Some j" by blast
  then have "j < MAX_DEVICES \<and> dev_open (g_devs s ! j) \<and> dev_id (g_devs s ! j) = did"
    using find_slot_SomeD [of "\<lambda>d. dev_open d \<and> dev_id d = did" "g_devs s" j] assms
    by (simp add: find_dev_def devs_ok_def)
  then have "i = j" using i assms unfolding devs_ok_def by metis
  then show "find_dev did s = Some i" using j by simp
qed

lemma set_dev_ok:
  assumes ok: "devs_ok s" and i: "i < MAX_DEVICES" and d: "dev_wf d" "dev_open d \<Longrightarrow> dev_open (g_devs s ! i)"
    "dev_id d = dev_id (g_devs s ! i)"
  defines "s' \<equiv> s\<lparr>g_devs := (g_devs s)[i := d]\<rparr>"
  shows "devs_ok s'" "dev_open (g_devs s ! i) \<Longrightarrow> dev_open d \<Longrightarrow>
      stream did s' = (if did = dev_id d then Some (dev_content d) else stream did s)"
proof -
  have nth: "g_devs s' ! j = (if j = i then d else g_devs s ! j)" if "j < MAX_DEVICES" for j
    using that ok i by (simp add: s'_def devs_ok_def)
  have old: "dev_id (g_devs s' ! j) = dev_id (g_devs s ! j)" "dev_open (g_devs s' ! j) \<Longrightarrow> dev_open (g_devs s ! j)"
    if "j < MAX_DEVICES" for j
    using nth [OF that] d(2,3) by (cases "j = i"; simp)+
  note od = devs_okD [OF ok]
  have gi: "g_devs s ! i \<in> set (g_devs s)" using i od(2) by simp
  show ok': "devs_ok s'"
  proof (rule devs_okI)
    show "g_dev_init s'" "length (g_devs s') = MAX_DEVICES" "1 \<le> g_next_dev_id s'" using od by (simp_all add: s'_def)
    show "dev_wf e \<and> (dev_open e \<longrightarrow> 1 \<le> dev_id e \<and> dev_id e < g_next_dev_id s')" if "e \<in> set (g_devs s')" for e
    proof -
      have "e \<in> insert d (set (g_devs s))" using that unfolding s'_def using set_update_subset_insert by fastforce
      then show ?thesis
      proof
        assume "e = d"
        then show ?thesis using d od(4) [OF gi] by (simp add: s'_def)
      next
        assume "e \<in> set (g_devs s)"
        from od(4) [OF this] show ?thesis by (simp add: s'_def)
      qed
    qed
    fix j k assume jk: "j < MAX_DEVICES" "k < MAX_DEVICES" "dev_open (g_devs s' ! j)" "dev_open (g_devs s' ! k)"
      "dev_id (g_devs s' ! j) = dev_id (g_devs s' ! k)"
    have "dev_open (g_devs s ! j)" "dev_open (g_devs s ! k)" "dev_id (g_devs s ! j) = dev_id (g_devs s ! k)"
      using old [OF jk(1)] old [OF jk(2)] jk(3-5) by simp_all
    then show "j = k" by (rule od(5) [OF jk(1,2)])
  qed
  assume "dev_open (g_devs s ! i)" "dev_open d"
  then show "stream did s' = (if did = dev_id d then Some (dev_content d) else stream did s)"
  proof (cases "did = dev_id d")
    case True
    then have "find_dev did s' = Some i" using find_dev_iff [OF ok'] i nth \<open>dev_open d\<close> by simp
    then show ?thesis using True i nth by (simp add: stream_def)
  next
    case False
    have iff: "find_dev did s' = Some j \<longleftrightarrow> find_dev did s = Some j" for j
    proof (cases "j < MAX_DEVICES \<and> j \<noteq> i")
      case True
      then show ?thesis unfolding find_dev_iff [OF ok'] find_dev_iff [OF ok] using nth [of j] by simp
    next
      case no: False
      show ?thesis
      proof (cases "j = i")
        case True
        then show ?thesis unfolding find_dev_iff [OF ok'] find_dev_iff [OF ok] using nth [OF i] False d(3) by auto
      qed (use no in \<open>simp add: find_dev_iff [OF ok'] find_dev_iff [OF ok]\<close>)
    qed
    have "find_dev did s' = find_dev did s"
      by (cases "find_dev did s") (use iff in \<open>auto intro: option.exhaust [of "find_dev did s'"]\<close>)
    moreover have "find_dev did s = Some j \<Longrightarrow> j \<noteq> i \<and> j < MAX_DEVICES" for j
      using find_dev_iff [OF ok] False d(3) by auto
    ultimately show ?thesis using False nth by (cases "find_dev did s") (auto simp: stream_def)
  qed
qed

lemma stream_pos: "devs_ok s \<Longrightarrow> stream did s = Some bs \<Longrightarrow> 1 \<le> did"
  using find_dev_iff [of s did] by (auto simp: stream_def devs_ok_def)

text \<open>Reading takes bytes from the front of the stream of one device, writing puts them behind it, as far as
  there is room in the buffer.\<close>

lemma rea_dev_stream:
  assumes ok: "devs_ok s" and st: "stream did s = Some bs" and sz: "0 \<le> sz"
  shows "fst (rea_dev did True sz s) = (ER_OK, take (nat sz) bs)" "devs_ok (snd (rea_dev did True sz s))"
    "stream i (snd (rea_dev did True sz s)) = (if i = did then Some (drop (nat sz) bs) else stream i s)"
proof -
  obtain k where k: "find_dev did s = Some k" "bs = dev_content (g_devs s ! k)" using st by (auto simp: stream_def)
  then have kk: "k < MAX_DEVICES" "dev_open (g_devs s ! k)" "dev_id (g_devs s ! k) = did" using find_dev_iff [OF ok] by auto
  have w: "dev_wf (g_devs s ! k)" using ok kk by (simp add: devs_ok_def)
  note sp = dev_take_spec [OF w sz]
  have e: "rea_dev did True sz s = ((ER_OK, fst (dev_take sz (g_devs s ! k))),
      s\<lparr>g_devs := (g_devs s)[k := snd (dev_take sz (g_devs s ! k))]\<rparr>)"
    using sz stream_pos [OF ok st] k(1)
    by (simp add: rea_dev_def on_dev_def dev_init_once_ok [OF ok] Let_def split_beta)
  show "fst (rea_dev did True sz s) = (ER_OK, take (nat sz) bs)" using e sp k(2) by simp
  show "devs_ok (snd (rea_dev did True sz s))"
    unfolding e snd_conv by (rule set_dev_ok [OF ok kk(1)]) (use sp kk in simp_all)
  show "stream i (snd (rea_dev did True sz s)) = (if i = did then Some (drop (nat sz) bs) else stream i s)"
    unfolding e snd_conv using set_dev_ok(2) [OF ok kk(1) sp(3), of i] sp kk k(2) by simp
qed

lemma wri_dev_stream:
  assumes ok: "devs_ok s" and st: "stream did s = Some bs" and sz: "0 \<le> sz" "int (length buf) \<ge> sz"
  defines "n \<equiv> min (nat sz) (DEV_BUFSZ - length bs)"
  shows "fst (wri_dev did (Some buf) sz s) = (ER_OK, int n)" "devs_ok (snd (wri_dev did (Some buf) sz s))"
    "stream i (snd (wri_dev did (Some buf) sz s)) = (if i = did then Some (bs @ take n buf) else stream i s)"
proof -
  obtain k where k: "find_dev did s = Some k" "bs = dev_content (g_devs s ! k)" using st by (auto simp: stream_def)
  then have kk: "k < MAX_DEVICES" "dev_open (g_devs s ! k)" "dev_id (g_devs s ! k) = did" using find_dev_iff [OF ok] by auto
  have w: "dev_wf (g_devs s ! k)" using ok kk by (simp add: devs_ok_def)
  have n: "n = min (nat sz) (DEV_BUFSZ - dev_buf_len (g_devs s ! k))"
    using w k(2) by (simp add: n_def dev_content_def dev_wf_def)
  note sp = dev_put_spec [OF w sz, folded n]
  have e: "wri_dev did (Some buf) sz s = ((ER_OK, fst (dev_put buf sz (g_devs s ! k))),
      s\<lparr>g_devs := (g_devs s)[k := snd (dev_put buf sz (g_devs s ! k))]\<rparr>)"
    using sz stream_pos [OF ok st] k(1)
    by (simp add: wri_dev_def on_dev_def dev_init_once_ok [OF ok] Let_def split_beta)
  show "fst (wri_dev did (Some buf) sz s) = (ER_OK, int n)" using e sp by simp
  show "devs_ok (snd (wri_dev did (Some buf) sz s))"
    unfolding e snd_conv by (rule set_dev_ok [OF ok kk(1)]) (use sp kk in simp_all)
  show "stream i (snd (wri_dev did (Some buf) sz s)) = (if i = did then Some (bs @ take n buf) else stream i s)"
    unfolding e snd_conv using set_dev_ok(2) [OF ok kk(1) sp(3), of i] sp kk k(2) by simp
qed

end
