(* ===== verification/Example_Managers.thy ===== *)
theory Example_Managers
  imports Event_Queue Ipc_Msg Fs_Record
begin

text \<open>
  Concrete states of the managers of the B-system, at which the properties are applied: the file
  system after start-up with record 0 of the only file open.
\<close>

definition fs_demo :: fs_st where
  "fs_demo = snd (opn_rec 1 0 0 fs_boot)"

lemma fs_demo_reached: "fs_step\<^sup>*\<^sup>* fs_boot fs_demo"
  unfolding fs_demo_def by (rule r_into_rtranclp) (rule fs_step.opn_rec)

lemma fs_demo_ok: "fs_ok fs_demo"
  by (rule fs_steps_ok [OF fs_demo_reached fs_boot_ok])

lemmas fs_size_defs = MAX_FS_FILES_def MAX_OPEN_RECS_def MAX_RECS_PER_FILE_def

lemma fs_demo_orec: "orec 1 fs_demo = \<lparr>o_fd = 1, o_rec_idx = 0, o_mode = 0, o_offset = 0, o_open = True\<rparr>"
proof -
  have "find_slot (\<lambda>r. \<not> o_open r) (replicate MAX_OPEN_RECS orec0) = Some 0"
    by (simp add: fs_size_defs orec0_def find_slot_def numeral_eq_Suc)
  then show ?thesis
    by (simp add: fs_demo_def opn_rec_def Let_def bad_fd_def bad_idx_def fs_boot_def fs_init_once_def
        make_slot_def upd_orec_def fs_size_defs)
qed

lemma fs_demo_open: "\<not> bad_rec 1" "o_open (orec 1 fs_demo)" "o_offset (orec 1 fs_demo) = 0"
  by (simp_all only: fs_demo_orec) (simp_all add: bad_rec_def fs_size_defs)

lemma fs_start: "find_file ''/sys/startup.tad'' (fs_init_once fs_boot) = Some 0"
  by (simp add: find_file_def find_slot_def fs_init_once_def fs_boot_def fs_size_defs numeral_eq_Suc path_field_def)

text \<open>After the only file is deleted, no file has any name.\<close>

lemma fs_only_file: "find_file q (snd (del_fil (Some ''/sys/startup.tad'') (fs_init_once fs_boot))) = None"
proof -
  have "find_file ''/sys/startup.tad'' (fs_init_once (fs_init_once fs_boot)) = Some 0"
    using fs_start by (simp add: fs_init_once_def)
  then have e: "snd (del_fil (Some ''/sys/startup.tad'') (fs_init_once fs_boot)) =
      upd_file 0 (\<lambda>f. f\<lparr>f_exists := False, f_open := False\<rparr>) (fs_init_once fs_boot)"
    by (simp add: del_fil_def Let_def) (simp add: fs_init_once_def)
  have "f_exists f \<Longrightarrow> False" if "f \<in> set (g_files (upd_file 0 (\<lambda>f. f\<lparr>f_exists := False, f_open := False\<rparr>) (fs_init_once fs_boot)))" for f
    using that by (auto simp: upd_file_def fs_init_once_def fs_boot_def fs_size_defs file0_def in_set_conv_nth nth_list_update
        nth_Cons' split: if_splits)
  then show ?thesis unfolding e by (auto simp: find_file_def find_slot_None)
qed

end
