(* ===== verification/Spec2Isabelle.thy ===== *)
theory Spec2Isabelle
  imports Prelude Queue Kernel_State Ready_Queue Timer Task Wait Object_Pool Semaphore Eventflag
    Mailbox Mbf_Ring Messagebuf Klock Mempfix Mpl_Area Mempool Rendezvous Mutex Inheritance
    Mutex_Calls Mutex_Steps Task_Sync Task_Manage Task_Life Time_Calls Timer_Release Timer_Handler
    Handler_Calls Clock_Calls Subsystem Subsystem_Laws Boot Kernel_Heap Example_System Example_Pools Example_Mutex Example_Timer Example_Boot
    B_Types Ring_Buffer Event_Queue Ipc_Msg Fs_Record Managers Managers_Laws Example_Managers
begin

text \<open>
  \<^bold>\<open>The kernel of B-TRON.\<close> The repository is an operating system in C; its core is a T-Kernel 2.0
  kernel (\<open>src/src/kernel/\<close>): tasks with priorities, a ready queue, a timer queue, and objects on
  which tasks wait. This development translates that kernel into HOL functions, one theory per
  component, and proves what each component promises.

  \<^bold>\<open>How the code corresponds to the theories.\<close>
  \<^item> \<open>Prelude\<close>: basic types (\<open>typedef.h\<close>), error codes (\<open>errno.h\<close>), attribute tests, the bounded
    name copy (\<open>libstr.c\<close>) and list lemmas.
  \<^item> \<open>Queue\<close>: the rings of \<open>queue.h\<close> with their pointer updates, and \<open>queue_insert_tpri\<close> of
    \<open>wait.h\<close> with its search loop. \<open>rings m Q\<close> says that the memory \<open>m\<close> holds the queues \<open>Q\<close>;
    every operation is shown to be one on lists, and the later theories use the lists.
  \<^item> \<open>Kernel_State\<close>: \<open>TCB\<close>, \<open>WSPEC\<close>, \<open>WINFO\<close>, \<open>TMEB\<close> and the variables of \<open>task.c\<close>, \<open>timer.c\<close>
    as the record \<open>kst\<close>. A TCB's link field is in one queue at a time, named by a \<open>qid\<close>.
  \<^item> \<open>Ready_Queue\<close>: \<open>ready_queue.h\<close> with the bitmap routines of \<open>startup_arm.c\<close>.
  \<^item> \<open>Timer\<close>: insertion into and deletion from the timer queue (\<open>timer.c\<close>), with 64-bit times.
    The rest of \<open>timer.c\<close>, the interrupt, needs the callbacks and is in \<open>Time_Calls\<close>.
  \<^item> \<open>Task\<close>: \<open>task.c\<close>: state changes, scheduling, priorities. \<open>kinv\<close> is the kernel invariant
    (the queues agree with the task states), \<open>sched_ok\<close> says that \<open>schedtsk\<close> is the task to run.
  \<^item> \<open>Wait\<close>: \<open>wait.c\<close> and \<open>wait.h\<close>: entering and leaving wait states.
  \<^item> \<open>Object_Pool\<close>: what all objects share, as the locale \<open>object_pool\<close> (a table of objects with a
    kind of wait queue of their own): how waiting, releasing, deleting and changes of priority act
    on the queues of one kind and leave the others alone. Every object theory interprets it.
  \<^item> \<open>Semaphore\<close>, \<open>Eventflag\<close>, \<open>Mailbox\<close>, \<open>Messagebuf\<close> (with its ring buffer \<open>Mbf_Ring\<close>): the
    system calls of \<open>semaphore.c\<close>, \<open>eventflag.c\<close>, \<open>mailbox.c\<close>, \<open>messagebuf.c\<close>, each with its
    debugger support functions, its invariant and a step relation of everything that can happen to
    the objects (calls, time-outs, forced releases, changes of priority, dispatches).
  \<^item> \<open>Klock\<close>: the object lock and the lock of extended SVCs (\<open>klock.c\<close>); \<open>with_lock\<close> is a call that
    runs under the object lock. \<open>Mempfix\<close>: the fixed-size memory pools (\<open>mempfix.c\<close>).
  \<^item> \<open>Mpl_Area\<close>: the allocator of the variable-size memory pools (\<open>mempool.c\<close>): areas in address order,
    free areas by size, splitting and merging; \<open>pool_run\<close> is what a client can do with a pool.
    \<open>Mempool\<close>: the system calls around it.
  \<^item> \<open>Rendezvous\<close>: the ports of \<open>rendezvous.c\<close>: calls, acceptance, forwarding and replies.
  \<^item> \<open>Mutex\<close>: the functions of \<open>mutex.c\<close>, and what \<open>change_task_priority\<close> and \<open>wait_release_ng\<close>
    become when the hooks of all kinds of objects are called. \<open>Inheritance\<close>: what priority a task is
    entitled to, and that the chain of corrections ends and restores it. \<open>Mutex_Calls\<close>,
    \<open>Mutex_Steps\<close>: the system calls of \<open>mutex.c\<close> keep the invariant \<open>mtx_ok\<close>, as do time-outs,
    forced releases and the change of a base priority of \<open>task_manage.c\<close>.
  \<^item> \<open>Task_Sync\<close>: \<open>task_sync.c\<close>: suspension, sleep and wakeup, task events.
  \<^item> \<open>Task_Manage\<close>: the system calls of \<open>task_manage.c\<close>. \<open>Task_Life\<close>: creation, start and deletion
    keep the invariant \<open>life_ok\<close>, and a deletion frees the stacks the creation got.
  \<^item> \<open>Time_Calls\<close>: \<open>time_calls.c\<close> (clocks, delays, cyclic and alarm handlers) and the interrupt
    \<open>timer_handler\<close> of \<open>timer.c\<close>, which runs the callbacks of due events. \<open>Timer_Release\<close>: what a
    task leaving its wait does to events. \<open>Timer_Handler\<close>: the invariant \<open>tim_ok\<close> (the queued events are
    those of started handlers and of tasks that wait with a time-out) and the termination of
    \<open>timer_handler\<close>. \<open>Handler_Calls\<close>: the calls that create, start, stop and delete handlers keep it.
    \<open>Clock_Calls\<close>: setting and reading the clock.
  \<^item> \<open>Subsystem\<close>: \<open>subsystem.c\<close> with the delivery of task exceptions of \<open>cpu_init.c\<close>: subsystems,
    extended SVCs, break functions, task exceptions, resource groups. \<open>Subsystem_Laws\<close>: the queues of
    subsystems by priority and the order in which their functions are called.
  \<^item> \<open>Boot\<close>: \<open>t_kernel_main\<close> of \<open>tkstart.c\<close>: a start with a valid configuration establishes the invariants
    of all components (C8), with the configuration the ports report no module is initialised.
  \<^item> \<open>Kernel_Heap\<close>: \<open>Imalloc\<close>, \<open>Icalloc\<close> and \<open>Ifree\<close> of \<open>libstr.c\<close>: blocks never overlap, whatever is got
    and freed (\<open>heap_run_safe\<close>); requests near the limit of \<open>size_t\<close> wrap around.
  \<^item> \<open>B_Types\<close>, \<open>Ring_Buffer\<close>: types and error codes of the B-system, and the circular arrays of its
    queues with the locale \<open>typed_queue\<close> of what they promise. \<open>Event_Queue\<close> (\<open>window/event.c\<close>) and
    \<open>Ipc_Msg\<close> (\<open>ipc_msg.c\<close>) interpret it.
  \<^item> \<open>Fs_Record\<close>: the record file system (\<open>fs_record.c\<close>).
  \<^item> \<open>Managers\<close>: memory blocks, processes, devices, clock and configuration (\<open>mem_mgr.c\<close>, \<open>proc_mgr.c\<close>,
    \<open>dev_mgr.c\<close>, \<open>clk_mgr.c\<close>, \<open>sys_mgmt.c\<close>). \<open>Managers_Laws\<close>: devices are bounded streams of bytes.
  \<^item> \<open>Example_System\<close>, \<open>Example_Pools\<close>, \<open>Example_Mutex\<close>, \<open>Example_Timer\<close>, \<open>Example_Boot\<close>,
    \<open>Example_Managers\<close>: concrete
    states that fulfil the invariants, used by the witnesses, among them two tasks that wait for each other's mutexes.

  \<^bold>\<open>State.\<close> Each object theory extends the record of the one before, so a state of
  \<open>'a mtx_st_scheme\<close> has all objects tasks wait for, and one of \<open>'a tim_st_scheme\<close> everything. Control blocks are functions from identifiers, free queues are
  lists. Critical sections make the calls atomic, so one call is one step. A call of a task that
  has to wait returns \<open>Blocked\<close>, and \<open>wercd\<close> of the TCB is the variable of the caller's stack that
  later gets the result. Words of the tasks' memory that calls write are \<open>mem_uint\<close>, \<open>mem_int\<close>,
  \<open>mem_ptr\<close> and \<open>mem_byte\<close>. \<open>int\<close> stands for \<open>INT\<close> where the code keeps it in range, words for
  unsigned types and wherever wrap-around matters (times, sizes of message buffers, flags).

  \<^bold>\<open>Loops.\<close> Loops over queues are structural recursion over the queue as it was when the loop
  started, where the code saves the successor before it releases an entry, and functions with a
  termination proof (\<open>wait_delete\<close>, \<open>mbf_wakeup\<close>) where it takes the head each time. The search in
  a mailbox goes through memory the tasks can write, so it is a partial function, and that it ends
  is a property. So are \<open>mtx_chg_pri\<close> and the functions that call it: the chain of tasks that wait
  for each other's mutexes may be a circle, and that the calls return is proved (C24). \<open>timer_loop\<close> is a partial function because handlers
  are user code that may set an event that is due at once; C40 says when it returns.

  \<^bold>\<open>From outside\<close> come the values of \<open>_tk_get_cfn\<close>, whether \<open>Imalloc\<close> succeeds, the
  addresses of stacks (\<open>IAmalloc\<close>), the configured timer period, the hardware timer (\<open>hw_usec\<close>) and the
  functions of cyclic and alarm handlers (\<open>usr\<close>, of which \<open>handlers_behave\<close> says what C40 asks): arguments or
  state components.

  \<^bold>\<open>Not modelled.\<close> CPU contexts and the assembler of the dispatcher (a dispatch is \<open>ctxtsk\<close> taking
  the value of \<open>schedtsk\<close>), the registers of the timer, interrupt controllers and other devices, the
  string functions of \<open>libstr.c\<close> but the name copy, \<open>misc_calls.c\<close> and \<open>objname.c\<close>, windows and menus, graphics, fonts, text input,
  the parts of the human machine interface, applications, drivers and ports.
\<close>

section \<open>Queues\<close>

text \<open>C1: The pointer rings of \<open>queue.h\<close> are queues: entries inserted into an empty queue come out of
  it first in, first out, whatever the other queues of the memory hold, and these keep their
  content.\<close>

theorem queue_fifo:
  assumes "rings m Q" "Q q = []" "distinct ts" "\<And>t q'. t \<in> set ts \<Longrightarrow> t \<notin> set (Q q')"
  shows "\<exists>m'. drain (que_pop q) (length ts) (fold (\<lambda>t. QueInsert (Inr t) (Inl q)) ts m) = (ts, m') \<and> rings m' Q"
  by (rule ptrq.fifo [OF assms])

lemma rings_init: "rings \<lparr>nxt = id, prv = id\<rparr> (\<lambda>_ :: nat. [] :: nat list)"
  by (simp add: rings_def ring_def)

theorem queue_fifo_witness:
  "\<exists>m'. drain (que_pop (0 :: nat)) 3 (fold (\<lambda>t. QueInsert (Inr t) (Inl 0)) [7, 3, 5 :: nat]
     \<lparr>nxt = id, prv = id\<rparr>) = ([7, 3, 5], m') \<and> rings m' (\<lambda>_. [])"
proof -
  have "length [7, 3, 5 :: nat] = 3" by simp
  then show ?thesis
    using queue_fifo [OF rings_init, where q = 0 and ts = "[7, 3, 5]"]
    by (simp del: drain.simps list.size add: list.size(3))
qed

text \<open>C2: The insertion by priority (\<open>queue_insert_tpri\<close>) ends on every well-formed ring and puts
  the entry behind all entries that are not of lower priority, in front of the first that is.\<close>

theorem queue_insert_by_priority:
  assumes "rings m Q" "\<And>q'. t \<notin> set (Q q')"
  shows "\<exists>m'. queue_insert_tpri_ptr (\<lambda>x. \<exists>u. x = Inr u \<and> pri u > (pri t :: nat)) (Inr t) (Inl q) m = Some m' \<and>
    rings m' (Q(q := takeWhile (\<lambda>u. \<not> pri u > pri t) (Q q) @ t # dropWhile (\<lambda>u. \<not> pri u > pri t) (Q q)))"
  using rings_insert_tpri [OF assms, of "\<lambda>u. pri u > pri t" q] by (simp add: insert_before_split)

theorem queue_insert_by_priority_witness:
  "\<exists>m'. queue_insert_tpri_ptr (\<lambda>x. \<exists>u. x = Inr u \<and> u > (4 :: nat)) (Inr 4) (Inl (0 :: nat))
     \<lparr>nxt = id, prv = id\<rparr> = Some m' \<and> rings m' ((\<lambda>_. [])(0 := [4 :: nat]))"
  using queue_insert_by_priority [OF rings_init, where t = 4 and pri = id and q = 0] by simp

section \<open>Scheduling\<close>

text \<open>C3: The ready queue (an array of queues, a bitmap and a cached priority) implements one list
  sorted by priority: an insertion puts the task behind the tasks of its priority.\<close>

theorem ready_queue_refines_list:
  assumes "rdq_ok s" "unqueued t s" "priority (tcbs s t) < NUM_PRI"
  shows "ready_list (snd (ready_queue_insert t s)) =
    insert_before (\<lambda>u. priority (tcbs s u) > priority (tcbs s t)) t (ready_list s)"
  by (rule ready_list_insert [OF assms])

theorem ready_queue_refines_list_witness:
  "ready_list (snd (ready_queue_insert 7 (demo ()))) =
    insert_before (\<lambda>u. priority (tcbs (demo ()) u) > 9) 7 (ready_list (demo ()))"
  using ready_queue_refines_list [of "demo ()" 7] kinv_xD(1) [OF demo_kinv [of "()"]]
  by (simp add: unqueued_def demo_que_def demo_tasks NUM_PRI_def)

text \<open>C4: Among the ready tasks, \<open>ready_queue_top\<close> names one of highest priority.\<close>

theorem ready_queue_top_highest:
  assumes "kinv s" "klocktsk s = None" "ready_queue_top s = Some t"
    and "tstate (tcbs s u) = TS_READY" "\<not> klockwait (tcbs s u)"
  shows "tstate (tcbs s t) = TS_READY \<and> priority (tcbs s t) \<le> priority (tcbs s u)"
proof -
  note k = kinv_xD [OF assms(1)]
  have l: "u \<in> set (ready_list s)" using k(4) [of u] assms(4,5) set_ready_list [OF k(1)] by simp
  have i: "rdq_ok s \<and> klocktsk s = None" using k(1) assms(2) by simp
  show ?thesis
    using rdyq.front_least [OF i assms(3) l] rdyq.front_in [OF i assms(3)] set_ready_list [OF k(1)] k(3) by blast
qed

theorem ready_queue_top_highest_witness:
  "tstate (tcbs (demo ()) 1) = TS_READY \<and> priority (tcbs (demo ()) 1) \<le> priority (tcbs (demo ()) 1)"
  using ready_queue_top_highest [OF demo_kinv, of "()" 1 1]
  by (simp add: ready_queue_top_def NUM_PRI_def demo_tasks)

text \<open>C5: When a task that is in no queue is made ready, the kernel invariant holds and \<open>schedtsk\<close> is
  again the task the scheduler has to choose.\<close>

theorem make_ready_schedules:
  assumes "kinv_x {t} s" "unqueued t s" "\<not> klockwait (tcbs s t)" "priority (tcbs s t) < NUM_PRI"
    and "\<not> klocked (tcbs s t)" "sched_ok s"
  shows "kinv (make_ready t s) \<and> schedtsk (make_ready t s) = ready_queue_top (make_ready t s) \<and>
    tstate (tcbs (make_ready t s) t) = TS_READY \<and>
    t \<in> set (que (make_ready t s) (Rdy (priority (tcbs s t))))"
proof -
  have k: "kinv (make_ready t s)" using make_ready_kinv_x [of t "{}" s] assms by simp
  have "sched_ok (make_ready t s)" using make_ready_sched_ok [of t "{}" s] assms by simp
  moreover have "t \<in> set (que (make_ready t s) (Rdy (priority (tcbs s t))))"
    using kinv_xD(4) [OF k, of t] assms(3) by simp
  ultimately show ?thesis using k by (simp add: sched_ok_def)
qed

theorem make_ready_schedules_witness:
  "kinv (make_ready 7 (demo ())) \<and> schedtsk (make_ready 7 (demo ())) = ready_queue_top (make_ready 7 (demo ())) \<and>
    tstate (tcbs (make_ready 7 (demo ())) 7) = TS_READY \<and> 7 \<in> set (que (make_ready 7 (demo ())) (Rdy 9))"
  using make_ready_schedules [of 7 "demo ()"] kinv_x_mono [OF demo_kinv, of "{7}" "()"] demo_sched_ok [of "()"]
  by (simp add: unqueued_def demo_que_def demo_tasks NUM_PRI_def)

text \<open>C6: When the running task stops being ready, \<open>schedtsk\<close> is the highest of the tasks that are
  left, and the task is in no queue.\<close>

theorem make_non_ready_schedules:
  assumes "kinv s" "tstate (tcbs s t) = TS_READY" "sched_ok s"
  shows "kinv_x {t} (make_non_ready t s) \<and> sched_ok (make_non_ready t s) \<and> unqueued t (make_non_ready t s)"
  using make_non_ready_kinv_x [of "{}" s t] make_non_ready_sched_ok [of "{}" s t] assms by simp

theorem make_non_ready_schedules_witness:
  "kinv_x {1} (make_non_ready 1 (demo ())) \<and> sched_ok (make_non_ready 1 (demo ())) \<and>
    unqueued 1 (make_non_ready 1 (demo ()))"
  using make_non_ready_schedules [OF demo_kinv _ demo_sched_ok, of "()" 1] by simp

text \<open>C7: The timer queue stays sorted by time, a wait that starts now is inserted behind the events
  that are not later, and its time is the sum of the clock, the time-out and the time since the
  last interrupt, as long as this sum is in range.\<close>

theorem timer_insert_keeps_order:
  assumes "tmq_ok s" "ev \<notin> set (timer_queue s)" "0 \<le> sint (current_time s)" "0 \<le> tmout" "due tmout s < 2 ^ 62"
  shows "tmq_ok (timer_insert ev tmout cb s) \<and>
    timer_queue (timer_insert ev tmout cb s) =
      insert_before (\<lambda>q. event_time s q > due tmout s) ev (timer_queue s) \<and>
    event_time (timer_insert ev tmout cb s) ev = due tmout s"
  using timer_insert_sorted [OF assms] by blast

theorem timer_insert_keeps_order_witness:
  "tmq_ok (timer_insert (TskTm 1) 500 None (demo ())) \<and>
    timer_queue (timer_insert (TskTm 1) 500 None (demo ())) = [TskTm 1] \<and>
    event_time (timer_insert (TskTm 1) 500 None (demo ())) (TskTm 1) = 1500"
  using timer_insert_keeps_order [of "demo ()" "TskTm 1" 500 None]
  by (simp add: tmq_ok_def due_def)

text \<open>A time-out that the parameter check accepts can make the clock overflow; the event then
  gets a negative time, which is before every event of the queue.\<close>

lemma timer_insert_overflow:
  "chk_tmout (2 ^ 63 - 1) \<and> event_time (timer_insert ev (2 ^ 63 - 1) cb (demo ())) ev < 0"
  by (simp add: chk_tmout_def TMO_FEVR_def timer_defs event_time_def)

section \<open>Semaphores\<close>

text \<open>C9: Under every sequence of semaphore calls, time-outs, forced releases, priority changes and
  dispatches: the kernel invariant holds, every count is between 0 and its maximum, and the first
  task of a queue (every task for \<open>TA_CNT\<close>) asks for more than there is.\<close>

theorem semaphore_invariant:
  assumes "sem_step\<^sup>*\<^sup>* s s'" "sem_ok s"
  shows "sem_ok s' \<and> kinv s' \<and> (\<forall>i. sem_exists i s' \<longrightarrow>
    0 \<le> semcnt (semcb_table s' i) \<and> semcnt (semcb_table s' i) \<le> maxsem (semcb_table s' i) \<and>
    sem_no_lost (has (sematr (semcb_table s' i)) TA_CNT) (semcnt (semcb_table s' i))
      (sem_reqs s' (que s' (WaitQ OSem i))))"
  using sem_steps_ok [OF assms] sem_okD [of s']
  by (auto simp: sem_obj_ok_def sem_obj_pre_def sem_obj_settled_def Let_def)

theorem semaphore_invariant_witness:
  "sem_ok (snd (tk_sig_sem 1 2 (demo ())))"
  using semaphore_invariant [OF r_into_rtranclp, OF sem_step.sig demo_sem_ok, of 1 2 "()"] by blast

text \<open>C10: Signalling hands the counts to the tasks \<open>sem_grant\<close> chooses: they leave the queue, are
  released and return \<open>E_OK\<close>; the others wait on; no count is lost or made up.\<close>

theorem signal_grants:
  assumes "sem_ok s" "sem_exists i s" "cnt > 0" "semcnt (semcb_table s i) + cnt \<le> maxsem (semcb_table s i)"
  shows "let q = que s (WaitQ OSem i);
      G = sem_grant (has (sematr (semcb_table s i)) TA_CNT) (semcnt (semcb_table s i) + cnt) (sem_reqs s q);
      s' = snd (tk_sig_sem i cnt s)
    in fst (tk_sig_sem i cnt s) = E_OK \<and> set G \<subseteq> set q \<and>
       que s' (WaitQ OSem i) = filter (\<lambda>t. t \<notin> set G) q \<and>
       semcnt (semcb_table s' i) + granted_sum G (sem_reqs s q) = semcnt (semcb_table s i) + cnt \<and>
       (\<forall>t. tstate (tcbs s' t) = (if t \<in> set G then released (tstate (tcbs s t)) else tstate (tcbs s t)) \<and>
            wercd (tcbs s' t) = (if t \<in> set G then E_OK else wercd (tcbs s t)))"
  unfolding Let_def using tk_sig_sem_effect [OF assms] by simp

theorem signal_grants_witness:
  "fst (tk_sig_sem 1 2 (demo ())) = E_OK"
  using signal_grants [OF demo_sem_ok, of 1 "()" 2] by (simp add: Let_def) (simp add: demo_def)

text \<open>C11: Deleting a semaphore releases every task that waits for it with \<open>E_DLT\<close> and returns the
  control block to the free queue.\<close>

theorem delete_semaphore_releases:
  assumes "sem_ok s" "sem_exists i s"
  shows "let s' = snd (tk_del_sem i s) in fst (tk_del_sem i s) = E_OK \<and> \<not> sem_exists i s' \<and>
    que s' (WaitQ OSem i) = [] \<and> free_semcb s' = free_semcb s @ [i] \<and>
    (\<forall>t \<in> set (que s (WaitQ OSem i)). tstate (tcbs s' t) = released (tstate (tcbs s t)) \<and>
       wercd (tcbs s' t) = E_DLT)"
  unfolding Let_def using tk_del_sem_effect [OF assms] by simp

theorem delete_semaphore_releases_witness:
  "wercd (tcbs (snd (tk_del_sem 1 (demo ()))) 2) = E_DLT"
  using delete_semaphore_releases [OF demo_sem_ok, of 1 "()"] by (simp add: Let_def)

section \<open>Event flags\<close>

text \<open>C12: Under every sequence of event flag operations the kernel invariant holds and no task
  waits for a condition its flag fulfils.\<close>

theorem eventflag_invariant:
  assumes "flg_sys_step\<^sup>*\<^sup>* s s'" "flg_ok s"
  shows "flg_ok s' \<and> kinv s' \<and> (\<forall>i. flg_exists i s' \<longrightarrow> (\<forall>t \<in> set (que s' (WaitQ OFlg i)).
    \<not> eventflag_cond (flgptn (flgcb_table s' i)) (flg_waiptn (winfo (tcbs s' t))) (flg_wfmode (winfo (tcbs s' t)))))"
  using flg_sys_steps_ok [OF assms] flg_okD [of s'] by (auto simp: flg_obj_settled_def)

theorem eventflag_invariant_witness:
  "flg_ok (snd (tk_set_flg 1 4 (demo ())))"
  using eventflag_invariant [OF r_into_rtranclp, OF flg_sys_step.set demo_flg_ok, of 1 4 "()"] by blast



section \<open>Mailboxes\<close>

text \<open>C14: Under every sequence of mailbox operations the messages of a mailbox form a chain that
  ends, no message is in two mailboxes, and no task waits at a mailbox that has a message.\<close>

theorem mailbox_invariant:
  assumes "mbx_sys_step\<^sup>*\<^sup>* s s'" "mbx_ok s"
  shows "mbx_ok s' \<and> kinv s' \<and> (\<forall>i. mbx_exists i s' \<longrightarrow> (\<exists>ms. mbx_content i s' = Some ms \<and> distinct ms \<and>
    (que s' (WaitQ OMbx i) \<noteq> [] \<longrightarrow> ms = [])))"
proof -
  note ok = mbx_sys_steps_ok [OF assms]
  have "\<exists>ms. mbx_content i s' = Some ms \<and> distinct ms \<and> (que s' (WaitQ OMbx i) \<noteq> [] \<longrightarrow> ms = [])"
    if ex: "mbx_exists i s'" for i
  proof -
    obtain ms where ms: "mbx_content i s' = Some ms" using mbx_pre_content mbx_okD(5) [OF ok ex] by blast
    then have "distinct ms" using mchain_distinct by (auto simp: mbx_content_iff)
    then show ?thesis using ms mbx_okD(6) [OF ok ex] by (auto simp: mbx_obj_settled_def)
  qed
  then show ?thesis using ok mbx_okD(1) [OF ok] by blast
qed

theorem mailbox_invariant_witness:
  "mbx_ok (snd (tk_del_mbx 2 (demo ())))"
  using mailbox_invariant [OF r_into_rtranclp, OF mbx_sys_step.del demo_mbx_ok, of 2 "()"] by blast

text \<open>C15: Sending a message that is in no mailbox always returns, also through the search loop of
  the insertion by priority.\<close>

theorem send_message_returns:
  fixes s :: "'a mbx_st_scheme"
  assumes "mbx_ok s" "m \<noteq> NULL" "\<And>j ms. mbx_exists j s \<Longrightarrow> mbx_content j s = Some ms \<Longrightarrow> m \<notin> set ms"
  shows "\<exists>r s'. tk_snd_mbx i m s = Some (r, s') \<and> mbx_ok s'"
  by (rule tk_snd_mbx_ok [OF assms])

lemma demo_fresh:
  "mbx_exists j (demo x) \<Longrightarrow> mbx_content j (demo x) = Some ms \<Longrightarrow> 102 \<notin> set ms"
  using demo_mbx_content [of x] by (cases "j = 1") auto

theorem send_message_returns_witness:
  "\<exists>r s'. tk_snd_mbx 2 102 (demo ()) = Some (r, s') \<and> mbx_ok s'"
  using send_message_returns [where i = 2, OF demo_mbx_ok _ demo_fresh] by simp

text \<open>C16: A message sent while no task waits is put at the end of the queue, or behind the messages
  that are not of lower priority; the other mailboxes do not change.\<close>

theorem send_message_stores:
  fixes s :: "'a mbx_st_scheme"
  assumes "mbx_ok s" "mbx_exists i s" "mbx_content i s = Some ms" "m \<noteq> NULL"
    "\<And>j ms. mbx_exists j s \<Longrightarrow> mbx_content j s = Some ms \<Longrightarrow> m \<notin> set ms"
    "que s (WaitQ OMbx i) = []" "has (mbxatr (mbxcb_table s i)) TA_MPRI \<Longrightarrow> msg_pri s m > 0"
  shows "\<exists>s'. tk_snd_mbx i m s = Some (E_OK, s') \<and>
    mbx_content i s' = Some (if has (mbxatr (mbxcb_table s i)) TA_MPRI
      then insert_before (\<lambda>x. msg_pri s x > msg_pri s m) m ms else ms @ [m]) \<and>
    (\<forall>j. j \<noteq> i \<longrightarrow> mbx_exists j s \<longrightarrow> mbx_content j s' = mbx_content j s)"
proof (rule tk_snd_mbx_store [OF assms])
  fix s'
  assume "tk_snd_mbx i m s = Some (E_OK, s')"
    "mbx_content i s' = Some (if has (mbxatr (mbxcb_table s i)) TA_MPRI
      then insert_before (\<lambda>x. msg_pri s x > msg_pri s m) m ms else ms @ [m])"
    "\<And>j. j \<noteq> i \<Longrightarrow> mbx_exists j s \<Longrightarrow> mbx_content j s' = mbx_content j s"
  then show ?thesis by (intro exI [of _ s']) simp
qed

theorem send_message_stores_witness:
  "\<exists>s'. tk_snd_mbx 2 102 (demo ()) = Some (E_OK, s') \<and> mbx_content 2 s' = Some [100, 101, 102]"
proof -
  have fifo: "\<not> has (mbxatr (mbxcb_table (demo ()) 2)) TA_MPRI" by (simp add: demo_def has_def)
  have ex: "mbx_exists 2 (demo ())" and q: "que (demo ()) (WaitQ OMbx 2) = []"
    by (simp_all add: demo_exists demo_que_def)
  have "\<exists>s'. tk_snd_mbx 2 102 (demo ()) = Some (E_OK, s') \<and>
    mbx_content 2 s' = Some (if has (mbxatr (mbxcb_table (demo ()) 2)) TA_MPRI
      then insert_before (\<lambda>x. msg_pri (demo ()) x > msg_pri (demo ()) 102) 102 [100, 101] else [100, 101] @ [102]) \<and>
    (\<forall>j. j \<noteq> 2 \<longrightarrow> mbx_exists j (demo ()) \<longrightarrow> mbx_content j s' = mbx_content j (demo ()))"
  proof (rule send_message_stores)
    show "mbx_exists 2 (demo ())" "que (demo ()) (WaitQ OMbx 2) = []" by (fact ex, fact q)
    show "102 \<notin> set ms" if "mbx_exists j (demo ())" "mbx_content j (demo ()) = Some ms" for j ms
      using that by (rule demo_fresh)
  qed (use fifo demo_mbx_ok demo_mbx_content in simp_all)
  then show ?thesis using fifo by auto
qed

text \<open>C17: A receiver gets the first message of the queue.\<close>

theorem receive_message_takes_first:
  fixes s :: "'a mbx_st_scheme"
  assumes "mbx_ok s" "mbx_exists i s" "mbx_content i s = Some (m # ms)"
    "chk_tmout tmout" "\<not> in_ddsp s" "\<not> is_diswai (mbxatr (mbxcb_table s i)) (me s) TTW_MBX s"
  shows "\<exists>s'. tk_rcv_mbx_u i p tmout s = (Ret E_OK, s') \<and> mbx_ok s' \<and> mem_ptr s' p = m \<and>
    mbx_content i s' = Some ms"
  by (rule tk_rcv_mbx_u_takes [OF assms]) blast

theorem receive_message_takes_first_witness:
  "\<exists>s'. tk_rcv_mbx_u 2 48 0 (demo ()) = (Ret E_OK, s') \<and> mem_ptr s' 48 = 100 \<and> mbx_content 2 s' = Some [101]"
  using receive_message_takes_first [OF demo_mbx_ok _ demo_mbx_content(2), where tmout = 0 and p = 48, of "()"]
  by (auto simp: is_diswai_def demo_tasks has_def chk_tmout_def TMO_FEVR_def)

section \<open>Message buffers\<close>

text \<open>C18: A message that is stored in the ring buffer of a message buffer and fetched from it is the
  same message, also where it wraps around the end of the buffer; no other byte of the receiver's
  memory changes.\<close>

theorem ring_round_trip:
  assumes "mbf_holds cb []" "0 < sz" "sz < 2 ^ 31" "mbf_free cb sz"
  shows "\<exists>cb' mem'. mbf_to_msg (msg_to_mbf cb mem src sz) mem2 dst = (sz, cb', mem') \<and>
    mbf_holds cb' [] \<and> (\<forall>k < nat sz. mem' (dst + k) = mem (src + k)) \<and>
    (\<forall>a. a < dst \<or> a \<ge> dst + nat sz \<longrightarrow> mem' a = mem2 a)"
  by (rule mbf_round_trip [OF assms])

text \<open>An empty buffer whose next message wraps around.\<close>

definition wrap_mbfcb :: mbfcb where
  "wrap_mbfcb = demo_mbfcb\<lparr>frbufsz := 16, mbf_head := 8, mbf_tail := 8\<rparr>"

lemma wrap_holds: "mbf_holds wrap_mbfcb []"
  by (simp add: mbf_holds_def wrap_mbfcb_def demo_mbfcb_def)

theorem ring_round_trip_witness:
  "\<exists>cb' mem'. mbf_to_msg (msg_to_mbf wrap_mbfcb of_nat 200 11) (\<lambda>_. 0) 300 = (11, cb', mem') \<and> mbf_holds cb' []"
proof -
  have "mbf_free wrap_mbfcb 11"
    using mbf_free_iff [OF wrap_holds, of 11] by (simp add: wrap_mbfcb_def round4_def)
  then show ?thesis using ring_round_trip [OF wrap_holds, of 11 of_nat 200 "\<lambda>_. 0" 300] by auto
qed

text \<open>C19: Storing appends to what the ring holds and fetching takes the oldest message.\<close>

theorem ring_is_fifo:
  assumes "mbf_holds cb (m # ms)" "0 < sz" "sz < 2 ^ 31" "mbf_free cb sz"
  shows "mbf_holds (msg_to_mbf cb mem src sz) (m # ms @ [map (\<lambda>k. mem (src + k)) [0..<nat sz]]) \<and>
    (\<exists>cb' mem'. mbf_to_msg cb mem2 dst = (int (length m), cb', mem') \<and> mbf_holds cb' ms \<and>
       (\<forall>k < length m. mem' (dst + k) = m ! k))"
proof
  show "mbf_holds (msg_to_mbf cb mem src sz) (m # ms @ [map (\<lambda>k. mem (src + k)) [0..<nat sz]])"
    using msg_to_mbf_holds [OF assms] by simp
  show "\<exists>cb' mem'. mbf_to_msg cb mem2 dst = (int (length m), cb', mem') \<and> mbf_holds cb' ms \<and>
       (\<forall>k < length m. mem' (dst + k) = m ! k)"
    by (rule mbf_to_msg_holds [OF assms(1), of mem2 dst]) auto
qed

theorem ring_is_fifo_witness:
  "\<exists>cb' mem'. mbf_to_msg demo_mbfcb (\<lambda>_. 0) 300 = (1, cb', mem') \<and> mbf_holds cb' []"
proof -
  have "mbf_free demo_mbfcb 4"
    using mbf_free_iff [OF demo_holds, of 4] by (simp add: demo_mbfcb_def round4_def)
  then show ?thesis using ring_is_fifo [OF demo_holds, of 4 of_nat 200 "\<lambda>_. 0" 300] by auto
qed

text \<open>C20: Under every sequence of message buffer operations, also while the tasks write their
  memory, every ring holds well-formed messages, the first waiting sender's message does not fit,
  and a receiver waits only at a buffer without messages and senders.\<close>

theorem message_buffer_invariant:
  assumes "mbf_sys_step\<^sup>*\<^sup>* s s'" "mbf_ok s"
  shows "mbf_ok s' \<and> kinv s' \<and> (\<forall>i. mbf_exists i s' \<longrightarrow> (\<exists>ms. mbf_holds (mbfcb_table s' i) ms) \<and>
    (case que s' (WaitQ OSmbf i) of [] \<Rightarrow> True
     | t # _ \<Rightarrow> \<not> mbf_free (mbfcb_table s' i) (smbf_msgsz (winfo (tcbs s' t)))) \<and>
    (que s' (WaitQ ORmbf i) \<noteq> [] \<longrightarrow> mbf_empty (mbfcb_table s' i) \<and> que s' (WaitQ OSmbf i) = []))"
  using mbf_sys_steps_ok [OF assms] mbf_okD [of s']
  by (auto simp: mbf_obj_settled_def mbf_obj_pre_def Let_def)

theorem message_buffer_invariant_witness:
  "mbf_ok (snd (tk_rcv_mbf_u 500 1 300 0 (demo ())))"
  using message_buffer_invariant [OF r_into_rtranclp, OF mbf_sys_step.rcv_u demo_mbf_ok, of "()"] by simp

text \<open>C21: A receiver gets the oldest message of the buffer; messages of waiting senders that are
  accepted meanwhile come behind the messages that were there.\<close>

theorem receive_buffer_first:
  assumes "mbf_ok s" "mbf_exists i s" "mbf_holds (mbfcb_table s i) (m # ms)"
    "chk_tmout tmout" "\<not> in_ddsp s" "\<not> is_diswai (mbfatr (mbfcb_table s i)) (me s) TTW_RMBF s"
  shows "let s' = snd (tk_rcv_mbf_u p i msg tmout s)
    in fst (tk_rcv_mbf_u p i msg tmout s) = Ret (int (length m)) \<and>
       (\<forall>k < length m. mem_byte s' (msg + k) = m ! k) \<and> (\<exists>ns. mbf_holds (mbfcb_table s' i) (ms @ ns))"
  unfolding Let_def using tk_rcv_mbf_u_first [OF assms] by blast

theorem receive_buffer_first_witness:
  "fst (tk_rcv_mbf_u 500 1 300 0 (demo ())) = Ret 1"
  using receive_buffer_first [OF demo_mbf_ok, of 1 "()" "[7]" "[]" 0 500 300] demo_holds
  by (simp add: Let_def is_diswai_def demo_tasks has_def chk_tmout_def TMO_FEVR_def)

text \<open>C22: A message buffer whose size is rounded up beyond the range of \<open>INT\<close> is created without
  an error, with a negative size and no memory, and a message passes the test for room.\<close>

theorem create_buffer_overflow:
  assumes "free_mbfcb s = i # free" "chk_rsatr (cb_mbfatr pk) VALID_MBFATR" "cb_maxmsz pk > 0"
    "cb_bufsz pk = INT_MAX"
  shows "let c = mbfcb_table (snd (tk_cre_mbf malloc pk s)) i
    in fst (tk_cre_mbf malloc pk s) = i \<and> bufsz c = - (2 ^ 31) \<and> mbf_buffer c = None \<and> mbf_free c 100"
  using assms by (simp add: tk_cre_mbf_def Let_def INT_MAX_def ROUNDSZ_def ROUNDSIZE_def mbf_free_def HEADERSZ_def)

theorem create_buffer_overflow_witness:
  "fst (tk_cre_mbf None \<lparr>cb_exinf = 0, cb_mbfatr = 0, cb_bufsz = INT_MAX, cb_maxmsz = 100, cb_dsname = []\<rparr> (demo ())) = 2"
  using create_buffer_overflow [of "demo ()" 2 "[]" "\<lparr>cb_exinf = 0, cb_mbfatr = 0, cb_bufsz = INT_MAX, cb_maxmsz = 100, cb_dsname = []\<rparr>" None]
  by (simp add: Let_def chk_rsatr_def has_def)


section \<open>Mutexes\<close>



text \<open>C24: A change of a base priority returns, however long the chain of tasks that wait for each
  other's mutexes is, and also when the chain is a circle: the functions \<open>mtx_chg_pri\<close>,
  \<open>change_task_priority\<close> and \<open>release_mutex\<close> call each other only finitely often. The call is refused
  exactly when the new priority would pass a ceiling; otherwise all priorities are right again.\<close>

theorem change_priority_returns:
  assumes "mtx_ok s" "task_alive (tstate (tcbs s t))" "pri < NUM_PRI"
  shows "\<exists>e s'. change_base_priority t pri s = Some (e, s') \<and> mtx_ok s' \<and>
    (if passes_ceiling t pri s then e = E_ILUSE \<and> s' = s else e = E_OK \<and> bpriority (tcbs s' t) = pri)"
proof -
  have "\<exists>e s'. change_base_priority t pri s = Some (e, s') \<and> mtx_ok s' \<and>
    (if passes_ceiling t pri s then e = E_ILUSE \<and> s' = s else e = E_OK \<and> mtx_keeps s' (set_base t pri s))"
    by (rule change_base_priority_ok [OF assms])
  then obtain e s' where s': "change_base_priority t pri s = Some (e, s')" "mtx_ok s'"
    "if passes_ceiling t pri s then e = E_ILUSE \<and> s' = s else e = E_OK \<and> mtx_keeps s' (set_base t pri s)" by blast
  then show ?thesis
    by (intro exI [of _ e] exI [of _ s']) (auto simp: mtx_keepsD(5) split: if_splits)
qed

theorem change_priority_returns_witness:
  "\<exists>e s'. change_base_priority 1 33 circle = Some (e, s') \<and> mtx_ok s'"
  using change_priority_returns [OF circle_ok, of 1 33] by (auto simp: circle_alive NUM_PRI_def)

text \<open>C25: Locking a mutex returns or puts the caller to wait. If it returns \<open>E_OK\<close> the mutex was
  free and now belongs to the caller; if the caller waits, it is in the queue of the mutex, the
  holder is the same, and, for a mutex with inheritance, does not have a lower priority than the
  caller; with any other result nothing has changed.\<close>

theorem lock_mutex:
  assumes "mtx_ok s" "running t s"
  shows "\<exists>ret s'. tk_loc_mtx_u i tmout s = Some (ret, s') \<and>
    (if ret = Ret E_OK then mtxtsk (mtxcb_table s i) = None \<and> mtxtsk (mtxcb_table s' i) = Some t
     else if ret = Blocked then t \<in> set (que s' (WaitQ OMtx i)) \<and>
       (\<exists>h. mtxtsk (mtxcb_table s i) = Some h \<and> mtxtsk (mtxcb_table s' i) = Some h \<and>
          (mtx_kind i s' = TA_INHERIT \<longrightarrow> priority (tcbs s' h) \<le> priority (tcbs s' t)))
     else s' = s)"
proof -
  have "\<exists>ret s'. tk_loc_mtx_u i tmout s = Some (ret, s') \<and> mtx_ok s' \<and>
    (if ret = Ret E_OK then mtxtsk (mtxcb_table s i) = None \<and> mtxtsk (mtxcb_table s' i) = Some t
     else if ret = Blocked then t \<in> set (que s' (WaitQ OMtx i)) \<and>
       (\<exists>h. mtxtsk (mtxcb_table s i) = Some h \<and> mtxtsk (mtxcb_table s' i) = Some h)
     else s' = s)" by (rule tk_loc_mtx_u_ok [OF assms])
  then obtain ret s' where r: "tk_loc_mtx_u i tmout s = Some (ret, s')" "mtx_ok s'"
    "if ret = Ret E_OK then mtxtsk (mtxcb_table s i) = None \<and> mtxtsk (mtxcb_table s' i) = Some t
     else if ret = Blocked then t \<in> set (que s' (WaitQ OMtx i)) \<and>
       (\<exists>h. mtxtsk (mtxcb_table s i) = Some h \<and> mtxtsk (mtxcb_table s' i) = Some h)
     else s' = s" by blast
  have "priority (tcbs s' h) \<le> priority (tcbs s' t)"
    if "t \<in> set (que s' (WaitQ OMtx i))" "mtxtsk (mtxcb_table s' i) = Some h" "mtx_kind i s' = TA_INHERIT" for h
    by (rule inherits [OF r(2) that])
  then show ?thesis using r by (intro exI [of _ ret] exI [of _ s']) auto
qed

theorem lock_mutex_witness:
  "\<exists>ret s'. tk_loc_mtx_u 2 (-1) lent = Some (ret, s') \<and> ret \<noteq> Ret E_OK"
  using lock_mutex [OF lent_ok lent_running, of 2 "-1"] by (auto simp: lent_sel split: if_splits)

text \<open>C26: Unlocking a mutex returns; if it returns \<open>E_OK\<close> the caller held the mutex, and it now
  belongs to the task that was first in its queue, which waits no longer, or to nobody if none
  waited. All priorities are right afterwards.\<close>

theorem unlock_mutex:
  assumes "mtx_ok s" "running t s"
  shows "\<exists>e s'. tk_unl_mtx i s = Some (e, s') \<and> mtx_ok s' \<and>
    (e = E_OK \<longrightarrow> mtxtsk (mtxcb_table s i) = Some t \<and>
       mtxtsk (mtxcb_table s' i) = (case que s (WaitQ OMtx i) of [] \<Rightarrow> None | u # _ \<Rightarrow> Some u) \<and>
       (\<forall>u us. que s (WaitQ OMtx i) = u # us \<longrightarrow> \<not> in_wait (tstate (tcbs s' u)))) \<and>
    (e \<noteq> E_OK \<longrightarrow> s' = s)"
  by (rule tk_unl_mtx_ok [OF assms])

theorem unlock_mutex_witness:
  "\<exists>e s'. tk_unl_mtx 1 lent = Some (e, s') \<and> mtx_ok s' \<and>
    (e = E_OK \<longrightarrow> mtxtsk (mtxcb_table s' 1) = Some 2 \<and> \<not> in_wait (tstate (tcbs s' 2)))"
  using unlock_mutex [OF lent_ok lent_running, of 1] by (auto simp: lent_sel)

text \<open>C27: The condition on deletions in C23 is needed. In the state \<open>circle\<close> tasks 1 and 2 hold
  mutexes 1 and 2 and wait for each other; every priority is right. When another task deletes
  mutex 1, the chain of corrections runs through the circle while the waiting tasks are still
  queued: task 1 holds no mutex any more, its base priority is 20, but it is left with priority 8.\<close>

theorem deletion_in_circle:
  "mtx_ok circle \<and> \<not> avoids {1} 1 circle \<and>
   (\<exists>s'. tk_del_mtx 1 circle = Some (E_OK, s') \<and> mtxlist (tcbs s' 1) = None \<and>
      bpriority (tcbs s' 1) = 20 \<and> priority (tcbs s' 1) = 8)"
proof -
  have "\<not> avoids {1} 1 circle" by (rule circle_not_avoids)
  moreover have "\<exists>s'. tk_del_mtx 1 circle = Some (E_OK, s') \<and> mtxlist (tcbs s' 1) = None \<and>
      bpriority (tcbs s' 1) = 20 \<and> priority (tcbs s' 1) = 8"
    using circle_deleted by (auto simp: after_deletion_def E_OK_def)
  ultimately show ?thesis using circle_ok by blast
qed

section \<open>Task-dependent synchronisation\<close>

text \<open>C28: Whatever the tasks do to each other (suspend, resume, sleep, wake up, wait for and signal
  task events, time out), for every task: it has suspensions to its count exactly when it is
  suspended, it does not sleep while a wakeup is stored for it, and it does not wait for an event
  that is set.\<close>

theorem task_sync_invariant:
  assumes "sync_step\<^sup>*\<^sup>* s s'" "sync_ok s" "task_alive (tstate (tcbs s' t))"
  shows "(suscnt (tcbs s' t) > 0 \<longleftrightarrow> tstate (tcbs s' t) \<in> {TS_SUSPEND, TS_WAITSUS}) \<and>
    \<not> (in_wait (tstate (tcbs s' t)) \<and> wspec (tcbs s' t) = wspec_slp \<and> wupcnt (tcbs s' t) > 0) \<and>
    \<not> (in_wait (tstate (tcbs s' t)) \<and> has (tskwait (wspec (tcbs s' t))) (toTTW (ucast (tskevt (tcbs s' t)))))"
  using sync_okD(3) [OF sync_steps_ok [OF assms(1,2)] assms(3)] by (auto simp: sync_tcb_def)

lemma demo_sync_ok: "sync_ok (demo x)"
  by (auto simp: sync_ok_def demo_kinv demo_sched_ok sync_tcb_def demo_tcbs_def demo_tcb_def
      INT_MAX_def has_def toTTW_def wspec_slp_def wspec_sem_tfifo_def wspec_flg_tpri_def
      wspec_mbx_tfifo_def wspec_smbf_tfifo_def)

theorem task_sync_invariant_witness:
  "let s' = snd (tk_sus_tsk 2 (demo ())) in
     suscnt (tcbs s' 2) > 0 \<longleftrightarrow> tstate (tcbs s' 2) \<in> {TS_SUSPEND, TS_WAITSUS}"
proof -
  let ?s' = "snd (tk_sus_tsk 2 (demo ()))"
  have s: "sync_step\<^sup>*\<^sup>* (demo ()) ?s'" by (rule r_into_rtranclp) (rule sync_step.sus)
  have c: "check_other 2 (demo ()) = E_OK"
    by (simp add: check_other_def check_tskid_def chk_id_def TSK_SELF_def)
  have "task_alive (tstate (tcbs ?s' 2))"
    by (rule sus_once(6) [OF demo_sync_ok c]) (simp_all add: demo_tcb_def INT_MAX_def task_alive_iff)
  then show ?thesis using task_sync_invariant [OF s demo_sync_ok, of 2] by (simp add: Let_def)
qed



section \<open>Managers of the B-system\<close>

text \<open>C30: The event queue is a queue: whatever sequence of events is sent and fetched, the events
  that were fetched, followed by those still in the queue, are those that were in it, followed by
  those that were accepted, in this order; and it never holds more than 256.\<close>

theorem event_queue_fifo:
  assumes "evt_ok s" "q_run evt_put evt_fetch ops s = (ins, outs, s')"
  shows "outs @ evt_content s' = evt_content s @ ins \<and> length (evt_content s') \<le> EVENT_QUEUE_SIZE"
  using evq.fifo [OF assms] evq.bounded [OF evq.run_inv [OF assms]] by simp

theorem event_queue_fifo_witness:
  "\<exists>ins outs s'. q_run evt_put evt_fetch [Put evt0, Take (), Take ()] evt_boot = (ins, outs, s') \<and>
     outs @ evt_content s' = ins"
proof (cases "q_run evt_put evt_fetch [Put evt0, Take (), Take ()] evt_boot")
  case (fields ins outs s')
  then show ?thesis using event_queue_fifo [OF evt_boot_ok(1) fields] evt_boot_ok(2) by simp
qed

text \<open>C31: Messages of one type come out of a mailbox in the order in which they were sent, whatever
  the masks of the receivers are; none is lost and none comes twice.\<close>

theorem messages_in_order:
  assumes "mb_ok mb" "q_run mb_put mb_fetch ops mb = (ins, outs, mb')"
  shows "filter (\<lambda>m. nat (msg_type m) = k) outs @ filter (\<lambda>m. nat (msg_type m) = k) (mb_content mb') =
      filter (\<lambda>m. nat (msg_type m) = k) (mb_content mb) @ filter (\<lambda>m. nat (msg_type m) = k) ins \<and>
    mset outs + mset (mb_content mb') = mset (mb_content mb) + mset ins"
  using ipcq.fifo_by_kind [OF assms] ipcq.nothing_lost [OF assms] by simp

theorem messages_in_order_witness:
  "\<exists>ins outs mb'. q_run mb_put mb_fetch [Put message0, Take 5] mailbox0 = (ins, outs, mb') \<and>
     mset outs + mset (mb_content mb') = mset ins"
proof (cases "q_run mb_put mb_fetch [Put message0, Take 5] mailbox0")
  case (fields ins outs mb')
  then show ?thesis using messages_in_order [OF mailbox0_ok(1) fields] mailbox0_ok(2) by simp
qed



text \<open>C33: In every state the file system can get into, a write to an open record stays within the
  4096 bytes of the record, whatever positions and truncations came before.\<close>

theorem writes_in_bounds:
  assumes "fs_step\<^sup>*\<^sup>* fs_boot s" "wr_rec r (Some b) sz s = (ER_OK, Some n, s')"
  shows "0 \<le> o_offset (orec r s) \<and> 0 \<le> n \<and> o_offset (orec r s) + n \<le> int (length (r_data (orec_rec (orec r s) s)))"
proof -
  have ok: "fs_ok s" by (rule fs_steps_ok [OF assms(1) fs_boot_ok])
  have b: "\<not> bad_rec r" "o_open (orec r s)" "0 \<le> sz" using assms(2) by (auto simp: wr_rec_def split: if_splits)
  note o = orec_open [OF ok b(1,2)]
  show ?thesis
    using wr_rec_cases(1,2) [OF ok b] wr_rec_cases(3) [OF ok b, where b = b] o(4,6) assms(2) by (auto simp: rec_ok_def)
qed

theorem writes_in_bounds_witness:
  "\<exists>n s'. wr_rec 1 (Some [1, 2, 3]) 3 fs_demo = (ER_OK, Some n, s') \<and> 0 \<le> n \<and> n \<le> int (length (r_data (orec_rec (orec 1 fs_demo) fs_demo)))"
proof -
  obtain n s' where w: "wr_rec 1 (Some [1, 2, 3]) 3 fs_demo = (ER_OK, Some n, s')"
    using wr_rec_cases(3) [OF fs_demo_ok fs_demo_open(1,2), of 3 "[1, 2, 3]"] by simp
  then show ?thesis using writes_in_bounds [OF fs_demo_reached w] fs_demo_open(3) by auto
qed

text \<open>C34: What \<open>wr_rec\<close> wrote is what \<open>rd_rec\<close> reads after the position is set back.\<close>

theorem write_then_read:
  assumes "fs_ok s" "\<not> bad_rec r" "o_open (orec r s)" "0 \<le> sz" "sz \<le> int (length b)" "length buf = length b"
    and "o_offset (orec r s) \<le> r_size (orec_rec (orec r s) s)"
    and "wr_rec r (Some b) sz s = (e1, Some n, s1)"
    and "pos_rec r (o_offset (orec r s)) REC_POS_SET s1 = (e2, s2)"
    and "rd_rec r (Some buf) n s2 = (e3, Some got, Some m, s3)"
  shows "e1 = ER_OK \<and> e2 = ER_OK \<and> e3 = ER_OK \<and> m = n \<and> take (nat n) got = take (nat n) b"
  by (rule write_read [OF assms(1-5,7,6,8-10)])

theorem write_then_read_witness:
  "\<exists>n s1 s2 got s3. wr_rec 1 (Some [7, 8]) 2 fs_demo = (ER_OK, Some n, s1) \<and>
     pos_rec 1 0 REC_POS_SET s1 = (ER_OK, s2) \<and> rd_rec 1 (Some [0, 0]) n s2 = (ER_OK, Some got, Some n, s3) \<and>
     take (nat n) got = take (nat n) [7, 8]"
proof -
  obtain n s1 where w: "wr_rec 1 (Some [7, 8]) 2 fs_demo = (ER_OK, Some n, s1)" "0 \<le> n"
    using wr_rec_cases(1) [OF fs_demo_ok fs_demo_open(1,2), of 2]
      wr_rec_cases(3) [OF fs_demo_ok fs_demo_open(1,2), of 2 "[7, 8]"] by simp
  obtain e2 s2 where p: "pos_rec 1 0 REC_POS_SET s1 = (e2, s2)" by fastforce
  have sz: "0 \<le> r_size (orec_rec (orec 1 fs_demo) fs_demo)"
    using orec_open(6) [OF fs_demo_ok fs_demo_open(1,2)] by (simp add: rec_ok_def)
  have ok1: "fs_ok s1" using wr_rec_ok [OF fs_demo_ok, of "Some [7, 8]" 2 1] w by simp
  have ok2: "fs_ok s2" using pos_rec_ok [OF ok1, of 1 0 REC_POS_SET] p by simp
  have op: "o_open (orec 1 s1)"
    using wr_rec_spec(4) [OF fs_demo_ok fs_demo_open(1,2), of 2 "[7, 8]"] w fs_demo_open sz by simp
  then have "o_open (orec 1 s2)"
    using p orec_upd [OF ok1, of 1] fs_demo_open(1) by (auto simp: pos_rec_def Let_def MAX_OPEN_RECS_def split: if_splits)
  then obtain e3 got m s3 where r: "rd_rec 1 (Some [0, 0]) n s2 = (e3, Some got, Some m, s3)"
    using rd_rec_spec(2,3) [OF ok2 fs_demo_open(1) _ w(2), where buf = "[0, 0]"]
    by (cases "rd_rec 1 (Some [0, 0]) n s2") auto
  have "o_offset (orec 1 fs_demo) = 0" by (rule fs_demo_open(3))
  then have "e2 = ER_OK \<and> e3 = ER_OK \<and> m = n \<and> take (nat n) got = take (nat n) [7, 8]"
    using write_then_read [OF fs_demo_ok fs_demo_open(1,2) _ _ _ _ w(1), of "[0, 0]" e2 s2 e3 got m s3] p r sz by simp
  then show ?thesis using w(1) p r by blast
qed

text \<open>C35: A file that is created in the slot of a deleted one has all records of the deleted file.\<close>

theorem deleted_records_return:
  assumes "fs_ok s" "g_fs_init s" "find_file p s = Some i" "\<And>j. j < i \<Longrightarrow> f_exists (g_files s ! j)"
    and "find_file q (snd (del_fil (Some p) s)) = None"
  shows "fst (cre_fil (Some q) md (snd (del_fil (Some p) s))) = int i + 1 \<and>
    f_records (g_files (snd (cre_fil (Some q) md (snd (del_fil (Some p) s)))) ! i) = f_records (g_files s ! i)"
  by (rule new_file_old_records [OF assms])

theorem deleted_records_return_witness:
  "fst (cre_fil (Some ''/a'') 0 (snd (del_fil (Some ''/sys/startup.tad'') (fs_init_once fs_boot)))) = 1"
  using deleted_records_return [OF fs_init_once_ok [OF fs_boot_ok] fs_init_once_init fs_start, of "''/a''" 0]
  by (simp add: fs_only_file)



section \<open>Rendezvous and memory pools\<close>

text \<open>C37: In every state that the operations on ports lead to, an acceptor whose pattern meets that of
  a waiting caller gets the first such caller; the caller then waits, in no queue of the port, until a
  reply with the number the acceptor was given releases it with the size of the reply as its result,
  and a second reply with that number is refused.\<close>

theorem rendezvous_served:
  assumes "por_sys_step\<^sup>*\<^sup>* s0 s" and "por_inv s0"
    and "por_exists i s" and "\<not> in_ddsp s" and "ptn \<noteq> 0" and "chk_tmout tmout"
    and "find (\<lambda>v. ptn AND cal_calptn (winfo (tcbs s v)) \<noteq> 0) (que s (WaitQ OCal i)) = Some u"
    and "chk_id (max_tskid s) u"
    and "\<not> is_diswai (poratr (porcb_table s i)) (me s) TTW_ACP s"
    and "\<not> is_diswai (poratr (porcb_table s i)) u TTW_RDV s"
    and "0 \<le> n" and "n \<le> maxrmsz (porcb_table s i)"
  shows "\<exists>s1 s2. tk_acp_por_u p i ptn pr msg tmout s = (Ret (cal_cmsgsz (winfo (tcbs s u))), s1) \<and>
    in_wait (tstate (tcbs s1 u)) \<and> u \<notin> set (que s1 (WaitQ OCal i)) \<and>
    tk_rpl_rdv (mem_uint s1 pr) reply n s1 = (E_OK, s2) \<and>
    \<not> in_wait (tstate (tcbs s2 u)) \<and> rdv_result (cal_p_rmsgsz (winfo (tcbs s u))) u s2 = n \<and>
    fst (tk_rpl_rdv (mem_uint s1 pr) reply n s2) = E_OBJ"
  by (rule rendezvous_meets [OF por_sys_steps_ok [OF assms(1,2)] assms(3-6) _ assms(8-12)])
    (use assms(7) in \<open>simp add: find_cal_def\<close>)

theorem rendezvous_served_witness:
  "\<exists>s1 s2. tk_acp_por_u 90 1 3 94 500 TMO_FEVR (pools ()) = (Ret 4, s1) \<and>
    in_wait (tstate (tcbs s1 7)) \<and> 7 \<notin> set (que s1 (WaitQ OCal 1)) \<and>
    tk_rpl_rdv (mem_uint s1 94) 600 2 s1 = (E_OK, s2) \<and>
    \<not> in_wait (tstate (tcbs s2 7)) \<and> rdv_result 60 7 s2 = 2 \<and>
    fst (tk_rpl_rdv (mem_uint s1 94) 600 2 s2) = E_OBJ"
  using rendezvous_served [of "pools ()" "pools ()" 1 3 TMO_FEVR 7 2 90 94 500 600] pools_por_inv [of "()"]
  by (simp add: chk_id_def chk_tmout_def TMO_FEVR_def is_diswai_def pools_tasks has_def demo_porcb_def)





section \<open>The timer interrupt\<close>

text \<open>C40: The timer interrupt returns, whatever events are in the queue, when no handler sets an event
  that is due at once: the clock has gone on by one period, the invariant holds (with the priorities of
  all tasks right after the releases), the events left in the queue all lie in the future, the started
  cyclic and alarm handlers and no others have their event there, and only waiting tasks have theirs.\<close>

theorem timer_handler_serves:
  assumes "tim_ok s" and "handlers_behave usr"
    and "sint (current_time s) + uint (timer_period s) < 2 ^ 61"
  shows "\<exists>s'. timer_handler usr s = Some s' \<and> tim_ok s' \<and>
    sint (current_time s') = sint (current_time s) + uint (timer_period s) \<and>
    (\<forall>ev \<in> set (timer_queue s'). sint (current_time s') < event_time s' ev) \<and>
    (\<forall>i. CycTm i \<in> set (timer_queue s') \<longleftrightarrow> cyc_exists i s' \<and> has (cycstat (cyccb_table s' i)) TCYC_STA) \<and>
    (\<forall>i. AlmTm i \<in> set (timer_queue s') \<longleftrightarrow> alm_exists i s' \<and> has (almstat (almcb_table s' i)) TALM_STA) \<and>
    (\<forall>t. TskTm t \<in> set (timer_queue s') \<longrightarrow> in_wait (tstate (tcbs s' t)))"
  using timer_handler_returns [OF assms] tim_ok_events by (fastforce simp: due_events_def event_time_def)

theorem timer_handler_serves_witness:
  "due_events (timers\<lparr>current_time := 11000\<rparr>) = {CycTm 1, TskTm 5} \<and>
    (\<exists>s'. timer_handler demo_usr timers = Some s' \<and> sint (current_time s') = 11000 \<and>
       (\<forall>ev \<in> set (timer_queue s'). 11000 < event_time s' ev))"
proof -
  have "due_events (timers\<lparr>current_time := 11000\<rparr>) = {CycTm 1, TskTm 5}" by (auto simp: due_events_def)
  then show ?thesis using timer_handler_serves [OF timers_ok demo_usr_behaves] by auto
qed

section \<open>The start of the kernel\<close>

text \<open>C8: When the configuration is valid and memory is there, \<open>t_kernel_main\<close> initialises every module and
  dispatches the initial task, the only task there is, and all the invariants hold that the other
  properties start from: of tasks and their synchronisation, semaphores, event flags, mailboxes,
  message buffers, ports, mutexes, memory pools, timer events and subsystems.\<close>

theorem kernel_starts:
  fixes s :: "'a ssy_st_scheme"
  assumes "cfn_ok cfn" and "\<forall>name k. mem name k" and "cold cfn s"
    and "ctsk_error inittask (snd (init_modules cfn mem rest s)) = E_OK"
    and "\<forall>n a. sys_alloc n a \<noteq> None" and "\<forall>n a. usr_alloc n a \<noteq> None"
  shows "\<exists>s'. t_kernel_main cfn mem rest sys_alloc usr_alloc inittask s = ([], s') \<and>
    ctxtsk s' = Some 1 \<and> tstate (tcbs s' 1) = TS_READY \<and> (\<forall>t. t \<noteq> 1 \<longrightarrow> tstate (tcbs s' t) = TS_NONEXIST) \<and>
    life_ok s' \<and> sync_ok s' \<and> sem_ok s' \<and> flg_ok s' \<and> mbx_ok s' \<and> mbf_ok s' \<and> por_inv s' \<and> mtx_ok s' \<and>
    mpl_ok s' \<and> mpf_ok s' \<and> tim_ok s' \<and> (\<exists>Q. ssy_inv Q s') \<and> res_ok s'"
  using t_kernel_main_starts [OF assms] unfolding system_ok_def by blast

theorem kernel_starts_witness:
  "\<forall>s :: ssy_st. \<exists>s'. t_kernel_main demo_cfn (\<lambda>_ _. True) (\<lambda>_. 0) (\<lambda>_ _. Some 4096) (\<lambda>_ _. Some 8192) demo_inittask
     (power_on s) = ([], s') \<and> ctxtsk s' = Some 1 \<and> mtx_ok s' \<and> tim_ok s'"
proof
  fix s :: ssy_st
  show "\<exists>s'. t_kernel_main demo_cfn (\<lambda>_ _. True) (\<lambda>_. 0) (\<lambda>_ _. Some 4096) (\<lambda>_ _. Some 8192) demo_inittask
     (power_on s) = ([], s') \<and> ctxtsk s' = Some 1 \<and> mtx_ok s' \<and> tim_ok s'"
    using kernel_starts [OF demo_cfn_ok _ power_on_cold demo_inittask_ok, of "\<lambda>_ _. True" "\<lambda>_ _. Some 4096" "\<lambda>_ _. Some 8192" "\<lambda>_. 0" s]
    by auto
qed

end
